(* ===== verification/Prelude.thy ===== *)
theory Prelude
  imports Main "HOL-Library.Word" "HOL-Library.Finite_Map" "HOL-Library.FSet"
begin

text \<open>
  Shared material of the development: the machine integer types of the Rust sources, Rust's
  checked and saturating arithmetic, \<^emph>\<open>Result\<close> as a sum type, the blank and ASCII tests on
  strings, fixed-width byte encodings, and the generic facts on finite maps and lists that the
  component theories use.
\<close>

named_theorems rust_arith
named_theorems rust_result
named_theorems eval_def

section \<open>Machine integers\<close>

type_synonym u8 = "8 word"
type_synonym u16 = "16 word"
type_synonym u32 = "32 word"
type_synonym u64 = "64 word"
type_synonym bytes = "u8 list"

text \<open>
  A fixed digest \<open>[u8; 32]\<close> is a 256-bit word read in big-endian order. The
  correspondence is one to one, equality is equality of bytes, and the order of the words is the
  lexicographic order of the byte arrays, which is what the derived \<open>Ord\<close> of the Rust types
  compares.
\<close>

type_synonym digest = "256 word"

definition checked_add :: "'a::len word \<Rightarrow> 'a word \<Rightarrow> 'a word option" where
  "checked_add a b = (if unat a + unat b < 2 ^ LENGTH('a) then Some (a + b) else None)"

definition saturating_add :: "'a::len word \<Rightarrow> 'a word \<Rightarrow> 'a word" where
  "saturating_add a b = (if unat a + unat b < 2 ^ LENGTH('a) then a + b else - 1)"

definition saturating_sub :: "'a::len word \<Rightarrow> 'a word \<Rightarrow> 'a word" where
  "saturating_sub a b = (if b \<le> a then a - b else 0)"

lemma checked_add_Some_iff [rust_arith]:
  "checked_add a b = Some c \<longleftrightarrow> unat a + unat b < 2 ^ LENGTH('a) \<and> c = a + b"
  for a b c :: "'a::len word"
  by (auto simp: checked_add_def)

lemma checked_add_None_iff [rust_arith]:
  "checked_add a b = None \<longleftrightarrow> 2 ^ LENGTH('a) \<le> unat a + unat b" for a b :: "'a::len word"
  by (auto simp: checked_add_def)

lemma unat_checked_add:
  assumes "checked_add a b = Some c"
  shows "unat c = unat a + unat b"
  using assms by (simp add: checked_add_Some_iff unat_word_ariths)

lemma unat_saturating_add:
  "unat (saturating_add a b) = min (unat a + unat b) (2 ^ LENGTH('a) - 1)" for a b :: "'a::len word"
  by (auto simp: saturating_add_def unat_word_ariths unsigned_minus_1_eq_mask mask_eq_exp_minus_1 min_def)

lemma unat_saturating_sub:
  "unat (saturating_sub a b) = unat a - unat b" for a b :: "'a::len word"
  by (auto simp: saturating_sub_def unat_sub word_le_nat_alt)

lemma unat_succ_less: "a \<noteq> - 1 \<Longrightarrow> unat a + 1 < 2 ^ LENGTH('a)" for a :: "'a::len word"
proof -
  assume "a \<noteq> - 1"
  then have "unat a \<noteq> unat (- 1 :: 'a word)" by (simp add: word_unat_eq_iff)
  moreover have "unat (- 1 :: 'a word) = 2 ^ LENGTH('a) - 1" by (simp add: unsigned_minus_1_eq_mask mask_eq_exp_minus_1)
  moreover have "unat a < 2 ^ LENGTH('a)" by (rule unsigned_less)
  ultimately show ?thesis by linarith
qed

lemma checked_succ: "a \<noteq> - 1 \<Longrightarrow> checked_add a 1 = Some (a + 1)" for a :: "'a::len word"
  using unat_succ_less [of a] by (simp add: checked_add_def)

lemma saturating_succ: "a \<noteq> - 1 \<Longrightarrow> saturating_add a 1 = a + 1" for a :: "'a::len word"
  using unat_succ_less [of a] by (simp add: saturating_add_def)

lemma word_less_pos: "a < b \<Longrightarrow> 0 < b" for a b :: "'a::len word"
  by (metis word_gt_0 word_not_simps(1))

section \<open>Results\<close>

text \<open>\<open>Result<T, E>\<close> is \<open>'e + 'a\<close> with \<open>Inl\<close> for \<open>Err\<close>; \<open>and_then\<close> is the
  operator \<open>?\<close> followed by the rest of the function body.\<close>

definition and_then :: "'e + 'a \<Rightarrow> ('a \<Rightarrow> 'e + 'b) \<Rightarrow> 'e + 'b" where
  "and_then r f = (case r of Inl e \<Rightarrow> Inl e | Inr x \<Rightarrow> f x)"

definition ok_or :: "'a option \<Rightarrow> 'e \<Rightarrow> 'e + 'a" where
  "ok_or x e = (case x of None \<Rightarrow> Inl e | Some y \<Rightarrow> Inr y)"

lemma and_then_simps [simp]:
  "and_then (Inl e) f = Inl e" "and_then (Inr x) f = f x"
  by (simp_all add: and_then_def)

lemma ok_or_simps [simp]:
  "ok_or None e = Inl e" "ok_or (Some x) e = Inr x"
  by (simp_all add: ok_or_def)

lemma and_then_Inr_iff [rust_result]:
  "and_then r f = Inr y \<longleftrightarrow> (\<exists>x. r = Inr x \<and> f x = Inr y)"
  by (cases r) auto

lemma and_then_Inl_iff [rust_result]:
  "and_then r f = Inl e \<longleftrightarrow> r = Inl e \<or> (\<exists>x. r = Inr x \<and> f x = Inl e)"
  by (cases r) auto

lemma ok_or_Inr_iff [rust_result]: "ok_or x e = Inr y \<longleftrightarrow> x = Some y"
  by (cases x) auto

lemma ok_or_Inl_iff [rust_result]: "ok_or x e = Inl e' \<longleftrightarrow> x = None \<and> e' = e"
  by (cases x) auto

text \<open>\<open>map_err\<close> and \<open>map\<close> of a result are the two arguments of \<^const>\<open>map_sum\<close>.\<close>

lemma map_sum_Inr_iff [rust_result]: "map_sum f g r = Inr y \<longleftrightarrow> (\<exists>x. r = Inr x \<and> g x = y)"
  by (cases r) auto

lemma map_sum_Inl_iff [rust_result]: "map_sum f g r = Inl y \<longleftrightarrow> (\<exists>x. r = Inl x \<and> f x = y)"
  by (cases r) auto

section \<open>Strings\<close>

text \<open>
  A Rust \<open>String\<close> is its UTF-8 bytes. \<open>ws_len\<close> is the number of bytes of the
  \<open>White_Space\<close> code point at the front of the string (0 when there is none), and
  \<open>str_blank s\<close> is \<open>s.trim().is_empty()\<close>.
\<close>

definition byte_of :: "char \<Rightarrow> nat" where
  "byte_of c = of_char c"

definition ws_len :: "string \<Rightarrow> nat" where
  "ws_len s = (case map byte_of (take 3 s) of
     [] \<Rightarrow> 0
   | b # bs \<Rightarrow>
       if (9 \<le> b \<and> b \<le> 13) \<or> b = 32 then 1
       else if b = 194 \<and> bs \<noteq> [] \<and> (bs ! 0 = 133 \<or> bs ! 0 = 160) then 2
       else if length bs = 2 \<and>
            (b = 225 \<and> bs = [154, 128] \<or>
             b = 226 \<and> bs ! 0 = 128 \<and>
               (128 \<le> bs ! 1 \<and> bs ! 1 \<le> 138 \<or> bs ! 1 = 168 \<or> bs ! 1 = 169 \<or> bs ! 1 = 175) \<or>
             b = 226 \<and> bs = [129, 159] \<or>
             b = 227 \<and> bs = [128, 128]) then 3
       else 0)"

lemma ws_len_Nil [simp]: "ws_len [] = 0"
  by (simp add: ws_len_def)

function str_blank :: "string \<Rightarrow> bool" where
  "str_blank s =
     (if s = [] then True
      else if ws_len s = 0 then False
      else str_blank (drop (ws_len s) s))"
  by pat_completeness auto
termination
  by (relation "measure length") auto

declare str_blank.simps [simp del]

definition str_is_ascii :: "string \<Rightarrow> bool" where
  "str_is_ascii s = list_all (\<lambda>c. byte_of c < 128) s"

lemma str_blank_Nil [simp]: "str_blank []"
  by (subst str_blank.simps) simp

lemma not_blank_not_Nil: "\<not> str_blank s \<Longrightarrow> s \<noteq> []"
  by auto

text \<open>A hexadecimal digit in lower case, and \<open>is_ascii_graphic\<close> on every byte.\<close>

definition hex_digit :: "nat \<Rightarrow> char" where
  "hex_digit n = (if n < 10 then char_of (48 + n) else char_of (87 + n))"

definition ascii_graphic :: "string \<Rightarrow> bool" where
  "ascii_graphic s = list_all (\<lambda>c. 33 \<le> byte_of c \<and> byte_of c \<le> 126) s"

text \<open>Decimal digits, \<open>to_string\<close> of an unsigned integer and \<open>str::parse::<u64>\<close>.\<close>

definition is_ascii_digit :: "char \<Rightarrow> bool" where
  "is_ascii_digit c \<longleftrightarrow> 48 \<le> byte_of c \<and> byte_of c \<le> 57"

fun dec_string :: "nat \<Rightarrow> string" where
  "dec_string n = (if n < 10 then [char_of (48 + n)] else dec_string (n div 10) @ [char_of (48 + n mod 10)])"

declare dec_string.simps [simp del]

definition dec_value :: "string \<Rightarrow> nat" where
  "dec_value s = foldl (\<lambda>a c. a * 10 + (byte_of c - 48)) 0 s"

definition parse_u64 :: "string \<Rightarrow> u64 option" where
  "parse_u64 s =
     (let ds = (if s \<noteq> [] \<and> hd s = CHR ''+'' \<and> tl s \<noteq> [] then tl s else s)
      in if ds \<noteq> [] \<and> list_all is_ascii_digit ds \<and> dec_value ds < 2 ^ 64
         then Some (of_nat (dec_value ds)) else None)"

lemma byte_of_digit: "d < 10 \<Longrightarrow> byte_of (char_of (48 + d)) = 48 + d"
  by (simp add: byte_of_def)

lemma is_ascii_digit_char: "d < 10 \<Longrightarrow> is_ascii_digit (char_of (48 + d :: nat))"
  by (simp add: is_ascii_digit_def byte_of_digit)

lemma dec_string_digits: "dec_string n \<noteq> [] \<and> list_all is_ascii_digit (dec_string n)"
proof (induction n rule: dec_string.induct)
  case (1 n)
  then show ?case
    by (subst (1 2) dec_string.simps) (auto simp: is_ascii_digit_char)
qed

lemma dec_value_dec_string: "dec_value (dec_string n) = n"
proof (induction n rule: dec_string.induct)
  case (1 n)
  show ?case
  proof (cases "n < 10")
    case True
    then show ?thesis by (subst dec_string.simps) (simp add: dec_value_def byte_of_digit)
  next
    case False
    then have "dec_value (dec_string n) = dec_value (dec_string (n div 10)) * 10 + n mod 10"
      by (subst dec_string.simps) (simp add: dec_value_def byte_of_digit)
    with 1 False show ?thesis by simp
  qed
qed

lemma parse_u64_digits:
  assumes "s \<noteq> []" "list_all is_ascii_digit s"
  shows "parse_u64 s = (if dec_value s < 2 ^ 64 then Some (of_nat (dec_value s)) else None)"
proof -
  have "hd s \<noteq> CHR ''+''" using assms by (cases s) (auto simp: is_ascii_digit_def byte_of_def)
  with assms show ?thesis by (simp add: parse_u64_def)
qed

lemma append_separator:
  assumes "z \<notin> set xs" "z \<notin> set ys" "xs @ z # xs' = ys @ z # ys'"
  shows "xs = ys \<and> xs' = ys'"
proof -
  have "takeWhile (\<lambda>c. c \<noteq> z) (xs @ z # xs') = xs" using assms(1) by (induction xs) auto
  moreover have "takeWhile (\<lambda>c. c \<noteq> z) (ys @ z # ys') = ys" using assms(2) by (induction ys) auto
  ultimately have "xs = ys" using assms(3) by simp
  then show ?thesis using assms(3) by simp
qed

lemma dec_string_inj: "dec_string m = dec_string n \<longleftrightarrow> m = n"
  by (metis dec_value_dec_string)

text \<open>Decimal with leading zeros, as \<open>{:04}\<close> prints.\<close>

definition pad_dec :: "nat \<Rightarrow> nat \<Rightarrow> string" where
  "pad_dec width n = replicate (width - length (dec_string n)) (CHR ''0'') @ dec_string n"

section \<open>Fixed-width byte encodings\<close>

text \<open>\<open>to_le_bytes\<close> and \<open>to_be_bytes\<close> of the integer types, and their inverses.\<close>

primrec le_bytes :: "nat \<Rightarrow> nat \<Rightarrow> bytes" where
  "le_bytes 0 n = []"
| "le_bytes (Suc k) n = of_nat (n mod 256) # le_bytes k (n div 256)"

primrec le_val :: "bytes \<Rightarrow> nat" where
  "le_val [] = 0"
| "le_val (b # bs) = unat b + 256 * le_val bs"

definition be_bytes :: "nat \<Rightarrow> nat \<Rightarrow> bytes" where
  "be_bytes k n = rev (le_bytes k n)"

definition be_val :: "bytes \<Rightarrow> nat" where
  "be_val bs = le_val (rev bs)"

lemma length_le_bytes [simp]: "length (le_bytes k n) = k"
  by (induction k arbitrary: n) auto

lemma length_be_bytes [simp]: "length (be_bytes k n) = k"
  by (simp add: be_bytes_def)

lemma be_bytes_Nil_iff [simp]: "be_bytes k n = [] \<longleftrightarrow> k = 0"
  by (metis length_be_bytes length_0_conv)

lemma unat_of_nat_byte: "unat (of_nat (n mod 256) :: u8) = n mod 256"
  by (simp add: unat_of_nat)

lemma unat_byte_less: "unat (b :: u8) < 256"
proof -
  have "unat b < 2 ^ LENGTH(8)" by (rule unsigned_less)
  then show ?thesis by simp
qed

lemma le_val_le_bytes: "n < 256 ^ k \<Longrightarrow> le_val (le_bytes k n) = n"
proof (induction k arbitrary: n)
  case (Suc k)
  have "n div 256 < 256 ^ k"
    using Suc.prems by (simp add: less_mult_imp_div_less mult.commute)
  then have "le_val (le_bytes k (n div 256)) = n div 256"
    by (rule Suc.IH)
  then show ?case by (simp add: unat_of_nat_byte)
qed simp

lemma le_bytes_le_val: "le_bytes (length bs) (le_val bs) = bs"
proof (induction bs)
  case (Cons b bs)
  have lt: "unat b < 256" by (rule unat_byte_less)
  then have "(unat b + 256 * le_val bs) mod 256 = unat b"
    by simp
  moreover have "(unat b + 256 * le_val bs) div 256 = le_val bs"
    using lt by simp
  ultimately show ?case using Cons.IH by simp
qed simp

lemma le_val_bound: "le_val bs < 256 ^ length bs"
proof (induction bs)
  case (Cons b bs)
  have "unat b < 256" by (rule unat_byte_less)
  with Cons.IH show ?case by simp
qed simp

lemma be_val_be_bytes: "n < 256 ^ k \<Longrightarrow> be_val (be_bytes k n) = n"
  by (simp add: be_val_def be_bytes_def le_val_le_bytes)

lemma be_bytes_be_val: "be_bytes (length bs) (be_val bs) = bs"
proof -
  have "le_bytes (length (rev bs)) (le_val (rev bs)) = rev bs"
    by (rule le_bytes_le_val)
  then show ?thesis by (simp add: be_bytes_def be_val_def)
qed

lemma be_word_roundtrip:
  fixes w :: "'a::len word"
  assumes "LENGTH('a) = 8 * k"
  shows "of_nat (be_val (be_bytes k (unat w))) = w"
proof -
  have "unat w < 256 ^ k" using unsigned_less [of w] by (simp add: assms power_mult)
  then show ?thesis by (simp add: be_val_be_bytes)
qed

lemma be_bytes_word:
  assumes "length bs = k" "LENGTH('a::len) = 8 * k"
  shows "be_bytes k (unat (of_nat (be_val bs) :: 'a word)) = bs"
proof -
  have "be_val bs < 256 ^ k" using le_val_bound [of "rev bs"] assms(1) by (simp add: be_val_def)
  then have "be_val bs < 2 ^ LENGTH('a)" by (simp add: assms(2) power_mult)
  then have "unat (of_nat (be_val bs) :: 'a word) = be_val bs" by (simp add: unat_of_nat)
  then show ?thesis using be_bytes_be_val [of bs] assms(1) by simp
qed

section \<open>Finite maps and lists\<close>

text \<open>A \<open>HashMap\<close> or \<open>BTreeMap\<close> is a finite map; \<open>fmlen\<close> is \<open>len()\<close>.\<close>

definition fmlen :: "('k, 'v) fmap \<Rightarrow> nat" where
  "fmlen m = fcard (fmdom m)"

lemma fmupd_drop_id [simp]: "fmlookup m k = None \<Longrightarrow> fmdrop k (fmupd k v m) = m"
  by (rule fmap_ext) auto

lemma fmdrop_upd_id [simp]: "fmlookup m k = Some v \<Longrightarrow> fmupd k v (fmdrop k m) = m"
  by (rule fmap_ext) auto

lemma fmupd_same [simp]: "fmlookup m k = Some v \<Longrightarrow> fmupd k v m = m"
  by (rule fmap_ext) auto

definition last_opt :: "'a list \<Rightarrow> 'a option" where
  "last_opt xs = (if xs = [] then None else Some (last xs))"

lemma last_opt_simps [simp]:
  "last_opt [] = None" "last_opt (xs @ [x]) = Some x" "last_opt xs = None \<longleftrightarrow> xs = []"
  by (auto simp: last_opt_def)

lemma last_opt_SomeD: "last_opt xs = Some x \<Longrightarrow> xs = butlast xs @ [x]"
  by (auto simp: last_opt_def split: if_splits)

fun hd_opt :: "'a list \<Rightarrow> 'a option" where
  "hd_opt [] = None"
| "hd_opt (x # xs) = Some x"

lemma hd_opt_None_iff [simp]: "hd_opt xs = None \<longleftrightarrow> xs = []"
  by (cases xs) auto

lemma hd_opt_Some_iff: "hd_opt xs = Some x \<longleftrightarrow> (\<exists>ys. xs = x # ys)"
  by (cases xs) auto

text \<open>\<open>sort_unstable\<close> followed by \<open>dedup\<close>.\<close>

lemma strict_sorted_remdups_adj: "sorted_wrt (<) (remdups_adj (sort xs))" for xs :: "'a::linorder list"
proof -
  have "sorted ys \<Longrightarrow> sorted_wrt (<) (remdups_adj ys)" for ys :: "'a list"
    by (induction ys rule: remdups_adj.induct) (auto simp: order.strict_iff_order)
  then show ?thesis by simp
qed

lemma sort_Nil_iff [simp]: "sort xs = [] \<longleftrightarrow> xs = []" for xs :: "'a::linorder list"
  by (metis length_0_conv length_sort)

text \<open>\<open>as_bytes\<close> of a string, and the signed machine integers.\<close>

definition ascii_bytes :: "string \<Rightarrow> bytes" where
  "ascii_bytes s = map (\<lambda>c. of_nat (byte_of c)) s"

type_synonym i64 = "64 word"

lemma sorted_list_of_fset_empty [simp]: "sorted_list_of_fset {||} = []"
  by (simp add: sorted_list_of_fset.rep_eq)

lemma distinct_sorted_list_of_fset [simp]: "distinct (sorted_list_of_fset A)"
  by (simp add: sorted_list_of_fset.rep_eq)

section \<open>Reachable sets\<close>

text \<open>A set of visited nodes that contains the root, only reachable nodes and all successors of its
  members is the reachable set: what a finished worklist traversal establishes.\<close>

lemma closed_reachable:
  assumes "root \<in> V" "\<And>v. v \<in> V \<Longrightarrow> R\<^sup>*\<^sup>* root v" "\<And>v w. v \<in> V \<Longrightarrow> R v w \<Longrightarrow> w \<in> V"
  shows "V = {v. R\<^sup>*\<^sup>* root v}"
proof -
  have "v \<in> V" if "R\<^sup>*\<^sup>* root v" for v
    using that by (induction rule: rtranclp_induct) (auto intro: assms(1,3))
  then show ?thesis using assms(2) by blast
qed

end
