(* ===== verification/Bitcoin_Domain.thy ===== *)
theory Bitcoin_Domain
  imports Prelude "HOL-Library.List_Lexorder" "HOL-Library.Product_Lexorder"
begin

text \<open>
  The Bitcoin domain types of \<open>crates/bitcoin-domain\<close> and the network type of
  \<open>crates/chain-domain\<close>: amounts, outpoints with their 36-byte encoding, block work,
  transactions, blocks and the bounded parsers.

  The \<open>bitcoin\<close> crate and SHA-256 are outside the repository. What the sources call of them is
  gathered in the record \<open>bitcoin_lib\<close>, which every definition that needs it takes as its
  argument \<open>L\<close>. A digest newtype (\<open>Txid\<close>, \<open>BlockHash\<close>, \<open>ScriptPubkeyId\<close>) is its
  32 bytes, that is a \<open>digest\<close>; record fields are the accessor methods of the structs.
\<close>

section \<open>Networks and amounts\<close>

datatype bitcoin_network = Mainnet | Testnet | Signet | Regtest

datatype sats = Sats (sats_value: u64)

definition sats_checked_add :: "sats \<Rightarrow> sats \<Rightarrow> sats option" where
  "sats_checked_add a b = (case checked_add (sats_value a) (sats_value b) of
     Some v \<Rightarrow> Some (Sats v) | None \<Rightarrow> None)"

section \<open>Outpoints\<close>

datatype outpoint = OutPoint (op_txid: digest) (op_vout: u32)

datatype parse_error =
    InputTooLarge string nat nat
  | Consensus string
  | MerkleRootMismatch
  | ParseAmountOverflow
  | InvalidOutpointLength nat

definition consensus_bytes :: "outpoint \<Rightarrow> bytes" where
  "consensus_bytes p = be_bytes 32 (unat (op_txid p)) @ le_bytes 4 (unat (op_vout p))"

definition from_consensus_bytes :: "bytes \<Rightarrow> parse_error + outpoint" where
  "from_consensus_bytes bs =
     (if length bs \<noteq> 36 then Inl (InvalidOutpointLength (length bs))
      else Inr (OutPoint (of_nat (be_val (take 32 bs))) (of_nat (le_val (drop 32 bs)))))"

text \<open>The derived order of \<open>OutPoint\<close>: the transaction first, then the output index.\<close>

instantiation outpoint :: linorder
begin

definition less_eq_outpoint :: "outpoint \<Rightarrow> outpoint \<Rightarrow> bool" where
  "less_eq_outpoint a b \<longleftrightarrow> (op_txid a, op_vout a) \<le> (op_txid b, op_vout b)"

definition less_outpoint :: "outpoint \<Rightarrow> outpoint \<Rightarrow> bool" where
  "less_outpoint a b \<longleftrightarrow> (op_txid a, op_vout a) < (op_txid b, op_vout b)"

instance
proof
  fix x y z :: outpoint
  show "(x < y) = (x \<le> y \<and> \<not> y \<le> x)"
    by (auto simp: less_eq_outpoint_def less_outpoint_def)
  show "x \<le> x" by (simp add: less_eq_outpoint_def)
  show "x \<le> y \<Longrightarrow> y \<le> z \<Longrightarrow> x \<le> z"
    unfolding less_eq_outpoint_def by (rule order_trans)
  show "x \<le> y \<Longrightarrow> y \<le> x \<Longrightarrow> x = y"
    unfolding less_eq_outpoint_def by (cases x; cases y) (auto dest: antisym)
  show "x \<le> y \<or> y \<le> x"
    unfolding less_eq_outpoint_def by (rule linear)
qed

end

lemma digest_bytes_val: "be_val (be_bytes 32 (unat (d :: digest))) = unat d"
proof -
  have "unat d < 2 ^ LENGTH(256)" by (rule unsigned_less)
  then show ?thesis by (intro be_val_be_bytes) simp
qed

lemma vout_bytes_val: "le_val (le_bytes 4 (unat (v :: u32))) = unat v"
proof -
  have "unat v < 2 ^ LENGTH(32)" by (rule unsigned_less)
  then show ?thesis by (intro le_val_le_bytes) simp
qed

lemma length_consensus_bytes [simp]: "length (consensus_bytes p) = 36"
  by (simp add: consensus_bytes_def)

lemma decode_consensus_bytes: "from_consensus_bytes (consensus_bytes p) = Inr p"
  by (cases p) (simp add: from_consensus_bytes_def consensus_bytes_def digest_bytes_val vout_bytes_val)

lemma consensus_bytes_inj: "consensus_bytes p = consensus_bytes q \<longleftrightarrow> p = q"
  by (metis decode_consensus_bytes sum.inject(2))

lemma unat_of_nat_be_val:
  assumes "length bs = 32"
  shows "unat (of_nat (be_val bs) :: digest) = be_val bs"
proof -
  have "le_val (rev bs) < 256 ^ length (rev bs)" by (rule le_val_bound)
  with assms show ?thesis
    by (simp add: be_val_def unat_of_nat mod_less)
qed

lemma unat_of_nat_le_val:
  assumes "length bs = 4"
  shows "unat (of_nat (le_val bs) :: u32) = le_val bs"
proof -
  have "le_val bs < 256 ^ length bs" by (rule le_val_bound)
  with assms show ?thesis by (simp add: unat_of_nat mod_less)
qed

lemma encode_from_consensus_bytes:
  assumes "from_consensus_bytes bs = Inr p"
  shows "consensus_bytes p = bs"
proof -
  from assms have len: "length bs = 36"
    and p: "p = OutPoint (of_nat (be_val (take 32 bs))) (of_nat (le_val (drop 32 bs)))"
    by (auto simp: from_consensus_bytes_def split: if_splits)
  have "be_bytes (length (take 32 bs)) (be_val (take 32 bs)) = take 32 bs"
    by (rule be_bytes_be_val)
  moreover have "le_bytes (length (drop 32 bs)) (le_val (drop 32 bs)) = drop 32 bs"
    by (rule le_bytes_le_val)
  ultimately show ?thesis
    using len by (simp add: p consensus_bytes_def unat_of_nat_be_val unat_of_nat_le_val)
qed

section \<open>Block work\<close>

text \<open>
  \<open>BlockWork\<close> is 32 big-endian bytes, and its derived order compares them from the first
  byte. The addition runs over the bytes from the last one to the first with a 16-bit carry.
\<close>

type_synonym block_work = digest

definition work_bytes :: "block_work \<Rightarrow> bytes" where
  "work_bytes w = be_bytes 32 (unat w)"

primrec work_add_loop :: "nat \<Rightarrow> bytes \<Rightarrow> bytes \<Rightarrow> u16 \<Rightarrow> bytes \<Rightarrow> bytes \<times> u16" where
  "work_add_loop 0 a b carry acc = (acc, carry)"
| "work_add_loop (Suc i) a b carry acc =
     (let value = ucast (a ! i) + ucast (b ! i) + carry
      in work_add_loop i a b (drop_bit 8 value) (acc[i := ucast value]))"

definition work_checked_add :: "block_work \<Rightarrow> block_work \<Rightarrow> block_work option" where
  "work_checked_add a b =
     (case work_add_loop 32 (work_bytes a) (work_bytes b) 0 (replicate 32 0) of
        (acc, carry) \<Rightarrow> if carry = 0 then Some (of_nat (be_val acc)) else None)"

lemma be_val_Cons: "be_val (x # xs) = unat x * 256 ^ length xs + be_val xs"
proof -
  have "le_val (ys @ [x]) = le_val ys + 256 ^ length ys * unat x" for ys
    by (induction ys) (auto simp: algebra_simps)
  then show ?thesis by (simp add: be_val_def)
qed

lemma be_val_drop:
  assumes "i < length xs"
  shows "be_val (drop i xs) = unat (xs ! i) * 256 ^ (length xs - Suc i) + be_val (drop (Suc i) xs)"
proof -
  have "drop i xs = xs ! i # drop (Suc i) xs"
    using assms by (simp add: Cons_nth_drop_Suc)
  then show ?thesis by (simp add: be_val_Cons)
qed

lemma unat_ucast_byte: "unat (ucast (x :: u8) :: u16) = unat x"
  by (simp add: unsigned_ucast_eq take_bit_nat_eq_self_iff less_trans [OF unat_byte_less])

lemma byte_add_carry:
  fixes x y :: u8 and c :: u16
  assumes "unat c \<le> 1" and "v = ucast x + ucast y + c"
  shows "unat (ucast v :: u8) + 256 * unat (drop_bit 8 v) = unat x + unat y + unat c"
    and "unat (drop_bit 8 v) \<le> 1"
proof -
  have x: "unat x < 256" and y: "unat y < 256" by (rule unat_byte_less)+
  have v: "unat v = unat x + unat y + unat c"
    using assms x y by (simp add: unat_word_ariths unat_ucast_byte)
  have lo: "unat (ucast v :: u8) = unat v mod 256"
    by (simp add: unsigned_ucast_eq take_bit_eq_mod)
  have hi: "unat (drop_bit 8 v) = unat v div 256"
    by (simp add: drop_bit_eq_div unat_div_distrib)
  show "unat (ucast v :: u8) + 256 * unat (drop_bit 8 v) = unat x + unat y + unat c"
    by (simp add: lo hi v)
  show "unat (drop_bit 8 v) \<le> 1"
    using x y assms(1) by (simp add: hi v)
qed

lemma work_add_loop_val:
  assumes "length a = n" "length b = n" "length acc = n" "i \<le> n" "unat c \<le> 1"
    and "work_add_loop i a b c acc = (r, c')"
  shows "length r = n \<and> unat c' \<le> 1 \<and> drop i r = drop i acc \<and>
    be_val (take i r) + 256 ^ i * unat c' = be_val (take i a) + be_val (take i b) + unat c"
  using assms
proof (induction i arbitrary: c acc)
  case 0
  then show ?case by (auto simp: be_val_def)
next
  case (Suc i)
  define v where "v = ucast (a ! i) + ucast (b ! i) + c"
  note bv = byte_add_carry [OF Suc.prems(5) v_def]
  have "work_add_loop i a b (drop_bit 8 v) (acc[i := ucast v]) = (r, c')"
    using Suc.prems(6) by (simp add: v_def Let_def)
  from Suc.IH [OF Suc.prems(1,2) _ _ bv(2) this] Suc.prems
  have IH: "length r = n" "unat c' \<le> 1" "drop i r = drop i (acc[i := ucast v])"
      "be_val (take i r) + 256 ^ i * unat c' =
       be_val (take i a) + be_val (take i b) + unat (drop_bit 8 v)"
    by auto
  have ri: "r ! i = ucast v" and rd: "drop (Suc i) r = drop (Suc i) acc"
    using arg_cong [OF IH(3), of hd] arg_cong [OF IH(3), of tl] Suc.prems IH(1)
    by (simp_all add: hd_drop_conv_nth tl_drop drop_Suc [symmetric] flip: drop_tl)
  have snoc: "be_val (take (Suc i) xs) = 256 * be_val (take i xs) + unat (xs ! i)"
    if "i < length xs" for xs
    using that by (simp add: be_val_def take_Suc_conv_app_nth)
  have "be_val (take (Suc i) r) + 256 ^ Suc i * unat c' =
      256 * (be_val (take i r) + 256 ^ i * unat c') + unat (ucast v :: u8)"
    using snoc [of r] Suc.prems IH(1) ri by (simp add: algebra_simps)
  also have "\<dots> = 256 * (be_val (take i a) + be_val (take i b)) + (unat (a ! i) + unat (b ! i) + unat c)"
    unfolding IH(4) using bv(1) by (simp add: algebra_simps)
  also have "\<dots> = be_val (take (Suc i) a) + be_val (take (Suc i) b) + unat c"
    using snoc [of a] snoc [of b] Suc.prems by simp
  finally show ?case using IH(1,2) rd by simp
qed

lemma work_checked_add_eq: "work_checked_add a b = checked_add a b"
proof -
  obtain r c where rc: "work_add_loop 32 (work_bytes a) (work_bytes b) 0 (replicate 32 0) = (r, c)"
    by fastforce
  have "length r = 32 \<and> unat c \<le> 1 \<and> drop 32 r = drop 32 (replicate 32 0) \<and>
    be_val (take 32 r) + 256 ^ 32 * unat c =
      be_val (take 32 (work_bytes a)) + be_val (take 32 (work_bytes b)) + unat (0 :: u16)"
    by (rule work_add_loop_val [OF _ _ _ _ _ rc]) (simp_all add: work_bytes_def)
  then have len: "length r = 32" and val: "be_val r + 2 ^ 256 * unat c = unat a + unat b"
    by (auto simp: work_bytes_def digest_bytes_val)
  have lt: "be_val r < 2 ^ 256"
    using le_val_bound [of "rev r"] len by (simp add: be_val_def)
  have c: "c = 0 \<longleftrightarrow> unat a + unat b < 2 ^ 256"
    using val lt by (cases "unat c") (auto simp: unat_0_iff)
  show ?thesis
  proof (cases "c = 0")
    case True
    then have "be_val r = unat a + unat b" using val by simp
    with True c show ?thesis
      by (simp add: work_checked_add_def rc checked_add_def)
  next
    case False
    with c show ?thesis by (simp add: work_checked_add_def rc checked_add_def)
  qed
qed

section \<open>The bitcoin library as the sources use it\<close>

text \<open>
  The structures of the \<open>bitcoin\<close> crate that the owned types copy from: a block header, a
  transaction with its inputs and outputs, and a block.
\<close>

record header =
  hdr_version :: u32
  hdr_prev_blockhash :: digest
  hdr_merkle_root :: digest
  hdr_time :: u32
  hdr_bits :: u32
  hdr_nonce :: u32

record bitcoin_input =
  previous_output :: outpoint
  script_sig :: bytes
  input_sequence :: u32
  witness_stack :: "bytes list"

record bitcoin_output =
  value_sats :: sats
  script_pubkey :: bytes

record lib_transaction =
  lib_version :: u32
  lib_lock_time :: u32
  lib_input :: "bitcoin_input list"
  lib_output :: "bitcoin_output list"

record lib_block =
  lib_header :: header
  lib_txdata :: "lib_transaction list"

record bitcoin_lib =
  sha256 :: "bytes \<Rightarrow> digest"
  compute_txid :: "lib_transaction \<Rightarrow> digest"
  compute_wtxid :: "lib_transaction \<Rightarrow> digest"
  lib_is_coinbase :: "lib_transaction \<Rightarrow> bool"
  lib_vsize :: "lib_transaction \<Rightarrow> u64"
  deserialize_transaction :: "bytes \<Rightarrow> string + lib_transaction"
  serialize_transaction :: "lib_transaction \<Rightarrow> bytes"
  deserialize_block :: "bytes \<Rightarrow> string + lib_block"
  serialize_block :: "lib_block \<Rightarrow> bytes"
  check_merkle_root :: "lib_block \<Rightarrow> bool"
  header_hash :: "header \<Rightarrow> digest"
  validate_pow :: "header \<Rightarrow> u32 \<Rightarrow> bool"
  header_work :: "header \<Rightarrow> block_work"
  difficulty_adjustment_interval :: "bitcoin_network \<Rightarrow> u64"
  no_pow_retargeting :: "bitcoin_network \<Rightarrow> bool"
  difficulty_adjustment :: "bitcoin_network \<Rightarrow> header \<Rightarrow> header \<Rightarrow> u32"
  genesis_block_hash :: "bitcoin_network \<Rightarrow> digest"

section \<open>Transactions\<close>

record bitcoin_transaction =
  tx_inner :: lib_transaction
  tx_consensus_bytes :: bytes
  tx_inputs :: "bitcoin_input list"
  tx_outputs :: "bitcoin_output list"

definition from_transaction :: "lib_transaction \<Rightarrow> bytes \<Rightarrow> bitcoin_transaction" where
  "from_transaction inner bs =
     \<lparr>tx_inner = inner, tx_consensus_bytes = bs,
      tx_inputs = map (\<lambda>i. \<lparr>previous_output = previous_output i, script_sig = script_sig i,
        input_sequence = input_sequence i, witness_stack = witness_stack i\<rparr>) (lib_input inner),
      tx_outputs = map (\<lambda>out. \<lparr>value_sats = value_sats out, script_pubkey = script_pubkey out\<rparr>)
        (lib_output inner)\<rparr>"

definition txid :: "bitcoin_lib \<Rightarrow> bitcoin_transaction \<Rightarrow> digest" where
  "txid L t = compute_txid L (tx_inner t)"

definition is_coinbase :: "bitcoin_lib \<Rightarrow> bitcoin_transaction \<Rightarrow> bool" where
  "is_coinbase L t = lib_is_coinbase L (tx_inner t)"

definition virtual_size :: "bitcoin_lib \<Rightarrow> bitcoin_transaction \<Rightarrow> u64" where
  "virtual_size L t = lib_vsize L (tx_inner t)"

definition script_pubkey_id :: "bitcoin_lib \<Rightarrow> bitcoin_output \<Rightarrow> digest" where
  "script_pubkey_id L out = sha256 L (script_pubkey out)"

primrec sum_outputs_from :: "sats \<Rightarrow> bitcoin_output list \<Rightarrow> parse_error + sats" where
  "sum_outputs_from s [] = Inr s"
| "sum_outputs_from s (out # outs) =
     (case sats_checked_add s (value_sats out) of
        None \<Rightarrow> Inl ParseAmountOverflow | Some s' \<Rightarrow> sum_outputs_from s' outs)"

definition sum_outputs :: "bitcoin_transaction \<Rightarrow> parse_error + sats" where
  "sum_outputs t = sum_outputs_from (Sats 0) (tx_outputs t)"

section \<open>Blocks\<close>

record bitcoin_block =
  blk_inner :: lib_block
  blk_consensus_bytes :: bytes
  blk_transactions :: "bitcoin_transaction list"

definition from_block :: "bitcoin_lib \<Rightarrow> lib_block \<Rightarrow> bytes \<Rightarrow> bitcoin_block" where
  "from_block L inner bs =
     \<lparr>blk_inner = inner, blk_consensus_bytes = bs,
      blk_transactions =
        map (\<lambda>t. from_transaction t (serialize_transaction L t)) (lib_txdata inner)\<rparr>"

definition block_hash :: "bitcoin_lib \<Rightarrow> bitcoin_block \<Rightarrow> digest" where
  "block_hash L b = header_hash L (lib_header (blk_inner b))"

definition previous_block_hash :: "bitcoin_block \<Rightarrow> digest" where
  "previous_block_hash b = hdr_prev_blockhash (lib_header (blk_inner b))"

definition compact_target :: "bitcoin_block \<Rightarrow> u32" where
  "compact_target b = hdr_bits (lib_header (blk_inner b))"

definition has_valid_pow_for :: "bitcoin_lib \<Rightarrow> bitcoin_block \<Rightarrow> u32 \<Rightarrow> bool" where
  "has_valid_pow_for L b target = validate_pow L (lib_header (blk_inner b)) target"

definition block_work_of :: "bitcoin_lib \<Rightarrow> bitcoin_block \<Rightarrow> block_work" where
  "block_work_of L b = header_work L (lib_header (blk_inner b))"

definition is_multiple_of :: "u32 \<Rightarrow> u32 \<Rightarrow> bool" where
  "is_multiple_of a b = (if b = 0 then a = 0 else a mod b = 0)"

definition next_required_target ::
  "bitcoin_lib \<Rightarrow> bitcoin_block \<Rightarrow> bitcoin_network \<Rightarrow> u32 \<Rightarrow> bitcoin_block option \<Rightarrow> u32 option" where
  "next_required_target L b network next_height epoch_start =
     (if 2 ^ 32 \<le> unat (difficulty_adjustment_interval L network) then None
      else let interval = ucast (difficulty_adjustment_interval L network) in
        if no_pow_retargeting L network \<or> \<not> is_multiple_of next_height interval
        then Some (compact_target b)
        else case epoch_start of
            None \<Rightarrow> None
          | Some e \<Rightarrow> Some (difficulty_adjustment L network (lib_header (blk_inner e))
                              (lib_header (blk_inner b))))"

section \<open>Bounded parsing\<close>

definition MAX_CONSENSUS_OBJECT_BYTES :: nat where
  "MAX_CONSENSUS_OBJECT_BYTES = 4000000"

definition enforce_bound :: "string \<Rightarrow> bytes \<Rightarrow> parse_error + unit" where
  "enforce_bound kind bs =
     (if MAX_CONSENSUS_OBJECT_BYTES < length bs
      then Inl (InputTooLarge kind (length bs) MAX_CONSENSUS_OBJECT_BYTES) else Inr ())"

definition parse_transaction :: "bitcoin_lib \<Rightarrow> bytes \<Rightarrow> parse_error + bitcoin_transaction" where
  "parse_transaction L bs =
     and_then (enforce_bound ''transaction'' bs) (\<lambda>_.
     and_then (map_sum Consensus id (deserialize_transaction L bs)) (\<lambda>t.
       if serialize_transaction L t \<noteq> bs
       then Inl (Consensus ''transaction has non-canonical or trailing bytes'')
       else Inr (from_transaction t bs)))"

definition parse_block :: "bitcoin_lib \<Rightarrow> bytes \<Rightarrow> parse_error + bitcoin_block" where
  "parse_block L bs =
     and_then (enforce_bound ''block'' bs) (\<lambda>_.
     and_then (map_sum Consensus id (deserialize_block L bs)) (\<lambda>b.
       if serialize_block L b \<noteq> bs
       then Inl (Consensus ''block has non-canonical or trailing bytes'')
       else if \<not> check_merkle_root L b then Inl MerkleRootMismatch
       else Inr (from_block L b bs)))"

lemma sum_outputs_from_value:
  "sum_outputs_from s outs = Inr r \<Longrightarrow>
   unat (sats_value r) = unat (sats_value s) + sum_list (map (\<lambda>out. unat (sats_value (value_sats out))) outs)"
proof (induction outs arbitrary: s)
  case (Cons out outs)
  then show ?case
    by (fastforce simp: sats_checked_add_def split: option.splits dest: unat_checked_add)
qed simp

lemma parse_block_faithful:
  assumes "parse_block L bs = Inr b"
  shows "blk_consensus_bytes b = bs" "serialize_block L (blk_inner b) = bs"
    "check_merkle_root L (blk_inner b)" "length bs \<le> MAX_CONSENSUS_OBJECT_BYTES"
    "blk_transactions b =
       map (\<lambda>t. from_transaction t (serialize_transaction L t)) (lib_txdata (blk_inner b))"
  using assms
  by (auto simp: parse_block_def enforce_bound_def from_block_def rust_result map_sum_Inr_iff split: if_splits)

end
