(* ===== verification/Undo_Log.thy ===== *)
theory Undo_Log
  imports Prelude
begin

text \<open>
  The interface of a reversible projection: a forward step on the projected state that records
  an undo operation, and the operation's inverse step. The UTXO set of the Bitcoin processor and
  the account projection of the Solana processor both provide it; what the interface promises is
  proved here once, for undo lists of any length.
\<close>

text \<open>Undo the operations from the newest (the last of the list) to the oldest.\<close>

fun undo_all :: "('u \<Rightarrow> 's \<Rightarrow> 's option) \<Rightarrow> 'u list \<Rightarrow> 's \<Rightarrow> 's option" where
  "undo_all undo [] s = Some s"
| "undo_all undo (u # us) s =
     (case undo_all undo us s of None \<Rightarrow> None | Some s' \<Rightarrow> undo u s')"

lemma undo_all_snoc:
  "undo_all undo (us @ [u]) s = (case undo u s of None \<Rightarrow> None | Some s' \<Rightarrow> undo_all undo us s')"
  by (induction us) (auto split: option.splits)

lemma undo_all_append:
  "undo_all undo (us @ vs) s =
    (case undo_all undo vs s of None \<Rightarrow> None | Some s' \<Rightarrow> undo_all undo us s')"
  by (induction us) (auto split: option.splits)

text \<open>Run a list of forward steps, collecting the undo operations in order.\<close>

fun run_all :: "('c \<Rightarrow> 's \<Rightarrow> ('u \<times> 's) option) \<Rightarrow> 'c list \<Rightarrow> 's \<Rightarrow> ('u list \<times> 's) option" where
  "run_all step [] s = Some ([], s)"
| "run_all step (c # cs) s =
     (case step c s of
        None \<Rightarrow> None
      | Some (u, s') \<Rightarrow> (case run_all step cs s' of
          None \<Rightarrow> None | Some (us, s'') \<Rightarrow> Some (u # us, s'')))"

locale undo_log =
  fixes step :: "'c \<Rightarrow> 's \<Rightarrow> ('u \<times> 's) option"
    and undo :: "'u \<Rightarrow> 's \<Rightarrow> 's option"
  assumes undo_step: "step c s = Some (u, s') \<Longrightarrow> undo u s' = Some s"
begin

lemma undo_after_step:
  assumes "undo_all undo us s = Some s0" and "step c s = Some (u, s')"
  shows "undo_all undo (us @ [u]) s' = Some s0"
  using assms by (simp add: undo_all_snoc undo_step)

lemma undo_run:
  "run_all step cs s = Some (us, s') \<Longrightarrow> undo_all undo us s' = Some s"
  by (induction cs arbitrary: us s s')
     (auto split: option.splits prod.splits dest: undo_step)

lemma undo_after_run:
  assumes "undo_all undo us s = Some s0" and "run_all step cs s = Some (vs, s')"
  shows "undo_all undo (us @ vs) s' = Some s0"
  using assms by (simp add: undo_all_append undo_run)

end

end
