(* ===== verification/Bitcoin_Utxo.thy ===== *)
theory Bitcoin_Utxo
  imports Bitcoin_Domain Undo_Log "HOL-Library.Multiset"
begin

text \<open>
  The canonical UTXO projection of \<open>processors/bitcoin-canonicality/src/utxo.rs\<close> with the
  error type of \<open>error.rs\<close>. The operations mutate the entry map in place and may stop in
  the middle, so each returns its result together with the state it leaves behind.
\<close>

section \<open>Data\<close>

datatype state_error =
    InvalidGenesis digest
  | InvalidProofOfWork digest
  | UnknownParent digest digest
  | MissingDifficultyBoundary digest u32
  | WorkOverflow digest
  | InconsistentDag digest
  | UnexpectedConnect digest digest "digest option"
  | MissingPrevout digest digest u32 outpoint
  | DuplicateOutpoint digest digest u32 outpoint
  | NegativeFee digest digest u64 u64
  | AmountOverflow digest digest
  | OutOfOrderDisconnect digest "digest option"
  | InconsistentUtxo outpoint

datatype utxo_event =
    Created outpoint sats digest
  | Spent outpoint digest u32
  | SpendReverted outpoint digest u32
  | CreationReverted outpoint

record utxo_entry =
  entry_value :: sats
  entry_script_pubkey_id :: digest

datatype undo_operation =
    UndoCreated outpoint
  | UndoSpent outpoint utxo_entry digest u32

record applied_block =
  applied_hash :: digest
  applied_undo :: "undo_operation list"

type_synonym utxo_map = "(outpoint, utxo_entry) fmap"

record utxo_state =
  entries :: utxo_map
  applied_blocks :: "applied_block list"

definition utxo_new :: utxo_state where
  "utxo_new = \<lparr>entries = fmempty, applied_blocks = []\<rparr>"

section \<open>Applying the transactions of a block\<close>

text \<open>The three values \<open>apply_transactions\<close> mutates: the entries, the undo list, the events.\<close>

record utxo_work =
  w_entries :: utxo_map
  w_undo :: "undo_operation list"
  w_events :: "utxo_event list"

fun spend_inputs ::
  "digest \<Rightarrow> digest \<Rightarrow> nat \<Rightarrow> bitcoin_input list \<Rightarrow> u64 \<Rightarrow> utxo_work \<Rightarrow> (state_error + u64) \<times> utxo_work" where
  "spend_inputs bh t i [] acc w = (Inr acc, w)"
| "spend_inputs bh t i (inp # inps) acc w =
     (if 2 ^ 32 \<le> i then (Inl (AmountOverflow bh t), w)
      else case fmlookup (w_entries w) (previous_output inp) of
          None \<Rightarrow> (Inl (MissingPrevout bh t (of_nat i) (previous_output inp)), w)
        | Some e \<Rightarrow>
            let w1 = w\<lparr>w_entries := fmdrop (previous_output inp) (w_entries w)\<rparr> in
            (case checked_add acc (sats_value (entry_value e)) of
               None \<Rightarrow> (Inl (AmountOverflow bh t), w1)
             | Some acc' \<Rightarrow>
                 spend_inputs bh t (Suc i) inps acc'
                   (w1\<lparr>w_undo := w_undo w @ [UndoSpent (previous_output inp) e t (of_nat i)],
                       w_events := w_events w @ [Spent (previous_output inp) t (of_nat i)]\<rparr>)))"

fun output_total :: "digest \<Rightarrow> digest \<Rightarrow> u64 \<Rightarrow> bitcoin_output list \<Rightarrow> state_error + u64" where
  "output_total bh t acc [] = Inr acc"
| "output_total bh t acc (out # outs) =
     (case checked_add acc (sats_value (value_sats out)) of
        None \<Rightarrow> Inl (AmountOverflow bh t)
      | Some acc' \<Rightarrow> output_total bh t acc' outs)"

fun create_outputs ::
  "bitcoin_lib \<Rightarrow> digest \<Rightarrow> digest \<Rightarrow> nat \<Rightarrow> bitcoin_output list \<Rightarrow> utxo_work \<Rightarrow>
   (state_error + unit) \<times> utxo_work" where
  "create_outputs L bh t i [] w = (Inr (), w)"
| "create_outputs L bh t i (out # outs) w =
     (if 2 ^ 32 \<le> i then (Inl (AmountOverflow bh t), w)
      else
        let p = OutPoint t (of_nat i);
            e = \<lparr>entry_value = value_sats out, entry_script_pubkey_id = script_pubkey_id L out\<rparr>
        in if fmlookup (w_entries w) p \<noteq> None
           then (Inl (DuplicateOutpoint bh t (of_nat i) p), w)
           else create_outputs L bh t (Suc i) outs
             \<lparr>w_entries = fmupd p e (w_entries w),
              w_undo = w_undo w @ [UndoCreated p],
              w_events = w_events w @ [Created p (value_sats out) (script_pubkey_id L out)]\<rparr>)"

definition apply_transaction ::
  "bitcoin_lib \<Rightarrow> digest \<Rightarrow> bitcoin_transaction \<Rightarrow> utxo_work \<Rightarrow> (state_error + unit) \<times> utxo_work" where
  "apply_transaction L bh tx w =
     (let t = txid L tx in
      case (if is_coinbase L tx then (Inr 0, w) else spend_inputs bh t 0 (tx_inputs tx) 0 w) of
        (Inl e, w1) \<Rightarrow> (Inl e, w1)
      | (Inr input_sats, w1) \<Rightarrow>
          (case output_total bh t 0 (tx_outputs tx) of
             Inl e \<Rightarrow> (Inl e, w1)
           | Inr output_sats \<Rightarrow>
               if \<not> is_coinbase L tx \<and> input_sats < output_sats
               then (Inl (NegativeFee bh t input_sats output_sats), w1)
               else create_outputs L bh t 0 (tx_outputs tx) w1))"

fun apply_transactions ::
  "bitcoin_lib \<Rightarrow> digest \<Rightarrow> bitcoin_transaction list \<Rightarrow> utxo_work \<Rightarrow> (state_error + unit) \<times> utxo_work" where
  "apply_transactions L bh [] w = (Inr (), w)"
| "apply_transactions L bh (tx # txs) w =
     (case apply_transaction L bh tx w of
        (Inl e, w1) \<Rightarrow> (Inl e, w1)
      | (Inr _, w1) \<Rightarrow> apply_transactions L bh txs w1)"

section \<open>Undoing\<close>

text \<open>\<open>rollback_partial\<close> and the loop of \<open>revert_block\<close> over the reversed undo list.\<close>

fun rollback_rev :: "undo_operation list \<Rightarrow> utxo_map \<Rightarrow> (state_error + unit) \<times> utxo_map" where
  "rollback_rev [] es = (Inr (), es)"
| "rollback_rev (UndoCreated p # us) es =
     (if fmlookup es p = None then (Inl (InconsistentUtxo p), es)
      else rollback_rev us (fmdrop p es))"
| "rollback_rev (UndoSpent p e t i # us) es =
     (if fmlookup es p \<noteq> None then (Inl (InconsistentUtxo p), fmupd p e es)
      else rollback_rev us (fmupd p e es))"

definition rollback_partial :: "undo_operation list \<Rightarrow> utxo_map \<Rightarrow> (state_error + unit) \<times> utxo_map" where
  "rollback_partial us es = rollback_rev (rev us) es"

fun revert_rev ::
  "undo_operation list \<Rightarrow> utxo_map \<Rightarrow> utxo_event list \<Rightarrow> (state_error + utxo_event list) \<times> utxo_map" where
  "revert_rev [] es evs = (Inr evs, es)"
| "revert_rev (UndoCreated p # us) es evs =
     (if fmlookup es p = None then (Inl (InconsistentUtxo p), es)
      else revert_rev us (fmdrop p es) (evs @ [CreationReverted p]))"
| "revert_rev (UndoSpent p e t i # us) es evs =
     (if fmlookup es p \<noteq> None then (Inl (InconsistentUtxo p), fmupd p e es)
      else revert_rev us (fmupd p e es) (evs @ [SpendReverted p t i]))"

section \<open>The public operations\<close>

definition utxo_tip :: "utxo_state \<Rightarrow> digest option" where
  "utxo_tip st = map_option applied_hash (last_opt (applied_blocks st))"

definition apply_block ::
  "bitcoin_lib \<Rightarrow> bitcoin_block \<Rightarrow> utxo_state \<Rightarrow> (state_error + utxo_event list) \<times> utxo_state" where
  "apply_block L b st =
     (let h = block_hash L b in
      if utxo_tip st = Some h then (Inr [], st)
      else if (case utxo_tip st of None \<Rightarrow> False | Some tip \<Rightarrow> previous_block_hash b \<noteq> tip)
      then (Inl (UnexpectedConnect h (previous_block_hash b) (utxo_tip st)), st)
      else
        (case apply_transactions L h (blk_transactions b)
                \<lparr>w_entries = entries st, w_undo = [], w_events = []\<rparr> of
           (Inl e, w) \<Rightarrow>
             (case rollback_partial (w_undo w) (w_entries w) of
                (Inl e', es) \<Rightarrow> (Inl e', st\<lparr>entries := es\<rparr>)
              | (Inr _, es) \<Rightarrow> (Inl e, st\<lparr>entries := es\<rparr>))
         | (Inr _, w) \<Rightarrow>
             (Inr (w_events w),
              \<lparr>entries = w_entries w,
               applied_blocks = applied_blocks st @ [\<lparr>applied_hash = h, applied_undo = w_undo w\<rparr>]\<rparr>)))"

definition revert_block ::
  "digest \<Rightarrow> utxo_state \<Rightarrow> (state_error + utxo_event list) \<times> utxo_state" where
  "revert_block h st =
     (if utxo_tip st \<noteq> Some h then (Inl (OutOfOrderDisconnect h (utxo_tip st)), st)
      else
        (case last_opt (applied_blocks st) of
           None \<Rightarrow> (Inl (OutOfOrderDisconnect h None), st)
         | Some a \<Rightarrow>
             (case revert_rev (rev (applied_undo a)) (entries st) [] of
                (r, es) \<Rightarrow> (r, \<lparr>entries = es, applied_blocks = butlast (applied_blocks st)\<rparr>))))"

text \<open>
  \<open>state_hash\<close> collects the entries of the hash map in whatever order it yields them and
  sorts them by their consensus bytes; \<open>utxo_digest\<close> is that computation for a given
  enumeration of the entries.
\<close>

definition entry_bytes :: "outpoint \<times> utxo_entry \<Rightarrow> bytes" where
  "entry_bytes x = (case x of (p, e) \<Rightarrow> consensus_bytes p
     @ le_bytes 8 (unat (sats_value (entry_value e)))
     @ be_bytes 32 (unat (entry_script_pubkey_id e)))"

definition utxo_preimage :: "(outpoint \<times> utxo_entry) list \<Rightarrow> bytes" where
  "utxo_preimage xs = concat (map entry_bytes (sort_key (\<lambda>x. consensus_bytes (fst x)) xs))"

definition utxo_digest :: "bitcoin_lib \<Rightarrow> (outpoint \<times> utxo_entry) list \<Rightarrow> digest" where
  "utxo_digest L xs = sha256 L (utxo_preimage xs)"

definition state_hash :: "bitcoin_lib \<Rightarrow> utxo_state \<Rightarrow> digest" where
  "state_hash L st = utxo_digest L (sorted_list_of_fmap (entries st))"

definition utxo_count :: "utxo_state \<Rightarrow> nat" where
  "utxo_count st = fmlen (entries st)"

section \<open>The projection as a reversible log\<close>

text \<open>
  Every change \<open>apply_transactions\<close> makes is one of two commands on the entry map. The
  command, its undo operation and the event it emits are related by the functions below; the
  pair of forward and undo step is an \<open>undo_log\<close>.
\<close>

datatype utxo_cmd = SpendCmd outpoint digest u32 | CreateCmd outpoint utxo_entry

fun utxo_step :: "utxo_cmd \<Rightarrow> utxo_map \<Rightarrow> (undo_operation \<times> utxo_map) option" where
  "utxo_step (SpendCmd p t i) es =
     (case fmlookup es p of None \<Rightarrow> None | Some e \<Rightarrow> Some (UndoSpent p e t i, fmdrop p es))"
| "utxo_step (CreateCmd p e) es =
     (if fmlookup es p = None then Some (UndoCreated p, fmupd p e es) else None)"

fun utxo_undo :: "undo_operation \<Rightarrow> utxo_map \<Rightarrow> utxo_map option" where
  "utxo_undo (UndoCreated p) es = (if fmlookup es p = None then None else Some (fmdrop p es))"
| "utxo_undo (UndoSpent p e t i) es = (if fmlookup es p = None then Some (fmupd p e es) else None)"

fun cmd_event :: "utxo_cmd \<Rightarrow> utxo_event" where
  "cmd_event (SpendCmd p t i) = Spent p t i"
| "cmd_event (CreateCmd p e) = Created p (entry_value e) (entry_script_pubkey_id e)"

fun undo_event :: "undo_operation \<Rightarrow> utxo_event" where
  "undo_event (UndoCreated p) = CreationReverted p"
| "undo_event (UndoSpent p e t i) = SpendReverted p t i"

fun inverse_event :: "utxo_event \<Rightarrow> utxo_event option" where
  "inverse_event (Created p v s) = Some (CreationReverted p)"
| "inverse_event (Spent p t i) = Some (SpendReverted p t i)"
| "inverse_event (SpendReverted p t i) = None"
| "inverse_event (CreationReverted p) = None"

interpretation utxo_log: undo_log utxo_step utxo_undo
proof
  fix c s u s'
  assume "utxo_step c s = Some (u, s')"
  then show "utxo_undo u s' = Some s"
    by (cases c) (auto split: option.splits if_splits)
qed

lemma rollback_undo_all:
  "undo_all utxo_undo us es = Some es0 \<Longrightarrow> rollback_partial us es = (Inr (), es0)"
proof (induction us arbitrary: es rule: rev_induct)
  case (snoc u us)
  from snoc.prems obtain es1 where u: "utxo_undo u es = Some es1"
    and us: "undo_all utxo_undo us es1 = Some es0"
    by (auto simp: undo_all_snoc split: option.splits)
  from snoc.IH [OF us] u show ?case
    by (cases u) (auto simp: rollback_partial_def split: if_splits)
qed (simp add: rollback_partial_def)

lemma revert_undo_all:
  "undo_all utxo_undo us es = Some es0 \<Longrightarrow>
   revert_rev (rev us) es evs = (Inr (evs @ map undo_event (rev us)), es0)"
proof (induction us arbitrary: es evs rule: rev_induct)
  case (snoc u us)
  from snoc.prems obtain es1 where u: "utxo_undo u es = Some es1"
    and us: "undo_all utxo_undo us es1 = Some es0"
    by (auto simp: undo_all_snoc split: option.splits)
  from snoc.IH [OF us] u show ?case
    by (cases u) (auto split: if_splits)
qed simp

text \<open>\<open>work_runs w w' cs\<close>: the working state went from \<open>w\<close> to \<open>w'\<close> by the commands \<open>cs\<close>.\<close>

definition work_runs :: "utxo_work \<Rightarrow> utxo_work \<Rightarrow> utxo_cmd list \<Rightarrow> bool" where
  "work_runs w w' cs \<longleftrightarrow> (\<exists>vs. run_all utxo_step cs (w_entries w) = Some (vs, w_entries w') \<and>
     w_undo w' = w_undo w @ vs \<and> w_events w' = w_events w @ map cmd_event cs)"

lemma work_runs_refl [intro]: "work_runs w w []"
  by (simp add: work_runs_def)

lemma run_all_append:
  "run_all step (cs @ ds) s =
    (case run_all step cs s of None \<Rightarrow> None
     | Some (us, s') \<Rightarrow> (case run_all step ds s' of None \<Rightarrow> None
         | Some (vs, s'') \<Rightarrow> Some (us @ vs, s'')))"
  by (induction cs arbitrary: s) (auto split: option.splits prod.splits)

lemma work_runs_trans:
  "work_runs w w1 cs \<Longrightarrow> work_runs w1 w2 ds \<Longrightarrow> work_runs w w2 (cs @ ds)"
  unfolding work_runs_def by (force simp: run_all_append split: option.splits)

lemma work_runs_step:
  assumes "utxo_step c (w_entries w) = Some (u, es)"
  shows "work_runs w \<lparr>w_entries = es, w_undo = w_undo w @ [u], w_events = w_events w @ [cmd_event c]\<rparr> [c]"
  using assms by (simp add: work_runs_def)

section \<open>Value of the projection\<close>

definition utxo_total :: "utxo_map \<Rightarrow> nat" where
  "utxo_total es = (\<Sum>p \<in> fset (fmdom es). unat (sats_value (entry_value (the (fmlookup es p)))))"

definition outputs_value :: "bitcoin_output list \<Rightarrow> nat" where
  "outputs_value outs = sum_list (map (\<lambda>out. unat (sats_value (value_sats out))) outs)"

definition coinbase_value :: "bitcoin_lib \<Rightarrow> bitcoin_transaction list \<Rightarrow> nat" where
  "coinbase_value L txs = sum_list (map (\<lambda>tx. outputs_value (tx_outputs tx)) (filter (is_coinbase L) txs))"

lemma utxo_total_drop:
  assumes "fmlookup es p = Some e"
  shows "utxo_total es = unat (sats_value (entry_value e)) + utxo_total (fmdrop p es)"
proof -
  have "p \<in> fset (fmdom es)" using assms by (simp add: fmdomI)
  then have "utxo_total es = unat (sats_value (entry_value (the (fmlookup es p)))) +
      (\<Sum>q \<in> fset (fmdom es) - {p}. unat (sats_value (entry_value (the (fmlookup es q)))))"
    unfolding utxo_total_def by (intro sum.remove) auto
  also have "(\<Sum>q \<in> fset (fmdom es) - {p}. unat (sats_value (entry_value (the (fmlookup es q))))) =
      utxo_total (fmdrop p es)"
    unfolding utxo_total_def by (rule sum.cong) auto
  finally show ?thesis using assms by simp
qed

lemma utxo_total_upd:
  assumes "fmlookup es p = None"
  shows "utxo_total (fmupd p e es) = unat (sats_value (entry_value e)) + utxo_total es"
  using utxo_total_drop [of "fmupd p e es" p e] assms by simp

section \<open>Every run of the loops is a run of commands\<close>

lemma spend_inputs_runs:
  assumes "spend_inputs bh t i inps acc w = (r, w')"
  shows "(\<exists>cs. work_runs w w' cs) \<or>
    r = Inl (AmountOverflow bh t) \<and> 2 ^ 64 \<le> unat acc + utxo_total (w_entries w)"
  using assms
proof (induction inps arbitrary: i acc w)
  case (Cons inp inps)
  let ?p = "previous_output inp"
  show ?case
  proof (cases "i < 2 ^ 32 \<and> fmlookup (w_entries w) ?p \<noteq> None")
    case False
    with Cons.prems have "w' = w" by (auto split: if_splits)
    then show ?thesis by blast
  next
    case True
    then obtain e where e: "fmlookup (w_entries w) ?p = Some e" and i: "i < 2 ^ 32" by auto
    let ?c = "SpendCmd ?p t (of_nat i)"
    let ?w1 = "\<lparr>w_entries = fmdrop ?p (w_entries w), w_undo = w_undo w @ [UndoSpent ?p e t (of_nat i)],
      w_events = w_events w @ [cmd_event ?c]\<rparr>"
    have first: "work_runs w ?w1 [?c]" by (rule work_runs_step) (simp add: e)
    note tot = utxo_total_drop [OF e]
    show ?thesis
    proof (cases "checked_add acc (sats_value (entry_value e))")
      case None
      with Cons.prems e i have "r = Inl (AmountOverflow bh t)" by (auto simp: Let_def)
      with None tot show ?thesis by (simp add: checked_add_None_iff)
    next
      case (Some acc')
      with Cons.prems e i have "spend_inputs bh t (Suc i) inps acc' ?w1 = (r, w')"
        by (cases w) (simp add: Let_def)
      from Cons.IH [OF this] first tot unat_checked_add [OF Some] show ?thesis
        by (auto intro: work_runs_trans)
    qed
  qed
qed auto

lemma spend_inputs_value:
  "spend_inputs bh t i inps acc w = (Inr acc', w') \<Longrightarrow>
   unat acc' + utxo_total (w_entries w') = unat acc + utxo_total (w_entries w)"
proof (induction inps arbitrary: i acc w)
  case (Cons inp inps)
  from Cons.prems obtain e acc1 w1 where e: "fmlookup (w_entries w) (previous_output inp) = Some e"
    and acc1: "checked_add acc (sats_value (entry_value e)) = Some acc1"
    and rest: "spend_inputs bh t (Suc i) inps acc1 w1 = (Inr acc', w')"
    and w1: "w_entries w1 = fmdrop (previous_output inp) (w_entries w)"
    by (cases w) (auto simp: Let_def split: if_splits option.splits)
  from Cons.IH [OF rest] unat_checked_add [OF acc1] utxo_total_drop [OF e] w1 show ?case by simp
qed simp

lemma output_total_value:
  "output_total bh t acc outs = Inr r \<Longrightarrow> unat r = unat acc + outputs_value outs"
  by (induction outs arbitrary: acc)
     (auto simp: outputs_value_def split: option.splits dest: unat_checked_add)

lemma create_outputs_runs:
  assumes "create_outputs L bh t i outs w = (r, w')"
  shows "(\<exists>cs. work_runs w w' cs) \<and>
    (r = Inr () \<longrightarrow> utxo_total (w_entries w') = utxo_total (w_entries w) + outputs_value outs)"
  using assms
proof (induction outs arbitrary: i w)
  case (Cons out outs)
  let ?p = "OutPoint t (of_nat i)"
  let ?e = "\<lparr>entry_value = value_sats out, entry_script_pubkey_id = script_pubkey_id L out\<rparr>"
  show ?case
  proof (cases "i < 2 ^ 32 \<and> fmlookup (w_entries w) ?p = None")
    case False
    with Cons.prems have "w' = w" "r \<noteq> Inr ()" by (auto simp: Let_def split: if_splits)
    then show ?thesis by blast
  next
    case True
    let ?w1 = "\<lparr>w_entries = fmupd ?p ?e (w_entries w), w_undo = w_undo w @ [UndoCreated ?p],
      w_events = w_events w @ [cmd_event (CreateCmd ?p ?e)]\<rparr>"
    have first: "work_runs w ?w1 [CreateCmd ?p ?e]"
      by (rule work_runs_step) (simp add: True)
    from Cons.prems True have "create_outputs L bh t (Suc i) outs ?w1 = (r, w')"
      by (auto simp: Let_def)
    from Cons.IH [OF this] first True show ?thesis
      by (auto simp: utxo_total_upd outputs_value_def intro: work_runs_trans)
  qed
qed (auto simp: outputs_value_def)

lemma apply_transaction_runs:
  assumes "apply_transaction L bh tx w = (r, w')"
  shows "(\<exists>cs. work_runs w w' cs) \<or>
      r = Inl (AmountOverflow bh (txid L tx)) \<and> 2 ^ 64 \<le> utxo_total (w_entries w)"
    and "r = Inr () \<Longrightarrow>
      utxo_total (w_entries w') \<le> utxo_total (w_entries w) + coinbase_value L [tx]"
proof -
  obtain r1 w1 where r1: "(if is_coinbase L tx then (Inr 0, w)
      else spend_inputs bh (txid L tx) 0 (tx_inputs tx) 0 w) = (r1, w1)"
    by fastforce
  have spend: "(\<exists>cs. work_runs w w1 cs) \<or>
      r1 = Inl (AmountOverflow bh (txid L tx)) \<and> 2 ^ 64 \<le> utxo_total (w_entries w)"
    using r1 spend_inputs_runs [of bh "txid L tx" 0 "tx_inputs tx" 0 w r1 w1]
    by (auto split: if_splits)
  have tail: "w' = w1 \<and> (\<exists>e. r1 = Inl e \<and> r = Inl e) \<or> w' = w1 \<and> r \<noteq> Inr () \<and> (\<exists>v. r1 = Inr v) \<or>
      (\<exists>v u. r1 = Inr v \<and> output_total bh (txid L tx) 0 (tx_outputs tx) = Inr u \<and>
        (is_coinbase L tx \<or> u \<le> v) \<and> create_outputs L bh (txid L tx) 0 (tx_outputs tx) w1 = (r, w'))"
    using assms r1 by (auto simp: apply_transaction_def Let_def split: sum.splits if_splits)
  show "(\<exists>cs. work_runs w w' cs) \<or>
      r = Inl (AmountOverflow bh (txid L tx)) \<and> 2 ^ 64 \<le> utxo_total (w_entries w)"
    using tail spend create_outputs_runs work_runs_trans by blast
  show "utxo_total (w_entries w') \<le> utxo_total (w_entries w) + coinbase_value L [tx]" if "r = Inr ()"
  proof -
    from that tail obtain v u where v: "r1 = Inr v"
      and u: "output_total bh (txid L tx) 0 (tx_outputs tx) = Inr u" "is_coinbase L tx \<or> u \<le> v"
      and c: "create_outputs L bh (txid L tx) 0 (tx_outputs tx) w1 = (Inr (), w')"
      using r1 by (auto split: if_splits)
    have "utxo_total (w_entries w') = utxo_total (w_entries w1) + outputs_value (tx_outputs tx)"
      using create_outputs_runs [OF c] by simp
    moreover have "unat u = outputs_value (tx_outputs tx)"
      using output_total_value [OF u(1)] by simp
    moreover have "\<not> is_coinbase L tx \<Longrightarrow> unat v + utxo_total (w_entries w1) = utxo_total (w_entries w)"
      using r1 v spend_inputs_value [of bh "txid L tx" 0 "tx_inputs tx" 0 w v w1] by simp
    ultimately show ?thesis
      using r1 v u(2) by (cases "is_coinbase L tx") (auto simp: coinbase_value_def word_le_nat_alt)
  qed
qed

lemma apply_transactions_runs:
  assumes "apply_transactions L bh txs w = (r, w')"
  shows "((\<exists>cs. work_runs w w' cs) \<or>
      (\<exists>t. r = Inl (AmountOverflow bh t)) \<and> 2 ^ 64 \<le> utxo_total (w_entries w) + coinbase_value L txs) \<and>
    (r = Inr () \<longrightarrow>
      utxo_total (w_entries w') \<le> utxo_total (w_entries w) + coinbase_value L txs)"
  using assms
proof (induction txs arbitrary: w)
  case (Cons tx txs)
  obtain r1 w1 where r1: "apply_transaction L bh tx w = (r1, w1)" by fastforce
  have cv: "coinbase_value L (tx # txs) = coinbase_value L [tx] + coinbase_value L txs"
    by (simp add: coinbase_value_def)
  note tr = apply_transaction_runs [OF r1]
  show ?case
  proof (cases r1)
    case (Inl e)
    with Cons.prems r1 have "w' = w1" "r = Inl e" by auto
    with tr(1) Inl cv show ?thesis by auto
  next
    case (Inr u)
    then obtain cs where cs: "work_runs w w1 cs" using tr(1) by auto
    have le: "utxo_total (w_entries w1) \<le> utxo_total (w_entries w) + coinbase_value L [tx]"
      using tr(2) Inr by simp
    have "apply_transactions L bh txs w1 = (r, w')" using Cons.prems r1 Inr by simp
    from Cons.IH [OF this] cs le cv show ?thesis by (auto intro: work_runs_trans)
  qed
qed (auto simp: coinbase_value_def)

definition start_work :: "utxo_state \<Rightarrow> utxo_work" where
  "start_work st = \<lparr>w_entries = entries st, w_undo = [], w_events = []\<rparr>"

lemma work_runs_start:
  assumes "work_runs (start_work st) w cs"
  shows "undo_all utxo_undo (w_undo w) (w_entries w) = Some (entries st)"
    and "w_events w = map cmd_event cs"
    and "run_all utxo_step cs (entries st) = Some (w_undo w, w_entries w)"
  using assms by (auto simp: work_runs_def start_work_def dest: utxo_log.undo_run)

lemma map_undo_event_run:
  "run_all utxo_step cs es = Some (us, es') \<Longrightarrow>
   map Some (map undo_event us) = map inverse_event (map cmd_event cs)"
proof (induction cs arbitrary: es us)
  case (Cons c cs)
  then obtain u es1 vs where "utxo_step c es = Some (u, es1)"
    "run_all utxo_step cs es1 = Some (vs, es')" "us = u # vs"
    by (auto split: option.splits prod.splits)
  with Cons.IH show ?case
    by (cases c) (auto split: option.splits if_splits)
qed simp

text \<open>
  The shapes of an application: a redelivered tip, a block that does not extend the tip, and a
  block whose transactions are run.
\<close>

definition extends_tip :: "bitcoin_block \<Rightarrow> utxo_state \<Rightarrow> bool" where
  "extends_tip b st \<longleftrightarrow> utxo_tip st = None \<or> utxo_tip st = Some (previous_block_hash b)"

lemma apply_block_replay:
  "utxo_tip st = Some (block_hash L b) \<Longrightarrow> apply_block L b st = (Inr [], st)"
  by (simp add: apply_block_def)

lemma apply_block_unexpected:
  assumes "utxo_tip st \<noteq> Some (block_hash L b)" "\<not> extends_tip b st"
  shows "apply_block L b st =
    (Inl (UnexpectedConnect (block_hash L b) (previous_block_hash b) (utxo_tip st)), st)"
  using assms by (auto simp: apply_block_def extends_tip_def Let_def split: option.splits)

lemma apply_block_extend:
  assumes "utxo_tip st \<noteq> Some (block_hash L b)" "extends_tip b st"
    and "apply_transactions L (block_hash L b) (blk_transactions b) (start_work st) = (r, w)"
  shows "apply_block L b st =
    (case r of
       Inl e \<Rightarrow> (case rollback_partial (w_undo w) (w_entries w) of
           (Inl e', es) \<Rightarrow> (Inl e', st\<lparr>entries := es\<rparr>)
         | (Inr _, es) \<Rightarrow> (Inl e, st\<lparr>entries := es\<rparr>))
     | Inr _ \<Rightarrow> (Inr (w_events w), \<lparr>entries = w_entries w, applied_blocks = applied_blocks st @
           [\<lparr>applied_hash = block_hash L b, applied_undo = w_undo w\<rparr>]\<rparr>))"
  using assms by (auto simp: apply_block_def extends_tip_def start_work_def Let_def)

lemma apply_block_Inr:
  assumes "apply_block L b st = (Inr evs, st')" and "utxo_tip st \<noteq> Some (block_hash L b)"
  obtains w cs where "extends_tip b st"
    "apply_transactions L (block_hash L b) (blk_transactions b) (start_work st) = (Inr (), w)"
    "work_runs (start_work st) w cs" "evs = map cmd_event cs"
    "st' = \<lparr>entries = w_entries w, applied_blocks = applied_blocks st @
         [\<lparr>applied_hash = block_hash L b, applied_undo = w_undo w\<rparr>]\<rparr>"
proof -
  have ext: "extends_tip b st"
    using assms apply_block_unexpected by fastforce
  obtain r w where aw: "apply_transactions L (block_hash L b) (blk_transactions b) (start_work st) = (r, w)"
    by fastforce
  from assms(1) have r: "r = Inr ()" "evs = w_events w"
    "st' = \<lparr>entries = w_entries w, applied_blocks = applied_blocks st @
         [\<lparr>applied_hash = block_hash L b, applied_undo = w_undo w\<rparr>]\<rparr>"
    unfolding apply_block_extend [OF assms(2) ext aw] by (auto split: sum.splits prod.splits)
  from apply_transactions_runs [OF aw] r(1) obtain cs where cs: "work_runs (start_work st) w cs"
    by auto
  show thesis
    by (rule that [OF ext _ cs _ r(3)]) (use aw r work_runs_start(2) [OF cs] in simp_all)
qed

lemma revert_of_apply:
  assumes "apply_block L b st = (Inr evs, st')" and "utxo_tip st \<noteq> Some (block_hash L b)"
  shows "\<exists>evs'. revert_block (block_hash L b) st' = (Inr evs', st) \<and>
    map Some evs' = map inverse_event (rev evs)"
proof -
  from apply_block_Inr [OF assms] obtain w cs where runs: "work_runs (start_work st) w cs"
    and evs: "evs = map cmd_event cs"
    and st': "st' = \<lparr>entries = w_entries w, applied_blocks = applied_blocks st @
         [\<lparr>applied_hash = block_hash L b, applied_undo = w_undo w\<rparr>]\<rparr>" .
  have "revert_rev (rev (w_undo w)) (w_entries w) [] =
      (Inr ([] @ map undo_event (rev (w_undo w))), entries st)"
    by (rule revert_undo_all [OF work_runs_start(1) [OF runs]])
  then have "revert_block (block_hash L b) st' = (Inr (map undo_event (rev (w_undo w))), st)"
    by (simp add: revert_block_def utxo_tip_def st')
  moreover have "rev (map Some (map undo_event (w_undo w))) = rev (map inverse_event evs)"
    using map_undo_event_run [OF work_runs_start(3) [OF runs]] evs by simp
  then have "map Some (map undo_event (rev (w_undo w))) = map inverse_event (rev evs)"
    by (simp only: rev_map)
  ultimately show ?thesis by blast
qed

lemma apply_block_error_runs:
  assumes "apply_transactions L (block_hash L b) (blk_transactions b) (start_work st) = (Inl e, w)"
    and "work_runs (start_work st) w cs"
    and "utxo_tip st \<noteq> Some (block_hash L b)" "extends_tip b st"
  shows "apply_block L b st = (Inl e, st)"
  using apply_block_extend [OF assms(3,4,1)] rollback_undo_all [OF work_runs_start(1) [OF assms(2)]]
  by simp

lemma apply_block_error:
  assumes "apply_block L b st = (Inl e, st')"
  obtains "st' = st"
  | w t where "apply_transactions L (block_hash L b) (blk_transactions b) (start_work st) =
        (Inl (AmountOverflow (block_hash L b) t), w)"
      "2 ^ 64 \<le> utxo_total (entries st) + coinbase_value L (blk_transactions b)"
proof -
  obtain r w where aw: "apply_transactions L (block_hash L b) (blk_transactions b) (start_work st) = (r, w)"
    by fastforce
  show thesis
  proof (cases "utxo_tip st \<noteq> Some (block_hash L b) \<and> extends_tip b st")
    case False
    then have "st' = st"
      using assms apply_block_replay [of st L b] apply_block_unexpected [of st L b] by auto
    then show thesis by (rule that(1))
  next
    case tip: True
    note ext = apply_block_extend [OF conjunct1 [OF tip] conjunct2 [OF tip] aw]
    obtain e1 where r: "r = Inl e1"
      using assms ext by (cases r) simp_all
    show thesis
    proof (cases "\<exists>cs. work_runs (start_work st) w cs")
      case True
      then obtain cs where "work_runs (start_work st) w cs" ..
      from apply_block_error_runs [OF _ this] aw r tip assms have "st' = st" by simp
      then show thesis by (rule that(1))
    next
      case False
      with apply_transactions_runs [OF aw] obtain t where "r = Inl (AmountOverflow (block_hash L b) t)"
        "2 ^ 64 \<le> utxo_total (w_entries (start_work st)) + coinbase_value L (blk_transactions b)"
        by blast
      with aw show thesis by (intro that(2)) (simp_all add: start_work_def)
    qed
  qed
qed

section \<open>The state digest\<close>

text \<open>\<open>enumerates xs m\<close>: the list is one of the orders in which the hash map may yield its entries.\<close>

definition enumerates :: "('k \<times> 'v) list \<Rightarrow> ('k, 'v) fmap \<Rightarrow> bool" where
  "enumerates xs m \<longleftrightarrow> distinct (map fst xs) \<and> map_of xs = fmlookup m"

lemma enumerates_set:
  assumes "enumerates xs m"
  shows "set xs = {(k, v). fmlookup m k = Some v}"
  using assms by (auto simp: enumerates_def simp flip: map_of_eq_Some_iff)

lemma enumerates_sorted: "enumerates (sorted_list_of_fmap m) m"
  by (simp add: enumerates_def) (simp add: sorted_list_of_fmap_def comp_def sorted_list_of_fset.rep_eq)

lemma enumerates_mset:
  assumes "enumerates xs m" "enumerates ys m"
  shows "mset xs = mset ys"
proof -
  have "distinct xs" "distinct ys"
    using assms by (auto simp: enumerates_def distinct_map)
  moreover have "set xs = set ys"
    using assms by (simp add: enumerates_set)
  ultimately show ?thesis by (simp add: set_eq_iff_mset_eq_distinct)
qed

lemma enumerates_inj_on: "enumerates xs m \<Longrightarrow> inj_on (\<lambda>x. consensus_bytes (fst x)) (set xs)"
  by (auto simp: inj_on_def consensus_bytes_inj enumerates_set)

lemma utxo_preimage_enumerates:
  assumes "enumerates xs m" "enumerates ys m"
  shows "utxo_preimage xs = utxo_preimage ys"
proof -
  let ?f = "\<lambda>x :: outpoint \<times> utxo_entry. consensus_bytes (fst x)"
  have "sort_key ?f xs = sort_key ?f ys"
  proof (rule sort_key_inj_key_eq)
    show "mset xs = mset (sort_key ?f ys)" using enumerates_mset [OF assms] by simp
    show "inj_on ?f (set xs)" by (rule enumerates_inj_on [OF assms(1)])
  qed simp
  then show ?thesis by (simp add: utxo_preimage_def)
qed

lemma length_entry_bytes: "length (entry_bytes x) = 76"
  by (cases x) (simp add: entry_bytes_def)

lemma u64_bytes_val: "le_val (le_bytes 8 (unat (v :: u64))) = unat v"
proof -
  have "unat v < 2 ^ LENGTH(64)" by (rule unsigned_less)
  then show ?thesis by (intro le_val_le_bytes) simp
qed

lemma u64_bytes_inj: "le_bytes 8 (unat (v :: u64)) = le_bytes 8 (unat w) \<longleftrightarrow> v = w"
  by (metis u64_bytes_val word_unat_eq_iff)

lemma digest_bytes_inj: "be_bytes 32 (unat (d :: digest)) = be_bytes 32 (unat d') \<longleftrightarrow> d = d'"
  by (metis digest_bytes_val word_unat_eq_iff)

lemma entry_bytes_inj: "entry_bytes x = entry_bytes y \<longleftrightarrow> x = y"
  by (cases x; cases y)
     (auto simp: entry_bytes_def consensus_bytes_inj u64_bytes_inj digest_bytes_inj sats.expand)

lemma concat_entry_bytes_inj:
  assumes "concat (map entry_bytes xs) = concat (map entry_bytes ys)"
  shows "xs = ys"
proof -
  have len: "length (concat (map entry_bytes zs)) = 76 * length zs" for zs
    by (induction zs) (auto simp: length_entry_bytes)
  have "length xs = length ys" using arg_cong [OF assms, of length] by (simp only: len)
  then have "map entry_bytes xs = map entry_bytes ys"
    by (intro concat_injective [OF assms]) (auto simp: length_entry_bytes set_zip)
  then show ?thesis
    using map_injective [of entry_bytes] by (auto simp: inj_def entry_bytes_inj)
qed

lemma utxo_preimage_inj:
  assumes "enumerates xs m" "enumerates ys n" "utxo_preimage xs = utxo_preimage ys"
  shows "m = n"
proof -
  have "set xs = set ys"
    using concat_entry_bytes_inj assms(3) unfolding utxo_preimage_def by (metis set_sort)
  then have "fmlookup m k = Some v \<longleftrightarrow> fmlookup n k = Some v" for k v
    using assms(1,2) by (auto simp: enumerates_set set_eq_iff)
  then show ?thesis by (intro fmap_ext) (metis option.exhaust)
qed

end
