(* ===== verification/Bitcoin_Dag.thy ===== *)
theory Bitcoin_Dag
  imports Bitcoin_Utxo
begin

text \<open>
  The candidate block DAG of \<open>processors/bitcoin-canonicality/src/dag.rs\<close> with the
  transitions of \<open>transition.rs\<close>. A loop that follows parent links and carries no visited
  set might not end on a corrupt DAG; it is a \<^theory_text>\<open>partial_function\<close> whose value
  \<open>None\<close> is \<^emph>\<open>does not return\<close>, and the operations built on it return an option of the
  result and the state left behind. The lemmas show that on every state the operations reach
  these loops return.
\<close>

section \<open>Data\<close>

datatype block_transition =
    Connected digest u32 u64
  | Disconnected digest u32 u64

fun transition_hash :: "block_transition \<Rightarrow> digest" where
  "transition_hash (Connected h _ _) = h"
| "transition_hash (Disconnected h _ _) = h"

fun transition_revision :: "block_transition \<Rightarrow> u64" where
  "transition_revision (Connected _ _ r) = r"
| "transition_revision (Disconnected _ _ r) = r"

record dag_node =
  node_block :: bitcoin_block
  node_parent :: "digest option"
  node_height :: u32
  cumulative_work :: block_work

type_synonym dag_nodes = "(digest, dag_node) fmap"

record canonicality_state =
  dag_network :: bitcoin_network
  nodes :: dag_nodes
  canonical_tip :: "digest option"
  next_revision :: u64

definition dag_new :: "bitcoin_network \<Rightarrow> canonicality_state" where
  "dag_new network = \<lparr>dag_network = network, nodes = fmempty, canonical_tip = None, next_revision = 1\<rparr>"

section \<open>Walking parent links\<close>

definition node_at :: "dag_nodes \<Rightarrow> digest \<Rightarrow> state_error + dag_node" where
  "node_at ns h = ok_or (fmlookup ns h) (InconsistentDag h)"

function ancestor_walk :: "dag_nodes \<Rightarrow> digest option \<Rightarrow> digest fset \<Rightarrow> state_error + digest fset" where
  "ancestor_walk ns None seen = Inr seen"
| "ancestor_walk ns (Some h) seen =
     (if h |\<in>| seen then Inl (InconsistentDag h)
      else case fmlookup ns h of
          None \<Rightarrow> Inl (InconsistentDag h)
        | Some n \<Rightarrow> ancestor_walk ns (node_parent n) (finsert h seen))"
  by pat_completeness auto

lemma fcard_unseen_decreases:
  assumes "h |\<notin>| seen" and "fmlookup ns h = Some n"
  shows "fcard (fmdom ns |-| finsert h seen) < fcard (fmdom ns |-| seen)"
proof -
  have "h |\<in>| fmdom ns" using assms(2) by (rule fmdomI)
  then have "fset (fmdom ns) - insert h (fset seen) \<subset> fset (fmdom ns) - fset seen"
    using assms(1) by blast
  then show ?thesis
    by (simp add: fcard.rep_eq psubset_card_mono)
qed

termination ancestor_walk
  by (relation "measure (\<lambda>(ns, c, seen). fcard (fmdom ns |-| seen))")
     (auto dest: fcard_unseen_decreases)

definition ancestor_set :: "dag_nodes \<Rightarrow> digest \<Rightarrow> state_error + digest fset" where
  "ancestor_set ns tip = ancestor_walk ns (Some tip) {||}"

partial_function (option) ancestor_at_height ::
  "dag_nodes \<Rightarrow> digest \<Rightarrow> u32 \<Rightarrow> (state_error + dag_node) option" where
  "ancestor_at_height ns cursor height =
     (case fmlookup ns cursor of
        None \<Rightarrow> Some (Inl (InconsistentDag cursor))
      | Some n \<Rightarrow>
          if node_height n = height then Some (Inr n)
          else if node_height n < height then Some (Inl (InconsistentDag cursor))
          else (case node_parent n of
              None \<Rightarrow> Some (Inl (InconsistentDag cursor))
            | Some p \<Rightarrow> ancestor_at_height ns p height))"

partial_function (option) collect_disconnect ::
  "dag_nodes \<Rightarrow> digest fset \<Rightarrow> digest option \<Rightarrow> (digest \<times> u32) list \<Rightarrow>
   (state_error + (digest \<times> u32) list \<times> digest option) option" where
  "collect_disconnect ns anc cursor acc =
     (case cursor of
        None \<Rightarrow> Some (Inr (acc, None))
      | Some h \<Rightarrow>
          if h |\<in>| anc then Some (Inr (acc, Some h))
          else (case fmlookup ns h of
              None \<Rightarrow> Some (Inl (InconsistentDag h))
            | Some n \<Rightarrow> collect_disconnect ns anc (node_parent n) (acc @ [(h, node_height n)])))"

partial_function (option) collect_connect ::
  "dag_nodes \<Rightarrow> digest \<Rightarrow> digest option \<Rightarrow> digest option \<Rightarrow> (digest \<times> u32) list \<Rightarrow>
   (state_error + (digest \<times> u32) list) option" where
  "collect_connect ns new_tip common cursor acc =
     (if cursor = common then Some (Inr acc)
      else case cursor of
          None \<Rightarrow> Some (Inl (InconsistentDag new_tip))
        | Some h \<Rightarrow>
            (case fmlookup ns h of
               None \<Rightarrow> Some (Inl (InconsistentDag h))
             | Some n \<Rightarrow> collect_connect ns new_tip common (node_parent n) (acc @ [(h, node_height n)])))"

declare ancestor_at_height.simps [code] collect_disconnect.simps [code] collect_connect.simps [code]

section \<open>Operations\<close>

text \<open>\<open>take_revision\<close> for every element of a list of blocks, in order.\<close>

fun emit_transitions ::
  "(digest \<Rightarrow> u32 \<Rightarrow> u64 \<Rightarrow> block_transition) \<Rightarrow> (digest \<times> u32) list \<Rightarrow> u64 \<Rightarrow> block_transition list \<times> u64" where
  "emit_transitions mk [] revision = ([], revision)"
| "emit_transitions mk ((h, height) # xs) revision =
     (case emit_transitions mk xs (saturating_add revision 1) of
        (ts, revision') \<Rightarrow> (mk h height revision # ts, revision'))"

definition reorganize_to ::
  "digest \<Rightarrow> canonicality_state \<Rightarrow> ((state_error + block_transition list) \<times> canonicality_state) option" where
  "reorganize_to new_tip st =
     (case ancestor_set (nodes st) new_tip of
        Inl e \<Rightarrow> Some (Inl e, st)
      | Inr anc \<Rightarrow>
          (case collect_disconnect (nodes st) anc (canonical_tip st) [] of
             None \<Rightarrow> None
           | Some (Inl e) \<Rightarrow> Some (Inl e, st)
           | Some (Inr (disconnect, common)) \<Rightarrow>
               (case collect_connect (nodes st) new_tip common (Some new_tip) [] of
                  None \<Rightarrow> None
                | Some (Inl e) \<Rightarrow> Some (Inl e, st)
                | Some (Inr connect) \<Rightarrow>
                    (case emit_transitions Disconnected disconnect (next_revision st) of
                       (ts1, r1) \<Rightarrow>
                         (case emit_transitions Connected (rev connect) r1 of
                            (ts2, r2) \<Rightarrow>
                              Some (Inr (ts1 @ ts2),
                                st\<lparr>canonical_tip := Some new_tip, next_revision := r2\<rparr>))))))"

definition expected_genesis_hash :: "bitcoin_lib \<Rightarrow> bitcoin_network \<Rightarrow> digest" where
  "expected_genesis_hash L network = genesis_block_hash L network"

fun difficulty_interval :: "bitcoin_network \<Rightarrow> u32" where
  "difficulty_interval Mainnet = 2016"
| "difficulty_interval Testnet = 2016"
| "difficulty_interval Signet = 2016"
| "difficulty_interval Regtest = 144"

definition needs_epoch_boundary :: "bitcoin_network \<Rightarrow> u32 \<Rightarrow> bool" where
  "needs_epoch_boundary network height \<longleftrightarrow>
     network \<noteq> Regtest \<and> is_multiple_of height (difficulty_interval network)"

definition validate_candidate_context ::
  "bitcoin_lib \<Rightarrow> bitcoin_block \<Rightarrow> canonicality_state \<Rightarrow>
   (state_error + digest option \<times> u32 \<times> block_work \<times> u32) option" where
  "validate_candidate_context L b st =
     (let h = block_hash L b; parent_hash = previous_block_hash b; network = dag_network st in
      if h = expected_genesis_hash L network then Some (Inr (None, 0, 0, compact_target b))
      else if parent_hash = 0 then Some (Inl (InvalidGenesis h))
      else case fmlookup (nodes st) parent_hash of
          None \<Rightarrow> Some (Inl (UnknownParent h parent_hash))
        | Some parent \<Rightarrow>
            (case checked_add (node_height parent) 1 of
               None \<Rightarrow> Some (Inl (WorkOverflow h))
             | Some height \<Rightarrow>
                 (case (if needs_epoch_boundary network height
                        then map_option (map_sum id (Some \<circ> node_block))
                          (ancestor_at_height (nodes st) parent_hash (height - difficulty_interval network))
                        else Some (Inr None)) of
                    None \<Rightarrow> None
                  | Some (Inl e) \<Rightarrow> Some (Inl e)
                  | Some (Inr epoch_start) \<Rightarrow>
                      (case next_required_target L (node_block parent) network height epoch_start of
                         None \<Rightarrow> Some (Inl (MissingDifficultyBoundary h (height - difficulty_interval network)))
                       | Some target \<Rightarrow>
                           Some (Inr (Some parent_hash, height, cumulative_work parent, target))))))"

definition observe_block ::
  "bitcoin_lib \<Rightarrow> bitcoin_block \<Rightarrow> canonicality_state \<Rightarrow>
   ((state_error + block_transition list) \<times> canonicality_state) option" where
  "observe_block L b st =
     (let h = block_hash L b in
      if fmlookup (nodes st) h \<noteq> None then Some (Inr [], st)
      else if \<not> has_valid_pow_for L b (compact_target b) then Some (Inl (InvalidProofOfWork h), st)
      else case validate_candidate_context L b st of
          None \<Rightarrow> None
        | Some (Inl e) \<Rightarrow> Some (Inl e, st)
        | Some (Inr (parent, height, parent_work, required_target)) \<Rightarrow>
            if \<not> has_valid_pow_for L b required_target then Some (Inl (InvalidProofOfWork h), st)
            else
              (case work_checked_add parent_work (block_work_of L b) of
                 None \<Rightarrow> Some (Inl (WorkOverflow h), st)
               | Some work \<Rightarrow>
                   let st1 = st\<lparr>nodes := fmupd h \<lparr>node_block = b, node_parent = parent,
                         node_height = height, cumulative_work = work\<rparr> (nodes st)\<rparr>
                   in (case canonical_tip st1 of
                         None \<Rightarrow> reorganize_to h st1
                       | Some tip \<Rightarrow>
                           (case fmlookup (nodes st1) tip of
                              None \<Rightarrow> Some (Inl (InconsistentDag tip), st1)
                            | Some n \<Rightarrow>
                                if cumulative_work n < work then reorganize_to h st1
                                else Some (Inr [], st1)))))"

definition dag_block :: "canonicality_state \<Rightarrow> digest \<Rightarrow> state_error + bitcoin_block" where
  "dag_block st h = map_sum id node_block (node_at (nodes st) h)"

definition dag_revision :: "canonicality_state \<Rightarrow> u64" where
  "dag_revision st = saturating_sub (next_revision st) 1"

definition block_count :: "canonicality_state \<Rightarrow> nat" where
  "block_count st = fmlen (nodes st)"

section \<open>Branches\<close>

text \<open>\<open>branch ns c hs\<close>: following parent links from \<open>c\<close> visits \<open>hs\<close>, tip first, and ends at a root.\<close>

inductive branch :: "dag_nodes \<Rightarrow> digest option \<Rightarrow> digest list \<Rightarrow> bool" for ns where
  branch_root: "branch ns None []"
| branch_node: "fmlookup ns h = Some n \<Longrightarrow> branch ns (node_parent n) hs \<Longrightarrow> branch ns (Some h) (h # hs)"

inductive_cases branch_NoneE [elim!]: "branch ns None hs"
inductive_cases branch_SomeE: "branch ns (Some h) hs"
inductive_cases branch_ConsE: "branch ns c (h # hs)"

inductive_simps branch_Cons_iff: "branch ns c (h # hs)"
inductive_simps branch_Nil_iff: "branch ns c []"

definition with_height :: "dag_nodes \<Rightarrow> digest \<Rightarrow> digest \<times> u32" where
  "with_height ns h = (h, node_height (the (fmlookup ns h)))"

definition height_of :: "dag_nodes \<Rightarrow> digest \<Rightarrow> nat" where
  "height_of ns h = unat (node_height (the (fmlookup ns h)))"

definition dag_linked :: "dag_nodes \<Rightarrow> bool" where
  "dag_linked ns \<longleftrightarrow> (\<forall>h n p. fmlookup ns h = Some n \<longrightarrow> node_parent n = Some p \<longrightarrow>
     (\<exists>m. fmlookup ns p = Some m \<and> unat (node_height n) = Suc (unat (node_height m))))"

lemma dag_linkedD:
  assumes "dag_linked ns" "fmlookup ns h = Some n" "node_parent n = Some p"
  obtains m where "fmlookup ns p = Some m" "unat (node_height n) = Suc (unat (node_height m))"
  using assms unfolding dag_linked_def by blast

lemma branch_hd: "branch ns c hs \<Longrightarrow> c = hd_opt hs"
  by (cases rule: branch.cases) auto

lemma branch_det: "branch ns c hs \<Longrightarrow> branch ns c ks \<Longrightarrow> hs = ks"
proof (induction arbitrary: ks rule: branch.induct)
  case (branch_node h n hs)
  from branch_node.prems obtain ks' where "ks = h # ks'" "branch ns (node_parent n) ks'"
    using branch_node.hyps(1) by (cases rule: branch.cases) auto
  with branch_node.IH show ?case by simp
qed auto

lemma branch_in_dom: "branch ns c hs \<Longrightarrow> x \<in> set hs \<Longrightarrow> fmlookup ns x \<noteq> None"
  by (induction rule: branch.induct) auto

lemma branch_suffix: "branch ns c (ks @ rs) \<Longrightarrow> branch ns (hd_opt rs) rs"
  by (induction ks arbitrary: c) (auto dest: branch_hd simp: branch_Cons_iff)

lemma branch_exists:
  assumes "dag_linked ns"
  shows "fmlookup ns h = Some n \<Longrightarrow> \<exists>hs. branch ns (Some h) hs"
proof (induction "unat (node_height n)" arbitrary: h n rule: less_induct)
  case less
  show ?case
  proof (cases "node_parent n")
    case None
    then show ?thesis using branch_node [OF less.prems] branch_root [of ns] by metis
  next
    case (Some p)
    with dag_linkedD [OF assms less.prems] obtain m where m: "fmlookup ns p = Some m"
      "unat (node_height n) = Suc (unat (node_height m))" by blast
    then obtain hs where "branch ns (Some p) hs" using less.hyps [of m p] by auto
    then show ?thesis using branch_node [OF less.prems] Some by auto
  qed
qed

lemma branch_heights:
  assumes "dag_linked ns" "branch ns c hs"
  shows "sorted_wrt (\<lambda>x y. height_of ns y < height_of ns x) hs"
  using assms(2)
proof (induction rule: branch.induct)
  case (branch_node h n hs)
  have "height_of ns x < height_of ns h" if "x \<in> set hs" for x
  proof (cases "node_parent n")
    case None
    with branch_node that show ?thesis by auto
  next
    case (Some p)
    with dag_linkedD [OF assms(1) branch_node.hyps(1)] obtain m where "fmlookup ns p = Some m"
      "unat (node_height n) = Suc (unat (node_height m))" by blast
    then have "height_of ns p < height_of ns h"
      using branch_node.hyps by (simp add: height_of_def)
    moreover have "x = p \<or> height_of ns x < height_of ns p"
      using branch_node.IH branch_hd [OF branch_node.hyps(2)] Some that by (cases hs) auto
    ultimately show ?thesis by auto
  qed
  with branch_node.IH show ?case by simp
qed simp

lemma branch_distinct:
  assumes "dag_linked ns" "branch ns c hs"
  shows "distinct hs"
proof -
  have "distinct xs" if "sorted_wrt (\<lambda>x y. height_of ns y < height_of ns x) xs" for xs
    using that by (induction xs) auto
  then show ?thesis using branch_heights [OF assms] .
qed

lemma branch_insert:
  assumes "fmlookup ns h = None" "branch ns c hs"
  shows "branch (fmupd h n ns) c hs"
  using assms(2)
proof (induction rule: branch.induct)
  case (branch_node x m hs)
  then show ?case using assms(1) by (intro branch.branch_node) auto
qed (rule branch.branch_root)

lemma branch_new:
  assumes "fmlookup ns h = None" "branch ns (node_parent n) hs"
  shows "branch (fmupd h n ns) (Some h) (h # hs)"
  by (rule branch.branch_node) (use branch_insert [OF assms] in simp_all)

section \<open>The loops on a branch\<close>

lemma ancestor_walk_branch:
  "branch ns c hs \<Longrightarrow> distinct hs \<Longrightarrow> set hs \<inter> fset seen = {} \<Longrightarrow>
   ancestor_walk ns c seen = Inr (seen |\<union>| fset_of_list hs)"
  by (induction arbitrary: seen rule: branch.induct) auto

lemma collect_disconnect_branch:
  "branch ns c hs \<Longrightarrow>
   collect_disconnect ns anc c acc =
     Some (Inr (acc @ map (with_height ns) (takeWhile (\<lambda>h. h |\<notin>| anc) hs),
       hd_opt (dropWhile (\<lambda>h. h |\<notin>| anc) hs)))"
proof (induction arbitrary: acc rule: branch.induct)
  case branch_root
  show ?case by (subst collect_disconnect.simps) simp
next
  case (branch_node h n hs)
  then show ?case
    by (subst collect_disconnect.simps) (simp add: with_height_def)
qed

lemma collect_connect_branch:
  "branch ns c (ks @ rs) \<Longrightarrow> \<forall>k \<in> set ks. Some k \<noteq> hd_opt rs \<Longrightarrow>
   collect_connect ns t (hd_opt rs) c acc = Some (Inr (acc @ map (with_height ns) ks))"
proof (induction ks arbitrary: c acc)
  case Nil
  then show ?case by (subst collect_connect.simps) (auto dest: branch_hd)
next
  case (Cons k ks)
  from Cons.prems(1) obtain n where n: "c = Some k" "fmlookup ns k = Some n"
    "branch ns (node_parent n) (ks @ rs)"
    by (auto elim: branch_ConsE)
  from Cons.IH [OF n(3)] Cons.prems(2) n show ?case
    by (subst collect_connect.simps) (simp add: with_height_def)
qed

lemma ancestor_at_height_branch:
  assumes "dag_linked ns" "fmlookup ns h = Some n"
  shows "\<exists>r. ancestor_at_height ns h height = Some r"
  using assms(2)
proof (induction "unat (node_height n)" arbitrary: h n rule: less_induct)
  case less
  show ?case
  proof (cases "node_parent n")
    case None
    then show ?thesis using less.prems by (subst ancestor_at_height.simps) auto
  next
    case (Some p)
    with dag_linkedD [OF assms(1) less.prems] obtain m where m: "fmlookup ns p = Some m"
      "unat (node_height n) = Suc (unat (node_height m))" by blast
    with less.hyps [of m p] Some less.prems show ?thesis
      by (subst ancestor_at_height.simps) auto
  qed
qed

lemma branch_common_suffix:
  assumes "branch ns a old" "branch ns b new"
  shows "\<exists>ks. new = ks @ dropWhile (\<lambda>h. h \<notin> set new) old"
proof (cases "dropWhile (\<lambda>h. h \<notin> set new) old")
  case Nil
  show ?thesis unfolding Nil by simp
next
  case (Cons x cs)
  then have "x \<in> set new" using hd_dropWhile [of "\<lambda>h. h \<notin> set new" old] by simp
  then obtain ks rs where new: "new = ks @ x # rs" by (auto simp: in_set_conv_decomp)
  have "branch ns (Some x) (x # rs)" using branch_suffix [of ns b ks "x # rs"] assms(2) new by simp
  moreover have "branch ns (Some x) (x # cs)"
    using branch_suffix [of ns a "takeWhile (\<lambda>h. h \<notin> set new) old" "x # cs"] assms(1)
      takeWhile_dropWhile_id [of "\<lambda>h. h \<notin> set new" old] Cons by simp
  ultimately have "x # rs = x # cs" by (rule branch_det)
  then show ?thesis using new Cons by auto
qed

section \<open>Transitions\<close>

text \<open>
  What a consumer of the transitions does with its copy of the canonical branch (tip first): a
  disconnect removes the tip, a connect puts a child of the tip on top. \<open>None\<close> is a
  transition that does not fit.
\<close>

fun replay_transitions :: "dag_nodes \<Rightarrow> block_transition list \<Rightarrow> digest list \<Rightarrow> digest list option" where
  "replay_transitions ns [] c = Some c"
| "replay_transitions ns (Disconnected h height r # ts) c =
     (if hd_opt c = Some h \<and> with_height ns h = (h, height) then replay_transitions ns ts (tl c) else None)"
| "replay_transitions ns (Connected h height r # ts) c =
     (case fmlookup ns h of
        None \<Rightarrow> None
      | Some n \<Rightarrow> if node_parent n = hd_opt c \<and> node_height n = height
                  then replay_transitions ns ts (h # c) else None)"

lemma replay_append:
  "replay_transitions ns (ts @ us) c =
    (case replay_transitions ns ts c of None \<Rightarrow> None | Some d \<Rightarrow> replay_transitions ns us d)"
  by (induction ns ts c rule: replay_transitions.induct) (auto split: option.splits)

lemma replay_disconnect:
  "replay_transitions ns (fst (emit_transitions Disconnected (map (with_height ns) ds) r)) (ds @ c) = Some c"
  by (induction ds arbitrary: r) (auto simp: with_height_def split: prod.splits, metis fst_conv)

lemma replay_connect:
  "branch ns a (ks @ c) \<Longrightarrow>
   replay_transitions ns (fst (emit_transitions Connected (map (with_height ns) (rev ks)) r)) c = Some (ks @ c)"
proof (induction ks arbitrary: c r rule: rev_induct)
  case (snoc k ks)
  have "branch ns (Some k) (k # c)" using branch_suffix [of ns a ks "k # c"] snoc.prems by simp
  then obtain n where n: "fmlookup ns k = Some n" "node_parent n = hd_opt c"
    by (auto elim!: branch_SomeE dest: branch_hd)
  have "replay_transitions ns
      (fst (emit_transitions Connected (map (with_height ns) (rev ks)) (saturating_add r 1))) (k # c) =
      Some (ks @ k # c)"
    by (rule snoc.IH) (use snoc.prems in simp)
  moreover have "with_height ns k = (k, node_height n)"
    using n(1) by (simp add: with_height_def)
  ultimately show ?case using n by (auto split: prod.splits)
qed simp

text \<open>Revisions: consecutive numbers from the state's next one, stopping at the largest \<open>u64\<close>.\<close>

lemma emit_revisions:
  "emit_transitions mk xs r = (ts, r') \<Longrightarrow> (\<And>h n v. transition_revision (mk h n v) = v) \<Longrightarrow>
   unat r + length xs < 2 ^ 64 \<Longrightarrow>
   map (\<lambda>t. unat (transition_revision t)) ts = [unat r ..< unat r + length xs] \<and>
   unat r' = unat r + length xs"
proof (induction xs arbitrary: r ts r')
  case (Cons x xs)
  obtain h height where x: "x = (h, height)" by fastforce
  from Cons.prems(1) x obtain us where us: "emit_transitions mk xs (saturating_add r 1) = (us, r')"
    and ts: "ts = mk h height r # us"
    by (auto split: prod.splits)
  have sat: "unat (saturating_add r 1) = Suc (unat r)"
    using Cons.prems(3) by (simp add: unat_saturating_add)
  have "map (\<lambda>t. unat (transition_revision t)) us = [Suc (unat r) ..< Suc (unat r) + length xs] \<and>
      unat r' = Suc (unat r) + length xs"
    using Cons.IH [OF us Cons.prems(2)] Cons.prems(3) sat by simp
  moreover have "[unat r ..< unat r + length (x # xs)] = unat r # [Suc (unat r) ..< Suc (unat r) + length xs]"
    by (subst upt_conv_Cons) auto
  ultimately show ?case using ts Cons.prems(2) by (simp del: upt_Suc)
qed simp

lemma length_emit: "length (fst (emit_transitions mk xs r)) = length xs"
  by (induction mk xs r rule: emit_transitions.induct) (auto split: prod.splits)

section \<open>Reorganisation\<close>

lemma reorganize_to_result:
  assumes "dag_linked (nodes st)"
    and old: "branch (nodes st) (canonical_tip st) old"
    and new: "branch (nodes st) (Some new_tip) new"
  obtains ds ks cs ts1 r1 ts2 r2 where
    "old = ds @ cs" "new = ks @ cs"
    "emit_transitions Disconnected (map (with_height (nodes st)) ds) (next_revision st) = (ts1, r1)"
    "emit_transitions Connected (map (with_height (nodes st)) (rev ks)) r1 = (ts2, r2)"
    "reorganize_to new_tip st =
       Some (Inr (ts1 @ ts2), st\<lparr>canonical_tip := Some new_tip, next_revision := r2\<rparr>)"
proof -
  let ?ns = "nodes st"
  define ds where "ds = takeWhile (\<lambda>h. h \<notin> set new) old"
  define cs where "cs = dropWhile (\<lambda>h. h \<notin> set new) old"
  have dist: "distinct new" by (rule branch_distinct [OF assms(1) new])
  obtain ks where ks: "new = ks @ cs"
    using branch_common_suffix [OF old new] by (auto simp: cs_def)
  have anc: "ancestor_set ?ns new_tip = Inr (fset_of_list new)"
    using ancestor_walk_branch [OF new dist, of "{||}"] by (simp add: ancestor_set_def)
  have disc: "collect_disconnect ?ns (fset_of_list new) (canonical_tip st) [] =
      Some (Inr (map (with_height ?ns) ds, hd_opt cs))"
    using collect_disconnect_branch [OF old, of "fset_of_list new" "[]"]
    by (simp add: ds_def cs_def fset_of_list_elem)
  have ne: "\<forall>k \<in> set ks. Some k \<noteq> hd_opt cs"
    using dist ks by (cases cs) auto
  have conn: "collect_connect ?ns new_tip (hd_opt cs) (Some new_tip) [] =
      Some (Inr (map (with_height ?ns) ks))"
    using collect_connect_branch [OF new [unfolded ks] ne, of new_tip "[]"] by simp
  obtain ts1 r1 where e1: "emit_transitions Disconnected (map (with_height ?ns) ds) (next_revision st) = (ts1, r1)"
    by fastforce
  obtain ts2 r2 where e2: "emit_transitions Connected (map (with_height ?ns) (rev ks)) r1 = (ts2, r2)"
    by fastforce
  show thesis
  proof (rule that [OF _ ks e1 e2])
    show "old = ds @ cs" by (simp add: ds_def cs_def)
    show "reorganize_to new_tip st =
       Some (Inr (ts1 @ ts2), st\<lparr>canonical_tip := Some new_tip, next_revision := r2\<rparr>)"
      by (simp add: reorganize_to_def anc disc conn e1 rev_map e2)
  qed
qed

lemma reorganize_to_replay:
  assumes "dag_linked (nodes st)"
    and "branch (nodes st) (canonical_tip st) old" "branch (nodes st) (Some new_tip) new"
  obtains ts st' where "reorganize_to new_tip st = Some (Inr ts, st')"
    "replay_transitions (nodes st) ts old = Some new"
    "nodes st' = nodes st" "canonical_tip st' = Some new_tip" "dag_network st' = dag_network st"
    "unat (next_revision st) + length ts < 2 ^ 64 \<longrightarrow>
       map (\<lambda>t. unat (transition_revision t)) ts =
         [unat (next_revision st) ..< unat (next_revision st) + length ts] \<and>
       unat (next_revision st') = unat (next_revision st) + length ts"
proof -
  from reorganize_to_result [OF assms] obtain ds ks cs ts1 r1 ts2 r2
    where o: "old = ds @ cs" and n: "new = ks @ cs"
      and e1: "emit_transitions Disconnected (map (with_height (nodes st)) ds) (next_revision st) = (ts1, r1)"
      and e2: "emit_transitions Connected (map (with_height (nodes st)) (rev ks)) r1 = (ts2, r2)"
      and r: "reorganize_to new_tip st =
       Some (Inr (ts1 @ ts2), st\<lparr>canonical_tip := Some new_tip, next_revision := r2\<rparr>)" .
  have len: "length ts1 = length ds" "length ts2 = length ks"
    using length_emit [of Disconnected "map (with_height (nodes st)) ds" "next_revision st"]
      length_emit [of Connected "map (with_height (nodes st)) (rev ks)" r1] e1 e2 by simp_all
  show thesis
  proof (rule that [OF r])
    show "replay_transitions (nodes st) (ts1 @ ts2) old = Some new"
      using replay_disconnect [of "nodes st" ds "next_revision st" cs] e1
        replay_connect [OF assms(3) [unfolded n], of r1] e2
      by (simp add: replay_append o n)
    show "unat (next_revision st) + length (ts1 @ ts2) < 2 ^ 64 \<longrightarrow>
      map (\<lambda>t. unat (transition_revision t)) (ts1 @ ts2) =
         [unat (next_revision st) ..< unat (next_revision st) + length (ts1 @ ts2)] \<and>
       unat (next_revision (st\<lparr>canonical_tip := Some new_tip, next_revision := r2\<rparr>)) =
         unat (next_revision st) + length (ts1 @ ts2)"
      using emit_revisions [OF e1] emit_revisions [OF e2] len
        upt_add_eq_append [of "unat (next_revision st)" "unat (next_revision st) + length ds" "length ks"]
      by (simp add: add.assoc)
  qed simp_all
qed

section \<open>The invariant of the DAG\<close>

definition node_ok :: "bitcoin_lib \<Rightarrow> bitcoin_network \<Rightarrow> dag_nodes \<Rightarrow> digest \<Rightarrow> dag_node \<Rightarrow> bool" where
  "node_ok L network ns h n \<longleftrightarrow> block_hash L (node_block n) = h \<and>
     (case node_parent n of
        None \<Rightarrow> h = expected_genesis_hash L network \<and> node_height n = 0 \<and>
          cumulative_work n = block_work_of L (node_block n)
      | Some p \<Rightarrow> h \<noteq> expected_genesis_hash L network \<and> previous_block_hash (node_block n) = p \<and>
          (\<exists>m. fmlookup ns p = Some m \<and> unat (node_height n) = Suc (unat (node_height m)) \<and>
            unat (cumulative_work n) = unat (cumulative_work m) + unat (block_work_of L (node_block n))))"

definition nodes_ok :: "bitcoin_lib \<Rightarrow> bitcoin_network \<Rightarrow> dag_nodes \<Rightarrow> bool" where
  "nodes_ok L network ns \<longleftrightarrow> (\<forall>h n. fmlookup ns h = Some n \<longrightarrow> node_ok L network ns h n)"

definition heaviest :: "dag_nodes \<Rightarrow> digest option \<Rightarrow> bool" where
  "heaviest ns tip \<longleftrightarrow> (case tip of
     None \<Rightarrow> ns = fmempty
   | Some t \<Rightarrow> (\<exists>n. fmlookup ns t = Some n \<and>
       (\<forall>h m. fmlookup ns h = Some m \<longrightarrow> cumulative_work m \<le> cumulative_work n)))"

definition dag_wf :: "bitcoin_lib \<Rightarrow> canonicality_state \<Rightarrow> bool" where
  "dag_wf L st \<longleftrightarrow> nodes_ok L (dag_network st) (nodes st) \<and> heaviest (nodes st) (canonical_tip st)"

lemma dag_wf_new: "dag_wf L (dag_new network)"
  by (simp add: dag_wf_def dag_new_def nodes_ok_def heaviest_def)

lemma nodes_ok_linked: "nodes_ok L network ns \<Longrightarrow> dag_linked ns"
  by (fastforce simp: nodes_ok_def node_ok_def dag_linked_def)

lemma node_ok_insert:
  assumes "fmlookup ns x = None" "node_ok L network ns h n"
  shows "node_ok L network (fmupd x m ns) h n"
  using assms by (auto simp: node_ok_def split: option.splits)

lemma dag_wf_branch:
  assumes "dag_wf L st"
  obtains hs where "branch (nodes st) (canonical_tip st) hs"
proof (cases "canonical_tip st")
  case None
  then show thesis using that branch_root by metis
next
  case (Some t)
  with assms obtain n where "fmlookup (nodes st) t = Some n"
    by (auto simp: dag_wf_def heaviest_def)
  moreover have "dag_linked (nodes st)"
    using assms nodes_ok_linked by (auto simp: dag_wf_def)
  ultimately show thesis using that Some branch_exists by metis
qed

text \<open>The candidate that passes validation is a good node over the DAG it was checked against.\<close>

lemma validate_candidate_returns:
  assumes "nodes_ok L (dag_network st) (nodes st)"
  shows "\<exists>r. validate_candidate_context L b st = Some r"
proof -
  note linked = nodes_ok_linked [OF assms]
  show ?thesis
  proof (cases "fmlookup (nodes st) (previous_block_hash b)")
    case None
    then show ?thesis by (simp add: validate_candidate_context_def Let_def)
  next
    case (Some n)
    obtain f where "\<And>height. ancestor_at_height (nodes st) (previous_block_hash b) height = Some (f height)"
      using ancestor_at_height_branch [OF linked Some] by metis
    with Some show ?thesis
      by (simp add: validate_candidate_context_def Let_def split: option.split sum.split)
  qed
qed

lemma validate_candidate_ok:
  assumes "validate_candidate_context L b st = Some (Inr (parent, height, pw, target))"
    and "work_checked_add pw (block_work_of L b) = Some work"
    and "n = \<lparr>node_block = b, node_parent = parent, node_height = height, cumulative_work = work\<rparr>"
  shows "node_ok L (dag_network st) (nodes st) (block_hash L b) n"
proof (cases "block_hash L b = expected_genesis_hash L (dag_network st)")
  case True
  with assms show ?thesis
    by (simp add: validate_candidate_context_def work_checked_add_eq node_ok_def checked_add_Some_iff)
next
  case False
  with assms(1) obtain m where m: "fmlookup (nodes st) (previous_block_hash b) = Some m"
    "checked_add (node_height m) 1 = Some height" "parent = Some (previous_block_hash b)"
    "pw = cumulative_work m"
    by (auto simp: validate_candidate_context_def Let_def split: if_splits option.splits sum.splits)
  with False assms(2,3) show ?thesis
    using unat_checked_add [OF m(2)] unat_checked_add [of pw "block_work_of L b" work]
    by (simp add: node_ok_def work_checked_add_eq)
qed

text \<open>Every way a block can be observed on a well-formed state.\<close>

lemma observe_block_cases:
  assumes wf: "dag_wf L st"
  obtains
    (known) "fmlookup (nodes st) (block_hash L b) \<noteq> None" "observe_block L b st = Some (Inr [], st)"
  | (rejected) e where "observe_block L b st = Some (Inl e, st)"
  | (accepted) n st1 where
      "fmlookup (nodes st) (block_hash L b) = None" "node_block n = b"
      "node_ok L (dag_network st) (nodes st) (block_hash L b) n"
      "st1 = st\<lparr>nodes := fmupd (block_hash L b) n (nodes st)\<rparr>"
      "observe_block L b st =
        (case canonical_tip st of
           None \<Rightarrow> reorganize_to (block_hash L b) st1
         | Some tip \<Rightarrow> if cumulative_work (the (fmlookup (nodes st) tip)) < cumulative_work n
             then reorganize_to (block_hash L b) st1 else Some (Inr [], st1))"
proof -
  let ?h = "block_hash L b"
  show thesis
  proof (cases "fmlookup (nodes st) ?h = None \<and> has_valid_pow_for L b (compact_target b)")
    case False
    then consider "fmlookup (nodes st) ?h \<noteq> None"
      | "fmlookup (nodes st) ?h = None" "\<not> has_valid_pow_for L b (compact_target b)" by metis
    then show thesis
    proof cases
      case 1
      then show thesis by (intro known) (simp_all add: observe_block_def)
    next
      case 2
      then show thesis by (intro rejected [of "InvalidProofOfWork ?h"]) (simp add: observe_block_def)
    qed
  next
    case fresh: True
    obtain r where r: "validate_candidate_context L b st = Some r"
      using validate_candidate_returns wf unfolding dag_wf_def by blast
    show thesis
    proof (cases r)
      case (Inl e)
      with r fresh show thesis by (intro rejected [of e]) (simp add: observe_block_def)
    next
      case (Inr x)
      obtain parent height pw target where x: "x = (parent, height, pw, target)" by (cases x)
      show thesis
      proof (cases "has_valid_pow_for L b target \<and> work_checked_add pw (block_work_of L b) \<noteq> None")
        case False
        with r Inr x fresh have "observe_block L b st = Some (Inl (InvalidProofOfWork ?h), st) \<or>
            observe_block L b st = Some (Inl (WorkOverflow ?h), st)"
          by (cases "has_valid_pow_for L b target") (simp_all add: observe_block_def)
        then show thesis using rejected by blast
      next
        case True
        then obtain work where work: "work_checked_add pw (block_work_of L b) = Some work" by auto
        define n where "n = \<lparr>node_block = b, node_parent = parent, node_height = height, cumulative_work = work\<rparr>"
        have ok: "node_ok L (dag_network st) (nodes st) ?h n"
          using validate_candidate_ok [OF _ work n_def] r Inr x by simp
        show thesis
        proof (rule accepted [OF _ _ ok refl])
          show "fmlookup (nodes st) ?h = None" using fresh by simp
          show "node_block n = b" by (simp add: n_def)
          show "observe_block L b st =
            (case canonical_tip st of
               None \<Rightarrow> reorganize_to ?h (st\<lparr>nodes := fmupd ?h n (nodes st)\<rparr>)
             | Some tip \<Rightarrow> if cumulative_work (the (fmlookup (nodes st) tip)) < cumulative_work n
                 then reorganize_to ?h (st\<lparr>nodes := fmupd ?h n (nodes st)\<rparr>)
                 else Some (Inr [], st\<lparr>nodes := fmupd ?h n (nodes st)\<rparr>))"
            using fresh r Inr x True work wf
            by (auto simp: observe_block_def Let_def n_def dag_wf_def heaviest_def split: option.splits)
        qed
      qed
    qed
  qed
qed

text \<open>What one observation does, as a single statement about a well-formed state.\<close>

definition observe_post ::
  "bitcoin_lib \<Rightarrow> bitcoin_block \<Rightarrow> canonicality_state \<Rightarrow> digest list \<Rightarrow>
   state_error + block_transition list \<Rightarrow> canonicality_state \<Rightarrow> bool" where
  "observe_post L b st old r st' \<longleftrightarrow> dag_wf L st' \<and> dag_network st' = dag_network st \<and>
     (case r of
        Inl e \<Rightarrow> st' = st
      | Inr ts \<Rightarrow> fmlookup (nodes st') (block_hash L b) \<noteq> None \<and>
          (\<forall>h n. fmlookup (nodes st) h = Some n \<longrightarrow> fmlookup (nodes st') h = Some n) \<and>
          (\<exists>new. branch (nodes st') (canonical_tip st') new \<and>
             replay_transitions (nodes st') ts old = Some new) \<and>
          (unat (next_revision st) + length ts < 2 ^ 64 \<longrightarrow>
             map (\<lambda>t. unat (transition_revision t)) ts =
               [unat (next_revision st) ..< unat (next_revision st) + length ts] \<and>
             unat (next_revision st') = unat (next_revision st) + length ts))"

lemma nodes_ok_insert:
  assumes "nodes_ok L network ns" "fmlookup ns h = None" "node_ok L network ns h n"
  shows "nodes_ok L network (fmupd h n ns)"
  using assms by (auto simp: nodes_ok_def intro: node_ok_insert)

lemma heaviest_new_tip:
  assumes "heaviest ns tip" "fmlookup ns h = None"
    and "\<And>t. tip = Some t \<Longrightarrow> cumulative_work (the (fmlookup ns t)) < cumulative_work n"
  shows "heaviest (fmupd h n ns) (Some h)"
proof (cases tip)
  case None
  with assms(1) show ?thesis by (simp add: heaviest_def)
next
  case (Some t)
  with assms(1) obtain m where m: "fmlookup ns t = Some m"
    "\<And>x k. fmlookup ns x = Some k \<Longrightarrow> cumulative_work k \<le> cumulative_work m"
    by (auto simp: heaviest_def)
  have "cumulative_work m \<le> cumulative_work n" using assms(3) [OF Some] m(1) by simp
  with m(2) show ?thesis by (auto simp: heaviest_def intro: order_trans)
qed

lemma heaviest_side_branch:
  assumes "heaviest ns (Some t)" "fmlookup ns h = None"
    and "\<not> cumulative_work (the (fmlookup ns t)) < cumulative_work n"
  shows "heaviest (fmupd h n ns) (Some t)"
  using assms by (auto simp: heaviest_def)

lemma observe_reorganize:
  assumes wf: "dag_wf L st" and old: "branch (nodes st) (canonical_tip st) old"
    and fresh: "fmlookup (nodes st) (block_hash L b) = None"
    and ok: "node_ok L (dag_network st) (nodes st) (block_hash L b) n"
    and heavier: "\<And>t. canonical_tip st = Some t \<Longrightarrow>
      cumulative_work (the (fmlookup (nodes st) t)) < cumulative_work n"
    and st1: "st1 = st\<lparr>nodes := fmupd (block_hash L b) n (nodes st)\<rparr>"
  shows "\<exists>r st'. reorganize_to (block_hash L b) st1 = Some (r, st') \<and> observe_post L b st old r st'"
proof -
  let ?h = "block_hash L b"
  have nok: "nodes_ok L (dag_network st) (nodes st1)"
    using nodes_ok_insert [OF _ fresh ok] wf st1 by (simp add: dag_wf_def)
  note linked = nodes_ok_linked [OF nok]
  have oldb: "branch (nodes st1) (canonical_tip st1) old"
    using branch_insert [OF fresh old] st1 by simp
  obtain new where newb: "branch (nodes st1) (Some ?h) new"
    using branch_exists [OF linked, of ?h n] st1 by auto
  from reorganize_to_replay [OF linked oldb newb] obtain ts st' where
    r: "reorganize_to ?h st1 = Some (Inr ts, st')"
    and rep: "replay_transitions (nodes st1) ts old = Some new"
    and st': "nodes st' = nodes st1" "canonical_tip st' = Some ?h" "dag_network st' = dag_network st1"
    and rev: "unat (next_revision st1) + length ts < 2 ^ 64 \<longrightarrow>
       map (\<lambda>t. unat (transition_revision t)) ts =
         [unat (next_revision st1) ..< unat (next_revision st1) + length ts] \<and>
       unat (next_revision st') = unat (next_revision st1) + length ts" .
  have "heaviest (nodes st') (Some ?h)"
    using heaviest_new_tip [of "nodes st" "canonical_tip st", OF _ fresh heavier] wf st1 st'
    by (simp add: dag_wf_def)
  with nok st' have "dag_wf L st'" by (simp add: dag_wf_def st1)
  moreover have "\<exists>new. branch (nodes st') (canonical_tip st') new \<and>
      replay_transitions (nodes st') ts old = Some new"
    using newb rep st' by auto
  ultimately have "observe_post L b st old (Inr ts) st'"
    using st' st1 rev fresh by (simp add: observe_post_def)
  with r show ?thesis by blast
qed

lemma observe_block_step:
  assumes wf: "dag_wf L st" and old: "branch (nodes st) (canonical_tip st) old"
  shows "\<exists>r st'. observe_block L b st = Some (r, st') \<and> observe_post L b st old r st'"
proof (cases rule: observe_block_cases [OF wf, of b])
  case 1
  then have "observe_post L b st old (Inr []) st"
    using wf old by (auto simp: observe_post_def)
  with 1 show ?thesis by blast
next
  case (2 e)
  then show ?thesis using wf by (auto simp: observe_post_def)
next
  case (3 n st1)
  let ?heavier = "\<forall>t. canonical_tip st = Some t \<longrightarrow>
    cumulative_work (the (fmlookup (nodes st) t)) < cumulative_work n"
  show ?thesis
  proof (cases ?heavier)
    case True
    with 3 have "observe_block L b st = reorganize_to (block_hash L b) st1"
      by (auto split: option.splits)
    then show ?thesis using observe_reorganize [OF wf old 3(1,3) _ 3(4)] True by simp
  next
    case False
    then obtain t where t: "canonical_tip st = Some t"
      "\<not> cumulative_work (the (fmlookup (nodes st) t)) < cumulative_work n" by auto
    with 3 have obs: "observe_block L b st = Some (Inr [], st1)" by simp
    have "dag_wf L st1"
      using wf t 3(4) nodes_ok_insert [OF _ 3(1,3)] heaviest_side_branch [OF _ 3(1) t(2)]
      by (simp add: dag_wf_def)
    moreover have "branch (nodes st1) (canonical_tip st1) old"
      using branch_insert [OF 3(1) old] 3(4) by simp
    ultimately have "observe_post L b st old (Inr []) st1"
      using 3(1,4) by (simp add: observe_post_def)
    with obs show ?thesis by blast
  qed
qed

end
