(* ===== verification/Chain_Projection.thy ===== *)
theory Chain_Projection
  imports Prelude
begin

text \<open>
  The interface between a canonical-chain tracker and a projection that follows it. A tracker
  announces moves: the tip is disconnected, or a block is connected on top. A projection connects
  blocks and disconnects its tip. When disconnecting undoes connecting, a projection that follows
  the moves from one chain to another holds exactly what it would hold had it been built from
  nothing along the new chain.
\<close>

datatype ('h, 'b) move = Detach 'h | Attach 'b

text \<open>
  A chain is a list of blocks, tip first. \<open>None\<close> is a move that does not fit the chain: a
  disconnect of something that is not the tip, or the tip connected on top of itself.
\<close>

fun move_chain :: "('b \<Rightarrow> 'h) \<Rightarrow> ('h, 'b) move list \<Rightarrow> 'b list \<Rightarrow> 'b list option" where
  "move_chain hash_of [] c = Some c"
| "move_chain hash_of (Detach h # ms) c =
     (case c of [] \<Rightarrow> None | b # c' \<Rightarrow> if hash_of b = h then move_chain hash_of ms c' else None)"
| "move_chain hash_of (Attach b # ms) c =
     (if map_option hash_of (hd_opt c) = Some (hash_of b) then None else move_chain hash_of ms (b # c))"

fun no_repeat :: "('b \<Rightarrow> 'h) \<Rightarrow> 'b list \<Rightarrow> bool" where
  "no_repeat hash_of [] \<longleftrightarrow> True"
| "no_repeat hash_of (b # c) \<longleftrightarrow> map_option hash_of (hd_opt c) \<noteq> Some (hash_of b) \<and> no_repeat hash_of c"

lemma distinct_no_repeat: "distinct (map hash_of c) \<Longrightarrow> no_repeat hash_of c"
  by (induction c) (auto simp: hd_opt_Some_iff)

fun build :: "('b \<Rightarrow> 's \<Rightarrow> 's option) \<Rightarrow> 's \<Rightarrow> 'b list \<Rightarrow> 's option" where
  "build connect s0 [] = Some s0"
| "build connect s0 (b # c) = (case build connect s0 c of None \<Rightarrow> None | Some s \<Rightarrow> connect b s)"

fun follow ::
  "('b \<Rightarrow> 's \<Rightarrow> 's option) \<Rightarrow> ('h \<Rightarrow> 's \<Rightarrow> 's option) \<Rightarrow> ('h, 'b) move list \<Rightarrow> 's \<Rightarrow> 's option" where
  "follow connect disconnect [] s = Some s"
| "follow connect disconnect (Detach h # ms) s =
     (case disconnect h s of None \<Rightarrow> None | Some s' \<Rightarrow> follow connect disconnect ms s')"
| "follow connect disconnect (Attach b # ms) s =
     (case connect b s of None \<Rightarrow> None | Some s' \<Rightarrow> follow connect disconnect ms s')"

lemma build_append:
  "build connect s0 (c @ d) = (case build connect s0 d of None \<Rightarrow> None | Some s \<Rightarrow> build connect s c)"
  by (induction c) (auto split: option.splits)

locale reversible_projection =
  fixes connect :: "'b \<Rightarrow> 's \<Rightarrow> 's option"
    and disconnect :: "'h \<Rightarrow> 's \<Rightarrow> 's option"
    and hash_of :: "'b \<Rightarrow> 'h"
    and tip :: "'s \<Rightarrow> 'h option"
  assumes disconnect_connect:
      "connect b s = Some s' \<Longrightarrow> tip s \<noteq> Some (hash_of b) \<Longrightarrow> disconnect (hash_of b) s' = Some s"
    and tip_connect: "connect b s = Some s' \<Longrightarrow> tip s' = Some (hash_of b)"
begin

lemma tip_build:
  "build connect s0 c = Some s \<Longrightarrow> tip s0 = None \<Longrightarrow> tip s = map_option hash_of (hd_opt c)"
  by (cases c) (auto split: option.splits dest: tip_connect)

lemma disconnect_build:
  assumes "build connect s0 (b # c) = Some s" "tip s0 = None" "no_repeat hash_of (b # c)"
  obtains s' where "build connect s0 c = Some s'" "disconnect (hash_of b) s = Some s'"
proof -
  from assms(1) obtain s' where s': "build connect s0 c = Some s'" "connect b s' = Some s"
    by (auto split: option.splits)
  have "tip s' \<noteq> Some (hash_of b)"
    using tip_build [OF s'(1) assms(2)] assms(3) by simp
  with s' that show thesis by (blast intro: disconnect_connect)
qed

text \<open>Following the moves is rebuilding along the chain they lead to.\<close>

lemma follow_rebuilds:
  assumes "tip s0 = None"
  shows "move_chain hash_of ms c = Some d \<Longrightarrow> no_repeat hash_of c \<Longrightarrow> build connect s0 c = Some s \<Longrightarrow>
    follow connect disconnect ms s = Some s' \<Longrightarrow> build connect s0 d = Some s'"
proof (induction ms arbitrary: c s)
  case (Cons m ms)
  show ?case
  proof (cases m)
    case (Detach h)
    with Cons.prems(1) obtain b c' where c: "c = b # c'" "hash_of b = h" "move_chain hash_of ms c' = Some d"
      by (auto split: list.splits if_splits)
    obtain s1 where s1: "build connect s0 c' = Some s1" "disconnect (hash_of b) s = Some s1"
      using disconnect_build [OF _ assms] Cons.prems(2,3) c(1) by metis
    show ?thesis
      using Cons.IH [OF c(3) _ s1(1)] Cons.prems(2,4) Detach c(1,2) s1(2) by simp
  next
    case (Attach b)
    then obtain s1 where s1: "connect b s = Some s1" "follow connect disconnect ms s1 = Some s'"
      using Cons.prems(4) by (auto split: option.splits)
    have fresh: "map_option hash_of (hd_opt c) \<noteq> Some (hash_of b)"
      "move_chain hash_of ms (b # c) = Some d"
      using Cons.prems(1) Attach by (auto split: if_splits)
    show ?thesis
      using Cons.IH [OF fresh(2) _ _ s1(2)] Cons.prems(2,3) fresh(1) s1(1) by simp
  qed
qed simp

text \<open>
  A move list that only disconnects and then connects a chain that can be built is followed
  without an error, whatever the projection went through before.
\<close>

lemma follow_detach:
  assumes "tip s0 = None"
  shows "build connect s0 (ds @ c) = Some s \<Longrightarrow> no_repeat hash_of (ds @ c) \<Longrightarrow>
    build connect s0 c = Some s1 \<Longrightarrow>
    follow connect disconnect (map (Detach \<circ> hash_of) ds @ ms) s = follow connect disconnect ms s1"
proof (induction ds arbitrary: s)
  case (Cons b ds)
  obtain s2 where "build connect s0 (ds @ c) = Some s2" "disconnect (hash_of b) s = Some s2"
    using disconnect_build [of s0 b "ds @ c" s] Cons.prems assms by auto
  with Cons show ?case by simp
qed simp

end

end
