(* ===== verification/Bitcoin_State.thy ===== *)
theory Bitcoin_State
  imports Bitcoin_Dag Chain_Projection
begin

text \<open>
  The composition of the candidate DAG and the UTXO projection,
  \<open>processors/bitcoin-canonicality/src/state.rs\<close>, with the checkpoint of
  \<open>checkpoint.rs\<close>. \<open>observe_block\<close> works on clones of both parts and assigns them to
  the state only at the end, so an error leaves the state as it was.
\<close>

section \<open>Data and operations\<close>

record state_update =
  update_transition :: block_transition
  update_utxo_events :: "utxo_event list"

record bitcoin_state =
  dag :: canonicality_state
  utxos :: utxo_state

record state_checkpoint =
  consumer_offset :: u64
  checkpoint_tip :: "digest option"
  checkpoint_revision :: u64
  checkpoint_state_hash :: digest

definition bitcoin_state_new :: "bitcoin_network \<Rightarrow> bitcoin_state" where
  "bitcoin_state_new network = \<lparr>dag = dag_new network, utxos = utxo_new\<rparr>"

text \<open>The UTXO consequence of one transition, looked up in the updated DAG.\<close>

fun apply_transition ::
  "bitcoin_lib \<Rightarrow> canonicality_state \<Rightarrow> block_transition \<Rightarrow> utxo_state \<Rightarrow>
   (state_error + utxo_event list) \<times> utxo_state" where
  "apply_transition L next_dag (Connected h _ _) us =
     (case dag_block next_dag h of Inl e \<Rightarrow> (Inl e, us) | Inr b \<Rightarrow> apply_block L b us)"
| "apply_transition L next_dag (Disconnected h _ _) us = revert_block h us"

fun apply_updates ::
  "bitcoin_lib \<Rightarrow> canonicality_state \<Rightarrow> block_transition list \<Rightarrow> utxo_state \<Rightarrow>
   state_error + state_update list \<times> utxo_state" where
  "apply_updates L next_dag [] us = Inr ([], us)"
| "apply_updates L next_dag (t # ts) us =
     (case apply_transition L next_dag t us of
        (Inl e, _) \<Rightarrow> Inl e
      | (Inr evs, us') \<Rightarrow>
          (case apply_updates L next_dag ts us' of
             Inl e \<Rightarrow> Inl e
           | Inr (ups, us'') \<Rightarrow>
               Inr (\<lparr>update_transition = t, update_utxo_events = evs\<rparr> # ups, us'')))"

definition bitcoin_observe_block ::
  "bitcoin_lib \<Rightarrow> bitcoin_block \<Rightarrow> bitcoin_state \<Rightarrow> ((state_error + state_update list) \<times> bitcoin_state) option" where
  "bitcoin_observe_block L b st =
     (case observe_block L b (dag st) of
        None \<Rightarrow> None
      | Some (Inl e, _) \<Rightarrow> Some (Inl e, st)
      | Some (Inr transitions, next_dag) \<Rightarrow>
          (case apply_updates L next_dag transitions (utxos st) of
             Inl e \<Rightarrow> Some (Inl e, st)
           | Inr (updates, next_utxos) \<Rightarrow>
               Some (Inr updates, \<lparr>dag = next_dag, utxos = next_utxos\<rparr>)))"

definition bitcoin_canonical_tip :: "bitcoin_state \<Rightarrow> digest option" where
  "bitcoin_canonical_tip st = canonical_tip (dag st)"

definition bitcoin_state_hash :: "bitcoin_lib \<Rightarrow> bitcoin_state \<Rightarrow> digest" where
  "bitcoin_state_hash L st = state_hash L (utxos st)"

definition bitcoin_utxo_count :: "bitcoin_state \<Rightarrow> nat" where
  "bitcoin_utxo_count st = utxo_count (utxos st)"

definition candidate_block_count :: "bitcoin_state \<Rightarrow> nat" where
  "candidate_block_count st = block_count (dag st)"

definition checkpoint :: "bitcoin_lib \<Rightarrow> bitcoin_state \<Rightarrow> u64 \<Rightarrow> state_checkpoint" where
  "checkpoint L st offset =
     \<lparr>consumer_offset = offset, checkpoint_tip = bitcoin_canonical_tip st,
      checkpoint_revision = dag_revision (dag st), checkpoint_state_hash = bitcoin_state_hash L st\<rparr>"

section \<open>The UTXO projection follows the chain\<close>

definition utxo_connect :: "bitcoin_lib \<Rightarrow> bitcoin_block \<Rightarrow> utxo_state \<Rightarrow> utxo_state option" where
  "utxo_connect L b us = (case apply_block L b us of (Inl _, _) \<Rightarrow> None | (Inr _, us') \<Rightarrow> Some us')"

definition utxo_disconnect :: "digest \<Rightarrow> utxo_state \<Rightarrow> utxo_state option" where
  "utxo_disconnect h us = (case revert_block h us of (Inl _, _) \<Rightarrow> None | (Inr _, us') \<Rightarrow> Some us')"

lemma utxo_connect_SomeE:
  assumes "utxo_connect L b us = Some us'"
  obtains evs where "apply_block L b us = (Inr evs, us')"
  using assms by (auto simp: utxo_connect_def split: prod.splits sum.splits)

lemma utxo_tip_apply:
  assumes "apply_block L b us = (Inr evs, us')"
  shows "utxo_tip us' = Some (block_hash L b)"
proof (cases "utxo_tip us = Some (block_hash L b)")
  case True
  then show ?thesis using assms by (simp add: apply_block_replay)
next
  case False
  show ?thesis by (rule apply_block_Inr [OF assms False]) (simp add: utxo_tip_def)
qed

interpretation utxo_chain:
  reversible_projection "utxo_connect L" utxo_disconnect "block_hash L" utxo_tip for L
proof
  fix b us us'
  assume conn: "utxo_connect L b us = Some us'"
  then obtain evs where evs: "apply_block L b us = (Inr evs, us')" by (rule utxo_connect_SomeE)
  then show "utxo_tip us' = Some (block_hash L b)" by (rule utxo_tip_apply)
  assume "utxo_tip us \<noteq> Some (block_hash L b)"
  from revert_of_apply [OF evs this] show "utxo_disconnect (block_hash L b) us' = Some us"
    by (auto simp: utxo_disconnect_def)
qed

text \<open>The projection obtained by applying a chain of blocks, tip first, to the empty one.\<close>

definition utxo_at :: "bitcoin_lib \<Rightarrow> bitcoin_block list \<Rightarrow> utxo_state option" where
  "utxo_at L c = build (utxo_connect L) utxo_new c"

definition branch_blocks :: "dag_nodes \<Rightarrow> digest list \<Rightarrow> bitcoin_block list" where
  "branch_blocks ns hs = map (\<lambda>h. node_block (the (fmlookup ns h))) hs"

fun transition_move :: "dag_nodes \<Rightarrow> block_transition \<Rightarrow> (digest, bitcoin_block) move" where
  "transition_move ns (Connected h _ _) = Attach (node_block (the (fmlookup ns h)))"
| "transition_move ns (Disconnected h _ _) = Detach h"

lemma apply_updates_follow:
  "apply_updates L d ts us = Inr (ups, us') \<Longrightarrow>
   follow (utxo_connect L) utxo_disconnect (map (transition_move (nodes d)) ts) us = Some us' \<and>
   map update_transition ups = ts"
proof (induction ts arbitrary: us ups)
  case (Cons t ts)
  from Cons.prems obtain evs us1 ups1 where t: "apply_transition L d t us = (Inr evs, us1)"
    and ts: "apply_updates L d ts us1 = Inr (ups1, us')"
    and ups: "ups = \<lparr>update_transition = t, update_utxo_events = evs\<rparr> # ups1"
    by (auto split: prod.splits sum.splits)
  from Cons.IH [OF ts] t ups show ?case
    by (cases t) (auto simp: utxo_connect_def utxo_disconnect_def dag_block_def node_at_def
        ok_or_def split: sum.splits option.splits)
qed simp

lemma nodes_ok_hash: "nodes_ok L network ns \<Longrightarrow> fmlookup ns h = Some n \<Longrightarrow> block_hash L (node_block n) = h"
  by (auto simp: nodes_ok_def node_ok_def)

lemma map_hash_branch_blocks:
  assumes "nodes_ok L network ns" "\<forall>h \<in> set hs. fmlookup ns h \<noteq> None"
  shows "map (block_hash L) (branch_blocks ns hs) = hs"
  using assms(2) by (induction hs) (auto simp: branch_blocks_def dest: nodes_ok_hash [OF assms(1)])

lemma branch_blocks_no_repeat:
  assumes "nodes_ok L network ns" "branch ns c hs"
  shows "no_repeat (block_hash L) (branch_blocks ns hs)"
proof (rule distinct_no_repeat)
  have "map (block_hash L) (branch_blocks ns hs) = hs"
    using map_hash_branch_blocks [OF assms(1)] branch_in_dom [OF assms(2)] by blast
  then show "distinct (map (block_hash L) (branch_blocks ns hs))"
    using branch_distinct [OF nodes_ok_linked [OF assms(1)] assms(2)] by simp
qed

lemma replay_move_chain:
  assumes ok: "nodes_ok L network ns"
  shows "replay_transitions ns ts old = Some new \<Longrightarrow> \<forall>h \<in> set old. fmlookup ns h \<noteq> None \<Longrightarrow>
    move_chain (block_hash L) (map (transition_move ns) ts) (branch_blocks ns old) =
      Some (branch_blocks ns new)"
proof (induction ts arbitrary: old)
  case (Cons t ts)
  show ?case
  proof (cases t)
    case (Disconnected h height r)
    with Cons.prems(1) obtain c where c: "old = h # c" "replay_transitions ns ts c = Some new"
      by (auto simp: hd_opt_Some_iff split: if_splits)
    with Cons.prems(2) obtain n where n: "fmlookup ns h = Some n" by auto
    with Cons.IH [OF c(2)] Cons.prems(2) c(1) Disconnected nodes_ok_hash [OF ok n] show ?thesis
      by (simp add: branch_blocks_def)
  next
    case (Connected h height r)
    with Cons.prems(1) obtain n where n: "fmlookup ns h = Some n" "node_parent n = hd_opt old"
      "replay_transitions ns ts (h # old) = Some new"
      by (auto split: option.splits if_splits)
    have "map_option (block_hash L) (hd_opt (branch_blocks ns old)) \<noteq> Some (block_hash L (node_block n))"
    proof (cases old)
      case (Cons p c)
      with dag_linkedD [OF nodes_ok_linked [OF ok] n(1)] n(2) obtain m where m: "fmlookup ns p = Some m"
        "unat (node_height n) = Suc (unat (node_height m))" by auto
      then have "p \<noteq> h" using n(1) by auto
      then show ?thesis
        using Cons m(1) nodes_ok_hash [OF ok n(1)] nodes_ok_hash [OF ok m(1)] by (simp add: branch_blocks_def)
    qed (simp add: branch_blocks_def)
    with Cons.IH [OF n(3)] Cons.prems(2) Connected n(1) show ?thesis
      by (simp add: branch_blocks_def)
  qed
qed simp

section \<open>The invariant of the composed state\<close>

definition bitcoin_wf :: "bitcoin_lib \<Rightarrow> bitcoin_state \<Rightarrow> bool" where
  "bitcoin_wf L st \<longleftrightarrow> dag_wf L (dag st) \<and>
     (\<exists>hs. branch (nodes (dag st)) (canonical_tip (dag st)) hs \<and>
        utxo_at L (branch_blocks (nodes (dag st)) hs) = Some (utxos st))"

lemma bitcoin_wf_new: "bitcoin_wf L (bitcoin_state_new network)"
proof -
  have "branch (nodes (dag_new network)) (canonical_tip (dag_new network)) []"
    by (simp add: dag_new_def branch_root)
  moreover have "utxo_at L (branch_blocks (nodes (dag_new network)) []) = Some utxo_new"
    by (simp add: branch_blocks_def utxo_at_def)
  ultimately show ?thesis
    using dag_wf_new by (auto simp: bitcoin_wf_def bitcoin_state_new_def)
qed

lemma bitcoin_observe_wf:
  assumes "bitcoin_wf L st"
  obtains e where "bitcoin_observe_block L b st = Some (Inl e, st)"
  | ups st' where "bitcoin_observe_block L b st = Some (Inr ups, st')" "bitcoin_wf L st'"
      "observe_block L b (dag st) = Some (Inr (map update_transition ups), dag st')"
proof -
  from assms obtain old where wf: "dag_wf L (dag st)"
    and old: "branch (nodes (dag st)) (canonical_tip (dag st)) old"
    and us: "utxo_at L (branch_blocks (nodes (dag st)) old) = Some (utxos st)"
    by (auto simp: bitcoin_wf_def)
  from observe_block_step [OF wf old] obtain r d where
    obs: "observe_block L b (dag st) = Some (r, d)" and post: "observe_post L b (dag st) old r d" by blast
  show thesis
  proof (cases r)
    case (Inl e)
    with obs show thesis by (intro that(1)) (simp add: bitcoin_observe_block_def)
  next
    case (Inr ts)
    with post obtain new where wf': "dag_wf L d"
      and keep: "\<And>h n. fmlookup (nodes (dag st)) h = Some n \<Longrightarrow> fmlookup (nodes d) h = Some n"
      and new: "branch (nodes d) (canonical_tip d) new"
      and rep: "replay_transitions (nodes d) ts old = Some new"
      by (auto simp: observe_post_def)
    from wf' have ok: "nodes_ok L (dag_network d) (nodes d)" by (simp add: dag_wf_def)
    have old_in: "\<exists>n. fmlookup (nodes (dag st)) h = Some n" if "h \<in> set old" for h
      using branch_in_dom [OF old that] by auto
    have same: "branch_blocks (nodes d) old = branch_blocks (nodes (dag st)) old"
      using old_in keep unfolding branch_blocks_def by fastforce
    show thesis
    proof (cases "apply_updates L d ts (utxos st)")
      case (Inl e)
      with obs \<open>r = Inr ts\<close> show thesis by (intro that(1)) (simp add: bitcoin_observe_block_def)
    next
      case upd: (Inr x)
      obtain ups us' where x: "x = (ups, us')" by fastforce
      note fol = apply_updates_follow [OF upd [unfolded x]]
      have "utxo_at L (branch_blocks (nodes d) new) = Some us'"
        unfolding utxo_at_def
      proof (rule utxo_chain.follow_rebuilds [OF _ _ _ _ conjunct1 [OF fol]])
        show "utxo_tip utxo_new = None" by (simp add: utxo_tip_def utxo_new_def)
        show "move_chain (block_hash L) (map (transition_move (nodes d)) ts) (branch_blocks (nodes (dag st)) old)
            = Some (branch_blocks (nodes d) new)"
          using replay_move_chain [OF ok rep] old_in keep same by fastforce
        show "no_repeat (block_hash L) (branch_blocks (nodes (dag st)) old)"
          using branch_blocks_no_repeat [OF _ old] wf by (auto simp: dag_wf_def)
        show "build (utxo_connect L) utxo_new (branch_blocks (nodes (dag st)) old) = Some (utxos st)"
          using us by (simp add: utxo_at_def)
      qed
      with wf' new have "bitcoin_wf L \<lparr>dag = d, utxos = us'\<rparr>" by (auto simp: bitcoin_wf_def)
      then show thesis
        using obs upd x \<open>r = Inr ts\<close> fol by (intro that(2)) (auto simp: bitcoin_observe_block_def)
    qed
  qed
qed

section \<open>Reachable states\<close>

inductive bitcoin_reachable :: "bitcoin_lib \<Rightarrow> bitcoin_network \<Rightarrow> bitcoin_state \<Rightarrow> bool" for L network where
  reach_new: "bitcoin_reachable L network (bitcoin_state_new network)"
| reach_observe: "bitcoin_reachable L network st \<Longrightarrow> bitcoin_observe_block L b st = Some (r, st') \<Longrightarrow>
    bitcoin_reachable L network st'"

lemma bitcoin_reachable_wf:
  "bitcoin_reachable L network st \<Longrightarrow> bitcoin_wf L st \<and> dag_network (dag st) = network"
proof (induction rule: bitcoin_reachable.induct)
  case reach_new
  show ?case by (simp add: bitcoin_wf_new) (simp add: bitcoin_state_new_def dag_new_def)
next
  case (reach_observe st b r st')
  then have wf: "bitcoin_wf L st" by simp
  show ?case
  proof (cases rule: bitcoin_observe_wf [OF wf, of b])
    case 1
    then show ?thesis using reach_observe by simp
  next
    case (2 ups st'')
    obtain old where "branch (nodes (dag st)) (canonical_tip (dag st)) old"
      using wf by (auto simp: bitcoin_wf_def)
    with observe_block_step [of L "dag st" old b] wf 2(3) have "dag_network (dag st'') = dag_network (dag st)"
      by (auto simp: bitcoin_wf_def observe_post_def)
    then show ?thesis using 2 reach_observe by simp
  qed
qed

text \<open>Two DAGs over the same blocks walk the same branch from the same tip.\<close>

lemma branches_agree:
  assumes ok: "nodes_ok L network ns" "nodes_ok L network ms"
    and same: "\<And>h n m. fmlookup ns h = Some n \<Longrightarrow> fmlookup ms h = Some m \<Longrightarrow> node_block n = node_block m"
  shows "branch ns c hs \<Longrightarrow> branch ms c ks \<Longrightarrow> hs = ks \<and> branch_blocks ns hs = branch_blocks ms ks"
proof (induction arbitrary: ks rule: branch.induct)
  case branch_root
  then show ?case by (auto simp: branch_blocks_def)
next
  case (branch_node h n hs)
  from branch_node.prems obtain m ks' where m: "fmlookup ms h = Some m" "ks = h # ks'"
    "branch ms (node_parent m) ks'" by (auto elim: branch_SomeE)
  have blk: "node_block n = node_block m" by (rule same [OF branch_node.hyps(1) m(1)])
  have "node_ok L network ns h n" "node_ok L network ms h m"
    using ok branch_node.hyps(1) m(1) by (auto simp: nodes_ok_def)
  then have "node_parent n = node_parent m"
    using blk by (auto simp: node_ok_def split: option.splits)
  with branch_node.IH m(3) have "hs = ks'" "branch_blocks ns hs = branch_blocks ms ks'" by auto
  with m blk branch_node.hyps(1) show ?case by (simp add: branch_blocks_def)
qed

text \<open>The cumulative work of a candidate is the work of its whole branch.\<close>

definition branch_work :: "bitcoin_lib \<Rightarrow> dag_nodes \<Rightarrow> digest list \<Rightarrow> nat" where
  "branch_work L ns hs = sum_list (map (\<lambda>b. unat (block_work_of L b)) (branch_blocks ns hs))"

lemma branch_work_Cons [simp]:
  "branch_work L ns [] = 0"
  "branch_work L ns (h # hs) = unat (block_work_of L (node_block (the (fmlookup ns h)))) + branch_work L ns hs"
  by (simp_all add: branch_work_def branch_blocks_def)

lemma cumulative_branch_work:
  assumes ok: "nodes_ok L network ns"
  shows "branch ns (Some h) hs \<Longrightarrow> fmlookup ns h = Some n \<Longrightarrow> unat (cumulative_work n) = branch_work L ns hs"
proof (induction hs arbitrary: h n)
  case Nil
  then show ?case by (auto elim: branch_SomeE)
next
  case (Cons x hs)
  then have x: "x = h" "branch ns (node_parent n) hs" by (auto simp: branch_Cons_iff)
  have n: "node_ok L network ns h n" using ok Cons.prems(2) by (auto simp: nodes_ok_def)
  show ?case
  proof (cases "node_parent n")
    case None
    with x have "hs = []" by auto
    with n None Cons.prems(2) x show ?thesis by (simp add: node_ok_def)
  next
    case (Some p)
    with n obtain m where m: "fmlookup ns p = Some m"
      "unat (cumulative_work n) = unat (cumulative_work m) + unat (block_work_of L (node_block n))"
      by (auto simp: node_ok_def)
    with Cons.IH [of p m] Some x Cons.prems(2) show ?thesis by simp
  qed
qed

lemma reachable_parts:
  assumes "bitcoin_reachable L network st"
  obtains hs where "dag_wf L (dag st)" "dag_network (dag st) = network"
    "branch (nodes (dag st)) (canonical_tip (dag st)) hs"
    "utxo_at L (branch_blocks (nodes (dag st)) hs) = Some (utxos st)"
  using bitcoin_reachable_wf [OF assms] by (auto simp: bitcoin_wf_def)

end
