(* ===== verification/Bitcoin_Samples.thy ===== *)
theory Bitcoin_Samples
  imports Bitcoin_State
begin

text \<open>
  Concrete inputs at which the Bitcoin theorems are applied: an instance of the library
  parameter with a hash that reads off one header field, and a handful of small blocks.
\<close>

definition sample_lib :: bitcoin_lib where
  "sample_lib = \<lparr>
     sha256 = (\<lambda>bs. of_nat (length bs)),
     compute_txid = (\<lambda>t. ucast (lib_version t)),
     compute_wtxid = (\<lambda>t. ucast (lib_version t)),
     lib_is_coinbase = (\<lambda>t. lib_input t = []),
     lib_vsize = (\<lambda>t. 1),
     deserialize_transaction = (\<lambda>bs. Inl ''short''),
     serialize_transaction = (\<lambda>t. []),
     deserialize_block = (\<lambda>bs. if bs = [] then Inr \<lparr>lib_header = \<lparr>hdr_version = 0, hdr_prev_blockhash = 0,
        hdr_merkle_root = 0, hdr_time = 0, hdr_bits = 0, hdr_nonce = 0\<rparr>, lib_txdata = []\<rparr> else Inl ''short''),
     serialize_block = (\<lambda>b. []),
     check_merkle_root = (\<lambda>b. True),
     header_hash = (\<lambda>h. ucast (hdr_nonce h)),
     validate_pow = (\<lambda>h target. True),
     header_work = (\<lambda>h. ucast (hdr_time h)),
     difficulty_adjustment_interval = (\<lambda>network. 2016),
     no_pow_retargeting = (\<lambda>network. False),
     difficulty_adjustment = (\<lambda>network first last. hdr_bits last),
     genesis_block_hash = (\<lambda>network. 1)\<rparr>"

definition sample_tx :: "u32 \<Rightarrow> (digest \<times> u32) list \<Rightarrow> u64 list \<Rightarrow> bitcoin_transaction" where
  "sample_tx ident spends values = from_transaction
     \<lparr>lib_version = ident, lib_lock_time = 0,
      lib_input = map (\<lambda>(t, i). \<lparr>previous_output = OutPoint t i, script_sig = [], input_sequence = 0,
        witness_stack = []\<rparr>) spends,
      lib_output = map (\<lambda>v. \<lparr>value_sats = Sats v, script_pubkey = []\<rparr>) values\<rparr> []"

definition sample_block :: "u32 \<Rightarrow> digest \<Rightarrow> u32 \<Rightarrow> bitcoin_transaction list \<Rightarrow> bitcoin_block" where
  "sample_block ident parent work txs =
     \<lparr>blk_inner = \<lparr>lib_header = \<lparr>hdr_version = 0, hdr_prev_blockhash = parent, hdr_merkle_root = 0,
        hdr_time = work, hdr_bits = 0, hdr_nonce = ident\<rparr>, lib_txdata = map tx_inner txs\<rparr>,
      blk_consensus_bytes = [], blk_transactions = txs\<rparr>"

definition sample_genesis :: bitcoin_block where
  "sample_genesis = sample_block 1 0 1 [sample_tx 10 [] [50]]"

definition sample_child :: bitcoin_block where
  "sample_child = sample_block 2 1 1 [sample_tx 20 [] [50], sample_tx 21 [(10, 0)] [30, 15]]"

definition sample_rival :: bitcoin_block where
  "sample_rival = sample_block 3 1 2 [sample_tx 30 [] [50]]"

lemma sample_lib_simps [eval_def]:
  "sha256 sample_lib bs = of_nat (length bs)"
  "compute_txid sample_lib t = ucast (lib_version t)"
  "lib_is_coinbase sample_lib t = (lib_input t = [])"
  "header_hash sample_lib h = ucast (hdr_nonce h)"
  "validate_pow sample_lib h target = True"
  "header_work sample_lib h = ucast (hdr_time h)"
  "genesis_block_hash sample_lib network = 1"
  "difficulty_adjustment_interval sample_lib network = 2016"
  "no_pow_retargeting sample_lib network = False"
  "serialize_block sample_lib b = []"
  "check_merkle_root sample_lib b = True"
  by (simp_all add: sample_lib_def)

declare
  sample_tx_def [eval_def] sample_block_def [eval_def]
  from_transaction_def [eval_def] txid_def [eval_def] is_coinbase_def [eval_def]
  block_hash_def [eval_def] previous_block_hash_def [eval_def] script_pubkey_id_def [eval_def]
  compact_target_def [eval_def] has_valid_pow_for_def [eval_def] block_work_of_def [eval_def]
  next_required_target_def [eval_def] is_multiple_of_def [eval_def]
  Let_def [eval_def] checked_add_def [eval_def] last_opt_def [eval_def] saturating_add_def [eval_def]
  apply_block_def [eval_def] apply_transaction_def [eval_def] utxo_tip_def [eval_def]
  revert_block_def [eval_def] rollback_partial_def [eval_def]

definition sample_utxo_genesis :: utxo_state where
  "sample_utxo_genesis =
     \<lparr>entries = fmupd (OutPoint 10 0) \<lparr>entry_value = Sats 50, entry_script_pubkey_id = 0\<rparr> fmempty,
      applied_blocks = [\<lparr>applied_hash = 1, applied_undo = [UndoCreated (OutPoint 10 0)]\<rparr>]\<rparr>"

lemma sample_apply_genesis:
  "apply_block sample_lib sample_genesis utxo_new =
     (Inr [Created (OutPoint 10 0) (Sats 50) 0], sample_utxo_genesis)"
  by (simp add: sample_genesis_def utxo_new_def sample_utxo_genesis_def eval_def)

lemma sample_apply_child:
  "\<exists>us. apply_block sample_lib sample_child sample_utxo_genesis =
     (Inr [Created (OutPoint 20 0) (Sats 50) 0, Spent (OutPoint 10 0) 21 0,
           Created (OutPoint 21 0) (Sats 30) 0, Created (OutPoint 21 1) (Sats 15) 0], us)"
  by (simp add: sample_child_def sample_utxo_genesis_def eval_def)

definition sample_node :: "bitcoin_block \<Rightarrow> digest option \<Rightarrow> u32 \<Rightarrow> block_work \<Rightarrow> dag_node" where
  "sample_node b parent height work =
     \<lparr>node_block = b, node_parent = parent, node_height = height, cumulative_work = work\<rparr>"

definition sample_dag_genesis :: canonicality_state where
  "sample_dag_genesis =
     \<lparr>dag_network = Regtest, nodes = fmupd 1 (sample_node sample_genesis None 0 1) fmempty,
      canonical_tip = Some 1, next_revision = 2\<rparr>"

definition sample_dag_child :: canonicality_state where
  "sample_dag_child =
     \<lparr>dag_network = Regtest, nodes = fmupd 2 (sample_node sample_child (Some 1) 1 2)
        (fmupd 1 (sample_node sample_genesis None 0 1) fmempty),
      canonical_tip = Some 2, next_revision = 3\<rparr>"

definition sample_dag_rival :: canonicality_state where
  "sample_dag_rival =
     \<lparr>dag_network = Regtest, nodes = fmupd 3 (sample_node sample_rival (Some 1) 1 3)
        (fmupd 2 (sample_node sample_child (Some 1) 1 2)
        (fmupd 1 (sample_node sample_genesis None 0 1) fmempty)),
      canonical_tip = Some 3, next_revision = 5\<rparr>"

lemmas dag_eval = observe_block_def validate_candidate_context_def work_checked_add_eq
  expected_genesis_hash_def needs_epoch_boundary_def reorganize_to_def ancestor_set_def
  collect_disconnect.simps collect_connect.simps sample_node_def

lemma sample_observe_genesis:
  "observe_block sample_lib sample_genesis (dag_new Regtest) = Some (Inr [Connected 1 0 1], sample_dag_genesis)"
  by (simp add: dag_eval sample_genesis_def sample_dag_genesis_def dag_new_def eval_def)

lemma sample_observe_child:
  "observe_block sample_lib sample_child sample_dag_genesis = Some (Inr [Connected 2 1 2], sample_dag_child)"
  by (simp add: dag_eval sample_child_def sample_dag_genesis_def sample_dag_child_def eval_def)

lemma sample_observe_rival:
  "observe_block sample_lib sample_rival sample_dag_child =
     Some (Inr [Disconnected 2 1 3, Connected 3 1 4], sample_dag_rival)"
  by (simp add: dag_eval sample_rival_def sample_dag_child_def sample_dag_rival_def eval_def)

lemma sample_apply_rival:
  "\<exists>us. apply_block sample_lib sample_rival sample_utxo_genesis = (Inr [Created (OutPoint 30 0) (Sats 50) 0], us)"
  by (simp add: sample_rival_def sample_utxo_genesis_def eval_def)

text \<open>The same three blocks with the heavier rival first: the child only joins a side branch.\<close>

definition sample_dag_rival_first :: canonicality_state where
  "sample_dag_rival_first =
     \<lparr>dag_network = Regtest, nodes = fmupd 3 (sample_node sample_rival (Some 1) 1 3)
        (fmupd 1 (sample_node sample_genesis None 0 1) fmempty),
      canonical_tip = Some 3, next_revision = 3\<rparr>"

definition sample_dag_child_second :: canonicality_state where
  "sample_dag_child_second =
     sample_dag_rival_first\<lparr>nodes := fmupd 2 (sample_node sample_child (Some 1) 1 2)
       (nodes sample_dag_rival_first)\<rparr>"

lemma sample_observe_rival_first:
  "observe_block sample_lib sample_rival sample_dag_genesis = Some (Inr [Connected 3 1 2], sample_dag_rival_first)"
  by (simp add: dag_eval sample_rival_def sample_dag_genesis_def sample_dag_rival_first_def eval_def)

lemma sample_observe_child_second:
  "observe_block sample_lib sample_child sample_dag_rival_first = Some (Inr [], sample_dag_child_second)"
  by (simp add: dag_eval sample_child_def sample_dag_rival_first_def sample_dag_child_second_def eval_def)

section \<open>Composed states\<close>

definition sample_state :: "bitcoin_block list \<Rightarrow> bitcoin_state" where
  "sample_state bs = fold (\<lambda>b st. snd (the (bitcoin_observe_block sample_lib b st))) bs
     (bitcoin_state_new Regtest)"

lemma sample_state_snoc:
  "sample_state (bs @ [b]) = snd (the (bitcoin_observe_block sample_lib b (sample_state bs)))"
  by (simp add: sample_state_def)

lemma sample_state_reachable: "bitcoin_reachable sample_lib Regtest (sample_state bs)"
proof (induction bs rule: rev_induct)
  case Nil
  show ?case by (simp add: sample_state_def reach_new)
next
  case (snoc b bs)
  have "bitcoin_wf sample_lib (sample_state bs)" using bitcoin_reachable_wf [OF snoc] by simp
  then obtain r st' where "bitcoin_observe_block sample_lib b (sample_state bs) = Some (r, st')"
    by (rule bitcoin_observe_wf [of _ _ b]) auto
  then show ?case using reach_observe [OF snoc] sample_state_snoc by simp
qed

lemma sample_dag_block:
  "dag_block sample_dag_genesis 1 = Inr sample_genesis"
  "dag_block sample_dag_child 2 = Inr sample_child"
  "dag_block sample_dag_rival 3 = Inr sample_rival"
  "dag_block sample_dag_rival_first 3 = Inr sample_rival"
  by (simp_all add: dag_block_def node_at_def sample_dag_genesis_def sample_dag_child_def
      sample_dag_rival_def sample_dag_rival_first_def sample_node_def)

lemma sample_state_genesis:
  "sample_state [sample_genesis] = \<lparr>dag = sample_dag_genesis, utxos = sample_utxo_genesis\<rparr>"
  by (simp add: sample_state_def bitcoin_observe_block_def bitcoin_state_new_def sample_observe_genesis
      sample_dag_block sample_apply_genesis)

lemma sample_state_child:
  "\<exists>us. sample_state [sample_genesis, sample_child] = \<lparr>dag = sample_dag_child, utxos = us\<rparr> \<and>
     (\<exists>evs. revert_block 2 us = (Inr evs, sample_utxo_genesis))"
proof -
  obtain us evs where us: "apply_block sample_lib sample_child sample_utxo_genesis = (Inr evs, us)"
    using sample_apply_child by blast
  have "utxo_tip sample_utxo_genesis \<noteq> Some (block_hash sample_lib sample_child)"
    and "block_hash sample_lib sample_child = 2"
    by (simp_all add: sample_utxo_genesis_def sample_child_def eval_def)
  with revert_of_apply [OF us] have "\<exists>evs'. revert_block 2 us = (Inr evs', sample_utxo_genesis)" by auto
  moreover have "sample_state [sample_genesis, sample_child] = \<lparr>dag = sample_dag_child, utxos = us\<rparr>"
    using sample_state_snoc [of "[sample_genesis]" sample_child]
    by (simp add: sample_state_genesis bitcoin_observe_block_def sample_observe_child sample_dag_block us)
  ultimately show ?thesis by blast
qed

lemma sample_state_rival:
  "dag (sample_state [sample_genesis, sample_child, sample_rival]) = sample_dag_rival"
proof -
  obtain us evs where "sample_state [sample_genesis, sample_child] = \<lparr>dag = sample_dag_child, utxos = us\<rparr>"
    "revert_block 2 us = (Inr evs, sample_utxo_genesis)"
    using sample_state_child by blast
  moreover obtain us' evs' where "apply_block sample_lib sample_rival sample_utxo_genesis = (Inr evs', us')"
    using sample_apply_rival by blast
  ultimately show ?thesis
    using sample_state_snoc [of "[sample_genesis, sample_child]" sample_rival]
    by (simp add: bitcoin_observe_block_def sample_observe_rival sample_dag_block)
qed

lemma sample_state_child_second:
  "dag (sample_state [sample_genesis, sample_rival, sample_child]) = sample_dag_child_second"
proof -
  obtain us evs where "apply_block sample_lib sample_rival sample_utxo_genesis = (Inr evs, us)"
    using sample_apply_rival by blast
  then have "sample_state [sample_genesis, sample_rival] = \<lparr>dag = sample_dag_rival_first, utxos = us\<rparr>"
    using sample_state_snoc [of "[sample_genesis]" sample_rival]
    by (simp add: sample_state_genesis bitcoin_observe_block_def sample_observe_rival_first sample_dag_block)
  then show ?thesis
    using sample_state_snoc [of "[sample_genesis, sample_rival]" sample_child]
    by (simp add: bitcoin_observe_block_def sample_observe_child_second)
qed

end
