(* ===== verification/Bitcoin_Properties.thy ===== *)
theory Bitcoin_Properties
  imports Bitcoin_Samples
begin

text \<open>
  What the Bitcoin components promise, from the composed state down to the byte encodings, each
  with its instance at a concrete input.
\<close>

section \<open>The composed state\<close>

text \<open>C1: the UTXO projection of a state reached by observing blocks, in whatever order they came
  and through whatever reorganisations, is exactly what applying the blocks of the canonical
  branch to the empty projection gives.\<close>

theorem utxos_replay_canonical_branch:
  assumes "bitcoin_reachable L network st"
  shows "\<exists>hs. branch (nodes (dag st)) (bitcoin_canonical_tip st) hs \<and>
    utxo_at L (branch_blocks (nodes (dag st)) hs) = Some (utxos st)"
  using assms by (auto elim!: reachable_parts simp: bitcoin_canonical_tip_def)

theorem utxos_replay_canonical_branch_witness:
  "\<exists>hs. branch (nodes (dag (sample_state [sample_genesis, sample_child, sample_rival])))
      (bitcoin_canonical_tip (sample_state [sample_genesis, sample_child, sample_rival])) hs \<and>
    utxo_at sample_lib (branch_blocks (nodes (dag (sample_state [sample_genesis, sample_child, sample_rival]))) hs) =
      Some (utxos (sample_state [sample_genesis, sample_child, sample_rival]))"
  by (rule utxos_replay_canonical_branch [OF sample_state_reachable])

text \<open>C2: two observers of the same network that hold the same canonical tip hold the same UTXO
  projection and report the same state hash, whatever order the blocks arrived in and whatever side
  branches each saw, as long as a block hash names the same block to both.\<close>

theorem same_tip_same_projection:
  assumes "bitcoin_reachable L network st" "bitcoin_reachable L network st'"
    and "bitcoin_canonical_tip st = bitcoin_canonical_tip st'"
    and "\<forall>h n m. fmlookup (nodes (dag st)) h = Some n \<longrightarrow> fmlookup (nodes (dag st')) h = Some m \<longrightarrow>
      node_block n = node_block m"
  shows "utxos st = utxos st' \<and> bitcoin_state_hash L st = bitcoin_state_hash L st'"
proof -
  from assms(1) obtain hs where hs: "dag_wf L (dag st)" "dag_network (dag st) = network"
    "branch (nodes (dag st)) (canonical_tip (dag st)) hs"
    "utxo_at L (branch_blocks (nodes (dag st)) hs) = Some (utxos st)" by (rule reachable_parts)
  from assms(2) obtain ks where ks: "dag_wf L (dag st')" "dag_network (dag st') = network"
    "branch (nodes (dag st')) (canonical_tip (dag st')) ks"
    "utxo_at L (branch_blocks (nodes (dag st')) ks) = Some (utxos st')" by (rule reachable_parts)
  have "branch_blocks (nodes (dag st)) hs = branch_blocks (nodes (dag st')) ks"
  proof (rule conjunct2 [OF branches_agree])
    show "nodes_ok L network (nodes (dag st))" "nodes_ok L network (nodes (dag st'))"
      using hs(1,2) ks(1,2) by (auto simp: dag_wf_def)
    show "branch (nodes (dag st')) (canonical_tip (dag st)) ks"
      using ks(3) assms(3) by (simp add: bitcoin_canonical_tip_def)
  qed (use hs(3) assms(4) in blast)+
  then show ?thesis using hs(4) ks(4) by (simp add: bitcoin_state_hash_def)
qed

theorem same_tip_same_projection_witness:
  "utxos (sample_state [sample_genesis, sample_child, sample_rival]) =
     utxos (sample_state [sample_genesis, sample_rival, sample_child]) \<and>
   bitcoin_state_hash sample_lib (sample_state [sample_genesis, sample_child, sample_rival]) =
     bitcoin_state_hash sample_lib (sample_state [sample_genesis, sample_rival, sample_child])"
proof (rule same_tip_same_projection [OF sample_state_reachable sample_state_reachable])
  show "bitcoin_canonical_tip (sample_state [sample_genesis, sample_child, sample_rival]) =
      bitcoin_canonical_tip (sample_state [sample_genesis, sample_rival, sample_child])"
    by (simp add: bitcoin_canonical_tip_def sample_state_rival sample_state_child_second
        sample_dag_rival_def sample_dag_child_second_def sample_dag_rival_first_def)
qed (auto simp: sample_state_rival sample_state_child_second sample_dag_rival_def
    sample_dag_child_second_def sample_dag_rival_first_def split: if_splits)

text \<open>C3: observing a block on a reached state always returns. When it fails, the DAG and the
  UTXO projection are the ones it started from. When it succeeds, the updates it reports carry
  transitions that turn the old canonical branch into the new one, a disconnect always of the
  current tip and a connect always of a child of it, numbered by consecutive revisions.\<close>

theorem bitcoin_observe_atomic:
  assumes "bitcoin_reachable L network st"
  shows "\<exists>r st'. bitcoin_observe_block L b st = Some (r, st') \<and>
    (case r of
       Inl e \<Rightarrow> st' = st
     | Inr ups \<Rightarrow> \<exists>old new. branch (nodes (dag st)) (bitcoin_canonical_tip st) old \<and>
         branch (nodes (dag st')) (bitcoin_canonical_tip st') new \<and>
         replay_transitions (nodes (dag st')) (map update_transition ups) old = Some new \<and>
         (unat (next_revision (dag st)) + length ups < 2 ^ 64 \<longrightarrow>
            map (\<lambda>u. unat (transition_revision (update_transition u))) ups =
              [unat (next_revision (dag st)) ..< unat (next_revision (dag st)) + length ups] \<and>
            unat (next_revision (dag st')) = unat (next_revision (dag st)) + length ups))"
proof -
  have wf: "bitcoin_wf L st" using bitcoin_reachable_wf [OF assms] by simp
  obtain old where old: "dag_wf L (dag st)" "branch (nodes (dag st)) (canonical_tip (dag st)) old"
    using wf by (auto simp: bitcoin_wf_def)
  show ?thesis
  proof (cases rule: bitcoin_observe_wf [OF wf, of b])
    case 1
    then show ?thesis by auto
  next
    case (2 ups st')
    from observe_block_step [OF old, of b] 2(3)
    have "observe_post L b (dag st) old (Inr (map update_transition ups)) (dag st')" by auto
    then obtain new where "branch (nodes (dag st')) (canonical_tip (dag st')) new"
      "replay_transitions (nodes (dag st')) (map update_transition ups) old = Some new"
      "unat (next_revision (dag st)) + length ups < 2 ^ 64 \<longrightarrow>
            map (\<lambda>u. unat (transition_revision (update_transition u))) ups =
              [unat (next_revision (dag st)) ..< unat (next_revision (dag st)) + length ups] \<and>
            unat (next_revision (dag st')) = unat (next_revision (dag st)) + length ups"
      by (auto simp: observe_post_def comp_def)
    with 2(1) old(2) show ?thesis by (auto simp: bitcoin_canonical_tip_def)
  qed
qed

theorem bitcoin_observe_atomic_witness:
  "\<exists>r st'. bitcoin_observe_block sample_lib sample_rival (sample_state [sample_genesis, sample_child]) =
     Some (r, st')"
  using bitcoin_observe_atomic [OF sample_state_reachable, of sample_rival "[sample_genesis, sample_child]"]
  by blast

text \<open>C4: the canonical tip of a reached state carries at least the work of every candidate
  block, where the cumulative work a node stores is the exact sum of the work of all blocks on
  its branch.\<close>

theorem canonical_tip_has_most_work:
  assumes "bitcoin_reachable L network st"
    and "branch (nodes (dag st)) (Some h) hs"
  shows "\<exists>t ts. bitcoin_canonical_tip st = Some t \<and> branch (nodes (dag st)) (Some t) ts \<and>
    branch_work L (nodes (dag st)) hs \<le> branch_work L (nodes (dag st)) ts"
proof -
  from assms(1) obtain ts where ts: "dag_wf L (dag st)"
    "branch (nodes (dag st)) (canonical_tip (dag st)) ts" by (rule reachable_parts)
  obtain m where m: "fmlookup (nodes (dag st)) h = Some m" using assms(2) by (auto elim: branch_SomeE)
  with ts(1) obtain t n where t: "canonical_tip (dag st) = Some t" "fmlookup (nodes (dag st)) t = Some n"
    "cumulative_work m \<le> cumulative_work n"
    by (auto simp: dag_wf_def heaviest_def split: option.splits)
  have ok: "nodes_ok L (dag_network (dag st)) (nodes (dag st))" using ts(1) by (simp add: dag_wf_def)
  show ?thesis
    using cumulative_branch_work [OF ok assms(2) m] cumulative_branch_work [OF ok _ t(2), of ts] ts(2) t
    by (auto simp: bitcoin_canonical_tip_def word_le_nat_alt)
qed

theorem canonical_tip_has_most_work_witness:
  "\<exists>t ts. bitcoin_canonical_tip (sample_state [sample_genesis]) = Some t \<and>
    branch (nodes (dag (sample_state [sample_genesis]))) (Some t) ts \<and>
    branch_work sample_lib (nodes (dag (sample_state [sample_genesis]))) [1] \<le>
      branch_work sample_lib (nodes (dag (sample_state [sample_genesis]))) ts"
proof (rule canonical_tip_has_most_work [OF sample_state_reachable])
  show "branch (nodes (dag (sample_state [sample_genesis]))) (Some 1) [1]"
    by (rule branch_node [where n = "sample_node sample_genesis None 0 1"])
       (simp_all add: sample_state_genesis sample_dag_genesis_def sample_node_def branch_root)
qed

section \<open>The UTXO projection\<close>

text \<open>reverting the block just applied restores the projection exactly, entries and
  journal, and the events of the revert are the inverses of the events of the application in
  reverse order.\<close>

theorem revert_block_undoes_apply_block:
  assumes "apply_block L b us = (Inr evs, us')"
    and "utxo_tip us \<noteq> Some (block_hash L b)"
  shows "\<exists>evs'. revert_block (block_hash L b) us' = (Inr evs', us) \<and>
    map Some evs' = map inverse_event (rev evs)"
  by (rule revert_of_apply [OF assms])

theorem revert_block_undoes_apply_block_witness:
  "\<exists>us' evs'. apply_block sample_lib sample_child sample_utxo_genesis =
       (Inr [Created (OutPoint 20 0) (Sats 50) 0, Spent (OutPoint 10 0) 21 0,
          Created (OutPoint 21 0) (Sats 30) 0, Created (OutPoint 21 1) (Sats 15) 0], us') \<and>
     revert_block 2 us' = (Inr evs', sample_utxo_genesis) \<and>
     evs' = [CreationReverted (OutPoint 21 1), CreationReverted (OutPoint 21 0),
       SpendReverted (OutPoint 10 0) 21 0, CreationReverted (OutPoint 20 0)]"
proof -
  obtain us' where us': "apply_block sample_lib sample_child sample_utxo_genesis =
       (Inr [Created (OutPoint 20 0) (Sats 50) 0, Spent (OutPoint 10 0) 21 0,
          Created (OutPoint 21 0) (Sats 30) 0, Created (OutPoint 21 1) (Sats 15) 0], us')"
    using sample_apply_child by blast
  have h: "block_hash sample_lib sample_child = 2" by (simp add: sample_child_def eval_def)
  have "utxo_tip sample_utxo_genesis \<noteq> Some (block_hash sample_lib sample_child)"
    unfolding h by (simp add: sample_utxo_genesis_def eval_def)
  from revert_block_undoes_apply_block [OF us' this] us' show ?thesis unfolding h by auto
qed

text \<open>as long as all unspent value together with the value the coinbases of the block
  create fits in 64 bits, an application that fails leaves the projection as it was.\<close>

theorem apply_block_failure_is_atomic:
  assumes "apply_block L b us = (Inl e, us')"
    and "utxo_total (entries us) + coinbase_value L (blk_transactions b) < 2 ^ 64"
  shows "us' = us"
  by (rule apply_block_error [OF assms(1)]) (use assms(2) in simp_all)

definition sample_overspend :: bitcoin_block where
  "sample_overspend = sample_block 2 1 1 [sample_tx 20 [] [50], sample_tx 21 [(10, 0)] [30, 25]]"

lemma sample_overspend_fails:
  "fst (apply_block sample_lib sample_overspend sample_utxo_genesis) = Inl (NegativeFee 2 21 50 55)"
  by (simp add: sample_overspend_def sample_utxo_genesis_def eval_def)

theorem apply_block_failure_is_atomic_witness:
  "apply_block sample_lib sample_overspend sample_utxo_genesis =
     (Inl (NegativeFee 2 21 50 55), sample_utxo_genesis)"
proof -
  obtain us' where us': "apply_block sample_lib sample_overspend sample_utxo_genesis =
      (Inl (NegativeFee 2 21 50 55), us')"
    using sample_overspend_fails by (metis prod.collapse)
  have "utxo_total (entries sample_utxo_genesis) + coinbase_value sample_lib (blk_transactions sample_overspend)
      < 2 ^ 64"
    by (simp add: utxo_total_def coinbase_value_def outputs_value_def sample_overspend_def
        sample_utxo_genesis_def eval_def)
  from apply_block_failure_is_atomic [OF us' this] us' show ?thesis by simp
qed

text \<open>Two unspent outputs whose sum does not fit in 64 bits, and a transaction that spends both.\<close>

definition rich_genesis :: bitcoin_block where
  "rich_genesis = sample_block 1 0 1 [sample_tx 10 [] [2 ^ 63], sample_tx 11 [] [2 ^ 63]]"

definition rich_spender :: bitcoin_block where
  "rich_spender = sample_block 2 1 1 [sample_tx 21 [(10, 0), (11, 0)] [1]]"

definition rich_utxo :: utxo_state where
  "rich_utxo =
     \<lparr>entries = fmupd (OutPoint 11 0) \<lparr>entry_value = Sats (2 ^ 63), entry_script_pubkey_id = 0\<rparr>
        (fmupd (OutPoint 10 0) \<lparr>entry_value = Sats (2 ^ 63), entry_script_pubkey_id = 0\<rparr> fmempty),
      applied_blocks = [\<lparr>applied_hash = 1,
        applied_undo = [UndoCreated (OutPoint 10 0), UndoCreated (OutPoint 11 0)]\<rparr>]\<rparr>"

lemma rich_apply_genesis: "snd (apply_block sample_lib rich_genesis utxo_new) = rich_utxo"
  by (simp add: rich_genesis_def utxo_new_def rich_utxo_def eval_def)

text \<open>An undo operation and the outpoint it is about; undoing the others is not disturbed by the loss of one entry.\<close>

fun undo_point :: "undo_operation \<Rightarrow> outpoint" where
  "undo_point (UndoCreated p) = p"
| "undo_point (UndoSpent p e t i) = p"

lemma undo_drop:
  assumes "utxo_undo u es = Some es'" "undo_point u \<noteq> p"
  shows "utxo_undo u (fmdrop p es) = Some (fmdrop p es')"
proof -
  have swap: "fmdrop q (fmdrop p m) = fmdrop p (fmdrop q m)" "q \<noteq> p \<Longrightarrow> fmupd q e (fmdrop p m) = fmdrop p (fmupd q e m)" for q e m
    by (rule fmap_ext; auto)+
  show ?thesis using assms by (cases u) (auto simp: swap split: if_splits)
qed

lemma undo_all_drop:
  "undo_all utxo_undo us es = Some es0 \<Longrightarrow> \<forall>u \<in> set us. undo_point u \<noteq> p \<Longrightarrow> undo_all utxo_undo us (fmdrop p es) = Some (fmdrop p es0)"
  by (induction us arbitrary: es rule: rev_induct) (auto simp: undo_all_snoc undo_drop split: option.splits)

lemma run_all_length: "run_all step cs s = Some (us, s') \<Longrightarrow> length cs = length us"
  by (induction cs arbitrary: s us) (auto split: option.splits prod.splits)

lemma run_all_absent:
  "run_all utxo_step cs es = Some (vs, es') \<Longrightarrow> fmlookup es p = None \<Longrightarrow> UndoCreated p \<notin> set vs \<Longrightarrow> fmlookup es' p = None"
proof (induction cs arbitrary: es vs)
  case (Cons c cs)
  then show ?case by (cases c) (auto split: option.splits if_splits)
qed simp

lemma run_all_untouched:
  "run_all utxo_step cs es = Some (vs, es') \<Longrightarrow> fmlookup es' p = Some e \<Longrightarrow> UndoCreated p \<notin> set vs \<Longrightarrow>
     (\<forall>u \<in> set vs. undo_point u \<noteq> p) \<and> fmlookup es p = Some e"
proof (induction cs arbitrary: es vs)
  case (Cons c cs)
  then obtain u es1 us where step: "utxo_step c es = Some (u, es1)" "run_all utxo_step cs es1 = Some (us, es')" "vs = u # us"
    by (auto split: option.splits)
  have rest: "(\<forall>u \<in> set us. undo_point u \<noteq> p) \<and> fmlookup es1 p = Some e" using Cons.IH [OF step(2)] Cons.prems step(3) by simp
  with step(1,3) Cons.prems(3) show ?case by (cases c) (auto split: option.splits if_splits)
qed simp

lemma rollback_rev_append:
  "rollback_rev (us @ vs) es = (case rollback_rev us es of (Inl e, es1) \<Rightarrow> (Inl e, es1) | (Inr _, es1) \<Rightarrow> rollback_rev vs es1)"
  by (induction us es rule: rollback_rev.induct) auto

text \<open>Rolling back when one entry is gone that the undo list does not know to be gone.\<close>

lemma rollback_lost:
  assumes run: "run_all utxo_step cs es = Some (vs, es')" and e: "fmlookup es' p = Some e"
  shows "if UndoCreated p \<in> set vs then fst (rollback_partial vs (fmdrop p es')) = Inl (InconsistentUtxo p)
    else rollback_partial vs (fmdrop p es') = (Inr (), fmdrop p es) \<and> fmlookup es p = Some e"
proof (cases "UndoCreated p \<in> set vs")
  case False
  have "undo_all utxo_undo vs es' = Some es" by (rule utxo_log.undo_run [OF run])
  with run_all_untouched [OF run e False] have "undo_all utxo_undo vs (fmdrop p es') = Some (fmdrop p es)" by (blast intro: undo_all_drop)
  then show ?thesis using False run_all_untouched [OF run e False] rollback_undo_all by simp
next
  case True
  then obtain xs ys where vs: "vs = xs @ UndoCreated p # ys" "UndoCreated p \<notin> set ys" by (metis split_list_last)
  obtain ds c bs where cs: "cs = ds @ c # bs" "length ds = length xs"
  proof -
    have "length cs = length vs" using run_all_length [OF run] .
    then have "length xs < length cs" by (simp add: vs)
    from id_take_nth_drop [OF this] show thesis by (intro that [of "take (length xs) cs"]) (use \<open>length xs < length cs\<close> in auto)
  qed
  then obtain es1 us1 es2 ys1 where parts: "run_all utxo_step (ds @ [c]) es = Some (us1, es1)" "run_all utxo_step bs es1 = Some (ys1, es')"
    "vs = us1 @ ys1" using run run_all_append [of utxo_step "ds @ [c]" bs es] by (auto split: option.splits)
  have "length us1 = Suc (length xs)" using run_all_length [OF parts(1)] cs(2) by simp
  then have "ys1 = ys" "us1 = xs @ [UndoCreated p]" using vs(1) parts(3) append_eq_append_conv [of us1 "xs @ [UndoCreated p]" ys1 ys] by simp_all
  then have ys: "\<forall>u \<in> set ys. undo_point u \<noteq> p" using run_all_untouched [OF parts(2) e] vs(2) by simp
  have "undo_all utxo_undo ys es' = Some es1" using utxo_log.undo_run [OF parts(2)] \<open>ys1 = ys\<close> by simp
  from undo_all_drop [OF this ys] have "rollback_rev (rev ys) (fmdrop p es') = (Inr (), fmdrop p es1)"
    using rollback_undo_all by (simp add: rollback_partial_def)
  then show ?thesis using True by (simp add: rollback_partial_def vs(1) rollback_rev_append)
qed

lemma spend_inputs_append:
  "spend_inputs bh t i (xs @ ys) acc w = (case spend_inputs bh t i xs acc w of
     (Inl e, w1) \<Rightarrow> (Inl e, w1) | (Inr acc1, w1) \<Rightarrow> spend_inputs bh t (i + length xs) ys acc1 w1)"
  by (induction xs arbitrary: i acc w) (auto simp: Let_def split: option.split prod.split sum.split)

lemma apply_transactions_append:
  "apply_transactions L bh (xs @ ys) w = (case apply_transactions L bh xs w of
     (Inl e, w1) \<Rightarrow> (Inl e, w1) | (Inr _, w1) \<Rightarrow> apply_transactions L bh ys w1)"
  by (induction xs arbitrary: w) (auto split: prod.split sum.split)

text \<open>C5: Without that bound the rollback loses an entry. The spend loop removes the entry from the map before it adds its value to
  the running sum of its transaction and records the undo operation only after. So for every projection and every block that
  connects to it, when the sum overflows at some input of some transaction, the application fails and does not restore the
  projection: an entry that was there before the block is gone and everything else is as before; and when the entry was created
  by the block itself, the rollback stops with an inconsistency.\<close>

theorem apply_block_overflow_loses_entry:
  assumes "utxo_tip us \<noteq> Some (block_hash L b)" "utxo_tip us \<in> {None, Some (previous_block_hash b)}"
    and "blk_transactions b = pre @ tx # post" "apply_transactions L (block_hash L b) pre (start_work us) = (Inr (), w)"
    and "\<not> is_coinbase L tx" "tx_inputs tx = ins @ inp # rest" "length ins < 2 ^ 32"
    and "spend_inputs (block_hash L b) (txid L tx) 0 ins 0 w = (Inr acc, w1)"
    and "fmlookup (w_entries w1) (previous_output inp) = Some e" "2 ^ 64 \<le> unat acc + unat (sats_value (entry_value e))"
  shows "if UndoCreated (previous_output inp) \<in> set (w_undo w1)
    then fst (apply_block L b us) = Inl (InconsistentUtxo (previous_output inp))
    else apply_block L b us = (Inl (AmountOverflow (block_hash L b) (txid L tx)), us\<lparr>entries := fmdrop (previous_output inp) (entries us)\<rparr>) \<and>
      fmlookup (entries us) (previous_output inp) = Some e"
proof -
  let ?p = "previous_output inp" and ?h = "block_hash L b"
  have "checked_add acc (sats_value (entry_value e)) = None" using assms(10) by (simp add: checked_add_None_iff)
  then have "spend_inputs ?h (txid L tx) 0 (tx_inputs tx) 0 w =
      (Inl (AmountOverflow ?h (txid L tx)), w1\<lparr>w_entries := fmdrop ?p (w_entries w1)\<rparr>)"
    using assms(7-9) by (simp add: assms(6) spend_inputs_append Let_def)
  then have "apply_transaction L ?h tx w = (Inl (AmountOverflow ?h (txid L tx)), w1\<lparr>w_entries := fmdrop ?p (w_entries w1)\<rparr>)"
    using assms(5) by (simp add: apply_transaction_def Let_def)
  then have fails: "apply_transactions L ?h (blk_transactions b) (start_work us) =
      (Inl (AmountOverflow ?h (txid L tx)), w1\<lparr>w_entries := fmdrop ?p (w_entries w1)\<rparr>)"
    by (simp add: assms(3,4) apply_transactions_append)
  obtain cs ds where "work_runs (start_work us) w cs" "work_runs w w1 ds"
    using apply_transactions_runs [OF assms(4)] spend_inputs_runs [OF assms(8)] by auto
  then have "work_runs (start_work us) w1 (cs @ ds)" by (rule work_runs_trans)
  then have run: "run_all utxo_step (cs @ ds) (entries us) = Some (w_undo w1, w_entries w1)"
    by (auto simp: work_runs_def start_work_def)
  obtain r es where rb: "rollback_partial (w_undo w1) (fmdrop ?p (w_entries w1)) = (r, es)" by fastforce
  have "apply_block L b us = (case r of Inl e' \<Rightarrow> Inl e' | Inr _ \<Rightarrow> Inl (AmountOverflow ?h (txid L tx)), us\<lparr>entries := es\<rparr>)"
    using assms(1,2) fails rb by (auto simp: apply_block_def Let_def start_work_def split: option.splits sum.splits)
  then show ?thesis using rollback_lost [OF run assms(9)] rb by (auto split: if_splits)
qed

lemma rich_tip: "block_hash sample_lib rich_spender = 2" "utxo_tip rich_utxo = Some 1" "previous_block_hash rich_spender = 1"
  by (simp_all add: rich_spender_def rich_utxo_def eval_def)

theorem apply_block_overflow_loses_entry_witness:
  "apply_block sample_lib rich_spender rich_utxo =
     (Inl (AmountOverflow 2 21), rich_utxo\<lparr>entries := fmdrop (OutPoint 11 0) (entries rich_utxo)\<rparr>)"
proof -
  let ?tx = "hd (blk_transactions rich_spender)"
  let ?ins = "[hd (tx_inputs ?tx)]" and ?inp = "hd (tl (tx_inputs ?tx))"
  have at: "previous_output ?inp = OutPoint 11 0" "txid sample_lib ?tx = 21" by (simp_all add: rich_spender_def eval_def)
  have spent: "spend_inputs 2 21 0 ?ins 0 (start_work rich_utxo) = (Inr (2 ^ 63),
      \<lparr>w_entries = fmdrop (OutPoint 10 0) (entries rich_utxo), w_undo = [UndoSpent (OutPoint 10 0) \<lparr>entry_value = Sats (2 ^ 63), entry_script_pubkey_id = 0\<rparr> 21 0],
       w_events = [Spent (OutPoint 10 0) 21 0]\<rparr>)" (is "_ = (_, ?w1)")
    by (simp add: rich_spender_def rich_utxo_def start_work_def eval_def)
  show ?thesis
    using apply_block_overflow_loses_entry [of rich_utxo sample_lib rich_spender "[]" ?tx "[]" "start_work rich_utxo" ?ins ?inp "[]" "2 ^ 63" ?w1
      "\<lparr>entry_value = Sats (2 ^ 63), entry_script_pubkey_id = 0\<rparr>"] spent
    by (simp add: rich_tip at) (simp add: rich_spender_def rich_utxo_def eval_def)
qed

text \<open>applying a block creates no value beyond its coinbases. The unspent total after a
  successful application is at most the total before plus the outputs of the coinbase
  transactions; the difference is the fees.\<close>

theorem apply_block_conserves_value:
  assumes "apply_block L b us = (Inr evs, us')"
  shows "utxo_total (entries us') \<le> utxo_total (entries us) + coinbase_value L (blk_transactions b)"
proof (cases "utxo_tip us = Some (block_hash L b)")
  case True
  then show ?thesis using assms by (simp add: apply_block_replay)
next
  case False
  show ?thesis
  proof (rule apply_block_Inr [OF assms False])
    fix w cs
    assume "apply_transactions L (block_hash L b) (blk_transactions b) (start_work us) = (Inr (), w)"
      and us': "us' = \<lparr>entries = w_entries w, applied_blocks = applied_blocks us @
         [\<lparr>applied_hash = block_hash L b, applied_undo = w_undo w\<rparr>]\<rparr>"
    from apply_transactions_runs [OF this(1)] us' show ?thesis by (simp add: start_work_def)
  qed
qed

theorem apply_block_conserves_value_witness:
  "\<exists>us'. utxo_total (entries us') \<le> utxo_total (entries sample_utxo_genesis) +
     coinbase_value sample_lib (blk_transactions sample_child) \<and>
     us' = snd (apply_block sample_lib sample_child sample_utxo_genesis)"
proof -
  obtain us' evs where us': "apply_block sample_lib sample_child sample_utxo_genesis = (Inr evs, us')"
    using sample_apply_child by blast
  from apply_block_conserves_value [OF this] us' show ?thesis by auto
qed

text \<open>the bytes that are hashed into the state digest depend only on the entries, not on the
  order in which the hash map yields them, and different sets of entries give different bytes.\<close>

theorem state_digest_input_identifies_entries:
  assumes "enumerates xs m" "enumerates ys n"
  shows "utxo_preimage xs = utxo_preimage ys \<longleftrightarrow> m = n"
  using assms utxo_preimage_inj utxo_preimage_enumerates by blast

theorem state_digest_input_identifies_entries_witness:
  "utxo_preimage [(OutPoint 7 0, \<lparr>entry_value = Sats 1, entry_script_pubkey_id = 0\<rparr>),
      (OutPoint 3 0, \<lparr>entry_value = Sats 2, entry_script_pubkey_id = 0\<rparr>)] =
   utxo_preimage [(OutPoint 3 0, \<lparr>entry_value = Sats 2, entry_script_pubkey_id = 0\<rparr>),
      (OutPoint 7 0, \<lparr>entry_value = Sats 1, entry_script_pubkey_id = 0\<rparr>)]"
proof -
  let ?xs = "[(OutPoint 7 0, \<lparr>entry_value = Sats 1, entry_script_pubkey_id = 0\<rparr>),
      (OutPoint 3 0, \<lparr>entry_value = Sats 2, entry_script_pubkey_id = 0\<rparr>)]"
  let ?ys = "[(OutPoint 3 0, \<lparr>entry_value = Sats 2, entry_script_pubkey_id = 0\<rparr>),
      (OutPoint 7 0, \<lparr>entry_value = Sats 1, entry_script_pubkey_id = 0\<rparr>)]"
  have "enumerates ?xs (fmap_of_list ?xs)" "enumerates ?ys (fmap_of_list ?xs)"
    by (auto simp: enumerates_def fun_eq_iff)
  then show ?thesis using state_digest_input_identifies_entries by blast
qed

section \<open>The domain types\<close>

text \<open>The 36-byte form of an outpoint and its parser are inverse to each other: the parser
  accepts exactly the encodings, and returns what was encoded.\<close>

theorem outpoint_bytes_roundtrip:
  "from_consensus_bytes bs = Inr p \<longleftrightarrow> bs = consensus_bytes p"
  using decode_consensus_bytes encode_from_consensus_bytes by blast

text \<open>The byte-wise addition of block work with its 16-bit carry is addition of 256-bit
  numbers that fails exactly when the sum does not fit.\<close>

theorem block_work_addition_is_exact:
  "work_checked_add a b =
     (if unat a + unat b < 2 ^ 256 then Some (of_nat (unat a + unat b)) else None)"
  by (simp add: work_checked_add_eq checked_add_def)

text \<open>A block that parses is the block whose canonical serialisation the input was, within
  the size bound, with a valid merkle root and every transaction carried over in order.\<close>

theorem parse_block_is_canonical:
  assumes "parse_block L bs = Inr b"
  shows "blk_consensus_bytes b = bs \<and> serialize_block L (blk_inner b) = bs \<and>
    check_merkle_root L (blk_inner b) \<and> length bs \<le> MAX_CONSENSUS_OBJECT_BYTES \<and>
    map tx_inner (blk_transactions b) = lib_txdata (blk_inner b)"
  using parse_block_faithful [OF assms] by (simp add: from_transaction_def comp_def)

theorem parse_block_is_canonical_witness:
  "\<exists>b. parse_block sample_lib [] = Inr b \<and> blk_consensus_bytes b = []"
proof -
  obtain b where b: "parse_block sample_lib [] = Inr b"
    by (simp add: parse_block_def enforce_bound_def sample_lib_def)
  from parse_block_is_canonical [OF b] b show ?thesis by auto
qed

end
