(* ===== verification/Text_Encoding.thy ===== *)
theory Text_Encoding
  imports Prelude
begin

text \<open>
  Text forms the components share: lower-case hexadecimal of byte strings and its reader, hexadecimal
  integers, splitting at a separator, the boundaries of characters in UTF-8 text and its validity.
\<close>

section \<open>Bytes\<close>

lemma be_bytes_word_inj:
  fixes a b :: "'a::len word"
  assumes "LENGTH('a) = 8 * k"
  shows "be_bytes k (unat a) = be_bytes k (unat b) \<longleftrightarrow> a = b"
proof -
  have "unat w < 256 ^ k" for w :: "'a word"
    using unsigned_less [of w] by (simp add: assms power_mult)
  then show ?thesis by (metis be_val_be_bytes word_unat_eq_iff)
qed

lemma ascii_bytes_inj: "ascii_bytes s = ascii_bytes t \<longleftrightarrow> s = t"
proof -
  have "inj (\<lambda>c. of_nat (byte_of c) :: u8)"
  proof (rule injI)
    fix c d
    assume "of_nat (byte_of c) = (of_nat (byte_of d) :: u8)"
    then have "unat (of_nat (byte_of c) :: u8) = unat (of_nat (byte_of d) :: u8)" by simp
    then have "byte_of c = byte_of d" by (simp add: byte_of_def unat_of_nat of_char_mod_256)
    then show "c = d" by (simp add: byte_of_def)
  qed
  then show ?thesis by (simp add: ascii_bytes_def inj_map_eq_map)
qed

section \<open>Hexadecimal bytes\<close>

definition encode_hex :: "bytes \<Rightarrow> string" where
  "encode_hex bs = concat (map (\<lambda>b. [hex_digit (unat b div 16), hex_digit (unat b mod 16)]) bs)"

definition is_lower_hex_digit :: "char \<Rightarrow> bool" where
  "is_lower_hex_digit c \<longleftrightarrow> is_ascii_digit c \<or> 97 \<le> byte_of c \<and> byte_of c \<le> 102"

definition is_ascii_hexdigit :: "char \<Rightarrow> bool" where
  "is_ascii_hexdigit c \<longleftrightarrow> is_lower_hex_digit c \<or> 65 \<le> byte_of c \<and> byte_of c \<le> 70"

definition hex_digit_value :: "char \<Rightarrow> nat" where
  "hex_digit_value c =
     (let b = byte_of c in if b < 58 then b - 48 else if b < 71 then b - 55 else b - 87)"

fun hex_pairs :: "string \<Rightarrow> bytes" where
  "hex_pairs (a # b # s) = of_nat (16 * hex_digit_value a + hex_digit_value b) # hex_pairs s"
| "hex_pairs _ = []"

lemma hex_digit_lower: "n < 16 \<Longrightarrow> is_lower_hex_digit (hex_digit n)"
  by (simp add: is_lower_hex_digit_def hex_digit_def is_ascii_digit_def byte_of_def)

lemma hex_digit_value_digit: "n < 16 \<Longrightarrow> hex_digit_value (hex_digit n) = n"
  by (simp add: hex_digit_value_def hex_digit_def byte_of_def Let_def)

lemma hex_digit_inj: "m < 16 \<Longrightarrow> n < 16 \<Longrightarrow> hex_digit m = hex_digit n \<longleftrightarrow> m = n"
  by (metis hex_digit_value_digit)

lemma nibbles: "unat (b :: u8) div 16 < 16" "unat b mod 16 < 16"
  using unat_byte_less [of b] by auto

lemma encode_hex_simps [simp]:
  "encode_hex [] = []"
  "encode_hex (b # bs) = hex_digit (unat b div 16) # hex_digit (unat b mod 16) # encode_hex bs"
  by (simp_all add: encode_hex_def)

lemma length_encode_hex [simp]: "length (encode_hex bs) = 2 * length bs"
  by (induction bs) simp_all

lemma encode_hex_lower: "list_all is_lower_hex_digit (encode_hex bs)"
  by (induction bs) (simp_all add: hex_digit_lower nibbles)

lemma hex_pairs_encode_hex: "hex_pairs (encode_hex bs) = bs"
  by (induction bs) (simp_all add: hex_digit_value_digit nibbles)

lemma encode_hex_inj: "encode_hex xs = encode_hex ys \<longleftrightarrow> xs = ys"
  by (metis hex_pairs_encode_hex)

section \<open>Hexadecimal integers\<close>

fun hex_string :: "nat \<Rightarrow> string" where
  "hex_string n = (if n < 16 then [hex_digit n] else hex_string (n div 16) @ [hex_digit (n mod 16)])"

declare hex_string.simps [simp del]

definition hex_value :: "string \<Rightarrow> nat" where
  "hex_value s = foldl (\<lambda>a c. a * 16 + hex_digit_value c) 0 s"

definition to_lower :: "char \<Rightarrow> char" where
  "to_lower c = (if 65 \<le> byte_of c \<and> byte_of c \<le> 90 then char_of (byte_of c + 32) else c)"

lemma hex_value_snoc: "hex_value (s @ [c]) = hex_value s * 16 + hex_digit_value c"
  by (simp add: hex_value_def)

lemma hex_string_lower: "hex_string n \<noteq> [] \<and> list_all is_lower_hex_digit (hex_string n)"
proof (induction n rule: hex_string.induct)
  case (1 n)
  then show ?case by (subst (1 2) hex_string.simps) (auto simp: hex_digit_lower)
qed

lemma hex_value_hex_string: "hex_value (hex_string n) = n"
proof (induction n rule: hex_string.induct)
  case (1 n)
  then show ?case
    by (subst hex_string.simps) (auto simp: hex_value_snoc hex_digit_value_digit hex_value_def [of "[_]"])
qed

text \<open>A hexadecimal string without leading zero, whatever the case of its letters, is the string of its value.\<close>

lemma to_lower_hex_digit:
  assumes "is_ascii_hexdigit c"
  shows "to_lower c = hex_digit (hex_digit_value c)" "hex_digit_value c < 16"
proof -
  have c: "c = char_of (byte_of c)" by (simp add: byte_of_def)
  show "to_lower c = hex_digit (hex_digit_value c)" "hex_digit_value c < 16"
    using assms c
    by (auto simp: is_ascii_hexdigit_def is_lower_hex_digit_def is_ascii_digit_def to_lower_def hex_digit_def hex_digit_value_def Let_def)
qed

lemma hex_string_hex_value:
  assumes "s \<noteq> []" "list_all is_ascii_hexdigit s" "length s > 1 \<longrightarrow> hd s \<noteq> CHR ''0''"
  shows "hex_string (hex_value s) = map to_lower s"
  using assms
proof (induction s rule: rev_induct)
  case (snoc c s)
  have c: "to_lower c = hex_digit (hex_digit_value c)" "hex_digit_value c < 16"
    using snoc.prems to_lower_hex_digit by simp_all
  show ?case
  proof (cases "s = []")
    case True
    then show ?thesis using c by (subst hex_string.simps) (simp add: hex_value_def)
  next
    case False
    then have hd: "hd s \<noteq> CHR ''0''" and s: "list_all is_ascii_hexdigit s" using snoc.prems by simp_all
    then have IH: "hex_string (hex_value s) = map to_lower s" using snoc.IH False by simp
    have "hex_value s \<noteq> 0"
    proof
      assume "hex_value s = 0"
      then have "map to_lower s = [hex_digit 0]" using IH by (subst (asm) hex_string.simps) simp
      then obtain d where "s = [d]" "to_lower d = hex_digit 0" by (cases s) auto
      then have "hex_digit (hex_digit_value d) = hex_digit 0" "hex_digit_value d < 16" "is_ascii_hexdigit d"
        using s to_lower_hex_digit by auto
      then have "hex_digit_value d = 0" "is_ascii_hexdigit d" by (simp_all add: hex_digit_inj)
      then have "byte_of d = 48"
        by (auto simp: is_ascii_hexdigit_def is_lower_hex_digit_def is_ascii_digit_def hex_digit_value_def Let_def split: if_splits)
      then have "of_char d = (of_char (CHR ''0'') :: nat)" by (simp add: byte_of_def)
      then have "d = CHR ''0''" by (simp only: of_char_eq_iff)
      then show False using hd \<open>s = [d]\<close> by simp
    qed
    then have "\<not> hex_value s * 16 + hex_digit_value c < 16" by simp
    then show ?thesis using c IH by (subst hex_string.simps) (simp add: hex_value_snoc)
  qed
qed simp

lemma hex_string_hd: "0 < n \<Longrightarrow> hd (hex_string n) \<noteq> CHR ''0''"
proof (induction n rule: hex_string.induct)
  case (1 n)
  show ?case
  proof (cases "n < 16")
    case True
    have "hex_digit n \<noteq> hex_digit 0" using True 1(2) by (simp add: hex_digit_inj)
    moreover have "hex_digit 0 = CHR ''0''" by code_simp
    ultimately show ?thesis using True by (subst hex_string.simps) simp
  next
    case False
    then have "hd (hex_string (n div 16)) \<noteq> CHR ''0''" using 1(1) by simp
    then show ?thesis using False hex_string_lower [of "n div 16"] by (subst hex_string.simps) simp
  qed
qed

lemma length_hex_string_zero [simp]: "length (hex_string 0) = 1"
  by (subst hex_string.simps) simp

lemma to_lower_hexdigit:
  assumes "is_lower_hex_digit (to_lower c)"
  shows "is_ascii_hexdigit c" "hex_digit_value c = hex_digit_value (to_lower c)"
  using assms
  by (auto simp: is_ascii_hexdigit_def is_lower_hex_digit_def is_ascii_digit_def to_lower_def hex_digit_value_def byte_of_def Let_def
      split: if_splits)

lemma hex_value_to_lower: "list_all is_lower_hex_digit (map to_lower s) \<Longrightarrow> hex_value (map to_lower s) = hex_value s"
  by (induction s rule: rev_induct) (auto simp: hex_value_snoc to_lower_hexdigit(2) hex_value_def [of "[]"])

section \<open>Separators\<close>

text \<open>\<open>str::split\<close> at a character, and \<open>split_once\<close>.\<close>

fun split_on :: "'a \<Rightarrow> 'a list \<Rightarrow> 'a list list" where
  "split_on z [] = [[]]"
| "split_on z (c # s) = (if c = z then [] # split_on z s else (case split_on z s of f # fs \<Rightarrow> (c # f) # fs | [] \<Rightarrow> [[c]]))"

definition split_once :: "'a \<Rightarrow> 'a list \<Rightarrow> ('a list \<times> 'a list) option" where
  "split_once z s = (if z \<in> set s then Some (takeWhile (\<lambda>c. c \<noteq> z) s, tl (dropWhile (\<lambda>c. c \<noteq> z) s)) else None)"

lemma split_on_notin [simp]: "z \<notin> set s \<Longrightarrow> split_on z s = [s]"
  by (induction s) auto

lemma split_on_append [simp]: "z \<notin> set s \<Longrightarrow> split_on z (s @ z # t) = s # split_on z t"
  by (induction s) auto

lemma split_once_append [simp]: "z \<notin> set s \<Longrightarrow> split_once z (s @ z # t) = Some (s, t)"
  by (simp add: split_once_def takeWhile_append dropWhile_append)

lemma split_once_SomeD:
  assumes "split_once z s = Some (p, q)"
  shows "s = p @ z # q"
proof -
  have "z \<in> set s" using assms by (simp add: split_once_def split: if_splits)
  then obtain ys zs where "s = ys @ z # zs" "z \<notin> set ys" using split_list_first by fast
  with assms show ?thesis by simp
qed

section \<open>UTF-8\<close>

definition is_continuation :: "u8 \<Rightarrow> bool" where
  "is_continuation b \<longleftrightarrow> 128 \<le> b \<and> b < 192"

text \<open>The number of bytes of the character in front; 0 when there is none.\<close>

definition utf8_len :: "bytes \<Rightarrow> nat" where
  "utf8_len bs = (case bs of
     [] \<Rightarrow> 0
   | b # r \<Rightarrow>
       if b < 128 then 1
       else if 194 \<le> b \<and> b < 224 \<and> r \<noteq> [] \<and> is_continuation (r ! 0) then 2
       else if 224 \<le> b \<and> b < 240 \<and> 2 \<le> length r \<and> is_continuation (r ! 0) \<and> is_continuation (r ! 1) \<and>
          (b = 224 \<longrightarrow> 160 \<le> r ! 0) \<and> (b = 237 \<longrightarrow> r ! 0 < 160) then 3
       else if 240 \<le> b \<and> b < 245 \<and> 3 \<le> length r \<and> is_continuation (r ! 0) \<and> is_continuation (r ! 1) \<and> is_continuation (r ! 2) \<and>
          (b = 240 \<longrightarrow> 144 \<le> r ! 0) \<and> (b = 244 \<longrightarrow> r ! 0 < 144) then 4
       else 0)"

function valid_utf8 :: "bytes \<Rightarrow> bool" where
  "valid_utf8 bs = (if bs = [] then True else if utf8_len bs = 0 then False else valid_utf8 (drop (utf8_len bs) bs))"
  by pat_completeness auto
termination
  by (relation "measure length") simp_all

declare valid_utf8.simps [simp del]

text \<open>The text of UTF-8 bytes, which is the same bytes.\<close>

definition text_of_bytes :: "bytes \<Rightarrow> string" where
  "text_of_bytes bs = map (\<lambda>b. char_of (unat b)) bs"

lemma text_of_ascii_bytes [simp]: "text_of_bytes (ascii_bytes s) = s"
  by (induction s) (simp_all add: text_of_bytes_def ascii_bytes_def byte_of_def unat_of_nat of_char_mod_256)

lemma ascii_bytes_append [simp]: "ascii_bytes (s @ t) = ascii_bytes s @ ascii_bytes t"
  by (simp add: ascii_bytes_def)

lemma utf8_lead:
  fixes b :: u8
  shows "224 \<le> b \<Longrightarrow> \<not> b < 128 \<and> \<not> b < 224" "240 \<le> b \<Longrightarrow> \<not> b < 128 \<and> \<not> b < 224 \<and> \<not> b < 240"
  by (simp_all add: word_le_nat_alt word_less_nat_alt)

lemma utf8_len_append: "utf8_len bs \<noteq> 0 \<Longrightarrow> utf8_len (bs @ cs) = utf8_len bs \<and> utf8_len bs \<le> length bs"
proof (cases bs)
  case (Cons b r)
  assume "utf8_len bs \<noteq> 0"
  then consider (one) "b < 128"
    | (two) "\<not> b < 128" "194 \<le> b" "b < 224" "r \<noteq> []" "is_continuation (r ! 0)"
    | (three) "\<not> b < 128" "\<not> b < 224" "224 \<le> b" "b < 240" "2 \<le> length r" "is_continuation (r ! 0)" "is_continuation (r ! 1)"
        "b = 224 \<longrightarrow> 160 \<le> r ! 0" "b = 237 \<longrightarrow> r ! 0 < 160"
    | (four) "\<not> b < 128" "\<not> b < 224" "\<not> b < 240" "240 \<le> b" "b < 245" "3 \<le> length r" "is_continuation (r ! 0)" "is_continuation (r ! 1)"
        "is_continuation (r ! 2)" "b = 240 \<longrightarrow> 144 \<le> r ! 0" "b = 244 \<longrightarrow> r ! 0 < 144"
    unfolding Cons utf8_len_def list.case using utf8_lead [of b] by (simp split: if_split_asm)
  moreover have kept: "i < length r \<Longrightarrow> (r @ cs) ! i = r ! i" for i by (simp add: nth_append)
  ultimately show ?thesis
  proof cases
    case one
    then show ?thesis by (simp add: Cons utf8_len_def)
  next
    case two
    then have "(r @ cs) ! 0 = r ! 0" by (cases r) simp_all
    with two show ?thesis by (simp only: Cons utf8_len_def append_Cons list.case) (simp add: Suc_le_eq)
  next
    case three
    have "r \<noteq> []" using three(5) by auto
    with three have "(r @ cs) ! 0 = r ! 0" "(r @ cs) ! 1 = r ! 1" "2 \<le> length (r @ cs)" using kept [of 0] kept [of 1] by simp_all
    with three show ?thesis by (simp only: Cons utf8_len_def append_Cons list.case if_True if_False simp_thms) simp
  next
    case four
    have "r \<noteq> []" using four(6) by auto
    with four have "(r @ cs) ! 0 = r ! 0" "(r @ cs) ! 1 = r ! 1" "(r @ cs) ! 2 = r ! 2" "3 \<le> length (r @ cs)"
      using kept [of 0] kept [of 1] kept [of 2] by simp_all
    with four show ?thesis by (simp only: Cons utf8_len_def append_Cons list.case if_True if_False simp_thms) simp
  qed
qed (simp add: utf8_len_def)

lemma valid_utf8_append: "valid_utf8 bs \<Longrightarrow> valid_utf8 cs \<Longrightarrow> valid_utf8 (bs @ cs)"
proof (induction bs rule: valid_utf8.induct)
  case (1 bs)
  show ?case
  proof (cases "bs = []")
    case False
    then have n: "utf8_len bs \<noteq> 0" and d: "valid_utf8 (drop (utf8_len bs) bs)"
      using 1(2) by (subst (asm) valid_utf8.simps; simp split: if_splits)+
    have "drop (utf8_len bs) (bs @ cs) = drop (utf8_len bs) bs @ cs" using utf8_len_append [OF n, of cs] by simp
    then show ?thesis using 1(1) [OF False n d 1(3)] n utf8_len_append [OF n, of cs] False
      by (subst valid_utf8.simps) simp
  qed (simp add: 1(3))
qed

lemma valid_utf8_ascii: "str_is_ascii s \<Longrightarrow> valid_utf8 (ascii_bytes s)"
proof (induction s)
  case (Cons c s)
  then have "of_nat (byte_of c) < (128 :: u8)"
    by (simp add: str_is_ascii_def word_less_nat_alt unat_of_nat byte_of_def of_char_mod_256)
  then have "utf8_len (ascii_bytes (c # s)) = 1" by (simp add: utf8_len_def ascii_bytes_def)
  then show ?case using Cons by (subst valid_utf8.simps) (simp add: ascii_bytes_def str_is_ascii_def)
qed (subst valid_utf8.simps, simp add: ascii_bytes_def)

definition is_char_boundary :: "string \<Rightarrow> nat \<Rightarrow> bool" where
  "is_char_boundary s i \<longleftrightarrow> i = 0 \<or> i = length s \<or> i < length s \<and> \<not> (128 \<le> byte_of (s ! i) \<and> byte_of (s ! i) < 192)"

fun char_boundary :: "string \<Rightarrow> nat \<Rightarrow> nat" where
  "char_boundary s 0 = 0"
| "char_boundary s (Suc i) = (if is_char_boundary s (Suc i) then Suc i else char_boundary s i)"

text \<open>The longest prefix of at most \<open>limit\<close> bytes that ends between characters.\<close>

definition truncate_at :: "nat \<Rightarrow> string \<Rightarrow> string" where
  "truncate_at limit s = (if limit < length s then take (char_boundary s limit) s else s)"

lemma char_boundary_le: "char_boundary s i \<le> i"
  by (induction s i rule: char_boundary.induct) auto

lemma length_truncate_at: "length (truncate_at limit s) \<le> limit"
  using char_boundary_le [of s limit] by (simp add: truncate_at_def)

text \<open>\<open>chars().take(n).collect()\<close>: a character starts at every byte that is not a continuation.\<close>

fun take_chars :: "nat \<Rightarrow> string \<Rightarrow> string" where
  "take_chars n [] = []"
| "take_chars n (c # s) =
     (if 128 \<le> byte_of c \<and> byte_of c < 192 then c # take_chars n s
      else case n of 0 \<Rightarrow> [] | Suc m \<Rightarrow> c # take_chars m s)"

end
