(* ===== verification/Evm_Domain.thy ===== *)
theory Evm_Domain
  imports Text_Encoding
begin

text \<open>
  The EVM domain types of \<open>crates/evm-domain/src/lib.rs\<close>: networks, the finality vocabularies of the two
  chains, 256-bit amounts, transactions, logs, receipts and blocks with their checks, and recorded blocks.

  The text forms of hashes, addresses and 256-bit integers belong to the \<open>alloy\<close> crate, the reader of
  recorded JSON to \<open>serde_json\<close>; both are fields of \<open>evm_lib\<close>. Record fields are the accessor methods.
\<close>

section \<open>Networks and statuses\<close>

type_synonym address = "160 word"

record raw_block =
  rb_number :: string
  rb_hash :: string
  rb_parent_hash :: string
  rb_transactions :: "string list"

record evm_lib =
  lib_b256_text :: "digest \<Rightarrow> string"
  lib_b256_parse :: "string \<Rightarrow> digest option"
  lib_address_text :: "address \<Rightarrow> string"
  lib_u256_text :: "256 word \<Rightarrow> string"
  lib_u256_parse :: "string \<Rightarrow> 256 word option"
  lib_raw_block :: "bytes \<Rightarrow> string + raw_block"
  lib_sha256 :: "bytes \<Rightarrow> digest"

datatype evm_error =
    UnsupportedChainId u64
  | InvalidAmount
  | TooManyLogTopics nat
  | LogTransactionMismatch
  | DuplicateLogKey digest u64
  | ReceiptCardinality nat nat
  | ReceiptTransactionMismatch
  | EvmInvalidJson string
  | InvalidBlockHash string
  | InvalidTransactionHash string
  | InvalidQuantity string

datatype evm_network = EthereumMainnet | BscMainnet

fun chain_id :: "evm_network \<Rightarrow> u64" where
  "chain_id EthereumMainnet = 1"
| "chain_id BscMainnet = 56"

fun evm_network_str :: "evm_network \<Rightarrow> string" where
  "evm_network_str EthereumMainnet = ''ethereum-mainnet''"
| "evm_network_str BscMainnet = ''bsc-mainnet''"

definition evm_network_try_from :: "u64 \<Rightarrow> evm_error + evm_network" where
  "evm_network_try_from n =
     (if n = 1 then Inr EthereumMainnet else if n = 56 then Inr BscMainnet else Inl (UnsupportedChainId n))"

datatype ethereum_status = EthPending | EthIncludedCandidate | EthCanonicalHead | EthSafe | EthFinalized | EthReorged

fun ethereum_status_str :: "ethereum_status \<Rightarrow> string" where
  "ethereum_status_str EthPending = ''pending''"
| "ethereum_status_str EthIncludedCandidate = ''included_candidate''"
| "ethereum_status_str EthCanonicalHead = ''canonical_head''"
| "ethereum_status_str EthSafe = ''safe''"
| "ethereum_status_str EthFinalized = ''finalized''"
| "ethereum_status_str EthReorged = ''reorged''"

datatype bsc_status = BscPending | BscIncludedCandidate | BscCanonicalHead | BscFastFinalized | BscReorged

fun bsc_status_str :: "bsc_status \<Rightarrow> string" where
  "bsc_status_str BscPending = ''pending''"
| "bsc_status_str BscIncludedCandidate = ''included_candidate''"
| "bsc_status_str BscCanonicalHead = ''canonical_head''"
| "bsc_status_str BscFastFinalized = ''fast_finalized''"
| "bsc_status_str BscReorged = ''reorged''"

section \<open>Amounts and quantities\<close>

datatype evm_amount = EvmAmount (amount_value: "256 word")

definition amount_from_decimal_str :: "evm_lib \<Rightarrow> string \<Rightarrow> evm_error + evm_amount" where
  "amount_from_decimal_str X s =
     (if s = [] \<or> \<not> list_all is_ascii_digit s then Inl InvalidAmount
      else map_sum id EvmAmount (ok_or (lib_u256_parse X s) InvalidAmount))"

definition amount_from_u64 :: "u64 \<Rightarrow> evm_amount" where
  "amount_from_u64 v = EvmAmount (ucast v)"

definition amount_text :: "evm_lib \<Rightarrow> evm_amount \<Rightarrow> string" where
  "amount_text X a = lib_u256_text X (amount_value a)"

text \<open>A JSON-RPC quantity; the same function with another error stands in each EVM connector.\<close>

definition parse_quantity :: "(string \<Rightarrow> 'e) \<Rightarrow> string \<Rightarrow> 'e + u64" where
  "parse_quantity err value =
     (if take 2 value \<noteq> ''0x'' then Inl (err value)
      else let digits = drop 2 value
        in if digits = [] \<or> 1 < length digits \<and> hd digits = CHR ''0'' \<or> \<not> list_all is_ascii_hexdigit digits then Inl (err value)
           else if 2 ^ 64 \<le> hex_value digits then Inl (err value)
           else Inr (of_nat (hex_value digits)))"

definition parse_quantity_u64 :: "string \<Rightarrow> evm_error + u64" where
  "parse_quantity_u64 = parse_quantity InvalidQuantity"

section \<open>Transactions, logs and receipts\<close>

record evm_transaction =
  etx_hash :: digest
  etx_from :: address
  etx_to :: "address option"
  etx_value :: evm_amount
  etx_nonce :: u64
  etx_gas_limit :: u64
  etx_max_fee_per_gas :: "evm_amount option"
  etx_blob_versioned_hashes :: "digest list"

record evm_log =
  log_address :: address
  log_topics :: "digest list"
  log_data :: bytes
  log_transaction_hash :: digest
  log_index :: u64

definition evm_log_new :: "address \<Rightarrow> digest list \<Rightarrow> bytes \<Rightarrow> digest \<Rightarrow> u64 \<Rightarrow> evm_error + evm_log" where
  "evm_log_new addr topics bs tx i =
     (if 4 < length topics then Inl (TooManyLogTopics (length topics))
      else Inr \<lparr>log_address = addr, log_topics = topics, log_data = bs, log_transaction_hash = tx, log_index = i\<rparr>)"

record evm_receipt =
  rcp_transaction_hash :: digest
  rcp_success :: bool
  rcp_cumulative_gas_used :: u64
  rcp_logs :: "evm_log list"

fun check_logs :: "digest \<Rightarrow> (digest \<times> u64) set \<Rightarrow> evm_log list \<Rightarrow> evm_error + unit" where
  "check_logs tx keys [] = Inr ()"
| "check_logs tx keys (l # ls) =
     (if log_transaction_hash l \<noteq> tx then Inl LogTransactionMismatch
      else if (log_transaction_hash l, log_index l) \<in> keys then Inl (DuplicateLogKey tx (log_index l))
      else check_logs tx (insert (log_transaction_hash l, log_index l) keys) ls)"

definition evm_receipt_new :: "digest \<Rightarrow> bool \<Rightarrow> u64 \<Rightarrow> evm_log list \<Rightarrow> evm_error + evm_receipt" where
  "evm_receipt_new tx success gas ls = and_then (check_logs tx {} ls) (\<lambda>_.
     Inr \<lparr>rcp_transaction_hash = tx, rcp_success = success, rcp_cumulative_gas_used = gas, rcp_logs = ls\<rparr>)"

section \<open>Blocks\<close>

record evm_block =
  eb_network :: evm_network
  eb_number :: u64
  eb_hash :: digest
  eb_parent_hash :: digest
  eb_transactions :: "evm_transaction list"
  eb_receipts :: "evm_receipt list"

definition evm_block_new ::
  "evm_network \<Rightarrow> u64 \<Rightarrow> digest \<Rightarrow> digest \<Rightarrow> evm_transaction list \<Rightarrow> evm_receipt list \<Rightarrow> evm_error + evm_block" where
  "evm_block_new network number h parent txs rs =
     (if length txs \<noteq> length rs then Inl (ReceiptCardinality (length txs) (length rs))
      else if list_ex (\<lambda>(t, r). etx_hash t \<noteq> rcp_transaction_hash r) (zip txs rs) then Inl ReceiptTransactionMismatch
      else Inr \<lparr>eb_network = network, eb_number = number, eb_hash = h, eb_parent_hash = parent, eb_transactions = txs, eb_receipts = rs\<rparr>)"

record recorded_block =
  rec_network :: evm_network
  rec_number :: u64
  rec_block_hash :: digest
  rec_parent_hash :: digest
  rec_transaction_hashes :: "digest list"
  rec_raw_json :: bytes
  rec_raw_json_sha256 :: digest

fun parse_hashes :: "evm_lib \<Rightarrow> string list \<Rightarrow> evm_error + digest list" where
  "parse_hashes X [] = Inr []"
| "parse_hashes X (h # hs) =
     and_then (ok_or (lib_b256_parse X h) (InvalidTransactionHash h)) (\<lambda>d.
     and_then (parse_hashes X hs) (\<lambda>ds. Inr (d # ds)))"

definition recorded_block_from_json :: "evm_lib \<Rightarrow> evm_network \<Rightarrow> bytes \<Rightarrow> evm_error + recorded_block" where
  "recorded_block_from_json X network raw_json =
     and_then (map_sum EvmInvalidJson id (lib_raw_block X raw_json)) (\<lambda>raw.
     and_then (parse_quantity_u64 (rb_number raw)) (\<lambda>number.
     and_then (ok_or (lib_b256_parse X (rb_hash raw)) (InvalidBlockHash (rb_hash raw))) (\<lambda>h.
     and_then (ok_or (lib_b256_parse X (rb_parent_hash raw)) (InvalidBlockHash (rb_parent_hash raw))) (\<lambda>parent.
     and_then (parse_hashes X (rb_transactions raw)) (\<lambda>txs.
     Inr \<lparr>rec_network = network, rec_number = number, rec_block_hash = h, rec_parent_hash = parent,
       rec_transaction_hashes = txs, rec_raw_json = raw_json, rec_raw_json_sha256 = lib_sha256 X raw_json\<rparr>)))))"

section \<open>What the constructors guarantee\<close>

lemma check_logs_Inr:
  "check_logs tx keys ls = Inr () \<longleftrightarrow>
     (\<forall>l \<in> set ls. log_transaction_hash l = tx \<and> (tx, log_index l) \<notin> keys) \<and> distinct (map log_index ls)"
proof (induction ls arbitrary: keys)
  case (Cons l ls)
  have image: "log_index l \<notin> log_index ` set ls \<longleftrightarrow> (\<forall>m \<in> set ls. log_index m \<noteq> log_index l)"
    unfolding image_iff by (simp add: eq_commute)
  show ?case
  proof (cases "log_transaction_hash l = tx \<and> (tx, log_index l) \<notin> keys")
    case True
    then have "check_logs tx keys (l # ls) = Inr () \<longleftrightarrow> check_logs tx (insert (tx, log_index l) keys) ls = Inr ()" by simp
    also have "\<dots> \<longleftrightarrow> (\<forall>m \<in> set ls. log_transaction_hash m = tx \<and> log_index m \<noteq> log_index l \<and> (tx, log_index m) \<notin> keys) \<and>
        distinct (map log_index ls)" unfolding Cons.IH by simp
    finally show ?thesis using True by (simp add: image) blast
  qed auto
qed simp

definition joined_receipt :: "evm_transaction \<Rightarrow> evm_receipt \<Rightarrow> bool" where
  "joined_receipt t r \<longleftrightarrow> rcp_transaction_hash r = etx_hash t \<and>
     (\<forall>l \<in> set (rcp_logs r). log_transaction_hash l = etx_hash t) \<and> distinct (map log_index (rcp_logs r))"

lemma evm_receipt_new_joined:
  assumes "evm_receipt_new tx success gas ls = Inr r" "etx_hash t = tx"
  shows "joined_receipt t r"
  using assms by (auto simp: evm_receipt_new_def rust_result check_logs_Inr joined_receipt_def)

lemma evm_receipt_new_distinct:
  assumes "evm_receipt_new tx success gas ls = Inr r"
  shows "distinct (map log_index (rcp_logs r))"
  using assms by (auto simp: evm_receipt_new_def rust_result check_logs_Inr)

lemma evm_block_new_joined:
  assumes "evm_block_new network number h parent txs rs = Inr b"
  shows "eb_network b = network" "eb_transactions b = txs" "eb_receipts b = rs"
    "list_all2 (\<lambda>t r. etx_hash t = rcp_transaction_hash r) txs rs"
  using assms by (auto simp: evm_block_new_def list_all2_iff list_ex_iff split: if_splits)

text \<open>The quantities that are read are exactly the canonical ones, in either case of the letters.\<close>

definition quantity_text :: "u64 \<Rightarrow> string" where
  "quantity_text n = ''0x'' @ hex_string (unat n)"


lemma parse_quantity_canonical:
  "parse_quantity err s = Inr n \<longleftrightarrow> take 2 s = ''0x'' \<and> map to_lower s = quantity_text n"
proof
  assume ok: "parse_quantity err s = Inr n"
  let ?d = "drop 2 s"
  have d: "take 2 s = ''0x''" "?d \<noteq> []" "1 < length ?d \<longrightarrow> hd ?d \<noteq> CHR ''0''" "list_all is_ascii_hexdigit ?d"
    "hex_value ?d < 2 ^ 64" "n = of_nat (hex_value ?d)"
    using ok by (auto simp: parse_quantity_def Let_def split: if_splits)
  then have "map to_lower ?d = hex_string (unat n)" by (simp add: hex_string_hex_value unat_of_nat)
  moreover have "map to_lower s = map to_lower (take 2 s) @ map to_lower ?d" by (metis append_take_drop_id map_append)
  ultimately show "take 2 s = ''0x'' \<and> map to_lower s = quantity_text n"
    using d(1) by (simp add: quantity_text_def to_lower_def byte_of_def)
next
  assume s: "take 2 s = ''0x'' \<and> map to_lower s = quantity_text n"
  let ?d = "drop 2 s"
  have "map to_lower ?d = drop 2 (map to_lower s)" by (simp add: drop_map)
  then have d: "map to_lower ?d = hex_string (unat n)" using s by (simp add: quantity_text_def)
  have lower: "?d \<noteq> []" "list_all is_lower_hex_digit (map to_lower ?d)" using hex_string_lower [of "unat n"] unfolding d [symmetric] by auto
  have val: "hex_value ?d = unat n" using hex_value_to_lower [OF lower(2)] by (simp add: d hex_value_hex_string)
  have hex: "list_all is_ascii_hexdigit ?d" using lower(2) by (auto simp: list_all_iff to_lower_hexdigit(1))
  have lead: "hd ?d \<noteq> CHR ''0''" if "1 < length ?d"
  proof
    assume "hd ?d = CHR ''0''"
    then have "hd (map to_lower ?d) = CHR ''0''" using lower(1) by (simp add: hd_map to_lower_def byte_of_def)
    then have "unat n = 0" using hex_string_hd [of "unat n"] d by auto
    moreover have "length (hex_string (unat n)) = length ?d" by (simp flip: d)
    ultimately show False using that by simp
  qed
  have "unat n < 2 ^ LENGTH(64)" by (rule unsigned_less)
  then show "parse_quantity err s = Inr n" using s lower(1) val hex lead by (auto simp: parse_quantity_def Let_def)
qed

end
