(* ===== verification/Execution_Chain.thy ===== *)
theory Execution_Chain
  imports Evm_Domain "HOL-Library.Sublist"
begin

text \<open>
  The part of a canonicality tracker the Ethereum and the BSC state machines have in common:
  execution blocks, contiguous segments, the walk along parent links, and the contract a tracker
  keeps. A tracker's canonical map is an abstract chain of linked blocks; a step extends the
  chain, replaces a suffix above the finalized block, or moves the finalized block forward.
\<close>

section \<open>Execution blocks\<close>

record execution_block =
  blk_number :: u64
  blk_hash :: digest
  blk_parent_hash :: digest

type_synonym known_blocks = "(digest, execution_block) fmap"
type_synonym canonical_map = "(u64, digest) fmap"

text \<open>The windows-of-two loop of \<open>validate_segment\<close>.\<close>

fun contiguous :: "execution_block list \<Rightarrow> bool" where
  "contiguous (a # b # bs) \<longleftrightarrow>
     blk_number b = saturating_add (blk_number a) 1 \<and> blk_parent_hash b = blk_hash a \<and> contiguous (b # bs)"
| "contiguous _ \<longleftrightarrow> True"

definition canonical_has :: "canonical_map \<Rightarrow> execution_block \<Rightarrow> bool" where
  "canonical_has m b \<longleftrightarrow> fmlookup m (blk_number b) = Some (blk_hash b)"

text \<open>
  The loop of \<open>is_ancestor\<close>: follow parents while the number is larger. The outer \<open>None\<close> is
  a loop that does not return, the inner one a parent that is not known.
\<close>

partial_function (option) walk_down ::
  "known_blocks \<Rightarrow> execution_block \<Rightarrow> u64 \<Rightarrow> execution_block option option" where
  "walk_down ns current n =
     (if n < blk_number current
      then (case fmlookup ns (blk_parent_hash current) of
              None \<Rightarrow> Some None
            | Some p \<Rightarrow> walk_down ns p n)
      else Some (Some current))"

declare walk_down.simps [code]

definition known_ancestor :: "known_blocks \<Rightarrow> digest \<Rightarrow> digest \<Rightarrow> bool option" where
  "known_ancestor ns ancestor descendant =
     (case fmlookup ns ancestor of
        None \<Rightarrow> Some False
      | Some a \<Rightarrow>
          (case fmlookup ns descendant of
             None \<Rightarrow> Some False
           | Some d \<Rightarrow>
               (case walk_down ns d (blk_number a) of
                  None \<Rightarrow> None
                | Some None \<Rightarrow> Some False
                | Some (Some c) \<Rightarrow> Some (blk_hash c = ancestor))))"

section \<open>The core of a tracker and its steps\<close>

record chain_core =
  core_blocks :: known_blocks
  core_canonical :: canonical_map
  core_head :: "digest option"
  core_finalized :: "digest option"

definition core_new :: chain_core where
  "core_new = \<lparr>core_blocks = fmempty, core_canonical = fmempty, core_head = None, core_finalized = None\<rparr>"

definition core_insert :: "execution_block \<Rightarrow> chain_core \<Rightarrow> chain_core" where
  "core_insert b c = c\<lparr>core_blocks := fmupd (blk_hash b) b (core_blocks c),
     core_canonical := fmupd (blk_number b) (blk_hash b) (core_canonical c)\<rparr>"

definition core_remove :: "execution_block \<Rightarrow> chain_core \<Rightarrow> chain_core" where
  "core_remove b c = c\<lparr>core_canonical := fmdrop (blk_number b) (core_canonical c)\<rparr>"

definition core_commit :: "execution_block list \<Rightarrow> chain_core \<Rightarrow> chain_core" where
  "core_commit bs c = (fold core_insert bs c)\<lparr>core_head := Some (blk_hash (last bs))\<rparr>"

definition core_reorg :: "execution_block list \<Rightarrow> execution_block list \<Rightarrow> chain_core \<Rightarrow> chain_core" where
  "core_reorg old new c = core_commit new (fold core_remove (rev old) c)"

text \<open>
  A block hash commits to the block: \<open>U\<close> is the block each hash stands for. No chain has a block
  at the largest number.
\<close>

definition authentic :: "(digest \<Rightarrow> execution_block option) \<Rightarrow> execution_block list \<Rightarrow> bool" where
  "authentic U bs \<longleftrightarrow> list_all (\<lambda>b. U (blk_hash b) = Some b \<and> blk_number b \<noteq> - 1) bs"

inductive core_step :: "(digest \<Rightarrow> execution_block option) \<Rightarrow> chain_core \<Rightarrow> chain_core \<Rightarrow> bool" for U where
  core_stay: "core_step U c c"
| core_extend:
    "authentic U bs \<Longrightarrow> contiguous bs \<Longrightarrow> bs \<noteq> [] \<Longrightarrow>
     core_head c = None \<or> (\<exists>h b. core_head c = Some h \<and> fmlookup (core_blocks c) h = Some b \<and>
       blk_number (hd bs) = saturating_add (blk_number b) 1 \<and> blk_parent_hash (hd bs) = blk_hash b) \<Longrightarrow>
     core_step U c (core_commit bs c)"
| core_replace:
    "authentic U old \<Longrightarrow> authentic U new \<Longrightarrow> contiguous old \<Longrightarrow> contiguous new \<Longrightarrow>
     old \<noteq> [] \<Longrightarrow> new \<noteq> [] \<Longrightarrow> blk_number (hd old) = blk_number (hd new) \<Longrightarrow>
     blk_parent_hash (hd old) = blk_parent_hash (hd new) \<Longrightarrow>
     core_head c = Some (blk_hash (last old)) \<Longrightarrow> list_all (canonical_has (core_canonical c)) old \<Longrightarrow>
     (\<And>f. core_finalized c = Some f \<Longrightarrow> f \<notin> blk_hash ` set old) \<Longrightarrow>
     core_step U c (core_reorg old new c)"
| core_finalize:
    "fmlookup (core_blocks c) f = Some b \<Longrightarrow> canonical_has (core_canonical c) b \<Longrightarrow>
     (\<And>g. core_finalized c = Some g \<Longrightarrow> g \<noteq> f \<Longrightarrow> known_ancestor (core_blocks c) g f = Some True) \<Longrightarrow>
     core_step U c (c\<lparr>core_finalized := Some f\<rparr>)"

section \<open>Loops that emit revisions\<close>

text \<open>
  A loop over blocks whose body changes the state and emits one revision; the body may fail to
  return (\<open>None\<close>).
\<close>

fun emit_loop :: "('b \<Rightarrow> 's \<Rightarrow> ('r \<times> 's) option) \<Rightarrow> 'b list \<Rightarrow> 's \<Rightarrow> ('r list \<times> 's) option" where
  "emit_loop body [] st = Some ([], st)"
| "emit_loop body (b # bs) st =
     (case body b st of
        None \<Rightarrow> None
      | Some (r, st1) \<Rightarrow>
          (case emit_loop body bs st1 of
             None \<Rightarrow> None
           | Some (rs, st2) \<Rightarrow> Some (r # rs, st2)))"

locale emitting_body =
  fixes body :: "'b \<Rightarrow> 's \<Rightarrow> ('r \<times> 's) option"
    and view :: "'s \<Rightarrow> 'v"
    and effect :: "'b \<Rightarrow> 'v \<Rightarrow> 'v"
    and counter :: "'s \<Rightarrow> nat"
    and entry :: "'b \<Rightarrow> nat \<Rightarrow> 'r \<Rightarrow> bool"
    and limit :: nat
  assumes body_returns: "counter st + 1 < limit \<Longrightarrow> \<exists>r st'. body b st = Some (r, st')"
    and body_view: "body b st = Some (r, st') \<Longrightarrow> view st' = effect b (view st)"
    and body_counter: "body b st = Some (r, st') \<Longrightarrow> counter st' = Suc (counter st)"
    and body_entry: "body b st = Some (r, st') \<Longrightarrow> entry b (Suc (counter st)) r"
begin

lemma emit_loop_returns:
  "counter st + length bs < limit \<Longrightarrow> \<exists>rs st'. emit_loop body bs st = Some (rs, st')"
proof (induction bs arbitrary: st)
  case (Cons b bs)
  then obtain r st1 where r: "body b st = Some (r, st1)" using body_returns [of st b] by auto
  with Cons.IH [of st1] Cons.prems body_counter [OF r] show ?case by auto
qed simp

lemma emit_loop_Some:
  "emit_loop body bs st = Some (rs, st') \<Longrightarrow>
   view st' = fold effect bs (view st) \<and> counter st' = counter st + length bs \<and> length rs = length bs \<and>
   (\<forall>i < length bs. entry (bs ! i) (counter st + Suc i) (rs ! i))"
proof (induction bs arbitrary: st rs)
  case (Cons b bs)
  then obtain r st1 rs1 where r: "body b st = Some (r, st1)"
    and rest: "emit_loop body bs st1 = Some (rs1, st')" and rs: "rs = r # rs1"
    by (auto split: option.splits)
  from Cons.IH [OF rest] body_view [OF r] body_counter [OF r] body_entry [OF r] rs show ?case
    by (auto simp: nth_Cons split: nat.split)
qed simp

end

lemma fold_insert_head:
  "bs \<noteq> [] \<Longrightarrow> fold (\<lambda>b c. (core_insert b c)\<lparr>core_head := Some (blk_hash b)\<rparr>) bs c = core_commit bs c"
proof (induction bs rule: rev_induct)
  case (snoc b bs)
  then show ?case
    by (cases "bs = []") (simp_all add: core_commit_def core_insert_def)
qed simp

section \<open>Linked chains\<close>

definition links :: "execution_block \<Rightarrow> execution_block \<Rightarrow> bool" where
  "links a b \<longleftrightarrow> unat (blk_number b) = Suc (unat (blk_number a)) \<and> blk_parent_hash b = blk_hash a"

fun linked :: "execution_block list \<Rightarrow> bool" where
  "linked (a # b # bs) \<longleftrightarrow> links a b \<and> linked (b # bs)"
| "linked _ \<longleftrightarrow> True"

lemma linked_Cons: "linked (x # xs) \<longleftrightarrow> linked xs \<and> (xs \<noteq> [] \<longrightarrow> links x (hd xs))"
  by (cases xs) auto

lemma linked_append:
  "linked (xs @ ys) \<longleftrightarrow> linked xs \<and> linked ys \<and> (xs \<noteq> [] \<longrightarrow> ys \<noteq> [] \<longrightarrow> links (last xs) (hd ys))"
  by (induction xs) (auto simp: linked_Cons hd_append)

lemma saturating_succ_eq:
  assumes "(b :: u64) = saturating_add a 1" "b \<noteq> - 1"
  shows "unat b = Suc (unat a)"
  using assms by (auto simp: saturating_add_def unat_word_ariths split: if_splits)

lemma contiguous_linked:
  "contiguous bs \<Longrightarrow> authentic U bs \<Longrightarrow> linked bs"
  by (induction bs rule: contiguous.induct) (auto simp: authentic_def links_def saturating_succ_eq)

lemma linked_sorted: "linked bs \<Longrightarrow> sorted_wrt (\<lambda>a b. unat (blk_number a) < unat (blk_number b)) bs"
proof (induction bs rule: linked.induct)
  case (1 a b bs)
  then show ?case by (fastforce simp: links_def)
qed simp_all

lemma linked_number_inj:
  assumes "linked bs" "a \<in> set bs" "b \<in> set bs" "blk_number a = blk_number b"
  shows "a = b"
proof -
  obtain i j where i: "i < length bs" "bs ! i = a" and j: "j < length bs" "bs ! j = b"
    using assms(2,3) by (auto simp: in_set_conv_nth)
  have "\<not> i < j" "\<not> j < i"
    using sorted_wrt_nth_less [OF linked_sorted [OF assms(1)]] i j assms(4) by fastforce+
  with i j show ?thesis by (auto simp: not_less_iff_gr_or_eq)
qed

text \<open>A linked segment of a linked chain that ends where the chain ends is a suffix of it.\<close>

lemma linked_suffix:
  "linked ch \<Longrightarrow> linked old \<Longrightarrow> set old \<subseteq> set ch \<Longrightarrow> old \<noteq> [] \<Longrightarrow> ch \<noteq> [] \<Longrightarrow> last old = last ch \<Longrightarrow>
   \<exists>p. ch = p @ old"
proof (induction old)
  case (Cons y ys)
  show ?case
  proof (cases "ys = []")
    case True
    with Cons.prems show ?thesis by (intro exI [of _ "butlast ch"]) simp
  next
    case False
    then have "linked ys" and link: "links y (hd ys)"
      using Cons.prems(2) by (cases ys; simp)+
    with Cons.IH Cons.prems False obtain p where p: "ch = p @ ys" by auto
    have "unat (blk_number y) < unat (blk_number z)" if "z \<in> set ys" for z
      using linked_sorted [OF Cons.prems(2)] that by simp
    then have "y \<notin> set ys" by blast
    with Cons.prems(3) p have y: "y \<in> set p" by auto
    then have "p \<noteq> []" by auto
    moreover have "links (last p) (hd ys)"
      using Cons.prems(1) p False \<open>p \<noteq> []\<close> by (simp add: linked_append)
    with link have "blk_number (last p) = blk_number y" by (simp add: links_def word_unat_eq_iff)
    then have "last p = y"
      using linked_number_inj [OF Cons.prems(1)] p y \<open>p \<noteq> []\<close> by auto
    ultimately show ?thesis using p by (metis append.assoc append_Cons append_Nil append_butlast_last_id)
  qed
qed simp

section \<open>The abstract chain\<close>

text \<open>
  \<open>chain_view U c ch\<close>: the tracker core \<open>c\<close> stands for the chain \<open>ch\<close>, oldest block first.
\<close>

definition chain_view :: "(digest \<Rightarrow> execution_block option) \<Rightarrow> chain_core \<Rightarrow> execution_block list \<Rightarrow> bool" where
  "chain_view U c ch \<longleftrightarrow> linked ch \<and>
     (\<forall>n h. fmlookup (core_canonical c) n = Some h \<longleftrightarrow> (\<exists>b \<in> set ch. blk_number b = n \<and> blk_hash b = h)) \<and>
     core_head c = map_option blk_hash (last_opt ch) \<and>
     (\<forall>b \<in> set ch. fmlookup (core_blocks c) (blk_hash b) = Some b) \<and>
     (\<forall>h b. fmlookup (core_blocks c) h = Some b \<longrightarrow> U h = Some b \<and> blk_hash b = h \<and> blk_number b \<noteq> - 1 \<and>
        ch \<noteq> [] \<and> blk_number (hd ch) \<le> blk_number b) \<and>
     (\<forall>f. core_finalized c = Some f \<longrightarrow> f \<in> blk_hash ` set ch)"

lemma chain_viewD:
  assumes "chain_view U c ch"
  shows "linked ch"
    and "fmlookup (core_canonical c) n = Some h \<longleftrightarrow> (\<exists>b \<in> set ch. blk_number b = n \<and> blk_hash b = h)"
    and "core_head c = map_option blk_hash (last_opt ch)"
    and "b \<in> set ch \<Longrightarrow> fmlookup (core_blocks c) (blk_hash b) = Some b"
    and "fmlookup (core_blocks c) h = Some b \<Longrightarrow> U h = Some b \<and> blk_hash b = h \<and> blk_number b \<noteq> - 1 \<and>
        ch \<noteq> [] \<and> blk_number (hd ch) \<le> blk_number b"
    and "core_finalized c = Some f \<Longrightarrow> f \<in> blk_hash ` set ch"
  using assms by (auto simp: chain_view_def)

lemma chain_view_new: "chain_view U core_new []"
  by (simp add: chain_view_def core_new_def)

lemma canonical_has_iff:
  assumes "chain_view U c ch" "U (blk_hash b) = Some b"
  shows "canonical_has (core_canonical c) b \<longleftrightarrow> b \<in> set ch"
proof
  assume "canonical_has (core_canonical c) b"
  then obtain x where x: "x \<in> set ch" "blk_hash x = blk_hash b"
    using chain_viewD(2) [OF assms(1)] by (auto simp: canonical_has_def)
  from chain_viewD(5) [OF assms(1) chain_viewD(4) [OF assms(1) x(1)]] x(2) assms(2) have "x = b" by simp
  with x(1) show "b \<in> set ch" by simp
next
  assume "b \<in> set ch"
  then show "canonical_has (core_canonical c) b"
    using chain_viewD(2) [OF assms(1)] by (auto simp: canonical_has_def)
qed

subsection \<open>Ancestry along the chain\<close>

lemma walk_down_chain:
  assumes view: "chain_view U c ch"
  shows "ch = p @ d # q \<Longrightarrow> blk_number (hd ch) \<le> n \<Longrightarrow> n \<le> blk_number d \<Longrightarrow>
    \<exists>x \<in> set ch. blk_number x = n \<and> walk_down (core_blocks c) d n = Some (Some x)"
proof (induction p arbitrary: d q rule: rev_induct)
  case Nil
  then have "\<not> n < blk_number d" "blk_number d = n" by auto
  with Nil show ?case by (subst walk_down.simps) auto
next
  case (snoc e p)
  show ?case
  proof (cases "n < blk_number d")
    case False
    with snoc.prems show ?thesis by (subst walk_down.simps) auto
  next
    case True
    have link: "links e d"
      using chain_viewD(1) [OF view] snoc.prems(1) by (simp add: linked_append)
    then have "n \<le> blk_number e" using True by (simp add: links_def word_less_nat_alt word_le_nat_alt)
    moreover have e: "fmlookup (core_blocks c) (blk_hash e) = Some e"
      using chain_viewD(4) [OF view] snoc.prems(1) by simp
    ultimately obtain x where "x \<in> set ch" "blk_number x = n" "walk_down (core_blocks c) e n = Some (Some x)"
      using snoc.IH [of e "d # q"] snoc.prems by auto
    with True link e show ?thesis
      by (subst walk_down.simps) (auto simp: links_def)
  qed
qed

lemma known_ancestor_chain:
  assumes view: "chain_view U c ch" and d: "d \<in> set ch"
    and a: "fmlookup (core_blocks c) h = Some a"
  shows "known_ancestor (core_blocks c) h (blk_hash d) =
    Some (a \<in> set ch \<and> blk_number a \<le> blk_number d)"
proof -
  have dk: "fmlookup (core_blocks c) (blk_hash d) = Some d" by (rule chain_viewD(4) [OF view d])
  have ak: "blk_hash a = h" "U h = Some a" "blk_number (hd ch) \<le> blk_number a"
    using chain_viewD(5) [OF view a] by auto
  have "\<exists>x \<in> set ch. walk_down (core_blocks c) d (blk_number a) = Some (Some x) \<and>
      blk_number x = min (blk_number a) (blk_number d)"
  proof (cases "blk_number a \<le> blk_number d")
    case True
    obtain p q where "ch = p @ d # q" using d by (auto simp: in_set_conv_decomp)
    from walk_down_chain [OF view this ak(3) True] True show ?thesis by (auto simp: min_def)
  next
    case False
    then show ?thesis using d by (subst walk_down.simps) (auto simp: min_def)
  qed
  then obtain x where x: "x \<in> set ch" "walk_down (core_blocks c) d (blk_number a) = Some (Some x)"
    "blk_number x = min (blk_number a) (blk_number d)" by blast
  have "blk_hash x = h \<longleftrightarrow> a \<in> set ch \<and> blk_number a \<le> blk_number d"
  proof
    assume "blk_hash x = h"
    with chain_viewD(4) [OF view x(1)] a have "x = a" by simp
    with x show "a \<in> set ch \<and> blk_number a \<le> blk_number d" by (auto simp: min_def split: if_splits)
  next
    assume "a \<in> set ch \<and> blk_number a \<le> blk_number d"
    with x have "x = a"
      by (intro linked_number_inj [OF chain_viewD(1) [OF view]]) (auto simp: min_def)
    with ak show "blk_hash x = h" by simp
  qed
  with a dk x(2) show ?thesis by (simp add: known_ancestor_def)
qed

subsection \<open>What a step does to the chain\<close>

lemma fold_core_insert_rest [simp]:
  "core_head (fold core_insert bs c) = core_head c"
  "core_finalized (fold core_insert bs c) = core_finalized c"
  by (induction bs arbitrary: c) (simp_all add: core_insert_def)

lemma fold_core_insert_canonical:
  "linked bs \<Longrightarrow> fmlookup (core_canonical (fold core_insert bs c)) n = Some h \<longleftrightarrow>
     (\<exists>b \<in> set bs. blk_number b = n \<and> blk_hash b = h) \<or>
     (\<forall>b \<in> set bs. blk_number b \<noteq> n) \<and> fmlookup (core_canonical c) n = Some h"
proof (induction bs arbitrary: c)
  case (Cons b bs)
  have "blk_number x \<noteq> blk_number b" if "x \<in> set bs" for x
    using linked_sorted [OF Cons.prems] that by fastforce
  with Cons show ?case by (auto simp: core_insert_def linked_Cons)
qed simp

lemma fold_core_insert_blocks:
  "authentic U bs \<Longrightarrow> fmlookup (core_blocks (fold core_insert bs c)) h =
     (if h \<in> blk_hash ` set bs then U h else fmlookup (core_blocks c) h)"
  by (induction bs arbitrary: c) (auto simp: core_insert_def authentic_def)

lemma fold_core_remove_rest [simp]:
  "core_head (fold core_remove bs c) = core_head c"
  "core_finalized (fold core_remove bs c) = core_finalized c"
  "core_blocks (fold core_remove bs c) = core_blocks c"
  by (induction bs arbitrary: c) (simp_all add: core_remove_def)

lemma fold_core_remove_canonical:
  "fmlookup (core_canonical (fold core_remove bs c)) n =
     (if n \<in> blk_number ` set bs then None else fmlookup (core_canonical c) n)"
  by (induction bs arbitrary: c) (auto simp: core_remove_def)

lemma last_opt_append: "ys \<noteq> [] \<Longrightarrow> last_opt (xs @ ys) = Some (last ys)"
  by (simp add: last_opt_def)

lemma chain_view_commit:
  assumes lk: "linked (p @ bs)" and ne: "bs \<noteq> []" and au: "authentic U bs"
    and can: "\<And>n h. fmlookup (core_canonical c) n = Some h \<longleftrightarrow> (\<exists>b \<in> set p. blk_number b = n \<and> blk_hash b = h)"
    and known: "\<And>b. b \<in> set p \<Longrightarrow> fmlookup (core_blocks c) (blk_hash b) = Some b"
    and ok: "\<And>h b. fmlookup (core_blocks c) h = Some b \<Longrightarrow> U h = Some b \<and> blk_hash b = h \<and> blk_number b \<noteq> - 1 \<and>
        blk_number (hd (p @ bs)) \<le> blk_number b"
    and fin: "\<And>f. core_finalized c = Some f \<Longrightarrow> f \<in> blk_hash ` set p"
  shows "chain_view U (core_commit bs c) (p @ bs)"
proof -
  have U: "U (blk_hash b) = Some b" "blk_number b \<noteq> - 1" if "b \<in> set bs" for b
    using au that by (auto simp: authentic_def list_all_iff)
  have srt: "sorted_wrt (\<lambda>a b. unat (blk_number a) < unat (blk_number b)) (p @ bs)"
    by (rule linked_sorted [OF lk])
  have low: "blk_number (hd (p @ bs)) \<le> blk_number b" if "b \<in> set (p @ bs)" for b
    using srt that by (cases "p @ bs") (auto simp: word_le_nat_alt)
  have can': "fmlookup (core_canonical (core_commit bs c)) n = Some h \<longleftrightarrow>
      (\<exists>b \<in> set (p @ bs). blk_number b = n \<and> blk_hash b = h)" for n h
  proof -
    have lb: "linked bs" using lk by (simp add: linked_append)
    have disj: "\<forall>b \<in> set bs. \<forall>x \<in> set p. blk_number b \<noteq> blk_number x"
      using srt by (fastforce simp: sorted_wrt_append)
    have "fmlookup (core_canonical (core_commit bs c)) n = Some h \<longleftrightarrow>
        (\<exists>b \<in> set bs. blk_number b = n \<and> blk_hash b = h) \<or>
        (\<forall>b \<in> set bs. blk_number b \<noteq> n) \<and> (\<exists>b \<in> set p. blk_number b = n \<and> blk_hash b = h)"
      using fold_core_insert_canonical [OF lb, of c n h] can [of n h] by (simp add: core_commit_def)
    then show ?thesis using disj by (metis UnE UnI1 UnI2 set_append)
  qed
  have blk: "fmlookup (core_blocks (core_commit bs c)) h =
      (if h \<in> blk_hash ` set bs then U h else fmlookup (core_blocks c) h)" for h
    using fold_core_insert_blocks [OF au] by (simp add: core_commit_def)
  have known': "fmlookup (core_blocks (core_commit bs c)) (blk_hash b) = Some b" if "b \<in> set (p @ bs)" for b
    unfolding blk using that U known ok [OF known] by auto
  have ok': "U h = Some b \<and> blk_hash b = h \<and> blk_number b \<noteq> - 1 \<and> blk_number (hd (p @ bs)) \<le> blk_number b"
    if "fmlookup (core_blocks (core_commit bs c)) h = Some b" for h b
    using that ok U low unfolding blk by (auto split: if_splits)
  show ?thesis
    unfolding chain_view_def using lk can' known' ok' ne fin
    by (auto simp: core_commit_def last_opt_append)
qed

inductive chain_step ::
  "execution_block list \<times> digest option \<Rightarrow> execution_block list \<times> digest option \<Rightarrow> bool" where
  chain_stay: "chain_step (ch, fin) (ch, fin)"
| chain_extend: "chain_step (ch, fin) (ch @ bs, fin)"
| chain_replace: "(\<And>f. fin = Some f \<Longrightarrow> f \<in> blk_hash ` set p) \<Longrightarrow> chain_step (p @ old, fin) (p @ new, fin)"
| chain_finalize: "(\<And>g. fin = Some g \<Longrightarrow> \<exists>x \<in> set ch. blk_hash x = g \<and> blk_number x \<le> blk_number b) \<Longrightarrow>
    b \<in> set ch \<Longrightarrow> chain_step (ch, fin) (ch, Some (blk_hash b))"

lemma chain_view_extend:
  assumes view: "chain_view U c ch"
    and bs: "authentic U bs" "contiguous bs" "bs \<noteq> []"
    and ext: "core_head c = None \<or> (\<exists>h b. core_head c = Some h \<and> fmlookup (core_blocks c) h = Some b \<and>
       blk_number (hd bs) = saturating_add (blk_number b) 1 \<and> blk_parent_hash (hd bs) = blk_hash b)"
  shows "chain_view U (core_commit bs c) (ch @ bs)"
proof (rule chain_view_commit [OF _ bs(3,1) chain_viewD(2) [OF view] chain_viewD(4) [OF view]])
  have "links (last ch) (hd bs)" if "ch \<noteq> []"
  proof -
    from ext that chain_viewD(3) [OF view] obtain b where
      b: "fmlookup (core_blocks c) (blk_hash (last ch)) = Some b"
      "blk_number (hd bs) = saturating_add (blk_number b) 1" "blk_parent_hash (hd bs) = blk_hash b"
      by (auto simp: last_opt_def)
    have "b = last ch" using b(1) chain_viewD(4) [OF view] that by force
    moreover have "blk_number (hd bs) \<noteq> - 1"
      using bs by (cases bs) (auto simp: authentic_def)
    ultimately show ?thesis using b saturating_succ_eq by (auto simp: links_def)
  qed
  then show "linked (ch @ bs)"
    using chain_viewD(1) [OF view] contiguous_linked [OF bs(2,1)] by (simp add: linked_append)
next
  fix h b
  assume "fmlookup (core_blocks c) h = Some b"
  from chain_viewD(5) [OF view this] show "U h = Some b \<and> blk_hash b = h \<and> blk_number b \<noteq> - 1 \<and>
      blk_number (hd (ch @ bs)) \<le> blk_number b" by auto
qed (use chain_viewD(6) [OF view] in auto)

lemma chain_view_replace:
  assumes view: "chain_view U c ch"
    and old: "authentic U old" "contiguous old" "old \<noteq> []"
    and new: "authentic U new" "contiguous new" "new \<noteq> []"
    and same: "blk_number (hd old) = blk_number (hd new)" "blk_parent_hash (hd old) = blk_parent_hash (hd new)"
    and head: "core_head c = Some (blk_hash (last old))"
    and can: "list_all (canonical_has (core_canonical c)) old"
    and fin: "\<And>f. core_finalized c = Some f \<Longrightarrow> f \<notin> blk_hash ` set old"
  obtains p where "ch = p @ old" "chain_view U (core_reorg old new c) (p @ new)"
    "\<And>f. core_finalized c = Some f \<Longrightarrow> f \<in> blk_hash ` set p"
proof -
  have U: "U (blk_hash b) = Some b" if "b \<in> set old" for b
    using old(1) that by (auto simp: authentic_def list_all_iff)
  have sub: "set old \<subseteq> set ch"
    using can canonical_has_iff [OF view] U by (auto simp: list_all_iff)
  have ne: "ch \<noteq> []" using sub old(3) by (cases old) auto
  have "last old = last ch"
  proof -
    have "last ch \<in> set ch" "last old \<in> set old" using ne old(3) by auto
    with sub have "fmlookup (core_blocks c) (blk_hash (last ch)) = Some (last ch)"
      "fmlookup (core_blocks c) (blk_hash (last old)) = Some (last old)"
      using chain_viewD(4) [OF view] by auto
    moreover have "blk_hash (last ch) = blk_hash (last old)"
      using chain_viewD(3) [OF view] head ne by (simp add: last_opt_def)
    ultimately show ?thesis by (metis option.inject)
  qed
  then obtain p where p: "ch = p @ old"
    using linked_suffix [OF chain_viewD(1) [OF view] contiguous_linked [OF old(2,1)] sub old(3) ne] by blast
  have pfin: "f \<in> blk_hash ` set p" if "core_finalized c = Some f" for f
    using chain_viewD(6) [OF view that] fin [OF that] p by auto
  have "links (last p) (hd new)" if "p \<noteq> []"
    using chain_viewD(1) [OF view] p that old(3) same by (simp add: linked_append links_def)
  then have lk: "linked (p @ new)"
    using chain_viewD(1) [OF view] p contiguous_linked [OF new(2,1)] by (simp add: linked_append)
  have gone: "b \<notin> set old \<and> blk_number b \<notin> blk_number ` set old" if "b \<in> set p" for b
    using linked_sorted [OF chain_viewD(1) [OF view]] that p by (fastforce simp: sorted_wrt_append)
  have "chain_view U (core_commit new (fold core_remove (rev old) c)) (p @ new)"
  proof (rule chain_view_commit [OF lk new(3,1)])
    fix n h
    show "fmlookup (core_canonical (fold core_remove (rev old) c)) n = Some h \<longleftrightarrow>
        (\<exists>b \<in> set p. blk_number b = n \<and> blk_hash b = h)"
    proof -
      have "n \<notin> blk_number ` set old" if "b \<in> set p" "blk_number b = n" for b
        using gone that by blast
      then show ?thesis
        unfolding fold_core_remove_canonical set_rev using chain_viewD(2) [OF view, of n h] p
        by (cases "n \<in> blk_number ` set old") (simp_all, blast+)
    qed
  next
    fix h b
    assume "fmlookup (core_blocks (fold core_remove (rev old) c)) h = Some b"
    moreover have "blk_number (hd (p @ new)) = blk_number (hd ch)"
      using p same(1) old(3) new(3) by (cases p) auto
    ultimately show "U h = Some b \<and> blk_hash b = h \<and> blk_number b \<noteq> - 1 \<and>
        blk_number (hd (p @ new)) \<le> blk_number b"
      using chain_viewD(5) [OF view] by simp
  qed (use chain_viewD(4) [OF view] p pfin in simp_all)
  then show thesis using that p pfin by (simp add: core_reorg_def)
qed

lemma core_step_chain:
  assumes "core_step U c c'" "chain_view U c ch"
  shows "\<exists>ch'. chain_view U c' ch' \<and> chain_step (ch, core_finalized c) (ch', core_finalized c')"
  using assms
proof (cases rule: core_step.cases)
  case core_stay
  then show ?thesis using assms(2) chain_stay by blast
next
  case (core_extend bs)
  from chain_view_extend [OF assms(2) core_extend(2-)] show ?thesis
    using chain_extend core_extend(1) by (auto simp: core_commit_def)
next
  case (core_replace old new)
  show ?thesis
  proof (rule chain_view_replace [OF assms(2) core_replace(2,4,6,3,5,7-10,11,12)])
    fix p
    assume "ch = p @ old" "chain_view U (core_reorg old new c) (p @ new)"
      "\<And>f. core_finalized c = Some f \<Longrightarrow> f \<in> blk_hash ` set p"
    then show ?thesis
      using chain_replace [of "core_finalized c" p old new] core_replace(1)
      by (auto simp: core_reorg_def core_commit_def)
  qed
next
  case (core_finalize f b)
  have b: "U f = Some b" "blk_hash b = f" using chain_viewD(5) [OF assms(2) core_finalize(2)] by auto
  then have bch: "b \<in> set ch" using canonical_has_iff [OF assms(2), of b] core_finalize(3) by simp
  have "\<exists>x \<in> set ch. blk_hash x = g \<and> blk_number x \<le> blk_number b" if g: "core_finalized c = Some g" for g
  proof (cases "g = f")
    case True
    with b bch show ?thesis by auto
  next
    case False
    obtain x where x: "x \<in> set ch" "blk_hash x = g" using chain_viewD(6) [OF assms(2) g] by auto
    have "known_ancestor (core_blocks c) g f = Some True" by (rule core_finalize(4) [OF g False])
    with known_ancestor_chain [OF assms(2) bch, of g x] chain_viewD(4) [OF assms(2) x(1)] x b show ?thesis
      by auto
  qed
  then have "chain_step (ch, core_finalized c) (ch, Some (blk_hash b))"
    using bch by (rule chain_finalize)
  moreover have "chain_view U c' ch"
    unfolding core_finalize(1) using assms(2) bch b by (auto simp: chain_view_def)
  ultimately show ?thesis using core_finalize(1) b by auto
qed

subsection \<open>The chain a core stands for\<close>

text \<open>The canonical blocks in the order of the map's keys.\<close>

definition core_chain :: "chain_core \<Rightarrow> execution_block list" where
  "core_chain c = map (\<lambda>n. the (fmlookup (core_blocks c) (the (fmlookup (core_canonical c) n))))
     (sorted_list_of_fset (fmdom (core_canonical c)))"

lemma chain_view_core_chain:
  assumes view: "chain_view U c ch"
  shows "core_chain c = ch"
proof -
  have sorted: "sorted_wrt (<) (map blk_number ch)"
    using linked_sorted [OF chain_viewD(1) [OF view]] by (simp add: sorted_wrt_map word_less_nat_alt)
  have dom: "fset (fmdom (core_canonical c)) = set (map blk_number ch)"
  proof (rule set_eqI)
    fix n
    have "n \<in> fset (fmdom (core_canonical c)) \<longleftrightarrow> (\<exists>h. fmlookup (core_canonical c) n = Some h)"
      by (simp add: fmlookup_dom_iff)
    then show "n \<in> fset (fmdom (core_canonical c)) \<longleftrightarrow> n \<in> set (map blk_number ch)"
      unfolding chain_viewD(2) [OF view] by auto
  qed
  have "sorted_list_of_fset (fmdom (core_canonical c)) = map blk_number ch"
    unfolding sorted_list_of_fset.rep_eq dom
    using sorted by (intro sorted_list_of_set.idem_if_sorted_distinct) (simp_all add: strict_sorted_iff)
  then have "core_chain c = map (\<lambda>b. the (fmlookup (core_blocks c) (the (fmlookup (core_canonical c) (blk_number b))))) ch"
    by (simp add: core_chain_def)
  also have "\<dots> = map (\<lambda>b. b) ch"
  proof (rule map_cong [OF refl])
    fix b
    assume b: "b \<in> set ch"
    then have "fmlookup (core_canonical c) (blk_number b) = Some (blk_hash b)"
      using chain_viewD(2) [OF view] by blast
    then show "the (fmlookup (core_blocks c) (the (fmlookup (core_canonical c) (blk_number b)))) = b"
      using chain_viewD(4) [OF view b] by simp
  qed
  finally show ?thesis by simp
qed

section \<open>Finality\<close>

text \<open>The chain up to and including the finalized block.\<close>

fun up_to :: "digest \<Rightarrow> execution_block list \<Rightarrow> execution_block list" where
  "up_to f [] = []"
| "up_to f (b # bs) = (if blk_hash b = f then [b] else b # up_to f bs)"

definition final_prefix :: "execution_block list \<Rightarrow> digest option \<Rightarrow> execution_block list" where
  "final_prefix ch fin = (case fin of None \<Rightarrow> [] | Some f \<Rightarrow> up_to f ch)"

lemma up_to_append: "f \<in> blk_hash ` set p \<Longrightarrow> up_to f (p @ q) = up_to f p"
  by (induction p) auto

lemma up_to_skip: "f \<notin> blk_hash ` set p \<Longrightarrow> up_to f (p @ q) = p @ up_to f q"
  by (induction p) auto

lemma up_to_mono:
  assumes lk: "linked ch" and inj: "inj_on blk_hash (set ch)"
    and x: "x \<in> set ch" and b: "b \<in> set ch" and le: "blk_number x \<le> blk_number b"
  shows "prefix (up_to (blk_hash x) ch) (up_to (blk_hash b) ch)"
proof -
  obtain p q where ch: "ch = p @ x # q" using x by (auto simp: in_set_conv_decomp)
  have dist: "distinct ch"
  proof -
    have "distinct xs" if "sorted_wrt (\<lambda>a b. unat (blk_number a) < unat (blk_number b)) xs" for xs
      using that by (induction xs) auto
    then show ?thesis using linked_sorted [OF lk] .
  qed
  have "b \<notin> set p"
    using linked_sorted [OF lk] le ch by (fastforce simp: sorted_wrt_append word_le_nat_alt)
  then have bp: "blk_hash b \<notin> blk_hash ` set p"
    using inj_on_image_mem_iff [OF inj b, of "set p"] ch by auto
  have xp: "blk_hash x \<notin> blk_hash ` set p"
    using inj_on_image_mem_iff [OF inj x, of "set p"] dist ch by auto
  show ?thesis
    using ch by (simp add: up_to_skip [OF bp] up_to_skip [OF xp])
qed

lemma chain_step_final_prefix:
  assumes "chain_step (ch, fin) (ch', fin')" "linked ch" "inj_on blk_hash (set ch)"
    and "\<And>f. fin = Some f \<Longrightarrow> f \<in> blk_hash ` set ch"
  shows "prefix (final_prefix ch fin) (final_prefix ch' fin')"
  using assms(1)
proof (cases rule: chain_step.cases)
  case (chain_extend bs)
  then show ?thesis using assms(4) by (auto simp: final_prefix_def up_to_append split: option.split)
next
  case (chain_replace p old new)
  then show ?thesis by (auto simp: final_prefix_def up_to_append split: option.split)
next
  case (chain_finalize b)
  then show ?thesis
    using up_to_mono [OF assms(2,3)] by (fastforce simp: final_prefix_def split: option.split)
qed (simp add: final_prefix_def)

lemma chain_view_inj: "chain_view U c ch \<Longrightarrow> inj_on blk_hash (set ch)"
  by (rule inj_onI) (metis chain_viewD(4) option.inject)

lemma core_step_final_prefix:
  assumes "core_step U c c'" "chain_view U c ch"
  obtains ch' where "chain_view U c' ch'"
    "prefix (final_prefix ch (core_finalized c)) (final_prefix ch' (core_finalized c'))"
  using core_step_chain [OF assms] chain_step_final_prefix chain_viewD(1) [OF assms(2)]
    chain_view_inj [OF assms(2)] chain_viewD(6) [OF assms(2)] by metis

text \<open>
  The contract of a tracker, over a map from its state to the core and the relation of one
  operation applied to authentic blocks.
\<close>

locale chain_tracker =
  fixes core :: "'s \<Rightarrow> chain_core"
    and step :: "'s \<Rightarrow> 's \<Rightarrow> bool"
    and start :: 's
    and U :: "digest \<Rightarrow> execution_block option"
  assumes start_core: "core start = core_new"
    and step_core: "chain_view U (core s) ch \<Longrightarrow> step s s' \<Longrightarrow> core_step U (core s) (core s')"
begin

lemma reached_view:
  assumes "step\<^sup>*\<^sup>* start s"
  shows "chain_view U (core s) (core_chain (core s))"
proof -
  have "\<exists>ch. chain_view U (core s) ch"
    using assms
  proof (induction rule: rtranclp_induct)
    case base
    show ?case using chain_view_new start_core by metis
  next
    case (step s s')
    then show ?case using core_step_chain step_core by metis
  qed
  then show ?thesis using chain_view_core_chain by metis
qed

lemma finalized_prefix_kept:
  assumes "step\<^sup>*\<^sup>* start s" "step\<^sup>*\<^sup>* s s'"
  shows "prefix (final_prefix (core_chain (core s)) (core_finalized (core s)))
    (final_prefix (core_chain (core s')) (core_finalized (core s')))"
  using assms(2)
proof (induction rule: rtranclp_induct)
  case (step s1 s2)
  have view: "chain_view U (core s1) (core_chain (core s1))"
    using assms(1) step.hyps(1) by (intro reached_view) auto
  from core_step_final_prefix [OF step_core [OF view step.hyps(2)] view] obtain ch2 where
    ch2: "chain_view U (core s2) ch2"
      "prefix (final_prefix (core_chain (core s1)) (core_finalized (core s1)))
        (final_prefix ch2 (core_finalized (core s2)))" .
  have "core_chain (core s2) = ch2" by (rule chain_view_core_chain [OF ch2(1)])
  with ch2(2) step.IH show ?case using prefix_order.trans by blast
qed simp

end

section \<open>Concrete blocks\<close>

text \<open>Two branches over one block, the inputs of the concrete runs of both trackers.\<close>

definition exec_block :: "nat \<Rightarrow> nat \<Rightarrow> nat \<Rightarrow> execution_block" where
  "exec_block n h p = \<lparr>blk_number = of_nat n, blk_hash = of_nat h, blk_parent_hash = of_nat p\<rparr>"

definition sample_chain :: "execution_block list" where
  "sample_chain = [exec_block 1 1 0, exec_block 2 2 1]"

definition sample_fork :: "execution_block list" where
  "sample_fork = [exec_block 2 3 1, exec_block 3 4 3]"

definition sample_universe :: "digest \<Rightarrow> execution_block option" where
  "sample_universe = map_of (map (\<lambda>b. (blk_hash b, b)) (sample_chain @ sample_fork))"

lemma sample_authentic:
  "authentic sample_universe sample_chain" "authentic sample_universe sample_fork"
  "authentic sample_universe [exec_block 2 2 1]"
  by (simp_all add: authentic_def sample_universe_def sample_chain_def sample_fork_def exec_block_def)

end
