(* ===== verification/Ethereum_Canonicality.thy ===== *)
theory Ethereum_Canonicality
  imports Execution_Chain
begin

text \<open>
  The Ethereum tracker of \<open>processors/evm-canonicality/src/lib.rs\<close>, with the status type of
  \<open>crates/evm-domain\<close>. An operation returns its result with the state it leaves behind;
  \<open>None\<close> is an operation that does not return: the panic of \<open>next_revision\<close> when the 64-bit
  revision is exhausted, or a parent walk that runs forever.
\<close>

section \<open>Data\<close>

datatype ethereum_error =
    EthEmptySourceId
  | EthDiscontinuousSegment
  | EthSegmentDoesNotExtendHead
  | EthEmptyReorgSegment
  | EthReorgAncestorMismatch
  | EthMissingCanonicalHead
  | EthReorgDoesNotMatchCanonicalSuffix
  | EthReplacementAlreadyCanonical
  | EthUnknownExecutionPayload digest
  | EthExecutionPayloadNotCanonical digest
  | EthInvalidCheckpointAncestry
  | EthSafeCheckpointRegression
  | EthFinalizedReversalCritical digest

record ethereum_checkpoint =
  cp_head :: digest
  cp_safe :: digest
  cp_finalized :: digest
  cp_source_id :: string

definition ethereum_checkpoint_new ::
  "digest \<Rightarrow> digest \<Rightarrow> digest \<Rightarrow> string \<Rightarrow> ethereum_error + ethereum_checkpoint" where
  "ethereum_checkpoint_new hd_hash safe_hash fin_hash source =
     (if str_blank source then Inl EthEmptySourceId
      else Inr \<lparr>cp_head = hd_hash, cp_safe = safe_hash, cp_finalized = fin_hash, cp_source_id = source\<rparr>)"

record ethereum_revision =
  eth_rev_block :: execution_block
  eth_rev_status :: ethereum_status
  eth_rev_revision :: u64
  eth_rev_source_id :: "string option"

record ethereum_canonicality =
  eth_blocks :: known_blocks
  eth_canonical :: canonical_map
  eth_head :: "digest option"
  eth_safe :: "digest option"
  eth_finalized :: "digest option"
  eth_revision :: u64

definition eth_new :: ethereum_canonicality where
  "eth_new = \<lparr>eth_blocks = fmempty, eth_canonical = fmempty, eth_head = None, eth_safe = None,
     eth_finalized = None, eth_revision = 0\<rparr>"

section \<open>Operations\<close>

definition eth_validate_segment :: "execution_block list \<Rightarrow> ethereum_error + unit" where
  "eth_validate_segment bs = (if contiguous bs then Inr () else Inl EthDiscontinuousSegment)"

definition eth_next_revision ::
  "execution_block \<Rightarrow> ethereum_status \<Rightarrow> string option \<Rightarrow> ethereum_canonicality \<Rightarrow>
   (ethereum_revision \<times> ethereum_canonicality) option" where
  "eth_next_revision b status source st =
     (case checked_add (eth_revision st) 1 of
        None \<Rightarrow> None
      | Some r \<Rightarrow> Some (\<lparr>eth_rev_block = b, eth_rev_status = status, eth_rev_revision = r,
          eth_rev_source_id = source\<rparr>, st\<lparr>eth_revision := r\<rparr>))"

definition eth_block :: "ethereum_canonicality \<Rightarrow> digest \<Rightarrow> ethereum_error + execution_block" where
  "eth_block st h = ok_or (fmlookup (eth_blocks st) h) (EthUnknownExecutionPayload h)"

definition eth_canonical_block :: "ethereum_canonicality \<Rightarrow> digest \<Rightarrow> ethereum_error + execution_block" where
  "eth_canonical_block st h =
     and_then (ok_or (fmlookup (eth_blocks st) h) (EthUnknownExecutionPayload h)) (\<lambda>b.
       if fmlookup (eth_canonical st) (blk_number b) \<noteq> Some h
       then Inl (EthExecutionPayloadNotCanonical h) else Inr b)"

definition eth_is_ancestor :: "ethereum_canonicality \<Rightarrow> digest \<Rightarrow> digest \<Rightarrow> bool option" where
  "eth_is_ancestor st ancestor descendant = known_ancestor (eth_blocks st) ancestor descendant"

definition eth_commit_body ::
  "execution_block \<Rightarrow> ethereum_canonicality \<Rightarrow> (ethereum_revision \<times> ethereum_canonicality) option" where
  "eth_commit_body b st = eth_next_revision b EthCanonicalHead None
     (st\<lparr>eth_blocks := fmupd (blk_hash b) b (eth_blocks st),
         eth_canonical := fmupd (blk_number b) (blk_hash b) (eth_canonical st),
         eth_head := Some (blk_hash b)\<rparr>)"

definition eth_commit_segment ::
  "execution_block list \<Rightarrow> ethereum_canonicality \<Rightarrow>
   ((ethereum_error + ethereum_revision list) \<times> ethereum_canonicality) option" where
  "eth_commit_segment bs st =
     (if bs = [] then Some (Inr [], st)
      else case eth_validate_segment bs of
          Inl e \<Rightarrow> Some (Inl e, st)
        | Inr _ \<Rightarrow>
            if list_all (canonical_has (eth_canonical st)) bs then Some (Inr [], st)
            else (case (case eth_head st of
                     None \<Rightarrow> Inr ()
                   | Some h \<Rightarrow> and_then (eth_block st h) (\<lambda>hb.
                       if blk_number (hd bs) \<noteq> saturating_add (blk_number hb) 1 \<or>
                          blk_parent_hash (hd bs) \<noteq> blk_hash hb
                       then Inl EthSegmentDoesNotExtendHead else Inr ())) of
                Inl e \<Rightarrow> Some (Inl e, st)
              | Inr _ \<Rightarrow> map_option (map_prod Inr id) (emit_loop eth_commit_body bs st)))"

definition eth_remove_body ::
  "execution_block \<Rightarrow> ethereum_canonicality \<Rightarrow> (ethereum_revision \<times> ethereum_canonicality) option" where
  "eth_remove_body b st = eth_next_revision b EthReorged None
     (st\<lparr>eth_canonical := fmdrop (blk_number b) (eth_canonical st)\<rparr>)"

definition eth_insert_body ::
  "execution_block \<Rightarrow> ethereum_canonicality \<Rightarrow> (ethereum_revision \<times> ethereum_canonicality) option" where
  "eth_insert_body b st = eth_next_revision b EthCanonicalHead None
     (st\<lparr>eth_blocks := fmupd (blk_hash b) b (eth_blocks st),
         eth_canonical := fmupd (blk_number b) (blk_hash b) (eth_canonical st)\<rparr>)"

text \<open>The guards of \<open>reorg\<close>, in the order the code tests them.\<close>

definition eth_reorg_guard ::
  "execution_block list \<Rightarrow> execution_block list \<Rightarrow> ethereum_canonicality \<Rightarrow> ethereum_error + unit" where
  "eth_reorg_guard old new st =
     (if old = [] \<or> new = [] then Inl EthEmptyReorgSegment
      else and_then (eth_validate_segment old) (\<lambda>_.
        and_then (eth_validate_segment new) (\<lambda>_.
          if blk_number (hd old) \<noteq> blk_number (hd new) \<or> blk_parent_hash (hd old) \<noteq> blk_parent_hash (hd new)
          then Inl EthReorgAncestorMismatch
          else and_then (ok_or (eth_head st) EthMissingCanonicalHead) (\<lambda>current_head.
            if map_option blk_hash (last_opt old) \<noteq> Some current_head \<or>
               list_ex (\<lambda>b. \<not> canonical_has (eth_canonical st) b) old
            then Inl EthReorgDoesNotMatchCanonicalSuffix
            else case (case eth_finalized st of
                         None \<Rightarrow> None
                       | Some f \<Rightarrow> if list_ex (\<lambda>b. blk_hash b = f) old then Some f else None) of
                Some f \<Rightarrow> Inl (EthFinalizedReversalCritical f)
              | None \<Rightarrow>
                  if list_ex (canonical_has (eth_canonical st)) new
                  then Inl EthReplacementAlreadyCanonical else Inr ()))))"

definition eth_clear_safe :: "ethereum_canonicality \<Rightarrow> ethereum_canonicality" where
  "eth_clear_safe st =
     (case eth_safe st of
        None \<Rightarrow> st
      | Some s \<Rightarrow> if s |\<in>| fmran (eth_canonical st) then st else st\<lparr>eth_safe := None\<rparr>)"

definition eth_reorg ::
  "execution_block list \<Rightarrow> execution_block list \<Rightarrow> ethereum_canonicality \<Rightarrow>
   ((ethereum_error + ethereum_revision list) \<times> ethereum_canonicality) option" where
  "eth_reorg old new st =
     (case eth_reorg_guard old new st of
        Inl e \<Rightarrow> Some (Inl e, st)
      | Inr _ \<Rightarrow>
          (case emit_loop eth_remove_body (rev old) st of
             None \<Rightarrow> None
           | Some (rs1, st1) \<Rightarrow>
               (case emit_loop eth_insert_body new st1 of
                  None \<Rightarrow> None
                | Some (rs2, st2) \<Rightarrow>
                    Some (Inr (rs1 @ rs2),
                      eth_clear_safe (st2\<lparr>eth_head := map_option blk_hash (last_opt new)\<rparr>)))))"

text \<open>
  A checkpoint that replaces an earlier one: \<open>previous\<close> is left behind unless it is the same
  hash. The result says whether the code rejects the move.
\<close>

definition eth_regresses ::
  "digest option \<Rightarrow> execution_block \<Rightarrow> ethereum_canonicality \<Rightarrow> (ethereum_error + digest option) option" where
  "eth_regresses previous b st =
     (case previous of
        None \<Rightarrow> Some (Inr None)
      | Some p \<Rightarrow>
          if p = blk_hash b then Some (Inr None)
          else (case eth_is_ancestor st p (blk_hash b) of
                  None \<Rightarrow> None
                | Some False \<Rightarrow> Some (Inr (Some p))
                | Some True \<Rightarrow>
                    (case eth_block st p of
                       Inl e \<Rightarrow> Some (Inl e)
                     | Inr pb \<Rightarrow> Some (Inr (if blk_number b \<le> blk_number pb then Some p else None)))))"

text \<open>The three-way test of the checkpoint's ancestry, evaluated from left to right.\<close>

definition eth_ancestry_ok ::
  "execution_block \<Rightarrow> execution_block \<Rightarrow> execution_block \<Rightarrow> ethereum_canonicality \<Rightarrow> bool option" where
  "eth_ancestry_ok hb safe fin st =
     (case eth_is_ancestor st (blk_hash fin) (blk_hash safe) of
        None \<Rightarrow> None
      | Some False \<Rightarrow> Some False
      | Some True \<Rightarrow>
          (case eth_is_ancestor st (blk_hash safe) (blk_hash hb) of
             None \<Rightarrow> None
           | Some False \<Rightarrow> Some False
           | Some True \<Rightarrow> Some (eth_head st = Some (blk_hash hb))))"

definition eth_set_safe ::
  "execution_block \<Rightarrow> string \<Rightarrow> ethereum_canonicality \<Rightarrow> (ethereum_revision list \<times> ethereum_canonicality) option" where
  "eth_set_safe b source st =
     (if eth_safe st = Some (blk_hash b) then Some ([], st)
      else map_option (\<lambda>(r, st'). ([r], st'))
        (eth_next_revision b EthSafe (Some source) (st\<lparr>eth_safe := Some (blk_hash b)\<rparr>)))"

definition eth_set_finalized ::
  "execution_block \<Rightarrow> string \<Rightarrow> ethereum_canonicality \<Rightarrow> (ethereum_revision list \<times> ethereum_canonicality) option" where
  "eth_set_finalized b source st =
     (if eth_finalized st = Some (blk_hash b) then Some ([], st)
      else map_option (\<lambda>(r, st'). ([r], st'))
        (eth_next_revision b EthFinalized (Some source) (st\<lparr>eth_finalized := Some (blk_hash b)\<rparr>)))"

definition eth_observe_checkpoint ::
  "ethereum_checkpoint \<Rightarrow> ethereum_canonicality \<Rightarrow>
   ((ethereum_error + ethereum_revision list) \<times> ethereum_canonicality) option" where
  "eth_observe_checkpoint cp st =
     (case and_then (eth_canonical_block st (cp_head cp)) (\<lambda>hb.
           and_then (eth_canonical_block st (cp_safe cp)) (\<lambda>safe.
           and_then (eth_canonical_block st (cp_finalized cp)) (\<lambda>fin. Inr (hb, safe, fin)))) of
        Inl e \<Rightarrow> Some (Inl e, st)
      | Inr (hb, safe, fin) \<Rightarrow>
          (case eth_ancestry_ok hb safe fin st of
             None \<Rightarrow> None
           | Some False \<Rightarrow> Some (Inl EthInvalidCheckpointAncestry, st)
           | Some True \<Rightarrow>
               (case eth_regresses (eth_finalized st) fin st of
                  None \<Rightarrow> None
                | Some (Inl e) \<Rightarrow> Some (Inl e, st)
                | Some (Inr (Some p)) \<Rightarrow> Some (Inl (EthFinalizedReversalCritical p), st)
                | Some (Inr None) \<Rightarrow>
                    (case eth_regresses (eth_safe st) safe st of
                       None \<Rightarrow> None
                     | Some (Inl e) \<Rightarrow> Some (Inl e, st)
                     | Some (Inr (Some p)) \<Rightarrow> Some (Inl EthSafeCheckpointRegression, st)
                     | Some (Inr None) \<Rightarrow>
                         (case eth_set_safe safe (cp_source_id cp) st of
                            None \<Rightarrow> None
                          | Some (rs1, st1) \<Rightarrow>
                              (case eth_set_finalized fin (cp_source_id cp) st1 of
                                 None \<Rightarrow> None
                               | Some (rs2, st2) \<Rightarrow> Some (Inr (rs1 @ rs2), st2)))))))"

section \<open>The loops\<close>

definition eth_core :: "ethereum_canonicality \<Rightarrow> chain_core" where
  "eth_core st = \<lparr>core_blocks = eth_blocks st, core_canonical = eth_canonical st,
     core_head = eth_head st, core_finalized = eth_finalized st\<rparr>"

text \<open>
  \<open>eth_log r0 bs status source rs\<close>: the revisions carry the blocks \<open>bs\<close> in order, all with the
  same status and source, numbered from \<open>r0 + 1\<close>.
\<close>

definition eth_log ::
  "nat \<Rightarrow> execution_block list \<Rightarrow> ethereum_status \<Rightarrow> string option \<Rightarrow> ethereum_revision list \<Rightarrow> bool" where
  "eth_log r0 bs status source rs \<longleftrightarrow> map eth_rev_block rs = bs \<and>
     list_all (\<lambda>r. eth_rev_status r = status \<and> eth_rev_source_id r = source) rs \<and>
     map (\<lambda>r. unat (eth_rev_revision r)) rs = [Suc r0 ..< Suc (r0 + length bs)]"

definition eth_entry :: "ethereum_status \<Rightarrow> execution_block \<Rightarrow> nat \<Rightarrow> ethereum_revision \<Rightarrow> bool" where
  "eth_entry status b n r \<longleftrightarrow> eth_rev_block r = b \<and> eth_rev_status r = status \<and>
     eth_rev_source_id r = None \<and> unat (eth_rev_revision r) = n"

lemma eth_log_entries:
  assumes "length rs = length bs" "\<forall>i < length bs. eth_entry status (bs ! i) (r0 + Suc i) (rs ! i)"
  shows "eth_log r0 bs status None rs"
proof -
  have e: "eth_rev_block (rs ! i) = bs ! i" "eth_rev_status (rs ! i) = status"
    "eth_rev_source_id (rs ! i) = None" "unat (eth_rev_revision (rs ! i)) = r0 + Suc i"
    if "i < length bs" for i
    using assms(2) that by (auto simp: eth_entry_def)
  show ?thesis
    unfolding eth_log_def list_all_length
  proof (intro conjI)
    show "map eth_rev_block rs = bs" by (rule nth_equalityI) (use assms(1) e in simp_all)
    show "map (\<lambda>r. unat (eth_rev_revision r)) rs = [Suc r0 ..< Suc (r0 + length bs)]"
      by (rule nth_equalityI) (use assms(1) e in \<open>simp_all del: upt_Suc\<close>)
  qed (use assms(1) e in simp)
qed

lemma eth_log_length: "eth_log r0 bs status source rs \<Longrightarrow> length rs = length bs"
  unfolding eth_log_def by (metis length_map)

lemma eth_log_status: "eth_log r0 bs status source rs \<Longrightarrow> map eth_rev_status rs = replicate (length bs) status"
proof -
  assume log: "eth_log r0 bs status source rs"
  have "map eth_rev_status xs = replicate (length xs) status"
    if "list_all (\<lambda>r. eth_rev_status r = status \<and> eth_rev_source_id r = source) xs" for xs
    using that by (induction xs) auto
  from this [of rs] log eth_log_length [OF log] show ?thesis by (simp add: eth_log_def)
qed

lemma eth_log_revisions:
  assumes "eth_log r0 xs s1 src1 rs1" "eth_log (r0 + length xs) ys s2 src2 rs2"
  shows "map (\<lambda>r. unat (eth_rev_revision r)) (rs1 @ rs2) = [Suc r0 ..< Suc (r0 + length (rs1 @ rs2))]"
  using assms upt_add_eq_append [of "Suc r0" "Suc (r0 + length xs)" "length ys"]
  by (simp add: eth_log_def eth_log_length [OF assms(1)] eth_log_length [OF assms(2)] add.assoc del: upt_Suc)

lemma eth_next_revision_iff:
  "eth_next_revision b status source st = Some (r, st') \<longleftrightarrow>
     unat (eth_revision st) + 1 < 2 ^ 64 \<and>
     r = \<lparr>eth_rev_block = b, eth_rev_status = status, eth_rev_revision = eth_revision st + 1,
       eth_rev_source_id = source\<rparr> \<and> st' = st\<lparr>eth_revision := eth_revision st + 1\<rparr>"
  by (auto simp: eth_next_revision_def checked_add_def)

definition eth_counter :: "ethereum_canonicality \<Rightarrow> nat" where
  "eth_counter st = unat (eth_revision st)"

text \<open>What the loops leave of the core, with the safe checkpoint carried along.\<close>

definition eth_view :: "ethereum_canonicality \<Rightarrow> chain_core \<times> digest option" where
  "eth_view st = (eth_core st, eth_safe st)"

definition on_core :: "('b \<Rightarrow> chain_core \<Rightarrow> chain_core) \<Rightarrow> 'b \<Rightarrow> chain_core \<times> 'a \<Rightarrow> chain_core \<times> 'a" where
  "on_core f b = map_prod (f b) id"

lemma fold_on_core: "fold (on_core f) bs (c, s) = (fold f bs c, s)"
  by (induction bs arbitrary: c) (simp_all add: on_core_def)

lemmas eth_body_simps = eth_next_revision_iff eth_core_def eth_view_def eth_counter_def eth_entry_def
  on_core_def unat_word_ariths

interpretation eth_remove: emitting_body eth_remove_body eth_view "on_core core_remove" eth_counter
  "eth_entry EthReorged" "2 ^ 64"
  by unfold_locales (auto simp: eth_remove_body_def core_remove_def eth_body_simps)

interpretation eth_insert: emitting_body eth_insert_body eth_view "on_core core_insert" eth_counter
  "eth_entry EthCanonicalHead" "2 ^ 64"
  by unfold_locales (auto simp: eth_insert_body_def core_insert_def eth_body_simps)

interpretation eth_commit: emitting_body eth_commit_body eth_view
  "on_core (\<lambda>b c. (core_insert b c)\<lparr>core_head := Some (blk_hash b)\<rparr>)" eth_counter
  "eth_entry EthCanonicalHead" "2 ^ 64"
  by unfold_locales (auto simp: eth_commit_body_def core_insert_def eth_body_simps)

lemma eth_remove_loop_Some:
  assumes "emit_loop eth_remove_body bs st = Some (rs, st')"
  shows "eth_core st' = fold core_remove bs (eth_core st)" "eth_safe st' = eth_safe st"
    "unat (eth_revision st') = unat (eth_revision st) + length bs"
    "eth_log (unat (eth_revision st)) bs EthReorged None rs"
  using eth_remove.emit_loop_Some [OF assms]
  by (auto simp: eth_view_def fold_on_core eth_counter_def intro!: eth_log_entries)

lemma eth_insert_loop_Some:
  assumes "emit_loop eth_insert_body bs st = Some (rs, st')"
  shows "eth_core st' = fold core_insert bs (eth_core st)" "eth_safe st' = eth_safe st"
    "unat (eth_revision st') = unat (eth_revision st) + length bs"
    "eth_log (unat (eth_revision st)) bs EthCanonicalHead None rs"
  using eth_insert.emit_loop_Some [OF assms]
  by (auto simp: eth_view_def fold_on_core eth_counter_def intro!: eth_log_entries)

section \<open>The operations as steps of the core\<close>

text \<open>When each operation changes the state, and what the change is.\<close>

definition eth_extends_head :: "execution_block list \<Rightarrow> ethereum_canonicality \<Rightarrow> bool" where
  "eth_extends_head bs st \<longleftrightarrow> eth_head st = None \<or>
     (\<exists>h b. eth_head st = Some h \<and> fmlookup (eth_blocks st) h = Some b \<and>
        blk_number (hd bs) = saturating_add (blk_number b) 1 \<and> blk_parent_hash (hd bs) = blk_hash b)"

lemma eth_commit_segment_cases:
  obtains (same) r where "eth_commit_segment bs st = Some (r, st)"
      "r = Inr [] \<and> (bs = [] \<or> list_all (canonical_has (eth_canonical st)) bs) \<or> (\<exists>e. r = Inl e)"
  | (commit) "bs \<noteq> []" "contiguous bs" "eth_extends_head bs st"
      "eth_commit_segment bs st = map_option (map_prod Inr id) (emit_loop eth_commit_body bs st)"
proof (cases "bs = [] \<or> \<not> contiguous bs \<or> list_all (canonical_has (eth_canonical st)) bs")
  case True
  then have "eth_commit_segment bs st = Some (Inr [], st) \<and>
      (bs = [] \<or> list_all (canonical_has (eth_canonical st)) bs) \<or>
    eth_commit_segment bs st = Some (Inl EthDiscontinuousSegment, st)"
    by (cases "contiguous bs") (auto simp: eth_commit_segment_def eth_validate_segment_def)
  then show thesis using same by blast
next
  case False
  define g where "g = (case eth_head st of
      None \<Rightarrow> Inr ()
    | Some h \<Rightarrow> and_then (eth_block st h) (\<lambda>hb.
        if blk_number (hd bs) \<noteq> saturating_add (blk_number hb) 1 \<or> blk_parent_hash (hd bs) \<noteq> blk_hash hb
        then Inl EthSegmentDoesNotExtendHead else Inr ()))"
  have eq: "eth_commit_segment bs st = (case g of Inl e \<Rightarrow> Some (Inl e, st)
      | Inr _ \<Rightarrow> map_option (map_prod Inr id) (emit_loop eth_commit_body bs st))"
    using False by (auto simp: eth_commit_segment_def eth_validate_segment_def g_def
        split: sum.split option.split)
  show thesis
  proof (cases g)
    case (Inl e)
    with eq show thesis by (intro same [of "Inl e"]) auto
  next
    case (Inr u)
    then have "eth_extends_head bs st"
      by (auto simp: g_def eth_extends_head_def eth_block_def rust_result split: option.splits if_splits)
    with Inr eq False show thesis by (intro commit) auto
  qed
qed

lemma eth_commit_loop_core:
  assumes "emit_loop eth_commit_body bs st = Some (rs, st')" "bs \<noteq> []"
  shows "eth_core st' = core_commit bs (eth_core st)" "eth_safe st' = eth_safe st"
    "unat (eth_revision st') = unat (eth_revision st) + length bs"
    "eth_log (unat (eth_revision st)) bs EthCanonicalHead None rs"
  using eth_commit.emit_loop_Some [OF assms(1)]
  by (auto simp: eth_view_def fold_on_core fold_insert_head [OF assms(2)] eth_counter_def
      intro!: eth_log_entries)

lemma eth_reorg_guard_Inr:
  assumes "eth_reorg_guard old new st = Inr u"
  shows "old \<noteq> []" "new \<noteq> []" "contiguous old" "contiguous new"
    "blk_number (hd old) = blk_number (hd new)" "blk_parent_hash (hd old) = blk_parent_hash (hd new)"
    "eth_head st = Some (blk_hash (last old))" "list_all (canonical_has (eth_canonical st)) old"
    "eth_finalized st = Some f \<Longrightarrow> f \<notin> blk_hash ` set old"
    "\<not> list_ex (canonical_has (eth_canonical st)) new"
  using assms
  by (auto simp: eth_reorg_guard_def eth_validate_segment_def rust_result last_opt_def list_all_iff
      list_ex_iff split: if_splits option.splits)

lemma eth_clear_safe_core [simp]:
  "eth_core (eth_clear_safe st) = eth_core st" "eth_revision (eth_clear_safe st) = eth_revision st"
  by (simp_all add: eth_clear_safe_def eth_core_def split: option.split)

lemma eth_reorg_Inr:
  assumes "eth_reorg old new st = Some (Inr rs, st')"
  shows "eth_reorg_guard old new st = Inr ()"
    and "eth_core st' = core_reorg old new (eth_core st)"
    and "unat (eth_revision st') = unat (eth_revision st) + length old + length new"
    and "\<exists>rs1 rs2. rs = rs1 @ rs2 \<and> eth_log (unat (eth_revision st)) (rev old) EthReorged None rs1 \<and>
      eth_log (unat (eth_revision st) + length old) new EthCanonicalHead None rs2"
    and "eth_safe st' = (case eth_safe st of None \<Rightarrow> None
      | Some s \<Rightarrow> if s |\<in>| fmran (eth_canonical st') then Some s else None)"
proof -
  show g: "eth_reorg_guard old new st = Inr ()"
    using assms by (auto simp: eth_reorg_def split: sum.splits)
  then obtain rs1 st1 rs2 st2 where st1: "emit_loop eth_remove_body (rev old) st = Some (rs1, st1)"
    and st2: "emit_loop eth_insert_body new st1 = Some (rs2, st2)" and rs: "rs = rs1 @ rs2"
    and st': "st' = eth_clear_safe (st2\<lparr>eth_head := map_option blk_hash (last_opt new)\<rparr>)"
    using assms by (auto simp: eth_reorg_def split: option.splits)
  note R = eth_remove_loop_Some [OF st1] and I = eth_insert_loop_Some [OF st2]
  have "new \<noteq> []" by (rule eth_reorg_guard_Inr(2) [OF g])
  then have "eth_core (st2\<lparr>eth_head := map_option blk_hash (last_opt new)\<rparr>) =
      (eth_core st2)\<lparr>core_head := Some (blk_hash (last new))\<rparr>"
    by (simp add: eth_core_def last_opt_def)
  with R I show "eth_core st' = core_reorg old new (eth_core st)"
    by (simp add: st' core_reorg_def core_commit_def)
  show "unat (eth_revision st') = unat (eth_revision st) + length old + length new"
    using R I by (simp add: st')
  show "\<exists>rs1 rs2. rs = rs1 @ rs2 \<and> eth_log (unat (eth_revision st)) (rev old) EthReorged None rs1 \<and>
      eth_log (unat (eth_revision st) + length old) new EthCanonicalHead None rs2"
    using R I rs by (intro exI [of _ rs1] exI [of _ rs2]) simp
  show "eth_safe st' = (case eth_safe st of None \<Rightarrow> None
      | Some s \<Rightarrow> if s |\<in>| fmran (eth_canonical st') then Some s else None)"
    using R I by (auto simp: st' eth_clear_safe_def split: option.splits)
qed

lemma eth_reorg_Inl: "eth_reorg old new st = Some (Inl e, st') \<Longrightarrow> st' = st"
  by (auto simp: eth_reorg_def split: sum.splits option.splits)

section \<open>Checkpoints\<close>

lemma eth_canonical_block_Inr:
  "eth_canonical_block st h = Inr b \<longleftrightarrow>
   fmlookup (eth_blocks st) h = Some b \<and> fmlookup (eth_canonical st) (blk_number b) = Some h"
  by (auto simp: eth_canonical_block_def rust_result split: if_splits)

lemma eth_set_safe_Some:
  assumes "eth_set_safe b source st = Some (rs, st')"
  shows "eth_core st' = eth_core st" "eth_safe st' = Some (blk_hash b)"
    "eth_log (unat (eth_revision st)) (if eth_safe st = Some (blk_hash b) then [] else [b]) EthSafe (Some source) rs"
    "unat (eth_revision st') = unat (eth_revision st) + length rs"
  using assms
  by (auto simp: eth_set_safe_def eth_core_def eth_log_def
      eth_next_revision_iff unat_word_ariths split: if_splits)

lemma eth_set_finalized_Some:
  assumes "eth_set_finalized b source st = Some (rs, st')"
  shows "eth_core st' = (eth_core st)\<lparr>core_finalized := Some (blk_hash b)\<rparr>" "eth_safe st' = eth_safe st"
    "eth_log (unat (eth_revision st)) (if eth_finalized st = Some (blk_hash b) then [] else [b])
       EthFinalized (Some source) rs"
    "unat (eth_revision st') = unat (eth_revision st) + length rs"
  using assms
  by (auto simp: eth_set_finalized_def eth_core_def eth_log_def
      eth_next_revision_iff unat_word_ariths split: if_splits)

lemma eth_regresses_None:
  assumes "eth_regresses prev b st = Some (Inr None)" "prev = Some p" "p \<noteq> blk_hash b"
  shows "known_ancestor (eth_blocks st) p (blk_hash b) = Some True"
  using assms by (auto simp: eth_regresses_def eth_is_ancestor_def split: option.splits bool.splits)

lemma eth_observe_checkpoint_Inr:
  assumes "eth_observe_checkpoint cp st = Some (Inr rs, st')"
  obtains hb safe fin where
    "eth_canonical_block st (cp_head cp) = Inr hb" "eth_canonical_block st (cp_safe cp) = Inr safe"
    "eth_canonical_block st (cp_finalized cp) = Inr fin"
    "eth_ancestry_ok hb safe fin st = Some True"
    "eth_regresses (eth_finalized st) fin st = Some (Inr None)"
    "eth_regresses (eth_safe st) safe st = Some (Inr None)"
    "eth_core st' = (eth_core st)\<lparr>core_finalized := Some (blk_hash fin)\<rparr>"
    "eth_safe st' = Some (blk_hash safe)"
    "unat (eth_revision st') = unat (eth_revision st) + length rs"
proof -
  from assms obtain hb safe fin where b: "eth_canonical_block st (cp_head cp) = Inr hb"
      "eth_canonical_block st (cp_safe cp) = Inr safe" "eth_canonical_block st (cp_finalized cp) = Inr fin"
    by (cases "eth_canonical_block st (cp_head cp)"; cases "eth_canonical_block st (cp_safe cp)";
        cases "eth_canonical_block st (cp_finalized cp)") (auto simp: eth_observe_checkpoint_def)
  with assms obtain rs1 st1 rs2 where c: "eth_ancestry_ok hb safe fin st = Some True"
      "eth_regresses (eth_finalized st) fin st = Some (Inr None)"
      "eth_regresses (eth_safe st) safe st = Some (Inr None)"
    and s: "eth_set_safe safe (cp_source_id cp) st = Some (rs1, st1)"
    and f: "eth_set_finalized fin (cp_source_id cp) st1 = Some (rs2, st')" and rs: "rs = rs1 @ rs2"
    by (auto simp: eth_observe_checkpoint_def split: option.splits bool.splits sum.splits)
  note S = eth_set_safe_Some [OF s] and F = eth_set_finalized_Some [OF f]
  show thesis by (rule that [OF b c]) (use S F rs in simp_all)
qed

lemma eth_observe_checkpoint_Inl: "eth_observe_checkpoint cp st = Some (Inl e, st') \<Longrightarrow> st' = st"
  by (auto simp: eth_observe_checkpoint_def split: option.splits bool.splits sum.splits)

section \<open>The tracker contract\<close>

inductive eth_step :: "(digest \<Rightarrow> execution_block option) \<Rightarrow> ethereum_canonicality \<Rightarrow> ethereum_canonicality \<Rightarrow> bool"
  for U where
  step_commit: "authentic U bs \<Longrightarrow> eth_commit_segment bs st = Some (r, st') \<Longrightarrow> eth_step U st st'"
| step_reorg: "authentic U old \<Longrightarrow> authentic U new \<Longrightarrow> eth_reorg old new st = Some (r, st') \<Longrightarrow> eth_step U st st'"
| step_checkpoint: "eth_observe_checkpoint cp st = Some (r, st') \<Longrightarrow> eth_step U st st'"

lemma eth_core_simps [simp]:
  "core_blocks (eth_core st) = eth_blocks st" "core_canonical (eth_core st) = eth_canonical st"
  "core_head (eth_core st) = eth_head st" "core_finalized (eth_core st) = eth_finalized st"
  by (simp_all add: eth_core_def)

lemma eth_commit_core_step:
  assumes "authentic U bs" "eth_commit_segment bs st = Some (r, st')"
  shows "core_step U (eth_core st) (eth_core st')"
proof (cases rule: eth_commit_segment_cases [of bs st])
  case same
  then show ?thesis using assms(2) by (simp add: core_stay)
next
  case commit
  from commit(4) assms(2) obtain rs where "emit_loop eth_commit_body bs st = Some (rs, st')"
    by (cases "emit_loop eth_commit_body bs st") auto
  from eth_commit_loop_core(1) [OF this commit(1)] commit assms(1) show ?thesis
    by (auto simp: eth_extends_head_def intro!: core_extend)
qed

lemma eth_reorg_core_step:
  assumes "authentic U old" "authentic U new" "eth_reorg old new st = Some (r, st')"
  shows "core_step U (eth_core st) (eth_core st')"
proof (cases r)
  case (Inl e)
  with assms(3) show ?thesis by (auto dest: eth_reorg_Inl intro: core_stay)
next
  case (Inr rs)
  with assms(3) have ok: "eth_reorg old new st = Some (Inr rs, st')" by simp
  note G = eth_reorg_guard_Inr [OF eth_reorg_Inr(1) [OF ok]]
  show ?thesis unfolding eth_reorg_Inr(2) [OF ok]
    by (rule core_replace [OF assms(1,2) G(3,4,1,2,5,6)]) (use G in simp_all)
qed

lemma eth_checkpoint_core_step:
  assumes "eth_observe_checkpoint cp st = Some (r, st')"
    and known: "\<And>h b. fmlookup (eth_blocks st) h = Some b \<Longrightarrow> blk_hash b = h"
  shows "core_step U (eth_core st) (eth_core st')"
proof (cases r)
  case (Inl e)
  with assms(1) show ?thesis by (auto dest: eth_observe_checkpoint_Inl intro: core_stay)
next
  case (Inr rs)
  show ?thesis
  proof (rule eth_observe_checkpoint_Inr [OF assms(1) [unfolded Inr]])
    fix fin
    assume "eth_canonical_block st (cp_finalized cp) = Inr fin"
    then have fin: "fmlookup (eth_blocks st) (cp_finalized cp) = Some fin" "cp_finalized cp = blk_hash fin"
      "fmlookup (eth_canonical st) (blk_number fin) = Some (blk_hash fin)"
      using known by (auto simp: eth_canonical_block_Inr)
    assume reg: "eth_regresses (eth_finalized st) fin st = Some (Inr None)"
      and core: "eth_core st' = (eth_core st)\<lparr>core_finalized := Some (blk_hash fin)\<rparr>"
    show ?thesis unfolding core
      by (rule core_finalize [where b = fin])
         (use fin reg eth_regresses_None [OF reg] in \<open>simp_all add: canonical_has_def\<close>)
  qed
qed

interpretation eth_tracker: chain_tracker eth_core "eth_step U" eth_new U for U
proof
  show "eth_core eth_new = core_new"
    by (simp add: eth_core_def eth_new_def core_new_def)
next
  fix st st' ch
  assume view: "chain_view U (eth_core st) ch" and "eth_step U st st'"
  from this(2) show "core_step U (eth_core st) (eth_core st')"
  proof cases
    case step_commit
    then show ?thesis by (rule eth_commit_core_step)
  next
    case step_reorg
    then show ?thesis by (rule eth_reorg_core_step)
  next
    case step_checkpoint
    then show ?thesis
      by (rule eth_checkpoint_core_step) (use chain_viewD(5) [OF view] in simp)
  qed
qed

definition eth_chain :: "ethereum_canonicality \<Rightarrow> execution_block list" where
  "eth_chain st = core_chain (eth_core st)"

abbreviation eth_reachable :: "(digest \<Rightarrow> execution_block option) \<Rightarrow> ethereum_canonicality \<Rightarrow> bool" where
  "eth_reachable U st \<equiv> (eth_step U)\<^sup>*\<^sup>* eth_new st"

lemma eth_reachable_view: "eth_reachable U st \<Longrightarrow> chain_view U (eth_core st) (eth_chain st)"
  unfolding eth_chain_def by (rule eth_tracker.reached_view)

text \<open>Every operation on a reached state returns while revisions are left.\<close>

lemma eth_commit_segment_returns:
  assumes "unat (eth_revision st) + length bs < 2 ^ 64"
  shows "\<exists>r st'. eth_commit_segment bs st = Some (r, st')"
proof (cases rule: eth_commit_segment_cases [of bs st])
  case same
  then show ?thesis by blast
next
  case commit
  then show ?thesis
    using eth_commit.emit_loop_returns [of st bs] assms by (auto simp: eth_counter_def)
qed

lemma eth_reorg_returns:
  assumes "unat (eth_revision st) + length old + length new < 2 ^ 64"
  shows "\<exists>r st'. eth_reorg old new st = Some (r, st')"
proof -
  obtain rs1 st1 where r: "emit_loop eth_remove_body (rev old) st = Some (rs1, st1)"
    using eth_remove.emit_loop_returns [of st "rev old"] assms by (auto simp: eth_counter_def)
  from eth_remove_loop_Some(3) [OF r] assms obtain rs2 st2 where "emit_loop eth_insert_body new st1 = Some (rs2, st2)"
    using eth_insert.emit_loop_returns [of st1 new] by (auto simp: eth_counter_def)
  with r show ?thesis by (auto simp: eth_reorg_def split: sum.split)
qed

lemma eth_is_ancestor_returns:
  assumes "chain_view U (eth_core st) ch" "d \<in> set ch"
  shows "eth_is_ancestor st a (blk_hash d) \<noteq> None"
proof (cases "fmlookup (eth_blocks st) a")
  case None
  then show ?thesis by (simp add: eth_is_ancestor_def known_ancestor_def)
next
  case (Some ab)
  then show ?thesis
    using known_ancestor_chain [OF assms, of a ab] by (simp add: eth_is_ancestor_def)
qed

lemma eth_canonical_block_chain:
  assumes "chain_view U (eth_core st) ch" "eth_canonical_block st h = Inr b"
  shows "b \<in> set ch" "blk_hash b = h"
proof -
  from assms(2) have b: "fmlookup (eth_blocks st) h = Some b"
    "fmlookup (eth_canonical st) (blk_number b) = Some h" by (simp_all add: eth_canonical_block_Inr)
  from chain_viewD(5) [OF assms(1), of h b] b(1) show h: "blk_hash b = h" by simp
  from chain_viewD(5) [OF assms(1), of h b] b(1) have "U (blk_hash b) = Some b" by simp
  with canonical_has_iff [OF assms(1), of b] b h show "b \<in> set ch" by (simp add: canonical_has_def)
qed

lemma eth_observe_checkpoint_returns:
  assumes view: "chain_view U (eth_core st) ch" and "unat (eth_revision st) + 2 < 2 ^ 64"
  shows "\<exists>r st'. eth_observe_checkpoint cp st = Some (r, st')"
proof -
  define bl where "bl = and_then (eth_canonical_block st (cp_head cp)) (\<lambda>hb.
           and_then (eth_canonical_block st (cp_safe cp)) (\<lambda>safe.
           and_then (eth_canonical_block st (cp_finalized cp)) (\<lambda>fin. Inr (hb, safe, fin))))"
  show ?thesis
  proof (cases bl)
    case (Inl e)
    then show ?thesis by (simp add: eth_observe_checkpoint_def bl_def)
  next
    case (Inr x)
    then obtain hb safe fin where x: "x = (hb, safe, fin)" and "hb \<in> set ch" "safe \<in> set ch" "fin \<in> set ch"
      by (auto simp: bl_def rust_result dest: eth_canonical_block_chain [OF view])
    then have anc: "\<exists>a. eth_ancestry_ok hb safe fin st = Some a"
      and reg: "\<exists>a. eth_regresses (eth_finalized st) fin st = Some a"
        "\<exists>a. eth_regresses (eth_safe st) safe st = Some a"
      by (auto simp: eth_ancestry_ok_def eth_regresses_def eth_is_ancestor_returns [OF view]
          split: option.split bool.split sum.split)
    have "\<exists>y. eth_set_safe safe src st = Some y" for src
      using assms(2) by (auto simp: eth_set_safe_def eth_next_revision_def checked_add_def)
    then obtain rs1 st1 where s: "eth_set_safe safe (cp_source_id cp) st = Some (rs1, st1)"
      by (metis surj_pair)
    from eth_set_safe_Some(3,4) [OF s] have "unat (eth_revision st1) + 1 < 2 ^ 64"
      using assms(2) by (auto simp: eth_log_def split: if_splits)
    then have "\<exists>y. eth_set_finalized fin (cp_source_id cp) st1 = Some y"
      by (auto simp: eth_set_finalized_def eth_next_revision_def checked_add_def)
    with anc reg s Inr x show ?thesis
      by (auto simp: eth_observe_checkpoint_def bl_def split: bool.split sum.split option.split)
  qed
qed

lemma eth_step_safe:
  assumes view: "chain_view U (eth_core st) ch" and step: "eth_step U st st'"
    and safe: "\<And>s. eth_safe st = Some s \<Longrightarrow> s |\<in>| fmran (eth_canonical st)" and s: "eth_safe st' = Some s"
  shows "s |\<in>| fmran (eth_canonical st')"
  using step
proof cases
  case (step_commit bs r)
  show ?thesis
  proof (cases rule: eth_commit_segment_cases [of bs st])
    case same
    then show ?thesis using step_commit safe s by simp
  next
    case commit
    from commit(4) step_commit(2) obtain rs where rs: "emit_loop eth_commit_body bs st = Some (rs, st')"
      by (cases "emit_loop eth_commit_body bs st") auto
    note C = eth_commit_loop_core [OF rs commit(1)]
    have "chain_view U (eth_core st') (ch @ bs)"
      unfolding C(1) using commit(2,3) by (intro chain_view_extend [OF view step_commit(1) _ commit(1)])
        (auto simp: eth_extends_head_def)
    moreover obtain n where "fmlookup (eth_canonical st) n = Some s"
      using safe [of s] C(2) s by (auto simp: fmlookup_ran_iff)
    then have "\<exists>b \<in> set ch. blk_number b = n \<and> blk_hash b = s" using chain_viewD(2) [OF view, of n s] by simp
    ultimately have "fmlookup (eth_canonical st') n = Some s"
      using chain_viewD(2) [of U "eth_core st'" "ch @ bs" n s] by auto
    then show ?thesis by (rule fmranI)
  qed
next
  case (step_reorg old new r)
  show ?thesis
  proof (cases r)
    case (Inl e)
    then show ?thesis using step_reorg eth_reorg_Inl safe s by blast
  next
    case (Inr rs)
    from eth_reorg_Inr(5) [OF step_reorg(3) [unfolded Inr]] s show ?thesis
      by (auto split: option.splits if_splits)
  qed
next
  case (step_checkpoint cp r)
  show ?thesis
  proof (cases r)
    case (Inl e)
    then show ?thesis using step_checkpoint eth_observe_checkpoint_Inl safe s by blast
  next
    case (Inr rs)
    show ?thesis
    proof (rule eth_observe_checkpoint_Inr [OF step_checkpoint [unfolded Inr]])
      fix b fin
      assume "eth_canonical_block st (cp_safe cp) = Inr b"
        and core: "eth_core st' = (eth_core st)\<lparr>core_finalized := Some (blk_hash fin)\<rparr>"
        and "eth_safe st' = Some (blk_hash b)"
      then have "fmlookup (eth_canonical st) (blk_number b) = Some s"
        using eth_canonical_block_chain(2) [OF view] s by (auto simp: eth_canonical_block_Inr)
      moreover have "eth_canonical st' = eth_canonical st"
        using arg_cong [OF core, of core_canonical] by simp
      ultimately show ?thesis by (auto intro: fmranI)
    qed
  qed
qed

lemma eth_safe_canonical:
  assumes "eth_reachable U st" "eth_safe st = Some s"
  shows "s \<in> blk_hash ` set (eth_chain st)"
proof -
  have "\<forall>s. eth_safe st = Some s \<longrightarrow> s |\<in>| fmran (eth_canonical st)"
    using assms(1)
  proof (induction rule: rtranclp_induct)
    case base
    show ?case by (simp add: eth_new_def)
  next
    case (step st st')
    then show ?case using eth_step_safe [OF eth_reachable_view [OF step.hyps(1)] step.hyps(2)] by blast
  qed
  then obtain n where "fmlookup (eth_canonical st) n = Some s"
    using assms(2) by (auto dest!: fmlookup_ran_iff [THEN iffD1])
  then show ?thesis using chain_viewD(2) [OF eth_reachable_view [OF assms(1)], of n s] by auto
qed

section \<open>Properties\<close>

lemmas eth_eval = exec_block_def sample_chain_def sample_fork_def sample_universe_def authentic_def
  eth_new_def eth_commit_segment_def eth_validate_segment_def eth_next_revision_def checked_add_def
  saturating_add_def canonical_has_def eth_commit_body_def
  eth_remove_body_def eth_insert_body_def eth_observe_checkpoint_def eth_canonical_block_def
  eth_ancestry_ok_def eth_is_ancestor_def known_ancestor_def walk_down.simps eth_regresses_def
  eth_set_safe_def eth_set_finalized_def eth_reorg_def eth_reorg_guard_def eth_clear_safe_def
  last_opt_def eth_block_def

definition eth_sample_committed :: ethereum_canonicality where
  "eth_sample_committed = snd (the (eth_commit_segment sample_chain eth_new))"

definition eth_sample_final :: ethereum_canonicality where
  "eth_sample_final = snd (the (eth_observe_checkpoint
     \<lparr>cp_head = 2, cp_safe = 1, cp_finalized = 1, cp_source_id = ''beacon''\<rparr> eth_sample_committed))"

definition eth_sample_forked :: ethereum_canonicality where
  "eth_sample_forked = snd (the (eth_reorg [exec_block 2 2 1] sample_fork eth_sample_final))"

lemma eth_sample_committed_eq:
  "eth_commit_segment sample_chain eth_new = Some (Inr
     [\<lparr>eth_rev_block = exec_block 1 1 0, eth_rev_status = EthCanonicalHead, eth_rev_revision = 1, eth_rev_source_id = None\<rparr>,
      \<lparr>eth_rev_block = exec_block 2 2 1, eth_rev_status = EthCanonicalHead, eth_rev_revision = 2, eth_rev_source_id = None\<rparr>],
     \<lparr>eth_blocks = fmupd 2 (exec_block 2 2 1) (fmupd 1 (exec_block 1 1 0) fmempty),
      eth_canonical = fmupd 2 2 (fmupd 1 1 fmempty), eth_head = Some 2, eth_safe = None,
      eth_finalized = None, eth_revision = 2\<rparr>)"
  by (simp add: eth_eval)

lemma eth_sample_final_eq:
  "eth_observe_checkpoint \<lparr>cp_head = 2, cp_safe = 1, cp_finalized = 1, cp_source_id = ''beacon''\<rparr>
     eth_sample_committed = Some (Inr
     [\<lparr>eth_rev_block = exec_block 1 1 0, eth_rev_status = EthSafe, eth_rev_revision = 3,
        eth_rev_source_id = Some ''beacon''\<rparr>,
      \<lparr>eth_rev_block = exec_block 1 1 0, eth_rev_status = EthFinalized, eth_rev_revision = 4,
        eth_rev_source_id = Some ''beacon''\<rparr>],
     \<lparr>eth_blocks = fmupd 2 (exec_block 2 2 1) (fmupd 1 (exec_block 1 1 0) fmempty),
      eth_canonical = fmupd 2 2 (fmupd 1 1 fmempty), eth_head = Some 2, eth_safe = Some 1,
      eth_finalized = Some 1, eth_revision = 4\<rparr>)"
  unfolding eth_sample_committed_def eth_sample_committed_eq by (simp add: eth_eval)

lemma eth_sample_forked_eq:
  "\<exists>rs. eth_reorg [exec_block 2 2 1] sample_fork eth_sample_final = Some (Inr rs, eth_sample_forked)"
  unfolding eth_sample_forked_def eth_sample_final_def eth_sample_final_eq by (simp add: eth_eval)

lemma eth_sample_reachable:
  "eth_reachable sample_universe eth_sample_final" "eth_step sample_universe eth_sample_final eth_sample_forked"
proof -
  have "eth_step sample_universe eth_new eth_sample_committed"
    by (rule step_commit [OF sample_authentic(1)])
       (simp only: eth_sample_committed_def eth_sample_committed_eq option.sel snd_conv)
  moreover have "eth_step sample_universe eth_sample_committed eth_sample_final"
    using eth_sample_final_eq by (auto simp: eth_sample_final_def intro: step_checkpoint)
  ultimately show "eth_reachable sample_universe eth_sample_final" by (auto intro: rtranclp.intros)
  show "eth_step sample_universe eth_sample_final eth_sample_forked"
    using eth_sample_forked_eq step_reorg [OF sample_authentic(3,2)] by blast
qed

text \<open>C6: finality is permanent. Whatever sequence of commits, reorganisations and checkpoints
  follows a reached state, the canonical chain up to and including its finalized block stays, block
  for block, the beginning of the finalized part of every later state.\<close>

theorem eth_finalized_prefix_is_permanent:
  assumes "eth_reachable U st" "(eth_step U)\<^sup>*\<^sup>* st st'"
  shows "prefix (final_prefix (eth_chain st) (eth_finalized st))
    (final_prefix (eth_chain st') (eth_finalized st'))"
  using eth_tracker.finalized_prefix_kept [OF assms] by (simp add: eth_chain_def)

theorem eth_finalized_prefix_is_permanent_witness:
  "prefix (final_prefix (eth_chain eth_sample_final) (eth_finalized eth_sample_final))
    (final_prefix (eth_chain eth_sample_forked) (eth_finalized eth_sample_forked))"
  by (rule eth_finalized_prefix_is_permanent [OF eth_sample_reachable(1)])
     (use eth_sample_reachable(2) in blast)

text \<open>the canonical map of a reached state is one chain of blocks: consecutive numbers, each
  block the child of the one before, ending at the head, and the safe and finalized checkpoints are
  blocks of it.\<close>

theorem eth_canonical_map_is_linked_chain:
  assumes "eth_reachable U st"
  shows "linked (eth_chain st) \<and>
    (\<forall>n h. fmlookup (eth_canonical st) n = Some h \<longleftrightarrow>
       (\<exists>b \<in> set (eth_chain st). blk_number b = n \<and> blk_hash b = h)) \<and>
    eth_head st = map_option blk_hash (last_opt (eth_chain st)) \<and>
    (\<forall>h. eth_safe st = Some h \<or> eth_finalized st = Some h \<longrightarrow> h \<in> blk_hash ` set (eth_chain st))"
  using chain_viewD [OF eth_reachable_view [OF assms]] eth_safe_canonical [OF assms] by simp

theorem eth_canonical_map_is_linked_chain_witness:
  "linked (eth_chain eth_sample_final) \<and>
    eth_head eth_sample_final = map_option blk_hash (last_opt (eth_chain eth_sample_final))"
  using eth_canonical_map_is_linked_chain [OF eth_sample_reachable(1)] by simp

text \<open>C7: on a reached state the ancestry test always returns when asked about a canonical
  descendant, and answers whether the first block is a canonical block at or below it.\<close>

theorem eth_is_ancestor_decides_ancestry:
  assumes "eth_reachable U st" "d \<in> set (eth_chain st)" "fmlookup (eth_blocks st) h = Some a"
  shows "eth_is_ancestor st h (blk_hash d) = Some (a \<in> set (eth_chain st) \<and> blk_number a \<le> blk_number d)"
  using known_ancestor_chain [OF eth_reachable_view [OF assms(1)] assms(2)] assms(3)
  by (simp add: eth_is_ancestor_def)

theorem eth_is_ancestor_decides_ancestry_witness:
  "eth_is_ancestor eth_sample_final 1 2 = Some True"
proof -
  have ch: "eth_chain eth_sample_final = [exec_block 1 1 0, exec_block 2 2 1]"
    unfolding eth_chain_def eth_core_def core_chain_def eth_sample_final_def eth_sample_final_eq
    by (simp add: sorted_list_of_fset.rep_eq word_le_nat_alt)
  have "eth_is_ancestor eth_sample_final 1 (blk_hash (exec_block 2 2 1)) =
      Some (exec_block 1 1 0 \<in> set (eth_chain eth_sample_final) \<and>
        blk_number (exec_block 1 1 0) \<le> blk_number (exec_block 2 2 1))"
    by (rule eth_is_ancestor_decides_ancestry [OF eth_sample_reachable(1)])
       (unfold ch, simp_all add: eth_sample_final_def eth_sample_final_eq)
  then show ?thesis unfolding ch by (simp add: exec_block_def)
qed

text \<open>every operation on a reached state returns as long as revision numbers are left for
  what it may emit, and an operation that fails leaves the tracker as it was.\<close>

theorem eth_operations_return_and_fail_atomically:
  assumes "eth_reachable U st"
    and "unat (eth_revision st) + length bs + length old + length new + 2 < 2 ^ 64"
  shows "(\<exists>r st'. eth_commit_segment bs st = Some (r, st') \<and> (isl r \<longrightarrow> st' = st)) \<and>
    (\<exists>r st'. eth_reorg old new st = Some (r, st') \<and> (isl r \<longrightarrow> st' = st)) \<and>
    (\<exists>r st'. eth_observe_checkpoint cp st = Some (r, st') \<and> (isl r \<longrightarrow> st' = st))"
proof (intro conjI)
  show "\<exists>r st'. eth_commit_segment bs st = Some (r, st') \<and> (isl r \<longrightarrow> st' = st)"
  proof (cases rule: eth_commit_segment_cases [of bs st])
    case commit
    then show ?thesis using eth_commit_segment_returns [of st bs] assms(2) by auto
  qed blast
  show "\<exists>r st'. eth_reorg old new st = Some (r, st') \<and> (isl r \<longrightarrow> st' = st)"
    using eth_reorg_returns [of st old new] assms(2) eth_reorg_Inl by (fastforce simp: isl_def)
  show "\<exists>r st'. eth_observe_checkpoint cp st = Some (r, st') \<and> (isl r \<longrightarrow> st' = st)"
    using eth_observe_checkpoint_returns [OF eth_reachable_view [OF assms(1)], of cp] assms(2)
      eth_observe_checkpoint_Inl by (fastforce simp: isl_def)
qed

theorem eth_operations_return_and_fail_atomically_witness:
  "\<exists>r st'. eth_reorg sample_fork sample_fork eth_sample_final = Some (r, st')"
proof -
  have "unat (eth_revision eth_sample_final) + length [] + length sample_fork + length sample_fork + 2 < 2 ^ 64"
    by (simp add: sample_fork_def eth_sample_final_def eth_sample_final_eq)
  from eth_operations_return_and_fail_atomically [OF eth_sample_reachable(1) this] show ?thesis by blast
qed

text \<open>a reorganisation reports the removed blocks from the tip down as reorged, then the new
  blocks from the ancestor up as canonical, under consecutive revision numbers, and replaces
  exactly the removed suffix of the canonical chain.\<close>

theorem eth_reorg_reports_and_replaces_suffix:
  assumes "eth_reachable U st" "authentic U old" "authentic U new"
    and "eth_reorg old new st = Some (Inr rs, st')"
  shows "(\<exists>p. eth_chain st = p @ old \<and> eth_chain st' = p @ new) \<and>
    map eth_rev_block rs = rev old @ new \<and>
    map eth_rev_status rs = replicate (length old) EthReorged @ replicate (length new) EthCanonicalHead \<and>
    map (\<lambda>r. unat (eth_rev_revision r)) rs =
      [Suc (unat (eth_revision st)) ..< Suc (unat (eth_revision st) + length rs)]"
proof -
  note R = eth_reorg_Inr [OF assms(4)]
  note G = eth_reorg_guard_Inr [OF R(1)]
  have view: "chain_view U (eth_core st) (eth_chain st)" by (rule eth_reachable_view [OF assms(1)])
  have "\<exists>p. eth_chain st = p @ old \<and> eth_chain st' = p @ new"
  proof (rule chain_view_replace [OF view assms(2) G(3,1) assms(3) G(4,2,5,6)])
    fix p
    assume "eth_chain st = p @ old" "chain_view U (core_reorg old new (eth_core st)) (p @ new)"
    then show ?thesis
      using chain_view_core_chain [of U "eth_core st'" "p @ new"] R(2) by (auto simp: eth_chain_def)
  qed (use G in simp_all)
  moreover from R(4) obtain rs1 rs2 where rs: "rs = rs1 @ rs2"
    and log: "eth_log (unat (eth_revision st)) (rev old) EthReorged None rs1"
      "eth_log (unat (eth_revision st) + length old) new EthCanonicalHead None rs2" by blast
  moreover have "map eth_rev_block rs1 = rev old" "map eth_rev_block rs2 = new"
    using log by (simp_all add: eth_log_def)
  ultimately show ?thesis
    using eth_log_status [OF log(1)] eth_log_status [OF log(2)] eth_log_revisions [OF log(1), of new] log(2)
    by (simp del: upt_Suc)
qed

theorem eth_reorg_reports_and_replaces_suffix_witness:
  "\<exists>rs. eth_reorg [exec_block 2 2 1] sample_fork eth_sample_final = Some (Inr rs, eth_sample_forked) \<and>
     map eth_rev_block rs = [exec_block 2 2 1, exec_block 2 3 1, exec_block 3 4 3]"
proof -
  obtain rs where rs: "eth_reorg [exec_block 2 2 1] sample_fork eth_sample_final = Some (Inr rs, eth_sample_forked)"
    using eth_sample_forked_eq by blast
  from eth_reorg_reports_and_replaces_suffix [OF eth_sample_reachable(1) sample_authentic(3,2) rs] rs show ?thesis
    by (simp add: sample_fork_def)
qed

end
