(* ===== verification/Bsc_Canonicality.thy ===== *)
theory Bsc_Canonicality
  imports Execution_Chain
begin

text \<open>
  The BSC tracker of \<open>processors/evm-canonicality/src/lib.rs\<close>: canonical execution segments with
  a separate fast-finality adapter. As for Ethereum, \<open>None\<close> is an operation that does not return.
\<close>

section \<open>Data\<close>

datatype bsc_error =
    BscEmptySourceId
  | BscInvalidObservationTime
  | BscObservationTimeRegression
  | BscDiscontinuousSegment
  | BscSegmentDoesNotExtendHead
  | BscUnknownBlock digest
  | BscBlockNotCanonical digest
  | BscInvalidFinalizedAncestry
  | BscFinalizedRegression digest digest
  | BscEmptyReorgSegment
  | BscReorgAncestorMismatch
  | BscReorgDoesNotMatchCanonicalSuffix
  | BscFinalizedReversalCritical digest

record bsc_finality_observation =
  obs_finalized :: digest
  obs_head :: digest
  obs_source_id :: string
  obs_observed_at_unix_ms :: u64

definition bsc_finality_observation_new ::
  "digest \<Rightarrow> digest \<Rightarrow> string \<Rightarrow> u64 \<Rightarrow> bsc_error + bsc_finality_observation" where
  "bsc_finality_observation_new fin hd_hash source at =
     (if str_blank source \<or> \<not> str_is_ascii source then Inl BscEmptySourceId
      else if at = 0 then Inl BscInvalidObservationTime
      else Inr \<lparr>obs_finalized = fin, obs_head = hd_hash, obs_source_id = source,
        obs_observed_at_unix_ms = at\<rparr>)"

datatype bsc_finality_status = FinalityUnknown | FinalityHealthy | FinalityStalled

record bsc_revision =
  bsc_rev_block :: execution_block
  bsc_rev_status :: bsc_status
  bsc_rev_revision :: u64
  bsc_rev_source_id :: "string option"

record bsc_canonicality =
  bsc_blocks :: known_blocks
  bsc_canonical :: canonical_map
  bsc_head :: "digest option"
  bsc_finalized :: "digest option"
  bsc_revision_counter :: u64
  last_observed_at_unix_ms :: "u64 option"
  last_finality_change_at_unix_ms :: "u64 option"

definition bsc_new :: bsc_canonicality where
  "bsc_new = \<lparr>bsc_blocks = fmempty, bsc_canonical = fmempty, bsc_head = None, bsc_finalized = None,
     bsc_revision_counter = 0, last_observed_at_unix_ms = None, last_finality_change_at_unix_ms = None\<rparr>"

section \<open>Operations\<close>

definition validate_bsc_segment :: "execution_block list \<Rightarrow> bsc_error + unit" where
  "validate_bsc_segment bs = (if contiguous bs then Inr () else Inl BscDiscontinuousSegment)"

definition bsc_next_revision ::
  "execution_block \<Rightarrow> bsc_status \<Rightarrow> string option \<Rightarrow> bsc_canonicality \<Rightarrow>
   (bsc_revision \<times> bsc_canonicality) option" where
  "bsc_next_revision b status source st =
     (case checked_add (bsc_revision_counter st) 1 of
        None \<Rightarrow> None
      | Some r \<Rightarrow> Some (\<lparr>bsc_rev_block = b, bsc_rev_status = status, bsc_rev_revision = r,
          bsc_rev_source_id = source\<rparr>, st\<lparr>bsc_revision_counter := r\<rparr>))"

definition bsc_block :: "bsc_canonicality \<Rightarrow> digest \<Rightarrow> bsc_error + execution_block" where
  "bsc_block st h = ok_or (fmlookup (bsc_blocks st) h) (BscUnknownBlock h)"

definition bsc_canonical_block :: "bsc_canonicality \<Rightarrow> digest \<Rightarrow> bsc_error + execution_block" where
  "bsc_canonical_block st h =
     and_then (bsc_block st h) (\<lambda>b.
       if fmlookup (bsc_canonical st) (blk_number b) \<noteq> Some h
       then Inl (BscBlockNotCanonical h) else Inr b)"

definition bsc_is_ancestor :: "bsc_canonicality \<Rightarrow> digest \<Rightarrow> digest \<Rightarrow> bool option" where
  "bsc_is_ancestor st ancestor descendant = known_ancestor (bsc_blocks st) ancestor descendant"

definition bsc_commit_body ::
  "execution_block \<Rightarrow> bsc_canonicality \<Rightarrow> (bsc_revision \<times> bsc_canonicality) option" where
  "bsc_commit_body b st = bsc_next_revision b BscCanonicalHead None
     (st\<lparr>bsc_blocks := fmupd (blk_hash b) b (bsc_blocks st),
         bsc_canonical := fmupd (blk_number b) (blk_hash b) (bsc_canonical st),
         bsc_head := Some (blk_hash b)\<rparr>)"

definition bsc_commit_segment ::
  "execution_block list \<Rightarrow> bsc_canonicality \<Rightarrow> ((bsc_error + bsc_revision list) \<times> bsc_canonicality) option" where
  "bsc_commit_segment bs st =
     (if bs = [] then Some (Inr [], st)
      else case validate_bsc_segment bs of
          Inl e \<Rightarrow> Some (Inl e, st)
        | Inr _ \<Rightarrow>
            if list_all (canonical_has (bsc_canonical st)) bs then Some (Inr [], st)
            else (case (case bsc_head st of
                     None \<Rightarrow> Inr ()
                   | Some h \<Rightarrow> and_then (bsc_block st h) (\<lambda>hb.
                       if blk_number (hd bs) \<noteq> saturating_add (blk_number hb) 1 \<or>
                          blk_parent_hash (hd bs) \<noteq> blk_hash hb
                       then Inl BscSegmentDoesNotExtendHead else Inr ())) of
                Inl e \<Rightarrow> Some (Inl e, st)
              | Inr _ \<Rightarrow> map_option (map_prod Inr id) (emit_loop bsc_commit_body bs st)))"

definition bsc_remove_body ::
  "execution_block \<Rightarrow> bsc_canonicality \<Rightarrow> (bsc_revision \<times> bsc_canonicality) option" where
  "bsc_remove_body b st = bsc_next_revision b BscReorged None
     (st\<lparr>bsc_canonical := fmdrop (blk_number b) (bsc_canonical st)\<rparr>)"

definition bsc_insert_body ::
  "execution_block \<Rightarrow> bsc_canonicality \<Rightarrow> (bsc_revision \<times> bsc_canonicality) option" where
  "bsc_insert_body b st = bsc_next_revision b BscCanonicalHead None
     (st\<lparr>bsc_blocks := fmupd (blk_hash b) b (bsc_blocks st),
         bsc_canonical := fmupd (blk_number b) (blk_hash b) (bsc_canonical st)\<rparr>)"

definition bsc_reorg_guard ::
  "execution_block list \<Rightarrow> execution_block list \<Rightarrow> bsc_canonicality \<Rightarrow> bsc_error + unit" where
  "bsc_reorg_guard old new st =
     (if old = [] \<or> new = [] then Inl BscEmptyReorgSegment
      else and_then (validate_bsc_segment old) (\<lambda>_.
        and_then (validate_bsc_segment new) (\<lambda>_.
          if blk_number (hd old) \<noteq> blk_number (hd new) \<or> blk_parent_hash (hd old) \<noteq> blk_parent_hash (hd new)
          then Inl BscReorgAncestorMismatch
          else if map_option blk_hash (last_opt old) \<noteq> bsc_head st \<or>
             list_ex (\<lambda>b. \<not> canonical_has (bsc_canonical st) b) old
          then Inl BscReorgDoesNotMatchCanonicalSuffix
          else case (case bsc_finalized st of
                       None \<Rightarrow> None
                     | Some f \<Rightarrow> if list_ex (\<lambda>b. blk_hash b = f) old then Some f else None) of
              Some f \<Rightarrow> Inl (BscFinalizedReversalCritical f)
            | None \<Rightarrow> Inr ())))"

definition bsc_reorg ::
  "execution_block list \<Rightarrow> execution_block list \<Rightarrow> bsc_canonicality \<Rightarrow>
   ((bsc_error + bsc_revision list) \<times> bsc_canonicality) option" where
  "bsc_reorg old new st =
     (case bsc_reorg_guard old new st of
        Inl e \<Rightarrow> Some (Inl e, st)
      | Inr _ \<Rightarrow>
          (case emit_loop bsc_remove_body (rev old) st of
             None \<Rightarrow> None
           | Some (rs1, st1) \<Rightarrow>
               (case emit_loop bsc_insert_body new st1 of
                  None \<Rightarrow> None
                | Some (rs2, st2) \<Rightarrow>
                    Some (Inr (rs1 @ rs2), st2\<lparr>bsc_head := map_option blk_hash (last_opt new)\<rparr>))))"

text \<open>The test against the previously finalized block.\<close>

definition bsc_regresses :: "execution_block \<Rightarrow> bsc_canonicality \<Rightarrow> (bsc_error + unit) option" where
  "bsc_regresses fin st =
     (case bsc_finalized st of
        None \<Rightarrow> Some (Inr ())
      | Some p \<Rightarrow>
          if p = blk_hash fin then Some (Inr ())
          else (case bsc_block st p of
                  Inl e \<Rightarrow> Some (Inl e)
                | Inr pb \<Rightarrow>
                    if blk_number fin \<le> blk_number pb
                    then Some (Inl (BscFinalizedRegression (blk_hash pb) (blk_hash fin)))
                    else (case bsc_is_ancestor st (blk_hash pb) (blk_hash fin) of
                            None \<Rightarrow> None
                          | Some anc \<Rightarrow>
                              Some (if anc then Inr ()
                                    else Inl (BscFinalizedRegression (blk_hash pb) (blk_hash fin))))))"

definition bsc_observe_finalized ::
  "bsc_finality_observation \<Rightarrow> bsc_canonicality \<Rightarrow> ((bsc_error + bsc_revision) \<times> bsc_canonicality) option" where
  "bsc_observe_finalized obs st =
     (if (case last_observed_at_unix_ms st of None \<Rightarrow> False | Some p \<Rightarrow> obs_observed_at_unix_ms obs \<le> p)
      then Some (Inl BscObservationTimeRegression, st)
      else case and_then (bsc_canonical_block st (obs_head obs)) (\<lambda>hb.
           and_then (bsc_canonical_block st (obs_finalized obs)) (\<lambda>fin. Inr (hb, fin))) of
          Inl e \<Rightarrow> Some (Inl e, st)
        | Inr (hb, fin) \<Rightarrow>
            (case (if bsc_head st \<noteq> Some (blk_hash hb) then Some False
                   else bsc_is_ancestor st (blk_hash fin) (blk_hash hb)) of
               None \<Rightarrow> None
             | Some False \<Rightarrow> Some (Inl BscInvalidFinalizedAncestry, st)
             | Some True \<Rightarrow>
                 (case bsc_regresses fin st of
                    None \<Rightarrow> None
                  | Some (Inl e) \<Rightarrow> Some (Inl e, st)
                  | Some (Inr _) \<Rightarrow>
                      let st1 = st\<lparr>last_observed_at_unix_ms := Some (obs_observed_at_unix_ms obs)\<rparr>;
                          st2 = (if bsc_finalized st1 \<noteq> Some (blk_hash fin)
                                 then st1\<lparr>bsc_finalized := Some (blk_hash fin),
                                   last_finality_change_at_unix_ms := Some (obs_observed_at_unix_ms obs)\<rparr>
                                 else st1)
                      in map_option (map_prod Inr id)
                           (bsc_next_revision fin BscFastFinalized (Some (obs_source_id obs)) st2))))"

definition finality_health :: "bsc_canonicality \<Rightarrow> u64 \<Rightarrow> u64 \<Rightarrow> bsc_finality_status" where
  "finality_health st now maximum_stall_ms =
     (case last_finality_change_at_unix_ms st of
        None \<Rightarrow> FinalityUnknown
      | Some changed_at \<Rightarrow>
          if maximum_stall_ms < saturating_sub now changed_at then FinalityStalled else FinalityHealthy)"

section \<open>The operations as steps of the core\<close>

definition bsc_core :: "bsc_canonicality \<Rightarrow> chain_core" where
  "bsc_core st = \<lparr>core_blocks = bsc_blocks st, core_canonical = bsc_canonical st,
     core_head = bsc_head st, core_finalized = bsc_finalized st\<rparr>"

lemma bsc_core_simps [simp]:
  "core_blocks (bsc_core st) = bsc_blocks st" "core_canonical (bsc_core st) = bsc_canonical st"
  "core_head (bsc_core st) = bsc_head st" "core_finalized (bsc_core st) = bsc_finalized st"
  by (simp_all add: bsc_core_def)

definition bsc_counter :: "bsc_canonicality \<Rightarrow> nat" where
  "bsc_counter st = unat (bsc_revision_counter st)"

definition bsc_entry :: "bsc_status \<Rightarrow> execution_block \<Rightarrow> nat \<Rightarrow> bsc_revision \<Rightarrow> bool" where
  "bsc_entry status b n r \<longleftrightarrow> bsc_rev_block r = b \<and> bsc_rev_status r = status \<and>
     bsc_rev_source_id r = None \<and> unat (bsc_rev_revision r) = n"

lemma bsc_next_revision_iff:
  "bsc_next_revision b status source st = Some (r, st') \<longleftrightarrow>
     bsc_counter st + 1 < 2 ^ 64 \<and>
     r = \<lparr>bsc_rev_block = b, bsc_rev_status = status, bsc_rev_revision = bsc_revision_counter st + 1,
       bsc_rev_source_id = source\<rparr> \<and> st' = st\<lparr>bsc_revision_counter := bsc_revision_counter st + 1\<rparr>"
  by (auto simp: bsc_next_revision_def checked_add_def bsc_counter_def)

lemmas bsc_body_simps = bsc_next_revision_iff bsc_core_def bsc_counter_def bsc_entry_def unat_word_ariths

interpretation bsc_remove: emitting_body bsc_remove_body bsc_core core_remove bsc_counter
  "bsc_entry BscReorged" "2 ^ 64"
  by unfold_locales (auto simp: bsc_remove_body_def core_remove_def bsc_body_simps)

interpretation bsc_insert: emitting_body bsc_insert_body bsc_core core_insert bsc_counter
  "bsc_entry BscCanonicalHead" "2 ^ 64"
  by unfold_locales (auto simp: bsc_insert_body_def core_insert_def bsc_body_simps)

interpretation bsc_commit: emitting_body bsc_commit_body bsc_core
  "\<lambda>b c. (core_insert b c)\<lparr>core_head := Some (blk_hash b)\<rparr>" bsc_counter "bsc_entry BscCanonicalHead" "2 ^ 64"
  by unfold_locales (auto simp: bsc_commit_body_def core_insert_def bsc_body_simps)

definition bsc_extends_head :: "execution_block list \<Rightarrow> bsc_canonicality \<Rightarrow> bool" where
  "bsc_extends_head bs st \<longleftrightarrow> bsc_head st = None \<or>
     (\<exists>h b. bsc_head st = Some h \<and> fmlookup (bsc_blocks st) h = Some b \<and>
        blk_number (hd bs) = saturating_add (blk_number b) 1 \<and> blk_parent_hash (hd bs) = blk_hash b)"

lemma bsc_commit_segment_cases:
  obtains (same) r where "bsc_commit_segment bs st = Some (r, st)"
  | (commit) "bs \<noteq> []" "contiguous bs" "bsc_extends_head bs st"
      "bsc_commit_segment bs st = map_option (map_prod Inr id) (emit_loop bsc_commit_body bs st)"
proof (cases "bs = [] \<or> \<not> contiguous bs \<or> list_all (canonical_has (bsc_canonical st)) bs")
  case True
  then have "bsc_commit_segment bs st = Some (Inr [], st) \<or>
    bsc_commit_segment bs st = Some (Inl BscDiscontinuousSegment, st)"
    by (cases "contiguous bs") (auto simp: bsc_commit_segment_def validate_bsc_segment_def)
  then show thesis using same by blast
next
  case False
  define g where "g = (case bsc_head st of
      None \<Rightarrow> Inr ()
    | Some h \<Rightarrow> and_then (bsc_block st h) (\<lambda>hb.
        if blk_number (hd bs) \<noteq> saturating_add (blk_number hb) 1 \<or> blk_parent_hash (hd bs) \<noteq> blk_hash hb
        then Inl BscSegmentDoesNotExtendHead else Inr ()))"
  have eq: "bsc_commit_segment bs st = (case g of Inl e \<Rightarrow> Some (Inl e, st)
      | Inr _ \<Rightarrow> map_option (map_prod Inr id) (emit_loop bsc_commit_body bs st))"
    using False by (auto simp: bsc_commit_segment_def validate_bsc_segment_def g_def)
  show thesis
  proof (cases g)
    case (Inl e)
    with eq show thesis by (intro same [of "Inl e"]) auto
  next
    case (Inr u)
    then have "bsc_extends_head bs st"
      by (auto simp: g_def bsc_extends_head_def bsc_block_def rust_result split: option.splits if_splits)
    with Inr eq False show thesis by (intro commit) auto
  qed
qed

lemma bsc_reorg_guard_Inr:
  assumes "bsc_reorg_guard old new st = Inr u"
  shows "old \<noteq> []" "new \<noteq> []" "contiguous old" "contiguous new"
    "blk_number (hd old) = blk_number (hd new)" "blk_parent_hash (hd old) = blk_parent_hash (hd new)"
    "bsc_head st = Some (blk_hash (last old))" "list_all (canonical_has (bsc_canonical st)) old"
    "bsc_finalized st = Some f \<Longrightarrow> f \<notin> blk_hash ` set old"
  using assms
  by (auto simp: bsc_reorg_guard_def validate_bsc_segment_def rust_result last_opt_def list_all_iff
      list_ex_iff split: if_splits option.splits)

lemma bsc_reorg_Inr:
  assumes "bsc_reorg old new st = Some (Inr rs, st')"
  shows "bsc_reorg_guard old new st = Inr ()"
    and "bsc_core st' = core_reorg old new (bsc_core st)"
proof -
  show g: "bsc_reorg_guard old new st = Inr ()"
    using assms by (auto simp: bsc_reorg_def split: sum.splits)
  then obtain rs1 st1 rs2 st2 where st1: "emit_loop bsc_remove_body (rev old) st = Some (rs1, st1)"
    and st2: "emit_loop bsc_insert_body new st1 = Some (rs2, st2)"
    and st': "st' = st2\<lparr>bsc_head := map_option blk_hash (last_opt new)\<rparr>"
    using assms by (auto simp: bsc_reorg_def split: option.splits)
  have "bsc_core st' = (bsc_core st2)\<lparr>core_head := Some (blk_hash (last new))\<rparr>"
    using bsc_reorg_guard_Inr(2) [OF g] by (simp add: st' bsc_core_def last_opt_def)
  then show "bsc_core st' = core_reorg old new (bsc_core st)"
    using bsc_remove.emit_loop_Some [OF st1] bsc_insert.emit_loop_Some [OF st2]
    by (simp add: core_reorg_def core_commit_def)
qed

lemma bsc_reorg_Inl: "bsc_reorg old new st = Some (Inl e, st') \<Longrightarrow> st' = st"
  by (auto simp: bsc_reorg_def split: sum.splits option.splits)

lemma bsc_canonical_block_Inr:
  "bsc_canonical_block st h = Inr b \<longleftrightarrow>
   fmlookup (bsc_blocks st) h = Some b \<and> fmlookup (bsc_canonical st) (blk_number b) = Some h"
  by (auto simp: bsc_canonical_block_def bsc_block_def rust_result split: if_splits)

lemma bsc_observe_finalized_Inr:
  assumes "bsc_observe_finalized obs st = Some (Inr r, st')"
  obtains hb fin where "bsc_canonical_block st (obs_head obs) = Inr hb"
    "bsc_canonical_block st (obs_finalized obs) = Inr fin"
    "bsc_regresses fin st = Some (Inr ())"
    "bsc_core st' = (bsc_core st)\<lparr>core_finalized := Some (blk_hash fin)\<rparr>"
    "last_observed_at_unix_ms st' = Some (obs_observed_at_unix_ms obs)"
    "last_finality_change_at_unix_ms st' = (if bsc_finalized st = Some (blk_hash fin)
       then last_finality_change_at_unix_ms st else Some (obs_observed_at_unix_ms obs))"
    "case last_observed_at_unix_ms st of None \<Rightarrow> True | Some p \<Rightarrow> p < obs_observed_at_unix_ms obs"
proof -
  from assms obtain hb fin where b: "bsc_canonical_block st (obs_head obs) = Inr hb"
      "bsc_canonical_block st (obs_finalized obs) = Inr fin"
    by (cases "bsc_canonical_block st (obs_head obs)"; cases "bsc_canonical_block st (obs_finalized obs)")
       (auto simp: bsc_observe_finalized_def split: if_splits)
  from assms have time: "case last_observed_at_unix_ms st of None \<Rightarrow> True | Some p \<Rightarrow> p < obs_observed_at_unix_ms obs"
    by (auto simp: bsc_observe_finalized_def split: if_splits option.splits)
  show thesis
    by (rule that [OF b _ _ _ _ time])
       (use assms b in \<open>auto simp: bsc_observe_finalized_def Let_def bsc_next_revision_iff bsc_core_def
         split: if_splits option.splits bool.splits sum.splits\<close>)
qed

lemma bsc_observe_finalized_Inl: "bsc_observe_finalized obs st = Some (Inl e, st') \<Longrightarrow> st' = st"
  by (auto simp: bsc_observe_finalized_def Let_def split: if_splits option.splits bool.splits sum.splits)

section \<open>The tracker contract\<close>

inductive bsc_step :: "(digest \<Rightarrow> execution_block option) \<Rightarrow> bsc_canonicality \<Rightarrow> bsc_canonicality \<Rightarrow> bool"
  for U where
  bsc_step_commit: "authentic U bs \<Longrightarrow> bsc_commit_segment bs st = Some (r, st') \<Longrightarrow> bsc_step U st st'"
| bsc_step_reorg: "authentic U old \<Longrightarrow> authentic U new \<Longrightarrow> bsc_reorg old new st = Some (r, st') \<Longrightarrow>
    bsc_step U st st'"
| bsc_step_finalized: "bsc_observe_finalized obs st = Some (r, st') \<Longrightarrow> bsc_step U st st'"

lemma bsc_commit_core_step:
  assumes "authentic U bs" "bsc_commit_segment bs st = Some (r, st')"
  shows "core_step U (bsc_core st) (bsc_core st')"
proof (cases rule: bsc_commit_segment_cases [of bs st])
  case same
  then show ?thesis using assms(2) by (simp add: core_stay)
next
  case commit
  from commit(4) assms(2) obtain rs where rs: "emit_loop bsc_commit_body bs st = Some (rs, st')"
    by (cases "emit_loop bsc_commit_body bs st") auto
  have "bsc_core st' = core_commit bs (bsc_core st)"
    using bsc_commit.emit_loop_Some [OF rs] fold_insert_head [OF commit(1)] by simp
  with commit assms(1) show ?thesis by (auto simp: bsc_extends_head_def intro!: core_extend)
qed

lemma bsc_reorg_core_step:
  assumes "authentic U old" "authentic U new" "bsc_reorg old new st = Some (r, st')"
  shows "core_step U (bsc_core st) (bsc_core st')"
proof (cases r)
  case (Inl e)
  with assms(3) show ?thesis by (auto dest: bsc_reorg_Inl intro: core_stay)
next
  case (Inr rs)
  with assms(3) have ok: "bsc_reorg old new st = Some (Inr rs, st')" by simp
  note G = bsc_reorg_guard_Inr [OF bsc_reorg_Inr(1) [OF ok]]
  show ?thesis unfolding bsc_reorg_Inr(2) [OF ok]
    by (rule core_replace [OF assms(1,2) G(3,4,1,2,5,6)]) (use G in simp_all)
qed

lemma bsc_regresses_Inr:
  assumes "bsc_regresses fin st = Some (Inr ())" "bsc_finalized st = Some p" "p \<noteq> blk_hash fin"
    and "\<And>h b. fmlookup (bsc_blocks st) h = Some b \<Longrightarrow> blk_hash b = h"
  shows "known_ancestor (bsc_blocks st) p (blk_hash fin) = Some True"
  using assms
  by (auto simp: bsc_regresses_def bsc_is_ancestor_def bsc_block_def rust_result
      split: option.splits sum.splits if_splits)

lemma bsc_finalized_core_step:
  assumes "bsc_observe_finalized obs st = Some (r, st')"
    and known: "\<And>h b. fmlookup (bsc_blocks st) h = Some b \<Longrightarrow> blk_hash b = h"
  shows "core_step U (bsc_core st) (bsc_core st')"
proof (cases r)
  case (Inl e)
  with assms(1) show ?thesis by (auto dest: bsc_observe_finalized_Inl intro: core_stay)
next
  case (Inr rv)
  show ?thesis
  proof (rule bsc_observe_finalized_Inr [OF assms(1) [unfolded Inr]])
    fix fin
    assume "bsc_canonical_block st (obs_finalized obs) = Inr fin"
    then have fin: "fmlookup (bsc_blocks st) (obs_finalized obs) = Some fin" "obs_finalized obs = blk_hash fin"
      "fmlookup (bsc_canonical st) (blk_number fin) = Some (blk_hash fin)"
      using known by (auto simp: bsc_canonical_block_Inr)
    assume reg: "bsc_regresses fin st = Some (Inr ())"
      and core: "bsc_core st' = (bsc_core st)\<lparr>core_finalized := Some (blk_hash fin)\<rparr>"
    show ?thesis unfolding core
      by (rule core_finalize [where b = fin])
         (use fin bsc_regresses_Inr [OF reg _ _ known] in \<open>simp_all add: canonical_has_def\<close>)
  qed
qed

interpretation bsc_tracker: chain_tracker bsc_core "bsc_step U" bsc_new U for U
proof
  show "bsc_core bsc_new = core_new"
    by (simp add: bsc_core_def bsc_new_def core_new_def)
next
  fix st st' ch
  assume view: "chain_view U (bsc_core st) ch" and "bsc_step U st st'"
  from this(2) show "core_step U (bsc_core st) (bsc_core st')"
  proof cases
    case bsc_step_commit
    then show ?thesis by (rule bsc_commit_core_step)
  next
    case bsc_step_reorg
    then show ?thesis by (rule bsc_reorg_core_step)
  next
    case bsc_step_finalized
    then show ?thesis
      by (rule bsc_finalized_core_step) (use chain_viewD(5) [OF view] in simp)
  qed
qed

definition bsc_chain :: "bsc_canonicality \<Rightarrow> execution_block list" where
  "bsc_chain st = core_chain (bsc_core st)"

abbreviation bsc_reachable :: "(digest \<Rightarrow> execution_block option) \<Rightarrow> bsc_canonicality \<Rightarrow> bool" where
  "bsc_reachable U st \<equiv> (bsc_step U)\<^sup>*\<^sup>* bsc_new st"

lemma bsc_reachable_view: "bsc_reachable U st \<Longrightarrow> chain_view U (bsc_core st) (bsc_chain st)"
  unfolding bsc_chain_def by (rule bsc_tracker.reached_view)

section \<open>Returning\<close>

lemma bsc_is_ancestor_returns:
  assumes "chain_view U (bsc_core st) ch" "d \<in> set ch"
  shows "bsc_is_ancestor st a (blk_hash d) \<noteq> None"
proof (cases "fmlookup (bsc_blocks st) a")
  case None
  then show ?thesis by (simp add: bsc_is_ancestor_def known_ancestor_def)
next
  case (Some ab)
  then show ?thesis
    using known_ancestor_chain [OF assms, of a ab] by (simp add: bsc_is_ancestor_def)
qed

lemma bsc_canonical_block_chain:
  assumes "chain_view U (bsc_core st) ch" "bsc_canonical_block st h = Inr b"
  shows "b \<in> set ch" "blk_hash b = h"
proof -
  from assms(2) have b: "fmlookup (bsc_blocks st) h = Some b"
    "fmlookup (bsc_canonical st) (blk_number b) = Some h" by (simp_all add: bsc_canonical_block_Inr)
  from chain_viewD(5) [OF assms(1), of h b] b(1) show h: "blk_hash b = h" by simp
  from chain_viewD(5) [OF assms(1), of h b] b(1) have "U (blk_hash b) = Some b" by simp
  with canonical_has_iff [OF assms(1), of b] b h show "b \<in> set ch" by (simp add: canonical_has_def)
qed

lemma bsc_commit_segment_returns:
  assumes "bsc_counter st + length bs < 2 ^ 64"
  shows "\<exists>r st'. bsc_commit_segment bs st = Some (r, st') \<and> (isl r \<longrightarrow> st' = st)"
proof (cases rule: bsc_commit_segment_cases [of bs st])
  case commit
  then show ?thesis using bsc_commit.emit_loop_returns [OF assms] by auto
qed blast

lemma bsc_reorg_returns:
  assumes "bsc_counter st + length old + length new < 2 ^ 64"
  shows "\<exists>r st'. bsc_reorg old new st = Some (r, st') \<and> (isl r \<longrightarrow> st' = st)"
proof -
  obtain rs1 st1 where r: "emit_loop bsc_remove_body (rev old) st = Some (rs1, st1)"
    using bsc_remove.emit_loop_returns [of st "rev old"] assms by auto
  from bsc_remove.emit_loop_Some [OF r] assms obtain rs2 st2 where
    "emit_loop bsc_insert_body new st1 = Some (rs2, st2)"
    using bsc_insert.emit_loop_returns [of st1 new] by auto
  with r show ?thesis by (auto simp: bsc_reorg_def split: sum.split)
qed

lemma bsc_observe_finalized_returns:
  assumes view: "chain_view U (bsc_core st) ch" and "bsc_counter st + 1 < 2 ^ 64"
  shows "\<exists>r st'. bsc_observe_finalized obs st = Some (r, st') \<and> (isl r \<longrightarrow> st' = st)"
proof -
  define bl where "bl = and_then (bsc_canonical_block st (obs_head obs)) (\<lambda>hb.
           and_then (bsc_canonical_block st (obs_finalized obs)) (\<lambda>fin. Inr (hb, fin)))"
  have "bsc_observe_finalized obs st \<noteq> None"
  proof (cases bl)
    case (Inl e)
    then show ?thesis by (simp add: bsc_observe_finalized_def bl_def)
  next
    case (Inr x)
    then obtain hb fin where x: "x = (hb, fin)" and ch: "hb \<in> set ch" "fin \<in> set ch"
      by (auto simp: bl_def rust_result dest: bsc_canonical_block_chain [OF view])
    have reg: "bsc_regresses fin st \<noteq> None"
      by (auto simp: bsc_regresses_def bsc_is_ancestor_returns [OF view ch(2)] split: option.split sum.split)
    show ?thesis
      using Inr x reg assms(2)
      by (auto simp: bsc_observe_finalized_def bl_def Let_def bsc_next_revision_iff bsc_counter_def
          bsc_is_ancestor_returns [OF view ch(1)]
          split: option.split bool.split sum.split)
  qed
  then show ?thesis using bsc_observe_finalized_Inl by (fastforce simp: isl_def)
qed

section \<open>Properties\<close>

definition bsc_sample_committed :: bsc_canonicality where
  "bsc_sample_committed = snd (the (bsc_commit_segment sample_chain bsc_new))"

definition bsc_sample_final :: bsc_canonicality where
  "bsc_sample_final = snd (the (bsc_observe_finalized
     \<lparr>obs_finalized = 1, obs_head = 2, obs_source_id = ''node'', obs_observed_at_unix_ms = 1000\<rparr>
     bsc_sample_committed))"

lemmas bsc_eval = exec_block_def sample_chain_def sample_fork_def bsc_new_def bsc_commit_segment_def
  validate_bsc_segment_def bsc_next_revision_def checked_add_def saturating_add_def canonical_has_def
  bsc_commit_body_def bsc_canonical_block_def bsc_block_def bsc_is_ancestor_def known_ancestor_def
  walk_down.simps bsc_regresses_def bsc_observe_finalized_def Let_def

lemma bsc_sample_committed_eq:
  "bsc_commit_segment sample_chain bsc_new = Some (Inr
     [\<lparr>bsc_rev_block = exec_block 1 1 0, bsc_rev_status = BscCanonicalHead, bsc_rev_revision = 1, bsc_rev_source_id = None\<rparr>,
      \<lparr>bsc_rev_block = exec_block 2 2 1, bsc_rev_status = BscCanonicalHead, bsc_rev_revision = 2, bsc_rev_source_id = None\<rparr>],
     \<lparr>bsc_blocks = fmupd 2 (exec_block 2 2 1) (fmupd 1 (exec_block 1 1 0) fmempty),
      bsc_canonical = fmupd 2 2 (fmupd 1 1 fmempty), bsc_head = Some 2,
      bsc_finalized = None, bsc_revision_counter = 2, last_observed_at_unix_ms = None,
      last_finality_change_at_unix_ms = None\<rparr>)"
  by (simp add: bsc_eval)

lemma bsc_sample_final_eq:
  "bsc_observe_finalized
     \<lparr>obs_finalized = 1, obs_head = 2, obs_source_id = ''node'', obs_observed_at_unix_ms = 1000\<rparr>
     bsc_sample_committed = Some (Inr
     \<lparr>bsc_rev_block = exec_block 1 1 0, bsc_rev_status = BscFastFinalized, bsc_rev_revision = 3,
        bsc_rev_source_id = Some ''node''\<rparr>,
     \<lparr>bsc_blocks = fmupd 2 (exec_block 2 2 1) (fmupd 1 (exec_block 1 1 0) fmempty),
      bsc_canonical = fmupd 2 2 (fmupd 1 1 fmempty), bsc_head = Some 2,
      bsc_finalized = Some 1, bsc_revision_counter = 3, last_observed_at_unix_ms = Some 1000,
      last_finality_change_at_unix_ms = Some 1000\<rparr>)"
  unfolding bsc_sample_committed_def bsc_sample_committed_eq by (simp add: bsc_eval)

lemma bsc_sample_reachable:
  "bsc_reachable sample_universe bsc_sample_committed"
  "bsc_step sample_universe bsc_sample_committed bsc_sample_final"
proof -
  have "bsc_step sample_universe bsc_new bsc_sample_committed"
    using bsc_sample_committed_eq
    by (auto simp: bsc_sample_committed_def intro: bsc_step_commit [OF sample_authentic(1)])
  then show "bsc_reachable sample_universe bsc_sample_committed" by blast
  show "bsc_step sample_universe bsc_sample_committed bsc_sample_final"
    using bsc_sample_final_eq by (auto simp: bsc_sample_final_def intro: bsc_step_finalized)
qed

text \<open>fast finality is permanent. The canonical chain up to and including the BSC-finalized
  block of a reached state is the beginning of the finalized part of every later state.\<close>

theorem bsc_finalized_prefix_is_permanent:
  assumes "bsc_reachable U st" "(bsc_step U)\<^sup>*\<^sup>* st st'"
  shows "prefix (final_prefix (bsc_chain st) (bsc_finalized st))
    (final_prefix (bsc_chain st') (bsc_finalized st'))"
  using bsc_tracker.finalized_prefix_kept [OF assms] by (simp add: bsc_chain_def)

theorem bsc_finalized_prefix_is_permanent_witness:
  "prefix (final_prefix (bsc_chain bsc_sample_committed) (bsc_finalized bsc_sample_committed))
    (final_prefix (bsc_chain bsc_sample_final) (bsc_finalized bsc_sample_final))"
  by (rule bsc_finalized_prefix_is_permanent [OF bsc_sample_reachable(1)])
     (use bsc_sample_reachable(2) in blast)

text \<open>the BSC canonical map of a reached state is one linked chain ending at the head that
  contains the finalized block; every operation on such a state returns while revision numbers
  are left, and leaves the tracker unchanged when it fails.\<close>

theorem bsc_tracker_is_sound:
  assumes "bsc_reachable U st"
    and "bsc_counter st + length bs + length old + length new + 1 < 2 ^ 64"
  shows "linked (bsc_chain st) \<and> bsc_head st = map_option blk_hash (last_opt (bsc_chain st)) \<and>
    (\<forall>n h. fmlookup (bsc_canonical st) n = Some h \<longleftrightarrow>
       (\<exists>b \<in> set (bsc_chain st). blk_number b = n \<and> blk_hash b = h)) \<and>
    (\<forall>h. bsc_finalized st = Some h \<longrightarrow> h \<in> blk_hash ` set (bsc_chain st)) \<and>
    (\<exists>r st'. bsc_commit_segment bs st = Some (r, st') \<and> (isl r \<longrightarrow> st' = st)) \<and>
    (\<exists>r st'. bsc_reorg old new st = Some (r, st') \<and> (isl r \<longrightarrow> st' = st)) \<and>
    (\<exists>r st'. bsc_observe_finalized obs st = Some (r, st') \<and> (isl r \<longrightarrow> st' = st))"
proof -
  note view = bsc_reachable_view [OF assms(1)]
  show ?thesis
    using chain_viewD [OF view] bsc_commit_segment_returns [of st bs] bsc_reorg_returns [of st old new]
      bsc_observe_finalized_returns [OF view, of obs] assms(2) by simp
qed

theorem bsc_tracker_is_sound_witness:
  "linked (bsc_chain bsc_sample_committed)"
proof -
  have "bsc_counter bsc_sample_committed + length [] + length [] + length [] + 1 < 2 ^ 64"
    by (simp add: bsc_counter_def bsc_sample_committed_def bsc_sample_committed_eq)
  from bsc_tracker_is_sound [OF bsc_sample_reachable(1) this] show ?thesis by simp
qed

text \<open>The health of the finalized tag. Before any finalized observation it is unknown;
  afterwards it is stalled exactly when more than the allowed time has passed since the finalized
  block last changed, and a clock that runs behind counts as no time passed.\<close>

theorem finality_health_measures_stall:
  "finality_health st now bound =
     (case last_finality_change_at_unix_ms st of
        None \<Rightarrow> FinalityUnknown
      | Some t \<Rightarrow> if unat t + unat bound < unat now then FinalityStalled else FinalityHealthy)"
  by (auto simp: finality_health_def word_less_nat_alt unat_saturating_sub split: option.split)

text \<open>An accepted finalized observation is newer than every accepted one before it, and the
  time of the last change of the finalized block moves only when the finalized block does.\<close>

theorem bsc_finality_times_advance:
  assumes "bsc_observe_finalized obs st = Some (Inr r, st')"
  shows "last_observed_at_unix_ms st' = Some (obs_observed_at_unix_ms obs) \<and>
    (\<forall>p. last_observed_at_unix_ms st = Some p \<longrightarrow> p < obs_observed_at_unix_ms obs) \<and>
    (last_finality_change_at_unix_ms st' = last_finality_change_at_unix_ms st \<or>
     bsc_finalized st' \<noteq> bsc_finalized st \<and>
       last_finality_change_at_unix_ms st' = Some (obs_observed_at_unix_ms obs))"
proof (rule bsc_observe_finalized_Inr [OF assms])
  fix hb fin
  assume core: "bsc_core st' = (bsc_core st)\<lparr>core_finalized := Some (blk_hash fin)\<rparr>"
    and rest: "last_observed_at_unix_ms st' = Some (obs_observed_at_unix_ms obs)"
      "last_finality_change_at_unix_ms st' = (if bsc_finalized st = Some (blk_hash fin)
         then last_finality_change_at_unix_ms st else Some (obs_observed_at_unix_ms obs))"
      "case last_observed_at_unix_ms st of None \<Rightarrow> True | Some p \<Rightarrow> p < obs_observed_at_unix_ms obs"
  have "bsc_finalized st' = Some (blk_hash fin)" using arg_cong [OF core, of core_finalized] by simp
  with rest show ?thesis by (auto split: if_splits option.splits)
qed

theorem bsc_finality_times_advance_witness:
  "last_observed_at_unix_ms bsc_sample_final = Some 1000"
  using bsc_finality_times_advance [OF bsc_sample_final_eq]
  by (simp add: bsc_sample_final_def bsc_sample_final_eq)

end
