(* ===== verification/Solana_Domain.thy ===== *)
theory Solana_Domain
  imports Prelude
begin

text \<open>
  The Solana domain types of \<open>crates/solana-domain/src/lib.rs\<close>: fork-qualified identities, bounded
  messages and transactions, account writes, and the decimal encoding of lamport amounts. A public
  key and a block hash are 32 bytes, a signature 64; record fields are the accessor methods.
\<close>

section \<open>Identities and amounts\<close>

type_synonym pubkey = digest
type_synonym signature = "512 word"

definition MAX_ACCOUNT_KEYS :: nat where "MAX_ACCOUNT_KEYS = 256"
definition MAX_ADDRESS_TABLE_LOOKUPS :: nat where "MAX_ADDRESS_TABLE_LOOKUPS = 256"
definition MAX_INSTRUCTIONS :: nat where "MAX_INSTRUCTIONS = 4096"
definition MAX_INSTRUCTION_DATA_BYTES :: nat where "MAX_INSTRUCTION_DATA_BYTES = 1048576"
definition MAX_TRANSACTION_BYTES :: nat where "MAX_TRANSACTION_BYTES = 1048576"
definition MAX_LOG_MESSAGES :: nat where "MAX_LOG_MESSAGES = 16384"
definition MAX_LOG_MESSAGE_BYTES :: nat where "MAX_LOG_MESSAGE_BYTES = 16384"
definition MAX_ERROR_BYTES :: nat where "MAX_ERROR_BYTES = 4096"
definition MAX_ACCOUNT_DATA_BYTES :: nat where "MAX_ACCOUNT_DATA_BYTES = 1048576"

datatype slot = Slot (slot_value: u64)

datatype lamports = Lamports (lamports_value: u64)

definition lamports_checked_add :: "lamports \<Rightarrow> lamports \<Rightarrow> lamports option" where
  "lamports_checked_add a b = map_option Lamports (checked_add (lamports_value a) (lamports_value b))"

datatype lamports_error = InvalidLamportDecimalString | LamportOutOfRange

definition lamports_serialize :: "lamports \<Rightarrow> string" where
  "lamports_serialize a = dec_string (unat (lamports_value a))"

definition lamports_deserialize :: "string \<Rightarrow> lamports_error + lamports" where
  "lamports_deserialize s =
     (if s = [] \<or> \<not> list_all is_ascii_digit s then Inl InvalidLamportDecimalString
      else map_sum id Lamports (ok_or (parse_u64 s) LamportOutOfRange))"

datatype fork_id = ForkId (fork_slot: slot) (fork_blockhash: digest)

datatype transaction_key = TransactionKey (key_signature: signature) (key_fork_id: fork_id)

section \<open>Messages\<close>

datatype solana_error =
    InvalidAccountKeyCount nat
  | LegacyMessageWithAddressLookups
  | TooManyAddressTableLookups nat
  | TooManyInstructions nat
  | InstructionDataTooLarge nat
  | BalanceCardinalityMismatch nat nat
  | TooManyLogs nat
  | LogMessageTooLarge nat
  | TransactionTooLarge nat
  | InvalidExecutionError nat
  | InvalidTokenAmount
  | AccountDataTooLarge nat

datatype message_version = Legacy | V0

record address_table_lookup =
  lookup_account_key :: pubkey
  writable_indexes :: "u8 list"
  readonly_indexes :: "u8 list"

record compiled_instruction =
  program_id_index :: u8
  account_indexes :: "u8 list"
  instruction_data :: bytes

definition compiled_instruction_try_new :: "u8 \<Rightarrow> u8 list \<Rightarrow> bytes \<Rightarrow> solana_error + compiled_instruction" where
  "compiled_instruction_try_new program accounts bs =
     (if MAX_INSTRUCTION_DATA_BYTES < length bs then Inl (InstructionDataTooLarge (length bs))
      else Inr \<lparr>program_id_index = program, account_indexes = accounts, instruction_data = bs\<rparr>)"

record instruction_path =
  outer_index :: u16
  inner_index :: u16

record inner_instruction =
  inner_path :: instruction_path
  inner_compiled :: compiled_instruction

definition inner_instruction_try_new ::
  "instruction_path \<Rightarrow> u8 \<Rightarrow> u8 list \<Rightarrow> bytes \<Rightarrow> solana_error + inner_instruction" where
  "inner_instruction_try_new path program accounts bs =
     and_then (compiled_instruction_try_new program accounts bs)
       (\<lambda>c. Inr \<lparr>inner_path = path, inner_compiled = c\<rparr>)"

record solana_message =
  msg_version :: message_version
  static_account_keys :: "pubkey list"
  address_table_lookups :: "address_table_lookup list"
  msg_instructions :: "compiled_instruction list"

definition solana_message_try_new ::
  "message_version \<Rightarrow> pubkey list \<Rightarrow> address_table_lookup list \<Rightarrow> compiled_instruction list \<Rightarrow>
   solana_error + solana_message" where
  "solana_message_try_new version keys lookups instructions =
     (if keys = [] \<or> MAX_ACCOUNT_KEYS < length keys then Inl (InvalidAccountKeyCount (length keys))
      else if MAX_ADDRESS_TABLE_LOOKUPS < length lookups
      then Inl (TooManyAddressTableLookups (length lookups))
      else if version = Legacy \<and> lookups \<noteq> [] then Inl LegacyMessageWithAddressLookups
      else if MAX_INSTRUCTIONS < length instructions then Inl (TooManyInstructions (length instructions))
      else Inr \<lparr>msg_version = version, static_account_keys = keys, address_table_lookups = lookups,
        msg_instructions = instructions\<rparr>)"

section \<open>Transactions\<close>

definition is_decimal :: "string \<Rightarrow> bool" where
  "is_decimal s \<longleftrightarrow> s \<noteq> [] \<and> list_all is_ascii_digit s"

record token_balance_change =
  token_account_index :: u16
  token_mint :: pubkey
  pre_amount :: string
  post_amount :: string
  token_decimals :: u8

definition token_change_validate :: "token_balance_change \<Rightarrow> solana_error + unit" where
  "token_change_validate c =
     (if \<not> is_decimal (pre_amount c) \<or> \<not> is_decimal (post_amount c) then Inl InvalidTokenAmount else Inr ())"

primrec validate_changes :: "token_balance_change list \<Rightarrow> solana_error + unit" where
  "validate_changes [] = Inr ()"
| "validate_changes (c # cs) = and_then (token_change_validate c) (\<lambda>_. validate_changes cs)"

datatype execution_status = Succeeded | ExecutionFailed string

record solana_transaction =
  sol_key :: transaction_key
  sol_message :: solana_message
  sol_inner_instructions :: "inner_instruction list"
  sol_logs :: "string list"
  sol_pre_balances :: "lamports list"
  sol_post_balances :: "lamports list"
  sol_token_balance_changes :: "token_balance_change list"
  sol_fee :: lamports
  sol_compute_units_consumed :: "u64 option"
  sol_status :: execution_status
  sol_raw_transaction :: bytes

text \<open>The candidate carries the constructor's arguments; it is returned when every check passes.\<close>

definition solana_transaction_try_new :: "solana_transaction \<Rightarrow> solana_error + solana_transaction" where
  "solana_transaction_try_new t =
     (if length (sol_pre_balances t) \<noteq> length (sol_post_balances t)
      then Inl (BalanceCardinalityMismatch (length (sol_pre_balances t)) (length (sol_post_balances t)))
      else if MAX_INSTRUCTIONS < length (sol_inner_instructions t)
      then Inl (TooManyInstructions (length (sol_inner_instructions t)))
      else if MAX_LOG_MESSAGES < length (sol_logs t) then Inl (TooManyLogs (length (sol_logs t)))
      else case find (\<lambda>l. MAX_LOG_MESSAGE_BYTES < length l) (sol_logs t) of
          Some l \<Rightarrow> Inl (LogMessageTooLarge (length l))
        | None \<Rightarrow>
            if MAX_TRANSACTION_BYTES < length (sol_raw_transaction t)
            then Inl (TransactionTooLarge (length (sol_raw_transaction t)))
            else case (case sol_status t of
                         Succeeded \<Rightarrow> None
                       | ExecutionFailed e \<Rightarrow>
                           if e = [] \<or> MAX_ERROR_BYTES < length e then Some (length e) else None) of
                Some n \<Rightarrow> Inl (InvalidExecutionError n)
              | None \<Rightarrow> and_then (validate_changes (sol_token_balance_changes t)) (\<lambda>_. Inr t))"

section \<open>Account writes\<close>

record account_write =
  write_fork_id :: fork_id
  write_pubkey :: pubkey
  write_owner :: pubkey
  write_lamports :: lamports
  write_data :: bytes
  write_executable :: bool
  write_rent_epoch :: u64
  write_version :: u64

definition account_write_try_new ::
  "fork_id \<Rightarrow> pubkey \<Rightarrow> pubkey \<Rightarrow> lamports \<Rightarrow> bytes \<Rightarrow> bool \<Rightarrow> u64 \<Rightarrow> u64 \<Rightarrow> solana_error + account_write" where
  "account_write_try_new fork key owner amount bs executable epoch version =
     (if MAX_ACCOUNT_DATA_BYTES < length bs then Inl (AccountDataTooLarge (length bs))
      else Inr \<lparr>write_fork_id = fork, write_pubkey = key, write_owner = owner, write_lamports = amount,
        write_data = bs, write_executable = executable, write_rent_epoch = epoch,
        write_version = version\<rparr>)"

section \<open>Properties\<close>

lemma validate_changes_Inr:
  "validate_changes cs = Inr () \<longleftrightarrow> list_all (\<lambda>c. is_decimal (pre_amount c) \<and> is_decimal (post_amount c)) cs"
  by (induction cs) (auto simp: token_change_validate_def rust_result)

text \<open>The JSON form of a lamport amount round-trips: every amount is read back exactly, and
  the reader accepts precisely the non-empty digit strings whose value fits in 64 bits.\<close>

theorem lamports_json_roundtrip:
  "lamports_deserialize (lamports_serialize a) = Inr a \<and>
   (lamports_deserialize s = Inr b \<longleftrightarrow>
      s \<noteq> [] \<and> list_all is_ascii_digit s \<and> dec_value s = unat (lamports_value b))"
proof (intro conjI)
  have "unat (lamports_value a) < 2 ^ LENGTH(64)" by (rule unsigned_less)
  then show "lamports_deserialize (lamports_serialize a) = Inr a"
    using dec_string_digits [of "unat (lamports_value a)"]
    by (simp add: lamports_deserialize_def lamports_serialize_def parse_u64_digits dec_value_dec_string)
next
  have bound: "unat (lamports_value b) < 2 ^ LENGTH(64)" by (rule unsigned_less)
  show "lamports_deserialize s = Inr b \<longleftrightarrow>
      s \<noteq> [] \<and> list_all is_ascii_digit s \<and> dec_value s = unat (lamports_value b)"
  proof (cases "s \<noteq> [] \<and> list_all is_ascii_digit s")
    case True
    show ?thesis
    proof (cases "dec_value s < 2 ^ 64")
      case lt: True
      then have "Lamports (of_nat (dec_value s)) = b \<longleftrightarrow> dec_value s = unat (lamports_value b)"
        by (cases b) (auto simp: unat_of_nat word_unat_eq_iff mod_less)
      with True lt show ?thesis by (simp add: lamports_deserialize_def parse_u64_digits)
    next
      case False
      with True bound show ?thesis by (auto simp: lamports_deserialize_def parse_u64_digits)
    qed
  next
    case False
    then show ?thesis by (auto simp: lamports_deserialize_def)
  qed
qed

text \<open>A transaction is accepted exactly when it is within every bound: matching balance
  lists, bounded instructions, logs and raw bytes, a non-empty bounded error when it failed, and
  decimal token amounts; and then it is the transaction that was given.\<close>

theorem solana_transaction_accepted_iff_bounded:
  "solana_transaction_try_new t = Inr u \<longleftrightarrow> u = t \<and>
     length (sol_pre_balances t) = length (sol_post_balances t) \<and>
     length (sol_inner_instructions t) \<le> 4096 \<and> length (sol_logs t) \<le> 16384 \<and>
     list_all (\<lambda>l. length l \<le> 16384) (sol_logs t) \<and> length (sol_raw_transaction t) \<le> 1048576 \<and>
     (case sol_status t of Succeeded \<Rightarrow> True | ExecutionFailed e \<Rightarrow> e \<noteq> [] \<and> length e \<le> 4096) \<and>
     list_all (\<lambda>c. is_decimal (pre_amount c) \<and> is_decimal (post_amount c)) (sol_token_balance_changes t)"
proof -
  have "find (\<lambda>l. MAX_LOG_MESSAGE_BYTES < length l) (sol_logs t) = None \<longleftrightarrow>
      list_all (\<lambda>l. length l \<le> 16384) (sol_logs t)"
    by (auto simp: find_None_iff list_all_iff MAX_LOG_MESSAGE_BYTES_def not_less)
  then show ?thesis
    by (auto simp: solana_transaction_try_new_def MAX_INSTRUCTIONS_def MAX_LOG_MESSAGES_def
        MAX_TRANSACTION_BYTES_def MAX_ERROR_BYTES_def rust_result validate_changes_Inr
        split: option.splits execution_status.splits if_splits)
qed

end
