(* ===== verification/Parent_Links.thy ===== *)
theory Parent_Links
  imports Prelude
begin

text \<open>
  Forests given by parent links, as the Solana fork graph stores them: \<open>par k\<close> is \<open>None\<close> for an
  unknown key, \<open>Some None\<close> for a root and \<open>Some (Some p)\<close> for a child of \<open>p\<close>. A path lists the
  keys from a tip to its root.
\<close>

inductive root_path :: "('k \<Rightarrow> 'k option option) \<Rightarrow> 'k option \<Rightarrow> 'k list \<Rightarrow> bool" for par where
  root_path_Nil: "root_path par None []"
| root_path_Cons: "par k = Some q \<Longrightarrow> root_path par q ks \<Longrightarrow> root_path par (Some k) (k # ks)"

inductive_cases root_path_NoneE [elim!]: "root_path par None ks"
inductive_cases root_path_SomeE: "root_path par (Some k) ks"
inductive_simps root_path_Cons_iff: "root_path par c (k # ks)"

definition ranked :: "('k \<Rightarrow> 'k option option) \<Rightarrow> ('k \<Rightarrow> nat) \<Rightarrow> bool" where
  "ranked par rank \<longleftrightarrow> (\<forall>k p. par k = Some (Some p) \<longrightarrow> par p \<noteq> None \<and> rank p < rank k)"

lemma rankedD: "ranked par rank \<Longrightarrow> par k = Some (Some p) \<Longrightarrow> par p \<noteq> None \<and> rank p < rank k"
  by (auto simp: ranked_def)

lemma root_path_hd: "root_path par c ks \<Longrightarrow> c = hd_opt ks"
  by (erule root_path.cases) simp_all

lemma root_path_det: "root_path par c ks \<Longrightarrow> root_path par c ls \<Longrightarrow> ks = ls"
proof (induction arbitrary: ls rule: root_path.induct)
  case (root_path_Cons k q ks)
  from root_path_Cons.prems obtain ls' where "ls = k # ls'" "root_path par q ls'"
    using root_path_Cons.hyps(1) by (cases rule: root_path.cases) simp_all
  with root_path_Cons.IH show ?case by simp
qed (erule root_path.cases, simp_all)

lemma root_path_known: "root_path par c ks \<Longrightarrow> k \<in> set ks \<Longrightarrow> par k \<noteq> None"
  by (induction rule: root_path.induct) auto

lemma root_path_suffix: "root_path par c (ks @ rs) \<Longrightarrow> root_path par (hd_opt rs) rs"
  by (induction ks arbitrary: c) (auto dest: root_path_hd simp: root_path_Cons_iff)

lemma root_path_exists:
  assumes "ranked par rank"
  shows "par k \<noteq> None \<Longrightarrow> \<exists>ks. root_path par (Some k) ks"
proof (induction "rank k" arbitrary: k rule: less_induct)
  case less
  then obtain q where q: "par k = Some q" by auto
  show ?case
  proof (cases q)
    case None
    with q show ?thesis using root_path_Cons root_path_Nil by metis
  next
    case (Some p)
    with q rankedD [OF assms, of k p] less.hyps [of p] show ?thesis
      using root_path_Cons by metis
  qed
qed

lemma root_path_ranks:
  assumes "ranked par rank"
  shows "root_path par c ks \<Longrightarrow> sorted_wrt (\<lambda>x y. rank y < rank x) ks"
proof (induction rule: root_path.induct)
  case (root_path_Cons k q ks)
  have "rank x < rank k" if x: "x \<in> set ks" for x
  proof (cases q)
    case None
    with root_path_Cons.hyps(2) x show ?thesis by auto
  next
    case (Some p)
    then have "rank p < rank k" using rankedD [OF assms] root_path_Cons.hyps(1) by blast
    moreover have "x = p \<or> rank x < rank p"
      using root_path_Cons.IH root_path_hd [OF root_path_Cons.hyps(2)] Some x by (cases ks) auto
    ultimately show ?thesis by auto
  qed
  with root_path_Cons.IH show ?case by simp
qed simp

lemma root_path_distinct:
  assumes "ranked par rank" "root_path par c ks"
  shows "distinct ks"
proof -
  have "distinct xs" if "sorted_wrt (\<lambda>x y. rank y < rank x) xs" for xs
    using that by (induction xs) auto
  then show ?thesis using root_path_ranks [OF assms] .
qed

lemma root_path_insert:
  assumes "par k = None" "root_path par c ks"
  shows "root_path (par(k := v)) c ks"
  using assms(2)
proof (induction rule: root_path.induct)
  case (root_path_Cons l q ls)
  then show ?case using assms(1) by (intro root_path.root_path_Cons) auto
qed (rule root_path.root_path_Nil)

text \<open>Two paths to the same root share everything from their first common key on.\<close>

lemma root_path_split:
  assumes "root_path par a old" "root_path par b new"
  defines "common \<equiv> find (\<lambda>k. k \<in> set new) old"
  obtains ds ks cs where "old = ds @ cs" "new = ks @ cs" "hd_opt cs = common"
    "takeWhile (\<lambda>k. Some k \<noteq> common) old = ds"
    "distinct new \<Longrightarrow> takeWhile (\<lambda>k. Some k \<noteq> common) new = ks"
proof (cases common)
  case None
  then have "takeWhile (\<lambda>k. Some k \<noteq> common) xs = xs" for xs by (induction xs) auto
  then show thesis using that [of old "[]" new] None by simp
next
  case (Some x)
  then obtain i where i: "i < length old" "x = old ! i" "old ! i \<in> set new" "\<forall>j<i. old ! j \<notin> set new"
    unfolding common_def find_Some_iff by blast
  obtain ks rs where new: "new = ks @ x # rs" using i by (auto simp: in_set_conv_decomp)
  define ds cs where "ds = take i old" and "cs = drop (Suc i) old"
  have old: "old = ds @ x # cs" using i by (simp add: ds_def cs_def id_take_nth_drop)
  have "root_path par (Some x) (x # cs)" using root_path_suffix [of par a ds "x # cs"] assms(1) old by simp
  moreover have "root_path par (Some x) (x # rs)" using root_path_suffix [of par b ks "x # rs"] assms(2) new by simp
  ultimately have eq: "cs = rs" by (auto dest: root_path_det)
  have "x \<notin> set ds" using i by (auto simp: ds_def in_set_conv_nth)
  then have "takeWhile (\<lambda>k. Some k \<noteq> common) old = ds" unfolding old Some
    by (subst takeWhile_append2) auto
  moreover have "takeWhile (\<lambda>k. Some k \<noteq> common) new = ks" if "distinct new"
    using that unfolding new Some by (subst takeWhile_append2) auto
  ultimately show thesis using that [of ds "x # cs" ks] old new eq Some by simp
qed

end
