(* ===== verification/Solana_Canonicality.thy ===== *)
theory Solana_Canonicality
  imports Solana_Domain Undo_Log Parent_Links "HOL-Library.Sublist"
begin

text \<open>
  The fork graph, commitment history and reversible account projection of
  \<open>processors/solana-canonicality/src/lib.rs\<close>. Operations return their result with the state they
  leave behind; \<open>None\<close> is an operation whose walk to the root does not end, which the lemmas
  exclude for every state the operations reach.
\<close>

section \<open>Data\<close>

datatype commitment = Received | Processed | Confirmed | CommitFinalized | Dead

fun commitment_rank :: "commitment \<Rightarrow> u8 option" where
  "commitment_rank Received = Some 0"
| "commitment_rank Processed = Some 1"
| "commitment_rank Confirmed = Some 2"
| "commitment_rank CommitFinalized = Some 3"
| "commitment_rank Dead = None"

text \<open>The derived order of \<open>Option\<close>: \<open>None\<close> below every \<open>Some\<close>.\<close>

fun rank_less :: "u8 option \<Rightarrow> u8 option \<Rightarrow> bool" where
  "rank_less None None \<longleftrightarrow> False"
| "rank_less None (Some _) \<longleftrightarrow> True"
| "rank_less (Some _) None \<longleftrightarrow> False"
| "rank_less (Some a) (Some b) \<longleftrightarrow> a < b"

record commitment_revision =
  commit_revision :: u64
  commit_fork_id :: fork_id
  commit_from :: commitment
  commit_to :: commitment

record account_state =
  acct_owner :: pubkey
  acct_lamports :: lamports
  acct_data :: bytes
  acct_executable :: bool
  acct_rent_epoch :: u64
  acct_write_version :: u64

definition account_from_write :: "account_write \<Rightarrow> account_state" where
  "account_from_write w = \<lparr>acct_owner = write_owner w, acct_lamports = write_lamports w,
     acct_data = write_data w, acct_executable = write_executable w,
     acct_rent_epoch = write_rent_epoch w, acct_write_version = write_version w\<rparr>"

record account_undo =
  undo_pubkey :: pubkey
  undo_previous :: "account_state option"

record fork_node =
  fk_parent :: "fork_id option"
  fk_commitment :: commitment
  fk_transactions :: "transaction_key fset"
  fk_writes :: "account_write list"
  fk_last_write_version :: "u64 option"
  fk_applied_undo :: "account_undo list"

type_synonym fork_nodes = "(fork_id, fork_node) fmap"
type_synonym accounts_map = "(pubkey, account_state) fmap"

record solana_canonicality =
  sol_nodes :: fork_nodes
  sol_root :: "fork_id option"
  sol_active_tip :: "fork_id option"
  sol_accounts :: accounts_map
  sol_revision :: u64

datatype solana_canonicality_error =
    ConflictingForkIdentity
  | SolUnknownParent
  | DeadParent
  | NonIncreasingSlot
  | MultipleRoots
  | UnknownFork
  | CommitmentRegression
  | DeadFork
  | FinalizedForkWouldDie
  | WriteVersionRegression
  | RevisionOverflow
  | InvalidRecoverySources
  | InvalidRecoveryObservation
  | InvalidPreExecutionSource
  | InvalidObservedTime
  | ExecutionAlreadyJoined
  | ExecutionSignatureMismatch

definition sol_new :: solana_canonicality where
  "sol_new = \<lparr>sol_nodes = fmempty, sol_root = None, sol_active_tip = None, sol_accounts = fmempty,
     sol_revision = 0\<rparr>"

section \<open>Walking to the root\<close>

partial_function (option) path_walk :: "fork_nodes \<Rightarrow> fork_id option \<Rightarrow> fork_id list \<Rightarrow> fork_id list option" where
  "path_walk ns cursor path =
     (case cursor of
        None \<Rightarrow> Some path
      | Some f \<Rightarrow>
          path_walk ns (case fmlookup ns f of None \<Rightarrow> None | Some n \<Rightarrow> fk_parent n) (path @ [f]))"

declare path_walk.simps [code]

definition path_to_root :: "fork_nodes \<Rightarrow> fork_id \<Rightarrow> fork_id list option" where
  "path_to_root ns tip = path_walk ns (Some tip) []"

definition sol_is_ancestor :: "fork_nodes \<Rightarrow> fork_id \<Rightarrow> fork_id \<Rightarrow> bool option" where
  "sol_is_ancestor ns ancestor descendant =
     map_option (\<lambda>path. ancestor \<in> set path) (path_to_root ns descendant)"

section \<open>Slots and commitments\<close>

definition observe_slot ::
  "fork_id \<Rightarrow> fork_id option \<Rightarrow> solana_canonicality \<Rightarrow>
   (solana_canonicality_error + unit) \<times> solana_canonicality" where
  "observe_slot f parent st =
     (case fmlookup (sol_nodes st) f of
        Some existing \<Rightarrow>
          (if fk_parent existing = parent then (Inr (), st) else (Inl ConflictingForkIdentity, st))
      | None \<Rightarrow>
          (case (case parent of
                   Some p \<Rightarrow>
                     and_then (ok_or (fmlookup (sol_nodes st) p) SolUnknownParent) (\<lambda>pn.
                       if fk_commitment pn = Dead then Inl DeadParent
                       else if slot_value (fork_slot f) \<le> slot_value (fork_slot p) then Inl NonIncreasingSlot
                       else Inr ())
                 | None \<Rightarrow> if sol_root st \<noteq> None then Inl MultipleRoots else Inr ()) of
             Inl e \<Rightarrow> (Inl e, st)
           | Inr _ \<Rightarrow>
               (Inr (), st\<lparr>sol_root := (if parent = None then Some f else sol_root st),
                  sol_nodes := fmupd f \<lparr>fk_parent = parent, fk_commitment = Received,
                    fk_transactions = {||}, fk_writes = [], fk_last_write_version = None,
                    fk_applied_undo = []\<rparr> (sol_nodes st)\<rparr>)))"

definition sol_next_revision ::
  "solana_canonicality \<Rightarrow> (solana_canonicality_error + unit) \<times> solana_canonicality" where
  "sol_next_revision st =
     (case checked_add (sol_revision st) 1 of
        None \<Rightarrow> (Inl RevisionOverflow, st)
      | Some r \<Rightarrow> (Inr (), st\<lparr>sol_revision := r\<rparr>))"

section \<open>The account projection\<close>

definition apply_write :: "account_write \<Rightarrow> accounts_map \<Rightarrow> account_undo \<times> accounts_map" where
  "apply_write w accts =
     (\<lparr>undo_pubkey = write_pubkey w, undo_previous = fmlookup accts (write_pubkey w)\<rparr>,
      fmupd (write_pubkey w) (account_from_write w) accts)"

fun apply_writes :: "account_write list \<Rightarrow> accounts_map \<Rightarrow> account_undo list \<times> accounts_map" where
  "apply_writes [] accts = ([], accts)"
| "apply_writes (w # ws) accts =
     (case apply_write w accts of
        (u, accts1) \<Rightarrow> (case apply_writes ws accts1 of (us, accts2) \<Rightarrow> (u # us, accts2)))"

definition apply_node ::
  "fork_id \<Rightarrow> solana_canonicality \<Rightarrow> (solana_canonicality_error + unit) \<times> solana_canonicality" where
  "apply_node f st =
     (case fmlookup (sol_nodes st) f of
        None \<Rightarrow> (Inl UnknownFork, st)
      | Some n \<Rightarrow>
          (case apply_writes (fk_writes n) (sol_accounts st) of
             (us, accts) \<Rightarrow>
               (Inr (), st\<lparr>sol_accounts := accts,
                  sol_nodes := fmupd f (n\<lparr>fk_applied_undo := us\<rparr>) (sol_nodes st)\<rparr>)))"

fun undo_write :: "account_undo \<Rightarrow> accounts_map \<Rightarrow> accounts_map" where
  "undo_write u accts = (case undo_previous u of
     Some previous \<Rightarrow> fmupd (undo_pubkey u) previous accts
   | None \<Rightarrow> fmdrop (undo_pubkey u) accts)"

definition revert_node ::
  "fork_id \<Rightarrow> solana_canonicality \<Rightarrow> (solana_canonicality_error + unit) \<times> solana_canonicality" where
  "revert_node f st =
     (case fmlookup (sol_nodes st) f of
        None \<Rightarrow> (Inl UnknownFork, st)
      | Some n \<Rightarrow>
          (Inr (), st\<lparr>sol_accounts := fold undo_write (rev (fk_applied_undo n)) (sol_accounts st),
             sol_nodes := fmupd f (n\<lparr>fk_applied_undo := []\<rparr>) (sol_nodes st)\<rparr>))"

text \<open>A loop over forks that stops at the first error.\<close>

fun for_forks ::
  "(fork_id \<Rightarrow> solana_canonicality \<Rightarrow> (solana_canonicality_error + unit) \<times> solana_canonicality) \<Rightarrow>
   fork_id list \<Rightarrow> solana_canonicality \<Rightarrow> (solana_canonicality_error + unit) \<times> solana_canonicality" where
  "for_forks body [] st = (Inr (), st)"
| "for_forks body (f # fs) st =
     (case body f st of
        (Inl e, st1) \<Rightarrow> (Inl e, st1)
      | (Inr _, st1) \<Rightarrow> for_forks body fs st1)"

definition activate_optional ::
  "fork_id option \<Rightarrow> solana_canonicality \<Rightarrow>
   ((solana_canonicality_error + unit) \<times> solana_canonicality) option" where
  "activate_optional target st =
     (case (case target of
              None \<Rightarrow> Inr ()
            | Some t \<Rightarrow> and_then (ok_or (fmlookup (sol_nodes st) t) UnknownFork) (\<lambda>n.
                if fk_commitment n = Dead then Inl DeadFork else Inr ())) of
        Inl e \<Rightarrow> Some (Inl e, st)
      | Inr _ \<Rightarrow>
          if sol_active_tip st = target then Some (Inr (), st)
          else (case (case sol_active_tip st of None \<Rightarrow> Some [] | Some tip \<Rightarrow> path_to_root (sol_nodes st) tip) of
                  None \<Rightarrow> None
                | Some current_path \<Rightarrow>
                    (case (case target of None \<Rightarrow> Some [] | Some tip \<Rightarrow> path_to_root (sol_nodes st) tip) of
                       None \<Rightarrow> None
                     | Some target_path \<Rightarrow>
                         let common = find (\<lambda>c. c \<in> set target_path) current_path in
                         Some (case for_forks revert_node
                                 (takeWhile (\<lambda>c. Some c \<noteq> common) current_path) st of
                             (Inl e, st1) \<Rightarrow> (Inl e, st1)
                           | (Inr _, st1) \<Rightarrow>
                               (case for_forks apply_node
                                   (rev (takeWhile (\<lambda>c. Some c \<noteq> common) target_path)) st1 of
                                  (Inl e, st2) \<Rightarrow> (Inl e, st2)
                                | (Inr _, st2) \<Rightarrow> (Inr (), st2\<lparr>sol_active_tip := target\<rparr>))))))"

definition activate ::
  "fork_id \<Rightarrow> solana_canonicality \<Rightarrow> ((solana_canonicality_error + unit) \<times> solana_canonicality) option" where
  "activate f st = activate_optional (Some f) st"

definition record_account_write ::
  "account_write \<Rightarrow> solana_canonicality \<Rightarrow> (solana_canonicality_error + unit) \<times> solana_canonicality" where
  "record_account_write w st =
     (let f = write_fork_id w in
      case fmlookup (sol_nodes st) f of
        None \<Rightarrow> (Inl UnknownFork, st)
      | Some n \<Rightarrow>
          if fk_commitment n = Dead then (Inl DeadFork, st)
          else if (case fk_last_write_version n of None \<Rightarrow> False | Some v \<Rightarrow> write_version w \<le> v)
          then (Inl WriteVersionRegression, st)
          else
            let (accts, n1) =
                  (if sol_active_tip st = Some f
                   then (case apply_write w (sol_accounts st) of
                           (u, a) \<Rightarrow> (a, n\<lparr>fk_applied_undo := fk_applied_undo n @ [u]\<rparr>))
                   else (sol_accounts st, n))
            in (Inr (), st\<lparr>sol_accounts := accts,
                  sol_nodes := fmupd f (n1\<lparr>fk_last_write_version := Some (write_version w),
                    fk_writes := fk_writes n1 @ [w]\<rparr>) (sol_nodes st)\<rparr>))"

section \<open>Death of a fork\<close>

text \<open>
  The dead forks are collected by testing every known fork; \<open>None\<close> when one of the tests does not
  return. Marking them is independent of the order in which the hash map yields them.
\<close>

definition dead_forks :: "fork_nodes \<Rightarrow> fork_id \<Rightarrow> fork_id fset option" where
  "dead_forks ns f =
     (if fBex (fmdom ns) (\<lambda>c. sol_is_ancestor ns f c = None) then None
      else Some (ffilter (\<lambda>c. sol_is_ancestor ns f c = Some True) (fmdom ns)))"

definition mark_nodes :: "fork_id fset \<Rightarrow> fork_nodes \<Rightarrow> fork_nodes" where
  "mark_nodes dead ns = fmmap_keys (\<lambda>k n. if k |\<in>| dead then n\<lparr>fk_commitment := Dead\<rparr> else n) ns"

definition mark_dead ::
  "fork_id \<Rightarrow> solana_canonicality \<Rightarrow>
   ((solana_canonicality_error + commitment_revision option) \<times> solana_canonicality) option" where
  "mark_dead f st =
     (case fmlookup (sol_nodes st) f of
        None \<Rightarrow> Some (Inl UnknownFork, st)
      | Some n \<Rightarrow>
          if fk_commitment n = Dead then Some (Inr None, st)
          else if fk_commitment n = CommitFinalized then Some (Inl FinalizedForkWouldDie, st)
          else (case dead_forks (sol_nodes st) f of
                  None \<Rightarrow> None
                | Some dead \<Rightarrow>
                    if fBex dead (\<lambda>c. case fmlookup (sol_nodes st) c of None \<Rightarrow> False
                         | Some m \<Rightarrow> fk_commitment m = CommitFinalized)
                    then Some (Inl FinalizedForkWouldDie, st)
                    else (case (case sol_active_tip st of
                                  None \<Rightarrow> Some False
                                | Some a \<Rightarrow> sol_is_ancestor (sol_nodes st) f a) of
                            None \<Rightarrow> None
                          | Some inside \<Rightarrow>
                              (case (if inside then activate_optional (fk_parent n) st else Some (Inr (), st)) of
                                 None \<Rightarrow> None
                               | Some (Inl e, st1) \<Rightarrow> Some (Inl e, st1)
                               | Some (Inr _, st1) \<Rightarrow>
                                   (case sol_next_revision (st1\<lparr>sol_nodes := mark_nodes dead (sol_nodes st1)\<rparr>) of
                                      (Inl e, st2) \<Rightarrow> Some (Inl e, st2)
                                    | (Inr _, st2) \<Rightarrow>
                                        Some (Inr (Some \<lparr>commit_revision = sol_revision st2, commit_fork_id = f,
                                          commit_from = fk_commitment n, commit_to = Dead\<rparr>), st2))))))"

definition observe_commitment ::
  "fork_id \<Rightarrow> commitment \<Rightarrow> solana_canonicality \<Rightarrow>
   ((solana_canonicality_error + commitment_revision option) \<times> solana_canonicality) option" where
  "observe_commitment f c st =
     (if c = Dead then mark_dead f st
      else case fmlookup (sol_nodes st) f of
          None \<Rightarrow> Some (Inl UnknownFork, st)
        | Some n \<Rightarrow>
            if fk_commitment n = c then Some (Inr None, st)
            else if fk_commitment n = Dead then Some (Inl DeadFork, st)
            else if rank_less (commitment_rank c) (commitment_rank (fk_commitment n))
            then Some (Inl CommitmentRegression, st)
            else (case sol_next_revision st of
                    (Inl e, st1) \<Rightarrow> Some (Inl e, st1)
                  | (Inr _, st1) \<Rightarrow>
                      Some (Inr (Some \<lparr>commit_revision = sol_revision st1, commit_fork_id = f,
                          commit_from = fk_commitment n, commit_to = c\<rparr>),
                        st1\<lparr>sol_nodes := fmupd f (n\<lparr>fk_commitment := c\<rparr>) (sol_nodes st1)\<rparr>)))"

section \<open>Transactions and reads\<close>

definition record_transaction ::
  "transaction_key \<Rightarrow> solana_canonicality \<Rightarrow> (solana_canonicality_error + bool) \<times> solana_canonicality" where
  "record_transaction k st =
     (case fmlookup (sol_nodes st) (key_fork_id k) of
        None \<Rightarrow> (Inl UnknownFork, st)
      | Some n \<Rightarrow>
          if fk_commitment n = Dead then (Inl DeadFork, st)
          else (Inr (k |\<notin>| fk_transactions n),
                st\<lparr>sol_nodes := fmupd (key_fork_id k)
                  (n\<lparr>fk_transactions := finsert k (fk_transactions n)\<rparr>) (sol_nodes st)\<rparr>))"

definition contains_transaction :: "transaction_key \<Rightarrow> solana_canonicality \<Rightarrow> bool" where
  "contains_transaction k st =
     (case fmlookup (sol_nodes st) (key_fork_id k) of
        None \<Rightarrow> False | Some n \<Rightarrow> k |\<in>| fk_transactions n)"

definition sol_commitment :: "fork_id \<Rightarrow> solana_canonicality \<Rightarrow> commitment option" where
  "sol_commitment f st = map_option fk_commitment (fmlookup (sol_nodes st) f)"

definition sol_account :: "pubkey \<Rightarrow> solana_canonicality \<Rightarrow> account_state option" where
  "sol_account k st = fmlookup (sol_accounts st) k"

definition account_bytes :: "pubkey \<times> account_state \<Rightarrow> bytes" where
  "account_bytes x = (case x of (k, a) \<Rightarrow>
     be_bytes 32 (unat k) @ be_bytes 32 (unat (acct_owner a)) @
     le_bytes 8 (unat (lamports_value (acct_lamports a))) @
     le_bytes 8 (length (acct_data a)) @ acct_data a @
     [if acct_executable a then 1 else 0] @
     le_bytes 8 (unat (acct_rent_epoch a)) @ le_bytes 8 (unat (acct_write_version a)))"

definition sol_preimage :: "solana_canonicality \<Rightarrow> bytes" where
  "sol_preimage st = ascii_bytes ''solana-account-state/v1'' @
     concat (map account_bytes (sorted_list_of_fmap (sol_accounts st)))"

definition sol_state_hash :: "(bytes \<Rightarrow> digest) \<Rightarrow> solana_canonicality \<Rightarrow> digest" where
  "sol_state_hash blake3 st = blake3 (sol_preimage st)"

section \<open>Recovery and pre-execution evidence\<close>

record reconstruction_evidence =
  missing_source_id :: string
  recovery_source_id :: string
  recovery_fork_id :: fork_id
  recovery_observation_id :: digest

definition reconstruction_evidence_new ::
  "string \<Rightarrow> string \<Rightarrow> fork_id \<Rightarrow> digest \<Rightarrow> solana_canonicality_error + reconstruction_evidence" where
  "reconstruction_evidence_new missing recovery f obs =
     (if str_blank missing \<or> str_blank recovery \<or> missing = recovery then Inl InvalidRecoverySources
      else if obs = 0 then Inl InvalidRecoveryObservation
      else Inr \<lparr>missing_source_id = missing, recovery_source_id = recovery, recovery_fork_id = f,
        recovery_observation_id = obs\<rparr>)"

record pre_execution_observation =
  pre_source_id :: string
  pre_signature :: signature
  pre_observed_at_unix_ns :: "64 word"
  pre_transaction_key :: "transaction_key option"

definition pre_execution_new ::
  "string \<Rightarrow> signature \<Rightarrow> 64 word \<Rightarrow> solana_canonicality_error + pre_execution_observation" where
  "pre_execution_new source sig at =
     (if str_blank source then Inl InvalidPreExecutionSource
      else if sint at < 0 then Inl InvalidObservedTime
      else Inr \<lparr>pre_source_id = source, pre_signature = sig, pre_observed_at_unix_ns = at,
        pre_transaction_key = None\<rparr>)"

definition join_execution ::
  "transaction_key \<Rightarrow> pre_execution_observation \<Rightarrow> solana_canonicality_error + pre_execution_observation" where
  "join_execution k p =
     (if pre_transaction_key p \<noteq> None then Inl ExecutionAlreadyJoined
      else if pre_signature p \<noteq> key_signature k then Inl ExecutionSignatureMismatch
      else Inr (p\<lparr>pre_transaction_key := Some k\<rparr>))"

definition is_executed :: "pre_execution_observation \<Rightarrow> bool" where
  "is_executed p \<longleftrightarrow> pre_transaction_key p \<noteq> None"

section \<open>Undoing account writes\<close>

definition acct_step :: "account_write \<Rightarrow> accounts_map \<Rightarrow> (account_undo \<times> accounts_map) option" where
  "acct_step w s = Some (apply_write w s)"

definition acct_undo :: "account_undo \<Rightarrow> accounts_map \<Rightarrow> accounts_map option" where
  "acct_undo u s = Some (undo_write u s)"

interpretation acct_log: undo_log acct_step acct_undo
proof
  fix w s u s'
  assume "acct_step w s = Some (u, s')"
  then have "s' = fmupd (write_pubkey w) (account_from_write w) s"
    "u = \<lparr>undo_pubkey = write_pubkey w, undo_previous = fmlookup s (write_pubkey w)\<rparr>"
    by (auto simp: acct_step_def apply_write_def)
  then show "acct_undo u s' = Some s"
    by (auto simp: acct_undo_def intro!: fmap_ext split: option.split)
qed

lemma run_all_acct: "run_all acct_step ws s = Some (apply_writes ws s)"
  by (induction ws arbitrary: s) (auto simp: acct_step_def split: prod.split)

lemma undo_all_acct: "undo_all acct_undo us s = Some (fold undo_write (rev us) s)"
  by (induction us) (simp_all add: acct_undo_def)

lemma undo_apply_writes: "apply_writes ws s = (us, s') \<Longrightarrow> fold undo_write (rev us) s' = s"
  using acct_log.undo_run [of ws s us s'] by (simp add: run_all_acct undo_all_acct)

lemma length_apply_writes: "length (fst (apply_writes ws s)) = length ws"
  by (induction ws arbitrary: s) (auto split: prod.split, metis fst_conv)

lemma apply_writes_snoc:
  "apply_writes (ws @ [w]) s =
     (case apply_writes ws s of (us, s1) \<Rightarrow> (case apply_write w s1 of (u, s2) \<Rightarrow> (us @ [u], s2)))"
  by (induction ws arbitrary: s) (auto split: prod.split)

section \<open>Paths of the fork graph\<close>

definition sol_par :: "fork_nodes \<Rightarrow> fork_id \<Rightarrow> fork_id option option" where
  "sol_par ns f = map_option fk_parent (fmlookup ns f)"

definition sol_rank :: "fork_id \<Rightarrow> nat" where
  "sol_rank f = unat (slot_value (fork_slot f))"

lemma path_walk_root_path: "root_path (sol_par ns) c fs \<Longrightarrow> path_walk ns c acc = Some (acc @ fs)"
proof (induction arbitrary: acc rule: root_path.induct)
  case root_path_Nil
  show ?case by (subst path_walk.simps) simp
next
  case (root_path_Cons f q fs)
  then show ?case by (subst path_walk.simps) (auto simp: sol_par_def)
qed

lemma path_to_root_path: "root_path (sol_par ns) (Some f) fs \<Longrightarrow> path_to_root ns f = Some fs"
  using path_walk_root_path [of ns "Some f" fs "[]"] by (simp add: path_to_root_def)

section \<open>What the projection holds\<close>

text \<open>
  \<open>projected ns fs s\<close>: along the path \<open>fs\<close> (tip first), applying for every fork some of the writes
  of its journal, in order, gives \<open>s\<close> and the fork's undo operations.
\<close>

fun projected :: "fork_nodes \<Rightarrow> fork_id list \<Rightarrow> accounts_map \<Rightarrow> bool" where
  "projected ns [] s \<longleftrightarrow> s = fmempty"
| "projected ns (f # fs) s \<longleftrightarrow> (\<exists>n s0 ws. fmlookup ns f = Some n \<and> projected ns fs s0 \<and>
     subseq ws (fk_writes n) \<and> apply_writes ws s0 = (fk_applied_undo n, s))"

definition undo_of :: "fork_nodes \<Rightarrow> fork_id \<Rightarrow> account_undo list" where
  "undo_of ns f = (case fmlookup ns f of None \<Rightarrow> [] | Some n \<Rightarrow> fk_applied_undo n)"

definition writes_of :: "fork_nodes \<Rightarrow> fork_id \<Rightarrow> account_write list" where
  "writes_of ns f = (case fmlookup ns f of None \<Rightarrow> [] | Some n \<Rightarrow> fk_writes n)"

lemma projected_Cons:
  "projected ns (f # fs) s \<longleftrightarrow> fmlookup ns f \<noteq> None \<and> (\<exists>s0 ws. projected ns fs s0 \<and>
     subseq ws (writes_of ns f) \<and> apply_writes ws s0 = (undo_of ns f, s))"
  by (cases "fmlookup ns f") (simp_all add: undo_of_def writes_of_def)

lemma projected_mono:
  assumes "projected ns fs s"
    and "\<And>f. f \<in> set fs \<Longrightarrow> fmlookup ns f \<noteq> None \<Longrightarrow> fmlookup ms f \<noteq> None"
    and "\<And>f. f \<in> set fs \<Longrightarrow> undo_of ms f = undo_of ns f"
    and "\<And>f. f \<in> set fs \<Longrightarrow> subseq (writes_of ns f) (writes_of ms f)"
  shows "projected ms fs s"
  using assms
proof (induction fs arbitrary: s)
  case (Cons f fs)
  from Cons.prems(1) obtain s0 ws where f: "fmlookup ns f \<noteq> None" "projected ns fs s0"
    "subseq ws (writes_of ns f)" "apply_writes ws s0 = (undo_of ns f, s)" unfolding projected_Cons by blast
  have "projected ms fs s0" by (rule Cons.IH [OF f(2)]) (use Cons.prems in simp_all)
  moreover have "subseq ws (writes_of ms f)" using f(3) Cons.prems(4) [of f] by (auto intro: subseq_order.trans)
  ultimately show ?case unfolding projected_Cons using f Cons.prems(2,3) by auto
qed simp

text \<open>Nodes up to their undo lists.\<close>

definition forget :: "fork_nodes \<Rightarrow> fork_nodes" where
  "forget ns = fmmap (\<lambda>n. n\<lparr>fk_applied_undo := []\<rparr>) ns"

lemma forget_eqD:
  assumes "forget ns = forget ms"
  shows "sol_par ns = sol_par ms" "writes_of ns = writes_of ms"
    "fmlookup ns f = None \<longleftrightarrow> fmlookup ms f = None"
    "map_option fk_commitment (fmlookup ns f) = map_option fk_commitment (fmlookup ms f)"
proof -
  have eq: "map_option (\<lambda>n. n\<lparr>fk_applied_undo := []\<rparr>) (fmlookup ns f) =
      map_option (\<lambda>n. n\<lparr>fk_applied_undo := []\<rparr>) (fmlookup ms f)" for f
    using arg_cong [OF assms, of "\<lambda>m. fmlookup m f"] by (simp add: forget_def)
  have same: "map_option g (fmlookup ns f) = map_option g (fmlookup ms f)"
    if "\<And>n. g (n\<lparr>fk_applied_undo := []\<rparr>) = g n" for g :: "fork_node \<Rightarrow> 'a" and f
    using arg_cong [OF eq [of f], of "map_option g"] that by (simp add: option.map_comp comp_def)
  show "sol_par ns = sol_par ms" unfolding sol_par_def by (rule ext) (rule same, simp)
  show "writes_of ns = writes_of ms"
  proof
    fix f
    show "writes_of ns f = writes_of ms f"
      using same [of fk_writes f] by (auto simp: writes_of_def split: option.splits)
  qed
  show "fmlookup ns f = None \<longleftrightarrow> fmlookup ms f = None" using eq [of f] by (auto simp: map_option_case split: option.splits)
  show "map_option fk_commitment (fmlookup ns f) = map_option fk_commitment (fmlookup ms f)"
    by (rule same) simp
qed

lemma forget_upd: "fmlookup ns f = Some n \<Longrightarrow> forget (fmupd f (n\<lparr>fk_applied_undo := us\<rparr>) ns) = forget ns"
  unfolding forget_def by (rule fmap_ext) auto

lemma undo_of_upd: "undo_of (fmupd f n ns) g = (if g = f then fk_applied_undo n else undo_of ns g)"
  by (simp add: undo_of_def)

lemma writes_of_upd: "writes_of (fmupd f n ns) g = (if g = f then fk_writes n else writes_of ns g)"
  by (simp add: writes_of_def)

lemma projected_fresh:
  assumes "projected ns fs s" "f \<notin> set fs"
  shows "projected (fmupd f n ns) fs s"
  by (rule projected_mono [OF assms(1)]) (use assms(2) in \<open>auto simp: undo_of_upd writes_of_upd\<close>)

lemma for_forks_append:
  "for_forks body (xs @ ys) st =
     (case for_forks body xs st of (Inl e, st1) \<Rightarrow> (Inl e, st1) | (Inr _, st1) \<Rightarrow> for_forks body ys st1)"
  by (induction xs arbitrary: st) (auto split: prod.split sum.split)

lemma revert_forks:
  "projected (sol_nodes st) (ds @ cs) (sol_accounts st) \<Longrightarrow> distinct (ds @ cs) \<Longrightarrow>
   \<exists>st1. for_forks revert_node ds st = (Inr (), st1) \<and> forget (sol_nodes st1) = forget (sol_nodes st) \<and>
     projected (sol_nodes st1) cs (sol_accounts st1) \<and>
     (\<forall>f. undo_of (sol_nodes st1) f = (if f \<in> set ds then [] else undo_of (sol_nodes st) f)) \<and>
     sol_active_tip st1 = sol_active_tip st \<and> sol_root st1 = sol_root st \<and> sol_revision st1 = sol_revision st"
proof (induction ds arbitrary: st)
  case (Cons f ds)
  from Cons.prems(1) obtain n s0 where n: "fmlookup (sol_nodes st) f = Some n"
    and s0: "projected (sol_nodes st) (ds @ cs) s0"
    and ap: "\<exists>ws. apply_writes ws s0 = (fk_applied_undo n, sol_accounts st)"
    by auto
  let ?st1 = "st\<lparr>sol_accounts := s0, sol_nodes := fmupd f (n\<lparr>fk_applied_undo := []\<rparr>) (sol_nodes st)\<rparr>"
  have r: "revert_node f st = (Inr (), ?st1)"
    using n ap undo_apply_writes by (auto simp: revert_node_def)
  have "projected (sol_nodes ?st1) (ds @ cs) (sol_accounts ?st1)"
    using projected_fresh [OF s0] Cons.prems(2) by simp
  from Cons.IH [OF this] Cons.prems(2) obtain st2 where
    "for_forks revert_node ds ?st1 = (Inr (), st2)" "forget (sol_nodes st2) = forget (sol_nodes ?st1)"
    "projected (sol_nodes st2) cs (sol_accounts st2)"
    "\<forall>g. undo_of (sol_nodes st2) g = (if g \<in> set ds then [] else undo_of (sol_nodes ?st1) g)"
    "sol_active_tip st2 = sol_active_tip st" "sol_root st2 = sol_root st" "sol_revision st2 = sol_revision st"
    by auto
  then show ?case using r forget_upd [OF n, of "[]"] by (auto simp: undo_of_upd)
qed auto

lemma apply_forks:
  "projected (sol_nodes st) cs (sol_accounts st) \<Longrightarrow> distinct (ks @ cs) \<Longrightarrow>
   (\<And>f. f \<in> set ks \<Longrightarrow> fmlookup (sol_nodes st) f \<noteq> None) \<Longrightarrow>
   \<exists>st1. for_forks apply_node (rev ks) st = (Inr (), st1) \<and> forget (sol_nodes st1) = forget (sol_nodes st) \<and>
     projected (sol_nodes st1) (ks @ cs) (sol_accounts st1) \<and>
     (\<forall>f. f \<notin> set ks \<longrightarrow> undo_of (sol_nodes st1) f = undo_of (sol_nodes st) f) \<and>
     (\<forall>f \<in> set ks. length (undo_of (sol_nodes st1) f) = length (writes_of (sol_nodes st1) f)) \<and>
     sol_active_tip st1 = sol_active_tip st \<and> sol_root st1 = sol_root st \<and> sol_revision st1 = sol_revision st"
proof (induction ks)
  case (Cons f ks)
  then obtain st1 where st1: "for_forks apply_node (rev ks) st = (Inr (), st1)"
    "forget (sol_nodes st1) = forget (sol_nodes st)" "projected (sol_nodes st1) (ks @ cs) (sol_accounts st1)"
    "\<forall>f. f \<notin> set ks \<longrightarrow> undo_of (sol_nodes st1) f = undo_of (sol_nodes st) f"
    "\<forall>f \<in> set ks. length (undo_of (sol_nodes st1) f) = length (writes_of (sol_nodes st1) f)"
    "sol_active_tip st1 = sol_active_tip st" "sol_root st1 = sol_root st" "sol_revision st1 = sol_revision st"
    by auto
  obtain n where n: "fmlookup (sol_nodes st1) f = Some n"
    using forget_eqD(3) [OF st1(2), of f] Cons.prems(3) [of f] by auto
  obtain us s where us: "apply_writes (fk_writes n) (sol_accounts st1) = (us, s)" by fastforce
  let ?st2 = "st1\<lparr>sol_accounts := s, sol_nodes := fmupd f (n\<lparr>fk_applied_undo := us\<rparr>) (sol_nodes st1)\<rparr>"
  have len: "length us = length (fk_writes n)" using length_apply_writes [of "fk_writes n"] us by (metis fst_conv)
  have "projected (sol_nodes ?st2) (ks @ cs) (sol_accounts st1)"
    using projected_fresh [OF st1(3)] Cons.prems(2) by simp
  then have "projected (sol_nodes ?st2) ((f # ks) @ cs) (sol_accounts ?st2)"
    using us len by auto
  moreover have "for_forks apply_node (rev (f # ks)) st = (Inr (), ?st2)"
    using st1(1) n us by (simp add: for_forks_append apply_node_def)
  moreover have "forget (sol_nodes ?st2) = forget (sol_nodes st)"
    using forget_upd [OF n] st1(2) by simp
  ultimately show ?case
    using st1 len Cons.prems(2) by (intro exI [of _ ?st2]) (auto simp: undo_of_upd writes_of_upd)
qed auto

section \<open>The invariant\<close>

definition sol_dead :: "fork_nodes \<Rightarrow> fork_id \<Rightarrow> bool" where
  "sol_dead ns f \<longleftrightarrow> map_option fk_commitment (fmlookup ns f) = Some Dead"

definition dead_closed :: "fork_nodes \<Rightarrow> bool" where
  "dead_closed ns \<longleftrightarrow> (\<forall>f p. sol_par ns f = Some (Some p) \<longrightarrow> sol_dead ns p \<longrightarrow> sol_dead ns f)"

definition projection_ok :: "fork_nodes \<Rightarrow> fork_id option \<Rightarrow> accounts_map \<Rightarrow> bool" where
  "projection_ok ns tip accts \<longleftrightarrow> (\<exists>fs. root_path (sol_par ns) tip fs \<and> projected ns fs accts \<and>
     (\<forall>f. f \<notin> set fs \<longrightarrow> undo_of ns f = []))"

definition sol_wf :: "solana_canonicality \<Rightarrow> bool" where
  "sol_wf st \<longleftrightarrow> ranked (sol_par (sol_nodes st)) sol_rank \<and> dead_closed (sol_nodes st) \<and>
     (\<forall>t. sol_active_tip st = Some t \<longrightarrow> \<not> sol_dead (sol_nodes st) t) \<and>
     projection_ok (sol_nodes st) (sol_active_tip st) (sol_accounts st)"

lemma sol_wf_new: "sol_wf sol_new"
proof -
  have "projection_ok fmempty None fmempty"
    unfolding projection_ok_def
    by (intro exI [of _ "[]"]) (simp add: root_path_Nil undo_of_def)
  then show ?thesis
    by (simp add: sol_wf_def sol_new_def ranked_def dead_closed_def sol_par_def)
qed

lemma sol_dead_forget: "forget ns = forget ms \<Longrightarrow> sol_dead ns f = sol_dead ms f"
  unfolding sol_dead_def by (simp only: forget_eqD(4) [of ns ms f])

lemma dead_closed_forget:
  assumes "forget ns = forget ms"
  shows "dead_closed ns = dead_closed ms"
  unfolding dead_closed_def forget_eqD(1) [OF assms] sol_dead_forget [OF assms] ..

lemma sol_is_ancestor_path:
  assumes "ranked (sol_par ns) sol_rank" "fmlookup ns d \<noteq> None"
  obtains fs where "root_path (sol_par ns) (Some d) fs" "\<And>a. sol_is_ancestor ns a d = Some (a \<in> set fs)"
proof -
  obtain fs where fs: "root_path (sol_par ns) (Some d) fs"
    using root_path_exists [OF assms(1), of d] assms(2) by (auto simp: sol_par_def)
  then show thesis using that path_to_root_path [OF fs] by (simp add: sol_is_ancestor_def)
qed

subsection \<open>Switching the projection\<close>

text \<open>The test of the target of an activation.\<close>

definition live_target :: "fork_id option \<Rightarrow> solana_canonicality \<Rightarrow> bool" where
  "live_target target st \<longleftrightarrow> (case target of None \<Rightarrow> True
     | Some t \<Rightarrow> fmlookup (sol_nodes st) t \<noteq> None \<and> \<not> sol_dead (sol_nodes st) t)"

lemma activate_optional_rejects:
  "\<not> live_target target st \<Longrightarrow> \<exists>e. activate_optional target st = Some (Inl e, st)"
  by (auto simp: live_target_def activate_optional_def sol_dead_def split: option.splits)

lemma path_option:
  assumes "root_path (sol_par ns) c fs"
  shows "(case c of None \<Rightarrow> Some [] | Some f \<Rightarrow> path_to_root ns f) = Some fs"
  using assms path_to_root_path by (auto split: option.split)

text \<open>Every journalled write of the forks on a path is applied.\<close>

definition caught_up :: "fork_nodes \<Rightarrow> fork_id list \<Rightarrow> bool" where
  "caught_up ns fs \<longleftrightarrow> (\<forall>f \<in> set fs. length (undo_of ns f) = length (writes_of ns f))"

definition prompt :: "solana_canonicality \<Rightarrow> bool" where
  "prompt st \<longleftrightarrow> (\<forall>fs. root_path (sol_par (sol_nodes st)) (sol_active_tip st) fs \<longrightarrow> caught_up (sol_nodes st) fs)"

lemma activate_optional_live:
  assumes wf: "sol_wf st" and live: "live_target target st"
  obtains st' where "activate_optional target st = Some (Inr (), st')" "sol_wf st'"
    "sol_active_tip st' = target" "forget (sol_nodes st') = forget (sol_nodes st)"
    "sol_root st' = sol_root st" "sol_revision st' = sol_revision st" "prompt st \<Longrightarrow> prompt st'"
proof (cases "sol_active_tip st = target")
  case True
  with live have "activate_optional target st = Some (Inr (), st)"
    by (auto simp: activate_optional_def live_target_def sol_dead_def split: option.splits)
  then show thesis using that wf True by blast
next
  case False
  let ?ns = "sol_nodes st"
  from wf have rk: "ranked (sol_par ?ns) sol_rank" by (simp add: sol_wf_def)
  from wf obtain old where old: "root_path (sol_par ?ns) (sol_active_tip st) old"
    "projected ?ns old (sol_accounts st)" "\<forall>f. f \<notin> set old \<longrightarrow> undo_of ?ns f = []"
    by (auto simp: sol_wf_def projection_ok_def)
  obtain new where new: "root_path (sol_par ?ns) target new"
  proof (cases target)
    case None
    then show thesis using that root_path_Nil by metis
  next
    case (Some t)
    then show thesis using that root_path_exists [OF rk, of t] live by (auto simp: live_target_def sol_par_def)
  qed
  have dist: "distinct old" "distinct new" using root_path_distinct [OF rk] old(1) new by auto
  let ?common = "find (\<lambda>c. c \<in> set new) old"
  obtain ds ks cs where sp: "old = ds @ cs" "new = ks @ cs"
    "takeWhile (\<lambda>k. Some k \<noteq> ?common) old = ds" "takeWhile (\<lambda>k. Some k \<noteq> ?common) new = ks"
    using root_path_split [OF old(1) new] dist(2) by metis
  from revert_forks [of st ds cs] old(2) sp(1) dist(1) obtain st1 where
    r: "for_forks revert_node ds st = (Inr (), st1)" "forget (sol_nodes st1) = forget ?ns"
      "projected (sol_nodes st1) cs (sol_accounts st1)"
      "\<And>f. undo_of (sol_nodes st1) f = (if f \<in> set ds then [] else undo_of ?ns f)"
      "sol_root st1 = sol_root st" "sol_revision st1 = sol_revision st" by auto
  have known: "fmlookup (sol_nodes st1) f \<noteq> None" if "f \<in> set ks" for f
    using root_path_known [OF new, of f] that sp(2) forget_eqD(3) [OF r(2), of f] by (auto simp: sol_par_def)
  from apply_forks [OF r(3), of ks] dist(2) sp(2) known obtain st2 where
    a: "for_forks apply_node (rev ks) st1 = (Inr (), st2)" "forget (sol_nodes st2) = forget (sol_nodes st1)"
      "projected (sol_nodes st2) (ks @ cs) (sol_accounts st2)"
      "\<And>f. f \<notin> set ks \<Longrightarrow> undo_of (sol_nodes st2) f = undo_of (sol_nodes st1) f"
      "\<And>f. f \<in> set ks \<Longrightarrow> length (undo_of (sol_nodes st2) f) = length (writes_of (sol_nodes st2) f)"
      "sol_root st2 = sol_root st1" "sol_revision st2 = sol_revision st1" by auto
  define st' where "st' = st2\<lparr>sol_active_tip := target\<rparr>"
  have fg: "forget (sol_nodes st') = forget ?ns" using a(2) r(2) by (simp add: st'_def)
  have eq: "activate_optional target st = Some (Inr (), st')"
    using live False path_option [OF old(1)] path_option [OF new] sp(3,4) r(1) a(1)
    by (auto simp: activate_optional_def live_target_def sol_dead_def st'_def Let_def split: option.splits)
  have undo: "undo_of (sol_nodes st') f = []" if "f \<notin> set new" for f
    using a(4) [of f] r(4) [of f] old(3) that sp by (auto simp: st'_def)
  have par: "sol_par (sol_nodes st') = sol_par ?ns" by (rule forget_eqD(1) [OF fg])
  show thesis
  proof (rule that [OF eq _ _ fg])
    have "projection_ok (sol_nodes st') target (sol_accounts st')"
      unfolding projection_ok_def par using new a(3) sp(2) undo by (auto simp: st'_def)
    moreover have "\<not> sol_dead (sol_nodes st') t" if "target = Some t" for t
      using live that sol_dead_forget [OF fg] by (simp add: live_target_def)
    ultimately show "sol_wf st'"
      unfolding sol_wf_def par dead_closed_forget [OF fg] using wf rk by (simp add: sol_wf_def st'_def)
    show "prompt st'" if pr: "prompt st"
    proof -
      have "length (undo_of (sol_nodes st') f) = length (writes_of (sol_nodes st') f)" if f: "f \<in> set new" for f
      proof (cases "f \<in> set ks")
        case True
        then show ?thesis using a(5) by (simp add: st'_def)
      next
        case False
        then have "f \<in> set cs" "f \<notin> set ds" using f sp dist(1) by auto
        then have "undo_of (sol_nodes st') f = undo_of ?ns f" using a(4) r(4) False by (simp add: st'_def)
        moreover have "length (undo_of ?ns f) = length (writes_of ?ns f)"
          using pr old(1) \<open>f \<in> set cs\<close> sp(1) by (auto simp: prompt_def caught_up_def)
        ultimately show ?thesis using forget_eqD(2) [OF fg] by simp
      qed
      then show ?thesis
        unfolding prompt_def par using root_path_det [OF new] by (auto simp: caught_up_def st'_def)
    qed
  qed (simp_all add: st'_def a r)
qed

subsection \<open>Operations that keep the shape\<close>

lemma projection_ok_same:
  assumes "sol_par ms = sol_par ns" "undo_of ms = undo_of ns" "writes_of ms = writes_of ns"
  shows "projection_ok ns tip s \<Longrightarrow> projection_ok ms tip s" "caught_up ms fs = caught_up ns fs"
proof -
  have dom: "fmlookup ms f \<noteq> None \<longleftrightarrow> fmlookup ns f \<noteq> None" for f
    using fun_cong [OF assms(1), of f] by (auto simp: sol_par_def map_option_case split: option.splits)
  show "projection_ok ns tip s \<Longrightarrow> projection_ok ms tip s"
    unfolding projection_ok_def assms
    using projected_mono [of ns _ s ms] dom assms(2,3) by (metis subseq_order.order_refl)
  show "caught_up ms fs = caught_up ns fs" by (simp add: caught_up_def assms)
qed

lemma sol_wf_same:
  assumes wf: "sol_wf st"
    and same: "sol_par ms = sol_par (sol_nodes st)" "undo_of ms = undo_of (sol_nodes st)"
      "writes_of ms = writes_of (sol_nodes st)"
    and dead: "dead_closed ms" "\<And>t. sol_active_tip st = Some t \<Longrightarrow> \<not> sol_dead ms t"
    and st': "sol_nodes st' = ms" "sol_active_tip st' = sol_active_tip st" "sol_accounts st' = sol_accounts st"
  shows "sol_wf st'" "prompt st \<Longrightarrow> prompt st'"
  using wf dead projection_ok_same(1) [OF same] projection_ok_same(2) [OF same] st'
  by (simp_all add: sol_wf_def prompt_def same(1))

text \<open>Replacing one node by one with the same parent, writes, undo list and life.\<close>

lemma node_upd_same:
  assumes "fmlookup ns f = Some n" "fk_parent m = fk_parent n" "fk_writes m = fk_writes n"
    "fk_applied_undo m = fk_applied_undo n"
  shows "sol_par (fmupd f m ns) = sol_par ns" "undo_of (fmupd f m ns) = undo_of ns"
    "writes_of (fmupd f m ns) = writes_of ns"
  using assms by (auto simp: sol_par_def undo_of_def writes_of_def fun_eq_iff)

lemma dead_upd_same:
  assumes "fmlookup ns f = Some n" "(fk_commitment m = Dead) = (fk_commitment n = Dead)"
  shows "sol_dead (fmupd f m ns) g = sol_dead ns g"
  using assms by (auto simp: sol_dead_def)

lemma sol_wf_node_upd:
  assumes wf: "sol_wf st" and n: "fmlookup (sol_nodes st) f = Some n"
    and m: "fk_parent m = fk_parent n" "fk_writes m = fk_writes n" "fk_applied_undo m = fk_applied_undo n"
      "(fk_commitment m = Dead) = (fk_commitment n = Dead)"
    and st': "sol_nodes st' = fmupd f m (sol_nodes st)" "sol_active_tip st' = sol_active_tip st"
      "sol_accounts st' = sol_accounts st"
  shows "sol_wf st'" "prompt st \<Longrightarrow> prompt st'"
proof -
  note same = node_upd_same [OF n m(1-3)]
  have "dead_closed (fmupd f m (sol_nodes st))"
    using wf unfolding sol_wf_def dead_closed_def same(1) dead_upd_same [OF n m(4)] by blast
  moreover have "\<not> sol_dead (fmupd f m (sol_nodes st)) t" if "sol_active_tip st = Some t" for t
    using wf that unfolding dead_upd_same [OF n m(4)] by (simp add: sol_wf_def)
  ultimately show "sol_wf st'" "prompt st \<Longrightarrow> prompt st'"
    using sol_wf_same [OF wf same _ _ st'] by blast+
qed

lemma observe_slot_wf:
  assumes wf: "sol_wf st" and op: "observe_slot f parent st = (r, st')"
  shows "sol_wf st'" "prompt st \<Longrightarrow> prompt st'" "isl r \<Longrightarrow> st' = st"
proof -
  let ?ns = "sol_nodes st"
  define n where "n = \<lparr>fk_parent = parent, fk_commitment = Received, fk_transactions = {||}, fk_writes = [],
    fk_last_write_version = None, fk_applied_undo = []\<rparr>"
  have cases: "st' = st \<or> r = Inr () \<and> fmlookup ?ns f = None \<and>
      (\<forall>p. parent = Some p \<longrightarrow> (\<exists>m. fmlookup ?ns p = Some m \<and> fk_commitment m \<noteq> Dead \<and> sol_rank p < sol_rank f)) \<and>
      sol_nodes st' = fmupd f n ?ns \<and> sol_active_tip st' = sol_active_tip st \<and> sol_accounts st' = sol_accounts st"
    using op by (auto simp: observe_slot_def n_def rust_result sol_rank_def word_le_nat_alt
        split: option.splits if_splits sum.splits)
  show "isl r \<Longrightarrow> st' = st" using cases by auto
  have new: "sol_wf st' \<and> (prompt st \<longrightarrow> prompt st')"
    if fresh: "fmlookup ?ns f = None"
      and par: "\<forall>p. parent = Some p \<longrightarrow> (\<exists>m. fmlookup ?ns p = Some m \<and> fk_commitment m \<noteq> Dead \<and> sol_rank p < sol_rank f)"
      and st': "sol_nodes st' = fmupd f n ?ns" "sol_active_tip st' = sol_active_tip st" "sol_accounts st' = sol_accounts st"
  proof -
    have spar: "sol_par (fmupd f n ?ns) = (sol_par ?ns)(f := Some parent)"
      by (auto simp: sol_par_def n_def fun_eq_iff)
    have fpar: "sol_par ?ns f = None" using fresh by (simp add: sol_par_def)
    have undo: "undo_of (fmupd f n ?ns) = undo_of ?ns" "writes_of (fmupd f n ?ns) = writes_of ?ns"
      using fresh by (auto simp: undo_of_def writes_of_def n_def fun_eq_iff)
    have dead: "sol_dead (fmupd f n ?ns) g = sol_dead ?ns g" for g
      using fresh by (auto simp: sol_dead_def n_def)
    from wf obtain fs where rk: "ranked (sol_par ?ns) sol_rank" and dc: "dead_closed ?ns"
      and tip: "\<forall>t. sol_active_tip st = Some t \<longrightarrow> \<not> sol_dead ?ns t"
      and fs: "root_path (sol_par ?ns) (sol_active_tip st) fs" "projected ?ns fs (sol_accounts st)"
        "\<forall>f. f \<notin> set fs \<longrightarrow> undo_of ?ns f = []"
      by (auto simp: sol_wf_def projection_ok_def)
    have "ranked (sol_par (fmupd f n ?ns)) sol_rank"
      using rk par fresh unfolding spar ranked_def by (auto simp: sol_par_def)
    moreover have "dead_closed (fmupd f n ?ns)"
      unfolding dead_closed_def dead spar
    proof (intro allI impI)
      fix g p
      assume g: "((sol_par ?ns)(f := Some parent)) g = Some (Some p)" and p: "sol_dead ?ns p"
      show "sol_dead ?ns g"
      proof (cases "g = f")
        case True
        with g par p show ?thesis by (auto simp: sol_dead_def)
      next
        case False
        with g p dc show ?thesis by (simp add: dead_closed_def)
      qed
    qed
    moreover have path: "root_path (sol_par (fmupd f n ?ns)) (sol_active_tip st) fs"
      unfolding spar by (rule root_path_insert [OF fpar fs(1)])
    moreover have "projected (fmupd f n ?ns) fs (sol_accounts st)"
      using root_path_known [OF fs(1), of f] fpar by (intro projected_fresh [OF fs(2)]) auto
    ultimately have "sol_wf st'"
      unfolding sol_wf_def projection_ok_def st' dead undo using tip fs(3) by blast
    moreover have "prompt st \<longrightarrow> prompt st'"
      unfolding prompt_def st' caught_up_def undo using root_path_det [OF path] fs(1) by blast
    ultimately show ?thesis by blast
  qed
  show "sol_wf st'" "prompt st \<Longrightarrow> prompt st'" using cases new wf by auto
qed

lemma record_transaction_wf:
  assumes wf: "sol_wf st" and op: "record_transaction k st = (r, st')"
  shows "sol_wf st'" "prompt st \<Longrightarrow> prompt st'" "isl r \<Longrightarrow> st' = st"
proof -
  have cases: "st' = st \<or> (\<exists>n. fmlookup (sol_nodes st) (key_fork_id k) = Some n \<and> \<not> isl r \<and>
      st' = st\<lparr>sol_nodes := fmupd (key_fork_id k)
        (n\<lparr>fk_transactions := finsert k (fk_transactions n)\<rparr>) (sol_nodes st)\<rparr>)"
    using op by (auto simp: record_transaction_def split: option.splits if_splits)
  then show "isl r \<Longrightarrow> st' = st" by auto
  have "sol_wf st' \<and> (prompt st \<longrightarrow> prompt st')"
  proof (cases "st' = st")
    case False
    with cases obtain n where n: "fmlookup (sol_nodes st) (key_fork_id k) = Some n"
      and st': "st' = st\<lparr>sol_nodes := fmupd (key_fork_id k)
        (n\<lparr>fk_transactions := finsert k (fk_transactions n)\<rparr>) (sol_nodes st)\<rparr>" by blast
    show ?thesis using sol_wf_node_upd [OF wf n, of "n\<lparr>fk_transactions := finsert k (fk_transactions n)\<rparr>" st'] st'
      by simp
  qed (use wf in simp)
  then show "sol_wf st'" "prompt st \<Longrightarrow> prompt st'" by auto
qed

lemma sol_next_revision_eq:
  "sol_next_revision st = (r, st') \<Longrightarrow> sol_nodes st' = sol_nodes st \<and> sol_active_tip st' = sol_active_tip st \<and>
     sol_accounts st' = sol_accounts st \<and> sol_root st' = sol_root st \<and> (isl r \<longrightarrow> st' = st \<and> r = Inl RevisionOverflow)"
  by (auto simp: sol_next_revision_def split: option.splits)

lemma observe_commitment_cases:
  assumes "c \<noteq> Dead" "observe_commitment f c st = Some (r, st')"
  shows "st' = st \<or> (\<exists>n. fmlookup (sol_nodes st) f = Some n \<and> fk_commitment n \<noteq> Dead \<and> fk_commitment n \<noteq> c \<and>
      \<not> rank_less (commitment_rank c) (commitment_rank (fk_commitment n)) \<and> \<not> isl r \<and>
      sol_nodes st' = fmupd f (n\<lparr>fk_commitment := c\<rparr>) (sol_nodes st) \<and> sol_active_tip st' = sol_active_tip st \<and>
      sol_accounts st' = sol_accounts st)"
  using assms
  by (auto simp: observe_commitment_def split: option.splits if_splits sum.splits prod.splits
      dest!: sol_next_revision_eq)

lemma observe_commitment_wf:
  assumes wf: "sol_wf st" and c: "c \<noteq> Dead" and op: "observe_commitment f c st = Some (r, st')"
  shows "sol_wf st' \<and> (prompt st \<longrightarrow> prompt st') \<and> (isl r \<longrightarrow> st' = st)"
proof (cases "st' = st")
  case False
  with observe_commitment_cases [OF c op] obtain n where n: "fmlookup (sol_nodes st) f = Some n"
    "fk_commitment n \<noteq> Dead" "\<not> isl r"
    and st': "sol_nodes st' = fmupd f (n\<lparr>fk_commitment := c\<rparr>) (sol_nodes st)"
      "sol_active_tip st' = sol_active_tip st" "sol_accounts st' = sol_accounts st" by blast
  show ?thesis using sol_wf_node_upd [OF wf n(1) _ _ _ _ st'] n c by simp
qed (use wf in simp)

subsection \<open>Account writes\<close>

lemma record_account_write_cases:
  assumes "record_account_write w st = (r, st')"
  shows "st' = st \<or> (\<exists>n m. fmlookup (sol_nodes st) (write_fork_id w) = Some n \<and> \<not> isl r \<and> fk_commitment n \<noteq> Dead \<and>
      fk_parent m = fk_parent n \<and> fk_commitment m = fk_commitment n \<and> fk_writes m = fk_writes n @ [w] \<and>
      fk_last_write_version m = Some (write_version w) \<and>
      (\<forall>v. fk_last_write_version n = Some v \<longrightarrow> v < write_version w) \<and>
      sol_nodes st' = fmupd (write_fork_id w) m (sol_nodes st) \<and> sol_active_tip st' = sol_active_tip st \<and>
      (fk_applied_undo m, sol_accounts st') =
        (if sol_active_tip st = Some (write_fork_id w)
         then (fk_applied_undo n @ [fst (apply_write w (sol_accounts st))], snd (apply_write w (sol_accounts st)))
         else (fk_applied_undo n, sol_accounts st)))"
proof (cases "st' = st")
  case False
  let ?f = "write_fork_id w"
  obtain u a where ua: "apply_write w (sol_accounts st) = (u, a)" by fastforce
  from assms False obtain n where n: "fmlookup (sol_nodes st) ?f = Some n" "fk_commitment n \<noteq> Dead"
    "\<forall>v. fk_last_write_version n = Some v \<longrightarrow> v < write_version w"
    by (auto simp: record_account_write_def Let_def split: option.splits if_splits)
  let ?base = "if sol_active_tip st = Some ?f then n\<lparr>fk_applied_undo := fk_applied_undo n @ [u]\<rparr> else n"
  let ?m = "?base\<lparr>fk_last_write_version := Some (write_version w), fk_writes := fk_writes n @ [w]\<rparr>"
  have "r = Inr () \<and> st' = st\<lparr>sol_accounts := (if sol_active_tip st = Some ?f then a else sol_accounts st),
      sol_nodes := fmupd ?f ?m (sol_nodes st)\<rparr>"
    using assms False n ua by (auto simp: record_account_write_def Let_def split: option.splits if_splits)
  then show ?thesis
    using n ua by (intro disjI2 exI [of _ n] exI [of _ ?m]) simp
qed simp

lemma record_account_write_wf:
  assumes wf: "sol_wf st" and op: "record_account_write w st = (r, st')"
  shows "sol_wf st' \<and> (isl r \<longrightarrow> st' = st) \<and>
    (prompt st \<and> (\<forall>fs. root_path (sol_par (sol_nodes st)) (sol_active_tip st) fs \<longrightarrow> write_fork_id w \<notin> set (tl fs)) \<longrightarrow> prompt st')"
proof (cases "st' = st")
  case False
  let ?f = "write_fork_id w" and ?ns = "sol_nodes st"
  from record_account_write_cases [OF op] False obtain n m where n: "fmlookup ?ns ?f = Some n" "\<not> isl r"
    and m: "fk_parent m = fk_parent n" "fk_commitment m = fk_commitment n" "fk_writes m = fk_writes n @ [w]"
    and st': "sol_nodes st' = fmupd ?f m ?ns" "sol_active_tip st' = sol_active_tip st"
    and ap: "(fk_applied_undo m, sol_accounts st') = (if sol_active_tip st = Some ?f
         then (fk_applied_undo n @ [fst (apply_write w (sol_accounts st))], snd (apply_write w (sol_accounts st)))
         else (fk_applied_undo n, sol_accounts st))"
    by blast
  from wf obtain fs where fs: "root_path (sol_par ?ns) (sol_active_tip st) fs" "projected ?ns fs (sol_accounts st)"
      "\<forall>f. f \<notin> set fs \<longrightarrow> undo_of ?ns f = []" and rk: "ranked (sol_par ?ns) sol_rank"
    by (auto simp: sol_wf_def projection_ok_def)
  have par: "sol_par (fmupd ?f m ?ns) = sol_par ?ns" using n m by (auto simp: sol_par_def fun_eq_iff)
  have dead: "sol_dead (fmupd ?f m ?ns) g = sol_dead ?ns g" for g using n m by (auto simp: sol_dead_def)
  have dc: "dead_closed (fmupd ?f m ?ns)" using wf unfolding dead_closed_def par dead by (auto simp: sol_wf_def dead_closed_def)
  have un: "undo_of ?ns ?f = fk_applied_undo n" "writes_of ?ns ?f = fk_writes n"
    using n by (simp_all add: undo_of_def writes_of_def)
  have proj: "projected (fmupd ?f m ?ns) fs (sol_accounts st') \<and>
      (\<forall>f. f \<notin> set fs \<longrightarrow> undo_of (fmupd ?f m ?ns) f = [])"
  proof (cases "sol_active_tip st = Some ?f")
    case True
    with fs(1) obtain gs where gs: "fs = ?f # gs" by (auto elim: root_path_SomeE)
    have "distinct fs" by (rule root_path_distinct [OF rk fs(1)])
    from fs(2) gs obtain s0 ws where s0: "projected ?ns gs s0" "subseq ws (fk_writes n)"
      "apply_writes ws s0 = (fk_applied_undo n, sol_accounts st)" using n by auto
    have "projected (fmupd ?f m ?ns) gs s0"
      using projected_fresh [OF s0(1)] \<open>distinct fs\<close> gs by simp
    moreover have "subseq (ws @ [w]) (fk_writes m)" using s0(2) m(3) by (simp add: list_emb_append_mono)
    moreover have "apply_writes (ws @ [w]) s0 = (fk_applied_undo m, sol_accounts st')"
      using s0(3) ap True by (simp add: apply_writes_snoc split: prod.split)
    ultimately have "projected (fmupd ?f m ?ns) fs (sol_accounts st')" unfolding gs by auto
    then show ?thesis using fs(3) gs by (auto simp: undo_of_upd)
  next
    case False
    then have same: "undo_of (fmupd ?f m ?ns) = undo_of ?ns" using ap un by (auto simp: undo_of_upd fun_eq_iff)
    have "subseq (writes_of ?ns f) (writes_of (fmupd ?f m ?ns) f)" for f
      using un m by (auto simp: writes_of_upd)
    then have "projected (fmupd ?f m ?ns) fs (sol_accounts st)"
      using same by (intro projected_mono [OF fs(2)]) auto
    then show ?thesis using False ap fs(3) same by simp
  qed
  have "sol_wf st'"
    using wf fs(1) proj dc unfolding sol_wf_def projection_ok_def st' par dead by blast
  moreover have "prompt st'" if pr: "prompt st"
    and late: "\<forall>fs. root_path (sol_par ?ns) (sol_active_tip st) fs \<longrightarrow> ?f \<notin> set (tl fs)"
  proof -
    have "caught_up ?ns fs" using pr fs(1) by (simp add: prompt_def)
    moreover have "?f \<in> set fs \<longrightarrow> sol_active_tip st = Some ?f"
      using late fs(1) root_path_hd [OF fs(1)] by (cases fs) auto
    ultimately have "caught_up (fmupd ?f m ?ns) fs"
      using ap m(3) un by (auto simp: caught_up_def undo_of_upd writes_of_upd split: if_splits)
    then show ?thesis using root_path_det [OF fs(1)] by (auto simp: prompt_def st' par)
  qed
  ultimately show ?thesis using n(2) by blast
qed (use wf in simp)

subsection \<open>Death\<close>

lemma dead_forks_eq:
  assumes "ranked (sol_par ns) sol_rank"
  obtains D where "dead_forks ns f = Some D"
    "\<And>c fs. root_path (sol_par ns) (Some c) fs \<Longrightarrow> c |\<in>| D \<longleftrightarrow> f \<in> set fs"
    "\<And>c. c |\<in>| D \<Longrightarrow> fmlookup ns c \<noteq> None"
proof -
  let ?D = "ffilter (\<lambda>c. sol_is_ancestor ns f c = Some True) (fmdom ns)"
  have "sol_is_ancestor ns f c \<noteq> None" if "fmlookup ns c \<noteq> None" for c
    by (rule sol_is_ancestor_path [OF assms that]) simp
  then have "dead_forks ns f = Some ?D"
    by (auto simp: dead_forks_def fmlookup_dom_iff)
  moreover have "c |\<in>| ?D \<longleftrightarrow> f \<in> set fs" if fs: "root_path (sol_par ns) (Some c) fs" for c fs
  proof -
    have "sol_is_ancestor ns f c = Some (f \<in> set fs)"
      using path_to_root_path [OF fs] by (simp add: sol_is_ancestor_def)
    moreover have "c |\<in>| fmdom ns"
      using root_path_known [OF fs, of c] root_path_hd [OF fs] by (cases fs) (auto simp: sol_par_def fmlookup_dom_iff)
    ultimately show ?thesis by simp
  qed
  ultimately show thesis using that [of ?D] by (auto simp: fmlookup_dom_iff)
qed

lemma mark_nodes_same:
  "sol_par (mark_nodes D ns) = sol_par ns" "undo_of (mark_nodes D ns) = undo_of ns"
  "writes_of (mark_nodes D ns) = writes_of ns"
proof -
  have "sol_par (mark_nodes D ns) f = sol_par ns f \<and> undo_of (mark_nodes D ns) f = undo_of ns f \<and>
      writes_of (mark_nodes D ns) f = writes_of ns f" for f
    by (cases "fmlookup ns f") (simp_all add: mark_nodes_def sol_par_def undo_of_def writes_of_def)
  then show "sol_par (mark_nodes D ns) = sol_par ns" "undo_of (mark_nodes D ns) = undo_of ns"
    "writes_of (mark_nodes D ns) = writes_of ns" by auto
qed

lemma sol_dead_mark: "sol_dead (mark_nodes D ns) f \<longleftrightarrow> sol_dead ns f \<or> f |\<in>| D \<and> fmlookup ns f \<noteq> None"
  by (cases "fmlookup ns f") (auto simp: mark_nodes_def sol_dead_def)

lemma mark_dead_result:
  assumes wf: "sol_wf st"
  obtains (same) r where "mark_dead f st = Some (r, st)"
      "(\<exists>e. r = Inl e) \<or> r = Inr None \<and> sol_dead (sol_nodes st) f"
  | (dies) n D st1 r st' where "fmlookup (sol_nodes st) f = Some n" "\<not> sol_dead (sol_nodes st) f"
      "\<And>c fs. root_path (sol_par (sol_nodes st)) (Some c) fs \<Longrightarrow> c |\<in>| D \<longleftrightarrow> f \<in> set fs"
      "\<And>c. c |\<in>| D \<Longrightarrow> sol_commitment c st \<noteq> Some CommitFinalized"
      "\<And>c. c |\<in>| D \<Longrightarrow> fmlookup (sol_nodes st) c \<noteq> None"
      "sol_wf st1" "forget (sol_nodes st1) = forget (sol_nodes st)" "prompt st \<Longrightarrow> prompt st1"
      "sol_active_tip st1 = sol_active_tip st \<or> sol_active_tip st1 = fk_parent n"
      "\<And>a. sol_active_tip st = Some a \<Longrightarrow> a |\<notin>| D \<or> sol_active_tip st1 = fk_parent n"
      "sol_next_revision (st1\<lparr>sol_nodes := mark_nodes D (sol_nodes st1)\<rparr>) = (r, st')"
      "mark_dead f st = Some (case r of Inl e \<Rightarrow> Inl e
         | Inr _ \<Rightarrow> Inr (Some \<lparr>commit_revision = sol_revision st', commit_fork_id = f,
             commit_from = fk_commitment n, commit_to = Dead\<rparr>), st')"
proof -
  let ?ns = "sol_nodes st"
  have rk: "ranked (sol_par ?ns) sol_rank" using wf by (simp add: sol_wf_def)
  show thesis
  proof (cases "fmlookup ?ns f")
    case None
    then show thesis by (intro same [of "Inl UnknownFork"]) (auto simp: mark_dead_def)
  next
    case (Some n)
    obtain D where D: "dead_forks ?ns f = Some D"
      "\<And>c fs. root_path (sol_par ?ns) (Some c) fs \<Longrightarrow> c |\<in>| D \<longleftrightarrow> f \<in> set fs"
      "\<And>c. c |\<in>| D \<Longrightarrow> fmlookup ?ns c \<noteq> None"
      using dead_forks_eq [OF rk] by metis
    let ?fin = "fBex D (\<lambda>c. case fmlookup ?ns c of None \<Rightarrow> False | Some m \<Rightarrow> fk_commitment m = CommitFinalized)"
    consider "fk_commitment n = Dead" | "fk_commitment n = CommitFinalized \<or> fk_commitment n \<noteq> Dead \<and> ?fin"
      | "fk_commitment n \<noteq> Dead" "fk_commitment n \<noteq> CommitFinalized" "\<not> ?fin" by blast
    then show thesis
    proof cases
      case 1
      with Some show thesis by (intro same [of "Inr None"]) (auto simp: mark_dead_def sol_dead_def)
    next
      case 2
      with Some D(1) show thesis by (intro same [of "Inl FinalizedForkWouldDie"]) (auto simp: mark_dead_def)
    next
      case 3
      have alive: "\<not> sol_dead ?ns f" using 3(1) Some by (simp add: sol_dead_def)
      have nofin: "sol_commitment c st \<noteq> Some CommitFinalized" if "c |\<in>| D" for c
        using 3(3) that D(3) [OF that] by (auto simp: sol_commitment_def)
      define inside where "inside = (case sol_active_tip st of None \<Rightarrow> False | Some a \<Rightarrow> a |\<in>| D)"
      have ins: "(case sol_active_tip st of None \<Rightarrow> Some False | Some a \<Rightarrow> sol_is_ancestor ?ns f a) = Some inside"
      proof (cases "sol_active_tip st")
        case (Some a)
        then obtain fs where fs: "root_path (sol_par ?ns) (Some a) fs"
          using wf by (auto simp: sol_wf_def projection_ok_def)
        then show ?thesis using Some D(2) [OF fs] path_to_root_path [OF fs]
          by (simp add: inside_def sol_is_ancestor_def)
      qed (simp add: inside_def)
      have live: "live_target (fk_parent n) st"
      proof (cases "fk_parent n")
        case (Some p)
        then have sp: "sol_par ?ns f = Some (Some p)" using \<open>fmlookup ?ns f = Some n\<close> by (simp add: sol_par_def)
        have "fmlookup ?ns p \<noteq> None" using rankedD [OF rk sp] by (auto simp: sol_par_def)
        moreover have "\<not> sol_dead ?ns p"
          using wf alive sp by (auto simp: sol_wf_def dead_closed_def)
        ultimately show ?thesis using Some by (simp add: live_target_def)
      qed (simp add: live_target_def)
      obtain st1 where st1: "(if inside then activate_optional (fk_parent n) st else Some (Inr (), st)) = Some (Inr (), st1)"
        "sol_wf st1" "forget (sol_nodes st1) = forget ?ns" "prompt st \<Longrightarrow> prompt st1"
        "sol_active_tip st1 = (if inside then fk_parent n else sol_active_tip st)"
      proof (cases inside)
        case True
        then show thesis using that activate_optional_live [OF wf live] by (metis (full_types))
      qed (use that wf in simp)
      obtain r st' where r: "sol_next_revision (st1\<lparr>sol_nodes := mark_nodes D (sol_nodes st1)\<rparr>) = (r, st')" by fastforce
      show thesis
      proof (rule dies [OF Some alive D(2) nofin D(3) st1(2,3,4) _ _ r])
        show "sol_active_tip st1 = sol_active_tip st \<or> sol_active_tip st1 = fk_parent n"
          using st1(5) by auto
        show "a |\<notin>| D \<or> sol_active_tip st1 = fk_parent n" if "sol_active_tip st = Some a" for a
          using st1(5) that by (auto simp: inside_def split: if_splits)
        show "mark_dead f st = Some (case r of Inl e \<Rightarrow> Inl e
         | Inr _ \<Rightarrow> Inr (Some \<lparr>commit_revision = sol_revision st', commit_fork_id = f,
             commit_from = fk_commitment n, commit_to = Dead\<rparr>), st')"
          using Some 3 D(1) ins st1(1) r by (cases r) (simp_all add: mark_dead_def)
      qed
    qed
  qed
qed

text \<open>Marking the subtree of a fork that the projection has left keeps the invariant.\<close>

lemma mark_subtree_wf:
  assumes wf: "sol_wf st1"
    and D: "\<And>c fs. root_path (sol_par (sol_nodes st1)) (Some c) fs \<Longrightarrow> c |\<in>| D \<longleftrightarrow> f \<in> set fs"
    and dom: "\<And>c. c |\<in>| D \<Longrightarrow> fmlookup (sol_nodes st1) c \<noteq> None"
    and tip: "\<And>t. sol_active_tip st1 = Some t \<Longrightarrow> t |\<notin>| D"
    and st': "sol_nodes st' = mark_nodes D (sol_nodes st1)" "sol_active_tip st' = sol_active_tip st1"
      "sol_accounts st' = sol_accounts st1"
  shows "sol_wf st'" "prompt st1 \<Longrightarrow> prompt st'"
proof -
  let ?ns = "sol_nodes st1"
  have rk: "ranked (sol_par ?ns) sol_rank" using wf by (simp add: sol_wf_def)
  have "dead_closed (mark_nodes D ?ns)"
    unfolding dead_closed_def mark_nodes_same sol_dead_mark
  proof (intro allI impI)
    fix g p
    assume g: "sol_par ?ns g = Some (Some p)" and p: "sol_dead ?ns p \<or> p |\<in>| D \<and> fmlookup ?ns p \<noteq> None"
    show "sol_dead ?ns g \<or> g |\<in>| D \<and> fmlookup ?ns g \<noteq> None"
    proof (cases "sol_dead ?ns p")
      case True
      then show ?thesis using wf g by (auto simp: sol_wf_def dead_closed_def)
    next
      case False
      obtain fs where fs: "root_path (sol_par ?ns) (Some p) fs"
        using root_path_exists [OF rk] rankedD [OF rk g] by blast
      then have "f \<in> set fs" using D [OF fs] p False by simp
      moreover have "root_path (sol_par ?ns) (Some g) (g # fs)" by (rule root_path_Cons [OF g fs])
      ultimately show ?thesis using D g by (auto simp: sol_par_def)
    qed
  qed
  moreover have "\<not> sol_dead (mark_nodes D ?ns) t" if "sol_active_tip st1 = Some t" for t
    unfolding sol_dead_mark using wf tip [OF that] that by (auto simp: sol_wf_def)
  ultimately show "sol_wf st'" "prompt st1 \<Longrightarrow> prompt st'"
    using sol_wf_same [OF wf mark_nodes_same _ _ st'] by blast+
qed

lemma mark_dead_wf:
  assumes wf: "sol_wf st"
  obtains r st' where "mark_dead f st = Some (r, st')" "sol_wf st'" "prompt st \<Longrightarrow> prompt st'"
    "isl r \<Longrightarrow> st' = st \<or> r = Inl RevisionOverflow"
    "\<And>c. sol_commitment c st' = sol_commitment c st \<or>
       sol_commitment c st' = Some Dead \<and> sol_commitment c st \<noteq> Some CommitFinalized"
proof (rule mark_dead_result [OF wf, of f])
  fix r
  assume "mark_dead f st = Some (r, st)" "(\<exists>e. r = Inl e) \<or> r = Inr None \<and> sol_dead (sol_nodes st) f"
  then show thesis using that wf by blast
next
  fix n D st1 r st'
  assume dies: "fmlookup (sol_nodes st) f = Some n" "\<not> sol_dead (sol_nodes st) f"
      "\<And>c fs. root_path (sol_par (sol_nodes st)) (Some c) fs \<Longrightarrow> c |\<in>| D \<longleftrightarrow> f \<in> set fs"
      "\<And>c. c |\<in>| D \<Longrightarrow> sol_commitment c st \<noteq> Some CommitFinalized"
      "\<And>c. c |\<in>| D \<Longrightarrow> fmlookup (sol_nodes st) c \<noteq> None"
      "sol_wf st1" "forget (sol_nodes st1) = forget (sol_nodes st)" "prompt st \<Longrightarrow> prompt st1"
      "sol_active_tip st1 = sol_active_tip st \<or> sol_active_tip st1 = fk_parent n"
      "\<And>a. sol_active_tip st = Some a \<Longrightarrow> a |\<notin>| D \<or> sol_active_tip st1 = fk_parent n"
      "sol_next_revision (st1\<lparr>sol_nodes := mark_nodes D (sol_nodes st1)\<rparr>) = (r, st')"
      "mark_dead f st = Some (case r of Inl e \<Rightarrow> Inl e
         | Inr _ \<Rightarrow> Inr (Some \<lparr>commit_revision = sol_revision st', commit_fork_id = f,
             commit_from = fk_commitment n, commit_to = Dead\<rparr>), st')"
  let ?ns = "sol_nodes st"
  have par: "sol_par (sol_nodes st1) = sol_par ?ns" by (rule forget_eqD(1) [OF dies(7)])
  note nr = sol_next_revision_eq [OF dies(11)]
  have rk: "ranked (sol_par ?ns) sol_rank" using wf by (simp add: sol_wf_def)
  have fpar: "sol_par ?ns f = Some (fk_parent n)" using dies(1) by (simp add: sol_par_def)
  have "t |\<notin>| D" if t: "sol_active_tip st1 = Some t" for t
  proof (cases "sol_active_tip st1 = fk_parent n")
    case True
    with t obtain fs where fs: "root_path (sol_par ?ns) (Some t) fs"
      using root_path_exists [OF rk, of t] rankedD [OF rk] fpar by auto
    have "root_path (sol_par ?ns) (Some f) (f # fs)"
      using fs True t fpar by (intro root_path_Cons [of _ _ "fk_parent n"]) auto
    from root_path_distinct [OF rk this] dies(3) [OF fs] show ?thesis by simp
  next
    case False
    then have "sol_active_tip st = Some t" using dies(9) t by simp
    from dies(10) [OF this] False show ?thesis by simp
  qed
  moreover have "c |\<in>| D \<Longrightarrow> fmlookup (sol_nodes st1) c \<noteq> None" for c
    using dies(5) [of c] forget_eqD(3) [OF dies(7), of c] by simp
  ultimately have wf': "sol_wf st'" and pr: "prompt st1 \<Longrightarrow> prompt st'"
    using mark_subtree_wf [OF dies(6), of D f st'] dies(3) nr unfolding par by auto
  have com: "sol_commitment c st' = sol_commitment c st \<or>
       sol_commitment c st' = Some Dead \<and> sol_commitment c st \<noteq> Some CommitFinalized" for c
  proof (cases "c |\<in>| D")
    case True
    then show ?thesis
      using dies(4) [OF True] dies(5) [OF True] forget_eqD(3) [OF dies(7), of c] nr
      by (auto simp: sol_commitment_def mark_nodes_def)
  next
    case False
    have "sol_commitment c st' = map_option fk_commitment (fmlookup (sol_nodes st1) c)"
      using nr False by (simp add: sol_commitment_def mark_nodes_def option.map_comp comp_def)
    then show ?thesis using forget_eqD(4) [OF dies(7), of c] by (simp add: sol_commitment_def)
  qed
  show thesis
    by (rule that [OF dies(12) wf' _ _ com]) (use pr dies(8) nr in \<open>auto split: sum.splits\<close>)
qed

section \<open>Reachable states\<close>

inductive sol_step :: "solana_canonicality \<Rightarrow> solana_canonicality \<Rightarrow> bool" where
  sol_step_slot: "observe_slot f p st = (r, st') \<Longrightarrow> sol_step st st'"
| sol_step_commitment: "observe_commitment f c st = Some (rc, st') \<Longrightarrow> sol_step st st'"
| sol_step_dead: "mark_dead f st = Some (rc, st') \<Longrightarrow> sol_step st st'"
| sol_step_transaction: "record_transaction k st = (rb, st') \<Longrightarrow> sol_step st st'"
| sol_step_write: "record_account_write w st = (r, st') \<Longrightarrow> sol_step st st'"
| sol_step_activate: "activate f st = Some (r, st') \<Longrightarrow> sol_step st st'"

text \<open>
  A step is on time unless it records a write for a fork strictly below the active tip. The active
  path is computed, so the test is executable.
\<close>

definition active_path :: "solana_canonicality \<Rightarrow> fork_id list option" where
  "active_path st = (case sol_active_tip st of None \<Rightarrow> Some [] | Some t \<Rightarrow> path_to_root (sol_nodes st) t)"

definition write_on_time :: "account_write \<Rightarrow> solana_canonicality \<Rightarrow> bool" where
  "write_on_time w st = (case active_path st of None \<Rightarrow> False | Some fs \<Rightarrow> write_fork_id w \<notin> set (tl fs))"

inductive sol_prompt_step :: "solana_canonicality \<Rightarrow> solana_canonicality \<Rightarrow> bool" where
  prompt_slot: "observe_slot f p st = (r, st') \<Longrightarrow> sol_prompt_step st st'"
| prompt_commitment: "observe_commitment f c st = Some (rc, st') \<Longrightarrow> sol_prompt_step st st'"
| prompt_dead: "mark_dead f st = Some (rc, st') \<Longrightarrow> sol_prompt_step st st'"
| prompt_transaction: "record_transaction k st = (rb, st') \<Longrightarrow> sol_prompt_step st st'"
| prompt_write: "write_on_time w st \<Longrightarrow> record_account_write w st = (r, st') \<Longrightarrow> sol_prompt_step st st'"
| prompt_activate: "activate f st = Some (r, st') \<Longrightarrow> sol_prompt_step st st'"

lemma activate_wf:
  assumes wf: "sol_wf st"
  obtains r st' where "activate f st = Some (r, st')" "sol_wf st'" "prompt st \<Longrightarrow> prompt st'" "isl r \<Longrightarrow> st' = st"
    "\<not> isl r \<Longrightarrow> sol_active_tip st' = Some f" "\<And>c. sol_commitment c st' = sol_commitment c st"
    "forget (sol_nodes st') = forget (sol_nodes st)"
proof (cases "live_target (Some f) st")
  case True
  show thesis
  proof (rule activate_optional_live [OF wf True])
    fix st'
    assume st': "activate_optional (Some f) st = Some (Inr (), st')" "sol_wf st'"
      "sol_active_tip st' = Some f" "forget (sol_nodes st') = forget (sol_nodes st)" "prompt st \<Longrightarrow> prompt st'"
    show thesis
      by (rule that [of "Inr ()" st']) (use st' forget_eqD(4) [OF st'(4)] in \<open>simp_all add: activate_def sol_commitment_def\<close>)
  qed
next
  case False
  with activate_optional_rejects [of "Some f" st] wf show thesis
    by (auto simp: activate_def intro!: that)
qed

lemma active_path_eq:
  assumes "sol_wf st"
  obtains fs where "active_path st = Some fs" "root_path (sol_par (sol_nodes st)) (sol_active_tip st) fs"
    "projected (sol_nodes st) fs (sol_accounts st)"
proof -
  obtain fs where fs: "root_path (sol_par (sol_nodes st)) (sol_active_tip st) fs"
    "projected (sol_nodes st) fs (sol_accounts st)"
    using assms by (auto simp: sol_wf_def projection_ok_def)
  then show thesis using that path_option [OF fs(1)] by (simp add: active_path_def)
qed

lemma sol_step_wf:
  assumes "sol_step st st'" "sol_wf st"
  shows "sol_wf st'"
  using assms(1)
proof cases
  case (sol_step_slot f p r)
  then show ?thesis using observe_slot_wf(1) [OF assms(2)] by blast
next
  case (sol_step_commitment f c rc)
  show ?thesis
  proof (cases "c = Dead")
    case True
    then have "mark_dead f st = Some (rc, st')" using sol_step_commitment by (simp add: observe_commitment_def)
    then show ?thesis by (cases rule: mark_dead_wf [OF assms(2), of f]) simp
  next
    case False
    then show ?thesis using observe_commitment_wf [OF assms(2)] sol_step_commitment by blast
  qed
next
  case (sol_step_dead f rc)
  then show ?thesis by (cases rule: mark_dead_wf [OF assms(2), of f]) simp
next
  case (sol_step_transaction k rb)
  then show ?thesis using record_transaction_wf(1) [OF assms(2)] by blast
next
  case (sol_step_write w r)
  then show ?thesis using record_account_write_wf [OF assms(2)] by blast
next
  case (sol_step_activate f r)
  then show ?thesis by (cases rule: activate_wf [OF assms(2), of f]) simp
qed

lemma sol_prompt_step_prompt:
  assumes "sol_prompt_step st st'" "sol_wf st" "prompt st"
  shows "prompt st'"
  using assms(1)
proof cases
  case (prompt_slot f p r)
  then show ?thesis using observe_slot_wf(2) [OF assms(2)] assms(3) by blast
next
  case (prompt_commitment f c rc)
  show ?thesis
  proof (cases "c = Dead")
    case True
    then have "mark_dead f st = Some (rc, st')" using prompt_commitment by (simp add: observe_commitment_def)
    then show ?thesis using assms(3) by (cases rule: mark_dead_wf [OF assms(2), of f]) simp
  next
    case False
    then show ?thesis using observe_commitment_wf [OF assms(2)] prompt_commitment assms(3) by blast
  qed
next
  case (prompt_dead f rc)
  then show ?thesis using assms(3) by (cases rule: mark_dead_wf [OF assms(2), of f]) simp
next
  case (prompt_transaction k rb)
  then show ?thesis using record_transaction_wf(2) [OF assms(2)] assms(3) by blast
next
  case (prompt_write w r)
  obtain fs where fs: "active_path st = Some fs" "root_path (sol_par (sol_nodes st)) (sol_active_tip st) fs"
    using active_path_eq [OF assms(2)] by blast
  have "write_fork_id w \<notin> set (tl fs)" using prompt_write(1) fs(1) by (simp add: write_on_time_def)
  then have "\<forall>gs. root_path (sol_par (sol_nodes st)) (sol_active_tip st) gs \<longrightarrow> write_fork_id w \<notin> set (tl gs)"
    using root_path_det [OF fs(2)] by blast
  then show ?thesis using record_account_write_wf [OF assms(2) prompt_write(2)] assms(3) by blast
next
  case (prompt_activate f r)
  then show ?thesis using assms(3) by (cases rule: activate_wf [OF assms(2), of f]) simp
qed

lemma sol_prompt_step_step: "sol_prompt_step st st' \<Longrightarrow> sol_step st st'"
  by (erule sol_prompt_step.cases) (blast intro: sol_step.intros)+

lemma sol_reachable_wf: "sol_step\<^sup>*\<^sup>* sol_new st \<Longrightarrow> sol_wf st"
  by (induction rule: rtranclp_induct) (auto simp: sol_wf_new intro: sol_step_wf)

lemma sol_prompt_reachable:
  "sol_prompt_step\<^sup>*\<^sup>* sol_new st \<Longrightarrow> sol_wf st \<and> prompt st"
proof (induction rule: rtranclp_induct)
  case base
  have "prompt sol_new"
    unfolding prompt_def
  proof (intro allI impI)
    fix fs
    assume "root_path (sol_par (sol_nodes sol_new)) (sol_active_tip sol_new) fs"
    then have "fs = []" by (auto simp: sol_new_def)
    then show "caught_up (sol_nodes sol_new) fs" by (simp add: caught_up_def)
  qed
  then show ?case by (simp add: sol_wf_new)
next
  case (step st st')
  then show ?case using sol_step_wf sol_prompt_step_step sol_prompt_step_prompt by blast
qed

end
