(* ===== verification/Solana_Properties.thy ===== *)
theory Solana_Properties
  imports Solana_Canonicality
begin

text \<open>
  What the Solana processor promises, each with its instance at a concrete run: a root slot, two
  children, account writes on each and switches between them.
\<close>

section \<open>A concrete run\<close>

definition fork_r :: fork_id where "fork_r = ForkId (Slot 100) 1"
definition fork_a :: fork_id where "fork_a = ForkId (Slot 101) 2"
definition fork_b :: fork_id where "fork_b = ForkId (Slot 101) 3"

definition sample_write :: "fork_id \<Rightarrow> pubkey \<Rightarrow> u64 \<Rightarrow> u64 \<Rightarrow> account_write" where
  "sample_write f k amount version = \<lparr>write_fork_id = f, write_pubkey = k, write_owner = 8,
     write_lamports = Lamports amount, write_data = [], write_executable = False, write_rent_epoch = 0,
     write_version = version\<rparr>"

lemmas fork_defs = fork_r_def fork_a_def fork_b_def

lemmas sol_eval = fork_defs sample_write_def sol_new_def observe_slot_def activate_def activate_optional_def
  path_to_root_def path_walk.simps revert_node_def apply_node_def apply_write_def account_from_write_def
  record_account_write_def Let_def

definition run_slot :: "fork_id \<Rightarrow> fork_id option \<Rightarrow> solana_canonicality \<Rightarrow> solana_canonicality" where
  "run_slot f p st = snd (observe_slot f p st)"

definition run_write :: "account_write \<Rightarrow> solana_canonicality \<Rightarrow> solana_canonicality" where
  "run_write w st = snd (record_account_write w st)"

definition run_activate :: "fork_id \<Rightarrow> solana_canonicality \<Rightarrow> solana_canonicality" where
  "run_activate f st = snd (the (activate f st))"

lemma run_slot_step: "sol_prompt_step st (run_slot f p st)"
  unfolding run_slot_def using prompt_slot by (metis prod.collapse)

lemma run_write_step: "write_on_time w st \<Longrightarrow> sol_prompt_step st (run_write w st)"
  unfolding run_write_def using prompt_write by (metis prod.collapse)

lemma run_activate_step:
  assumes "sol_wf st"
  shows "sol_prompt_step st (run_activate f st)"
  by (rule activate_wf [OF assms, of f]) (auto simp: run_activate_def intro: prompt_activate)

text \<open>A root and a child, the child active.\<close>

definition sol_two_slots :: solana_canonicality where
  "sol_two_slots = run_activate fork_a (run_slot fork_a (Some fork_r) (run_slot fork_r None sol_new))"

lemma sol_two_slots_reachable: "sol_prompt_step\<^sup>*\<^sup>* sol_new sol_two_slots"
proof -
  have two: "sol_prompt_step\<^sup>*\<^sup>* sol_new (run_slot fork_a (Some fork_r) (run_slot fork_r None sol_new))"
    using run_slot_step by (meson rtranclp.rtrancl_into_rtrancl rtranclp.rtrancl_refl)
  then show ?thesis
    unfolding sol_two_slots_def
    using run_activate_step [of "run_slot fork_a (Some fork_r) (run_slot fork_r None sol_new)" fork_a]
      sol_prompt_reachable [OF two] by (auto intro: rtranclp.rtrancl_into_rtrancl)
qed

lemma sol_two_slots_eq:
  "sol_active_tip sol_two_slots = Some fork_a" "sol_accounts sol_two_slots = fmempty"
  "fmlookup (sol_nodes sol_two_slots) fork_a = Some \<lparr>fk_parent = Some fork_r, fk_commitment = Received,
     fk_transactions = {||}, fk_writes = [], fk_last_write_version = None, fk_applied_undo = []\<rparr>"
  "fmlookup (sol_nodes sol_two_slots) fork_r = Some \<lparr>fk_parent = None, fk_commitment = Received,
     fk_transactions = {||}, fk_writes = [], fk_last_write_version = None, fk_applied_undo = []\<rparr>"
  by (simp_all add: sol_two_slots_def run_activate_def run_slot_def sol_eval)

text \<open>A write on the active child.\<close>

definition sol_written :: solana_canonicality where
  "sol_written = run_write (sample_write fork_a 7 10 1) sol_two_slots"

lemma fork_r_ne_fork_a [simp]: "fork_r \<noteq> fork_a" "fork_a \<noteq> fork_r"
  by (simp_all add: fork_defs)

lemma sample_write_sel [simp]:
  "write_fork_id (sample_write f k a v) = f" "write_pubkey (sample_write f k a v) = k"
  "write_version (sample_write f k a v) = v"
  by (simp_all add: sample_write_def)

lemmas write_eval = run_write_def record_account_write_def Let_def apply_write_def sol_two_slots_eq

lemma sol_two_slots_path: "active_path sol_two_slots = Some [fork_a, fork_r]"
  by (simp add: active_path_def sol_two_slots_eq path_to_root_def path_walk.simps)

lemma sol_written_eq:
  "sol_active_tip sol_written = Some fork_a" "fmlookup (sol_accounts sol_written) 7 \<noteq> None"
  "map_option fk_parent (fmlookup (sol_nodes sol_written) fork_a) = Some (Some fork_r)"
  "map_option fk_parent (fmlookup (sol_nodes sol_written) fork_r) = Some None"
  by (simp_all add: sol_written_def write_eval)

lemma sol_written_path: "active_path sol_written = Some [fork_a, fork_r]"
  using sol_written_eq(3,4)
  by (auto simp: active_path_def sol_written_eq(1) path_to_root_def path_walk.simps)

lemma sol_written_reachable: "sol_prompt_step\<^sup>*\<^sup>* sol_new sol_written"
proof -
  have "write_on_time (sample_write fork_a 7 10 1) sol_two_slots"
    by (simp add: write_on_time_def sol_two_slots_path sample_write_def fork_defs)
  then show ?thesis
    unfolding sol_written_def
    using sol_two_slots_reachable run_write_step by (auto intro: rtranclp.rtrancl_into_rtrancl)
qed

lemma prompt_reachable_reachable: "sol_prompt_step\<^sup>*\<^sup>* sol_new st \<Longrightarrow> sol_step\<^sup>*\<^sup>* sol_new st"
  by (induction rule: rtranclp_induct) (auto intro: sol_prompt_step_step rtranclp.rtrancl_into_rtrancl)

section \<open>The projection\<close>

text \<open>The accounts that all journalled writes of a path, root first, leave behind.\<close>

definition journal_replay :: "fork_nodes \<Rightarrow> fork_id list \<Rightarrow> accounts_map" where
  "journal_replay ns fs = foldr (\<lambda>f s. snd (apply_writes (writes_of ns f) s)) fs fmempty"

lemma projected_journal:
  "projected ns fs s \<Longrightarrow> caught_up ns fs \<Longrightarrow> s = journal_replay ns fs"
proof (induction fs arbitrary: s)
  case (Cons f fs)
  from Cons.prems(1) obtain s0 ws where s0: "projected ns fs s0" "subseq ws (writes_of ns f)"
    "apply_writes ws s0 = (undo_of ns f, s)" unfolding projected_Cons by blast
  have "length ws = length (undo_of ns f)" using length_apply_writes [of ws s0] s0(3) by simp
  also have "\<dots> = length (writes_of ns f)" using Cons.prems(2) by (simp add: caught_up_def)
  finally have "ws = writes_of ns f" using s0(2) by (simp add: subseq_same_length)
  moreover have "s0 = journal_replay ns fs"
    using Cons.IH [OF s0(1)] Cons.prems(2) by (simp add: caught_up_def)
  ultimately show ?case using s0(3) by (simp add: journal_replay_def)
qed (simp add: journal_replay_def)

text \<open>C8: as long as every account write reaches its fork before a descendant of the fork becomes
  active, the account projection is the replay of all journalled writes along the active branch,
  whatever switches, deaths and commitments happened in between.\<close>

theorem projection_replays_active_branch:
  assumes "sol_prompt_step\<^sup>*\<^sup>* sol_new st"
  shows "\<exists>fs. active_path st = Some fs \<and> sol_accounts st = journal_replay (sol_nodes st) fs"
proof -
  have wf: "sol_wf st" and pr: "prompt st" using sol_prompt_reachable [OF assms] by auto
  obtain fs where fs: "active_path st = Some fs"
    "root_path (sol_par (sol_nodes st)) (sol_active_tip st) fs"
    "projected (sol_nodes st) fs (sol_accounts st)" by (rule active_path_eq [OF wf])
  have "caught_up (sol_nodes st) fs" using pr fs(2) by (simp add: prompt_def)
  from projected_journal [OF fs(3) this] fs(1) show ?thesis by blast
qed

theorem projection_replays_active_branch_witness:
  "sol_accounts sol_written = journal_replay (sol_nodes sol_written) [fork_a, fork_r] \<and>
   sol_account 7 sol_written \<noteq> None"
proof -
  obtain fs where fs: "active_path sol_written = Some fs"
    "sol_accounts sol_written = journal_replay (sol_nodes sol_written) fs"
    using projection_replays_active_branch [OF sol_written_reachable] by blast
  then show ?thesis using sol_written_eq(2) by (simp add: sol_written_path sol_account_def)
qed

text \<open>A state in which the node of one fork is replaced; the operations on the other forks do not see it.\<close>

definition with_node :: "fork_id \<Rightarrow> fork_node \<Rightarrow> solana_canonicality \<Rightarrow> solana_canonicality" where
  "with_node f m st = st\<lparr>sol_nodes := fmupd f m (sol_nodes st)\<rparr>"

lemma with_node_sel [simp]:
  "sol_nodes (with_node f m st) = fmupd f m (sol_nodes st)" "sol_accounts (with_node f m st) = sol_accounts st"
  "sol_active_tip (with_node f m st) = sol_active_tip st"
  by (simp_all add: with_node_def)

lemma fmupd_other: "g \<noteq> f \<Longrightarrow> fmupd g x (fmupd f m ns) = fmupd f m (fmupd g x ns)"
  by (rule fmap_ext) auto

lemma node_ops_other:
  assumes "g \<noteq> f"
  shows "revert_node g (with_node f m st) = apsnd (with_node f m) (revert_node g st)"
    "apply_node g (with_node f m st) = apsnd (with_node f m) (apply_node g st)"
  using assms by (auto simp: revert_node_def apply_node_def with_node_def fmupd_other split: option.split prod.split)

lemma for_forks_other:
  assumes "\<And>g st. g \<noteq> f \<Longrightarrow> body g (with_node f m st) = apsnd (with_node f m) (body g st)" "f \<notin> set gs"
  shows "for_forks body gs (with_node f m st) = apsnd (with_node f m) (for_forks body gs st)"
  using assms(2)
proof (induction gs arbitrary: st)
  case (Cons g gs)
  obtain r st1 where "body g st = (r, st1)" by fastforce
  moreover have "g \<noteq> f" "f \<notin> set gs" using Cons.prems by auto
  ultimately show ?case using Cons.IH assms(1) [of g st] by (cases r) simp_all
qed simp

lemma sol_par_with_node:
  assumes "fmlookup ns f = Some n" "fk_parent m = fk_parent n"
  shows "sol_par (fmupd f m ns) = sol_par ns"
  using assms by (intro ext) (auto simp: sol_par_def)

lemma activate_other:
  assumes wf: "sol_wf st" and n: "fmlookup (sol_nodes st) f = Some n" "fk_parent m = fk_parent n" "fk_commitment m = fk_commitment n"
    and old: "root_path (sol_par (sol_nodes st)) (sol_active_tip st) old" "f \<in> set old"
    and new: "root_path (sol_par (sol_nodes st)) (Some g) new" "f \<in> set new"
  shows "activate g (with_node f m st) = map_option (apsnd (with_node f m)) (activate g st)"
proof -
  let ?ns = "sol_nodes st" and ?common = "find (\<lambda>c. c \<in> set new) old"
  have rk: "ranked (sol_par ?ns) sol_rank" using wf by (simp add: sol_wf_def)
  have dist: "distinct old" "distinct new" using root_path_distinct [OF rk] old(1) new(1) by auto
  obtain ds ks cs where sp: "old = ds @ cs" "new = ks @ cs" "hd_opt cs = ?common"
    "takeWhile (\<lambda>k. Some k \<noteq> ?common) old = ds" "takeWhile (\<lambda>k. Some k \<noteq> ?common) new = ks"
    using root_path_split [OF old(1) new(1)] dist(2) by metis
  have "f \<in> set cs"
  proof (rule ccontr)
    assume "f \<notin> set cs"
    then have "f \<in> set ds" using old(2) sp(1) by simp
    then have "find (\<lambda>c. c \<in> set new) ds \<noteq> None" using new(2) by (auto simp: find_None_iff)
    then obtain x where x: "find (\<lambda>c. c \<in> set new) ds = Some x" by blast
    then have "?common = Some x" unfolding sp(1) by (induction ds) auto
    moreover have "x \<in> set ds" using x by (auto simp: find_Some_iff)
    ultimately show False using sp(4) by (metis set_takeWhileD)
  qed
  then have f: "f \<notin> set ds" "f \<notin> set ks" using dist sp by auto
  note par = sol_par_with_node [OF n(1,2)]
  have paths: "path_to_root ?ns g = Some new" "path_to_root (fmupd f m ?ns) g = Some new"
    using path_to_root_path [of ?ns g new] path_to_root_path [of "fmupd f m ?ns" g new] new(1) par by simp_all
  obtain t where t: "sol_active_tip st = Some t" using old by (cases "sol_active_tip st") auto
  have tips: "path_to_root ?ns t = Some old" "path_to_root (fmupd f m ?ns) t = Some old"
    using path_to_root_path [of ?ns t old] path_to_root_path [of "fmupd f m ?ns" t old] old(1) par t by simp_all
  have "new \<noteq> []" "hd_opt new = Some g" using new(2) root_path_hd [OF new(1)] by auto
  then have known: "fmlookup ?ns g \<noteq> None" using root_path_known [OF new(1), of g] by (cases new) (auto simp: sol_par_def)
  note reverts = for_forks_other [of f revert_node m, OF node_ops_other(1) f(1)]
  note applies = for_forks_other [of f apply_node m "rev ks", OF node_ops_other(2)]
  have applied: "for_forks apply_node (rev ks) (with_node f m st1) = apsnd (with_node f m) (for_forks apply_node (rev ks) st1)" for st1
    using applies f(2) by simp
  let ?check = "\<lambda>ns. and_then (ok_or (fmlookup ns g) UnknownFork) (\<lambda>n. if fk_commitment n = Dead then Inl DeadFork else Inr ())"
  have check: "?check (sol_nodes (with_node f m st)) = ?check ?ns"
    using n(1,3) by (cases "g = f") simp_all
  obtain c where c: "?check ?ns = c" by simp
  have tip: "(with_node f m x)\<lparr>sol_active_tip := a\<rparr> = with_node f m (x\<lparr>sol_active_tip := a\<rparr>)" for x a by (simp add: with_node_def)
  obtain r1 st1 where r1: "for_forks revert_node ds st = (r1, st1)" by fastforce
  obtain r2 st2 where r2: "for_forks apply_node (rev ks) st1 = (r2, st2)" by fastforce
  show ?thesis
    unfolding activate_def activate_optional_def option.case check c
    by (cases c; cases r1; cases r2) (simp_all add: t tips paths Let_def sp(4,5) reverts r1 r2 applied tip)
qed

lemma root_path_of_ancestor:
  assumes "sol_wf st" "fmlookup (sol_nodes st) f \<noteq> None" "sol_is_ancestor (sol_nodes st) f g = Some True"
  obtains new where "root_path (sol_par (sol_nodes st)) (Some g) new" "f \<in> set new"
proof (cases "fmlookup (sol_nodes st) g")
  case None
  then have "path_to_root (sol_nodes st) g = Some [g]" by (simp add: path_to_root_def path_walk.simps)
  then show thesis using assms(2,3) None by (simp add: sol_is_ancestor_def)
next
  case (Some n)
  have "ranked (sol_par (sol_nodes st)) sol_rank" using assms(1) by (simp add: sol_wf_def)
  then obtain fs where "root_path (sol_par (sol_nodes st)) (Some g) fs" "\<And>a. sol_is_ancestor (sol_nodes st) a g = Some (a \<in> set fs)"
    using sol_is_ancestor_path [of "sol_nodes st" g] Some by blast
  then show thesis using that assms(3) by simp
qed

lemma run_activate_other:
  assumes "sol_wf st" "fmlookup (sol_nodes st) f = Some n" "fk_parent m = fk_parent n" "fk_commitment m = fk_commitment n"
    "root_path (sol_par (sol_nodes st)) (sol_active_tip st) old" "f \<in> set old"
    "\<forall>g \<in> set gs. sol_is_ancestor (sol_nodes st) f g = Some True"
  shows "fold run_activate gs (with_node f m st) = with_node f m (fold run_activate gs st) \<and>
    writes_of (sol_nodes (fold run_activate gs st)) f = fk_writes n"
  using assms
proof (induction gs arbitrary: st n old)
  case Nil
  then show ?case by (simp add: writes_of_def)
next
  case (Cons g gs)
  obtain new where new: "root_path (sol_par (sol_nodes st)) (Some g) new" "f \<in> set new"
    using root_path_of_ancestor [OF Cons.prems(1), of f g] Cons.prems(2,7) by auto
  obtain r st1 where a: "activate g st = Some (r, st1)" "sol_wf st1" "isl r \<Longrightarrow> st1 = st"
    "\<not> isl r \<Longrightarrow> sol_active_tip st1 = Some g" "forget (sol_nodes st1) = forget (sol_nodes st)"
    by (rule activate_wf [OF Cons.prems(1), of g]) blast
  have step: "run_activate g (with_node f m st) = with_node f m st1" "run_activate g st = st1"
    using activate_other [OF Cons.prems(1-6) new] a(1) by (simp_all add: run_activate_def)
  have par: "sol_par (sol_nodes st1) = sol_par (sol_nodes st)" using forget_eqD(1) [OF a(5)] .
  then have same: "path_to_root (sol_nodes st1) h = path_to_root (sol_nodes st) h" if "sol_par (sol_nodes st) h \<noteq> None" for h
    using root_path_exists [of "sol_par (sol_nodes st)" sol_rank h] that Cons.prems(1) path_to_root_path
    by (metis sol_wf_def)
  obtain n1 where n1: "fmlookup (sol_nodes st1) f = Some n1" using forget_eqD(3) [OF a(5), of f] Cons.prems(2) by fastforce
  have "fk_parent n1 = fk_parent n" using fun_cong [OF par, of f] n1 Cons.prems(2) by (simp add: sol_par_def)
  moreover have "fk_commitment n1 = fk_commitment n" using forget_eqD(4) [OF a(5), of f] n1 Cons.prems(2) by simp
  moreover have "fk_writes n1 = fk_writes n" using fun_cong [OF forget_eqD(2) [OF a(5)], of f] n1 Cons.prems(2) by (simp add: writes_of_def)
  moreover obtain old1 where "root_path (sol_par (sol_nodes st1)) (sol_active_tip st1) old1" "f \<in> set old1"
    using a(3,4) Cons.prems(5,6) new unfolding par by (cases "isl r") auto
  moreover have "sol_is_ancestor (sol_nodes st1) f h = Some True" if "h \<in> set gs" for h
  proof -
    have h: "sol_is_ancestor (sol_nodes st) f h = Some True" using Cons.prems(7) that by simp
    then obtain hs where "root_path (sol_par (sol_nodes st)) (Some h) hs"
      using root_path_of_ancestor [OF Cons.prems(1), of f h] Cons.prems(2) by auto
    then have "sol_par (sol_nodes st) h \<noteq> None" by (auto elim: root_path_SomeE)
    then show ?thesis using h same by (simp add: sol_is_ancestor_def)
  qed
  ultimately show ?case using Cons.IH [OF a(2) n1, of old1] Cons.prems(3,4) by (simp add: step)
qed

text \<open>C10: A write that is recorded for a strict ancestor of the active tip never reaches the projection while that ancestor
  stays on the active branch. From every reached state, however often the tip is then moved among the descendants of the
  ancestor, the ancestor itself included, the accounts are those that the same moves give without the write, although the
  write is in the journal of its fork all along.\<close>

theorem late_ancestor_write_is_not_projected:
  assumes "sol_step\<^sup>*\<^sup>* sol_new st" "active_path st = Some (t # fs)" "write_fork_id w \<in> set fs"
    "record_account_write w st = (Inr (), st')"
    "\<forall>g \<in> set gs. sol_is_ancestor (sol_nodes st) (write_fork_id w) g = Some True"
  shows "sol_accounts (fold run_activate gs st') = sol_accounts (fold run_activate gs st) \<and>
    writes_of (sol_nodes (fold run_activate gs st')) (write_fork_id w) =
      writes_of (sol_nodes (fold run_activate gs st)) (write_fork_id w) @ [w]"
proof -
  let ?f = "write_fork_id w"
  have wf: "sol_wf st" using sol_reachable_wf [OF assms(1)] .
  obtain old where "active_path st = Some old" "root_path (sol_par (sol_nodes st)) (sol_active_tip st) old"
    by (rule active_path_eq [OF wf])
  with assms(2) have old: "root_path (sol_par (sol_nodes st)) (sol_active_tip st) (t # fs)" by simp
  have "distinct (t # fs)" using root_path_distinct [OF _ old] wf by (auto simp: sol_wf_def)
  moreover have "sol_active_tip st = Some t" using root_path_hd [OF old] by simp
  ultimately have tip: "sol_active_tip st \<noteq> Some ?f" using assms(3) by auto
  obtain n where n: "fmlookup (sol_nodes st) ?f = Some n"
    "st' = with_node ?f (n\<lparr>fk_last_write_version := Some (write_version w), fk_writes := fk_writes n @ [w]\<rparr>) st"
    using assms(4) tip by (auto simp: record_account_write_def with_node_def Let_def split: option.splits if_splits)
  from run_activate_other [OF wf n(1) _ _ old _ assms(5), of "n\<lparr>fk_last_write_version := Some (write_version w), fk_writes := fk_writes n @ [w]\<rparr>"]
    assms(3) show ?thesis unfolding n(2) by (simp add: writes_of_upd)
qed

theorem late_ancestor_write_is_not_projected_witness:
  "sol_account 7 (run_activate fork_r (run_write (sample_write fork_r 7 10 1) sol_two_slots)) = None \<and>
   writes_of (sol_nodes (run_activate fork_r (run_write (sample_write fork_r 7 10 1) sol_two_slots))) fork_r \<noteq> []"
proof -
  have written: "record_account_write (sample_write fork_r 7 10 1) sol_two_slots = (Inr (), run_write (sample_write fork_r 7 10 1) sol_two_slots)"
    by (simp add: write_eval)
  have anc: "\<forall>g \<in> set [fork_r]. sol_is_ancestor (sol_nodes sol_two_slots) (write_fork_id (sample_write fork_r 7 10 1)) g = Some True"
    by (simp add: sol_is_ancestor_def path_to_root_def path_walk.simps sol_two_slots_eq)
  have "sol_accounts (run_activate fork_r sol_two_slots) = fmempty"
    by (simp add: run_activate_def activate_def activate_optional_def sol_two_slots_eq path_to_root_def path_walk.simps Let_def revert_node_def)
  then show ?thesis
    using late_ancestor_write_is_not_projected [OF prompt_reachable_reachable [OF sol_two_slots_reachable] sol_two_slots_path _ written anc]
    by (simp add: sol_account_def)
qed

text \<open>the projection is reversible. From every reached state, leaving the active branch
  altogether undoes every applied write: no account and no undo operation is left.\<close>

theorem projection_is_fully_reversible:
  assumes "sol_step\<^sup>*\<^sup>* sol_new st"
  shows "\<exists>st'. activate_optional None st = Some (Inr (), st') \<and> sol_accounts st' = fmempty \<and>
    (\<forall>f. undo_of (sol_nodes st') f = [])"
proof -
  have wf: "sol_wf st" by (rule sol_reachable_wf [OF assms])
  have live: "live_target None st" by (simp add: live_target_def)
  show ?thesis
  proof (rule activate_optional_live [OF wf live])
    fix st'
    assume st': "activate_optional None st = Some (Inr (), st')" "sol_wf st'" "sol_active_tip st' = None"
    then show ?thesis by (auto simp: sol_wf_def projection_ok_def)
  qed
qed

theorem projection_is_fully_reversible_witness:
  "\<exists>st'. activate_optional None sol_written = Some (Inr (), st') \<and> sol_accounts st' = fmempty"
  using projection_is_fully_reversible [OF prompt_reachable_reachable [OF sol_written_reachable]] by blast

section \<open>Commitments\<close>

lemma mark_dead_advances:
  assumes "sol_wf st" "mark_dead g st = Some (rc, st')" "sol_commitment f st = Some c"
  shows "sol_commitment f st' = Some c \<or> sol_commitment f st' = Some Dead \<and> c \<noteq> CommitFinalized"
proof (rule mark_dead_wf [OF assms(1), of g])
  fix r st''
  assume "mark_dead g st = Some (r, st'')" "\<And>c. sol_commitment c st'' = sol_commitment c st \<or>
     sol_commitment c st'' = Some Dead \<and> sol_commitment c st \<noteq> Some CommitFinalized"
  then show ?thesis using assms(2,3) by (metis Pair_inject option.inject)
qed

lemma observe_commitment_advances:
  assumes "d \<noteq> Dead" "observe_commitment g d st = Some (rc, st')" "sol_commitment f st = Some c"
  shows "\<exists>c'. sol_commitment f st' = Some c' \<and>
    (c' = c \<or> c \<noteq> Dead \<and> c' \<noteq> Dead \<and> rank_less (commitment_rank c) (commitment_rank c'))"
proof (cases "st' = st")
  case False
  with observe_commitment_cases [OF assms(1,2)] obtain n where
    n: "fmlookup (sol_nodes st) g = Some n" "fk_commitment n \<noteq> Dead" "fk_commitment n \<noteq> d"
      "\<not> rank_less (commitment_rank d) (commitment_rank (fk_commitment n))"
      "sol_nodes st' = fmupd g (n\<lparr>fk_commitment := d\<rparr>) (sol_nodes st)" by blast
  have "rank_less (commitment_rank (fk_commitment n)) (commitment_rank d)"
    using n(2-4) assms(1) by (cases "fk_commitment n"; cases d) simp_all
  then show ?thesis using n assms(1,3) by (auto simp: sol_commitment_def)
qed (use assms(3) in auto)

text \<open>C9: commitments only advance. In one operation on a reached state a known fork keeps its
  commitment, moves to a higher rank, or dies; a dead fork stays dead and a finalized fork never
  dies.\<close>

theorem commitments_only_advance:
  assumes "sol_step\<^sup>*\<^sup>* sol_new st" "sol_step st st'" "sol_commitment f st = Some c"
  shows "\<exists>c'. sol_commitment f st' = Some c' \<and>
    (c' = c \<or> c' = Dead \<and> c \<noteq> CommitFinalized \<or>
     c \<noteq> Dead \<and> c' \<noteq> Dead \<and> rank_less (commitment_rank c) (commitment_rank c'))"
proof -
  have wf: "sol_wf st" by (rule sol_reachable_wf [OF assms(1)])
  from assms(2) show ?thesis
  proof cases
    case (sol_step_slot g p r)
    then show ?thesis using assms(3)
      by (auto simp: observe_slot_def sol_commitment_def split: option.splits if_splits sum.splits)
  next
    case (sol_step_commitment g d rc)
    show ?thesis
    proof (cases "d = Dead")
      case True
      then have "mark_dead g st = Some (rc, st')" using sol_step_commitment by (simp add: observe_commitment_def)
      from mark_dead_advances [OF wf this assms(3)] show ?thesis by auto
    next
      case False
      from observe_commitment_advances [OF this sol_step_commitment assms(3)] show ?thesis by auto
    qed
  next
    case (sol_step_dead g rc)
    from mark_dead_advances [OF wf this assms(3)] show ?thesis by auto
  next
    case (sol_step_transaction k rb)
    then show ?thesis using assms(3)
      by (auto simp: record_transaction_def sol_commitment_def split: option.splits if_splits)
  next
    case (sol_step_write w r)
    then show ?thesis using record_account_write_cases [of w st r st'] assms(3)
      by (auto simp: sol_commitment_def)
  next
    case (sol_step_activate g r)
    then show ?thesis using assms(3) by (cases rule: activate_wf [OF wf, of g]) auto
  qed
qed

theorem commitments_only_advance_witness:
  "\<exists>c'. sol_commitment fork_a (run_activate fork_r sol_two_slots) = Some c' \<and>
    (c' = Received \<or> c' = Dead \<or> rank_less (Some 0) (commitment_rank c'))"
proof -
  have r: "sol_step\<^sup>*\<^sup>* sol_new sol_two_slots"
    by (rule prompt_reachable_reachable [OF sol_two_slots_reachable])
  have "sol_step sol_two_slots (run_activate fork_r sol_two_slots)"
    by (rule sol_prompt_step_step [OF run_activate_step [OF sol_reachable_wf [OF r]]])
  moreover have "sol_commitment fork_a sol_two_slots = Some Received"
    by (simp add: sol_commitment_def sol_two_slots_eq)
  ultimately show ?thesis using commitments_only_advance [OF r] by fastforce
qed

text \<open>death covers whole subtrees. In every reached state each child of a dead fork is dead,
  the active tip is alive, and the walk from any known fork to its root ends.\<close>

theorem dead_forks_are_subtrees:
  assumes "sol_step\<^sup>*\<^sup>* sol_new st"
  shows "(\<forall>f p n. fmlookup (sol_nodes st) f = Some n \<longrightarrow> fk_parent n = Some p \<longrightarrow>
      sol_commitment p st = Some Dead \<longrightarrow> sol_commitment f st = Some Dead) \<and>
    (\<forall>t. sol_active_tip st = Some t \<longrightarrow> sol_commitment t st \<noteq> Some Dead) \<and>
    (\<forall>f. fmlookup (sol_nodes st) f \<noteq> None \<longrightarrow> path_to_root (sol_nodes st) f \<noteq> None)"
proof -
  have wf: "sol_wf st" by (rule sol_reachable_wf [OF assms])
  have rk: "ranked (sol_par (sol_nodes st)) sol_rank" using wf by (simp add: sol_wf_def)
  have "path_to_root (sol_nodes st) f \<noteq> None" if "fmlookup (sol_nodes st) f \<noteq> None" for f
    using root_path_exists [OF rk, of f] that path_to_root_path by (fastforce simp: sol_par_def)
  moreover have "sol_commitment f st = Some Dead"
    if "fmlookup (sol_nodes st) f = Some n" "fk_parent n = Some p" "sol_commitment p st = Some Dead" for f p n
  proof -
    have "sol_par (sol_nodes st) f = Some (Some p)" using that by (simp add: sol_par_def)
    then have "sol_dead (sol_nodes st) f"
      using wf that(3) unfolding sol_wf_def dead_closed_def
      by (metis sol_commitment_def sol_dead_def)
    then show ?thesis by (auto simp: sol_dead_def sol_commitment_def)
  qed
  moreover have "sol_commitment t st \<noteq> Some Dead" if "sol_active_tip st = Some t" for t
    using wf that by (auto simp: sol_wf_def sol_dead_def sol_commitment_def)
  ultimately show ?thesis by blast
qed

theorem dead_forks_are_subtrees_witness:
  "sol_commitment fork_a sol_written \<noteq> Some Dead"
  using dead_forks_are_subtrees [OF prompt_reachable_reachable [OF sol_written_reachable]]
    sol_written_eq(1) by blast

end
