(* ===== verification/Keyed_Log.thy ===== *)
theory Keyed_Log
  imports Prelude
begin

text \<open>
  The interface of an append-only log that several keys share: every record belongs to one key, and
  appending a record extends the history of that key and of no other. Clients reason about one key
  at a time: a property of histories that survives the appended record holds for every key.
\<close>

locale keyed_log =
  fixes key_of :: "'r \<Rightarrow> 'k"
    and entries :: "'s \<Rightarrow> 'r list"
    and add :: "'r \<Rightarrow> 's \<Rightarrow> 's"
  assumes entries_add: "entries (add r s) = entries s @ [r]"
begin

definition hist :: "'k \<Rightarrow> 's \<Rightarrow> 'r list" where
  "hist k s = filter (\<lambda>r. key_of r = k) (entries s)"

lemma hist_add: "hist k (add r s) = hist k s @ (if key_of r = k then [r] else [])"
  by (simp add: hist_def entries_add)

lemma hist_add_same: "hist (key_of r) (add r s) = hist (key_of r) s @ [r]"
  by (simp add: hist_add)

lemma hist_add_other: "key_of r \<noteq> k \<Longrightarrow> hist k (add r s) = hist k s"
  by (simp add: hist_add)

lemma all_histories:
  assumes "\<And>k. P (hist k s)" "P (hist (key_of r) s @ [r])"
  shows "P (hist k (add r s))"
  using assms by (cases "key_of r = k") (auto simp: hist_add)

end

text \<open>A log with an index of the latest record of every key.\<close>

locale indexed_log = keyed_log key_of entries add
  for key_of :: "'r \<Rightarrow> 'k" and entries :: "'s \<Rightarrow> 'r list" and add :: "'r \<Rightarrow> 's \<Rightarrow> 's" +
  fixes latest :: "'s \<Rightarrow> 'k \<Rightarrow> 'r option" and ok :: "'s \<Rightarrow> bool"
  assumes latest_add: "ok s \<Longrightarrow> latest (add r s) k = (if key_of r = k then Some r else latest s k)"
    and ok_add: "ok s \<Longrightarrow> ok (add r s)"
begin

lemma latest_is_last_step:
  assumes "ok s" "\<And>k. latest s k = last_opt (hist k s)"
  shows "latest (add r s) k = last_opt (hist k (add r s))"
  using assms by (simp add: latest_add hist_add)

end

end
