(* ===== verification/Coverage_Ledger.thy ===== *)
theory Coverage_Ledger
  imports Keyed_Log "HOL-Library.List_Lexorder" "HOL-Library.Char_ord"
begin

text \<open>
  The source coverage ledger of \<open>processors/reconciler/src/lib.rs\<close>: an append-only list of revisions
  with an index of the current revision of every source-qualified dataset. The abstract view is one
  history of gaps per key, opened and closed in turn; the ledger refines it. Strings are compared
  byte by byte, which is the order of \<^typ>\<open>string\<close> here.
\<close>

section \<open>Data\<close>

datatype coverage_state = KnownIncomplete | Recovered

record coverage_revision =
  cov_chain :: string
  cov_network :: string
  cov_dataset :: string
  cov_source_id :: string
  cov_range_start :: u64
  cov_range_end :: "u64 option"
  cov_state :: coverage_state
  cov_cause :: string
  cov_evidence_ids :: "string list"
  cov_revision :: u64

record coverage_key =
  ckey_chain :: string
  ckey_network :: string
  ckey_dataset :: string
  ckey_source_id :: string

record coverage_ledger =
  led_revisions :: "coverage_revision list"
  led_current :: "(coverage_key, nat) fmap"

datatype coverage_error =
    InvalidKey
  | EmptyCause
  | ZeroRevision
  | NonMonotonicRevision u64 u64
  | GapAlreadyOpen
  | NoOpenGap
  | InvalidRange
  | MissingRecoveryEvidence
  | EmptyLineageId
  | DuplicateLineageNode string
  | ObservationHasParents
  | UnknownLineageNode string
  | LineageDepthExceeded
  | LineageNodeLimitExceeded
  | LineageMissingObservation

section \<open>Operations\<close>

definition ledger_new :: coverage_ledger where
  "ledger_new = \<lparr>led_revisions = [], led_current = fmempty\<rparr>"

definition coverage_key_new ::
  "string \<Rightarrow> string \<Rightarrow> string \<Rightarrow> string \<Rightarrow> coverage_error + coverage_key" where
  "coverage_key_new chain network dataset source =
     (if list_ex (\<lambda>v. str_blank v \<or> \<not> str_is_ascii v) [chain, network, dataset, source]
      then Inl InvalidKey
      else Inr \<lparr>ckey_chain = chain, ckey_network = network, ckey_dataset = dataset,
        ckey_source_id = source\<rparr>)"

definition current_revision :: "coverage_ledger \<Rightarrow> coverage_key \<Rightarrow> coverage_revision option" where
  "current_revision led k =
     (case fmlookup (led_current led) k of
        None \<Rightarrow> None
      | Some i \<Rightarrow> if i < length (led_revisions led) then Some (led_revisions led ! i) else None)"

definition validate_next_revision :: "coverage_ledger \<Rightarrow> coverage_key \<Rightarrow> u64 \<Rightarrow> coverage_error + unit" where
  "validate_next_revision led k revision =
     (if revision = 0 then Inl ZeroRevision
      else case current_revision led k of
          None \<Rightarrow> Inr ()
        | Some current \<Rightarrow>
            if revision \<le> cov_revision current
            then Inl (NonMonotonicRevision (cov_revision current) revision) else Inr ())"

definition ledger_append ::
  "coverage_key \<Rightarrow> u64 \<Rightarrow> u64 option \<Rightarrow> coverage_state \<Rightarrow> string \<Rightarrow> string list \<Rightarrow> u64 \<Rightarrow>
   coverage_ledger \<Rightarrow> coverage_ledger" where
  "ledger_append k start rend state cause evidence revision led =
     \<lparr>led_revisions = led_revisions led @
        [\<lparr>cov_chain = ckey_chain k, cov_network = ckey_network k, cov_dataset = ckey_dataset k,
          cov_source_id = ckey_source_id k, cov_range_start = start, cov_range_end = rend,
          cov_state = state, cov_cause = cause, cov_evidence_ids = evidence, cov_revision = revision\<rparr>],
      led_current = fmupd k (length (led_revisions led)) (led_current led)\<rparr>"

definition gap_is_open :: "coverage_revision \<Rightarrow> bool" where
  "gap_is_open r \<longleftrightarrow> cov_state r = KnownIncomplete \<and> cov_range_end r = None"

definition open_gap ::
  "string \<Rightarrow> string \<Rightarrow> string \<Rightarrow> string \<Rightarrow> u64 \<Rightarrow> string \<Rightarrow> u64 \<Rightarrow> coverage_ledger \<Rightarrow>
   coverage_error + coverage_ledger" where
  "open_gap chain network dataset source start cause revision led =
     and_then (coverage_key_new chain network dataset source) (\<lambda>k.
       if str_blank cause then Inl EmptyCause
       else and_then (validate_next_revision led k revision) (\<lambda>_.
         if (case current_revision led k of None \<Rightarrow> False | Some current \<Rightarrow> gap_is_open current)
         then Inl GapAlreadyOpen
         else Inr (ledger_append k start None KnownIncomplete cause [] revision led)))"

definition close_gap ::
  "string \<Rightarrow> string \<Rightarrow> string \<Rightarrow> string \<Rightarrow> u64 \<Rightarrow> string list \<Rightarrow> u64 \<Rightarrow> coverage_ledger \<Rightarrow>
   coverage_error + coverage_ledger" where
  "close_gap chain network dataset source rend evidence revision led =
     and_then (coverage_key_new chain network dataset source) (\<lambda>k.
       and_then (validate_next_revision led k revision) (\<lambda>_.
         and_then (ok_or (current_revision led k) NoOpenGap) (\<lambda>current.
           if cov_state current \<noteq> KnownIncomplete \<or> cov_range_end current \<noteq> None then Inl NoOpenGap
           else if rend < cov_range_start current then Inl InvalidRange
           else if evidence = [] \<or> list_ex str_blank evidence then Inl MissingRecoveryEvidence
           else Inr (ledger_append k (cov_range_start current) (Some rend) Recovered (cov_cause current)
                  (remdups_adj (sort evidence)) revision led))))"

definition current_state ::
  "string \<Rightarrow> string \<Rightarrow> string \<Rightarrow> string \<Rightarrow> coverage_ledger \<Rightarrow> coverage_state option" where
  "current_state chain network dataset source led =
     map_option cov_state (current_revision led \<lparr>ckey_chain = chain, ckey_network = network,
       ckey_dataset = dataset, ckey_source_id = source\<rparr>)"

section \<open>One history per key\<close>

definition revision_key :: "coverage_revision \<Rightarrow> coverage_key" where
  "revision_key r = \<lparr>ckey_chain = cov_chain r, ckey_network = cov_network r, ckey_dataset = cov_dataset r,
     ckey_source_id = cov_source_id r\<rparr>"

definition history :: "coverage_key \<Rightarrow> coverage_ledger \<Rightarrow> coverage_revision list" where
  "history k led = filter (\<lambda>r. revision_key r = k) (led_revisions led)"

text \<open>The abstract machine of one key: a gap opens when none is open, and closes with evidence.\<close>

definition opens_gap :: "coverage_revision option \<Rightarrow> coverage_revision \<Rightarrow> bool" where
  "opens_gap current r \<longleftrightarrow> \<not> str_blank (cov_cause r) \<and> gap_is_open r \<and> cov_evidence_ids r = [] \<and>
     (case current of None \<Rightarrow> 0 < cov_revision r
        | Some c \<Rightarrow> \<not> gap_is_open c \<and> cov_revision c < cov_revision r)"

definition closes_gap :: "coverage_revision option \<Rightarrow> coverage_revision \<Rightarrow> bool" where
  "closes_gap current r \<longleftrightarrow>
     (case current of None \<Rightarrow> False
        | Some c \<Rightarrow> gap_is_open c \<and> cov_revision c < cov_revision r \<and> cov_state r = Recovered \<and>
            cov_range_start r = cov_range_start c \<and> cov_cause r = cov_cause c \<and>
            (case cov_range_end r of None \<Rightarrow> False | Some e \<Rightarrow> cov_range_start r \<le> e) \<and>
            cov_evidence_ids r \<noteq> [] \<and> sorted_wrt (<) (cov_evidence_ids r) \<and>
            list_all (\<lambda>e. \<not> str_blank e) (cov_evidence_ids r))"

inductive gap_history :: "coverage_revision list \<Rightarrow> bool" where
  gap_history_Nil: "gap_history []"
| gap_history_open: "gap_history h \<Longrightarrow> opens_gap (last_opt h) r \<Longrightarrow> gap_history (h @ [r])"
| gap_history_close: "gap_history h \<Longrightarrow> closes_gap (last_opt h) r \<Longrightarrow> gap_history (h @ [r])"

inductive_simps gap_history_snoc: "gap_history (h @ [r])"

inductive ledger_step :: "coverage_ledger \<Rightarrow> coverage_ledger \<Rightarrow> bool" where
  step_open: "open_gap c n d s a cause v led = Inr led' \<Longrightarrow> ledger_step led led'"
| step_close: "close_gap c n d s e evs v led = Inr led' \<Longrightarrow> ledger_step led led'"

section \<open>The index agrees with the histories\<close>

definition add_revision :: "coverage_revision \<Rightarrow> coverage_ledger \<Rightarrow> coverage_ledger" where
  "add_revision r led = ledger_append (revision_key r) (cov_range_start r) (cov_range_end r) (cov_state r)
     (cov_cause r) (cov_evidence_ids r) (cov_revision r) led"

definition index_ok :: "coverage_ledger \<Rightarrow> bool" where
  "index_ok led \<longleftrightarrow> (\<forall>k i. fmlookup (led_current led) k = Some i \<longrightarrow> i < length (led_revisions led))"

interpretation cov_log: indexed_log revision_key led_revisions add_revision current_revision index_ok
proof
  fix r led k
  show "led_revisions (add_revision r led) = led_revisions led @ [r]"
    by (simp add: add_revision_def ledger_append_def revision_key_def)
  assume "index_ok led"
  then show "current_revision (add_revision r led) k =
      (if revision_key r = k then Some r else current_revision led k)"
    by (auto simp: current_revision_def add_revision_def ledger_append_def index_ok_def revision_key_def
        nth_append less_Suc_eq split: option.split)
  from \<open>index_ok led\<close> show "index_ok (add_revision r led)"
    by (auto simp: add_revision_def ledger_append_def index_ok_def less_Suc_eq split: if_splits)
qed

lemma history_eq: "history = cov_log.hist"
  by (intro ext) (simp add: history_def cov_log.hist_def)

definition ledger_ok :: "coverage_ledger \<Rightarrow> bool" where
  "ledger_ok led \<longleftrightarrow> index_ok led \<and> (\<forall>k. current_revision led k = last_opt (history k led)) \<and>
     (\<forall>k. gap_history (history k led))"

lemma ledger_ok_new [simp]: "ledger_ok ledger_new"
  by (simp add: ledger_ok_def index_ok_def ledger_new_def history_def current_revision_def gap_history_Nil)

lemma ledger_ok_add:
  assumes "ledger_ok led" "opens_gap (last_opt (history (revision_key r) led)) r \<or>
    closes_gap (last_opt (history (revision_key r) led)) r"
  shows "ledger_ok (add_revision r led)"
proof -
  have "gap_history (history (revision_key r) led @ [r])"
    using assms gap_history_open gap_history_close by (auto simp: ledger_ok_def)
  then have "gap_history (history k (add_revision r led))" for k
    using cov_log.all_histories [of gap_history led r k] assms(1) by (simp add: ledger_ok_def history_eq)
  then show ?thesis
    using assms(1) cov_log.latest_is_last_step [of led r] cov_log.ok_add
    by (simp add: ledger_ok_def history_eq)
qed

section \<open>What the two operations append\<close>

definition gap_opening :: "coverage_key \<Rightarrow> u64 \<Rightarrow> string \<Rightarrow> u64 \<Rightarrow> coverage_revision" where
  "gap_opening k start cause v = \<lparr>cov_chain = ckey_chain k, cov_network = ckey_network k,
     cov_dataset = ckey_dataset k, cov_source_id = ckey_source_id k, cov_range_start = start,
     cov_range_end = None, cov_state = KnownIncomplete, cov_cause = cause, cov_evidence_ids = [],
     cov_revision = v\<rparr>"

definition gap_closing :: "coverage_revision \<Rightarrow> u64 \<Rightarrow> string list \<Rightarrow> u64 \<Rightarrow> coverage_revision" where
  "gap_closing c e evs v = c\<lparr>cov_range_end := Some e, cov_state := Recovered,
     cov_evidence_ids := remdups_adj (sort evs), cov_revision := v\<rparr>"

lemma revision_key_gap [simp]:
  "revision_key (gap_opening k a cause v) = k" "revision_key (gap_closing c e evs v) = revision_key c"
  by (simp_all add: revision_key_def gap_opening_def gap_closing_def)

lemma validate_next_revision_iff:
  "validate_next_revision led k v = Inr () \<longleftrightarrow>
   0 < v \<and> (case current_revision led k of None \<Rightarrow> True | Some c \<Rightarrow> cov_revision c < v)"
  by (auto simp: validate_next_revision_def word_gt_0 not_le split: option.split)

lemma coverage_key_new_iff:
  "coverage_key_new c n d s = Inr k \<longleftrightarrow>
   k = \<lparr>ckey_chain = c, ckey_network = n, ckey_dataset = d, ckey_source_id = s\<rparr> \<and>
   list_all (\<lambda>v. \<not> str_blank v \<and> str_is_ascii v) [c, n, d, s]"
  by (auto simp: coverage_key_new_def)

lemma add_gap_opening:
  "add_revision (gap_opening k a cause v) led = ledger_append k a None KnownIncomplete cause [] v led"
  by (simp add: add_revision_def) (simp add: gap_opening_def)

lemma open_gap_iff:
  "open_gap c n d s a cause v led = Inr led' \<longleftrightarrow>
   (\<exists>k. coverage_key_new c n d s = Inr k \<and> \<not> str_blank cause \<and>
      validate_next_revision led k v = Inr () \<and>
      (case current_revision led k of None \<Rightarrow> True | Some r \<Rightarrow> \<not> gap_is_open r) \<and>
      led' = add_revision (gap_opening k a cause v) led)"
  by (cases "coverage_key_new c n d s")
    (auto simp: open_gap_def rust_result add_gap_opening split: option.splits)

lemma close_gap_iff:
  assumes "ledger_ok led"
  shows "close_gap c n d s e evs v led = Inr led' \<longleftrightarrow>
   (\<exists>k r. coverage_key_new c n d s = Inr k \<and> validate_next_revision led k v = Inr () \<and>
      current_revision led k = Some r \<and> gap_is_open r \<and> cov_range_start r \<le> e \<and>
      evs \<noteq> [] \<and> list_all (\<lambda>x. \<not> str_blank x) evs \<and>
      led' = add_revision (gap_closing r e evs v) led)"
proof -
  have key: "revision_key r = k" if "current_revision led k = Some r" for k r
    using assms that last_in_set [of "history k led"]
    by (auto simp: ledger_ok_def last_opt_def history_def split: if_splits)
  have add: "ledger_append k (cov_range_start r) (Some e) Recovered (cov_cause r) (remdups_adj (sort evs)) v led =
      add_revision (gap_closing r e evs v) led" if "current_revision led k = Some r" for k r
    using key [OF that] by (simp add: add_revision_def) (simp add: gap_closing_def)
  show ?thesis
    using add
    by (fastforce simp: close_gap_def rust_result gap_is_open_def list_ex_iff list_all_iff not_less
        split: if_splits)
qed

lemma opens_gap_opening:
  assumes "validate_next_revision led k v = Inr ()" "\<not> str_blank cause"
    "case current_revision led k of None \<Rightarrow> True | Some r \<Rightarrow> \<not> gap_is_open r"
  shows "opens_gap (current_revision led k) (gap_opening k a cause v)"
  using assms by (auto simp: validate_next_revision_iff opens_gap_def gap_is_open_def gap_opening_def
      split: option.splits)

lemma closes_gap_closing:
  assumes "validate_next_revision led k v = Inr ()" "current_revision led k = Some r" "gap_is_open r"
    "cov_range_start r \<le> e" "evs \<noteq> []" "list_all (\<lambda>x. \<not> str_blank x) evs"
  shows "closes_gap (current_revision led k) (gap_closing r e evs v)"
  using assms by (auto simp: validate_next_revision_iff closes_gap_def gap_closing_def list_all_iff
      strict_sorted_remdups_adj sort_Nil_iff)

lemma ledger_step_ok:
  assumes "ledger_step led led'" "ledger_ok led"
  shows "ledger_ok led'"
  using assms(1)
proof cases
  case (step_open c n d s a cause v)
  then obtain k where k: "validate_next_revision led k v = Inr ()" "\<not> str_blank cause"
    "case current_revision led k of None \<Rightarrow> True | Some r \<Rightarrow> \<not> gap_is_open r"
    "led' = add_revision (gap_opening k a cause v) led" by (auto simp: open_gap_iff)
  then show ?thesis
    using ledger_ok_add [OF assms(2), of "gap_opening k a cause v"] opens_gap_opening [OF k(1-3)] assms(2)
    by (simp add: ledger_ok_def)
next
  case (step_close c n d s e evs v)
  then obtain k r where k: "validate_next_revision led k v = Inr ()" "current_revision led k = Some r"
    "gap_is_open r" "cov_range_start r \<le> e" "evs \<noteq> []" "list_all (\<lambda>x. \<not> str_blank x) evs"
    "led' = add_revision (gap_closing r e evs v) led" by (auto simp: close_gap_iff [OF assms(2)])
  have "revision_key r = k"
    using assms(2) k(2) last_in_set [of "history k led"]
    by (auto simp: ledger_ok_def last_opt_def history_def split: if_splits)
  then show ?thesis
    using ledger_ok_add [OF assms(2), of "gap_closing r e evs v"] closes_gap_closing [OF k(1-6)] assms(2) k(7)
    by (simp add: ledger_ok_def)
qed

lemma ledger_reachable_ok: "ledger_step\<^sup>*\<^sup>* ledger_new led \<Longrightarrow> ledger_ok led"
  by (induction rule: rtranclp_induct) (auto intro: ledger_step_ok)

section \<open>What the ledger promises\<close>

definition gap_at :: "coverage_revision list \<Rightarrow> nat \<Rightarrow> bool" where
  "gap_at h i \<longleftrightarrow>
     (if even i then opens_gap (if i = 0 then None else Some (h ! (i - 1))) (h ! i)
      else closes_gap (Some (h ! (i - 1))) (h ! i))"

lemma gap_at_append: "i < length h \<Longrightarrow> gap_at (h @ [r]) i = gap_at h i"
  by (cases i) (auto simp: gap_at_def nth_append)

lemma gap_at_snoc:
  "gap_at (h @ [r]) (length h) =
   (if even (length h) then opens_gap (last_opt h) r else closes_gap (last_opt h) r)"
  by (cases h rule: rev_cases) (auto simp: gap_at_def nth_append)

lemma gap_history_parity:
  "gap_history h \<Longrightarrow> (\<forall>i<length h. gap_at h i) \<and>
     (case last_opt h of None \<Rightarrow> even (length h) | Some r \<Rightarrow> gap_is_open r \<longleftrightarrow> odd (length h))"
proof (induction rule: gap_history.induct)
  case (gap_history_open h r)
  then have ev: "even (length h)" by (auto simp: opens_gap_def split: option.splits)
  then have "gap_at (h @ [r]) (length h)" using gap_history_open by (simp add: gap_at_snoc)
  then show ?case
    using gap_history_open ev by (auto simp: less_Suc_eq gap_at_append opens_gap_def)
next
  case (gap_history_close h r)
  then have od: "odd (length h)" by (auto simp: closes_gap_def split: option.splits)
  then have "gap_at (h @ [r]) (length h)" using gap_history_close by (simp add: gap_at_snoc)
  then show ?case
    using gap_history_close od
    by (auto simp: less_Suc_eq gap_at_append closes_gap_def gap_is_open_def split: option.splits)
qed simp

lemma gap_history_increasing: "gap_history h \<Longrightarrow> sorted_wrt (<) (map cov_revision h)"
proof (induction rule: gap_history.induct)
  case (gap_history_open h r)
  then show ?case
    by (cases h rule: rev_cases) (auto simp: sorted_wrt_append opens_gap_def)
next
  case (gap_history_close h r)
  then show ?case
    by (cases h rule: rev_cases) (auto simp: sorted_wrt_append closes_gap_def)
qed simp

lemma ckey_eta [simp]:
  "\<lparr>ckey_chain = ckey_chain k, ckey_network = ckey_network k, ckey_dataset = ckey_dataset k,
    ckey_source_id = ckey_source_id k\<rparr> = k"
  by simp

text \<open>in every reached ledger the history of a source-qualified dataset is a sequence of gaps
  and repairs in turn. Even positions open a gap with a cause, odd positions close the gap just
  before them, with its start and cause, an end not below the start and strictly sorted, non-blank
  evidence; revisions strictly increase, and the reported state is that of the last revision.\<close>

theorem coverage_histories_alternate:
  assumes "ledger_step\<^sup>*\<^sup>* ledger_new led"
  shows "(\<forall>i<length (history k led). gap_at (history k led) i) \<and>
    sorted_wrt (<) (map cov_revision (history k led)) \<and>
    current_state (ckey_chain k) (ckey_network k) (ckey_dataset k) (ckey_source_id k) led =
      map_option cov_state (last_opt (history k led))"
proof -
  have ok: "gap_history (history k led)" "current_revision led k = last_opt (history k led)"
    using ledger_reachable_ok [OF assms] by (auto simp: ledger_ok_def)
  then show ?thesis
    using gap_history_parity [OF ok(1)] gap_history_increasing [OF ok(1)] by (simp add: current_state_def)
qed

definition valid_key :: "coverage_key \<Rightarrow> bool" where
  "valid_key k \<longleftrightarrow> list_all (\<lambda>v. \<not> str_blank v \<and> str_is_ascii v)
     [ckey_chain k, ckey_network k, ckey_dataset k, ckey_source_id k]"

abbreviation open_at :: "coverage_key \<Rightarrow> u64 \<Rightarrow> string \<Rightarrow> u64 \<Rightarrow> coverage_ledger \<Rightarrow> coverage_error + coverage_ledger" where
  "open_at k \<equiv> open_gap (ckey_chain k) (ckey_network k) (ckey_dataset k) (ckey_source_id k)"

abbreviation close_at :: "coverage_key \<Rightarrow> u64 \<Rightarrow> string list \<Rightarrow> u64 \<Rightarrow> coverage_ledger \<Rightarrow> coverage_error + coverage_ledger" where
  "close_at k \<equiv> close_gap (ckey_chain k) (ckey_network k) (ckey_dataset k) (ckey_source_id k)"

lemma coverage_key_of [simp]:
  "coverage_key_new (ckey_chain k) (ckey_network k) (ckey_dataset k) (ckey_source_id k) = Inr k' \<longleftrightarrow>
   valid_key k \<and> k' = k"
  by (auto simp: coverage_key_new_iff valid_key_def)

lemma history_add: "history k' (add_revision r led) = history k' led @ (if k' = revision_key r then [r] else [])"
  by (simp add: history_eq cov_log.hist_add)

lemma open_at_iff:
  assumes "ledger_ok led"
  shows "open_at k a cause v led = Inr led' \<longleftrightarrow> valid_key k \<and>
    opens_gap (last_opt (history k led)) (gap_opening k a cause v) \<and>
    led' = add_revision (gap_opening k a cause v) led"
proof -
  have "current_revision led k = last_opt (history k led)" using assms by (simp add: ledger_ok_def)
  then show ?thesis
    by (auto simp: open_gap_iff validate_next_revision_iff opens_gap_def gap_is_open_def gap_opening_def
        dest: word_less_pos split: option.splits)
qed

lemma close_at_iff:
  assumes "ledger_ok led"
  shows "close_at k e evs v led = Inr led' \<longleftrightarrow> valid_key k \<and> (\<exists>r. last_opt (history k led) = Some r \<and>
    closes_gap (Some r) (gap_closing r e evs v) \<and> led' = add_revision (gap_closing r e evs v) led)"
proof -
  have "current_revision led k = last_opt (history k led)" using assms by (simp add: ledger_ok_def)
  then show ?thesis
    by (auto simp: close_gap_iff [OF assms] validate_next_revision_iff closes_gap_def gap_closing_def
        list_all_iff strict_sorted_remdups_adj dest: word_less_pos)
qed

lemma history_last_key: "last_opt (history k led) = Some r \<Longrightarrow> revision_key r = k"
  using last_in_set [of "history k led"] by (auto simp: last_opt_def history_def split: if_splits)

text \<open>C11: the ledger implements one gap machine per key. Opening a gap succeeds exactly when the key
  fields are non-blank ASCII and the machine of the key can open it, closing exactly when the machine
  of the key can close it; a success appends that one revision to the history of the key and leaves
  the histories of all other keys alone.\<close>

theorem ledger_refines_gap_machines:
  assumes "ledger_step\<^sup>*\<^sup>* ledger_new led"
  shows "((\<exists>led'. open_at k a cause v led = Inr led') \<longleftrightarrow>
      valid_key k \<and> opens_gap (last_opt (history k led)) (gap_opening k a cause v)) \<and>
    (\<forall>led'. open_at k a cause v led = Inr led' \<longrightarrow>
      (\<forall>k'. history k' led' = history k' led @ (if k' = k then [gap_opening k a cause v] else []))) \<and>
    ((\<exists>led'. close_at k e evs v led = Inr led') \<longleftrightarrow>
      valid_key k \<and> (\<exists>r. last_opt (history k led) = Some r \<and> closes_gap (Some r) (gap_closing r e evs v))) \<and>
    (\<forall>led'. close_at k e evs v led = Inr led' \<longrightarrow> (\<exists>r. last_opt (history k led) = Some r \<and>
      (\<forall>k'. history k' led' = history k' led @ (if k' = k then [gap_closing r e evs v] else []))))"
proof -
  have ok: "ledger_ok led" by (rule ledger_reachable_ok [OF assms])
  show ?thesis
    using history_last_key [of k led]
    by (auto simp: open_at_iff [OF ok] close_at_iff [OF ok] history_add)
qed

section \<open>A concrete ledger\<close>

definition sample_key :: coverage_key where
  "sample_key = \<lparr>ckey_chain = ''btc'', ckey_network = ''main'', ckey_dataset = ''tx'', ckey_source_id = ''s1''\<rparr>"

definition sample_opened :: coverage_ledger where
  "sample_opened = add_revision (gap_opening sample_key 10 ''restart'' 1) ledger_new"

lemma sample_key_valid [simp]: "valid_key sample_key"
  by (simp add: valid_key_def sample_key_def str_blank.simps ws_len_def byte_of_def str_is_ascii_def)

lemma sample_opened_reachable: "ledger_step\<^sup>*\<^sup>* ledger_new sample_opened"
proof -
  have "open_at sample_key 10 ''restart'' 1 ledger_new = Inr sample_opened"
    unfolding open_at_iff [OF ledger_ok_new] sample_opened_def
    by (simp add: history_def ledger_new_def opens_gap_def gap_opening_def gap_is_open_def str_blank.simps
        ws_len_def byte_of_def)
  then show ?thesis by (auto intro: step_open)
qed

lemma sample_opened_history: "history sample_key sample_opened = [gap_opening sample_key 10 ''restart'' 1]"
  by (simp add: sample_opened_def history_add) (simp add: history_def ledger_new_def)

theorem coverage_histories_alternate_witness:
  "gap_at (history sample_key sample_opened) 0 \<and>
   current_state ''btc'' ''main'' ''tx'' ''s1'' sample_opened = Some KnownIncomplete"
  using coverage_histories_alternate [OF sample_opened_reachable, of sample_key]
  by (simp add: sample_opened_history last_opt_def) (simp add: sample_key_def gap_opening_def)

theorem ledger_refines_gap_machines_witness:
  "(\<exists>led'. close_at sample_key 20 [''ev2'', ''ev1'', ''ev2''] 2 sample_opened = Inr led') \<and>
   \<not> (\<exists>led'. open_at sample_key 15 ''again'' 2 sample_opened = Inr led')"
  using ledger_refines_gap_machines [OF sample_opened_reachable, of sample_key 15 "''again''" 2 20
      "[''ev2'', ''ev1'', ''ev2'']"]
  by (simp add: sample_opened_history closes_gap_def opens_gap_def gap_closing_def gap_opening_def gap_is_open_def
      str_blank.simps ws_len_def byte_of_def strict_sorted_remdups_adj list_all_iff last_opt_def)

end
