(* ===== verification/Lineage.thy ===== *)
theory Lineage
  imports Coverage_Ledger
begin

text \<open>
  The replay lineage graph of \<open>processors/reconciler/src/lib.rs\<close> and its bounded traversal. The
  traversal keeps an explicit stack; it is a total function because every step either pops a visited
  entry or visits a new known node. A \<open>usize\<close> is a 64-bit word.
\<close>

section \<open>The graph\<close>

datatype lineage_node_kind = ObservationNode | ArchiveManifestNode | FactNode

record lineage_node =
  lin_id :: string
  lin_kind :: lineage_node_kind
  lin_parent_ids :: "string list"

definition lineage_node_new :: "string \<Rightarrow> lineage_node_kind \<Rightarrow> string list \<Rightarrow> lineage_node" where
  "lineage_node_new i kind parents =
     \<lparr>lin_id = i, lin_kind = kind, lin_parent_ids = remdups_adj (sort parents)\<rparr>"

type_synonym lineage_nodes = "(string, lineage_node) fmap"

record lineage_graph =
  lin_nodes :: lineage_nodes

definition lineage_new :: lineage_graph where
  "lineage_new = \<lparr>lin_nodes = fmempty\<rparr>"

definition lineage_insert :: "lineage_node \<Rightarrow> lineage_graph \<Rightarrow> coverage_error + lineage_graph" where
  "lineage_insert n g =
     (if str_blank (lin_id n) then Inl EmptyLineageId
      else if fmlookup (lin_nodes g) (lin_id n) \<noteq> None then Inl (DuplicateLineageNode (lin_id n))
      else if lin_kind n = ObservationNode \<and> lin_parent_ids n \<noteq> [] then Inl ObservationHasParents
      else case find (\<lambda>p. fmlookup (lin_nodes g) p = None) (lin_parent_ids n) of
          Some p \<Rightarrow> Inl (UnknownLineageNode p)
        | None \<Rightarrow> Inr (g\<lparr>lin_nodes := fmupd (lin_id n) n (lin_nodes g)\<rparr>))"

section \<open>The traversal\<close>

function trace_loop ::
  "lineage_nodes \<Rightarrow> u64 \<Rightarrow> u64 \<Rightarrow> (string \<times> u64) list \<Rightarrow> string set \<Rightarrow> lineage_node list \<Rightarrow> bool \<Rightarrow>
   coverage_error + lineage_node list" where
  "trace_loop ns max_depth max_nodes [] visited trace found =
     (if found then Inr trace else Inl LineageMissingObservation)"
| "trace_loop ns max_depth max_nodes ((i, depth) # stack) visited trace found =
     (if i \<in> visited then trace_loop ns max_depth max_nodes stack visited trace found
      else if max_depth < depth then Inl LineageDepthExceeded
      else case fmlookup ns i of
          None \<Rightarrow> Inl (UnknownLineageNode i)
        | Some n \<Rightarrow>
            if unat max_nodes \<le> length trace then Inl LineageNodeLimitExceeded
            else if lin_kind n \<noteq> ObservationNode \<and> lin_parent_ids n = [] then Inl LineageMissingObservation
            else trace_loop ns max_depth max_nodes
                   (map (\<lambda>p. (p, saturating_add depth 1)) (lin_parent_ids n) @ stack)
                   (insert i visited) (trace @ [n]) (lin_kind n = ObservationNode \<or> found))"
  by pat_completeness auto
termination
proof (relation "measures [\<lambda>(ns, _, _, _, visited, _, _). card (fmdom' ns - visited),
    \<lambda>(_, _, _, stack, _, _, _). length stack]", goal_cases)
  case (3 ns md mn i depth stack visited trace found n)
  then have "i \<in> fmdom' ns - visited" by (auto simp: fmdom'I)
  then have "fmdom' ns - insert i visited \<subset> fmdom' ns - visited" by auto
  then show ?case by (simp add: psubset_card_mono)
qed auto

definition trace_to_observations ::
  "string \<Rightarrow> u64 \<Rightarrow> u64 \<Rightarrow> lineage_graph \<Rightarrow> coverage_error + lineage_node list" where
  "trace_to_observations root max_depth max_nodes g =
     (if max_nodes = 0 then Inl LineageNodeLimitExceeded
      else trace_loop (lin_nodes g) max_depth max_nodes [(root, 0)] {} [] False)"

section \<open>Provenance\<close>

definition lin_parent :: "lineage_nodes \<Rightarrow> string \<Rightarrow> string \<Rightarrow> bool" where
  "lin_parent ns a b \<longleftrightarrow> (case fmlookup ns a of None \<Rightarrow> False | Some n \<Rightarrow> b \<in> set (lin_parent_ids n))"

definition provenance :: "lineage_nodes \<Rightarrow> string \<Rightarrow> string set" where
  "provenance ns root = {x. (lin_parent ns)\<^sup>*\<^sup>* root x}"

definition lin_ranked :: "lineage_nodes \<Rightarrow> (string \<Rightarrow> nat) \<Rightarrow> bool" where
  "lin_ranked ns rank \<longleftrightarrow>
     (\<forall>k n. fmlookup ns k = Some n \<longrightarrow> rank k < card (fmdom' ns) \<and>
        (\<forall>p \<in> set (lin_parent_ids n). fmlookup ns p \<noteq> None \<and> rank p < rank k))"

definition lineage_ok :: "lineage_nodes \<Rightarrow> bool" where
  "lineage_ok ns \<longleftrightarrow> (\<forall>k n. fmlookup ns k = Some n \<longrightarrow> lin_id n = k \<and>
       (lin_kind n = ObservationNode \<longrightarrow> lin_parent_ids n = [])) \<and> (\<exists>rank. lin_ranked ns rank)"

inductive lineage_step :: "lineage_graph \<Rightarrow> lineage_graph \<Rightarrow> bool" where
  step_insert: "lineage_insert n g = Inr g' \<Longrightarrow> lineage_step g g'"

lemma lineage_insert_iff:
  "lineage_insert n g = Inr g' \<longleftrightarrow> \<not> str_blank (lin_id n) \<and> fmlookup (lin_nodes g) (lin_id n) = None \<and>
     (lin_kind n = ObservationNode \<longrightarrow> lin_parent_ids n = []) \<and>
     (\<forall>p \<in> set (lin_parent_ids n). fmlookup (lin_nodes g) p \<noteq> None) \<and>
     g' = g\<lparr>lin_nodes := fmupd (lin_id n) n (lin_nodes g)\<rparr>"
proof (cases "find (\<lambda>p. fmlookup (lin_nodes g) p = None) (lin_parent_ids n)")
  case None
  then have "\<forall>p \<in> set (lin_parent_ids n). fmlookup (lin_nodes g) p \<noteq> None" by (simp add: find_None_iff)
  with None show ?thesis by (auto simp: lineage_insert_def)
next
  case (Some p)
  then have "p \<in> set (lin_parent_ids n)" "fmlookup (lin_nodes g) p = None"
    by (auto simp: find_Some_iff)
  with Some show ?thesis by (auto simp: lineage_insert_def)
qed

lemma lin_ranked_fmupd:
  assumes "lin_ranked ns rank" "fmlookup ns (lin_id n) = None"
    "\<forall>p \<in> set (lin_parent_ids n). fmlookup ns p \<noteq> None"
  shows "lin_ranked (fmupd (lin_id n) n ns) (rank(lin_id n := card (fmdom' ns)))"
  using assms by (fastforce simp: lin_ranked_def fmdom'_notI card_insert_if)

lemma lineage_insert_ok:
  assumes "lineage_insert n g = Inr g'" "lineage_ok (lin_nodes g)"
  shows "lineage_ok (lin_nodes g')"
proof -
  obtain rank where "lin_ranked (lin_nodes g) rank" using assms(2) by (auto simp: lineage_ok_def)
  then have "lin_ranked (lin_nodes g') (rank(lin_id n := card (fmdom' (lin_nodes g))))"
    using assms(1) lin_ranked_fmupd by (auto simp: lineage_insert_iff)
  then show ?thesis using assms by (auto simp: lineage_insert_iff lineage_ok_def)
qed

lemma lineage_reachable_ok: "lineage_step\<^sup>*\<^sup>* lineage_new g \<Longrightarrow> lineage_ok (lin_nodes g)"
proof (induction rule: rtranclp_induct)
  case base
  show ?case by (simp add: lineage_new_def lineage_ok_def lin_ranked_def)
qed (auto elim: lineage_step.cases intro: lineage_insert_ok)

section \<open>What a trace contains\<close>

text \<open>The state of the traversal: what is visited is recorded, reachable and leads to the stack.\<close>

definition trace_inv ::
  "lineage_nodes \<Rightarrow> string \<Rightarrow> nat \<Rightarrow> string set \<Rightarrow> string set \<Rightarrow> lineage_node list \<Rightarrow> bool \<Rightarrow> bool" where
  "trace_inv ns root max_nodes pending visited trace found \<longleftrightarrow>
     visited = lin_id ` set trace \<and> distinct (map lin_id trace) \<and> length trace \<le> max_nodes \<and>
     (\<forall>n \<in> set trace. fmlookup ns (lin_id n) = Some n \<and>
        (lin_kind n \<noteq> ObservationNode \<longrightarrow> lin_parent_ids n \<noteq> []) \<and>
        set (lin_parent_ids n) \<subseteq> visited \<union> pending) \<and>
     visited \<union> pending \<subseteq> provenance ns root \<and> root \<in> visited \<union> pending \<and>
     (found \<longleftrightarrow> (\<exists>n \<in> set trace. lin_kind n = ObservationNode))"

lemma trace_inv_skip:
  "trace_inv ns root m (insert i pending) visited trace found \<Longrightarrow> i \<in> visited \<Longrightarrow>
   trace_inv ns root m pending visited trace found"
  by (simp add: trace_inv_def insert_absorb) blast

lemma trace_inv_visit:
  assumes "trace_inv ns root m (insert i pending) visited trace found" "i \<notin> visited"
    "fmlookup ns i = Some n" "lin_id n = i" "length trace < m"
    "lin_kind n = ObservationNode \<or> lin_parent_ids n \<noteq> []"
  shows "trace_inv ns root m (set (lin_parent_ids n) \<union> pending) (insert i visited) (trace @ [n])
    (lin_kind n = ObservationNode \<or> found)"
proof -
  have "set (lin_parent_ids n) \<subseteq> provenance ns root"
    using assms(1,3) by (auto simp: trace_inv_def provenance_def lin_parent_def intro: rtranclp.rtrancl_into_rtrancl)
  then show ?thesis using assms by (auto simp: trace_inv_def)
qed

lemma trace_inv_visited:
  "trace_inv ns root m pending visited trace found \<Longrightarrow> visited = lin_id ` set trace"
  by (simp add: trace_inv_def)

lemma trace_inv_found:
  "trace_inv ns root m pending visited trace found \<Longrightarrow> n \<in> set trace \<Longrightarrow> lin_kind n = ObservationNode \<Longrightarrow> found"
  by (auto simp: trace_inv_def)

lemma trace_inv_node:
  "trace_inv ns root m pending visited trace found \<Longrightarrow> n \<in> set trace \<Longrightarrow>
   fmlookup ns (lin_id n) = Some n \<and> set (lin_parent_ids n) \<subseteq> visited \<union> pending"
  unfolding trace_inv_def by blast

lemma trace_inv_done:
  assumes "trace_inv ns root m {} visited trace found"
  shows "visited = provenance ns root"
proof -
  have "x \<in> visited" if "(lin_parent ns)\<^sup>*\<^sup>* root x" for x
    using that
  proof (induction rule: rtranclp_induct)
    case (step y z)
    then obtain n where "n \<in> set trace" "lin_id n = y" using assms by (auto simp: trace_inv_def)
    with trace_inv_node [OF assms] have "fmlookup ns y = Some n" "set (lin_parent_ids n) \<subseteq> visited" by auto
    with step.hyps(2) show ?case by (auto simp: lin_parent_def)
  qed (use assms in \<open>unfold trace_inv_def, blast\<close>)
  then show ?thesis using assms by (auto simp: trace_inv_def provenance_def)
qed

definition is_trace :: "lineage_nodes \<Rightarrow> string \<Rightarrow> nat \<Rightarrow> lineage_node list \<Rightarrow> bool" where
  "is_trace ns root m t \<longleftrightarrow> distinct (map lin_id t) \<and> length t \<le> m \<and> lin_id ` set t = provenance ns root \<and>
     (\<forall>n \<in> set t. fmlookup ns (lin_id n) = Some n \<and> (lin_kind n \<noteq> ObservationNode \<longrightarrow> lin_parent_ids n \<noteq> [])) \<and>
     (\<exists>n \<in> set t. lin_kind n = ObservationNode)"

lemma trace_loop_sound:
  assumes "trace_loop ns md mn stack visited trace found = Inr t"
    "trace_inv ns root (unat mn) (fst ` set stack) visited trace found"
    "\<forall>k n. fmlookup ns k = Some n \<longrightarrow> lin_id n = k"
  shows "is_trace ns root (unat mn) t"
  using assms
proof (induction ns md mn stack visited trace found rule: trace_loop.induct)
  case (1 ns md mn visited trace found)
  have inv: "trace_inv ns root (unat mn) {} visited trace found" using 1(2) by simp
  have "found" "t = trace" using 1(1) by (auto split: if_splits)
  with inv trace_inv_done [OF inv] show ?case by (simp add: trace_inv_def is_trace_def)
next
  case (2 ns md mn i depth stack visited trace found)
  have inv: "trace_inv ns root (unat mn) (insert i (fst ` set stack)) visited trace found"
    using 2(4) by simp
  show ?case
  proof (cases "i \<in> visited")
    case True
    with 2(1) [OF True] 2(3,5) trace_inv_skip [OF inv True] show ?thesis by simp
  next
    case False
    with 2(3) obtain n where n: "fmlookup ns i = Some n" "length trace < unat mn" "\<not> md < depth"
      "lin_kind n = ObservationNode \<or> lin_parent_ids n \<noteq> []"
      by (auto split: option.splits if_splits)
    have "lin_id n = i" using 2(5) n(1) by simp
    note visit = trace_inv_visit [OF inv False n(1) this n(2,4)]
    have lim: "\<not> unat mn \<le> length trace" "\<not> (lin_kind n \<noteq> ObservationNode \<and> lin_parent_ids n = [])"
      using n by auto
    have "fst ` set (map (\<lambda>p. (p, saturating_add depth 1)) (lin_parent_ids n) @ stack) =
        set (lin_parent_ids n) \<union> fst ` set stack"
      by (simp add: image_Un image_image)
    then show ?thesis
      using 2(2) [OF False n(3,1) lim] visit 2(5)
        2(3) [unfolded trace_loop.simps n(1) option.case if_not_P [OF False] if_not_P [OF n(3)]
          if_not_P [OF lim(1)] if_not_P [OF lim(2)]] by simp
  qed
qed

section \<open>When a trace exists\<close>

definition grounded :: "lineage_nodes \<Rightarrow> string \<Rightarrow> bool" where
  "grounded ns root \<longleftrightarrow> (\<forall>x \<in> provenance ns root. case fmlookup ns x of None \<Rightarrow> False
     | Some n \<Rightarrow> lin_kind n = ObservationNode \<or> lin_parent_ids n \<noteq> [])"

lemma groundedD: "grounded ns root \<Longrightarrow> x \<in> provenance ns root \<Longrightarrow>
    \<exists>n. fmlookup ns x = Some n \<and> (lin_kind n = ObservationNode \<or> lin_parent_ids n \<noteq> [])"
  by (fastforce simp: grounded_def split: option.splits)

lemma provenance_refl [simp]: "root \<in> provenance ns root"
  by (simp add: provenance_def)

lemma provenance_parent: "lin_parent ns a b \<Longrightarrow> a \<in> provenance ns root \<Longrightarrow> b \<in> provenance ns root"
  by (auto simp: provenance_def)

lemma provenance_trans: "a \<in> provenance ns root \<Longrightarrow> provenance ns a \<subseteq> provenance ns root"
  by (auto simp: provenance_def)

lemma provenance_known:
  assumes "grounded ns root"
  shows "provenance ns root \<subseteq> fmdom' ns"
proof -
  have "x \<in> fmdom' ns" if "x \<in> provenance ns root" for x
    using groundedD [OF assms that] fmdom'I by fast
  then show ?thesis by (rule subsetI)
qed

lemma finite_provenance: "grounded ns root \<Longrightarrow> finite (provenance ns root)"
  using finite_subset [OF provenance_known finite_fmdom'] .

lemma grounded_has_observation:
  assumes "lin_ranked ns rank"
  shows "grounded ns root \<Longrightarrow> \<exists>x \<in> provenance ns root. \<exists>n. fmlookup ns x = Some n \<and> lin_kind n = ObservationNode"
proof (induction "rank root" arbitrary: root rule: less_induct)
  case less
  obtain n where n: "fmlookup ns root = Some n" "lin_kind n = ObservationNode \<or> lin_parent_ids n \<noteq> []"
    using groundedD [OF less.prems provenance_refl] by blast
  show ?case
  proof (cases "lin_kind n = ObservationNode")
    case True
    with n(1) provenance_refl show ?thesis by blast
  next
    case False
    with n(2) obtain p where p: "p \<in> set (lin_parent_ids n)" by (cases "lin_parent_ids n") auto
    have rk: "rank p < rank root" using assms n(1) p by (auto simp: lin_ranked_def)
    have "lin_parent ns root p" using n(1) p by (simp add: lin_parent_def)
    then have sub: "provenance ns p \<subseteq> provenance ns root"
      by (rule provenance_trans [OF provenance_parent [OF _ provenance_refl]])
    then have "grounded ns p" using less.prems unfolding grounded_def by blast
    then show ?thesis using less.hyps [OF rk] sub by blast
  qed
qed

definition depth_bounded :: "(string \<Rightarrow> nat) \<Rightarrow> nat \<Rightarrow> (string \<times> u64) list \<Rightarrow> bool" where
  "depth_bounded rank r stack \<longleftrightarrow> (\<forall>(i, d) \<in> set stack. unat d + rank i \<le> r)"

lemma depth_bounded_push:
  assumes "lin_ranked ns rank" "fmlookup ns i = Some n" "depth_bounded rank r ((i, d) # stack)"
  shows "depth_bounded rank r (map (\<lambda>p. (p, saturating_add d 1)) (lin_parent_ids n) @ stack)"
proof -
  have "unat (saturating_add d 1) + rank p \<le> r" if "p \<in> set (lin_parent_ids n)" for p
  proof -
    have "rank p < rank i" using assms(1,2) that by (auto simp: lin_ranked_def)
    moreover have "unat (saturating_add d 1) \<le> unat d + 1" by (simp add: unat_saturating_add)
    ultimately show ?thesis using assms(3) by (simp add: depth_bounded_def)
  qed
  then show ?thesis using assms(3) by (auto simp: depth_bounded_def)
qed

lemma trace_room:
  assumes "trace_inv ns root m (insert i pending) visited trace found" "i \<notin> visited" "grounded ns root"
  shows "length trace < card (provenance ns root)"
proof -
  have "insert i (lin_id ` set trace) \<subseteq> provenance ns root" "distinct (map lin_id trace)"
    "i \<notin> lin_id ` set trace"
    using assms(1,2) unfolding trace_inv_def by blast+
  then have "Suc (length trace) \<le> card (provenance ns root)"
    using card_mono [OF finite_provenance [OF assms(3)], of "insert i (lin_id ` set trace)"]
      distinct_card [of "map lin_id trace"] by simp
  then show ?thesis by simp
qed

lemma trace_loop_complete:
  assumes "trace_inv ns root (unat mn) (fst ` set stack) visited trace found" "lin_ranked ns rank"
    "\<forall>k n. fmlookup ns k = Some n \<longrightarrow> lin_id n = k" "grounded ns root"
    "depth_bounded rank (rank root) stack" "rank root \<le> unat md" "card (provenance ns root) \<le> unat mn"
  shows "\<exists>t. trace_loop ns md mn stack visited trace found = Inr t"
  using assms
proof (induction ns md mn stack visited trace found rule: trace_loop.induct)
  case (1 ns md mn visited trace found)
  have inv: "trace_inv ns root (unat mn) {} visited trace found" using 1(1) by simp
  obtain x n where x: "x \<in> provenance ns root" "fmlookup ns x = Some n" "lin_kind n = ObservationNode"
    using grounded_has_observation [OF 1(2,4)] by blast
  then obtain n' where n': "n' \<in> set trace" "lin_id n' = x"
    using trace_inv_visited [OF inv] trace_inv_done [OF inv] by auto
  then have "n' = n" using x(2) trace_inv_node [OF inv n'(1)] by simp
  then have "found" using trace_inv_found [OF inv n'(1)] x(3) by simp
  then show ?case by simp
next
  case (2 ns md mn i depth stack visited trace found)
  have inv: "trace_inv ns root (unat mn) (insert i (fst ` set stack)) visited trace found"
    using 2(3) by simp
  show ?case
  proof (cases "i \<in> visited")
    case True
    have "depth_bounded rank (rank root) stack" using 2(7) by (simp add: depth_bounded_def)
    with 2(1) [OF True trace_inv_skip [OF inv True] 2(4-6) _ 2(8,9)] True show ?thesis by simp
  next
    case False
    have "i \<in> provenance ns root" using inv unfolding trace_inv_def by blast
    then obtain n where n: "fmlookup ns i = Some n" "lin_kind n = ObservationNode \<or> lin_parent_ids n \<noteq> []"
      using groundedD [OF 2(6)] by blast
    have md: "\<not> md < depth" using 2(7,8) by (simp add: depth_bounded_def word_less_nat_alt)
    have len: "length trace < unat mn" using trace_room [OF inv False 2(6)] 2(9) by simp
    have "lin_id n = i" using 2(5) n(1) by simp
    note visit = trace_inv_visit [OF inv False n(1) this len n(2)]
    have lim: "\<not> unat mn \<le> length trace" "\<not> (lin_kind n \<noteq> ObservationNode \<and> lin_parent_ids n = [])"
      using n len by auto
    have "fst ` set (map (\<lambda>p. (p, saturating_add depth 1)) (lin_parent_ids n) @ stack) =
        set (lin_parent_ids n) \<union> fst ` set stack"
      by (simp add: image_Un image_image)
    then have "\<exists>t. trace_loop ns md mn (map (\<lambda>p. (p, saturating_add depth 1)) (lin_parent_ids n) @ stack)
        (insert i visited) (trace @ [n]) (lin_kind n = ObservationNode \<or> found) = Inr t"
      using 2(2) [OF False md n(1) lim _ 2(4-6) depth_bounded_push [OF 2(4) n(1) 2(7)] 2(8,9)] visit by simp
    then show ?thesis using False md n lim by simp
  qed
qed

section \<open>What the lineage graph promises\<close>

lemma trace_inv_start: "trace_inv ns root m {root} {} [] False"
  by (simp add: trace_inv_def)

lemma trace_sound_ok:
  assumes "lineage_ok (lin_nodes g)" "trace_to_observations root max_depth max_nodes g = Inr t"
  shows "is_trace (lin_nodes g) root (unat max_nodes) t"
proof (rule trace_loop_sound)
  show "trace_loop (lin_nodes g) max_depth max_nodes [(root, 0)] {} [] False = Inr t"
    using assms(2) by (simp add: trace_to_observations_def split: if_splits)
  show "trace_inv (lin_nodes g) root (unat max_nodes) (fst ` set [(root, 0)]) {} [] False"
    by (simp add: trace_inv_start)
  show "\<forall>k n. fmlookup (lin_nodes g) k = Some n \<longrightarrow> lin_id n = k"
    using assms(1) by (simp add: lineage_ok_def)
qed

lemma is_trace_grounded:
  assumes "is_trace ns root m t"
  shows "grounded ns root"
  unfolding grounded_def
proof
  fix x
  assume "x \<in> provenance ns root"
  then have "x \<in> lin_id ` set t" using assms by (simp add: is_trace_def)
  then obtain n where "n \<in> set t" "x = lin_id n" by blast
  then show "case fmlookup ns x of None \<Rightarrow> False | Some n \<Rightarrow> lin_kind n = ObservationNode \<or> lin_parent_ids n \<noteq> []"
    using assms by (auto simp: is_trace_def)
qed

text \<open>C12: a successful trace is the provenance of its root. It lists every node the root is derived
  from once and nothing else, stays within the node limit, and every derived node in it has parents,
  so that every branch ends in an observation.\<close>

theorem lineage_trace_is_provenance:
  assumes "lineage_step\<^sup>*\<^sup>* lineage_new g" "trace_to_observations root max_depth max_nodes g = Inr t"
  shows "is_trace (lin_nodes g) root (unat max_nodes) t"
  by (rule trace_sound_ok [OF lineage_reachable_ok [OF assms(1)] assms(2)])

text \<open>limits of the size of the graph are always enough. With them a trace exists exactly when the
  root is known and no derived node among its ancestors is without parents: insertion of parents
  first keeps the graph free of cycles, so the traversal ends and its depth is bounded.\<close>

theorem lineage_trace_complete:
  assumes "lineage_step\<^sup>*\<^sup>* lineage_new g"
    "card (fmdom' (lin_nodes g)) \<le> Suc (unat max_depth)" "card (fmdom' (lin_nodes g)) \<le> unat max_nodes"
    "0 < max_nodes"
  shows "(\<exists>t. trace_to_observations root max_depth max_nodes g = Inr t) \<longleftrightarrow> grounded (lin_nodes g) root"
proof
  assume "\<exists>t. trace_to_observations root max_depth max_nodes g = Inr t"
  then show "grounded (lin_nodes g) root"
    using trace_sound_ok [OF lineage_reachable_ok [OF assms(1)]] is_trace_grounded by blast
next
  assume gr: "grounded (lin_nodes g) root"
  have ok: "lineage_ok (lin_nodes g)" by (rule lineage_reachable_ok [OF assms(1)])
  then obtain rank where rank: "lin_ranked (lin_nodes g) rank" by (auto simp: lineage_ok_def)
  obtain n where n: "fmlookup (lin_nodes g) root = Some n" using groundedD [OF gr provenance_refl] by fast
  have "rank root < card (fmdom' (lin_nodes g))" using rank n by (auto simp: lin_ranked_def)
  moreover have "card (provenance (lin_nodes g) root) \<le> card (fmdom' (lin_nodes g))"
    by (rule card_mono [OF finite_fmdom' provenance_known [OF gr]])
  ultimately have "\<exists>t. trace_loop (lin_nodes g) max_depth max_nodes [(root, 0)] {} [] False = Inr t"
    using assms(2,3) ok gr rank trace_inv_start
    by (intro trace_loop_complete [of _ root _ _ _ _ _ rank]) (auto simp: lineage_ok_def depth_bounded_def)
  then show "\<exists>t. trace_to_observations root max_depth max_nodes g = Inr t"
    using assms(4) by (auto simp: trace_to_observations_def)
qed

section \<open>A concrete graph\<close>

definition sample_obs :: lineage_node where "sample_obs = lineage_node_new ''o1'' ObservationNode []"
definition sample_manifest :: lineage_node where "sample_manifest = lineage_node_new ''m1'' ArchiveManifestNode [''o1'']"
definition sample_fact :: lineage_node where "sample_fact = lineage_node_new ''f1'' FactNode [''o1'', ''m1'', ''o1'']"

definition sample_lineage :: lineage_graph where
  "sample_lineage = \<lparr>lin_nodes = fmupd ''f1'' sample_fact (fmupd ''m1'' sample_manifest (fmupd ''o1'' sample_obs fmempty))\<rparr>"

lemmas sample_lineage_defs = sample_lineage_def sample_obs_def sample_manifest_def sample_fact_def lineage_node_new_def

lemma sample_lineage_reachable: "lineage_step\<^sup>*\<^sup>* lineage_new sample_lineage"
proof -
  let ?g1 = "\<lparr>lin_nodes = fmupd ''o1'' sample_obs fmempty\<rparr>"
  let ?g2 = "\<lparr>lin_nodes = fmupd ''m1'' sample_manifest (fmupd ''o1'' sample_obs fmempty)\<rparr>"
  have "lineage_insert sample_obs lineage_new = Inr ?g1" "lineage_insert sample_manifest ?g1 = Inr ?g2"
    "lineage_insert sample_fact ?g2 = Inr sample_lineage"
    by (simp_all add: lineage_insert_def sample_lineage_defs lineage_new_def str_blank.simps ws_len_def byte_of_def)
  then show ?thesis by (meson step_insert rtranclp.rtrancl_into_rtrancl rtranclp.rtrancl_refl)
qed

lemma sample_trace:
  "trace_to_observations ''f1'' 2 3 sample_lineage = Inr [sample_fact, sample_manifest, sample_obs]"
  by (simp add: trace_to_observations_def sample_lineage_defs saturating_add_def)

theorem lineage_trace_is_provenance_witness:
  "is_trace (lin_nodes sample_lineage) ''f1'' 3 [sample_fact, sample_manifest, sample_obs]"
  using lineage_trace_is_provenance [OF sample_lineage_reachable sample_trace] by simp

theorem lineage_trace_complete_witness:
  "grounded (lin_nodes sample_lineage) ''f1''"
proof -
  have "fmdom' (lin_nodes sample_lineage) = {''f1'', ''m1'', ''o1''}" by (simp add: sample_lineage_def)
  then have "card (fmdom' (lin_nodes sample_lineage)) = 3" by simp
  then show ?thesis
    using lineage_trace_complete [OF sample_lineage_reachable, of 2 3 "''f1''"] sample_trace by simp
qed

end
