(* ===== verification/Mempool_State.thy ===== *)
theory Mempool_State
  imports Bitcoin_Samples Keyed_Log
begin

text \<open>
  The observer-local mempool projection of \<open>processors/bitcoin-mempool/src/state.rs\<close> and
  \<open>membership.rs\<close>: current members with their epochs, the append-only log of membership revisions,
  and the reconciliation with atomic snapshots. Times are the two's complement words of \<open>i64\<close>.
\<close>

section \<open>Data\<close>

datatype membership_state = Present | Absent

datatype membership_cause = CauseObserved | CauseMined | CauseReplaced | CauseDisconnected | ReconciledSnapshot

datatype removal_cause = RemovalObserved | RemovalMined | RemovalReplaced

fun cause_from_removal :: "removal_cause \<Rightarrow> membership_cause" where
  "cause_from_removal RemovalObserved = CauseObserved"
| "cause_from_removal RemovalMined = CauseMined"
| "cause_from_removal RemovalReplaced = CauseReplaced"

record membership_revision =
  mr_txid :: digest
  mr_epoch_id :: digest
  mr_epoch_revision :: u32
  mr_state :: membership_state
  mr_cause :: membership_cause
  mr_source_observed_at :: "i64 option"
  mr_recorded_at :: i64

datatype mempool_error =
    MempoolEmptySourceId
  | SnapshotSequenceRegression u64 u64
  | SnapshotSequenceConflict u64
  | UnknownTransaction digest
  | InvalidReplacementEvidence digest
  | FeeOverflow
  | VirtualSizeOverflow
  | TransactionTooLarge digest
  | ZeroVirtualSize

datatype observer_health = Healthy | Gapped | Offline

record active_epoch =
  ep_id :: digest
  ep_first_seen :: "i64 option"

record observer_mempool =
  obs_source_id :: string
  obs_snapshot_sequence :: "u64 option"
  obs_last_snapshot_members :: "digest fset option"
  obs_members :: "(digest, active_epoch) fmap"
  obs_epoch_counts :: "(digest, u64) fmap"
  obs_revisions :: "membership_revision list"
  obs_health :: observer_health
  obs_clock_offset_ns :: i64

section \<open>Operations\<close>

definition observer_new :: "string \<Rightarrow> mempool_error + observer_mempool" where
  "observer_new source =
     (if str_blank source then Inl MempoolEmptySourceId
      else Inr \<lparr>obs_source_id = source, obs_snapshot_sequence = None, obs_last_snapshot_members = None,
        obs_members = fmempty, obs_epoch_counts = fmempty, obs_revisions = [], obs_health = Offline,
        obs_clock_offset_ns = 0\<rparr>)"

definition epoch_id :: "bitcoin_lib \<Rightarrow> string \<Rightarrow> digest \<Rightarrow> u64 \<Rightarrow> digest" where
  "epoch_id L source t n = sha256 L
     (ascii_bytes ''multichain.bitcoin.mempool.epoch.v1'' @
      le_bytes 8 (min (length source) (2 ^ 64 - 1)) @ ascii_bytes source @
      be_bytes 32 (unat t) @ le_bytes 8 (unat n))"

definition record_revision :: "membership_revision \<Rightarrow> observer_mempool \<Rightarrow> observer_mempool" where
  "record_revision r st = st\<lparr>obs_revisions := obs_revisions st @ [r]\<rparr>"

definition next_epoch :: "digest \<Rightarrow> observer_mempool \<Rightarrow> u64" where
  "next_epoch t st = (case fmlookup (obs_epoch_counts st) t of
     None \<Rightarrow> 1 | Some n \<Rightarrow> saturating_add n 1)"

definition mempool_add ::
  "bitcoin_lib \<Rightarrow> digest \<Rightarrow> membership_cause \<Rightarrow> i64 option \<Rightarrow> i64 \<Rightarrow> observer_mempool \<Rightarrow>
   membership_revision option \<times> observer_mempool" where
  "mempool_add L t cause observed recorded st =
     (if fmlookup (obs_members st) t \<noteq> None then (None, st)
      else
        let n = next_epoch t st;
            e = epoch_id L (obs_source_id st) t n;
            r = \<lparr>mr_txid = t, mr_epoch_id = e, mr_epoch_revision = 1, mr_state = Present, mr_cause = cause,
              mr_source_observed_at = observed, mr_recorded_at = recorded\<rparr>
        in (Some r, record_revision r
              (st\<lparr>obs_epoch_counts := fmupd t n (obs_epoch_counts st),
                 obs_members := fmupd t \<lparr>ep_id = e, ep_first_seen = observed\<rparr> (obs_members st)\<rparr>)))"

definition mempool_remove ::
  "digest \<Rightarrow> membership_cause \<Rightarrow> i64 option \<Rightarrow> i64 \<Rightarrow> observer_mempool \<Rightarrow>
   membership_revision option \<times> observer_mempool" where
  "mempool_remove t cause observed recorded st =
     (case fmlookup (obs_members st) t of
        None \<Rightarrow> (None, st)
      | Some epoch \<Rightarrow>
          let r = \<lparr>mr_txid = t, mr_epoch_id = ep_id epoch, mr_epoch_revision = 2, mr_state = Absent,
                mr_cause = cause, mr_source_observed_at = observed, mr_recorded_at = recorded\<rparr>
          in (Some r, record_revision r (st\<lparr>obs_members := fmdrop t (obs_members st)\<rparr>)))"

definition observe_add ::
  "bitcoin_lib \<Rightarrow> digest \<Rightarrow> i64 \<Rightarrow> observer_mempool \<Rightarrow> membership_revision option \<times> observer_mempool" where
  "observe_add L t at st = mempool_add L t CauseObserved (Some at) at st"

definition reaccept_after_disconnect ::
  "bitcoin_lib \<Rightarrow> digest \<Rightarrow> i64 \<Rightarrow> observer_mempool \<Rightarrow> membership_revision option \<times> observer_mempool" where
  "reaccept_after_disconnect L t at st = mempool_add L t CauseDisconnected (Some at) at st"

definition observe_remove ::
  "digest \<Rightarrow> i64 \<Rightarrow> removal_cause \<Rightarrow> observer_mempool \<Rightarrow> membership_revision option \<times> observer_mempool" where
  "observe_remove t at cause st = mempool_remove t (cause_from_removal cause) (Some at) at st"

text \<open>The two reconciliation loops: apply one change per transaction and collect its revision.\<close>

fun reconcile ::
  "(digest \<Rightarrow> observer_mempool \<Rightarrow> membership_revision option \<times> observer_mempool) \<Rightarrow> digest list \<Rightarrow>
   observer_mempool \<Rightarrow> membership_revision list \<times> observer_mempool" where
  "reconcile change [] st = ([], st)"
| "reconcile change (t # ts) st =
     (case change t st of
        (r, st1) \<Rightarrow>
          (case reconcile change ts st1 of
             (rs, st2) \<Rightarrow> ((case r of None \<Rightarrow> rs | Some x \<Rightarrow> x # rs), st2)))"

definition apply_snapshot ::
  "bitcoin_lib \<Rightarrow> u64 \<Rightarrow> digest list \<Rightarrow> i64 \<Rightarrow> observer_mempool \<Rightarrow>
   (mempool_error + membership_revision list) \<times> observer_mempool" where
  "apply_snapshot L sequence members recorded st =
     (let snapshot = fset_of_list members in
      case (case obs_snapshot_sequence st of
              None \<Rightarrow> None
            | Some current \<Rightarrow>
                if sequence < current then Some (Inl (SnapshotSequenceRegression current sequence))
                else if sequence = current then
                  Some (if obs_last_snapshot_members st = Some snapshot then Inr []
                        else Inl (SnapshotSequenceConflict sequence))
                else None) of
        Some result \<Rightarrow> (result, st)
      | None \<Rightarrow>
          let current = fmdom (obs_members st);
              (removed, st1) = reconcile (\<lambda>t. mempool_remove t ReconciledSnapshot None recorded)
                (sorted_list_of_fset (current |-| snapshot)) st;
              (added, st2) = reconcile (\<lambda>t. mempool_add L t ReconciledSnapshot None recorded)
                (sorted_list_of_fset (snapshot |-| current)) st1
          in (Inr (removed @ added),
              st2\<lparr>obs_snapshot_sequence := Some sequence, obs_last_snapshot_members := Some snapshot\<rparr>))"

definition set_health :: "observer_health \<Rightarrow> i64 \<Rightarrow> observer_mempool \<Rightarrow> observer_mempool" where
  "set_health health offset st = st\<lparr>obs_health := health, obs_clock_offset_ns := offset\<rparr>"

definition mempool_contains :: "digest \<Rightarrow> observer_mempool \<Rightarrow> bool" where
  "mempool_contains t st \<longleftrightarrow> fmlookup (obs_members st) t \<noteq> None"

definition first_seen_at :: "digest \<Rightarrow> observer_mempool \<Rightarrow> i64 option" where
  "first_seen_at t st = (case fmlookup (obs_members st) t of None \<Rightarrow> None | Some e \<Rightarrow> ep_first_seen e)"

section \<open>Epoch histories\<close>

interpretation mlog: keyed_log mr_txid obs_revisions record_revision
  by unfold_locales (simp add: record_revision_def)

text \<open>
  The revisions of one transaction: epochs start at even positions, end at odd ones, and the epoch
  that starts at position \<open>i\<close> has the number \<open>i div 2 + 1\<close>, up to the largest 64-bit number.
\<close>

definition epoch_number :: "nat \<Rightarrow> u64" where
  "epoch_number k = of_nat (min k (2 ^ 64 - 1))"

definition epoch_at :: "bitcoin_lib \<Rightarrow> string \<Rightarrow> digest \<Rightarrow> membership_revision list \<Rightarrow> nat \<Rightarrow> bool" where
  "epoch_at L source t h i \<longleftrightarrow>
     (if even i then mr_state (h ! i) = Present \<and> mr_epoch_revision (h ! i) = 1 \<and>
        mr_epoch_id (h ! i) = epoch_id L source t (epoch_number (i div 2 + 1))
      else mr_state (h ! i) = Absent \<and> mr_epoch_revision (h ! i) = 2 \<and>
        mr_epoch_id (h ! i) = mr_epoch_id (h ! (i - 1)))"

definition member_of_history :: "membership_revision list \<Rightarrow> active_epoch option" where
  "member_of_history h = (if odd (length h)
     then Some \<lparr>ep_id = mr_epoch_id (last h), ep_first_seen = mr_source_observed_at (last h)\<rparr> else None)"

definition epochs_ok :: "bitcoin_lib \<Rightarrow> string \<Rightarrow> digest \<Rightarrow> membership_revision list \<Rightarrow> active_epoch option \<Rightarrow> u64 option \<Rightarrow> bool" where
  "epochs_ok L source t h m n \<longleftrightarrow> (\<forall>i<length h. epoch_at L source t h i) \<and> m = member_of_history h \<and>
     n = (if h = [] then None else Some (epoch_number ((length h + 1) div 2)))"

definition mempool_ok :: "bitcoin_lib \<Rightarrow> observer_mempool \<Rightarrow> bool" where
  "mempool_ok L st \<longleftrightarrow> (\<forall>t. epochs_ok L (obs_source_id st) t (mlog.hist t st)
     (fmlookup (obs_members st) t) (fmlookup (obs_epoch_counts st) t))"

lemma epoch_number_Suc: "saturating_add (epoch_number k) 1 = epoch_number (Suc k)"
proof -
  have u: "unat (epoch_number j) = min j (2 ^ 64 - 1)" for j
    by (simp add: epoch_number_def unat_of_nat)
  have "unat (saturating_add (epoch_number k) 1) = unat (epoch_number (Suc k))"
    by (simp add: unat_saturating_add u)
  then show ?thesis by (simp add: word_unat_eq_iff)
qed

lemma epoch_at_append: "i < length h \<Longrightarrow> epoch_at L s t (h @ [r]) i = epoch_at L s t h i"
  by (cases i) (auto simp: epoch_at_def nth_append)

lemma epochs_ok_start:
  assumes "epochs_ok L s t h None n" "mr_state r = Present" "mr_epoch_revision r = 1"
    "k = (case n of None \<Rightarrow> 1 | Some j \<Rightarrow> saturating_add j 1)" "mr_epoch_id r = epoch_id L s t k"
  shows "epochs_ok L s t (h @ [r]) (Some \<lparr>ep_id = mr_epoch_id r, ep_first_seen = mr_source_observed_at r\<rparr>) (Some k)"
proof -
  have ev: "even (length h)" using assms(1) by (simp add: epochs_ok_def member_of_history_def split: if_splits)
  have "k = epoch_number (length h div 2 + 1)"
  proof (cases "h = []")
    case True
    with assms(1,4) show ?thesis by (simp add: epochs_ok_def epoch_number_def)
  next
    case False
    with assms(1) have "n = Some (epoch_number ((length h + 1) div 2))" by (simp add: epochs_ok_def)
    moreover have "(length h + 1) div 2 = length h div 2" using ev by presburger
    ultimately show ?thesis using assms(4) by (simp add: epoch_number_Suc)
  qed
  moreover have "(length h + 2) div 2 = length h div 2 + 1" by simp
  ultimately show ?thesis
    using assms ev by (auto simp: epochs_ok_def epoch_at_append member_of_history_def less_Suc_eq)
      (simp add: epoch_at_def)
qed

lemma epochs_ok_end:
  assumes "epochs_ok L s t h (Some e) n" "mr_state r = Absent" "mr_epoch_revision r = 2" "mr_epoch_id r = ep_id e"
  shows "epochs_ok L s t (h @ [r]) None n"
proof -
  have od: "odd (length h)" and e: "ep_id e = mr_epoch_id (last h)"
    using assms(1) by (auto simp: epochs_ok_def member_of_history_def split: if_splits)
  then have "epoch_at L s t (h @ [r]) (length h)"
    using assms(2-4) by (cases h rule: rev_cases) (auto simp: epoch_at_def nth_append)
  moreover have "(length h + 2) div 2 = (length h + 1) div 2" using od by presburger
  ultimately show ?thesis
    using assms(1) od by (auto simp: epochs_ok_def epoch_at_append member_of_history_def less_Suc_eq)
qed

lemma mempool_okD:
  "mempool_ok L st \<Longrightarrow> epochs_ok L (obs_source_id st) t (mlog.hist t st)
     (fmlookup (obs_members st) t) (fmlookup (obs_epoch_counts st) t)"
  by (simp add: mempool_ok_def)

lemma mempool_ok_append:
  assumes "mempool_ok L st" "obs_source_id st' = obs_source_id st" "obs_revisions st' = obs_revisions st @ [r]"
    "\<And>u. u \<noteq> mr_txid r \<Longrightarrow> fmlookup (obs_members st') u = fmlookup (obs_members st) u \<and>
       fmlookup (obs_epoch_counts st') u = fmlookup (obs_epoch_counts st) u"
    "epochs_ok L (obs_source_id st) (mr_txid r) (mlog.hist (mr_txid r) st @ [r])
       (fmlookup (obs_members st') (mr_txid r)) (fmlookup (obs_epoch_counts st') (mr_txid r))"
  shows "mempool_ok L st'"
  unfolding mempool_ok_def
proof
  fix u
  have h: "mlog.hist v st' = mlog.hist v st @ (if mr_txid r = v then [r] else [])" for v
    by (simp add: mlog.hist_def assms(3))
  show "epochs_ok L (obs_source_id st') u (mlog.hist u st') (fmlookup (obs_members st') u) (fmlookup (obs_epoch_counts st') u)"
    using mempool_okD [OF assms(1), of u] assms(2,4,5) by (cases "u = mr_txid r") (auto simp: h)
qed

lemma mempool_add_ok:
  assumes "mempool_ok L st"
  shows "mempool_ok L (snd (mempool_add L t c obs at st))"
proof (cases "fmlookup (obs_members st) t")
  case None
  let ?n = "next_epoch t st"
  let ?r = "\<lparr>mr_txid = t, mr_epoch_id = epoch_id L (obs_source_id st) t ?n, mr_epoch_revision = 1,
     mr_state = Present, mr_cause = c, mr_source_observed_at = obs, mr_recorded_at = at\<rparr>"
  have "epochs_ok L (obs_source_id st) t (mlog.hist t st @ [?r])
      (Some \<lparr>ep_id = mr_epoch_id ?r, ep_first_seen = mr_source_observed_at ?r\<rparr>) (Some ?n)"
    using mempool_okD [OF assms, of t] None
    by (intro epochs_ok_start [where n = "fmlookup (obs_epoch_counts st) t"]) (simp_all add: next_epoch_def)
  with None show ?thesis
    by (intro mempool_ok_append [OF assms, where r = ?r])
      (simp_all add: mempool_add_def Let_def record_revision_def)
qed (use assms in \<open>simp add: mempool_add_def\<close>)

lemma mempool_remove_ok:
  assumes "mempool_ok L st"
  shows "mempool_ok L (snd (mempool_remove t c obs at st))"
proof (cases "fmlookup (obs_members st) t")
  case (Some e)
  let ?r = "\<lparr>mr_txid = t, mr_epoch_id = ep_id e, mr_epoch_revision = 2, mr_state = Absent, mr_cause = c,
     mr_source_observed_at = obs, mr_recorded_at = at\<rparr>"
  have "epochs_ok L (obs_source_id st) t (mlog.hist t st @ [?r]) None (fmlookup (obs_epoch_counts st) t)"
    using mempool_okD [OF assms, of t] Some by (intro epochs_ok_end [where e = e]) simp_all
  with Some show ?thesis
    by (intro mempool_ok_append [OF assms, where r = ?r])
      (simp_all add: mempool_remove_def Let_def record_revision_def)
qed (use assms in \<open>simp add: mempool_remove_def\<close>)

lemma reconcile_invariant:
  assumes "\<And>t st. P st \<Longrightarrow> P (snd (change t st))" "P st"
  shows "P (snd (reconcile change ts st))"
  using assms(2)
proof (induction ts arbitrary: st)
  case (Cons t ts)
  from Cons.IH [OF assms(1) [OF Cons.prems]] show ?case by (simp split: prod.split) (metis snd_conv)
qed simp

lemma apply_snapshot_ok:
  assumes "mempool_ok L st"
  shows "mempool_ok L (snd (apply_snapshot L v ms at st))"
proof -
  let ?rem = "\<lambda>t. mempool_remove t ReconciledSnapshot None at"
  let ?add = "\<lambda>t. mempool_add L t ReconciledSnapshot None at"
  have "mempool_ok L (snd (reconcile ?add bs (snd (reconcile ?rem as st))))" for as bs
    by (intro reconcile_invariant [where P = "mempool_ok L"] mempool_add_ok mempool_remove_ok assms)
  moreover have "mempool_ok L (s\<lparr>obs_snapshot_sequence := x, obs_last_snapshot_members := y\<rparr>)"
    if "mempool_ok L s" for s x y using that by (simp add: mempool_ok_def mlog.hist_def)
  ultimately show ?thesis
    using assms by (simp add: apply_snapshot_def Let_def case_prod_unfold split: option.split)
qed

inductive observer_step :: "bitcoin_lib \<Rightarrow> observer_mempool \<Rightarrow> observer_mempool \<Rightarrow> bool" for L where
  obs_step_add: "observe_add L t at st = (r, st') \<Longrightarrow> observer_step L st st'"
| obs_step_reaccept: "reaccept_after_disconnect L t at st = (r, st') \<Longrightarrow> observer_step L st st'"
| obs_step_remove: "observe_remove t at c st = (r, st') \<Longrightarrow> observer_step L st st'"
| obs_step_snapshot: "apply_snapshot L v ms at st = (res, st') \<Longrightarrow> observer_step L st st'"
| obs_step_health: "observer_step L st (set_health h off st)"

lemma observer_step_ok: "observer_step L st st' \<Longrightarrow> mempool_ok L st \<Longrightarrow> mempool_ok L st'"
proof (induction rule: observer_step.induct)
  case (obs_step_add t at st r st')
  then show ?case using mempool_add_ok [of L st t] by (simp add: observe_add_def) (metis snd_conv)
next
  case (obs_step_reaccept t at st r st')
  then show ?case using mempool_add_ok [of L st t] by (simp add: reaccept_after_disconnect_def) (metis snd_conv)
next
  case (obs_step_remove t at c st r st')
  then show ?case using mempool_remove_ok [of L st t] by (simp add: observe_remove_def) (metis snd_conv)
next
  case (obs_step_snapshot v ms at st res st')
  then show ?case using apply_snapshot_ok [of L st v ms at] by simp
next
  case (obs_step_health st h off)
  then show ?case by (simp add: set_health_def mempool_ok_def mlog.hist_def)
qed

lemma observer_reachable_ok:
  assumes "observer_new s = Inr st0" "(observer_step L)\<^sup>*\<^sup>* st0 st"
  shows "mempool_ok L st"
  using assms(2)
proof (induction rule: rtranclp_induct)
  case base
  show ?case using assms(1)
    by (auto simp: observer_new_def mempool_ok_def epochs_ok_def mlog.hist_def member_of_history_def split: if_splits)
qed (rule observer_step_ok)

lemma source_kept [simp]:
  "obs_source_id (snd (mempool_add L t c obs at st)) = obs_source_id st"
  "obs_source_id (snd (mempool_remove t c obs at st)) = obs_source_id st"
  by (simp_all add: mempool_add_def mempool_remove_def Let_def record_revision_def split: option.split)

lemma reconcile_source [simp]:
  assumes "\<And>t st. obs_source_id (snd (change t st)) = obs_source_id st"
  shows "obs_source_id (snd (reconcile change ts st)) = obs_source_id st"
  by (rule reconcile_invariant [where P = "\<lambda>s. obs_source_id s = obs_source_id st"]) (simp_all add: assms)

lemma observer_step_source: "observer_step L st st' \<Longrightarrow> obs_source_id st' = obs_source_id st"
proof (induction rule: observer_step.induct)
  case (obs_step_add t at st r st')
  then show ?case by (metis observe_add_def snd_conv source_kept(1))
next
  case (obs_step_reaccept t at st r st')
  then show ?case by (metis reaccept_after_disconnect_def snd_conv source_kept(1))
next
  case (obs_step_remove t at c st r st')
  then show ?case by (metis observe_remove_def snd_conv source_kept(2))
next
  case (obs_step_snapshot v ms at st res st')
  then have "st' = snd (apply_snapshot L v ms at st)" by simp
  then show ?case by (simp add: apply_snapshot_def Let_def case_prod_unfold split: option.split)
qed (simp add: set_health_def)

lemma observer_reachable_source:
  assumes "observer_new s = Inr st0" "(observer_step L)\<^sup>*\<^sup>* st0 st"
  shows "obs_source_id st = s"
  using assms(2,1)
  by (induction rule: rtranclp_induct) (auto simp: observer_new_def observer_step_source split: if_splits)

section \<open>What a snapshot changes\<close>

definition reconciled_at :: "i64 \<Rightarrow> membership_state \<Rightarrow> membership_revision \<Rightarrow> bool" where
  "reconciled_at at m r \<longleftrightarrow> mr_state r = m \<and> mr_cause r = ReconciledSnapshot \<and>
     mr_source_observed_at r = None \<and> mr_recorded_at r = at"

lemma reconcile_removes:
  assumes "distinct ts" "\<forall>t \<in> set ts. fmlookup (obs_members st) t \<noteq> None"
    "reconcile (\<lambda>t. mempool_remove t ReconciledSnapshot None at) ts st = (rs, st')"
  shows "map mr_txid rs = ts \<and> list_all (reconciled_at at Absent) rs \<and> obs_revisions st' = obs_revisions st @ rs \<and>
    (\<forall>u. fmlookup (obs_members st') u = (if u \<in> set ts then None else fmlookup (obs_members st) u))"
  using assms
proof (induction ts arbitrary: st rs)
  case (Cons t ts)
  obtain e where e: "fmlookup (obs_members st) t = Some e" using Cons.prems(2) by auto
  obtain r st1 where r: "mempool_remove t ReconciledSnapshot None at st = (Some r, st1)"
    "mr_txid r = t" "reconciled_at at Absent r" "obs_revisions st1 = obs_revisions st @ [r]"
    "obs_members st1 = fmdrop t (obs_members st)"
    using e by (auto simp: mempool_remove_def Let_def record_revision_def reconciled_at_def)
  obtain rs' where rs': "rs = r # rs'"
    "reconcile (\<lambda>t. mempool_remove t ReconciledSnapshot None at) ts st1 = (rs', st')"
    using Cons.prems(3) r(1) by (auto split: prod.splits)
  have "\<forall>u \<in> set ts. fmlookup (obs_members st1) u \<noteq> None" using Cons.prems(1,2) r(5) by auto
  from Cons.IH [OF _ this rs'(2)] Cons.prems(1) r rs'(1) show ?case by auto
qed simp

lemma reconcile_adds:
  assumes "distinct ts" "\<forall>t \<in> set ts. fmlookup (obs_members st) t = None"
    "reconcile (\<lambda>t. mempool_add L t ReconciledSnapshot None at) ts st = (rs, st')"
  shows "map mr_txid rs = ts \<and> list_all (reconciled_at at Present) rs \<and> obs_revisions st' = obs_revisions st @ rs \<and>
    (\<forall>u. u \<in> set ts \<longrightarrow> fmlookup (obs_members st') u \<noteq> None) \<and>
    (\<forall>u. u \<notin> set ts \<longrightarrow> fmlookup (obs_members st') u = fmlookup (obs_members st) u)"
  using assms
proof (induction ts arbitrary: st rs)
  case (Cons t ts)
  have e: "fmlookup (obs_members st) t = None" using Cons.prems(2) by auto
  obtain r st1 m where r: "mempool_add L t ReconciledSnapshot None at st = (Some r, st1)"
    "mr_txid r = t" "reconciled_at at Present r" "obs_revisions st1 = obs_revisions st @ [r]"
    "obs_members st1 = fmupd t m (obs_members st)"
    using e by (auto simp: mempool_add_def Let_def record_revision_def reconciled_at_def)
  obtain rs' where rs': "rs = r # rs'"
    "reconcile (\<lambda>t. mempool_add L t ReconciledSnapshot None at) ts st1 = (rs', st')"
    using Cons.prems(3) r(1) by (auto split: prod.splits)
  have "\<forall>u \<in> set ts. fmlookup (obs_members st1) u = None" using Cons.prems(1,2) r(5) by auto
  from Cons.IH [OF _ this rs'(2)] Cons.prems(1) r rs'(1) show ?case by auto
qed simp

definition newer_snapshot :: "u64 \<Rightarrow> observer_mempool \<Rightarrow> bool" where
  "newer_snapshot v st \<longleftrightarrow> (case obs_snapshot_sequence st of None \<Rightarrow> True | Some c \<Rightarrow> c < v)"

lemma apply_snapshot_newer:
  assumes "newer_snapshot v st"
  obtains removed added st1 st2 where
    "reconcile (\<lambda>t. mempool_remove t ReconciledSnapshot None at)
       (sorted_list_of_fset (fmdom (obs_members st) |-| fset_of_list ms)) st = (removed, st1)"
    "reconcile (\<lambda>t. mempool_add L t ReconciledSnapshot None at)
       (sorted_list_of_fset (fset_of_list ms |-| fmdom (obs_members st))) st1 = (added, st2)"
    "apply_snapshot L v ms at st = (Inr (removed @ added),
       st2\<lparr>obs_snapshot_sequence := Some v, obs_last_snapshot_members := Some (fset_of_list ms)\<rparr>)"
proof -
  let ?r = "reconcile (\<lambda>t. mempool_remove t ReconciledSnapshot None at)
       (sorted_list_of_fset (fmdom (obs_members st) |-| fset_of_list ms)) st"
  let ?a = "reconcile (\<lambda>t. mempool_add L t ReconciledSnapshot None at)
       (sorted_list_of_fset (fset_of_list ms |-| fmdom (obs_members st))) (snd ?r)"
  have "apply_snapshot L v ms at st = (Inr (fst ?r @ fst ?a),
       (snd ?a)\<lparr>obs_snapshot_sequence := Some v, obs_last_snapshot_members := Some (fset_of_list ms)\<rparr>)"
    using assms by (auto simp: newer_snapshot_def apply_snapshot_def Let_def case_prod_unfold split: option.splits)
  then show thesis using that [of "fst ?r" "snd ?r" "fst ?a" "snd ?a"] by simp
qed

section \<open>What an observer promises\<close>

text \<open>C13: the revision log of an observer determines its mempool. In every reached state the revisions
  of a transaction are epochs that start and end in turn, with the deterministic identity of their
  number; the transaction is a member exactly when its last epoch has not ended, and its first-seen
  time is the one recorded at the start of that epoch.\<close>

theorem membership_log_determines_mempool:
  assumes "observer_new s = Inr st0" "(observer_step L)\<^sup>*\<^sup>* st0 st"
    "h = filter (\<lambda>r. mr_txid r = t) (obs_revisions st)"
  shows "(\<forall>i<length h. epoch_at L s t h i) \<and> (mempool_contains t st \<longleftrightarrow> odd (length h)) \<and>
    first_seen_at t st = (if odd (length h) then mr_source_observed_at (last h) else None)"
proof -
  have "epochs_ok L s t h (fmlookup (obs_members st) t) (fmlookup (obs_epoch_counts st) t)"
    using mempool_okD [OF observer_reachable_ok [OF assms(1,2)], of t] assms(3)
      observer_reachable_source [OF assms(1,2)] by (simp add: mlog.hist_def)
  then show ?thesis
    by (auto simp: epochs_ok_def member_of_history_def mempool_contains_def first_seen_at_def)
qed

lemma newer_snapshot_converges:
  assumes newer: "newer_snapshot v st"
  shows "\<exists>removed added st'. apply_snapshot L v ms at st = (Inr (removed @ added), st') \<and>
      fmdom (obs_members st') = fset_of_list ms \<and>
      (\<forall>t. t \<in> set ms \<longrightarrow> t |\<in>| fmdom (obs_members st) \<longrightarrow>
        fmlookup (obs_members st') t = fmlookup (obs_members st) t) \<and>
      map mr_txid removed = sorted_list_of_fset (fmdom (obs_members st) |-| fset_of_list ms) \<and>
      map mr_txid added = sorted_list_of_fset (fset_of_list ms |-| fmdom (obs_members st)) \<and>
      list_all (reconciled_at at Absent) removed \<and> list_all (reconciled_at at Present) added \<and>
      obs_revisions st' = obs_revisions st @ removed @ added \<and>
      apply_snapshot L v ms at' st' = (Inr [], st')"
proof -
  let ?old = "fmdom (obs_members st)" and ?new = "fset_of_list ms"
  obtain removed added st1 st2 where st:
    "reconcile (\<lambda>t. mempool_remove t ReconciledSnapshot None at) (sorted_list_of_fset (?old |-| ?new)) st = (removed, st1)"
    "reconcile (\<lambda>t. mempool_add L t ReconciledSnapshot None at) (sorted_list_of_fset (?new |-| ?old)) st1 = (added, st2)"
    "apply_snapshot L v ms at st = (Inr (removed @ added),
       st2\<lparr>obs_snapshot_sequence := Some v, obs_last_snapshot_members := Some ?new\<rparr>)"
    by (rule apply_snapshot_newer [OF newer])
  have rem: "map mr_txid removed = sorted_list_of_fset (?old |-| ?new)" "list_all (reconciled_at at Absent) removed"
    "obs_revisions st1 = obs_revisions st @ removed"
    "fmlookup (obs_members st1) u = (if u |\<in>| ?old |-| ?new then None else fmlookup (obs_members st) u)" for u
    using reconcile_removes [OF _ _ st(1)] by (simp_all add: fmdomE fmlookup_dom_iff)
  have none: "\<forall>u \<in> set (sorted_list_of_fset (?new |-| ?old)). fmlookup (obs_members st1) u = None"
    using rem(4) by (simp add: fmdom_notD)
  have add: "map mr_txid added = sorted_list_of_fset (?new |-| ?old)" "list_all (reconciled_at at Present) added"
    "obs_revisions st2 = obs_revisions st1 @ added"
    "u |\<in>| ?new |-| ?old \<Longrightarrow> fmlookup (obs_members st2) u \<noteq> None"
    "u |\<notin>| ?new |-| ?old \<Longrightarrow> fmlookup (obs_members st2) u = fmlookup (obs_members st1) u" for u
    using reconcile_adds [OF _ none st(2)] by simp_all
  have "u |\<in>| fmdom (obs_members st2) \<longleftrightarrow> u |\<in>| ?new" for u
    using rem(4) [of u] add(4,5) [of u] by (cases "u |\<in>| ?new"; cases "u |\<in>| ?old") (auto simp: fmlookup_dom_iff)
  then have dom: "fmdom (obs_members st2) = ?new" by blast
  have keep: "fmlookup (obs_members st2) t = fmlookup (obs_members st) t" if "t \<in> set ms" "t |\<in>| ?old" for t
    using that rem(4) [of t] add(5) [of t] by (simp add: fset_of_list.rep_eq)
  show ?thesis
    using rem(1-3) add(1-3) dom keep
    by (intro exI [of _ removed] exI [of _ added]
        exI [of _ "st2\<lparr>obs_snapshot_sequence := Some v, obs_last_snapshot_members := Some ?new\<rparr>"])
      (simp add: st(3), simp add: apply_snapshot_def)
qed

text \<open>snapshots converge. A newer snapshot is accepted; afterwards the members are exactly those of
  the snapshot, transactions that stay keep their epoch, the returned revisions are the removals and
  then the additions in order of identity, all without an invented source time, they are appended to
  the log, and replaying the snapshot changes nothing. A snapshot that is not newer leaves the
  observer as it was and succeeds only as an exact replay.\<close>

theorem snapshot_converges:
  "(newer_snapshot v st \<longrightarrow> (\<exists>removed added st'. apply_snapshot L v ms at st = (Inr (removed @ added), st') \<and>
      fmdom (obs_members st') = fset_of_list ms \<and>
      (\<forall>t. t \<in> set ms \<longrightarrow> t |\<in>| fmdom (obs_members st) \<longrightarrow>
        fmlookup (obs_members st') t = fmlookup (obs_members st) t) \<and>
      map mr_txid removed = sorted_list_of_fset (fmdom (obs_members st) |-| fset_of_list ms) \<and>
      map mr_txid added = sorted_list_of_fset (fset_of_list ms |-| fmdom (obs_members st)) \<and>
      list_all (reconciled_at at Absent) removed \<and> list_all (reconciled_at at Present) added \<and>
      obs_revisions st' = obs_revisions st @ removed @ added \<and>
      apply_snapshot L v ms at' st' = (Inr [], st'))) \<and>
   (\<not> newer_snapshot v st \<longrightarrow> snd (apply_snapshot L v ms at st) = st \<and>
      (fst (apply_snapshot L v ms at st) = Inr [] \<longleftrightarrow> obs_snapshot_sequence st = Some v \<and>
        obs_last_snapshot_members st = Some (fset_of_list ms)))"
proof (intro conjI impI)
  assume old: "\<not> newer_snapshot v st"
  then obtain c where c: "obs_snapshot_sequence st = Some c" "v \<le> c"
    by (auto simp: newer_snapshot_def split: option.splits)
  then show "snd (apply_snapshot L v ms at st) = st"
    "fst (apply_snapshot L v ms at st) = Inr [] \<longleftrightarrow> obs_snapshot_sequence st = Some v \<and>
        obs_last_snapshot_members st = Some (fset_of_list ms)"
    by (auto simp: apply_snapshot_def Let_def)
qed (rule newer_snapshot_converges)

section \<open>A concrete observer\<close>

definition sample_observer :: observer_mempool where
  "sample_observer = \<lparr>obs_source_id = ''node-a'', obs_snapshot_sequence = None, obs_last_snapshot_members = None,
     obs_members = fmempty, obs_epoch_counts = fmempty, obs_revisions = [], obs_health = Offline,
     obs_clock_offset_ns = 0\<rparr>"

lemma sample_observer_new: "observer_new ''node-a'' = Inr sample_observer"
  by (simp add: observer_new_def sample_observer_def str_blank.simps ws_len_def byte_of_def)

theorem membership_log_determines_mempool_witness:
  "mempool_contains 5 (snd (observe_add sample_lib 5 100 sample_observer)) \<and>
   first_seen_at 5 (snd (observe_add sample_lib 5 100 sample_observer)) = Some 100"
proof -
  let ?st = "snd (observe_add sample_lib 5 100 sample_observer)"
  have "(observer_step sample_lib)\<^sup>*\<^sup>* sample_observer ?st"
    by (rule r_into_rtranclp) (rule obs_step_add [where r = "fst (observe_add sample_lib 5 100 sample_observer)"], simp)
  from membership_log_determines_mempool [OF sample_observer_new this refl, of 5] show ?thesis
    by (simp add: observe_add_def mempool_add_def sample_observer_def record_revision_def Let_def)
qed

theorem snapshot_converges_witness:
  "\<exists>rs st'. apply_snapshot sample_lib 1 [9, 5] 100 sample_observer = (Inr rs, st') \<and>
     fmdom (obs_members st') = {|5, 9|}"
proof -
  have "newer_snapshot 1 sample_observer" by (simp add: newer_snapshot_def sample_observer_def)
  with snapshot_converges [of 1 sample_observer sample_lib "[9, 5]" 100 0] show ?thesis by auto
qed

end
