(* ===== verification/Mempool_Aggregate.thy ===== *)
theory Mempool_Aggregate
  imports Mempool_State "HOL-Library.List_Lexorder" "HOL-Library.Char_ord"
begin

text \<open>
  The health-aware view over several observers of \<open>processors/bitcoin-mempool/src/aggregate.rs\<close>.
\<close>

datatype mempool_view_policy = SourcePolicy string | UnionPolicy | IntersectionPolicy | QuorumPolicy u16

datatype coverage_quality = Complete | Degraded | Unavailable

record aggregate_membership =
  agg_txid :: digest
  agg_healthy_source_count :: u16
  agg_present_source_count :: u16
  agg_present_sources :: "string list"
  agg_policy_satisfied :: bool
  agg_first_seen :: "i64 option"
  agg_clock_untrusted :: bool
  agg_quality :: coverage_quality

definition bounded_count :: "nat \<Rightarrow> u16" where
  "bounded_count n = (if n < 2 ^ 16 then of_nat n else - 1)"

text \<open>\<open>Iterator::min\<close> on signed times.\<close>

fun signed_min :: "i64 list \<Rightarrow> i64 option" where
  "signed_min [] = None"
| "signed_min (x # xs) =
     (case signed_min xs of None \<Rightarrow> Some x | Some m \<Rightarrow> Some (if sint x \<le> sint m then x else m))"

definition clock_trusted :: "u64 \<Rightarrow> observer_mempool \<Rightarrow> bool" where
  "clock_trusted maximum ob \<longleftrightarrow> nat \<bar>sint (obs_clock_offset_ns ob)\<bar> \<le> unat maximum"

definition aggregate_membership_of ::
  "digest \<Rightarrow> observer_mempool list \<Rightarrow> mempool_view_policy \<Rightarrow> u64 \<Rightarrow> aggregate_membership" where
  "aggregate_membership_of t observers policy maximum =
     (let healthy = filter (\<lambda>ob. obs_health ob = Healthy) observers;
          sources = sort (map obs_source_id (filter (mempool_contains t) healthy));
          healthy_count = bounded_count (length healthy);
          present_count = bounded_count (length sources);
          untrusted = list_ex (\<lambda>ob. first_seen_at t ob \<noteq> None \<and> \<not> clock_trusted maximum ob) observers;
          first_seen = signed_min (List.map_filter (\<lambda>ob. case first_seen_at t ob of None \<Rightarrow> None
             | Some at \<Rightarrow> if clock_trusted maximum ob then Some at else None) observers);
          quality = (if healthy = [] then Unavailable
             else if length healthy \<noteq> length observers \<or> untrusted then Degraded else Complete);
          satisfied = (if quality = Unavailable then False
             else case policy of
                 SourcePolicy source \<Rightarrow> list_ex (\<lambda>ob. obs_source_id ob = source \<and> mempool_contains t ob) healthy
               | UnionPolicy \<Rightarrow> 0 < present_count
               | IntersectionPolicy \<Rightarrow> present_count = healthy_count \<and> 0 < healthy_count
               | QuorumPolicy required \<Rightarrow> 0 < required \<and> required \<le> present_count)
      in \<lparr>agg_txid = t, agg_healthy_source_count = healthy_count, agg_present_source_count = present_count,
          agg_present_sources = sources, agg_policy_satisfied = satisfied, agg_first_seen = first_seen,
          agg_clock_untrusted = untrusted, agg_quality = quality\<rparr>)"

section \<open>The policies\<close>

definition healthy_with :: "digest \<Rightarrow> observer_mempool list \<Rightarrow> observer_mempool list" where
  "healthy_with t observers = filter (\<lambda>ob. obs_health ob = Healthy \<and> mempool_contains t ob) observers"

fun policy_holds :: "mempool_view_policy \<Rightarrow> digest \<Rightarrow> observer_mempool list \<Rightarrow> bool" where
  "policy_holds (SourcePolicy source) t observers \<longleftrightarrow> (\<exists>ob \<in> set (healthy_with t observers). obs_source_id ob = source)"
| "policy_holds UnionPolicy t observers \<longleftrightarrow> healthy_with t observers \<noteq> []"
| "policy_holds IntersectionPolicy t observers \<longleftrightarrow> healthy_with t observers \<noteq> [] \<and>
     (\<forall>ob \<in> set observers. obs_health ob = Healthy \<longrightarrow> mempool_contains t ob)"
| "policy_holds (QuorumPolicy required) t observers \<longleftrightarrow>
     0 < required \<and> unat required \<le> length (healthy_with t observers)"

lemma unat_bounded_count: "n < 2 ^ 16 \<Longrightarrow> unat (bounded_count n) = n"
  by (simp add: bounded_count_def unat_of_nat)

lemma signed_min_spec:
  "case signed_min xs of None \<Rightarrow> xs = [] | Some m \<Rightarrow> m \<in> set xs \<and> (\<forall>x \<in> set xs. sint m \<le> sint x)"
  by (induction xs) (auto split: option.splits)

lemma length_filter_all:
  "length (filter P xs) = length xs \<longleftrightarrow> (\<forall>x \<in> set xs. P x)"
proof (induction xs)
  case (Cons x xs)
  have "length (filter P xs) \<noteq> Suc (length xs)" using length_filter_le [of P xs] by linarith
  with Cons show ?case by simp
qed simp

text \<open>The aggregate view decides its policy exactly. With fewer than 65536 observers the policy
  flag says whether the named healthy source, some healthy source, every healthy source or the
  required number of healthy sources hold the transaction; unhealthy observers never count.\<close>

theorem aggregate_decides_policy:
  assumes "length observers < 2 ^ 16"
  shows "agg_policy_satisfied (aggregate_membership_of t observers policy maximum) \<longleftrightarrow>
    policy_holds policy t observers"
proof -
  let ?h = "filter (\<lambda>ob. obs_health ob = Healthy) observers"
  have w: "filter (mempool_contains t) ?h = healthy_with t observers"
    by (simp add: healthy_with_def conj_commute)
  have lh: "length ?h < 2 ^ 16" using assms length_filter_le [of _ observers] by (meson le_less_trans)
  have lw: "length (healthy_with t observers) \<le> length ?h" unfolding w [symmetric] by (rule length_filter_le)
  have counts: "unat (bounded_count (length ?h)) = length ?h"
    "unat (bounded_count (length (healthy_with t observers))) = length (healthy_with t observers)"
    using lh lw by (simp_all add: unat_bounded_count)
  have all: "length (healthy_with t observers) = length ?h \<longleftrightarrow>
      (\<forall>ob \<in> set observers. obs_health ob = Healthy \<longrightarrow> mempool_contains t ob)"
    unfolding w [symmetric] length_filter_all by auto
  have empty: "?h = [] \<Longrightarrow> healthy_with t observers = []" using lw by simp
  show ?thesis
    using counts all empty lw
    by (cases policy) (auto simp: aggregate_membership_of_def Let_def w word_less_nat_alt word_le_nat_alt
        word_unat_eq_iff healthy_with_def list_ex_iff filter_empty_conv)
qed

text \<open>The aggregate first-seen time is the least time of an open epoch reported by an observer with
  a trusted clock, the view is unavailable exactly when no observer is healthy, and complete exactly
  when all are healthy and no reported time was discarded for its clock.\<close>

theorem aggregate_evidence_is_sound:
  "(case agg_first_seen (aggregate_membership_of t observers policy maximum) of
      None \<Rightarrow> \<not> (\<exists>ob \<in> set observers. clock_trusted maximum ob \<and> first_seen_at t ob \<noteq> None)
    | Some m \<Rightarrow> (\<exists>ob \<in> set observers. clock_trusted maximum ob \<and> first_seen_at t ob = Some m) \<and>
        (\<forall>ob at. ob \<in> set observers \<longrightarrow> clock_trusted maximum ob \<longrightarrow> first_seen_at t ob = Some at \<longrightarrow>
           sint m \<le> sint at)) \<and>
   (agg_quality (aggregate_membership_of t observers policy maximum) = Unavailable \<longleftrightarrow>
      (\<forall>ob \<in> set observers. obs_health ob \<noteq> Healthy)) \<and>
   (agg_quality (aggregate_membership_of t observers policy maximum) = Complete \<longleftrightarrow> observers \<noteq> [] \<and>
      (\<forall>ob \<in> set observers. obs_health ob = Healthy \<and> (first_seen_at t ob = None \<or> clock_trusted maximum ob)))"
proof -
  let ?f = "\<lambda>ob. case first_seen_at t ob of None \<Rightarrow> None
     | Some at \<Rightarrow> if clock_trusted maximum ob then Some at else None"
  let ?xs = "List.map_filter ?f observers"
  have mem: "x \<in> set ?xs \<longleftrightarrow> (\<exists>ob \<in> set observers. clock_trusted maximum ob \<and> first_seen_at t ob = Some x)" for x
    by (force simp: List.map_filter_def image_iff split: option.splits if_splits)
  have seen: "agg_first_seen (aggregate_membership_of t observers policy maximum) = signed_min ?xs"
    by (simp add: aggregate_membership_of_def Let_def)
  have first: "case signed_min ?xs of
      None \<Rightarrow> \<not> (\<exists>ob \<in> set observers. clock_trusted maximum ob \<and> first_seen_at t ob \<noteq> None)
    | Some m \<Rightarrow> (\<exists>ob \<in> set observers. clock_trusted maximum ob \<and> first_seen_at t ob = Some m) \<and>
        (\<forall>ob at. ob \<in> set observers \<longrightarrow> clock_trusted maximum ob \<longrightarrow> first_seen_at t ob = Some at \<longrightarrow>
           sint m \<le> sint at)"
  proof (cases "signed_min ?xs")
    case None
    then have "?xs = []" using signed_min_spec [of ?xs] by simp
    then have "\<not> (\<exists>x. x \<in> set ?xs)" by (simp only: list.set empty_iff) simp
    with None show ?thesis unfolding mem by (simp add: ball_simps) (metis not_None_eq)
  next
    case (Some m)
    then have m: "m \<in> set ?xs" "x \<in> set ?xs \<Longrightarrow> sint m \<le> sint x" for x
      using signed_min_spec [of ?xs] by auto
    from m(1) Some show ?thesis unfolding mem using m(2) [unfolded mem] by auto
  qed
  have quality: "agg_quality (aggregate_membership_of t observers policy maximum) =
     (if filter (\<lambda>ob. obs_health ob = Healthy) observers = [] then Unavailable
      else if length (filter (\<lambda>ob. obs_health ob = Healthy) observers) \<noteq> length observers \<or>
        list_ex (\<lambda>ob. first_seen_at t ob \<noteq> None \<and> \<not> clock_trusted maximum ob) observers then Degraded else Complete)"
    by (simp add: aggregate_membership_of_def Let_def)
  show ?thesis
    unfolding seen quality using first hd_in_set [of observers]
    by (intro conjI) (auto simp: length_filter_all list_ex_iff filter_empty_conv)
qed

theorem aggregate_decides_policy_witness:
  "\<not> agg_policy_satisfied (aggregate_membership_of 5 [sample_observer] UnionPolicy 0)"
  using aggregate_decides_policy [of "[sample_observer]" 5 UnionPolicy 0]
  by (simp add: healthy_with_def sample_observer_def)

theorem aggregate_evidence_is_sound_witness:
  "agg_quality (aggregate_membership_of 5 [sample_observer] UnionPolicy 0) = Unavailable"
  using aggregate_evidence_is_sound [where t = 5 and observers = "[sample_observer]" and policy = UnionPolicy and maximum = 0]
  by (simp add: sample_observer_def)

end
