(* ===== verification/Mempool_Graph.thy ===== *)
theory Mempool_Graph
  imports Mempool_State "HOL-Library.Product_Lexorder"
begin

text \<open>
  Source-local transaction history, conflicting spends and current packages of
  \<open>processors/bitcoin-mempool/src/graph.rs\<close>. Hash sets and maps are finite sets and maps; where the
  source iterates over one in an unspecified order the result does not depend on it, and the model
  takes the order of the keys.
\<close>

section \<open>Data\<close>

datatype replacement_evidence = EvidenceNone | EvidenceDirect digest | EvidenceReconciled digest

datatype replacement_classification = ReplacementObserved | ReplacementReconciled | ReplacementInferred | ReplacementUnknown

record conflict_edge =
  ce_source_id :: string
  ce_spent_outpoint :: outpoint
  ce_txid :: digest
  ce_conflicting_txid :: digest

record graph_update =
  gu_conflicts :: "conflict_edge list"
  gu_classification :: "replacement_classification option"

record fee_rate =
  fr_fee_sats :: u64
  fr_vsize :: u64

text \<open>Integer division panics on a zero divisor.\<close>

definition sats_per_vbyte_floor :: "fee_rate \<Rightarrow> u64 option" where
  "sats_per_vbyte_floor r = (if fr_vsize r = 0 then None else Some (fr_fee_sats r div fr_vsize r))"

record package_snapshot =
  pk_member_txids :: "digest list"
  pk_total_fee_sats :: u64
  pk_total_vsize :: u64
  pk_effective_fee_rate :: fee_rate

record graph_transaction =
  gt_transaction :: bitcoin_transaction
  gt_fee_sats :: u64
  gt_vsize :: u64

record mempool_graph =
  mg_source_id :: string
  mg_transactions :: "(digest, graph_transaction) fmap"
  mg_present :: "digest fset"
  mg_spent_by_history :: "(outpoint, digest fset) fmap"

definition graph_new :: "string \<Rightarrow> mempool_error + mempool_graph" where
  "graph_new source =
     (if str_blank source then Inl MempoolEmptySourceId
      else Inr \<lparr>mg_source_id = source, mg_transactions = fmempty, mg_present = {||},
        mg_spent_by_history = fmempty\<rparr>)"

section \<open>Additions and conflicts\<close>

text \<open>The keys of the map of conflicts: an outpoint of the transaction and another known spender.\<close>

definition conflict_keys :: "mempool_graph \<Rightarrow> digest \<Rightarrow> bitcoin_input list \<Rightarrow> (outpoint \<times> digest) fset" where
  "conflict_keys g t ins = fset_of_list (concat (map (\<lambda>inp.
     case fmlookup (mg_spent_by_history g) (previous_output inp) of
       None \<Rightarrow> []
     | Some existing \<Rightarrow> map (Pair (previous_output inp)) (sorted_list_of_fset (existing |-| {|t|}))) ins))"

definition record_spend :: "digest \<Rightarrow> bitcoin_input \<Rightarrow> (outpoint, digest fset) fmap \<Rightarrow> (outpoint, digest fset) fmap" where
  "record_spend t inp m = fmupd (previous_output inp)
     (finsert t (case fmlookup m (previous_output inp) of None \<Rightarrow> {||} | Some s \<Rightarrow> s)) m"

fun named_replacement :: "replacement_evidence \<Rightarrow> digest option" where
  "named_replacement EvidenceNone = None"
| "named_replacement (EvidenceDirect t) = Some t"
| "named_replacement (EvidenceReconciled t) = Some t"

fun classify :: "replacement_evidence \<Rightarrow> replacement_classification" where
  "classify EvidenceNone = ReplacementInferred"
| "classify (EvidenceDirect _) = ReplacementObserved"
| "classify (EvidenceReconciled _) = ReplacementReconciled"

definition graph_add ::
  "bitcoin_lib \<Rightarrow> bitcoin_transaction \<Rightarrow> u64 \<Rightarrow> replacement_evidence \<Rightarrow> mempool_graph \<Rightarrow>
   (mempool_error + graph_update) \<times> mempool_graph" where
  "graph_add L tx fee evidence g =
     (let t = txid L tx in
      if t |\<in>| mg_present g then (Inr \<lparr>gu_conflicts = [], gu_classification = None\<rparr>, g)
      else
        let keys = conflict_keys g t (tx_inputs tx);
            conflicts = map (\<lambda>(p, c). \<lparr>ce_source_id = mg_source_id g, ce_spent_outpoint = p, ce_txid = t,
              ce_conflicting_txid = c\<rparr>) (sorted_list_of_fset keys)
        in if (case named_replacement evidence of None \<Rightarrow> False
               | Some named \<Rightarrow> \<not> list_ex (\<lambda>e. ce_conflicting_txid e = named) conflicts)
           then (Inl (InvalidReplacementEvidence t), g)
           else (Inr \<lparr>gu_conflicts = conflicts,
                   gu_classification = (if conflicts = [] then None else Some (classify evidence))\<rparr>,
                 g\<lparr>mg_spent_by_history := fold (record_spend t) (tx_inputs tx) (mg_spent_by_history g),
                   mg_transactions := fmupd t \<lparr>gt_transaction = tx, gt_fee_sats = fee,
                     gt_vsize = virtual_size L tx\<rparr> (mg_transactions g),
                   mg_present := finsert t (mg_present g)\<rparr>))"

definition graph_remove :: "digest \<Rightarrow> mempool_graph \<Rightarrow> mempool_graph" where
  "graph_remove t g = g\<lparr>mg_present := mg_present g |-| {|t|}\<rparr>"

section \<open>Packages\<close>

type_synonym adjacency_map = "(digest, digest fset) fmap"

definition add_neighbour :: "digest \<Rightarrow> digest \<Rightarrow> adjacency_map \<Rightarrow> adjacency_map" where
  "add_neighbour a b m = fmupd a (finsert b (case fmlookup m a of None \<Rightarrow> {||} | Some s \<Rightarrow> s)) m"

definition link_input :: "mempool_graph \<Rightarrow> digest \<Rightarrow> bitcoin_input \<Rightarrow> adjacency_map \<Rightarrow> adjacency_map" where
  "link_input g child inp m =
     (let parent = op_txid (previous_output inp) in
      if parent |\<in>| mg_present g then add_neighbour parent child (add_neighbour child parent m) else m)"

definition link_child :: "mempool_graph \<Rightarrow> digest \<Rightarrow> adjacency_map \<Rightarrow> adjacency_map" where
  "link_child g child m =
     (case fmlookup (mg_transactions g) child of
        None \<Rightarrow> m
      | Some gt \<Rightarrow> fold (link_input g child) (tx_inputs (gt_transaction gt)) m)"

definition current_adjacency :: "mempool_graph \<Rightarrow> adjacency_map" where
  "current_adjacency g = fold (link_child g) (sorted_list_of_fset (mg_present g)) fmempty"

function package_members :: "adjacency_map \<Rightarrow> digest list \<Rightarrow> digest set \<Rightarrow> digest set" where
  "package_members adj [] members = members"
| "package_members adj (m # queue) members =
     (if m \<in> members then package_members adj queue members
      else case fmlookup adj m of
          None \<Rightarrow> package_members adj queue (insert m members)
        | Some neighbours \<Rightarrow>
            package_members adj (queue @ sorted_list_of_fset neighbours) (insert m members))"
  by pat_completeness auto
termination
proof (relation "measures [\<lambda>(adj, _, members). card (fmdom' adj - members), \<lambda>(_, queue, _). length queue]", goal_cases)
  case (3 adj m queue members)
  then have "fmdom' adj - insert m members = fmdom' adj - members" by (auto simp: fmdom'_notI)
  then show ?case by simp
next
  case (4 adj m queue members neighbours)
  then have "m \<in> fmdom' adj - members" by (auto simp: fmdom'I)
  then have "fmdom' adj - insert m members \<subset> fmdom' adj - members" by auto
  then show ?case by (simp add: psubset_card_mono)
qed auto

fun package_totals :: "mempool_graph \<Rightarrow> digest list \<Rightarrow> u64 \<times> u64 \<Rightarrow> mempool_error + u64 \<times> u64" where
  "package_totals g [] totals = Inr totals"
| "package_totals g (m # ms) (fees, vsize) =
     (case fmlookup (mg_transactions g) m of
        None \<Rightarrow> Inl (UnknownTransaction m)
      | Some gt \<Rightarrow>
          (case checked_add fees (gt_fee_sats gt) of
             None \<Rightarrow> Inl FeeOverflow
           | Some f \<Rightarrow>
               (case checked_add vsize (gt_vsize gt) of
                  None \<Rightarrow> Inl VirtualSizeOverflow
                | Some v \<Rightarrow> package_totals g ms (f, v))))"

definition package :: "digest \<Rightarrow> mempool_graph \<Rightarrow> mempool_error + package_snapshot" where
  "package t g =
     (if t |\<notin>| mg_present g then Inl (UnknownTransaction t)
      else
        let members = sorted_list_of_set (package_members (current_adjacency g) [t] {})
        in and_then (package_totals g members (0, 0)) (\<lambda>(fees, vsize).
             if vsize = 0 then Inl ZeroVirtualSize
             else Inr \<lparr>pk_member_txids = members, pk_total_fee_sats = fees, pk_total_vsize = vsize,
               pk_effective_fee_rate = \<lparr>fr_fee_sats = fees, fr_vsize = vsize\<rparr>\<rparr>))"

section \<open>Packages are connected components\<close>

definition neighbours :: "adjacency_map \<Rightarrow> digest \<Rightarrow> digest set" where
  "neighbours m a = (case fmlookup m a of None \<Rightarrow> {} | Some s \<Rightarrow> fset s)"

text \<open>A known transaction spends an output of a present one.\<close>

definition spends :: "mempool_graph \<Rightarrow> digest \<Rightarrow> digest \<Rightarrow> bool" where
  "spends g c p \<longleftrightarrow> p |\<in>| mg_present g \<and>
     (case fmlookup (mg_transactions g) c of None \<Rightarrow> False
      | Some gt \<Rightarrow> p \<in> (op_txid \<circ> previous_output) ` set (tx_inputs (gt_transaction gt)))"

definition linked :: "mempool_graph \<Rightarrow> digest \<Rightarrow> digest \<Rightarrow> bool" where
  "linked g x y \<longleftrightarrow> x |\<in>| mg_present g \<and> spends g x y \<or> y |\<in>| mg_present g \<and> spends g y x"

definition edge :: "digest \<Rightarrow> digest \<Rightarrow> digest \<Rightarrow> digest set" where
  "edge c p x = (if x = c then {p} else {}) \<union> (if x = p then {c} else {})"

lemma edge_iff: "y \<in> edge c p x \<longleftrightarrow> x = c \<and> y = p \<or> x = p \<and> y = c"
  by (auto simp: edge_def)

lemma neighbours_add [simp]: "neighbours (add_neighbour a b m) x = neighbours m x \<union> (if x = a then {b} else {})"
  by (auto simp: neighbours_def add_neighbour_def split: option.split)

lemma neighbours_link_input:
  "neighbours (link_input g c inp m) x = neighbours m x \<union>
     (if op_txid (previous_output inp) |\<in>| mg_present g then edge c (op_txid (previous_output inp)) x else {})"
  by (auto simp: link_input_def Let_def edge_def)

lemma neighbours_link_inputs:
  "neighbours (fold (link_input g c) ins m) x = neighbours m x \<union>
     (\<Union>p \<in> {p \<in> (op_txid \<circ> previous_output) ` set ins. p |\<in>| mg_present g}. edge c p x)"
  by (induction ins arbitrary: m) (auto simp: neighbours_link_input)

lemma neighbours_link_child:
  "neighbours (link_child g c m) x = neighbours m x \<union> (\<Union>p \<in> {p. spends g c p}. edge c p x)"
  by (auto simp: link_child_def neighbours_link_inputs spends_def split: option.splits)

lemma neighbours_link_children:
  "neighbours (fold (link_child g) cs m) x = neighbours m x \<union> (\<Union>c \<in> set cs. \<Union>p \<in> {p. spends g c p}. edge c p x)"
  by (induction cs arbitrary: m) (auto simp: neighbours_link_child)

lemma current_adjacency_linked: "y \<in> neighbours (current_adjacency g) x \<longleftrightarrow> linked g x y"
  by (auto simp: current_adjacency_def neighbours_link_children linked_def edge_iff neighbours_def [of fmempty])

definition visit_inv :: "adjacency_map \<Rightarrow> digest \<Rightarrow> digest set \<Rightarrow> digest set \<Rightarrow> bool" where
  "visit_inv adj root pending members \<longleftrightarrow> root \<in> members \<union> pending \<and>
     (\<forall>v \<in> members \<union> pending. (\<lambda>x y. y \<in> neighbours adj x)\<^sup>*\<^sup>* root v) \<and>
     (\<forall>v \<in> members. neighbours adj v \<subseteq> members \<union> pending)"

lemma visit_inv_skip: "visit_inv adj root (insert m q) ms \<Longrightarrow> m \<in> ms \<Longrightarrow> visit_inv adj root q ms"
  unfolding visit_inv_def by (simp add: insert_absorb)

lemma visit_inv_visit:
  assumes "visit_inv adj root (insert m q) ms"
  shows "visit_inv adj root (q \<union> neighbours adj m) (insert m ms)"
  using assms unfolding visit_inv_def by (auto intro: rtranclp.rtrancl_into_rtrancl)

lemma package_members_reach:
  "visit_inv adj root (set queue) members \<Longrightarrow>
   package_members adj queue members = {v. (\<lambda>x y. y \<in> neighbours adj x)\<^sup>*\<^sup>* root v}"
proof (induction adj queue members rule: package_members.induct)
  case (1 adj members)
  then show ?case
    using closed_reachable [of root members "\<lambda>x y. y \<in> neighbours adj x"] by (auto simp: visit_inv_def)
next
  case (2 adj m queue members)
  have inv: "visit_inv adj root (insert m (set queue)) members" using 2(4) by simp
  show ?case
  proof (cases "m \<in> members")
    case True
    with 2(1) [OF True] visit_inv_skip [OF inv True] show ?thesis by simp
  next
    case False
    note visit = visit_inv_visit [OF inv]
    show ?thesis
    proof (cases "fmlookup adj m")
      case None
      with 2(2) [OF False None] visit False show ?thesis by (simp add: neighbours_def)
    next
      case (Some ns)
      with 2(3) [OF False Some] visit False show ?thesis by (simp add: neighbours_def)
    qed
  qed
qed

definition component :: "mempool_graph \<Rightarrow> digest \<Rightarrow> digest set" where
  "component g t = {u. (linked g)\<^sup>*\<^sup>* t u}"

lemma package_members_component: "package_members (current_adjacency g) [t] {} = component g t"
proof -
  have "visit_inv (current_adjacency g) t (set [t]) {}" by (simp add: visit_inv_def)
  from package_members_reach [OF this] show ?thesis by (simp add: current_adjacency_linked component_def)
qed

lemma component_present: "t |\<in>| mg_present g \<Longrightarrow> component g t \<subseteq> fset (mg_present g)"
proof
  fix u
  assume t: "t |\<in>| mg_present g" and "u \<in> component g t"
  then have "(linked g)\<^sup>*\<^sup>* t u" by (simp add: component_def)
  then show "u \<in> fset (mg_present g)"
    using t by (induction rule: rtranclp_induct) (auto simp: linked_def spends_def)
qed

section \<open>Totals\<close>

definition fee_of :: "mempool_graph \<Rightarrow> digest \<Rightarrow> nat" where
  "fee_of g m = (case fmlookup (mg_transactions g) m of None \<Rightarrow> 0 | Some gt \<Rightarrow> unat (gt_fee_sats gt))"

definition vsize_of :: "mempool_graph \<Rightarrow> digest \<Rightarrow> nat" where
  "vsize_of g m = (case fmlookup (mg_transactions g) m of None \<Rightarrow> 0 | Some gt \<Rightarrow> unat (gt_vsize gt))"

lemma package_totals_iff:
  assumes "\<forall>m \<in> set ms. fmlookup (mg_transactions g) m \<noteq> None"
  shows "package_totals g ms (f, v) = Inr (f', v') \<longleftrightarrow>
    unat f + sum_list (map (fee_of g) ms) < 2 ^ 64 \<and> unat v + sum_list (map (vsize_of g) ms) < 2 ^ 64 \<and>
    unat f' = unat f + sum_list (map (fee_of g) ms) \<and> unat v' = unat v + sum_list (map (vsize_of g) ms)"
  using assms
proof (induction ms arbitrary: f v)
  case Nil
  show ?case using unsigned_less [of f] unsigned_less [of v] by (auto simp: word_unat_eq_iff)
next
  case (Cons m ms)
  then obtain gt where gt: "fmlookup (mg_transactions g) m = Some gt" by auto
  have known: "\<forall>m \<in> set ms. fmlookup (mg_transactions g) m \<noteq> None" using Cons.prems by simp
  have fees: "fee_of g m = unat (gt_fee_sats gt)" "vsize_of g m = unat (gt_vsize gt)"
    using gt by (simp_all add: fee_of_def vsize_of_def)
  show ?case
  proof (cases "unat f + fee_of g m < 2 ^ 64 \<and> unat v + vsize_of g m < 2 ^ 64")
    case True
    then have "checked_add f (gt_fee_sats gt) = Some (f + gt_fee_sats gt)"
      "checked_add v (gt_vsize gt) = Some (v + gt_vsize gt)" by (simp_all add: checked_add_def fees)
    then show ?thesis
      using Cons.IH [OF known] gt fees
      by (simp add: unat_checked_add [of f "gt_fee_sats gt"] unat_checked_add [of v "gt_vsize gt"] add.assoc)
  next
    case False
    then show ?thesis using gt fees by (auto simp: checked_add_def)
  qed
qed

section \<open>Reached graphs\<close>

text \<open>The graphs that a sequence of additions and removals reaches, with the transactions it has
  accepted so far.\<close>

inductive graph_run :: "bitcoin_lib \<Rightarrow> bitcoin_transaction list \<Rightarrow> mempool_graph \<Rightarrow> bool" for L where
  graph_run_new: "graph_new s = Inr g \<Longrightarrow> graph_run L [] g"
| graph_run_add: "graph_run L txs g \<Longrightarrow> txid L tx |\<notin>| mg_present g \<Longrightarrow> graph_add L tx fee ev g = (Inr u, g') \<Longrightarrow>
    graph_run L (txs @ [tx]) g'"
| graph_run_known: "graph_run L txs g \<Longrightarrow> txid L tx |\<in>| mg_present g \<Longrightarrow> graph_add L tx fee ev g = (r, g') \<Longrightarrow>
    graph_run L txs g'"
| graph_run_refused: "graph_run L txs g \<Longrightarrow> graph_add L tx fee ev g = (Inl e, g') \<Longrightarrow> graph_run L txs g'"
| graph_run_remove: "graph_run L txs g \<Longrightarrow> graph_run L txs (graph_remove t g)"

definition outpoints :: "bitcoin_transaction \<Rightarrow> outpoint set" where
  "outpoints tx = previous_output ` set (tx_inputs tx)"

definition spenders :: "mempool_graph \<Rightarrow> outpoint \<Rightarrow> digest set" where
  "spenders g p = (case fmlookup (mg_spent_by_history g) p of None \<Rightarrow> {} | Some s \<Rightarrow> fset s)"

lemma spenders_fold:
  "(case fmlookup (fold (record_spend t) ins m) p of None \<Rightarrow> {} | Some s \<Rightarrow> fset s) =
   (case fmlookup m p of None \<Rightarrow> {} | Some s \<Rightarrow> fset s) \<union> (if p \<in> previous_output ` set ins then {t} else {})"
proof (induction ins arbitrary: m)
  case (Cons inp ins)
  have "(case fmlookup (record_spend t inp m) p of None \<Rightarrow> {} | Some s \<Rightarrow> fset s) =
     (case fmlookup m p of None \<Rightarrow> {} | Some s \<Rightarrow> fset s) \<union> (if p = previous_output inp then {t} else {})"
    by (auto simp: record_spend_def split: option.split)
  then show ?case unfolding fold_simps Cons.IH by auto
qed simp

lemma graph_add_new:
  assumes "txid L tx |\<notin>| mg_present g" "graph_add L tx fee ev g = (Inr u, g')"
  shows "g' = g\<lparr>mg_spent_by_history := fold (record_spend (txid L tx)) (tx_inputs tx) (mg_spent_by_history g),
    mg_transactions := fmupd (txid L tx) \<lparr>gt_transaction = tx, gt_fee_sats = fee, gt_vsize = virtual_size L tx\<rparr>
      (mg_transactions g), mg_present := finsert (txid L tx) (mg_present g)\<rparr>"
  using assms by (simp add: graph_add_def Let_def split: if_splits)

lemma graph_add_same:
  "graph_add L tx fee ev g = (r, g') \<Longrightarrow> txid L tx |\<in>| mg_present g \<or> r = Inl e \<Longrightarrow> g' = g"
  by (auto simp: graph_add_def Let_def split: if_splits)

definition graph_ok :: "bitcoin_lib \<Rightarrow> bitcoin_transaction list \<Rightarrow> mempool_graph \<Rightarrow> bool" where
  "graph_ok L txs g \<longleftrightarrow> (\<forall>p. spenders g p = txid L ` {tx \<in> set txs. p \<in> outpoints tx}) \<and>
     fset (mg_present g) \<subseteq> fmdom' (mg_transactions g)"

lemma graph_run_ok: "graph_run L txs g \<Longrightarrow> graph_ok L txs g"
proof (induction rule: graph_run.induct)
  case (graph_run_new s g)
  then show ?case by (auto simp: graph_new_def graph_ok_def spenders_def split: if_splits)
next
  case (graph_run_add txs g tx fee ev u g')
  note g' = graph_add_new [OF graph_run_add.hyps(2,3)]
  have "spenders g' p = spenders g p \<union> (if p \<in> outpoints tx then {txid L tx} else {})" for p
    unfolding spenders_def g' by (simp add: spenders_fold outpoints_def)
  then show ?case using graph_run_add.IH unfolding graph_ok_def g' by auto
next
  case (graph_run_known txs g tx fee ev r g')
  then show ?case using graph_add_same by metis
next
  case (graph_run_refused txs g tx fee ev e g')
  then show ?case using graph_add_same by metis
next
  case (graph_run_remove txs g t)
  then show ?case by (auto simp: graph_remove_def graph_ok_def spenders_def)
qed

lemma mem_concat_map: "x \<in> set (concat (map f xs)) \<longleftrightarrow> (\<exists>y \<in> set xs. x \<in> set (f y))"
  by auto

lemma conflict_keys_iff:
  "(p, c) |\<in>| conflict_keys g t (tx_inputs tx) \<longleftrightarrow> p \<in> outpoints tx \<and> c \<in> spenders g p \<and> c \<noteq> t"
proof -
  have one: "(p, c) \<in> set (case fmlookup (mg_spent_by_history g) (previous_output inp) of None \<Rightarrow> []
     | Some s \<Rightarrow> map (Pair (previous_output inp)) (sorted_list_of_fset (s |-| {|t|}))) \<longleftrightarrow>
     p = previous_output inp \<and> c \<in> spenders g p \<and> c \<noteq> t" for inp
    by (auto simp: spenders_def split: option.split)
  show ?thesis
    unfolding conflict_keys_def fset_of_list_elem mem_concat_map one outpoints_def by auto
qed

section \<open>What the graph promises\<close>

text \<open>double spends are never missed. When a transaction that is not present is added to a reached
  graph, the reported conflicts are exactly the outpoints it shares with other transactions accepted
  so far, present or not, each once and in order; the addition is refused exactly when the evidence
  names a replaced transaction that is not among them, and the classification follows the evidence.\<close>

theorem conflicts_are_complete:
  assumes "graph_run L txs g" "txid L tx |\<notin>| mg_present g"
    "conflicts = {(p, txid L x) | p x. x \<in> set txs \<and> p \<in> outpoints tx \<and> p \<in> outpoints x \<and> txid L x \<noteq> txid L tx}"
  shows "case fst (graph_add L tx fee ev g) of
      Inl e \<Rightarrow> e = InvalidReplacementEvidence (txid L tx) \<and>
        (\<exists>named. named_replacement ev = Some named \<and> named \<notin> snd ` conflicts)
    | Inr u \<Rightarrow> (case named_replacement ev of None \<Rightarrow> True | Some named \<Rightarrow> named \<in> snd ` conflicts) \<and>
        map (\<lambda>e. (ce_spent_outpoint e, ce_conflicting_txid e)) (gu_conflicts u) = sorted_list_of_set conflicts \<and>
        list_all (\<lambda>e. ce_txid e = txid L tx \<and> ce_source_id e = mg_source_id g) (gu_conflicts u) \<and>
        gu_classification u = (if conflicts = {} then None else Some (classify ev))"
proof -
  let ?keys = "conflict_keys g (txid L tx) (tx_inputs tx)"
  have "spenders g p = txid L ` {x \<in> set txs. p \<in> outpoints x}" for p
    using graph_run_ok [OF assms(1)] by (simp add: graph_ok_def)
  then have keys: "fset ?keys = conflicts"
    unfolding assms(3) by (auto simp: conflict_keys_iff)
  have srt: "sorted_list_of_fset ?keys = sorted_list_of_set conflicts"
    by (simp add: sorted_list_of_fset.rep_eq keys)
  have fin: "finite conflicts" using finite_fset [of ?keys] keys by simp
  then have mem: "set (sorted_list_of_set conflicts) = conflicts" "sorted_list_of_set conflicts = [] \<longleftrightarrow> conflicts = {}"
    by auto
  show ?thesis
    using assms(2)
    by (auto simp: graph_add_def Let_def srt mem list_ex_iff list_all_iff comp_def case_prod_unfold image_iff
        split: option.splits)
qed

text \<open>C14: packages are exact. In a reached graph the package of a present transaction is the connected
  component of the present transactions under spending, in order of identity, with the exact sums of
  fees and sizes; it is reported exactly when the transaction is present, both sums fit in 64 bits
  and the size is not zero.\<close>

theorem package_is_component:
  assumes "graph_run L txs g"
  shows "(\<forall>s. package t g = Inr s \<longrightarrow> pk_member_txids s = sorted_list_of_set (component g t) \<and>
      unat (pk_total_fee_sats s) = sum (fee_of g) (component g t) \<and>
      unat (pk_total_vsize s) = sum (vsize_of g) (component g t) \<and>
      sats_per_vbyte_floor (pk_effective_fee_rate s) \<noteq> None) \<and>
    ((\<exists>s. package t g = Inr s) \<longleftrightarrow> t |\<in>| mg_present g \<and> sum (fee_of g) (component g t) < 2 ^ 64 \<and>
      sum (vsize_of g) (component g t) < 2 ^ 64 \<and> 0 < sum (vsize_of g) (component g t))"
proof (cases "t |\<in>| mg_present g")
  case True
  let ?ms = "sorted_list_of_set (component g t)"
  have fin: "finite (component g t)" using finite_subset [OF component_present [OF True]] by simp
  have known: "\<forall>m \<in> set ?ms. fmlookup (mg_transactions g) m \<noteq> None"
    using component_present [OF True] graph_run_ok [OF assms] fin
    by (auto simp: graph_ok_def simp flip: fmlookup_dom'_iff dest!: subsetD)
  have sums: "sum_list (map f ?ms) = sum f (component g t)" for f :: "digest \<Rightarrow> nat"
    using fin by (simp add: sum_list_distinct_conv_sum_set)
  note totals = package_totals_iff [OF known, of 0 0, unfolded sums, simplified]
  have pk: "package t g = Inr s \<longleftrightarrow> (\<exists>fees vsize. package_totals g ?ms (0, 0) = Inr (fees, vsize) \<and> vsize \<noteq> 0 \<and>
      s = \<lparr>pk_member_txids = ?ms, pk_total_fee_sats = fees, pk_total_vsize = vsize,
        pk_effective_fee_rate = \<lparr>fr_fee_sats = fees, fr_vsize = vsize\<rparr>\<rparr>)" for s
    using True unfolding package_def package_members_component
    by (auto simp: Let_def rust_result split: if_splits)
  have nonzero: "v \<noteq> 0 \<longleftrightarrow> 0 < unat v" for v :: u64 by (simp add: unat_gt_0)
  have ex: "\<exists>w :: u64. unat w = n" if "n < 2 ^ 64" for n
    using that by (intro exI [of _ "of_nat n"]) (simp add: unat_of_nat)
  have "(\<exists>s. package t g = Inr s) \<longleftrightarrow> (\<exists>fees vsize. package_totals g ?ms (0, 0) = Inr (fees, vsize) \<and> vsize \<noteq> 0)"
    unfolding pk by blast
  also have "\<dots> \<longleftrightarrow> sum (fee_of g) (component g t) < 2 ^ 64 \<and>
      sum (vsize_of g) (component g t) < 2 ^ 64 \<and> 0 < sum (vsize_of g) (component g t)"
    unfolding nonzero totals
    using ex [of "sum (fee_of g) (component g t)"] ex [of "sum (vsize_of g) (component g t)"]
    by (auto, metis)
  finally have exact: "(\<exists>s. package t g = Inr s) \<longleftrightarrow> sum (fee_of g) (component g t) < 2 ^ 64 \<and>
      sum (vsize_of g) (component g t) < 2 ^ 64 \<and> 0 < sum (vsize_of g) (component g t)" .
  have "pk_member_txids s = ?ms \<and> unat (pk_total_fee_sats s) = sum (fee_of g) (component g t) \<and>
      unat (pk_total_vsize s) = sum (vsize_of g) (component g t) \<and>
      sats_per_vbyte_floor (pk_effective_fee_rate s) \<noteq> None" if "package t g = Inr s" for s
    using that unfolding pk totals by (auto simp: sats_per_vbyte_floor_def)
  then show ?thesis using True exact by blast
next
  case False
  then show ?thesis by (simp add: package_def)
qed

section \<open>A concrete graph\<close>

text \<open>Two transactions that spend the same output.\<close>

definition sample_graph :: mempool_graph where
  "sample_graph = snd (graph_add sample_lib (sample_tx 20 [(10, 0)] [5]) 7 EvidenceNone
     \<lparr>mg_source_id = ''node-a'', mg_transactions = fmempty, mg_present = {||}, mg_spent_by_history = fmempty\<rparr>)"

lemmas graph_eval = graph_add_def conflict_keys_def record_spend_def virtual_size_def sample_lib_def sample_tx_def
  from_transaction_def txid_def Let_def

lemma sample_graph_eq:
  "mg_present sample_graph = {|20|}" "fmlookup (mg_transactions sample_graph) 20 =
     Some \<lparr>gt_transaction = sample_tx 20 [(10, 0)] [5], gt_fee_sats = 7, gt_vsize = 1\<rparr>"
  by (simp_all add: sample_graph_def graph_eval)

lemma sample_graph_run: "graph_run sample_lib [sample_tx 20 [(10, 0)] [5]] sample_graph"
proof -
  let ?g = "\<lparr>mg_source_id = ''node-a'', mg_transactions = fmempty, mg_present = {||}, mg_spent_by_history = fmempty\<rparr>"
  have "graph_new ''node-a'' = Inr ?g" by (simp add: graph_new_def str_blank.simps ws_len_def byte_of_def)
  moreover have "graph_add sample_lib (sample_tx 20 [(10, 0)] [5]) 7 EvidenceNone ?g =
      (Inr \<lparr>gu_conflicts = [], gu_classification = None\<rparr>, sample_graph)"
    by (simp add: sample_graph_def graph_eval)
  ultimately show ?thesis using graph_run_add [OF graph_run_new] by fastforce
qed

theorem conflicts_are_complete_witness:
  "case fst (graph_add sample_lib (sample_tx 30 [(10, 0)] [6]) 9 (EvidenceDirect 20) sample_graph) of
     Inl _ \<Rightarrow> False
   | Inr u \<Rightarrow> map ce_conflicting_txid (gu_conflicts u) = [20] \<and> gu_classification u = Some ReplacementObserved"
proof -
  have one: "{(p, txid sample_lib x) | p x. x \<in> set [sample_tx 20 [(10, 0)] [5]] \<and> p \<in> outpoints (sample_tx 30 [(10, 0)] [6]) \<and>
      p \<in> outpoints x \<and> txid sample_lib x \<noteq> txid sample_lib (sample_tx 30 [(10, 0)] [6])} = {(OutPoint 10 0, 20)}"
    by (auto simp: outpoints_def sample_tx_def from_transaction_def txid_def sample_lib_def)
  have "txid sample_lib (sample_tx 30 [(10, 0)] [6]) |\<notin>| mg_present sample_graph"
    by (simp add: sample_graph_eq txid_def sample_lib_def sample_tx_def from_transaction_def)
  from conflicts_are_complete [OF sample_graph_run this refl, where fee = 9 and ev = "EvidenceDirect 20", unfolded one]
  show ?thesis by (auto split: sum.splits simp: map_eq_Cons_conv)
qed

theorem package_is_component_witness:
  "\<exists>s. package 20 sample_graph = Inr s"
proof -
  have self: "\<not> linked sample_graph 20 u" for u
    by (auto simp: linked_def spends_def sample_graph_eq sample_tx_def from_transaction_def split: option.splits)
  then have "component sample_graph 20 = {20}"
    unfolding component_def by (auto elim: converse_rtranclpE)
  then show ?thesis
    using package_is_component [OF sample_graph_run, of 20]
    by (simp add: sample_graph_eq fee_of_def vsize_of_def)
qed

end
