(* ===== verification/Observation_Envelope.thy ===== *)
theory Observation_Envelope
  imports Text_Encoding
begin

text \<open>
  The wire observation of \<open>crates/platform-proto\<close> and its validated construction in
  \<open>crates/observation-envelope/src/lib.rs\<close>. SHA-256 and BLAKE3 are parameters; an incremental hasher
  is the hash of the concatenation of its updates.
\<close>

section \<open>Data\<close>

record observation =
  ob_schema_version :: u32
  ob_observation_id :: bytes
  ob_source_id :: string
  ob_source_session_id :: bytes
  ob_collector_sequence :: u64
  ob_chain :: string
  ob_network :: string
  ob_channel :: string
  ob_source_message_type :: string
  ob_source_sequence :: "u64 option"
  ob_source_cursor :: "bytes option"
  ob_observed_at_unix_ns :: i64
  ob_observed_at_monotonic_ns :: u64
  ob_source_time_unix_ns :: "i64 option"
  ob_payload_hash :: bytes
  ob_payload :: bytes
  ob_attributes :: "(string, string) fmap"
  ob_quality_flags :: "string list"

record wal_commit =
  wc_source_session_id :: bytes
  wc_first_collector_sequence :: u64
  wc_last_collector_sequence :: u64
  wc_first_wal_offset :: u64
  wc_last_wal_offset :: u64
  wc_durable_at_unix_ns :: i64
  wc_commit_hash :: bytes

record committed_observation =
  co_observation :: "observation option"
  co_durable_at_unix_ns :: i64
  co_wal_commit_hash :: bytes

datatype observation_error =
    EmptyField string
  | MissingField string
  | InvalidLength string nat nat

text \<open>The fixed-length identifiers \<open>[u8; 16]\<close> and \<open>[u8; 32]\<close> as big-endian words.\<close>

type_synonym source_session_id = "128 word"

definition session_bytes :: "source_session_id \<Rightarrow> bytes" where
  "session_bytes s = be_bytes 16 (unat s)"

definition session_try_from :: "bytes \<Rightarrow> observation_error + source_session_id" where
  "session_try_from bs = (if length bs = 16 then Inr (of_nat (be_val bs))
     else Inl (InvalidLength ''source_session_id'' 16 (length bs)))"

definition observation_id_bytes :: "digest \<Rightarrow> bytes" where
  "observation_id_bytes d = be_bytes 32 (unat d)"

definition observation_id_try_from :: "bytes \<Rightarrow> observation_error + digest" where
  "observation_id_try_from bs = (if length bs = 32 then Inr (of_nat (be_val bs))
     else Inl (InvalidLength ''observation_id'' 32 (length bs)))"

record observation_builder =
  bu_source_id :: "string option"
  bu_source_session_id :: "source_session_id option"
  bu_collector_sequence :: "u64 option"
  bu_chain :: "string option"
  bu_network :: "string option"
  bu_channel :: "string option"
  bu_source_message_type :: "string option"
  bu_source_sequence :: "u64 option"
  bu_source_cursor :: "bytes option"
  bu_observed_at_unix_ns :: "i64 option"
  bu_observed_at_monotonic_ns :: "u64 option"
  bu_source_time_unix_ns :: "i64 option"
  bu_payload :: "bytes option"

definition builder_new :: observation_builder where
  "builder_new = \<lparr>bu_source_id = None, bu_source_session_id = None, bu_collector_sequence = None,
     bu_chain = None, bu_network = None, bu_channel = None, bu_source_message_type = None,
     bu_source_sequence = None, bu_source_cursor = None, bu_observed_at_unix_ns = None,
     bu_observed_at_monotonic_ns = None, bu_source_time_unix_ns = None, bu_payload = None\<rparr>"

section \<open>Construction\<close>

definition required :: "'a option \<Rightarrow> string \<Rightarrow> observation_error + 'a" where
  "required v field = ok_or v (MissingField field)"

definition required_text :: "string option \<Rightarrow> string \<Rightarrow> observation_error + string" where
  "required_text v field = and_then (required v field) (\<lambda>s.
     if str_blank s then Inl (EmptyField field) else Inr s)"

text \<open>The bytes that the observation identity hashes.\<close>

definition observation_id_input :: "string \<Rightarrow> source_session_id \<Rightarrow> u64 \<Rightarrow> digest \<Rightarrow> bytes" where
  "observation_id_input source session seq payload_hash =
     ascii_bytes ''observation/v1'' @ ascii_bytes source @ session_bytes session @
     be_bytes 8 (unat seq) @ be_bytes 32 (unat payload_hash)"

definition build ::
  "(bytes \<Rightarrow> digest) \<Rightarrow> (bytes \<Rightarrow> digest) \<Rightarrow> observation_builder \<Rightarrow> observation_error + observation" where
  "build sha blake3 b =
     and_then (required_text (bu_source_id b) ''source_id'') (\<lambda>source.
     and_then (required (bu_source_session_id b) ''source_session_id'') (\<lambda>session.
     and_then (required (bu_collector_sequence b) ''collector_sequence'') (\<lambda>seq.
     and_then (required_text (bu_chain b) ''chain'') (\<lambda>chain.
     and_then (required_text (bu_network b) ''network'') (\<lambda>network.
     and_then (required_text (bu_channel b) ''channel'') (\<lambda>channel.
     and_then (required_text (bu_source_message_type b) ''source_message_type'') (\<lambda>message_type.
     and_then (required (bu_observed_at_unix_ns b) ''observed_at_unix_ns'') (\<lambda>observed_at.
     and_then (required (bu_observed_at_monotonic_ns b) ''observed_at_monotonic_ns'') (\<lambda>monotonic.
     and_then (required (bu_payload b) ''payload'') (\<lambda>payload.
       let payload_hash = sha payload in
       Inr \<lparr>ob_schema_version = 1,
         ob_observation_id = be_bytes 32 (unat (blake3 (observation_id_input source session seq payload_hash))),
         ob_source_id = source, ob_source_session_id = session_bytes session, ob_collector_sequence = seq,
         ob_chain = chain, ob_network = network, ob_channel = channel, ob_source_message_type = message_type,
         ob_source_sequence = bu_source_sequence b, ob_source_cursor = bu_source_cursor b,
         ob_observed_at_unix_ns = observed_at, ob_observed_at_monotonic_ns = monotonic,
         ob_source_time_unix_ns = bu_source_time_unix_ns b, ob_payload_hash = be_bytes 32 (unat payload_hash),
         ob_payload = payload, ob_attributes = fmempty, ob_quality_flags = []\<rparr>))))))))))"

section \<open>Identities\<close>

text \<open>the identity of an observation is derived from unambiguous bytes. Two observations hash the same
  bytes only when source, session, collector sequence and payload digest all agree, although the
  source name is written without its length: what follows it has a fixed width.\<close>

theorem observation_identity_is_unambiguous:
  "observation_id_input s1 k1 q1 h1 = observation_id_input s2 k2 q2 h2 \<longleftrightarrow>
   s1 = s2 \<and> k1 = k2 \<and> q1 = q2 \<and> h1 = h2"
proof -
  let ?tail = "\<lambda>k q h. session_bytes k @ be_bytes 8 (unat q) @ be_bytes 32 (unat h)"
  have "observation_id_input s1 k1 q1 h1 = observation_id_input s2 k2 q2 h2 \<longleftrightarrow>
      ascii_bytes s1 @ ?tail k1 q1 h1 = ascii_bytes s2 @ ?tail k2 q2 h2"
    by (simp add: observation_id_input_def)
  also have "\<dots> \<longleftrightarrow> ascii_bytes s1 = ascii_bytes s2 \<and> ?tail k1 q1 h1 = ?tail k2 q2 h2"
    by (rule append_eq_append_conv) (simp add: session_bytes_def)
  also have "?tail k1 q1 h1 = ?tail k2 q2 h2 \<longleftrightarrow> k1 = k2 \<and> q1 = q2 \<and> h1 = h2"
    by (simp add: session_bytes_def be_bytes_word_inj)
  finally show ?thesis by (simp add: ascii_bytes_inj)
qed

text \<open>Building succeeds exactly when every required field is present and every required text is not
  blank.\<close>

lemma required_Inr_iff: "required v f = Inr x \<longleftrightarrow> v = Some x"
  by (simp add: required_def rust_result)

lemma required_text_Inr_iff: "required_text v f = Inr s \<longleftrightarrow> v = Some s \<and> \<not> str_blank s"
  by (auto simp: required_text_def required_Inr_iff rust_result split: if_splits)

lemma build_validates_observation:
  "(\<exists>x. build sha blake3 b = Inr x) \<longleftrightarrow>
     list_all (\<lambda>v. \<exists>s. v = Some s \<and> \<not> str_blank s)
       [bu_source_id b, bu_chain b, bu_network b, bu_channel b, bu_source_message_type b] \<and>
     bu_source_session_id b \<noteq> None \<and> bu_collector_sequence b \<noteq> None \<and> bu_observed_at_unix_ns b \<noteq> None \<and>
     bu_observed_at_monotonic_ns b \<noteq> None \<and> bu_payload b \<noteq> None"
  by (auto simp: build_def required_Inr_iff required_text_Inr_iff and_then_Inr_iff Let_def)

end
