(* ===== verification/Wal_Format.thy ===== *)
theory Wal_Format
  imports Observation_Envelope
begin

text \<open>
  The frame format of \<open>crates/wal/src/format.rs\<close> and the scanner of \<open>reader.rs\<close>. A segment file is the
  list of its bytes; byte offsets are natural numbers, converted to \<open>u64\<close> where a commit record stores
  them, since the length of a file fits in 64 bits. The checksum, the hash and the Protobuf codec are
  the fields of \<open>wal_lib\<close>. Failures of the operating system are not modelled.
\<close>

section \<open>Parameters and errors\<close>

record wal_lib =
  crc32c :: "bytes \<Rightarrow> u32"
  blake3 :: "bytes \<Rightarrow> digest"
  encode_observation :: "observation \<Rightarrow> bytes"
  decode_observation :: "bytes \<Rightarrow> string + observation"
  encode_commit :: "wal_commit \<Rightarrow> bytes"
  decode_commit :: "bytes \<Rightarrow> string + wal_commit"

text \<open>What the code relies on of the Protobuf codec: decoding returns what was encoded.\<close>

definition codec_roundtrip :: "wal_lib \<Rightarrow> bool" where
  "codec_roundtrip W \<longleftrightarrow> (\<forall>x. decode_observation W (encode_observation W x) = Inr x) \<and>
     (\<forall>c. decode_commit W (encode_commit W c) = Inr c)"

datatype wal_error =
    WalIo string
  | WalDecode nat string
  | CapacityExhausted nat nat
  | NoPendingObservations
  | PendingObservations
  | Sealed
  | SequenceMismatch u64 u64
  | SourceSessionMismatch
  | CommittedCorruption nat
  | CorruptFrame nat string
  | QuarantineFailed string
  | InvalidCapacity u64

fun requires_quarantine :: "wal_error \<Rightarrow> bool" where
  "requires_quarantine (WalDecode _ _) = True"
| "requires_quarantine (CommittedCorruption _) = True"
| "requires_quarantine (CorruptFrame _ _) = True"
| "requires_quarantine _ = False"

section \<open>Frames\<close>

definition OBSERVATION_FRAME :: u8 where "OBSERVATION_FRAME = 1"
definition GROUP_COMMIT_FRAME :: u8 where "GROUP_COMMIT_FRAME = 2"
definition SEGMENT_SEAL_FRAME :: u8 where "SEGMENT_SEAL_FRAME = 3"
definition FRAME_HEADER_BYTES :: nat where "FRAME_HEADER_BYTES = 5"
definition FRAME_CRC_BYTES :: nat where "FRAME_CRC_BYTES = 4"
definition COMMIT_RESERVE_BYTES :: nat where "COMMIT_RESERVE_BYTES = 512"
definition MAX_FRAME_PAYLOAD_BYTES :: nat where "MAX_FRAME_PAYLOAD_BYTES = 64 * 1024 * 1024"

lemmas frame_consts = OBSERVATION_FRAME_def GROUP_COMMIT_FRAME_def SEGMENT_SEAL_FRAME_def
lemmas frame_sizes = FRAME_HEADER_BYTES_def FRAME_CRC_BYTES_def MAX_FRAME_PAYLOAD_BYTES_def

record raw_frame =
  rf_frame_type :: u8
  rf_offset :: nat
  rf_end_offset :: nat
  rf_payload :: bytes
  rf_bytes :: bytes
  rf_crc_valid :: bool

definition encode_frame :: "wal_lib \<Rightarrow> u8 \<Rightarrow> bytes \<Rightarrow> wal_error + bytes" where
  "encode_frame W frame_type payload =
     (if MAX_FRAME_PAYLOAD_BYTES < length payload
      then Inl (CapacityExhausted (length payload) MAX_FRAME_PAYLOAD_BYTES)
      else
        let frame = frame_type # be_bytes 4 (length payload) @ payload
        in Inr (frame @ be_bytes 4 (unat (crc32c W frame))))"

definition calculate_commit_hash ::
  "wal_lib \<Rightarrow> source_session_id \<Rightarrow> u64 \<Rightarrow> u64 \<Rightarrow> u64 \<Rightarrow> u64 \<Rightarrow> i64 \<Rightarrow> bytes list \<Rightarrow> digest" where
  "calculate_commit_hash W session first_seq last_seq first_off last_off durable_at frames =
     blake3 W (ascii_bytes ''wal-commit/v1'' @ session_bytes session @ be_bytes 8 (unat first_seq) @
       be_bytes 8 (unat last_seq) @ be_bytes 8 (unat first_off) @ be_bytes 8 (unat last_off) @
       be_bytes 8 (unat durable_at) @ concat frames)"

section \<open>The scanner\<close>

record scan_result =
  sc_frames :: "raw_frame list"
  sc_truncated :: "nat option"
  sc_scanned_end :: nat

text \<open>The loop reads from \<open>rest\<close>, the bytes of the file from the current offset on.\<close>

function scan_loop :: "wal_lib \<Rightarrow> bytes \<Rightarrow> nat \<Rightarrow> raw_frame list \<Rightarrow> wal_error + scan_result" where
  "scan_loop W rest offset frames =
     (if rest = [] \<or> hd rest = 0
      then Inr \<lparr>sc_frames = frames, sc_truncated = None, sc_scanned_end = offset\<rparr>
      else if length rest < FRAME_HEADER_BYTES
      then Inr \<lparr>sc_frames = frames, sc_truncated = Some offset, sc_scanned_end = offset\<rparr>
      else
        let payload_len = be_val (take 4 (drop 1 rest));
            frame_len = FRAME_HEADER_BYTES + payload_len + FRAME_CRC_BYTES
        in if MAX_FRAME_PAYLOAD_BYTES < payload_len
           then Inl (CorruptFrame offset ''frame payload exceeds the 64 MiB safety bound'')
           else if length rest < frame_len
           then Inr \<lparr>sc_frames = frames, sc_truncated = Some offset, sc_scanned_end = offset\<rparr>
           else
             let body = take (FRAME_HEADER_BYTES + payload_len) rest;
                 stored_crc = of_nat (be_val (take 4 (drop (FRAME_HEADER_BYTES + payload_len) rest)))
             in scan_loop W (drop frame_len rest) (offset + frame_len)
                  (frames @ [\<lparr>rf_frame_type = hd rest, rf_offset = offset, rf_end_offset = offset + frame_len,
                     rf_payload = take payload_len (drop FRAME_HEADER_BYTES rest), rf_bytes = take frame_len rest,
                     rf_crc_valid = (crc32c W body = stored_crc)\<rparr>]))"
  by pat_completeness auto
termination
  by (relation "measure (\<lambda>(W, rest, offset, frames). length rest)") (auto simp: frame_sizes)

declare scan_loop.simps [simp del]

definition scan :: "wal_lib \<Rightarrow> bytes \<Rightarrow> wal_error + scan_result" where
  "scan W file = scan_loop W file 0 []"

text \<open>The chunked read of the prefix of a file, up to 8192 bytes at a time.\<close>

function read_prefix :: "bytes \<Rightarrow> nat \<Rightarrow> bytes option" where
  "read_prefix rest remaining =
     (if remaining = 0 then Some []
      else
        let chunk = min remaining 8192
        in if length rest < chunk then None
           else map_option (\<lambda>bs. take chunk rest @ bs) (read_prefix (drop chunk rest) (remaining - chunk)))"
  by pat_completeness auto
termination
  by (relation "measure (\<lambda>(rest, remaining). remaining)") auto

declare read_prefix.simps [simp del]

definition hash_prefix :: "wal_lib \<Rightarrow> bytes \<Rightarrow> nat \<Rightarrow> wal_error + digest" where
  "hash_prefix W file end_offset =
     (case read_prefix file end_offset of
        None \<Rightarrow> Inl (WalIo ''failed to fill whole buffer'')
      | Some bs \<Rightarrow> Inr (blake3 W bs))"

lemma read_prefix_eq: "read_prefix rest n = (if n \<le> length rest then Some (take n rest) else None)"
proof (induction rest n rule: read_prefix.induct)
  case (1 rest n)
  let ?c = "min n 8192"
  show ?case
  proof (cases "n = 0 \<or> length rest < ?c")
    case True
    then show ?thesis by (subst read_prefix.simps) auto
  next
    case False
    then have "read_prefix (drop ?c rest) (n - ?c) =
        (if n - ?c \<le> length (drop ?c rest) then Some (take (n - ?c) (drop ?c rest)) else None)"
      using 1 [OF _ refl] by simp
    with False show ?thesis
      by (subst read_prefix.simps) (auto simp: Let_def take_add [symmetric] min_def)
  qed
qed

lemma hash_prefix_eq: "n \<le> length file \<Longrightarrow> hash_prefix W file n = Inr (blake3 W (take n file))"
  by (simp add: hash_prefix_def read_prefix_eq)

section \<open>Scanning what was written\<close>

text \<open>The frame that a written frame becomes when it is read back at an offset.\<close>

definition frame_at :: "u8 \<Rightarrow> bytes \<Rightarrow> bytes \<Rightarrow> nat \<Rightarrow> raw_frame" where
  "frame_at frame_type payload f offset = \<lparr>rf_frame_type = frame_type, rf_offset = offset,
     rf_end_offset = offset + length f, rf_payload = payload, rf_bytes = f, rf_crc_valid = True\<rparr>"

lemma encode_frame_length: "encode_frame W ty p = Inr f \<Longrightarrow> length f = length p + 9"
  by (auto simp: encode_frame_def Let_def split: if_splits)

lemma unat_crc_bytes: "of_nat (be_val (be_bytes 4 (unat (c :: u32)))) = c"
proof -
  have "unat c < 256 ^ 4" using unsigned_less [of c] by simp
  then show ?thesis by (simp add: be_val_be_bytes)
qed

lemma scan_loop_frame:
  assumes "encode_frame W ty p = Inr f" "ty \<noteq> 0"
  shows "scan_loop W (f @ rest) off fs = scan_loop W rest (off + length f) (fs @ [frame_at ty p f off])"
proof -
  let ?crc = "be_bytes 4 (unat (crc32c W (ty # be_bytes 4 (length p) @ p)))"
  have f: "f = ty # be_bytes 4 (length p) @ p @ ?crc" and len: "length p \<le> MAX_FRAME_PAYLOAD_BYTES"
    using assms(1) by (auto simp: encode_frame_def Let_def split: if_splits)
  have lp: "be_val (be_bytes 4 (length p)) = length p"
    using len by (intro be_val_be_bytes) (simp add: frame_sizes)
  have parts: "take 4 (drop 1 (f @ rest)) = be_bytes 4 (length p)"
    "take (5 + length p) (f @ rest) = ty # be_bytes 4 (length p) @ p"
    "take 4 (drop (5 + length p) (f @ rest)) = ?crc" "take (length p) (drop 5 (f @ rest)) = p"
    "drop (5 + length p + 4) (f @ rest) = rest" "take (5 + length p + 4) (f @ rest) = f"
    by (simp_all add: f take_Cons' drop_Cons')
  have lf: "length f = 5 + length p + 4" using encode_frame_length [OF assms(1)] by simp
  have hd: "f \<noteq> []" "hd (f @ rest) = ty" by (simp_all add: f)
  show ?thesis
    apply (subst scan_loop.simps)
    unfolding FRAME_HEADER_BYTES_def FRAME_CRC_BYTES_def Let_def parts(1) lp parts(2-6)
    using assms(2) hd len lf
    by (simp add: frame_at_def unat_crc_bytes)
qed

lemma scan_loop_zeros: "scan_loop W (replicate n 0) off fs =
    Inr \<lparr>sc_frames = fs, sc_truncated = None, sc_scanned_end = off\<rparr>"
  by (subst scan_loop.simps) (cases n; simp)

end
