(* ===== verification/Wal_Recovery.thy ===== *)
theory Wal_Recovery
  imports Wal_Format
begin

text \<open>
  Recovery of a segment, \<open>crates/wal/src/recovery.rs\<close>: the frames of the scan are processed in order,
  a commit frame makes the observations before it publishable after its range, sequence and hash
  have been checked, and the report says which tail is discarded. Sequence arithmetic on \<open>u64\<close>
  without a check wraps.
\<close>

datatype recovery_incident = TruncatedTail nat | UncommittedTail nat nat

record recovery_report =
  rr_incidents :: "recovery_incident list"
  rr_logical_end :: nat

record recovery_state =
  rs_report :: recovery_report
  rs_committed :: "committed_observation list"
  rs_next_sequence :: u64
  rs_sealed :: bool

record candidate_observation =
  cand_observation :: observation
  cand_offset :: nat
  cand_end_offset :: nat
  cand_frame_bytes :: bytes

record recovery_accumulator =
  acc_committed :: "committed_observation list"
  acc_candidates :: "candidate_observation list"
  acc_invalid_offset :: "nat option"
  acc_last_commit_end :: nat
  acc_next_sequence :: u64
  acc_sealed :: bool

definition acc_default :: recovery_accumulator where
  "acc_default = \<lparr>acc_committed = [], acc_candidates = [], acc_invalid_offset = None,
     acc_last_commit_end = 0, acc_next_sequence = 0, acc_sealed = False\<rparr>"

text \<open>The check of neighbouring candidates: the offset of the first one out of sequence.\<close>

fun find_sequence_gap :: "candidate_observation list \<Rightarrow> nat option" where
  "find_sequence_gap (a # b # cs) =
     (if ob_collector_sequence (cand_observation b) \<noteq> ob_collector_sequence (cand_observation a) + 1
      then Some (cand_offset b) else find_sequence_gap (b # cs))"
| "find_sequence_gap _ = None"

definition validate_commit ::
  "wal_lib \<Rightarrow> source_session_id \<Rightarrow> wal_commit \<Rightarrow> candidate_observation list \<Rightarrow> nat \<Rightarrow> wal_error + unit" where
  "validate_commit W session c cands commit_offset =
     (if cands = [] then Inl (CorruptFrame commit_offset ''commit covers no observation frames'')
      else if wc_source_session_id c \<noteq> session_bytes session
      then Inl (CorruptFrame commit_offset ''commit source session mismatch'')
      else if wc_first_collector_sequence c \<noteq> ob_collector_sequence (cand_observation (hd cands)) \<or>
        wc_last_collector_sequence c \<noteq> ob_collector_sequence (cand_observation (last cands)) \<or>
        wc_first_wal_offset c \<noteq> of_nat (cand_offset (hd cands)) \<or>
        wc_last_wal_offset c \<noteq> of_nat (cand_end_offset (last cands) - 1)
      then Inl (CorruptFrame commit_offset ''commit range does not match preceding observations'')
      else case find_sequence_gap cands of
          Some off \<Rightarrow> Inl (CorruptFrame off ''collector sequence is not contiguous'')
        | None \<Rightarrow>
            if wc_commit_hash c \<noteq> be_bytes 32 (unat (calculate_commit_hash W session
                 (wc_first_collector_sequence c) (wc_last_collector_sequence c) (wc_first_wal_offset c)
                 (wc_last_wal_offset c) (wc_durable_at_unix_ns c) (map cand_frame_bytes cands)))
            then Inl (CorruptFrame commit_offset ''commit hash mismatch'')
            else Inr ())"

definition process_observation ::
  "wal_lib \<Rightarrow> raw_frame \<Rightarrow> recovery_accumulator \<Rightarrow> wal_error + recovery_accumulator" where
  "process_observation W fr acc =
     (if \<not> rf_crc_valid fr
      then Inr (acc\<lparr>acc_invalid_offset := (case acc_invalid_offset acc of None \<Rightarrow> Some (rf_offset fr) | Some x \<Rightarrow> Some x)\<rparr>)
      else case decode_observation W (rf_payload fr) of
          Inl reason \<Rightarrow> Inl (WalDecode (rf_offset fr) reason)
        | Inr ob \<Rightarrow> Inr (acc\<lparr>acc_candidates := acc_candidates acc @ [\<lparr>cand_observation = ob,
            cand_offset = rf_offset fr, cand_end_offset = rf_end_offset fr, cand_frame_bytes = rf_bytes fr\<rparr>]\<rparr>))"

definition process_commit ::
  "wal_lib \<Rightarrow> source_session_id \<Rightarrow> raw_frame \<Rightarrow> recovery_accumulator \<Rightarrow> wal_error + recovery_accumulator" where
  "process_commit W session fr acc =
     (if \<not> rf_crc_valid fr then Inl (CorruptFrame (rf_offset fr) ''group-commit CRC mismatch'')
      else case acc_invalid_offset acc of
          Some off \<Rightarrow> Inl (CommittedCorruption off)
        | None \<Rightarrow>
            (case decode_commit W (rf_payload fr) of
               Inl reason \<Rightarrow> Inl (WalDecode (rf_offset fr) reason)
             | Inr c \<Rightarrow>
                 and_then (validate_commit W session c (acc_candidates acc) (rf_offset fr)) (\<lambda>_.
                   if length (wc_commit_hash c) \<noteq> 32
                   then Inl (CorruptFrame (rf_offset fr) ''commit hash is not 32 bytes'')
                   else
                     let acc1 = acc\<lparr>acc_candidates := [], acc_committed := acc_committed acc @
                           map (\<lambda>cand. \<lparr>co_observation = Some (cand_observation cand),
                             co_durable_at_unix_ns = wc_durable_at_unix_ns c,
                             co_wal_commit_hash = wc_commit_hash c\<rparr>) (acc_candidates acc)\<rparr>
                     in case checked_add (wc_last_collector_sequence c) 1 of
                          None \<Rightarrow> Inl (CorruptFrame (rf_offset fr) ''collector sequence overflow'')
                        | Some n \<Rightarrow> Inr (acc1\<lparr>acc_next_sequence := n, acc_last_commit_end := rf_end_offset fr\<rparr>))))"

definition process_seal ::
  "wal_lib \<Rightarrow> bytes \<Rightarrow> raw_frame \<Rightarrow> recovery_accumulator \<Rightarrow> wal_error + recovery_accumulator" where
  "process_seal W file fr acc =
     (if \<not> rf_crc_valid fr then Inl (CorruptFrame (rf_offset fr) ''segment-seal CRC mismatch'')
      else if acc_candidates acc \<noteq> [] \<or> acc_invalid_offset acc \<noteq> None
      then Inl (CorruptFrame (rf_offset fr) ''segment sealed with uncommitted observations'')
      else and_then (hash_prefix W file (rf_offset fr)) (\<lambda>expected.
        if rf_payload fr \<noteq> be_bytes 32 (unat expected)
        then Inl (CorruptFrame (rf_offset fr) ''segment-seal hash mismatch'')
        else Inr (acc\<lparr>acc_sealed := True\<rparr>)))"

definition process_frame ::
  "wal_lib \<Rightarrow> bytes \<Rightarrow> source_session_id \<Rightarrow> raw_frame \<Rightarrow> recovery_accumulator \<Rightarrow> wal_error + recovery_accumulator" where
  "process_frame W file session fr acc =
     (if acc_sealed acc then Inl (CorruptFrame (rf_offset fr) ''frame found after segment seal'')
      else if rf_frame_type fr = OBSERVATION_FRAME then process_observation W fr acc
      else if rf_frame_type fr = GROUP_COMMIT_FRAME then process_commit W session fr acc
      else if rf_frame_type fr = SEGMENT_SEAL_FRAME then process_seal W file fr acc
      else Inl (CorruptFrame (rf_offset fr) (''unknown frame type 0x'' @
        [hex_digit (unat (rf_frame_type fr) div 16), hex_digit (unat (rf_frame_type fr) mod 16)])))"

fun process_frames ::
  "wal_lib \<Rightarrow> bytes \<Rightarrow> source_session_id \<Rightarrow> raw_frame list \<Rightarrow> recovery_accumulator \<Rightarrow> wal_error + recovery_accumulator" where
  "process_frames W file session [] acc = Inr acc"
| "process_frames W file session (fr # frs) acc =
     and_then (process_frame W file session fr acc) (process_frames W file session frs)"

definition finish_report ::
  "nat \<Rightarrow> nat option \<Rightarrow> nat \<Rightarrow> candidate_observation list \<Rightarrow> nat option \<Rightarrow> recovery_report" where
  "finish_report scanned_end truncated last_commit_end cands invalid =
     (case truncated of
        Some at_offset \<Rightarrow> \<lparr>rr_incidents = [TruncatedTail at_offset], rr_logical_end = last_commit_end\<rparr>
      | None \<Rightarrow>
          if cands \<noteq> [] \<or> invalid \<noteq> None
          then \<lparr>rr_incidents = [UncommittedTail
                  (case cands of [] \<Rightarrow> (case invalid of None \<Rightarrow> last_commit_end | Some x \<Rightarrow> x) | c # _ \<Rightarrow> cand_offset c)
                  (length cands)],
                rr_logical_end = last_commit_end\<rparr>
          else \<lparr>rr_incidents = [], rr_logical_end = scanned_end\<rparr>)"

definition recover :: "wal_lib \<Rightarrow> bytes \<Rightarrow> source_session_id \<Rightarrow> wal_error + recovery_state" where
  "recover W file session =
     and_then (scan W file) (\<lambda>sc.
     and_then (process_frames W file session (sc_frames sc) acc_default) (\<lambda>acc.
       Inr \<lparr>rs_report = finish_report (sc_scanned_end sc) (sc_truncated sc) (acc_last_commit_end acc)
              (acc_candidates acc) (acc_invalid_offset acc),
            rs_committed = acc_committed acc, rs_next_sequence = acc_next_sequence acc,
            rs_sealed = acc_sealed acc\<rparr>))"

section \<open>Facts on processing\<close>

lemma process_frames_append:
  "process_frames W file s (xs @ ys) acc = and_then (process_frames W file s xs acc) (process_frames W file s ys)"
proof (induction xs arbitrary: acc)
  case (Cons x xs)
  then show ?case by (cases "process_frame W file s x acc") simp_all
qed simp

text \<open>Only a seal reads the file, so what was processed before a seal does not depend on later bytes.\<close>

lemma process_frame_file:
  assumes "process_frame W file s fr acc = Inr acc'" "\<not> acc_sealed acc'"
  shows "process_frame W file' s fr acc = Inr acc' \<and> \<not> acc_sealed acc"
  using assms by (auto simp: process_frame_def process_seal_def rust_result split: if_splits)

lemma process_frames_file:
  assumes "process_frames W file s frs acc = Inr acc'" "\<not> acc_sealed acc'"
  shows "process_frames W file' s frs acc = Inr acc' \<and> \<not> acc_sealed acc"
  using assms
proof (induction frs arbitrary: acc)
  case (Cons fr frs)
  then obtain acc1 where 1: "process_frame W file s fr acc = Inr acc1" "process_frames W file s frs acc1 = Inr acc'"
    by (auto simp: rust_result)
  from Cons.IH [OF 1(2) Cons.prems(2)] show ?case
    using process_frame_file [OF 1(1), of file'] by simp
qed simp

lemma find_sequence_gap_snoc:
  "find_sequence_gap (cs @ [c]) = None \<longleftrightarrow> find_sequence_gap cs = None \<and>
     (cs \<noteq> [] \<longrightarrow> ob_collector_sequence (cand_observation c) =
        ob_collector_sequence (cand_observation (last cs)) + 1)"
  by (induction cs rule: find_sequence_gap.induct) auto

text \<open>The sequence expected after the previous commits plays no part in the check of a commit: a commit
  whose range starts anywhere is accepted, and the next sequence is reset to its end.\<close>

lemma process_commit_ignores_next_sequence:
  "process_commit W s fr (acc\<lparr>acc_next_sequence := q\<rparr>) = Inr acc' \<longleftrightarrow> process_commit W s fr acc = Inr acc'"
  by (auto simp: process_commit_def rust_result Let_def split: option.splits sum.splits if_splits)

end
