(* ===== verification/Wal_Writer.thy ===== *)
theory Wal_Writer
  imports Wal_Recovery
begin

text \<open>
  The file-backed write-ahead log of \<open>crates/wal/src/writer.rs\<close> and \<open>lib.rs\<close>: opening with recovery and
  quarantine, appends, group commits and seals on a preallocated segment. The file system is a finite
  map from paths to contents; the clock reading of a commit is an argument.
\<close>

section \<open>Data\<close>

record wal_config =
  cfg_source_session_id :: source_session_id
  cfg_max_bytes :: u64
  cfg_group_commit_interval_ns :: nat

record pending_frame =
  pf_observation :: observation
  pf_offset :: nat
  pf_end_offset :: nat
  pf_frame_bytes :: bytes

record pending_observation =
  po_observation :: observation
  po_wal_offset :: nat

record committed_range =
  cr_first_sequence :: u64
  cr_last_sequence :: u64
  cr_durable_at_unix_ns :: i64
  cr_commit_hash :: digest

record file_wal =
  fw_file :: bytes
  fw_config :: wal_config
  fw_logical_end :: nat
  fw_next_sequence :: u64
  fw_pending :: "pending_frame list"
  fw_sealed :: bool

abbreviation fw_session :: "file_wal \<Rightarrow> source_session_id" where
  "fw_session st \<equiv> cfg_source_session_id (fw_config st)"

abbreviation fw_max :: "file_wal \<Rightarrow> nat" where
  "fw_max st \<equiv> unat (cfg_max_bytes (fw_config st))"

section \<open>Files\<close>

definition set_len :: "nat \<Rightarrow> bytes \<Rightarrow> bytes" where
  "set_len n file = take n file @ replicate (n - length file) 0"

definition write_at :: "nat \<Rightarrow> bytes \<Rightarrow> bytes \<Rightarrow> bytes" where
  "write_at off bs file = set_len off file @ bs @ drop (off + length bs) file"

type_synonym file_system = "(string, bytes) fmap"

definition quarantine :: "string \<Rightarrow> file_system \<Rightarrow> wal_error + file_system" where
  "quarantine path fs =
     (let base = path @ ''.quarantine'';
          taken = (\<lambda>p. fmlookup fs p \<noteq> None);
          destination = (if taken base
            then find (\<lambda>p. \<not> taken p) (map (\<lambda>i. path @ ''.quarantine.'' @ dec_string i) [1..<10001])
            else Some base)
      in case destination of
           None \<Rightarrow> Inl (QuarantineFailed base)
         | Some d \<Rightarrow>
             (case fmlookup fs path of
                None \<Rightarrow> Inl (QuarantineFailed d)
              | Some file \<Rightarrow> Inr (fmupd d file (fmdrop path fs))))"

section \<open>Opening\<close>

definition wal_open ::
  "wal_lib \<Rightarrow> string \<Rightarrow> wal_config \<Rightarrow> file_system \<Rightarrow> (wal_error + file_wal \<times> recovery_report) \<times> file_system" where
  "wal_open W path cfg fs =
     (let max = unat (cfg_max_bytes cfg) in
      if max \<le> COMMIT_RESERVE_BYTES then (Inl (InvalidCapacity (cfg_max_bytes cfg)), fs)
      else
        let file = (case fmlookup fs path of None \<Rightarrow> set_len max [] | Some f \<Rightarrow> f)
        in if max < length file then (Inl (CapacityExhausted (length file) max), fs)
           else
             let fs1 = fmupd path file fs
             in case recover W file (cfg_source_session_id cfg) of
                  Inl e \<Rightarrow>
                    if requires_quarantine e
                    then (case quarantine path fs1 of Inl q \<Rightarrow> (Inl q, fs1) | Inr fs2 \<Rightarrow> (Inl e, fs2))
                    else (Inl e, fs1)
                | Inr rs \<Rightarrow>
                    let le = rr_logical_end (rs_report rs);
                        file1 = (if le < length file then set_len le file else file);
                        file2 = set_len max file1
                    in (Inr (\<lparr>fw_file = file2, fw_config = cfg, fw_logical_end = le,
                          fw_next_sequence = rs_next_sequence rs, fw_pending = [], fw_sealed = rs_sealed rs\<rparr>,
                          rs_report rs),
                        fmupd path file2 fs1))"

section \<open>Writing\<close>

definition remaining_capacity :: "file_wal \<Rightarrow> nat" where
  "remaining_capacity st = fw_max st - fw_logical_end st"

definition write_frame :: "bytes \<Rightarrow> file_wal \<Rightarrow> (wal_error + nat) \<times> file_wal" where
  "write_frame frame st =
     (if remaining_capacity st < length frame
      then (Inl (CapacityExhausted (length frame) (remaining_capacity st)), st)
      else (Inr (fw_logical_end st),
            st\<lparr>fw_file := write_at (fw_logical_end st) frame (fw_file st),
               fw_logical_end := fw_logical_end st + length frame\<rparr>))"

definition validate_session :: "source_session_id \<Rightarrow> observation \<Rightarrow> wal_error + unit" where
  "validate_session session ob =
     (if ob_source_session_id ob \<noteq> session_bytes session then Inl SourceSessionMismatch else Inr ())"

definition wal_append ::
  "wal_lib \<Rightarrow> observation \<Rightarrow> file_wal \<Rightarrow> (wal_error + pending_observation) \<times> file_wal" where
  "wal_append W ob st =
     (if fw_sealed st then (Inl Sealed, st)
      else case validate_session (fw_session st) ob of
          Inl e \<Rightarrow> (Inl e, st)
        | Inr _ \<Rightarrow>
            if ob_collector_sequence ob \<noteq> fw_next_sequence st
            then (Inl (SequenceMismatch (fw_next_sequence st) (ob_collector_sequence ob)), st)
            else case encode_frame W OBSERVATION_FRAME (encode_observation W ob) of
                Inl e \<Rightarrow> (Inl e, st)
              | Inr frame \<Rightarrow>
                  if remaining_capacity st < length frame + COMMIT_RESERVE_BYTES
                  then (Inl (CapacityExhausted (length frame + COMMIT_RESERVE_BYTES) (remaining_capacity st)), st)
                  else case write_frame frame st of
                      (Inl e, st1) \<Rightarrow> (Inl e, st1)
                    | (Inr offset, st1) \<Rightarrow>
                        let st2 = st1\<lparr>fw_pending := fw_pending st1 @ [\<lparr>pf_observation = ob, pf_offset = offset,
                              pf_end_offset = fw_logical_end st1, pf_frame_bytes = frame\<rparr>]\<rparr>
                        in case checked_add (fw_next_sequence st2) 1 of
                             None \<Rightarrow> (Inl (SequenceMismatch (- 1) (- 1)), st2)
                           | Some n \<Rightarrow> (Inr \<lparr>po_observation = ob, po_wal_offset = offset\<rparr>, st2\<lparr>fw_next_sequence := n\<rparr>))"

text \<open>The commit record over the pending observations.\<close>

definition commit_record :: "wal_lib \<Rightarrow> source_session_id \<Rightarrow> i64 \<Rightarrow> pending_frame list \<Rightarrow> wal_commit" where
  "commit_record W session durable_at pending =
     (let first = hd pending; last = last pending;
          first_seq = ob_collector_sequence (pf_observation first);
          last_seq = ob_collector_sequence (pf_observation last);
          first_off = of_nat (pf_offset first);
          last_off = of_nat (pf_end_offset last - 1)
      in \<lparr>wc_source_session_id = session_bytes session, wc_first_collector_sequence = first_seq,
          wc_last_collector_sequence = last_seq, wc_first_wal_offset = first_off, wc_last_wal_offset = last_off,
          wc_durable_at_unix_ns = durable_at,
          wc_commit_hash = be_bytes 32 (unat (calculate_commit_hash W session first_seq last_seq first_off last_off
            durable_at (map pf_frame_bytes pending)))\<rparr>)"

definition group_commit ::
  "wal_lib \<Rightarrow> i64 \<Rightarrow> file_wal \<Rightarrow> (wal_error + committed_range) \<times> file_wal" where
  "group_commit W durable_at st =
     (if fw_sealed st then (Inl Sealed, st)
      else if fw_pending st = [] then (Inl NoPendingObservations, st)
      else
        let c = commit_record W (fw_session st) durable_at (fw_pending st)
        in case encode_frame W GROUP_COMMIT_FRAME (encode_commit W c) of
             Inl e \<Rightarrow> (Inl e, st)
           | Inr frame \<Rightarrow>
               (case write_frame frame st of
                  (Inl e, st1) \<Rightarrow> (Inl e, st1)
                | (Inr _, st1) \<Rightarrow>
                    (Inr \<lparr>cr_first_sequence = wc_first_collector_sequence c,
                       cr_last_sequence = wc_last_collector_sequence c, cr_durable_at_unix_ns = durable_at,
                       cr_commit_hash = of_nat (be_val (wc_commit_hash c))\<rparr>,
                     st1\<lparr>fw_pending := []\<rparr>)))"

definition seal :: "wal_lib \<Rightarrow> file_wal \<Rightarrow> (wal_error + digest) \<times> file_wal" where
  "seal W st =
     (if fw_sealed st then (Inl Sealed, st)
      else if fw_pending st \<noteq> [] then (Inl PendingObservations, st)
      else case hash_prefix W (fw_file st) (fw_logical_end st) of
          Inl e \<Rightarrow> (Inl e, st)
        | Inr h \<Rightarrow>
            (case encode_frame W SEGMENT_SEAL_FRAME (be_bytes 32 (unat h)) of
               Inl e \<Rightarrow> (Inl e, st)
             | Inr frame \<Rightarrow>
                 (case write_frame frame st of
                    (Inl e, st1) \<Rightarrow> (Inl e, st1)
                  | (Inr _, st1) \<Rightarrow> (Inr h, st1\<lparr>fw_sealed := True\<rparr>))))"

definition wal_committed :: "wal_lib \<Rightarrow> file_wal \<Rightarrow> wal_error + committed_observation list" where
  "wal_committed W st = map_sum id rs_committed (recover W (fw_file st) (fw_session st))"

end
