(* ===== verification/Wal_Invariant.thy ===== *)
theory Wal_Invariant
  imports Wal_Writer
begin

text \<open>
  What the bytes of a segment mean. A segment is a base, whose frames recover without candidates,
  followed by the frames of the pending observations and by zeros. Appends extend the pending part,
  a group commit or a seal turns it into a longer base, and recovery returns what the base means.
\<close>

definition to_candidate :: "pending_frame \<Rightarrow> candidate_observation" where
  "to_candidate p = \<lparr>cand_observation = pf_observation p, cand_offset = pf_offset p,
     cand_end_offset = pf_end_offset p, cand_frame_bytes = pf_frame_bytes p\<rparr>"

definition pending_raw :: "wal_lib \<Rightarrow> pending_frame \<Rightarrow> raw_frame" where
  "pending_raw W p = frame_at OBSERVATION_FRAME (encode_observation W (pf_observation p)) (pf_frame_bytes p) (pf_offset p)"

abbreviation pending_bytes :: "pending_frame list \<Rightarrow> bytes" where
  "pending_bytes ps \<equiv> concat (map pf_frame_bytes ps)"

fun pending_ok :: "wal_lib \<Rightarrow> nat \<Rightarrow> u64 \<Rightarrow> pending_frame list \<Rightarrow> bool" where
  "pending_ok W off q [] \<longleftrightarrow> True"
| "pending_ok W off q (p # ps) \<longleftrightarrow>
     encode_frame W OBSERVATION_FRAME (encode_observation W (pf_observation p)) = Inr (pf_frame_bytes p) \<and>
     pf_offset p = off \<and> pf_end_offset p = off + length (pf_frame_bytes p) \<and>
     ob_collector_sequence (pf_observation p) = q \<and> q \<noteq> - 1 \<and>
     pending_ok W (off + length (pf_frame_bytes p)) (q + 1) ps"

definition base_ok :: "wal_lib \<Rightarrow> source_session_id \<Rightarrow> bytes \<Rightarrow> recovery_accumulator \<Rightarrow> bool" where
  "base_ok W s base acc \<longleftrightarrow>
     (\<exists>F. (\<forall>rest. scan_loop W (base @ rest) 0 [] = scan_loop W rest (length base) F) \<and>
        (\<forall>rest. process_frames W (base @ rest) s F acc_default = Inr acc)) \<and>
     acc_candidates acc = [] \<and> acc_invalid_offset acc = None \<and>
     (\<not> acc_sealed acc \<longrightarrow> acc_last_commit_end acc = length base)"

definition wal_inv :: "wal_lib \<Rightarrow> bytes \<Rightarrow> recovery_accumulator \<Rightarrow> file_wal \<Rightarrow> bool" where
  "wal_inv W base acc st \<longleftrightarrow>
     base_ok W (fw_session st) base acc \<and>
     (\<exists>k. fw_file st = base @ pending_bytes (fw_pending st) @ replicate k 0) \<and>
     length (fw_file st) = fw_max st \<and> COMMIT_RESERVE_BYTES < fw_max st \<and>
     fw_logical_end st = length base + length (pending_bytes (fw_pending st)) \<and>
     pending_ok W (length base) (acc_next_sequence acc) (fw_pending st) \<and>
     fw_next_sequence st = acc_next_sequence acc + of_nat (length (fw_pending st)) \<and>
     fw_sealed st = acc_sealed acc \<and> (fw_sealed st \<longrightarrow> fw_pending st = []) \<and>
     (fw_pending st \<noteq> [] \<longrightarrow> fw_logical_end st + COMMIT_RESERVE_BYTES \<le> fw_max st)"

section \<open>The pending part\<close>

lemma pending_ok_append:
  "pending_ok W off q (ps @ rs) \<longleftrightarrow> pending_ok W off q ps \<and>
     pending_ok W (off + length (pending_bytes ps)) (q + of_nat (length ps)) rs"
  by (induction ps arbitrary: off q) (auto simp: algebra_simps)

lemma scan_pending:
  "pending_ok W off q ps \<Longrightarrow>
   scan_loop W (pending_bytes ps @ rest) off fs =
     scan_loop W rest (off + length (pending_bytes ps)) (fs @ map (pending_raw W) ps)"
proof (induction ps arbitrary: off q fs)
  case (Cons p ps)
  have "scan_loop W (pf_frame_bytes p @ pending_bytes ps @ rest) off fs =
      scan_loop W (pending_bytes ps @ rest) (off + length (pf_frame_bytes p)) (fs @ [pending_raw W p])"
    using scan_loop_frame [of W OBSERVATION_FRAME "encode_observation W (pf_observation p)" "pf_frame_bytes p"] Cons.prems
    by (simp add: pending_raw_def OBSERVATION_FRAME_def)
  moreover have "pending_ok W (off + length (pf_frame_bytes p)) (q + 1) ps" using Cons.prems by simp
  ultimately show ?case using Cons.IH by (simp add: add.assoc)
qed simp

lemma process_pending:
  assumes "codec_roundtrip W"
  shows "pending_ok W off q ps \<Longrightarrow> \<not> acc_sealed acc \<Longrightarrow>
   process_frames W file s (map (pending_raw W) ps) acc =
     Inr (acc\<lparr>acc_candidates := acc_candidates acc @ map to_candidate ps\<rparr>)"
proof (induction ps arbitrary: off q acc)
  case (Cons p ps)
  have "process_frame W file s (pending_raw W p) acc =
      Inr (acc\<lparr>acc_candidates := acc_candidates acc @ [to_candidate p]\<rparr>)"
    using assms Cons.prems
    by (simp add: process_frame_def pending_raw_def frame_at_def process_observation_def codec_roundtrip_def
        to_candidate_def)
  then show ?case using Cons.prems Cons.IH [of "off + length (pf_frame_bytes p)" "q + 1"] by simp
qed simp

lemma pending_no_gap: "pending_ok W off q ps \<Longrightarrow> find_sequence_gap (map to_candidate ps) = None"
proof (induction "map to_candidate ps" arbitrary: ps off q rule: find_sequence_gap.induct)
  case (1 a b cs)
  then obtain p p' rs where ps: "ps = p # p' # rs" "a = to_candidate p" "b = to_candidate p'" "cs = map to_candidate rs"
    by (auto simp: Cons_eq_map_conv)
  have "ob_collector_sequence (pf_observation p') = ob_collector_sequence (pf_observation p) + 1"
    using 1(3) ps(1) by simp
  then have "ob_collector_sequence (cand_observation b) = ob_collector_sequence (cand_observation a) + 1"
    by (simp add: ps to_candidate_def)
  with 1(1) [of "p' # rs"] 1(3) ps show ?case by auto
qed (auto simp: Cons_eq_map_conv)

lemma pending_first: "pending_ok W off q ps \<Longrightarrow> ps \<noteq> [] \<Longrightarrow> pf_offset (hd ps) = off"
  by (cases ps) auto

lemma pending_last:
  assumes "pending_ok W off q ps" "ps \<noteq> []"
  shows "ob_collector_sequence (pf_observation (last ps)) + 1 = q + of_nat (length ps)"
    "ob_collector_sequence (pf_observation (last ps)) \<noteq> - 1"
  using assms by (cases ps rule: rev_cases; auto simp: pending_ok_append)+

section \<open>Longer bases\<close>

lemma base_ok_empty: "base_ok W s [] acc_default"
  unfolding base_ok_def by (auto simp: acc_default_def intro!: exI [of _ "[]"])

text \<open>What the scan and the processing of a base and its pending frames give, whatever follows.\<close>

lemma base_scan:
  assumes "codec_roundtrip W" "base_ok W s base acc" "pending_ok W (length base) q ps" "acc_sealed acc \<longrightarrow> ps = []"
  shows "\<exists>F. (\<forall>rest. scan_loop W (base @ pending_bytes ps @ rest) 0 [] =
       scan_loop W rest (length base + length (pending_bytes ps)) F) \<and>
     (\<forall>rest. process_frames W (base @ rest) s F acc_default = Inr (acc\<lparr>acc_candidates := map to_candidate ps\<rparr>))"
proof -
  obtain F where F: "\<And>rest. scan_loop W (base @ rest) 0 [] = scan_loop W rest (length base) F"
    "\<And>rest. process_frames W (base @ rest) s F acc_default = Inr acc" "acc_candidates acc = []"
    using assms(2) by (auto simp: base_ok_def)
  have "process_frames W (base @ rest) s (F @ map (pending_raw W) ps) acc_default =
      Inr (acc\<lparr>acc_candidates := map to_candidate ps\<rparr>)" for rest
    using process_pending [OF assms(1,3), of acc "base @ rest" s] assms(4) F(3)
    by (cases "acc_sealed acc") (simp_all add: process_frames_append F(2))
  then show ?thesis
    by (intro exI [of _ "F @ map (pending_raw W) ps"]) (simp add: F(1) scan_pending [OF assms(3)])
qed

text \<open>A frame after a base and its pending frames, processed, gives a longer base.\<close>

lemma base_ok_extend:
  assumes "codec_roundtrip W" "base_ok W s base acc" "\<not> acc_sealed acc"
    "pending_ok W (length base) q ps" "encode_frame W ty payload = Inr f" "ty \<noteq> 0"
    "\<And>rest. process_frame W (base @ pending_bytes ps @ f @ rest) s
       (frame_at ty payload f (length base + length (pending_bytes ps)))
       (acc\<lparr>acc_candidates := map to_candidate ps\<rparr>) = Inr acc'"
    "acc_candidates acc' = []" "acc_invalid_offset acc' = None"
    "\<not> acc_sealed acc' \<longrightarrow> acc_last_commit_end acc' = length (base @ pending_bytes ps @ f)"
  shows "base_ok W s (base @ pending_bytes ps @ f) acc'"
proof -
  obtain F where F: "\<And>rest. scan_loop W (base @ pending_bytes ps @ rest) 0 [] =
       scan_loop W rest (length base + length (pending_bytes ps)) F"
    "\<And>rest. process_frames W (base @ rest) s F acc_default = Inr (acc\<lparr>acc_candidates := map to_candidate ps\<rparr>)"
    using base_scan [OF assms(1,2,4)] assms(3) by blast
  let ?fr = "frame_at ty payload f (length base + length (pending_bytes ps))"
  have "scan_loop W ((base @ pending_bytes ps @ f) @ rest) 0 [] =
      scan_loop W rest (length (base @ pending_bytes ps @ f)) (F @ [?fr])" for rest
    using F(1) [of "f @ rest"] by (simp add: scan_loop_frame [OF assms(5,6)] add.assoc)
  moreover have "process_frames W ((base @ pending_bytes ps @ f) @ rest) s (F @ [?fr]) acc_default = Inr acc'" for rest
    using F(2) [of "pending_bytes ps @ f @ rest"] assms(7) [of rest] by (simp add: process_frames_append)
  ultimately show ?thesis
    unfolding base_ok_def using assms(8-10) by blast
qed

definition committed_by :: "i64 \<Rightarrow> bytes \<Rightarrow> pending_frame list \<Rightarrow> committed_observation list" where
  "committed_by durable_at h ps = map (\<lambda>p. \<lparr>co_observation = Some (pf_observation p),
     co_durable_at_unix_ns = durable_at, co_wal_commit_hash = h\<rparr>) ps"

lemma committed_by_map: "committed_by durable_at h ps = map (\<lambda>x. \<lparr>co_observation = Some x,
     co_durable_at_unix_ns = durable_at, co_wal_commit_hash = h\<rparr>) (map pf_observation ps)"
  by (simp add: committed_by_def)

lemma process_commit_pending:
  assumes "codec_roundtrip W" "acc_invalid_offset acc = None" "\<not> acc_sealed acc"
    "pending_ok W off (acc_next_sequence acc) ps" "ps \<noteq> []"
    "c = commit_record W s durable_at ps"
  shows "process_frame W file s (frame_at GROUP_COMMIT_FRAME (encode_commit W c) f foff)
      (acc\<lparr>acc_candidates := map to_candidate ps\<rparr>) =
    Inr (acc\<lparr>acc_candidates := [],
      acc_committed := acc_committed acc @ committed_by durable_at (wc_commit_hash c) ps,
      acc_next_sequence := acc_next_sequence acc + of_nat (length ps), acc_last_commit_end := foff + length f\<rparr>)"
proof -
  have cands: "hd (map to_candidate ps) = to_candidate (hd ps)" "last (map to_candidate ps) = to_candidate (last ps)"
    using assms(5) by (simp_all add: hd_map last_map)
  have bytes: "map cand_frame_bytes (map to_candidate ps) = map pf_frame_bytes ps"
    by (simp add: to_candidate_def comp_def)
  have "validate_commit W s c (map to_candidate ps) foff = Inr ()"
    unfolding validate_commit_def cands bytes
    using assms(5) pending_no_gap [OF assms(4)]
    by (simp add: assms(6) commit_record_def Let_def to_candidate_def)
  moreover have "length (wc_commit_hash c) = 32" by (simp add: assms(6) commit_record_def Let_def)
  moreover have "checked_add (wc_last_collector_sequence c) 1 = Some (acc_next_sequence acc + of_nat (length ps))"
    using pending_last [OF assms(4,5)] checked_succ [OF pending_last(2) [OF assms(4,5)]]
    by (simp add: assms(6) commit_record_def Let_def)
  moreover have "wc_durable_at_unix_ns c = durable_at" by (simp add: assms(6) commit_record_def Let_def)
  ultimately show ?thesis
    using assms(1-3)
    by (simp add: process_frame_def frame_at_def frame_consts process_commit_def codec_roundtrip_def committed_by_def
        to_candidate_def comp_def)
qed

lemma base_ok_commit:
  assumes "codec_roundtrip W" "base_ok W s base acc" "\<not> acc_sealed acc"
    "pending_ok W (length base) (acc_next_sequence acc) ps" "ps \<noteq> []" "c = commit_record W s durable_at ps"
    "encode_frame W GROUP_COMMIT_FRAME (encode_commit W c) = Inr f"
  shows "base_ok W s (base @ pending_bytes ps @ f) (acc\<lparr>acc_candidates := [],
      acc_committed := acc_committed acc @ committed_by durable_at (wc_commit_hash c) ps,
      acc_next_sequence := acc_next_sequence acc + of_nat (length ps),
      acc_last_commit_end := length base + length (pending_bytes ps) + length f\<rparr>)"
proof (rule base_ok_extend [OF assms(1-4,7)])
  have inv: "acc_invalid_offset acc = None" using assms(2) by (simp add: base_ok_def)
  show "process_frame W (base @ pending_bytes ps @ f @ rest) s
       (frame_at GROUP_COMMIT_FRAME (encode_commit W c) f (length base + length (pending_bytes ps)))
       (acc\<lparr>acc_candidates := map to_candidate ps\<rparr>) =
    Inr (acc\<lparr>acc_candidates := [],
      acc_committed := acc_committed acc @ committed_by durable_at (wc_commit_hash c) ps,
      acc_next_sequence := acc_next_sequence acc + of_nat (length ps),
      acc_last_commit_end := length base + length (pending_bytes ps) + length f\<rparr>)" for rest
    by (rule process_commit_pending [OF assms(1) inv assms(3-6)])
  show "acc_invalid_offset (acc\<lparr>acc_candidates := [],
      acc_committed := acc_committed acc @ committed_by durable_at (wc_commit_hash c) ps,
      acc_next_sequence := acc_next_sequence acc + of_nat (length ps),
      acc_last_commit_end := length base + length (pending_bytes ps) + length f\<rparr>) = None"
    using inv by simp
qed (simp_all add: GROUP_COMMIT_FRAME_def)

lemma base_ok_seal:
  assumes "codec_roundtrip W" "base_ok W s base acc" "\<not> acc_sealed acc"
    "encode_frame W SEGMENT_SEAL_FRAME (be_bytes 32 (unat (blake3 W base))) = Inr f"
  shows "base_ok W s (base @ f) (acc\<lparr>acc_sealed := True\<rparr>)"
proof -
  have acc: "acc_candidates acc = []" "acc_invalid_offset acc = None" using assms(2) by (auto simp: base_ok_def)
  have "base_ok W s (base @ pending_bytes [] @ f) (acc\<lparr>acc_sealed := True\<rparr>)"
  proof (rule base_ok_extend [OF assms(1-3) _ assms(4)])
    show "process_frame W (base @ pending_bytes [] @ f @ rest) s
       (frame_at SEGMENT_SEAL_FRAME (be_bytes 32 (unat (blake3 W base))) f (length base + length (pending_bytes [])))
       (acc\<lparr>acc_candidates := map to_candidate []\<rparr>) = Inr (acc\<lparr>acc_sealed := True\<rparr>)" for rest
      using assms(3) acc
      by (simp add: process_frame_def frame_at_def frame_consts process_seal_def hash_prefix_eq)
  qed (simp_all add: SEGMENT_SEAL_FRAME_def acc)
  then show ?thesis by simp
qed

section \<open>The operations keep the invariant\<close>

lemma write_at_zeros:
  assumes "length bs \<le> k"
  shows "write_at (length pre) bs (pre @ replicate k 0) = pre @ bs @ replicate (k - length bs) 0"
  using assms by (simp add: write_at_def set_len_def)

lemma wal_invD:
  assumes "wal_inv W base acc st"
  obtains k where "base_ok W (fw_session st) base acc"
    "fw_file st = (base @ pending_bytes (fw_pending st)) @ replicate k 0"
    "fw_logical_end st = length (base @ pending_bytes (fw_pending st))" "remaining_capacity st = k"
    "fw_max st = fw_logical_end st + k"
proof -
  obtain k where k: "fw_file st = base @ pending_bytes (fw_pending st) @ replicate k 0"
    using assms by (auto simp: wal_inv_def)
  with assms show thesis by (intro that [of k]) (auto simp: wal_inv_def remaining_capacity_def)
qed

text \<open>The state after a frame has been written at the end.\<close>

lemma write_frame_inv:
  assumes "wal_inv W base acc st" "length f \<le> remaining_capacity st"
  shows "\<exists>k. write_frame f st = (Inr (fw_logical_end st),
    st\<lparr>fw_file := base @ pending_bytes (fw_pending st) @ f @ replicate k 0,
       fw_logical_end := length base + length (pending_bytes (fw_pending st)) + length f\<rparr>) \<and>
    length base + length (pending_bytes (fw_pending st)) + length f + k = fw_max st"
proof -
  obtain k where k: "fw_file st = (base @ pending_bytes (fw_pending st)) @ replicate k 0"
    "fw_logical_end st = length (base @ pending_bytes (fw_pending st))" "remaining_capacity st = k"
    "fw_max st = fw_logical_end st + k" by (rule wal_invD [OF assms(1)])
  then have "write_at (fw_logical_end st) f (fw_file st) =
      (base @ pending_bytes (fw_pending st)) @ f @ replicate (k - length f) 0"
    using assms(2) write_at_zeros [of f k "base @ pending_bytes (fw_pending st)"] by simp
  then show ?thesis using assms(2) k by (intro exI [of _ "k - length f"]) (simp add: write_frame_def)
qed

lemma wal_append_error:
  assumes "wal_append W ob st = (Inl e, st')" "fw_next_sequence st \<noteq> - 1"
  shows "st' = st"
  using assms checked_succ [OF assms(2)]
  by (auto simp: wal_append_def write_frame_def Let_def split: sum.splits if_splits)

lemma wal_append_inv:
  assumes "wal_inv W base acc st" "wal_append W ob st = (Inr po, st')" "fw_next_sequence st \<noteq> - 1"
  shows "wal_inv W base acc st' \<and> map pf_observation (fw_pending st') = map pf_observation (fw_pending st) @ [ob] \<and>
    fw_next_sequence st' = fw_next_sequence st + 1 \<and> fw_config st' = fw_config st \<and> \<not> fw_sealed st \<and> \<not> fw_sealed st' \<and>
    ob_collector_sequence ob = fw_next_sequence st \<and> ob_source_session_id ob = session_bytes (fw_session st)"
proof -
  obtain f where f: "\<not> fw_sealed st" "validate_session (fw_session st) ob = Inr ()"
    "ob_collector_sequence ob = fw_next_sequence st"
    "encode_frame W OBSERVATION_FRAME (encode_observation W ob) = Inr f"
    "length f + COMMIT_RESERVE_BYTES \<le> remaining_capacity st"
    using assms(2) by (auto simp: wal_append_def not_less split: sum.splits if_splits)
  have room: "length f \<le> remaining_capacity st" using f(5) by simp
  obtain k where k: "write_frame f st = (Inr (fw_logical_end st),
    st\<lparr>fw_file := base @ pending_bytes (fw_pending st) @ f @ replicate k 0,
       fw_logical_end := length base + length (pending_bytes (fw_pending st)) + length f\<rparr>)"
    "length base + length (pending_bytes (fw_pending st)) + length f + k = fw_max st"
    using write_frame_inv [OF assms(1) room] by blast
  have st': "st' = st\<lparr>fw_file := base @ pending_bytes (fw_pending st) @ f @ replicate k 0,
       fw_logical_end := length base + length (pending_bytes (fw_pending st)) + length f,
       fw_pending := fw_pending st @ [\<lparr>pf_observation = ob, pf_offset = fw_logical_end st,
         pf_end_offset = length base + length (pending_bytes (fw_pending st)) + length f, pf_frame_bytes = f\<rparr>],
       fw_next_sequence := fw_next_sequence st + 1\<rparr>"
    using assms(2) f k(1) checked_succ [OF assms(3)] by (simp add: wal_append_def not_less split: if_splits)
  have "length base + length (pending_bytes (fw_pending st)) + length f + COMMIT_RESERVE_BYTES \<le> fw_max st"
    using f(5) by (rule_tac wal_invD [OF assms(1)]) simp
  then show ?thesis
    using assms(1,3) f k(2) unfolding st'
    by (auto simp: wal_inv_def pending_ok_append validate_session_def split: if_splits)
qed

lemma digest_roundtrip: "of_nat (be_val (be_bytes 32 (unat d))) = d" for d :: digest
proof -
  have "unat d < 256 ^ 32" using unsigned_less [of d] by simp
  then show ?thesis by (simp add: be_val_be_bytes)
qed

lemma commit_hash_bytes:
  "be_bytes 32 (unat (of_nat (be_val (wc_commit_hash (commit_record W s at ps))) :: digest)) =
   wc_commit_hash (commit_record W s at ps)"
  by (simp add: commit_record_def Let_def digest_roundtrip)

lemma group_commit_error: "group_commit W at st = (Inl e, st') \<Longrightarrow> st' = st"
  by (auto simp: group_commit_def write_frame_def Let_def split: sum.splits if_splits)

lemma group_commit_inv:
  assumes "codec_roundtrip W" "wal_inv W base acc st" "group_commit W at st = (Inr r, st')"
  shows "\<exists>base' acc'. wal_inv W base' acc' st' \<and> fw_pending st' = [] \<and> fw_config st' = fw_config st \<and>
    acc_committed acc' = acc_committed acc @ committed_by at (be_bytes 32 (unat (cr_commit_hash r))) (fw_pending st) \<and>
    fw_next_sequence st' = fw_next_sequence st \<and> \<not> fw_sealed st \<and> \<not> fw_sealed st'"
proof -
  let ?ps = "fw_pending st"
  let ?c = "commit_record W (fw_session st) at ?ps"
  obtain f where f: "\<not> fw_sealed st" "?ps \<noteq> []"
    "encode_frame W GROUP_COMMIT_FRAME (encode_commit W ?c) = Inr f" "length f \<le> remaining_capacity st"
    using assms(3) by (auto simp: group_commit_def Let_def write_frame_def not_less split: sum.splits if_splits)
  obtain k where k: "write_frame f st = (Inr (fw_logical_end st),
    st\<lparr>fw_file := base @ pending_bytes ?ps @ f @ replicate k 0,
       fw_logical_end := length base + length (pending_bytes ?ps) + length f\<rparr>)"
    "length base + length (pending_bytes ?ps) + length f + k = fw_max st"
    using write_frame_inv [OF assms(2) f(4)] by blast
  have st': "st' = st\<lparr>fw_file := base @ pending_bytes ?ps @ f @ replicate k 0,
       fw_logical_end := length base + length (pending_bytes ?ps) + length f, fw_pending := []\<rparr>"
    and r: "be_bytes 32 (unat (cr_commit_hash r)) = wc_commit_hash ?c"
    using assms(3) f k(1) commit_hash_bytes by (auto simp: group_commit_def Let_def)
  let ?acc = "acc\<lparr>acc_candidates := [], acc_committed := acc_committed acc @ committed_by at (wc_commit_hash ?c) ?ps,
      acc_next_sequence := acc_next_sequence acc + of_nat (length ?ps),
      acc_last_commit_end := length base + length (pending_bytes ?ps) + length f\<rparr>"
  have "base_ok W (fw_session st) (base @ pending_bytes ?ps @ f) ?acc"
    using assms(2) f by (intro base_ok_commit [OF assms(1)]) (auto simp: wal_inv_def)
  then have "wal_inv W (base @ pending_bytes ?ps @ f) ?acc st'"
    using assms(2) k(2) unfolding st' by (auto simp: wal_inv_def)
  then show ?thesis using f(1) r unfolding st' by (intro exI conjI) (assumption, simp_all)
qed

lemma seal_error: "seal W st = (Inl e, st') \<Longrightarrow> st' = st"
  by (auto simp: seal_def write_frame_def split: sum.splits if_splits)

lemma seal_inv:
  assumes "codec_roundtrip W" "wal_inv W base acc st" "seal W st = (Inr h, st')"
  shows "\<exists>base'. wal_inv W base' (acc\<lparr>acc_sealed := True\<rparr>) st' \<and> fw_pending st' = [] \<and> fw_pending st = [] \<and>
    fw_config st' = fw_config st \<and> fw_next_sequence st' = fw_next_sequence st \<and> fw_sealed st'"
proof -
  have ps: "\<not> fw_sealed st" "fw_pending st = []" using assms(3) by (auto simp: seal_def split: if_splits)
  obtain k where k: "fw_file st = base @ replicate k 0" "fw_logical_end st = length base"
    by (rule wal_invD [OF assms(2)]) (simp add: ps)
  then have h: "hash_prefix W (fw_file st) (fw_logical_end st) = Inr (blake3 W base)"
    by (simp add: hash_prefix_eq)
  obtain f where f: "encode_frame W SEGMENT_SEAL_FRAME (be_bytes 32 (unat (blake3 W base))) = Inr f"
    "length f \<le> remaining_capacity st"
    using assms(3) ps h by (auto simp: seal_def write_frame_def not_less split: sum.splits if_splits)
  obtain k' where k': "write_frame f st = (Inr (fw_logical_end st),
    st\<lparr>fw_file := base @ f @ replicate k' 0, fw_logical_end := length base + length f\<rparr>)"
    "length base + length f + k' = fw_max st"
    using write_frame_inv [OF assms(2) f(2)] by (auto simp: ps)
  have st': "st' = st\<lparr>fw_file := base @ f @ replicate k' 0, fw_logical_end := length base + length f, fw_sealed := True\<rparr>"
    using assms(3) ps h f k'(1) by (simp add: seal_def)
  have "base_ok W (fw_session st) (base @ f) (acc\<lparr>acc_sealed := True\<rparr>)"
    using assms(2) ps f by (intro base_ok_seal [OF assms(1)]) (auto simp: wal_inv_def)
  then have "wal_inv W (base @ f) (acc\<lparr>acc_sealed := True\<rparr>) st'"
    using assms(2) k'(2) ps unfolding st' by (auto simp: wal_inv_def)
  then show ?thesis using ps unfolding st' by (intro exI conjI) (assumption, simp_all)
qed

section \<open>Recovery and opening\<close>

definition tail_report :: "bytes \<Rightarrow> pending_frame list \<Rightarrow> recovery_report" where
  "tail_report base ps = \<lparr>rr_incidents = (if ps = [] then [] else [UncommittedTail (length base) (length ps)]),
     rr_logical_end = length base\<rparr>"

lemma finish_tail:
  assumes "pending_ok W (length base) q ps" "\<not> acc_sealed acc \<longrightarrow> acc_last_commit_end acc = length base"
    "acc_sealed acc \<longrightarrow> ps = []"
  shows "finish_report (length base + length (pending_bytes ps)) None (acc_last_commit_end acc) (map to_candidate ps) None =
    tail_report base ps"
proof -
  have "cand_offset (to_candidate (hd ps)) = length base" if "ps \<noteq> []"
    using pending_first [OF assms(1) that] by (simp add: to_candidate_def)
  then show ?thesis using assms(2,3) by (cases ps) (auto simp: finish_report_def tail_report_def)
qed

lemma recover_whole_frames:
  assumes "codec_roundtrip W" "base_ok W s base acc" "pending_ok W (length base) q ps" "acc_sealed acc \<longrightarrow> ps = []"
  shows "recover W (base @ pending_bytes ps @ replicate k 0) s = Inr \<lparr>rs_report = tail_report base ps,
    rs_committed = acc_committed acc, rs_next_sequence = acc_next_sequence acc, rs_sealed = acc_sealed acc\<rparr>"
proof -
  have acc: "acc_invalid_offset acc = None" "\<not> acc_sealed acc \<longrightarrow> acc_last_commit_end acc = length base"
    using assms(2) by (auto simp: base_ok_def)
  obtain F where F: "\<And>rest. scan_loop W (base @ pending_bytes ps @ rest) 0 [] =
       scan_loop W rest (length base + length (pending_bytes ps)) F"
    "\<And>rest. process_frames W (base @ rest) s F acc_default = Inr (acc\<lparr>acc_candidates := map to_candidate ps\<rparr>)"
    using base_scan [OF assms] by blast
  have "scan W (base @ pending_bytes ps @ replicate k 0) = Inr \<lparr>sc_frames = F, sc_truncated = None,
      sc_scanned_end = length base + length (pending_bytes ps)\<rparr>"
    unfolding scan_def F(1) scan_loop_zeros by simp
  then show ?thesis
    using finish_tail [OF assms(3) acc(2) assms(4)] by (simp add: recover_def F(2) acc(1))
qed

lemma recover_inv:
  assumes "codec_roundtrip W" "wal_inv W base acc st"
  shows "recover W (fw_file st) (fw_session st) = Inr \<lparr>rs_report = tail_report base (fw_pending st),
    rs_committed = acc_committed acc, rs_next_sequence = acc_next_sequence acc, rs_sealed = acc_sealed acc\<rparr>"
proof -
  obtain k where k: "fw_file st = base @ pending_bytes (fw_pending st) @ replicate k 0"
    using assms(2) by (auto simp: wal_inv_def)
  show ?thesis unfolding k
    using assms(2) by (intro recover_whole_frames [OF assms(1)]) (auto simp: wal_inv_def)
qed

text \<open>Opening a file that starts with the base and recovers to it returns a log without pending
  observations over the same base.\<close>

lemma wal_open_base:
  assumes "wal_inv W base acc st" "fmlookup fs path = Some (base @ tail)" "length (base @ tail) = fw_max st"
    "recover W (base @ tail) (fw_session st) = Inr \<lparr>rs_report = rep, rs_committed = acc_committed acc,
       rs_next_sequence = acc_next_sequence acc, rs_sealed = acc_sealed acc\<rparr>" "rr_logical_end rep = length base"
  shows "\<exists>st' fs'. wal_open W path (fw_config st) fs = (Inr (st', rep), fs') \<and>
    wal_inv W base acc st' \<and> fw_pending st' = [] \<and> fw_config st' = fw_config st \<and>
    fw_next_sequence st' = acc_next_sequence acc \<and> fw_sealed st' = acc_sealed acc \<and>
    fmlookup fs' path = Some (fw_file st')"
proof -
  have len: "length base \<le> fw_max st" "COMMIT_RESERVE_BYTES < fw_max st"
    using assms(1,3) by (auto simp: wal_inv_def)
  let ?file = "base @ replicate (fw_max st - length base) 0"
  let ?st = "\<lparr>fw_file = ?file, fw_config = fw_config st, fw_logical_end = length base,
    fw_next_sequence = acc_next_sequence acc, fw_pending = [], fw_sealed = acc_sealed acc\<rparr>"
  have contents: "set_len (fw_max st) (if rr_logical_end rep < length (base @ tail)
      then set_len (rr_logical_end rep) (base @ tail) else base @ tail) = ?file"
    using assms(3,5) by (cases tail) (auto simp: set_len_def)
  have "wal_open W path (fw_config st) fs = (Inr (?st, rep), fmupd path ?file (fmupd path (base @ tail) fs))"
    unfolding wal_open_def Let_def assms(2) option.case assms(4) recovery_state.simps sum.case contents
    using assms(3,5) len(2) by simp
  moreover have "wal_inv W base acc ?st" using assms(1) len by (auto simp: wal_inv_def)
  ultimately show ?thesis by simp
qed

lemma wal_open_new:
  assumes "fmlookup fs path = None" "wal_open W path cfg fs = (Inr (st, rep), fs')"
  shows "wal_inv W [] acc_default st \<and> fw_pending st = [] \<and> fw_next_sequence st = 0 \<and> \<not> fw_sealed st \<and> fw_config st = cfg"
proof -
  let ?max = "unat (cfg_max_bytes cfg)"
  have max: "COMMIT_RESERVE_BYTES < ?max" using assms by (auto simp: wal_open_def Let_def split: if_splits)
  have "scan W (replicate ?max 0) = Inr \<lparr>sc_frames = [], sc_truncated = None, sc_scanned_end = 0\<rparr>"
    by (simp add: scan_def scan_loop_zeros)
  then have "recover W (replicate ?max 0) (cfg_source_session_id cfg) =
      Inr \<lparr>rs_report = \<lparr>rr_incidents = [], rr_logical_end = 0\<rparr>, rs_committed = [], rs_next_sequence = 0, rs_sealed = False\<rparr>"
    by (simp add: recover_def acc_default_def finish_report_def)
  then have "st = \<lparr>fw_file = replicate ?max 0, fw_config = cfg, fw_logical_end = 0, fw_next_sequence = 0,
      fw_pending = [], fw_sealed = False\<rparr>"
    using assms max by (auto simp: wal_open_def Let_def set_len_def split: if_splits)
  then show ?thesis
    using max base_ok_empty by (auto simp: wal_inv_def acc_default_def)
qed

end
