(* ===== verification/Wal_Crash.thy ===== *)
theory Wal_Crash
  imports Wal_Invariant
begin

text \<open>
  What a crash leaves behind. Only a group commit and a seal synchronise the file, so after a crash the
  bytes of the pending observations are cut at an arbitrary place, and the rest of the preallocated
  segment reads as zeros. The scanner stops at the cut frame, and its checksum tells it from a
  complete one.
\<close>

section \<open>A cut frame\<close>

definition torn :: "nat \<Rightarrow> bytes \<Rightarrow> bytes" where
  "torn m f = take m f @ replicate (length f - m) 0"

text \<open>What the code relies on of the checksum: it differs on a frame that has been cut.\<close>

definition torn_detected :: "wal_lib \<Rightarrow> bytes \<Rightarrow> bool" where
  "torn_detected W f \<longleftrightarrow> (\<forall>m < length f. let z = torn m f; n = be_val (take 4 (drop 1 z)) in
     z \<noteq> f \<longrightarrow> crc32c W (take (FRAME_HEADER_BYTES + n) z) \<noteq> of_nat (be_val (take 4 (drop (FRAME_HEADER_BYTES + n) z))))"

lemma length_torn [simp]: "length (torn m f) = length f"
  by (auto simp: torn_def min_def)

lemma le_val_zeros: "le_val (replicate j 0 @ drop j bs) \<le> le_val bs" if "j \<le> length bs"
  using that
proof (induction j arbitrary: bs)
  case (Suc j)
  then obtain b cs where bs: "bs = b # cs" "j \<le> length cs" by (cases bs) auto
  with Suc.IH [of cs] show ?case by simp
qed simp

lemma be_val_torn: "be_val (torn m bs) \<le> be_val bs"
proof (cases "m \<le> length bs")
  case True
  have "rev (torn m bs) = replicate (length bs - m) 0 @ drop (length bs - m) (rev bs)"
    by (simp add: torn_def rev_take)
  then show ?thesis using le_val_zeros [of "length bs - m" "rev bs"] by (simp add: be_val_def)
qed (simp add: torn_def)

lemma torn_Cons: "0 < m \<Longrightarrow> torn m (x # xs) = x # torn (m - 1) xs"
  by (cases m) (simp_all add: torn_def)

lemma torn_append: "torn m (xs @ ys) = torn m xs @ torn (m - length xs) ys"
  by (cases "m \<le> length xs") (simp_all add: torn_def replicate_add [symmetric] add.commute)

lemma torn_all: "length xs \<le> m \<Longrightarrow> torn m xs = xs"
  by (simp add: torn_def)

lemma drop_torn_zeros:
  "m \<le> n \<Longrightarrow> drop n (torn m f @ replicate k 0) = replicate (length f - n + (k - (n - length f))) 0"
  by (cases "n \<le> length f") (auto simp: torn_def replicate_add [symmetric] min_def)

text \<open>The length field of a cut frame is at most the length of its payload, and the cut lies in the frame
  that the field describes.\<close>

lemma torn_length_field:
  assumes "encode_frame W ty p = Inr f" "m < length f"
  shows "be_val (take 4 (drop 1 (torn m f))) \<le> length p \<and> m \<le> 8 + be_val (take 4 (drop 1 (torn m f)))"
proof -
  let ?l = "be_bytes 4 (length p)"
  obtain crc where f: "f = ty # ?l @ p @ crc" and len: "length p \<le> MAX_FRAME_PAYLOAD_BYTES"
    using assms(1) by (auto simp: encode_frame_def Let_def split: if_splits)
  have lp: "be_val ?l = length p" using len by (intro be_val_be_bytes) (simp add: frame_sizes)
  have "drop 1 (torn m f) = torn (m - 1) (?l @ p @ crc)" by (cases m) (simp_all add: f torn_def)
  then have z: "take 4 (drop 1 (torn m f)) = torn (m - 1) ?l" by (simp add: torn_append)
  have "m \<le> 8 + be_val (torn (m - 1) ?l)"
  proof (cases "5 \<le> m")
    case True
    then show ?thesis using assms(2) encode_frame_length [OF assms(1)] by (simp add: torn_all lp)
  qed simp
  then show ?thesis using be_val_torn [of "m - 1" ?l] lp z by simp
qed

text \<open>The scanner reads a cut frame as one frame with a wrong checksum and stops after it.\<close>

lemma scan_torn:
  assumes "encode_frame W ty p = Inr f" "ty \<noteq> 0" "0 < m" "m < length f" "torn m f \<noteq> f" "torn_detected W f"
  shows "\<exists>fr. rf_frame_type fr = ty \<and> rf_offset fr = off \<and> \<not> rf_crc_valid fr \<and>
    scan_loop W (torn m f @ replicate k 0) off fs =
      Inr \<lparr>sc_frames = fs @ [fr], sc_truncated = None, sc_scanned_end = rf_end_offset fr\<rparr>"
proof -
  let ?z = "torn m f"
  obtain rest where f: "f = ty # rest" and len: "length p \<le> MAX_FRAME_PAYLOAD_BYTES"
    using assms(1) by (auto simp: encode_frame_def Let_def split: if_splits)
  have lf: "length f = length p + 9" using encode_frame_length [OF assms(1)] .
  define n where "n = be_val (take 4 (drop 1 ?z))"
  have n: "n \<le> length p" "m \<le> 5 + n + 4" using torn_length_field [OF assms(1,4)] by (auto simp: n_def)
  have crc: "crc32c W (take (5 + n) ?z) \<noteq> of_nat (be_val (take 4 (drop (5 + n) ?z)))"
    using assms(4-6) unfolding torn_detected_def n_def by (auto simp: Let_def FRAME_HEADER_BYTES_def)
  have app: "take (5 + n) (?z @ replicate k 0) = take (5 + n) ?z"
    "take 4 (drop (5 + n) (?z @ replicate k 0)) = take 4 (drop (5 + n) ?z)"
    "take 4 (drop 1 (?z @ replicate k 0)) = take 4 (drop 1 ?z)"
    using n(1) lf by simp_all
  have hd: "?z \<noteq> []" "hd (?z @ replicate k 0) = ty" using assms(3) by (simp_all add: f torn_Cons)
  show ?thesis
    apply (subst scan_loop.simps)
    unfolding FRAME_HEADER_BYTES_def FRAME_CRC_BYTES_def Let_def app n_def [symmetric] drop_torn_zeros [OF n(2)] scan_loop_zeros
    using assms(2) hd len n(1) lf crc by auto
qed

section \<open>A cut run of pending frames\<close>

text \<open>A cut run of pending frames is a run of complete ones, followed at most by one cut frame.\<close>

definition cut_of :: "pending_frame list \<Rightarrow> bytes \<Rightarrow> bool" where
  "cut_of ps z \<longleftrightarrow> z = [] \<or> (\<exists>p m. p \<in> set ps \<and> 0 < m \<and> m < length (pf_frame_bytes p) \<and>
     z = torn m (pf_frame_bytes p) \<and> z \<noteq> pf_frame_bytes p)"

lemma torn_pending:
  "\<exists>ps1 z k'. torn n (pending_bytes ps) @ replicate k 0 = pending_bytes ps1 @ z @ replicate k' 0 \<and>
     (\<exists>ps2. ps = ps1 @ ps2) \<and>
     cut_of ps z"
proof (induction ps arbitrary: n)
  case Nil
  show ?case by (intro exI [of _ "[]"] exI [of _ k]) (simp add: torn_def cut_of_def)
next
  case (Cons p ps)
  let ?f = "pf_frame_bytes p"
  have zeros: "torn 0 xs = replicate (length xs) 0" for xs by (simp add: torn_def)
  show ?case
  proof (cases "torn n ?f = ?f")
    case True
    obtain ps1 z k' where ih: "torn (n - length ?f) (pending_bytes ps) @ replicate k 0 = pending_bytes ps1 @ z @ replicate k' 0"
      "\<exists>ps2. ps = ps1 @ ps2"
      "cut_of ps z"
      using Cons.IH [of "n - length ?f"] by blast
    have "torn n (pending_bytes (p # ps)) @ replicate k 0 = pending_bytes (p # ps1) @ z @ replicate k' 0"
      using ih(1) True by (simp add: torn_append)
    moreover have "\<exists>ps2. p # ps = (p # ps1) @ ps2" using ih(2) by auto
    moreover have "cut_of (p # ps) z" using ih(3) by (auto simp: cut_of_def)
    ultimately show ?thesis by blast
  next
    case False
    then have n: "n < length ?f" by (metis not_le torn_all)
    define z where "z = (if n = 0 then [] else torn n ?f)"
    have "torn n (pending_bytes (p # ps)) @ replicate k 0 = pending_bytes [] @ z @
        replicate ((if n = 0 then length ?f else 0) + length (pending_bytes ps) + k) 0"
      using n by (simp add: z_def torn_append zeros replicate_add)
    moreover have "\<exists>ps2. p # ps = [] @ ps2" by simp
    moreover have "cut_of (p # ps) z" using n False by (auto simp: z_def cut_of_def)
    ultimately show ?thesis by blast
  qed
qed

section \<open>Recovery after a crash\<close>

text \<open>The file after a crash that lost everything from byte \<open>n\<close> on.\<close>

definition crash_image :: "nat \<Rightarrow> file_wal \<Rightarrow> bytes" where
  "crash_image n st = take n (fw_file st) @ replicate (length (fw_file st) - n) 0"

text \<open>The end of the last synchronised write.\<close>

definition durable_end :: "file_wal \<Rightarrow> nat" where
  "durable_end st = fw_logical_end st - length (pending_bytes (fw_pending st))"

lemma pending_ok_frame:
  "pending_ok W off q ps \<Longrightarrow> p \<in> set ps \<Longrightarrow>
   encode_frame W OBSERVATION_FRAME (encode_observation W (pf_observation p)) = Inr (pf_frame_bytes p)"
  by (induction ps arbitrary: off q) auto

lemma crash_image_split:
  assumes "wal_inv W base acc st" "durable_end st \<le> n"
  shows "\<exists>k. crash_image n st = base @ torn (n - length base) (pending_bytes (fw_pending st)) @ replicate k 0"
proof -
  let ?bs = "pending_bytes (fw_pending st)"
  obtain k where k: "fw_file st = (base @ ?bs) @ replicate k 0" "fw_logical_end st = length (base @ ?bs)"
    by (rule wal_invD [OF assms(1)])
  have "crash_image n st = torn n (base @ ?bs @ replicate k 0)" by (simp add: crash_image_def k(1) torn_def)
  also have "\<dots> = torn n base @ torn (n - length base) ?bs @ torn (n - length base - length ?bs) (replicate k 0)"
    by (simp add: torn_append)
  also have "torn n base = base" using assms(2) k(2) by (simp add: torn_all durable_end_def)
  also have "torn (n - length base - length ?bs) (replicate k (0 :: u8)) = replicate k 0"
    by (simp add: torn_def replicate_add [symmetric] min_def)
  finally show ?thesis by blast
qed

text \<open>One cut frame after complete pending frames.\<close>

lemma recover_cut_frame:
  assumes "codec_roundtrip W" "base_ok W s base acc" "pending_ok W (length base) q ps" "\<not> acc_sealed acc"
    "encode_frame W OBSERVATION_FRAME (encode_observation W x) = Inr f"
    "0 < m" "m < length f" "torn m f \<noteq> f" "torn_detected W f"
  shows "recover W (base @ pending_bytes ps @ torn m f @ replicate k 0) s = Inr \<lparr>rs_report =
      \<lparr>rr_incidents = [UncommittedTail (length base) (length ps)], rr_logical_end = length base\<rparr>,
    rs_committed = acc_committed acc, rs_next_sequence = acc_next_sequence acc, rs_sealed = acc_sealed acc\<rparr>"
proof -
  have acc: "acc_invalid_offset acc = None" "acc_last_commit_end acc = length base"
    using assms(2,4) by (auto simp: base_ok_def)
  obtain F where F: "\<And>rest. scan_loop W (base @ pending_bytes ps @ rest) 0 [] =
       scan_loop W rest (length base + length (pending_bytes ps)) F"
    "\<And>rest. process_frames W (base @ rest) s F acc_default = Inr (acc\<lparr>acc_candidates := map to_candidate ps\<rparr>)"
    using base_scan [OF assms(1-3)] assms(4) by blast
  obtain fr where fr: "rf_frame_type fr = OBSERVATION_FRAME" "rf_offset fr = length base + length (pending_bytes ps)"
    "\<not> rf_crc_valid fr" "scan W (base @ pending_bytes ps @ torn m f @ replicate k 0) =
      Inr \<lparr>sc_frames = F @ [fr], sc_truncated = None, sc_scanned_end = rf_end_offset fr\<rparr>"
    unfolding scan_def F(1) using scan_torn [OF assms(5) _ assms(6-9)] by (fastforce simp: OBSERVATION_FRAME_def)
  have "cand_offset (to_candidate (hd ps)) = length base" if "ps \<noteq> []"
    using pending_first [OF assms(3) that] by (simp add: to_candidate_def)
  then have "finish_report (rf_end_offset fr) None (length base) (map to_candidate ps)
      (Some (length base + length (pending_bytes ps))) =
      \<lparr>rr_incidents = [UncommittedTail (length base) (length ps)], rr_logical_end = length base\<rparr>"
    by (cases ps) (auto simp: finish_report_def)
  then show ?thesis
    using assms(4) fr(1-3) unfolding recover_def fr(4)
    by (simp add: process_frames_append F(2) process_frame_def process_observation_def acc)
qed

lemma recover_crash:
  assumes "codec_roundtrip W" "wal_inv W base acc st" "durable_end st \<le> n"
    "\<forall>p \<in> set (fw_pending st). torn_detected W (pf_frame_bytes p)"
  shows "\<exists>rep tail j. crash_image n st = base @ tail \<and> rr_logical_end rep = length base \<and>
    rr_incidents rep \<in> {[], [UncommittedTail (length base) j]} \<and> j \<le> length (fw_pending st) \<and>
    recover W (base @ tail) (fw_session st) = Inr \<lparr>rs_report = rep, rs_committed = acc_committed acc,
      rs_next_sequence = acc_next_sequence acc, rs_sealed = acc_sealed acc\<rparr>"
proof -
  let ?ps = "fw_pending st"
  obtain k where "crash_image n st = base @ torn (n - length base) (pending_bytes ?ps) @ replicate k 0"
    using crash_image_split [OF assms(2,3)] by blast
  moreover obtain ps1 z k' where t: "torn (n - length base) (pending_bytes ?ps) @ replicate k 0 =
      pending_bytes ps1 @ z @ replicate k' 0" "\<exists>ps2. ?ps = ps1 @ ps2" "cut_of ?ps z" using torn_pending by blast
  ultimately have image: "crash_image n st = base @ pending_bytes ps1 @ z @ replicate k' 0" by simp
  have base: "base_ok W (fw_session st) base acc" and acc: "acc_invalid_offset acc = None"
      "\<not> acc_sealed acc \<longrightarrow> acc_last_commit_end acc = length base"
    and ok: "pending_ok W (length base) (acc_next_sequence acc) ?ps" "acc_sealed acc \<longrightarrow> ?ps = []"
    using assms(2) by (auto simp: wal_inv_def base_ok_def)
  have ok1: "pending_ok W (length base) (acc_next_sequence acc) ps1" "acc_sealed acc \<longrightarrow> ps1 = []" "length ps1 \<le> length ?ps"
    using ok t(2) by (auto simp: pending_ok_append)
  show ?thesis
  proof (cases "z = []")
    case True
    then show ?thesis unfolding image using ok1(3) recover_whole_frames [OF assms(1) base ok1(1,2), of k']
      by (intro exI [of _ "tail_report base ps1"] exI [of _ "length ps1"] exI conjI) (auto simp: tail_report_def)
  next
    case False
    then obtain p m where z: "p \<in> set ?ps" "0 < m" "m < length (pf_frame_bytes p)" "z = torn m (pf_frame_bytes p)"
      "torn m (pf_frame_bytes p) \<noteq> pf_frame_bytes p" using t(3) by (auto simp: cut_of_def)
    have unsealed: "\<not> acc_sealed acc" using ok(2) z(1) by auto
    have "torn_detected W (pf_frame_bytes p)" using assms(4) z(1) by blast
    note rec = recover_cut_frame [OF assms(1) base ok1(1) unsealed pending_ok_frame [OF ok(1) z(1)] z(2,3,5) this, of k']
    then show ?thesis unfolding image z(4) using ok1(3)
      by (intro exI [of _ "\<lparr>rr_incidents = [UncommittedTail (length base) (length ps1)], rr_logical_end = length base\<rparr>"]
          exI [of _ "length ps1"] exI conjI) auto
  qed
qed

text \<open>A cut group commit is not a tail to discard: its wrong checksum fails the recovery.\<close>

lemma recover_torn_commit:
  assumes "codec_roundtrip W" "base_ok W s base acc" "pending_ok W (length base) q ps" "\<not> acc_sealed acc"
    "encode_frame W GROUP_COMMIT_FRAME payload = Inr f" "0 < m" "m < length f" "torn m f \<noteq> f" "torn_detected W f"
  shows "recover W (base @ pending_bytes ps @ torn m f @ replicate k 0) s =
    Inl (CorruptFrame (length base + length (pending_bytes ps)) ''group-commit CRC mismatch'')"
proof -
  obtain F where F: "\<And>rest. scan_loop W (base @ pending_bytes ps @ rest) 0 [] =
       scan_loop W rest (length base + length (pending_bytes ps)) F"
    "\<And>rest. process_frames W (base @ rest) s F acc_default = Inr (acc\<lparr>acc_candidates := map to_candidate ps\<rparr>)"
    using base_scan [OF assms(1-3)] assms(4) by blast
  obtain fr where fr: "rf_frame_type fr = GROUP_COMMIT_FRAME" "rf_offset fr = length base + length (pending_bytes ps)"
    "\<not> rf_crc_valid fr" "scan W (base @ pending_bytes ps @ torn m f @ replicate k 0) =
      Inr \<lparr>sc_frames = F @ [fr], sc_truncated = None, sc_scanned_end = rf_end_offset fr\<rparr>"
    unfolding scan_def F(1) using scan_torn [OF assms(5) _ assms(6-9)] by (fastforce simp: GROUP_COMMIT_FRAME_def)
  show ?thesis
    using assms(4) fr(1-3) unfolding recover_def fr(4)
    by (simp add: process_frames_append F(2) process_frame_def process_commit_def frame_consts)
qed

end
