(* ===== verification/Wal_Samples.thy ===== *)
theory Wal_Samples
  imports Wal_Crash "HOL-Library.List_Lexorder" "HOL-Library.Char_ord"
begin

text \<open>
  A concrete instance of the parameters of the write-ahead log, at which its theorems are applied: a
  codec that writes an observation or a commit as a list of numbers and the numbers in unary, with the
  round trip that the log relies on.
\<close>

section \<open>Codecs on lists of numbers\<close>

definition codec :: "('a \<Rightarrow> nat list) \<Rightarrow> (nat list \<Rightarrow> 'a \<times> nat list) \<Rightarrow> bool" where
  "codec put get \<longleftrightarrow> (\<forall>x rest. get (put x @ rest) = (x, rest))"

definition put_word :: "'w::len word \<Rightarrow> nat list" where "put_word w = [unat w]"
definition get_word :: "nat list \<Rightarrow> 'w::len word \<times> nat list" where "get_word ts = (of_nat (hd ts), tl ts)"

definition put_char :: "char \<Rightarrow> nat list" where "put_char c = [of_char c]"
definition get_char :: "nat list \<Rightarrow> char \<times> nat list" where "get_char ts = (char_of (hd ts), tl ts)"

fun put_pair :: "('a \<Rightarrow> nat list) \<Rightarrow> ('b \<Rightarrow> nat list) \<Rightarrow> 'a \<times> 'b \<Rightarrow> nat list" where
  "put_pair p q (x, y) = p x @ q y"

definition get_pair ::
  "(nat list \<Rightarrow> 'a \<times> nat list) \<Rightarrow> (nat list \<Rightarrow> 'b \<times> nat list) \<Rightarrow> nat list \<Rightarrow> ('a \<times> 'b) \<times> nat list" where
  "get_pair g h ts = (let (x, ts1) = g ts; (y, ts2) = h ts1 in ((x, y), ts2))"

primrec get_many :: "(nat list \<Rightarrow> 'a \<times> nat list) \<Rightarrow> nat \<Rightarrow> nat list \<Rightarrow> 'a list \<times> nat list" where
  "get_many g 0 ts = ([], ts)"
| "get_many g (Suc n) ts = (let (x, ts1) = g ts; (xs, ts2) = get_many g n ts1 in (x # xs, ts2))"

definition put_list :: "('a \<Rightarrow> nat list) \<Rightarrow> 'a list \<Rightarrow> nat list" where
  "put_list p xs = length xs # concat (map p xs)"

definition get_list :: "(nat list \<Rightarrow> 'a \<times> nat list) \<Rightarrow> nat list \<Rightarrow> 'a list \<times> nat list" where
  "get_list g ts = get_many g (hd ts) (tl ts)"

definition put_conv :: "('a \<Rightarrow> 'b) \<Rightarrow> ('b \<Rightarrow> nat list) \<Rightarrow> 'a \<Rightarrow> nat list" where
  "put_conv f p x = p (f x)"

definition get_conv :: "('b \<Rightarrow> 'a) \<Rightarrow> (nat list \<Rightarrow> 'b \<times> nat list) \<Rightarrow> nat list \<Rightarrow> 'a \<times> nat list" where
  "get_conv f g ts = (let (x, ts1) = g ts in (f x, ts1))"

lemma codec_word: "codec put_word get_word"
  by (simp add: codec_def put_word_def get_word_def)

lemma codec_char: "codec put_char get_char"
  by (simp add: codec_def put_char_def get_char_def)

lemma codec_pair: "codec p g \<Longrightarrow> codec q h \<Longrightarrow> codec (put_pair p q) (get_pair g h)"
  by (simp add: codec_def get_pair_def)

lemma codec_list:
  assumes "codec p g"
  shows "codec (put_list p) (get_list g)"
proof -
  have "get_many g (length xs) (concat (map p xs) @ rest) = (xs, rest)" for xs rest
    using assms by (induction xs) (simp_all add: codec_def)
  then show ?thesis by (simp add: codec_def put_list_def get_list_def)
qed

lemma codec_conv: "codec p g \<Longrightarrow> (\<And>x. b (a x) = x) \<Longrightarrow> codec (put_conv a p) (get_conv b g)"
  by (simp add: codec_def put_conv_def get_conv_def)

text \<open>An optional value is a list of at most one element; a map is the list of its entries.\<close>

definition put_option :: "('a \<Rightarrow> nat list) \<Rightarrow> 'a option \<Rightarrow> nat list" where
  "put_option p = put_conv (\<lambda>v. case v of None \<Rightarrow> [] | Some x \<Rightarrow> [x]) (put_list p)"

definition get_option :: "(nat list \<Rightarrow> 'a \<times> nat list) \<Rightarrow> nat list \<Rightarrow> 'a option \<times> nat list" where
  "get_option g = get_conv hd_opt (get_list g)"

definition fmap_entries :: "(string, 'v) fmap \<Rightarrow> (string \<times> 'v) list" where
  "fmap_entries m = map (\<lambda>k. (k, the (fmlookup m k))) (sorted_list_of_fset (fmdom m))"

lemma codec_option: "codec p g \<Longrightarrow> codec (put_option p) (get_option g)"
  unfolding put_option_def get_option_def by (rule codec_conv [OF codec_list]) (auto split: option.split)

lemma fmap_of_entries: "fmap_of_list (fmap_entries m) = m"
proof (rule fmap_ext)
  fix k
  have "map_of (map (\<lambda>k. (k, the (fmlookup m k))) ks) k =
      (if k \<in> set ks then Some (the (fmlookup m k)) else None)" for ks
    by (induction ks) auto
  then have "fmlookup (fmap_of_list (fmap_entries m)) k =
      (if k |\<in>| fmdom m then Some (the (fmlookup m k)) else None)"
    by (simp add: fmap_entries_def fmlookup_of_list sorted_list_of_fset.rep_eq)
  then show "fmlookup (fmap_of_list (fmap_entries m)) k = fmlookup m k"
    by (cases "fmlookup m k") (simp_all add: fmdom_notI fmdomI)
qed

section \<open>The sample codec\<close>

abbreviation put_bytes :: "bytes \<Rightarrow> nat list" where "put_bytes \<equiv> put_list put_word"
abbreviation get_bytes :: "nat list \<Rightarrow> bytes \<times> nat list" where "get_bytes \<equiv> get_list get_word"
abbreviation put_string :: "string \<Rightarrow> nat list" where "put_string \<equiv> put_list put_char"
abbreviation get_string :: "nat list \<Rightarrow> string \<times> nat list" where "get_string \<equiv> get_list get_char"

definition put_observation :: "observation \<Rightarrow> nat list" where
  "put_observation = put_conv
     (\<lambda>x. (((ob_schema_version x, ob_observation_id x, ob_source_id x, ob_source_session_id x, ob_collector_sequence x),
       (ob_chain x, ob_network x, ob_channel x, ob_source_message_type x)),
       ((ob_source_sequence x, ob_source_cursor x, ob_observed_at_unix_ns x, ob_observed_at_monotonic_ns x,
        ob_source_time_unix_ns x), (ob_payload_hash x, ob_payload x, fmap_entries (ob_attributes x), ob_quality_flags x))))
     (put_pair
       (put_pair (put_pair put_word (put_pair put_bytes (put_pair put_string (put_pair put_bytes put_word))))
         (put_pair put_string (put_pair put_string (put_pair put_string put_string))))
       (put_pair
         (put_pair (put_option put_word) (put_pair (put_option put_bytes) (put_pair put_word (put_pair put_word
           (put_option put_word)))))
         (put_pair put_bytes (put_pair put_bytes (put_pair (put_list (put_pair put_string put_string))
           (put_list put_string))))))"

definition get_observation :: "nat list \<Rightarrow> observation \<times> nat list" where
  "get_observation = get_conv
     (\<lambda>(((a1, a2, a3, a4, a5), (b1, b2, b3, b4)), ((c1, c2, c3, c4, c5), (d1, d2, d3, d4))).
       \<lparr>ob_schema_version = a1, ob_observation_id = a2, ob_source_id = a3, ob_source_session_id = a4,
        ob_collector_sequence = a5, ob_chain = b1, ob_network = b2, ob_channel = b3, ob_source_message_type = b4,
        ob_source_sequence = c1, ob_source_cursor = c2, ob_observed_at_unix_ns = c3, ob_observed_at_monotonic_ns = c4,
        ob_source_time_unix_ns = c5, ob_payload_hash = d1, ob_payload = d2, ob_attributes = fmap_of_list d3,
        ob_quality_flags = d4\<rparr>)
     (get_pair
       (get_pair (get_pair get_word (get_pair get_bytes (get_pair get_string (get_pair get_bytes get_word))))
         (get_pair get_string (get_pair get_string (get_pair get_string get_string))))
       (get_pair
         (get_pair (get_option get_word) (get_pair (get_option get_bytes) (get_pair get_word (get_pair get_word
           (get_option get_word)))))
         (get_pair get_bytes (get_pair get_bytes (get_pair (get_list (get_pair get_string get_string))
           (get_list get_string))))))"

definition put_commit :: "wal_commit \<Rightarrow> nat list" where
  "put_commit = put_conv
     (\<lambda>c. ((wc_source_session_id c, wc_first_collector_sequence c, wc_last_collector_sequence c),
       (wc_first_wal_offset c, wc_last_wal_offset c, wc_durable_at_unix_ns c, wc_commit_hash c)))
     (put_pair (put_pair put_bytes (put_pair put_word put_word))
       (put_pair put_word (put_pair put_word (put_pair put_word put_bytes))))"

definition get_commit :: "nat list \<Rightarrow> wal_commit \<times> nat list" where
  "get_commit = get_conv
     (\<lambda>((a1, a2, a3), (b1, b2, b3, b4)). \<lparr>wc_source_session_id = a1, wc_first_collector_sequence = a2,
       wc_last_collector_sequence = a3, wc_first_wal_offset = b1, wc_last_wal_offset = b2,
       wc_durable_at_unix_ns = b3, wc_commit_hash = b4\<rparr>)
     (get_pair (get_pair get_bytes (get_pair get_word get_word))
       (get_pair get_word (get_pair get_word (get_pair get_word get_bytes))))"

lemmas codec_rules = codec_pair codec_list codec_option codec_word codec_char

lemma codec_observation: "codec put_observation get_observation"
  unfolding put_observation_def get_observation_def
  by (rule codec_conv) (intro codec_rules, simp add: fmap_of_entries)

lemma codec_commit: "codec put_commit get_commit"
  unfolding put_commit_def get_commit_def
  by (rule codec_conv) (intro codec_rules, simp)

text \<open>Numbers as runs of ones, each closed by a zero.\<close>

definition unary :: "nat list \<Rightarrow> bytes" where
  "unary ns = concat (map (\<lambda>n. replicate n 1 @ [0]) ns)"

fun of_unary :: "nat \<Rightarrow> bytes \<Rightarrow> nat list" where
  "of_unary n [] = []"
| "of_unary n (b # bs) = (if b = 0 then n # of_unary 0 bs else of_unary (Suc n) bs)"

lemma of_unary_unary: "of_unary 0 (unary ns) = ns"
proof (induction ns)
  case (Cons k ns)
  have "of_unary n (replicate k 1 @ [0] @ bs) = (n + k) # of_unary 0 bs" for n bs
    by (induction k arbitrary: n) auto
  then show ?case using Cons by (simp add: unary_def)
qed (simp add: unary_def)

definition sample_wal_lib :: wal_lib where
  "sample_wal_lib = \<lparr>crc32c = (\<lambda>bs. - 1), blake3 = (\<lambda>bs. 0),
     encode_observation = (\<lambda>x. unary (put_observation x)),
     decode_observation = (\<lambda>bs. Inr (fst (get_observation (of_unary 0 bs)))),
     encode_commit = (\<lambda>c. unary (put_commit c)),
     decode_commit = (\<lambda>bs. Inr (fst (get_commit (of_unary 0 bs))))\<rparr>"

lemma sample_codec_roundtrip: "codec_roundtrip sample_wal_lib"
proof -
  have "fst (get_observation (put_observation x)) = x" for x
    using codec_observation by (metis append_Nil2 codec_def fst_conv)
  moreover have "fst (get_commit (put_commit c)) = c" for c
    using codec_commit by (metis append_Nil2 codec_def fst_conv)
  ultimately show ?thesis by (simp add: codec_roundtrip_def sample_wal_lib_def of_unary_unary)
qed

definition sample_observation :: observation where
  "sample_observation = \<lparr>ob_schema_version = 1, ob_observation_id = [], ob_source_id = '''',
     ob_source_session_id = session_bytes 0, ob_collector_sequence = 0, ob_chain = '''', ob_network = '''',
     ob_channel = '''', ob_source_message_type = '''', ob_source_sequence = None, ob_source_cursor = None,
     ob_observed_at_unix_ns = 0, ob_observed_at_monotonic_ns = 0, ob_source_time_unix_ns = None, ob_payload_hash = [],
     ob_payload = [], ob_attributes = fmempty, ob_quality_flags = []\<rparr>"

definition sample_wal_config :: wal_config where
  "sample_wal_config = \<lparr>cfg_source_session_id = 0, cfg_max_bytes = 2048, cfg_group_commit_interval_ns = 0\<rparr>"

text \<open>The sample log after opening a new segment and after the first append.\<close>

definition sample_wal :: file_wal where
  "sample_wal = \<lparr>fw_file = replicate 2048 0, fw_config = sample_wal_config, fw_logical_end = 0, fw_next_sequence = 0,
     fw_pending = [], fw_sealed = False\<rparr>"

definition sample_wal_appended :: file_wal where
  "sample_wal_appended = snd (wal_append sample_wal_lib sample_observation sample_wal)"

lemma sample_open: "\<exists>rep fs'. wal_open sample_wal_lib ''w'' sample_wal_config fmempty = (Inr (sample_wal, rep), fs')"
proof -
  have "scan sample_wal_lib (replicate 2048 0) = Inr \<lparr>sc_frames = [], sc_truncated = None, sc_scanned_end = 0\<rparr>"
    by (simp add: scan_def scan_loop_zeros)
  then show ?thesis
    by (simp add: wal_open_def sample_wal_config_def sample_wal_def COMMIT_RESERVE_BYTES_def set_len_def recover_def
        acc_default_def finish_report_def Let_def)
qed

lemma length_unary: "length (unary ns) = sum_list ns + length ns"
  by (induction ns) (simp_all add: unary_def)

lemma le_bytes_zero: "le_bytes k 0 = replicate k 0"
  by (induction k) simp_all

lemma sample_observation_length: "length (encode_observation sample_wal_lib sample_observation) = 51"
  by (simp add: sample_wal_lib_def length_unary put_observation_def put_conv_def put_list_def put_option_def put_word_def
      sample_observation_def session_bytes_def fmap_entries_def be_bytes_def le_bytes_zero)

definition sample_frame :: bytes where
  "sample_frame = OBSERVATION_FRAME # be_bytes 4 51 @ encode_observation sample_wal_lib sample_observation @
     be_bytes 4 (unat (- 1 :: u32))"

lemma sample_frame_facts:
  "encode_frame sample_wal_lib OBSERVATION_FRAME (encode_observation sample_wal_lib sample_observation) = Inr sample_frame"
  "length sample_frame = 60"
  using sample_observation_length
  by (simp_all add: encode_frame_def MAX_FRAME_PAYLOAD_BYTES_def Let_def sample_frame_def sample_wal_lib_def)

lemma sample_append:
  "\<exists>po. wal_append sample_wal_lib sample_observation sample_wal = (Inr po, sample_wal_appended)"
  "fw_pending sample_wal_appended = [\<lparr>pf_observation = sample_observation, pf_offset = 0, pf_end_offset = 60,
     pf_frame_bytes = sample_frame\<rparr>]"
  "fw_logical_end sample_wal_appended = 60" "fw_config sample_wal_appended = sample_wal_config"
  using sample_frame_facts
  by (simp_all add: sample_wal_appended_def wal_append_def sample_wal_def sample_wal_config_def validate_session_def
      sample_observation_def write_frame_def remaining_capacity_def COMMIT_RESERVE_BYTES_def Let_def checked_add_def)

text \<open>The constant checksum detects every cut frame: the last stored byte is lost.\<close>

lemma be_val_snoc: "be_val (bs @ [b]) = unat b + 256 * be_val bs"
  by (simp add: be_val_def)

lemma torn_detected_sample:
  assumes "encode_frame sample_wal_lib ty p = Inr f"
  shows "torn_detected sample_wal_lib f"
proof -
  have "of_nat (be_val (take 4 (drop (5 + n) (torn m f)))) \<noteq> (- 1 :: u32)"
    if m: "m < length f" and n: "n = be_val (take 4 (drop 1 (torn m f)))" for m n
  proof -
    have le: "n \<le> length p" "m \<le> 8 + n" using torn_length_field [OF assms m] by (auto simp: n)
    have "8 + n < length (torn m f)" using le(1) encode_frame_length [OF assms] by simp
    then have "take 4 (drop (5 + n) (torn m f)) = take 3 (drop (5 + n) (torn m f)) @ [torn m f ! (8 + n)]"
      by (subst take_Suc_conv_app_nth [of 3, simplified]) simp_all
    moreover have "torn m f ! (8 + n) = 0" using le(2) \<open>8 + n < length (torn m f)\<close> by (simp add: torn_def nth_append)
    ultimately have "even (be_val (take 4 (drop (5 + n) (torn m f))))" by (simp add: be_val_snoc)
    then have "even (unat (of_nat (be_val (take 4 (drop (5 + n) (torn m f)))) :: u32))"
      by (simp add: unat_of_nat dvd_mod)
    moreover have "odd (unat (- 1 :: u32))" by (simp add: unsigned_minus_1_eq_mask mask_eq_exp_minus_1)
    ultimately show ?thesis by metis
  qed
  from this [OF _ refl] show ?thesis
    unfolding torn_detected_def Let_def FRAME_HEADER_BYTES_def sample_wal_lib_def by (simp add: eq_commute [of "- 1"])
qed

lemma be_bytes_snoc: "be_bytes 4 n = be_bytes 3 (n div 256) @ [of_nat (n mod 256)]"
  using le_bytes.simps(2) [of 3 n] by (simp add: be_bytes_def)

lemma torn_differs_sample:
  assumes "encode_frame sample_wal_lib ty p = Inr f" "m < length f"
  shows "torn m f \<noteq> f"
proof -
  have "last f = last (be_bytes 4 (unat (- 1 :: u32)))"
    using assms(1) by (auto simp: encode_frame_def Let_def sample_wal_lib_def last_append split: if_splits simp flip: length_0_conv)
  also have "\<dots> = of_nat (unat (- 1 :: u32) mod 256)" by (simp add: be_bytes_snoc)
  also have "\<dots> = 255" by (simp add: unsigned_minus_1_eq_mask mask_eq_exp_minus_1)
  finally have "last f \<noteq> 0" by simp
  moreover have "last (torn m f) = 0" using assms(2) by (simp add: torn_def)
  ultimately show ?thesis by metis
qed

end
