(* ===== verification/Wal_Log.thy ===== *)
theory Wal_Log
  imports Wal_Writer
begin

text \<open>
  The contract of the trait \<open>ObservationWal\<close> of \<open>crates/wal/src/lib.rs\<close>: an abstract log of committed
  and pending observations, and what appends and group commits do to it. The writers of source
  observations rely on this contract only.
\<close>

record wal_spec =
  sp_committed :: "committed_observation list"
  sp_pending :: "observation list"
  sp_next :: u64
  sp_sealed :: bool

definition spec_new :: wal_spec where
  "spec_new = \<lparr>sp_committed = [], sp_pending = [], sp_next = 0, sp_sealed = False\<rparr>"

definition spec_append :: "observation \<Rightarrow> wal_spec \<Rightarrow> wal_spec" where
  "spec_append x sp = sp\<lparr>sp_pending := sp_pending sp @ [x], sp_next := sp_next sp + 1\<rparr>"

definition spec_commit :: "committed_range \<Rightarrow> wal_spec \<Rightarrow> wal_spec" where
  "spec_commit r sp = sp\<lparr>sp_committed := sp_committed sp @ map (\<lambda>x. \<lparr>co_observation = Some x,
       co_durable_at_unix_ns = cr_durable_at_unix_ns r, co_wal_commit_hash = be_bytes 32 (unat (cr_commit_hash r))\<rparr>) (sp_pending sp),
     sp_pending := []\<rparr>"

definition spec_seal :: "wal_spec \<Rightarrow> wal_spec" where
  "spec_seal sp = sp\<lparr>sp_sealed := True\<rparr>"

definition spec_crash :: "wal_spec \<Rightarrow> wal_spec" where
  "spec_crash sp = sp\<lparr>sp_pending := [], sp_next := sp_next sp - of_nat (length (sp_pending sp))\<rparr>"

text \<open>
  \<open>log sp w\<close> says that the writer \<open>w\<close> holds the abstract log \<open>sp\<close>. A failed operation leaves the abstract
  log as it is; the last sequence number is excluded from the failing appends.
\<close>

locale observation_wal =
  fixes append :: "observation \<Rightarrow> 'w \<Rightarrow> (wal_error + pending_observation) \<times> 'w"
    and commit :: "i64 \<Rightarrow> 'w \<Rightarrow> (wal_error + committed_range) \<times> 'w"
    and log :: "wal_spec \<Rightarrow> 'w \<Rightarrow> bool"
  assumes append_ok: "log sp w \<Longrightarrow> append x w = (Inr po, w') \<Longrightarrow> log (spec_append x sp) w' \<and>
      po_observation po = x \<and> ob_collector_sequence x = sp_next sp \<and> sp_next sp \<noteq> - 1"
    and append_error: "log sp w \<Longrightarrow> append x w = (Inl e, w') \<Longrightarrow> sp_next sp \<noteq> - 1 \<Longrightarrow> log sp w'"
    and commit_ok: "log sp w \<Longrightarrow> commit at w = (Inr r, w') \<Longrightarrow> log (spec_commit r sp) w' \<and> sp_pending sp \<noteq> [] \<and>
      cr_durable_at_unix_ns r = at \<and> cr_first_sequence r + of_nat (length (sp_pending sp)) = sp_next sp \<and>
      cr_last_sequence r + 1 = sp_next sp"
    and commit_error: "log sp w \<Longrightarrow> commit at w = (Inl e, w') \<Longrightarrow> log sp w'"

end
