(* ===== verification/Wal_Properties.thy ===== *)
theory Wal_Properties
  imports Wal_Crash Wal_Samples Wal_Log
begin

text \<open>
  The write-ahead log as an abstract log of committed and pending observations, the runs of a log over
  appends, commits, seals and crashes, and the theorems that the file-backed log implements the
  abstract one.
\<close>

section \<open>Runs\<close>

text \<open>
  A run of a log beside the abstract log: a failed operation is no step of the abstract log. The last
  sequence number is excluded from the failing appends, since there the code appends and fails.
\<close>

inductive wal_run :: "wal_lib \<Rightarrow> wal_spec \<Rightarrow> file_wal \<Rightarrow> bool" for W where
  run_open: "fmlookup fs path = None \<Longrightarrow> wal_open W path cfg fs = (Inr (st, rep), fs') \<Longrightarrow> wal_run W spec_new st"
| run_append: "wal_run W sp st \<Longrightarrow> wal_append W x st = (Inr po, st') \<Longrightarrow> wal_run W (spec_append x sp) st'"
| run_append_error: "wal_run W sp st \<Longrightarrow> wal_append W x st = (Inl e, st') \<Longrightarrow> fw_next_sequence st \<noteq> - 1 \<Longrightarrow> wal_run W sp st'"
| run_commit: "wal_run W sp st \<Longrightarrow> group_commit W at st = (Inr r, st') \<Longrightarrow> wal_run W (spec_commit r sp) st'"
| run_commit_error: "wal_run W sp st \<Longrightarrow> group_commit W at st = (Inl e, st') \<Longrightarrow> wal_run W sp st'"
| run_seal: "wal_run W sp st \<Longrightarrow> seal W st = (Inr h, st') \<Longrightarrow> wal_run W (spec_seal sp) st'"
| run_seal_error: "wal_run W sp st \<Longrightarrow> seal W st = (Inl e, st') \<Longrightarrow> wal_run W sp st'"
| run_crash: "wal_run W sp st \<Longrightarrow> durable_end st \<le> n \<Longrightarrow> \<forall>p \<in> set (fw_pending st). torn_detected W (pf_frame_bytes p) \<Longrightarrow>
    fmlookup fs path = Some (crash_image n st) \<Longrightarrow> wal_open W path (fw_config st) fs = (Inr (st', rep), fs') \<Longrightarrow>
    wal_run W (spec_crash sp) st'"

section \<open>The simulation\<close>

definition wal_sim :: "wal_lib \<Rightarrow> bytes \<Rightarrow> recovery_accumulator \<Rightarrow> wal_spec \<Rightarrow> file_wal \<Rightarrow> bool" where
  "wal_sim W base acc sp st \<longleftrightarrow> wal_inv W base acc st \<and> acc_committed acc = sp_committed sp \<and>
     map pf_observation (fw_pending st) = sp_pending sp \<and> fw_next_sequence st = sp_next sp \<and> fw_sealed st = sp_sealed sp"

lemma wal_sim_pending: "wal_sim W base acc sp st \<Longrightarrow> length (sp_pending sp) = length (fw_pending st)"
  by (metis length_map wal_sim_def)

lemma append_ok_not_last: "wal_append W x st = (Inr po, st') \<Longrightarrow> fw_next_sequence st \<noteq> - 1"
  by (auto simp: wal_append_def write_frame_def Let_def checked_add_def unsigned_minus_1_eq_mask mask_eq_exp_minus_1
      split: sum.splits if_splits)

lemma group_commit_durable: "group_commit W at st = (Inr r, st') \<Longrightarrow> cr_durable_at_unix_ns r = at"
  by (auto simp: group_commit_def Let_def split: sum.splits if_splits prod.splits)

lemma group_commit_range:
  assumes "wal_sim W base acc sp st" "group_commit W at st = (Inr r, st')"
  shows "sp_pending sp \<noteq> [] \<and> cr_first_sequence r + of_nat (length (sp_pending sp)) = sp_next sp \<and>
    cr_last_sequence r + 1 = sp_next sp"
proof -
  have r: "fw_pending st \<noteq> []" "cr_first_sequence r = ob_collector_sequence (pf_observation (hd (fw_pending st)))"
    "cr_last_sequence r = ob_collector_sequence (pf_observation (last (fw_pending st)))"
    using assms(2) by (auto simp: group_commit_def commit_record_def Let_def split: sum.splits if_splits prod.splits)
  have ok: "pending_ok W (length base) (acc_next_sequence acc) (fw_pending st)"
    "sp_next sp = acc_next_sequence acc + of_nat (length (fw_pending st))"
    using assms(1) by (auto simp: wal_sim_def wal_inv_def)
  have "ob_collector_sequence (pf_observation (hd (fw_pending st))) = acc_next_sequence acc"
    using ok(1) r(1) by (cases "fw_pending st") auto
  then show ?thesis using r ok(2) pending_last [OF ok(1) r(1)] wal_sim_pending [OF assms(1)] by auto
qed

lemma crash_reopen:
  assumes "codec_roundtrip W" "wal_sim W base acc sp st" "durable_end st \<le> n"
    "\<forall>p \<in> set (fw_pending st). torn_detected W (pf_frame_bytes p)" "fmlookup fs path = Some (crash_image n st)"
  shows "\<exists>st' rep fs' j. wal_open W path (fw_config st) fs = (Inr (st', rep), fs') \<and> wal_sim W base acc (spec_crash sp) st' \<and>
    rr_incidents rep \<in> {[], [UncommittedTail (length base) j]} \<and> j \<le> length (fw_pending st) \<and>
    fw_config st' = fw_config st \<and> fmlookup fs' path = Some (fw_file st')"
proof -
  have inv: "wal_inv W base acc st" using assms(2) by (simp add: wal_sim_def)
  obtain rep tail j where rec: "crash_image n st = base @ tail" "rr_logical_end rep = length base"
    "rr_incidents rep \<in> {[], [UncommittedTail (length base) j]}" "j \<le> length (fw_pending st)"
    "recover W (base @ tail) (fw_session st) = Inr \<lparr>rs_report = rep, rs_committed = acc_committed acc,
      rs_next_sequence = acc_next_sequence acc, rs_sealed = acc_sealed acc\<rparr>"
    using recover_crash [OF assms(1) inv assms(3,4)] by blast
  have "length (crash_image n st) = fw_max st" using inv by (auto simp: crash_image_def wal_inv_def min_def)
  then obtain st' fs' where st': "wal_open W path (fw_config st) fs = (Inr (st', rep), fs')"
    "wal_inv W base acc st'" "fw_pending st' = []" "fw_config st' = fw_config st"
    "fw_next_sequence st' = acc_next_sequence acc" "fw_sealed st' = acc_sealed acc" "fmlookup fs' path = Some (fw_file st')"
    using wal_open_base [OF inv _ _ rec(5,2), of fs path] rec(1) assms(5) by auto
  have "sp_next sp - of_nat (length (sp_pending sp)) = acc_next_sequence acc" "acc_sealed acc = sp_sealed sp"
    using assms(2) wal_sim_pending [OF assms(2)] by (auto simp: wal_sim_def wal_inv_def)
  then have "wal_sim W base acc (spec_crash sp) st'"
    using st' assms(2) by (simp add: wal_sim_def spec_crash_def)
  then show ?thesis using st' rec(3,4) by blast
qed

lemma wal_run_sim:
  assumes "codec_roundtrip W"
  shows "wal_run W sp st \<Longrightarrow> \<exists>base acc. wal_sim W base acc sp st"
proof (induction rule: wal_run.induct)
  case (run_open fs path cfg st rep fs')
  then show ?case
    using wal_open_new [OF run_open] by (intro exI [of _ "[]"] exI [of _ acc_default]) (auto simp: wal_sim_def spec_new_def acc_default_def)
next
  case (run_append sp st x po st')
  then obtain base acc where sim: "wal_sim W base acc sp st" by blast
  then have "wal_inv W base acc st" by (simp add: wal_sim_def)
  from wal_append_inv [OF this run_append(2) append_ok_not_last [OF run_append(2)]] sim
  show ?case by (intro exI [of _ base] exI [of _ acc]) (simp add: wal_sim_def spec_append_def)
next
  case (run_append_error sp st x e st')
  then show ?case using wal_append_error by blast
next
  case (run_commit sp st at r st')
  then obtain base acc where sim: "wal_sim W base acc sp st" by blast
  then have "wal_inv W base acc st" by (simp add: wal_sim_def)
  from group_commit_inv [OF assms this run_commit(2)] obtain base' acc' where c: "wal_inv W base' acc' st'"
    "fw_pending st' = []" "acc_committed acc' = acc_committed acc @
       committed_by at (be_bytes 32 (unat (cr_commit_hash r))) (fw_pending st)"
    "fw_next_sequence st' = fw_next_sequence st" "\<not> fw_sealed st" "\<not> fw_sealed st'" by blast
  have "wal_sim W base' acc' (spec_commit r sp) st'"
    using c sim group_commit_durable [OF run_commit(2)]
    by (simp add: wal_sim_def spec_commit_def committed_by_map del: map_map)
  then show ?case by blast
next
  case (run_commit_error sp st at e st')
  then show ?case using group_commit_error by blast
next
  case (run_seal sp st h st')
  then obtain base acc where sim: "wal_sim W base acc sp st" by blast
  then have "wal_inv W base acc st" by (simp add: wal_sim_def)
  from seal_inv [OF assms this run_seal(2)] obtain base' where "wal_inv W base' (acc\<lparr>acc_sealed := True\<rparr>) st'"
    "fw_pending st' = []" "fw_pending st = []" "fw_next_sequence st' = fw_next_sequence st" "fw_sealed st'" by blast
  with sim have "wal_sim W base' (acc\<lparr>acc_sealed := True\<rparr>) (spec_seal sp) st'"
    by (auto simp: wal_sim_def spec_seal_def)
  then show ?case by blast
next
  case (run_seal_error sp st e st')
  then show ?case using seal_error by blast
next
  case (run_crash sp st n fs path st' rep fs')
  then obtain base acc where "wal_sim W base acc sp st" by blast
  from crash_reopen [OF assms this run_crash(2-4)] run_crash(5) show ?case by auto
qed

lemma wal_refines_log_at:
  assumes "codec_roundtrip W" "wal_run W sp st"
  shows "wal_committed W st = Inr (sp_committed sp) \<and> map pf_observation (fw_pending st) = sp_pending sp \<and>
    fw_next_sequence st = sp_next sp \<and> fw_sealed st = sp_sealed sp"
proof -
  obtain base acc where sim: "wal_sim W base acc sp st" using wal_run_sim [OF assms] by blast
  then have "wal_inv W base acc st" by (simp add: wal_sim_def)
  from recover_inv [OF assms(1) this] sim show ?thesis by (simp add: wal_committed_def wal_sim_def)
qed

text \<open>At the last sequence number an append writes the frame and keeps it pending, but returns an error.\<close>

lemma append_at_last_sequence:
  assumes "\<not> fw_sealed st" "validate_session (fw_session st) x = Inr ()" "ob_collector_sequence x = - 1"
    "fw_next_sequence st = - 1" "encode_frame W OBSERVATION_FRAME (encode_observation W x) = Inr f"
    "length f + COMMIT_RESERVE_BYTES \<le> remaining_capacity st"
  shows "\<exists>st'. wal_append W x st = (Inl (SequenceMismatch (- 1) (- 1)), st') \<and>
    map pf_observation (fw_pending st') = map pf_observation (fw_pending st) @ [x]"
proof -
  have "checked_add (- 1 :: u64) 1 = None"
    by (simp add: checked_add_def unsigned_minus_1_eq_mask mask_eq_exp_minus_1)
  then show ?thesis using assms by (simp add: wal_append_def write_frame_def Let_def)
qed

section \<open>Properties\<close>

text \<open>C15: the write-ahead log implements the abstract log. After every run of appends, group commits,
  seals, failed operations and crashes, reading the file back gives exactly the committed
  observations of the abstract log in commit order, each with the time and hash of its commit, and the
  pending observations, the next sequence number and the seal agree.\<close>

theorem wal_refines_log:
  assumes "codec_roundtrip W" "wal_run W sp st"
  shows "wal_committed W st = Inr (sp_committed sp) \<and> map pf_observation (fw_pending st) = sp_pending sp \<and>
    fw_next_sequence st = sp_next sp \<and> fw_sealed st = sp_sealed sp"
  by (rule wal_refines_log_at [OF assms])

lemma sample_run: "wal_run sample_wal_lib (spec_append sample_observation spec_new) sample_wal_appended"
proof -
  have "wal_run sample_wal_lib spec_new sample_wal" using sample_open by (auto intro: run_open [of fmempty "''w''"])
  then show ?thesis using sample_append(1) by (auto intro: run_append)
qed

theorem wal_refines_log_witness:
  "wal_run sample_wal_lib (spec_append sample_observation spec_new) sample_wal_appended \<and>
   wal_committed sample_wal_lib sample_wal_appended = Inr []"
  using sample_run wal_refines_log [OF sample_codec_roundtrip sample_run] by (simp add: spec_append_def spec_new_def)

text \<open>C16: a crash while appended observations wait for their group commit loses no committed observation and
  never blocks the log. Wherever between two operations of the writer the crash cuts the pending append
  frames, opening the segment succeeds, reports at most one uncommitted tail of at most the pending
  observations, starts at the end of the last commit, and the reopened log is the abstract log without
  its pending observations. A crash inside a group commit, which cuts the commit frame itself, is not
  covered: the segment is then quarantined.\<close>

theorem wal_survives_torn_appends:
  assumes "codec_roundtrip W" "wal_run W sp st" "durable_end st \<le> n"
    "\<forall>p \<in> set (fw_pending st). torn_detected W (pf_frame_bytes p)" "fmlookup fs path = Some (crash_image n st)"
  shows "\<exists>st' rep fs' off j. wal_open W path (fw_config st) fs = (Inr (st', rep), fs') \<and>
    wal_committed W st' = Inr (sp_committed sp) \<and> fw_pending st' = [] \<and>
    fw_next_sequence st' = sp_next sp - of_nat (length (sp_pending sp)) \<and> fw_sealed st' = sp_sealed sp \<and>
    rr_incidents rep \<in> {[], [UncommittedTail off j]} \<and> j \<le> length (sp_pending sp) \<and>
    fmlookup fs' path = Some (fw_file st')"
proof -
  obtain base acc where sim: "wal_sim W base acc sp st" using wal_run_sim [OF assms(1,2)] by blast
  then obtain st' rep fs' j where o: "wal_open W path (fw_config st) fs = (Inr (st', rep), fs')"
    "wal_sim W base acc (spec_crash sp) st'" "rr_incidents rep \<in> {[], [UncommittedTail (length base) j]}"
    "j \<le> length (fw_pending st)" "fmlookup fs' path = Some (fw_file st')"
    using crash_reopen [OF assms(1) _ assms(3-5)] by blast
  have "wal_run W (spec_crash sp) st'" using run_crash [OF assms(2-5) o(1)] .
  from wal_refines_log_at [OF assms(1) this] have "wal_committed W st' = Inr (sp_committed sp)" "fw_pending st' = []"
    "fw_next_sequence st' = sp_next sp - of_nat (length (sp_pending sp))" "fw_sealed st' = sp_sealed sp"
    by (simp_all add: spec_crash_def)
  moreover have "j \<le> length (sp_pending sp)" using o(4) wal_sim_pending [OF sim] by simp
  ultimately show ?thesis using o by blast
qed

theorem wal_survives_torn_appends_witness:
  "\<exists>st' rep fs'. wal_open sample_wal_lib ''w'' sample_wal_config
      (fmupd ''w'' (crash_image 20 sample_wal_appended) fmempty) = (Inr (st', rep), fs') \<and> fw_pending st' = []"
proof -
  have "\<forall>p \<in> set (fw_pending sample_wal_appended). torn_detected sample_wal_lib (pf_frame_bytes p)"
    by (simp add: sample_append(2) torn_detected_sample [OF sample_frame_facts(1)])
  moreover have "durable_end sample_wal_appended \<le> 20" by (simp add: durable_end_def sample_append(2,3) sample_frame_facts(2))
  ultimately show ?thesis
    using wal_survives_torn_appends [OF sample_codec_roundtrip sample_run, of 20 "fmupd ''w'' (crash_image 20 sample_wal_appended) fmempty" "''w''"]
    by (auto simp: sample_append(4))
qed

text \<open>C17: an accepted append can always be committed. While observations are pending, the reserve of 512
  bytes is still free, so a group commit whose encoding takes at most 503 bytes succeeds, and it covers
  exactly the pending sequence numbers.\<close>

theorem wal_commit_space_is_reserved:
  assumes "codec_roundtrip W" "wal_run W sp st" "sp_pending sp \<noteq> []"
    "length (encode_commit W (commit_record W (fw_session st) at (fw_pending st))) \<le> 503"
  shows "\<exists>r st'. group_commit W at st = (Inr r, st') \<and>
    cr_first_sequence r + of_nat (length (sp_pending sp)) = sp_next sp \<and> cr_last_sequence r + 1 = sp_next sp"
proof -
  let ?c = "commit_record W (fw_session st) at (fw_pending st)"
  obtain base acc where sim: "wal_sim W base acc sp st" using wal_run_sim [OF assms(1,2)] by blast
  then have st: "fw_pending st \<noteq> []" "\<not> fw_sealed st" "fw_logical_end st + COMMIT_RESERVE_BYTES \<le> fw_max st"
    using assms(3) by (auto simp: wal_sim_def wal_inv_def)
  obtain f where f: "encode_frame W GROUP_COMMIT_FRAME (encode_commit W ?c) = Inr f"
    using assms(4) by (auto simp: encode_frame_def MAX_FRAME_PAYLOAD_BYTES_def Let_def)
  then have "length f \<le> remaining_capacity st"
    using encode_frame_length [OF f] assms(4) st(3) by (simp add: remaining_capacity_def COMMIT_RESERVE_BYTES_def)
  then obtain r st' where "group_commit W at st = (Inr r, st')"
    using st(1,2) f by (auto simp: group_commit_def write_frame_def Let_def)
  then show ?thesis using group_commit_range [OF sim] by blast
qed

lemma sample_commit_length: "length (encode_commit sample_wal_lib (commit_record sample_wal_lib
    (fw_session sample_wal_appended) 7 (fw_pending sample_wal_appended))) = 169"
  by (simp add: sample_wal_lib_def length_unary put_commit_def put_conv_def put_list_def put_word_def commit_record_def
      Let_def sample_append(2,4) sample_wal_config_def calculate_commit_hash_def session_bytes_def be_bytes_def
      le_bytes_zero sample_observation_def sum_list_replicate)

theorem wal_commit_space_is_reserved_witness:
  "\<exists>r st'. group_commit sample_wal_lib 7 sample_wal_appended = (Inr r, st') \<and> cr_first_sequence r + 1 = 1 \<and>
     cr_last_sequence r + 1 = 1"
proof -
  have "length (encode_commit sample_wal_lib (commit_record sample_wal_lib (fw_session sample_wal_appended) 7
      (fw_pending sample_wal_appended))) \<le> 503" by (simp add: sample_commit_length)
  then show ?thesis
    using wal_commit_space_is_reserved [OF sample_codec_roundtrip sample_run, of 7]
    by (simp add: spec_append_def spec_new_def)
qed

text \<open>C18: a crash inside a group commit is not an uncommitted tail for the code. When the commit frame has
  been written in part and the checksum shows it, opening the segment fails and moves the whole
  segment, with every observation committed before, to quarantine.\<close>

theorem torn_commit_quarantines_segment:
  assumes "codec_roundtrip W" "wal_run W sp st" "sp_pending sp \<noteq> []"
    "encode_frame W GROUP_COMMIT_FRAME (encode_commit W (commit_record W (fw_session st) at (fw_pending st))) = Inr f"
    "length f \<le> remaining_capacity st" "0 < m" "m < length f" "torn m f \<noteq> f" "torn_detected W f"
    "fmlookup fs path = Some (write_at (fw_logical_end st) (torn m f) (fw_file st))"
    "fmlookup fs (path @ ''.quarantine'') = None"
  shows "wal_open W path (fw_config st) fs =
    (Inl (CorruptFrame (fw_logical_end st) ''group-commit CRC mismatch''),
     fmupd (path @ ''.quarantine'') (write_at (fw_logical_end st) (torn m f) (fw_file st)) (fmdrop path fs))"
proof -
  let ?file = "write_at (fw_logical_end st) (torn m f) (fw_file st)"
  obtain base acc where sim: "wal_sim W base acc sp st" using wal_run_sim [OF assms(1,2)] by blast
  then have inv: "wal_inv W base acc st" by (simp add: wal_sim_def)
  obtain k where k: "base_ok W (fw_session st) base acc" "fw_file st = (base @ pending_bytes (fw_pending st)) @ replicate k 0"
    "fw_logical_end st = length (base @ pending_bytes (fw_pending st))" "remaining_capacity st = k"
    "fw_max st = fw_logical_end st + k" by (rule wal_invD [OF inv])
  have contents: "?file = base @ pending_bytes (fw_pending st) @ torn m f @ replicate (k - length f) 0"
    using write_at_zeros [of "torn m f" k "base @ pending_bytes (fw_pending st)"] assms(5) k by simp
  have "pending_ok W (length base) (acc_next_sequence acc) (fw_pending st)" "\<not> acc_sealed acc"
    using sim assms(3) by (auto simp: wal_sim_def wal_inv_def)
  then have "recover W ?file (fw_session st) = Inl (CorruptFrame (fw_logical_end st) ''group-commit CRC mismatch'')"
    unfolding contents using k(3) recover_torn_commit [OF assms(1) k(1) _ _ assms(4,6-9)] by simp
  moreover have "length ?file = fw_max st" unfolding contents using k(3,4,5) assms(5) by simp
  moreover have "COMMIT_RESERVE_BYTES < fw_max st" using inv by (simp add: wal_inv_def)
  ultimately show ?thesis using assms(10,11) by (simp add: wal_open_def Let_def quarantine_def)
qed

theorem torn_commit_quarantines_segment_witness:
  "\<exists>off fs'. wal_open sample_wal_lib ''w'' sample_wal_config (fmupd ''w'' (write_at 60
      (torn 20 (projr (encode_frame sample_wal_lib GROUP_COMMIT_FRAME (encode_commit sample_wal_lib
        (commit_record sample_wal_lib 0 7 (fw_pending sample_wal_appended))))))
      (fw_file sample_wal_appended)) fmempty) = (Inl (CorruptFrame off ''group-commit CRC mismatch''), fs')"
proof -
  let ?c = "commit_record sample_wal_lib (fw_session sample_wal_appended) 7 (fw_pending sample_wal_appended)"
  have len: "length (encode_commit sample_wal_lib ?c) = 169" by (rule sample_commit_length)
  then obtain f where f: "encode_frame sample_wal_lib GROUP_COMMIT_FRAME (encode_commit sample_wal_lib ?c) = Inr f"
    by (auto simp: encode_frame_def MAX_FRAME_PAYLOAD_BYTES_def Let_def)
  have lf: "20 < length f" "length f \<le> remaining_capacity sample_wal_appended"
    using encode_frame_length [OF f] len by (simp_all add: remaining_capacity_def sample_append sample_wal_config_def)
  let ?fs = "fmupd ''w'' (write_at 60 (torn 20 f) (fw_file sample_wal_appended)) fmempty"
  have "fw_session sample_wal_appended = 0" by (simp add: sample_append(4) sample_wal_config_def)
  then show ?thesis
    using torn_commit_quarantines_segment [OF sample_codec_roundtrip sample_run _ f lf(2) _ lf(1)
      torn_differs_sample [OF f lf(1)] torn_detected_sample [OF f], of ?fs "''w''"] f
    by (simp add: sample_append(3,4) spec_append_def spec_new_def)
qed

section \<open>The file-backed log keeps the contract\<close>

lemma append_ok_facts: "wal_append W x st = (Inr po, st') \<Longrightarrow>
    po_observation po = x \<and> ob_collector_sequence x = fw_next_sequence st"
  by (auto simp: wal_append_def write_frame_def Let_def split: sum.splits if_splits option.splits)

interpretation file_log: observation_wal "wal_append W" "group_commit W" "\<lambda>sp st. codec_roundtrip W \<and> wal_run W sp st" for W
proof (unfold_locales, goal_cases)
  case (1 sp w x po w')
  then have W: "codec_roundtrip W" "wal_run W sp w" by simp_all
  from run_append [OF W(2) 1(2)] wal_refines_log_at [OF W] append_ok_facts [OF 1(2)] append_ok_not_last [OF 1(2)] W(1)
  show ?case by simp
next
  case (2 sp w x e w')
  then have W: "codec_roundtrip W" "wal_run W sp w" by simp_all
  with 2(3) wal_refines_log_at [OF W] have "fw_next_sequence w \<noteq> - 1" by simp
  from run_append_error [OF W(2) 2(2) this] W(1) show ?case by simp
next
  case (3 sp w at r w')
  then have W: "codec_roundtrip W" "wal_run W sp w" by simp_all
  then obtain base acc where "wal_sim W base acc sp w" using wal_run_sim by blast
  from group_commit_range [OF this 3(2)] run_commit [OF W(2) 3(2)] group_commit_durable [OF 3(2)] W(1)
  show ?case by simp
next
  case (4 sp w at e w')
  then have W: "codec_roundtrip W" "wal_run W sp w" by simp_all
  from run_commit_error [OF W(2) 4(2)] W(1) show ?case by simp
qed

end
