(* ===== verification/Source_Capture.thy ===== *)
theory Source_Capture
  imports Wal_Properties
begin

text \<open>
  The durable capture boundary of \<open>crates/source-capture/src/lib.rs\<close>: source identities, capture sessions,
  raw messages and the single writer that turns a message into a committed observation. The
  write-ahead log is any writer with the operations of the trait; the readings of the clock are
  arguments.
\<close>

section \<open>Data\<close>

definition MAX_IDENTITY_BYTES :: nat where "MAX_IDENTITY_BYTES = 128"
definition MAX_CHAIN_BYTES :: nat where "MAX_CHAIN_BYTES = 32"
definition MAX_NETWORK_BYTES :: nat where "MAX_NETWORK_BYTES = 64"
definition MAX_MESSAGE_FIELD_BYTES :: nat where "MAX_MESSAGE_FIELD_BYTES = 128"
definition MAX_SOURCE_CURSOR_BYTES :: nat where "MAX_SOURCE_CURSOR_BYTES = 1024"
definition MAX_RAW_SOURCE_PAYLOAD_BYTES :: nat where "MAX_RAW_SOURCE_PAYLOAD_BYTES = 64 * 1024 * 1024"

datatype capture_error =
    InvalidIdentity string
  | InvalidMessageField string
  | InvalidPayloadLimit
  | PayloadTooLarge nat nat
  | SourceCursorTooLarge
  | SequenceExhausted
  | Entropy string
  | CaptureObservation observation_error
  | CaptureWal wal_error
  | CommitRangeMismatch u64 u64 u64
  | CaptureUnavailable

definition validate_graphic_ascii :: "string \<Rightarrow> nat \<Rightarrow> string \<Rightarrow> bool \<Rightarrow> capture_error + unit" where
  "validate_graphic_ascii value max_bytes field identity =
     (if value = [] \<or> max_bytes < length value \<or> \<not> ascii_graphic value
      then Inl (if identity then InvalidIdentity field else InvalidMessageField field)
      else Inr ())"

record source_identity =
  si_source_id :: string
  si_chain :: string
  si_network :: string

definition source_identity_new :: "string \<Rightarrow> string \<Rightarrow> string \<Rightarrow> capture_error + source_identity" where
  "source_identity_new source chain network =
     and_then (validate_graphic_ascii source MAX_IDENTITY_BYTES ''source_id'' True) (\<lambda>_.
     and_then (validate_graphic_ascii chain MAX_CHAIN_BYTES ''chain'' True) (\<lambda>_.
     and_then (validate_graphic_ascii network MAX_NETWORK_BYTES ''network'' True) (\<lambda>_.
       Inr \<lparr>si_source_id = source, si_chain = chain, si_network = network\<rparr>)))"

record capture_session =
  cs_id :: source_session_id
  cs_next_sequence :: u64

definition session_with_id :: "source_session_id \<Rightarrow> capture_session" where
  "session_with_id i = \<lparr>cs_id = i, cs_next_sequence = 0\<rparr>"

definition session_resume :: "source_session_id \<Rightarrow> u64 \<Rightarrow> capture_session" where
  "session_resume i n = \<lparr>cs_id = i, cs_next_sequence = n\<rparr>"

text \<open>The operating-system entropy is the argument.\<close>

definition session_new :: "string + source_session_id \<Rightarrow> capture_error + capture_session" where
  "session_new entropy = map_sum Entropy session_with_id entropy"

definition pending_sequence :: "capture_session \<Rightarrow> capture_error + u64" where
  "pending_sequence s = (if cs_next_sequence s = - 1 then Inl SequenceExhausted else Inr (cs_next_sequence s))"

definition commit_sequence :: "capture_session \<Rightarrow> capture_session" where
  "commit_sequence s = s\<lparr>cs_next_sequence := saturating_add (cs_next_sequence s) 1\<rparr>"

record raw_source_message =
  rm_channel :: string
  rm_source_message_type :: string
  rm_payload :: bytes
  rm_source_sequence :: "u64 option"
  rm_source_cursor :: "bytes option"
  rm_source_time_unix_ns :: "i64 option"

definition raw_source_message_new :: "string \<Rightarrow> string \<Rightarrow> bytes \<Rightarrow> capture_error + raw_source_message" where
  "raw_source_message_new channel message_type payload =
     and_then (validate_graphic_ascii channel MAX_MESSAGE_FIELD_BYTES ''channel'' False) (\<lambda>_.
     and_then (validate_graphic_ascii message_type MAX_MESSAGE_FIELD_BYTES ''source_message_type'' False) (\<lambda>_.
       if MAX_RAW_SOURCE_PAYLOAD_BYTES < length payload
       then Inl (PayloadTooLarge (length payload) MAX_RAW_SOURCE_PAYLOAD_BYTES)
       else Inr \<lparr>rm_channel = channel, rm_source_message_type = message_type, rm_payload = payload,
         rm_source_sequence = None, rm_source_cursor = None, rm_source_time_unix_ns = None\<rparr>))"

definition with_source_sequence :: "u64 \<Rightarrow> raw_source_message \<Rightarrow> raw_source_message" where
  "with_source_sequence n m = m\<lparr>rm_source_sequence := Some n\<rparr>"

definition with_source_cursor :: "bytes \<Rightarrow> raw_source_message \<Rightarrow> capture_error + raw_source_message" where
  "with_source_cursor c m =
     (if MAX_SOURCE_CURSOR_BYTES < length c then Inl SourceCursorTooLarge else Inr (m\<lparr>rm_source_cursor := Some c\<rparr>))"

definition with_source_time_unix_ns :: "i64 \<Rightarrow> raw_source_message \<Rightarrow> raw_source_message" where
  "with_source_time_unix_ns t m = m\<lparr>rm_source_time_unix_ns := Some t\<rparr>"

section \<open>The capture\<close>

record 'w durable_source_capture =
  cap_identity :: source_identity
  cap_session :: capture_session
  cap_wal :: 'w
  cap_max_payload_bytes :: nat
  cap_poisoned :: bool

definition capture_new ::
  "source_identity \<Rightarrow> capture_session \<Rightarrow> 'w \<Rightarrow> nat \<Rightarrow> capture_error + 'w durable_source_capture" where
  "capture_new identity session w max_payload =
     (if max_payload = 0 then Inl InvalidPayloadLimit
      else Inr \<lparr>cap_identity = identity, cap_session = session, cap_wal = w,
        cap_max_payload_bytes = max_payload, cap_poisoned = False\<rparr>)"

text \<open>The hash functions and the three clock readings of one capture.\<close>

record capture_env =
  env_sha256 :: "bytes \<Rightarrow> digest"
  env_blake3 :: "bytes \<Rightarrow> digest"
  env_wall :: i64
  env_monotonic :: u64
  env_durable_at :: i64

definition capture_builder ::
  "capture_env \<Rightarrow> source_identity \<Rightarrow> source_session_id \<Rightarrow> u64 \<Rightarrow> raw_source_message \<Rightarrow> observation_builder" where
  "capture_builder env identity session seq m = builder_new
     \<lparr>bu_source_id := Some (si_source_id identity), bu_source_session_id := Some session,
      bu_collector_sequence := Some seq, bu_chain := Some (si_chain identity),
      bu_network := Some (si_network identity), bu_channel := Some (rm_channel m),
      bu_source_message_type := Some (rm_source_message_type m), bu_observed_at_unix_ns := Some (env_wall env),
      bu_observed_at_monotonic_ns := Some (env_monotonic env), bu_payload := Some (rm_payload m),
      bu_source_sequence := rm_source_sequence m, bu_source_cursor := rm_source_cursor m,
      bu_source_time_unix_ns := rm_source_time_unix_ns m\<rparr>"

definition capture ::
  "(observation \<Rightarrow> 'w \<Rightarrow> (wal_error + pending_observation) \<times> 'w) \<Rightarrow>
   (i64 \<Rightarrow> 'w \<Rightarrow> (wal_error + committed_range) \<times> 'w) \<Rightarrow> capture_env \<Rightarrow> raw_source_message \<Rightarrow>
   'w durable_source_capture \<Rightarrow> (capture_error + committed_observation) \<times> 'w durable_source_capture" where
  "capture wal_app wal_commit env m c =
     (if cap_poisoned c then (Inl CaptureUnavailable, c)
      else if cap_max_payload_bytes c < length (rm_payload m)
      then (Inl (PayloadTooLarge (length (rm_payload m)) (cap_max_payload_bytes c)), c)
      else if (case rm_source_cursor m of None \<Rightarrow> False | Some cursor \<Rightarrow> MAX_SOURCE_CURSOR_BYTES < length cursor)
      then (Inl SourceCursorTooLarge, c)
      else case pending_sequence (cap_session c) of
          Inl e \<Rightarrow> (Inl e, c)
        | Inr seq \<Rightarrow>
            (case build (env_sha256 env) (env_blake3 env)
                    (capture_builder env (cap_identity c) (cs_id (cap_session c)) seq m) of
               Inl e \<Rightarrow> (Inl (CaptureObservation e), c)
             | Inr x \<Rightarrow>
                 (case wal_app x (cap_wal c) of
                    (Inl e, w1) \<Rightarrow> (Inl (CaptureWal e), c\<lparr>cap_wal := w1, cap_poisoned := True\<rparr>)
                  | (Inr pending, w1) \<Rightarrow>
                      (case wal_commit (env_durable_at env) w1 of
                         (Inl e, w2) \<Rightarrow> (Inl (CaptureWal e), c\<lparr>cap_wal := w2, cap_poisoned := True\<rparr>)
                       | (Inr r, w2) \<Rightarrow>
                           if cr_first_sequence r \<noteq> seq \<or> cr_last_sequence r \<noteq> seq
                           then (Inl (CommitRangeMismatch seq (cr_first_sequence r) (cr_last_sequence r)),
                                 c\<lparr>cap_wal := w2, cap_poisoned := True\<rparr>)
                           else (Inr \<lparr>co_observation = Some (po_observation pending),
                                   co_durable_at_unix_ns = cr_durable_at_unix_ns r,
                                   co_wal_commit_hash = be_bytes 32 (unat (cr_commit_hash r))\<rparr>,
                                 c\<lparr>cap_wal := w2, cap_session := commit_sequence (cap_session c)\<rparr>)))))"

section \<open>What a capture does to the log\<close>

text \<open>A capture is in order when its log has no pending observation and both count the same sequence.\<close>

definition capture_ordered :: "(wal_spec \<Rightarrow> 'w \<Rightarrow> bool) \<Rightarrow> wal_spec \<Rightarrow> 'w durable_source_capture \<Rightarrow> bool" where
  "capture_ordered log sp c \<longleftrightarrow> log sp (cap_wal c) \<and> sp_pending sp = [] \<and> sp_next sp = cs_next_sequence (cap_session c)"

lemma build_sequence:
  "build sha b3 (capture_builder env identity session seq m) = Inr x \<Longrightarrow>
   ob_collector_sequence x = seq \<and> ob_payload x = rm_payload m \<and> ob_source_id x = si_source_id identity \<and>
   ob_source_session_id x = session_bytes session"
  by (auto simp: build_def capture_builder_def builder_new_def rust_result required_Inr_iff required_text_Inr_iff Let_def)

lemma capture_poisoned: "cap_poisoned c \<Longrightarrow> capture a g env m c = (Inl CaptureUnavailable, c)"
  by (simp add: capture_def)

text \<open>A failure that does not poison the writer changes nothing.\<close>

lemma capture_error_unpoisoned:
  "capture a g env m c = (Inl e, c') \<Longrightarrow> \<not> cap_poisoned c' \<Longrightarrow> c' = c"
  by (auto simp: capture_def split: sum.splits prod.splits if_splits)

context observation_wal
begin

text \<open>A successful capture appends exactly the returned observation to the committed ones.\<close>

lemma capture_commits:
  assumes "capture append commit env m c = (Inr co, c')" "capture_ordered log sp c"
  shows "\<exists>sp' x. capture_ordered log sp' c' \<and> \<not> cap_poisoned c \<and> \<not> cap_poisoned c' \<and> sp_committed sp' = sp_committed sp @ [co] \<and>
    sp_next sp' = sp_next sp + 1 \<and> sp_sealed sp' = sp_sealed sp \<and> co_observation co = Some x \<and>
    ob_collector_sequence x = sp_next sp \<and> ob_payload x = rm_payload m \<and>
    cap_identity c' = cap_identity c \<and> cap_max_payload_bytes c' = cap_max_payload_bytes c"
proof -
  let ?s = "cap_session c"
  obtain seq x po w1 r where s: "\<not> cap_poisoned c" "pending_sequence ?s = Inr seq"
    "build (env_sha256 env) (env_blake3 env) (capture_builder env (cap_identity c) (cs_id ?s) seq m) = Inr x"
    "append x (cap_wal c) = (Inr po, w1)" "commit (env_durable_at env) w1 = (Inr r, cap_wal c')"
    "co = \<lparr>co_observation = Some (po_observation po), co_durable_at_unix_ns = cr_durable_at_unix_ns r,
       co_wal_commit_hash = be_bytes 32 (unat (cr_commit_hash r))\<rparr>"
    "c' = c\<lparr>cap_wal := cap_wal c', cap_session := commit_sequence ?s\<rparr>"
    using assms(1) by (auto simp: capture_def split: sum.splits prod.splits if_splits)
  have seq: "seq = cs_next_sequence ?s" "seq \<noteq> - 1" using s(2) by (auto simp: pending_sequence_def split: if_splits)
  have sp: "log sp (cap_wal c)" "sp_pending sp = []" "sp_next sp = seq"
    using assms(2) seq(1) by (auto simp: capture_ordered_def)
  have a: "log (spec_append x sp) w1" "po_observation po = x" using append_ok [OF sp(1) s(4)] by auto
  have g: "log (spec_commit r (spec_append x sp)) (cap_wal c')" "cr_durable_at_unix_ns r = env_durable_at env"
    using commit_ok [OF a(1) s(5)] by auto
  let ?sp = "spec_commit r (spec_append x sp)"
  have "cs_next_sequence (cap_session c') = seq + 1"
    using s(7) seq saturating_succ [of seq] by (metis (no_types, lifting) capture_session.select_convs(2)
        capture_session.surjective capture_session.update_convs(2) commit_sequence_def durable_source_capture.select_convs(2)
        durable_source_capture.surjective durable_source_capture.update_convs(2))
  then have "capture_ordered log ?sp c'"
    using g(1) sp by (simp add: capture_ordered_def spec_commit_def spec_append_def)
  moreover have "sp_committed ?sp = sp_committed sp @ [co]" "sp_next ?sp = sp_next sp + 1" "sp_sealed ?sp = sp_sealed sp"
    using s(6) a(2) sp(2) by (simp_all add: spec_commit_def spec_append_def)
  moreover have "co_observation co = Some x" "ob_collector_sequence x = sp_next sp" "ob_payload x = rm_payload m"
    using s(6) a(2) build_sequence [OF s(3)] sp(3) by simp_all
  moreover have "\<not> cap_poisoned c'" "cap_identity c' = cap_identity c" "cap_max_payload_bytes c' = cap_max_payload_bytes c"
    using s(1,7) by (cases c'; simp)+
  ultimately show ?thesis using s(1) by blast
qed

text \<open>A failed capture commits nothing: the range of a commit is always the one observation, so a range
  mismatch does not occur.\<close>

lemma capture_error_commits_nothing:
  assumes "capture append commit env m c = (Inl e, c')" "capture_ordered log sp c"
  shows "\<exists>sp'. log sp' (cap_wal c') \<and> sp_committed sp' = sp_committed sp"
proof (cases "cap_poisoned c'")
  case False
  then show ?thesis using capture_error_unpoisoned [OF assms(1)] assms(2) by (auto simp: capture_ordered_def)
next
  case True
  have sp: "log sp (cap_wal c)" "sp_pending sp = []" using assms(2) by (auto simp: capture_ordered_def)
  show ?thesis
  proof (cases "c' = c")
    case False
    then obtain seq x res w1 where s: "pending_sequence (cap_session c) = Inr seq"
      "build (env_sha256 env) (env_blake3 env) (capture_builder env (cap_identity c) (cs_id (cap_session c)) seq m) = Inr x"
      "append x (cap_wal c) = (res, w1)" "(\<exists>e. res = Inl e \<and> cap_wal c' = w1) \<or>
       (\<exists>po res2. res = Inr po \<and> commit (env_durable_at env) w1 = (res2, cap_wal c') \<and>
         (\<forall>r. res2 = Inr r \<longrightarrow> cr_first_sequence r \<noteq> seq \<or> cr_last_sequence r \<noteq> seq))"
      using assms(1) by (auto simp: capture_def split: sum.splits prod.splits if_splits)
    have seq: "sp_next sp = seq" "seq \<noteq> - 1"
      using s(1) assms(2) by (auto simp: capture_ordered_def pending_sequence_def split: if_splits)
    consider e where "res = Inl e" "cap_wal c' = w1"
      | po res2 where "res = Inr po" "commit (env_durable_at env) w1 = (res2, cap_wal c')"
        "\<forall>r. res2 = Inr r \<longrightarrow> cr_first_sequence r \<noteq> seq \<or> cr_last_sequence r \<noteq> seq" using s(4) by blast
    then show ?thesis
    proof cases
      case 1
      then show ?thesis using append_error [OF sp(1)] s(3) seq by auto
    next
      case 2
      have a: "log (spec_append x sp) w1" using append_ok [OF sp(1)] s(3) 2(1) by auto
      have pend: "sp_pending (spec_append x sp) = [x]" "sp_next (spec_append x sp) = seq + 1"
        using sp(2) seq(1) by (simp_all add: spec_append_def)
      show ?thesis
      proof (cases res2)
        case (Inl e2)
        then have "log (spec_append x sp) (cap_wal c')" using commit_error [OF a] 2(2) by simp
        then show ?thesis by (intro exI [of _ "spec_append x sp"]) (simp add: spec_append_def)
      next
        case (Inr r)
        then have "cr_first_sequence r = seq \<and> cr_last_sequence r = seq"
          using commit_ok [OF a] 2(2) pend by auto
        then show ?thesis using 2(3) Inr by blast
      qed
    qed
  qed (use sp in auto)
qed

text \<open>A failed capture either poisons the writer or leaves it in order with its log.\<close>

lemma capture_error_ordered:
  assumes "capture append commit env m c = (Inl e, c')" "capture_ordered log sp c"
  shows "\<exists>sp'. log sp' (cap_wal c') \<and> sp_committed sp' = sp_committed sp \<and> (\<not> cap_poisoned c' \<longrightarrow> capture_ordered log sp' c')"
proof (cases "cap_poisoned c'")
  case False
  then have "c' = c" by (rule capture_error_unpoisoned [OF assms(1)])
  then show ?thesis using assms(2) by (auto simp: capture_ordered_def)
qed (use capture_error_commits_nothing [OF assms] in auto)

end

end
