(* ===== verification/Archive_Format.thy ===== *)
theory Archive_Format
  imports Observation_Envelope
begin

text \<open>
  Raw archive objects (\<open>crates/archive-format\<close>): the validated batch of one source session, its object
  key, the framed and compressed bytes, their decoding, and the manifest of an object. Zstandard,
  Protobuf, JSON, SHA-256 and the calendar are parameters.
\<close>

section \<open>Data\<close>

datatype format_error =
    FormatEmptyBatch
  | FormatMissingObservation nat
  | FormatInvalidLength string nat nat
  | MixedBatchField string
  | NonContiguousRange u64 u64
  | InvalidPathField string
  | InvalidTimestamp
  | RecordTooLarge
  | TruncatedFrame
  | FormatDecode string
  | FormatIo string

record archive_batch =
  ab_records :: "committed_observation list"
  ab_source_id :: string
  ab_source_session_id :: source_session_id
  ab_first_collector_sequence :: u64
  ab_last_collector_sequence :: u64
  ab_object_key :: string

record encoded_archive =
  ea_compressed_bytes :: bytes
  ea_object_sha256 :: digest
  ea_object_key :: string
  ea_source_id :: string
  ea_source_session_id :: source_session_id
  ea_first_collector_sequence :: u64
  ea_last_collector_sequence :: u64
  ea_record_count :: u64

record archive_manifest =
  am_source_session_id :: source_session_id
  am_first_collector_sequence :: u64
  am_last_collector_sequence :: u64
  am_object_key :: string
  am_object_sha256 :: digest
  am_compressed_bytes :: u64
  am_record_count :: u64
  am_previous_manifest_hash :: "digest option"

datatype manifest_error = ObjectTooLarge | ManifestJson string

text \<open>The libraries: year, month, day and hour of a time in nanoseconds, compression and its inverse,
  the Protobuf codec of a committed observation, the JSON text of a manifest, and SHA-256. A failure is
  its message.\<close>

record archive_lib =
  lib_calendar :: "i64 \<Rightarrow> (nat \<times> nat \<times> nat \<times> nat) option"
  lib_compress :: "bytes \<Rightarrow> string + bytes"
  lib_decompress :: "bytes \<Rightarrow> string + bytes"
  lib_encode :: "committed_observation \<Rightarrow> bytes"
  lib_decode :: "bytes \<Rightarrow> string + committed_observation"
  lib_manifest_json :: "archive_manifest \<Rightarrow> string + bytes"
  lib_sha256 :: "bytes \<Rightarrow> digest"

section \<open>Batches\<close>

definition observation_at :: "committed_observation list \<Rightarrow> nat \<Rightarrow> format_error + observation" where
  "observation_at records index =
     (if index < length records then ok_or (co_observation (records ! index)) (FormatMissingObservation index)
      else Inl FormatEmptyBatch)"

definition validate_path_component :: "string \<Rightarrow> string \<Rightarrow> format_error + unit" where
  "validate_path_component value field =
     (if value = [] \<or> value = ''.'' \<or> value = ''..'' \<or> CHR ''/'' \<in> set value \<or> CHR 0x5C \<in> set value \<or>
         list_ex (\<lambda>c. byte_of c < 32 \<or> byte_of c = 127) value
      then Inl (InvalidPathField field) else Inr ())"

definition archive_session :: "bytes \<Rightarrow> format_error + source_session_id" where
  "archive_session value =
     (if length value = 16 then Inr (of_nat (be_val value))
      else Inl (FormatInvalidLength ''source_session_id'' 16 (length value)))"

record partition =
  pt_date :: string
  pt_hour :: nat

definition partition_of :: "archive_lib \<Rightarrow> i64 \<Rightarrow> format_error + partition" where
  "partition_of K unix_ns = and_then (ok_or (lib_calendar K unix_ns) InvalidTimestamp) (\<lambda>(year, month, day, hour).
     Inr \<lparr>pt_date = pad_dec 4 year @ ''-'' @ pad_dec 2 month @ ''-'' @ pad_dec 2 day, pt_hour = hour\<rparr>)"

definition hex :: "bytes \<Rightarrow> string" where
  "hex bs = concat (map (\<lambda>b. [hex_digit (unat b div 16), hex_digit (unat b mod 16)]) bs)"

definition object_key_of :: "observation \<Rightarrow> partition \<Rightarrow> source_session_id \<Rightarrow> u64 \<Rightarrow> u64 \<Rightarrow> string" where
  "object_key_of x part session first_sequence final_sequence =
     ''raw/chain='' @ ob_chain x @ ''/network='' @ ob_network x @ ''/source='' @ ob_source_id x @
     ''/channel='' @ ob_channel x @ ''/date='' @ pt_date part @ ''/hour='' @ dec_string (pt_hour part) @
     ''/part-'' @ hex (session_bytes session) @ ''-'' @ dec_string (unat first_sequence) @ ''-'' @
     dec_string (unat final_sequence) @ ''.bin.zst''"

text \<open>The loop over the records: the first record fixes the partition, each record must carry the next
  sequence. The result is the sequence after the last record.\<close>

fun check_records ::
  "archive_lib \<Rightarrow> observation \<Rightarrow> partition \<Rightarrow> nat \<Rightarrow> u64 \<Rightarrow> committed_observation list \<Rightarrow> format_error + u64" where
  "check_records K x part index expected [] = Inr expected"
| "check_records K x part index expected (r # rs) =
     and_then (ok_or (co_observation r) (FormatMissingObservation index)) (\<lambda>y.
     if ob_source_id y \<noteq> ob_source_id x then Inl (MixedBatchField ''source_id'')
     else if ob_source_session_id y \<noteq> ob_source_session_id x then Inl (MixedBatchField ''source_session_id'')
     else if ob_chain y \<noteq> ob_chain x then Inl (MixedBatchField ''chain'')
     else if ob_network y \<noteq> ob_network x then Inl (MixedBatchField ''network'')
     else if ob_channel y \<noteq> ob_channel x then Inl (MixedBatchField ''channel'')
     else and_then (partition_of K (ob_observed_at_unix_ns y)) (\<lambda>p.
       if p \<noteq> part then Inl (MixedBatchField ''partition_hour'')
       else if ob_collector_sequence y \<noteq> expected then Inl (NonContiguousRange expected (ob_collector_sequence y))
       else and_then (ok_or (checked_add expected 1) (NonContiguousRange (- 1) (- 1))) (\<lambda>next.
         check_records K x part (Suc index) next rs)))"

definition batch_try_new :: "archive_lib \<Rightarrow> committed_observation list \<Rightarrow> format_error + archive_batch" where
  "batch_try_new K records =
     and_then (observation_at records 0) (\<lambda>x.
     and_then (validate_path_component (ob_source_id x) ''source_id'') (\<lambda>_.
     and_then (validate_path_component (ob_chain x) ''chain'') (\<lambda>_.
     and_then (validate_path_component (ob_network x) ''network'') (\<lambda>_.
     and_then (validate_path_component (ob_channel x) ''channel'') (\<lambda>_.
     and_then (archive_session (ob_source_session_id x)) (\<lambda>session.
     and_then (partition_of K (ob_observed_at_unix_ns x)) (\<lambda>part.
     and_then (check_records K x part 0 (ob_collector_sequence x) records) (\<lambda>expected.
       Inr \<lparr>ab_records = records, ab_source_id = ob_source_id x, ab_source_session_id = session,
         ab_first_collector_sequence = ob_collector_sequence x, ab_last_collector_sequence = expected - 1,
         ab_object_key = object_key_of x part session (ob_collector_sequence x) (expected - 1)\<rparr>))))))))"

fun frame_records :: "archive_lib \<Rightarrow> committed_observation list \<Rightarrow> format_error + bytes" where
  "frame_records K [] = Inr []"
| "frame_records K (r # rs) =
     (let bs = lib_encode K r
      in if 2 ^ 32 \<le> length bs then Inl RecordTooLarge
         else and_then (frame_records K rs) (\<lambda>rest. Inr (be_bytes 4 (length bs) @ bs @ rest)))"

definition batch_encode :: "archive_lib \<Rightarrow> archive_batch \<Rightarrow> format_error + encoded_archive" where
  "batch_encode K b =
     and_then (frame_records K (ab_records b)) (\<lambda>framed.
     and_then (map_sum FormatIo id (lib_compress K framed)) (\<lambda>compressed.
     if 2 ^ 64 \<le> length (ab_records b) then Inl RecordTooLarge
     else Inr \<lparr>ea_compressed_bytes = compressed, ea_object_sha256 = lib_sha256 K compressed,
       ea_object_key = ab_object_key b, ea_source_id = ab_source_id b, ea_source_session_id = ab_source_session_id b,
       ea_first_collector_sequence = ab_first_collector_sequence b,
       ea_last_collector_sequence = ab_last_collector_sequence b, ea_record_count = of_nat (length (ab_records b))\<rparr>))"

text \<open>The frames that are left to read; a frame is at least its length field, so the loop ends.\<close>

function decode_frames :: "archive_lib \<Rightarrow> bytes \<Rightarrow> format_error + committed_observation list" where
  "decode_frames K bs =
     (if bs = [] then Inr []
      else if length bs < 4 then Inl TruncatedFrame
      else let n = be_val (take 4 bs); rest = drop 4 bs
        in if length rest < n then Inl TruncatedFrame
           else and_then (map_sum FormatDecode id (lib_decode K (take n rest))) (\<lambda>r.
             and_then (decode_frames K (drop n rest)) (\<lambda>rs. Inr (r # rs))))"
  by pat_completeness auto
termination
  by (relation "measure (length \<circ> snd)") auto

declare decode_frames.simps [simp del]

definition decode_archive :: "archive_lib \<Rightarrow> bytes \<Rightarrow> format_error + committed_observation list" where
  "decode_archive K bs = and_then (map_sum FormatIo id (lib_decompress K bs)) (decode_frames K)"

section \<open>Manifests\<close>

definition manifest_from_encoded :: "encoded_archive \<Rightarrow> digest option \<Rightarrow> manifest_error + archive_manifest" where
  "manifest_from_encoded ob previous =
     (if 2 ^ 64 \<le> length (ea_compressed_bytes ob) then Inl ObjectTooLarge
      else Inr \<lparr>am_source_session_id = ea_source_session_id ob, am_first_collector_sequence = ea_first_collector_sequence ob,
        am_last_collector_sequence = ea_last_collector_sequence ob, am_object_key = ea_object_key ob,
        am_object_sha256 = ea_object_sha256 ob, am_compressed_bytes = of_nat (length (ea_compressed_bytes ob)),
        am_record_count = ea_record_count ob, am_previous_manifest_hash = previous\<rparr>)"

definition manifest_json_bytes :: "archive_lib \<Rightarrow> archive_manifest \<Rightarrow> manifest_error + bytes" where
  "manifest_json_bytes K m = map_sum ManifestJson id (lib_manifest_json K m)"

definition manifest_hash :: "archive_lib \<Rightarrow> archive_manifest \<Rightarrow> manifest_error + digest" where
  "manifest_hash K m = map_sum ManifestJson (lib_sha256 K) (lib_manifest_json K m)"

lemma manifest_from_encoded_fields:
  assumes "manifest_from_encoded ob previous = Inr m"
  shows "am_source_session_id m = ea_source_session_id ob" "am_first_collector_sequence m = ea_first_collector_sequence ob"
    "am_last_collector_sequence m = ea_last_collector_sequence ob" "am_previous_manifest_hash m = previous"
    "am_object_key m = ea_object_key ob" "am_object_sha256 m = ea_object_sha256 ob"
    "length (ea_compressed_bytes ob) < 2 ^ 64" "am_compressed_bytes m = of_nat (length (ea_compressed_bytes ob))"
  using assms by (auto simp: manifest_from_encoded_def split: if_splits)

section \<open>Accepted batches\<close>

text \<open>The stream of an observation, and the position of a record in a batch that starts at a sequence.\<close>

definition stream_of :: "observation \<Rightarrow> string \<times> bytes \<times> string \<times> string \<times> string" where
  "stream_of x = (ob_source_id x, ob_source_session_id x, ob_chain x, ob_network x, ob_channel x)"

definition record_at :: "observation \<Rightarrow> nat \<Rightarrow> committed_observation \<Rightarrow> bool" where
  "record_at x n r \<longleftrightarrow> (\<exists>y. co_observation r = Some y \<and> stream_of y = stream_of x \<and> unat (ob_collector_sequence y) = n)"

lemma check_records_Inr:
  assumes "check_records K x part index expected rs = Inr after"
  shows "unat after = unat expected + length rs \<and> (\<forall>i<length rs. record_at x (unat expected + i) (rs ! i))"
  using assms
proof (induction rs arbitrary: index expected)
  case (Cons r rs)
  from Cons.prems obtain y where y: "co_observation r = Some y" "stream_of y = stream_of x" "ob_collector_sequence y = expected"
    and step: "unat expected + 1 < 2 ^ 64" "check_records K x part (Suc index) (expected + 1) rs = Inr after"
    by (auto simp: rust_result rust_arith stream_of_def split: if_splits)
  have "unat (expected + 1) = unat expected + 1" using step(1) by (simp add: unat_word_ariths)
  moreover note Cons.IH [OF step(2)]
  ultimately show ?case using y by (auto simp: record_at_def nth_Cons' less_Suc_eq_0_disj)
qed simp

lemma archive_session_Inr:
  "archive_session bs = Inr session \<longleftrightarrow> bs = session_bytes session"
proof
  assume "archive_session bs = Inr session"
  then show "bs = session_bytes session"
    by (auto simp: archive_session_def session_bytes_def be_bytes_word split: if_splits)
next
  assume "bs = session_bytes session"
  then show "archive_session bs = Inr session"
    by (simp add: archive_session_def session_bytes_def be_word_roundtrip)
qed

text \<open>An accepted batch is one record after the other of one stream.\<close>

lemma batch_try_new_Inr:
  assumes "batch_try_new K records = Inr b"
  obtains x part where "records \<noteq> []" "ab_records b = records" "ab_source_id b = ob_source_id x"
    "ob_source_session_id x = session_bytes (ab_source_session_id b)"
    "validate_path_component (ob_source_id x) ''source_id'' = Inr ()"
    "validate_path_component (ob_chain x) ''chain'' = Inr ()"
    "validate_path_component (ob_network x) ''network'' = Inr ()"
    "validate_path_component (ob_channel x) ''channel'' = Inr ()"
    "\<And>i. i < length records \<Longrightarrow> record_at x (unat (ab_first_collector_sequence b) + i) (records ! i)"
    "unat (ab_last_collector_sequence b) + 1 = unat (ab_first_collector_sequence b) + length records"
    "\<exists>ns. partition_of K ns = Inr part"
    "ab_object_key b = object_key_of x part (ab_source_session_id b) (ab_first_collector_sequence b) (ab_last_collector_sequence b)"
proof -
  from assms obtain x part session after where
    x: "records \<noteq> []" "validate_path_component (ob_source_id x) ''source_id'' = Inr ()"
    "validate_path_component (ob_chain x) ''chain'' = Inr ()" "validate_path_component (ob_network x) ''network'' = Inr ()"
    "validate_path_component (ob_channel x) ''channel'' = Inr ()" "archive_session (ob_source_session_id x) = Inr session"
    "partition_of K (ob_observed_at_unix_ns x) = Inr part"
    "check_records K x part 0 (ob_collector_sequence x) records = Inr after"
    and b: "b = \<lparr>ab_records = records, ab_source_id = ob_source_id x, ab_source_session_id = session,
         ab_first_collector_sequence = ob_collector_sequence x, ab_last_collector_sequence = after - 1,
         ab_object_key = object_key_of x part session (ob_collector_sequence x) (after - 1)\<rparr>"
    by (auto simp: batch_try_new_def observation_at_def rust_result split: if_splits)
  note after = check_records_Inr [OF x(8)]
  then have "unat after \<noteq> 0" using x(1) by simp
  then have "after \<noteq> 0" by (simp add: unat_eq_0)
  then have "unat (after - 1) + 1 = unat after" using unat_minus_one [of after] \<open>unat after \<noteq> 0\<close> by linarith
  note last = this after
  show thesis
  proof (rule that [of x part])
    show "\<exists>ns. partition_of K ns = Inr part" using x(7) by blast
    show "record_at x (unat (ab_first_collector_sequence b) + i) (records ! i)" if "i < length records" for i
      using last that by (simp add: b)
  qed (use x(1-6) last in \<open>simp_all add: b archive_session_Inr\<close>)
qed

section \<open>Round trip\<close>

text \<open>What the codec and the compression promise.\<close>

definition archive_codec :: "archive_lib \<Rightarrow> bool" where
  "archive_codec K \<longleftrightarrow> (\<forall>r. lib_decode K (lib_encode K r) = Inr r) \<and>
     (\<forall>bs cs. lib_compress K bs = Inr cs \<longrightarrow> lib_decompress K cs = Inr bs)"

lemma decode_frame_records:
  assumes "archive_codec K" "frame_records K rs = Inr bs"
  shows "decode_frames K bs = Inr rs"
  using assms(2)
proof (induction rs arbitrary: bs)
  case (Cons r rs)
  let ?f = "lib_encode K r"
  from Cons.prems obtain rest where f: "length ?f < 2 ^ 32" "frame_records K rs = Inr rest"
    "bs = be_bytes 4 (length ?f) @ ?f @ rest"
    by (auto simp: Let_def rust_result split: if_splits)
  have "be_val (take 4 bs) = length ?f" using f(1,3) by (simp add: be_val_be_bytes)
  moreover have "take (length ?f) (drop 4 bs) = ?f" "drop (length ?f) (drop 4 bs) = rest" using f(3) by simp_all
  moreover have "lib_decode K ?f = Inr r" using assms(1) by (simp add: archive_codec_def)
  ultimately show ?case
    using Cons.IH [OF f(2)] f(3) by (subst decode_frames.simps) (simp add: Let_def)
qed (simp add: decode_frames.simps)

lemma decode_encoded:
  assumes "archive_codec K" "batch_encode K b = Inr e"
  shows "decode_archive K (ea_compressed_bytes e) = Inr (ab_records b)"
proof -
  from assms(2) obtain framed where "frame_records K (ab_records b) = Inr framed"
    "lib_compress K framed = Inr (ea_compressed_bytes e)"
    by (auto simp: batch_encode_def rust_result split: if_splits)
  then show ?thesis
    using decode_frame_records [OF assms(1)] assms(1) by (auto simp: decode_archive_def archive_codec_def)
qed

lemma batch_encode_fields:
  assumes "batch_encode K b = Inr e"
  shows "ea_object_sha256 e = lib_sha256 K (ea_compressed_bytes e)" "ea_object_key e = ab_object_key b"
    "ea_source_id e = ab_source_id b" "ea_source_session_id e = ab_source_session_id b"
    "ea_first_collector_sequence e = ab_first_collector_sequence b"
    "ea_last_collector_sequence e = ab_last_collector_sequence b" "ea_record_count e = of_nat (length (ab_records b))"
  using assms by (auto simp: batch_encode_def rust_result split: if_splits)

section \<open>Object keys\<close>

lemma dec_string_no:
  "CHR ''/'' \<notin> set (dec_string n)" "CHR ''-'' \<notin> set (dec_string n)" "CHR ''.'' \<notin> set (dec_string n)"
proof -
  have "list_all is_ascii_digit (dec_string n)" using dec_string_digits by blast
  then show "CHR ''/'' \<notin> set (dec_string n)" "CHR ''-'' \<notin> set (dec_string n)" "CHR ''.'' \<notin> set (dec_string n)"
    by (auto simp: list_all_iff is_ascii_digit_def byte_of_def)
qed

lemma partition_no_slash: "partition_of K ns = Inr part \<Longrightarrow> CHR ''/'' \<notin> set (pt_date part)"
  by (auto simp: partition_of_def rust_result pad_dec_def dec_string_no)

lemma path_component_no_slash: "validate_path_component v field = Inr () \<Longrightarrow> CHR ''/'' \<notin> set v"
  by (auto simp: validate_path_component_def split: if_splits)

lemma hex_inj: "hex xs = hex ys \<longleftrightarrow> xs = ys"
  using encode_hex_inj [of xs ys] by (simp add: hex_def encode_hex_def)

lemma length_hex: "length (hex bs) = 2 * length bs"
  by (induction bs) (simp_all add: hex_def)

lemma session_bytes_inj: "session_bytes a = session_bytes b \<longleftrightarrow> a = b"
  by (simp add: session_bytes_def be_bytes_word_inj)

text \<open>The fields of a path, each closed by a slash.\<close>

fun joined :: "(string \<times> string) list \<Rightarrow> string \<Rightarrow> string" where
  "joined [] t = t"
| "joined ((c, v) # ps) t = c @ v @ CHR ''/'' # joined ps t"

lemma joined_inj:
  assumes "map fst ps = map fst qs" "\<forall>p \<in> set ps \<union> set qs. CHR ''/'' \<notin> set (snd p)" "joined ps t = joined qs u"
  shows "ps = qs \<and> t = u"
  using assms
proof (induction ps t arbitrary: qs rule: joined.induct)
  case (2 c v ps t)
  then obtain v' qs' where qs: "qs = (c, v') # qs'" "map fst ps = map fst qs'" by (cases qs) auto
  with 2 have "v @ CHR ''/'' # joined ps t = v' @ CHR ''/'' # joined qs' u" by simp
  moreover have "CHR ''/'' \<notin> set v" "CHR ''/'' \<notin> set v'" using 2 qs by auto
  ultimately have "v = v' \<and> joined ps t = joined qs' u" by (intro append_separator)
  with 2 qs show ?case by auto
qed simp

lemma object_key_joined:
  "object_key_of x part s f l = joined [(''raw/chain='', ob_chain x), (''network='', ob_network x), (''source='', ob_source_id x),
     (''channel='', ob_channel x), (''date='', pt_date part), (''hour='', dec_string (pt_hour part))]
     (''part-'' @ hex (session_bytes s) @ CHR ''-'' # dec_string (unat f) @ CHR ''-'' # dec_string (unat l) @ ''.bin.zst'')"
  by (simp add: object_key_of_def)

lemma object_key_of_inj:
  assumes "object_key_of x part s f l = object_key_of x' part' s' f' l'"
    "CHR ''/'' \<notin> set (ob_chain x) \<union> set (ob_network x) \<union> set (ob_source_id x) \<union> set (ob_channel x) \<union> set (pt_date part)"
    "CHR ''/'' \<notin> set (ob_chain x') \<union> set (ob_network x') \<union> set (ob_source_id x') \<union> set (ob_channel x') \<union> set (pt_date part')"
  shows "ob_source_id x = ob_source_id x' \<and> s = s' \<and> f = f' \<and> l = l'"
proof -
  have rest: "ob_source_id x = ob_source_id x'"
    "hex (session_bytes s) @ CHR ''-'' # dec_string (unat f) @ CHR ''-'' # dec_string (unat l) @ ''.bin.zst'' =
     hex (session_bytes s') @ CHR ''-'' # dec_string (unat f') @ CHR ''-'' # dec_string (unat l') @ ''.bin.zst''"
    using joined_inj [OF _ _ assms(1) [unfolded object_key_joined]] assms(2,3) dec_string_no by simp_all
  then have h: "hex (session_bytes s) = hex (session_bytes s')"
    "dec_string (unat f) @ CHR ''-'' # dec_string (unat l) @ ''.bin.zst'' =
     dec_string (unat f') @ CHR ''-'' # dec_string (unat l') @ ''.bin.zst''"
    by (simp_all add: length_hex session_bytes_def)
  from append_separator [OF _ _ h(2)] dec_string_no
  have "dec_string (unat f) = dec_string (unat f')" "dec_string (unat l) = dec_string (unat l')" by simp_all
  then show ?thesis using rest(1) h(1) by (simp add: hex_inj session_bytes_inj dec_string_inj word_unat_eq_iff)
qed

end
