(* ===== verification/Io_Calls.thy ===== *)
theory Io_Calls
  imports Prelude
begin

text \<open>
  Calls of remote systems, for the adapters that make them, and Hoare triples for sequences of calls.
\<close>

section \<open>External calls\<close>

text \<open>What a call of a remote system answers: success, or a failure with its message, which says nothing
  on whether the call took effect; the flag of a failed write says whether it did. A sequence of answers
  that has ended means success. A call with state \<open>'s\<close> returns a result or an error with the state after it.\<close>

datatype io_answer = IoOk | IoFail string bool

type_synonym ('s, 'e, 'a) io = "'s \<Rightarrow> ('e + 'a) \<times> 's"

definition io_return :: "'a \<Rightarrow> ('s, 'e, 'a) io" where
  "io_return x s = (Inr x, s)"

definition io_result :: "'e + 'a \<Rightarrow> ('s, 'e, 'a) io" where
  "io_result r s = (r, s)"

definition io_bind :: "('s, 'e, 'a) io \<Rightarrow> ('a \<Rightarrow> ('s, 'e, 'b) io) \<Rightarrow> ('s, 'e, 'b) io" where
  "io_bind m f s = (case m s of (Inl e, s1) \<Rightarrow> (Inl e, s1) | (Inr x, s1) \<Rightarrow> f x s1)"

lemma io_bind_Inr_iff [rust_result]:
  "io_bind m f s = (Inr y, s') \<longleftrightarrow> (\<exists>x s1. m s = (Inr x, s1) \<and> f x s1 = (Inr y, s'))"
  by (auto simp: io_bind_def split: prod.splits sum.splits)

lemma io_bind_Inl_iff [rust_result]:
  "io_bind m f s = (Inl e, s') \<longleftrightarrow> m s = (Inl e, s') \<or> (\<exists>x s1. m s = (Inr x, s1) \<and> f x s1 = (Inl e, s'))"
  by (auto simp: io_bind_def split: prod.splits sum.splits)

lemma io_simps [simp]:
  "io_return x s = (Inr x, s)" "io_result r s = (r, s)"
  by (simp_all add: io_return_def io_result_def)

text \<open>Hoare triples for calls, with a postcondition for results and one for failures.\<close>

definition io_triple :: "('s \<Rightarrow> bool) \<Rightarrow> ('s, 'e, 'a) io \<Rightarrow> ('a \<Rightarrow> 's \<Rightarrow> bool) \<Rightarrow> ('s \<Rightarrow> bool) \<Rightarrow> bool" where
  "io_triple P m Q E \<longleftrightarrow> (\<forall>s. P s \<longrightarrow> (case m s of (Inr x, s') \<Rightarrow> Q x s' | (Inl e, s') \<Rightarrow> E s'))"

lemma io_tripleI:
  assumes "\<And>s s' x. P s \<Longrightarrow> m s = (Inr x, s') \<Longrightarrow> Q x s'" "\<And>s s' e. P s \<Longrightarrow> m s = (Inl e, s') \<Longrightarrow> E s'"
  shows "io_triple P m Q E"
  using assms by (auto simp: io_triple_def split: prod.splits sum.splits)

lemma io_triple_at: "io_triple P m Q E \<Longrightarrow> P s \<Longrightarrow> case m s of (Inr x, s') \<Rightarrow> Q x s' | (Inl e, s') \<Rightarrow> E s'"
  by (simp add: io_triple_def)

lemma io_tripleD:
  assumes "io_triple P m Q E" "P s" "m s = (r, s')"
  shows "case r of Inr x \<Rightarrow> Q x s' | Inl e \<Rightarrow> E s'"
  using assms by (fastforce simp: io_triple_def)

lemma io_triple_bind:
  assumes "io_triple P m R E" "\<And>x. io_triple (R x) (f x) Q E"
  shows "io_triple P (io_bind m f) Q E"
  using assms by (fastforce simp: io_triple_def io_bind_def split: prod.splits sum.splits)

lemma io_triple_return: "(\<And>s. P s \<Longrightarrow> Q x s) \<Longrightarrow> io_triple P (io_return x) Q E"
  by (simp add: io_triple_def)

lemma io_triple_result:
  assumes "\<And>s x. P s \<Longrightarrow> r = Inr x \<Longrightarrow> Q x s" "\<And>s e. P s \<Longrightarrow> r = Inl e \<Longrightarrow> E s"
  shows "io_triple P (io_result r) Q E"
  using assms by (auto simp: io_triple_def split: sum.splits)

lemma io_triple_weaken:
  assumes "io_triple P m Q E" "\<And>s. P' s \<Longrightarrow> P s" "\<And>x s. Q x s \<Longrightarrow> Q' x s" "\<And>s. E s \<Longrightarrow> E' s"
  shows "io_triple P' m Q' E'"
  using assms by (fastforce simp: io_triple_def split: prod.splits sum.splits)

lemma io_triple_pre: "(A \<Longrightarrow> io_triple P m Q E) \<Longrightarrow> io_triple (\<lambda>s. A \<and> P s) m Q E"
  by (auto simp: io_triple_def)

lemma io_triple_case_option:
  assumes "\<And>x. io_triple (\<lambda>s. P s \<and> v s = Some x) (f x) Q E" "io_triple (\<lambda>s. P s \<and> v s = None) g Q E"
  shows "io_triple P (\<lambda>s. case v s of Some x \<Rightarrow> f x s | None \<Rightarrow> g s) Q E"
  using assms unfolding io_triple_def by (auto split: option.split)

lemma io_triple_if:
  assumes "io_triple (\<lambda>s. P s \<and> c s) m Q E" "io_triple (\<lambda>s. P s \<and> \<not> c s) n Q E"
  shows "io_triple P (\<lambda>s. if c s then m s else n s) Q E"
  using assms unfolding io_triple_def by simp

lemma io_triple_error: "(\<And>s. P s \<Longrightarrow> E s) \<Longrightarrow> io_triple P (\<lambda>s. (Inl err, s)) Q E"
  by (simp add: io_triple_def)

lemma io_triple_value: "(\<And>s. P s \<Longrightarrow> Q x s) \<Longrightarrow> io_triple P (\<lambda>s. (Inr x, s)) Q E"
  by (simp add: io_triple_def)

end
