(* ===== verification/Storage_Ports.thy ===== *)
theory Storage_Ports
  imports Archive_Format Io_Calls
begin

text \<open>
  The storage boundaries of \<open>crates/storage-ports\<close>: broker acknowledgements, durable checkpoints and the
  test that a sealed segment of the write-ahead log may be reclaimed, and the results of the raw archive.
\<close>

section \<open>Broker\<close>

datatype broker_error =
    EmptyBatch
  | MissingObservation nat
  | MixedSourceSession
  | BrokerInvalidLength string nat nat
  | Delivery string

record broker_ack =
  ack_source_session_id :: source_session_id
  ack_last_collector_sequence :: u64
  ack_record_count :: u64

section \<open>Checkpoints\<close>

datatype checkpoint_kind = Broker | Archive

record durable_checkpoint =
  dc_source_session_id :: source_session_id
  dc_last_collector_sequence :: u64

datatype checkpoint_error =
    CheckpointSourceSessionMismatch
  | Regression u64 u64
  | CheckpointStorage string

definition checkpoint_advance :: "durable_checkpoint option \<Rightarrow> durable_checkpoint \<Rightarrow> checkpoint_error + durable_checkpoint" where
  "checkpoint_advance current candidate =
     (case current of
        Some c \<Rightarrow>
          if dc_source_session_id c \<noteq> dc_source_session_id candidate then Inl CheckpointSourceSessionMismatch
          else if dc_last_collector_sequence candidate < dc_last_collector_sequence c
          then Inl (Regression (dc_last_collector_sequence c) (dc_last_collector_sequence candidate))
          else Inr candidate
      | None \<Rightarrow> Inr candidate)"

record sealed_wal_segment =
  sg_source_session_id :: source_session_id
  sg_last_collector_sequence :: u64

datatype reclaim_blocker =
    MissingBrokerCheckpoint
  | MissingArchiveCheckpoint
  | ReclaimSessionMismatch checkpoint_kind
  | InsufficientCoverage checkpoint_kind u64 u64

definition validate_coverage :: "sealed_wal_segment \<Rightarrow> durable_checkpoint \<Rightarrow> checkpoint_kind \<Rightarrow> reclaim_blocker + unit" where
  "validate_coverage seg c kind =
     (if dc_source_session_id c \<noteq> sg_source_session_id seg then Inl (ReclaimSessionMismatch kind)
      else if dc_last_collector_sequence c < sg_last_collector_sequence seg
      then Inl (InsufficientCoverage kind (sg_last_collector_sequence seg) (dc_last_collector_sequence c))
      else Inr ())"

definition ensure_reclaimable ::
  "sealed_wal_segment \<Rightarrow> durable_checkpoint option \<Rightarrow> durable_checkpoint option \<Rightarrow> reclaim_blocker + unit" where
  "ensure_reclaimable seg broker archive =
     and_then (ok_or broker MissingBrokerCheckpoint) (\<lambda>b.
     and_then (validate_coverage seg b Broker) (\<lambda>_.
     and_then (ok_or archive MissingArchiveCheckpoint) (\<lambda>a. validate_coverage seg a Archive)))"

lemma checkpoint_advance_Inr:
  "checkpoint_advance cur cand = Inr cp \<longleftrightarrow> cp = cand \<and>
     (\<forall>c. cur = Some c \<longrightarrow> dc_source_session_id c = dc_source_session_id cand \<and>
       dc_last_collector_sequence c \<le> dc_last_collector_sequence cand)"
  by (auto simp: checkpoint_advance_def split: option.splits)

lemma checkpoint_advance_view:
  "checkpoint_advance (map_option (\<lambda>n. \<lparr>dc_source_session_id = dc_source_session_id cp, dc_last_collector_sequence = n\<rparr>) v) cp = Inr c \<longleftrightarrow>
     c = cp \<and> (\<forall>m. v = Some m \<longrightarrow> m \<le> dc_last_collector_sequence cp)"
  by (cases v) (auto simp: checkpoint_advance_Inr)

lemma ensure_reclaimable_Inr:
  "ensure_reclaimable seg broker archive = Inr () \<longleftrightarrow>
     (\<exists>b a. broker = Some b \<and> archive = Some a \<and> dc_source_session_id b = sg_source_session_id seg \<and>
       dc_source_session_id a = sg_source_session_id seg \<and>
       sg_last_collector_sequence seg \<le> dc_last_collector_sequence b \<and>
       sg_last_collector_sequence seg \<le> dc_last_collector_sequence a)"
  by (auto simp: ensure_reclaimable_def validate_coverage_def rust_result not_less split: if_splits)

section \<open>Raw archive\<close>

record staged_object =
  so_object_key :: string
  so_object_sha256 :: digest
  so_compressed_bytes :: u64

record manifest_ack =
  ma_manifest_hash :: digest
  ma_last_collector_sequence :: u64

datatype archive_error =
    ArchiveEncoding string
  | MissingObject string
  | LengthMismatch u64 u64
  | ChecksumMismatch
  | NotVerified string
  | OverlappingRange
  | ManifestChainMismatch
  | CommitWithheld
  | ArchiveStorage string

end
