(* ===== verification/Source_Runtime.thy ===== *)
theory Source_Runtime
  imports Source_Capture Storage_Ports
begin

text \<open>
  The polling runtime of \<open>crates/source-runtime/src/lib.rs\<close>: transport failures, back-off, source health,
  the loop that captures a message before it publishes it, and the sequential HTTP polling transport.
  The loop is a function of the sequence of its environment's answers: which branch of a select wins,
  what the transport and the broker return, and what the clock reads. Network I/O is an input.
\<close>

section \<open>Transport results\<close>

datatype transport_failure_kind = Network | Timeout | HttpRetryable | HttpPermanent | FailureResponseTooLarge

datatype transport_error =
    Transient transport_failure_kind
  | Permanent transport_failure_kind
  | ResponseTooLarge nat

fun transport_kind :: "transport_error \<Rightarrow> transport_failure_kind" where
  "transport_kind (Transient k) = k"
| "transport_kind (Permanent k) = k"
| "transport_kind (ResponseTooLarge _) = FailureResponseTooLarge"

fun retryable :: "transport_error \<Rightarrow> bool" where
  "retryable (Transient _) = True"
| "retryable _ = False"

datatype poll_disposition =
    PollSuccess
  | RetryableFailure transport_failure_kind
  | PermanentFailure transport_failure_kind

record poll_event =
  pe_message :: raw_source_message
  pe_disposition :: poll_disposition
  pe_cycle_complete :: bool

definition poll_success :: "string \<Rightarrow> string \<Rightarrow> bytes \<Rightarrow> u64 \<Rightarrow> bool \<Rightarrow> capture_error + poll_event" where
  "poll_success channel message_type payload seq cycle_complete =
     map_sum id (\<lambda>m. \<lparr>pe_message = with_source_sequence seq m, pe_disposition = PollSuccess,
       pe_cycle_complete = cycle_complete\<rparr>) (raw_source_message_new channel message_type payload)"

definition poll_retryable_failure ::
  "string \<Rightarrow> string \<Rightarrow> bytes \<Rightarrow> u64 \<Rightarrow> transport_failure_kind \<Rightarrow> capture_error + poll_event" where
  "poll_retryable_failure channel message_type payload seq kind =
     map_sum id (\<lambda>m. \<lparr>pe_message = with_source_sequence seq m, pe_disposition = RetryableFailure kind,
       pe_cycle_complete = False\<rparr>) (raw_source_message_new channel message_type payload)"

definition poll_permanent_failure ::
  "string \<Rightarrow> string \<Rightarrow> bytes \<Rightarrow> u64 \<Rightarrow> transport_failure_kind \<Rightarrow> capture_error + poll_event" where
  "poll_permanent_failure channel message_type payload seq kind =
     map_sum id (\<lambda>m. \<lparr>pe_message = with_source_sequence seq m, pe_disposition = PermanentFailure kind,
       pe_cycle_complete = False\<rparr>) (raw_source_message_new channel message_type payload)"

section \<open>Back-off and health\<close>

text \<open>A duration is its number of nanoseconds; the largest has \<open>u64::MAX\<close> seconds and 999999999
  nanoseconds.\<close>

definition max_duration_ns :: nat where
  "max_duration_ns = (2 ^ 64 - 1) * 1000000000 + 999999999"

datatype source_loop_error =
    InvalidConfig string
  | LoopCapture capture_error
  | LoopBroker broker_error
  | LoopTransport transport_error

record backoff_policy =
  bo_initial :: nat
  bo_maximum :: nat

definition backoff_policy_new :: "nat \<Rightarrow> nat \<Rightarrow> source_loop_error + backoff_policy" where
  "backoff_policy_new initial maximum =
     (if initial = 0 \<or> maximum = 0 \<or> maximum < initial
      then Inl (InvalidConfig ''backoff durations must be non-zero and initial must not exceed maximum'')
      else Inr \<lparr>bo_initial = initial, bo_maximum = maximum\<rparr>)"

definition checked_mul_duration :: "nat \<Rightarrow> nat \<Rightarrow> nat option" where
  "checked_mul_duration d k = (if d * k \<le> max_duration_ns then Some (d * k) else None)"

definition backoff_delay :: "backoff_policy \<Rightarrow> u64 \<Rightarrow> nat" where
  "backoff_delay p consecutive_failures =
     (let shift = min (unat (saturating_sub consecutive_failures 1)) 31
      in min (case checked_mul_duration (bo_initial p) (2 ^ shift) of None \<Rightarrow> bo_maximum p | Some d \<Rightarrow> d) (bo_maximum p))"

record source_loop_config =
  lc_poll_interval :: nat
  lc_backoff :: backoff_policy

definition source_loop_config_new :: "nat \<Rightarrow> backoff_policy \<Rightarrow> source_loop_error + source_loop_config" where
  "source_loop_config_new interval p =
     (if interval = 0 then Inl (InvalidConfig ''poll interval must be non-zero'')
      else Inr \<lparr>lc_poll_interval = interval, lc_backoff = p\<rparr>)"

datatype source_state = Starting | Healthy | Degraded | Failed | Stopped

record incomplete_interval =
  iv_opened_at_unix_ns :: i64
  iv_closed_at_unix_ns :: "i64 option"
  iv_failure_count :: u64
  iv_reason :: transport_failure_kind

record source_health =
  sh_state :: source_state
  sh_successful_observations :: u64
  sh_next_collector_sequence :: u64
  sh_consecutive_failures :: u64
  sh_active_interval :: "incomplete_interval option"
  sh_last_closed_interval :: "incomplete_interval option"

definition source_health_new :: "u64 \<Rightarrow> source_health" where
  "source_health_new n = \<lparr>sh_state = Starting, sh_successful_observations = 0, sh_next_collector_sequence = n,
     sh_consecutive_failures = 0, sh_active_interval = None, sh_last_closed_interval = None\<rparr>"

definition health_record_failure :: "i64 \<Rightarrow> transport_failure_kind \<Rightarrow> source_health \<Rightarrow> source_health" where
  "health_record_failure now kind h =
     h\<lparr>sh_state := Degraded, sh_consecutive_failures := saturating_add (sh_consecutive_failures h) 1,
       sh_active_interval := Some (case sh_active_interval h of
           Some iv \<Rightarrow> iv\<lparr>iv_failure_count := saturating_add (iv_failure_count iv) 1\<rparr>
         | None \<Rightarrow> \<lparr>iv_opened_at_unix_ns = now, iv_closed_at_unix_ns = None, iv_failure_count = 1, iv_reason = kind\<rparr>)\<rparr>"

definition health_record_success :: "i64 \<Rightarrow> u64 \<Rightarrow> source_health \<Rightarrow> source_health" where
  "health_record_success now next h =
     h\<lparr>sh_state := Healthy, sh_successful_observations := saturating_add (sh_successful_observations h) 1,
       sh_next_collector_sequence := next, sh_consecutive_failures := 0, sh_active_interval := None,
       sh_last_closed_interval := (case sh_active_interval h of
           Some iv \<Rightarrow> Some (iv\<lparr>iv_closed_at_unix_ns := Some now\<rparr>)
         | None \<Rightarrow> sh_last_closed_interval h)\<rparr>"

section \<open>The loop\<close>

datatype run_exit = CycleComplete | Cancelled

text \<open>The broker is the list of the batches it has accepted, with their topics.\<close>

record 'w source_loop =
  sl_capture :: "'w durable_source_capture"
  sl_published :: "(string \<times> committed_observation list) list"
  sl_topic :: string
  sl_config :: source_loop_config
  sl_health :: source_health

definition source_loop_new ::
  "'w durable_source_capture \<Rightarrow> string \<Rightarrow> source_loop_config \<Rightarrow> source_loop_error + 'w source_loop" where
  "source_loop_new c topic config =
     (if str_blank topic then Inl (InvalidConfig ''topic must not be empty'')
      else Inr \<lparr>sl_capture = c, sl_published = [], sl_topic = topic, sl_config = config,
        sl_health = source_health_new (cs_next_sequence (cap_session c))\<rparr>)"

text \<open>One answer of the environment: cancellation wins the select, or the transport returns; then the
  environment of the capture, the answer of the broker, the clock and the select of the back-off.\<close>

record tick =
  tk_cancelled :: bool
  tk_event :: "transport_error + poll_event"
  tk_env :: capture_env
  tk_broker :: "broker_error + broker_ack"
  tk_now :: i64
  tk_cancelled_in_backoff :: bool

definition set_state :: "source_state \<Rightarrow> 'w source_loop \<Rightarrow> 'w source_loop" where
  "set_state s l = l\<lparr>sl_health := (sl_health l)\<lparr>sh_state := s\<rparr>\<rparr>"

definition loop_record_failure :: "tick \<Rightarrow> transport_failure_kind \<Rightarrow> 'w source_loop \<Rightarrow> 'w source_loop" where
  "loop_record_failure t kind l =
     (let l1 = l\<lparr>sl_health := health_record_failure (tk_now t) kind (sl_health l)\<rparr>
      in if tk_cancelled_in_backoff t then set_state Stopped l1 else l1)"

text \<open>One iteration; \<open>None\<close> means that the loop goes on. The match on the disposition comes first.\<close>

definition loop_disposition ::
  "tick \<Rightarrow> poll_event \<Rightarrow> u64 \<Rightarrow> 'w source_loop \<Rightarrow> (source_loop_error + run_exit) option \<times> 'w source_loop" where
  "loop_disposition t ev next l =
     (case pe_disposition ev of
        PollSuccess \<Rightarrow>
          (if pe_cycle_complete ev then Some (Inr CycleComplete) else None,
           l\<lparr>sl_health := health_record_success (tk_now t) next (sl_health l)\<rparr>)
      | RetryableFailure kind \<Rightarrow> (None, loop_record_failure t kind l)
      | PermanentFailure kind \<Rightarrow> (Some (Inl (LoopTransport (Permanent kind))), set_state Failed l))"

definition loop_iteration ::
  "(observation \<Rightarrow> 'w \<Rightarrow> (wal_error + pending_observation) \<times> 'w) \<Rightarrow>
   (i64 \<Rightarrow> 'w \<Rightarrow> (wal_error + committed_range) \<times> 'w) \<Rightarrow> tick \<Rightarrow> 'w source_loop \<Rightarrow>
   (source_loop_error + run_exit) option \<times> 'w source_loop" where
  "loop_iteration wal_app wal_commit t l =
     (if tk_cancelled t then (Some (Inr Cancelled), set_state Stopped l)
      else case tk_event t of
          Inl e \<Rightarrow>
            if retryable e then (None, loop_record_failure t (transport_kind e) l)
            else (Some (Inl (LoopTransport e)), set_state Failed l)
        | Inr ev \<Rightarrow>
            (case capture wal_app wal_commit (tk_env t) (pe_message ev) (sl_capture l) of
               (Inl e, c1) \<Rightarrow> (Some (Inl (LoopCapture e)), set_state Failed (l\<lparr>sl_capture := c1\<rparr>))
             | (Inr committed, c1) \<Rightarrow>
                 let l1 = l\<lparr>sl_capture := c1\<rparr>
                 in case tk_broker t of
                      Inl e \<Rightarrow> (Some (Inl (LoopBroker e)), set_state Failed l1)
                    | Inr _ \<Rightarrow>
                        let next = cs_next_sequence (cap_session c1);
                            l2 = l1\<lparr>sl_published := sl_published l1 @ [(sl_topic l1, [committed])],
                                sl_health := (sl_health l1)\<lparr>sh_next_collector_sequence := next\<rparr>\<rparr>
                        in loop_disposition t ev next l2))"

text \<open>The loop over the answers it gets; \<open>None\<close> when it is still running after the last one.\<close>

fun run_until_cycle_complete ::
  "(observation \<Rightarrow> 'w \<Rightarrow> (wal_error + pending_observation) \<times> 'w) \<Rightarrow>
   (i64 \<Rightarrow> 'w \<Rightarrow> (wal_error + committed_range) \<times> 'w) \<Rightarrow> tick list \<Rightarrow> 'w source_loop \<Rightarrow>
   (source_loop_error + run_exit) option \<times> 'w source_loop" where
  "run_until_cycle_complete a g [] l = (None, l)"
| "run_until_cycle_complete a g (t # ts) l =
     (case loop_iteration a g t l of
        (None, l1) \<Rightarrow> run_until_cycle_complete a g ts l1
      | (Some r, l1) \<Rightarrow> (Some r, l1))"

text \<open>Polling cycles until cancellation: one answer sequence per cycle with the three checks of the
  token around it.\<close>

record cycle_answers =
  cy_cancelled_before :: bool
  cy_ticks :: "tick list"
  cy_cancelled_after :: bool
  cy_cancelled_in_sleep :: bool

fun run_until_cancelled ::
  "(observation \<Rightarrow> 'w \<Rightarrow> (wal_error + pending_observation) \<times> 'w) \<Rightarrow>
   (i64 \<Rightarrow> 'w \<Rightarrow> (wal_error + committed_range) \<times> 'w) \<Rightarrow> cycle_answers list \<Rightarrow> 'w source_loop \<Rightarrow>
   (source_loop_error + run_exit) option \<times> 'w source_loop" where
  "run_until_cancelled a g [] l = (None, l)"
| "run_until_cancelled a g (cy # cys) l =
     (if cy_cancelled_before cy then (Some (Inr Cancelled), set_state Stopped l)
      else case run_until_cycle_complete a g (cy_ticks cy) l of
          (None, l1) \<Rightarrow> (None, l1)
        | (Some (Inl e), l1) \<Rightarrow> (Some (Inl e), l1)
        | (Some (Inr Cancelled), l1) \<Rightarrow> (Some (Inr Cancelled), l1)
        | (Some (Inr CycleComplete), l1) \<Rightarrow>
            if cy_cancelled_after cy \<or> cy_cancelled_in_sleep cy
            then (Some (Inr Cancelled), set_state Stopped l1)
            else run_until_cancelled a g cys l1)"

section \<open>The HTTP polling transport\<close>

datatype http_method = HttpGet | HttpPost

text \<open>What the request plan uses of a parsed URL; the parser is an argument.\<close>

record url_parts =
  url_text :: string
  url_scheme :: string
  url_username :: string
  url_password :: "string option"

record http_request_spec =
  hr_method :: http_method
  hr_url :: url_parts
  hr_source_channel :: string
  hr_source_message_type :: string
  hr_body :: "bytes option"

definition http_request_new ::
  "(string \<Rightarrow> url_parts option) \<Rightarrow> http_method \<Rightarrow> string \<Rightarrow> string \<Rightarrow> string \<Rightarrow> bytes option \<Rightarrow>
   source_loop_error + http_request_spec" where
  "http_request_new parse_url method url channel message_type body =
     and_then (ok_or (parse_url url) (InvalidConfig ''source URL is invalid'')) (\<lambda>u.
       if url_scheme u \<notin> {''http'', ''https''}
       then Inl (InvalidConfig ''HTTP polling requires an HTTP or HTTPS URL'')
       else if url_username u \<noteq> [] \<or> url_password u \<noteq> None
       then Inl (InvalidConfig ''credentials must not be embedded in source URLs'')
       else if str_blank channel \<or> str_blank message_type
       then Inl (InvalidConfig ''source channel and message type must not be empty'')
       else Inr \<lparr>hr_method = method, hr_url = u, hr_source_channel = channel,
         hr_source_message_type = message_type, hr_body = body\<rparr>)"

definition http_get ::
  "(string \<Rightarrow> url_parts option) \<Rightarrow> string \<Rightarrow> string \<Rightarrow> string \<Rightarrow> source_loop_error + http_request_spec" where
  "http_get parse_url url channel message_type = http_request_new parse_url HttpGet url channel message_type None"

text \<open>The serialised JSON-RPC request is an argument.\<close>

definition http_json_rpc ::
  "(string \<Rightarrow> url_parts option) \<Rightarrow> bytes option \<Rightarrow> string \<Rightarrow> string \<Rightarrow> string \<Rightarrow> source_loop_error + http_request_spec" where
  "http_json_rpc parse_url serialized url channel message_type =
     and_then (ok_or serialized (InvalidConfig ''JSON-RPC request is not serializable'')) (\<lambda>body.
       http_request_new parse_url HttpPost url channel message_type (Some body))"

record http_polling_transport =
  ht_requests :: "http_request_spec list"
  ht_request_index :: nat
  ht_next_source_sequence :: u64
  ht_max_response_bytes :: nat

definition http_transport_new ::
  "bool \<Rightarrow> http_request_spec list \<Rightarrow> nat \<Rightarrow> nat \<Rightarrow> source_loop_error + http_polling_transport" where
  "http_transport_new client_builds requests timeout max_response =
     (if requests = [] then Inl (InvalidConfig ''HTTP polling requires at least one request'')
      else if timeout = 0 \<or> max_response = 0
      then Inl (InvalidConfig ''HTTP timeout and response limit must be non-zero'')
      else if \<not> client_builds then Inl (InvalidConfig ''HTTP client configuration is invalid'')
      else Inr \<lparr>ht_requests = requests, ht_request_index = 0, ht_next_source_sequence = 0,
        ht_max_response_bytes = max_response\<rparr>)"

definition map_reqwest_error :: "bool \<Rightarrow> transport_error" where
  "map_reqwest_error is_timeout = Transient (if is_timeout then Timeout else Network)"

text \<open>What the HTTP client returns: a failed send, or a response whose chunks end or fail. A failure
  carries whether it is a time-out.\<close>

datatype http_answer =
    SendFailed bool
  | Response nat "nat option" "(bool + bytes) list"

fun read_chunks :: "nat \<Rightarrow> bytes \<Rightarrow> (bool + bytes) list \<Rightarrow> transport_error + bytes" where
  "read_chunks limit body [] = Inr body"
| "read_chunks limit body (Inl is_timeout # cs) = Inl (map_reqwest_error is_timeout)"
| "read_chunks limit body (Inr chunk # cs) =
     (if limit < length body + length chunk then Inl (ResponseTooLarge limit)
      else read_chunks limit (body @ chunk) cs)"

fun http_fetch :: "nat \<Rightarrow> http_answer \<Rightarrow> transport_error + nat \<times> bytes" where
  "http_fetch limit (SendFailed is_timeout) = Inl (map_reqwest_error is_timeout)"
| "http_fetch limit (Response status content_length chunks) =
     (if (case content_length of None \<Rightarrow> False | Some n \<Rightarrow> limit < n) then Inl (ResponseTooLarge limit)
      else map_sum id (Pair status) (read_chunks limit [] chunks))"

definition is_success :: "nat \<Rightarrow> bool" where "is_success status \<longleftrightarrow> 200 \<le> status \<and> status < 300"
definition is_server_error :: "nat \<Rightarrow> bool" where "is_server_error status \<longleftrightarrow> 500 \<le> status \<and> status < 600"

definition http_next_event ::
  "http_answer \<Rightarrow> http_polling_transport \<Rightarrow> (transport_error + poll_event) \<times> http_polling_transport" where
  "http_next_event ans tr =
     (let request = ht_requests tr ! ht_request_index tr
      in case http_fetch (ht_max_response_bytes tr) ans of
           Inl e \<Rightarrow> (Inl e, tr)
         | Inr (status, body) \<Rightarrow>
             let seq = ht_next_source_sequence tr;
                 tr1 = tr\<lparr>ht_next_source_sequence := saturating_add seq 1\<rparr>;
                 channel = hr_source_channel request; message_type = hr_source_message_type request;
                 permanent = map_sum (\<lambda>_. Permanent HttpPermanent) id
             in if is_success status
                then
                  let complete = (Suc (ht_request_index tr1) = length (ht_requests tr1));
                      tr2 = tr1\<lparr>ht_request_index := (if complete then 0 else Suc (ht_request_index tr1))\<rparr>
                  in (permanent (poll_success channel message_type body seq complete), tr2)
                else if status \<in> {408, 425, 429} \<or> is_server_error status
                then (permanent (poll_retryable_failure channel message_type body seq HttpRetryable), tr1)
                else (permanent (poll_permanent_failure channel message_type body seq HttpPermanent), tr1))"

section \<open>Back-off, transport and health\<close>

text \<open>The delay doubles from the initial one, for at most 31 times, and is cut at the maximum; an
  overflow of the duration does not show.\<close>

lemma backoff_delay_eq:
  assumes "backoff_policy_new initial maximum = Inr p" "maximum \<le> max_duration_ns"
  shows "backoff_delay p n = min (initial * 2 ^ min (unat n - 1) 31) maximum"
  using assms by (auto simp: backoff_policy_new_def backoff_delay_def checked_mul_duration_def Let_def
      unat_saturating_sub min_def split: if_splits)

lemma read_chunks_bounded: "read_chunks limit body cs = Inr out \<Longrightarrow> length body \<le> limit \<Longrightarrow> length out \<le> limit"
  by (induction limit body cs rule: read_chunks.induct) (auto split: if_splits)

lemma http_fetch_bounded: "http_fetch limit ans = Inr (status, body) \<Longrightarrow> length body \<le> limit"
  using read_chunks_bounded [of limit "[]"] by (cases ans) (auto simp: rust_result split: if_splits)

text \<open>The request index stays inside the plan; a success moves to the next request, completing the
  cycle at the last one, and every other answer keeps the request.\<close>

definition transport_ok :: "http_polling_transport \<Rightarrow> bool" where
  "transport_ok tr \<longleftrightarrow> ht_request_index tr < length (ht_requests tr)"

lemma http_next_event_step:
  assumes "transport_ok tr" "http_next_event ans tr = (res, tr')"
  shows "transport_ok tr' \<and> ht_requests tr' = ht_requests tr \<and>
    (case res of
       Inl e \<Rightarrow> True
     | Inr ev \<Rightarrow> length (rm_payload (pe_message ev)) \<le> ht_max_response_bytes tr \<and>
         rm_channel (pe_message ev) = hr_source_channel (ht_requests tr ! ht_request_index tr) \<and>
         rm_source_sequence (pe_message ev) = Some (ht_next_source_sequence tr) \<and>
         pe_cycle_complete ev = (pe_disposition ev = PollSuccess \<and> Suc (ht_request_index tr) = length (ht_requests tr)) \<and>
         ht_request_index tr' = (if pe_disposition ev = PollSuccess
           then Suc (ht_request_index tr) mod length (ht_requests tr) else ht_request_index tr))"
proof (cases "http_fetch (ht_max_response_bytes tr) ans")
  case (Inl e)
  then show ?thesis using assms by (auto simp: http_next_event_def Let_def)
next
  case (Inr r)
  obtain status body where r: "r = (status, body)" by (cases r)
  have "length body \<le> ht_max_response_bytes tr" using http_fetch_bounded Inr r by blast
  then show ?thesis using assms Inr r
    by (auto simp: http_next_event_def Let_def transport_ok_def poll_success_def poll_retryable_failure_def
        poll_permanent_failure_def raw_source_message_new_def with_source_sequence_def rust_result mod_Suc
        split: if_splits sum.splits)
qed

text \<open>The health of a source: an interval is open exactly while failures follow each other, and it
  counts them.\<close>

definition health_ok :: "source_health \<Rightarrow> bool" where
  "health_ok h \<longleftrightarrow>
     (case sh_active_interval h of
        None \<Rightarrow> sh_consecutive_failures h = 0
      | Some iv \<Rightarrow> sh_consecutive_failures h \<noteq> 0 \<and> iv_failure_count iv = sh_consecutive_failures h \<and>
          iv_closed_at_unix_ns iv = None) \<and>
     (sh_state h = Healthy \<longrightarrow> sh_active_interval h = None) \<and>
     (sh_state h = Degraded \<longrightarrow> sh_active_interval h \<noteq> None) \<and>
     (\<forall>iv. sh_last_closed_interval h = Some iv \<longrightarrow> iv_closed_at_unix_ns iv \<noteq> None)"

lemma saturating_add_1_pos: "saturating_add a 1 \<noteq> 0" for a :: u64
proof
  assume "saturating_add a 1 = 0"
  then have "unat (saturating_add a 1) = 0" by simp
  then show False by (simp add: unat_saturating_add)
qed

lemma health_ok_new: "health_ok (source_health_new n)"
  by (simp add: health_ok_def source_health_new_def)

lemma health_ok_failure: "health_ok h \<Longrightarrow> health_ok (health_record_failure now kind h)"
  using saturating_add_1_pos [of "sh_consecutive_failures h"]
  by (auto simp: health_ok_def health_record_failure_def saturating_add_def split: option.splits if_splits)

lemma health_ok_success: "health_ok h \<Longrightarrow> health_ok (health_record_success now next h)"
  by (auto simp: health_ok_def health_record_success_def split: option.splits)

lemma health_ok_stop: "health_ok h \<Longrightarrow> s \<in> {Failed, Stopped} \<Longrightarrow> health_ok (h\<lparr>sh_state := s\<rparr>)"
  by (auto simp: health_ok_def split: option.splits)

section \<open>The loop publishes what it has committed\<close>

text \<open>The observations published by a loop, in order.\<close>

definition published :: "'w source_loop \<Rightarrow> committed_observation list" where
  "published l = concat (map snd (sl_published l))"

definition loop_ok ::
  "(wal_spec \<Rightarrow> 'w \<Rightarrow> bool) \<Rightarrow> committed_observation list \<Rightarrow> wal_spec \<Rightarrow> 'w source_loop \<Rightarrow> bool" where
  "loop_ok log base sp l \<longleftrightarrow> capture_ordered log sp (sl_capture l) \<and> \<not> cap_poisoned (sl_capture l) \<and> sp_committed sp = base @ published l \<and>
     list_all (\<lambda>b. fst b = sl_topic l) (sl_published l) \<and> health_ok (sl_health l) \<and>
     sh_next_collector_sequence (sl_health l) = sp_next sp"

text \<open>What a finished loop guarantees: everything published was committed before, in order, and at
  most the last committed observation is unpublished, after a failure of the broker; and the capture
  is in order with its log unless a failed capture has poisoned it.\<close>

definition loop_done ::
  "(wal_spec \<Rightarrow> 'w \<Rightarrow> bool) \<Rightarrow> committed_observation list \<Rightarrow> source_loop_error + run_exit \<Rightarrow> 'w source_loop \<Rightarrow> bool" where
  "loop_done log base r l \<longleftrightarrow> list_all (\<lambda>b. fst b = sl_topic l) (sl_published l) \<and> health_ok (sl_health l) \<and>
     (\<exists>sp. log sp (cap_wal (sl_capture l)) \<and>
       (sp_committed sp = base @ published l \<or>
        (\<exists>e c. r = Inl (LoopBroker e) \<and> sp_committed sp = base @ published l @ [c])) \<and>
       (if cap_poisoned (sl_capture l) then \<exists>e. r = Inl (LoopCapture e) else capture_ordered log sp (sl_capture l)))"

text \<open>After an iteration or a cycle the loop goes on in order, or it is done; a complete cycle is both.\<close>

definition loop_result_ok ::
  "(wal_spec \<Rightarrow> 'w \<Rightarrow> bool) \<Rightarrow> committed_observation list \<Rightarrow> (source_loop_error + run_exit) option \<Rightarrow> 'w source_loop \<Rightarrow> bool" where
  "loop_result_ok log base res l \<longleftrightarrow>
     (case res of None \<Rightarrow> \<exists>sp. loop_ok log base sp l | Some r \<Rightarrow>
        loop_done log base r l \<and> (r = Inr CycleComplete \<longrightarrow> (\<exists>sp. loop_ok log base sp l)))"

lemma loop_parts_simps [simp]:
  "sl_capture (set_state s l) = sl_capture l" "sl_published (set_state s l) = sl_published l"
  "sl_topic (set_state s l) = sl_topic l" "published (set_state s l) = published l"
  "sl_capture (loop_record_failure t k l) = sl_capture l" "sl_published (loop_record_failure t k l) = sl_published l"
  "sl_topic (loop_record_failure t k l) = sl_topic l" "published (loop_record_failure t k l) = published l"
  by (simp_all add: set_state_def loop_record_failure_def published_def Let_def)

lemma health_ok_set_state: "health_ok (sl_health l) \<Longrightarrow> s \<in> {Failed, Stopped} \<Longrightarrow> health_ok (sl_health (set_state s l))"
  using health_ok_stop by (auto simp: set_state_def)

lemma health_record_failure_next:
  "sh_next_collector_sequence (sl_health (loop_record_failure t k l)) = sh_next_collector_sequence (sl_health l)"
  by (simp add: loop_record_failure_def set_state_def health_record_failure_def Let_def)

lemma health_ok_loop_failure: "health_ok (sl_health l) \<Longrightarrow> health_ok (sl_health (loop_record_failure t k l))"
  using health_ok_failure health_ok_stop
  by (simp add: loop_record_failure_def set_state_def Let_def)

lemma loop_ok_failure: "loop_ok log base sp l \<Longrightarrow> loop_ok log base sp (loop_record_failure t k l)"
  using health_ok_loop_failure [of l] by (simp add: loop_ok_def health_record_failure_next)

lemma loop_done_stop:
  assumes "loop_ok log base sp l" "s \<in> {Failed, Stopped}"
  shows "loop_done log base r (set_state s l)"
  using assms health_ok_set_state [of l s] unfolding loop_ok_def loop_done_def capture_ordered_def by auto

context observation_wal
begin

lemma loop_disposition_ok:
  assumes "loop_ok log base sp l" "loop_disposition t ev (sp_next sp) l = (res, l')"
  shows "loop_result_ok log base res l'"
proof (cases "pe_disposition ev")
  case PollSuccess
  let ?l = "l\<lparr>sl_health := health_record_success (tk_now t) (sp_next sp) (sl_health l)\<rparr>"
  have "loop_ok log base sp ?l"
    using assms(1) health_ok_success by (simp add: loop_ok_def published_def health_record_success_def)
  moreover have "l' = ?l" "res = (if pe_cycle_complete ev then Some (Inr CycleComplete) else None)"
    using assms(2) PollSuccess by (auto simp: loop_disposition_def)
  ultimately show ?thesis by (auto simp: loop_result_ok_def loop_done_def loop_ok_def capture_ordered_def)
next
  case (RetryableFailure kind)
  then have "res = None" "l' = loop_record_failure t kind l" using assms(2) by (auto simp: loop_disposition_def)
  then show ?thesis using loop_ok_failure [OF assms(1), of t kind] by (auto simp: loop_result_ok_def)
next
  case (PermanentFailure kind)
  then show ?thesis
    using assms(2) loop_done_stop [OF assms(1)] by (auto simp: loop_disposition_def loop_result_ok_def)
qed

lemma loop_event_ok:
  assumes "loop_ok log base sp l" "loop_iteration append commit t l = (res, l')" "\<not> tk_cancelled t" "tk_event t = Inr ev"
  shows "loop_result_ok log base res l'"
proof -
  have h: "health_ok (sl_health l)" and cap: "capture_ordered log sp (sl_capture l)"
    and pub: "sp_committed sp = base @ published l" "list_all (\<lambda>b. fst b = sl_topic l) (sl_published l)"
    using assms(1) by (auto simp: loop_ok_def)
  obtain res1 c1 where c1: "capture append commit (tk_env t) (pe_message ev) (sl_capture l) = (res1, c1)" by fastforce
  let ?l1 = "l\<lparr>sl_capture := c1\<rparr>"
  have failed: "health_ok (sl_health (set_state Failed ?l1))" using h health_ok_set_state [of ?l1 Failed] by simp
  show ?thesis
  proof (cases res1)
    case (Inl e)
    then obtain sp' where "log sp' (cap_wal c1)" "sp_committed sp' = sp_committed sp"
      "\<not> cap_poisoned c1 \<Longrightarrow> capture_ordered log sp' c1"
      using capture_error_ordered c1 cap by blast
    moreover have "res = Some (Inl (LoopCapture e))" "l' = set_state Failed ?l1"
      using assms(2-4) c1 Inl by (auto simp: loop_iteration_def)
    ultimately show ?thesis using failed pub by (auto simp: loop_result_ok_def loop_done_def published_def)
  next
    case (Inr co)
    obtain sp' where sp': "capture_ordered log sp' c1" "sp_committed sp' = sp_committed sp @ [co]" "\<not> cap_poisoned c1"
      using capture_commits [OF c1 [unfolded Inr] cap] by blast
    let ?l2 = "?l1\<lparr>sl_published := sl_published l @ [(sl_topic l, [co])],
      sl_health := (sl_health l)\<lparr>sh_next_collector_sequence := cs_next_sequence (cap_session c1)\<rparr>\<rparr>"
    have "health_ok (sl_health ?l2)" using h by (simp add: health_ok_def split: option.splits)
    then have ok2: "loop_ok log base sp' ?l2"
      using sp' pub by (simp add: loop_ok_def published_def capture_ordered_def)
    show ?thesis
    proof (cases "tk_broker t")
      case (Inl e)
      then have "res = Some (Inl (LoopBroker e))" "l' = set_state Failed ?l1"
        using assms(2-4) c1 Inr by (auto simp: loop_iteration_def Let_def)
      then show ?thesis
        using sp' pub failed by (auto simp: loop_result_ok_def loop_done_def published_def capture_ordered_def)
    next
      case ack: (Inr ack)
      have "loop_disposition t ev (sp_next sp') ?l2 = (res, l')"
        using assms(2-4) c1 Inr ack sp'(1) by (auto simp: loop_iteration_def Let_def capture_ordered_def)
      then show ?thesis by (rule loop_disposition_ok [OF ok2])
    qed
  qed
qed

lemma loop_iteration_ok:
  assumes "loop_ok log base sp l" "loop_iteration append commit t l = (res, l')"
  shows "loop_result_ok log base res l'"
proof (cases "tk_cancelled t")
  case True
  then show ?thesis using assms(2) loop_done_stop [OF assms(1)] by (auto simp: loop_iteration_def loop_result_ok_def)
next
  case False
  show ?thesis
  proof (cases "tk_event t")
    case (Inl e)
    then show ?thesis
      using False assms(2) loop_done_stop [OF assms(1)] loop_ok_failure [OF assms(1), of t "transport_kind e"]
      by (auto simp: loop_iteration_def loop_result_ok_def split: if_splits)
  next
    case (Inr ev)
    then show ?thesis using loop_event_ok [OF assms False] by blast
  qed
qed

lemma run_until_cycle_complete_ok:
  assumes "loop_ok log base sp l" "run_until_cycle_complete append commit ts l = (res, l')"
  shows "loop_result_ok log base res l'"
  using assms
proof (induction ts arbitrary: l sp)
  case (Cons t ts)
  obtain r1 l1 where 1: "loop_iteration append commit t l = (r1, l1)" by fastforce
  from loop_iteration_ok [OF Cons.prems(1) 1] show ?case
    using Cons.prems(2) Cons.IH 1 by (cases r1) (auto simp: loop_result_ok_def)
qed (auto simp: loop_result_ok_def)

lemma run_until_cancelled_ok:
  assumes "loop_ok log base sp l" "run_until_cancelled append commit cys l = (res, l')"
  shows "case res of None \<Rightarrow> \<exists>sp'. loop_ok log base sp' l' | Some r \<Rightarrow> loop_done log base r l'"
  using assms
proof (induction cys arbitrary: l sp)
  case (Cons cy cys)
  show ?case
  proof (cases "cy_cancelled_before cy")
    case True
    then show ?thesis using Cons.prems loop_done_stop [OF Cons.prems(1)] by auto
  next
    case False
    obtain r1 l1 where 1: "run_until_cycle_complete append commit (cy_ticks cy) l = (r1, l1)" by fastforce
    note step = run_until_cycle_complete_ok [OF Cons.prems(1) 1]
    show ?thesis
    proof (cases "r1 = Some (Inr CycleComplete)")
      case True
      then obtain sp1 where "loop_ok log base sp1 l1" using step by (auto simp: loop_result_ok_def)
      then show ?thesis
        using Cons.prems(2) Cons.IH False 1 True loop_done_stop [of log base sp1 l1 Stopped "Inr Cancelled"]
        by (auto split: if_splits)
    next
      case neq: False
      then have "res = r1 \<and> l' = l1"
        using Cons.prems(2) False 1 by (auto split: option.splits sum.splits run_exit.splits)
      then show ?thesis using step by (auto simp: loop_result_ok_def split: option.splits)
    qed
  qed
qed auto

end

end
