(* ===== verification/Source_Properties.thy ===== *)
theory Source_Properties
  imports Source_Runtime
begin

text \<open>
  The polling runtime over the file-backed write-ahead log: the contract of the log, interpreted on
  the file implementation, gives the order of durability and publication of the whole pipeline.
\<close>

lemma loop_iteration_topic: "loop_iteration a g t l = (res, l') \<Longrightarrow> sl_topic l' = sl_topic l"
  by (auto simp: loop_iteration_def loop_disposition_def Let_def
      split: if_splits sum.splits prod.splits poll_disposition.splits)

lemma run_until_cycle_complete_topic: "run_until_cycle_complete a g ts l = (res, l') \<Longrightarrow> sl_topic l' = sl_topic l"
  by (induction ts arbitrary: l) (auto dest: loop_iteration_topic split: prod.splits option.splits)

lemma run_until_cancelled_topic: "run_until_cancelled a g cys l = (res, l') \<Longrightarrow> sl_topic l' = sl_topic l"
  by (induction cys arbitrary: l)
    (auto dest!: run_until_cycle_complete_topic split: prod.splits option.splits sum.splits run_exit.splits if_splits)

text \<open>A loop that starts on a log without pending observations starts in order.\<close>

lemma new_loop_ok:
  assumes "codec_roundtrip W" "wal_run W sp st" "sp_pending sp = []"
    "capture_new identity (session_resume i (fw_next_sequence st)) st max_payload = Inr c"
    "source_loop_new c topic config = Inr l"
  shows "loop_ok (\<lambda>sp st. codec_roundtrip W \<and> wal_run W sp st) (sp_committed sp) sp l \<and> sl_topic l = topic"
proof -
  have "sp_next sp = fw_next_sequence st" using wal_refines_log_at [OF assms(1,2)] by simp
  with assms show ?thesis
    by (auto simp: loop_ok_def capture_ordered_def capture_new_def source_loop_new_def session_resume_def published_def
        health_ok_new source_health_new_def health_ok_def split: if_splits)
qed

text \<open>C19: the polling runtime publishes exactly what it has made durable. However the transport, the broker
  and the cancellation behave, every published batch goes to the configured topic, the published
  observations are the ones committed to the write-ahead log since the loop started, in commit order
  and once each, and only a failure of the broker leaves one committed observation unpublished, the
  last one. The file reads back accordingly. A loop that leaves its capture poisoned has failed in a
  capture; in every other outcome the log has no pending observation and the session and the log go on
  with the same sequence number.\<close>

theorem source_loop_publishes_committed:
  assumes "codec_roundtrip W" "wal_run W sp st" "sp_pending sp = []"
    "capture_new identity (session_resume i (fw_next_sequence st)) st max_payload = Inr c"
    "source_loop_new c topic config = Inr l"
    "run_until_cancelled (wal_append W) (group_commit W) cys l = (res, l')"
  shows "(\<forall>b \<in> set (sl_published l'). fst b = topic) \<and>
    (wal_committed W (cap_wal (sl_capture l')) = Inr (sp_committed sp @ published l') \<or>
     (\<exists>e co. res = Some (Inl (LoopBroker e)) \<and>
        wal_committed W (cap_wal (sl_capture l')) = Inr (sp_committed sp @ published l' @ [co]))) \<and>
    (if cap_poisoned (sl_capture l') then \<exists>e. res = Some (Inl (LoopCapture e))
     else fw_pending (cap_wal (sl_capture l')) = [] \<and>
       cs_next_sequence (cap_session (sl_capture l')) = fw_next_sequence (cap_wal (sl_capture l')))"
proof -
  let ?log = "\<lambda>sp st. codec_roundtrip W \<and> wal_run W sp st" and ?c = "sl_capture l'"
  have l: "loop_ok ?log (sp_committed sp) sp l" "sl_topic l' = topic"
    using new_loop_ok [OF assms(1-5)] run_until_cancelled_topic [OF assms(6)] by auto
  from file_log.run_until_cancelled_ok [OF l(1) assms(6)]
  have "list_all (\<lambda>b. fst b = sl_topic l') (sl_published l') \<and> (\<exists>sp'. ?log sp' (cap_wal ?c) \<and>
      (sp_committed sp' = sp_committed sp @ published l' \<or>
       (\<exists>e co. res = Some (Inl (LoopBroker e)) \<and> sp_committed sp' = sp_committed sp @ published l' @ [co])) \<and>
      (if cap_poisoned ?c then \<exists>e. res = Some (Inl (LoopCapture e)) else capture_ordered ?log sp' ?c))"
    by (cases res) (auto simp: loop_ok_def loop_done_def capture_ordered_def)
  then obtain sp' where sp': "list_all (\<lambda>b. fst b = sl_topic l') (sl_published l')" "?log sp' (cap_wal ?c)"
    "sp_committed sp' = sp_committed sp @ published l' \<or>
       (\<exists>e co. res = Some (Inl (LoopBroker e)) \<and> sp_committed sp' = sp_committed sp @ published l' @ [co])"
    "if cap_poisoned ?c then \<exists>e. res = Some (Inl (LoopCapture e)) else capture_ordered ?log sp' ?c" by blast
  have "wal_committed W (cap_wal ?c) = Inr (sp_committed sp')" "map pf_observation (fw_pending (cap_wal ?c)) = sp_pending sp'"
    "fw_next_sequence (cap_wal ?c) = sp_next sp'" using wal_refines_log_at sp'(2) by blast+
  then show ?thesis using sp'(1,3,4) l(2) by (auto simp: list_all_iff capture_ordered_def)
qed

section \<open>A sample run\<close>

definition sample_identity :: source_identity where
  "sample_identity = \<lparr>si_source_id = ''node'', si_chain = ''bitcoin'', si_network = ''mainnet''\<rparr>"

definition sample_capture :: "file_wal durable_source_capture" where
  "sample_capture = \<lparr>cap_identity = sample_identity, cap_session = session_resume 0 0, cap_wal = sample_wal,
     cap_max_payload_bytes = 1, cap_poisoned = False\<rparr>"

definition sample_loop_config :: source_loop_config where
  "sample_loop_config = \<lparr>lc_poll_interval = 1, lc_backoff = \<lparr>bo_initial = 1, bo_maximum = 2\<rparr>\<rparr>"

definition sample_loop :: "file_wal source_loop" where
  "sample_loop = \<lparr>sl_capture = sample_capture, sl_published = [], sl_topic = ''t'', sl_config = sample_loop_config,
     sl_health = source_health_new 0\<rparr>"

definition sample_tick :: tick where
  "sample_tick = \<lparr>tk_cancelled = False, tk_event = Inr \<lparr>pe_message = \<lparr>rm_channel = ''c'', rm_source_message_type = ''m'',
       rm_payload = [], rm_source_sequence = Some 0, rm_source_cursor = None, rm_source_time_unix_ns = None\<rparr>,
       pe_disposition = PollSuccess, pe_cycle_complete = True\<rparr>,
     tk_env = \<lparr>env_sha256 = (\<lambda>_. 0), env_blake3 = (\<lambda>_. 0), env_wall = 0, env_monotonic = 0, env_durable_at = 0\<rparr>,
     tk_broker = Inl (Delivery ''down''), tk_now = 0, tk_cancelled_in_backoff = False\<rparr>"

lemma sample_loop_starts:
  "capture_new sample_identity (session_resume 0 (fw_next_sequence sample_wal)) sample_wal 1 = Inr sample_capture"
  "source_loop_new sample_capture ''t'' sample_loop_config = Inr sample_loop"
  by (simp_all add: capture_new_def sample_capture_def sample_wal_def source_loop_new_def sample_loop_def session_resume_def
      str_blank.simps ws_len_def byte_of_def)

definition sample_answers :: "cycle_answers list" where
  "sample_answers = [\<lparr>cy_cancelled_before = False, cy_ticks = [sample_tick], cy_cancelled_after = False,
     cy_cancelled_in_sleep = False\<rparr>]"

lemma sample_wal_run: "wal_run sample_wal_lib spec_new sample_wal"
  using sample_open by (auto intro: run_open [of fmempty "''w''"])

theorem source_loop_publishes_committed_witness:
  "\<exists>res l'. run_until_cancelled (wal_append sample_wal_lib) (group_commit sample_wal_lib) sample_answers sample_loop = (res, l') \<and>
     (\<forall>b \<in> set (sl_published l'). fst b = ''t'') \<and> (cap_poisoned (sl_capture l') \<or> fw_pending (cap_wal (sl_capture l')) = [])"
proof -
  obtain res l' where run: "run_until_cancelled (wal_append sample_wal_lib) (group_commit sample_wal_lib) sample_answers
      sample_loop = (res, l')" by fastforce
  then show ?thesis
    using source_loop_publishes_committed [OF sample_codec_roundtrip sample_wal_run _ sample_loop_starts run]
    by (auto simp: spec_new_def split: if_splits)
qed

text \<open>the health of a polled source is consistent with what happened. After any run of the loop an
  incomplete interval is open exactly while transport failures follow each other, it counts them and
  has no end yet, a healthy source has none and a degraded one has, and a closed interval has an end.\<close>

theorem source_health_tracks_failures:
  assumes "codec_roundtrip W" "wal_run W sp st" "sp_pending sp = []"
    "capture_new identity (session_resume i (fw_next_sequence st)) st max_payload = Inr c"
    "source_loop_new c topic config = Inr l"
    "run_until_cancelled (wal_append W) (group_commit W) cys l = (res, l')" "h = sl_health l'"
  shows "(sh_active_interval h = None \<longleftrightarrow> sh_consecutive_failures h = 0) \<and>
    (\<forall>iv. sh_active_interval h = Some iv \<longrightarrow>
       iv_failure_count iv = sh_consecutive_failures h \<and> iv_closed_at_unix_ns iv = None) \<and>
    (sh_state h = Healthy \<longrightarrow> sh_active_interval h = None) \<and> (sh_state h = Degraded \<longrightarrow> sh_active_interval h \<noteq> None) \<and>
    (\<forall>iv. sh_last_closed_interval h = Some iv \<longrightarrow> iv_closed_at_unix_ns iv \<noteq> None)"
proof -
  have "health_ok (sl_health l')"
    using file_log.run_until_cancelled_ok [OF conjunct1 [OF new_loop_ok [OF assms(1-5)]] assms(6)]
    by (cases res) (auto simp: loop_ok_def loop_done_def)
  then show ?thesis using assms(7) by (auto simp: health_ok_def split: option.splits)
qed

theorem source_health_tracks_failures_witness:
  "\<exists>res l'. run_until_cancelled (wal_append sample_wal_lib) (group_commit sample_wal_lib) sample_answers sample_loop = (res, l') \<and>
     (sh_state (sl_health l') = Healthy \<longrightarrow> sh_active_interval (sl_health l') = None)"
proof -
  obtain res l' where run: "run_until_cancelled (wal_append sample_wal_lib) (group_commit sample_wal_lib) sample_answers
      sample_loop = (res, l')" by fastforce
  then show ?thesis
    using source_health_tracks_failures [OF sample_codec_roundtrip sample_wal_run _ sample_loop_starts run refl]
    by (simp add: spec_new_def)
qed

end
