(* ===== verification/Mempool_Alert.thy ===== *)
theory Mempool_Alert
  imports Text_Encoding "HOL-Library.List_Lexorder" "HOL-Library.Char_ord"
begin

text \<open>
  The mempool alert of \<open>processors/alert-engine/src/mempool.rs\<close>: definitions and fee-band snapshots with
  their validation, and the evaluator that turns an ordered stream of snapshots into alert
  transitions. BLAKE3 is a parameter. \<open>None\<close> is a panic of an \<open>expect\<close>.
\<close>

section \<open>Data\<close>

definition MAX_SOURCE_COUNT :: nat where "MAX_SOURCE_COUNT = 32"

datatype completeness = Complete | KnownIncomplete | Recovered
datatype degraded_policy = Suppress | EvaluateHealthyQuorum
datatype snapshot_cause = ObservedCause | RecoveredCause | CorrectionCause

datatype alert_transition =
    Pending | Triggered | Confirmed | Corrected | Retracted | DegradedSource | BelowThreshold
  | CooldownSuppressed | DuplicateRevision

datatype mempool_alert_error =
    InvalidAlertId
  | InvalidNetwork
  | ZeroThreshold
  | ZeroQuorum
  | ZeroPersistence
  | CooldownOutOfRange
  | ZeroRevision
  | NegativeEvaluationTime
  | MissingSources
  | InvalidSource
  | OverlappingSources
  | TooManySources
  | ContradictoryCompleteness
  | FeeBandMismatch
  | QuorumMismatch
  | RevisionRegression u64 u64
  | ConflictingRevision u64
  | EvaluationTimeRegression

definition valid_identity :: "string \<Rightarrow> bool" where
  "valid_identity s \<longleftrightarrow> s \<noteq> [] \<and> ascii_graphic s"

definition normalized_sources :: "string list \<Rightarrow> mempool_alert_error + string list" where
  "normalized_sources sources =
     (if list_ex (\<lambda>s. \<not> valid_identity s) sources then Inl InvalidSource else Inr (remdups_adj (sort sources)))"

record alert_definition =
  ad_alert_id :: string
  ad_min_fee_rate_sat_vb :: u64
  ad_threshold_vbytes :: u64
  ad_quorum_required :: u16
  ad_for_evaluations :: u16
  ad_cooldown_seconds :: u64
  ad_degraded_policy :: degraded_policy

definition alert_definition_new ::
  "string \<Rightarrow> u64 \<Rightarrow> u64 \<Rightarrow> u16 \<Rightarrow> u16 \<Rightarrow> u64 \<Rightarrow> degraded_policy \<Rightarrow> mempool_alert_error + alert_definition" where
  "alert_definition_new alert min_fee threshold quorum persistence cooldown policy =
     (if \<not> valid_identity alert then Inl InvalidAlertId
      else if threshold = 0 then Inl ZeroThreshold
      else if quorum = 0 then Inl ZeroQuorum
      else if persistence = 0 then Inl ZeroPersistence
      else if 2 ^ 63 \<le> unat cooldown then Inl CooldownOutOfRange
      else Inr \<lparr>ad_alert_id = alert, ad_min_fee_rate_sat_vb = min_fee, ad_threshold_vbytes = threshold,
        ad_quorum_required = quorum, ad_for_evaluations = persistence, ad_cooldown_seconds = cooldown,
        ad_degraded_policy = policy\<rparr>)"

record fee_band_snapshot =
  fs_network :: string
  fs_revision :: u64
  fs_observed_at :: i64
  fs_min_fee_rate_sat_vb :: u64
  fs_vbytes :: u64
  fs_quorum_required :: u16
  fs_eligible_sources :: "string list"
  fs_unavailable_sources :: "string list"
  fs_completeness :: completeness
  fs_cause :: snapshot_cause

definition fee_band_snapshot_new ::
  "string \<Rightarrow> u64 \<Rightarrow> i64 \<Rightarrow> u64 \<Rightarrow> u64 \<Rightarrow> u16 \<Rightarrow> string list \<Rightarrow> string list \<Rightarrow> completeness \<Rightarrow> snapshot_cause \<Rightarrow>
   mempool_alert_error + fee_band_snapshot" where
  "fee_band_snapshot_new network revision observed_at min_fee vbytes quorum eligible unavailable compl cause =
     (if \<not> valid_identity network then Inl InvalidNetwork
      else if revision = 0 then Inl ZeroRevision
      else if sint observed_at < 0 then Inl NegativeEvaluationTime
      else if quorum = 0 then Inl ZeroQuorum
      else and_then (normalized_sources eligible) (\<lambda>es. and_then (normalized_sources unavailable) (\<lambda>us.
        if es = [] \<and> us = [] then Inl MissingSources
        else if list_ex (\<lambda>s. s \<in> set us) es then Inl OverlappingSources
        else if compl = Complete \<and> us \<noteq> [] then Inl ContradictoryCompleteness
        else if MAX_SOURCE_COUNT < length es + length us then Inl TooManySources
        else Inr \<lparr>fs_network = network, fs_revision = revision, fs_observed_at = observed_at,
          fs_min_fee_rate_sat_vb = min_fee, fs_vbytes = vbytes, fs_quorum_required = quorum,
          fs_eligible_sources = es, fs_unavailable_sources = us, fs_completeness = compl, fs_cause = cause\<rparr>)))"

record alert_evaluation =
  ae_evaluation_id :: string
  ae_alert_id :: string
  ae_kind :: string
  ae_transition :: alert_transition
  ae_delivery_required :: bool
  ae_outbox_idempotency_key :: "string option"
  ae_active :: bool
  ae_network :: string
  ae_revision :: u64
  ae_min_fee_rate_sat_vb :: u64
  ae_threshold_vbytes :: u64
  ae_quorum_required :: u16
  ae_consecutive_true_evaluations :: u16
  ae_observed_vbytes :: u64
  ae_contributing_sources :: "string list"
  ae_unavailable_sources :: "string list"
  ae_completeness :: completeness
  ae_cause :: snapshot_cause

record alert_evaluator =
  ev_definition :: alert_definition
  ev_consecutive_true :: u16
  ev_active :: bool
  ev_last_revision :: "u64 option"
  ev_last_observed_at :: "i64 option"
  ev_last_snapshot :: "fee_band_snapshot option"
  ev_last_evaluation_id :: "string option"
  ev_last_trigger_at :: "i64 option"

definition evaluator_new :: "alert_definition \<Rightarrow> alert_evaluator" where
  "evaluator_new d = \<lparr>ev_definition = d, ev_consecutive_true = 0, ev_active = False, ev_last_revision = None,
     ev_last_observed_at = None, ev_last_snapshot = None, ev_last_evaluation_id = None, ev_last_trigger_at = None\<rparr>"

section \<open>Identities\<close>

definition framed :: "bytes list \<Rightarrow> bytes" where
  "framed parts = concat (map (\<lambda>f. le_bytes 8 (min (length f) (2 ^ 64 - 1)) @ f) parts)"

definition digest_hex :: "(bytes \<Rightarrow> digest) \<Rightarrow> bytes list \<Rightarrow> string" where
  "digest_hex b3 parts = encode_hex (be_bytes 32 (unat (b3 (framed parts))))"

fun policy_code :: "degraded_policy \<Rightarrow> u8" where
  "policy_code Suppress = 0" | "policy_code EvaluateHealthyQuorum = 1"

fun transition_code :: "alert_transition \<Rightarrow> u8" where
  "transition_code Pending = 0" | "transition_code Triggered = 1" | "transition_code Confirmed = 2"
| "transition_code Corrected = 3" | "transition_code Retracted = 4" | "transition_code DegradedSource = 5"
| "transition_code BelowThreshold = 6" | "transition_code CooldownSuppressed = 7" | "transition_code DuplicateRevision = 8"

fun completeness_code :: "completeness \<Rightarrow> u8" where
  "completeness_code Complete = 0" | "completeness_code KnownIncomplete = 1" | "completeness_code Recovered = 2"

fun cause_code :: "snapshot_cause \<Rightarrow> u8" where
  "cause_code ObservedCause = 0" | "cause_code RecoveredCause = 1" | "cause_code CorrectionCause = 2"

definition evaluation_fields :: "alert_definition \<Rightarrow> fee_band_snapshot \<Rightarrow> alert_transition \<Rightarrow> bytes list" where
  "evaluation_fields d s t =
     [ascii_bytes ''multichain.alert.bitcoin_mempool_quorum_vbytes_above.v1'', ascii_bytes (ad_alert_id d),
      ascii_bytes (fs_network s), le_bytes 8 (unat (fs_revision s)), le_bytes 8 (unat (fs_observed_at s)),
      le_bytes 8 (unat (fs_min_fee_rate_sat_vb s)), le_bytes 8 (unat (fs_vbytes s)),
      le_bytes 2 (unat (fs_quorum_required s)), le_bytes 8 (unat (ad_threshold_vbytes d)),
      le_bytes 2 (unat (ad_for_evaluations d)), le_bytes 8 (unat (ad_cooldown_seconds d)),
      [policy_code (ad_degraded_policy d)], [transition_code t]] @
     map ascii_bytes (fs_eligible_sources s) @ [ascii_bytes ''unavailable''] @
     map ascii_bytes (fs_unavailable_sources s) @
     [[completeness_code (fs_completeness s)], [cause_code (fs_cause s)]]"

definition evaluation_id :: "(bytes \<Rightarrow> digest) \<Rightarrow> alert_definition \<Rightarrow> fee_band_snapshot \<Rightarrow> alert_transition \<Rightarrow> string" where
  "evaluation_id b3 d s t = digest_hex b3 (evaluation_fields d s t)"

section \<open>The evaluator\<close>

definition alert_kind :: string where "alert_kind = ''bitcoin_mempool_quorum_vbytes_above''"

definition validate_order_and_contract :: "alert_evaluator \<Rightarrow> fee_band_snapshot \<Rightarrow> mempool_alert_error + unit" where
  "validate_order_and_contract e s =
     (if fs_min_fee_rate_sat_vb s \<noteq> ad_min_fee_rate_sat_vb (ev_definition e) then Inl FeeBandMismatch
      else if fs_quorum_required s \<noteq> ad_quorum_required (ev_definition e) then Inl QuorumMismatch
      else and_then
        (case ev_last_revision e of
           None \<Rightarrow> Inr ()
         | Some prev \<Rightarrow>
             if fs_revision s < prev then Inl (RevisionRegression prev (fs_revision s))
             else if fs_revision s = prev \<and> ev_last_snapshot e \<noteq> Some s then Inl (ConflictingRevision (fs_revision s))
             else Inr ()) (\<lambda>_.
        if (case ev_last_observed_at e of None \<Rightarrow> False | Some prev \<Rightarrow> sint (fs_observed_at s) < sint prev)
        then Inl EvaluationTimeRegression else Inr ()))"

text \<open>Saturating addition of signed integers, and the cooldown test; \<open>None\<close> is the panic on a cooldown
  that is not a signed integer.\<close>

definition signed_saturating_add :: "i64 \<Rightarrow> i64 \<Rightarrow> i64" where
  "signed_saturating_add a b = word_of_int (max (- (2 ^ 63)) (min (2 ^ 63 - 1) (sint a + sint b)))"

definition inside_cooldown :: "alert_evaluator \<Rightarrow> i64 \<Rightarrow> bool option" where
  "inside_cooldown e observed_at =
     (let cooldown = ad_cooldown_seconds (ev_definition e)
      in if 2 ^ 63 \<le> unat cooldown then None
         else Some (case ev_last_trigger_at e of
             None \<Rightarrow> False
           | Some prev \<Rightarrow> sint observed_at < sint (signed_saturating_add prev cooldown)))"

definition evaluation_of ::
  "alert_evaluator \<Rightarrow> fee_band_snapshot \<Rightarrow> alert_transition \<Rightarrow> bool \<Rightarrow> string option \<Rightarrow> string \<Rightarrow> alert_evaluation" where
  "evaluation_of e s t delivery key eid =
     \<lparr>ae_evaluation_id = eid, ae_alert_id = ad_alert_id (ev_definition e), ae_kind = alert_kind, ae_transition = t,
      ae_delivery_required = delivery, ae_outbox_idempotency_key = key, ae_active = ev_active e,
      ae_network = fs_network s, ae_revision = fs_revision s, ae_min_fee_rate_sat_vb = fs_min_fee_rate_sat_vb s,
      ae_threshold_vbytes = ad_threshold_vbytes (ev_definition e), ae_quorum_required = fs_quorum_required s,
      ae_consecutive_true_evaluations = ev_consecutive_true e, ae_observed_vbytes = fs_vbytes s,
      ae_contributing_sources = fs_eligible_sources s, ae_unavailable_sources = fs_unavailable_sources s,
      ae_completeness = fs_completeness s, ae_cause = fs_cause s\<rparr>"

definition duplicate_evaluation :: "alert_evaluator \<Rightarrow> fee_band_snapshot \<Rightarrow> alert_evaluation option" where
  "duplicate_evaluation e s =
     map_option (evaluation_of e s DuplicateRevision False None) (ev_last_evaluation_id e)"

definition insufficient_or_suppressed :: "alert_definition \<Rightarrow> fee_band_snapshot \<Rightarrow> bool" where
  "insufficient_or_suppressed d s \<longleftrightarrow>
     length (fs_eligible_sources s) < unat (ad_quorum_required d) \<or>
     ((fs_completeness s = KnownIncomplete \<or> fs_unavailable_sources s \<noteq> []) \<and> ad_degraded_policy d = Suppress)"

text \<open>The transition of a new snapshot and the evaluator after it.\<close>

definition alert_step :: "alert_evaluator \<Rightarrow> fee_band_snapshot \<Rightarrow> (alert_transition \<times> alert_evaluator) option" where
  "alert_step e s =
     (let d = ev_definition e in
      if insufficient_or_suppressed d s then Some (DegradedSource, e\<lparr>ev_consecutive_true := 0\<rparr>)
      else if fs_vbytes s \<le> ad_threshold_vbytes d
      then
        (if ev_active e
         then Some (if fs_cause s = CorrectionCause then Corrected else Retracted,
                    e\<lparr>ev_consecutive_true := 0, ev_active := False\<rparr>)
         else Some (BelowThreshold, e\<lparr>ev_consecutive_true := 0\<rparr>))
      else
        let e1 = e\<lparr>ev_consecutive_true := saturating_add (ev_consecutive_true e) 1\<rparr>
        in if ev_active e1 then Some (Confirmed, e1)
           else if ev_consecutive_true e1 < ad_for_evaluations d then Some (Pending, e1)
           else
             (case inside_cooldown e1 (fs_observed_at s) of
                None \<Rightarrow> None
              | Some True \<Rightarrow> Some (CooldownSuppressed, e1)
              | Some False \<Rightarrow> Some (Triggered, e1\<lparr>ev_active := True, ev_last_trigger_at := Some (fs_observed_at s)\<rparr>)))"

definition evaluate ::
  "(bytes \<Rightarrow> digest) \<Rightarrow> fee_band_snapshot \<Rightarrow> alert_evaluator \<Rightarrow>
   ((mempool_alert_error + alert_evaluation) \<times> alert_evaluator) option" where
  "evaluate b3 s e =
     (case validate_order_and_contract e s of
        Inl err \<Rightarrow> Some (Inl err, e)
      | Inr _ \<Rightarrow>
          if ev_last_snapshot e = Some s then map_option (\<lambda>v. (Inr v, e)) (duplicate_evaluation e s)
          else
            (case alert_step e s of
               None \<Rightarrow> None
             | Some (t, e1) \<Rightarrow>
                 let delivery = t \<in> {Triggered, Corrected, Retracted};
                     eid = evaluation_id b3 (ev_definition e) s t;
                     key = (if delivery then Some (digest_hex b3 [ascii_bytes ''multichain.alert.outbox.v1'', ascii_bytes eid]) else None)
                 in Some (Inr (evaluation_of e1 s t delivery key eid),
                      e1\<lparr>ev_last_revision := Some (fs_revision s), ev_last_observed_at := Some (fs_observed_at s),
                         ev_last_snapshot := Some s, ev_last_evaluation_id := Some eid\<rparr>)))"

section \<open>Histories\<close>

text \<open>A run of an evaluator with the snapshots it accepted and their evaluations; a rejected snapshot
  leaves the evaluator as it is.\<close>

inductive alert_reach :: "(bytes \<Rightarrow> digest) \<Rightarrow> alert_definition \<Rightarrow> (fee_band_snapshot \<times> alert_evaluation) list \<Rightarrow> alert_evaluator \<Rightarrow> bool"
  for b3 d where
  alert_start: "alert_reach b3 d [] (evaluator_new d)"
| alert_accept: "alert_reach b3 d h e \<Longrightarrow> evaluate b3 s e = Some (Inr v, e') \<Longrightarrow> alert_reach b3 d (h @ [(s, v)]) e'"

definition fresh :: "(fee_band_snapshot \<times> alert_evaluation) list \<Rightarrow> fee_band_snapshot list" where
  "fresh h = map fst (filter (\<lambda>(s, v). ae_transition v \<noteq> DuplicateRevision) h)"

definition deliveries :: "(fee_band_snapshot \<times> alert_evaluation) list \<Rightarrow> alert_transition list" where
  "deliveries h = map ae_transition (filter ae_delivery_required (map snd h))"

definition trigger_times :: "(fee_band_snapshot \<times> alert_evaluation) list \<Rightarrow> i64 list" where
  "trigger_times h = map (\<lambda>(s, v). fs_observed_at s) (filter (\<lambda>(s, v). ae_transition v = Triggered) h)"

definition alarming :: "alert_definition \<Rightarrow> fee_band_snapshot \<Rightarrow> bool" where
  "alarming d s \<longleftrightarrow> \<not> insufficient_or_suppressed d s \<and> ad_threshold_vbytes d < fs_vbytes s"

text \<open>The length of the alarming run at the end of a list of snapshots.\<close>

definition alarming_run :: "alert_definition \<Rightarrow> fee_band_snapshot list \<Rightarrow> nat" where
  "alarming_run d ss = length (takeWhile (alarming d) (rev ss))"

definition alternating :: "alert_transition list \<Rightarrow> bool" where
  "alternating ts \<longleftrightarrow> (\<forall>i < length ts. ts ! i = Triggered \<longleftrightarrow> even i)"

lemma history_snoc [simp]:
  "fresh (h @ [(s, v)]) = fresh h @ (if ae_transition v = DuplicateRevision then [] else [s])"
  "deliveries (h @ [(s, v)]) = deliveries h @ (if ae_delivery_required v then [ae_transition v] else [])"
  "trigger_times (h @ [(s, v)]) = trigger_times h @ (if ae_transition v = Triggered then [fs_observed_at s] else [])"
  by (simp_all add: fresh_def deliveries_def trigger_times_def)

lemma alarming_run_snoc: "alarming_run d (ss @ [s]) = (if alarming d s then Suc (alarming_run d ss) else 0)"
  by (simp add: alarming_run_def)

lemma alternating_snoc: "alternating (ts @ [t]) \<longleftrightarrow> alternating ts \<and> (t = Triggered \<longleftrightarrow> even (length ts))"
  unfolding alternating_def by (auto simp: nth_append less_Suc_eq)

section \<open>One step\<close>

lemma alert_step_parts:
  assumes "alert_step e s = Some (t, e1)"
  shows "ev_definition e1 = ev_definition e \<and> t \<noteq> DuplicateRevision \<and>
    ev_consecutive_true e1 = (if alarming (ev_definition e) s then saturating_add (ev_consecutive_true e) 1 else 0) \<and>
    (t \<in> {Triggered, Corrected, Retracted} \<longrightarrow> (t = Triggered \<longleftrightarrow> \<not> ev_active e) \<and> ev_active e1 = (\<not> ev_active e)) \<and>
    (t \<notin> {Triggered, Corrected, Retracted} \<longrightarrow> ev_active e1 = ev_active e) \<and>
    ev_last_trigger_at e1 = (if t = Triggered then Some (fs_observed_at s) else ev_last_trigger_at e) \<and>
    (t = Triggered \<longrightarrow> alarming (ev_definition e) s \<and> ad_for_evaluations (ev_definition e) \<le> ev_consecutive_true e1 \<and>
       inside_cooldown e (fs_observed_at s) = Some False)"
proof -
  have cool: "inside_cooldown (e\<lparr>ev_consecutive_true := n\<rparr>) at = inside_cooldown e at" for n at
    by (simp add: inside_cooldown_def Let_def split: option.split)
  show ?thesis
    using assms
    by (auto simp: alert_step_def alarming_def Let_def cool not_le not_less split: if_splits option.splits bool.splits)
qed

lemma evaluate_cases:
  assumes "evaluate b3 s e = Some (Inr v, e')"
  obtains (duplicate) "ev_last_snapshot e = Some s" "e' = e" "ae_transition v = DuplicateRevision" "\<not> ae_delivery_required v"
  | (new) t e1 where "ev_last_snapshot e \<noteq> Some s" "validate_order_and_contract e s = Inr ()" "alert_step e s = Some (t, e1)"
    "ae_transition v = t" "ae_delivery_required v = (t \<in> {Triggered, Corrected, Retracted})"
    "ev_definition e' = ev_definition e1" "ev_consecutive_true e' = ev_consecutive_true e1" "ev_active e' = ev_active e1"
    "ev_last_trigger_at e' = ev_last_trigger_at e1" "ev_last_observed_at e' = Some (fs_observed_at s)"
    "ev_last_revision e' = Some (fs_revision s)" "ev_last_snapshot e' = Some s" "ev_last_evaluation_id e' \<noteq> None"
  using assms
  by (auto simp: evaluate_def duplicate_evaluation_def evaluation_of_def Let_def
      split: sum.splits if_splits option.splits prod.splits)

text \<open>The evaluator remembers what its history determines.\<close>

definition alert_inv :: "alert_definition \<Rightarrow> (fee_band_snapshot \<times> alert_evaluation) list \<Rightarrow> alert_evaluator \<Rightarrow> bool" where
  "alert_inv d h e \<longleftrightarrow> ev_definition e = d \<and> ev_last_snapshot e = last_opt (fresh h) \<and>
     (ev_last_evaluation_id e = None \<longleftrightarrow> fresh h = []) \<and>
     ev_last_observed_at e = map_option fs_observed_at (last_opt (fresh h)) \<and>
     ev_last_revision e = map_option fs_revision (last_opt (fresh h)) \<and>
     unat (ev_consecutive_true e) = min (alarming_run d (fresh h)) (2 ^ 16 - 1) \<and>
     ev_last_trigger_at e = last_opt (trigger_times h) \<and>
     (\<forall>t \<in> set (trigger_times h). \<exists>last. last_opt (fresh h) = Some last \<and> sint t \<le> sint (fs_observed_at last)) \<and>
     (\<forall>t \<in> set (trigger_times h). \<exists>t'. last_opt (trigger_times h) = Some t' \<and> sint t \<le> sint t') \<and>
     alternating (deliveries h) \<and> (ev_active e \<longleftrightarrow> odd (length (deliveries h)))"

lemma alert_inv_start: "alert_inv d [] (evaluator_new d)"
  by (simp add: alert_inv_def evaluator_new_def fresh_def trigger_times_def deliveries_def alarming_run_def alternating_def)

lemma validate_time:
  assumes "validate_order_and_contract e s = Inr ()" "ev_last_observed_at e = Some prev"
  shows "sint prev \<le> sint (fs_observed_at s)"
  using assms by (auto simp: validate_order_and_contract_def rust_result split: if_splits)

lemma alert_inv_step:
  assumes "alert_inv d h e" "evaluate b3 s e = Some (Inr v, e')"
  shows "alert_inv d (h @ [(s, v)]) e'"
  using assms(2)
proof (cases rule: evaluate_cases)
  case duplicate
  then show ?thesis using assms(1) by (simp add: alert_inv_def)
next
  case (new t e1)
  note inv = assms(1) [unfolded alert_inv_def]
  note parts = alert_step_parts [OF new(3)]
  have t: "ae_transition v \<noteq> DuplicateRevision" using new(4) parts by simp
  have run: "unat (ev_consecutive_true e1) = min (alarming_run d (fresh h @ [s])) (2 ^ 16 - 1)"
    using parts inv by (simp add: unat_saturating_add alarming_run_snoc min_def)
  have times: "\<forall>x \<in> set (trigger_times h). sint x \<le> sint (fs_observed_at s)"
    using inv validate_time [OF new(2)] by fastforce
  have act: "alternating (deliveries (h @ [(s, v)])) \<and> (ev_active e' \<longleftrightarrow> odd (length (deliveries (h @ [(s, v)]))))"
    using new(4,5,8) parts inv by (auto simp: alternating_snoc)
  have trig: "ev_last_trigger_at e' = last_opt (trigger_times (h @ [(s, v)]))"
    using new(4,9) parts inv by auto
  have older: "\<forall>x \<in> set (trigger_times (h @ [(s, v)])). \<exists>t'. last_opt (trigger_times (h @ [(s, v)])) = Some t' \<and> sint x \<le> sint t'"
    using times inv by auto
  show ?thesis
    unfolding alert_inv_def using new(6,7,10-13) t run times act trig older parts inv by auto
qed

lemma alert_reach_inv: "alert_reach b3 d h e \<Longrightarrow> alert_inv d h e"
  by (induction rule: alert_reach.induct) (auto intro: alert_inv_start alert_inv_step)

section \<open>Properties\<close>

lemma sint_saturating_add:
  "sint (signed_saturating_add a b) = max (- (2 ^ 63)) (min (2 ^ 63 - 1) (sint a + sint b))"
proof -
  let ?x = "max (- (2 ^ 63)) (min (2 ^ 63 - 1) (sint a + sint b)) :: int"
  have "- (2 ^ 63) \<le> ?x" "?x < 2 ^ 63" by auto
  then show ?thesis
    by (simp add: signed_saturating_add_def signed_of_int signed_take_bit_int_eq_self)
qed

lemma cooldown_sint: "unat w < 2 ^ 63 \<Longrightarrow> sint w = int (unat w)" for w :: u64
proof -
  assume "unat w < 2 ^ 63"
  then have "int (unat w) < 2 ^ 63" by (metis of_nat_less_iff of_nat_numeral of_nat_power)
  then have "uint w < 2 ^ 63" by simp
  moreover have "- (2 ^ 63) \<le> uint w" by (rule order_trans [of _ 0]) simp_all
  ultimately have "signed_take_bit 63 (uint w) = uint w" by (intro signed_take_bit_int_eq_self) auto
  then show ?thesis by (simp add: sint_uint)
qed

text \<open>Evaluation never panics for a validated definition.\<close>

lemma evaluate_returns:
  assumes "alert_inv d h e" "unat (ad_cooldown_seconds d) < 2 ^ 63"
  shows "evaluate b3 s e \<noteq> None"
proof -
  let ?e = "e\<lparr>ev_consecutive_true := saturating_add (ev_consecutive_true e) 1\<rparr>"
  obtain inside where "inside_cooldown ?e (fs_observed_at s) = Some inside"
    using assms by (auto simp: inside_cooldown_def alert_inv_def Let_def)
  then have "alert_step e s \<noteq> None" by (cases inside) (auto simp: alert_step_def Let_def)
  moreover have "ev_last_evaluation_id e \<noteq> None" if "ev_last_snapshot e = Some s"
    using that assms(1) by (auto simp: alert_inv_def)
  ultimately show ?thesis
    by (auto simp: evaluate_def duplicate_evaluation_def Let_def split: sum.splits prod.splits option.splits)
qed

definition sample_alert :: alert_definition where
  "sample_alert = \<lparr>ad_alert_id = ''a'', ad_min_fee_rate_sat_vb = 1, ad_threshold_vbytes = 10, ad_quorum_required = 1,
     ad_for_evaluations = 1, ad_cooldown_seconds = 5, ad_degraded_policy = Suppress\<rparr>"

definition sample_snapshot :: fee_band_snapshot where
  "sample_snapshot = \<lparr>fs_network = ''mainnet'', fs_revision = 1, fs_observed_at = 100, fs_min_fee_rate_sat_vb = 1,
     fs_vbytes = 20, fs_quorum_required = 1, fs_eligible_sources = [''n''], fs_unavailable_sources = [],
     fs_completeness = Complete, fs_cause = ObservedCause\<rparr>"

lemma sample_alert_new: "alert_definition_new ''a'' 1 10 1 1 5 Suppress = Inr sample_alert"
  by (simp add: alert_definition_new_def sample_alert_def valid_identity_def ascii_graphic_def byte_of_def)

lemma sample_alert_evaluates:
  "\<exists>v e. evaluate (\<lambda>_. 0) sample_snapshot (evaluator_new sample_alert) = Some (Inr v, e) \<and> ae_transition v = Triggered \<and>
     ae_delivery_required v"
  by (simp add: evaluate_def validate_order_and_contract_def evaluator_new_def sample_alert_def sample_snapshot_def
      alert_step_def insufficient_or_suppressed_def inside_cooldown_def saturating_add_def evaluation_of_def Let_def)

text \<open>notifications of a mempool alert alternate. Whatever snapshots arrive, in whatever order, the
  evaluator never panics, the deliveries it requires are a trigger, then a retraction or correction,
  then a trigger again and so on, the alert is active exactly while the last delivery is a trigger,
  and replaying the last accepted snapshot requires no delivery and changes nothing.\<close>

theorem alert_deliveries_alternate:
  assumes "alert_definition_new alert min_fee threshold quorum persistence cooldown policy = Inr d" "alert_reach b3 d h e"
  shows "evaluate b3 s e \<noteq> None \<and> alternating (deliveries h) \<and>
    (ev_active e \<longleftrightarrow> last_opt (deliveries h) = Some Triggered) \<and>
    (last_opt (fresh h) = Some s \<longrightarrow> validate_order_and_contract e s = Inr () \<longrightarrow>
       (\<exists>v. evaluate b3 s e = Some (Inr v, e) \<and> ae_transition v = DuplicateRevision \<and> \<not> ae_delivery_required v))"
proof -
  have inv: "alert_inv d h e" using alert_reach_inv [OF assms(2)] .
  have "unat (ad_cooldown_seconds d) < 2 ^ 63" using assms(1) by (auto simp: alert_definition_new_def split: if_splits)
  note returns = evaluate_returns [OF inv this]
  have alt: "alternating (deliveries h)" "ev_active e \<longleftrightarrow> odd (length (deliveries h))" using inv by (auto simp: alert_inv_def)
  have "odd (length (deliveries h)) \<longleftrightarrow> last_opt (deliveries h) = Some Triggered"
    using alt(1) by (cases "deliveries h" rule: rev_cases) (auto simp: alternating_snoc)
  moreover have "\<exists>v. evaluate b3 s e = Some (Inr v, e) \<and> ae_transition v = DuplicateRevision \<and> \<not> ae_delivery_required v"
    if "last_opt (fresh h) = Some s" "validate_order_and_contract e s = Inr ()"
  proof -
    have "ev_last_snapshot e = Some s" "ev_last_evaluation_id e \<noteq> None" using that inv by (auto simp: alert_inv_def)
    then show ?thesis using that(2) by (auto simp: evaluate_def duplicate_evaluation_def evaluation_of_def)
  qed
  ultimately show ?thesis using returns alt by blast
qed

theorem alert_deliveries_alternate_witness:
  "\<exists>v e. alert_reach (\<lambda>_. 0) sample_alert [(sample_snapshot, v)] e \<and> ev_active e \<and>
     deliveries [(sample_snapshot, v)] = [Triggered] \<and> alternating [Triggered]"
proof -
  obtain v e where v: "evaluate (\<lambda>_. 0) sample_snapshot (evaluator_new sample_alert) = Some (Inr v, e)"
    "ae_transition v = Triggered" "ae_delivery_required v" using sample_alert_evaluates by blast
  have h: "alert_reach (\<lambda>_. 0) sample_alert [(sample_snapshot, v)] e" using alert_accept [OF alert_start v(1)] by simp
  have "deliveries [(sample_snapshot, v)] = [Triggered]" using v by (simp add: deliveries_def)
  with alert_deliveries_alternate [OF sample_alert_new h] h show ?thesis by (auto simp: last_opt_def)
qed

text \<open>a trigger of a mempool alert is justified by its evidence. When a snapshot triggers, the required
  number of the last accepted snapshots, itself included, all met the quorum, were not suppressed
  and exceeded the threshold, and the cooldown has passed since every earlier trigger, up to the end of
  the clock.\<close>

theorem alert_trigger_is_justified:
  assumes "alert_definition_new alert min_fee threshold quorum persistence cooldown policy = Inr d" "alert_reach b3 d h e"
    "evaluate b3 s e = Some (Inr v, e')" "ae_transition v = Triggered"
  shows "unat persistence \<le> alarming_run d (fresh h @ [s]) \<and> \<not> ev_active e \<and> ae_delivery_required v \<and>
    (\<forall>t \<in> set (trigger_times h). min (sint t + int (unat cooldown)) (2 ^ 63 - 1) \<le> sint (fs_observed_at s))"
proof -
  note inv = alert_reach_inv [OF assms(2), unfolded alert_inv_def]
  have d: "ad_for_evaluations d = persistence" "ad_cooldown_seconds d = cooldown" "unat cooldown < 2 ^ 63"
    using assms(1) by (auto simp: alert_definition_new_def split: if_splits)
  show ?thesis
    using assms(3)
  proof (cases rule: evaluate_cases)
    case duplicate
    then show ?thesis using assms(4) by simp
  next
    case (new t e1)
    then have t: "t = Triggered" using assms(4) by simp
    note parts = alert_step_parts [OF new(3)]
    have "persistence \<le> ev_consecutive_true e1" using parts t inv d(1) by auto
    then have "unat persistence \<le> unat (ev_consecutive_true e1)" by (simp add: word_le_nat_alt)
    also have "\<dots> \<le> alarming_run d (fresh h @ [s])"
      using parts t inv by (simp add: unat_saturating_add alarming_run_snoc)
    finally have run: "unat persistence \<le> alarming_run d (fresh h @ [s])" .
    have cd: "sint cooldown = int (unat cooldown)"
      using cooldown_sint [OF d(3)] .
    have "min (sint x + int (unat cooldown)) (2 ^ 63 - 1) \<le> sint (fs_observed_at s)" if x: "x \<in> set (trigger_times h)" for x
    proof -
      have "ev_last_trigger_at e = last_opt (trigger_times h)"
        "\<forall>x \<in> set (trigger_times h). \<exists>x'. last_opt (trigger_times h) = Some x' \<and> sint x \<le> sint x'" using inv by blast+
      then obtain x' where x': "ev_last_trigger_at e = Some x'" "sint x \<le> sint x'" using x by auto
      have "inside_cooldown e (fs_observed_at s) = Some False" using parts t by simp
      then have "sint (signed_saturating_add x' cooldown) \<le> sint (fs_observed_at s)"
        using x'(1) inv d(2,3) by (auto simp: inside_cooldown_def Let_def split: if_splits)
      then show ?thesis using x'(2) cd by (auto simp: sint_saturating_add max_def min_def split: if_splits)
    qed
    then show ?thesis using run parts t inv new(4,5) by auto
  qed
qed

theorem alert_trigger_is_justified_witness:
  "\<exists>v e. evaluate (\<lambda>_. 0) sample_snapshot (evaluator_new sample_alert) = Some (Inr v, e) \<and>
     unat (1 :: u16) \<le> alarming_run sample_alert (fresh [] @ [sample_snapshot])"
proof -
  obtain v e where v: "evaluate (\<lambda>_. 0) sample_snapshot (evaluator_new sample_alert) = Some (Inr v, e)"
    "ae_transition v = Triggered" using sample_alert_evaluates by blast
  from alert_trigger_is_justified [OF sample_alert_new alert_start v] v(1) show ?thesis by blast
qed

end
