(* ===== verification/Reorg_Alert.thy ===== *)
theory Reorg_Alert
  imports Mempool_Alert
begin

text \<open>
  The reorganisation rule of \<open>processors/alert-engine/src/lib.rs\<close>: validated events and rules, and the
  evaluation of one event with its deterministic alert identity.
\<close>

datatype rule_error = EmptyRuleId | EmptySubject | RuleZeroRevision | ZeroDepth | RuleMissingSources

record bitcoin_reorg_event =
  re_network :: string
  re_disconnected_tip_hash :: string
  re_common_ancestor_height :: u32
  re_reorg_depth :: u32
  re_revision :: u64
  re_source_ids :: "string list"
  re_completeness :: completeness

definition reorg_event_new ::
  "string \<Rightarrow> string \<Rightarrow> u32 \<Rightarrow> u32 \<Rightarrow> u64 \<Rightarrow> string list \<Rightarrow> completeness \<Rightarrow> rule_error + bitcoin_reorg_event" where
  "reorg_event_new network tip height depth revision sources compl =
     (if str_blank network \<or> str_blank tip then Inl EmptySubject
      else if revision = 0 then Inl RuleZeroRevision
      else if depth = 0 then Inl ZeroDepth
      else if sources = [] \<or> list_ex (\<lambda>s. str_blank s \<or> \<not> str_is_ascii s) sources then Inl RuleMissingSources
      else Inr \<lparr>re_network = network, re_disconnected_tip_hash = tip, re_common_ancestor_height = height,
        re_reorg_depth = depth, re_revision = revision, re_source_ids = remdups_adj (sort sources),
        re_completeness = compl\<rparr>)"

record bitcoin_reorg_rule =
  rl_rule_id :: string
  rl_minimum_depth :: u32

definition reorg_rule_new :: "string \<Rightarrow> u32 \<Rightarrow> rule_error + bitcoin_reorg_rule" where
  "reorg_rule_new rule depth =
     (if str_blank rule then Inl EmptyRuleId else if depth = 0 then Inl ZeroDepth
      else Inr \<lparr>rl_rule_id = rule, rl_minimum_depth = depth\<rparr>)"

record bitcoin_reorg_alert =
  ra_alert_id :: string
  ra_kind :: string
  ra_rule_id :: string
  ra_network :: string
  ra_disconnected_tip_hash :: string
  ra_common_ancestor_height :: u32
  ra_reorg_depth :: u32
  ra_revision :: u64
  ra_source_ids :: "string list"
  ra_completeness :: completeness

datatype alert_decision = Fire bitcoin_reorg_alert | DecisionBelowThreshold | SuppressedIncomplete

definition logical_key :: "bitcoin_reorg_rule \<Rightarrow> bitcoin_reorg_event \<Rightarrow> string" where
  "logical_key r ev = rl_rule_id r @ [char_of (0 :: nat)] @ re_network ev @ [char_of (0 :: nat)] @
     re_disconnected_tip_hash ev @ [char_of (0 :: nat)] @ dec_string (unat (re_revision ev))"

definition reorg_evaluate :: "(bytes \<Rightarrow> digest) \<Rightarrow> bitcoin_reorg_rule \<Rightarrow> bitcoin_reorg_event \<Rightarrow> alert_decision" where
  "reorg_evaluate b3 r ev =
     (if re_completeness ev = KnownIncomplete then SuppressedIncomplete
      else if re_reorg_depth ev < rl_minimum_depth r then DecisionBelowThreshold
      else Fire \<lparr>ra_alert_id = encode_hex (be_bytes 32 (unat (b3 (ascii_bytes (logical_key r ev))))),
        ra_kind = ''bitcoin_reorg'', ra_rule_id = rl_rule_id r, ra_network = re_network ev,
        ra_disconnected_tip_hash = re_disconnected_tip_hash ev,
        ra_common_ancestor_height = re_common_ancestor_height ev, ra_reorg_depth = re_reorg_depth ev,
        ra_revision = re_revision ev, ra_source_ids = re_source_ids ev, ra_completeness = re_completeness ev\<rparr>)"

section \<open>Identities of alerts\<close>

text \<open>Names without a zero byte make the key of a rule, a subject and a revision unambiguous.\<close>

lemma logical_key_unambiguous:
  assumes "char_of (0 :: nat) \<notin> set (rl_rule_id r) \<union> set (re_network e) \<union> set (re_disconnected_tip_hash e)"
    "char_of (0 :: nat) \<notin> set (rl_rule_id r') \<union> set (re_network e') \<union> set (re_disconnected_tip_hash e')"
    "logical_key r e = logical_key r' e'"
  shows "rl_rule_id r = rl_rule_id r' \<and> re_network e = re_network e' \<and>
    re_disconnected_tip_hash e = re_disconnected_tip_hash e' \<and> re_revision e = re_revision e'"
proof -
  note key = assms(3) [unfolded logical_key_def append.simps]
  from append_separator [OF _ _ key] assms(1,2) have 1: "rl_rule_id r = rl_rule_id r'"
    "re_network e @ char_of (0 :: nat) # re_disconnected_tip_hash e @ char_of (0 :: nat) # dec_string (unat (re_revision e)) =
     re_network e' @ char_of (0 :: nat) # re_disconnected_tip_hash e' @ char_of (0 :: nat) # dec_string (unat (re_revision e'))"
    by auto
  from append_separator [OF _ _ 1(2)] assms(1,2) have 2: "re_network e = re_network e'"
    "re_disconnected_tip_hash e @ char_of (0 :: nat) # dec_string (unat (re_revision e)) =
     re_disconnected_tip_hash e' @ char_of (0 :: nat) # dec_string (unat (re_revision e'))" by auto
  from append_separator [OF _ _ 2(2)] assms(1,2) have "re_disconnected_tip_hash e = re_disconnected_tip_hash e'"
    "dec_string (unat (re_revision e)) = dec_string (unat (re_revision e'))" by auto
  with 1 2 show ?thesis by (simp add: dec_string_inj word_unat_eq_iff)
qed

lemma reorg_fires_iff:
  "(\<exists>a. reorg_evaluate b3 r e = Fire a) \<longleftrightarrow> re_completeness e \<noteq> KnownIncomplete \<and> rl_minimum_depth r \<le> re_reorg_depth e"
  by (auto simp: reorg_evaluate_def not_less)

end
