(* ===== verification/Bitcoin_Backfill.thy ===== *)
theory Bitcoin_Backfill
  imports Bitcoin_Samples
begin

text \<open>
  The historical replay of \<open>processors/bitcoin-canonicality/src/backfill.rs\<close>: validated requests, resumable
  checkpoints and the coordinator that archives, materialises and checkpoints block after block. The
  source is a pair of functions; the concurrent reads are delivered in order, so their interleaving
  does not show. The sink answers each call from a list and keeps the calls that succeeded. The texts
  of errors are a parameter.
\<close>

section \<open>Data\<close>

definition MAX_IN_FLIGHT :: nat where "MAX_IN_FLIGHT = 256"

datatype backfill_error =
    BackfillEmptySourceId
  | InvalidRange u32 u32
  | InvalidConcurrency nat nat
  | CheckpointRequestMismatch
  | SourceFailed string
  | SinkFailed string string
  | InvalidBlock u32 string
  | BlockHashMismatch u32 digest digest

record backfill_request =
  rq_source_id :: string
  rq_start_height :: u32
  rq_end_height :: u32
  rq_max_in_flight :: nat

definition backfill_request_new :: "string \<Rightarrow> u32 \<Rightarrow> u32 \<Rightarrow> nat \<Rightarrow> backfill_error + backfill_request" where
  "backfill_request_new source first final in_flight =
     (if str_blank source then Inl BackfillEmptySourceId
      else if final < first then Inl (InvalidRange first final)
      else if in_flight < 1 \<or> MAX_IN_FLIGHT < in_flight then Inl (InvalidConcurrency in_flight MAX_IN_FLIGHT)
      else Inr \<lparr>rq_source_id = source, rq_start_height = first, rq_end_height = final, rq_max_in_flight = in_flight\<rparr>)"

definition request_preimage :: "backfill_request \<Rightarrow> bytes" where
  "request_preimage r = ascii_bytes ''multichain.bitcoin.backfill.request.v1'' @ le_bytes 8 (length (rq_source_id r)) @
     ascii_bytes (rq_source_id r) @ le_bytes 4 (unat (rq_start_height r)) @ le_bytes 4 (unat (rq_end_height r)) @
     le_bytes 8 (rq_max_in_flight r)"

definition request_hash :: "bitcoin_lib \<Rightarrow> backfill_request \<Rightarrow> digest" where
  "request_hash L r = sha256 L (request_preimage r)"

record backfill_checkpoint =
  cp_request_hash :: digest
  cp_last_archived :: "u32 option"
  cp_last_materialized :: "u32 option"
  cp_tip_at_start :: digest

record backfill_block =
  bb_source_id :: string
  bb_height :: u32
  bb_hash :: digest
  bb_raw :: bytes
  bb_parsed :: bitcoin_block

record backfill_report =
  bp_processed_blocks :: u64
  bp_tip_at_start :: digest
  bp_tip_at_end :: digest

definition tip_changed :: "backfill_report \<Rightarrow> bool" where
  "tip_changed rep \<longleftrightarrow> bp_tip_at_start rep \<noteq> bp_tip_at_end rep"

record backfill_source =
  src_block_hash :: "u32 \<Rightarrow> backfill_error + digest"
  src_raw_block :: "digest \<Rightarrow> backfill_error + bytes"

datatype sink_call = Archive backfill_block | Materialize backfill_block | Persist backfill_checkpoint

record backfill_sink =
  sk_answers :: "backfill_error option list"
  sk_log :: "sink_call list"

definition sink_do :: "sink_call \<Rightarrow> backfill_sink \<Rightarrow> (backfill_error + unit) \<times> backfill_sink" where
  "sink_do c k =
     (case sk_answers k of
        Some e # as \<Rightarrow> (Inl e, k\<lparr>sk_answers := as\<rparr>)
      | as \<Rightarrow> (Inr (), \<lparr>sk_answers = tl as, sk_log = sk_log k @ [c]\<rparr>))"

record backfill_texts =
  parse_error_text :: "parse_error \<Rightarrow> string"
  backfill_error_text :: "backfill_error \<Rightarrow> string"

section \<open>The coordinator\<close>

fun with_stage :: "backfill_texts \<Rightarrow> string \<Rightarrow> backfill_error \<Rightarrow> backfill_error" where
  "with_stage D stage (SinkFailed _ message) = SinkFailed stage message"
| "with_stage D stage e = SinkFailed stage (backfill_error_text D e)"

definition fetch_block ::
  "bitcoin_lib \<Rightarrow> backfill_texts \<Rightarrow> backfill_source \<Rightarrow> string \<Rightarrow> u32 \<Rightarrow> backfill_error + backfill_block" where
  "fetch_block L D src source height =
     and_then (src_block_hash src height) (\<lambda>hash.
     and_then (src_raw_block src hash) (\<lambda>raw.
     and_then (map_sum (\<lambda>e. InvalidBlock height (parse_error_text D e)) id (parse_block L raw)) (\<lambda>parsed.
       if block_hash L parsed \<noteq> hash then Inl (BlockHashMismatch height hash (block_hash L parsed))
       else Inr \<lparr>bb_source_id = source, bb_height = height, bb_hash = hash, bb_raw = raw, bb_parsed = parsed\<rparr>)))"

definition initial_checkpoint :: "bitcoin_lib \<Rightarrow> backfill_request \<Rightarrow> digest \<Rightarrow> backfill_checkpoint" where
  "initial_checkpoint L r tip = \<lparr>cp_request_hash = request_hash L r, cp_last_archived = None, cp_last_materialized = None,
     cp_tip_at_start = tip\<rparr>"

text \<open>The tip of the source is asked for first; its failure is the failure of the start.\<close>

definition backfill_start :: "bitcoin_lib \<Rightarrow> backfill_error + digest \<Rightarrow> backfill_request \<Rightarrow> backfill_error + backfill_checkpoint" where
  "backfill_start L best r = map_sum id (initial_checkpoint L r) best"

text \<open>One stage: the call, then the checkpoint after it; the checkpoint in memory follows the durable one.\<close>

definition stage ::
  "backfill_texts \<Rightarrow> string \<Rightarrow> sink_call \<Rightarrow> backfill_checkpoint \<Rightarrow> backfill_checkpoint \<Rightarrow> backfill_sink \<Rightarrow>
   (backfill_error + unit) \<times> backfill_checkpoint \<times> backfill_sink" where
  "stage D name call next cp k =
     (case sink_do call k of
        (Inl e, k1) \<Rightarrow> (Inl (with_stage D name e), cp, k1)
      | (Inr _, k1) \<Rightarrow>
          (case sink_do (Persist next) k1 of
             (Inl e, k2) \<Rightarrow> (Inl (with_stage D ''checkpoint'' e), cp, k2)
           | (Inr _, k2) \<Rightarrow> (Inr (), next, k2)))"

definition process_block ::
  "backfill_texts \<Rightarrow> backfill_block \<Rightarrow> backfill_checkpoint \<Rightarrow> backfill_sink \<Rightarrow>
   (backfill_error + unit) \<times> backfill_checkpoint \<times> backfill_sink" where
  "process_block D blk cp k =
     (case (if (case cp_last_archived cp of None \<Rightarrow> True | Some h \<Rightarrow> h < bb_height blk)
            then stage D ''archive'' (Archive blk) (cp\<lparr>cp_last_archived := Some (bb_height blk)\<rparr>) cp k
            else (Inr (), cp, k)) of
        (Inl e, cp1, k1) \<Rightarrow> (Inl e, cp1, k1)
      | (Inr _, cp1, k1) \<Rightarrow>
          stage D ''materialize'' (Materialize blk) (cp1\<lparr>cp_last_materialized := Some (bb_height blk)\<rparr>) cp1 k1)"

fun run_heights ::
  "bitcoin_lib \<Rightarrow> backfill_texts \<Rightarrow> backfill_source \<Rightarrow> string \<Rightarrow> u32 list \<Rightarrow> u64 \<Rightarrow> backfill_checkpoint \<Rightarrow> backfill_sink \<Rightarrow>
   (backfill_error + u64) \<times> backfill_checkpoint \<times> backfill_sink" where
  "run_heights L D src source [] n cp k = (Inr n, cp, k)"
| "run_heights L D src source (h # hs) n cp k =
     (case fetch_block L D src source h of
        Inl e \<Rightarrow> (Inl e, cp, k)
      | Inr blk \<Rightarrow>
          (case process_block D blk cp k of
             (Inl e, cp1, k1) \<Rightarrow> (Inl e, cp1, k1)
           | (Inr _, cp1, k1) \<Rightarrow> run_heights L D src source hs (saturating_add n 1) cp1 k1))"

definition remaining_heights :: "backfill_request \<Rightarrow> backfill_checkpoint \<Rightarrow> u32 list" where
  "remaining_heights r cp =
     (let first = (case cp_last_materialized cp of
            Some h \<Rightarrow> if rq_end_height r \<le> h then None else Some (h + 1)
          | None \<Rightarrow> Some (rq_start_height r))
      in case first of None \<Rightarrow> [] | Some h \<Rightarrow> map of_nat [unat h..<Suc (unat (rq_end_height r))])"

definition backfill_run ::
  "bitcoin_lib \<Rightarrow> backfill_texts \<Rightarrow> backfill_source \<Rightarrow> backfill_error + digest \<Rightarrow> backfill_request \<Rightarrow>
   backfill_checkpoint \<Rightarrow> backfill_sink \<Rightarrow> (backfill_error + backfill_report) \<times> backfill_checkpoint \<times> backfill_sink" where
  "backfill_run L D src tip_at_end r cp k =
     (if cp_request_hash cp \<noteq> request_hash L r then (Inl CheckpointRequestMismatch, cp, k)
      else case run_heights L D src (rq_source_id r) (remaining_heights r cp) 0 cp k of
          (Inl e, cp1, k1) \<Rightarrow> (Inl e, cp1, k1)
        | (Inr n, cp1, k1) \<Rightarrow>
            (map_sum id (\<lambda>tip. \<lparr>bp_processed_blocks = n, bp_tip_at_start = cp_tip_at_start cp1, bp_tip_at_end = tip\<rparr>) tip_at_end,
             cp1, k1))"

section \<open>Sessions\<close>

text \<open>Runs that resume each other, with the durable log of the sink. Each run has its own source, so the source may answer
  differently in every run; within a run it is asked once for each height. \<open>srcs\<close> has the sources of the runs so far.\<close>

inductive backfill_session ::
  "bitcoin_lib \<Rightarrow> backfill_texts \<Rightarrow> backfill_request \<Rightarrow> digest \<Rightarrow> backfill_source list \<Rightarrow> backfill_checkpoint \<Rightarrow> sink_call list \<Rightarrow> bool"
  for L D r tip where
  session_start: "backfill_start L (Inr tip) r = Inr cp \<Longrightarrow> backfill_session L D r tip [] cp []"
| session_run: "backfill_session L D r tip srcs cp log \<Longrightarrow>
    backfill_run L D src tip_at_end r cp \<lparr>sk_answers = answers, sk_log = log\<rparr> = (res, cp', k') \<Longrightarrow>
    backfill_session L D r tip (srcs @ [src]) cp' (sk_log k')"

text \<open>A block is materialised only after it has been archived; a height only after a block of that height has been.\<close>

definition raw_first :: "sink_call list \<Rightarrow> bool" where
  "raw_first log \<longleftrightarrow> (\<forall>l1 blk l2. log = l1 @ Materialize blk # l2 \<longrightarrow> Archive blk \<in> set l1)"

definition height_first :: "sink_call list \<Rightarrow> bool" where
  "height_first log \<longleftrightarrow> (\<forall>l1 blk l2. log = l1 @ Materialize blk # l2 \<longrightarrow>
     (\<exists>b. Archive b \<in> set l1 \<and> bb_height b = bb_height blk))"

text \<open>The block that one of the sources served for its height, and sources that never serve two blocks for one height.\<close>

definition served :: "bitcoin_lib \<Rightarrow> backfill_texts \<Rightarrow> string \<Rightarrow> backfill_source list \<Rightarrow> backfill_block \<Rightarrow> bool" where
  "served L D source srcs blk \<longleftrightarrow> (\<exists>src \<in> set srcs. fetch_block L D src source (bb_height blk) = Inr blk)"

definition sources_agree :: "bitcoin_lib \<Rightarrow> backfill_texts \<Rightarrow> string \<Rightarrow> backfill_source list \<Rightarrow> bool" where
  "sources_agree L D source srcs \<longleftrightarrow> (\<forall>b b'. served L D source srcs b \<longrightarrow> served L D source srcs b' \<longrightarrow>
     bb_height b = bb_height b' \<longrightarrow> b = b')"

definition last_persisted :: "backfill_checkpoint \<Rightarrow> sink_call list \<Rightarrow> backfill_checkpoint" where
  "last_persisted cp log = foldl (\<lambda>cp c. case c of Persist p \<Rightarrow> p | _ \<Rightarrow> cp) cp log"

text \<open>The first height after a progress mark.\<close>

fun next_height :: "u32 \<Rightarrow> u32 option \<Rightarrow> nat" where
  "next_height first None = unat first"
| "next_height first (Some h) = Suc (unat h)"

definition covered :: "(backfill_block \<Rightarrow> sink_call) \<Rightarrow> u32 \<Rightarrow> nat \<Rightarrow> sink_call list \<Rightarrow> bool" where
  "covered call first bound log \<longleftrightarrow>
     (\<forall>h. first \<le> h \<and> unat h < bound \<longrightarrow> (\<exists>blk. bb_height blk = h \<and> call blk \<in> set log))"

fun call_ok :: "(backfill_block \<Rightarrow> bool) \<Rightarrow> sink_call \<Rightarrow> bool" where
  "call_ok p (Archive blk) = p blk"
| "call_ok p (Materialize blk) = p blk"
| "call_ok p (Persist cp) = True"

definition backfill_inv ::
  "bitcoin_lib \<Rightarrow> backfill_texts \<Rightarrow> backfill_source list \<Rightarrow> backfill_request \<Rightarrow> digest \<Rightarrow> backfill_checkpoint \<Rightarrow> sink_call list \<Rightarrow> bool" where
  "backfill_inv L D srcs r tip cp log \<longleftrightarrow>
     cp_request_hash cp = request_hash L r \<and> cp_tip_at_start cp = tip \<and>
     last_persisted (initial_checkpoint L r tip) log = cp \<and> height_first log \<and>
     list_all (call_ok (served L D (rq_source_id r) srcs)) log \<and>
     unat (rq_start_height r) \<le> next_height (rq_start_height r) (cp_last_materialized cp) \<and>
     next_height (rq_start_height r) (cp_last_materialized cp) \<le> next_height (rq_start_height r) (cp_last_archived cp) \<and>
     covered Archive (rq_start_height r) (next_height (rq_start_height r) (cp_last_archived cp)) log \<and>
     covered Materialize (rq_start_height r) (next_height (rq_start_height r) (cp_last_materialized cp)) log"

lemma height_first_snoc:
  "height_first (log @ [c]) \<longleftrightarrow> height_first log \<and>
     (\<forall>blk. c = Materialize blk \<longrightarrow> (\<exists>b. Archive b \<in> set log \<and> bb_height b = bb_height blk))"
proof
  assume hf: "height_first (log @ [c])"
  have "\<exists>b. Archive b \<in> set l1 \<and> bb_height b = bb_height blk" if "log = l1 @ Materialize blk # l2" for l1 blk l2
    using hf that unfolding height_first_def by (metis append.assoc append_Cons)
  moreover have "\<exists>b. Archive b \<in> set log \<and> bb_height b = bb_height blk" if "c = Materialize blk" for blk
    using hf that unfolding height_first_def by blast
  ultimately show "height_first log \<and> (\<forall>blk. c = Materialize blk \<longrightarrow> (\<exists>b. Archive b \<in> set log \<and> bb_height b = bb_height blk))"
    unfolding height_first_def by blast
next
  assume "height_first log \<and> (\<forall>blk. c = Materialize blk \<longrightarrow> (\<exists>b. Archive b \<in> set log \<and> bb_height b = bb_height blk))"
  then show "height_first (log @ [c])"
    unfolding height_first_def by (auto simp: append_eq_append_conv2 append_eq_Cons_conv Cons_eq_append_conv)
qed

text \<open>With sources that agree, archiving a height first is archiving the block first.\<close>

lemma height_first_raw_first:
  assumes "height_first log" "list_all (call_ok (served L D source srcs)) log" "sources_agree L D source srcs"
  shows "raw_first log"
  unfolding raw_first_def
proof (intro allI impI)
  fix l1 blk l2
  assume log: "log = l1 @ Materialize blk # l2"
  obtain b where b: "Archive b \<in> set l1" "bb_height b = bb_height blk" using assms(1) log unfolding height_first_def by blast
  have calls: "call_ok (served L D source srcs) (Archive b)" "call_ok (served L D source srcs) (Materialize blk)"
    using assms(2) b(1) log unfolding list_all_iff by (metis UnCI set_append, simp)
  then have "b = blk" using assms(3) b(2) by (simp add: sources_agree_def)
  then show "Archive blk \<in> set l1" using b(1) by simp
qed

lemma served_mono: "served L D source srcs blk \<Longrightarrow> served L D source (srcs @ ss) blk"
  by (auto simp: served_def)

lemma backfill_inv_mono: "backfill_inv L D srcs r tip cp log \<Longrightarrow> backfill_inv L D (srcs @ ss) r tip cp log"
proof -
  have "call_ok (served L D source srcs) c \<Longrightarrow> call_ok (served L D source (srcs @ ss)) c" for source c
    using served_mono by (cases c) auto
  then show "backfill_inv L D srcs r tip cp log \<Longrightarrow> backfill_inv L D (srcs @ ss) r tip cp log"
    by (auto simp: backfill_inv_def list_all_iff)
qed

lemma last_persisted_snoc:
  "last_persisted cp (log @ [c]) = (case c of Persist p \<Rightarrow> p | _ \<Rightarrow> last_persisted cp log)"
  by (cases c) (simp_all add: last_persisted_def)

lemma covered_mono: "covered call first n log \<Longrightarrow> covered call first n (log @ [c])"
  by (fastforce simp: covered_def)

lemma covered_extend:
  assumes "covered call first (unat h) log" "bb_height blk = h"
  shows "covered call first (Suc (unat h)) (log @ call blk # rest)"
proof -
  have "\<exists>b. bb_height b = x \<and> call b \<in> set (log @ call blk # rest)" if "first \<le> x" "unat x < Suc (unat h)" for x
  proof (cases "unat x < unat h")
    case True
    then show ?thesis using assms(1) that(1) by (fastforce simp: covered_def)
  next
    case False
    then have "x = h" using that(2) by (simp add: word_unat_eq_iff)
    then show ?thesis using assms(2) by auto
  qed
  then show ?thesis by (simp add: covered_def)
qed

text \<open>A call that is not a checkpoint keeps the invariant when it is in order.\<close>

lemma backfill_inv_call:
  assumes "backfill_inv L D srcs r tip cp log" "height_first (log @ [c])" "\<And>p. c \<noteq> Persist p"
    "call_ok (served L D (rq_source_id r) srcs) c"
  shows "backfill_inv L D srcs r tip cp (log @ [c])"
  using assms by (cases c) (auto simp: backfill_inv_def last_persisted_snoc covered_mono)

lemma sink_do_cases:
  assumes "sink_do c k = (res, k')"
  shows "(\<exists>e. res = Inl e) \<and> sk_log k' = sk_log k \<or> res = Inr () \<and> sk_log k' = sk_log k @ [c]"
  using assms by (auto simp: sink_do_def split: list.splits option.splits)

lemma stage_cases:
  assumes "stage D name call next cp k = (res, cp', k')"
  shows "(\<exists>e. res = Inl e) \<and> cp' = cp \<and> sk_log k' \<in> {sk_log k, sk_log k @ [call]} \<or>
    res = Inr () \<and> cp' = next \<and> sk_log k' = sk_log k @ [call, Persist next]"
proof -
  obtain r1 k1 where 1: "sink_do call k = (r1, k1)" by fastforce
  obtain r2 k2 where 2: "sink_do (Persist next) k1 = (r2, k2)" by fastforce
  from sink_do_cases [OF 1] sink_do_cases [OF 2] show ?thesis
    using assms 1 2 by (auto simp: stage_def split: sum.splits)
qed

lemma archive_stage_inv:
  assumes "backfill_inv L D srcs r tip cp (sk_log k)" "served L D (rq_source_id r) srcs blk"
    "bb_height blk = h" "unat h = next_height (rq_start_height r) (cp_last_archived cp)"
    "stage D ''archive'' (Archive blk) (cp\<lparr>cp_last_archived := Some h\<rparr>) cp k = (res, cp', k')"
  shows "backfill_inv L D srcs r tip cp' (sk_log k') \<and>
    cp_last_materialized cp' = cp_last_materialized cp \<and> (res = Inr () \<longrightarrow> Archive blk \<in> set (sk_log k'))"
proof -
  have hf: "height_first (sk_log k @ [Archive blk])" using assms(1) by (simp add: height_first_snoc backfill_inv_def)
  have arch: "covered Archive (rq_start_height r) (Suc (unat h)) (sk_log k @ [Archive blk, Persist (cp\<lparr>cp_last_archived := Some h\<rparr>)])"
    using assms(1,4) by (intro covered_extend [where call = Archive] assms(3)) (simp add: backfill_inv_def)
  have mat: "covered Materialize (rq_start_height r)
      (next_height (rq_start_height r) (cp_last_materialized cp)) ((sk_log k @ [Archive blk]) @ [Persist (cp\<lparr>cp_last_archived := Some h\<rparr>)])"
    using assms(1) by (intro covered_mono) (simp add: backfill_inv_def)
  have "height_first ((sk_log k @ [Archive blk]) @ [Persist (cp\<lparr>cp_last_archived := Some h\<rparr>)])"
    using hf by (simp only: height_first_snoc) simp
  then have done_inv: "backfill_inv L D srcs r tip (cp\<lparr>cp_last_archived := Some h\<rparr>)
      (sk_log k @ [Archive blk, Persist (cp\<lparr>cp_last_archived := Some h\<rparr>)])"
    using assms(1,2,4) arch mat last_persisted_snoc [of "initial_checkpoint L r tip" "sk_log k @ [Archive blk]"
      "Persist (cp\<lparr>cp_last_archived := Some h\<rparr>)"]
    by (simp add: backfill_inv_def)
  have "backfill_inv L D srcs r tip cp (sk_log k @ [Archive blk])" using backfill_inv_call [OF assms(1) hf] assms(2) by simp
  then show ?thesis using stage_cases [OF assms(5)] assms(1) done_inv by auto
qed

lemma materialize_stage_inv:
  assumes "backfill_inv L D srcs r tip cp (sk_log k)" "served L D (rq_source_id r) srcs blk"
    "bb_height blk = h" "unat h = next_height (rq_start_height r) (cp_last_materialized cp)"
    "unat h < next_height (rq_start_height r) (cp_last_archived cp)"
    "stage D ''materialize'' (Materialize blk) (cp\<lparr>cp_last_materialized := Some h\<rparr>) cp k = (res, cp', k')"
  shows "backfill_inv L D srcs r tip cp' (sk_log k') \<and> (res = Inr () \<longrightarrow> cp_last_materialized cp' = Some h)"
proof -
  let ?cp = "cp\<lparr>cp_last_materialized := Some h\<rparr>"
  have start: "rq_start_height r \<le> h" using assms(1,4) by (simp add: backfill_inv_def word_le_nat_alt)
  have "\<exists>b. Archive b \<in> set (sk_log k) \<and> bb_height b = bb_height blk"
    using assms(1,3,5) start by (auto simp: backfill_inv_def covered_def)
  then have hf: "height_first (sk_log k @ [Materialize blk])" using assms(1) by (simp add: height_first_snoc backfill_inv_def)
  have mat: "covered Materialize (rq_start_height r) (Suc (unat h)) (sk_log k @ [Materialize blk, Persist ?cp])"
    using assms(1,4) by (intro covered_extend [where call = Materialize] assms(3)) (simp add: backfill_inv_def)
  have arch: "covered Archive (rq_start_height r) (next_height (rq_start_height r) (cp_last_archived cp))
      ((sk_log k @ [Materialize blk]) @ [Persist ?cp])"
    using assms(1) by (intro covered_mono) (simp add: backfill_inv_def)
  have "height_first ((sk_log k @ [Materialize blk]) @ [Persist ?cp])" using hf by (simp only: height_first_snoc) simp
  then have done_inv: "backfill_inv L D srcs r tip ?cp (sk_log k @ [Materialize blk, Persist ?cp])"
    using assms(1,2,5) start arch mat last_persisted_snoc [of "initial_checkpoint L r tip" "sk_log k @ [Materialize blk]" "Persist ?cp"]
    by (simp add: backfill_inv_def word_le_nat_alt)
  have "backfill_inv L D srcs r tip cp (sk_log k @ [Materialize blk])" using backfill_inv_call [OF assms(1) hf] assms(2) by simp
  then show ?thesis using stage_cases [OF assms(6)] assms(1) done_inv by auto
qed

lemma fetch_height: "fetch_block L D src source h = Inr blk \<Longrightarrow> bb_height blk = h"
  by (auto simp: fetch_block_def rust_result split: if_splits)

lemma process_block_inv:
  assumes "backfill_inv L D srcs r tip cp (sk_log k)" "served L D (rq_source_id r) srcs blk" "bb_height blk = h"
    "unat h = next_height (rq_start_height r) (cp_last_materialized cp)" "process_block D blk cp k = (res, cp', k')"
  shows "backfill_inv L D srcs r tip cp' (sk_log k') \<and> (res = Inr () \<longrightarrow> cp_last_materialized cp' = Some h)"
proof -
  let ?next = "next_height (rq_start_height r)"
  note height = assms(3)
  obtain res1 cp1 k1 where 1: "(if (case cp_last_archived cp of None \<Rightarrow> True | Some x \<Rightarrow> x < h)
      then stage D ''archive'' (Archive blk) (cp\<lparr>cp_last_archived := Some h\<rparr>) cp k else (Inr (), cp, k)) = (res1, cp1, k1)"
    by (metis prod_cases3)
  have le: "?next (cp_last_materialized cp) \<le> ?next (cp_last_archived cp)"
    and low: "unat (rq_start_height r) \<le> ?next (cp_last_materialized cp)" using assms(1) by (auto simp: backfill_inv_def)
  have first: "backfill_inv L D srcs r tip cp1 (sk_log k1) \<and> cp_last_materialized cp1 = cp_last_materialized cp \<and>
      (res1 = Inr () \<longrightarrow> unat h < ?next (cp_last_archived cp1))"
  proof (cases "case cp_last_archived cp of None \<Rightarrow> True | Some x \<Rightarrow> x < h")
    case True
    then have eq: "unat h = ?next (cp_last_archived cp)"
      using le low assms(4) by (auto simp: word_less_nat_alt split: option.splits)
    have st: "stage D ''archive'' (Archive blk) (cp\<lparr>cp_last_archived := Some h\<rparr>) cp k = (res1, cp1, k1)" using 1 True by simp
    from archive_stage_inv [OF assms(1,2) height eq st] stage_cases [OF st] show ?thesis by auto
  next
    case False
    then have "unat h < ?next (cp_last_archived cp)" by (auto simp: word_less_nat_alt not_less split: option.splits)
    then show ?thesis using 1 False assms(1) by auto
  qed
  show ?thesis
  proof (cases res1)
    case (Inl e)
    then show ?thesis using assms(5) 1 first height by (auto simp: process_block_def)
  next
    case (Inr u)
    then have "stage D ''materialize'' (Materialize blk) (cp1\<lparr>cp_last_materialized := Some h\<rparr>) cp1 k1 = (res, cp', k')"
      using assms(5) unfolding process_block_def height 1 by simp
    moreover have "backfill_inv L D srcs r tip cp1 (sk_log k1)" "unat h = ?next (cp_last_materialized cp1)"
      "unat h < ?next (cp_last_archived cp1)" using first assms(4) Inr by auto
    ultimately show ?thesis using materialize_stage_inv [OF _ assms(2) height] by blast
  qed
qed

lemma run_heights_inv:
  fixes final :: u32
  assumes "backfill_inv L D srcs r tip cp (sk_log k)" "src \<in> set srcs" "next_height (rq_start_height r) (cp_last_materialized cp) = m"
    "run_heights L D src (rq_source_id r) (map of_nat [m..<Suc (unat final)]) n cp k = (res, cp', k')"
  shows "backfill_inv L D srcs r tip cp' (sk_log k') \<and>
    (\<forall>x. res = Inr x \<longrightarrow> Suc (unat final) \<le> next_height (rq_start_height r) (cp_last_materialized cp'))"
  using assms
proof (induction "Suc (unat final) - m" arbitrary: m n cp k)
  case 0
  then show ?case by simp
next
  case (Suc j)
  then have m: "m \<le> unat final" by simp
  have um: "unat (of_nat m :: u32) = m"
  proof -
    have "unat final < 2 ^ 32" using unsigned_less [of final] by simp
    then have "m < 2 ^ 32" using m by simp
    then show ?thesis by (simp add: unat_of_nat)
  qed
  have hs: "[m..<Suc (unat final)] = m # [Suc m..<Suc (unat final)]" using m by (simp add: upt_conv_Cons)
  note run = Suc.prems(4) [unfolded hs list.map run_heights.simps]
  show ?case
  proof (cases "fetch_block L D src (rq_source_id r) (of_nat m)")
    case (Inl e)
    then show ?thesis using run Suc.prems(1) by auto
  next
    case (Inr blk)
    obtain res1 cp1 k1 where 1: "process_block D blk cp k = (res1, cp1, k1)" by (metis prod_cases3)
    have eq: "unat (of_nat m :: u32) = next_height (rq_start_height r) (cp_last_materialized cp)" using Suc.prems(3) um by simp
    have "served L D (rq_source_id r) srcs blk" using Suc.prems(2) Inr fetch_height [OF Inr] by (auto simp: served_def)
    from process_block_inv [OF Suc.prems(1) this fetch_height [OF Inr] eq 1]
    have inv1: "backfill_inv L D srcs r tip cp1 (sk_log k1)" "res1 = Inr () \<longrightarrow> cp_last_materialized cp1 = Some (of_nat m)"
      by auto
    show ?thesis
    proof (cases res1)
      case (Inl e)
      then show ?thesis using run inv1 1 Inr by auto
    next
      case ok: (Inr u)
      then have "next_height (rq_start_height r) (cp_last_materialized cp1) = Suc m" using inv1 um by simp
      moreover have "run_heights L D src (rq_source_id r) (map of_nat [Suc m..<Suc (unat final)]) (saturating_add n 1) cp1 k1 =
          (res, cp', k')" using run 1 Inr ok by simp
      ultimately show ?thesis using Suc.hyps(1) [of "Suc m" cp1 k1] Suc.hyps(2) Suc.prems(2) inv1(1) by simp
    qed
  qed
qed

lemma backfill_run_inv:
  assumes "backfill_inv L D srcs r tip cp (sk_log k)" "src \<in> set srcs" "backfill_run L D src tip_at_end r cp k = (res, cp', k')"
  shows "backfill_inv L D srcs r tip cp' (sk_log k') \<and>
    (\<forall>rep. res = Inr rep \<longrightarrow> Suc (unat (rq_end_height r)) \<le> next_height (rq_start_height r) (cp_last_materialized cp'))"
proof -
  let ?next = "next_height (rq_start_height r) (cp_last_materialized cp)"
  obtain res1 cp1 k1 where 1: "run_heights L D src (rq_source_id r) (remaining_heights r cp) 0 cp k = (res1, cp1, k1)"
    by (metis prod_cases3)
  have out: "cp' = cp1 \<and> k' = k1 \<and> (\<forall>rep. res = Inr rep \<longrightarrow> (\<exists>x. res1 = Inr x))"
    using assms 1 by (auto simp: backfill_run_def backfill_inv_def split: sum.splits)
  have heights: "remaining_heights r cp = map of_nat [?next..<Suc (unat (rq_end_height r))]"
  proof (cases "cp_last_materialized cp")
    case (Some h)
    show ?thesis
    proof (cases "rq_end_height r \<le> h")
      case True
      then show ?thesis using Some by (simp add: remaining_heights_def word_le_nat_alt)
    next
      case False
      then have "h \<noteq> - 1" by auto
      then have "unat (h + 1) = Suc (unat h)" using unat_succ_less [of h] by (simp add: unat_word_ariths)
      then show ?thesis using Some False by (simp add: remaining_heights_def)
    qed
  qed (simp add: remaining_heights_def)
  from run_heights_inv [OF assms(1,2) refl 1 [unfolded heights]] out show ?thesis by blast
qed

lemma backfill_session_inv: "backfill_session L D r tip srcs cp log \<Longrightarrow> backfill_inv L D srcs r tip cp log"
proof (induction rule: backfill_session.induct)
  case (session_start cp)
  then have "cp = initial_checkpoint L r tip" by (simp add: backfill_start_def)
  then show ?case by (simp add: backfill_inv_def initial_checkpoint_def last_persisted_def height_first_def covered_def word_le_nat_alt)
next
  case (session_run srcs cp log src tip_at_end answers res cp' k')
  have "backfill_inv L D (srcs @ [src]) r tip cp (sk_log \<lparr>sk_answers = answers, sk_log = log\<rparr>)"
    using backfill_inv_mono [OF session_run.IH] by simp
  from backfill_run_inv [OF this _ session_run.hyps(2)] show ?case by simp
qed

text \<open>With a source that answers and a sink that accepts, a run completes.\<close>

lemma process_block_completes:
  assumes "sk_answers k = []"
  shows "\<exists>cp' k'. process_block D blk cp k = (Inr (), cp', k') \<and> sk_answers k' = []"
  using assms by (auto simp: process_block_def stage_def sink_do_def)

lemma run_heights_completes:
  assumes "\<forall>h \<in> set hs. \<exists>blk. fetch_block L D src source h = Inr blk" "sk_answers k = []"
  shows "\<exists>x cp' k'. run_heights L D src source hs n cp k = (Inr x, cp', k')"
  using assms
proof (induction hs arbitrary: n cp k)
  case (Cons h hs)
  then obtain blk where blk: "fetch_block L D src source h = Inr blk" by auto
  obtain cp1 k1 where "process_block D blk cp k = (Inr (), cp1, k1)" "sk_answers k1 = []"
    using process_block_completes [OF Cons.prems(2)] by blast
  with Cons blk show ?case by simp
qed simp

section \<open>Properties\<close>

text \<open>C20: a resumable backfill misses no height, also when the source answers differently in each run. Over any sequence
  of runs, each with its own source and any failures of the sink: no height is materialised before a block of that height has
  been archived; every archived or materialised block was served for its height by the source of one of the runs, and its
  parsed hash is the one that source gave for the height; the checkpoint in memory is the last durable one; and a run that
  reports success has left every height of the request archived and materialised. When the sources of the runs never serve
  two blocks for one height, no block is materialised before it has itself been archived, and the block archived at a height
  is the one materialised. When the source and the sink do not fail, the run reports success.\<close>

theorem backfill_covers_range:
  assumes "backfill_session L D r tip srcs cp log"
    "backfill_run L D src tip_at_end r cp \<lparr>sk_answers = answers, sk_log = log\<rparr> = (res, cp', k')"
  shows "height_first (sk_log k') \<and> last_persisted (initial_checkpoint L r tip) (sk_log k') = cp' \<and>
    (\<forall>blk. Archive blk \<in> set (sk_log k') \<or> Materialize blk \<in> set (sk_log k') \<longrightarrow>
       (\<exists>s \<in> set (srcs @ [src]). fetch_block L D s (rq_source_id r) (bb_height blk) = Inr blk \<and>
          src_block_hash s (bb_height blk) = Inr (block_hash L (bb_parsed blk)))) \<and>
    (\<forall>rep h. res = Inr rep \<longrightarrow> rq_start_height r \<le> h \<longrightarrow> h \<le> rq_end_height r \<longrightarrow>
       (\<exists>b1 b2. bb_height b1 = h \<and> bb_height b2 = h \<and> Archive b1 \<in> set (sk_log k') \<and> Materialize b2 \<in> set (sk_log k'))) \<and>
    (sources_agree L D (rq_source_id r) (srcs @ [src]) \<longrightarrow> raw_first (sk_log k') \<and>
       (\<forall>b1 b2. Archive b1 \<in> set (sk_log k') \<longrightarrow> Materialize b2 \<in> set (sk_log k') \<longrightarrow> bb_height b1 = bb_height b2 \<longrightarrow> b1 = b2)) \<and>
    (answers = [] \<longrightarrow> (\<forall>h. \<exists>blk. fetch_block L D src (rq_source_id r) h = Inr blk) \<longrightarrow> (\<exists>x. tip_at_end = Inr x) \<longrightarrow>
       (\<exists>rep. res = Inr rep))"
proof -
  let ?srcs = "srcs @ [src]" and ?k = "\<lparr>sk_answers = answers, sk_log = log\<rparr>"
  have inv: "backfill_inv L D ?srcs r tip cp (sk_log ?k)" using backfill_inv_mono [OF backfill_session_inv [OF assms(1)]] by simp
  have out: "backfill_inv L D ?srcs r tip cp' (sk_log k')"
    "\<And>rep. res = Inr rep \<Longrightarrow> Suc (unat (rq_end_height r)) \<le> next_height (rq_start_height r) (cp_last_materialized cp')"
    using backfill_run_inv [OF inv _ assms(2)] by auto
  have hf: "height_first (sk_log k')" "last_persisted (initial_checkpoint L r tip) (sk_log k') = cp'"
    "list_all (call_ok (served L D (rq_source_id r) ?srcs)) (sk_log k')" using out(1) by (simp_all add: backfill_inv_def)
  have srv: "served L D (rq_source_id r) ?srcs blk" if "Archive blk \<in> set (sk_log k') \<or> Materialize blk \<in> set (sk_log k')" for blk
    using that hf(3) by (fastforce simp: list_all_iff)
  have "src_block_hash s h = Inr (block_hash L (bb_parsed blk))" if "fetch_block L D s source h = Inr blk" for s source h blk
    using that by (auto simp: fetch_block_def rust_result split: if_splits)
  then have hashed: "src_block_hash s (bb_height blk) = Inr (block_hash L (bb_parsed blk))"
    if "fetch_block L D s source (bb_height blk) = Inr blk" for s source blk using that by blast
  have from_source: "\<exists>s \<in> set ?srcs. fetch_block L D s (rq_source_id r) (bb_height blk) = Inr blk \<and>
      src_block_hash s (bb_height blk) = Inr (block_hash L (bb_parsed blk))"
    if "Archive blk \<in> set (sk_log k') \<or> Materialize blk \<in> set (sk_log k')" for blk
    using srv [OF that] hashed unfolding served_def by blast
  have heights: "\<exists>b1 b2. bb_height b1 = h \<and> bb_height b2 = h \<and> Archive b1 \<in> set (sk_log k') \<and> Materialize b2 \<in> set (sk_log k')"
    if h: "res = Inr rep" "rq_start_height r \<le> h" "h \<le> rq_end_height r" for rep h
  proof -
    have "unat h < next_height (rq_start_height r) (cp_last_materialized cp')" using out(2) [OF h(1)] h(3) by (simp add: word_le_nat_alt)
    then show ?thesis using out(1) h(2) unfolding backfill_inv_def covered_def by (meson order_less_le_trans)
  qed
  have agree: "raw_first (sk_log k') \<and> (\<forall>b1 b2. Archive b1 \<in> set (sk_log k') \<longrightarrow> Materialize b2 \<in> set (sk_log k') \<longrightarrow> bb_height b1 = bb_height b2 \<longrightarrow> b1 = b2)"
    if "sources_agree L D (rq_source_id r) ?srcs"
    using height_first_raw_first [OF hf(1,3) that] srv that unfolding sources_agree_def by blast
  have "\<exists>rep. res = Inr rep"
    if ok: "answers = []" "\<forall>h. \<exists>blk. fetch_block L D src (rq_source_id r) h = Inr blk" "\<exists>x. tip_at_end = Inr x"
  proof -
    obtain x cp1 k1 where "run_heights L D src (rq_source_id r) (remaining_heights r cp) 0 cp ?k = (Inr x, cp1, k1)"
      using run_heights_completes [of "remaining_heights r cp" L D src "rq_source_id r" ?k 0 cp] ok(1,2) by auto
    then show ?thesis using assms(2) inv ok(3) by (auto simp: backfill_run_def backfill_inv_def)
  qed
  then show ?thesis using hf(1,2) from_source heights agree by blast
qed

definition sample_request :: backfill_request where
  "sample_request = \<lparr>rq_source_id = ''n'', rq_start_height = 1, rq_end_height = 1, rq_max_in_flight = 1\<rparr>"

definition sample_source :: backfill_source where
  "sample_source = \<lparr>src_block_hash = (\<lambda>_. Inr 0), src_raw_block = (\<lambda>_. Inr [])\<rparr>"

definition sample_texts :: backfill_texts where
  "sample_texts = \<lparr>parse_error_text = (\<lambda>_. []), backfill_error_text = (\<lambda>_. [])\<rparr>"

lemma sample_fetch: "\<exists>blk. fetch_block sample_lib sample_texts sample_source source h = Inr blk"
  by (simp add: fetch_block_def sample_source_def parse_block_def enforce_bound_def MAX_CONSENSUS_OBJECT_BYTES_def
      sample_lib_def from_block_def block_hash_def)

lemma sample_sources_agree: "sources_agree sample_lib sample_texts source [sample_source]"
proof -
  have "b = b'" if "served sample_lib sample_texts source [sample_source] b" "served sample_lib sample_texts source [sample_source] b'"
    "bb_height b = bb_height b'" for b b' using that unfolding served_def by (metis empty_iff empty_set set_ConsD sum.inject(2))
  then show ?thesis unfolding sources_agree_def by blast
qed

theorem backfill_covers_range_witness:
  "\<exists>rep cp k. backfill_run sample_lib sample_texts sample_source (Inr 5) sample_request
      (initial_checkpoint sample_lib sample_request 5) \<lparr>sk_answers = [], sk_log = []\<rparr> = (Inr rep, cp, k) \<and> raw_first (sk_log k) \<and>
     (\<exists>blk. Archive blk \<in> set (sk_log k) \<and> Materialize blk \<in> set (sk_log k))"
proof -
  obtain res cp k where run: "backfill_run sample_lib sample_texts sample_source (Inr 5) sample_request
      (initial_checkpoint sample_lib sample_request 5) \<lparr>sk_answers = [], sk_log = []\<rparr> = (res, cp, k)" by (metis prod_cases3)
  have start: "backfill_start sample_lib (Inr 5) sample_request = Inr (initial_checkpoint sample_lib sample_request 5)"
    by (simp add: backfill_start_def)
  have rq: "rq_start_height sample_request \<le> 1" "1 \<le> rq_end_height sample_request" by (simp_all add: sample_request_def)
  note covers = backfill_covers_range [OF session_start [OF start] run, unfolded append_Nil]
  have agree: "raw_first (sk_log k)"
    "\<And>b1 b2. Archive b1 \<in> set (sk_log k) \<Longrightarrow> Materialize b2 \<in> set (sk_log k) \<Longrightarrow> bb_height b1 = bb_height b2 \<Longrightarrow> b1 = b2"
    using covers sample_sources_agree by blast+
  obtain rep where rep: "res = Inr rep" using covers sample_fetch by blast
  then obtain b1 b2 where "bb_height b1 = 1" "bb_height b2 = 1" "Archive b1 \<in> set (sk_log k)" "Materialize b2 \<in> set (sk_log k)"
    using covers rq by blast
  then show ?thesis using agree rep run by (metis (no_types, lifting))
qed

text \<open>C21: archiving first is lost when the source changes between two runs. When a run fails after a height was
  archived and before it was materialised, and the source has another block at that height when the
  run is resumed, the new block is materialised without having been archived: the stage is skipped
  because of its height.\<close>

theorem replaced_block_is_materialized_unarchived:
  assumes "bb_height b1 = bb_height b2" "b1 \<noteq> b2"
    "process_block D b1 (initial_checkpoint L r tip) \<lparr>sk_answers = [None, None, Some e], sk_log = []\<rparr> = (res1, cp1, k1)"
    "process_block D b2 cp1 \<lparr>sk_answers = [], sk_log = sk_log k1\<rparr> = (res2, cp2, k2)"
  shows "res2 = Inr () \<and> Materialize b2 \<in> set (sk_log k2) \<and> Archive b2 \<notin> set (sk_log k2) \<and> \<not> raw_first (sk_log k2)"
proof -
  let ?cp = "(initial_checkpoint L r tip)\<lparr>cp_last_archived := Some (bb_height b2)\<rparr>"
  have "cp1 = ?cp" "sk_log k1 = [Archive b1, Persist ?cp]"
    using assms(1,3) by (auto simp: process_block_def stage_def sink_do_def initial_checkpoint_def)
  then have log: "res2 = Inr ()" "sk_log k2 = [Archive b1, Persist ?cp, Materialize b2,
      Persist (?cp\<lparr>cp_last_materialized := Some (bb_height b2)\<rparr>)]"
    using assms(4) by (auto simp: process_block_def stage_def sink_do_def)
  then have "sk_log k2 = [Archive b1, Persist ?cp] @ Materialize b2 # [Persist (?cp\<lparr>cp_last_materialized := Some (bb_height b2)\<rparr>)]"
    by simp
  then have "\<not> raw_first (sk_log k2)" using assms(2) unfolding raw_first_def by fastforce
  then show ?thesis using log assms(2) by simp
qed

definition sample_backfill_block :: "bytes \<Rightarrow> backfill_block" where
  "sample_backfill_block raw = \<lparr>bb_source_id = ''n'', bb_height = 1, bb_hash = 0, bb_raw = raw, bb_parsed = sample_genesis\<rparr>"

theorem replaced_block_is_materialized_unarchived_witness:
  "\<exists>cp k. process_block sample_texts (sample_backfill_block [1])
      (fst (snd (process_block sample_texts (sample_backfill_block []) (initial_checkpoint sample_lib sample_request 5)
        \<lparr>sk_answers = [None, None, Some CheckpointRequestMismatch], sk_log = []\<rparr>)))
      \<lparr>sk_answers = [], sk_log = sk_log (snd (snd (process_block sample_texts (sample_backfill_block [])
        (initial_checkpoint sample_lib sample_request 5)
        \<lparr>sk_answers = [None, None, Some CheckpointRequestMismatch], sk_log = []\<rparr>)))\<rparr> = (Inr (), cp, k) \<and> \<not> raw_first (sk_log k)"
proof -
  obtain res1 cp1 k1 where 1: "process_block sample_texts (sample_backfill_block []) (initial_checkpoint sample_lib sample_request 5)
      \<lparr>sk_answers = [None, None, Some CheckpointRequestMismatch], sk_log = []\<rparr> = (res1, cp1, k1)" by (metis prod_cases3)
  obtain res2 cp2 k2 where 2: "process_block sample_texts (sample_backfill_block [1]) cp1 \<lparr>sk_answers = [], sk_log = sk_log k1\<rparr> =
      (res2, cp2, k2)" by (metis prod_cases3)
  have "bb_height (sample_backfill_block []) = bb_height (sample_backfill_block [1])"
    "sample_backfill_block [] \<noteq> sample_backfill_block [1]" by (simp_all add: sample_backfill_block_def)
  from replaced_block_is_materialized_unarchived [OF this 1 2] 1 2 show ?thesis by simp
qed

end
