(* ===== verification/Archive_Ledger.thy ===== *)
theory Archive_Ledger
  imports Storage_Ports
begin

text \<open>
  What a raw archive promises, over its ledger of committed manifests: the contract \<open>manifest_ledger\<close> that
  every archive keeps, the contract \<open>object_archive\<close> of an archive whose objects are never replaced, and the
  shape of the ledger that follows: a hash chain per session over disjoint ranges.
\<close>

section \<open>The ledger\<close>

record ledger =
  lg_manifests :: "digest \<rightharpoonup> archive_manifest"
  lg_heads :: "source_session_id \<rightharpoonup> digest"

definition disjoint_ranges :: "archive_manifest \<Rightarrow> archive_manifest \<Rightarrow> bool" where
  "disjoint_ranges a b \<longleftrightarrow> am_last_collector_sequence a < am_first_collector_sequence b \<or>
     am_last_collector_sequence b < am_first_collector_sequence a"

definition range_ok :: "archive_manifest \<Rightarrow> bool" where
  "range_ok m \<longleftrightarrow> am_first_collector_sequence m \<le> am_last_collector_sequence m"

text \<open>A manifest extends a ledger: it is new, names the head of its session as its predecessor, and
  covers sequences that no manifest of the session covers.\<close>

definition extends_ledger :: "archive_lib \<Rightarrow> archive_manifest \<Rightarrow> ledger \<Rightarrow> ledger \<Rightarrow> bool" where
  "extends_ledger K m l l' \<longleftrightarrow> (\<exists>h. manifest_hash K m = Inr h \<and> lg_manifests l h = None \<and>
     lg_heads l (am_source_session_id m) = am_previous_manifest_hash m \<and>
     (\<forall>g x. lg_manifests l g = Some x \<longrightarrow> am_source_session_id x = am_source_session_id m \<longrightarrow> disjoint_ranges x m) \<and>
     l' = \<lparr>lg_manifests = (lg_manifests l)(h \<mapsto> m), lg_heads = (lg_heads l)(am_source_session_id m \<mapsto> h)\<rparr>)"

text \<open>The manifests from a head back to the first of its session.\<close>

fun hash_chain :: "archive_lib \<Rightarrow> archive_manifest list \<Rightarrow> digest option \<Rightarrow> bool" where
  "hash_chain K [] h \<longleftrightarrow> h = None"
| "hash_chain K (m # ms) h \<longleftrightarrow> (\<exists>g. h = Some g \<and> manifest_hash K m = Inr g) \<and> hash_chain K ms (am_previous_manifest_hash m)"

definition session_manifests :: "ledger \<Rightarrow> source_session_id \<Rightarrow> archive_manifest set" where
  "session_manifests l session = {m. (\<exists>h. lg_manifests l h = Some m) \<and> am_source_session_id m = session}"

definition ledger_ok :: "archive_lib \<Rightarrow> ledger \<Rightarrow> bool" where
  "ledger_ok K l \<longleftrightarrow> (\<forall>h m. lg_manifests l h = Some m \<longrightarrow> manifest_hash K m = Inr h) \<and>
     (\<forall>session. \<exists>ms. hash_chain K ms (lg_heads l session) \<and> set ms = session_manifests l session \<and>
       sorted_wrt disjoint_ranges ms)"

definition empty_ledger :: ledger where
  "empty_ledger = \<lparr>lg_manifests = Map.empty, lg_heads = Map.empty\<rparr>"

lemma ledger_ok_empty: "ledger_ok K empty_ledger"
  by (auto simp: ledger_ok_def empty_ledger_def session_manifests_def intro!: exI [of _ "[]"])

lemma disjoint_ranges_sym: "disjoint_ranges a b \<longleftrightarrow> disjoint_ranges b a"
  by (auto simp: disjoint_ranges_def)

lemma ledger_ok_extend:
  assumes "ledger_ok K l" "extends_ledger K m l l'"
  shows "ledger_ok K l'"
proof -
  obtain h where h: "manifest_hash K m = Inr h" "lg_manifests l h = None"
    "lg_heads l (am_source_session_id m) = am_previous_manifest_hash m"
    "\<And>g x. lg_manifests l g = Some x \<Longrightarrow> am_source_session_id x = am_source_session_id m \<Longrightarrow> disjoint_ranges x m"
    "l' = \<lparr>lg_manifests = (lg_manifests l)(h \<mapsto> m), lg_heads = (lg_heads l)(am_source_session_id m \<mapsto> h)\<rparr>"
    using assms(2) by (auto simp: extends_ledger_def)
  have set: "session_manifests l' session = session_manifests l session \<union> (if am_source_session_id m = session then {m} else {})"
    for session using h(2) by (auto simp: session_manifests_def h(5)) (metis option.discI)+
  have "\<exists>ms. hash_chain K ms (lg_heads l' session) \<and> set ms = session_manifests l' session \<and> sorted_wrt disjoint_ranges ms" for session
  proof -
    obtain ms where ms: "hash_chain K ms (lg_heads l session)" "set ms = session_manifests l session" "sorted_wrt disjoint_ranges ms"
      using assms(1) unfolding ledger_ok_def by blast
    show ?thesis
    proof (cases "session = am_source_session_id m")
      case True
      have "disjoint_ranges m x" if "x \<in> set ms" for x
        using that ms(2) h(4) True unfolding disjoint_ranges_sym [of m x] by (auto simp: session_manifests_def)
      then show ?thesis using ms h(1,3) True set [of session]
        by (intro exI [of _ "m # ms"]) (simp add: h(5))
    next
      case False
      then show ?thesis using ms set [of session] by (intro exI [of _ ms]) (simp add: h(5))
    qed
  qed
  then show ?thesis using assms(1) h(1,5) by (simp add: ledger_ok_def)
qed

lemma manifests_extend:
  assumes "extends_ledger K m l l'" "lg_manifests l g = Some x"
  shows "lg_manifests l' g = Some x"
  using assms by (auto simp: extends_ledger_def)

section \<open>The contracts\<close>

locale manifest_ledger =
  fixes K :: archive_lib and ainv :: "'a \<Rightarrow> bool" and ledger_of :: "'a \<Rightarrow> ledger"
    and committed_range :: "source_session_id \<Rightarrow> u64 \<Rightarrow> u64 \<Rightarrow> digest \<Rightarrow> ('a, archive_error, manifest_ack option) io"
    and stage :: "encoded_archive \<Rightarrow> ('a, archive_error, staged_object) io"
    and verify :: "staged_object \<Rightarrow> ('a, archive_error, unit) io"
    and commit :: "archive_manifest \<Rightarrow> ('a, archive_error, manifest_ack) io"
    and latest :: "source_session_id \<Rightarrow> ('a, archive_error, digest option) io"
  assumes committed_range_result: "ainv s \<Longrightarrow> committed_range session fs ls sha s = (q, s') \<Longrightarrow>
      ainv s' \<and> ledger_of s' = ledger_of s \<and>
      (\<forall>ack. q = Inr (Some ack) \<longrightarrow> ma_last_collector_sequence ack = ls \<and>
        (\<exists>m. lg_manifests (ledger_of s) (ma_manifest_hash ack) = Some m \<and> am_source_session_id m = session \<and>
          am_first_collector_sequence m = fs \<and> am_last_collector_sequence m = ls))"
    and stage_ledger: "ainv s \<Longrightarrow> stage e s = (qs, s') \<Longrightarrow> ainv s' \<and> ledger_of s' = ledger_of s"
    and verify_ledger: "ainv s \<Longrightarrow> verify ob s = (qv, s') \<Longrightarrow> ainv s' \<and> ledger_of s' = ledger_of s"
    and commit_ledger: "ainv s \<Longrightarrow> range_ok m \<Longrightarrow> commit m s = (qc, s') \<Longrightarrow>
      ainv s' \<and> (ledger_of s' = ledger_of s \<or> extends_ledger K m (ledger_of s) (ledger_of s'))"
    and commit_acknowledged: "ainv s \<Longrightarrow> range_ok m \<Longrightarrow> commit m s = (Inr ack, s') \<Longrightarrow>
      (\<forall>h x. manifest_hash K m = Inr h \<longrightarrow> lg_manifests (ledger_of s) h = Some x \<longrightarrow> x = m) \<Longrightarrow>
      manifest_hash K m = Inr (ma_manifest_hash ack) \<and> ma_last_collector_sequence ack = am_last_collector_sequence m \<and>
      lg_manifests (ledger_of s') (ma_manifest_hash ack) = Some m"
    and latest_result: "ainv s \<Longrightarrow> latest session s = (ql, s') \<Longrightarrow>
      ainv s' \<and> ledger_of s' = ledger_of s \<and> (\<forall>h. ql = Inr h \<longrightarrow> h = lg_heads (ledger_of s) session)"
begin

text \<open>The ledger only grows and stays a chain of disjoint ranges.\<close>

lemma commit_keeps:
  assumes "ainv s" "range_ok m" "commit m s = (q, s')" "lg_manifests (ledger_of s) h = Some x"
  shows "lg_manifests (ledger_of s') h = Some x"
  using commit_ledger [OF assms(1-3)] manifests_extend assms(4) by auto

lemma commit_keeps_ok:
  assumes "ainv s" "range_ok m" "commit m s = (q, s')" "ledger_ok K (ledger_of s)"
  shows "ledger_ok K (ledger_of s')"
  using commit_ledger [OF assms(1-3)] ledger_ok_extend assms(4) by auto

end

text \<open>Raw objects are kept under keys that start with \<open>raw/\<close>.\<close>

definition raw_key :: "string \<Rightarrow> bool" where
  "raw_key k \<longleftrightarrow> take 4 k = ''raw/''"

definition object_matches :: "archive_lib \<Rightarrow> archive_manifest \<Rightarrow> bytes \<Rightarrow> bool" where
  "object_matches K m bs \<longleftrightarrow> length bs < 2 ^ 64 \<and> of_nat (length bs) = am_compressed_bytes m \<and> lib_sha256 K bs = am_object_sha256 m"

locale object_archive = manifest_ledger +
  fixes objects :: "'a \<Rightarrow> string \<rightharpoonup> bytes" and readable :: "string \<Rightarrow> bool"
  assumes committed_object: "ainv s \<Longrightarrow> lg_manifests (ledger_of s) h = Some m \<Longrightarrow>
      \<exists>bs. objects s (am_object_key m) = Some bs \<and> object_matches K m bs"
    and committed_range_objects: "ainv s \<Longrightarrow> committed_range session fs ls sha s = (q, s') \<Longrightarrow> objects s' = objects s"
    and stage_objects: "ainv s \<Longrightarrow> stage e s = (qs, s') \<Longrightarrow>
      objects s' = objects s \<or> readable (ea_object_key e) \<and> objects s (ea_object_key e) = None \<and> objects s' = (objects s)(ea_object_key e \<mapsto> ea_compressed_bytes e)"
    and verify_objects: "ainv s \<Longrightarrow> verify ob s = (qv, s') \<Longrightarrow> objects s' = objects s"
    and commit_objects: "ainv s \<Longrightarrow> commit m s = (qc, s') \<Longrightarrow> objects s \<subseteq>\<^sub>m objects s' \<and> (\<forall>k. raw_key k \<longrightarrow> objects s' k = objects s k)"
    and latest_objects: "ainv s \<Longrightarrow> latest session s = (ql, s') \<Longrightarrow> objects s' = objects s"

end
