(* ===== verification/Raw_Archives.thy ===== *)
theory Raw_Archives
  imports Storage_Ports "HOL-Library.Sublist"
begin

text \<open>
  The raw archives of \<open>crates/storage-adapters/src/s3.rs\<close>: the archive in memory, and the archive over an
  S3-compatible object store with the manifest tables of \<open>schemas/postgres/001_control.sql\<close>. Objects of
  the store are created and never replaced. A transaction of the database is atomic, as the advisory lock
  of the session excludes other writers; the columns have the widths that the CHECK constraints of the
  schema demand, so a row is a manifest.
\<close>

section \<open>Shared checks\<close>

definition validate_exact_bytes :: "archive_lib \<Rightarrow> bytes \<Rightarrow> u64 \<Rightarrow> digest \<Rightarrow> archive_error + unit" where
  "validate_exact_bytes K bs expected_length expected_sha256 =
     (if 2 ^ 64 \<le> length bs then Inl (ArchiveStorage ''object length exceeds u64'')
      else if of_nat (length bs) \<noteq> expected_length then Inl (LengthMismatch expected_length (of_nat (length bs)))
      else if lib_sha256 K bs \<noteq> expected_sha256 then Inl ChecksumMismatch
      else Inr ())"

definition validate_manifest_object :: "archive_lib \<Rightarrow> archive_manifest \<Rightarrow> bytes \<Rightarrow> archive_error + unit" where
  "validate_manifest_object K m bs =
     (if 2 ^ 64 \<le> length bs then Inl (ArchiveStorage ''object length exceeds u64'')
      else if of_nat (length bs) \<noteq> am_compressed_bytes m then Inl (LengthMismatch (am_compressed_bytes m) (of_nat (length bs)))
      else if lib_sha256 K bs \<noteq> am_object_sha256 m then Inl ChecksumMismatch
      else Inr ())"

definition ranges_overlap :: "u64 \<Rightarrow> u64 \<Rightarrow> u64 \<Rightarrow> u64 \<Rightarrow> bool" where
  "ranges_overlap first_a last_a first_b last_b \<longleftrightarrow> first_a \<le> last_b \<and> first_b \<le> last_a"

definition staged_of :: "encoded_archive \<Rightarrow> archive_error + staged_object" where
  "staged_of e =
     (if 2 ^ 64 \<le> length (ea_compressed_bytes e) then Inl (ArchiveStorage ''object length exceeds u64'')
      else Inr \<lparr>so_object_key = ea_object_key e, so_object_sha256 = ea_object_sha256 e,
        so_compressed_bytes = of_nat (length (ea_compressed_bytes e))\<rparr>)"

text \<open>The text of a manifest error is the message of the serializer.\<close>

fun manifest_error_text :: "manifest_error \<Rightarrow> string" where
  "manifest_error_text ObjectTooLarge = ''archive object is too large''"
| "manifest_error_text (ManifestJson message) = ''manifest serialization failed: '' @ message"

definition covers_range :: "source_session_id \<Rightarrow> u64 \<Rightarrow> u64 \<Rightarrow> digest \<Rightarrow> archive_manifest \<Rightarrow> bool" where
  "covers_range session first_sequence final_sequence sha m \<longleftrightarrow>
     am_source_session_id m = session \<and> am_first_collector_sequence m = first_sequence \<and>
     am_last_collector_sequence m = final_sequence \<and> am_object_sha256 m = sha"

definition find_range ::
  "(digest, archive_manifest) fmap \<Rightarrow> source_session_id \<Rightarrow> u64 \<Rightarrow> u64 \<Rightarrow> digest \<Rightarrow> manifest_ack option" where
  "find_range rows session first_sequence final_sequence sha =
     map_option (\<lambda>h. \<lparr>ma_manifest_hash = h, ma_last_collector_sequence = final_sequence\<rparr>)
       (hd_opt (filter (\<lambda>h. covers_range session first_sequence final_sequence sha (the (fmlookup rows h)))
         (sorted_list_of_fset (fmdom rows))))"

section \<open>The archive in memory\<close>

record memory_archive =
  ra_staged :: "(string, bytes) fmap"
  ra_verified :: "string fset"
  ra_manifests :: "(digest, archive_manifest) fmap"
  ra_latest :: "(source_session_id, digest) fmap"
  ra_withhold :: bool

definition memory_archive_new :: "bool \<Rightarrow> memory_archive" where
  "memory_archive_new withhold = \<lparr>ra_staged = fmempty, ra_verified = {||}, ra_manifests = fmempty, ra_latest = fmempty,
     ra_withhold = withhold\<rparr>"

definition memory_committed_range ::
  "source_session_id \<Rightarrow> u64 \<Rightarrow> u64 \<Rightarrow> digest \<Rightarrow> (memory_archive, archive_error, manifest_ack option) io" where
  "memory_committed_range session first_sequence final_sequence sha s =
     (Inr (find_range (ra_manifests s) session first_sequence final_sequence sha), s)"

definition memory_stage :: "encoded_archive \<Rightarrow> (memory_archive, archive_error, staged_object) io" where
  "memory_stage e s =
     (case staged_of e of
        Inl err \<Rightarrow> (Inl err, s)
      | Inr staged \<Rightarrow>
          (Inr staged, s\<lparr>ra_staged := fmupd (ea_object_key e) (ea_compressed_bytes e) (ra_staged s),
             ra_verified := ra_verified s |-| {|ea_object_key e|}\<rparr>))"

definition memory_verify :: "archive_lib \<Rightarrow> staged_object \<Rightarrow> (memory_archive, archive_error, unit) io" where
  "memory_verify K ob s =
     (case fmlookup (ra_staged s) (so_object_key ob) of
        None \<Rightarrow> (Inl (MissingObject (so_object_key ob)), s)
      | Some bs \<Rightarrow>
          (case validate_exact_bytes K bs (so_compressed_bytes ob) (so_object_sha256 ob) of
             Inl err \<Rightarrow> (Inl err, s)
           | Inr _ \<Rightarrow> (Inr (), s\<lparr>ra_verified := finsert (so_object_key ob) (ra_verified s)\<rparr>)))"

definition memory_commit :: "archive_lib \<Rightarrow> archive_manifest \<Rightarrow> (memory_archive, archive_error, manifest_ack) io" where
  "memory_commit K m s =
     (if ra_withhold s then (Inl CommitWithheld, s)
      else case manifest_hash K m of
          Inl err \<Rightarrow> (Inl (ArchiveEncoding (manifest_error_text err)), s)
        | Inr h \<Rightarrow>
            let ack = \<lparr>ma_manifest_hash = h, ma_last_collector_sequence = am_last_collector_sequence m\<rparr>
            in if h |\<in>| fmdom (ra_manifests s) then (Inr ack, s)
               else if am_object_key m |\<notin>| ra_verified s then (Inl (NotVerified (am_object_key m)), s)
               else
                 (case fmlookup (ra_staged s) (am_object_key m) of
                    None \<Rightarrow> (Inl (MissingObject (am_object_key m)), s)
                  | Some bs \<Rightarrow>
                      (case validate_manifest_object K m bs of
                         Inl err \<Rightarrow> (Inl err, s)
                       | Inr _ \<Rightarrow>
                           if \<exists>x |\<in>| fmran (ra_manifests s). am_source_session_id x = am_source_session_id m \<and>
                               ranges_overlap (am_first_collector_sequence x) (am_last_collector_sequence x)
                                 (am_first_collector_sequence m) (am_last_collector_sequence m)
                           then (Inl OverlappingRange, s)
                           else if fmlookup (ra_latest s) (am_source_session_id m) \<noteq> am_previous_manifest_hash m
                           then (Inl ManifestChainMismatch, s)
                           else (Inr ack, s\<lparr>ra_latest := fmupd (am_source_session_id m) h (ra_latest s),
                                ra_manifests := fmupd h m (ra_manifests s)\<rparr>))))"

definition memory_latest :: "source_session_id \<Rightarrow> (memory_archive, archive_error, digest option) io" where
  "memory_latest session s = (Inr (fmlookup (ra_latest s) session), s)"

definition memory_replace_staged_bytes :: "string \<Rightarrow> bytes \<Rightarrow> memory_archive \<Rightarrow> memory_archive" where
  "memory_replace_staged_bytes key bs s =
     s\<lparr>ra_staged := fmupd key bs (ra_staged s), ra_verified := ra_verified s |-| {|key|}\<rparr>"

definition memory_replay :: "string \<Rightarrow> memory_archive \<Rightarrow> bytes option" where
  "memory_replay key s =
     (if \<exists>m |\<in>| fmran (ra_manifests s). am_object_key m = key then fmlookup (ra_staged s) key else None)"

section \<open>The archive over an object store and a database\<close>

text \<open>The path check of the object store, its message for a missing object, and the message of the database
  for a violated constraint. A key that passes the check is its path.\<close>

record store_lib =
  sl_path_error :: "string \<Rightarrow> string option"
  sl_not_found :: "string \<Rightarrow> string"
  sl_duplicate :: string

record s3_archive =
  s3_objects :: "(string, bytes) fmap"
  s3_manifests :: "(digest, archive_manifest) fmap"
  s3_heads :: "(source_session_id, digest \<times> u64) fmap"
  s3_io :: "io_answer list"

definition s3_call :: "(s3_archive, archive_error, unit) io" where
  "s3_call s =
     (case s3_io s of
        IoFail message applied # as \<Rightarrow> (Inl (ArchiveStorage message), s\<lparr>s3_io := as\<rparr>)
      | as \<Rightarrow> (Inr (), s\<lparr>s3_io := tl as\<rparr>))"

definition object_path :: "store_lib \<Rightarrow> string \<Rightarrow> archive_error + string" where
  "object_path S key = (case sl_path_error S key of Some message \<Rightarrow> Inl (ArchiveStorage message) | None \<Rightarrow> Inr key)"

definition s3_get :: "store_lib \<Rightarrow> string \<Rightarrow> (s3_archive, archive_error, bytes) io" where
  "s3_get S path =
     io_bind s3_call (\<lambda>_.
     io_bind (\<lambda>s. (ok_or (fmlookup (s3_objects s) path) (ArchiveStorage (sl_not_found S path)), s)) (\<lambda>bs.
     io_bind s3_call (\<lambda>_. io_return bs)))"

definition read_object :: "store_lib \<Rightarrow> string \<Rightarrow> (s3_archive, archive_error, bytes) io" where
  "read_object S key = io_bind (io_result (object_path S key)) (s3_get S)"

text \<open>A put in create mode; the result is its success.\<close>

definition s3_put_create :: "string \<Rightarrow> bytes \<Rightarrow> s3_archive \<Rightarrow> bool \<times> s3_archive" where
  "s3_put_create path bs s =
     (let fresh = (path |\<notin>| fmdom (s3_objects s)); put = s\<lparr>s3_objects := fmupd path bs (s3_objects s)\<rparr>
      in case s3_io s of
           IoFail message applied # as \<Rightarrow> (False, (if applied \<and> fresh then put else s)\<lparr>s3_io := as\<rparr>)
         | as \<Rightarrow> (fresh, (if fresh then put else s)\<lparr>s3_io := tl as\<rparr>))"

definition put_create_or_verify ::
  "archive_lib \<Rightarrow> store_lib \<Rightarrow> string \<Rightarrow> bytes \<Rightarrow> u64 \<Rightarrow> digest \<Rightarrow> (s3_archive, archive_error, unit) io" where
  "put_create_or_verify K S key bs expected_length expected_sha256 =
     io_bind (io_result (object_path S key)) (\<lambda>path s.
       (case s3_put_create path bs s of
          (True, s1) \<Rightarrow> (Inr (), s1)
        | (False, s1) \<Rightarrow>
            io_bind (read_object S key) (\<lambda>existing.
              io_result (validate_exact_bytes K existing expected_length expected_sha256)) s1))"

definition s3_committed_range ::
  "source_session_id \<Rightarrow> u64 \<Rightarrow> u64 \<Rightarrow> digest \<Rightarrow> (s3_archive, archive_error, manifest_ack option) io" where
  "s3_committed_range session first_sequence final_sequence sha = io_bind s3_call (\<lambda>_ s.
     (Inr (find_range (s3_manifests s) session first_sequence final_sequence sha), s))"

definition s3_stage :: "archive_lib \<Rightarrow> store_lib \<Rightarrow> encoded_archive \<Rightarrow> (s3_archive, archive_error, staged_object) io" where
  "s3_stage K S e =
     io_bind (io_result (staged_of e)) (\<lambda>staged.
     io_bind (put_create_or_verify K S (so_object_key staged) (ea_compressed_bytes e) (so_compressed_bytes staged)
       (so_object_sha256 staged)) (\<lambda>_. io_return staged))"

definition s3_verify :: "archive_lib \<Rightarrow> store_lib \<Rightarrow> staged_object \<Rightarrow> (s3_archive, archive_error, unit) io" where
  "s3_verify K S ob =
     io_bind (io_result (object_path S (so_object_key ob))) (\<lambda>path.
     io_bind s3_call (\<lambda>_.
     io_bind (\<lambda>s. (ok_or (fmlookup (s3_objects s) path) (ArchiveStorage (sl_not_found S path)), s)) (\<lambda>bs.
     if of_nat (length bs) \<noteq> so_compressed_bytes ob
     then io_result (Inl (LengthMismatch (so_compressed_bytes ob) (of_nat (length bs))))
     else io_bind (s3_get S path) (\<lambda>found.
       io_result (validate_exact_bytes K found (so_compressed_bytes ob) (so_object_sha256 ob))))))"

definition prepare_manifest_commit ::
  "archive_lib \<Rightarrow> store_lib \<Rightarrow> archive_manifest \<Rightarrow> (s3_archive, archive_error, digest \<times> bytes) io" where
  "prepare_manifest_commit K S m =
     io_bind (read_object S (am_object_key m)) (\<lambda>bs.
     io_bind (io_result (validate_manifest_object K m bs)) (\<lambda>_.
     io_bind (io_result (map_sum (ArchiveEncoding \<circ> manifest_error_text) id (manifest_hash K m))) (\<lambda>h.
     io_bind (io_result (map_sum (ArchiveEncoding \<circ> manifest_error_text) id (manifest_json_bytes K m))) (\<lambda>json.
     io_return (h, json)))))"

definition validate_database_manifest_chain :: "archive_manifest \<Rightarrow> (s3_archive, archive_error, unit) io" where
  "validate_database_manifest_chain m = io_bind s3_call (\<lambda>_ s.
     ((case fmlookup (s3_heads s) (am_source_session_id m) of
         None \<Rightarrow> if am_previous_manifest_hash m = None then Inr () else Inl ManifestChainMismatch
       | Some (current_hash, current_last) \<Rightarrow>
           if am_previous_manifest_hash m \<noteq> Some current_hash then Inl ManifestChainMismatch
           else if am_first_collector_sequence m \<le> current_last then Inl OverlappingRange
           else Inr ()), s))"

definition manifest_object_key :: "source_session_id \<Rightarrow> digest \<Rightarrow> string" where
  "manifest_object_key session h =
     ''manifests/source_session='' @ hex (session_bytes session) @ ''/manifest-'' @ hex (be_bytes 32 (unat h)) @ ''.json''"

text \<open>The two statements of the insertion, with the unique columns of the tables; the rows become visible
  with the commit.\<close>

definition insert_manifest_and_head ::
  "store_lib \<Rightarrow> archive_manifest \<Rightarrow> digest \<Rightarrow>
   (s3_archive, archive_error, (digest, archive_manifest) fmap \<times> (source_session_id, digest \<times> u64) fmap) io" where
  "insert_manifest_and_head S m h =
     io_bind s3_call (\<lambda>_.
     io_bind (\<lambda>s. (if h |\<in>| fmdom (s3_manifests s) \<or> (\<exists>x |\<in>| fmran (s3_manifests s). am_object_key x = am_object_key m)
        then Inl (ArchiveStorage (sl_duplicate S)) else Inr (), s)) (\<lambda>_.
     io_bind s3_call (\<lambda>_ s.
       (Inr (fmupd h m (s3_manifests s), fmupd (am_source_session_id m) (h, am_last_collector_sequence m) (s3_heads s)), s))))"

definition s3_commit ::
  "(digest, archive_manifest) fmap \<Rightarrow> (source_session_id, digest \<times> u64) fmap \<Rightarrow> (s3_archive, archive_error, unit) io" where
  "s3_commit manifests heads s =
     (let done = s\<lparr>s3_manifests := manifests, s3_heads := heads\<rparr>
      in case s3_io s of
           IoFail message applied # as \<Rightarrow> (Inl (ArchiveStorage message), (if applied then done else s)\<lparr>s3_io := as\<rparr>)
         | as \<Rightarrow> (Inr (), done\<lparr>s3_io := tl as\<rparr>))"

text \<open>Begin, lock and look for the manifest; then the chain, the manifest object and the rows.\<close>

definition s3_commit_prepared ::
  "archive_lib \<Rightarrow> store_lib \<Rightarrow> archive_manifest \<Rightarrow> digest \<Rightarrow> bytes \<Rightarrow> (s3_archive, archive_error, manifest_ack) io" where
  "s3_commit_prepared K S m h json =
     io_bind s3_call (\<lambda>_.
     io_bind s3_call (\<lambda>_.
     io_bind s3_call (\<lambda>_ s.
       (case fmlookup (s3_manifests s) h of
          Some x \<Rightarrow>
            io_bind s3_call (\<lambda>_. io_return \<lparr>ma_manifest_hash = h, ma_last_collector_sequence = am_last_collector_sequence x\<rparr>) s
        | None \<Rightarrow>
            io_bind (validate_database_manifest_chain m) (\<lambda>_.
            io_bind (io_result (if 2 ^ 64 \<le> length json then Inl (ArchiveStorage ''manifest length exceeds u64'') else Inr ())) (\<lambda>_.
            io_bind (put_create_or_verify K S (manifest_object_key (am_source_session_id m) h) json
              (of_nat (length json)) (lib_sha256 K json)) (\<lambda>_.
            io_bind (insert_manifest_and_head S m h) (\<lambda>(manifests, heads).
            io_bind (s3_commit manifests heads) (\<lambda>_.
            io_return \<lparr>ma_manifest_hash = h, ma_last_collector_sequence = am_last_collector_sequence m\<rparr>))))) s))))"

definition s3_commit_manifest :: "archive_lib \<Rightarrow> store_lib \<Rightarrow> archive_manifest \<Rightarrow> (s3_archive, archive_error, manifest_ack) io" where
  "s3_commit_manifest K S m = io_bind (prepare_manifest_commit K S m) (\<lambda>(h, json). s3_commit_prepared K S m h json)"

definition s3_latest :: "source_session_id \<Rightarrow> (s3_archive, archive_error, digest option) io" where
  "s3_latest session = io_bind s3_call (\<lambda>_ s. (Inr (map_option fst (fmlookup (s3_heads s) session)), s))"

definition s3_replay_committed :: "archive_lib \<Rightarrow> store_lib \<Rightarrow> digest \<Rightarrow> (s3_archive, archive_error, bytes option) io" where
  "s3_replay_committed K S h = io_bind s3_call (\<lambda>_ s.
     (case fmlookup (s3_manifests s) h of
        None \<Rightarrow> (Inr None, s)
      | Some m \<Rightarrow>
          io_bind (read_object S (am_object_key m)) (\<lambda>bs.
          io_bind (io_result (validate_exact_bytes K bs (am_compressed_bytes m) (am_object_sha256 m))) (\<lambda>_.
          io_return (Some bs))) s))"

end
