(* ===== verification/Raw_Archive_Laws.thy ===== *)
theory Raw_Archive_Laws
  imports Archive_Ledger Raw_Archives
begin

text \<open>
  The two raw archives keep their contracts: the archive in memory the ledger contract, the archive over an
  object store and a database also the contract on objects.
\<close>

section \<open>The archive in memory\<close>

definition memory_ledger :: "memory_archive \<Rightarrow> ledger" where
  "memory_ledger s = \<lparr>lg_manifests = fmlookup (ra_manifests s), lg_heads = fmlookup (ra_latest s)\<rparr>"

lemma find_range_Some:
  assumes "find_range rows session fs ls sha = Some ack"
  shows "ma_last_collector_sequence ack = ls \<and> (\<exists>m. fmlookup rows (ma_manifest_hash ack) = Some m \<and> covers_range session fs ls sha m)"
proof -
  from assms obtain h hs where h: "ack = \<lparr>ma_manifest_hash = h, ma_last_collector_sequence = ls\<rparr>"
    "filter (\<lambda>h. covers_range session fs ls sha (the (fmlookup rows h))) (sorted_list_of_fset (fmdom rows)) = h # hs"
    by (auto simp: find_range_def hd_opt_Some_iff)
  then have "h \<in> set (filter (\<lambda>h. covers_range session fs ls sha (the (fmlookup rows h))) (sorted_list_of_fset (fmdom rows)))" by simp
  then show ?thesis using h(1) by (auto simp: sorted_list_of_fset.rep_eq dest: fmdomE)
qed

lemma memory_commit_cases:
  assumes "memory_commit K m s = (r, s')"
  obtains e where "r = Inl e" "s' = s"
  | h where "r = Inr \<lparr>ma_manifest_hash = h, ma_last_collector_sequence = am_last_collector_sequence m\<rparr>" "manifest_hash K m = Inr h"
      "s' = s" "h |\<in>| fmdom (ra_manifests s)"
  | h where "r = Inr \<lparr>ma_manifest_hash = h, ma_last_collector_sequence = am_last_collector_sequence m\<rparr>" "manifest_hash K m = Inr h"
      "fmlookup (ra_manifests s) h = None" "fmlookup (ra_latest s) (am_source_session_id m) = am_previous_manifest_hash m"
      "\<forall>g x. fmlookup (ra_manifests s) g = Some x \<longrightarrow> am_source_session_id x = am_source_session_id m \<longrightarrow>
        \<not> ranges_overlap (am_first_collector_sequence x) (am_last_collector_sequence x) (am_first_collector_sequence m) (am_last_collector_sequence m)"
      "s' = s\<lparr>ra_latest := fmupd (am_source_session_id m) h (ra_latest s), ra_manifests := fmupd h m (ra_manifests s)\<rparr>"
proof (cases "ra_withhold s \<or> (\<exists>e. manifest_hash K m = Inl e)")
  case True
  then have "s' = s \<and> (\<exists>e. r = Inl e)" using assms by (cases "ra_withhold s") (auto simp: memory_commit_def)
  then show thesis using that(1) by blast
next
  case False
  then obtain h where h: "\<not> ra_withhold s" "manifest_hash K m = Inr h" by (cases "manifest_hash K m") auto
  show thesis
  proof (cases "h |\<in>| fmdom (ra_manifests s)")
    case True
    then have "r = Inr \<lparr>ma_manifest_hash = h, ma_last_collector_sequence = am_last_collector_sequence m\<rparr>" "s' = s"
      using assms h by (simp_all add: memory_commit_def)
    then show thesis using that(2) h True by blast
  next
    case new: False
    show thesis
    proof (cases r)
      case (Inl e)
      then have "s' = s" using assms h new
        by (auto simp: memory_commit_def Let_def split: if_splits sum.splits option.splits)
      then show thesis using Inl by (rule that(1) [rotated])
    next
      case (Inr ack)
      then have "ack = \<lparr>ma_manifest_hash = h, ma_last_collector_sequence = am_last_collector_sequence m\<rparr>"
        "fmlookup (ra_latest s) (am_source_session_id m) = am_previous_manifest_hash m"
        "\<not> (\<exists>x |\<in>| fmran (ra_manifests s). am_source_session_id x = am_source_session_id m \<and>
           ranges_overlap (am_first_collector_sequence x) (am_last_collector_sequence x)
             (am_first_collector_sequence m) (am_last_collector_sequence m))"
        "s' = s\<lparr>ra_latest := fmupd (am_source_session_id m) h (ra_latest s), ra_manifests := fmupd h m (ra_manifests s)\<rparr>"
        using assms h new by (simp_all add: memory_commit_def Let_def split: if_splits sum.splits option.splits)
      then show thesis using Inr h new by (intro that(3)) (auto simp: fmdom_notD dest: fmranI)
    qed
  qed
qed

lemma overlap_iff: "\<not> ranges_overlap a b c d \<longleftrightarrow> d < a \<or> b < c"
  by (auto simp: ranges_overlap_def not_le)

interpretation memory_port: manifest_ledger K "\<lambda>_. True" memory_ledger memory_committed_range memory_stage "memory_verify K"
  "memory_commit K" memory_latest for K
proof unfold_locales
  fix s session fs ls sha q s'
  assume "memory_committed_range session fs ls sha s = (q, s')"
  then show "True \<and> memory_ledger s' = memory_ledger s \<and> (\<forall>ack. q = Inr (Some ack) \<longrightarrow> ma_last_collector_sequence ack = ls \<and>
        (\<exists>m. lg_manifests (memory_ledger s) (ma_manifest_hash ack) = Some m \<and> am_source_session_id m = session \<and>
          am_first_collector_sequence m = fs \<and> am_last_collector_sequence m = ls))"
    by (auto simp: memory_committed_range_def memory_ledger_def covers_range_def dest!: find_range_Some)
next
  fix s m qc s'
  assume "memory_commit K m s = (qc, s')"
  then show "True \<and> (memory_ledger s' = memory_ledger s \<or> extends_ledger K m (memory_ledger s) (memory_ledger s'))"
    by (cases rule: memory_commit_cases)
      (auto simp: extends_ledger_def memory_ledger_def disjoint_ranges_def overlap_iff fun_eq_iff)
next
  fix s m ack s'
  assume "memory_commit K m s = (Inr ack, s')"
    "\<forall>h x. manifest_hash K m = Inr h \<longrightarrow> lg_manifests (memory_ledger s) h = Some x \<longrightarrow> x = m"
  then show "manifest_hash K m = Inr (ma_manifest_hash ack) \<and> ma_last_collector_sequence ack = am_last_collector_sequence m \<and>
      lg_manifests (memory_ledger s') (ma_manifest_hash ack) = Some m"
    by (cases rule: memory_commit_cases) (auto simp: memory_ledger_def elim!: fmdomE)
qed (auto simp: memory_stage_def memory_verify_def memory_latest_def memory_ledger_def split: sum.splits option.splits)

section \<open>Calls of the object store and the database\<close>

definition core :: "s3_archive \<Rightarrow> s3_archive" where
  "core s = s\<lparr>s3_io := []\<rparr>"

lemma core_simps [simp]:
  "s3_objects (core s) = s3_objects s" "s3_manifests (core s) = s3_manifests s" "s3_heads (core s) = s3_heads s"
  "core (s\<lparr>s3_io := x\<rparr>) = core s"
  by (simp_all add: core_def)

lemma core_eq:
  assumes "core s = core t"
  shows "s3_objects s = s3_objects t" "s3_manifests s = s3_manifests t" "s3_heads s = s3_heads t"
  using assms core_simps by metis+

lemma s3_call_core: "s3_call s = (r, s') \<Longrightarrow> core s' = core s"
  by (auto simp: s3_call_def split: list.splits io_answer.splits)

lemma s3_get_core:
  assumes "s3_get S path s = (r, s')"
  shows "core s' = core s \<and> (\<forall>bs. r = Inr bs \<longrightarrow> fmlookup (s3_objects s) path = Some bs)"
proof -
  obtain r1 s1 where 1: "s3_call s = (r1, s1)" by fastforce
  obtain r2 s2 where 2: "s3_call s1 = (r2, s2)" by fastforce
  note c = s3_call_core [OF 1] s3_call_core [OF 2]
  show ?thesis using assms 1 2 c core_eq(1) [OF c(1)]
    by (cases r1; cases r2; cases "fmlookup (s3_objects s1) path") (auto simp: s3_get_def io_bind_def)
qed

lemma read_object_core:
  assumes "read_object S key s = (r, s')"
  shows "core s' = core s \<and> (\<forall>bs. r = Inr bs \<longrightarrow> fmlookup (s3_objects s) key = Some bs)"
  using assms by (cases "sl_path_error S key") (auto simp: read_object_def object_path_def io_bind_def dest: s3_get_core)

lemma s3_put_create_core:
  assumes "s3_put_create path bs s = (b, s')"
  shows "core s' = core s \<or> path |\<notin>| fmdom (s3_objects s) \<and> core s' = (core s)\<lparr>s3_objects := fmupd path bs (s3_objects s)\<rparr>"
  using assms by (auto simp: s3_put_create_def Let_def core_def split: list.splits io_answer.splits if_splits)

lemma put_create_or_verify_core:
  assumes "put_create_or_verify K S key bs n sha s = (r, s')"
  shows "core s' = core s \<or> sl_path_error S key = None \<and> key |\<notin>| fmdom (s3_objects s) \<and>
    core s' = (core s)\<lparr>s3_objects := fmupd key bs (s3_objects s)\<rparr>"
proof (cases "sl_path_error S key")
  case None
  obtain b s1 where 1: "s3_put_create key bs s = (b, s1)" by fastforce
  obtain r2 s2 where 2: "read_object S key s1 = (r2, s2)" by fastforce
  have "s' = s1 \<or> s' = s2" using assms None 1 2
    by (cases b; cases r2) (auto simp: put_create_or_verify_def object_path_def io_bind_def)
  then have "core s' = core s1" using read_object_core [OF 2] by auto
  then show ?thesis using s3_put_create_core [OF 1] None by simp
qed (use assms in \<open>simp add: put_create_or_verify_def object_path_def io_bind_def\<close>)

section \<open>The archive over an object store and a database\<close>

lemma map_le_SomeD: "f \<subseteq>\<^sub>m g \<Longrightarrow> f k = Some v \<Longrightarrow> g k = Some v"
  by (metis domI map_le_def)

lemma fresh_map_le: "k |\<notin>| fmdom m \<Longrightarrow> fmlookup m \<subseteq>\<^sub>m fmlookup (fmupd k v m)"
proof -
  assume "k |\<notin>| fmdom m"
  then have "fmlookup m k = None" by (rule fmdom_notD)
  then show ?thesis unfolding map_le_def by (auto simp: fmlookup_dom'_iff)
qed

definition s3_ledger :: "s3_archive \<Rightarrow> ledger" where
  "s3_ledger s = \<lparr>lg_manifests = fmlookup (s3_manifests s), lg_heads = (\<lambda>x. map_option fst (fmlookup (s3_heads s) x))\<rparr>"

definition s3_ok :: "archive_lib \<Rightarrow> s3_archive \<Rightarrow> bool" where
  "s3_ok K s \<longleftrightarrow> (\<forall>h m. fmlookup (s3_manifests s) h = Some m \<longrightarrow> range_ok m \<and>
     (\<exists>bs. fmlookup (s3_objects s) (am_object_key m) = Some bs \<and> object_matches K m bs) \<and>
     (\<exists>g n. fmlookup (s3_heads s) (am_source_session_id m) = Some (g, n) \<and> am_last_collector_sequence m \<le> n))"

lemma s3_core_same:
  assumes "core s' = core s"
  shows "s3_ledger s' = s3_ledger s" "s3_ok K s' \<longleftrightarrow> s3_ok K s"
  using core_eq [OF assms] by (simp_all add: s3_ledger_def s3_ok_def)

lemma s3_ok_objects:
  assumes "s3_ok K s" "core s' = (core s)\<lparr>s3_objects := objs\<rparr>" "fmlookup (s3_objects s) \<subseteq>\<^sub>m fmlookup objs"
  shows "s3_ok K s'" "s3_ledger s' = s3_ledger s" "s3_objects s' = objs"
proof -
  have eq: "s3_objects s' = objs" "s3_manifests s' = s3_manifests s" "s3_heads s' = s3_heads s"
    using core_eq [of s' "s\<lparr>s3_objects := objs\<rparr>"] assms(2) by (simp_all add: core_def)
  show "s3_ok K s'" unfolding s3_ok_def eq
  proof (intro allI impI)
    fix h m
    assume "fmlookup (s3_manifests s) h = Some m"
    with assms(1) obtain bs where "range_ok m" "fmlookup (s3_objects s) (am_object_key m) = Some bs" "object_matches K m bs"
      "\<exists>g n. fmlookup (s3_heads s) (am_source_session_id m) = Some (g, n) \<and> am_last_collector_sequence m \<le> n"
      unfolding s3_ok_def by blast
    moreover have "fmlookup objs (am_object_key m) = Some bs" by (rule map_le_SomeD [OF assms(3)]) fact
    ultimately show "range_ok m \<and> (\<exists>bs. fmlookup objs (am_object_key m) = Some bs \<and> object_matches K m bs) \<and>
        (\<exists>g n. fmlookup (s3_heads s) (am_source_session_id m) = Some (g, n) \<and> am_last_collector_sequence m \<le> n)"
      by blast
  qed
  show "s3_ledger s' = s3_ledger s" "s3_objects s' = objs" using eq by (simp_all add: s3_ledger_def)
qed

lemma validate_manifest_object_Inr: "validate_manifest_object K m bs = Inr u \<longleftrightarrow> object_matches K m bs"
  by (auto simp: validate_manifest_object_def object_matches_def not_le split: if_splits)

lemma manifest_key_not_raw: "\<not> raw_key (manifest_object_key session h)"
  by (simp add: raw_key_def manifest_object_key_def)

text \<open>What a commit of a manifest leaves, whether it succeeds or fails at any call: the objects may have
  gained the manifest, and the rows are as before or hold the manifest as the new head.\<close>

definition grown :: "s3_archive \<Rightarrow> (string, bytes) fmap \<Rightarrow> bool" where
  "grown s0 objs \<longleftrightarrow> fmlookup (s3_objects s0) \<subseteq>\<^sub>m fmlookup objs \<and> (\<forall>k. raw_key k \<longrightarrow> fmlookup objs k = fmlookup (s3_objects s0) k)"

definition unwritten :: "s3_archive \<Rightarrow> s3_archive \<Rightarrow> bool" where
  "unwritten s0 s \<longleftrightarrow> grown s0 (s3_objects s) \<and> s3_manifests s = s3_manifests s0 \<and> s3_heads s = s3_heads s0"

definition writable :: "archive_lib \<Rightarrow> archive_manifest \<Rightarrow> digest \<Rightarrow> s3_archive \<Rightarrow> bool" where
  "writable K m h s0 \<longleftrightarrow> manifest_hash K m = Inr h \<and> fmlookup (s3_manifests s0) h = None \<and>
     (\<exists>bs. fmlookup (s3_objects s0) (am_object_key m) = Some bs \<and> object_matches K m bs) \<and>
     (case fmlookup (s3_heads s0) (am_source_session_id m) of
        None \<Rightarrow> am_previous_manifest_hash m = None
      | Some (g, n) \<Rightarrow> am_previous_manifest_hash m = Some g \<and> n < am_first_collector_sequence m)"

definition written :: "archive_lib \<Rightarrow> archive_manifest \<Rightarrow> digest \<Rightarrow> s3_archive \<Rightarrow> s3_archive \<Rightarrow> bool" where
  "written K m h s0 s \<longleftrightarrow> writable K m h s0 \<and> grown s0 (s3_objects s) \<and> s3_manifests s = fmupd h m (s3_manifests s0) \<and>
     s3_heads s = fmupd (am_source_session_id m) (h, am_last_collector_sequence m) (s3_heads s0)"

definition left :: "archive_lib \<Rightarrow> archive_manifest \<Rightarrow> s3_archive \<Rightarrow> s3_archive \<Rightarrow> bool" where
  "left K m s0 s \<longleftrightarrow> unwritten s0 s \<or> (\<exists>h. written K m h s0 s)"

lemma unwritten_core: "core s' = core s \<Longrightarrow> unwritten s0 s' \<longleftrightarrow> unwritten s0 s"
  using core_eq [of s' s] by (simp add: unwritten_def)

lemma unwritten_refl: "core s = core s0 \<Longrightarrow> unwritten s0 s"
  using core_eq [of s s0] by (simp add: unwritten_def grown_def)

lemma unwritten_left: "unwritten s0 s \<Longrightarrow> left K m s0 s"
  by (simp add: left_def)

lemma call_triple: "io_triple (\<lambda>s. A \<and> unwritten s0 s) s3_call (\<lambda>_ s. A \<and> unwritten s0 s) (left K m s0)"
  by (rule io_tripleI) (metis s3_call_core unwritten_core, metis s3_call_core unwritten_core unwritten_left)

lemma put_triple:
  "io_triple (unwritten s0) (put_create_or_verify K S (manifest_object_key session g) bs n sha) (\<lambda>_. unwritten s0) (left K' m s0)"
proof -
  let ?k = "manifest_object_key session g"
  have "unwritten s0 s'" if "unwritten s0 s" "put_create_or_verify K S ?k bs n sha s = (r, s')" for s s' r
    using put_create_or_verify_core [OF that(2)]
  proof
    assume "core s' = core s"
    then show ?thesis using that(1) unwritten_core by blast
  next
    assume "sl_path_error S ?k = None \<and> ?k |\<notin>| fmdom (s3_objects s) \<and> core s' = (core s)\<lparr>s3_objects := fmupd ?k bs (s3_objects s)\<rparr>"
    then have put: "?k |\<notin>| fmdom (s3_objects s) \<and> core s' = (core s)\<lparr>s3_objects := fmupd ?k bs (s3_objects s)\<rparr>" by simp
    then have "s3_objects s' = fmupd ?k bs (s3_objects s)" "s3_manifests s' = s3_manifests s" "s3_heads s' = s3_heads s"
      using core_eq [of s' "s\<lparr>s3_objects := fmupd ?k bs (s3_objects s)\<rparr>"] by (simp_all add: core_def)
    moreover have "fmlookup (s3_objects s) \<subseteq>\<^sub>m fmlookup (fmupd ?k bs (s3_objects s))" by (rule fresh_map_le [OF conjunct1 [OF put]])
    ultimately show ?thesis using that(1) manifest_key_not_raw
      by (auto simp: unwritten_def grown_def intro: map_le_trans)
  qed
  then show ?thesis by (intro io_tripleI unwritten_left) blast+
qed

lemma insert_triple:
  "io_triple (unwritten s0) (insert_manifest_and_head S m g)
     (\<lambda>p s. p = (fmupd g m (s3_manifests s0), fmupd (am_source_session_id m) (g, am_last_collector_sequence m) (s3_heads s0)) \<and>
       unwritten s0 s) (left K m s0)"
  unfolding insert_manifest_and_head_def
proof (intro io_triple_bind [where R = "\<lambda>_. unwritten s0"])
  show "io_triple (unwritten s0) (\<lambda>s. (if g |\<in>| fmdom (s3_manifests s) \<or> (\<exists>x |\<in>| fmran (s3_manifests s). am_object_key x = am_object_key m)
        then Inl (ArchiveStorage (sl_duplicate S)) else Inr (), s)) (\<lambda>_. unwritten s0) (left K m s0)"
    by (rule io_tripleI) (auto simp: left_def split: if_splits)
  show "io_triple (unwritten s0) (\<lambda>s. (Inr (fmupd g m (s3_manifests s),
        fmupd (am_source_session_id m) (g, am_last_collector_sequence m) (s3_heads s)), s))
      (\<lambda>p s. p = (fmupd g m (s3_manifests s0), fmupd (am_source_session_id m) (g, am_last_collector_sequence m) (s3_heads s0)) \<and>
       unwritten s0 s) (left K m s0)"
    by (rule io_tripleI) (auto simp: unwritten_def)
qed (use call_triple [of True] in simp_all)

lemma commit_triple:
  assumes "writable K m h s0"
  shows "io_triple (unwritten s0) (s3_commit (fmupd h m (s3_manifests s0))
     (fmupd (am_source_session_id m) (h, am_last_collector_sequence m) (s3_heads s0))) (\<lambda>_. written K m h s0) (left K m s0)"
proof -
  have "left K m s0 s' \<and> (\<forall>u. r = Inr u \<longrightarrow> written K m h s0 s')"
    if "unwritten s0 s" "s3_commit (fmupd h m (s3_manifests s0))
     (fmupd (am_source_session_id m) (h, am_last_collector_sequence m) (s3_heads s0)) s = (r, s')" for s s' r
    using that assms
    by (auto simp: s3_commit_def Let_def left_def written_def unwritten_def split: list.splits io_answer.splits if_splits)
  then show ?thesis by (intro io_tripleI) blast+
qed

lemma prepare_triple:
  "io_triple (\<lambda>s. core s = core s0) (prepare_manifest_commit K S m)
     (\<lambda>p s. (manifest_hash K m = Inr (fst p) \<and>
       (\<exists>bs. fmlookup (s3_objects s0) (am_object_key m) = Some bs \<and> object_matches K m bs)) \<and> unwritten s0 s) (left K m s0)"
proof -
  have "left K m s0 s' \<and> (\<forall>p. r = Inr p \<longrightarrow> (manifest_hash K m = Inr (fst p) \<and>
       (\<exists>bs. fmlookup (s3_objects s0) (am_object_key m) = Some bs \<and> object_matches K m bs)) \<and> unwritten s0 s')"
    if s: "core s = core s0" and run: "prepare_manifest_commit K S m s = (r, s')" for s s' r
  proof -
    obtain r1 s1 where 1: "read_object S (am_object_key m) s = (r1, s1)" by fastforce
    then have c: "core s1 = core s0" "\<And>bs. r1 = Inr bs \<Longrightarrow> fmlookup (s3_objects s0) (am_object_key m) = Some bs"
      using read_object_core [OF 1] s core_eq(1) [OF s] by auto
    have "s' = s1" using run 1 by (cases r1)
      (auto simp: prepare_manifest_commit_def io_bind_def split: sum.splits)
    then have u: "unwritten s0 s'" using c(1) unwritten_refl by blast
    have "manifest_hash K m = Inr (fst p) \<and> (\<exists>bs. fmlookup (s3_objects s0) (am_object_key m) = Some bs \<and> object_matches K m bs)"
      if "r = Inr p" for p
    proof -
      from that run 1 obtain bs where bs: "r1 = Inr bs" "validate_manifest_object K m bs = Inr ()" "manifest_hash K m = Inr (fst p)"
        by (auto simp: prepare_manifest_commit_def rust_result)
      then show ?thesis using c(2) validate_manifest_object_Inr by blast
    qed
    with u show ?thesis by (simp add: unwritten_left)
  qed
  then show ?thesis by (intro io_tripleI) blast+
qed

lemma chain_triple:
  "io_triple (\<lambda>s. A \<and> unwritten s0 s) (validate_database_manifest_chain m)
     (\<lambda>_ s. (A \<and> (case fmlookup (s3_heads s0) (am_source_session_id m) of
        None \<Rightarrow> am_previous_manifest_hash m = None
      | Some (g, n) \<Rightarrow> am_previous_manifest_hash m = Some g \<and> n < am_first_collector_sequence m)) \<and> unwritten s0 s) (left K m s0)"
  unfolding validate_database_manifest_chain_def
proof (rule io_triple_bind [OF call_triple], rule io_tripleI)
  fix s s' :: s3_archive and u
  assume "A \<and> unwritten s0 s" "(case fmlookup (s3_heads s) (am_source_session_id m) of
         None \<Rightarrow> if am_previous_manifest_hash m = None then Inr () else Inl ManifestChainMismatch
       | Some (current_hash, current_last) \<Rightarrow>
           if am_previous_manifest_hash m \<noteq> Some current_hash then Inl ManifestChainMismatch
           else if am_first_collector_sequence m \<le> current_last then Inl OverlappingRange
           else Inr (), s) = (Inr u, s')"
  then show "(A \<and> (case fmlookup (s3_heads s0) (am_source_session_id m) of
        None \<Rightarrow> am_previous_manifest_hash m = None
      | Some (g, n) \<Rightarrow> am_previous_manifest_hash m = Some g \<and> n < am_first_collector_sequence m)) \<and> unwritten s0 s'"
    by (auto simp: unwritten_def not_le split: option.splits if_splits)
qed (auto simp: left_def)

definition commit_acked :: "archive_lib \<Rightarrow> archive_manifest \<Rightarrow> s3_archive \<Rightarrow> manifest_ack \<Rightarrow> s3_archive \<Rightarrow> bool" where
  "commit_acked K m s0 ack s \<longleftrightarrow> manifest_hash K m = Inr (ma_manifest_hash ack) \<and>
     ((\<exists>x. fmlookup (s3_manifests s0) (ma_manifest_hash ack) = Some x \<and> ma_last_collector_sequence ack = am_last_collector_sequence x) \<and>
        unwritten s0 s \<or>
      ma_last_collector_sequence ack = am_last_collector_sequence m \<and> written K m (ma_manifest_hash ack) s0 s)"

lemma s3_commit_prepared_triple:
  "io_triple (\<lambda>s. (manifest_hash K m = Inr h \<and> (\<exists>bs. fmlookup (s3_objects s0) (am_object_key m) = Some bs \<and> object_matches K m bs)) \<and>
      unwritten s0 s) (s3_commit_prepared K S m h json) (commit_acked K m s0) (left K m s0)"
  (is "io_triple (\<lambda>s. ?A \<and> unwritten s0 s) _ ?Q _")
proof -
  let ?old = "\<lambda>x. io_bind s3_call (\<lambda>_. io_return \<lparr>ma_manifest_hash = h, ma_last_collector_sequence = am_last_collector_sequence x\<rparr>)"
  let ?new = "io_bind (validate_database_manifest_chain m) (\<lambda>_.
            io_bind (io_result (if 2 ^ 64 \<le> length json then Inl (ArchiveStorage ''manifest length exceeds u64'') else Inr ())) (\<lambda>_.
            io_bind (put_create_or_verify K S (manifest_object_key (am_source_session_id m) h) json
              (of_nat (length json)) (lib_sha256 K json)) (\<lambda>_.
            io_bind (insert_manifest_and_head S m h) (\<lambda>(manifests, heads).
            io_bind (s3_commit manifests heads) (\<lambda>_.
            io_return \<lparr>ma_manifest_hash = h, ma_last_collector_sequence = am_last_collector_sequence m\<rparr>)))))"
  have old: "io_triple (\<lambda>s. (?A \<and> unwritten s0 s) \<and> fmlookup (s3_manifests s) h = Some x) (?old x) ?Q (left K m s0)" for x
  proof (rule io_triple_weaken)
    show "io_triple (\<lambda>s. (?A \<and> fmlookup (s3_manifests s0) h = Some x) \<and> unwritten s0 s) (?old x) ?Q (left K m s0)"
      by (rule io_triple_bind [OF call_triple], rule io_triple_return) (auto simp: commit_acked_def)
  qed (auto simp: unwritten_def)
  have new: "io_triple (\<lambda>s. (?A \<and> unwritten s0 s) \<and> fmlookup (s3_manifests s) h = None) ?new ?Q (left K m s0)"
  proof (rule io_triple_weaken)
    show "io_triple (\<lambda>s. (?A \<and> fmlookup (s3_manifests s0) h = None) \<and> unwritten s0 s) ?new ?Q (left K m s0)"
    proof (rule io_triple_bind [OF chain_triple], rule io_triple_pre)
      assume chain: "(?A \<and> fmlookup (s3_manifests s0) h = None) \<and> (case fmlookup (s3_heads s0) (am_source_session_id m) of
          None \<Rightarrow> am_previous_manifest_hash m = None
        | Some (g, n) \<Rightarrow> am_previous_manifest_hash m = Some g \<and> n < am_first_collector_sequence m)"
      then have w: "writable K m h s0" unfolding writable_def by blast
      have result: "io_triple (unwritten s0) (io_result r) (\<lambda>_. unwritten s0) (left K m s0)" for r :: "archive_error + unit"
        by (rule io_triple_result) (simp_all add: unwritten_left)
      show "io_triple (unwritten s0) (io_bind (io_result (if 2 ^ 64 \<le> length json
            then Inl (ArchiveStorage ''manifest length exceeds u64'') else Inr ())) (\<lambda>_.
          io_bind (put_create_or_verify K S (manifest_object_key (am_source_session_id m) h) json
            (of_nat (length json)) (lib_sha256 K json)) (\<lambda>_.
          io_bind (insert_manifest_and_head S m h) (\<lambda>(manifests, heads).
          io_bind (s3_commit manifests heads) (\<lambda>_.
          io_return \<lparr>ma_manifest_hash = h, ma_last_collector_sequence = am_last_collector_sequence m\<rparr>))))) ?Q (left K m s0)"
        by (rule io_triple_bind [OF result], rule io_triple_bind [OF put_triple], rule io_triple_bind [OF insert_triple],
            rule io_triple_pre) (use chain in \<open>auto simp: commit_acked_def intro!: io_triple_bind [OF commit_triple [OF w]] io_triple_return\<close>)
    qed
  qed (auto simp: unwritten_def)
  show ?thesis unfolding s3_commit_prepared_def
    by (rule io_triple_bind [OF call_triple], rule io_triple_bind [OF call_triple], rule io_triple_bind [OF call_triple],
        rule io_triple_case_option [OF old new])
qed

lemma s3_commit_manifest_triple:
  "io_triple (\<lambda>s. core s = core s0) (s3_commit_manifest K S m) (commit_acked K m s0) (left K m s0)"
  unfolding s3_commit_manifest_def
proof (rule io_triple_bind [OF prepare_triple])
  fix p :: "digest \<times> bytes"
  show "io_triple (\<lambda>s. (manifest_hash K m = Inr (fst p) \<and> (\<exists>bs. fmlookup (s3_objects s0) (am_object_key m) = Some bs \<and>
      object_matches K m bs)) \<and> unwritten s0 s) (case p of (h, json) \<Rightarrow> s3_commit_prepared K S m h json) (commit_acked K m s0) (left K m s0)"
    using s3_commit_prepared_triple [of K m "fst p" s0 S "snd p"] by (simp add: case_prod_unfold)
qed

lemma grown_object:
  assumes "grown s0 objs" "fmlookup (s3_objects s0) k = Some bs"
  shows "fmlookup objs k = Some bs"
  using assms unfolding grown_def by (meson map_le_SomeD)

lemma unwritten_ok:
  assumes "s3_ok K s0" "unwritten s0 s"
  shows "s3_ok K s" "s3_ledger s = s3_ledger s0"
  using assms grown_object unfolding s3_ok_def unwritten_def s3_ledger_def by (fastforce+)

lemma written_ok:
  assumes ok: "s3_ok K s0" and m: "range_ok m" and w: "written K m h s0 s"
  shows "s3_ok K s" "extends_ledger K m (s3_ledger s0) (s3_ledger s)"
proof -
  note W = w [unfolded written_def writable_def]
  have head: "n < am_last_collector_sequence m \<and> n < am_first_collector_sequence m"
    if "fmlookup (s3_heads s0) (am_source_session_id m) = Some (g, n)" for g n
    using W that m by (auto simp: range_ok_def)
  have old: "range_ok x \<and> (\<exists>bs. fmlookup (s3_objects s) (am_object_key x) = Some bs \<and> object_matches K x bs) \<and>
      (\<exists>g n. fmlookup (s3_heads s0) (am_source_session_id x) = Some (g, n) \<and> am_last_collector_sequence x \<le> n)"
    if "fmlookup (s3_manifests s0) g = Some x" for g x
    using ok that W grown_object unfolding s3_ok_def by meson
  show "s3_ok K s" unfolding s3_ok_def
  proof (intro allI impI)
    fix g x
    assume x: "fmlookup (s3_manifests s) g = Some x"
    show "range_ok x \<and> (\<exists>bs. fmlookup (s3_objects s) (am_object_key x) = Some bs \<and> object_matches K x bs) \<and>
      (\<exists>g n. fmlookup (s3_heads s) (am_source_session_id x) = Some (g, n) \<and> am_last_collector_sequence x \<le> n)"
    proof (cases "g = h")
      case True
      then show ?thesis using x W m grown_object by auto
    next
      case False
      then have "fmlookup (s3_manifests s0) g = Some x" using x W by simp
      from old [OF this] show ?thesis using W head by (auto split: if_splits)
    qed
  qed
  have "disjoint_ranges x m" if "fmlookup (s3_manifests s0) g = Some x" "am_source_session_id x = am_source_session_id m" for g x
    using old [OF that(1)] that(2) head unfolding disjoint_ranges_def by (metis order.strict_trans1)
  moreover have "map_option fst (fmlookup (s3_heads s0) (am_source_session_id m)) = am_previous_manifest_hash m"
    using W by (auto split: option.splits)
  ultimately show "extends_ledger K m (s3_ledger s0) (s3_ledger s)"
    using W by (auto simp: extends_ledger_def s3_ledger_def fun_eq_iff)
qed

lemma s3_commit_manifest_result:
  assumes "s3_commit_manifest K S m s = (r, s')"
  shows "left K m s s'" "r = Inr ack \<Longrightarrow> commit_acked K m s ack s'"
proof -
  have "case r of Inr ack \<Rightarrow> commit_acked K m s ack s' | Inl e \<Rightarrow> left K m s s'"
    by (rule io_tripleD [OF s3_commit_manifest_triple refl assms])
  then show "left K m s s'" "r = Inr ack \<Longrightarrow> commit_acked K m s ack s'"
    by (cases r; auto simp: commit_acked_def left_def)+
qed

lemma s3_stage_core:
  assumes "s3_stage K S e s = (r, s')"
  shows "core s' = core s \<or> sl_path_error S (ea_object_key e) = None \<and> ea_object_key e |\<notin>| fmdom (s3_objects s) \<and>
    core s' = (core s)\<lparr>s3_objects := fmupd (ea_object_key e) (ea_compressed_bytes e) (s3_objects s)\<rparr>"
proof (cases "staged_of e")
  case (Inr staged)
  obtain r1 s1 where 1: "put_create_or_verify K S (so_object_key staged) (ea_compressed_bytes e) (so_compressed_bytes staged)
      (so_object_sha256 staged) s = (r1, s1)" by fastforce
  have "so_object_key staged = ea_object_key e" using Inr by (auto simp: staged_of_def split: if_splits)
  moreover have "s' = s1" using assms Inr 1 by (cases r1) (auto simp: s3_stage_def io_bind_def)
  ultimately show ?thesis using put_create_or_verify_core [OF 1] by simp
qed (use assms in \<open>simp add: s3_stage_def io_bind_def\<close>)

lemma s3_verify_core:
  assumes "s3_verify K S ob s = (r, s')"
  shows "core s' = core s"
proof (cases "sl_path_error S (so_object_key ob)")
  case None
  obtain r1 s1 where 1: "s3_call s = (r1, s1)" by fastforce
  obtain r2 s2 where 2: "s3_get S (so_object_key ob) s1 = (r2, s2)" by fastforce
  have "s' = s1 \<or> s' = s2" using assms None 1 2
    by (cases r1; cases "fmlookup (s3_objects s1) (so_object_key ob)"; cases r2)
      (auto simp: s3_verify_def object_path_def io_bind_def split: if_splits)
  then show ?thesis using s3_call_core [OF 1] s3_get_core [OF 2] by auto
qed (use assms in \<open>simp add: s3_verify_def object_path_def io_bind_def\<close>)

lemma s3_query_core:
  assumes "io_bind s3_call (\<lambda>_ s. (f s, s)) s = (r, s')"
  shows "core s' = core s \<and> (\<forall>x. r = Inr x \<longrightarrow> f s' = Inr x)"
proof -
  obtain r1 s1 where 1: "s3_call s = (r1, s1)" by fastforce
  then show ?thesis using assms s3_call_core [OF 1] by (cases r1) (auto simp: io_bind_def)
qed

interpretation s3_port: object_archive K "s3_ok K" s3_ledger s3_committed_range "s3_stage K S" "s3_verify K S"
  "s3_commit_manifest K S" s3_latest "\<lambda>s. fmlookup (s3_objects s)" "\<lambda>k. sl_path_error S k = None" for K S
proof unfold_locales
  fix s session fs ls sha q s'
  assume s: "s3_ok K s" and run: "s3_committed_range session fs ls sha s = (q, s')"
  note c = s3_query_core [OF run [unfolded s3_committed_range_def]]
  show "s3_ok K s' \<and> s3_ledger s' = s3_ledger s \<and> (\<forall>ack. q = Inr (Some ack) \<longrightarrow> ma_last_collector_sequence ack = ls \<and>
        (\<exists>m. lg_manifests (s3_ledger s) (ma_manifest_hash ack) = Some m \<and> am_source_session_id m = session \<and>
          am_first_collector_sequence m = fs \<and> am_last_collector_sequence m = ls))"
    using c s s3_core_same [of s' s] core_eq(2) [of s' s] by (auto simp: s3_ledger_def covers_range_def dest!: find_range_Some)
  show "fmlookup (s3_objects s') = fmlookup (s3_objects s)" using c core_eq(1) by metis
next
  fix s e qs s'
  assume s: "s3_ok K s" and run: "s3_stage K S e s = (qs, s')"
  let ?objs = "fmupd (ea_object_key e) (ea_compressed_bytes e) (s3_objects s)"
  show "s3_ok K s' \<and> s3_ledger s' = s3_ledger s"
    using s3_stage_core [OF run] s s3_core_same [of s' s] s3_ok_objects [OF s, of s' ?objs] fresh_map_le by metis
  show "fmlookup (s3_objects s') = fmlookup (s3_objects s) \<or> sl_path_error S (ea_object_key e) = None \<and> fmlookup (s3_objects s) (ea_object_key e) = None \<and>
      fmlookup (s3_objects s') = (fmlookup (s3_objects s))(ea_object_key e \<mapsto> ea_compressed_bytes e)"
    using s3_stage_core [OF run]
  proof (elim disjE conjE)
    assume "core s' = core s"
    from core_eq(1) [OF this] show ?thesis by simp
  next
    assume "sl_path_error S (ea_object_key e) = None"
      and k: "ea_object_key e |\<notin>| fmdom (s3_objects s)" and c: "core s' = (core s)\<lparr>s3_objects := ?objs\<rparr>"
    from s3_ok_objects(3) [OF s c fresh_map_le [OF k]] fmdom_notD [OF k] \<open>sl_path_error S (ea_object_key e) = None\<close> show ?thesis by (simp add: fun_eq_iff)
  qed
next
  fix s ob qv s'
  assume s: "s3_ok K s" and run: "s3_verify K S ob s = (qv, s')"
  note c = s3_verify_core [OF run]
  show "s3_ok K s' \<and> s3_ledger s' = s3_ledger s" using s s3_core_same [OF c] by simp
  show "fmlookup (s3_objects s') = fmlookup (s3_objects s)" using core_eq(1) [OF c] by simp
next
  fix s m qc s'
  assume s: "s3_ok K s" and m: "range_ok m" and run: "s3_commit_manifest K S m s = (qc, s')"
  from s3_commit_manifest_result(1) [OF run]
  show "s3_ok K s' \<and> (s3_ledger s' = s3_ledger s \<or> extends_ledger K m (s3_ledger s) (s3_ledger s'))"
    using unwritten_ok [OF s] written_ok [OF s m] unfolding left_def by blast
next
  fix s m ack s'
  assume s: "s3_ok K s" and m: "range_ok m" and run: "s3_commit_manifest K S m s = (Inr ack, s')"
    and free: "\<forall>h x. manifest_hash K m = Inr h \<longrightarrow> lg_manifests (s3_ledger s) h = Some x \<longrightarrow> x = m"
  note a = s3_commit_manifest_result(2) [OF run refl, unfolded commit_acked_def]
  show "manifest_hash K m = Inr (ma_manifest_hash ack) \<and> ma_last_collector_sequence ack = am_last_collector_sequence m \<and>
      lg_manifests (s3_ledger s') (ma_manifest_hash ack) = Some m"
    using a free by (auto simp: s3_ledger_def unwritten_def written_def)
next
  fix s session ql s'
  assume s: "s3_ok K s" and run: "s3_latest session s = (ql, s')"
  note c = s3_query_core [OF run [unfolded s3_latest_def]]
  show "s3_ok K s' \<and> s3_ledger s' = s3_ledger s \<and> (\<forall>h. ql = Inr h \<longrightarrow> h = lg_heads (s3_ledger s) session)"
    using c s s3_core_same [of s' s] core_eq(3) [of s' s] by (auto simp: s3_ledger_def)
  show "fmlookup (s3_objects s') = fmlookup (s3_objects s)" using c core_eq(1) by metis
next
  fix s h m
  assume "s3_ok K s" "lg_manifests (s3_ledger s) h = Some m"
  then show "\<exists>bs. fmlookup (s3_objects s) (am_object_key m) = Some bs \<and> object_matches K m bs"
    by (simp add: s3_ok_def s3_ledger_def)
next
  fix s m qc s'
  assume run: "s3_commit_manifest K S m s = (qc, s')"
  from s3_commit_manifest_result(1) [OF run]
  show "fmlookup (s3_objects s) \<subseteq>\<^sub>m fmlookup (s3_objects s') \<and> (\<forall>k. raw_key k \<longrightarrow> fmlookup (s3_objects s') k = fmlookup (s3_objects s) k)"
    by (auto simp: left_def unwritten_def written_def grown_def)
qed

end
