(* ===== verification/Broker_Adapters.thy ===== *)
theory Broker_Adapters
  imports Storage_Ports
begin

text \<open>
  The broker publishers of \<open>crates/storage-adapters/src/redpanda.rs\<close>: the preparation of a batch that both
  share, the broker in memory with its deduplication, the Kafka producer over the answers of its
  deliveries, and the contract of \<open>BrokerPublisher\<close> that both keep.
\<close>

section \<open>Prepared batches\<close>

record published_record =
  pr_topic :: string
  pr_key :: string
  pr_event_id :: digest
  pr_value :: bytes

record prepared_batch =
  pb_source_session_id :: source_session_id
  pb_last_collector_sequence :: u64
  pb_record_count :: u64
  pb_records :: "published_record list"

definition broker_session :: "bytes \<Rightarrow> broker_error + source_session_id" where
  "broker_session bs = (if length bs = 16 then Inr (of_nat (be_val bs))
     else Inl (BrokerInvalidLength ''source_session_id'' 16 (length bs)))"

definition broker_event_id :: "bytes \<Rightarrow> broker_error + digest" where
  "broker_event_id bs = (if length bs = 32 then Inr (of_nat (be_val bs))
     else Inl (BrokerInvalidLength ''observation_id'' 32 (length bs)))"

fun prepare_loop ::
  "(committed_observation \<Rightarrow> bytes) \<Rightarrow> string \<Rightarrow> source_session_id \<Rightarrow> string \<Rightarrow> nat \<Rightarrow> committed_observation list \<Rightarrow>
   broker_error + published_record list" where
  "prepare_loop enc topic session source index [] = Inr []"
| "prepare_loop enc topic session source index (r # rs) =
     and_then (ok_or (co_observation r) (MissingObservation index)) (\<lambda>x.
     if ob_source_session_id x \<noteq> session_bytes session \<or> ob_source_id x \<noteq> source then Inl MixedSourceSession
     else and_then (broker_event_id (ob_observation_id x)) (\<lambda>event.
       and_then (prepare_loop enc topic session source (Suc index) rs) (\<lambda>ps.
         Inr (\<lparr>pr_topic = topic, pr_key = source, pr_event_id = event, pr_value = enc r\<rparr> # ps))))"

definition prepare_records ::
  "(committed_observation \<Rightarrow> bytes) \<Rightarrow> string \<Rightarrow> committed_observation list \<Rightarrow> broker_error + prepared_batch" where
  "prepare_records enc topic records =
     and_then (ok_or (hd_opt records) EmptyBatch) (\<lambda>first.
     and_then (ok_or (co_observation first) (MissingObservation 0)) (\<lambda>x.
     and_then (broker_session (ob_source_session_id x)) (\<lambda>session.
     and_then (prepare_loop enc topic session (ob_source_id x) 0 records) (\<lambda>prepared.
     and_then (ok_or (Option.bind (last_opt records) co_observation) (MissingObservation (length records - 1))) (\<lambda>y.
     if 2 ^ 64 \<le> length records then Inl (Delivery ''record count exceeds u64'')
     else Inr \<lparr>pb_source_session_id = session, pb_last_collector_sequence = ob_collector_sequence y,
       pb_record_count = of_nat (length records), pb_records = prepared\<rparr>)))))"

definition batch_ack :: "prepared_batch \<Rightarrow> broker_ack" where
  "batch_ack p = \<lparr>ack_source_session_id = pb_source_session_id p, ack_last_collector_sequence = pb_last_collector_sequence p,
     ack_record_count = pb_record_count p\<rparr>"

lemma broker_session_Inr: "broker_session bs = Inr session \<Longrightarrow> bs = session_bytes session"
  by (auto simp: broker_session_def session_bytes_def be_bytes_word split: if_splits)

lemma prepare_loop_event_ids:
  assumes "prepare_loop enc topic session source index rs = Inr ps"
  shows "map (\<lambda>r. map_option ob_observation_id (co_observation r)) rs = map (\<lambda>p. Some (observation_id_bytes (pr_event_id p))) ps"
  using assms
  by (induction rs arbitrary: index ps)
    (auto simp: rust_result broker_event_id_def observation_id_bytes_def be_bytes_word split: if_splits)

lemma prepare_records_Inr:
  assumes "prepare_records enc topic records = Inr p"
  shows "map (\<lambda>r. map_option ob_observation_id (co_observation r)) records =
      map (\<lambda>q. Some (observation_id_bytes (pr_event_id q))) (pb_records p)"
    "\<exists>x. co_observation (last records) = Some x \<and> pb_last_collector_sequence p = ob_collector_sequence x"
    "\<exists>x. co_observation (hd records) = Some x \<and> ob_source_session_id x = session_bytes (pb_source_session_id p)"
    "records \<noteq> []"
proof -
  from assms obtain x y where x: "records \<noteq> []" "co_observation (hd records) = Some x"
    "broker_session (ob_source_session_id x) = Inr (pb_source_session_id p)"
    "prepare_loop enc topic (pb_source_session_id p) (ob_source_id x) 0 records = Inr (pb_records p)"
    "Option.bind (last_opt records) co_observation = Some y" "pb_last_collector_sequence p = ob_collector_sequence y"
    by (auto simp: prepare_records_def rust_result hd_opt_Some_iff split: if_splits)
  show "map (\<lambda>r. map_option ob_observation_id (co_observation r)) records =
      map (\<lambda>q. Some (observation_id_bytes (pr_event_id q))) (pb_records p)"
    by (rule prepare_loop_event_ids [OF x(4)])
  show "\<exists>x. co_observation (last records) = Some x \<and> pb_last_collector_sequence p = ob_collector_sequence x"
    using x(1,5,6) by (simp add: last_opt_def)
  show "\<exists>x. co_observation (hd records) = Some x \<and> ob_source_session_id x = session_bytes (pb_source_session_id p)"
    using x(2) broker_session_Inr [OF x(3)] by simp
qed (use assms in \<open>auto simp: prepare_records_def\<close>)

section \<open>The contract\<close>

locale broker_publisher =
  fixes enc :: "committed_observation \<Rightarrow> bytes" and delivered :: "'b \<Rightarrow> digest set"
    and publish :: "string \<Rightarrow> committed_observation list \<Rightarrow> ('b, broker_error, broker_ack) io"
  assumes publish_result: "publish topic records b = (r, b') \<Longrightarrow> delivered b \<subseteq> delivered b' \<and>
      (\<forall>ack. r = Inr ack \<longrightarrow> (\<exists>p. prepare_records enc topic records = Inr p \<and> ack = batch_ack p \<and>
        delivered b' = delivered b \<union> pr_event_id ` set (pb_records p)))"
begin

text \<open>An acknowledgement names the session and the last sequence of the batch, and every record of the
  batch is delivered under its observation identity.\<close>

lemma publish_acknowledged:
  assumes "publish topic records b = (Inr ack, b')"
  shows "\<exists>x. co_observation (last records) = Some x \<and> ack_last_collector_sequence ack = ob_collector_sequence x"
    "\<exists>x. co_observation (hd records) = Some x \<and> ob_source_session_id x = session_bytes (ack_source_session_id ack)"
    "\<And>r. r \<in> set records \<Longrightarrow> \<exists>x d. co_observation r = Some x \<and> ob_observation_id x = observation_id_bytes d \<and> d \<in> delivered b'"
proof -
  obtain p where p: "prepare_records enc topic records = Inr p" "ack = batch_ack p"
    "delivered b' = delivered b \<union> pr_event_id ` set (pb_records p)"
    using publish_result [OF assms] by blast
  note q = prepare_records_Inr [OF p(1)]
  show "\<exists>x. co_observation (last records) = Some x \<and> ack_last_collector_sequence ack = ob_collector_sequence x"
    "\<exists>x. co_observation (hd records) = Some x \<and> ob_source_session_id x = session_bytes (ack_source_session_id ack)"
    using q(2,3) p(2) by (simp_all add: batch_ack_def)
  fix r
  assume "r \<in> set records"
  then have "map_option ob_observation_id (co_observation r) \<in> (\<lambda>q. Some (observation_id_bytes (pr_event_id q))) ` set (pb_records p)"
    using arg_cong [OF q(1), of set] unfolding set_map by (metis imageI)
  then show "\<exists>x d. co_observation r = Some x \<and> ob_observation_id x = observation_id_bytes d \<and> d \<in> delivered b'"
    using p(3) by auto
qed

end

section \<open>The broker in memory\<close>

record memory_broker =
  mb_event_ids :: "digest fset"
  mb_records :: "published_record list"

definition memory_deliver :: "published_record \<Rightarrow> memory_broker \<Rightarrow> memory_broker" where
  "memory_deliver p b =
     (if pr_event_id p |\<in>| mb_event_ids b then b
      else \<lparr>mb_event_ids = finsert (pr_event_id p) (mb_event_ids b), mb_records = mb_records b @ [p]\<rparr>)"

definition memory_publish ::
  "(committed_observation \<Rightarrow> bytes) \<Rightarrow> string \<Rightarrow> committed_observation list \<Rightarrow> (memory_broker, broker_error, broker_ack) io" where
  "memory_publish enc topic records b =
     (case prepare_records enc topic records of
        Inl e \<Rightarrow> (Inl e, b)
      | Inr p \<Rightarrow> (Inr (batch_ack p), fold memory_deliver (pb_records p) b))"

lemma fold_memory_deliver: "mb_event_ids (fold memory_deliver ps b) = mb_event_ids b |\<union>| fset_of_list (map pr_event_id ps)"
  by (induction ps arbitrary: b) (auto simp: memory_deliver_def)

interpretation memory_broker_port: broker_publisher enc "\<lambda>b. fset (mb_event_ids b)" "memory_publish enc" for enc
  by unfold_locales (auto simp: memory_publish_def fold_memory_deliver fset_of_list.rep_eq split: sum.splits)

section \<open>The Kafka producer\<close>

record redpanda_broker =
  rp_log :: "published_record list"
  rp_io :: "io_answer list"

definition redpanda_send :: "published_record \<Rightarrow> (redpanda_broker, broker_error, unit) io" where
  "redpanda_send p b =
     (case rp_io b of
        IoFail message applied # as \<Rightarrow>
          (Inl (Delivery message), b\<lparr>rp_log := (if applied then rp_log b @ [p] else rp_log b), rp_io := as\<rparr>)
      | as \<Rightarrow> (Inr (), \<lparr>rp_log = rp_log b @ [p], rp_io = tl as\<rparr>))"

fun redpanda_send_all :: "published_record list \<Rightarrow> (redpanda_broker, broker_error, unit) io" where
  "redpanda_send_all [] = io_return ()"
| "redpanda_send_all (p # ps) = io_bind (redpanda_send p) (\<lambda>_. redpanda_send_all ps)"

definition redpanda_publish ::
  "(committed_observation \<Rightarrow> bytes) \<Rightarrow> string \<Rightarrow> committed_observation list \<Rightarrow> (redpanda_broker, broker_error, broker_ack) io" where
  "redpanda_publish enc topic records =
     io_bind (io_result (prepare_records enc topic records)) (\<lambda>p.
     io_bind (redpanda_send_all (pb_records p)) (\<lambda>_. io_return (batch_ack p)))"

definition redpanda_delivered :: "redpanda_broker \<Rightarrow> digest set" where
  "redpanda_delivered b = pr_event_id ` set (rp_log b)"

lemma redpanda_send_log:
  assumes "redpanda_send p b = (r, b')"
  shows "(rp_log b' = rp_log b \<or> rp_log b' = rp_log b @ [p]) \<and> (\<forall>u. r = Inr u \<longrightarrow> rp_log b' = rp_log b @ [p])"
  using assms by (auto simp: redpanda_send_def split: list.splits io_answer.splits if_splits)

lemma redpanda_send_all_log:
  assumes "redpanda_send_all ps b = (r, b')"
  shows "redpanda_delivered b \<subseteq> redpanda_delivered b' \<and>
    (\<forall>u. r = Inr u \<longrightarrow> redpanda_delivered b' = redpanda_delivered b \<union> pr_event_id ` set ps)"
  using assms
proof (induction ps arbitrary: b)
  case (Cons p ps)
  obtain r1 b1 where 1: "redpanda_send p b = (r1, b1)" by fastforce
  note log = redpanda_send_log [OF 1]
  show ?case
  proof (cases r1)
    case (Inl e)
    then show ?thesis using Cons.prems 1 log by (auto simp: io_bind_def redpanda_delivered_def)
  next
    case (Inr u)
    then have "redpanda_send_all ps b1 = (r, b')" using Cons.prems 1 by (simp add: io_bind_def)
    from Cons.IH [OF this] log Inr show ?thesis by (auto simp: redpanda_delivered_def)
  qed
qed simp

interpretation redpanda_port: broker_publisher enc redpanda_delivered "redpanda_publish enc" for enc
proof unfold_locales
  fix topic records b r b'
  assume run: "redpanda_publish enc topic records b = (r, b')"
  show "redpanda_delivered b \<subseteq> redpanda_delivered b' \<and>
      (\<forall>ack. r = Inr ack \<longrightarrow> (\<exists>p. prepare_records enc topic records = Inr p \<and> ack = batch_ack p \<and>
        redpanda_delivered b' = redpanda_delivered b \<union> pr_event_id ` set (pb_records p)))"
  proof (cases "prepare_records enc topic records")
    case (Inl e)
    then show ?thesis using run by (auto simp: redpanda_publish_def io_bind_def)
  next
    case (Inr p)
    obtain r1 b1 where 1: "redpanda_send_all (pb_records p) b = (r1, b1)" by fastforce
    from redpanda_send_all_log [OF 1] run Inr 1 show ?thesis
      by (cases r1) (auto simp: redpanda_publish_def io_bind_def)
  qed
qed

end
