(* ===== verification/Checkpoint_Stores.thy ===== *)
theory Checkpoint_Stores
  imports Storage_Ports
begin

text \<open>
  The checkpoint stores of \<open>crates/storage-adapters/src/postgres.rs\<close>: the map in memory and the table
  \<open>source_checkpoints\<close>, and the contract of \<open>CheckpointStore\<close> that both keep. A transaction of the database
  is atomic: the advisory lock and \<open>FOR UPDATE\<close> exclude other writers of the row between its first read
  and its commit.
\<close>

section \<open>The contract\<close>

type_synonym checkpoint_key = "checkpoint_kind \<times> string \<times> source_session_id"

locale checkpoint_store =
  fixes cinv :: "'c \<Rightarrow> bool" and view :: "'c \<Rightarrow> checkpoint_key \<rightharpoonup> u64"
    and load :: "checkpoint_kind \<Rightarrow> string \<Rightarrow> source_session_id \<Rightarrow> ('c, checkpoint_error, durable_checkpoint option) io"
    and advance :: "checkpoint_kind \<Rightarrow> string \<Rightarrow> durable_checkpoint \<Rightarrow> ('c, checkpoint_error, durable_checkpoint) io"
  assumes load_result: "cinv s \<Longrightarrow> load kind source session s = (q, s') \<Longrightarrow> cinv s' \<and> view s' = view s \<and>
      (\<forall>c. q = Inr c \<longrightarrow> c = map_option (\<lambda>n. \<lparr>dc_source_session_id = session, dc_last_collector_sequence = n\<rparr>)
        (view s (kind, source, session)))"
    and advance_result: "cinv s \<Longrightarrow> advance kind source cp s = (r, s') \<Longrightarrow>
      key = (kind, source, dc_source_session_id cp) \<Longrightarrow> n = dc_last_collector_sequence cp \<Longrightarrow>
      cinv s' \<and> (view s' = view s \<or> view s' = (view s)(key \<mapsto> n) \<and> (\<forall>m. view s key = Some m \<longrightarrow> m \<le> n)) \<and>
      (\<forall>c. r = Inr c \<longrightarrow> c = cp \<and> view s' = (view s)(key \<mapsto> n) \<and> (\<forall>m. view s key = Some m \<longrightarrow> m \<le> n))"
begin

text \<open>Coverage never goes back, whatever an operation answers.\<close>

lemma advance_monotone:
  assumes "cinv s" "advance kind source cp s = (r, s')" "view s k = Some m"
  shows "\<exists>m'. view s' k = Some m' \<and> m \<le> m'"
  using advance_result [OF assms(1,2) refl refl] assms(3) by auto

lemma advance_other:
  assumes "cinv s" "advance kind source cp s = (r, s')" "k \<noteq> (kind, source, dc_source_session_id cp)"
  shows "view s' k = view s k"
  using advance_result [OF assms(1,2) refl refl] assms(3) by auto

lemma advance_rejects_regression:
  assumes "cinv s" "view s (kind, source, dc_source_session_id cp) = Some m" "dc_last_collector_sequence cp < m"
    "advance kind source cp s = (r, s')"
  shows "(\<exists>e. r = Inl e) \<and> view s' = view s"
proof -
  have "\<not> m \<le> dc_last_collector_sequence cp" using assms(3) by simp
  then show ?thesis using advance_result [OF assms(1,4) refl refl] assms(2) by (cases r) auto
qed

end

section \<open>The store in memory\<close>

type_synonym memory_checkpoints = "(checkpoint_key, durable_checkpoint) fmap"

definition memory_load ::
  "checkpoint_kind \<Rightarrow> string \<Rightarrow> source_session_id \<Rightarrow> (memory_checkpoints, checkpoint_error, durable_checkpoint option) io" where
  "memory_load kind source session s = (Inr (fmlookup s (kind, source, session)), s)"

definition memory_advance ::
  "checkpoint_kind \<Rightarrow> string \<Rightarrow> durable_checkpoint \<Rightarrow> (memory_checkpoints, checkpoint_error, durable_checkpoint) io" where
  "memory_advance kind source cp s =
     (let key = (kind, source, dc_source_session_id cp)
      in case checkpoint_advance (fmlookup s key) cp of
           Inl e \<Rightarrow> (Inl e, s)
         | Inr next \<Rightarrow> (Inr next, fmupd key next s))"

definition memory_checkpoints_ok :: "memory_checkpoints \<Rightarrow> bool" where
  "memory_checkpoints_ok s \<longleftrightarrow> (\<forall>kind source session c. fmlookup s (kind, source, session) = Some c \<longrightarrow> dc_source_session_id c = session)"

definition memory_view :: "memory_checkpoints \<Rightarrow> checkpoint_key \<rightharpoonup> u64" where
  "memory_view s k = map_option dc_last_collector_sequence (fmlookup s k)"

interpretation memory_store: checkpoint_store memory_checkpoints_ok memory_view memory_load memory_advance
proof unfold_locales
  fix s kind source session r s'
  assume "memory_checkpoints_ok s" "memory_load kind source session s = (r, s')"
  then show "memory_checkpoints_ok s' \<and> memory_view s' = memory_view s \<and>
      (\<forall>c. r = Inr c \<longrightarrow> c = map_option (\<lambda>n. \<lparr>dc_source_session_id = session, dc_last_collector_sequence = n\<rparr>)
        (memory_view s (kind, source, session)))"
    by (cases "fmlookup s (kind, source, session)")
      (auto simp: memory_load_def memory_view_def memory_checkpoints_ok_def)
next
  fix s kind source r s' key n and cp :: durable_checkpoint
  assume "memory_checkpoints_ok s" "memory_advance kind source cp s = (r, s')"
    "key = (kind, source, dc_source_session_id cp)" "n = dc_last_collector_sequence cp"
  then show "memory_checkpoints_ok s' \<and> (memory_view s' = memory_view s \<or> memory_view s' = (memory_view s)(key \<mapsto> n) \<and>
      (\<forall>m. memory_view s key = Some m \<longrightarrow> m \<le> n)) \<and>
      (\<forall>c. r = Inr c \<longrightarrow> c = cp \<and> memory_view s' = (memory_view s)(key \<mapsto> n) \<and> (\<forall>m. memory_view s key = Some m \<longrightarrow> m \<le> n))"
    by (auto simp: memory_advance_def Let_def memory_view_def memory_checkpoints_ok_def checkpoint_advance_Inr fun_eq_iff
        split: sum.splits if_splits)
qed

section \<open>The store in PostgreSQL\<close>

text \<open>A row of the table: the primary key and the sequence as eight bytes. The calls answer from a
  sequence of answers.\<close>

record pg_store =
  pg_rows :: "(string \<times> string \<times> bytes, bytes) fmap"
  pg_io :: "io_answer list"

fun checkpoint_kind_text :: "checkpoint_kind \<Rightarrow> string" where
  "checkpoint_kind_text Broker = ''broker''"
| "checkpoint_kind_text Archive = ''archive''"

definition pg_call :: "(pg_store, checkpoint_error, unit) io" where
  "pg_call s =
     (case pg_io s of
        IoFail message applied # as \<Rightarrow> (Inl (CheckpointStorage message), s\<lparr>pg_io := as\<rparr>)
      | as \<Rightarrow> (Inr (), s\<lparr>pg_io := tl as\<rparr>))"

definition pg_commit :: "(string \<times> string \<times> bytes, bytes) fmap \<Rightarrow> (pg_store, checkpoint_error, unit) io" where
  "pg_commit rows s =
     (case pg_io s of
        IoFail message applied # as \<Rightarrow>
          (Inl (CheckpointStorage message), (if applied then s\<lparr>pg_rows := rows\<rparr> else s)\<lparr>pg_io := as\<rparr>)
      | as \<Rightarrow> (Inr (), \<lparr>pg_rows = rows, pg_io = tl as\<rparr>))"

definition decode_checkpoint :: "bytes \<Rightarrow> bytes \<Rightarrow> checkpoint_error + durable_checkpoint" where
  "decode_checkpoint session sequence =
     (if length session \<noteq> 16
      then Inl (CheckpointStorage (''stored source session has '' @ dec_string (length session) @ '' bytes, expected 16''))
      else if length sequence \<noteq> 8
      then Inl (CheckpointStorage (''stored collector sequence has '' @ dec_string (length sequence) @ '' bytes, expected 8''))
      else Inr \<lparr>dc_source_session_id = of_nat (be_val session), dc_last_collector_sequence = of_nat (be_val sequence)\<rparr>)"

definition pg_select :: "checkpoint_kind \<Rightarrow> string \<Rightarrow> source_session_id \<Rightarrow> (pg_store, checkpoint_error, durable_checkpoint option) io" where
  "pg_select kind source session = io_bind pg_call (\<lambda>_ s.
     (case fmlookup (pg_rows s) (checkpoint_kind_text kind, source, session_bytes session) of
        None \<Rightarrow> (Inr None, s)
      | Some sequence \<Rightarrow> (map_sum id Some (decode_checkpoint (session_bytes session) sequence), s)))"

definition pg_load :: "checkpoint_kind \<Rightarrow> string \<Rightarrow> source_session_id \<Rightarrow> (pg_store, checkpoint_error, durable_checkpoint option) io" where
  "pg_load = pg_select"

text \<open>Begin, lock, select, validate, insert or update, commit.\<close>

definition pg_advance :: "checkpoint_kind \<Rightarrow> string \<Rightarrow> durable_checkpoint \<Rightarrow> (pg_store, checkpoint_error, durable_checkpoint) io" where
  "pg_advance kind source cp =
     io_bind pg_call (\<lambda>_.
     io_bind pg_call (\<lambda>_.
     io_bind (pg_select kind source (dc_source_session_id cp)) (\<lambda>current.
     io_bind (io_result (checkpoint_advance current cp)) (\<lambda>next.
     io_bind pg_call (\<lambda>_.
     io_bind (\<lambda>s. pg_commit (fmupd (checkpoint_kind_text kind, source, session_bytes (dc_source_session_id next))
       (be_bytes 8 (unat (dc_last_collector_sequence next))) (pg_rows s)) s) (\<lambda>_.
     io_return next))))))"

definition pg_ok :: "pg_store \<Rightarrow> bool" where
  "pg_ok s \<longleftrightarrow> (\<forall>k bs. fmlookup (pg_rows s) k = Some bs \<longrightarrow> length bs = 8)"

definition pg_view :: "pg_store \<Rightarrow> checkpoint_key \<rightharpoonup> u64" where
  "pg_view s = (\<lambda>(kind, source, session).
     map_option (\<lambda>bs. of_nat (be_val bs)) (fmlookup (pg_rows s) (checkpoint_kind_text kind, source, session_bytes session)))"

lemma pg_call_rows: "pg_call s = (r, s') \<Longrightarrow> pg_rows s' = pg_rows s"
  by (auto simp: pg_call_def split: list.splits io_answer.splits)

lemma pg_commit_rows:
  assumes "pg_commit rows s = (r, s')"
  shows "(pg_rows s' = pg_rows s \<or> pg_rows s' = rows) \<and> (\<forall>u. r = Inr u \<longrightarrow> pg_rows s' = rows)"
  using assms by (auto simp: pg_commit_def split: list.splits io_answer.splits if_splits)

lemma pg_same_rows: "pg_rows s' = pg_rows s \<Longrightarrow> pg_view s' = pg_view s \<and> (pg_ok s' \<longleftrightarrow> pg_ok s)"
  by (simp add: pg_view_def pg_ok_def)

lemma checkpoint_kind_text_inj: "checkpoint_kind_text a = checkpoint_kind_text b \<longleftrightarrow> a = b"
  by (cases a; cases b) simp_all

lemma pg_update_rows:
  assumes "pg_rows s' = fmupd (checkpoint_kind_text kind, source, session_bytes session) (be_bytes 8 (unat n)) (pg_rows s)"
  shows "pg_view s' = (pg_view s)((kind, source, session) \<mapsto> n)" "pg_ok s \<Longrightarrow> pg_ok s'"
  using assms by (auto simp: pg_view_def pg_ok_def fun_eq_iff be_word_roundtrip checkpoint_kind_text_inj session_bytes_inj)

lemma pg_select_result:
  assumes "pg_ok s" "pg_select kind source session s = (r, s')"
  shows "pg_rows s' = pg_rows s" "r = Inr c \<Longrightarrow>
    c = map_option (\<lambda>n. \<lparr>dc_source_session_id = session, dc_last_collector_sequence = n\<rparr>) (pg_view s (kind, source, session))"
proof -
  obtain r1 s1 where 1: "pg_call s = (r1, s1)" by fastforce
  note rows = pg_call_rows [OF 1]
  show "pg_rows s' = pg_rows s"
    using assms(2) 1 rows by (cases r1) (auto simp: pg_select_def io_bind_def split: option.splits)
  show "r = Inr c \<Longrightarrow>
    c = map_option (\<lambda>n. \<lparr>dc_source_session_id = session, dc_last_collector_sequence = n\<rparr>) (pg_view s (kind, source, session))"
    using assms 1 rows by (cases r1)
      (auto simp: pg_select_def io_bind_def pg_view_def pg_ok_def decode_checkpoint_def session_bytes_def be_word_roundtrip
        split: option.splits if_splits)
qed

text \<open>What is known at each point of an advance, over the rows it started with.\<close>

lemma pg_call_triple:
  "io_triple (\<lambda>s. P (pg_rows s)) pg_call (\<lambda>_ s. P (pg_rows s)) (\<lambda>s. P (pg_rows s))"
  by (rule io_tripleI) (auto dest: pg_call_rows)

lemma pg_advance_result:
  assumes "pg_ok s0" "pg_advance kind source cp s0 = (r, s')" "key = (kind, source, dc_source_session_id cp)"
    "n = dc_last_collector_sequence cp"
  shows "pg_ok s' \<and> (pg_view s' = pg_view s0 \<or> pg_view s' = (pg_view s0)(key \<mapsto> n) \<and> (\<forall>m. pg_view s0 key = Some m \<longrightarrow> m \<le> n)) \<and>
      (\<forall>c. r = Inr c \<longrightarrow> c = cp \<and> pg_view s' = (pg_view s0)(key \<mapsto> n) \<and> (\<forall>m. pg_view s0 key = Some m \<longrightarrow> m \<le> n))"
proof -
  define rows where "rows = fmupd (checkpoint_kind_text kind, source, session_bytes (dc_source_session_id cp)) (be_bytes 8 (unat n)) (pg_rows s0)"
  define le where "le \<longleftrightarrow> (\<forall>m. pg_view s0 key = Some m \<longrightarrow> m \<le> n)"
  let ?fail = "\<lambda>s. pg_rows s = pg_rows s0 \<or> le \<and> pg_rows s = rows"
  let ?same = "\<lambda>s. pg_rows s = pg_rows s0"
  have select: "io_triple ?same (pg_select kind source (dc_source_session_id cp))
      (\<lambda>c s. c = map_option (\<lambda>n. \<lparr>dc_source_session_id = dc_source_session_id cp, dc_last_collector_sequence = n\<rparr>) (pg_view s0 key) \<and>
        ?same s) ?fail"
  proof (rule io_tripleI)
    fix s s' c
    assume s: "?same s" "pg_select kind source (dc_source_session_id cp) s = (Inr c, s')"
    then have "pg_ok s" "pg_view s = pg_view s0" using assms(1) pg_same_rows by blast+
    then show "c = map_option (\<lambda>n. \<lparr>dc_source_session_id = dc_source_session_id cp, dc_last_collector_sequence = n\<rparr>) (pg_view s0 key) \<and> ?same s'"
      using pg_select_result [OF _ s(2)] s(1) assms(3) by simp
  next
    fix s s' e
    assume s: "?same s" "pg_select kind source (dc_source_session_id cp) s = (Inl e, s')"
    then have "pg_ok s" using assms(1) pg_same_rows by blast
    then show "?fail s'" using pg_select_result(1) [OF _ s(2)] s(1) by simp
  qed
  have call: "io_triple ?same pg_call (\<lambda>_. ?same) ?fail"
    by (rule io_triple_weaken [OF pg_call_triple [of "\<lambda>x. x = pg_rows s0"]]) auto
  have upsert: "io_triple ?same (\<lambda>s. pg_commit (fmupd (checkpoint_kind_text kind, source, session_bytes (dc_source_session_id cp))
         (be_bytes 8 (unat n)) (pg_rows s)) s) (\<lambda>_ s. pg_rows s = rows) ?fail" if "le"
    by (rule io_tripleI) (use that in \<open>auto simp: rows_def dest!: pg_commit_rows\<close>)
  have "io_triple ?same (pg_advance kind source cp) (\<lambda>c s. c = cp \<and> le \<and> pg_rows s = rows) ?fail"
    unfolding pg_advance_def
  proof (rule io_triple_bind [OF call], rule io_triple_bind [OF call], rule io_triple_bind [OF select], rule io_triple_pre)
    fix c
    assume c: "c = map_option (\<lambda>n. \<lparr>dc_source_session_id = dc_source_session_id cp, dc_last_collector_sequence = n\<rparr>) (pg_view s0 key)"
    have le: "next = cp \<and> le" if "checkpoint_advance c cp = Inr next" for "next"
      using that unfolding c checkpoint_advance_view le_def assms(4) .
    show "io_triple ?same (io_bind (io_result (checkpoint_advance c cp)) (\<lambda>next. io_bind pg_call (\<lambda>_.
        io_bind (\<lambda>s. pg_commit (fmupd (checkpoint_kind_text kind, source, session_bytes (dc_source_session_id next))
          (be_bytes 8 (unat (dc_last_collector_sequence next))) (pg_rows s)) s) (\<lambda>_. io_return next))))
        (\<lambda>c s. c = cp \<and> le \<and> pg_rows s = rows) ?fail"
    proof (rule io_triple_bind [where R = "\<lambda>next s. (next = cp \<and> le) \<and> ?same s"])
      show "io_triple ?same (io_result (checkpoint_advance c cp)) (\<lambda>next s. (next = cp \<and> le) \<and> ?same s) ?fail"
        using le by (intro io_triple_result) auto
    next
      fix "next"
      show "io_triple (\<lambda>s. (next = cp \<and> le) \<and> ?same s) (io_bind pg_call (\<lambda>_.
        io_bind (\<lambda>s. pg_commit (fmupd (checkpoint_kind_text kind, source, session_bytes (dc_source_session_id next))
          (be_bytes 8 (unat (dc_last_collector_sequence next))) (pg_rows s)) s) (\<lambda>_. io_return next)))
        (\<lambda>c s. c = cp \<and> le \<and> pg_rows s = rows) ?fail"
        by (rule io_triple_pre, rule io_triple_bind [OF call], rule io_triple_bind [OF _ io_triple_return])
          (use upsert assms(4) in auto)
    qed
  qed
  from io_tripleD [OF this _ assms(2)] have "case r of Inr c \<Rightarrow> c = cp \<and> le \<and> pg_rows s' = rows | Inl e \<Rightarrow> ?fail s'" by simp
  moreover have "pg_view s' = (pg_view s0)(key \<mapsto> n) \<and> pg_ok s'" if "pg_rows s' = rows"
    using pg_update_rows [OF that [unfolded rows_def]] assms(1,3) by simp
  moreover have "pg_view s' = pg_view s0 \<and> pg_ok s'" if "pg_rows s' = pg_rows s0" using pg_same_rows [OF that] assms(1) by simp
  ultimately show ?thesis unfolding le_def by (cases r) auto
qed

interpretation postgres_store: checkpoint_store pg_ok pg_view pg_load pg_advance
proof unfold_locales
  fix s kind source session r s'
  assume "pg_ok s" "pg_load kind source session s = (r, s')"
  then show "pg_ok s' \<and> pg_view s' = pg_view s \<and>
      (\<forall>c. r = Inr c \<longrightarrow> c = map_option (\<lambda>n. \<lparr>dc_source_session_id = session, dc_last_collector_sequence = n\<rparr>)
        (pg_view s (kind, source, session)))"
    using pg_select_result [of s kind source session r s'] pg_same_rows [of s' s] by (simp add: pg_load_def)
qed (rule pg_advance_result)

end
