(* ===== verification/Archive_Writer.thy ===== *)
theory Archive_Writer
  imports Raw_Archive_Laws Broker_Adapters Checkpoint_Stores
begin

text \<open>
  The archive writer (\<open>services/archive-writer/src/lib.rs\<close>): it publishes a batch to the broker, archives it
  as a verified object with a committed manifest, and advances the broker and archive checkpoints. The
  coordinator is a function of the operations of its three ports. What a pipeline promises is proved over
  the contracts of the ports.
\<close>

section \<open>The coordinator\<close>

definition RAW_BITCOIN_OBSERVATION_TOPIC :: string where
  "RAW_BITCOIN_OBSERVATION_TOPIC = ''dev.raw.bitcoin.mainnet.source.observation.v1''"

record archive_outcome =
  oc_manifest :: manifest_ack
  oc_last_collector_sequence :: u64

datatype archive_writer_error =
    WriterFormat format_error
  | WriterManifest manifest_error
  | WriterBroker broker_error
  | BrokerAckMismatch
  | WriterArchive archive_error
  | WriterCheckpoint checkpoint_error

record ('b, 'a, 'c) coordinator =
  cd_broker :: 'b
  cd_archive :: 'a
  cd_checkpoints :: 'c

record ('b, 'a, 'c) ports =
  po_publish :: "string \<Rightarrow> committed_observation list \<Rightarrow> ('b, broker_error, broker_ack) io"
  po_committed_range :: "source_session_id \<Rightarrow> u64 \<Rightarrow> u64 \<Rightarrow> digest \<Rightarrow> ('a, archive_error, manifest_ack option) io"
  po_stage :: "encoded_archive \<Rightarrow> ('a, archive_error, staged_object) io"
  po_verify :: "staged_object \<Rightarrow> ('a, archive_error, unit) io"
  po_commit_manifest :: "archive_manifest \<Rightarrow> ('a, archive_error, manifest_ack) io"
  po_latest_manifest_hash :: "source_session_id \<Rightarrow> ('a, archive_error, digest option) io"
  po_advance :: "checkpoint_kind \<Rightarrow> string \<Rightarrow> durable_checkpoint \<Rightarrow> ('c, checkpoint_error, durable_checkpoint) io"

definition on_broker :: "('b, broker_error, 'x) io \<Rightarrow> (('b, 'a, 'c) coordinator, archive_writer_error, 'x) io" where
  "on_broker m s = (case m (cd_broker s) of (r, b) \<Rightarrow> (map_sum WriterBroker id r, s\<lparr>cd_broker := b\<rparr>))"

definition on_archive :: "('a, archive_error, 'x) io \<Rightarrow> (('b, 'a, 'c) coordinator, archive_writer_error, 'x) io" where
  "on_archive m s = (case m (cd_archive s) of (r, a) \<Rightarrow> (map_sum WriterArchive id r, s\<lparr>cd_archive := a\<rparr>))"

definition on_checkpoints :: "('c, checkpoint_error, 'x) io \<Rightarrow> (('b, 'a, 'c) coordinator, archive_writer_error, 'x) io" where
  "on_checkpoints m s = (case m (cd_checkpoints s) of (r, c) \<Rightarrow> (map_sum WriterCheckpoint id r, s\<lparr>cd_checkpoints := c\<rparr>))"

definition encode_records :: "archive_lib \<Rightarrow> committed_observation list \<Rightarrow> format_error + encoded_archive" where
  "encode_records K records = and_then (batch_try_new K records) (batch_encode K)"

definition advance_archive ::
  "('b, 'a, 'c) ports \<Rightarrow> encoded_archive \<Rightarrow> broker_ack \<Rightarrow> manifest_ack \<Rightarrow>
   (('b, 'a, 'c) coordinator, archive_writer_error, archive_outcome) io" where
  "advance_archive P e ack manifest =
     io_bind (on_checkpoints (po_advance P Archive (ea_source_id e)
       \<lparr>dc_source_session_id = ea_source_session_id e, dc_last_collector_sequence = ma_last_collector_sequence manifest\<rparr>)) (\<lambda>_.
     io_return \<lparr>oc_manifest = manifest, oc_last_collector_sequence = ack_last_collector_sequence ack\<rparr>)"

definition archive_object ::
  "('b, 'a, 'c) ports \<Rightarrow> encoded_archive \<Rightarrow> broker_ack \<Rightarrow> (('b, 'a, 'c) coordinator, archive_writer_error, archive_outcome) io" where
  "archive_object P e ack =
     io_bind (on_archive (po_latest_manifest_hash P (ea_source_session_id e))) (\<lambda>previous.
     io_bind (io_result (map_sum WriterManifest id (manifest_from_encoded e previous))) (\<lambda>m.
     io_bind (on_archive (po_stage P e)) (\<lambda>staged.
     io_bind (on_archive (po_verify P staged)) (\<lambda>_.
     io_bind (on_archive (po_commit_manifest P m)) (\<lambda>manifest.
     advance_archive P e ack manifest)))))"

definition publish_and_archive ::
  "archive_lib \<Rightarrow> ('b, 'a, 'c) ports \<Rightarrow> committed_observation list \<Rightarrow>
   (('b, 'a, 'c) coordinator, archive_writer_error, archive_outcome) io" where
  "publish_and_archive K P records =
     io_bind (io_result (map_sum WriterFormat id (encode_records K records))) (\<lambda>e.
     io_bind (on_broker (po_publish P RAW_BITCOIN_OBSERVATION_TOPIC records)) (\<lambda>ack.
     if ack_source_session_id ack \<noteq> ea_source_session_id e \<or> ack_last_collector_sequence ack \<noteq> ea_last_collector_sequence e
     then io_result (Inl BrokerAckMismatch)
     else
       io_bind (on_checkpoints (po_advance P Broker (ea_source_id e)
         \<lparr>dc_source_session_id = ea_source_session_id e, dc_last_collector_sequence = ack_last_collector_sequence ack\<rparr>)) (\<lambda>_.
       io_bind (on_archive (po_committed_range P (ea_source_session_id e) (ea_first_collector_sequence e)
         (ea_last_collector_sequence e) (ea_object_sha256 e))) (\<lambda>found.
       case found of
         Some manifest \<Rightarrow> advance_archive P e ack manifest
       | None \<Rightarrow> archive_object P e ack))))"

section \<open>Batches of a log\<close>

text \<open>The log of a session is a function of its collector sequences. A batch is taken from the log when
  each of its records is the record of the log at its sequence.\<close>

type_synonym session_log = "bytes \<Rightarrow> u64 \<Rightarrow> committed_observation"

definition from_log :: "session_log \<Rightarrow> committed_observation list \<Rightarrow> bool" where
  "from_log log records \<longleftrightarrow> (\<forall>r \<in> set records. \<exists>x. co_observation r = Some x \<and>
     r = log (ob_source_session_id x) (ob_collector_sequence x))"

lemma encode_recordsE:
  assumes "encode_records K records = Inr e"
  obtains b where "batch_try_new K records = Inr b" "batch_encode K b = Inr e"
  using assms by (auto simp: encode_records_def rust_result)

text \<open>An encoded batch of the log holds exactly the records of its range, and its key names the range.\<close>

lemma encode_records_range:
  assumes "encode_records K records = Inr e" "from_log log records"
  shows "records = map (\<lambda>q. log (session_bytes (ea_source_session_id e)) (of_nat q))
      [unat (ea_first_collector_sequence e)..<Suc (unat (ea_last_collector_sequence e))]"
    "ea_first_collector_sequence e \<le> ea_last_collector_sequence e" "records \<noteq> []"
proof -
  obtain b where b: "batch_try_new K records = Inr b" "batch_encode K b = Inr e" using assms(1) by (rule encode_recordsE)
  note e = batch_encode_fields [OF b(2)]
  obtain x where x: "records \<noteq> []" "ob_source_session_id x = session_bytes (ab_source_session_id b)"
    "\<And>i. i < length records \<Longrightarrow> record_at x (unat (ab_first_collector_sequence b) + i) (records ! i)"
    "unat (ab_last_collector_sequence b) + 1 = unat (ab_first_collector_sequence b) + length records"
    by (rule batch_try_new_Inr [OF b(1)]) blast
  have len: "length [unat (ea_first_collector_sequence e)..<Suc (unat (ea_last_collector_sequence e))] = length records"
    using x(4) e by simp
  show "records = map (\<lambda>q. log (session_bytes (ea_source_session_id e)) (of_nat q))
      [unat (ea_first_collector_sequence e)..<Suc (unat (ea_last_collector_sequence e))]"
  proof (rule nth_equalityI)
    fix i
    assume i: "i < length records"
    obtain y where y: "co_observation (records ! i) = Some y" "ob_source_session_id y = session_bytes (ab_source_session_id b)"
      "unat (ob_collector_sequence y) = unat (ab_first_collector_sequence b) + i"
      using x(3) [OF i] x(2) by (auto simp: record_at_def stream_of_def)
    have "of_nat (unat (ob_collector_sequence y)) = ob_collector_sequence y" by simp
    then have "ob_collector_sequence y = of_nat (unat (ab_first_collector_sequence b) + i)" unfolding y(3) by simp
    moreover have "records ! i = log (ob_source_session_id y) (ob_collector_sequence y)"
      using assms(2) i y(1) unfolding from_log_def by (metis nth_mem option.inject)
    ultimately show "records ! i = map (\<lambda>q. log (session_bytes (ea_source_session_id e)) (of_nat q))
      [unat (ea_first_collector_sequence e)..<Suc (unat (ea_last_collector_sequence e))] ! i"
      using y(2) e len i by (simp del: upt_Suc)
  qed (use len in \<open>simp del: upt_Suc\<close>)
  show "ea_first_collector_sequence e \<le> ea_last_collector_sequence e"
    using x(1,4) e by (cases records) (auto simp: word_le_nat_alt)
qed (use assms(1) in \<open>auto simp: encode_records_def batch_try_new_def observation_at_def\<close>)

lemma encode_records_key:
  assumes "encode_records K records = Inr e" "encode_records K records' = Inr e'" "ea_object_key e = ea_object_key e'"
    "from_log log records" "from_log log records'"
  shows "e = e' \<and> records = records'"
proof -
  have "ea_source_session_id e = ea_source_session_id e' \<and> ea_first_collector_sequence e = ea_first_collector_sequence e' \<and>
      ea_last_collector_sequence e = ea_last_collector_sequence e'"
  proof -
    obtain b where b: "batch_try_new K records = Inr b" "batch_encode K b = Inr e" using assms(1) by (rule encode_recordsE)
    obtain b' where b': "batch_try_new K records' = Inr b'" "batch_encode K b' = Inr e'" using assms(2) by (rule encode_recordsE)
    obtain x part ns where x: "validate_path_component (ob_source_id x) ''source_id'' = Inr ()"
      "validate_path_component (ob_chain x) ''chain'' = Inr ()" "validate_path_component (ob_network x) ''network'' = Inr ()"
      "validate_path_component (ob_channel x) ''channel'' = Inr ()" "partition_of K ns = Inr part"
      "ab_object_key b = object_key_of x part (ab_source_session_id b) (ab_first_collector_sequence b) (ab_last_collector_sequence b)"
      by (rule batch_try_new_Inr [OF b(1)]) blast
    obtain x' part' ns' where x': "validate_path_component (ob_source_id x') ''source_id'' = Inr ()"
      "validate_path_component (ob_chain x') ''chain'' = Inr ()" "validate_path_component (ob_network x') ''network'' = Inr ()"
      "validate_path_component (ob_channel x') ''channel'' = Inr ()" "partition_of K ns' = Inr part'"
      "ab_object_key b' = object_key_of x' part' (ab_source_session_id b') (ab_first_collector_sequence b') (ab_last_collector_sequence b')"
      by (rule batch_try_new_Inr [OF b'(1)]) blast
    note f = batch_encode_fields [OF b(2)] batch_encode_fields [OF b'(2)]
    have "object_key_of x part (ab_source_session_id b) (ab_first_collector_sequence b) (ab_last_collector_sequence b) =
      object_key_of x' part' (ab_source_session_id b') (ab_first_collector_sequence b') (ab_last_collector_sequence b')"
      using assms(3) f x(6) x'(6) by simp
    from object_key_of_inj [OF this] show ?thesis
      using x x' f path_component_no_slash partition_no_slash by auto
  qed
  with encode_records_range(1) [OF assms(1,4)] encode_records_range(1) [OF assms(2,5)]
  have "records = records'" by simp
  then show ?thesis using assms(1,2) by simp
qed

lemma encode_records_raw_key:
  assumes "encode_records K records = Inr e"
  shows "raw_key (ea_object_key e)"
proof -
  obtain b where b: "batch_try_new K records = Inr b" "batch_encode K b = Inr e" using assms by (rule encode_recordsE)
  obtain x part where "ab_object_key b = object_key_of x part (ab_source_session_id b) (ab_first_collector_sequence b) (ab_last_collector_sequence b)"
    by (rule batch_try_new_Inr [OF b(1)]) blast
  then show ?thesis using batch_encode_fields(2) [OF b(2)] by (simp add: raw_key_def object_key_of_def)
qed

section \<open>What a pipeline keeps\<close>

text \<open>Raw objects are encoded batches of the log; a committed manifest is the manifest of a batch of the log;
  an archive checkpoint has every due sequence of the session in a committed manifest; a broker
  checkpoint has the observation of every such sequence delivered; and the archive checkpoint never leads.\<close>

definition objects_from_log :: "archive_lib \<Rightarrow> (string \<Rightarrow> bool) \<Rightarrow> session_log \<Rightarrow> (string \<rightharpoonup> bytes) \<Rightarrow> bool" where
  "objects_from_log K R log objs \<longleftrightarrow> (\<forall>k bs. raw_key k \<longrightarrow> objs k = Some bs \<longrightarrow>
     R k \<and> (\<exists>records e. from_log log records \<and> encode_records K records = Inr e \<and> ea_object_key e = k \<and> ea_compressed_bytes e = bs))"

definition batch_manifest :: "archive_lib \<Rightarrow> session_log \<Rightarrow> archive_manifest \<Rightarrow> bool" where
  "batch_manifest K log m \<longleftrightarrow> (\<exists>records e. from_log log records \<and> encode_records K records = Inr e \<and>
     manifest_from_encoded e (am_previous_manifest_hash m) = Inr m)"

definition manifests_from_log :: "archive_lib \<Rightarrow> session_log \<Rightarrow> archive_manifest set \<Rightarrow> ledger \<Rightarrow> bool" where
  "manifests_from_log K log M l \<longleftrightarrow> ledger_ok K l \<and>
     (\<forall>h m. lg_manifests l h = Some m \<longrightarrow> m \<in> M \<and> batch_manifest K log m)"

definition archived :: "ledger \<Rightarrow> source_session_id \<Rightarrow> u64 \<Rightarrow> bool" where
  "archived l session q \<longleftrightarrow> (\<exists>h m. lg_manifests l h = Some m \<and> am_source_session_id m = session \<and>
     am_first_collector_sequence m \<le> q \<and> q \<le> am_last_collector_sequence m)"

definition broadcast :: "session_log \<Rightarrow> digest set \<Rightarrow> source_session_id \<Rightarrow> u64 \<Rightarrow> bool" where
  "broadcast log d session q \<longleftrightarrow> (\<exists>y event. co_observation (log (session_bytes session) q) = Some y \<and>
     ob_observation_id y = observation_id_bytes event \<and> event \<in> d)"

definition covered_to :: "(source_session_id \<Rightarrow> u64 set) \<Rightarrow> (source_session_id \<Rightarrow> u64 \<Rightarrow> bool) \<Rightarrow> checkpoint_kind \<Rightarrow> (checkpoint_key \<rightharpoonup> u64) \<Rightarrow> bool" where
  "covered_to due have kind v \<longleftrightarrow> (\<forall>source session n q. v (kind, source, session) = Some n \<longrightarrow> q \<in> due session \<longrightarrow> q \<le> n \<longrightarrow> have session q)"

definition archive_behind :: "(checkpoint_key \<rightharpoonup> u64) \<Rightarrow> bool" where
  "archive_behind v \<longleftrightarrow> (\<forall>source session n. v (Archive, source, session) = Some n \<longrightarrow>
     (\<exists>k. v (Broker, source, session) = Some k \<and> n \<le> k))"

definition pipeline_ok ::
  "archive_lib \<Rightarrow> (string \<Rightarrow> bool) \<Rightarrow> session_log \<Rightarrow> (source_session_id \<Rightarrow> u64 set) \<Rightarrow> archive_manifest set \<Rightarrow>
   digest set \<Rightarrow> (string \<rightharpoonup> bytes) \<Rightarrow> ledger \<Rightarrow> (checkpoint_key \<rightharpoonup> u64) \<Rightarrow> bool" where
  "pipeline_ok K R log due M d objs l v \<longleftrightarrow> objects_from_log K R log objs \<and> manifests_from_log K log M l \<and>
     covered_to due (archived l) Archive v \<and> covered_to due (broadcast log d) Broker v \<and> archive_behind v"

text \<open>The sequences that are due are those of each session that have to be archived. A batch is in turn when it skips none
  of them: the due sequences below its first one are at or below the archive checkpoint of its source.\<close>

definition in_turn :: "(source_session_id \<Rightarrow> u64 set) \<Rightarrow> encoded_archive \<Rightarrow> (checkpoint_key \<rightharpoonup> u64) \<Rightarrow> bool" where
  "in_turn due e v \<longleftrightarrow> (\<forall>q \<in> due (ea_source_session_id e). q < ea_first_collector_sequence e \<longrightarrow>
     (\<exists>n. v (Archive, ea_source_id e, ea_source_session_id e) = Some n \<and> q \<le> n))"

lemma broadcast_mono: "broadcast log d session q \<Longrightarrow> d \<subseteq> d' \<Longrightarrow> broadcast log d' session q"
  by (auto simp: broadcast_def)

lemma pipeline_publish:
  assumes "pipeline_ok K R log due M d objs l v" "d \<subseteq> d'"
  shows "pipeline_ok K R log due M d' objs l v"
proof -
  have "covered_to due (broadcast log d') Broker v"
    using assms broadcast_mono unfolding pipeline_ok_def covered_to_def by meson
  then show ?thesis using assms(1) by (simp add: pipeline_ok_def)
qed

lemma pipeline_stage:
  assumes "pipeline_ok K R log due M d objs l v" "R (ea_object_key e)" "from_log log records" "encode_records K records = Inr e"
  shows "pipeline_ok K R log due M d (objs(ea_object_key e \<mapsto> ea_compressed_bytes e)) l v"
  using assms by (fastforce simp: pipeline_ok_def objects_from_log_def)

lemma pipeline_objects:
  assumes "pipeline_ok K R log due M d objs l v" "\<forall>k. raw_key k \<longrightarrow> objs' k = objs k"
  shows "pipeline_ok K R log due M d objs' l v"
  using assms by (auto simp: pipeline_ok_def objects_from_log_def)

lemma pipeline_commit:
  assumes "pipeline_ok K R log due M d objs l v" "extends_ledger K m l l'" "m \<in> M" "batch_manifest K log m"
  shows "pipeline_ok K R log due M d objs l' v"
proof -
  have "archived l' session q" if "archived l session q" for session q
    using that manifests_extend [OF assms(2)] unfolding archived_def by blast
  then have "covered_to due (archived l') Archive v"
    using assms(1) unfolding pipeline_ok_def covered_to_def by blast
  moreover have "m' \<in> M \<and> batch_manifest K log m'" if "lg_manifests l' h = Some m'" for h m'
    using that assms by (auto simp: extends_ledger_def pipeline_ok_def manifests_from_log_def split: if_splits)
  ultimately show ?thesis
    using assms(1) ledger_ok_extend [OF _ assms(2)] by (simp add: pipeline_ok_def manifests_from_log_def)
qed

text \<open>The sequences below a batch in turn are covered already.\<close>

lemma below_batch:
  assumes "in_turn due e v" "q \<in> due (ea_source_session_id e)" "q < ea_first_collector_sequence e"
  obtains n where "v (Archive, ea_source_id e, ea_source_session_id e) = Some n" "q \<le> n"
  using assms by (auto simp: in_turn_def)

lemma pipeline_advance_broker:
  assumes ok: "pipeline_ok K R log due M d objs l v" and turn: "in_turn due e v"
    and sent: "\<And>q. ea_first_collector_sequence e \<le> q \<Longrightarrow> q \<le> ea_last_collector_sequence e \<Longrightarrow> broadcast log d (ea_source_session_id e) q"
    and le: "\<forall>m. v (Broker, ea_source_id e, ea_source_session_id e) = Some m \<longrightarrow> m \<le> ea_last_collector_sequence e"
  shows "pipeline_ok K R log due M d objs l (v((Broker, ea_source_id e, ea_source_session_id e) \<mapsto> ea_last_collector_sequence e))"
proof -
  let ?key = "(Broker, ea_source_id e, ea_source_session_id e)" and ?n = "ea_last_collector_sequence e"
  have sub: "covered_to due (broadcast log d) Broker v" "archive_behind v" using ok by (simp_all add: pipeline_ok_def)
  have "broadcast log d (ea_source_session_id e) q" if q: "q \<in> due (ea_source_session_id e)" "q \<le> ?n" for q
  proof (cases "q < ea_first_collector_sequence e")
    case True
    obtain n where "v (Archive, ea_source_id e, ea_source_session_id e) = Some n" "q \<le> n"
      by (rule below_batch [OF turn q(1) True])
    moreover then obtain k where "v ?key = Some k" "n \<le> k" using sub(2) unfolding archive_behind_def by blast
    ultimately show ?thesis using sub(1) q(1) unfolding covered_to_def by (meson order.trans)
  qed (use q sent in simp)
  then have "covered_to due (broadcast log d) Broker (v(?key \<mapsto> ?n))"
    using sub(1) unfolding covered_to_def by (auto split: if_splits)
  moreover have "archive_behind (v(?key \<mapsto> ?n))"
    unfolding archive_behind_def
  proof (intro allI impI)
    fix source session n
    assume "(v(?key \<mapsto> ?n)) (Archive, source, session) = Some n"
    then have "v (Archive, source, session) = Some n" by simp
    then obtain k where "v (Broker, source, session) = Some k" "n \<le> k" using sub(2) unfolding archive_behind_def by blast
    then show "\<exists>k. (v(?key \<mapsto> ?n)) (Broker, source, session) = Some k \<and> n \<le> k" using le by (auto intro: order.trans)
  qed
  moreover have "covered_to due (archived l) Archive (v(?key \<mapsto> ?n))"
    using ok by (simp add: pipeline_ok_def covered_to_def)
  ultimately show ?thesis using ok by (simp add: pipeline_ok_def)
qed

lemma pipeline_advance_archive:
  assumes ok: "pipeline_ok K R log due M d objs l v" and turn: "in_turn due e v"
    and manifest: "lg_manifests l h = Some m" "am_source_session_id m = ea_source_session_id e"
      "am_first_collector_sequence m = ea_first_collector_sequence e" "am_last_collector_sequence m = ea_last_collector_sequence e"
    and broker: "v (Broker, ea_source_id e, ea_source_session_id e) = Some (ea_last_collector_sequence e)"
  shows "pipeline_ok K R log due M d objs l (v((Archive, ea_source_id e, ea_source_session_id e) \<mapsto> ea_last_collector_sequence e))"
proof -
  let ?key = "(Archive, ea_source_id e, ea_source_session_id e)" and ?n = "ea_last_collector_sequence e"
  have sub: "covered_to due (archived l) Archive v" using ok by (simp add: pipeline_ok_def)
  have "archived l (ea_source_session_id e) q" if q: "q \<in> due (ea_source_session_id e)" "q \<le> ?n" for q
  proof (cases "q < ea_first_collector_sequence e")
    case True
    obtain n where "v ?key = Some n" "q \<le> n" by (rule below_batch [OF turn q(1) True])
    then show ?thesis using sub q(1) unfolding covered_to_def by blast
  next
    case False
    then show ?thesis using manifest q(2) unfolding archived_def by (metis linorder_not_less)
  qed
  then have "covered_to due (archived l) Archive (v(?key \<mapsto> ?n))"
    using sub unfolding covered_to_def by (auto split: if_splits)
  moreover have "archive_behind (v(?key \<mapsto> ?n))" "covered_to due (broadcast log d) Broker (v(?key \<mapsto> ?n))"
    using ok broker by (simp_all add: pipeline_ok_def archive_behind_def covered_to_def)
  ultimately show ?thesis using ok by (simp add: pipeline_ok_def)
qed

section \<open>Runs of a pipeline\<close>

locale archive_pipeline =
  broker: broker_publisher enc delivered publish +
  archive: object_archive K ainv ledger_of committed_range stage verify commit latest objects readable +
  store: checkpoint_store cinv view load advance
  for enc :: "committed_observation \<Rightarrow> bytes" and delivered :: "'b \<Rightarrow> digest set" and publish
    and K :: archive_lib and ainv :: "'a \<Rightarrow> bool" and ledger_of committed_range stage verify commit latest objects readable
    and cinv :: "'c \<Rightarrow> bool" and view load advance
begin

abbreviation ports_of :: "('b, 'a, 'c) ports" where
  "ports_of \<equiv> \<lparr>po_publish = publish, po_committed_range = committed_range, po_stage = stage, po_verify = verify,
     po_commit_manifest = commit, po_latest_manifest_hash = latest, po_advance = advance\<rparr>"

definition state_ok :: "session_log \<Rightarrow> (source_session_id \<Rightarrow> u64 set) \<Rightarrow> archive_manifest set \<Rightarrow> ('b, 'a, 'c) coordinator \<Rightarrow> bool" where
  "state_ok log due M s \<longleftrightarrow> ainv (cd_archive s) \<and> cinv (cd_checkpoints s) \<and>
     pipeline_ok K readable log due M (delivered (cd_broker s)) (objects (cd_archive s)) (ledger_of (cd_archive s)) (view (cd_checkpoints s))"

text \<open>A batch is admitted when it is in turn and the manifest it is about to offer is among the expected ones.\<close>

definition admitted :: "(source_session_id \<Rightarrow> u64 set) \<Rightarrow> archive_manifest set \<Rightarrow> encoded_archive \<Rightarrow> ('b, 'a, 'c) coordinator \<Rightarrow> bool" where
  "admitted due M e s \<longleftrightarrow> in_turn due e (view (cd_checkpoints s)) \<and>
     (\<forall>m. manifest_from_encoded e (lg_heads (ledger_of (cd_archive s)) (ea_source_session_id e)) = Inr m \<longrightarrow> m \<in> M)"

text \<open>The triples of the calls.\<close>

lemma publish_triple:
  assumes e: "encode_records K records = Inr e" and log: "from_log log records"
  shows "io_triple (\<lambda>s. state_ok log due M s \<and> admitted due M e s) (on_broker (publish topic records))
    (\<lambda>ack s. (\<forall>q. ea_first_collector_sequence e \<le> q \<longrightarrow> q \<le> ea_last_collector_sequence e \<longrightarrow>
        broadcast log (delivered (cd_broker s)) (ea_source_session_id e) q) \<and>
      state_ok log due M s \<and> admitted due M e s) (state_ok log due M)"
proof -
  have "state_ok log due M s' \<and> admitted due M e s' = admitted due M e s \<and>
      (\<forall>ack. r = Inr ack \<longrightarrow> (\<forall>q. ea_first_collector_sequence e \<le> q \<longrightarrow> q \<le> ea_last_collector_sequence e \<longrightarrow>
        broadcast log (delivered (cd_broker s')) (ea_source_session_id e) q))"
    if s: "state_ok log due M s" and run: "on_broker (publish topic records) s = (r, s')" for s s' r
  proof -
    obtain r1 b where 1: "publish topic records (cd_broker s) = (r1, b)" by fastforce
    with run have s': "s' = s\<lparr>cd_broker := b\<rparr>" "r = map_sum WriterBroker id r1" by (auto simp: on_broker_def)
    have "state_ok log due M s'"
      using s broker.publish_result [OF 1] pipeline_publish by (auto simp: state_ok_def s'(1))
    moreover have "broadcast log (delivered b) (ea_source_session_id e) q"
      if ack: "r = Inr ack" and q: "ea_first_collector_sequence e \<le> q" "q \<le> ea_last_collector_sequence e" for ack q
    proof -
      have "r1 = Inr ack" using ack s'(2) by (cases r1) auto
      moreover have "log (session_bytes (ea_source_session_id e)) q \<in> set records"
      proof -
        have "unat q \<in> set [unat (ea_first_collector_sequence e)..<Suc (unat (ea_last_collector_sequence e))]"
          using q by (auto simp: word_le_nat_alt)
        then show ?thesis by (subst encode_records_range(1) [OF e log]) (force simp del: upt_Suc)
      qed
      ultimately show ?thesis using broker.publish_acknowledged(3) [of topic records "cd_broker s" ack b] 1
        unfolding broadcast_def by blast
    qed
    ultimately show ?thesis by (simp add: s'(1) admitted_def)
  qed
  then show ?thesis by (intro io_tripleI) (metis+)
qed

definition ready :: "session_log \<Rightarrow> (source_session_id \<Rightarrow> u64 set) \<Rightarrow> archive_manifest set \<Rightarrow> encoded_archive \<Rightarrow> ('b, 'a, 'c) coordinator \<Rightarrow> bool" where
  "ready log due M e s \<longleftrightarrow> state_ok log due M s \<and> admitted due M e s \<and>
     view (cd_checkpoints s) (Broker, ea_source_id e, ea_source_session_id e) = Some (ea_last_collector_sequence e)"

lemma advance_broker_triple:
  "io_triple (\<lambda>s. (\<forall>q. ea_first_collector_sequence e \<le> q \<longrightarrow> q \<le> ea_last_collector_sequence e \<longrightarrow>
        broadcast log (delivered (cd_broker s)) (ea_source_session_id e) q) \<and>
      state_ok log due M s \<and> admitted due M e s)
    (on_checkpoints (advance Broker (ea_source_id e)
       \<lparr>dc_source_session_id = ea_source_session_id e, dc_last_collector_sequence = ea_last_collector_sequence e\<rparr>))
    (\<lambda>_. ready log due M e) (state_ok log due M)"
proof -
  let ?cp = "\<lparr>dc_source_session_id = ea_source_session_id e, dc_last_collector_sequence = ea_last_collector_sequence e\<rparr>"
  let ?key = "(Broker, ea_source_id e, ea_source_session_id e)" and ?n = "ea_last_collector_sequence e"
  have "state_ok log due M s' \<and> (\<forall>x. r = Inr x \<longrightarrow> ready log due M e s')"
    if sent: "\<forall>q. ea_first_collector_sequence e \<le> q \<longrightarrow> q \<le> ?n \<longrightarrow> broadcast log (delivered (cd_broker s)) (ea_source_session_id e) q"
      and s: "state_ok log due M s" "admitted due M e s"
      and run: "on_checkpoints (advance Broker (ea_source_id e) ?cp) s = (r, s')" for s s' r
  proof -
    obtain r1 c where 1: "advance Broker (ea_source_id e) ?cp (cd_checkpoints s) = (r1, c)" by fastforce
    with run have s': "s' = s\<lparr>cd_checkpoints := c\<rparr>" "r = map_sum WriterCheckpoint id r1" by (auto simp: on_checkpoints_def)
    have inv: "ainv (cd_archive s)" "cinv (cd_checkpoints s)" "pipeline_ok K readable log due M (delivered (cd_broker s)) (objects (cd_archive s))
        (ledger_of (cd_archive s)) (view (cd_checkpoints s))" using s(1) by (simp_all add: state_ok_def)
    note adv = store.advance_result [OF inv(2) 1, of ?key ?n, simplified]
    have up: "pipeline_ok K readable log due M (delivered (cd_broker s)) (objects (cd_archive s)) (ledger_of (cd_archive s))
        ((view (cd_checkpoints s))(?key \<mapsto> ?n))" if "\<forall>m. view (cd_checkpoints s) ?key = Some m \<longrightarrow> m \<le> ?n"
      using pipeline_advance_broker [OF inv(3) _ _ that] s(2) sent unfolding admitted_def by blast
    have "state_ok log due M s'" using adv up inv by (auto simp: state_ok_def s'(1))
    moreover have "in_turn due e ((view (cd_checkpoints s))(?key \<mapsto> ?n))" using s(2) by (simp add: in_turn_def admitted_def)
    ultimately show ?thesis using adv s'(2) s(2) by (cases r1) (auto simp: ready_def admitted_def s'(1))
  qed
  then show ?thesis by (intro io_tripleI) (metis+)
qed

text \<open>A call of the archive that keeps the ledger and adds no raw object but the one of the batch.\<close>

lemma archive_call:
  assumes "ready log due M e s" "on_archive m s = (r, s')" "from_log log records" "encode_records K records = Inr e"
    "\<And>r' a. m (cd_archive s) = (r', a) \<Longrightarrow> ainv a \<and> ledger_of a = ledger_of (cd_archive s) \<and>
       (objects a = objects (cd_archive s) \<or> readable (ea_object_key e) \<and> objects a = (objects (cd_archive s))(ea_object_key e \<mapsto> ea_compressed_bytes e))"
  shows "ready log due M e s' \<and> ledger_of (cd_archive s') = ledger_of (cd_archive s) \<and>
    (\<forall>x. r = Inr x \<longrightarrow> m (cd_archive s) = (Inr x, cd_archive s'))"
proof -
  obtain r1 a where 1: "m (cd_archive s) = (r1, a)" by fastforce
  with assms(2) have s': "s' = s\<lparr>cd_archive := a\<rparr>" "r = map_sum WriterArchive id r1" by (auto simp: on_archive_def)
  have ok: "pipeline_ok K readable log due M (delivered (cd_broker s)) (objects (cd_archive s)) (ledger_of (cd_archive s)) (view (cd_checkpoints s))"
    using assms(1) by (simp add: ready_def state_ok_def)
  have "pipeline_ok K readable log due M (delivered (cd_broker s)) (objects a) (ledger_of a) (view (cd_checkpoints s))"
    using assms(5) [OF 1] ok pipeline_stage [OF ok _ assms(3,4)] by auto
  then have "ready log due M e s'" using assms(1) assms(5) [OF 1] by (simp add: ready_def state_ok_def admitted_def s'(1))
  then show ?thesis using 1 s' assms(5) [OF 1] by (cases r1) auto
qed

lemma ready_ok: "ready log due M e s \<Longrightarrow> state_ok log due M s"
  by (simp add: ready_def)

lemma ready_ainv: "ready log due M e s \<Longrightarrow> ainv (cd_archive s)"
  by (simp add: ready_def state_ok_def)

definition recorded :: "encoded_archive \<Rightarrow> manifest_ack \<Rightarrow> ('b, 'a, 'c) coordinator \<Rightarrow> bool" where
  "recorded e ack s \<longleftrightarrow> ma_last_collector_sequence ack = ea_last_collector_sequence e \<and>
     (\<exists>h m. lg_manifests (ledger_of (cd_archive s)) h = Some m \<and> am_source_session_id m = ea_source_session_id e \<and>
       am_first_collector_sequence m = ea_first_collector_sequence e \<and> am_last_collector_sequence m = ea_last_collector_sequence e)"

lemma committed_range_triple:
  assumes "from_log log records" "encode_records K records = Inr e"
  shows "io_triple (ready log due M e) (on_archive (committed_range (ea_source_session_id e) (ea_first_collector_sequence e)
       (ea_last_collector_sequence e) sha))
    (\<lambda>found s. ready log due M e s \<and> (\<forall>ack. found = Some ack \<longrightarrow> recorded e ack s)) (state_ok log due M)"
proof -
  let ?m = "committed_range (ea_source_session_id e) (ea_first_collector_sequence e) (ea_last_collector_sequence e) sha"
  have "ready log due M e s' \<and> (\<forall>found ack. r = Inr found \<longrightarrow> found = Some ack \<longrightarrow> recorded e ack s')"
    if s: "ready log due M e s" and run: "on_archive ?m s = (r, s')" for s s' r
  proof -
    note inv = ready_ainv [OF s]
    have c: "ready log due M e s' \<and> ledger_of (cd_archive s') = ledger_of (cd_archive s) \<and>
        (\<forall>x. r = Inr x \<longrightarrow> ?m (cd_archive s) = (Inr x, cd_archive s'))"
      by (rule archive_call [OF s run assms]) (use archive.committed_range_result [OF inv] archive.committed_range_objects [OF inv] in blast)
    have "recorded e ack s'" if "r = Inr (Some ack)" for ack
      using archive.committed_range_result [OF inv] c that unfolding recorded_def by metis
    then show ?thesis using c by blast
  qed
  then show ?thesis using ready_ok by (intro io_tripleI) (metis+)
qed

lemma latest_triple:
  assumes "from_log log records" "encode_records K records = Inr e"
  shows "io_triple (ready log due M e) (on_archive (latest (ea_source_session_id e)))
    (\<lambda>h s. (\<forall>m. manifest_from_encoded e h = Inr m \<longrightarrow> m \<in> M) \<and> ready log due M e s) (state_ok log due M)"
proof -
  have "ready log due M e s' \<and> (\<forall>h. r = Inr h \<longrightarrow> (\<forall>m. manifest_from_encoded e h = Inr m \<longrightarrow> m \<in> M))"
    if s: "ready log due M e s" and run: "on_archive (latest (ea_source_session_id e)) s = (r, s')" for s s' r
  proof -
    note inv = ready_ainv [OF s]
    have "ready log due M e s' \<and> ledger_of (cd_archive s') = ledger_of (cd_archive s) \<and>
        (\<forall>x. r = Inr x \<longrightarrow> latest (ea_source_session_id e) (cd_archive s) = (Inr x, cd_archive s'))"
      by (rule archive_call [OF s run assms]) (use archive.latest_result [OF inv] archive.latest_objects [OF inv] in blast)
    moreover have "\<forall>m. manifest_from_encoded e (lg_heads (ledger_of (cd_archive s)) (ea_source_session_id e)) = Inr m \<longrightarrow> m \<in> M"
      using s by (simp add: ready_def admitted_def)
    ultimately show ?thesis using archive.latest_result [OF inv] by metis
  qed
  then show ?thesis using ready_ok by (intro io_tripleI) (metis+)
qed

lemma stage_triple:
  assumes "from_log log records" "encode_records K records = Inr e"
  shows "io_triple (ready log due M e) (on_archive (stage e)) (\<lambda>_. ready log due M e) (state_ok log due M)"
proof -
  have "ready log due M e s'" if s: "ready log due M e s" and run: "on_archive (stage e) s = (r, s')" for s s' r
    using archive_call [OF s run assms] archive.stage_ledger [OF ready_ainv [OF s]] archive.stage_objects [OF ready_ainv [OF s]] by blast
  then show ?thesis using ready_ok by (intro io_tripleI) (metis+)
qed

lemma verify_triple:
  assumes "from_log log records" "encode_records K records = Inr e"
  shows "io_triple (ready log due M e) (on_archive (verify ob)) (\<lambda>_. ready log due M e) (state_ok log due M)"
proof -
  have "ready log due M e s'" if s: "ready log due M e s" and run: "on_archive (verify ob) s = (r, s')" for s s' r
    using archive_call [OF s run assms] archive.verify_ledger [OF ready_ainv [OF s]] archive.verify_objects [OF ready_ainv [OF s]] by blast
  then show ?thesis using ready_ok by (intro io_tripleI) (metis+)
qed

lemma commit_manifest_triple:
  assumes log: "from_log log records" "encode_records K records = Inr e" and inj: "inj_on (manifest_hash K) M"
    and m: "manifest_from_encoded e h = Inr m" "m \<in> M"
  shows "io_triple (ready log due M e) (on_archive (commit m))
    (\<lambda>ack s. state_ok log due M s \<and> in_turn due e (view (cd_checkpoints s)) \<and> recorded e ack s \<and>
      view (cd_checkpoints s) (Broker, ea_source_id e, ea_source_session_id e) = Some (ea_last_collector_sequence e)) (state_ok log due M)"
proof -
  note fields = manifest_from_encoded_fields [OF m(1)]
  have range: "range_ok m" using encode_records_range(2) [OF log(2,1)] by (simp add: range_ok_def fields)
  have batch: "batch_manifest K log m" using log m(1) by (auto simp: batch_manifest_def fields(4))
  have "state_ok log due M s' \<and> cd_checkpoints s' = cd_checkpoints s \<and> (\<forall>ack. r = Inr ack \<longrightarrow> recorded e ack s')"
    if s: "ready log due M e s" and run: "on_archive (commit m) s = (r, s')" for s s' r
  proof -
    note inv = ready_ainv [OF s]
    obtain r1 a where 1: "commit m (cd_archive s) = (r1, a)" by fastforce
    with run have s': "s' = s\<lparr>cd_archive := a\<rparr>" "r = map_sum WriterArchive id r1" by (auto simp: on_archive_def)
    have ok: "pipeline_ok K readable log due M (delivered (cd_broker s)) (objects (cd_archive s)) (ledger_of (cd_archive s)) (view (cd_checkpoints s))"
      using s by (simp add: ready_def state_ok_def)
    note led = archive.commit_ledger [OF inv range 1]
    have "pipeline_ok K readable log due M (delivered (cd_broker s)) (objects (cd_archive s)) (ledger_of a) (view (cd_checkpoints s))"
      using led ok pipeline_commit [OF ok _ m(2) batch] by auto
    then have "pipeline_ok K readable log due M (delivered (cd_broker s)) (objects a) (ledger_of a) (view (cd_checkpoints s))"
      by (rule pipeline_objects) (use archive.commit_objects [OF inv 1] in blast)
    then have kept: "state_ok log due M s'" using s led by (simp add: state_ok_def ready_def s'(1))
    have same: "x = m" if "manifest_hash K m = Inr g" "lg_manifests (ledger_of (cd_archive s)) g = Some x" for g x
      using ok that m(2) inj unfolding pipeline_ok_def manifests_from_log_def ledger_ok_def by (metis inj_onD)
    have "recorded e ack s'" if ack: "r = Inr ack" for ack
    proof -
      have "commit m (cd_archive s) = (Inr ack, a)" using 1 ack s'(2) by (cases r1) auto
      then have "ma_last_collector_sequence ack = am_last_collector_sequence m \<and> lg_manifests (ledger_of a) (ma_manifest_hash ack) = Some m"
        using archive.commit_acknowledged [OF inv range] same by blast
      then show ?thesis using fields(1-3) by (auto simp: recorded_def s'(1))
    qed
    then show ?thesis using kept by (simp add: s'(1))
  qed
  note step = this
  show ?thesis
  proof (rule io_tripleI)
    fix s s' ack
    assume s: "ready log due M e s" and run: "on_archive (commit m) s = (Inr ack, s')"
    then show "state_ok log due M s' \<and> in_turn due e (view (cd_checkpoints s')) \<and> recorded e ack s' \<and>
        view (cd_checkpoints s') (Broker, ea_source_id e, ea_source_session_id e) = Some (ea_last_collector_sequence e)"
      using step [OF s run] by (simp add: ready_def admitted_def)
  qed (use step in blast)
qed

text \<open>The archive checkpoint is advanced from a recorded manifest.\<close>

definition covered :: "encoded_archive \<Rightarrow> ('b, 'a, 'c) coordinator \<Rightarrow> bool" where
  "covered e s \<longleftrightarrow> (\<forall>kind. view (cd_checkpoints s) (kind, ea_source_id e, ea_source_session_id e) = Some (ea_last_collector_sequence e))"

lemma advance_archive_triple:
  "io_triple (\<lambda>s. state_ok log due M s \<and> in_turn due e (view (cd_checkpoints s)) \<and> recorded e mack s \<and>
      view (cd_checkpoints s) (Broker, ea_source_id e, ea_source_session_id e) = Some (ea_last_collector_sequence e))
    (advance_archive ports_of e ack mack) (\<lambda>out s. state_ok log due M s \<and> covered e s) (state_ok log due M)"
proof -
  let ?key = "(Archive, ea_source_id e, ea_source_session_id e)" and ?n = "ea_last_collector_sequence e"
  have "state_ok log due M s' \<and> (\<forall>out. r = Inr out \<longrightarrow> covered e s')"
    if s: "state_ok log due M s" "in_turn due e (view (cd_checkpoints s))" "recorded e mack s"
        "view (cd_checkpoints s) (Broker, ea_source_id e, ea_source_session_id e) = Some ?n"
      and run: "advance_archive ports_of e ack mack s = (r, s')" for s s' r
  proof -
    let ?cp = "\<lparr>dc_source_session_id = ea_source_session_id e, dc_last_collector_sequence = ?n\<rparr>"
    obtain r1 c where 1: "advance Archive (ea_source_id e) ?cp (cd_checkpoints s) = (r1, c)" by fastforce
    have s': "s' = s\<lparr>cd_checkpoints := c\<rparr>" "(\<exists>out. r = Inr out) \<longleftrightarrow> (\<exists>x. r1 = Inr x)"
      using run 1 s(3) by (cases r1; auto simp: advance_archive_def io_bind_def on_checkpoints_def recorded_def)+
    have inv: "cinv (cd_checkpoints s)" "pipeline_ok K readable log due M (delivered (cd_broker s)) (objects (cd_archive s))
        (ledger_of (cd_archive s)) (view (cd_checkpoints s))" using s(1) by (simp_all add: state_ok_def)
    note adv = store.advance_result [OF inv(1) 1, of ?key ?n, simplified]
    have "pipeline_ok K readable log due M (delivered (cd_broker s)) (objects (cd_archive s)) (ledger_of (cd_archive s)) ((view (cd_checkpoints s))(?key \<mapsto> ?n))"
      using s(3) pipeline_advance_archive [OF inv(2) s(2) _ _ _ _ s(4)] unfolding recorded_def by blast
    then have "state_ok log due M s'" using s(1) adv inv(2) by (auto simp: state_ok_def s'(1))
    moreover have "covered e s'" if "r = Inr out" for out
    proof -
      have "view c = (view (cd_checkpoints s))(?key \<mapsto> ?n)" using adv s'(2) that by blast
      then have "view c (kind, ea_source_id e, ea_source_session_id e) = Some ?n" for kind using s(4) by (cases kind) simp_all
      then show ?thesis by (simp add: covered_def s'(1))
    qed
    ultimately show ?thesis by blast
  qed
  then show ?thesis by (intro io_tripleI) (metis+)
qed

lemma archive_object_triple:
  assumes log: "from_log log records" "encode_records K records = Inr e" and inj: "inj_on (manifest_hash K) M"
  shows "io_triple (ready log due M e) (archive_object ports_of e ack) (\<lambda>out s. state_ok log due M s \<and> covered e s) (state_ok log due M)"
  unfolding archive_object_def ports.simps
proof (rule io_triple_bind [OF latest_triple [OF log]], rule io_triple_pre)
  fix previous
  assume M: "\<forall>m. manifest_from_encoded e previous = Inr m \<longrightarrow> m \<in> M"
  show "io_triple (ready log due M e) (io_bind (io_result (map_sum WriterManifest id (manifest_from_encoded e previous))) (\<lambda>m.
      io_bind (on_archive (stage e)) (\<lambda>staged. io_bind (on_archive (verify staged)) (\<lambda>_.
      io_bind (on_archive (commit m)) (advance_archive ports_of e ack))))) (\<lambda>out s. state_ok log due M s \<and> covered e s) (state_ok log due M)"
  proof (cases "manifest_from_encoded e previous")
    case (Inl x)
    then show ?thesis by (auto simp: io_triple_def io_bind_def intro: ready_ok)
  next
    case (Inr m)
    have "io_triple (ready log due M e) (io_bind (on_archive (stage e)) (\<lambda>staged. io_bind (on_archive (verify staged)) (\<lambda>_.
      io_bind (on_archive (commit m)) (advance_archive ports_of e ack)))) (\<lambda>out s. state_ok log due M s \<and> covered e s) (state_ok log due M)"
      using M Inr by (intro io_triple_bind [OF stage_triple [OF log]] io_triple_bind [OF verify_triple [OF log]]
          io_triple_bind [OF commit_manifest_triple [OF log inj Inr]] advance_archive_triple) blast
    then show ?thesis using Inr by (simp add: io_triple_def io_bind_def)
  qed
qed

text \<open>A call keeps the invariant on every outcome, and a call that succeeds leaves both checkpoints at the
  last sequence of its batch.\<close>

lemma publish_and_archive_triple:
  assumes log: "from_log log records" "encode_records K records = Inr e" and inj: "inj_on (manifest_hash K) M"
  shows "io_triple (\<lambda>s. state_ok log due M s \<and> admitted due M e s) (publish_and_archive K ports_of records)
    (\<lambda>out s. state_ok log due M s \<and> covered e s) (state_ok log due M)"
proof -
  have found: "io_triple (\<lambda>s. ready log due M e s \<and> (\<forall>mack. found = Some mack \<longrightarrow> recorded e mack s))
      (case found of Some mack \<Rightarrow> advance_archive ports_of e ack mack | None \<Rightarrow> archive_object ports_of e ack)
      (\<lambda>out s. state_ok log due M s \<and> covered e s) (state_ok log due M)" for found ack
  proof (cases found)
    case None
    then show ?thesis using archive_object_triple [OF log inj] by simp
  next
    case (Some mack)
    then show ?thesis
      unfolding Some option.case by (rule_tac io_triple_weaken [OF advance_archive_triple]) (auto simp: ready_def admitted_def)
  qed
  let ?sent = "\<lambda>s. (\<forall>q. ea_first_collector_sequence e \<le> q \<longrightarrow> q \<le> ea_last_collector_sequence e \<longrightarrow>
        broadcast log (delivered (cd_broker s)) (ea_source_session_id e) q) \<and> state_ok log due M s \<and> admitted due M e s"
  have acked: "io_triple ?sent
     (if ack_source_session_id ack \<noteq> ea_source_session_id e \<or> ack_last_collector_sequence ack \<noteq> ea_last_collector_sequence e
     then io_result (Inl BrokerAckMismatch)
     else io_bind (on_checkpoints (advance Broker (ea_source_id e)
         \<lparr>dc_source_session_id = ea_source_session_id e, dc_last_collector_sequence = ack_last_collector_sequence ack\<rparr>)) (\<lambda>_.
       io_bind (on_archive (committed_range (ea_source_session_id e) (ea_first_collector_sequence e)
         (ea_last_collector_sequence e) (ea_object_sha256 e))) (\<lambda>found.
       case found of Some manifest \<Rightarrow> advance_archive ports_of e ack manifest | None \<Rightarrow> archive_object ports_of e ack)))
      (\<lambda>out s. state_ok log due M s \<and> covered e s) (state_ok log due M)" for ack
    by (cases "ack_source_session_id ack = ea_source_session_id e \<and> ack_last_collector_sequence ack = ea_last_collector_sequence e")
      (auto intro!: io_triple_bind [OF advance_broker_triple] io_triple_bind [OF committed_range_triple [OF log]] found io_triple_result)
  have "io_triple (\<lambda>s. state_ok log due M s \<and> admitted due M e s) (io_result (map_sum WriterFormat id (encode_records K records)))
      (\<lambda>e' s. e' = e \<and> state_ok log due M s \<and> admitted due M e s) (state_ok log due M)"
    by (simp add: log(2) io_triple_def)
  then show ?thesis
    unfolding publish_and_archive_def ports.simps
    by (rule io_triple_bind) (rule io_triple_pre, hypsubst, rule io_triple_bind [OF publish_triple [OF log(2,1)] acked])
qed

text \<open>On every outcome a call leaves the ledger as it is or extends it by one manifest, for the range of its batch.\<close>

definition ledger_is :: "ledger \<Rightarrow> ('b, 'a, 'c) coordinator \<Rightarrow> bool" where
  "ledger_is l s \<longleftrightarrow> ainv (cd_archive s) \<and> ledger_of (cd_archive s) = l"

definition ledger_after :: "encoded_archive \<Rightarrow> ledger \<Rightarrow> ('b, 'a, 'c) coordinator \<Rightarrow> bool" where
  "ledger_after e l s \<longleftrightarrow> ledger_of (cd_archive s) = l \<or> (\<exists>m. extends_ledger K m l (ledger_of (cd_archive s)) \<and>
     am_source_session_id m = ea_source_session_id e \<and> am_first_collector_sequence m = ea_first_collector_sequence e \<and>
     am_last_collector_sequence m = ea_last_collector_sequence e)"

lemma ledger_is_after: "ledger_is l s \<Longrightarrow> ledger_after e l s"
  by (simp add: ledger_is_def ledger_after_def)

lemma ledger_kept:
  "io_triple (ledger_is l) (on_broker m1) (\<lambda>_. ledger_is l) (ledger_after e l)"
  "io_triple (ledger_is l) (on_checkpoints m2) (\<lambda>_. ledger_is l) (ledger_after e l)"
  "io_triple (ledger_is l) (io_result r) (\<lambda>_. ledger_is l) (ledger_after e l)"
  by (auto intro!: io_tripleI simp: on_broker_def on_checkpoints_def ledger_is_def ledger_after_def io_result_def split: prod.splits)

lemma ledger_read:
  assumes "\<And>a r a'. ainv a \<Longrightarrow> m a = (r, a') \<Longrightarrow> ainv a' \<and> ledger_of a' = ledger_of a"
  shows "io_triple (ledger_is l) (on_archive m) (\<lambda>_. ledger_is l) (ledger_after e l)"
  using assms by (fastforce intro!: io_tripleI simp: on_archive_def ledger_is_def ledger_after_def split: prod.splits)

lemma ledger_commit:
  assumes "manifest_from_encoded e h = Inr m" "ea_first_collector_sequence e \<le> ea_last_collector_sequence e"
  shows "io_triple (ledger_is l) (on_archive (commit m)) (\<lambda>_. ledger_after e l) (ledger_after e l)"
proof -
  note fields = manifest_from_encoded_fields [OF assms(1)]
  have "range_ok m" using assms(2) by (simp add: range_ok_def fields)
  then show ?thesis using archive.commit_ledger fields(1-3)
    by (fastforce intro!: io_tripleI simp: on_archive_def ledger_is_def ledger_after_def split: prod.splits)
qed

lemma ledger_advance: "io_triple (ledger_after e l) (advance_archive ports_of e ack mack) (\<lambda>_. ledger_after e l) (ledger_after e l)"
  by (auto intro!: io_tripleI simp: advance_archive_def io_bind_def on_checkpoints_def ledger_after_def split: prod.splits sum.splits)

lemma publish_and_archive_ledger:
  assumes "encode_records K records = Inr e" "from_log log records"
  shows "io_triple (ledger_is l) (publish_and_archive K ports_of records) (\<lambda>_. ledger_after e l) (ledger_after e l)"
proof -
  have read: "io_triple (ledger_is l) (on_archive (latest session)) (\<lambda>_. ledger_is l) (ledger_after e l)"
    "io_triple (ledger_is l) (on_archive (committed_range session fs ls sha)) (\<lambda>_. ledger_is l) (ledger_after e l)"
    "io_triple (ledger_is l) (on_archive (stage e)) (\<lambda>_. ledger_is l) (ledger_after e l)"
    "io_triple (ledger_is l) (on_archive (verify ob)) (\<lambda>_. ledger_is l) (ledger_after e l)" for session fs ls sha ob
    by (rule ledger_read; use archive.latest_result archive.committed_range_result archive.stage_ledger archive.verify_ledger in blast)+
  have object: "io_triple (ledger_is l) (archive_object ports_of e ack) (\<lambda>_. ledger_after e l) (ledger_after e l)" for ack
    unfolding archive_object_def ports.simps
  proof (rule io_triple_bind [OF read(1)])
    fix previous
    show "io_triple (ledger_is l) (io_bind (io_result (map_sum WriterManifest id (manifest_from_encoded e previous))) (\<lambda>m.
        io_bind (on_archive (stage e)) (\<lambda>staged. io_bind (on_archive (verify staged)) (\<lambda>_.
        io_bind (on_archive (commit m)) (advance_archive ports_of e ack))))) (\<lambda>_. ledger_after e l) (ledger_after e l)"
    proof (cases "manifest_from_encoded e previous")
      case (Inl x)
      then show ?thesis by (auto simp: io_triple_def io_bind_def intro: ledger_is_after)
    next
      case (Inr m)
      have "io_triple (ledger_is l) (io_bind (on_archive (stage e)) (\<lambda>staged. io_bind (on_archive (verify staged)) (\<lambda>_.
          io_bind (on_archive (commit m)) (advance_archive ports_of e ack)))) (\<lambda>_. ledger_after e l) (ledger_after e l)"
        by (intro io_triple_bind [OF read(3)] io_triple_bind [OF read(4)] io_triple_bind [OF ledger_commit [OF Inr]]
            ledger_advance encode_records_range(2) [OF assms])
      then show ?thesis using Inr by (simp add: io_triple_def io_bind_def)
    qed
  qed
  have advance: "io_triple (ledger_is l) (advance_archive ports_of e ack mack) (\<lambda>_. ledger_after e l) (ledger_after e l)" for ack mack
    by (rule io_triple_weaken [OF ledger_advance]) (auto intro: ledger_is_after)
  have found: "io_triple (ledger_is l) (case found of Some mack \<Rightarrow> advance_archive ports_of e ack mack | None \<Rightarrow> archive_object ports_of e ack)
      (\<lambda>_. ledger_after e l) (ledger_after e l)" for found ack
    using object advance by (cases found) simp_all
  have refused: "io_triple (ledger_is l) (io_result (Inl err)) (\<lambda>_. ledger_after e l) (ledger_after e l)" for err :: archive_writer_error
    by (auto simp: io_triple_def intro: ledger_is_after)
  have "io_triple (ledger_is l) (io_bind (on_broker (publish RAW_BITCOIN_OBSERVATION_TOPIC records)) (\<lambda>ack.
     if ack_source_session_id ack \<noteq> ea_source_session_id e \<or> ack_last_collector_sequence ack \<noteq> ea_last_collector_sequence e
     then io_result (Inl BrokerAckMismatch)
     else io_bind (on_checkpoints (advance Broker (ea_source_id e)
         \<lparr>dc_source_session_id = ea_source_session_id e, dc_last_collector_sequence = ack_last_collector_sequence ack\<rparr>)) (\<lambda>_.
       io_bind (on_archive (committed_range (ea_source_session_id e) (ea_first_collector_sequence e)
         (ea_last_collector_sequence e) (ea_object_sha256 e))) (\<lambda>found.
       case found of Some manifest \<Rightarrow> advance_archive ports_of e ack manifest | None \<Rightarrow> archive_object ports_of e ack))))
     (\<lambda>_. ledger_after e l) (ledger_after e l)"
    by (rule io_triple_bind [OF ledger_kept(1)])
      (auto intro!: refused io_triple_bind [OF ledger_kept(2)] io_triple_bind [OF read(2)] found)
  then show ?thesis unfolding publish_and_archive_def ports.simps by (simp add: assms(1) io_triple_def io_bind_def)
qed

end

end
