(* ===== verification/Archive_Runs.thy ===== *)
theory Archive_Runs
  imports Archive_Writer
begin

text \<open>
  The archive writer over the production adapters: the Kafka producer, the S3 archive with its manifest
  tables, and the Postgres checkpoints. A run is a sequence of calls of \<open>publish_and_archive\<close>, each with
  its own failures of the three services, on batches of one log; what holds in every state of a run is
  carried over from the contracts of the ports.
\<close>

section \<open>The production stack\<close>

type_synonym archive_stack = "(redpanda_broker, s3_archive, pg_store) coordinator"

definition stack_ports :: "archive_lib \<Rightarrow> store_lib \<Rightarrow> (redpanda_broker, s3_archive, pg_store) ports" where
  "stack_ports K S = \<lparr>po_publish = redpanda_publish (lib_encode K), po_committed_range = s3_committed_range,
     po_stage = s3_stage K S, po_verify = s3_verify K S, po_commit_manifest = s3_commit_manifest K S,
     po_latest_manifest_hash = s3_latest, po_advance = pg_advance\<rparr>"

definition new_stack :: archive_stack where
  "new_stack = \<lparr>cd_broker = \<lparr>rp_log = [], rp_io = []\<rparr>,
     cd_archive = \<lparr>s3_objects = fmempty, s3_manifests = fmempty, s3_heads = fmempty, s3_io = []\<rparr>,
     cd_checkpoints = \<lparr>pg_rows = fmempty, pg_io = []\<rparr>\<rparr>"

text \<open>The answers of the services to the calls to come.\<close>

definition with_answers :: "io_answer list \<Rightarrow> io_answer list \<Rightarrow> io_answer list \<Rightarrow> archive_stack \<Rightarrow> archive_stack" where
  "with_answers br ar cp s = \<lparr>cd_broker = (cd_broker s)\<lparr>rp_io := br\<rparr>, cd_archive = (cd_archive s)\<lparr>s3_io := ar\<rparr>,
     cd_checkpoints = (cd_checkpoints s)\<lparr>pg_io := cp\<rparr>\<rparr>"

text \<open>The batches of a run come from the log; nothing is asked of their order. \<open>hist\<close> has the batches submitted so far, each
  with the checkpoints at its submission. The manifests offered along a run are in \<open>M\<close>.\<close>

type_synonym submissions = "(encoded_archive \<times> (checkpoint_key \<rightharpoonup> u64)) list"

definition expected_manifest :: "archive_manifest set \<Rightarrow> archive_stack \<Rightarrow> encoded_archive \<Rightarrow> bool" where
  "expected_manifest M s e \<longleftrightarrow>
     (case manifest_from_encoded e (lg_heads (s3_ledger (cd_archive s)) (ea_source_session_id e)) of Inl _ \<Rightarrow> True | Inr m \<Rightarrow> m \<in> M)"

inductive stack_run :: "archive_lib \<Rightarrow> store_lib \<Rightarrow> session_log \<Rightarrow> archive_manifest set \<Rightarrow> submissions \<Rightarrow> archive_stack \<Rightarrow> bool"
  for K S log M where
  new: "stack_run K S log M [] new_stack"
| batch: "stack_run K S log M hist s \<Longrightarrow> from_log log records \<Longrightarrow> encode_records K records = Inr e \<Longrightarrow> expected_manifest M s e \<Longrightarrow>
    publish_and_archive K (stack_ports K S) records (with_answers br ar cp s) = (r, s') \<Longrightarrow>
    stack_run K S log M (hist @ [(e, pg_view (cd_checkpoints s))]) s'"
| malformed: "stack_run K S log M hist s \<Longrightarrow> encode_records K records = Inl err \<Longrightarrow>
    publish_and_archive K (stack_ports K S) records (with_answers br ar cp s) = (r, s') \<Longrightarrow> stack_run K S log M hist s'"

text \<open>The batches of a run were submitted in turn: none of them skips a due sequence of its session.\<close>

definition submitted_in_turn :: "(source_session_id \<Rightarrow> u64 set) \<Rightarrow> submissions \<Rightarrow> bool" where
  "submitted_in_turn due hist \<longleftrightarrow> (\<forall>(e, v) \<in> set hist. in_turn due e v)"

lemma submitted_in_turn_none: "submitted_in_turn (\<lambda>_. {}) hist"
  by (auto simp: submitted_in_turn_def in_turn_def)

interpretation stack: archive_pipeline "lib_encode K" redpanda_delivered "redpanda_publish (lib_encode K)" K "s3_ok K" s3_ledger
  s3_committed_range "s3_stage K S" "s3_verify K S" "s3_commit_manifest K S" s3_latest "\<lambda>s. fmlookup (s3_objects s)"
  "\<lambda>k. sl_path_error S k = None" pg_ok pg_view pg_load pg_advance for K S
  by unfold_locales

text \<open>The invariant of the pipeline holds in every state of a run.\<close>

lemma stack_ok_iff:
  "stack.state_ok K S log due M s \<longleftrightarrow> s3_ok K (cd_archive s) \<and> pg_ok (cd_checkpoints s) \<and>
     pipeline_ok K (\<lambda>k. sl_path_error S k = None) log due M (redpanda_delivered (cd_broker s)) (fmlookup (s3_objects (cd_archive s)))
       (s3_ledger (cd_archive s)) (pg_view (cd_checkpoints s))"
  by (simp add: stack.state_ok_def)

lemma new_stack_ok: "stack.state_ok K S log due M new_stack"
proof -
  have "s3_ledger (cd_archive new_stack) = empty_ledger" by (simp add: s3_ledger_def empty_ledger_def new_stack_def fun_eq_iff)
  moreover have "pg_view (cd_checkpoints new_stack) = Map.empty" by (auto simp: pg_view_def new_stack_def)
  ultimately have "pipeline_ok K (\<lambda>k. sl_path_error S k = None) log due M (redpanda_delivered (cd_broker new_stack))
      (fmlookup (s3_objects (cd_archive new_stack))) (s3_ledger (cd_archive new_stack)) (pg_view (cd_checkpoints new_stack))"
    using ledger_ok_empty [of K]
    by (simp add: pipeline_ok_def objects_from_log_def manifests_from_log_def covered_to_def archive_behind_def new_stack_def)
      (simp add: empty_ledger_def)
  then show ?thesis unfolding stack_ok_iff by (simp add: s3_ok_def pg_ok_def new_stack_def)
qed

lemma with_answers_core:
  "s3_ledger ((cd_archive s)\<lparr>s3_io := ar\<rparr>) = s3_ledger (cd_archive s)" "s3_ok K ((cd_archive s)\<lparr>s3_io := ar\<rparr>) = s3_ok K (cd_archive s)"
  "pg_view ((cd_checkpoints s)\<lparr>pg_io := cp\<rparr>) = pg_view (cd_checkpoints s)" "pg_ok ((cd_checkpoints s)\<lparr>pg_io := cp\<rparr>) = pg_ok (cd_checkpoints s)"
  "redpanda_delivered ((cd_broker s)\<lparr>rp_io := br\<rparr>) = redpanda_delivered (cd_broker s)"
  by (simp_all add: s3_ledger_def s3_ok_def pg_view_def pg_ok_def redpanda_delivered_def)

lemma with_answers_ok: "stack.state_ok K S log due M (with_answers br ar cp s) \<longleftrightarrow> stack.state_ok K S log due M s"
  by (simp add: stack_ok_iff with_answers_def with_answers_core)

lemma with_answers_admitted:
  "stack.admitted due M e (with_answers br ar cp s) \<longleftrightarrow> in_turn due e (pg_view (cd_checkpoints s)) \<and> expected_manifest M s e"
  by (simp add: stack.admitted_def expected_manifest_def with_answers_def with_answers_core split: sum.split)

lemma stack_batch:
  assumes s: "stack.state_ok K S log due M s" and inj: "inj_on (manifest_hash K) M" and log: "from_log log records"
    and e: "encode_records K records = Inr e" "in_turn due e (pg_view (cd_checkpoints s))" "expected_manifest M s e"
    and run: "publish_and_archive K (stack_ports K S) records (with_answers br ar cp s) = (r, s')"
  shows "stack.state_ok K S log due M s' \<and> (\<forall>out. r = Inr out \<longrightarrow> stack.covered e s')"
proof -
  have "stack.state_ok K S log due M (with_answers br ar cp s) \<and> stack.admitted due M e (with_answers br ar cp s)"
    using s e(2,3) with_answers_ok with_answers_admitted by blast
  from io_tripleD [OF stack.publish_and_archive_triple [OF log e(1) inj, where due = due and S = S, folded stack_ports_def] this run]
  show ?thesis by (cases r) auto
qed

lemma stack_malformed:
  assumes "encode_records K records = Inl err" "publish_and_archive K (stack_ports K S) records s = (r, s')"
  shows "s' = s"
  using assms by (simp add: publish_and_archive_def io_bind_def)

lemma stack_run_ok:
  assumes "stack_run K S log M hist s" "inj_on (manifest_hash K) M" "submitted_in_turn due hist"
  shows "stack.state_ok K S log due M s"
  using assms
proof (induction rule: stack_run.induct)
  case new
  show ?case by (rule new_stack_ok)
next
  case (batch hist s records e br ar cp r s')
  have "stack.state_ok K S log due M s" "in_turn due e (pg_view (cd_checkpoints s))"
    using batch.IH batch.prems by (simp_all add: submitted_in_turn_def)
  from stack_batch [OF this(1) batch.prems(1) batch.hyps(2,3) this(2) batch.hyps(4,5)] show ?case by blast
next
  case (malformed hist s records err br ar cp r s')
  then show ?case using stack_malformed with_answers_ok by blast
qed

text \<open>What a call adds to the committed manifests: nothing, or one for the range of its batch.\<close>

lemma stack_ledger_after:
  assumes "stack.state_ok K S log due M s" "encode_records K records = Inr e" "from_log log records"
    and "publish_and_archive K (stack_ports K S) records (with_answers br ar cp s) = (r, s')"
    and "archived (s3_ledger (cd_archive s')) session q" "q < ea_first_collector_sequence e"
  shows "archived (s3_ledger (cd_archive s)) session q"
proof -
  have "stack.ledger_is K (s3_ledger (cd_archive s)) (with_answers br ar cp s)"
    using assms(1) by (simp add: stack.ledger_is_def stack_ok_iff with_answers_def with_answers_core)
  from io_tripleD [OF stack.publish_and_archive_ledger [OF assms(2,3), where S = S, folded stack_ports_def] this assms(4)]
  have "stack.ledger_after K e (s3_ledger (cd_archive s)) s'" by (cases r) auto
  then show ?thesis using assms(5,6) by (fastforce simp: stack.ledger_after_def archived_def extends_ledger_def split: if_splits)
qed

end
