(* ===== verification/Archive_Samples.thy ===== *)
theory Archive_Samples
  imports Archive_Runs Wal_Samples
begin

text \<open>
  A sample archive: a codec of committed observations built from the codec of \<open>Wal_Samples\<close>, one record,
  and the run that archives it, which the witnesses of the properties evaluate.
\<close>

definition put_committed :: "committed_observation \<Rightarrow> nat list" where
  "put_committed = put_conv (\<lambda>r. (co_observation r, co_durable_at_unix_ns r, co_wal_commit_hash r))
     (put_pair (put_option put_observation) (put_pair put_word put_bytes))"

definition get_committed :: "nat list \<Rightarrow> committed_observation \<times> nat list" where
  "get_committed = get_conv (\<lambda>(x, t, h). \<lparr>co_observation = x, co_durable_at_unix_ns = t, co_wal_commit_hash = h\<rparr>)
     (get_pair (get_option get_observation) (get_pair get_word get_bytes))"

lemma codec_committed: "codec put_committed get_committed"
  unfolding put_committed_def get_committed_def
  by (rule codec_conv) (intro codec_rules codec_observation, simp)

definition sample_archive_lib :: archive_lib where
  "sample_archive_lib = \<lparr>lib_calendar = (\<lambda>_. Some (2024, 1, 2, 3)), lib_compress = Inr, lib_decompress = Inr,
     lib_encode = (\<lambda>r. unary (put_committed r)), lib_decode = (\<lambda>bs. Inr (fst (get_committed (of_unary 0 bs)))),
     lib_manifest_json = (\<lambda>_. Inr []), lib_sha256 = (\<lambda>_. 0)\<rparr>"

definition sample_store_lib :: store_lib where
  "sample_store_lib = \<lparr>sl_path_error = (\<lambda>_. None), sl_not_found = (\<lambda>k. k), sl_duplicate = ''duplicate''\<rparr>"

lemma sample_archive_codec: "archive_codec sample_archive_lib"
proof -
  have "fst (get_committed (put_committed r)) = r" for r
    using codec_committed by (metis append_Nil2 codec_def fst_conv)
  then show ?thesis by (simp add: archive_codec_def sample_archive_lib_def of_unary_unary)
qed

definition sample_record :: "u64 \<Rightarrow> committed_observation" where
  "sample_record q = \<lparr>co_observation = Some (sample_observation\<lparr>ob_observation_id := observation_id_bytes 0, ob_source_id := ''s'',
     ob_collector_sequence := q, ob_chain := ''c'', ob_network := ''n'', ob_channel := ''h''\<rparr>),
     co_durable_at_unix_ns = 0, co_wal_commit_hash = []\<rparr>"

definition sample_log :: session_log where
  "sample_log session q = sample_record q"

definition sample_bytes :: "u64 \<Rightarrow> bytes" where
  "sample_bytes q = be_bytes 4 (length (unary (put_committed (sample_record q)))) @ unary (put_committed (sample_record q))"

definition sample_encoded :: "u64 \<Rightarrow> encoded_archive" where
  "sample_encoded q = \<lparr>ea_compressed_bytes = sample_bytes q, ea_object_sha256 = 0,
     ea_object_key = object_key_of (the (co_observation (sample_record q))) \<lparr>pt_date = ''2024-01-02'', pt_hour = 3\<rparr> 0 q q,
     ea_source_id = ''s'', ea_source_session_id = 0, ea_first_collector_sequence = q, ea_last_collector_sequence = q,
     ea_record_count = 1\<rparr>"

lemma sample_zeros: "session_bytes 0 = replicate 16 0" "observation_id_bytes 0 = replicate 32 0"
  by (simp_all add: session_bytes_def observation_id_bytes_def be_bytes_def le_bytes_zero)

lemma be_val_zeros: "be_val (replicate n 0) = 0"
  by (simp add: be_val_def) (induction n; simp)

lemma sample_length: "unat q < 10 \<Longrightarrow> length (unary (put_committed (sample_record q))) < 1000"
proof -
  assume "unat q < 10"
  moreover have "concat (replicate n [0 :: nat]) = replicate n 0" for n by (induction n) simp_all
  ultimately show "length (unary (put_committed (sample_record q))) < 1000"
    by (simp add: length_unary put_committed_def sample_record_def put_observation_def put_conv_def put_option_def put_list_def
      put_word_def put_char_def sample_observation_def sample_zeros fmap_entries_def sum_list_replicate)
qed

lemma sample_path: "validate_path_component [CHR ''s''] f = Inr ()" "validate_path_component [CHR ''c''] f = Inr ()"
  "validate_path_component [CHR ''n''] f = Inr ()" "validate_path_component [CHR ''h''] f = Inr ()"
  by (simp_all add: validate_path_component_def byte_of_def)

definition sample_partition :: partition where
  "sample_partition = \<lparr>pt_date = ''2024-01-02'', pt_hour = 3\<rparr>"

lemma sample_partition_of: "partition_of sample_archive_lib ns = Inr sample_partition"
proof -
  have "pad_dec 4 2024 @ ''-'' @ pad_dec 2 1 @ ''-'' @ pad_dec 2 2 = ''2024-01-02''" by code_simp
  then show ?thesis by (simp add: partition_of_def sample_archive_lib_def sample_partition_def and_then_def ok_or_def)
qed

lemma sample_encode:
  assumes q: "unat q < 10"
  shows "encode_records sample_archive_lib [sample_record q] = Inr (sample_encoded q)"
proof -
  obtain x where x: "co_observation (sample_record q) = Some x" "ob_source_id x = ''s''" "ob_chain x = ''c''" "ob_network x = ''n''"
    "ob_channel x = ''h''" "ob_source_session_id x = replicate 16 0" "ob_collector_sequence x = q"
    by (simp add: sample_record_def sample_observation_def sample_zeros)
  have s: "archive_session (replicate 16 0) = Inr 0" by (simp add: archive_session_def be_val_zeros)
  have key: "object_key_of x sample_partition 0 q q = ea_object_key (sample_encoded q)"
    by (simp add: sample_encoded_def sample_partition_def x(1))
  have "check_records sample_archive_lib x sample_partition 0 q [sample_record q] = Inr (q + 1)"
    using q by (simp add: x sample_partition_of checked_add_def and_then_def ok_or_def)
  then have "batch_try_new sample_archive_lib [sample_record q] = Inr \<lparr>ab_records = [sample_record q], ab_source_id = ''s'',
      ab_source_session_id = 0, ab_first_collector_sequence = q, ab_last_collector_sequence = q, ab_object_key = ea_object_key (sample_encoded q)\<rparr>"
    by (simp add: batch_try_new_def observation_at_def x sample_path s sample_partition_of and_then_def ok_or_def key)
  then show ?thesis
    using sample_length [OF q]
    by (simp add: encode_records_def batch_encode_def and_then_def Let_def sample_archive_lib_def sample_encoded_def sample_bytes_def)
qed

text \<open>The record is published and archived in a new stack without failures.\<close>

definition sample_manifest :: "u64 \<Rightarrow> archive_manifest" where
  "sample_manifest q = \<lparr>am_source_session_id = 0, am_first_collector_sequence = q, am_last_collector_sequence = q,
     am_object_key = ea_object_key (sample_encoded q), am_object_sha256 = 0, am_compressed_bytes = of_nat (length (sample_bytes q)),
     am_record_count = 1, am_previous_manifest_hash = None\<rparr>"

lemma sample_bytes_length: "unat q < 10 \<Longrightarrow> length (sample_bytes q) < 2 ^ 64"
  using sample_length [of q] by (simp add: sample_bytes_def)

lemma sample_manifest_from: "unat q < 10 \<Longrightarrow> manifest_from_encoded (sample_encoded q) None = Inr (sample_manifest q)"
  using sample_bytes_length [of q] by (simp add: manifest_from_encoded_def sample_encoded_def sample_manifest_def)

definition sample_published_record :: "u64 \<Rightarrow> published_record" where
  "sample_published_record q = \<lparr>pr_topic = RAW_BITCOIN_OBSERVATION_TOPIC, pr_key = ''s'', pr_event_id = 0,
     pr_value = unary (put_committed (sample_record q))\<rparr>"

lemma sample_prepared: "prepare_records (lib_encode sample_archive_lib) RAW_BITCOIN_OBSERVATION_TOPIC [sample_record q] =
    Inr \<lparr>pb_source_session_id = 0, pb_last_collector_sequence = q, pb_record_count = 1, pb_records = [sample_published_record q]\<rparr>"
proof -
  obtain x where x: "co_observation (sample_record q) = Some x" "ob_source_id x = ''s''" "ob_observation_id x = replicate 32 0"
    "ob_source_session_id x = replicate 16 0" "ob_collector_sequence x = q"
    by (simp add: sample_record_def sample_observation_def sample_zeros)
  show ?thesis
    by (simp add: prepare_records_def and_then_def ok_or_def last_opt_def x broker_session_def be_val_zeros broker_event_id_def
        sample_zeros sample_published_record_def sample_archive_lib_def)
qed

lemma sample_broker:
  "redpanda_publish (lib_encode sample_archive_lib) RAW_BITCOIN_OBSERVATION_TOPIC [sample_record q] \<lparr>rp_log = [], rp_io = []\<rparr> =
     (Inr \<lparr>ack_source_session_id = 0, ack_last_collector_sequence = q, ack_record_count = 1\<rparr>,
      \<lparr>rp_log = [sample_published_record q], rp_io = []\<rparr>)"
  by (simp add: redpanda_publish_def sample_prepared io_bind_def redpanda_send_def batch_ack_def)

definition sample_checkpoint :: "u64 \<Rightarrow> durable_checkpoint" where
  "sample_checkpoint q = \<lparr>dc_source_session_id = 0, dc_last_collector_sequence = q\<rparr>"

definition sample_rows :: "u64 \<Rightarrow> (string \<times> string \<times> bytes, bytes) fmap" where
  "sample_rows q = fmupd (''broker'', ''s'', session_bytes 0) (be_bytes 8 (unat q)) fmempty"

lemma sample_advance:
  "pg_advance Broker ''s'' (sample_checkpoint q) \<lparr>pg_rows = fmempty, pg_io = []\<rparr> = (Inr (sample_checkpoint q), \<lparr>pg_rows = sample_rows q, pg_io = []\<rparr>)"
  "pg_advance Archive ''s'' (sample_checkpoint q) \<lparr>pg_rows = sample_rows q, pg_io = []\<rparr> =
     (Inr (sample_checkpoint q), \<lparr>pg_rows = fmupd (''archive'', ''s'', session_bytes 0) (be_bytes 8 (unat q)) (sample_rows q), pg_io = []\<rparr>)"
  by (simp_all add: pg_advance_def pg_call_def pg_commit_def pg_select_def io_bind_def checkpoint_advance_def sample_checkpoint_def
      sample_rows_def be_bytes_def le_bytes_zero)

definition sample_objects :: "u64 \<Rightarrow> (string, bytes) fmap" where
  "sample_objects q = fmupd (ea_object_key (sample_encoded q)) (sample_bytes q) fmempty"

definition sample_archived :: "u64 \<Rightarrow> s3_archive" where
  "sample_archived q = \<lparr>s3_objects = fmupd (manifest_object_key 0 0) [] (sample_objects q), s3_manifests = fmupd 0 (sample_manifest q) fmempty,
     s3_heads = fmupd 0 (0, q) fmempty, s3_io = []\<rparr>"

definition sample_staged :: "u64 \<Rightarrow> staged_object" where
  "sample_staged q = \<lparr>so_object_key = ea_object_key (sample_encoded q), so_object_sha256 = 0, so_compressed_bytes = of_nat (length (sample_bytes q))\<rparr>"

lemma sample_staging:
  assumes q: "unat q < 10"
  shows "s3_stage sample_archive_lib sample_store_lib (sample_encoded q) \<lparr>s3_objects = fmempty, s3_manifests = fmempty, s3_heads = fmempty, s3_io = []\<rparr> =
     (Inr (sample_staged q), \<lparr>s3_objects = sample_objects q, s3_manifests = fmempty, s3_heads = fmempty, s3_io = []\<rparr>)"
  using sample_bytes_length [OF q]
  by (simp add: s3_stage_def staged_of_def io_bind_def put_create_or_verify_def object_path_def sample_store_lib_def s3_put_create_def
      sample_staged_def sample_objects_def) (simp add: sample_encoded_def)

lemma sample_verified:
  assumes q: "unat q < 10"
  shows "s3_verify sample_archive_lib sample_store_lib (sample_staged q) \<lparr>s3_objects = sample_objects q, s3_manifests = fmempty, s3_heads = fmempty, s3_io = []\<rparr> =
     (Inr (), \<lparr>s3_objects = sample_objects q, s3_manifests = fmempty, s3_heads = fmempty, s3_io = []\<rparr>)"
  using sample_bytes_length [OF q]
  by (simp add: s3_verify_def io_bind_def object_path_def sample_store_lib_def s3_call_def s3_get_def sample_staged_def sample_objects_def
      validate_exact_bytes_def sample_archive_lib_def ok_or_def)

lemma sample_committed:
  assumes q: "unat q < 10"
  shows "s3_commit_manifest sample_archive_lib sample_store_lib (sample_manifest q) \<lparr>s3_objects = sample_objects q, s3_manifests = fmempty, s3_heads = fmempty, s3_io = []\<rparr> =
     (Inr \<lparr>ma_manifest_hash = 0, ma_last_collector_sequence = q\<rparr>, (sample_archived q))"
proof -
  have "manifest_object_key 0 0 \<noteq> ea_object_key (sample_encoded q)" by (simp add: manifest_object_key_def sample_encoded_def object_key_of_def)
  then show ?thesis
    using sample_bytes_length [OF q]
    by (simp add: s3_commit_manifest_def prepare_manifest_commit_def s3_commit_prepared_def io_bind_def object_path_def sample_store_lib_def s3_call_def
        s3_get_def read_object_def sample_objects_def validate_manifest_object_def sample_archive_lib_def ok_or_def sample_manifest_def
        manifest_hash_def manifest_json_bytes_def validate_database_manifest_chain_def put_create_or_verify_def s3_put_create_def
        insert_manifest_and_head_def s3_commit_def sample_archived_def)
qed

definition sample_stack :: "u64 \<Rightarrow> archive_stack" where
  "sample_stack q = \<lparr>cd_broker = \<lparr>rp_log = [sample_published_record q], rp_io = []\<rparr>, cd_archive = sample_archived q,
     cd_checkpoints = \<lparr>pg_rows = fmupd (''archive'', ''s'', session_bytes 0) (be_bytes 8 (unat q)) (sample_rows q), pg_io = []\<rparr>\<rparr>"

lemma sample_published:
  assumes q: "unat q < 10"
  shows "publish_and_archive sample_archive_lib (stack_ports sample_archive_lib sample_store_lib) [sample_record q] new_stack =
     (Inr \<lparr>oc_manifest = \<lparr>ma_manifest_hash = 0, ma_last_collector_sequence = q\<rparr>, oc_last_collector_sequence = q\<rparr>, (sample_stack q))"
proof -
  have fields: "ea_source_id (sample_encoded q) = ''s''" "ea_source_session_id (sample_encoded q) = 0"
    "ea_first_collector_sequence (sample_encoded q) = q" "ea_last_collector_sequence (sample_encoded q) = q" by (simp_all add: sample_encoded_def)
  have found: "s3_committed_range session q q' sha \<lparr>s3_objects = fmempty, s3_manifests = fmempty, s3_heads = fmempty, s3_io = []\<rparr> =
      (Inr None, \<lparr>s3_objects = fmempty, s3_manifests = fmempty, s3_heads = fmempty, s3_io = []\<rparr>)" for session q q' sha
    by (simp add: s3_committed_range_def io_bind_def s3_call_def find_range_def)
  have latest: "s3_latest session \<lparr>s3_objects = fmempty, s3_manifests = fmempty, s3_heads = fmempty, s3_io = []\<rparr> =
      (Inr None, \<lparr>s3_objects = fmempty, s3_manifests = fmempty, s3_heads = fmempty, s3_io = []\<rparr>)" for session
    by (simp add: s3_latest_def io_bind_def s3_call_def)
  show ?thesis
    by (simp add: publish_and_archive_def sample_encode [OF q] io_bind_def stack_ports_def on_broker_def on_archive_def on_checkpoints_def new_stack_def
        sample_broker fields sample_advance [unfolded sample_checkpoint_def] found latest archive_object_def advance_archive_def
        sample_manifest_from [OF q] sample_staging [OF q] sample_verified [OF q] sample_committed [OF q] sample_stack_def)
qed

lemma sample_stack_run:
  assumes q: "unat q < 10"
  shows "stack_run sample_archive_lib sample_store_lib sample_log {sample_manifest q} [(sample_encoded q, Map.empty)] (sample_stack q)"
proof -
  have "stack_run sample_archive_lib sample_store_lib sample_log {sample_manifest q} ([] @ [(sample_encoded q, pg_view (cd_checkpoints new_stack))]) (sample_stack q)"
  proof (rule stack_run.batch [OF stack_run.new _ sample_encode [OF q]])
    show "from_log sample_log [sample_record q]" by (simp add: from_log_def sample_log_def sample_record_def)
    show "publish_and_archive sample_archive_lib (stack_ports sample_archive_lib sample_store_lib) [sample_record q] (with_answers [] [] [] new_stack) =
       (Inr \<lparr>oc_manifest = \<lparr>ma_manifest_hash = 0, ma_last_collector_sequence = q\<rparr>, oc_last_collector_sequence = q\<rparr>, sample_stack q)"
      using sample_published [OF q] by (simp add: with_answers_def new_stack_def)
    show "expected_manifest {sample_manifest q} new_stack (sample_encoded q)"
      using sample_manifest_from [OF q] by (simp add: expected_manifest_def s3_ledger_def new_stack_def)
  qed
  moreover have "pg_view (cd_checkpoints new_stack) = Map.empty" by (auto simp: pg_view_def new_stack_def)
  ultimately show ?thesis by simp
qed

lemma sample_row_value: "be_val (be_bytes 8 (unat (q :: u64))) = unat q"
  using unsigned_less [of q] by (intro be_val_be_bytes) simp

lemma sample_loaded:
  "pg_load Broker ''s'' 0 (cd_checkpoints (sample_stack q)) = (Inr (Some (sample_checkpoint q)), cd_checkpoints (sample_stack q))"
  "pg_load Archive ''s'' 0 (cd_checkpoints (sample_stack q)) = (Inr (Some (sample_checkpoint q)), cd_checkpoints (sample_stack q))"
  by (simp_all add: pg_load_def pg_select_def io_bind_def pg_call_def sample_stack_def sample_rows_def decode_checkpoint_def
      sample_row_value sample_zeros be_val_zeros sample_checkpoint_def and_then_def)

end
