(* ===== verification/Archive_Properties.thy ===== *)
theory Archive_Properties
  imports Archive_Samples
begin

text \<open>
  What the archive pipeline guarantees: objects decode to the batch they were made from, the manifests of a
  session form a chain over objects that can be read back, and a segment of the log is reclaimable only
  when every record it holds has been delivered and can be replayed from the archive.
\<close>

section \<open>Recovery of a record\<close>

text \<open>The object of a committed manifest is the encoding of the records of its range.\<close>

lemma committed_object_records:
  assumes run: "stack_run K S log M hist s" and inj: "inj_on (manifest_hash K) M" and codec: "archive_codec K"
    and m: "fmlookup (s3_manifests (cd_archive s)) h = Some m"
  obtains bs where "fmlookup (s3_objects (cd_archive s)) (am_object_key m) = Some bs" "sl_path_error S (am_object_key m) = None"
    "object_matches K m bs"
    "decode_archive K bs = Inr (map (\<lambda>q. log (session_bytes (am_source_session_id m)) (of_nat q))
      [unat (am_first_collector_sequence m)..<Suc (unat (am_last_collector_sequence m))])"
proof -
  have ok: "s3_ok K (cd_archive s)" "objects_from_log K (\<lambda>k. sl_path_error S k = None) log (fmlookup (s3_objects (cd_archive s)))"
    "manifests_from_log K log M (s3_ledger (cd_archive s))"
    using stack_run_ok [OF run inj submitted_in_turn_none] by (simp_all add: stack_ok_iff pipeline_ok_def)
  have "lg_manifests (s3_ledger (cd_archive s)) h = Some m" using m by (simp add: s3_ledger_def)
  with ok(3) obtain records e where e: "from_log log records" "encode_records K records = Inr e"
    "manifest_from_encoded e (am_previous_manifest_hash m) = Inr m"
    unfolding manifests_from_log_def batch_manifest_def by blast
  note fields = manifest_from_encoded_fields [OF e(3)]
  obtain bs where bs: "fmlookup (s3_objects (cd_archive s)) (am_object_key m) = Some bs" "object_matches K m bs"
    using ok(1) m unfolding s3_ok_def by blast
  moreover have "raw_key (am_object_key m)" using encode_records_raw_key [OF e(2)] fields by simp
  ultimately obtain records' e' where e': "sl_path_error S (am_object_key m) = None" "from_log log records'"
    "encode_records K records' = Inr e'" "ea_object_key e' = am_object_key m" "ea_compressed_bytes e' = bs"
    using ok(2) unfolding objects_from_log_def by blast
  have eq: "e = e'" "records = records'"
    using encode_records_key [OF e(2) e'(3) _ e(1) e'(2)] fields e'(4) by auto
  obtain b where b: "batch_try_new K records' = Inr b" "batch_encode K b = Inr e'" using e'(3) by (rule encode_recordsE)
  have "ab_records b = records'" by (rule batch_try_new_Inr [OF b(1)]) blast
  then have "decode_archive K bs = Inr records'" using decode_encoded [OF codec b(2)] e'(5) by simp
  then show ?thesis using that bs e'(1) encode_records_range(1) [OF e(2,1)] eq fields by simp
qed

lemma replay_without_failures:
  assumes "fmlookup (s3_manifests s) h = Some m" "fmlookup (s3_objects s) (am_object_key m) = Some bs"
    "sl_path_error S (am_object_key m) = None" "object_matches K m bs" "s3_io s = []"
  shows "fst (s3_replay_committed K S h s) = Inr (Some bs)"
proof -
  have "s3_call s = (Inr (), s)" using assms(5) by (simp add: s3_call_def)
  then show ?thesis using assms(1-4)
    by (simp add: s3_replay_committed_def io_bind_def read_object_def object_path_def s3_get_def validate_exact_bytes_def
        object_matches_def ok_or_def not_le)
qed

text \<open>C22: When no batch was submitted before its turn, a sealed segment of the write-ahead log is reclaimable only when
  nothing is lost with it. The due sequences are any set of sequences for each session, for instance all from the first one of
  the session on; the batches are submitted in turn when each of them, at its submission, skips no due sequence: those below
  its first one are at or below the archive checkpoint of its source. The archive writer does not check this itself. In every
  state that a run of the archive writer with such batches reaches over Kafka, S3 and Postgres, with any failures of the three
  services at any call, if the reclaim check accepts the segment on the two checkpoints loaded from Postgres, then every due
  record of the session up to the last sequence of the segment can be read back: some committed manifest covers it, replaying
  that manifest from S3 gives bytes that decode to exactly the log records of the manifest's range, and the observation of the
  record has been delivered to the broker.\<close>

theorem reclaimable_segment_is_recoverable:
  assumes "stack_run K S log M hist s" "submitted_in_turn due hist" "inj_on (manifest_hash K) M" "archive_codec K"
    and "pg_load Broker source (sg_source_session_id seg) (cd_checkpoints s) = (Inr broker, c1)"
    and "pg_load Archive source (sg_source_session_id seg) c1 = (Inr archive, c2)"
    and "ensure_reclaimable seg broker archive = Inr ()"
    and "q \<in> due (sg_source_session_id seg)" "q \<le> sg_last_collector_sequence seg"
  shows "\<exists>h m bs. fmlookup (s3_manifests (cd_archive s)) h = Some m \<and>
    am_source_session_id m = sg_source_session_id seg \<and> am_first_collector_sequence m \<le> q \<and> q \<le> am_last_collector_sequence m \<and>
    fst (s3_replay_committed K S h ((cd_archive s)\<lparr>s3_io := []\<rparr>)) = Inr (Some bs) \<and>
    decode_archive K bs = Inr (map (\<lambda>n. log (session_bytes (sg_source_session_id seg)) (of_nat n))
      [unat (am_first_collector_sequence m)..<Suc (unat (am_last_collector_sequence m))]) \<and>
    broadcast log (redpanda_delivered (cd_broker s)) (sg_source_session_id seg) q"
proof -
  let ?session = "sg_source_session_id seg"
  have ok: "pg_ok (cd_checkpoints s)" "covered_to due (archived (s3_ledger (cd_archive s))) Archive (pg_view (cd_checkpoints s))"
    "covered_to due (broadcast log (redpanda_delivered (cd_broker s))) Broker (pg_view (cd_checkpoints s))"
    using stack_run_ok [OF assms(1,3,2)] by (simp_all add: stack_ok_iff pipeline_ok_def)
  have c1: "pg_ok c1" "pg_view c1 = pg_view (cd_checkpoints s)" using postgres_store.load_result [OF ok(1) assms(5)] by auto
  obtain b a where ba: "pg_view (cd_checkpoints s) (Broker, source, ?session) = Some b" "pg_view (cd_checkpoints s) (Archive, source, ?session) = Some a"
    "q \<le> b" "q \<le> a"
    using postgres_store.load_result [OF ok(1) assms(5)] postgres_store.load_result [OF c1(1) assms(6)] c1(2) assms(7,9)
    by (auto simp: ensure_reclaimable_Inr)
  then have "archived (s3_ledger (cd_archive s)) ?session q" and sent: "broadcast log (redpanda_delivered (cd_broker s)) ?session q"
    using ok(2,3) assms(8) unfolding covered_to_def by blast+
  then obtain h m where m: "fmlookup (s3_manifests (cd_archive s)) h = Some m" "am_source_session_id m = ?session"
    "am_first_collector_sequence m \<le> q" "q \<le> am_last_collector_sequence m"
    by (auto simp: archived_def s3_ledger_def)
  obtain bs where bs: "fmlookup (s3_objects (cd_archive s)) (am_object_key m) = Some bs" "sl_path_error S (am_object_key m) = None"
    "object_matches K m bs"
    "decode_archive K bs = Inr (map (\<lambda>q. log (session_bytes (am_source_session_id m)) (of_nat q))
      [unat (am_first_collector_sequence m)..<Suc (unat (am_last_collector_sequence m))])"
    by (rule committed_object_records [OF assms(1,3,4) m(1)])
  have "fst (s3_replay_committed K S h ((cd_archive s)\<lparr>s3_io := []\<rparr>)) = Inr (Some bs)"
    by (rule replay_without_failures) (use m(1) bs in auto)
  then show ?thesis using m bs(4) sent by (intro exI [of _ h] exI [of _ m] exI [of _ bs]) simp
qed

theorem reclaimable_segment_is_recoverable_witness:
  "\<exists>h m bs. fmlookup (s3_manifests (cd_archive (sample_stack 0))) h = Some m \<and>
    am_source_session_id m = 0 \<and> am_first_collector_sequence m \<le> 0 \<and> 0 \<le> am_last_collector_sequence m \<and>
    fst (s3_replay_committed sample_archive_lib sample_store_lib h ((cd_archive (sample_stack 0))\<lparr>s3_io := []\<rparr>)) = Inr (Some bs) \<and>
    decode_archive sample_archive_lib bs = Inr (map (\<lambda>n. sample_log (session_bytes 0) (of_nat n))
      [unat (am_first_collector_sequence m)..<Suc (unat (am_last_collector_sequence m))]) \<and>
    broadcast sample_log (redpanda_delivered (cd_broker (sample_stack 0))) 0 0"
proof -
  let ?seg = "\<lparr>sg_source_session_id = 0, sg_last_collector_sequence = 0\<rparr>"
  have turn: "submitted_in_turn (\<lambda>_. UNIV) [(sample_encoded 0, Map.empty)]"
    by (simp add: submitted_in_turn_def in_turn_def sample_encoded_def)
  have run: "stack_run sample_archive_lib sample_store_lib sample_log {sample_manifest 0} [(sample_encoded 0, Map.empty)] (sample_stack 0)"
    by (rule sample_stack_run) simp
  show ?thesis
    using reclaimable_segment_is_recoverable [OF run turn _ sample_archive_codec, of "''s''" ?seg "Some (sample_checkpoint 0)" _
        "Some (sample_checkpoint 0)" _ 0, unfolded sealed_wal_segment.simps, OF _ sample_loaded]
    by (simp add: ensure_reclaimable_Inr sample_checkpoint_def)
qed

text \<open>C23: The archive writer does not notice a gap. Whatever batches a run has submitted before, when the archive writer accepts a
  batch, both checkpoints of its source are at its last sequence, so the reclaim check accepts the segment that ends there; but
  a sequence below the batch that no committed manifest covers is still covered by none. So after a batch that failed, the
  next one makes the segment of both reclaimable, while no archive holds the records of the failed batch.\<close>

theorem skipped_batch_becomes_reclaimable:
  assumes "stack_run K S log M hist s" "inj_on (manifest_hash K) M"
    and "from_log log records" "encode_records K records = Inr e" "expected_manifest M s e"
    and "publish_and_archive K (stack_ports K S) records (with_answers br ar cp s) = (Inr out, s')"
    and "seg = \<lparr>sg_source_session_id = ea_source_session_id e, sg_last_collector_sequence = ea_last_collector_sequence e\<rparr>"
    and "pg_load Broker (ea_source_id e) (ea_source_session_id e) (cd_checkpoints s') = (Inr broker, c1)"
    and "pg_load Archive (ea_source_id e) (ea_source_session_id e) c1 = (Inr archive, c2)"
    and "q < ea_first_collector_sequence e" "\<not> archived (s3_ledger (cd_archive s)) (ea_source_session_id e) q"
  shows "ensure_reclaimable seg broker archive = Inr () \<and> q \<le> sg_last_collector_sequence seg \<and>
    \<not> (\<exists>h m. fmlookup (s3_manifests (cd_archive s')) h = Some m \<and> am_source_session_id m = ea_source_session_id e \<and>
       am_first_collector_sequence m \<le> q \<and> q \<le> am_last_collector_sequence m)"
proof -
  have s: "stack.state_ok K S log (\<lambda>_. {}) M s" by (rule stack_run_ok [OF assms(1,2) submitted_in_turn_none])
  have "in_turn (\<lambda>_. {}) e (pg_view (cd_checkpoints s))" by (simp add: in_turn_def)
  from stack_batch [OF s assms(2-4) this assms(5,6)]
  have s': "pg_ok (cd_checkpoints s')" "stack.covered e s'" by (auto simp: stack_ok_iff)
  have c1: "pg_ok c1" "pg_view c1 = pg_view (cd_checkpoints s')" using postgres_store.load_result [OF s'(1) assms(8)] by auto
  have "ensure_reclaimable seg broker archive = Inr ()"
    using postgres_store.load_result [OF s'(1) assms(8)] postgres_store.load_result [OF c1(1) assms(9)] c1(2) s'(2)
    by (auto simp: stack.covered_def ensure_reclaimable_Inr assms(7))
  moreover have "\<not> archived (s3_ledger (cd_archive s')) (ea_source_session_id e) q"
    using stack_ledger_after [OF s assms(4,3,6)] assms(10,11) by blast
  moreover have "q \<le> ea_last_collector_sequence e" using encode_records_range(2) [OF assms(4,3)] assms(10) by simp
  ultimately show ?thesis by (auto simp: archived_def s3_ledger_def assms(7))
qed

theorem skipped_batch_becomes_reclaimable_witness:
  "ensure_reclaimable \<lparr>sg_source_session_id = 0, sg_last_collector_sequence = 1\<rparr> (Some (sample_checkpoint 1)) (Some (sample_checkpoint 1)) = Inr () \<and>
   \<not> (\<exists>h m. fmlookup (s3_manifests (cd_archive (sample_stack 1))) h = Some m \<and> am_source_session_id m = 0 \<and>
      am_first_collector_sequence m \<le> 0 \<and> 0 \<le> am_last_collector_sequence m)"
proof -
  have q: "unat (1 :: u64) < 10" by simp
  have fields: "ea_source_id (sample_encoded 1) = ''s''" "ea_source_session_id (sample_encoded 1) = 0"
    "ea_first_collector_sequence (sample_encoded 1) = 1" "ea_last_collector_sequence (sample_encoded 1) = 1" by (simp_all add: sample_encoded_def)
  have log: "from_log sample_log [sample_record 1]" by (simp add: from_log_def sample_log_def sample_record_def)
  have expected: "expected_manifest {sample_manifest 1} new_stack (sample_encoded 1)"
    using sample_manifest_from [OF q] by (simp add: expected_manifest_def s3_ledger_def new_stack_def)
  have run: "publish_and_archive sample_archive_lib (stack_ports sample_archive_lib sample_store_lib) [sample_record 1] (with_answers [] [] [] new_stack) =
      (Inr \<lparr>oc_manifest = \<lparr>ma_manifest_hash = 0, ma_last_collector_sequence = 1\<rparr>, oc_last_collector_sequence = 1\<rparr>, sample_stack 1)"
    using sample_published [OF q] by (simp add: with_answers_def new_stack_def)
  have "\<not> archived (s3_ledger (cd_archive new_stack)) 0 0" by (simp add: archived_def s3_ledger_def new_stack_def)
  then show ?thesis
    using skipped_batch_becomes_reclaimable [OF stack_run.new _ log sample_encode [OF q] expected run refl, unfolded fields, OF _ sample_loaded, of 0]
    by simp
qed

section \<open>The chain of manifests\<close>

text \<open>C24: In every state of a run, in whatever order its batches were submitted, the manifests committed for a session in the database form one hash chain from the
  head of the session back to its first manifest, over pairwise disjoint ranges of sequences, and the object of each is in
  the store with the length and digest that its manifest names and decodes to exactly the log records of its range, also
  when calls failed after taking effect.\<close>

theorem archive_manifests_form_chain:
  assumes "stack_run K S log M hist s" "inj_on (manifest_hash K) M" "archive_codec K"
  shows "\<exists>ms. hash_chain K ms (map_option fst (fmlookup (s3_heads (cd_archive s)) session)) \<and>
    set ms = {m. m |\<in>| fmran (s3_manifests (cd_archive s)) \<and> am_source_session_id m = session} \<and>
    sorted_wrt disjoint_ranges ms \<and>
    (\<forall>m \<in> set ms. \<exists>bs. fmlookup (s3_objects (cd_archive s)) (am_object_key m) = Some bs \<and> object_matches K m bs \<and>
      decode_archive K bs = Inr (map (\<lambda>q. log (session_bytes session) (of_nat q))
        [unat (am_first_collector_sequence m)..<Suc (unat (am_last_collector_sequence m))]))"
proof -
  have "ledger_ok K (s3_ledger (cd_archive s))"
    using stack_run_ok [OF assms(1,2) submitted_in_turn_none] by (simp add: stack_ok_iff pipeline_ok_def manifests_from_log_def)
  then obtain ms where ms: "hash_chain K ms (map_option fst (fmlookup (s3_heads (cd_archive s)) session))"
    "set ms = session_manifests (s3_ledger (cd_archive s)) session" "sorted_wrt disjoint_ranges ms"
    unfolding ledger_ok_def by (metis (no_types) ledger.select_convs(2) s3_ledger_def)
  have set: "set ms = {m. m |\<in>| fmran (s3_manifests (cd_archive s)) \<and> am_source_session_id m = session}"
    unfolding ms(2) session_manifests_def by (auto simp: s3_ledger_def fmlookup_ran_iff)
  have "\<exists>bs. fmlookup (s3_objects (cd_archive s)) (am_object_key m) = Some bs \<and> object_matches K m bs \<and>
      decode_archive K bs = Inr (map (\<lambda>q. log (session_bytes session) (of_nat q))
        [unat (am_first_collector_sequence m)..<Suc (unat (am_last_collector_sequence m))])" if m: "m \<in> set ms" for m
  proof -
    obtain h where "fmlookup (s3_manifests (cd_archive s)) h = Some m" "am_source_session_id m = session"
      using m set by (auto simp: fmlookup_ran_iff)
    then show ?thesis using committed_object_records [OF assms, of h m] by metis
  qed
  then show ?thesis using ms(1,3) set by blast
qed

theorem archive_manifests_form_chain_witness:
  "\<exists>ms. hash_chain sample_archive_lib ms (map_option fst (fmlookup (s3_heads (cd_archive (sample_stack 0))) 0)) \<and>
    set ms = {m. m |\<in>| fmran (s3_manifests (cd_archive (sample_stack 0))) \<and> am_source_session_id m = 0} \<and>
    sorted_wrt disjoint_ranges ms \<and>
    (\<forall>m \<in> set ms. \<exists>bs. fmlookup (s3_objects (cd_archive (sample_stack 0))) (am_object_key m) = Some bs \<and> object_matches sample_archive_lib m bs \<and>
      decode_archive sample_archive_lib bs = Inr (map (\<lambda>q. sample_log (session_bytes 0) (of_nat q))
        [unat (am_first_collector_sequence m)..<Suc (unat (am_last_collector_sequence m))]))"
  by (rule archive_manifests_form_chain [OF sample_stack_run _ sample_archive_codec]) simp_all

section \<open>Archive objects\<close>

text \<open>C25: An archive object decodes to the batch it was encoded from, whatever the batch: decoding the compressed bytes of
  an accepted batch gives its records in order. The records are those of one source, session, chain, network and channel,
  they carry consecutive sequences from the first to the last of the object, and the object names its digest and count.\<close>

theorem archive_object_roundtrip:
  assumes "archive_codec K" "encode_records K records = Inr e"
  shows "decode_archive K (ea_compressed_bytes e) = Inr records \<and> ea_object_sha256 e = lib_sha256 K (ea_compressed_bytes e) \<and>
    ea_record_count e = of_nat (length records) \<and>
    unat (ea_last_collector_sequence e) + 1 = unat (ea_first_collector_sequence e) + length records \<and>
    (\<exists>x. ob_source_id x = ea_source_id e \<and> ob_source_session_id x = session_bytes (ea_source_session_id e) \<and>
      (\<forall>i < length records. record_at x (unat (ea_first_collector_sequence e) + i) (records ! i)))"
proof -
  obtain b where b: "batch_try_new K records = Inr b" "batch_encode K b = Inr e" using assms(2) by (rule encode_recordsE)
  note e = batch_encode_fields [OF b(2)]
  obtain x where x: "ab_records b = records" "ab_source_id b = ob_source_id x" "ob_source_session_id x = session_bytes (ab_source_session_id b)"
    "\<And>i. i < length records \<Longrightarrow> record_at x (unat (ab_first_collector_sequence b) + i) (records ! i)"
    "unat (ab_last_collector_sequence b) + 1 = unat (ab_first_collector_sequence b) + length records"
    by (rule batch_try_new_Inr [OF b(1)]) blast
  show ?thesis using decode_encoded [OF assms(1) b(2)] x e by (auto intro!: exI [of _ x])
qed

theorem archive_object_roundtrip_witness:
  "decode_archive sample_archive_lib (ea_compressed_bytes (sample_encoded 0)) = Inr [sample_record 0]"
  using archive_object_roundtrip [OF sample_archive_codec sample_encode [of 0]] by simp

section \<open>Replays\<close>

text \<open>C26: A batch that ends before the broker checkpoint of its source is never acknowledged again: whatever the services
  answer, the call fails and leaves the archive and both checkpoints as they were. The call stops at the broker checkpoint,
  before the archive is asked for the committed range, so replaying an older batch of a session is an error although the
  archive has committed exactly that range.\<close>

theorem older_batch_replay_is_rejected:
  assumes "pg_ok (cd_checkpoints s)" "encode_records K records = Inr e"
    and "pg_view (cd_checkpoints s) (Broker, ea_source_id e, ea_source_session_id e) = Some n" "ea_last_collector_sequence e < n"
    and "publish_and_archive K (stack_ports K S) records s = (r, s')"
  shows "(\<exists>err. r = Inl err) \<and> cd_archive s' = cd_archive s \<and> pg_view (cd_checkpoints s') = pg_view (cd_checkpoints s)"
proof -
  obtain r1 b where 1: "redpanda_publish (lib_encode K) RAW_BITCOIN_OBSERVATION_TOPIC records (cd_broker s) = (r1, b)" by fastforce
  let ?cp = "\<lparr>dc_source_session_id = ea_source_session_id e, dc_last_collector_sequence = ea_last_collector_sequence e\<rparr>"
  obtain r2 c where 2: "pg_advance Broker (ea_source_id e) ?cp (cd_checkpoints s) = (r2, c)" by fastforce
  have rejected: "(\<exists>err. r2 = Inl err) \<and> pg_view c = pg_view (cd_checkpoints s)"
    by (rule postgres_store.advance_rejects_regression [OF assms(1) _ _ 2]) (use assms(3,4) in simp_all)
  show ?thesis
  proof (cases r1)
    case (Inl err)
    then show ?thesis using assms(2,5) 1
      by (auto simp: publish_and_archive_def io_bind_def stack_ports_def on_broker_def)
  next
    case (Inr ack)
    then show ?thesis using assms(2,5) 1 2 rejected
      by (auto simp: publish_and_archive_def io_bind_def stack_ports_def on_broker_def on_checkpoints_def split: if_splits)
  qed
qed

theorem older_batch_replay_is_rejected_witness:
  "\<exists>err s'. publish_and_archive sample_archive_lib (stack_ports sample_archive_lib sample_store_lib) [sample_record 0]
      ((sample_stack 0)\<lparr>cd_checkpoints := \<lparr>pg_rows = fmupd (''broker'', ''s'', session_bytes 0) [0, 0, 0, 0, 0, 0, 0, 1] fmempty, pg_io = []\<rparr>\<rparr>) =
    (Inl err, s') \<and> cd_archive s' = sample_archived 0"
proof -
  let ?s = "(sample_stack 0)\<lparr>cd_checkpoints := \<lparr>pg_rows = fmupd (''broker'', ''s'', session_bytes 0) [0, 0, 0, 0, 0, 0, 0, 1] fmempty, pg_io = []\<rparr>\<rparr>"
  obtain r s' where run: "publish_and_archive sample_archive_lib (stack_ports sample_archive_lib sample_store_lib) [sample_record 0] ?s = (r, s')"
    by fastforce
  have "(\<exists>err. r = Inl err) \<and> cd_archive s' = cd_archive ?s \<and> pg_view (cd_checkpoints s') = pg_view (cd_checkpoints ?s)"
    by (rule older_batch_replay_is_rejected [OF _ sample_encode [of 0] _ _ run, of 1])
      (simp_all add: pg_ok_def pg_view_def sample_encoded_def be_val_def)
  then show ?thesis using run by (auto simp: sample_stack_def)
qed

text \<open>In the archive in memory, staging an object whose key is committed already replaces the bytes that a replay of that key
  returns, before anything is verified or committed.\<close>

lemma memory_restage_replaces_committed_object:
  assumes "m |\<in>| fmran (ra_manifests s)" "am_object_key m = ea_object_key e" "length (ea_compressed_bytes e) < 2 ^ 64"
  shows "memory_replay (am_object_key m) (snd (memory_stage e s)) = Some (ea_compressed_bytes e)"
  using assms by (auto simp: memory_replay_def memory_stage_def staged_of_def)

end
