(* ===== verification/Alert_Store.thy ===== *)
theory Alert_Store
  imports Mempool_Alert Io_Calls
begin

text \<open>
  The durable alert store of \<open>processors/alert-engine/src/persistence.rs\<close> over the tables of
  \<open>schemas/postgres/002_alerts.sql\<close>: immutable definitions, evaluation evidence, current state, and the
  outbox with its delivery to a sink. A transaction under the advisory lock of its definition is one
  step; the statements of the delivery are each committed on their own. A JSON value is its canonical
  text, as JSONB keeps it. Serialization, the messages of the database and the sink are parameters.
\<close>

section \<open>Data\<close>

type_synonym json = string

definition MAX_FACT_COUNT :: nat where "MAX_FACT_COUNT = 128"
definition MAX_FACT_ID_LEN :: nat where "MAX_FACT_ID_LEN = 256"
definition MAX_DELIVERY_BATCH :: u16 where "MAX_DELIVERY_BATCH = 1000"

datatype persist_outcome = Inserted | Duplicate

record alert_audit_summary =
  as_evaluation_count :: u64
  as_outbox_count :: u64
  as_pending_outbox_count :: u64
  as_delivered_outbox_count :: u64
  as_last_revision :: "u64 option"

record outbox_delivery =
  od_idempotency_key :: string
  od_evaluation_id :: string
  od_alert_id :: string
  od_definition_version :: u64
  od_payload :: json

record delivery_report =
  dl_delivered :: u16
  dl_failed :: u16

datatype alert_persistence_error =
    InvalidConnectionLimit
  | ValueOutOfRange
  | InvalidEvaluationTime
  | InvalidInputFacts
  | InvalidEvaluation
  | MissingOutboxKey
  | UnexpectedOutboxKey
  | InvalidOutboxKey
  | DefinitionConflict u64
  | DefinitionUnavailable u64
  | StoredRevisionRegression u64 u64
  | StoredConflictingRevision u64
  | EvaluationConflict
  | InvalidDeliveryBatch
  | AlertSerialization string
  | AlertStorage string

type_synonym alert_delivery_error = string

text \<open>The serialization of a definition, of an evaluation and of its source health, and the messages of the
  database for a violated constraint and for an integer out of range.\<close>

record alert_lib =
  lib_definition_json :: "alert_definition \<Rightarrow> string + json"
  lib_evaluation_json :: "alert_evaluation \<Rightarrow> string + json"
  lib_source_health_json :: "string list \<Rightarrow> string list \<Rightarrow> completeness \<Rightarrow> snapshot_cause \<Rightarrow> string + json"
  lib_constraint :: string
  lib_out_of_range :: string

section \<open>Tables\<close>

datatype definition_status = Draft | Enabled | Paused | Archived

type_synonym definition_key = "string \<times> i64"

record definition_row =
  df_kind :: string
  df_definition :: json
  df_status :: definition_status

record evaluation_row =
  er_definition :: definition_key
  er_kind :: string
  er_network :: string
  er_input_revision :: i64
  er_input_fact_ids :: "string list"
  er_source_health :: json
  er_result :: json
  er_transition :: string
  er_evaluated_at :: i64

record state_row =
  sr_last_evaluation_id :: string
  sr_last_input_revision :: i64
  sr_active :: bool
  sr_consecutive :: nat
  sr_last_evaluated_at :: i64
  sr_last_triggered_at :: "i64 option"

record outbox_row =
  ob_evaluation_id :: string
  ob_definition :: definition_key
  ob_row_payload :: json
  ob_delivered :: bool
  ob_delivery_attempts :: nat
  ob_last_error :: "string option"
  ob_available_at :: i64
  ob_created_at :: i64
  ob_delivered_at :: "i64 option"

record alert_tables =
  tb_definitions :: "(definition_key, definition_row) fmap"
  tb_evaluations :: "(string, evaluation_row) fmap"
  tb_state :: "(definition_key, state_row) fmap"
  tb_outbox :: "(string, outbox_row) fmap"

record alert_db =
  db_tables :: alert_tables
  db_now :: i64
  db_io :: "io_answer list"

text \<open>A call that writes nothing, and a call that installs new tables.\<close>

definition db_call :: "(alert_db, alert_persistence_error, unit) io" where
  "db_call s =
     (case db_io s of
        IoFail message applied # as \<Rightarrow> (Inl (AlertStorage message), s\<lparr>db_io := as\<rparr>)
      | as \<Rightarrow> (Inr (), s\<lparr>db_io := tl as\<rparr>))"

definition db_commit :: "alert_tables \<Rightarrow> (alert_db, alert_persistence_error, unit) io" where
  "db_commit t s =
     (case db_io s of
        IoFail message applied # as \<Rightarrow>
          (Inl (AlertStorage message), (if applied then s\<lparr>db_tables := t\<rparr> else s)\<lparr>db_io := as\<rparr>)
      | as \<Rightarrow> (Inr (), s\<lparr>db_tables := t, db_io := tl as\<rparr>))"

section \<open>Validation\<close>

definition valid_bounded_identity :: "string \<Rightarrow> nat \<Rightarrow> bool" where
  "valid_bounded_identity value max_len \<longleftrightarrow> value \<noteq> [] \<and> length value \<le> max_len \<and> ascii_graphic value"

definition valid_hash :: "string \<Rightarrow> bool" where
  "valid_hash value \<longleftrightarrow> length value = 64 \<and> list_all (\<lambda>c. is_ascii_digit c \<or> 97 \<le> byte_of c \<and> byte_of c \<le> 102) value"

definition checked_positive_i64 :: "u64 \<Rightarrow> alert_persistence_error + i64" where
  "checked_positive_i64 value = (if 2 ^ 63 \<le> unat value \<or> value = 0 then Inl ValueOutOfRange else Inr value)"

definition normalized_fact_ids :: "string list \<Rightarrow> alert_persistence_error + string list" where
  "normalized_fact_ids ids =
     (if ids = [] \<or> MAX_FACT_COUNT < length ids then Inl InvalidInputFacts
      else if list_ex (\<lambda>x. \<not> valid_bounded_identity x MAX_FACT_ID_LEN) ids then Inl InvalidInputFacts
      else Inr (remdups_adj (sort ids)))"

fun transition_name :: "alert_transition \<Rightarrow> string" where
  "transition_name Pending = ''pending''"
| "transition_name Triggered = ''triggered''"
| "transition_name Confirmed = ''confirmed''"
| "transition_name Corrected = ''corrected''"
| "transition_name Retracted = ''retracted''"
| "transition_name DegradedSource = ''degraded_source''"
| "transition_name BelowThreshold = ''below_threshold''"
| "transition_name CooldownSuppressed = ''cooldown_suppressed''"
| "transition_name DuplicateRevision = ''duplicate_revision''"

definition validate_evaluation :: "u64 \<Rightarrow> i64 \<Rightarrow> string list \<Rightarrow> alert_evaluation \<Rightarrow> alert_persistence_error + unit" where
  "validate_evaluation version at facts v =
     and_then (checked_positive_i64 version) (\<lambda>_.
     and_then (checked_positive_i64 (ae_revision v)) (\<lambda>_.
     if sint at < 0 then Inl InvalidEvaluationTime
     else and_then (normalized_fact_ids facts) (\<lambda>_.
       if \<not> valid_bounded_identity (ae_alert_id v) 128 \<or> \<not> valid_bounded_identity (ae_network v) 64 \<or>
          ae_kind v \<noteq> alert_kind \<or> \<not> valid_hash (ae_evaluation_id v)
       then Inl InvalidEvaluation
       else (case (ae_delivery_required v, ae_outbox_idempotency_key v) of
               (True, None) \<Rightarrow> Inl MissingOutboxKey
             | (False, Some _) \<Rightarrow> Inl UnexpectedOutboxKey
             | (_, Some key) \<Rightarrow> if \<not> valid_hash key then Inl InvalidOutboxKey else Inr ()
             | _ \<Rightarrow> Inr ()))))"

definition truncate_error :: "string \<Rightarrow> string" where
  "truncate_error message = truncate_at 1024 message"

section \<open>Definitions\<close>

definition register_mempool_definition ::
  "alert_lib \<Rightarrow> u64 \<Rightarrow> alert_definition \<Rightarrow> (alert_db, alert_persistence_error, persist_outcome) io" where
  "register_mempool_definition L version d =
     io_bind (io_result (checked_positive_i64 version)) (\<lambda>v.
     io_bind (io_result (map_sum AlertSerialization id (lib_definition_json L d))) (\<lambda>definition_json.
     io_bind db_call (\<lambda>_.
     io_bind db_call (\<lambda>_.
     io_bind db_call (\<lambda>_ s.
       (case fmlookup (tb_definitions (db_tables s)) (ad_alert_id d, v) of
          Some stored \<Rightarrow>
            io_bind db_call (\<lambda>_.
              if df_definition stored = definition_json then io_return Duplicate
              else io_result (Inl (DefinitionConflict version))) s
        | None \<Rightarrow>
            io_bind db_call (\<lambda>_.
              if \<not> valid_bounded_identity (ad_alert_id d) 128 then io_result (Inl (AlertStorage (lib_constraint L)))
              else io_bind (db_commit ((db_tables s)\<lparr>tb_definitions := fmupd (ad_alert_id d, v)
                  \<lparr>df_kind = alert_kind, df_definition = definition_json, df_status = Enabled\<rparr> (tb_definitions (db_tables s))\<rparr>)) (\<lambda>_.
                io_return Inserted)) s))))))"

section \<open>Evaluations\<close>

record evaluation_write =
  ew_definition_version :: i64
  ew_revision :: i64
  ew_evaluated_at :: i64
  ew_fact_ids :: "string list"
  ew_result :: json
  ew_source_health :: json
  ew_transition :: string
  ew_evaluation :: alert_evaluation

definition evaluation_write_new ::
  "alert_lib \<Rightarrow> u64 \<Rightarrow> i64 \<Rightarrow> string list \<Rightarrow> alert_evaluation \<Rightarrow> alert_persistence_error + evaluation_write" where
  "evaluation_write_new L version at facts v =
     and_then (checked_positive_i64 version) (\<lambda>ver.
     and_then (checked_positive_i64 (ae_revision v)) (\<lambda>rev.
     and_then (normalized_fact_ids facts) (\<lambda>ids.
     and_then (map_sum AlertSerialization id (lib_evaluation_json L v)) (\<lambda>result.
     and_then (map_sum AlertSerialization id (lib_source_health_json L (ae_contributing_sources v)
       (ae_unavailable_sources v) (ae_completeness v) (ae_cause v))) (\<lambda>health.
     Inr \<lparr>ew_definition_version = ver, ew_revision = rev, ew_evaluated_at = at, ew_fact_ids = ids, ew_result = result,
       ew_source_health = health, ew_transition = transition_name (ae_transition v), ew_evaluation = v\<rparr>)))))"

definition definition_key :: "evaluation_write \<Rightarrow> definition_key" where
  "definition_key w = (ae_alert_id (ew_evaluation w), ew_definition_version w)"

definition ensure_definition_exists :: "definition_key \<Rightarrow> u64 \<Rightarrow> (alert_db, alert_persistence_error, unit) io" where
  "ensure_definition_exists key public_version = io_bind db_call (\<lambda>_ s.
     ((case fmlookup (tb_definitions (db_tables s)) key of
         Some d \<Rightarrow> if df_status d = Enabled then Inr () else Inl (DefinitionUnavailable public_version)
       | None \<Rightarrow> Inl (DefinitionUnavailable public_version)), s))"

definition evaluation_matches :: "string \<Rightarrow> evaluation_write \<Rightarrow> (alert_db, alert_persistence_error, bool) io" where
  "evaluation_matches eid w = io_bind db_call (\<lambda>_ s.
     (map_sum id (\<lambda>row. er_input_fact_ids row = ew_fact_ids w \<and> er_evaluated_at row = ew_evaluated_at w \<and>
        er_result row = ew_result w) (ok_or (fmlookup (tb_evaluations (db_tables s)) eid) EvaluationConflict), s))"

definition is_revision_row :: "definition_key \<Rightarrow> i64 \<Rightarrow> evaluation_row \<Rightarrow> bool" where
  "is_revision_row key revision row \<longleftrightarrow> er_definition row = key \<and> er_input_revision row = revision"

definition revision_row :: "alert_tables \<Rightarrow> definition_key \<Rightarrow> i64 \<Rightarrow> string option" where
  "revision_row t key revision =
     hd_opt (filter (\<lambda>eid. is_revision_row key revision (the (fmlookup (tb_evaluations t) eid)))
       (sorted_list_of_fset (fmdom (tb_evaluations t))))"

definition matches_or_conflict :: "string \<Rightarrow> evaluation_write \<Rightarrow> (alert_db, alert_persistence_error, bool) io" where
  "matches_or_conflict eid w = io_bind (evaluation_matches eid w) (\<lambda>same.
     if same then io_return True else io_result (Inl EvaluationConflict))"

definition check_historical_replay :: "evaluation_write \<Rightarrow> i64 \<Rightarrow> (alert_db, alert_persistence_error, bool) io" where
  "check_historical_replay w current = io_bind db_call (\<lambda>_ s.
     (case revision_row (db_tables s) (definition_key w) (ew_revision w) of
        None \<Rightarrow> (Inl (StoredRevisionRegression current (ae_revision (ew_evaluation w))), s)
      | Some eid \<Rightarrow>
          if eid \<noteq> ae_evaluation_id (ew_evaluation w)
          then (Inl (StoredConflictingRevision (ae_revision (ew_evaluation w))), s)
          else matches_or_conflict eid w s))"

definition check_current_state :: "evaluation_write \<Rightarrow> (alert_db, alert_persistence_error, bool) io" where
  "check_current_state w = io_bind db_call (\<lambda>_ s.
     (case fmlookup (tb_state (db_tables s)) (definition_key w) of
        None \<Rightarrow> (Inr False, s)
      | Some current \<Rightarrow>
          if sint (ew_revision w) < sint (sr_last_input_revision current)
          then check_historical_replay w (sr_last_input_revision current) s
          else if sint (sr_last_input_revision current) < sint (ew_revision w) then (Inr False, s)
          else if sr_last_evaluation_id current \<noteq> ae_evaluation_id (ew_evaluation w)
          then (Inl (StoredConflictingRevision (ae_revision (ew_evaluation w))), s)
          else matches_or_conflict (ae_evaluation_id (ew_evaluation w)) w s))"

definition insert_evaluation :: "alert_lib \<Rightarrow> evaluation_write \<Rightarrow> alert_tables \<Rightarrow> (alert_db, alert_persistence_error, alert_tables) io" where
  "insert_evaluation L w t = io_bind db_call (\<lambda>_.
     if ae_evaluation_id (ew_evaluation w) |\<in>| fmdom (tb_evaluations t) \<or>
        (\<exists>row |\<in>| fmran (tb_evaluations t). is_revision_row (definition_key w) (ew_revision w) row) \<or>
        definition_key w |\<notin>| fmdom (tb_definitions t)
     then io_result (Inl (AlertStorage (lib_constraint L)))
     else io_return (t\<lparr>tb_evaluations := fmupd (ae_evaluation_id (ew_evaluation w))
       \<lparr>er_definition = definition_key w, er_kind = ae_kind (ew_evaluation w), er_network = ae_network (ew_evaluation w),
        er_input_revision = ew_revision w, er_input_fact_ids = ew_fact_ids w, er_source_health = ew_source_health w,
        er_result = ew_result w, er_transition = ew_transition w, er_evaluated_at = ew_evaluated_at w\<rparr> (tb_evaluations t)\<rparr>))"

definition advance_state :: "evaluation_write \<Rightarrow> alert_tables \<Rightarrow> (alert_db, alert_persistence_error, alert_tables) io" where
  "advance_state w t = io_bind db_call (\<lambda>_. io_return (t\<lparr>tb_state := fmupd (definition_key w)
     \<lparr>sr_last_evaluation_id = ae_evaluation_id (ew_evaluation w), sr_last_input_revision = ew_revision w,
      sr_active = ae_active (ew_evaluation w), sr_consecutive = unat (ae_consecutive_true_evaluations (ew_evaluation w)),
      sr_last_evaluated_at = ew_evaluated_at w,
      sr_last_triggered_at = (if ew_transition w = ''triggered'' then Some (ew_evaluated_at w)
        else Option.bind (fmlookup (tb_state t) (definition_key w)) sr_last_triggered_at)\<rparr> (tb_state t)\<rparr>))"

definition insert_outbox :: "alert_lib \<Rightarrow> evaluation_write \<Rightarrow> alert_tables \<Rightarrow> (alert_db, alert_persistence_error, alert_tables) io" where
  "insert_outbox L w t =
     (case ae_outbox_idempotency_key (ew_evaluation w) of
        None \<Rightarrow> io_return t
      | Some key \<Rightarrow> io_bind db_call (\<lambda>_ s.
          if key |\<in>| fmdom (tb_outbox t) \<or> (\<exists>row |\<in>| fmran (tb_outbox t). ob_evaluation_id row = ae_evaluation_id (ew_evaluation w))
          then (Inl (AlertStorage (lib_constraint L)), s)
          else (Inr (t\<lparr>tb_outbox := fmupd key
            \<lparr>ob_evaluation_id = ae_evaluation_id (ew_evaluation w), ob_definition = definition_key w, ob_row_payload = ew_result w,
             ob_delivered = False, ob_delivery_attempts = 0, ob_last_error = None, ob_available_at = db_now s,
             ob_created_at = db_now s, ob_delivered_at = None\<rparr> (tb_outbox t)\<rparr>), s)))"

definition write_evaluation :: "alert_lib \<Rightarrow> evaluation_write \<Rightarrow> (alert_db, alert_persistence_error, persist_outcome) io" where
  "write_evaluation L w s =
     io_bind (insert_evaluation L w (db_tables s)) (\<lambda>t1.
     io_bind (advance_state w t1) (\<lambda>t2.
     io_bind (insert_outbox L w t2) (\<lambda>t3.
     io_bind (db_commit t3) (\<lambda>_. io_return Inserted)))) s"

definition persist_mempool_evaluation ::
  "alert_lib \<Rightarrow> u64 \<Rightarrow> i64 \<Rightarrow> string list \<Rightarrow> alert_evaluation \<Rightarrow> (alert_db, alert_persistence_error, persist_outcome) io" where
  "persist_mempool_evaluation L version at facts v =
     io_bind (io_result (validate_evaluation version at facts v)) (\<lambda>_.
     io_bind (io_result (evaluation_write_new L version at facts v)) (\<lambda>w.
     io_bind db_call (\<lambda>_.
     io_bind db_call (\<lambda>_.
     io_bind (ensure_definition_exists (definition_key w) version) (\<lambda>_.
     io_bind (check_current_state w) (\<lambda>duplicate.
     if duplicate then io_bind db_call (\<lambda>_. io_return Duplicate)
     else write_evaluation L w))))))"

section \<open>Audit\<close>

definition count_rows :: "('r \<Rightarrow> bool) \<Rightarrow> ('k :: linorder, 'r) fmap \<Rightarrow> u64" where
  "count_rows p m = of_nat (length (filter (\<lambda>k. p (the (fmlookup m k))) (sorted_list_of_fset (fmdom m))))"

definition audit_summary :: "string \<Rightarrow> u64 \<Rightarrow> (alert_db, alert_persistence_error, alert_audit_summary) io" where
  "audit_summary alert version =
     io_bind (io_result (checked_positive_i64 version)) (\<lambda>v.
     io_bind db_call (\<lambda>_ s.
       let t = db_tables s; mine = (\<lambda>row. ob_definition row = (alert, v))
       in (Inr \<lparr>as_evaluation_count = count_rows (\<lambda>row. er_definition row = (alert, v)) (tb_evaluations t),
             as_outbox_count = count_rows mine (tb_outbox t),
             as_pending_outbox_count = count_rows (\<lambda>row. mine row \<and> \<not> ob_delivered row) (tb_outbox t),
             as_delivered_outbox_count = count_rows (\<lambda>row. mine row \<and> ob_delivered row) (tb_outbox t),
             as_last_revision = map_option sr_last_input_revision (fmlookup (tb_state t) (alert, v))\<rparr>, s)))"

section \<open>Delivery\<close>

record 'k delivery_state =
  ds_db :: alert_db
  ds_sink :: 'k

type_synonym 'k sink = "outbox_delivery \<Rightarrow> 'k \<Rightarrow> (alert_delivery_error + unit) \<times> 'k"

definition on_db :: "(alert_db, alert_persistence_error, 'a) io \<Rightarrow> ('k delivery_state, alert_persistence_error, 'a) io" where
  "on_db m s = (case m (ds_db s) of (r, d) \<Rightarrow> (r, s\<lparr>ds_db := d\<rparr>))"

definition delivery_of :: "string \<Rightarrow> outbox_row \<Rightarrow> outbox_delivery" where
  "delivery_of key row = \<lparr>od_idempotency_key = key, od_evaluation_id = ob_evaluation_id row, od_alert_id = fst (ob_definition row),
     od_definition_version = snd (ob_definition row), od_payload = ob_row_payload row\<rparr>"

text \<open>The rows that are due, oldest first.\<close>

definition due_rows :: "alert_tables \<Rightarrow> i64 \<Rightarrow> outbox_delivery list" where
  "due_rows t now =
     map (\<lambda>k. delivery_of k (the (fmlookup (tb_outbox t) k)))
       (sort_key (\<lambda>k. sint (ob_available_at (the (fmlookup (tb_outbox t) k))))
         (sort_key (\<lambda>k. sint (ob_created_at (the (fmlookup (tb_outbox t) k))))
           (filter (\<lambda>k. \<not> ob_delivered (the (fmlookup (tb_outbox t) k)) \<and>
               sint (ob_available_at (the (fmlookup (tb_outbox t) k))) \<le> sint now)
             (sorted_list_of_fset (fmdom (tb_outbox t))))))"

definition fetch_due :: "u16 \<Rightarrow> (alert_db, alert_persistence_error, outbox_delivery list) io" where
  "fetch_due limit = io_bind db_call (\<lambda>_ s. (Inr (take (unat limit) (due_rows (db_tables s) (db_now s))), s))"

text \<open>An update of the pending row of a key; the result is whether there was one.\<close>

definition update_pending ::
  "alert_lib \<Rightarrow> string \<Rightarrow> (outbox_row \<Rightarrow> outbox_row) \<Rightarrow> (alert_db, alert_persistence_error, bool) io" where
  "update_pending L key change s =
     (case fmlookup (tb_outbox (db_tables s)) key of
        Some row \<Rightarrow>
          if ob_delivered row then io_bind db_call (\<lambda>_. io_return False) s
          else if 2 ^ 31 - 1 \<le> ob_delivery_attempts row
          then io_bind db_call (\<lambda>_. io_result (Inl (AlertStorage (lib_out_of_range L)))) s
          else io_bind (db_commit ((db_tables s)\<lparr>tb_outbox := fmupd key
              (change (row\<lparr>ob_delivery_attempts := ob_delivery_attempts row + 1\<rparr>)) (tb_outbox (db_tables s))\<rparr>)) (\<lambda>_. io_return True) s
      | None \<Rightarrow> io_bind db_call (\<lambda>_. io_return False) s)"

definition mark_delivered :: "alert_lib \<Rightarrow> string \<Rightarrow> (alert_db, alert_persistence_error, bool) io" where
  "mark_delivered L key s =
     update_pending L key (\<lambda>row. row\<lparr>ob_delivered := True, ob_delivered_at := Some (db_now s), ob_last_error := None\<rparr>) s"

definition mark_failed :: "alert_lib \<Rightarrow> string \<Rightarrow> string \<Rightarrow> (alert_db, alert_persistence_error, bool) io" where
  "mark_failed L key message = update_pending L key (\<lambda>row. row\<lparr>ob_last_error := Some message\<rparr>)"

text \<open>What the drain does with the answer of the sink.\<close>

definition settle ::
  "alert_lib \<Rightarrow> string \<Rightarrow> alert_delivery_error + unit \<Rightarrow> delivery_report \<Rightarrow> (alert_db, alert_persistence_error, delivery_report) io" where
  "settle L key answer report =
     (case answer of
        Inr _ \<Rightarrow> io_bind (mark_delivered L key) (\<lambda>updated.
          io_return (if updated then report\<lparr>dl_delivered := saturating_add (dl_delivered report) 1\<rparr> else report))
      | Inl message \<Rightarrow> io_bind (mark_failed L key (truncate_error (''alert delivery failed: '' @ message))) (\<lambda>_.
          io_return (report\<lparr>dl_failed := saturating_add (dl_failed report) 1\<rparr>)))"

definition call_sink :: "'k sink \<Rightarrow> outbox_delivery \<Rightarrow> ('k delivery_state, alert_persistence_error, alert_delivery_error + unit) io" where
  "call_sink deliver d s = (case deliver d (ds_sink s) of (answer, k) \<Rightarrow> (Inr answer, s\<lparr>ds_sink := k\<rparr>))"

fun deliver_rows ::
  "alert_lib \<Rightarrow> 'k sink \<Rightarrow> outbox_delivery list \<Rightarrow> delivery_report \<Rightarrow> ('k delivery_state, alert_persistence_error, delivery_report) io" where
  "deliver_rows L deliver [] report = io_return report"
| "deliver_rows L deliver (d # ds) report =
     io_bind (call_sink deliver d) (\<lambda>answer.
     io_bind (on_db (settle L (od_idempotency_key d) answer report)) (\<lambda>report'.
     deliver_rows L deliver ds report'))"

definition deliver_pending ::
  "alert_lib \<Rightarrow> 'k sink \<Rightarrow> u16 \<Rightarrow> ('k delivery_state, alert_persistence_error, delivery_report) io" where
  "deliver_pending L deliver limit =
     (if limit = 0 \<or> MAX_DELIVERY_BATCH < limit then io_result (Inl InvalidDeliveryBatch)
      else io_bind (on_db (fetch_due limit)) (\<lambda>rows. deliver_rows L deliver rows \<lparr>dl_delivered = 0, dl_failed = 0\<rparr>))"

text \<open>The sink in memory.\<close>

type_synonym memory_sink = "(string, outbox_delivery) fmap"

definition memory_sink_deliver :: "memory_sink sink" where
  "memory_sink_deliver d k =
     (Inr (), if od_idempotency_key d |\<in>| fmdom k then k else fmupd (od_idempotency_key d) d k)"

end
