(* ===== verification/Alert_Outbox.thy ===== *)
theory Alert_Outbox
  imports Alert_Store
begin

text \<open>
  What the alert store keeps: the tables agree with each other after every transaction, and the sink holds
  what the outbox says, over any interleaving of transactions, several drains of the outbox, failures of
  the database and of the sink, and crashes.
\<close>

section \<open>Transactions\<close>

definition row_of :: "evaluation_write \<Rightarrow> evaluation_row" where
  "row_of w = \<lparr>er_definition = definition_key w, er_kind = ae_kind (ew_evaluation w), er_network = ae_network (ew_evaluation w),
     er_input_revision = ew_revision w, er_input_fact_ids = ew_fact_ids w, er_source_health = ew_source_health w,
     er_result = ew_result w, er_transition = ew_transition w, er_evaluated_at = ew_evaluated_at w\<rparr>"

definition state_of :: "evaluation_write \<Rightarrow> alert_tables \<Rightarrow> state_row" where
  "state_of w t = \<lparr>sr_last_evaluation_id = ae_evaluation_id (ew_evaluation w), sr_last_input_revision = ew_revision w,
     sr_active = ae_active (ew_evaluation w), sr_consecutive = unat (ae_consecutive_true_evaluations (ew_evaluation w)),
     sr_last_evaluated_at = ew_evaluated_at w,
     sr_last_triggered_at = (if ew_transition w = ''triggered'' then Some (ew_evaluated_at w)
       else Option.bind (fmlookup (tb_state t) (definition_key w)) sr_last_triggered_at)\<rparr>"

definition outbox_of :: "evaluation_write \<Rightarrow> i64 \<Rightarrow> outbox_row" where
  "outbox_of w now = \<lparr>ob_evaluation_id = ae_evaluation_id (ew_evaluation w), ob_definition = definition_key w, ob_row_payload = ew_result w,
     ob_delivered = False, ob_delivery_attempts = 0, ob_last_error = None, ob_available_at = now,
     ob_created_at = now, ob_delivered_at = None\<rparr>"

text \<open>The tables after the transaction of an evaluation that is new.\<close>

definition added :: "evaluation_write \<Rightarrow> i64 \<Rightarrow> alert_tables \<Rightarrow> alert_tables" where
  "added w now t = t\<lparr>tb_evaluations := fmupd (ae_evaluation_id (ew_evaluation w)) (row_of w) (tb_evaluations t),
     tb_state := fmupd (definition_key w) (state_of w t) (tb_state t),
     tb_outbox := (case ae_outbox_idempotency_key (ew_evaluation w) of None \<Rightarrow> tb_outbox t
       | Some key \<Rightarrow> fmupd key (outbox_of w now) (tb_outbox t))\<rparr>"

definition addable :: "evaluation_write \<Rightarrow> alert_tables \<Rightarrow> bool" where
  "addable w t \<longleftrightarrow> ae_evaluation_id (ew_evaluation w) |\<notin>| fmdom (tb_evaluations t) \<and>
     (\<forall>row. row |\<in>| fmran (tb_evaluations t) \<longrightarrow> \<not> is_revision_row (definition_key w) (ew_revision w) row) \<and>
     definition_key w |\<in>| fmdom (tb_definitions t) \<and>
     (\<forall>key. ae_outbox_idempotency_key (ew_evaluation w) = Some key \<longrightarrow> key |\<notin>| fmdom (tb_outbox t)) \<and>
     (\<forall>row. fmlookup (tb_state t) (definition_key w) = Some row \<longrightarrow> sint (sr_last_input_revision row) < sint (ew_revision w))"

text \<open>A call of the database keeps the tables and the clock; only its answers are used up.\<close>

definition same_db :: "alert_db \<Rightarrow> alert_db \<Rightarrow> bool" where
  "same_db s s' \<longleftrightarrow> db_tables s' = db_tables s \<and> db_now s' = db_now s"

lemma same_db_refl [simp]: "same_db s s"
  by (simp add: same_db_def)

lemma same_db_trans: "same_db s s' \<Longrightarrow> same_db s' s'' \<Longrightarrow> same_db s s''"
  by (simp add: same_db_def)

lemma db_call_triple: "io_triple (\<lambda>s. A \<and> same_db s0 s) db_call (\<lambda>_ s. A \<and> same_db s0 s) (same_db s0)"
  by (auto simp: io_triple_def db_call_def same_db_def split: list.splits io_answer.splits)

lemma db_call_same: "io_triple (same_db s0) db_call (\<lambda>_. same_db s0) (same_db s0)"
  using db_call_triple [of True s0] by simp

lemma io_result_same: "io_triple (same_db s0) (io_result r) (\<lambda>x s. r = Inr x \<and> same_db s0 s) (same_db s0)"
  by (rule io_triple_result) auto

lemma ensure_definition_triple:
  "io_triple (same_db s0) (ensure_definition_exists key v)
     (\<lambda>_ s. (\<exists>d. fmlookup (tb_definitions (db_tables s0)) key = Some d \<and> df_status d = Enabled) \<and> same_db s0 s) (same_db s0)"
  unfolding ensure_definition_exists_def
  by (rule io_triple_bind [OF db_call_same]) (auto simp: io_triple_def same_db_def split: option.splits)

text \<open>A row that is found again answers for the write.\<close>

definition repeats :: "evaluation_write \<Rightarrow> alert_tables \<Rightarrow> bool" where
  "repeats w t \<longleftrightarrow> (\<exists>row. fmlookup (tb_evaluations t) (ae_evaluation_id (ew_evaluation w)) = Some row \<and>
     er_input_fact_ids row = ew_fact_ids w \<and> er_evaluated_at row = ew_evaluated_at w \<and> er_result row = ew_result w)"

lemma matches_triple:
  "eid = ae_evaluation_id (ew_evaluation w) \<Longrightarrow> io_triple (same_db s0) (matches_or_conflict eid w)
     (\<lambda>b s. (b \<and> repeats w (db_tables s0)) \<and> same_db s0 s) (same_db s0)"
  unfolding matches_or_conflict_def evaluation_matches_def
  by (auto intro!: io_triple_bind [OF io_triple_bind [OF db_call_same],
      where R = "\<lambda>b s. (b \<longrightarrow> repeats w (db_tables s0)) \<and> same_db s0 s"])
    (auto simp: io_triple_def same_db_def repeats_def ok_or_def split: option.splits)

lemma check_current_state_triple:
  "io_triple (same_db s0) (check_current_state w)
     (\<lambda>b s. (if b then repeats w (db_tables s0)
        else \<forall>row. fmlookup (tb_state (db_tables s0)) (definition_key w) = Some row \<longrightarrow> sint (sr_last_input_revision row) < sint (ew_revision w)) \<and>
       same_db s0 s) (same_db s0)" (is "io_triple _ _ ?Q _")
proof -
  have same: "io_triple (same_db s0) (matches_or_conflict (ae_evaluation_id (ew_evaluation w)) w) ?Q (same_db s0)"
    by (rule io_triple_weaken [OF matches_triple [OF refl]]) auto
  have again: "io_triple (\<lambda>s. same_db s0 s \<and> R s) (\<lambda>s. if eid \<noteq> ae_evaluation_id (ew_evaluation w)
        then (Inl (StoredConflictingRevision (ae_revision (ew_evaluation w))), s)
        else matches_or_conflict (ae_evaluation_id (ew_evaluation w)) w s) ?Q (same_db s0)" for eid R
    by (rule io_triple_if, rule io_triple_error, simp) (rule io_triple_weaken [OF same], auto)
  have historical: "io_triple (same_db s0) (check_historical_replay w current) ?Q (same_db s0)" for current
    unfolding check_historical_replay_def
  proof (rule io_triple_bind [OF db_call_same], rule io_triple_case_option)
    fix eid
    have "(\<lambda>s. if eid \<noteq> ae_evaluation_id (ew_evaluation w)
        then (Inl (StoredConflictingRevision (ae_revision (ew_evaluation w))), s) else matches_or_conflict eid w s) =
      (\<lambda>s. if eid \<noteq> ae_evaluation_id (ew_evaluation w)
        then (Inl (StoredConflictingRevision (ae_revision (ew_evaluation w))), s)
        else matches_or_conflict (ae_evaluation_id (ew_evaluation w)) w s)" by auto
    then show "io_triple (\<lambda>s. same_db s0 s \<and> revision_row (db_tables s) (definition_key w) (ew_revision w) = Some eid)
      (\<lambda>s. if eid \<noteq> ae_evaluation_id (ew_evaluation w)
        then (Inl (StoredConflictingRevision (ae_revision (ew_evaluation w))), s) else matches_or_conflict eid w s) ?Q (same_db s0)"
      using again [of "\<lambda>s. revision_row (db_tables s) (definition_key w) (ew_revision w) = Some eid" eid] by simp
  qed (auto intro: io_triple_error)
  show ?thesis unfolding check_current_state_def
  proof (rule io_triple_bind [OF db_call_same], rule io_triple_case_option, rule io_triple_if)
    fix current
    show "io_triple (\<lambda>s. (same_db s0 s \<and> fmlookup (tb_state (db_tables s)) (definition_key w) = Some current) \<and>
        sint (ew_revision w) < sint (sr_last_input_revision current)) (check_historical_replay w (sr_last_input_revision current)) ?Q (same_db s0)"
      by (rule io_triple_weaken [OF historical]) auto
    show "io_triple (\<lambda>s. (same_db s0 s \<and> fmlookup (tb_state (db_tables s)) (definition_key w) = Some current) \<and>
        \<not> sint (ew_revision w) < sint (sr_last_input_revision current))
      (\<lambda>s. if sint (sr_last_input_revision current) < sint (ew_revision w) then (Inr False, s)
        else if sr_last_evaluation_id current \<noteq> ae_evaluation_id (ew_evaluation w)
        then (Inl (StoredConflictingRevision (ae_revision (ew_evaluation w))), s)
        else matches_or_conflict (ae_evaluation_id (ew_evaluation w)) w s) ?Q (same_db s0)"
    proof (rule io_triple_if)
      show "io_triple (\<lambda>s. ((same_db s0 s \<and> fmlookup (tb_state (db_tables s)) (definition_key w) = Some current) \<and>
          \<not> sint (ew_revision w) < sint (sr_last_input_revision current)) \<and> sint (sr_last_input_revision current) < sint (ew_revision w))
        (\<lambda>s. (Inr False, s)) ?Q (same_db s0)"
        by (rule io_triple_value) (auto simp: same_db_def)
    qed (rule io_triple_weaken [OF again [of "\<lambda>_. True"]], auto)
  next
    show "io_triple (\<lambda>s. same_db s0 s \<and> fmlookup (tb_state (db_tables s)) (definition_key w) = None) (\<lambda>s. (Inr False, s)) ?Q (same_db s0)"
      by (rule io_triple_value) (auto simp: same_db_def)
  qed
qed

text \<open>A write leaves the tables as they were or adds the evaluation, and success means that it was added.\<close>

definition put :: "alert_db \<Rightarrow> evaluation_write \<Rightarrow> alert_db \<Rightarrow> bool" where
  "put s0 w s \<longleftrightarrow> addable w (db_tables s0) \<and> db_tables s = added w (db_now s0) (db_tables s0) \<and> db_now s = db_now s0"

definition kept :: "alert_db \<Rightarrow> evaluation_write \<Rightarrow> alert_db \<Rightarrow> bool" where
  "kept s0 w s \<longleftrightarrow> same_db s0 s \<or> put s0 w s"

lemma same_kept: "same_db s0 s \<Longrightarrow> kept s0 w s"
  by (simp add: kept_def)

lemma db_commit_triple:
  assumes "addable w (db_tables s0)"
  shows "io_triple (same_db s0) (db_commit (added w (db_now s0) (db_tables s0))) (\<lambda>_. put s0 w) (kept s0 w)"
  using assms by (auto simp: io_triple_def db_commit_def same_db_def put_def kept_def split: list.splits io_answer.splits)

lemma weaken_failure: "io_triple P m Q (same_db s0) \<Longrightarrow> io_triple P m Q (kept s0 w)"
  by (erule io_triple_weaken) (auto intro: same_kept)

lemma write_evaluation_triple:
  assumes newer: "\<forall>row. fmlookup (tb_state (db_tables s0)) (definition_key w) = Some row \<longrightarrow> sint (sr_last_input_revision row) < sint (ew_revision w)"
  shows "io_triple (same_db s0) (write_evaluation L w) (\<lambda>out s. out = Inserted \<and> put s0 w s) (kept s0 w)"
proof -
  define t1 where "t1 = (db_tables s0)\<lparr>tb_evaluations := fmupd (ae_evaluation_id (ew_evaluation w)) (row_of w) (tb_evaluations (db_tables s0))\<rparr>"
  define t2 where "t2 = t1\<lparr>tb_state := fmupd (definition_key w) (state_of w t1) (tb_state t1)\<rparr>"
  let ?fresh = "ae_evaluation_id (ew_evaluation w) |\<notin>| fmdom (tb_evaluations (db_tables s0)) \<and>
     (\<forall>row. row |\<in>| fmran (tb_evaluations (db_tables s0)) \<longrightarrow> \<not> is_revision_row (definition_key w) (ew_revision w) row) \<and>
     definition_key w |\<in>| fmdom (tb_definitions (db_tables s0))"
  have one: "io_triple (same_db s0) (insert_evaluation L w (db_tables s0)) (\<lambda>t s. (t = t1 \<and> ?fresh) \<and> same_db s0 s) (same_db s0)"
    unfolding insert_evaluation_def by (rule io_triple_bind [OF db_call_same]) (auto simp: io_triple_def t1_def row_of_def)
  have two: "io_triple (same_db s0) (advance_state w t1) (\<lambda>t s. t = t2 \<and> same_db s0 s) (same_db s0)"
    unfolding advance_state_def by (rule io_triple_bind [OF db_call_same]) (auto simp: io_triple_def t2_def state_of_def)
  have three: "io_triple (same_db s0) (insert_outbox L w t2) (\<lambda>t s. (t = added w (db_now s0) (db_tables s0) \<and>
      (\<forall>key. ae_outbox_idempotency_key (ew_evaluation w) = Some key \<longrightarrow> key |\<notin>| fmdom (tb_outbox (db_tables s0)))) \<and> same_db s0 s) (same_db s0)"
    unfolding insert_outbox_def
    by (cases "ae_outbox_idempotency_key (ew_evaluation w)")
      (auto simp: io_triple_def added_def t1_def t2_def state_of_def outbox_of_def same_db_def io_bind_def db_call_def
        split: list.splits io_answer.splits if_splits)
  have "io_triple (same_db s0) (io_bind (insert_evaluation L w (db_tables s0)) (\<lambda>t1.
     io_bind (advance_state w t1) (\<lambda>t2.
     io_bind (insert_outbox L w t2) (\<lambda>t3.
     io_bind (db_commit t3) (\<lambda>_. io_return Inserted))))) (\<lambda>out s. out = Inserted \<and> put s0 w s) (kept s0 w)"
  proof (rule io_triple_bind [OF weaken_failure [OF one]], rule io_triple_pre, elim conjE, hypsubst)
    assume fresh: "ae_evaluation_id (ew_evaluation w) |\<notin>| fmdom (tb_evaluations (db_tables s0))"
      "\<forall>row. row |\<in>| fmran (tb_evaluations (db_tables s0)) \<longrightarrow> \<not> is_revision_row (definition_key w) (ew_revision w) row"
      "definition_key w |\<in>| fmdom (tb_definitions (db_tables s0))"
    show "io_triple (same_db s0) (io_bind (advance_state w t1) (\<lambda>t2. io_bind (insert_outbox L w t2) (\<lambda>t3.
        io_bind (db_commit t3) (\<lambda>_. io_return Inserted)))) (\<lambda>out s. out = Inserted \<and> put s0 w s) (kept s0 w)"
    proof (rule io_triple_bind [OF weaken_failure [OF two]], rule io_triple_pre, hypsubst,
        rule io_triple_bind [OF weaken_failure [OF three]], rule io_triple_pre, elim conjE, hypsubst)
      assume "\<forall>key. ae_outbox_idempotency_key (ew_evaluation w) = Some key \<longrightarrow> key |\<notin>| fmdom (tb_outbox (db_tables s0))"
      with fresh newer have "addable w (db_tables s0)" by (simp add: addable_def)
      from db_commit_triple [OF this]
      show "io_triple (same_db s0) (io_bind (db_commit (added w (db_now s0) (db_tables s0))) (\<lambda>_. io_return Inserted))
          (\<lambda>out s. out = Inserted \<and> put s0 w s) (kept s0 w)"
        by (rule io_triple_bind) (auto intro: io_triple_return)
    qed
  qed
  then show ?thesis by (simp add: io_triple_def write_evaluation_def same_db_def)
qed

text \<open>A write that the checks accepted.\<close>

definition valid_write :: "alert_lib \<Rightarrow> evaluation_write \<Rightarrow> bool" where
  "valid_write L w \<longleftrightarrow> (\<exists>version at facts. validate_evaluation version at facts (ew_evaluation w) = Inr () \<and>
     evaluation_write_new L version at facts (ew_evaluation w) = Inr w)"

lemma evaluation_write_new_evaluation: "evaluation_write_new L version at facts v = Inr w \<Longrightarrow> ew_evaluation w = v"
  by (auto simp: evaluation_write_new_def rust_result)

lemma persist_triple:
  "io_triple (same_db s0) (persist_mempool_evaluation L version at facts v)
     (\<lambda>out s. \<exists>w. valid_write L w \<and> evaluation_write_new L version at facts v = Inr w \<and>
       (if out = Inserted then put s0 w s else repeats w (db_tables s0) \<and> same_db s0 s))
     (\<lambda>s. same_db s0 s \<or> (\<exists>w. valid_write L w \<and> evaluation_write_new L version at facts v = Inr w \<and> put s0 w s))"
     (is "io_triple _ _ ?Q ?E")
proof (cases "validate_evaluation version at facts v = Inr () \<and> (\<exists>w. evaluation_write_new L version at facts v = Inr w)")
  case True
  then obtain w where w: "validate_evaluation version at facts v = Inr ()" "evaluation_write_new L version at facts v = Inr w" by blast
  then have valid: "valid_write L w" using evaluation_write_new_evaluation [OF w(2)] by (auto simp: valid_write_def)
  have call: "io_triple (same_db s0) db_call (\<lambda>_. same_db s0) ?E" by (rule io_triple_weaken [OF db_call_same]) auto
  have last: "io_triple (\<lambda>s. (if b then repeats w (db_tables s0)
        else \<forall>row. fmlookup (tb_state (db_tables s0)) (definition_key w) = Some row \<longrightarrow> sint (sr_last_input_revision row) < sint (ew_revision w)) \<and>
       same_db s0 s) (if b then io_bind db_call (\<lambda>_. io_return Duplicate) else write_evaluation L w) ?Q ?E" for b
  proof (rule io_triple_pre, cases b)
    case True
    assume "if b then repeats w (db_tables s0)
        else \<forall>row. fmlookup (tb_state (db_tables s0)) (definition_key w) = Some row \<longrightarrow> sint (sr_last_input_revision row) < sint (ew_revision w)"
    with True have "repeats w (db_tables s0)" by simp
    then have "io_triple (same_db s0) (io_bind db_call (\<lambda>_. io_return Duplicate)) ?Q ?E"
      using valid w(2) by (intro io_triple_bind [OF call] io_triple_return) auto
    then show "io_triple (same_db s0) (if b then io_bind db_call (\<lambda>_. io_return Duplicate) else write_evaluation L w) ?Q ?E"
      using True by simp
  next
    case False
    assume "if b then repeats w (db_tables s0)
        else \<forall>row. fmlookup (tb_state (db_tables s0)) (definition_key w) = Some row \<longrightarrow> sint (sr_last_input_revision row) < sint (ew_revision w)"
    with False have newer: "\<forall>row. fmlookup (tb_state (db_tables s0)) (definition_key w) = Some row \<longrightarrow> sint (sr_last_input_revision row) < sint (ew_revision w)"
      by simp
    have "io_triple (same_db s0) (write_evaluation L w) ?Q ?E"
      by (rule io_triple_weaken [OF write_evaluation_triple [OF newer]]) (use valid w(2) in \<open>auto simp: kept_def\<close>)
    then show "io_triple (same_db s0) (if b then io_bind db_call (\<lambda>_. io_return Duplicate) else write_evaluation L w) ?Q ?E"
      using False by simp
  qed
  have "io_triple (same_db s0) (io_bind db_call (\<lambda>_. io_bind db_call (\<lambda>_.
     io_bind (ensure_definition_exists (definition_key w) version) (\<lambda>_. io_bind (check_current_state w) (\<lambda>duplicate.
     if duplicate then io_bind db_call (\<lambda>_. io_return Duplicate) else write_evaluation L w))))) ?Q ?E"
    by (intro io_triple_bind [OF call] io_triple_bind [OF io_triple_weaken [OF ensure_definition_triple], where R = "\<lambda>_. same_db s0"]
        io_triple_bind [OF io_triple_weaken [OF check_current_state_triple] last]) auto
  then show ?thesis using w by (simp add: persist_mempool_evaluation_def io_triple_def io_bind_def)
next
  case False
  then show ?thesis
    by (cases "validate_evaluation version at facts v"; cases "evaluation_write_new L version at facts v")
      (auto simp: persist_mempool_evaluation_def io_triple_def io_bind_def)
qed

definition registered :: "alert_db \<Rightarrow> alert_db \<Rightarrow> bool" where
  "registered s0 s \<longleftrightarrow> (\<exists>key row. fmlookup (tb_definitions (db_tables s0)) key = None \<and> df_status row = Enabled \<and>
     db_now s = db_now s0 \<and> db_tables s = (db_tables s0)\<lparr>tb_definitions := fmupd key row (tb_definitions (db_tables s0))\<rparr>)"

lemma register_triple:
  "io_triple (same_db s0) (register_mempool_definition L version d) (\<lambda>out s. if out = Inserted then registered s0 s else same_db s0 s)
     (\<lambda>s. same_db s0 s \<or> registered s0 s)" (is "io_triple _ _ ?Q ?E")
proof -
  have call: "io_triple (same_db s0) db_call (\<lambda>_. same_db s0) ?E" by (rule io_triple_weaken [OF db_call_same]) auto
  have result: "io_triple (same_db s0) (io_result r) (\<lambda>_. same_db s0) ?E" for r :: "alert_persistence_error + i64"
    by (rule io_triple_result) auto
  have result_json: "io_triple (same_db s0) (io_result r) (\<lambda>_. same_db s0) ?E" for r :: "alert_persistence_error + json"
    by (rule io_triple_result) auto
  show ?thesis unfolding register_mempool_definition_def
  proof (rule io_triple_bind [OF result], rule io_triple_bind [OF result_json], intro io_triple_bind [OF call])
    fix v :: i64 and definition_json :: json
    let ?key = "(ad_alert_id d, v)" and ?row = "\<lparr>df_kind = alert_kind, df_definition = definition_json, df_status = Enabled\<rparr>"
    let ?new = "\<lambda>t. io_bind db_call (\<lambda>_.
        if \<not> valid_bounded_identity (ad_alert_id d) 128 then io_result (Inl (AlertStorage (lib_constraint L)))
        else io_bind (db_commit (t\<lparr>tb_definitions := fmupd ?key ?row (tb_definitions t)\<rparr>)) (\<lambda>_. io_return Inserted))"
    let ?old = "\<lambda>stored. io_bind db_call (\<lambda>_. if df_definition stored = definition_json then io_return Duplicate
        else io_result (Inl (DefinitionConflict version)))"
    have old: "io_triple (same_db s0) (?old stored) ?Q ?E" for stored
      by (rule io_triple_bind [OF call]) (auto simp: io_triple_def)
    have new: "io_triple (same_db s0) (?new (db_tables s0)) ?Q ?E" if "fmlookup (tb_definitions (db_tables s0)) ?key = None"
    proof (rule io_triple_bind [OF call])
      have "registered s0 (s\<lparr>db_tables := (db_tables s0)\<lparr>tb_definitions := fmupd ?key ?row (tb_definitions (db_tables s0))\<rparr>, db_io := as\<rparr>)"
        if "same_db s0 s" for s as
        using that \<open>fmlookup _ ?key = None\<close> unfolding registered_def
        by (intro exI [of _ ?key] exI [of _ ?row]) (simp add: same_db_def)
      then show "io_triple (same_db s0) (if \<not> valid_bounded_identity (ad_alert_id d) 128 then io_result (Inl (AlertStorage (lib_constraint L)))
        else io_bind (db_commit ((db_tables s0)\<lparr>tb_definitions := fmupd ?key ?row (tb_definitions (db_tables s0))\<rparr>)) (\<lambda>_. io_return Inserted)) ?Q ?E"
        by (auto simp: io_triple_def io_bind_def db_commit_def split: list.split io_answer.split) (simp_all add: same_db_def)
    qed
    show "io_triple (same_db s0) (\<lambda>s. case fmlookup (tb_definitions (db_tables s)) ?key of
          Some stored \<Rightarrow> ?old stored s | None \<Rightarrow> ?new (db_tables s) s) ?Q ?E"
      unfolding io_triple_def
    proof (intro allI impI)
      fix s
      assume s: "same_db s0 s"
      then have t: "db_tables s = db_tables s0" by (simp add: same_db_def)
      show "case (case fmlookup (tb_definitions (db_tables s)) ?key of
          Some stored \<Rightarrow> ?old stored s | None \<Rightarrow> ?new (db_tables s) s) of (Inr x, s') \<Rightarrow> ?Q x s' | (Inl e, s') \<Rightarrow> ?E s'"
      proof (cases "fmlookup (tb_definitions (db_tables s0)) ?key")
        case None
        show ?thesis using io_triple_at [OF new [OF None] s] by (simp only: t None option.case)
      next
        case (Some stored)
        show ?thesis using io_triple_at [OF old [of stored] s] by (simp only: t Some option.case)
      qed
    qed
  qed
qed

section \<open>Consistency of the tables\<close>

text \<open>The evaluations of a definition, and what its state says of them: the evaluation of the greatest
  revision, and the time of the last one that triggered.\<close>

definition rows_of :: "alert_tables \<Rightarrow> definition_key \<Rightarrow> evaluation_row set" where
  "rows_of t key = {row. (\<exists>eid. fmlookup (tb_evaluations t) eid = Some row) \<and> er_definition row = key}"

definition triggers_of :: "alert_tables \<Rightarrow> definition_key \<Rightarrow> evaluation_row set" where
  "triggers_of t key = {row \<in> rows_of t key. er_transition row = ''triggered''}"

definition state_ok :: "alert_tables \<Rightarrow> definition_key \<Rightarrow> state_row \<Rightarrow> bool" where
  "state_ok t key st \<longleftrightarrow>
     (\<exists>row. fmlookup (tb_evaluations t) (sr_last_evaluation_id st) = Some row \<and> er_definition row = key \<and>
       er_input_revision row = sr_last_input_revision st \<and> er_evaluated_at row = sr_last_evaluated_at st) \<and>
     (\<forall>row \<in> rows_of t key. sint (er_input_revision row) \<le> sint (sr_last_input_revision st)) \<and>
     (case sr_last_triggered_at st of
        None \<Rightarrow> triggers_of t key = {}
      | Some at \<Rightarrow> \<exists>row \<in> triggers_of t key. er_evaluated_at row = at \<and>
          (\<forall>row' \<in> triggers_of t key. sint (er_input_revision row') \<le> sint (er_input_revision row)))"

text \<open>Every evaluation was written by an accepted write, and the outbox has exactly the rows that the writes
  ask for.\<close>

definition evaluations_ok :: "alert_lib \<Rightarrow> (string \<Rightarrow> evaluation_write) \<Rightarrow> alert_tables \<Rightarrow> bool" where
  "evaluations_ok L f t \<longleftrightarrow>
     (\<forall>eid row. fmlookup (tb_evaluations t) eid = Some row \<longrightarrow> valid_write L (f eid) \<and> row = row_of (f eid) \<and>
       ae_evaluation_id (ew_evaluation (f eid)) = eid \<and> fmlookup (tb_state t) (er_definition row) \<noteq> None \<and>
       (\<forall>key. ae_outbox_idempotency_key (ew_evaluation (f eid)) = Some key \<longrightarrow>
         (\<exists>ob. fmlookup (tb_outbox t) key = Some ob \<and> ob_evaluation_id ob = eid))) \<and>
     (\<forall>key ob. fmlookup (tb_outbox t) key = Some ob \<longrightarrow>
       fmlookup (tb_evaluations t) (ob_evaluation_id ob) \<noteq> None \<and>
       ae_outbox_idempotency_key (ew_evaluation (f (ob_evaluation_id ob))) = Some key \<and>
       ob_definition ob = definition_key (f (ob_evaluation_id ob)) \<and> ob_row_payload ob = ew_result (f (ob_evaluation_id ob)))"

text \<open>A revision of a definition is evaluated once, and every definition is enabled.\<close>

definition keys_ok :: "alert_tables \<Rightarrow> bool" where
  "keys_ok t \<longleftrightarrow>
     (\<forall>eid eid' row row'. fmlookup (tb_evaluations t) eid = Some row \<longrightarrow> fmlookup (tb_evaluations t) eid' = Some row' \<longrightarrow>
       er_definition row = er_definition row' \<longrightarrow> er_input_revision row = er_input_revision row' \<longrightarrow> eid = eid') \<and>
     (\<forall>eid row. fmlookup (tb_evaluations t) eid = Some row \<longrightarrow> fmlookup (tb_definitions t) (er_definition row) \<noteq> None) \<and>
     (\<forall>key d. fmlookup (tb_definitions t) key = Some d \<longrightarrow> df_status d = Enabled)"

definition tables_ok :: "alert_lib \<Rightarrow> (string \<Rightarrow> evaluation_write) \<Rightarrow> alert_tables \<Rightarrow> bool" where
  "tables_ok L f t \<longleftrightarrow> evaluations_ok L f t \<and> (\<forall>key st. fmlookup (tb_state t) key = Some st \<longrightarrow> state_ok t key st) \<and> keys_ok t"

lemma added_lookup:
  "fmlookup (tb_evaluations (added w now t)) eid = (if eid = ae_evaluation_id (ew_evaluation w) then Some (row_of w) else fmlookup (tb_evaluations t) eid)"
  "fmlookup (tb_state (added w now t)) key = (if key = definition_key w then Some (state_of w t) else fmlookup (tb_state t) key)"
  "fmlookup (tb_outbox (added w now t)) k = (if ae_outbox_idempotency_key (ew_evaluation w) = Some k then Some (outbox_of w now) else fmlookup (tb_outbox t) k)"
  "tb_definitions (added w now t) = tb_definitions t"
  by (auto simp: added_def split: option.split)

lemma addable_fresh:
  assumes "addable w t"
  shows "fmlookup (tb_evaluations t) (ae_evaluation_id (ew_evaluation w)) = None"
    "ae_outbox_idempotency_key (ew_evaluation w) = Some k \<Longrightarrow> fmlookup (tb_outbox t) k = None"
  using assms by (auto simp: addable_def intro: fmdom_notD)

lemma rows_added:
  assumes "addable w t"
  shows "rows_of (added w now t) key = rows_of t key \<union> (if key = definition_key w then {row_of w} else {})"
  using addable_fresh(1) [OF assms] by (auto simp: rows_of_def added_lookup row_of_def) (metis option.discI)+

lemma triggers_added:
  assumes "addable w t"
  shows "triggers_of (added w now t) key =
    triggers_of t key \<union> (if key = definition_key w \<and> ew_transition w = ''triggered'' then {row_of w} else {})"
  unfolding triggers_of_def rows_added [OF assms] by (auto simp: row_of_def)

lemma state_ok_cong:
  assumes "tb_evaluations t' = tb_evaluations t"
  shows "state_ok t' key st = state_ok t key st"
proof -
  have sets: "rows_of t' key = rows_of t key" "triggers_of t' key = triggers_of t key"
    using assms by (simp_all add: rows_of_def triggers_of_def)
  show ?thesis unfolding state_ok_def assms sets by (rule refl)
qed

lemma rows_have_state: "tables_ok L f t \<Longrightarrow> row \<in> rows_of t key \<Longrightarrow> \<exists>st. fmlookup (tb_state t) key = Some st"
  by (auto simp: tables_ok_def evaluations_ok_def rows_of_def)

lemma state_ok_added:
  assumes "addable w t" "tables_ok L f t"
  shows "state_ok (added w now t) (definition_key w) (state_of w t)"
proof -
  let ?key = "definition_key w"
  have old: "sint (er_input_revision row) < sint (ew_revision w)" if row: "row \<in> rows_of t ?key" for row
  proof -
    obtain st where st: "fmlookup (tb_state t) ?key = Some st"
      using rows_have_state [OF assms(2) row] by blast
    then have "state_ok t ?key st" "sint (sr_last_input_revision st) < sint (ew_revision w)"
      using assms unfolding tables_ok_def addable_def by blast+
    then show ?thesis using row unfolding state_ok_def by (meson le_less_trans)
  qed
  have trigger: "case Option.bind (fmlookup (tb_state t) ?key) sr_last_triggered_at of
        None \<Rightarrow> triggers_of t ?key = {}
      | Some at \<Rightarrow> \<exists>row \<in> triggers_of t ?key. er_evaluated_at row = at \<and>
          (\<forall>row' \<in> triggers_of t ?key. sint (er_input_revision row') \<le> sint (er_input_revision row))"
  proof (cases "fmlookup (tb_state t) ?key")
    case None
    then have "rows_of t ?key = {}" using rows_have_state [OF assms(2)] by fastforce
    then show ?thesis using None by (simp add: triggers_of_def)
  next
    case (Some st)
    then have "state_ok t ?key st" using assms(2) unfolding tables_ok_def by blast
    then show ?thesis using Some by (simp add: state_ok_def)
  qed
  have new: "\<forall>row \<in> triggers_of t ?key. sint (er_input_revision row) \<le> sint (ew_revision w)"
    using old by (auto simp: triggers_of_def intro: less_imp_le)
  have "case sr_last_triggered_at (state_of w t) of
        None \<Rightarrow> triggers_of (added w now t) ?key = {}
      | Some at \<Rightarrow> \<exists>row \<in> triggers_of (added w now t) ?key. er_evaluated_at row = at \<and>
          (\<forall>row' \<in> triggers_of (added w now t) ?key. sint (er_input_revision row') \<le> sint (er_input_revision row))"
  proof (cases "ew_transition w = ''triggered''")
    case True
    then show ?thesis unfolding triggers_added [OF assms(1)] using new by (auto simp: state_of_def row_of_def)
  next
    case False
    then have eq: "triggers_of (added w now t) ?key = triggers_of t ?key"
      "sr_last_triggered_at (state_of w t) = Option.bind (fmlookup (tb_state t) ?key) sr_last_triggered_at"
      unfolding triggers_added [OF assms(1)] by (simp_all add: state_of_def)
    show ?thesis unfolding eq by (rule trigger)
  qed
  moreover have "\<forall>row \<in> rows_of (added w now t) ?key. sint (er_input_revision row) \<le> sint (sr_last_input_revision (state_of w t))"
    unfolding rows_added [OF assms(1)] using old by (auto simp: state_of_def row_of_def intro: less_imp_le)
  ultimately show ?thesis
    by (simp add: state_ok_def added_lookup) (simp add: state_of_def row_of_def)
qed

lemma keys_ok_added:
  assumes "addable w t" "keys_ok t"
  shows "keys_ok (added w now t)"
proof -
  have "\<not> is_revision_row (definition_key w) (ew_revision w) row" if "fmlookup (tb_evaluations t) eid = Some row" for eid row
    using assms(1) that unfolding addable_def by (meson fmranI)
  then have new: False if "fmlookup (tb_evaluations t) eid = Some row" "er_definition row = er_definition (row_of w)"
      "er_input_revision row = er_input_revision (row_of w)" for eid row
    using that by (simp add: is_revision_row_def row_of_def)
  have def: "fmlookup (tb_definitions t) (er_definition (row_of w)) \<noteq> None"
    using assms(1) by (auto simp: addable_def row_of_def fmlookup_dom_iff)
  have "eid = eid'" if "fmlookup (tb_evaluations (added w now t)) eid = Some row" "fmlookup (tb_evaluations (added w now t)) eid' = Some row'"
      "er_definition row = er_definition row'" "er_input_revision row = er_input_revision row'" for eid eid' row row'
  proof (cases "eid = ae_evaluation_id (ew_evaluation w)"; cases "eid' = ae_evaluation_id (ew_evaluation w)")
    assume "eid = ae_evaluation_id (ew_evaluation w)" "eid' \<noteq> ae_evaluation_id (ew_evaluation w)"
    then show ?thesis using that new [of eid' row'] by (simp add: added_lookup)
  next
    assume "eid \<noteq> ae_evaluation_id (ew_evaluation w)" "eid' = ae_evaluation_id (ew_evaluation w)"
    then show ?thesis using that new [of eid row] by (simp add: added_lookup)
  next
    assume "eid \<noteq> ae_evaluation_id (ew_evaluation w)" "eid' \<noteq> ae_evaluation_id (ew_evaluation w)"
    then have "fmlookup (tb_evaluations t) eid = Some row" "fmlookup (tb_evaluations t) eid' = Some row'" using that by (simp_all add: added_lookup)
    then show ?thesis using assms(2) that(3,4) unfolding keys_ok_def by blast
  qed simp
  moreover have "fmlookup (tb_definitions t) (er_definition row) \<noteq> None" if "fmlookup (tb_evaluations (added w now t)) eid = Some row" for eid row
    using that assms(2) def unfolding keys_ok_def added_lookup(1) by (cases "eid = ae_evaluation_id (ew_evaluation w)") auto
  ultimately show ?thesis using assms(2) unfolding keys_ok_def added_lookup(4) by blast
qed

lemma tables_ok_added:
  assumes "addable w t" "tables_ok L f t" "valid_write L w"
  shows "tables_ok L (f(ae_evaluation_id (ew_evaluation w) := w)) (added w now t)"
proof -
  let ?eid = "ae_evaluation_id (ew_evaluation w)"
  note fresh = addable_fresh [OF assms(1)]
  have other: "state_ok (added w now t) key st" if key: "key \<noteq> definition_key w" "fmlookup (tb_state t) key = Some st" for key st
  proof -
    have st: "state_ok t key st" using key(2) assms(2) unfolding tables_ok_def by blast
    have sets: "rows_of (added w now t) key = rows_of t key" "triggers_of (added w now t) key = triggers_of t key"
      using rows_added [OF assms(1)] triggers_added [OF assms(1)] key(1) by auto
    have "fmlookup (tb_evaluations (added w now t)) eid = Some row" if "fmlookup (tb_evaluations t) eid = Some row" for eid row
      using that fresh(1) by (auto simp: added_lookup)
    then show ?thesis using st unfolding state_ok_def sets by blast
  qed
  have ev: "evaluations_ok L f t" using assms(2) by (simp add: tables_ok_def)
  have ev_row: "valid_write L (f eid) \<and> row = row_of (f eid) \<and> ae_evaluation_id (ew_evaluation (f eid)) = eid \<and>
      (\<exists>st. fmlookup (tb_state t) (er_definition row) = Some st) \<and>
      (\<forall>key. ae_outbox_idempotency_key (ew_evaluation (f eid)) = Some key \<longrightarrow> (\<exists>ob. fmlookup (tb_outbox t) key = Some ob \<and> ob_evaluation_id ob = eid))"
    if "fmlookup (tb_evaluations t) eid = Some row" for eid row
    using that ev unfolding evaluations_ok_def by simp
  have ev_outbox: "fmlookup (tb_evaluations t) (ob_evaluation_id ob) \<noteq> None \<and>
       ae_outbox_idempotency_key (ew_evaluation (f (ob_evaluation_id ob))) = Some key \<and>
       ob_definition ob = definition_key (f (ob_evaluation_id ob)) \<and> ob_row_payload ob = ew_result (f (ob_evaluation_id ob))"
    if "fmlookup (tb_outbox t) key = Some ob" for key ob
    using that ev unfolding evaluations_ok_def by blast
  have keys: "ob_evaluation_id ob \<noteq> ?eid" if "fmlookup (tb_outbox t) k = Some ob" for k ob
    using ev_outbox [OF that] fresh(1) by metis
  have "evaluations_ok L (f(?eid := w)) (added w now t)"
    unfolding evaluations_ok_def
  proof (intro conjI allI impI)
    fix eid row
    assume "fmlookup (tb_evaluations (added w now t)) eid = Some row"
    then show "valid_write L ((f(?eid := w)) eid)" "row = row_of ((f(?eid := w)) eid)" "ae_evaluation_id (ew_evaluation ((f(?eid := w)) eid)) = eid"
      "fmlookup (tb_state (added w now t)) (er_definition row) \<noteq> None"
      using ev_row assms(3) by (auto simp: added_lookup row_of_def split: if_splits)
    fix key
    assume "ae_outbox_idempotency_key (ew_evaluation ((f(?eid := w)) eid)) = Some key"
    then show "\<exists>ob. fmlookup (tb_outbox (added w now t)) key = Some ob \<and> ob_evaluation_id ob = eid"
    proof (cases "eid = ?eid")
      case True
      then show ?thesis using \<open>ae_outbox_idempotency_key _ = Some key\<close> by (simp add: added_lookup outbox_of_def)
    next
      case False
      then have "fmlookup (tb_evaluations t) eid = Some row" using \<open>fmlookup (tb_evaluations (added w now t)) eid = Some row\<close> by (simp add: added_lookup)
      from ev_row [OF this] False \<open>ae_outbox_idempotency_key _ = Some key\<close>
      obtain ob where ob: "fmlookup (tb_outbox t) key = Some ob" "ob_evaluation_id ob = eid" by auto
      then have "ae_outbox_idempotency_key (ew_evaluation w) \<noteq> Some key" using fresh(2) by auto
      then show ?thesis using ob by (simp add: added_lookup)
    qed
  next
    fix key ob
    assume "fmlookup (tb_outbox (added w now t)) key = Some ob"
    then have "ae_outbox_idempotency_key (ew_evaluation w) = Some key \<and> ob = outbox_of w now \<or> fmlookup (tb_outbox t) key = Some ob"
      by (simp add: added_lookup split: if_splits)
    then have "fmlookup (tb_evaluations (added w now t)) (ob_evaluation_id ob) \<noteq> None \<and>
       ae_outbox_idempotency_key (ew_evaluation ((f(?eid := w)) (ob_evaluation_id ob))) = Some key \<and>
       ob_definition ob = definition_key ((f(?eid := w)) (ob_evaluation_id ob)) \<and> ob_row_payload ob = ew_result ((f(?eid := w)) (ob_evaluation_id ob))"
    proof
      assume ob: "fmlookup (tb_outbox t) key = Some ob"
      show ?thesis using ev_outbox [OF ob] keys [OF ob] by (simp add: added_lookup)
    qed (simp add: outbox_of_def added_lookup)
    then show "fmlookup (tb_evaluations (added w now t)) (ob_evaluation_id ob) \<noteq> None"
      "ae_outbox_idempotency_key (ew_evaluation ((f(?eid := w)) (ob_evaluation_id ob))) = Some key"
      "ob_definition ob = definition_key ((f(?eid := w)) (ob_evaluation_id ob))" "ob_row_payload ob = ew_result ((f(?eid := w)) (ob_evaluation_id ob))"
      by blast+
  qed
  moreover have "keys_ok (added w now t)" using keys_ok_added assms(1,2) by (simp add: tables_ok_def)
  ultimately show ?thesis using other state_ok_added [OF assms(1,2)] by (auto simp: tables_ok_def added_lookup split: if_splits)
qed

lemma tables_ok_definitions:
  assumes "tables_ok L f t" "df_status d = Enabled"
  shows "tables_ok L f (t\<lparr>tb_definitions := fmupd key d (tb_definitions t)\<rparr>)"
proof -
  have "keys_ok (t\<lparr>tb_definitions := fmupd key d (tb_definitions t)\<rparr>)"
    using assms unfolding tables_ok_def keys_ok_def by simp
  moreover have "state_ok (t\<lparr>tb_definitions := m\<rparr>) k st = state_ok t k st" for m k st by (rule state_ok_cong) simp
  ultimately show ?thesis using assms(1) by (simp add: tables_ok_def evaluations_ok_def)
qed

text \<open>An update of the outbox keeps the identity and the payload of every row.\<close>

definition same_delivery :: "outbox_row \<Rightarrow> outbox_row \<Rightarrow> bool" where
  "same_delivery a b \<longleftrightarrow> ob_evaluation_id a = ob_evaluation_id b \<and> ob_definition a = ob_definition b \<and> ob_row_payload a = ob_row_payload b"

lemma tables_ok_outbox:
  assumes "tables_ok L f t" "fmlookup (tb_outbox t) key = Some row" "same_delivery row' row"
  shows "tables_ok L f (t\<lparr>tb_outbox := fmupd key row' (tb_outbox t)\<rparr>)"
proof -
  have "state_ok (t\<lparr>tb_outbox := m\<rparr>) k st = state_ok t k st" for m k st by (rule state_ok_cong) simp
  moreover have "keys_ok (t\<lparr>tb_outbox := m\<rparr>) = keys_ok t" for m by (simp add: keys_ok_def)
  moreover have "ob_evaluation_id row = eid"
    if e: "fmlookup (tb_evaluations t) eid = Some r" "ae_outbox_idempotency_key (ew_evaluation (f eid)) = Some key" for eid r
  proof -
    have "\<exists>ob. fmlookup (tb_outbox t) key = Some ob \<and> ob_evaluation_id ob = eid"
      using assms(1) e unfolding tables_ok_def evaluations_ok_def by blast
    then show ?thesis using assms(2) by simp
  qed
  ultimately show ?thesis using assms unfolding tables_ok_def evaluations_ok_def same_delivery_def by auto
qed

end
