(* ===== verification/Alert_Delivery.thy ===== *)
theory Alert_Delivery
  imports Alert_Outbox
begin

text \<open>
  The delivery of the outbox: the contract of a sink (\<open>AlertDeliverySink\<close>), the interleavings of the
  transactions of the store with any number of drains that may crash between the acknowledgement of the
  sink and the update of the row, and what holds in all of them.
\<close>

section \<open>The contract of a sink\<close>

text \<open>A sink keeps one delivery for each idempotency key, the first; one that acknowledges has the key.\<close>

locale alert_sink =
  fixes accepted :: "'k \<Rightarrow> string \<rightharpoonup> outbox_delivery" and deliver :: "'k sink"
  assumes deliver_result: "deliver d k = (r, k') \<Longrightarrow>
    (accepted k' = accepted k \<or> accepted k (od_idempotency_key d) = None \<and> accepted k' = (accepted k)(od_idempotency_key d \<mapsto> d)) \<and>
    (\<forall>u. r = Inr u \<longrightarrow> accepted k' (od_idempotency_key d) \<noteq> None)"

interpretation memory_sink: alert_sink fmlookup memory_sink_deliver
  by unfold_locales (auto simp: memory_sink_deliver_def fun_eq_iff fmlookup_dom_iff intro: fmdom_notD split: if_splits)

section \<open>Interleavings\<close>

record worker =
  wk_rows :: "outbox_delivery list"
  wk_answer :: "(alert_delivery_error + unit) option"

record 'k alert_system =
  sy_state :: "'k delivery_state"
  sy_workers :: "worker list"

definition with_db :: "alert_db \<Rightarrow> 'k alert_system \<Rightarrow> 'k alert_system" where
  "with_db d y = y\<lparr>sy_state := (sy_state y)\<lparr>ds_db := d\<rparr>\<rparr>"

definition empty_tables :: alert_tables where
  "empty_tables = \<lparr>tb_definitions = fmempty, tb_evaluations = fmempty, tb_state = fmempty, tb_outbox = fmempty\<rparr>"

definition drop_worker :: "nat \<Rightarrow> worker list \<Rightarrow> worker list" where
  "drop_worker i ws = take i ws @ drop (Suc i) ws"

text \<open>The steps: the clock moves and the answers of the database to come are set; a definition is registered
  or an evaluation persisted; a drain fetches rows, calls the sink for its first row, settles the answer,
  or ends by an error or a crash.\<close>

inductive alert_runs :: "alert_lib \<Rightarrow> 'k sink \<Rightarrow> 'k \<Rightarrow> 'k alert_system \<Rightarrow> bool" for L deliver k0 where
  start: "alert_runs L deliver k0
    \<lparr>sy_state = \<lparr>ds_db = \<lparr>db_tables = empty_tables, db_now = now, db_io = as\<rparr>, ds_sink = k0\<rparr>, sy_workers = []\<rparr>"
| environment: "alert_runs L deliver k0 y \<Longrightarrow> alert_runs L deliver k0 (with_db ((ds_db (sy_state y))\<lparr>db_now := now, db_io := as\<rparr>) y)"
| register: "alert_runs L deliver k0 y \<Longrightarrow> register_mempool_definition L version d (ds_db (sy_state y)) = (r1, db) \<Longrightarrow>
    alert_runs L deliver k0 (with_db db y)"
| persist: "alert_runs L deliver k0 y \<Longrightarrow> persist_mempool_evaluation L version at facts v (ds_db (sy_state y)) = (r1, db) \<Longrightarrow>
    alert_runs L deliver k0 (with_db db y)"
| fetch: "alert_runs L deliver k0 y \<Longrightarrow> fetch_due limit (ds_db (sy_state y)) = (Inr rows, db) \<Longrightarrow>
    alert_runs L deliver k0 ((with_db db y)\<lparr>sy_workers := sy_workers y @ [\<lparr>wk_rows = rows, wk_answer = None\<rparr>]\<rparr>)"
| fetch_failed: "alert_runs L deliver k0 y \<Longrightarrow> fetch_due limit (ds_db (sy_state y)) = (Inl err, db) \<Longrightarrow>
    alert_runs L deliver k0 (with_db db y)"
| call: "alert_runs L deliver k0 y \<Longrightarrow> i < length (sy_workers y) \<Longrightarrow> sy_workers y ! i = \<lparr>wk_rows = d # ds, wk_answer = None\<rparr> \<Longrightarrow>
    deliver d (ds_sink (sy_state y)) = (answer, k) \<Longrightarrow>
    alert_runs L deliver k0 (y\<lparr>sy_state := (sy_state y)\<lparr>ds_sink := k\<rparr>,
      sy_workers := (sy_workers y)[i := \<lparr>wk_rows = d # ds, wk_answer = Some answer\<rparr>]\<rparr>)"
| settle: "alert_runs L deliver k0 y \<Longrightarrow> i < length (sy_workers y) \<Longrightarrow> sy_workers y ! i = \<lparr>wk_rows = d # ds, wk_answer = Some answer\<rparr> \<Longrightarrow>
    settle L (od_idempotency_key d) answer report (ds_db (sy_state y)) = (Inr report', db) \<Longrightarrow>
    alert_runs L deliver k0 ((with_db db y)\<lparr>sy_workers := (sy_workers y)[i := \<lparr>wk_rows = ds, wk_answer = None\<rparr>]\<rparr>)"
| settle_failed: "alert_runs L deliver k0 y \<Longrightarrow> i < length (sy_workers y) \<Longrightarrow> sy_workers y ! i = \<lparr>wk_rows = d # ds, wk_answer = Some answer\<rparr> \<Longrightarrow>
    settle L (od_idempotency_key d) answer report (ds_db (sy_state y)) = (Inl err, db) \<Longrightarrow>
    alert_runs L deliver k0 ((with_db db y)\<lparr>sy_workers := drop_worker i (sy_workers y)\<rparr>)"
| crash: "alert_runs L deliver k0 y \<Longrightarrow> i < length (sy_workers y) \<Longrightarrow>
    alert_runs L deliver k0 (y\<lparr>sy_workers := drop_worker i (sy_workers y)\<rparr>)"

section \<open>What the statements change\<close>

lemma db_call_result: "db_call s = (r, s') \<Longrightarrow> same_db s s'"
  by (auto simp: db_call_def same_db_def split: list.splits io_answer.splits)

lemma db_commit_result:
  assumes "db_commit t s = (r, s')"
  shows "db_now s' = db_now s" "db_tables s' = db_tables s \<or> db_tables s' = t" "r = Inr u \<Longrightarrow> db_tables s' = t"
  using assms by (auto simp: db_commit_def split: list.splits io_answer.splits if_splits)

lemma update_pending_result:
  assumes "update_pending L key change s = (r, s')"
  shows "same_db s s' \<and> r \<noteq> Inr True \<or>
    (\<exists>row. fmlookup (tb_outbox (db_tables s)) key = Some row \<and> \<not> ob_delivered row \<and> db_now s' = db_now s \<and>
      (db_tables s' = db_tables s \<and> r \<noteq> Inr True \<or>
       db_tables s' = (db_tables s)\<lparr>tb_outbox := fmupd key (change (row\<lparr>ob_delivery_attempts := ob_delivery_attempts row + 1\<rparr>)) (tb_outbox (db_tables s))\<rparr>))"
proof -
  obtain r1 s1 where 1: "db_call s = (r1, s1)" by fastforce
  note c = db_call_result [OF 1]
  show ?thesis
  proof (cases "fmlookup (tb_outbox (db_tables s)) key")
    case None
    then show ?thesis using assms 1 c by (cases r1) (auto simp: update_pending_def io_bind_def)
  next
    case (Some row)
    show ?thesis
    proof (cases "ob_delivered row \<or> 2 ^ 31 - 1 \<le> ob_delivery_attempts row")
      case True
      then show ?thesis using assms Some 1 c by (cases r1) (auto simp: update_pending_def io_bind_def split: if_splits)
    next
      case False
      define t where "t = (db_tables s)\<lparr>tb_outbox := fmupd key (change (row\<lparr>ob_delivery_attempts := ob_delivery_attempts row + 1\<rparr>)) (tb_outbox (db_tables s))\<rparr>"
      obtain r2 s2 where 2: "db_commit t s = (r2, s2)" by fastforce
      have s': "s' = s2" "r = Inr True \<longrightarrow> r2 = Inr ()"
        using assms Some False 2 by (cases r2; auto simp: update_pending_def io_bind_def t_def)+
      have "db_now s' = db_now s \<and> (db_tables s' = db_tables s \<and> r \<noteq> Inr True \<or> db_tables s' = t)"
        using s' db_commit_result [OF 2] by blast
      then show ?thesis using Some False unfolding t_def by blast
    qed
  qed
qed

section \<open>The invariant\<close>

definition from_outbox :: "alert_tables \<Rightarrow> outbox_delivery \<Rightarrow> bool" where
  "from_outbox t d \<longleftrightarrow> (\<exists>row. fmlookup (tb_outbox t) (od_idempotency_key d) = Some row \<and> d = delivery_of (od_idempotency_key d) row)"

definition outbox_ok :: "(string \<rightharpoonup> outbox_delivery) \<Rightarrow> alert_tables \<Rightarrow> bool" where
  "outbox_ok acc t \<longleftrightarrow> (\<forall>k d. acc k = Some d \<longrightarrow> od_idempotency_key d = k \<and> from_outbox t d) \<and>
     (\<forall>k row. fmlookup (tb_outbox t) k = Some row \<longrightarrow> ob_delivered row \<longrightarrow> acc k \<noteq> None)"

definition worker_ok :: "(string \<rightharpoonup> outbox_delivery) \<Rightarrow> alert_tables \<Rightarrow> worker \<Rightarrow> bool" where
  "worker_ok acc t w \<longleftrightarrow> (\<forall>d \<in> set (wk_rows w). from_outbox t d) \<and>
     (\<forall>u. wk_answer w = Some (Inr u) \<longrightarrow> wk_rows w \<noteq> [] \<and> acc (od_idempotency_key (hd (wk_rows w))) \<noteq> None)"

definition system_ok :: "alert_lib \<Rightarrow> ('k \<Rightarrow> string \<rightharpoonup> outbox_delivery) \<Rightarrow> 'k alert_system \<Rightarrow> bool" where
  "system_ok L accepted y \<longleftrightarrow> (\<exists>f. tables_ok L f (db_tables (ds_db (sy_state y)))) \<and>
     outbox_ok (accepted (ds_sink (sy_state y))) (db_tables (ds_db (sy_state y))) \<and>
     (\<forall>w \<in> set (sy_workers y). worker_ok (accepted (ds_sink (sy_state y))) (db_tables (ds_db (sy_state y))) w)"

text \<open>The outbox grows: no row loses its identity or payload, and a row becomes delivered only with a key the
  sink has.\<close>

definition outbox_grows :: "(string \<rightharpoonup> outbox_delivery) \<Rightarrow> alert_tables \<Rightarrow> alert_tables \<Rightarrow> bool" where
  "outbox_grows acc t t' \<longleftrightarrow>
     (\<forall>k row. fmlookup (tb_outbox t) k = Some row \<longrightarrow> (\<exists>row'. fmlookup (tb_outbox t') k = Some row' \<and> same_delivery row' row)) \<and>
     (\<forall>k row'. fmlookup (tb_outbox t') k = Some row' \<longrightarrow> ob_delivered row' \<longrightarrow> acc k \<noteq> None)"

lemma delivery_of_same: "same_delivery a b \<Longrightarrow> delivery_of k a = delivery_of k b"
  by (simp add: same_delivery_def delivery_of_def)

lemma delivery_of_key [simp]: "od_idempotency_key (delivery_of k row) = k"
  by (simp add: delivery_of_def)

lemma from_outbox_grows:
  assumes "outbox_grows acc t t'" "from_outbox t d"
  shows "from_outbox t' d"
proof -
  obtain row where row: "fmlookup (tb_outbox t) (od_idempotency_key d) = Some row" "d = delivery_of (od_idempotency_key d) row"
    using assms(2) unfolding from_outbox_def by blast
  then obtain row' where "fmlookup (tb_outbox t') (od_idempotency_key d) = Some row'" "same_delivery row' row"
    using assms(1) unfolding outbox_grows_def by blast
  then show ?thesis using row(2) delivery_of_same unfolding from_outbox_def by metis
qed

lemma system_ok_db:
  assumes ok: "system_ok L accepted y" and tables: "\<exists>f. tables_ok L f (db_tables db)"
    and grows: "outbox_grows (accepted (ds_sink (sy_state y))) (db_tables (ds_db (sy_state y))) (db_tables db)"
  shows "system_ok L accepted (with_db db y)"
proof -
  let ?acc = "accepted (ds_sink (sy_state y))" and ?t = "db_tables (ds_db (sy_state y))"
  have "outbox_ok ?acc ?t" "\<forall>w \<in> set (sy_workers y). worker_ok ?acc ?t w" using ok by (simp_all add: system_ok_def)
  then have "outbox_ok ?acc (db_tables db)" "\<forall>w \<in> set (sy_workers y). worker_ok ?acc (db_tables db) w"
    using grows from_outbox_grows [OF grows] unfolding outbox_ok_def worker_ok_def outbox_grows_def by blast+
  then show ?thesis using tables by (simp add: system_ok_def with_db_def)
qed

lemma outbox_grows_same:
  assumes "outbox_ok acc t" "tb_outbox t' = tb_outbox t"
  shows "outbox_grows acc t t'"
  using assms by (simp add: outbox_grows_def outbox_ok_def same_delivery_def)

lemma outbox_grows_added:
  assumes "outbox_ok acc t" "addable w t"
  shows "outbox_grows acc t (added w now t)"
proof -
  have "fmlookup (tb_outbox (added w now t)) k = Some row" if "fmlookup (tb_outbox t) k = Some row" for k row
    using that addable_fresh(2) [OF assms(2), of k] by (auto simp: added_lookup)
  moreover have "\<not> ob_delivered (outbox_of w now)" by (simp add: outbox_of_def)
  ultimately show ?thesis using assms(1) unfolding outbox_grows_def outbox_ok_def
    by (simp add: added_lookup same_delivery_def)
qed

lemma outbox_grows_update:
  assumes "outbox_ok acc t" "fmlookup (tb_outbox t) key = Some row" "same_delivery row' row" "ob_delivered row' \<Longrightarrow> acc key \<noteq> None"
  shows "outbox_grows acc t (t\<lparr>tb_outbox := fmupd key row' (tb_outbox t)\<rparr>)"
  using assms unfolding outbox_grows_def outbox_ok_def by (auto simp: same_delivery_def)

lemma system_ok_same: "system_ok L accepted y \<Longrightarrow> db_tables db = db_tables (ds_db (sy_state y)) \<Longrightarrow> system_ok L accepted (with_db db y)"
  by (simp add: system_ok_def with_db_def)

lemma settle_result:
  assumes "settle L key answer report s = (r, s')"
  shows "db_now s' = db_now s \<and> (db_tables s' = db_tables s \<or>
    (\<exists>row row'. fmlookup (tb_outbox (db_tables s)) key = Some row \<and> same_delivery row' row \<and>
      (ob_delivered row' \<longrightarrow> (\<exists>u. answer = Inr u)) \<and>
      db_tables s' = (db_tables s)\<lparr>tb_outbox := fmupd key row' (tb_outbox (db_tables s))\<rparr>))"
proof -
  have update: "db_now s1 = db_now s \<and> (db_tables s1 = db_tables s \<or>
    (\<exists>row row'. fmlookup (tb_outbox (db_tables s)) key = Some row \<and> same_delivery row' row \<and>
      (ob_delivered row' \<longrightarrow> (\<exists>u. answer = Inr u)) \<and>
      db_tables s1 = (db_tables s)\<lparr>tb_outbox := fmupd key row' (tb_outbox (db_tables s))\<rparr>))"
    if run: "update_pending L key change s = (r1, s1)" and same: "\<And>row. same_delivery (change row) row"
      and sent: "\<And>row. \<not> ob_delivered row \<Longrightarrow> ob_delivered (change row) \<Longrightarrow> \<exists>u. answer = Inr u" for change r1 s1
  proof -
    have "same_delivery (change (row\<lparr>ob_delivery_attempts := n\<rparr>)) row" for row n
      using same [of "row\<lparr>ob_delivery_attempts := n\<rparr>"] by (simp add: same_delivery_def)
    moreover have "\<exists>u. answer = Inr u" if "\<not> ob_delivered row" "ob_delivered (change (row\<lparr>ob_delivery_attempts := n\<rparr>))" for row n
      using sent [of "row\<lparr>ob_delivery_attempts := n\<rparr>"] that by simp
    ultimately show ?thesis using update_pending_result [OF run] unfolding same_db_def by blast
  qed
  show ?thesis
  proof (cases answer)
    case (Inr u)
    obtain r1 s1 where 1: "mark_delivered L key s = (r1, s1)" by fastforce
    have "s' = s1" using assms Inr 1 by (cases r1) (auto simp: settle_def io_bind_def)
    then show ?thesis using update [OF 1 [unfolded mark_delivered_def]] Inr by (simp add: same_delivery_def)
  next
    case (Inl message)
    obtain r1 s1 where 1: "mark_failed L key (truncate_error (''alert delivery failed: '' @ message)) s = (r1, s1)" by fastforce
    have "s' = s1" using assms Inl 1 by (cases r1) (auto simp: settle_def io_bind_def)
    then show ?thesis using update [OF 1 [unfolded mark_failed_def]] Inl by (simp add: same_delivery_def)
  qed
qed

section \<open>Every interleaving keeps the invariant\<close>

lemma persist_keeps_system:
  assumes "system_ok L accepted y" "persist_mempool_evaluation L version at facts v (ds_db (sy_state y)) = (r, db)"
  shows "system_ok L accepted (with_db db y)"
proof -
  let ?s = "ds_db (sy_state y)"
  have "same_db ?s db \<or> (\<exists>w. valid_write L w \<and> put ?s w db)"
    using io_tripleD [OF persist_triple same_db_refl assms(2)] by (auto split: sum.splits if_splits)
  then show ?thesis
  proof
    assume "\<exists>w. valid_write L w \<and> put ?s w db"
    then obtain w where w: "valid_write L w" "addable w (db_tables ?s)" "db_tables db = added w (db_now ?s) (db_tables ?s)"
      by (auto simp: put_def)
    have ok: "\<exists>f. tables_ok L f (db_tables ?s)" "outbox_ok (accepted (ds_sink (sy_state y))) (db_tables ?s)"
      using assms(1) by (simp_all add: system_ok_def)
    show ?thesis
    proof (rule system_ok_db [OF assms(1)])
      show "\<exists>f. tables_ok L f (db_tables db)" using ok(1) tables_ok_added [OF w(2) _ w(1)] unfolding w(3) by blast
      show "outbox_grows (accepted (ds_sink (sy_state y))) (db_tables ?s) (db_tables db)"
        unfolding w(3) by (rule outbox_grows_added [OF ok(2) w(2)])
    qed
  qed (use assms(1) in \<open>simp add: system_ok_same same_db_def\<close>)
qed

lemma register_keeps_system:
  assumes "system_ok L accepted y" "register_mempool_definition L version d (ds_db (sy_state y)) = (r, db)"
  shows "system_ok L accepted (with_db db y)"
proof -
  let ?s = "ds_db (sy_state y)"
  have "same_db ?s db \<or> registered ?s db"
    using io_tripleD [OF register_triple same_db_refl assms(2)] by (auto split: sum.splits if_splits)
  then show ?thesis
  proof
    assume "registered ?s db"
    then obtain key row where row: "df_status row = Enabled"
      "db_tables db = (db_tables ?s)\<lparr>tb_definitions := fmupd key row (tb_definitions (db_tables ?s))\<rparr>" by (auto simp: registered_def)
    have ok: "\<exists>f. tables_ok L f (db_tables ?s)" "outbox_ok (accepted (ds_sink (sy_state y))) (db_tables ?s)"
      using assms(1) by (simp_all add: system_ok_def)
    show ?thesis
    proof (rule system_ok_db [OF assms(1)])
      show "\<exists>f. tables_ok L f (db_tables db)" using ok(1) tables_ok_definitions [OF _ row(1)] unfolding row(2) by blast
    qed (use ok(2) in \<open>simp add: row(2) outbox_grows_same\<close>)
  qed (use assms(1) in \<open>simp add: system_ok_same same_db_def\<close>)
qed

lemma settle_keeps_system:
  assumes ok: "system_ok L accepted y" and run: "settle L (od_idempotency_key d) answer report (ds_db (sy_state y)) = (r, db)"
    and acc: "\<And>u. answer = Inr u \<Longrightarrow> accepted (ds_sink (sy_state y)) (od_idempotency_key d) \<noteq> None"
  shows "system_ok L accepted (with_db db y)"
proof -
  let ?s = "ds_db (sy_state y)" and ?acc = "accepted (ds_sink (sy_state y))" and ?key = "od_idempotency_key d"
  have sub: "\<exists>f. tables_ok L f (db_tables ?s)" "outbox_ok ?acc (db_tables ?s)" using ok by (simp_all add: system_ok_def)
  from settle_result [OF run] show ?thesis
  proof (elim conjE disjE exE)
    fix row row'
    assume row: "fmlookup (tb_outbox (db_tables ?s)) ?key = Some row" "same_delivery row' row" "ob_delivered row' \<longrightarrow> (\<exists>u. answer = Inr u)"
      and db: "db_tables db = (db_tables ?s)\<lparr>tb_outbox := fmupd ?key row' (tb_outbox (db_tables ?s))\<rparr>"
    show ?thesis
    proof (rule system_ok_db [OF ok])
      show "\<exists>f. tables_ok L f (db_tables db)" using sub(1) tables_ok_outbox [OF _ row(1,2)] unfolding db by blast
      show "outbox_grows ?acc (db_tables ?s) (db_tables db)"
        unfolding db by (rule outbox_grows_update [OF sub(2) row(1,2)]) (use row(3) acc in blast)
    qed
  qed (use ok in \<open>simp add: system_ok_same\<close>)
qed

lemma fetch_due_result:
  assumes "fetch_due limit s = (r, s')"
  shows "same_db s s'" "r = Inr rows \<Longrightarrow> rows = take (unat limit) (due_rows (db_tables s) (db_now s))"
proof -
  obtain r1 s1 where 1: "db_call s = (r1, s1)" by fastforce
  note c = db_call_result [OF 1]
  show "same_db s s'" using assms 1 c by (cases r1) (auto simp: fetch_due_def io_bind_def)
  show "r = Inr rows \<Longrightarrow> rows = take (unat limit) (due_rows (db_tables s) (db_now s))"
    using assms 1 c by (cases r1) (auto simp: fetch_due_def io_bind_def same_db_def)
qed

lemma due_rows_from_outbox: "d \<in> set (due_rows t now) \<Longrightarrow> from_outbox t d"
  by (auto simp: due_rows_def from_outbox_def fmlookup_dom_iff)

lemma set_drop_worker: "set (drop_worker i ws) \<subseteq> set ws"
  by (auto simp: drop_worker_def dest: in_set_takeD in_set_dropD)

lemma system_ok_workers:
  assumes "system_ok L accepted y" "\<And>w. w \<in> set ws \<Longrightarrow> w \<in> set (sy_workers y) \<or>
    worker_ok (accepted (ds_sink (sy_state y))) (db_tables (ds_db (sy_state y))) w"
  shows "system_ok L accepted (y\<lparr>sy_workers := ws\<rparr>)"
  using assms by (fastforce simp: system_ok_def)

context alert_sink
begin

lemma call_keeps_system:
  assumes ok: "system_ok L accepted y" and i: "i < length (sy_workers y)" "sy_workers y ! i = \<lparr>wk_rows = d # ds, wk_answer = None\<rparr>"
    and run: "deliver d (ds_sink (sy_state y)) = (answer, k)"
  shows "system_ok L accepted (y\<lparr>sy_state := (sy_state y)\<lparr>ds_sink := k\<rparr>,
      sy_workers := (sy_workers y)[i := \<lparr>wk_rows = d # ds, wk_answer = Some answer\<rparr>]\<rparr>)"
proof -
  let ?t = "db_tables (ds_db (sy_state y))" and ?acc = "accepted (ds_sink (sy_state y))"
  have sub: "outbox_ok ?acc ?t" "\<forall>w \<in> set (sy_workers y). worker_ok ?acc ?t w" using ok by (simp_all add: system_ok_def)
  have "worker_ok ?acc ?t \<lparr>wk_rows = d # ds, wk_answer = None\<rparr>" using sub(2) i by (metis nth_mem)
  then have rows: "\<forall>d \<in> set (d # ds). from_outbox ?t d" by (simp add: worker_ok_def)
  note result = deliver_result [OF run]
  have mono: "accepted k x \<noteq> None" if "?acc x \<noteq> None" for x using result that by auto
  have "outbox_ok (accepted k) ?t"
    using result sub(1) rows mono unfolding outbox_ok_def by (auto split: if_splits)
  moreover have "worker_ok (accepted k) ?t w" if "worker_ok ?acc ?t w" for w
    using that mono unfolding worker_ok_def by blast
  moreover have "worker_ok (accepted k) ?t \<lparr>wk_rows = d # ds, wk_answer = Some answer\<rparr>"
    using rows result by (auto simp: worker_ok_def)
  ultimately show ?thesis using ok sub(2) by (auto simp: system_ok_def dest!: set_update_subset_insert [THEN subsetD])
qed

lemma runs_ok:
  assumes "alert_runs L deliver k0 y" "accepted k0 = Map.empty"
  shows "system_ok L accepted y"
  using assms
proof (induction rule: alert_runs.induct)
  case (start now as)
  have "tables_ok L (\<lambda>_. undefined) empty_tables"
    by (simp add: tables_ok_def evaluations_ok_def keys_ok_def empty_tables_def)
  then show ?case using start by (auto simp: system_ok_def outbox_ok_def empty_tables_def)
next
  case (environment y now as)
  then show ?case by (intro system_ok_same) simp_all
next
  case (fetch y limit rows db)
  have y: "system_ok L accepted (with_db db y)"
    using fetch fetch_due_result(1) [OF fetch.hyps(2)] by (intro system_ok_same) (simp_all add: same_db_def)
  have "worker_ok (accepted (ds_sink (sy_state y))) (db_tables db) \<lparr>wk_rows = rows, wk_answer = None\<rparr>"
    using fetch_due_result [OF fetch.hyps(2)] due_rows_from_outbox
    by (auto simp: worker_ok_def same_db_def dest: in_set_takeD)
  then show ?case using system_ok_workers [OF y, of "sy_workers y @ [\<lparr>wk_rows = rows, wk_answer = None\<rparr>]"] by (auto simp: with_db_def)
next
  case (fetch_failed y limit err db)
  then show ?case using fetch_due_result(1) [OF fetch_failed.hyps(2)] by (intro system_ok_same) (simp_all add: same_db_def)
next
  case (call y i d ds answer k)
  then show ?case by (intro call_keeps_system) auto
next
  case (settle y i d ds answer report report' db)
  have w: "worker_ok (accepted (ds_sink (sy_state y))) (db_tables (ds_db (sy_state y))) \<lparr>wk_rows = d # ds, wk_answer = Some answer\<rparr>"
    using settle.IH [OF settle.prems] settle.hyps(2,3) unfolding system_ok_def by (metis nth_mem)
  have y: "system_ok L accepted (with_db db y)"
    by (rule settle_keeps_system [OF settle.IH [OF settle.prems] settle.hyps(4)]) (use w in \<open>simp add: worker_ok_def\<close>)
  have "worker_ok (accepted (ds_sink (sy_state y))) (db_tables db) \<lparr>wk_rows = d # ds, wk_answer = Some answer\<rparr>"
    using y settle.hyps(2,3) unfolding system_ok_def with_db_def by (simp, metis nth_mem)
  then have "worker_ok (accepted (ds_sink (sy_state y))) (db_tables db) \<lparr>wk_rows = ds, wk_answer = None\<rparr>" by (simp add: worker_ok_def)
  then show ?case using system_ok_workers [OF y, of "(sy_workers y)[i := \<lparr>wk_rows = ds, wk_answer = None\<rparr>]"]
    by (auto simp: with_db_def dest!: set_update_subset_insert [THEN subsetD])
next
  case (settle_failed y i d ds answer report err db)
  have w: "worker_ok (accepted (ds_sink (sy_state y))) (db_tables (ds_db (sy_state y))) \<lparr>wk_rows = d # ds, wk_answer = Some answer\<rparr>"
    using settle_failed.IH [OF settle_failed.prems] settle_failed.hyps(2,3) unfolding system_ok_def by (metis nth_mem)
  have y: "system_ok L accepted (with_db db y)"
    by (rule settle_keeps_system [OF settle_failed.IH [OF settle_failed.prems] settle_failed.hyps(4)]) (use w in \<open>simp add: worker_ok_def\<close>)
  then show ?case using system_ok_workers [OF y, of "drop_worker i (sy_workers y)"] set_drop_worker by (fastforce simp: with_db_def)
next
  case (crash y i)
  then show ?case using set_drop_worker by (intro system_ok_workers) auto
qed (use persist_keeps_system register_keeps_system in blast)+

end

end
