(* ===== verification/Alert_Properties.thy ===== *)
theory Alert_Properties
  imports Alert_Delivery
begin

text \<open>
  What the durable alert store promises, and that the evaluator and the store fit together.
\<close>

section \<open>A sample store\<close>

definition sample_alert_lib :: alert_lib where
  "sample_alert_lib = \<lparr>lib_definition_json = (\<lambda>d. Inr (ad_alert_id d)), lib_evaluation_json = (\<lambda>v. Inr (ae_evaluation_id v)),
     lib_source_health_json = (\<lambda>_ _ _ _. Inr ''''), lib_constraint = ''constraint'', lib_out_of_range = ''range''\<rparr>"

definition sample_evaluation :: alert_evaluation where
  "sample_evaluation = \<lparr>ae_evaluation_id = replicate 64 (CHR ''0''), ae_alert_id = ''a'', ae_kind = alert_kind, ae_transition = Triggered,
     ae_delivery_required = True, ae_outbox_idempotency_key = Some (replicate 64 (CHR ''1'')), ae_active = True, ae_network = ''m'',
     ae_revision = 1, ae_min_fee_rate_sat_vb = 1, ae_threshold_vbytes = 10, ae_quorum_required = 1,
     ae_consecutive_true_evaluations = 1, ae_observed_vbytes = 20, ae_contributing_sources = [''n''],
     ae_unavailable_sources = [], ae_completeness = Complete, ae_cause = ObservedCause\<rparr>"

definition sample_write :: evaluation_write where
  "sample_write = \<lparr>ew_definition_version = 1, ew_revision = 1, ew_evaluated_at = 100, ew_fact_ids = [''f''],
     ew_result = ae_evaluation_id sample_evaluation, ew_source_health = '''', ew_transition = ''triggered'', ew_evaluation = sample_evaluation\<rparr>"

definition sample_definitions :: alert_tables where
  "sample_definitions = empty_tables\<lparr>tb_definitions := fmupd (''a'', 1) \<lparr>df_kind = alert_kind, df_definition = ''a'', df_status = Enabled\<rparr> fmempty\<rparr>"

definition sample_db :: "alert_tables \<Rightarrow> alert_db" where
  "sample_db t = \<lparr>db_tables = t, db_now = 0, db_io = []\<rparr>"

definition sample_alert_tables :: alert_tables where
  "sample_alert_tables = added sample_write 0 sample_definitions"

definition sample_key :: string where
  "sample_key = replicate 64 (CHR ''1'')"

lemma sample_register:
  "register_mempool_definition sample_alert_lib 1 sample_alert (sample_db empty_tables) = (Inr Inserted, sample_db sample_definitions)"
  by (simp add: register_mempool_definition_def io_bind_def checked_positive_i64_def sample_alert_lib_def sample_alert_def db_call_def
      db_commit_def sample_db_def empty_tables_def sample_definitions_def valid_bounded_identity_def ascii_graphic_def byte_of_def)

lemma sample_hashes: "valid_hash (replicate 64 (CHR ''0''))" "valid_hash (replicate 64 (CHR ''1''))"
  by (simp_all add: valid_hash_def is_ascii_digit_def byte_of_def list_all_length)

lemma sample_facts: "normalized_fact_ids [''f''] = Inr [''f'']"
  by (simp add: normalized_fact_ids_def MAX_FACT_COUNT_def MAX_FACT_ID_LEN_def valid_bounded_identity_def ascii_graphic_def byte_of_def)

lemma sample_validated: "validate_evaluation 1 100 [''f''] sample_evaluation = Inr ()"
  using sample_hashes
  by (simp add: validate_evaluation_def checked_positive_i64_def sample_facts sample_evaluation_def valid_bounded_identity_def ascii_graphic_def byte_of_def)

lemma sample_write_new: "evaluation_write_new sample_alert_lib 1 100 [''f''] sample_evaluation = Inr sample_write"
  by (simp add: evaluation_write_new_def checked_positive_i64_def sample_facts) (simp add: sample_evaluation_def sample_alert_lib_def sample_write_def)

lemma sample_write_facts: "definition_key sample_write = (''a'', 1)" "ae_evaluation_id (ew_evaluation sample_write) = replicate 64 (CHR ''0'')"
  "ae_outbox_idempotency_key (ew_evaluation sample_write) = Some sample_key"
  by (simp_all add: definition_key_def sample_write_def sample_evaluation_def sample_key_def)

lemma sample_persist:
  "persist_mempool_evaluation sample_alert_lib 1 100 [''f''] sample_evaluation (sample_db sample_definitions) = (Inr Inserted, sample_db sample_alert_tables)"
proof -
  have t: "tb_evaluations sample_definitions = fmempty" "tb_state sample_definitions = fmempty" "tb_outbox sample_definitions = fmempty"
    "fmlookup (tb_definitions sample_definitions) (''a'', 1) = Some \<lparr>df_kind = alert_kind, df_definition = ''a'', df_status = Enabled\<rparr>"
    by (simp_all add: sample_definitions_def empty_tables_def)
  then have d: "(''a'', 1) |\<in>| fmdom (tb_definitions sample_definitions)" by (simp add: fmlookup_dom_iff)
  have call: "db_call (sample_db t) = (Inr (), sample_db t)" for t by (simp add: db_call_def sample_db_def)
  have "check_current_state sample_write (sample_db sample_definitions) = (Inr False, sample_db sample_definitions)"
    by (simp add: check_current_state_def io_bind_def call) (simp add: sample_db_def t)
  moreover have "write_evaluation sample_alert_lib sample_write (sample_db sample_definitions) = (Inr Inserted, sample_db sample_alert_tables)"
    using d by (simp add: write_evaluation_def insert_evaluation_def advance_state_def insert_outbox_def io_bind_def call sample_write_facts)
      (simp add: sample_db_def t db_commit_def sample_alert_tables_def added_def row_of_def state_of_def outbox_of_def sample_write_facts)
  ultimately show ?thesis
    by (simp add: persist_mempool_evaluation_def io_bind_def sample_validated sample_write_new call ensure_definition_exists_def sample_write_facts)
      (simp add: sample_db_def t io_bind_def)
qed

text \<open>The sample run: the definition is registered, the evaluation persisted, its row fetched, delivered and settled.\<close>

definition sample_system :: "alert_tables \<Rightarrow> memory_sink \<Rightarrow> worker list \<Rightarrow> memory_sink alert_system" where
  "sample_system t k ws = \<lparr>sy_state = \<lparr>ds_db = sample_db t, ds_sink = k\<rparr>, sy_workers = ws\<rparr>"

lemma empty_sink: "fmlookup fmempty = Map.empty"
  by (simp add: fun_eq_iff)

lemma sample_alert_run: "alert_runs sample_alert_lib memory_sink_deliver fmempty (sample_system sample_alert_tables fmempty [])"
proof -
  have "alert_runs sample_alert_lib memory_sink_deliver fmempty (sample_system empty_tables fmempty [])"
    unfolding sample_system_def sample_db_def by (rule alert_runs.start)
  from alert_runs.register [OF this, of 1 sample_alert, unfolded sample_system_def, simplified, OF sample_register]
  have "alert_runs sample_alert_lib memory_sink_deliver fmempty (sample_system sample_definitions fmempty [])"
    by (simp add: sample_system_def with_db_def)
  from alert_runs.persist [OF this, of 1 100 "[''f'']" sample_evaluation, unfolded sample_system_def, simplified, OF sample_persist]
  show ?thesis by (simp add: sample_system_def with_db_def)
qed

section \<open>The sink and the outbox\<close>

text \<open>C27: The sink holds what the durable evaluations ask for, and nothing else. For every sink that deduplicates by the
  idempotency key, over any interleaving of registrations, evaluations and drains of the outbox, with failures of database
  and sink and crashes between the acknowledgement of the sink and the update of the row: every stored evaluation was
  accepted by the checks and has an outbox row under exactly the key it asks for; a delivery held by the sink is the
  delivery of the outbox row of its key, with the evaluation as payload; and every row marked as delivered is held by the
  sink.\<close>

theorem alert_sink_mirrors_outbox:
  assumes "alert_sink accepted deliver" "accepted k0 = Map.empty" "alert_runs L deliver k0 y"
    and "t = db_tables (ds_db (sy_state y))"
  shows "\<exists>f. (\<forall>eid row. fmlookup (tb_evaluations t) eid = Some row \<longrightarrow> valid_write L (f eid) \<and> row = row_of (f eid) \<and>
        ae_evaluation_id (ew_evaluation (f eid)) = eid \<and>
        (\<forall>key. ae_outbox_idempotency_key (ew_evaluation (f eid)) = Some key \<longleftrightarrow>
          (\<exists>ob. fmlookup (tb_outbox t) key = Some ob \<and> ob_evaluation_id ob = eid))) \<and>
      (\<forall>key d. accepted (ds_sink (sy_state y)) key = Some d \<longrightarrow> (\<exists>ob. fmlookup (tb_outbox t) key = Some ob \<and>
        d = delivery_of key ob \<and> od_payload d = ew_result (f (od_evaluation_id d)))) \<and>
      (\<forall>key ob. fmlookup (tb_outbox t) key = Some ob \<longrightarrow> ob_delivered ob \<longrightarrow>
        accepted (ds_sink (sy_state y)) key = Some (delivery_of key ob))"
proof -
  have ok: "system_ok L accepted y" by (rule alert_sink.runs_ok [OF assms(1,3,2)])
  then obtain f where f: "evaluations_ok L f t" unfolding system_ok_def tables_ok_def assms(4) by blast
  have ob: "outbox_ok (accepted (ds_sink (sy_state y))) t" using ok by (simp add: system_ok_def assms(4))
  have row: "valid_write L (f eid) \<and> row = row_of (f eid) \<and> ae_evaluation_id (ew_evaluation (f eid)) = eid"
    "ae_outbox_idempotency_key (ew_evaluation (f eid)) = Some key \<Longrightarrow> \<exists>ob. fmlookup (tb_outbox t) key = Some ob \<and> ob_evaluation_id ob = eid"
    if "fmlookup (tb_evaluations t) eid = Some row" for eid row key using f that unfolding evaluations_ok_def by blast+
  have out: "ae_outbox_idempotency_key (ew_evaluation (f (ob_evaluation_id ob))) = Some key"
    "ob_row_payload ob = ew_result (f (ob_evaluation_id ob))"
    if "fmlookup (tb_outbox t) key = Some ob" for key ob using f that unfolding evaluations_ok_def by blast+
  have sink: "\<exists>ob. fmlookup (tb_outbox t) key = Some ob \<and> d = delivery_of key ob" if "accepted (ds_sink (sy_state y)) key = Some d" for key d
    using ob that unfolding outbox_ok_def from_outbox_def by blast
  have payload: "od_payload (delivery_of key ob) = ew_result (f (od_evaluation_id (delivery_of key ob)))"
    if "fmlookup (tb_outbox t) key = Some ob" for key ob using out(2) [OF that] by (simp add: delivery_of_def)
  have sent: "accepted (ds_sink (sy_state y)) key = Some (delivery_of key ob)" if "fmlookup (tb_outbox t) key = Some ob" "ob_delivered ob" for key ob
  proof -
    have "accepted (ds_sink (sy_state y)) key \<noteq> None" using ob that unfolding outbox_ok_def by blast
    then obtain d where d: "accepted (ds_sink (sy_state y)) key = Some d" by auto
    then show ?thesis using sink [OF d] that(1) by auto
  qed
  show ?thesis
  proof (intro exI [of _ f] conjI allI impI)
    fix eid row key
    assume e: "fmlookup (tb_evaluations t) eid = Some row"
    then show "valid_write L (f eid)" "row = row_of (f eid)" "ae_evaluation_id (ew_evaluation (f eid)) = eid" using row(1) by blast+
    show "(ae_outbox_idempotency_key (ew_evaluation (f eid)) = Some key) = (\<exists>ob. fmlookup (tb_outbox t) key = Some ob \<and> ob_evaluation_id ob = eid)"
      using row(2) [OF e] out(1) by blast
  next
    fix key d
    assume "accepted (ds_sink (sy_state y)) key = Some d"
    then show "\<exists>ob. fmlookup (tb_outbox t) key = Some ob \<and> d = delivery_of key ob \<and> od_payload d = ew_result (f (od_evaluation_id d))"
      using sink payload by blast
  qed (use sent in blast)
qed

theorem alert_sink_mirrors_outbox_witness:
  "\<exists>f. valid_write sample_alert_lib (f (replicate 64 (CHR ''0''))) \<and> row_of sample_write = row_of (f (replicate 64 (CHR ''0''))) \<and>
     ae_outbox_idempotency_key (ew_evaluation (f (replicate 64 (CHR ''0'')))) = Some sample_key"
proof -
  have e: "fmlookup (tb_evaluations sample_alert_tables) (replicate 64 (CHR ''0'')) = Some (row_of sample_write)"
    by (simp add: sample_alert_tables_def added_lookup sample_write_facts)
  have o: "fmlookup (tb_outbox sample_alert_tables) sample_key = Some (outbox_of sample_write 0)"
    by (simp add: sample_alert_tables_def added_lookup sample_write_facts)
  have "ob_evaluation_id (outbox_of sample_write 0) = replicate 64 (CHR ''0'')" by (simp add: outbox_of_def sample_write_facts)
  with alert_sink_mirrors_outbox [OF memory_sink.alert_sink_axioms empty_sink sample_alert_run refl] e o
  show ?thesis by (fastforce simp: sample_system_def sample_db_def)
qed

section \<open>Replays of an evaluation\<close>

text \<open>Without failures of the database a check only reads.\<close>

lemma db_call_quiet: "db_io s = [] \<Longrightarrow> db_call s = (Inr (), s)"
  by (simp add: db_call_def)

lemma sint_inject: "sint v = sint w \<Longrightarrow> v = w"
  by (rule signed_word_eqI)

lemma matches_quiet:
  assumes "db_io s = []" "fmlookup (tb_evaluations (db_tables s)) eid = Some (row_of w)"
  shows "matches_or_conflict eid w s = (Inr True, s)"
  using assms by (simp add: matches_or_conflict_def evaluation_matches_def io_bind_def db_call_quiet row_of_def)

lemma revision_row_unique:
  assumes "keys_ok t" "fmlookup (tb_evaluations t) eid = Some row"
  shows "revision_row t (er_definition row) (er_input_revision row) = Some eid"
proof -
  let ?p = "\<lambda>x. is_revision_row (er_definition row) (er_input_revision row) (the (fmlookup (tb_evaluations t) x))"
  have "filter ?p (sorted_list_of_fset (fmdom (tb_evaluations t))) = [eid]"
  proof (rule sorted_distinct_set_unique)
    show "set (filter ?p (sorted_list_of_fset (fmdom (tb_evaluations t)))) = set [eid]"
      using assms unfolding keys_ok_def by (auto simp: is_revision_row_def fmlookup_dom_iff)
  qed (simp_all add: sorted_list_of_fset.rep_eq sorted_wrt_filter)
  then show ?thesis by (simp add: revision_row_def)
qed

text \<open>An evaluation that is stored can be persisted again at any later time without effect: in every state of every
  interleaving, when the stored row is the one the call would write, whatever newer revisions have been stored since and
  whether or not its notification has been delivered, the call without failures of the database answers that it is a duplicate
  and leaves the database as it is.\<close>

theorem stored_evaluation_replays_as_duplicate:
  assumes "alert_sink accepted deliver" "accepted k0 = Map.empty" "alert_runs L deliver k0 y"
    and "s = (ds_db (sy_state y))\<lparr>db_io := []\<rparr>"
    and "validate_evaluation version at facts v = Inr ()" "evaluation_write_new L version at facts v = Inr w"
    and "fmlookup (tb_evaluations (db_tables s)) (ae_evaluation_id v) = Some (row_of w)"
  shows "persist_mempool_evaluation L version at facts v s = (Inr Duplicate, s)"
proof -
  let ?t = "db_tables s"
  have v: "ew_evaluation w = v" by (rule evaluation_write_new_evaluation [OF assms(6)])
  obtain f where "tables_ok L f (db_tables (ds_db (sy_state y)))"
    using alert_sink.runs_ok [OF assms(1,3,2)] unfolding system_ok_def by blast
  then have ok: "evaluations_ok L f ?t" "\<forall>key st. fmlookup (tb_state ?t) key = Some st \<longrightarrow> state_ok ?t key st" "keys_ok ?t"
    by (simp_all add: tables_ok_def assms(4))
  have quiet: "db_io s = []" by (simp add: assms(4))
  note call = db_call_quiet [OF quiet]
  note row = assms(7)
  have fields: "er_definition (row_of w) = definition_key w" "er_input_revision (row_of w) = ew_revision w" by (simp_all add: row_of_def)
  obtain d where "fmlookup (tb_definitions ?t) (definition_key w) = Some d" "df_status d = Enabled"
    using ok(3) row fields(1) unfolding keys_ok_def by (metis not_None_eq)
  then have exists: "ensure_definition_exists (definition_key w) version s = (Inr (), s)"
    by (simp add: ensure_definition_exists_def io_bind_def call)
  obtain st where st: "fmlookup (tb_state ?t) (definition_key w) = Some st"
    using ok(1) row fields(1) unfolding evaluations_ok_def by (metis not_None_eq)
  then have sok: "state_ok ?t (definition_key w) st" using ok(2) by blast
  have "row_of w \<in> rows_of ?t (definition_key w)" using row fields(1) by (auto simp: rows_of_def)
  then have le: "sint (ew_revision w) \<le> sint (sr_last_input_revision st)" using sok fields(2) by (auto simp: state_ok_def)
  have same: "matches_or_conflict (ae_evaluation_id v) w s = (Inr True, s)" by (rule matches_quiet [OF quiet row])
  have "check_current_state w s = (Inr True, s)"
  proof (cases "sint (ew_revision w) < sint (sr_last_input_revision st)")
    case True
    have "check_historical_replay w (sr_last_input_revision st) s = (Inr True, s)"
      using revision_row_unique [OF ok(3) row] same by (simp add: check_historical_replay_def io_bind_def call fields v)
    then show ?thesis using True st by (simp add: check_current_state_def io_bind_def call)
  next
    case False
    then have eq: "sr_last_input_revision st = ew_revision w" using le by (intro sint_inject) simp
    obtain r where r: "fmlookup (tb_evaluations ?t) (sr_last_evaluation_id st) = Some r" "er_definition r = definition_key w"
      "er_input_revision r = sr_last_input_revision st"
      using sok unfolding state_ok_def by blast
    then have "sr_last_evaluation_id st = ae_evaluation_id v"
      using ok(3) row fields eq unfolding keys_ok_def by metis
    then show ?thesis using False st same eq by (simp add: check_current_state_def io_bind_def call v)
  qed
  then show ?thesis using assms(5,6) exists by (simp add: persist_mempool_evaluation_def io_bind_def call)
qed

theorem stored_evaluation_replays_as_duplicate_witness:
  "persist_mempool_evaluation sample_alert_lib 1 100 [''f''] sample_evaluation (sample_db sample_alert_tables) = (Inr Duplicate, sample_db sample_alert_tables)"
  by (rule stored_evaluation_replays_as_duplicate [OF memory_sink.alert_sink_axioms empty_sink sample_alert_run _ sample_validated sample_write_new])
    (simp_all add: sample_system_def sample_db_def sample_alert_tables_def added_lookup sample_write_facts sample_evaluation_def)

text \<open>The current state of a definition is its newest evaluation. In every state of every interleaving, the state row of a
  definition version names a stored evaluation of that version with its revision and time, no stored evaluation of the version
  has a greater revision, and the time of the last trigger is that of the newest evaluation that triggered, and unset exactly
  when none has.\<close>

theorem alert_state_is_newest_evaluation:
  assumes "alert_sink accepted deliver" "accepted k0 = Map.empty" "alert_runs L deliver k0 y"
    and "t = db_tables (ds_db (sy_state y))" "fmlookup (tb_state t) key = Some st"
  shows "(\<exists>row. fmlookup (tb_evaluations t) (sr_last_evaluation_id st) = Some row \<and> er_definition row = key \<and>
        er_input_revision row = sr_last_input_revision st \<and> er_evaluated_at row = sr_last_evaluated_at st) \<and>
      (\<forall>row \<in> rows_of t key. sint (er_input_revision row) \<le> sint (sr_last_input_revision st)) \<and>
      (case sr_last_triggered_at st of
         None \<Rightarrow> triggers_of t key = {}
       | Some at \<Rightarrow> \<exists>row \<in> triggers_of t key. er_evaluated_at row = at \<and>
           (\<forall>row' \<in> triggers_of t key. sint (er_input_revision row') \<le> sint (er_input_revision row)))"
  using alert_sink.runs_ok [OF assms(1,3,2)] assms(5) unfolding system_ok_def tables_ok_def state_ok_def assms(4) by blast

theorem alert_state_is_newest_evaluation_witness:
  "(\<exists>row. fmlookup (tb_evaluations sample_alert_tables) (replicate 64 (CHR ''0'')) = Some row \<and> er_definition row = (''a'', 1)) \<and>
   (\<exists>row \<in> triggers_of sample_alert_tables (''a'', 1). er_evaluated_at row = 100)"
proof -
  have "fmlookup (tb_state sample_alert_tables) (''a'', 1) = Some (state_of sample_write sample_definitions)"
    by (simp add: sample_alert_tables_def added_lookup sample_write_facts)
  moreover have "sr_last_evaluation_id (state_of sample_write sample_definitions) = replicate 64 (CHR ''0'')"
    "sr_last_triggered_at (state_of sample_write sample_definitions) = Some 100"
    by (simp_all add: state_of_def sample_write_facts, simp add: sample_write_def)
  ultimately show ?thesis
    using alert_state_is_newest_evaluation [OF memory_sink.alert_sink_axioms empty_sink sample_alert_run refl, of "(''a'', 1)" "state_of sample_write sample_definitions"]
    by (auto simp: sample_system_def sample_db_def)
qed

section \<open>Drains\<close>

definition due_keys :: "alert_tables \<Rightarrow> i64 \<Rightarrow> string list" where
  "due_keys t now =
     sort_key (\<lambda>k. sint (ob_available_at (the (fmlookup (tb_outbox t) k))))
       (sort_key (\<lambda>k. sint (ob_created_at (the (fmlookup (tb_outbox t) k))))
         (filter (\<lambda>k. \<not> ob_delivered (the (fmlookup (tb_outbox t) k)) \<and>
             sint (ob_available_at (the (fmlookup (tb_outbox t) k))) \<le> sint now)
           (sorted_list_of_fset (fmdom (tb_outbox t)))))"

lemma due_rows_keys: "due_rows t now = map (\<lambda>k. delivery_of k (the (fmlookup (tb_outbox t) k))) (due_keys t now)"
  by (simp add: due_rows_def due_keys_def)

lemma due_keys_set: "k \<in> set (due_keys t now) \<Longrightarrow> \<exists>row. fmlookup (tb_outbox t) k = Some row \<and> \<not> ob_delivered row"
  by (auto simp: due_keys_def fmlookup_dom_iff)

lemma due_keys_distinct: "distinct (due_keys t now)"
  by (simp add: due_keys_def sorted_list_of_fset.rep_eq)

text \<open>Marking a row as delivered takes its key out of the due ones.\<close>

lemma due_keys_delivered:
  assumes "fmlookup (tb_outbox t) key = Some row" "ob_delivered row'" "ob_available_at row' = ob_available_at row"
    "ob_created_at row' = ob_created_at row"
  shows "due_keys (t\<lparr>tb_outbox := fmupd key row' (tb_outbox t)\<rparr>) now = filter (\<lambda>k. k \<noteq> key) (due_keys t now)"
proof -
  let ?m = "tb_outbox t" and ?m' = "fmupd key row' (tb_outbox t)"
  have dom: "fmdom ?m' = fmdom ?m" using assms(1) by (auto simp: fmlookup_dom_iff)
  have funs: "(\<lambda>k. sint (ob_available_at (the (fmlookup ?m' k)))) = (\<lambda>k. sint (ob_available_at (the (fmlookup ?m k))))"
    "(\<lambda>k. sint (ob_created_at (the (fmlookup ?m' k)))) = (\<lambda>k. sint (ob_created_at (the (fmlookup ?m k))))"
    using assms by (auto simp: fun_eq_iff)
  have due: "filter (\<lambda>k. \<not> ob_delivered (the (fmlookup ?m' k)) \<and> sint (ob_available_at (the (fmlookup ?m' k))) \<le> sint now) xs =
      filter (\<lambda>k. k \<noteq> key) (filter (\<lambda>k. \<not> ob_delivered (the (fmlookup ?m k)) \<and> sint (ob_available_at (the (fmlookup ?m k))) \<le> sint now) xs)" for xs
    using assms(2) by (induction xs) auto
  have outbox: "tb_outbox (t\<lparr>tb_outbox := ?m'\<rparr>) = ?m'" by simp
  show ?thesis unfolding due_keys_def outbox dom funs due filter_sort ..
qed

lemma mark_delivered_quiet:
  assumes "db_io s = []" "fmlookup (tb_outbox (db_tables s)) key = Some row" "\<not> ob_delivered row" "ob_delivery_attempts row < 2 ^ 31 - 1"
  obtains row' where "ob_delivered row'" "same_delivery row' row" "ob_available_at row' = ob_available_at row" "ob_created_at row' = ob_created_at row"
    "mark_delivered L key s = (Inr True, s\<lparr>db_tables := (db_tables s)\<lparr>tb_outbox := fmupd key row' (tb_outbox (db_tables s))\<rparr>\<rparr>)"
proof -
  let ?row = "row\<lparr>ob_delivery_attempts := ob_delivery_attempts row + 1, ob_delivered := True, ob_delivered_at := Some (db_now s), ob_last_error := None\<rparr>"
  have "mark_delivered L key s = (Inr True, s\<lparr>db_tables := (db_tables s)\<lparr>tb_outbox := fmupd key ?row (tb_outbox (db_tables s))\<rparr>, db_io := []\<rparr>)"
    using assms by (simp add: mark_delivered_def update_pending_def io_bind_def db_commit_def)
  moreover have "s\<lparr>db_tables := t, db_io := []\<rparr> = s\<lparr>db_tables := t\<rparr>" for t using assms(1) by simp
  ultimately show ?thesis using that [of ?row] by (simp add: same_delivery_def)
qed

lemma unat_saturating_succ: "unat (w :: u16) < 1000 \<Longrightarrow> unat (saturating_add w 1) = unat w + 1"
  by (simp add: unat_saturating_add)

lemma deliver_rows_quiet:
  assumes "\<And>d k. \<exists>k'. deliver d k = (Inr (), k')" "db_io (ds_db s) = []" "db_now (ds_db s) = now" "n \<le> length (due_keys (db_tables (ds_db s)) now)"
    "\<And>key row. fmlookup (tb_outbox (db_tables (ds_db s))) key = Some row \<Longrightarrow> \<not> ob_delivered row \<Longrightarrow> ob_delivery_attempts row < 2 ^ 31 - 1"
    "unat (dl_delivered report) + n \<le> 1000"
  shows "\<exists>report' s'. deliver_rows L deliver (take n (due_rows (db_tables (ds_db s)) now)) report s = (Inr report', s') \<and>
    unat (dl_delivered report') = unat (dl_delivered report) + n \<and> dl_failed report' = dl_failed report \<and>
    due_rows (db_tables (ds_db s')) now = drop n (due_rows (db_tables (ds_db s)) now)"
  using assms(2-6)
proof (induction n arbitrary: s report)
  case (Suc n)
  let ?t = "db_tables (ds_db s)"
  obtain key keys where keys: "due_keys ?t now = key # keys" using Suc.prems(3) by (cases "due_keys ?t now") auto
  obtain row where row: "fmlookup (tb_outbox ?t) key = Some row" "\<not> ob_delivered row" using due_keys_set [of key ?t now] keys by auto
  obtain row' where row': "ob_delivered row'" "same_delivery row' row" "ob_available_at row' = ob_available_at row" "ob_created_at row' = ob_created_at row"
    "mark_delivered L key (ds_db s) = (Inr True, (ds_db s)\<lparr>db_tables := ?t\<lparr>tb_outbox := fmupd key row' (tb_outbox ?t)\<rparr>\<rparr>)"
    by (rule mark_delivered_quiet [OF Suc.prems(1) row Suc.prems(4) [OF row]])
  define t' where "t' = ?t\<lparr>tb_outbox := fmupd key row' (tb_outbox ?t)\<rparr>"
  obtain k' where k': "deliver (delivery_of key row) (ds_sink s) = (Inr (), k')" using assms(1) by blast
  define s1 where "s1 = s\<lparr>ds_sink := k', ds_db := (ds_db s)\<lparr>db_tables := t'\<rparr>\<rparr>"
  have "distinct (key # keys)" using due_keys_distinct [of ?t now] keys by simp
  then have due: "due_keys t' now = keys"
    unfolding t'_def due_keys_delivered [OF row(1) row'(1,3,4)] keys by (auto simp: filter_id_conv)
  have lookup: "fmlookup (tb_outbox t') k = (if k = key then Some row' else fmlookup (tb_outbox ?t) k)" for k by (simp add: t'_def)
  have rows: "due_rows ?t now = delivery_of key row # due_rows t' now"
    using keys due row(1) \<open>distinct (key # keys)\<close> by (auto simp: due_rows_keys lookup)
  let ?report = "report\<lparr>dl_delivered := saturating_add (dl_delivered report) 1\<rparr>"
  have step: "deliver_rows L deliver (delivery_of key row # ds) report s = deliver_rows L deliver ds ?report s1" for ds
    using k' row'(5) by (simp add: io_bind_def call_sink_def on_db_def settle_def s1_def t'_def)
  have "\<exists>report' s'. deliver_rows L deliver (take n (due_rows (db_tables (ds_db s1)) now)) ?report s1 = (Inr report', s') \<and>
    unat (dl_delivered report') = unat (dl_delivered ?report) + n \<and> dl_failed report' = dl_failed ?report \<and>
    due_rows (db_tables (ds_db s')) now = drop n (due_rows (db_tables (ds_db s1)) now)"
  proof (rule Suc.IH)
    show "ob_delivery_attempts row < 2 ^ 31 - 1" if "fmlookup (tb_outbox (db_tables (ds_db s1))) key' = Some row" "\<not> ob_delivered row" for key' row
      using that row'(1) Suc.prems(4) by (auto simp: s1_def lookup split: if_splits)
  qed (use Suc.prems keys due in \<open>simp_all add: s1_def unat_saturating_succ\<close>)
  moreover have "db_tables (ds_db s1) = t'" by (simp add: s1_def)
  ultimately show ?case using Suc.prems(5) unfolding rows take_Suc_Cons step by (simp add: unat_saturating_succ)
qed simp

text \<open>A drain without failures delivers what is due. When every call of the database succeeds and the sink acknowledges every
  delivery, draining with a limit between 1 and 1000 returns; it reports no failure and as many deliveries as there were due
  rows, up to the limit; and the rows due afterwards are exactly those beyond the limit, in the same order, so repeated drains
  empty the outbox.\<close>

theorem drain_delivers_due_rows:
  assumes "\<And>d k. \<exists>k'. deliver d k = (Inr (), k')" "db_io (ds_db s) = []" "limit \<noteq> 0" "limit \<le> MAX_DELIVERY_BATCH"
    and "\<And>key row. fmlookup (tb_outbox (db_tables (ds_db s))) key = Some row \<Longrightarrow> \<not> ob_delivered row \<Longrightarrow> ob_delivery_attempts row < 2 ^ 31 - 1"
    and "now = db_now (ds_db s)" "due = due_rows (db_tables (ds_db s)) now"
  shows "\<exists>report s'. deliver_pending L deliver limit s = (Inr report, s') \<and> dl_failed report = 0 \<and>
    unat (dl_delivered report) = min (unat limit) (length due) \<and> due_rows (db_tables (ds_db s')) now = drop (unat limit) due"
proof -
  define n where "n = min (unat limit) (length due)"
  have fetch: "fetch_due limit (ds_db s) = (Inr (take (unat limit) due), ds_db s)"
    using assms(2) by (simp add: fetch_due_def io_bind_def db_call_quiet assms(6,7))
  have "unat limit \<le> 1000" using assms(4) by (simp add: MAX_DELIVERY_BATCH_def word_le_nat_alt)
  then have "\<exists>report' s'. deliver_rows L deliver (take n (due_rows (db_tables (ds_db s)) now)) \<lparr>dl_delivered = 0, dl_failed = 0\<rparr> s = (Inr report', s') \<and>
    unat (dl_delivered report') = unat (dl_delivered \<lparr>dl_delivered = 0, dl_failed = 0\<rparr>) + n \<and> dl_failed report' = dl_failed \<lparr>dl_delivered = 0, dl_failed = 0\<rparr> \<and>
    due_rows (db_tables (ds_db s')) now = drop n (due_rows (db_tables (ds_db s)) now)"
    by (intro deliver_rows_quiet assms(1,2,5)) (simp_all add: assms(6,7) n_def due_rows_keys)
  moreover have "take n due = take (unat limit) due" "drop n due = drop (unat limit) due" by (simp_all add: n_def min_def)
  ultimately show ?thesis using fetch assms(3,4)
    by (auto simp: deliver_pending_def io_bind_def on_db_def n_def simp flip: assms(7))
qed

theorem drain_delivers_due_rows_witness:
  "\<exists>report s'. deliver_pending sample_alert_lib memory_sink_deliver 1 \<lparr>ds_db = sample_db sample_alert_tables, ds_sink = fmempty\<rparr> = (Inr report, s') \<and>
     unat (dl_delivered report) = 1 \<and> due_rows (db_tables (ds_db s')) 0 = []"
proof -
  have out: "fmlookup (tb_outbox sample_alert_tables) k = (if k = sample_key then Some (outbox_of sample_write 0) else None)" for k
    by (simp add: sample_alert_tables_def added_lookup sample_write_facts) (simp add: sample_definitions_def empty_tables_def)
  have "fmdom (tb_outbox sample_alert_tables) = {|sample_key|}" by (auto simp: fmlookup_dom_iff out split: if_splits)
  then have due: "due_rows (db_tables (sample_db sample_alert_tables)) 0 = [delivery_of sample_key (outbox_of sample_write 0)]"
    by (simp add: due_rows_def sample_db_def out sorted_list_of_fset.rep_eq outbox_of_def)
  show ?thesis
    using drain_delivers_due_rows [where deliver = memory_sink_deliver and s = "\<lparr>ds_db = sample_db sample_alert_tables, ds_sink = fmempty\<rparr>"
        and limit = 1 and L = sample_alert_lib, OF _ _ _ _ _ refl refl] due
    by (force simp: memory_sink_deliver_def sample_db_def MAX_DELIVERY_BATCH_def out outbox_of_def split: if_splits)
qed

section \<open>The evaluator and the store\<close>

lemma valid_hash_digest_hex: "valid_hash (digest_hex b3 parts)"
proof -
  have "list_all is_lower_hex_digit (digest_hex b3 parts)" unfolding digest_hex_def by (rule encode_hex_lower)
  then show ?thesis by (simp add: valid_hash_def digest_hex_def is_lower_hex_digit_def list_all_iff)
qed

lemma alert_reach_last_id: "alert_reach b3 d h e \<Longrightarrow> ev_last_evaluation_id e = Some eid \<Longrightarrow> valid_hash eid"
proof (induction arbitrary: eid rule: alert_reach.induct)
  case (alert_accept h e s v e')
  then show ?case
    by (auto simp: evaluate_def duplicate_evaluation_def evaluation_id_def Let_def valid_hash_digest_hex
        split: sum.splits if_splits option.splits prod.splits)
qed (simp add: evaluator_new_def)

lemma evaluate_fields:
  assumes "alert_reach b3 d h e" "evaluate b3 s e = Some (Inr v, e')"
  shows "ae_alert_id v = ad_alert_id d" "ae_kind v = alert_kind" "ae_network v = fs_network s" "ae_revision v = fs_revision s"
    "valid_hash (ae_evaluation_id v)" "ae_delivery_required v = (ae_outbox_idempotency_key v \<noteq> None)"
    "ae_outbox_idempotency_key v = Some key \<Longrightarrow> valid_hash key"
proof -
  have d: "ev_definition e = d" using alert_reach_inv [OF assms(1)] by (simp add: alert_inv_def)
  have parts: "alert_step e s = Some (t, e1) \<Longrightarrow> ev_definition e1 = d" for t e1 using alert_step_parts d by blast
  note last = alert_reach_last_id [OF assms(1)]
  show "ae_alert_id v = ad_alert_id d" "ae_kind v = alert_kind" "ae_network v = fs_network s" "ae_revision v = fs_revision s"
    "valid_hash (ae_evaluation_id v)" "ae_delivery_required v = (ae_outbox_idempotency_key v \<noteq> None)"
    "ae_outbox_idempotency_key v = Some key \<Longrightarrow> valid_hash key"
    using assms(2) last parts
    by (auto simp: evaluate_def duplicate_evaluation_def evaluation_of_def evaluation_id_def Let_def valid_hash_digest_hex d
        split: sum.splits if_splits option.splits prod.splits)
qed

text \<open>C28: What the evaluator produces is what the store accepts. For a validated definition whose identity has at most 128
  characters and every snapshot the constructor accepts, of a network of at most 64 characters and a revision that is a signed
  integer, each evaluation of each history of the evaluator, duplicates included, passes every check the store makes of an
  evaluation, under every positive version and with every admissible list of facts.\<close>

theorem evaluations_are_storable:
  assumes "alert_definition_new alert min_fee threshold quorum persistence cooldown policy = Inr d" "length alert \<le> 128"
    and "alert_reach b3 d h e"
    and "fee_band_snapshot_new network revision at min_fee' vbytes quorum' eligible unavailable compl cause = Inr s"
    and "length network \<le> 64" "unat revision < 2 ^ 63"
    and "evaluate b3 s e = Some (Inr v, e')"
    and "checked_positive_i64 version = Inr version'" "normalized_fact_ids facts = Inr ids"
  shows "validate_evaluation version at facts v = Inr ()"
proof -
  have d: "ad_alert_id d = alert" "valid_identity alert" using assms(1) by (auto simp: alert_definition_new_def split: if_splits)
  have s: "fs_network s = network" "fs_revision s = revision" "valid_identity network" "revision \<noteq> 0" "\<not> sint at < 0"
    using assms(4) by (auto simp: fee_band_snapshot_new_def rust_result split: if_splits)
  note v = evaluate_fields [OF assms(3,7)]
  have "checked_positive_i64 (ae_revision v) = Inr revision" using v(4) s(2,4) assms(6) by (simp add: checked_positive_i64_def)
  moreover have "valid_bounded_identity (ae_alert_id v) 128" "valid_bounded_identity (ae_network v) 64"
    using v(1,3) d s(1,3) assms(2,5) by (simp_all add: valid_bounded_identity_def valid_identity_def)
  ultimately show ?thesis
    using v(2,5,6,7) s(5) assms(8,9) by (auto simp: validate_evaluation_def split: bool.splits option.splits)
qed

lemma sample_snapshot_new: "fee_band_snapshot_new ''mainnet'' 1 100 1 20 1 [''n''] [] Complete ObservedCause = Inr sample_snapshot"
  by (simp add: fee_band_snapshot_new_def sample_snapshot_def valid_identity_def ascii_graphic_def byte_of_def normalized_sources_def MAX_SOURCE_COUNT_def)

theorem evaluations_are_storable_witness:
  "\<exists>v e. evaluate (\<lambda>_. 0) sample_snapshot (evaluator_new sample_alert) = Some (Inr v, e) \<and> validate_evaluation 1 100 [''f''] v = Inr ()"
proof -
  obtain v e where v: "evaluate (\<lambda>_. 0) sample_snapshot (evaluator_new sample_alert) = Some (Inr v, e)" using sample_alert_evaluates by blast
  have "validate_evaluation 1 100 [''f''] v = Inr ()"
    by (rule evaluations_are_storable [OF sample_alert_new _ alert_reach.alert_start sample_snapshot_new _ _ v _ sample_facts])
      (simp_all add: checked_positive_i64_def)
  then show ?thesis using v by blast
qed

text \<open>The identity of a new evaluation is a function of the definition, the snapshot and the transition.\<close>

lemma alert_step_not_duplicate: "alert_step e s = Some (t, e1) \<Longrightarrow> t \<noteq> DuplicateRevision"
  by (auto simp: alert_step_def Let_def split: if_splits option.splits bool.splits)

lemma evaluate_identity:
  assumes "alert_reach b3 d h e" "evaluate b3 s e = Some (Inr v, e')" "ae_transition v \<noteq> DuplicateRevision"
  shows "ae_evaluation_id v = evaluation_id b3 d s (ae_transition v)"
proof -
  have d: "ev_definition e = d" using alert_reach_inv [OF assms(1)] by (simp add: alert_inv_def)
  show ?thesis using assms(2,3)
    by (auto simp: evaluate_def duplicate_evaluation_def evaluation_of_def Let_def d split: sum.splits if_splits option.splits prod.splits)
qed

text \<open>A stored identity that belongs to another version of the definition is never found again.\<close>

lemma check_current_state_foreign:
  assumes "check_current_state w s = (Inr True, s')" "tables_ok L f (db_tables s)"
    and "fmlookup (tb_evaluations (db_tables s)) (ae_evaluation_id (ew_evaluation w)) = Some row" "er_definition row \<noteq> definition_key w"
  shows False
proof -
  have tables: "db_tables s1 = db_tables s" if "db_call s = (r, s1)" for r s1
    using that by (auto simp: db_call_def split: list.splits io_answer.splits)
  have "state_ok (db_tables s) (definition_key w) st" if "fmlookup (tb_state (db_tables s)) (definition_key w) = Some st" for st
    using assms(2) that unfolding tables_ok_def by blast
  then have state: "sr_last_evaluation_id st \<noteq> ae_evaluation_id (ew_evaluation w)"
    if "fmlookup (tb_state (db_tables s)) (definition_key w) = Some st" for st
    using that assms(3,4) by (auto simp: state_ok_def)
  have hist: "revision_row (db_tables s) (definition_key w) (ew_revision w) \<noteq> Some (ae_evaluation_id (ew_evaluation w))"
    using assms(3,4) by (auto simp: revision_row_def hd_opt_Some_iff is_revision_row_def filter_eq_Cons_iff)
  have again: False if "check_historical_replay w current s1 = (Inr True, s')" "db_tables s1 = db_tables s" for current s1
    using that hist by (auto simp: check_historical_replay_def io_bind_def db_call_def split: list.splits io_answer.splits option.splits if_splits)
  obtain r1 s1 where 1: "db_call s = (r1, s1)" by fastforce
  show False
  proof (cases "fmlookup (tb_state (db_tables s)) (definition_key w)")
    case None
    then show False using assms(1) 1 tables [OF 1] by (cases r1) (auto simp: check_current_state_def io_bind_def)
  next
    case (Some st)
    then show False using assms(1) 1 tables [OF 1] state [OF Some] again [OF _ tables [OF 1]]
      by (cases r1) (auto simp: check_current_state_def io_bind_def split: if_splits)
  qed
qed

lemma persist_foreign_rejected:
  assumes ok: "tables_ok L f (db_tables s)" and run: "persist_mempool_evaluation L version at facts v s = (r, db)"
    and row: "fmlookup (tb_evaluations (db_tables s)) (ae_evaluation_id v) = Some row" "er_definition row \<noteq> (ae_alert_id v, version)"
  shows "(\<exists>err. r = Inl err) \<and> db_tables db = db_tables s"
proof -
  have key: "definition_key w = (ae_alert_id v, version)" "ew_evaluation w = v" if "evaluation_write_new L version at facts v = Inr w" for w
    using that by (auto simp: evaluation_write_new_def definition_key_def checked_positive_i64_def rust_result split: if_splits)
  have stored: "\<not> put s w db" if "evaluation_write_new L version at facts v = Inr w" for w
    using row(1) key [OF that] by (auto simp: put_def addable_def fmdomI)
  have "r \<noteq> Inr Duplicate"
  proof
    assume dup: "r = Inr Duplicate"
    have same: "db_call s1 = (r1, s2) \<Longrightarrow> db_tables s2 = db_tables s1" for s1 r1 s2 using db_call_result by (auto simp: same_db_def)
    have written: "write_evaluation L w s1 \<noteq> (Inr Duplicate, s2)" for w s1 s2
      by (auto simp: write_evaluation_def io_bind_def io_return_def split: prod.splits sum.splits)
    have exists: "ensure_definition_exists k version s1 = (r1, s2) \<Longrightarrow> db_tables s2 = db_tables s1" for k s1 r1 s2
      by (auto simp: ensure_definition_exists_def io_bind_def dest: same split: prod.splits sum.splits)
    obtain w s1 s2 where w: "evaluation_write_new L version at facts v = Inr w" "check_current_state w s1 = (Inr True, s2)"
      "db_tables s1 = db_tables s"
      using run dup written
      by (auto simp: persist_mempool_evaluation_def io_bind_def io_result_def dest!: same exists split: prod.splits sum.splits if_splits)
    show False using check_current_state_foreign [OF w(2)] ok w(3) row key [OF w(1)] by auto
  qed
  moreover have "case r of Inr out \<Rightarrow> out = Duplicate | Inl _ \<Rightarrow> db_tables db = db_tables s"
    using io_tripleD [OF persist_triple same_db_refl run] stored by (auto simp: same_db_def split: sum.splits if_splits) (metis persist_outcome.exhaust)
  ultimately show ?thesis by (cases r) auto
qed

text \<open>C29: A definition that is registered again under a new version cannot store the evaluations that its first version
  stored. In every state of every interleaving: when two evaluators of the same definition, whatever they have seen before,
  give a new evaluation of the same snapshot with the same transition, both evaluations have the same identity, since the
  identity does not cover the version; and when that identity is stored under one version, persisting the evaluation under
  another version fails, whatever the database answers, whatever that version has stored and on every attempt, and leaves the
  tables as they are. When all calls of the database succeed and the version is registered and has no state yet, the error is
  the constraint error of the database.\<close>

theorem evaluation_of_second_version_is_rejected:
  assumes "alert_sink accepted deliver" "accepted k0 = Map.empty" "alert_runs L deliver k0 y" "t = db_tables (ds_db (sy_state y))"
    and "alert_reach b3 d h e" "evaluate b3 s e = Some (Inr v, e1)" "alert_reach b3 d h' e'" "evaluate b3 s e' = Some (Inr v', e2)"
    and "ae_transition v = ae_transition v'" "ae_transition v \<noteq> DuplicateRevision"
    and "fmlookup (tb_evaluations t) (ae_evaluation_id v) = Some row" "er_definition row = (ad_alert_id d, n)" "n \<noteq> n'"
    and "persist_mempool_evaluation L n' at facts v' ((ds_db (sy_state y))\<lparr>db_io := as\<rparr>) = (r, db)"
  shows "ae_evaluation_id v' = ae_evaluation_id v \<and> (\<exists>err. r = Inl err) \<and> db_tables db = t \<and>
    (as = [] \<and> validate_evaluation n' at facts v' = Inr () \<and> evaluation_write_new L n' at facts v' = Inr w \<and>
       fmlookup (tb_definitions t) (ad_alert_id d, n') \<noteq> None \<and> fmlookup (tb_state t) (ad_alert_id d, n') = None \<longrightarrow>
     r = Inl (AlertStorage (lib_constraint L)))"
proof -
  let ?s = "(ds_db (sy_state y))\<lparr>db_io := as\<rparr>"
  obtain f where f: "tables_ok L f t"
    using alert_sink.runs_ok [OF assms(1,3,2)] unfolding system_ok_def assms(4) by blast
  have same: "ae_evaluation_id v' = ae_evaluation_id v"
    using evaluate_identity [OF assms(5,6)] evaluate_identity [OF assms(7,8)] assms(9,10) by simp
  have alert: "ae_alert_id v' = ad_alert_id d" by (rule evaluate_fields(1) [OF assms(7,8)])
  have "(\<exists>err. r = Inl err) \<and> db_tables db = t"
    using persist_foreign_rejected [of L f ?s n' at facts v' r db row] f assms(4,11-14) same alert by simp
  moreover have "r = Inl (AlertStorage (lib_constraint L))"
    if quiet: "as = []" "validate_evaluation n' at facts v' = Inr ()" and w: "evaluation_write_new L n' at facts v' = Inr w"
      and rows: "fmlookup (tb_definitions t) (ad_alert_id d, n') \<noteq> None" "fmlookup (tb_state t) (ad_alert_id d, n') = None"
  proof -
    have key: "definition_key w = (ad_alert_id d, n')" "ew_evaluation w = v'"
      using w alert by (auto simp: evaluation_write_new_def definition_key_def checked_positive_i64_def rust_result split: if_splits)
    have "\<forall>key d. fmlookup (tb_definitions t) key = Some d \<longrightarrow> df_status d = Enabled" using f unfolding tables_ok_def keys_ok_def by blast
    then obtain dr where dr: "fmlookup (tb_definitions t) (ad_alert_id d, n') = Some dr" "df_status dr = Enabled" using rows(1) by blast
    have io: "db_io ?s = []" "db_tables ?s = t" by (simp_all add: quiet assms(4))
    have "ae_evaluation_id v' |\<in>| fmdom (tb_evaluations t)" using assms(11) same by (simp add: fmdomI)
    then have "persist_mempool_evaluation L n' at facts v' ?s = (Inl (AlertStorage (lib_constraint L)), ?s)"
      using quiet(2) w dr rows(2) by (simp add: persist_mempool_evaluation_def ensure_definition_exists_def check_current_state_def
          write_evaluation_def insert_evaluation_def io_bind_def db_call_quiet [OF io(1)] io(2) key del: alert_db.simps)
    then show ?thesis using assms(14) by simp
  qed
  ultimately show ?thesis using same by auto
qed

text \<open>The second version of the sample definition.\<close>

definition sample_second_version :: alert_tables where
  "sample_second_version = sample_alert_tables\<lparr>tb_definitions := fmupd (''a'', 2) \<lparr>df_kind = alert_kind, df_definition = ''a'', df_status = Enabled\<rparr>
     (tb_definitions sample_alert_tables)\<rparr>"

lemma sample_digest_hex: "digest_hex (\<lambda>_. 0) parts = replicate 64 (CHR ''0'')"
  by (simp add: digest_hex_def) code_simp

lemma sample_second_registered:
  "register_mempool_definition sample_alert_lib 2 sample_alert (sample_db sample_alert_tables) = (Inr Inserted, sample_db sample_second_version)"
  by (simp add: register_mempool_definition_def io_bind_def checked_positive_i64_def sample_alert_lib_def sample_alert_def db_call_def
      db_commit_def sample_db_def sample_alert_tables_def added_lookup sample_definitions_def sample_second_version_def
      valid_bounded_identity_def ascii_graphic_def byte_of_def)

lemma sample_second_run: "alert_runs sample_alert_lib memory_sink_deliver fmempty (sample_system sample_second_version fmempty [])"
  using alert_runs.register [OF sample_alert_run, of 2 sample_alert, unfolded sample_system_def, simplified, OF sample_second_registered]
  by (simp add: sample_system_def with_db_def)

theorem evaluation_of_second_version_is_rejected_witness:
  "\<exists>v e r db. evaluate (\<lambda>_. 0) sample_snapshot (evaluator_new sample_alert) = Some (Inr v, e) \<and>
     persist_mempool_evaluation sample_alert_lib 2 100 [''f''] v (sample_db sample_second_version) = (r, db) \<and>
     (\<exists>err. r = Inl err) \<and> db_tables db = sample_second_version"
proof -
  obtain v e where v: "evaluate (\<lambda>_. 0) sample_snapshot (evaluator_new sample_alert) = Some (Inr v, e)" using sample_alert_evaluates by blast
  obtain r db where run: "persist_mempool_evaluation sample_alert_lib 2 100 [''f''] v (sample_db sample_second_version) = (r, db)" by fastforce
  note reach = alert_reach.alert_start [of "\<lambda>_. 0" sample_alert]
  have t: "ae_transition v \<noteq> DuplicateRevision"
    using v by (auto simp: evaluate_def evaluator_new_def evaluation_of_def Let_def dest!: alert_step_not_duplicate split: sum.splits option.splits prod.splits)
  have "ae_evaluation_id v = replicate 64 (CHR ''0'')"
    using evaluate_identity [OF reach v t] by (simp add: evaluation_id_def sample_digest_hex)
  then have row: "fmlookup (tb_evaluations sample_second_version) (ae_evaluation_id v) = Some (row_of sample_write)"
    "er_definition (row_of sample_write) = (ad_alert_id sample_alert, 1)"
    by (simp_all add: sample_second_version_def sample_alert_tables_def added_lookup sample_write_facts row_of_def sample_alert_def)
  have "(\<exists>err. r = Inl err) \<and> db_tables db = sample_second_version"
    using evaluation_of_second_version_is_rejected [OF memory_sink.alert_sink_axioms empty_sink sample_second_run refl reach v reach v refl t,
        of "row_of sample_write" 1 2 100 "[''f'']" "[]" r db] row run
    by (simp add: sample_system_def sample_db_def)
  then show ?thesis using v run by blast
qed

end
