(* ===== verification/Deployment_Registry.thy ===== *)
theory Deployment_Registry
  imports Text_Encoding "HOL-Library.Product_Lexorder"
begin

text \<open>
  The interface the two decoder registries share: deployments of decoders over ranges of positions (blocks or
  slots) of a subject (a contract or a program). A registry refuses a deployment that shares a position with
  one it has, so at most one decoder is selected for a position, whatever the order of registration.
\<close>

section \<open>Ranges\<close>

definition in_range :: "u64 \<Rightarrow> u64 option \<Rightarrow> u64 \<Rightarrow> bool" where
  "in_range lo hi n \<longleftrightarrow> lo \<le> n \<and> (case hi of None \<Rightarrow> True | Some e \<Rightarrow> n \<le> e)"

definition range_end :: "u64 option \<Rightarrow> u64" where
  "range_end hi = (case hi of None \<Rightarrow> - 1 | Some e \<Rightarrow> e)"

definition valid_range :: "u64 \<Rightarrow> u64 option \<Rightarrow> bool" where
  "valid_range lo hi \<longleftrightarrow> (case hi of None \<Rightarrow> True | Some e \<Rightarrow> lo \<le> e)"

definition ranges_meet :: "u64 \<Rightarrow> u64 option \<Rightarrow> u64 \<Rightarrow> u64 option \<Rightarrow> bool" where
  "ranges_meet lo hi lo' hi' \<longleftrightarrow> lo \<le> range_end hi' \<and> lo' \<le> range_end hi"

lemma in_range_end: "in_range lo hi n \<longleftrightarrow> lo \<le> n \<and> n \<le> range_end hi"
  by (simp add: in_range_def range_end_def split: option.split)

lemma valid_range_end: "valid_range lo hi \<longleftrightarrow> lo \<le> range_end hi"
  by (simp add: valid_range_def range_end_def split: option.split)

lemma ranges_meet_iff:
  assumes "valid_range lo hi" "valid_range lo' hi'"
  shows "ranges_meet lo hi lo' hi' \<longleftrightarrow> (\<exists>n. in_range lo hi n \<and> in_range lo' hi' n)"
proof
  assume "ranges_meet lo hi lo' hi'"
  then have "in_range lo hi (max lo lo') \<and> in_range lo' hi' (max lo lo')"
    using assms by (auto simp: ranges_meet_def in_range_end valid_range_end max_def)
  then show "\<exists>n. in_range lo hi n \<and> in_range lo' hi' n" ..
qed (auto simp: ranges_meet_def in_range_end intro: order_trans)

section \<open>Registries\<close>

locale deployment_registry =
  fixes deployments :: "'r \<Rightarrow> 'd list"
    and register :: "'d \<Rightarrow> 'r \<Rightarrow> ('e + unit) \<times> 'r"
    and resolve :: "'r \<Rightarrow> 'k \<Rightarrow> u64 \<Rightarrow> 'd option"
    and covers :: "'d \<Rightarrow> 'k \<Rightarrow> u64 \<Rightarrow> bool"
    and valid :: "'d \<Rightarrow> bool"
  assumes register_accepts: "register d r = (Inr (), r') \<Longrightarrow> set (deployments r') = insert d (set (deployments r))"
    and register_disjoint: "register d r = (Inr (), r') \<Longrightarrow> d' \<in> set (deployments r) \<Longrightarrow> \<not> (covers d k n \<and> covers d' k n)"
    and register_refuses: "register d r = (Inl e, r') \<Longrightarrow> valid d \<Longrightarrow> \<forall>x \<in> set (deployments r). valid x \<Longrightarrow>
        r' = r \<and> (\<exists>d' \<in> set (deployments r). \<exists>k n. covers d k n \<and> covers d' k n)"
    and resolve_some: "resolve r k n = Some d \<Longrightarrow> d \<in> set (deployments r) \<and> covers d k n"
    and resolve_none: "resolve r k n = None \<Longrightarrow> d \<in> set (deployments r) \<Longrightarrow> \<not> covers d k n"
begin

definition disjoint_deployments :: "'r \<Rightarrow> bool" where
  "disjoint_deployments r \<longleftrightarrow>
     (\<forall>d \<in> set (deployments r). \<forall>d' \<in> set (deployments r). \<forall>k n. covers d k n \<longrightarrow> covers d' k n \<longrightarrow> d = d')"

fun register_all :: "'d list \<Rightarrow> 'r \<Rightarrow> 'r" where
  "register_all [] r = r"
| "register_all (d # ds) r = register_all ds (snd (register d r))"

lemma register_keeps_disjoint:
  assumes "disjoint_deployments r" "register d r = (Inr (), r')"
  shows "disjoint_deployments r'"
  using assms(1) register_accepts [OF assms(2)] register_disjoint [OF assms(2)]
  unfolding disjoint_deployments_def by (metis insert_iff)

lemma resolve_unique:
  assumes "disjoint_deployments r"
  shows "resolve r k n = Some d \<longleftrightarrow> d \<in> set (deployments r) \<and> covers d k n"
proof
  assume d: "d \<in> set (deployments r) \<and> covers d k n"
  then obtain d' where d': "resolve r k n = Some d'" using resolve_none by (cases "resolve r k n") blast+
  then have "d' = d" using resolve_some d assms unfolding disjoint_deployments_def by blast
  then show "resolve r k n = Some d" using d' by simp
qed (rule resolve_some)

lemma resolve_depends_on_set:
  assumes "disjoint_deployments r" "disjoint_deployments r'" "set (deployments r) = set (deployments r')"
  shows "resolve r k n = resolve r' k n"
proof (cases "resolve r k n")
  case None
  then have "resolve r' k n \<noteq> Some d" for d using resolve_unique [OF assms(2)] resolve_none assms(3) by blast
  then show ?thesis using None by (cases "resolve r' k n") auto
next
  case (Some d)
  then show ?thesis using resolve_unique [OF assms(1)] resolve_unique [OF assms(2)] assms(3) by metis
qed

text \<open>What a registry holds after a sequence of attempts: every deployment, unless an earlier one shares a position.\<close>

lemma register_all_spec:
  assumes "disjoint_deployments r" "\<forall>x \<in> set (deployments r). valid x" "\<forall>d \<in> set ds. valid d"
  shows "disjoint_deployments (register_all ds r) \<and> set (deployments r) \<subseteq> set (deployments (register_all ds r)) \<and>
    set (deployments (register_all ds r)) \<subseteq> set (deployments r) \<union> set ds \<and>
    (\<forall>d \<in> set ds. d \<in> set (deployments (register_all ds r)) \<or>
       (\<exists>d' \<in> set (deployments (register_all ds r)). \<exists>k n. covers d k n \<and> covers d' k n))"
  using assms
proof (induction ds arbitrary: r)
  case (Cons d ds)
  obtain res r1 where r1: "register d r = (res, r1)" by fastforce
  show ?case
  proof (cases res)
    case (Inl e)
    have refused: "r1 = r" "\<exists>d' \<in> set (deployments r). \<exists>k n. covers d k n \<and> covers d' k n"
      using register_refuses [of d r e r1] r1 Inl Cons.prems by auto
    have IH: "disjoint_deployments (register_all ds r)" "set (deployments r) \<subseteq> set (deployments (register_all ds r))"
      "set (deployments (register_all ds r)) \<subseteq> set (deployments r) \<union> set ds"
      "\<forall>d \<in> set ds. d \<in> set (deployments (register_all ds r)) \<or>
         (\<exists>d' \<in> set (deployments (register_all ds r)). \<exists>k n. covers d k n \<and> covers d' k n)"
      using Cons.IH [OF Cons.prems(1,2)] Cons.prems(3) by simp_all
    have "register_all (d # ds) r = register_all ds r" using r1 refused(1) by simp
    then show ?thesis using IH refused(2) by (simp only: list.set ball_simps) blast
  next
    case (Inr u)
    then have ok: "register d r = (Inr (), r1)" using r1 by simp
    note set1 = register_accepts [OF ok]
    have v: "\<forall>x \<in> set (deployments r1). valid x" using set1 Cons.prems by simp
    have IH: "disjoint_deployments (register_all ds r1)" "set (deployments r1) \<subseteq> set (deployments (register_all ds r1))"
      "set (deployments (register_all ds r1)) \<subseteq> set (deployments r1) \<union> set ds"
      "\<forall>d \<in> set ds. d \<in> set (deployments (register_all ds r1)) \<or>
         (\<exists>d' \<in> set (deployments (register_all ds r1)). \<exists>k n. covers d k n \<and> covers d' k n)"
      using Cons.IH [OF register_keeps_disjoint [OF Cons.prems(1) ok] v] Cons.prems(3) by simp_all
    have "register_all (d # ds) r = register_all ds r1" using r1 by simp
    then show ?thesis using IH set1 by (simp only: list.set ball_simps) blast
  qed
qed simp

end

end
