(* ===== verification/Evm_Decoder.thy ===== *)
theory Evm_Decoder
  imports Evm_Domain Deployment_Registry
begin

text \<open>
  The EVM decoder registry of \<open>processors/evm-decoder/src/lib.rs\<close>: deployments of decoders over block
  ranges of a contract, the decoder selected for a native fact, and the revisions that record its outcome.
  BLAKE3 and the JSON printer are parameters; \<open>'v\<close> is the type of JSON values.
\<close>

section \<open>Deployments and subjects\<close>

datatype evm_decoder_error =
    DecoderUnsupportedChainId u64
  | InvalidDeploymentRange
  | EmptyVersion
  | OverlappingDeployment
  | EmptyNativeFactId
  | DecoderZeroRevision
  | NoDeployment
  | InvalidDecodedOutput
  | DecodedOutputTooLarge

definition validate_chain :: "u64 \<Rightarrow> evm_decoder_error + unit" where
  "validate_chain n = (if n = 1 \<or> n = 56 then Inr () else Inl (DecoderUnsupportedChainId n))"

record evm_deployment =
  dep_chain_id :: u64
  dep_address :: address
  dep_valid_from_block :: u64
  dep_valid_to_block :: "u64 option"
  dep_version :: string

definition evm_deployment_new ::
  "u64 \<Rightarrow> address \<Rightarrow> u64 \<Rightarrow> u64 option \<Rightarrow> string \<Rightarrow> evm_decoder_error + evm_deployment" where
  "evm_deployment_new chain addr lo hi version =
     and_then (validate_chain chain) (\<lambda>_.
     if \<not> valid_range lo hi then Inl InvalidDeploymentRange
     else if str_blank version then Inl EmptyVersion
     else Inr \<lparr>dep_chain_id = chain, dep_address = addr, dep_valid_from_block = lo, dep_valid_to_block = hi, dep_version = version\<rparr>)"

definition evm_contains :: "evm_deployment \<Rightarrow> u64 \<Rightarrow> bool" where
  "evm_contains d n = in_range (dep_valid_from_block d) (dep_valid_to_block d) n"

definition evm_overlaps :: "evm_deployment \<Rightarrow> evm_deployment \<Rightarrow> bool" where
  "evm_overlaps d d' \<longleftrightarrow> dep_chain_id d = dep_chain_id d' \<and> dep_address d = dep_address d' \<and>
     ranges_meet (dep_valid_from_block d) (dep_valid_to_block d) (dep_valid_from_block d') (dep_valid_to_block d')"

record decode_subject =
  sub_chain_id :: u64
  sub_address :: address
  sub_block_number :: u64
  sub_native_fact_id :: string
  sub_selector :: u32
  sub_raw_data :: bytes

definition decode_subject_new ::
  "u64 \<Rightarrow> address \<Rightarrow> u64 \<Rightarrow> string \<Rightarrow> u32 \<Rightarrow> bytes \<Rightarrow> evm_decoder_error + decode_subject" where
  "decode_subject_new chain addr n native selector raw =
     and_then (validate_chain chain) (\<lambda>_.
     if str_blank native then Inl EmptyNativeFactId
     else Inr \<lparr>sub_chain_id = chain, sub_address = addr, sub_block_number = n, sub_native_fact_id = native,
       sub_selector = selector, sub_raw_data = raw\<rparr>)"

section \<open>Revisions\<close>

datatype decode_status = Decoded | DecodeFailed | DecodeUnknown

record evm_decode_revision =
  edr_replay_key :: string
  edr_chain_id :: u64
  edr_contract_address :: string
  edr_native_fact_id :: string
  edr_selector_hex :: string
  edr_raw_data_hex :: string
  edr_decoder_version :: "string option"
  edr_status :: decode_status
  edr_decoded_json :: "string option"
  edr_error :: "string option"
  edr_revision :: u64

definition selector_hex :: "decode_subject \<Rightarrow> string" where
  "selector_hex s = encode_hex (be_bytes 4 (unat (sub_selector s)))"

definition decode_logical_key :: "evm_lib \<Rightarrow> decode_subject \<Rightarrow> string" where
  "decode_logical_key X s =
     dec_string (unat (sub_chain_id s)) @ CHR 0x00 # lib_address_text X (sub_address s) @ CHR 0x00 #
     sub_native_fact_id s @ CHR 0x00 # selector_hex s"

definition build_revision ::
  "evm_lib \<Rightarrow> (bytes \<Rightarrow> digest) \<Rightarrow> decode_subject \<Rightarrow> string option \<Rightarrow> decode_status \<Rightarrow> string option \<Rightarrow> string option \<Rightarrow> u64 \<Rightarrow>
   evm_decode_revision" where
  "build_revision X b3 s version status json error revision =
     \<lparr>edr_replay_key = encode_hex (be_bytes 32 (unat (b3 (ascii_bytes (decode_logical_key X s))))),
      edr_chain_id = sub_chain_id s, edr_contract_address = lib_address_text X (sub_address s),
      edr_native_fact_id = sub_native_fact_id s, edr_selector_hex = selector_hex s,
      edr_raw_data_hex = encode_hex (sub_raw_data s), edr_decoder_version = version, edr_status = status,
      edr_decoded_json = json, edr_error = error, edr_revision = revision\<rparr>"

section \<open>The registry\<close>

type_synonym evm_registry = "evm_deployment list"

definition evm_registry_new :: evm_registry where
  "evm_registry_new = []"

definition evm_register :: "evm_deployment \<Rightarrow> evm_registry \<Rightarrow> (evm_decoder_error + unit) \<times> evm_registry" where
  "evm_register d r =
     (if list_ex (\<lambda>c. evm_overlaps c d) r then (Inl OverlappingDeployment, r)
      else (Inr (), sort_key (\<lambda>x. (dep_chain_id x, dep_address x, dep_valid_from_block x)) (r @ [d])))"

definition evm_resolve :: "evm_registry \<Rightarrow> u64 \<times> address \<Rightarrow> u64 \<Rightarrow> evm_deployment option" where
  "evm_resolve r k n = find (\<lambda>d. dep_chain_id d = fst k \<and> dep_address d = snd k \<and> evm_contains d n) r"

definition record_outcome ::
  "evm_lib \<Rightarrow> (bytes \<Rightarrow> digest) \<Rightarrow> ('v \<Rightarrow> string + string) \<Rightarrow> evm_registry \<Rightarrow> decode_subject \<Rightarrow> string + 'v \<Rightarrow> u64 \<Rightarrow>
   evm_decoder_error + evm_decode_revision" where
  "record_outcome X b3 json r s outcome revision =
     (if revision = 0 then Inl DecoderZeroRevision
      else and_then (ok_or (evm_resolve r (sub_chain_id s, sub_address s) (sub_block_number s)) NoDeployment) (\<lambda>d.
        and_then
          (case outcome of
             Inr v \<Rightarrow> and_then (map_sum (\<lambda>_. InvalidDecodedOutput) id (json v)) (\<lambda>text.
               if 1048576 < length text then Inl DecodedOutputTooLarge else Inr (Decoded, Some text, None))
           | Inl error \<Rightarrow> Inr (DecodeFailed, None, Some (take_chars 1024 error))) (\<lambda>(status, text, error).
        Inr (build_revision X b3 s (Some (dep_version d)) status text error revision))))"

definition record_unknown ::
  "evm_lib \<Rightarrow> (bytes \<Rightarrow> digest) \<Rightarrow> decode_subject \<Rightarrow> u64 \<Rightarrow> evm_decoder_error + evm_decode_revision" where
  "record_unknown X b3 s revision =
     (if revision = 0 then Inl DecoderZeroRevision
      else Inr (build_revision X b3 s None DecodeUnknown None None revision))"

section \<open>Selection\<close>

definition evm_covers :: "evm_deployment \<Rightarrow> u64 \<times> address \<Rightarrow> u64 \<Rightarrow> bool" where
  "evm_covers d k n \<longleftrightarrow> dep_chain_id d = fst k \<and> dep_address d = snd k \<and> evm_contains d n"

definition evm_deployment_valid :: "evm_deployment \<Rightarrow> bool" where
  "evm_deployment_valid d \<longleftrightarrow> valid_range (dep_valid_from_block d) (dep_valid_to_block d)"

lemma evm_deployment_new_valid: "evm_deployment_new chain addr lo hi version = Inr d \<Longrightarrow> evm_deployment_valid d"
  by (auto simp: evm_deployment_new_def evm_deployment_valid_def rust_result split: if_splits)

lemma evm_overlaps_covers:
  assumes "evm_deployment_valid d" "evm_deployment_valid d'"
  shows "evm_overlaps d d' \<longleftrightarrow> (\<exists>k n. evm_covers d k n \<and> evm_covers d' k n)"
  using ranges_meet_iff [OF assms [unfolded evm_deployment_valid_def]]
  by (auto simp: evm_overlaps_def evm_covers_def evm_contains_def)

lemma evm_not_overlaps_disjoint: "\<not> evm_overlaps d d' \<Longrightarrow> \<not> (evm_covers d k n \<and> evm_covers d' k n)"
  by (auto simp: evm_overlaps_def evm_covers_def evm_contains_def ranges_meet_def in_range_end intro: order_trans)

interpretation evm_decoders: deployment_registry "\<lambda>r. r" evm_register evm_resolve evm_covers evm_deployment_valid
proof
  fix d d' :: evm_deployment and r r' :: evm_registry and k n
  show "set r' = insert d (set r)" if "evm_register d r = (Inr (), r')"
    using that by (auto simp: evm_register_def split: if_splits)
  show "\<not> (evm_covers d k n \<and> evm_covers d' k n)" if "evm_register d r = (Inr (), r')" "d' \<in> set r"
  proof -
    have "\<not> evm_overlaps d' d" using that by (auto simp: evm_register_def list_ex_iff split: if_splits)
    then show ?thesis using evm_not_overlaps_disjoint [of d' d k n] by blast
  qed
  show "r' = r \<and> (\<exists>d' \<in> set r. \<exists>k n. evm_covers d k n \<and> evm_covers d' k n)"
    if refused: "evm_register d r = (Inl e, r')" "evm_deployment_valid d" "\<forall>x \<in> set r. evm_deployment_valid x" for e
  proof -
    obtain c where "r' = r" "c \<in> set r" "evm_overlaps c d" using refused(1) by (auto simp: evm_register_def list_ex_iff split: if_splits)
    then show ?thesis using evm_overlaps_covers refused(2,3) by blast
  qed
  show "d \<in> set r \<and> evm_covers d k n" if "evm_resolve r k n = Some d"
    using that by (auto simp: evm_resolve_def evm_covers_def find_Some_iff)
  show "\<not> evm_covers d k n" if "evm_resolve r k n = None" "d \<in> set r"
    using that by (auto simp: evm_resolve_def evm_covers_def find_None_iff)
qed

text \<open>Registering a list of deployments, ignoring refusals.\<close>

definition evm_register_all :: "evm_deployment list \<Rightarrow> evm_registry" where
  "evm_register_all ds = fold (\<lambda>d r. snd (evm_register d r)) ds evm_registry_new"

lemma evm_register_all_fold: "fold (\<lambda>d r. snd (evm_register d r)) ds r = evm_decoders.register_all ds r"
  by (induction ds arbitrary: r) simp_all

lemma evm_register_all_spec:
  assumes "\<forall>d \<in> set ds. evm_deployment_valid d"
  shows "evm_decoders.disjoint_deployments (evm_register_all ds)" "set (evm_register_all ds) \<subseteq> set ds"
    "\<forall>d \<in> set ds. d \<in> set (evm_register_all ds) \<or> (\<exists>d' \<in> set (evm_register_all ds). \<exists>k n. evm_covers d k n \<and> evm_covers d' k n)"
  using evm_decoders.register_all_spec [of "[]" ds] assms
  by (simp_all add: evm_register_all_def evm_register_all_fold evm_registry_new_def evm_decoders.disjoint_deployments_def)

text \<open>What one more attempt does: it is refused exactly when a registered deployment shares a block of the contract, and then
  the registry is as before.\<close>

lemma evm_register_next:
  assumes "\<forall>d \<in> set ds. evm_deployment_valid d" "evm_deployment_valid x" "evm_register x (evm_register_all ds) = (res, r)"
  shows "if \<exists>d' \<in> set (evm_register_all ds). \<exists>k n. evm_covers x k n \<and> evm_covers d' k n
    then res = Inl OverlappingDeployment \<and> r = evm_register_all ds
    else res = Inr () \<and> set r = insert x (set (evm_register_all ds))"
proof (cases res)
  case (Inl e)
  have "\<forall>d \<in> set (evm_register_all ds). evm_deployment_valid d" using evm_register_all_spec(2) [OF assms(1)] assms(1) by blast
  then have "r = evm_register_all ds \<and> (\<exists>d' \<in> set (evm_register_all ds). \<exists>k n. evm_covers x k n \<and> evm_covers d' k n)"
    using evm_decoders.register_refuses assms(2,3) Inl by blast
  moreover have "e = OverlappingDeployment" using assms(3) Inl by (auto simp: evm_register_def split: if_splits)
  ultimately show ?thesis using Inl by simp
next
  case (Inr u)
  then show ?thesis using evm_decoders.register_accepts evm_decoders.register_disjoint assms(3) by fastforce
qed

text \<open>C30: At most one decoder is selected, and the order of registration does not matter. After any sequence of attempts to
  register validated deployments, the decoder resolved for a contract and a block is the one registered deployment that covers
  them, and there is none when no registered deployment does; a deployment that was refused shares a block of its contract with
  a registered one; two registries that hold the same deployments resolve every block alike, in whatever order they were
  registered; and one more attempt is refused exactly when a registered deployment shares a block with it, which leaves the
  whole registry unchanged, and otherwise adds the deployment and keeps the others.\<close>

theorem evm_decoder_selection_is_unambiguous:
  assumes "\<forall>d \<in> set ds. evm_deployment_valid d" "\<forall>d \<in> set ds'. evm_deployment_valid d"
    "evm_deployment_valid x" "evm_register x (evm_register_all ds) = (res, r)"
  shows "(evm_resolve (evm_register_all ds) k n = Some d \<longleftrightarrow> d \<in> set (evm_register_all ds) \<and> evm_covers d k n) \<and>
    (\<forall>d \<in> set ds. d \<in> set (evm_register_all ds) \<or> (\<exists>d' \<in> set (evm_register_all ds). \<exists>k n. evm_covers d k n \<and> evm_covers d' k n)) \<and>
    (set (evm_register_all ds) = set (evm_register_all ds') \<longrightarrow>
       evm_resolve (evm_register_all ds) k n = evm_resolve (evm_register_all ds') k n) \<and>
    (if \<exists>d' \<in> set (evm_register_all ds). \<exists>k n. evm_covers x k n \<and> evm_covers d' k n
     then res = Inl OverlappingDeployment \<and> r = evm_register_all ds
     else res = Inr () \<and> set r = insert x (set (evm_register_all ds)))"
proof -
  note spec = evm_register_all_spec [OF assms(1)] evm_register_all_spec [OF assms(2)]
  show ?thesis
    by (intro conjI evm_register_next [OF assms(1,3,4)] evm_decoders.resolve_unique spec(3) spec(1) impI
        evm_decoders.resolve_depends_on_set [OF spec(1,4)])
qed

definition sample_deployment :: "u64 \<Rightarrow> u64 option \<Rightarrow> evm_deployment" where
  "sample_deployment lo hi = \<lparr>dep_chain_id = 1, dep_address = 7, dep_valid_from_block = lo, dep_valid_to_block = hi, dep_version = ''v''\<rparr>"

lemma sample_registered:
  "evm_register_all [sample_deployment 0 (Some 9), sample_deployment 5 None, sample_deployment 10 None] =
     [sample_deployment 0 (Some 9), sample_deployment 10 None]"
  by (simp add: evm_register_all_def evm_registry_new_def evm_register_def evm_overlaps_def sample_deployment_def ranges_meet_def range_end_def)

theorem evm_decoder_selection_is_unambiguous_witness:
  "evm_resolve [sample_deployment 0 (Some 9), sample_deployment 10 None] (1, 7) 5 = Some (sample_deployment 0 (Some 9)) \<and>
   evm_register (sample_deployment 5 None) [sample_deployment 0 (Some 9), sample_deployment 10 None] =
     (Inl OverlappingDeployment, [sample_deployment 0 (Some 9), sample_deployment 10 None])"
proof -
  let ?ds = "[sample_deployment 0 (Some 9), sample_deployment 5 None, sample_deployment 10 None]"
  have valid: "\<forall>d \<in> set ?ds. evm_deployment_valid d" "evm_deployment_valid (sample_deployment 5 None)"
    by (simp_all add: evm_deployment_valid_def sample_deployment_def valid_range_def)
  have in_rng: "evm_covers (sample_deployment 0 (Some 9)) (1, 7) 5" "evm_covers (sample_deployment 5 None) (1, 7) 5"
    by (simp_all add: evm_covers_def evm_contains_def sample_deployment_def in_range_def)
  obtain res r where reg: "evm_register (sample_deployment 5 None) (evm_register_all ?ds) = (res, r)" by fastforce
  from evm_decoder_selection_is_unambiguous [OF valid(1) valid(1) valid(2) reg, of "(1, 7)" 5 "sample_deployment 0 (Some 9)"]
  show ?thesis using in_rng reg unfolding sample_registered by (fastforce split: if_splits)
qed

section \<open>Replay keys\<close>

lemma logical_key_inj:
  assumes addr: "\<And>a b. lib_address_text X a = lib_address_text X b \<Longrightarrow> a = b" "\<And>a. CHR 0x00 \<notin> set (lib_address_text X a)"
    and eq: "decode_logical_key X s = decode_logical_key X t"
  shows "sub_chain_id s = sub_chain_id t \<and> sub_address s = sub_address t \<and> sub_native_fact_id s = sub_native_fact_id t \<and> sub_selector s = sub_selector t"
proof -
  have nul: "CHR 0x00 \<notin> set (dec_string n)" for n
    using dec_string_digits [of n] by (auto simp: list_all_iff is_ascii_digit_def byte_of_def)
  have 1: "dec_string (unat (sub_chain_id s)) = dec_string (unat (sub_chain_id t))"
    "lib_address_text X (sub_address s) @ CHR 0x00 # sub_native_fact_id s @ CHR 0x00 # selector_hex s =
       lib_address_text X (sub_address t) @ CHR 0x00 # sub_native_fact_id t @ CHR 0x00 # selector_hex t"
    using append_separator [OF nul nul eq [unfolded decode_logical_key_def]] by simp_all
  have 2: "lib_address_text X (sub_address s) = lib_address_text X (sub_address t)"
    "sub_native_fact_id s @ CHR 0x00 # selector_hex s = sub_native_fact_id t @ CHR 0x00 # selector_hex t"
    using append_separator [OF addr(2) addr(2) 1(2)] by simp_all
  have "length (CHR 0x00 # selector_hex s) = length (CHR 0x00 # selector_hex t)" by (simp add: selector_hex_def)
  from append_eq_append_conv [THEN iffD1, OF disjI2, OF this 2(2)]
  have 3: "sub_native_fact_id s = sub_native_fact_id t" "selector_hex s = selector_hex t" by simp_all
  have "be_bytes 4 (unat (sub_selector s)) = be_bytes 4 (unat (sub_selector t))"
    using 3(2) by (simp add: selector_hex_def encode_hex_inj)
  then have "sub_selector s = sub_selector t" by (simp add: be_bytes_word_inj)
  moreover have "sub_chain_id s = sub_chain_id t" using 1(1) by (simp add: dec_string_inj word_unat_eq_iff)
  moreover have "sub_address s = sub_address t" by (rule addr(1) [OF 2(1)])
  ultimately show ?thesis using 3(1) by blast
qed

text \<open>The revisions of two decoding attempts share a replay key exactly when they are about the same contract, native fact and
  selector, as long as the hash does not collide on the keys that occur.\<close>

theorem evm_replay_key_identifies_subject:
  assumes "\<And>a b. lib_address_text X a = lib_address_text X b \<Longrightarrow> a = b" "\<And>a. CHR 0x00 \<notin> set (lib_address_text X a)"
    and "inj_on b3 ((\<lambda>s. ascii_bytes (decode_logical_key X s)) ` U)" "s \<in> U" "t \<in> U"
  shows "edr_replay_key (build_revision X b3 s ver st js er rv) = edr_replay_key (build_revision X b3 t ver' st' js' er' rv') \<longleftrightarrow>
    sub_chain_id s = sub_chain_id t \<and> sub_address s = sub_address t \<and> sub_native_fact_id s = sub_native_fact_id t \<and> sub_selector s = sub_selector t"
    (is "?key \<longleftrightarrow> ?same")
proof
  assume ?key
  then have "be_bytes 32 (unat (b3 (ascii_bytes (decode_logical_key X s)))) = be_bytes 32 (unat (b3 (ascii_bytes (decode_logical_key X t))))"
    by (simp add: build_revision_def encode_hex_inj)
  then have "b3 (ascii_bytes (decode_logical_key X s)) = b3 (ascii_bytes (decode_logical_key X t))"
    by (simp add: be_bytes_word_inj)
  then have "decode_logical_key X s = decode_logical_key X t" using assms(3-5) by (auto simp: inj_on_def ascii_bytes_inj)
  from assms(1,2) this show ?same by (rule logical_key_inj)
qed (simp add: build_revision_def decode_logical_key_def selector_hex_def)

end
