(* ===== verification/Fact_Envelope.thy ===== *)
theory Fact_Envelope
  imports Text_Encoding Observation_Envelope
begin

text \<open>
  Fixture facts (\<open>crates/fact-envelope\<close>, the generated record \<open>Fact\<close>) and their derivation from a committed observation, and the
  gaps of a sequence of collector sequence numbers (\<open>processors/native-normalizer/src/lib.rs\<close>). BLAKE3 and JSON are parameters.
\<close>

section \<open>Facts\<close>

record fact_envelope =
  fa_schema_version :: u32
  fa_fact_id :: bytes
  fa_fact_key :: bytes
  fa_revision :: u64
  fa_chain :: string
  fa_network :: string
  fa_fact_type :: string
  fa_valid_from_unix_ns :: i64
  fa_recorded_at_unix_ns :: i64
  fa_canonicality :: string
  fa_finality :: string
  fa_source_observation_ids :: "bytes list"
  fa_parser_version :: string
  fa_quality_flags :: "string list"
  fa_payload :: bytes
  fa_supersedes_fact_id :: "bytes option"

record fixture_payload =
  fp_fixture_id :: string
  fp_value :: string
  fp_source_sequence :: u64

record fixture_fact =
  ff_envelope :: fact_envelope
  ff_payload :: fixture_payload
  ff_fact_id_hex :: string
  ff_fact_key_hex :: string
  ff_observation_id_hex :: string
  ff_source_id :: string
  ff_source_session_id :: bytes

record fixture_lineage =
  fl_observation_id :: string
  fl_source_session_id :: string

record fixture_fact_view =
  fv_fact_id :: string
  fv_fact_key :: string
  fv_revision :: u64
  fv_fixture_id :: string
  fv_value :: string
  fv_source_sequence :: u64
  fv_chain :: string
  fv_network :: string
  fv_canonicality :: string
  fv_parser_version :: string
  fv_source_id :: string
  fv_lineage :: fixture_lineage

record fact_lib =
  lib_blake3 :: "bytes \<Rightarrow> digest"
  lib_committed_decode :: "bytes \<Rightarrow> string + committed_observation"
  lib_payload_parse :: "bytes \<Rightarrow> string + fixture_payload"
  lib_payload_json :: "fixture_payload \<Rightarrow> string + bytes"

definition FIXTURE_PARSER_VERSION :: string where "FIXTURE_PARSER_VERSION = ''fixture-native/1.0.0''"
definition FACT_KEY_DOMAIN :: bytes where "FACT_KEY_DOMAIN = ascii_bytes ''fixture/v1''"
definition FACT_ID_DOMAIN :: bytes where "FACT_ID_DOMAIN = ascii_bytes ''fact/v1''"

definition fixture_fact_key :: "fact_lib \<Rightarrow> string \<Rightarrow> bytes" where
  "fixture_fact_key X fixture_id = be_bytes 32 (unat (lib_blake3 X (FACT_KEY_DOMAIN @ ascii_bytes fixture_id)))"

definition fixture_fact_id :: "fact_lib \<Rightarrow> bytes \<Rightarrow> u64 \<Rightarrow> bytes \<Rightarrow> bytes" where
  "fixture_fact_id X key revision obs =
     be_bytes 32 (unat (lib_blake3 X (FACT_ID_DOMAIN @ key @ be_bytes 8 (unat revision) @ obs)))"

section \<open>Normalisation of an observation\<close>

datatype fact_error = FactInvalidIdentityLength string nat nat

datatype normalizer_error =
    MissingObservation
  | FactFailure fact_error
  | InvalidPayload string
  | SourceSequenceMismatch "u64 option" u64
  | ClickHouseFailure string

definition identity_bytes :: "string \<Rightarrow> nat \<Rightarrow> bytes \<Rightarrow> normalizer_error + bytes" where
  "identity_bytes field expected bs =
     (if length bs = expected then Inr bs else Inl (FactFailure (FactInvalidIdentityLength field expected (length bs))))"

definition build_fact :: "fact_lib \<Rightarrow> committed_observation \<Rightarrow> observation \<Rightarrow> fixture_payload \<Rightarrow> normalizer_error + fixture_fact" where
  "build_fact X committed obs p =
     and_then (identity_bytes ''observation_id'' 32 (ob_observation_id obs)) (\<lambda>observation_id.
     and_then (identity_bytes ''source_session_id'' 16 (ob_source_session_id obs)) (\<lambda>source_session_id.
     let fact_key = fixture_fact_key X (fp_fixture_id p); revision = 1;
         fact_id = fixture_fact_id X fact_key revision observation_id
     in and_then (map_sum InvalidPayload id (lib_payload_json X p)) (\<lambda>json.
       Inr \<lparr>ff_envelope = \<lparr>fa_schema_version = 1, fa_fact_id = fact_id, fa_fact_key = fact_key, fa_revision = revision,
             fa_chain = ob_chain obs, fa_network = ob_network obs, fa_fact_type = ''fixture'',
             fa_valid_from_unix_ns = ob_observed_at_unix_ns obs, fa_recorded_at_unix_ns = co_durable_at_unix_ns committed,
             fa_canonicality = ''not_applicable'', fa_finality = ''not_applicable'', fa_source_observation_ids = [observation_id],
             fa_parser_version = FIXTURE_PARSER_VERSION, fa_quality_flags = ob_quality_flags obs, fa_payload = json,
             fa_supersedes_fact_id = None\<rparr>,
           ff_payload = p, ff_fact_id_hex = encode_hex fact_id, ff_fact_key_hex = encode_hex fact_key,
           ff_observation_id_hex = encode_hex observation_id, ff_source_id = ob_source_id obs,
           ff_source_session_id = source_session_id\<rparr>)))"

definition normalize_fixture :: "fact_lib \<Rightarrow> committed_observation \<Rightarrow> normalizer_error + fixture_fact" where
  "normalize_fixture X committed =
     and_then (ok_or (co_observation committed) MissingObservation) (\<lambda>obs.
     and_then (map_sum InvalidPayload id (lib_payload_parse X (ob_payload obs))) (\<lambda>p.
     if ob_source_sequence obs \<noteq> Some (fp_source_sequence p)
     then Inl (SourceSequenceMismatch (ob_source_sequence obs) (fp_source_sequence p))
     else build_fact X committed obs p))"

section \<open>Gaps\<close>

datatype gap_status = KnownIncomplete

record missing_interval =
  ii_status :: gap_status
  ii_missing_first :: u64
  ii_missing_last :: u64

definition detect_collector_gap :: "u64 \<Rightarrow> u64 \<Rightarrow> missing_interval option" where
  "detect_collector_gap previous next =
     (case checked_add previous 1 of
        None \<Rightarrow> None
      | Some expected \<Rightarrow>
          if next \<le> expected then None
          else Some \<lparr>ii_status = KnownIncomplete, ii_missing_first = expected, ii_missing_last = next - 1\<rparr>)"

text \<open>The pairs of neighbours, as \<open>windows(2)\<close> gives them.\<close>

definition windows2 :: "'a list \<Rightarrow> ('a \<times> 'a) list" where
  "windows2 xs = zip xs (tl xs)"

definition detect_sequence_gaps :: "u64 list \<Rightarrow> missing_interval list" where
  "detect_sequence_gaps sequences =
     List.map_filter (\<lambda>(a, b). detect_collector_gap a b) (windows2 (remdups_adj (sort sequences)))"

text \<open>The sequence numbers of an interval.\<close>

definition interval_set :: "missing_interval \<Rightarrow> u64 set" where
  "interval_set i = {ii_missing_first i .. ii_missing_last i}"

lemma detect_collector_gap_set:
  assumes "a < b"
  shows "(case detect_collector_gap a b of None \<Rightarrow> {} | Some i \<Rightarrow> interval_set i) = {a <..< b}"
proof -
  have "unat b < 2 ^ 64" using unsigned_less [of b] by simp
  then have a: "unat a + 1 < 2 ^ 64" using assms by (simp add: word_less_nat_alt)
  then have add: "unat (a + 1) = unat a + 1" by (simp add: unat_word_ariths)
  have sub: "unat (b - 1) = unat b - 1" using assms by (intro unat_minus_one) auto
  have "checked_add a 1 = Some (a + 1)" using a by (simp add: checked_add_def)
  then show ?thesis
    using assms add sub by (auto simp: detect_collector_gap_def interval_set_def word_less_nat_alt word_le_nat_alt)
qed

lemma detect_collector_gap_bounds:
  assumes "a < b" "detect_collector_gap a b = Some i"
  shows "a < ii_missing_first i" "ii_missing_first i \<le> ii_missing_last i" "ii_missing_last i < b"
proof -
  have "b \<noteq> 0" using assms(1) by auto
  then have le: "ii_missing_first i \<le> ii_missing_last i"
    using assms(2) by (auto simp: detect_collector_gap_def word_less_nat_alt word_le_nat_alt unat_minus_one split: option.splits if_splits)
  have "interval_set i = {a <..< b}" using detect_collector_gap_set [OF assms(1)] assms(2) by simp
  moreover have "ii_missing_first i \<in> interval_set i" "ii_missing_last i \<in> interval_set i" using le by (auto simp: interval_set_def)
  ultimately show "a < ii_missing_first i" "ii_missing_last i < b" by auto
  show "ii_missing_first i \<le> ii_missing_last i" by (rule le)
qed

text \<open>The gaps of a strictly ascending list, as a recursion over it.\<close>

fun ascending_gaps :: "u64 list \<Rightarrow> missing_interval list" where
  "ascending_gaps (a # b # xs) = (case detect_collector_gap a b of None \<Rightarrow> [] | Some i \<Rightarrow> [i]) @ ascending_gaps (b # xs)"
| "ascending_gaps _ = []"

lemma map_filter_windows: "List.map_filter (\<lambda>(a, b). detect_collector_gap a b) (windows2 xs) = ascending_gaps xs"
  by (induction xs rule: ascending_gaps.induct) (auto simp: windows2_def List.map_filter_def split: option.splits)

definition between :: "u64 list \<Rightarrow> u64 set" where
  "between xs = {n. n \<notin> set xs \<and> (\<exists>a \<in> set xs. a < n) \<and> (\<exists>b \<in> set xs. n < b)}"

lemma between_Cons:
  assumes "sorted_wrt (<) (a # b # xs)"
  shows "between (a # b # xs) = {a <..< b} \<union> between (b # xs)"
proof
  show "between (a # b # xs) \<subseteq> {a <..< b} \<union> between (b # xs)"
    unfolding between_def using assms by (auto dest: order.strict_trans)
  show "{a <..< b} \<union> between (b # xs) \<subseteq> between (a # b # xs)"
    unfolding between_def using assms by (auto dest: order.strict_trans)
qed

lemma ascending_gaps_exact:
  "sorted_wrt (<) xs \<Longrightarrow> (\<Union>i \<in> set (ascending_gaps xs). interval_set i) = between xs"
proof (induction xs rule: ascending_gaps.induct)
  case (1 a b xs)
  then have "(\<Union>i \<in> set (ascending_gaps (b # xs)). interval_set i) = between (b # xs)" by simp
  moreover have "(\<Union>i \<in> set (case detect_collector_gap a b of None \<Rightarrow> [] | Some i \<Rightarrow> [i]). interval_set i) = {a <..< b}"
    using detect_collector_gap_set [of a b] 1(2) by (auto split: option.splits)
  ultimately show ?case using between_Cons [OF 1(2)] by simp
qed (auto simp: between_def)

lemma ascending_gaps_above:
  "sorted_wrt (<) (a # xs) \<Longrightarrow> i \<in> set (ascending_gaps (a # xs)) \<Longrightarrow> a < ii_missing_first i \<and> ii_missing_first i \<le> ii_missing_last i"
proof (induction xs arbitrary: a)
  case (Cons b xs)
  show ?case
  proof (cases "i \<in> set (ascending_gaps (b # xs))")
    case True
    then have "b < ii_missing_first i \<and> ii_missing_first i \<le> ii_missing_last i" using Cons.IH [of b] Cons.prems(1) by simp
    then show ?thesis using Cons.prems(1) by (auto dest: order.strict_trans)
  next
    case False
    then have "detect_collector_gap a b = Some i" using Cons.prems(2) by (auto split: option.splits)
    then show ?thesis using detect_collector_gap_bounds [of a b i] Cons.prems(1) by simp
  qed
qed simp

text \<open>Between two reported intervals lies a sequence number that was seen.\<close>

definition apart :: "u64 list \<Rightarrow> missing_interval \<Rightarrow> missing_interval \<Rightarrow> bool" where
  "apart xs i j \<longleftrightarrow> (\<exists>n \<in> set xs. ii_missing_last i < n \<and> n < ii_missing_first j)"

lemma ascending_gaps_apart: "sorted_wrt (<) xs \<Longrightarrow> sorted_wrt (apart xs) (ascending_gaps xs)"
proof (induction xs rule: ascending_gaps.induct)
  case (1 a b xs)
  then have "sorted_wrt (apart (b # xs)) (ascending_gaps (b # xs))" by simp
  then have "sorted_wrt (apart (a # b # xs)) (ascending_gaps (b # xs))"
    by (rule sorted_wrt_mono_rel [rotated]) (auto simp: apart_def)
  moreover have "apart (a # b # xs) i j" if "detect_collector_gap a b = Some i" "j \<in> set (ascending_gaps (b # xs))" for i j
    using detect_collector_gap_bounds [OF _ that(1)] ascending_gaps_above [OF _ that(2)] 1(2) by (auto simp: apart_def)
  ultimately show ?case by (auto split: option.splits)
qed simp_all

lemma strict_sorted_dedup: "sorted xs \<Longrightarrow> sorted_wrt (<) (remdups_adj (xs :: u64 list))"
  by (induction xs rule: remdups_adj.induct) (auto simp: order.order_iff_strict)

text \<open>The reported gaps are exactly what is missing. For any list of collector sequence numbers, in any order and with
  duplicates, the reported intervals cover precisely the numbers that were not seen and lie between two that were; every
  interval is non-empty, the intervals are ascending, and between two of them lies a number that was seen, so each is as long
  as possible. Nothing is reported exactly when nothing is missing.\<close>

theorem sequence_gaps_are_exact:
  "(\<Union>i \<in> set (detect_sequence_gaps xs). interval_set i) = {n. n \<notin> set xs \<and> (\<exists>a \<in> set xs. a < n) \<and> (\<exists>b \<in> set xs. n < b)} \<and>
   list_all (\<lambda>i. ii_missing_first i \<le> ii_missing_last i) (detect_sequence_gaps xs) \<and>
   sorted_wrt (apart xs) (detect_sequence_gaps xs) \<and>
   (detect_sequence_gaps xs = [] \<longleftrightarrow> {n. n \<notin> set xs \<and> (\<exists>a \<in> set xs. a < n) \<and> (\<exists>b \<in> set xs. n < b)} = {})"
proof -
  let ?ys = "remdups_adj (sort xs)"
  have asc: "sorted_wrt (<) ?ys" by (simp add: strict_sorted_dedup)
  have gaps: "detect_sequence_gaps xs = ascending_gaps ?ys" by (simp add: detect_sequence_gaps_def map_filter_windows)
  have between: "between ?ys = {n. n \<notin> set xs \<and> (\<exists>a \<in> set xs. a < n) \<and> (\<exists>b \<in> set xs. n < b)}" by (simp add: between_def)
  have exact: "(\<Union>i \<in> set (ascending_gaps ?ys). interval_set i) = between ?ys" by (rule ascending_gaps_exact [OF asc])
  have ordered: "list_all (\<lambda>i. ii_missing_first i \<le> ii_missing_last i) (ascending_gaps ?ys)"
    using ascending_gaps_above asc by (cases ?ys) (auto simp: list_all_iff)
  have "ascending_gaps ?ys = [] \<longleftrightarrow> between ?ys = {}"
    using ordered unfolding exact [symmetric] by (cases "ascending_gaps ?ys") (auto simp: interval_set_def)
  moreover have "sorted_wrt (apart xs) (ascending_gaps ?ys)"
    by (rule sorted_wrt_mono_rel [rotated, OF ascending_gaps_apart [OF asc]]) (auto simp: apart_def)
  ultimately show ?thesis unfolding gaps between [symmetric] using exact ordered by blast
qed

end
