(* ===== verification/Native_Rows.thy ===== *)
theory Native_Rows
  imports Observation_Envelope
begin

text \<open>
  What the fact rows of all chains share (\<open>processors/native-normalizer/src\<close>): the context a batch is derived
  in, its source lineage, and the columns every row carries. The row types of the chains extend these records.
\<close>

record fact_context =
  fc_source_id :: "string option"
  fc_source_session_id :: "source_session_id option"
  fc_observation_id :: "digest option"
  fc_recorded_at :: "i64 option"
  fc_canonicality :: string
  fc_revision :: u64

record fact_lineage =
  li_source_id :: string
  li_source_session_id :: string
  li_observation_id :: string
  li_recorded_at :: i64

definition attach_lineage ::
  "string \<Rightarrow> source_session_id \<Rightarrow> digest \<Rightarrow> i64 \<Rightarrow> 'a fact_context_scheme \<Rightarrow> 'a fact_context_scheme" where
  "attach_lineage source session obs at c =
     c\<lparr>fc_source_id := Some source, fc_source_session_id := Some session, fc_observation_id := Some obs, fc_recorded_at := Some at\<rparr>"

definition context_lineage :: "'e \<Rightarrow> 'a fact_context_scheme \<Rightarrow> 'e + fact_lineage" where
  "context_lineage missing c =
     and_then (ok_or (fc_source_id c) missing) (\<lambda>source.
     and_then (ok_or (fc_source_session_id c) missing) (\<lambda>session.
     and_then (ok_or (fc_observation_id c) missing) (\<lambda>obs.
     and_then (ok_or (fc_recorded_at c) missing) (\<lambda>at.
     Inr \<lparr>li_source_id = source, li_source_session_id = encode_hex (session_bytes session),
       li_observation_id = encode_hex (be_bytes 32 (unat obs)), li_recorded_at = at\<rparr>))))"

definition known_canonicality :: "string \<Rightarrow> bool" where
  "known_canonicality s \<longleftrightarrow> s = ''candidate'' \<or> s = ''canonical'' \<or> s = ''non_canonical''"

record base_row =
  row_revision :: u64
  row_source_id :: string
  row_observation_id :: string
  row_recorded_at :: i64

record native_row = base_row +
  row_source_session_id :: string
  row_parser_version :: string

record status_row = native_row +
  row_canonicality :: string

text \<open>The rows that carry the revision and the lineage of a context.\<close>

definition of_context :: "u64 \<Rightarrow> fact_lineage \<Rightarrow> 'a base_row_scheme \<Rightarrow> bool" where
  "of_context revision l row \<longleftrightarrow> row_revision row = revision \<and> row_source_id row = li_source_id l \<and>
     row_observation_id row = li_observation_id l \<and> row_recorded_at row = li_recorded_at l"

definition native_of :: "u64 \<Rightarrow> fact_lineage \<Rightarrow> string \<Rightarrow> 'a native_row_scheme \<Rightarrow> bool" where
  "native_of revision l parser row \<longleftrightarrow> of_context revision l row \<and>
     row_source_session_id row = li_source_session_id l \<and> row_parser_version row = parser"

definition status_of :: "u64 \<Rightarrow> fact_lineage \<Rightarrow> string \<Rightarrow> string \<Rightarrow> 'a status_row_scheme \<Rightarrow> bool" where
  "status_of revision l parser canonicality row \<longleftrightarrow> native_of revision l parser row \<and> row_canonicality row = canonicality"

lemmas row_defs = of_context_def native_of_def status_of_def

lemma context_lineage_attached:
  "context_lineage missing (attach_lineage source session obs at c) =
     Inr \<lparr>li_source_id = source, li_source_session_id = encode_hex (session_bytes session),
       li_observation_id = encode_hex (be_bytes 32 (unat obs)), li_recorded_at = at\<rparr>"
  by (simp add: context_lineage_def attach_lineage_def)

section \<open>Numbered lists\<close>

text \<open>The rows of a list, each with its index checked against a machine integer.\<close>

fun numbered :: "nat \<Rightarrow> 'e \<Rightarrow> (nat \<Rightarrow> 'a \<Rightarrow> 'b) \<Rightarrow> nat \<Rightarrow> 'a list \<Rightarrow> 'e + 'b list" where
  "numbered limit err f i [] = Inr []"
| "numbered limit err f i (x # xs) =
     (if limit \<le> i then Inl err
      else and_then (numbered limit err f (Suc i) xs) (\<lambda>rows. Inr (f i x # rows)))"

definition with_index :: "(nat \<Rightarrow> 'a \<Rightarrow> 'b) \<Rightarrow> 'a list \<Rightarrow> 'b list" where
  "with_index f xs = map (\<lambda>(i, x). f i x) (enumerate 0 xs)"

lemma numbered_from: "numbered limit err f i xs = (if xs = [] \<or> i + length xs \<le> limit then Inr (map (\<lambda>(i, x). f i x) (enumerate i xs)) else Inl err)"
proof (induction xs arbitrary: i)
  case (Cons x xs)
  show ?case unfolding numbered.simps Cons.IH by auto
qed simp

lemma numbered_eq: "numbered limit err f 0 xs = (if length xs \<le> limit then Inr (with_index f xs) else Inl err)"
  by (cases xs) (auto simp: numbered_from with_index_def)

lemma length_with_index [simp]: "length (with_index f xs) = length xs"
  by (simp add: with_index_def)

lemma with_index_nth: "i < length xs \<Longrightarrow> with_index f xs ! i = f i (xs ! i)"
  by (simp add: with_index_def nth_enumerate_eq)

lemma map_with_index: "map g (with_index f xs) = with_index (\<lambda>i x. g (f i x)) xs"
  by (simp add: with_index_def case_prod_unfold comp_def)

lemma with_index_const: "with_index (\<lambda>_. f) xs = map f xs"
  by (rule nth_equalityI) (simp_all add: with_index_nth)

lemma with_index_index: "with_index (\<lambda>i _. g i) xs = map g [0 ..< length xs]"
  by (rule nth_equalityI) (simp_all add: with_index_nth)

lemma list_all_with_index: "list_all P (with_index f xs) \<longleftrightarrow> (\<forall>i < length xs. P (f i (xs ! i)))"
  by (simp add: list_all_length with_index_nth)

text \<open>The children of one parent are found again by the parent's key.\<close>

lemma filter_children:
  assumes "distinct (map key xs)" "x \<in> set xs" "\<And>x y. y \<in> set (children x) \<Longrightarrow> parent y = key x"
  shows "filter (\<lambda>y. parent y = key x) (concat (map children xs)) = children x"
  using assms(1,2)
proof (induction xs)
  case (Cons a xs)
  have same: "filter (\<lambda>y. parent y = key x) (children x) = children x" for x using assms(3) by (auto simp: filter_id_conv)
  have other: "filter (\<lambda>y. parent y = key x) (children z) = []" if "key z \<noteq> key x" for z using assms(3) that by (auto simp: filter_empty_conv)
  show ?case
  proof (cases "x = a")
    case True
    have "\<forall>z \<in> set xs. key z \<noteq> key x" using Cons.prems(1) True by (auto simp: image_iff)
    then have "filter (\<lambda>y. parent y = key x) (concat (map children xs)) = []"
      using assms(3) by (fastforce simp: filter_empty_conv)
    then show ?thesis using True same by simp
  next
    case False
    then have "key a \<noteq> key x" using Cons.prems by auto
    then show ?thesis using Cons other False by auto
  qed
qed simp

lemma distinct_concat_keys:
  assumes "distinct (map key xs)" "\<And>x. x \<in> set xs \<Longrightarrow> distinct (children x)" "\<And>x y. y \<in> set (children x) \<Longrightarrow> fst y = key x"
  shows "distinct (concat (map children xs))"
  using assms(1,2)
proof (induction xs)
  case (Cons a xs)
  have "key z \<noteq> key a" if "z \<in> set xs" for z using Cons.prems(1) that by (auto simp: image_iff)
  then have "set (children a) \<inter> set (children z) = {}" if "z \<in> set xs" for z using that assms(3) by fastforce
  then show ?case using Cons by auto
qed simp

end
