(* ===== verification/Bitcoin_Facts.thy ===== *)
theory Bitcoin_Facts
  imports Native_Rows Bitcoin_Samples
begin

text \<open>
  The native Bitcoin facts of \<open>processors/native-normalizer/src/bitcoin.rs\<close>: the validated context and the
  block, transaction, input and output rows of a block. The text form of a hash belongs to the \<open>bitcoin\<close>
  crate and is the parameter \<open>hash_text\<close>.
\<close>

section \<open>Context\<close>

definition BITCOIN_PARSER_VERSION :: string where "BITCOIN_PARSER_VERSION = ''bitcoin-native/1.0.0''"

datatype bitcoin_fact_error =
    BitcoinZeroRevision
  | BitcoinInvalidCanonicality string
  | BitcoinEmptySourceId
  | BitcoinMissingLineage
  | BitcoinIndexOverflow
  | BitcoinVirtualSizeOverflow

record bitcoin_fact_context = fact_context +
  bfc_network :: bitcoin_network
  bfc_height :: u32

definition bitcoin_context_new :: "bitcoin_network \<Rightarrow> u32 \<Rightarrow> u64 \<Rightarrow> string \<Rightarrow> bitcoin_fact_error + bitcoin_fact_context" where
  "bitcoin_context_new network height revision canonicality =
     (if revision = 0 then Inl BitcoinZeroRevision
      else if \<not> known_canonicality canonicality then Inl (BitcoinInvalidCanonicality canonicality)
      else Inr \<lparr>fc_source_id = None, fc_source_session_id = None, fc_observation_id = None, fc_recorded_at = None,
        fc_canonicality = canonicality, fc_revision = revision, bfc_network = network, bfc_height = height\<rparr>)"

definition bitcoin_with_lineage ::
  "string \<Rightarrow> source_session_id \<Rightarrow> digest \<Rightarrow> i64 \<Rightarrow> bitcoin_fact_context \<Rightarrow> bitcoin_fact_error + bitcoin_fact_context" where
  "bitcoin_with_lineage source session obs at c =
     (if str_blank source then Inl BitcoinEmptySourceId else Inr (attach_lineage source session obs at c))"

definition bitcoin_lineage :: "bitcoin_fact_context \<Rightarrow> bitcoin_fact_error + fact_lineage" where
  "bitcoin_lineage = context_lineage BitcoinMissingLineage"

section \<open>Rows\<close>

fun bitcoin_network_name :: "bitcoin_network \<Rightarrow> string" where
  "bitcoin_network_name Mainnet = ''mainnet''"
| "bitcoin_network_name Testnet = ''testnet''"
| "bitcoin_network_name Signet = ''signet''"
| "bitcoin_network_name Regtest = ''regtest''"

record bitcoin_block_row = status_row +
  bbr_network :: string
  bbr_block_hash :: string
  bbr_parent_block_hash :: string
  bbr_height :: u32
  bbr_block_time :: u32
  bbr_transaction_count :: u32

record bitcoin_transaction_row = status_row +
  btr_network :: string
  btr_block_hash :: string
  btr_height :: u32
  btr_transaction_index :: u32
  btr_txid :: string
  btr_wtxid :: string
  btr_virtual_size :: u64

record bitcoin_input_row = status_row +
  bir_network :: string
  bir_block_hash :: string
  bir_txid :: string
  bir_input_index :: u32
  bir_previous_txid :: string
  bir_previous_vout :: u32
  bir_sequence :: u32

record bitcoin_output_row = status_row +
  bor_network :: string
  bor_block_hash :: string
  bor_txid :: string
  bor_output_index :: u32
  bor_value_sats :: u64
  bor_script_pubkey_id :: string
  bor_script_pubkey_hex :: string

record bitcoin_fact_batch =
  bfb_blocks :: "bitcoin_block_row list"
  bfb_transactions :: "bitcoin_transaction_row list"
  bfb_inputs :: "bitcoin_input_row list"
  bfb_outputs :: "bitcoin_output_row list"

definition bitcoin_transaction_row_of ::
  "bitcoin_lib \<Rightarrow> (digest \<Rightarrow> string) \<Rightarrow> bitcoin_fact_context \<Rightarrow> fact_lineage \<Rightarrow> string \<Rightarrow> nat \<Rightarrow> bitcoin_transaction \<Rightarrow> bitcoin_transaction_row" where
  "bitcoin_transaction_row_of L hash_text c l block i t =
     \<lparr>row_revision = fc_revision c, row_source_id = li_source_id l, row_observation_id = li_observation_id l,
      row_recorded_at = li_recorded_at l, row_source_session_id = li_source_session_id l,
      row_parser_version = BITCOIN_PARSER_VERSION, row_canonicality = fc_canonicality c,
      btr_network = bitcoin_network_name (bfc_network c), btr_block_hash = block, btr_height = bfc_height c,
      btr_transaction_index = of_nat i, btr_txid = hash_text (txid L t), btr_wtxid = hash_text (compute_wtxid L (tx_inner t)),
      btr_virtual_size = virtual_size L t\<rparr>"

definition bitcoin_input_row_of ::
  "(digest \<Rightarrow> string) \<Rightarrow> bitcoin_fact_context \<Rightarrow> fact_lineage \<Rightarrow> string \<Rightarrow> string \<Rightarrow> nat \<Rightarrow> bitcoin_input \<Rightarrow> bitcoin_input_row" where
  "bitcoin_input_row_of hash_text c l block tx i inp =
     \<lparr>row_revision = fc_revision c, row_source_id = li_source_id l, row_observation_id = li_observation_id l,
      row_recorded_at = li_recorded_at l, row_source_session_id = li_source_session_id l,
      row_parser_version = BITCOIN_PARSER_VERSION, row_canonicality = fc_canonicality c,
      bir_network = bitcoin_network_name (bfc_network c), bir_block_hash = block, bir_txid = tx, bir_input_index = of_nat i,
      bir_previous_txid = hash_text (op_txid (previous_output inp)), bir_previous_vout = op_vout (previous_output inp),
      bir_sequence = input_sequence inp\<rparr>"

definition bitcoin_output_row_of ::
  "bitcoin_lib \<Rightarrow> bitcoin_fact_context \<Rightarrow> fact_lineage \<Rightarrow> string \<Rightarrow> string \<Rightarrow> nat \<Rightarrow> bitcoin_output \<Rightarrow> bitcoin_output_row" where
  "bitcoin_output_row_of L c l block tx i out =
     \<lparr>row_revision = fc_revision c, row_source_id = li_source_id l, row_observation_id = li_observation_id l,
      row_recorded_at = li_recorded_at l, row_source_session_id = li_source_session_id l,
      row_parser_version = BITCOIN_PARSER_VERSION, row_canonicality = fc_canonicality c,
      bor_network = bitcoin_network_name (bfc_network c), bor_block_hash = block, bor_txid = tx, bor_output_index = of_nat i,
      bor_value_sats = sats_value (value_sats out), bor_script_pubkey_id = encode_hex (be_bytes 32 (unat (script_pubkey_id L out))),
      bor_script_pubkey_hex = encode_hex (script_pubkey out)\<rparr>"

text \<open>The loop over the transactions with the three collections it fills.\<close>

fun bitcoin_child_rows ::
  "bitcoin_lib \<Rightarrow> (digest \<Rightarrow> string) \<Rightarrow> bitcoin_fact_context \<Rightarrow> fact_lineage \<Rightarrow> string \<Rightarrow> nat \<Rightarrow> bitcoin_transaction list \<Rightarrow>
   bitcoin_fact_error + (bitcoin_transaction_row list \<times> bitcoin_input_row list \<times> bitcoin_output_row list)" where
  "bitcoin_child_rows L hash_text c l block i [] = Inr ([], [], [])"
| "bitcoin_child_rows L hash_text c l block i (t # ts) =
     (if 2 ^ 32 \<le> i then Inl BitcoinIndexOverflow
      else let tx = hash_text (txid L t)
        in and_then (numbered (2 ^ 32) BitcoinIndexOverflow (bitcoin_input_row_of hash_text c l block tx) 0 (tx_inputs t)) (\<lambda>inputs.
           and_then (numbered (2 ^ 32) BitcoinIndexOverflow (bitcoin_output_row_of L c l block tx) 0 (tx_outputs t)) (\<lambda>outputs.
           and_then (bitcoin_child_rows L hash_text c l block (Suc i) ts) (\<lambda>(txs, ins, outs).
           Inr (bitcoin_transaction_row_of L hash_text c l block i t # txs, inputs @ ins, outputs @ outs)))))"

definition bitcoin_batch_from_block ::
  "bitcoin_lib \<Rightarrow> (digest \<Rightarrow> string) \<Rightarrow> bitcoin_block \<Rightarrow> bitcoin_fact_context \<Rightarrow> bitcoin_fact_error + bitcoin_fact_batch" where
  "bitcoin_batch_from_block L hash_text b c =
     and_then (bitcoin_lineage c) (\<lambda>l.
     if 2 ^ 32 \<le> length (blk_transactions b) then Inl BitcoinIndexOverflow
     else let h = hash_text (block_hash L b)
       in and_then (bitcoin_child_rows L hash_text c l h 0 (blk_transactions b)) (\<lambda>(txs, ins, outs).
         Inr \<lparr>bfb_blocks =
             [\<lparr>row_revision = fc_revision c, row_source_id = li_source_id l, row_observation_id = li_observation_id l,
               row_recorded_at = li_recorded_at l, row_source_session_id = li_source_session_id l,
               row_parser_version = BITCOIN_PARSER_VERSION, row_canonicality = fc_canonicality c,
               bbr_network = bitcoin_network_name (bfc_network c), bbr_block_hash = h,
               bbr_parent_block_hash = hash_text (previous_block_hash b), bbr_height = bfc_height c,
               bbr_block_time = hdr_time (lib_header (blk_inner b)), bbr_transaction_count = of_nat (length (blk_transactions b))\<rparr>],
           bfb_transactions = txs, bfb_inputs = ins, bfb_outputs = outs\<rparr>))"

section \<open>The rows of a block\<close>

lemma bitcoin_child_rows_eq:
  "bitcoin_child_rows L hash_text c l block i ts =
     (if (ts = [] \<or> i + length ts \<le> 2 ^ 32) \<and> (\<forall>t \<in> set ts. length (tx_inputs t) \<le> 2 ^ 32 \<and> length (tx_outputs t) \<le> 2 ^ 32)
      then Inr (map (\<lambda>(i, t). bitcoin_transaction_row_of L hash_text c l block i t) (enumerate i ts),
        concat (map (\<lambda>t. with_index (bitcoin_input_row_of hash_text c l block (hash_text (txid L t))) (tx_inputs t)) ts),
        concat (map (\<lambda>t. with_index (bitcoin_output_row_of L c l block (hash_text (txid L t))) (tx_outputs t)) ts))
      else Inl BitcoinIndexOverflow)"
proof (induction ts arbitrary: i)
  case (Cons t ts)
  show ?case unfolding bitcoin_child_rows.simps numbered_eq Cons.IH by (auto simp: Let_def)
qed simp

text \<open>What a reader joins together again from the rows of a batch.\<close>

definition rebuild_transactions ::
  "bitcoin_fact_batch \<Rightarrow> (u32 \<times> string \<times> string \<times> (u32 \<times> string \<times> u32 \<times> u32) list \<times> (u32 \<times> u64 \<times> bytes) list) list" where
  "rebuild_transactions batch = map (\<lambda>r. (btr_transaction_index r, btr_txid r, btr_wtxid r,
     map (\<lambda>i. (bir_input_index i, bir_previous_txid i, bir_previous_vout i, bir_sequence i))
       (filter (\<lambda>i. bir_txid i = btr_txid r) (bfb_inputs batch)),
     map (\<lambda>out. (bor_output_index out, bor_value_sats out, hex_pairs (bor_script_pubkey_hex out)))
       (filter (\<lambda>out. bor_txid out = btr_txid r) (bfb_outputs batch)))) (bfb_transactions batch)"

definition describe_transactions ::
  "bitcoin_lib \<Rightarrow> (digest \<Rightarrow> string) \<Rightarrow> bitcoin_transaction list \<Rightarrow>
   (u32 \<times> string \<times> string \<times> (u32 \<times> string \<times> u32 \<times> u32) list \<times> (u32 \<times> u64 \<times> bytes) list) list" where
  "describe_transactions L hash_text ts = with_index (\<lambda>i t. (of_nat i, hash_text (txid L t), hash_text (compute_wtxid L (tx_inner t)),
     with_index (\<lambda>j inp. (of_nat j, hash_text (op_txid (previous_output inp)), op_vout (previous_output inp), input_sequence inp)) (tx_inputs t),
     with_index (\<lambda>j out. (of_nat j, sats_value (value_sats out), script_pubkey out)) (tx_outputs t))) ts"

lemma bitcoin_batch_eq:
  "bitcoin_batch_from_block L hash_text b c = Inr batch \<longleftrightarrow> (\<exists>l. bitcoin_lineage c = Inr l \<and> length (blk_transactions b) < 2 ^ 32 \<and>
     (\<forall>t \<in> set (blk_transactions b). length (tx_inputs t) \<le> 2 ^ 32 \<and> length (tx_outputs t) \<le> 2 ^ 32) \<and>
     bfb_transactions batch = with_index (bitcoin_transaction_row_of L hash_text c l (hash_text (block_hash L b))) (blk_transactions b) \<and>
     bfb_inputs batch = concat (map (\<lambda>t. with_index (bitcoin_input_row_of hash_text c l (hash_text (block_hash L b)) (hash_text (txid L t))) (tx_inputs t)) (blk_transactions b)) \<and>
     bfb_outputs batch = concat (map (\<lambda>t. with_index (bitcoin_output_row_of L c l (hash_text (block_hash L b)) (hash_text (txid L t))) (tx_outputs t)) (blk_transactions b)) \<and>
     bfb_blocks batch =
       [\<lparr>row_revision = fc_revision c, row_source_id = li_source_id l, row_observation_id = li_observation_id l,
         row_recorded_at = li_recorded_at l, row_source_session_id = li_source_session_id l,
         row_parser_version = BITCOIN_PARSER_VERSION, row_canonicality = fc_canonicality c,
         bbr_network = bitcoin_network_name (bfc_network c), bbr_block_hash = hash_text (block_hash L b),
         bbr_parent_block_hash = hash_text (previous_block_hash b), bbr_height = bfc_height c,
         bbr_block_time = hdr_time (lib_header (blk_inner b)), bbr_transaction_count = of_nat (length (blk_transactions b))\<rparr>])"
proof (cases "bitcoin_lineage c")
  case (Inr l)
  have "bitcoin_fact_batch.more batch = ()" by simp
  then show ?thesis
    unfolding bitcoin_batch_from_block_def Inr bitcoin_child_rows_eq
    by (cases batch) (auto simp: Let_def with_index_def not_le)
qed (simp add: bitcoin_batch_from_block_def)

text \<open>The rows of a Bitcoin block lose nothing and say where they come from. A batch is derived exactly when a lineage is
  attached and the counts fit; then joining the input and output rows to the transaction rows by transaction identity gives
  back the transactions of the block in their order with all inputs, amounts and scripts in their positions, provided the
  block has no transaction twice; and every row carries the revision, the canonicality and the lineage of the context.\<close>

theorem bitcoin_facts_rebuild_block:
  assumes "distinct (map (\<lambda>t. hash_text (txid L t)) (blk_transactions b))"
  shows "((\<exists>batch. bitcoin_batch_from_block L hash_text b c = Inr batch) \<longleftrightarrow> (\<exists>l. bitcoin_lineage c = Inr l) \<and>
      length (blk_transactions b) < 2 ^ 32 \<and>
      (\<forall>t \<in> set (blk_transactions b). length (tx_inputs t) \<le> 2 ^ 32 \<and> length (tx_outputs t) \<le> 2 ^ 32)) \<and>
    (\<forall>batch. bitcoin_batch_from_block L hash_text b c = Inr batch \<longrightarrow>
      rebuild_transactions batch = describe_transactions L hash_text (blk_transactions b) \<and>
      (\<exists>l. bitcoin_lineage c = Inr l \<and>
        list_all (status_of (fc_revision c) l BITCOIN_PARSER_VERSION (fc_canonicality c)) (bfb_blocks batch) \<and>
        list_all (status_of (fc_revision c) l BITCOIN_PARSER_VERSION (fc_canonicality c)) (bfb_transactions batch) \<and>
        list_all (status_of (fc_revision c) l BITCOIN_PARSER_VERSION (fc_canonicality c)) (bfb_inputs batch) \<and>
        list_all (status_of (fc_revision c) l BITCOIN_PARSER_VERSION (fc_canonicality c)) (bfb_outputs batch)))"
proof (intro conjI allI impI)
  let ?ts = "blk_transactions b" and ?h = "hash_text (block_hash L b)"
  show "(\<exists>batch. bitcoin_batch_from_block L hash_text b c = Inr batch) \<longleftrightarrow> (\<exists>l. bitcoin_lineage c = Inr l) \<and>
      length ?ts < 2 ^ 32 \<and> (\<forall>t \<in> set ?ts. length (tx_inputs t) \<le> 2 ^ 32 \<and> length (tx_outputs t) \<le> 2 ^ 32)"
    by (auto simp: bitcoin_batch_from_block_def bitcoin_child_rows_eq Let_def rust_result)
  fix batch
  assume "bitcoin_batch_from_block L hash_text b c = Inr batch"
  then obtain l where l: "bitcoin_lineage c = Inr l"
    and rows: "bfb_transactions batch = with_index (bitcoin_transaction_row_of L hash_text c l ?h) ?ts"
      "bfb_inputs batch = concat (map (\<lambda>t. with_index (bitcoin_input_row_of hash_text c l ?h (hash_text (txid L t))) (tx_inputs t)) ?ts)"
      "bfb_outputs batch = concat (map (\<lambda>t. with_index (bitcoin_output_row_of L c l ?h (hash_text (txid L t))) (tx_outputs t)) ?ts)"
    and block: "list_all (status_of (fc_revision c) l BITCOIN_PARSER_VERSION (fc_canonicality c)) (bfb_blocks batch)"
    unfolding bitcoin_batch_eq by (auto simp: row_defs)
  let ?ins = "\<lambda>t. with_index (bitcoin_input_row_of hash_text c l ?h (hash_text (txid L t))) (tx_inputs t)"
    and ?outs = "\<lambda>t. with_index (bitcoin_output_row_of L c l ?h (hash_text (txid L t))) (tx_outputs t)"
  have ins: "filter (\<lambda>i. bir_txid i = hash_text (txid L t)) (concat (map ?ins ?ts)) = ?ins t" if "t \<in> set ?ts" for t
    by (rule filter_children [OF assms that]) (auto simp: with_index_def bitcoin_input_row_of_def)
  have outs: "filter (\<lambda>i. bor_txid i = hash_text (txid L t)) (concat (map ?outs ?ts)) = ?outs t" if "t \<in> set ?ts" for t
    by (rule filter_children [OF assms that]) (auto simp: with_index_def bitcoin_output_row_of_def)
  show "rebuild_transactions batch = describe_transactions L hash_text ?ts"
  proof (rule nth_equalityI)
    fix i
    assume "i < length (rebuild_transactions batch)"
    then have i: "i < length ?ts" by (simp add: rebuild_transactions_def rows(1))
    then have t: "?ts ! i \<in> set ?ts" by simp
    show "rebuild_transactions batch ! i = describe_transactions L hash_text ?ts ! i"
      using i ins [OF t] outs [OF t]
      by (simp add: rebuild_transactions_def describe_transactions_def rows with_index_nth bitcoin_transaction_row_of_def map_with_index)
        (simp add: bitcoin_input_row_of_def bitcoin_output_row_of_def hex_pairs_encode_hex)
  qed (simp add: rebuild_transactions_def describe_transactions_def rows(1))
  have "list_all (status_of (fc_revision c) l BITCOIN_PARSER_VERSION (fc_canonicality c)) (bfb_transactions batch)"
    "list_all (status_of (fc_revision c) l BITCOIN_PARSER_VERSION (fc_canonicality c)) (bfb_inputs batch)"
    "list_all (status_of (fc_revision c) l BITCOIN_PARSER_VERSION (fc_canonicality c)) (bfb_outputs batch)"
    unfolding rows
    by (auto simp: list_all_iff with_index_def row_defs bitcoin_transaction_row_of_def bitcoin_input_row_of_def bitcoin_output_row_of_def)
  then show "\<exists>l. bitcoin_lineage c = Inr l \<and>
      list_all (status_of (fc_revision c) l BITCOIN_PARSER_VERSION (fc_canonicality c)) (bfb_blocks batch) \<and>
      list_all (status_of (fc_revision c) l BITCOIN_PARSER_VERSION (fc_canonicality c)) (bfb_transactions batch) \<and>
      list_all (status_of (fc_revision c) l BITCOIN_PARSER_VERSION (fc_canonicality c)) (bfb_inputs batch) \<and>
      list_all (status_of (fc_revision c) l BITCOIN_PARSER_VERSION (fc_canonicality c)) (bfb_outputs batch)"
    using l block by blast
qed

definition sample_fact_context :: bitcoin_fact_context where
  "sample_fact_context = \<lparr>fc_source_id = Some ''n'', fc_source_session_id = Some 1, fc_observation_id = Some 2, fc_recorded_at = Some 3,
     fc_canonicality = ''canonical'', fc_revision = 7, bfc_network = Regtest, bfc_height = 101\<rparr>"

theorem bitcoin_facts_rebuild_block_witness:
  "\<exists>batch. bitcoin_batch_from_block sample_lib (\<lambda>d. dec_string (unat d)) sample_child sample_fact_context = Inr batch \<and>
     rebuild_transactions batch = describe_transactions sample_lib (\<lambda>d. dec_string (unat d)) (blk_transactions sample_child)"
proof -
  have "distinct (map (\<lambda>t. dec_string (unat (txid sample_lib t))) (blk_transactions sample_child))"
    by (simp add: dec_string_inj sample_child_def eval_def)
  moreover have "\<exists>l. bitcoin_lineage sample_fact_context = Inr l"
    by (simp add: bitcoin_lineage_def context_lineage_def sample_fact_context_def)
  moreover have "length (blk_transactions sample_child) < 2 ^ 32"
    "\<forall>t \<in> set (blk_transactions sample_child). length (tx_inputs t) \<le> 2 ^ 32 \<and> length (tx_outputs t) \<le> 2 ^ 32"
    by (simp_all add: sample_child_def eval_def)
  ultimately show ?thesis using bitcoin_facts_rebuild_block [of "\<lambda>d. dec_string (unat d)" sample_lib sample_child sample_fact_context] by blast
qed

end
