(* ===== verification/Evm_Facts.thy ===== *)
theory Evm_Facts
  imports Native_Rows Evm_Domain
begin

text \<open>
  The native EVM facts of \<open>processors/native-normalizer/src/evm.rs\<close>: the validated context with the finality
  vocabulary of its chain, and the block, transaction, receipt and log rows of a block.
\<close>

section \<open>Context\<close>

definition EVM_PARSER_VERSION :: string where "EVM_PARSER_VERSION = ''evm-native/1.0.0''"

datatype evm_fact_error =
    EvmZeroRevision
  | EvmInvalidCanonicality string
  | EvmInvalidFinality u64 string
  | EvmInconsistentStatus string string
  | EvmEmptySourceId
  | EvmMissingLineage
  | EvmNetworkMismatch
  | EvmIndexOverflow

record evm_fact_context = fact_context +
  efc_network :: evm_network
  efc_finality :: string

fun valid_finality :: "evm_network \<Rightarrow> string \<Rightarrow> bool" where
  "valid_finality EthereumMainnet f \<longleftrightarrow> f \<in> {''pending'', ''included'', ''canonical_head'', ''safe'', ''finalized'', ''reorged''}"
| "valid_finality BscMainnet f \<longleftrightarrow> f \<in> {''pending'', ''included'', ''canonical_head'', ''fast_finalized'', ''reorged''}"

definition evm_context_new :: "evm_network \<Rightarrow> string \<Rightarrow> string \<Rightarrow> u64 \<Rightarrow> evm_fact_error + evm_fact_context" where
  "evm_context_new network canonicality finality revision =
     (if revision = 0 then Inl EvmZeroRevision
      else if \<not> known_canonicality canonicality then Inl (EvmInvalidCanonicality canonicality)
      else if \<not> valid_finality network finality then Inl (EvmInvalidFinality (chain_id network) finality)
      else if (canonicality = ''non_canonical'') \<noteq> (finality = ''reorged'') then Inl (EvmInconsistentStatus canonicality finality)
      else Inr \<lparr>fc_source_id = None, fc_source_session_id = None, fc_observation_id = None, fc_recorded_at = None,
        fc_canonicality = canonicality, fc_revision = revision, efc_network = network, efc_finality = finality\<rparr>)"

definition evm_with_lineage ::
  "string \<Rightarrow> source_session_id \<Rightarrow> digest \<Rightarrow> i64 \<Rightarrow> evm_fact_context \<Rightarrow> evm_fact_error + evm_fact_context" where
  "evm_with_lineage source session obs at c =
     (if str_blank source \<or> \<not> str_is_ascii source then Inl EvmEmptySourceId else Inr (attach_lineage source session obs at c))"

definition evm_lineage :: "evm_fact_context \<Rightarrow> evm_fact_error + fact_lineage" where
  "evm_lineage = context_lineage EvmMissingLineage"

section \<open>Rows\<close>

record evm_row = status_row +
  er_chain_id :: u64
  er_block_hash :: string
  er_finality :: string

record evm_block_row = evm_row +
  ebr_parent_block_hash :: string
  ebr_block_number :: u64

record evm_transaction_row = evm_row +
  etr_block_number :: u64
  etr_transaction_index :: u32
  etr_transaction_hash :: string
  etr_sender :: string
  etr_recipient :: "string option"
  etr_value :: string
  etr_nonce :: u64
  etr_gas_limit :: u64
  etr_max_fee_per_gas :: "string option"
  etr_blob_versioned_hashes :: "string list"

record evm_receipt_row = evm_row +
  err_transaction_hash :: string
  err_success :: bool
  err_cumulative_gas_used :: u64

record evm_log_row = evm_row +
  elr_transaction_hash :: string
  elr_log_index :: u64
  elr_address :: string
  elr_topics :: "string list"
  elr_raw_data_hex :: string

record evm_fact_batch =
  efb_blocks :: "evm_block_row list"
  efb_transactions :: "evm_transaction_row list"
  efb_receipts :: "evm_receipt_row list"
  efb_logs :: "evm_log_row list"

definition evm_transaction_row_of ::
  "evm_lib \<Rightarrow> evm_fact_context \<Rightarrow> fact_lineage \<Rightarrow> evm_block \<Rightarrow> nat \<Rightarrow> evm_transaction \<Rightarrow> evm_transaction_row" where
  "evm_transaction_row_of X c l b i t =
     \<lparr>row_revision = fc_revision c, row_source_id = li_source_id l, row_observation_id = li_observation_id l,
      row_recorded_at = li_recorded_at l, row_source_session_id = li_source_session_id l,
      row_parser_version = EVM_PARSER_VERSION, row_canonicality = fc_canonicality c,
      er_chain_id = chain_id (efc_network c), er_block_hash = lib_b256_text X (eb_hash b), er_finality = efc_finality c,
      etr_block_number = eb_number b, etr_transaction_index = of_nat i, etr_transaction_hash = lib_b256_text X (etx_hash t),
      etr_sender = lib_address_text X (etx_from t), etr_recipient = map_option (lib_address_text X) (etx_to t),
      etr_value = amount_text X (etx_value t), etr_nonce = etx_nonce t, etr_gas_limit = etx_gas_limit t,
      etr_max_fee_per_gas = map_option (amount_text X) (etx_max_fee_per_gas t),
      etr_blob_versioned_hashes = map (lib_b256_text X) (etx_blob_versioned_hashes t)\<rparr>"

definition evm_receipt_row_of ::
  "evm_lib \<Rightarrow> evm_fact_context \<Rightarrow> fact_lineage \<Rightarrow> evm_block \<Rightarrow> evm_transaction \<Rightarrow> evm_receipt \<Rightarrow> evm_receipt_row" where
  "evm_receipt_row_of X c l b t r =
     \<lparr>row_revision = fc_revision c, row_source_id = li_source_id l, row_observation_id = li_observation_id l,
      row_recorded_at = li_recorded_at l, row_source_session_id = li_source_session_id l,
      row_parser_version = EVM_PARSER_VERSION, row_canonicality = fc_canonicality c,
      er_chain_id = chain_id (efc_network c), er_block_hash = lib_b256_text X (eb_hash b), er_finality = efc_finality c,
      err_transaction_hash = lib_b256_text X (etx_hash t), err_success = rcp_success r,
      err_cumulative_gas_used = rcp_cumulative_gas_used r\<rparr>"

definition evm_log_row_of ::
  "evm_lib \<Rightarrow> evm_fact_context \<Rightarrow> fact_lineage \<Rightarrow> evm_block \<Rightarrow> evm_transaction \<Rightarrow> evm_log \<Rightarrow> evm_log_row" where
  "evm_log_row_of X c l b t e =
     \<lparr>row_revision = fc_revision c, row_source_id = li_source_id l, row_observation_id = li_observation_id l,
      row_recorded_at = li_recorded_at l, row_source_session_id = li_source_session_id l,
      row_parser_version = EVM_PARSER_VERSION, row_canonicality = fc_canonicality c,
      er_chain_id = chain_id (efc_network c), er_block_hash = lib_b256_text X (eb_hash b), er_finality = efc_finality c,
      elr_transaction_hash = lib_b256_text X (etx_hash t), elr_log_index = log_index e,
      elr_address = lib_address_text X (log_address e), elr_topics = map (lib_b256_text X) (log_topics e),
      elr_raw_data_hex = encode_hex (log_data e)\<rparr>"

fun evm_child_rows ::
  "evm_lib \<Rightarrow> evm_fact_context \<Rightarrow> fact_lineage \<Rightarrow> evm_block \<Rightarrow> nat \<Rightarrow> (evm_transaction \<times> evm_receipt) list \<Rightarrow>
   evm_fact_error + (evm_transaction_row list \<times> evm_receipt_row list \<times> evm_log_row list)" where
  "evm_child_rows X c l b i [] = Inr ([], [], [])"
| "evm_child_rows X c l b i ((t, r) # xs) =
     (if 2 ^ 32 \<le> i then Inl EvmIndexOverflow
      else and_then (evm_child_rows X c l b (Suc i) xs) (\<lambda>(txs, rs, ls).
        Inr (evm_transaction_row_of X c l b i t # txs, evm_receipt_row_of X c l b t r # rs,
          map (evm_log_row_of X c l b t) (rcp_logs r) @ ls)))"

definition evm_batch_from_block :: "evm_lib \<Rightarrow> evm_block \<Rightarrow> evm_fact_context \<Rightarrow> evm_fact_error + evm_fact_batch" where
  "evm_batch_from_block X b c =
     (if eb_network b \<noteq> efc_network c then Inl EvmNetworkMismatch
      else and_then (evm_lineage c) (\<lambda>l.
        and_then (evm_child_rows X c l b 0 (zip (eb_transactions b) (eb_receipts b))) (\<lambda>(txs, rs, ls).
        Inr \<lparr>efb_blocks =
            [\<lparr>row_revision = fc_revision c, row_source_id = li_source_id l, row_observation_id = li_observation_id l,
              row_recorded_at = li_recorded_at l, row_source_session_id = li_source_session_id l,
              row_parser_version = EVM_PARSER_VERSION, row_canonicality = fc_canonicality c,
              er_chain_id = chain_id (efc_network c), er_block_hash = lib_b256_text X (eb_hash b), er_finality = efc_finality c,
              ebr_parent_block_hash = lib_b256_text X (eb_parent_hash b), ebr_block_number = eb_number b\<rparr>],
          efb_transactions = txs, efb_receipts = rs, efb_logs = ls\<rparr>)))"

section \<open>The vocabulary of finality\<close>

text \<open>C31: Which statuses of the trackers can become facts. A context is created for the status text of either chain exactly when
  the revision is positive, the canonicality is known and agrees with the status about reorganisations, and the status is not
  the included candidate: the domain prints that status with the suffix candidate, which the normaliser does not know, so no fact can
  carry it whatever the other arguments are.\<close>

theorem included_candidate_facts_are_rejected:
  "((\<exists>c. evm_context_new EthereumMainnet canonicality (ethereum_status_str st) revision = Inr c) \<longleftrightarrow>
      revision \<noteq> 0 \<and> known_canonicality canonicality \<and> st \<noteq> EthIncludedCandidate \<and> (canonicality = ''non_canonical'' \<longleftrightarrow> st = EthReorged)) \<and>
   ((\<exists>c. evm_context_new BscMainnet canonicality (bsc_status_str st') revision = Inr c) \<longleftrightarrow>
      revision \<noteq> 0 \<and> known_canonicality canonicality \<and> st' \<noteq> BscIncludedCandidate \<and> (canonicality = ''non_canonical'' \<longleftrightarrow> st' = BscReorged))"
proof (intro conjI)
  show "(\<exists>c. evm_context_new EthereumMainnet canonicality (ethereum_status_str st) revision = Inr c) \<longleftrightarrow>
      revision \<noteq> 0 \<and> known_canonicality canonicality \<and> st \<noteq> EthIncludedCandidate \<and> (canonicality = ''non_canonical'' \<longleftrightarrow> st = EthReorged)"
    by (cases st) (auto simp: evm_context_new_def)
  show "(\<exists>c. evm_context_new BscMainnet canonicality (bsc_status_str st') revision = Inr c) \<longleftrightarrow>
      revision \<noteq> 0 \<and> known_canonicality canonicality \<and> st' \<noteq> BscIncludedCandidate \<and> (canonicality = ''non_canonical'' \<longleftrightarrow> st' = BscReorged)"
    by (cases st') (auto simp: evm_context_new_def)
qed

section \<open>The rows of a block\<close>

lemma evm_child_rows_eq:
  "evm_child_rows X c l b i xs =
     (if xs = [] \<or> i + length xs \<le> 2 ^ 32
      then Inr (map (\<lambda>(i, t, r). evm_transaction_row_of X c l b i t) (enumerate i xs),
        map (\<lambda>(t, r). evm_receipt_row_of X c l b t r) xs,
        concat (map (\<lambda>(t, r). map (evm_log_row_of X c l b t) (rcp_logs r)) xs))
      else Inl EvmIndexOverflow)"
proof (induction xs arbitrary: i)
  case (Cons x xs)
  obtain t r where x: "x = (t, r)" by fastforce
  show ?case unfolding x evm_child_rows.simps Cons.IH by auto
qed simp

text \<open>The logs of a transaction, found again by its hash.\<close>

definition logs_of_transaction :: "evm_fact_batch \<Rightarrow> string \<Rightarrow> (u64 \<times> string \<times> string list \<times> bytes) list" where
  "logs_of_transaction batch tx = map (\<lambda>r. (elr_log_index r, elr_address r, elr_topics r, hex_pairs (elr_raw_data_hex r)))
     (filter (\<lambda>r. elr_transaction_hash r = tx) (efb_logs batch))"

text \<open>The rows of an EVM block join as the block does. When the block was built from receipts that were built with their checks,
  no transaction occurs twice and the text of a hash determines it, a batch of the matching network with lineage and at most
  2^32 transactions is derived; its transaction and receipt rows correspond one to one in the order of the block; the log rows with
  the hash of a transaction are exactly the logs of its receipt in order; and transaction hash and log index are a key of the
  log table.\<close>

theorem evm_facts_rebuild_block:
  assumes "evm_block_new network number h parent txs rs = Inr b"
    and "list_all (\<lambda>r. \<exists>success gas ls. evm_receipt_new (rcp_transaction_hash r) success gas ls = Inr r) rs"
    and "distinct (map etx_hash txs)" "inj (lib_b256_text X)"
    and "efc_network c = network" "evm_lineage c = Inr l" "length txs \<le> 2 ^ 32"
  shows "\<exists>batch. evm_batch_from_block X b c = Inr batch \<and>
    efb_transactions batch = with_index (evm_transaction_row_of X c l b) txs \<and>
    map (\<lambda>r. (err_transaction_hash r, err_success r, err_cumulative_gas_used r)) (efb_receipts batch) =
      map (\<lambda>r. (lib_b256_text X (rcp_transaction_hash r), rcp_success r, rcp_cumulative_gas_used r)) rs \<and>
    (\<forall>i < length txs. logs_of_transaction batch (lib_b256_text X (etx_hash (txs ! i))) =
       map (\<lambda>e. (log_index e, lib_address_text X (log_address e), map (lib_b256_text X) (log_topics e), log_data e)) (rcp_logs (rs ! i))) \<and>
    distinct (map (\<lambda>r. (elr_transaction_hash r, elr_log_index r)) (efb_logs batch))"
proof -
  note b = evm_block_new_joined [OF assms(1)]
  have len: "length txs = length rs" using b(4) by (rule list_all2_lengthD)
  let ?xs = "zip txs rs" and ?logs = "\<lambda>(t, r). map (evm_log_row_of X c l b t) (rcp_logs r)"
    and ?key = "\<lambda>(t, r :: evm_receipt). lib_b256_text X (etx_hash t)"
  have child: "evm_child_rows X c l b 0 ?xs = Inr (map (\<lambda>(i, t, r). evm_transaction_row_of X c l b i t) (enumerate 0 ?xs),
      map (\<lambda>(t, r). evm_receipt_row_of X c l b t r) ?xs, concat (map ?logs ?xs))"
    using assms(7) len by (auto simp: evm_child_rows_eq)
  then obtain batch where batch: "evm_batch_from_block X b c = Inr batch"
    and rows: "efb_transactions batch = map (\<lambda>(i, t, r). evm_transaction_row_of X c l b i t) (enumerate 0 ?xs)"
      "efb_receipts batch = map (\<lambda>(t, r). evm_receipt_row_of X c l b t r) ?xs" "efb_logs batch = concat (map ?logs ?xs)"
    using assms(5,6) b(1-3) by (simp add: evm_batch_from_block_def)
  have "map ?key ?xs = map (lib_b256_text X) (map etx_hash txs)" using len by (intro nth_equalityI) simp_all
  then have keys: "distinct (map ?key ?xs)"
    unfolding \<open>map ?key ?xs = _\<close> distinct_map using assms(3,4) by (auto simp: distinct_map intro: inj_on_subset)
  have parent: "elr_transaction_hash y = ?key x" if "y \<in> set (?logs x)" for x y
    using that by (auto simp: evm_log_row_of_def split: prod.splits)
  have hashes: "etx_hash (txs ! i) = rcp_transaction_hash (rs ! i)" if "i < length txs" for i using b(4) that by (rule list_all2_nthD)
  have txs: "efb_transactions batch = with_index (evm_transaction_row_of X c l b) txs"
    unfolding rows(1) using len by (intro nth_equalityI) (simp_all add: with_index_nth nth_enumerate_eq)
  have receipts: "map (\<lambda>r. (err_transaction_hash r, err_success r, err_cumulative_gas_used r)) (efb_receipts batch) =
      map (\<lambda>r. (lib_b256_text X (rcp_transaction_hash r), rcp_success r, rcp_cumulative_gas_used r)) rs"
    unfolding rows(2) using len hashes by (intro nth_equalityI) (simp_all add: evm_receipt_row_of_def)
  have logs: "logs_of_transaction batch (lib_b256_text X (etx_hash (txs ! i))) =
      map (\<lambda>e. (log_index e, lib_address_text X (log_address e), map (lib_b256_text X) (log_topics e), log_data e)) (rcp_logs (rs ! i))"
    if i: "i < length txs" for i
  proof -
    have "(txs ! i, rs ! i) \<in> set ?xs" using i len by (metis length_zip min.idem nth_mem nth_zip)
    from filter_children [where parent = elr_transaction_hash and key = ?key and children = ?logs, OF keys this parent]
    show ?thesis by (simp add: logs_of_transaction_def rows(3) evm_log_row_of_def hex_pairs_encode_hex comp_def)
  qed
  have "distinct (map log_index (rcp_logs r))" if "r \<in> set rs" for r
  proof -
    obtain success gas ls where "evm_receipt_new (rcp_transaction_hash r) success gas ls = Inr r"
      using assms(2) \<open>r \<in> set rs\<close> unfolding list_all_iff by blast
    then show ?thesis by (rule evm_receipt_new_distinct)
  qed
  then have each: "distinct (map (\<lambda>r. (elr_transaction_hash r, elr_log_index r)) (?logs x))" if "x \<in> set ?xs" for x
    using that by (cases x) (auto simp: evm_log_row_of_def distinct_map inj_on_def dest: set_zip_rightD)
  have "distinct (concat (map (\<lambda>x. map (\<lambda>r. (elr_transaction_hash r, elr_log_index r)) (?logs x)) ?xs))"
    by (rule distinct_concat_keys [OF keys each]) (auto simp: evm_log_row_of_def split: prod.splits)
  then have "distinct (map (\<lambda>r. (elr_transaction_hash r, elr_log_index r)) (efb_logs batch))"
    unfolding rows(3) map_concat map_map comp_def .
  then show ?thesis using batch txs receipts logs by blast
qed

definition sample_evm_lib :: evm_lib where
  "sample_evm_lib = \<lparr>lib_b256_text = (\<lambda>d. dec_string (unat d)), lib_b256_parse = (\<lambda>_. None), lib_address_text = (\<lambda>a. dec_string (unat a)),
     lib_u256_text = (\<lambda>a. dec_string (unat a)), lib_u256_parse = (\<lambda>s. Some (of_nat (dec_value s))), lib_raw_block = (\<lambda>_. Inl ''json''), lib_sha256 = (\<lambda>_. 0)\<rparr>"

definition sample_evm_transaction :: evm_transaction where
  "sample_evm_transaction = \<lparr>etx_hash = 5, etx_from = 1, etx_to = None, etx_value = EvmAmount 3, etx_nonce = 0, etx_gas_limit = 21000,
     etx_max_fee_per_gas = None, etx_blob_versioned_hashes = []\<rparr>"

definition sample_evm_receipt :: evm_receipt where
  "sample_evm_receipt = \<lparr>rcp_transaction_hash = 5, rcp_success = True, rcp_cumulative_gas_used = 21000,
     rcp_logs = [\<lparr>log_address = 9, log_topics = [4], log_data = [1, 2], log_transaction_hash = 5, log_index = 0\<rparr>]\<rparr>"

definition sample_evm_block :: evm_block where
  "sample_evm_block = \<lparr>eb_network = EthereumMainnet, eb_number = 1, eb_hash = 2, eb_parent_hash = 1,
     eb_transactions = [sample_evm_transaction], eb_receipts = [sample_evm_receipt]\<rparr>"

definition sample_evm_context :: evm_fact_context where
  "sample_evm_context = \<lparr>fc_source_id = Some ''n'', fc_source_session_id = Some 1, fc_observation_id = Some 2, fc_recorded_at = Some 3,
     fc_canonicality = ''canonical'', fc_revision = 7, efc_network = EthereumMainnet, efc_finality = ''safe''\<rparr>"

theorem evm_facts_rebuild_block_witness:
  "\<exists>batch. evm_batch_from_block sample_evm_lib sample_evm_block sample_evm_context = Inr batch \<and>
     logs_of_transaction batch (dec_string 5) = [(0, dec_string 9, [dec_string 4], [1, 2])]"
proof -
  have new: "evm_block_new EthereumMainnet 1 2 1 [sample_evm_transaction] [sample_evm_receipt] = Inr sample_evm_block"
    by (simp add: evm_block_new_def sample_evm_block_def sample_evm_transaction_def sample_evm_receipt_def)
  have receipts: "list_all (\<lambda>r. \<exists>success gas ls. evm_receipt_new (rcp_transaction_hash r) success gas ls = Inr r) [sample_evm_receipt]"
    by (auto simp: evm_receipt_new_def sample_evm_receipt_def rust_result check_logs_Inr)
  have inj: "inj (lib_b256_text sample_evm_lib)" by (simp add: inj_def sample_evm_lib_def dec_string_inj word_unat_eq_iff)
  obtain l where l: "evm_lineage sample_evm_context = Inr l" by (simp add: evm_lineage_def context_lineage_def sample_evm_context_def)
  have "distinct (map etx_hash [sample_evm_transaction])" "efc_network sample_evm_context = EthereumMainnet" "length [sample_evm_transaction] \<le> 2 ^ 32"
    by (simp_all add: sample_evm_context_def)
  from evm_facts_rebuild_block [OF new receipts this(1) inj this(2) l this(3)]
  obtain batch where "evm_batch_from_block sample_evm_lib sample_evm_block sample_evm_context = Inr batch"
    "\<forall>i < length [sample_evm_transaction]. logs_of_transaction batch (lib_b256_text sample_evm_lib (etx_hash ([sample_evm_transaction] ! i))) =
       map (\<lambda>e. (log_index e, lib_address_text sample_evm_lib (log_address e), map (lib_b256_text sample_evm_lib) (log_topics e), log_data e))
         (rcp_logs ([sample_evm_receipt] ! i))"
    by blast
  then show ?thesis by (auto simp: sample_evm_lib_def sample_evm_receipt_def sample_evm_transaction_def)
qed

end
