(* ===== verification/Solana_Facts.thy ===== *)
theory Solana_Facts
  imports Native_Rows Solana_Domain
begin

text \<open>
  Native Solana facts (\<open>processors/native-normalizer/src/solana.rs\<close>): the context of a revision with its coverage tier, the rows
  of one executed transaction and the row of one selected account write. The base58 text of keys, block hashes and
  signatures is a parameter.
\<close>

section \<open>Context\<close>

definition SOLANA_PARSER_VERSION :: string where "SOLANA_PARSER_VERSION = ''solana-native/1.0.0''"

datatype solana_coverage_tier = AllTransactions | SelectedAccounts

fun coverage_tier_str :: "solana_coverage_tier \<Rightarrow> string" where
  "coverage_tier_str AllTransactions = ''all_transactions''"
| "coverage_tier_str SelectedAccounts = ''selected_accounts''"

datatype solana_fact_error =
    SolanaZeroRevision
  | SolanaInvalidStatus string string
  | SolanaEmptySourceId
  | SolanaInvalidRecordedTime
  | SolanaMissingLineage
  | SolanaWrongCoverageTier
  | SolanaIndexOverflow

record solana_fact_context = fact_context +
  sfc_commitment :: string
  sfc_coverage_tier :: solana_coverage_tier

definition consistent_status :: "string \<Rightarrow> string \<Rightarrow> bool" where
  "consistent_status canonicality commitment =
     (if commitment = ''dead'' then canonicality = ''non_canonical''
      else if commitment = ''received'' then canonicality = ''candidate''
      else if commitment = ''processed'' then canonicality = ''candidate'' \<or> canonicality = ''canonical''
      else if commitment = ''confirmed'' \<or> commitment = ''finalized'' then canonicality = ''canonical''
      else False)"

definition solana_context_new :: "string \<Rightarrow> string \<Rightarrow> u64 \<Rightarrow> solana_coverage_tier \<Rightarrow> solana_fact_error + solana_fact_context" where
  "solana_context_new canonicality commitment revision tier =
     (if revision = 0 then Inl SolanaZeroRevision
      else if \<not> consistent_status canonicality commitment then Inl (SolanaInvalidStatus canonicality commitment)
      else Inr \<lparr>fc_source_id = None, fc_source_session_id = None, fc_observation_id = None, fc_recorded_at = None,
        fc_canonicality = canonicality, fc_revision = revision, sfc_commitment = commitment, sfc_coverage_tier = tier\<rparr>)"

definition solana_with_lineage ::
  "string \<Rightarrow> source_session_id \<Rightarrow> digest \<Rightarrow> i64 \<Rightarrow> solana_fact_context \<Rightarrow> solana_fact_error + solana_fact_context" where
  "solana_with_lineage source session obs at c =
     (if str_blank source \<or> \<not> str_is_ascii source then Inl SolanaEmptySourceId
      else if sint at < 0 then Inl SolanaInvalidRecordedTime
      else Inr (attach_lineage source session obs at c))"

definition solana_lineage :: "solana_fact_context \<Rightarrow> solana_fact_error + fact_lineage" where
  "solana_lineage = context_lineage SolanaMissingLineage"

section \<open>Rows\<close>

record solana_text =
  key_text :: "digest \<Rightarrow> string"
  signature_text :: "signature \<Rightarrow> string"

record solana_transaction_row = status_row +
  str_signature :: string
  str_slot :: u64
  str_blockhash :: string
  str_message_version :: string
  str_static_account_keys :: "string list"
  str_address_table_lookup_accounts :: "string list"
  str_raw_transaction_hex :: string
  str_fee :: string
  str_compute_units_consumed :: "u64 option"
  str_execution_status :: string
  str_execution_error :: string
  str_commitment :: string
  str_coverage_tier :: string

record solana_instruction_row = status_row +
  sir_signature :: string
  sir_slot :: u64
  sir_blockhash :: string
  sir_outer_index :: u16
  sir_inner_index :: "u16 option"
  sir_program_id_index :: u8
  sir_account_indexes :: "u8 list"
  sir_raw_data_hex :: string
  sir_commitment :: string

record solana_log_row = native_row +
  slr_signature :: string
  slr_slot :: u64
  slr_blockhash :: string
  slr_log_index :: u32
  slr_message :: string

record solana_balance_row = base_row +
  sbr_signature :: string
  sbr_slot :: u64
  sbr_blockhash :: string
  sbr_account_index :: u16
  sbr_pre_lamports :: string
  sbr_post_lamports :: string

record solana_token_balance_row = base_row +
  stb_signature :: string
  stb_slot :: u64
  stb_blockhash :: string
  stb_account_index :: u16
  stb_mint :: string
  stb_pre_amount :: string
  stb_post_amount :: string
  stb_decimals :: u8

record solana_account_write_row = status_row +
  sar_pubkey :: string
  sar_slot :: u64
  sar_blockhash :: string
  sar_owner :: string
  sar_lamports :: string
  sar_raw_data_hex :: string
  sar_executable :: bool
  sar_rent_epoch :: u64
  sar_write_version :: u64
  sar_commitment :: string
  sar_coverage_tier :: string

record solana_fact_batch =
  sfb_transactions :: "solana_transaction_row list"
  sfb_instructions :: "solana_instruction_row list"
  sfb_logs :: "solana_log_row list"
  sfb_balance_changes :: "solana_balance_row list"
  sfb_token_balance_changes :: "solana_token_balance_row list"
  sfb_account_writes :: "solana_account_write_row list"

fun message_version_str :: "message_version \<Rightarrow> string" where
  "message_version_str Legacy = ''legacy''"
| "message_version_str V0 = ''v0''"

fun execution_columns :: "execution_status \<Rightarrow> string \<times> string" where
  "execution_columns Succeeded = (''succeeded'', [])"
| "execution_columns (ExecutionFailed e) = (''failed'', e)"

abbreviation sol_fork :: "solana_transaction \<Rightarrow> fork_id" where
  "sol_fork t \<equiv> key_fork_id (sol_key t)"

definition solana_transaction_row_of ::
  "solana_text \<Rightarrow> solana_fact_context \<Rightarrow> fact_lineage \<Rightarrow> solana_transaction \<Rightarrow> solana_transaction_row" where
  "solana_transaction_row_of T c l t =
     \<lparr>row_revision = fc_revision c, row_source_id = li_source_id l, row_observation_id = li_observation_id l,
      row_recorded_at = li_recorded_at l, row_source_session_id = li_source_session_id l,
      row_parser_version = SOLANA_PARSER_VERSION, row_canonicality = fc_canonicality c,
      str_signature = signature_text T (key_signature (sol_key t)), str_slot = slot_value (fork_slot (sol_fork t)),
      str_blockhash = key_text T (fork_blockhash (sol_fork t)), str_message_version = message_version_str (msg_version (sol_message t)),
      str_static_account_keys = map (key_text T) (static_account_keys (sol_message t)),
      str_address_table_lookup_accounts = map (\<lambda>k. key_text T (lookup_account_key k)) (address_table_lookups (sol_message t)),
      str_raw_transaction_hex = encode_hex (sol_raw_transaction t), str_fee = dec_string (unat (lamports_value (sol_fee t))),
      str_compute_units_consumed = sol_compute_units_consumed t, str_execution_status = fst (execution_columns (sol_status t)),
      str_execution_error = snd (execution_columns (sol_status t)), str_commitment = sfc_commitment c,
      str_coverage_tier = coverage_tier_str (sfc_coverage_tier c)\<rparr>"

definition solana_instruction_row_of ::
  "solana_text \<Rightarrow> solana_fact_context \<Rightarrow> fact_lineage \<Rightarrow> solana_transaction \<Rightarrow> u16 \<Rightarrow> u16 option \<Rightarrow> compiled_instruction \<Rightarrow> solana_instruction_row" where
  "solana_instruction_row_of T c l t outer inner i =
     \<lparr>row_revision = fc_revision c, row_source_id = li_source_id l, row_observation_id = li_observation_id l,
      row_recorded_at = li_recorded_at l, row_source_session_id = li_source_session_id l,
      row_parser_version = SOLANA_PARSER_VERSION, row_canonicality = fc_canonicality c,
      sir_signature = signature_text T (key_signature (sol_key t)), sir_slot = slot_value (fork_slot (sol_fork t)),
      sir_blockhash = key_text T (fork_blockhash (sol_fork t)), sir_outer_index = outer, sir_inner_index = inner,
      sir_program_id_index = program_id_index i, sir_account_indexes = account_indexes i,
      sir_raw_data_hex = encode_hex (instruction_data i), sir_commitment = sfc_commitment c\<rparr>"

definition solana_log_row_of ::
  "solana_text \<Rightarrow> solana_fact_context \<Rightarrow> fact_lineage \<Rightarrow> solana_transaction \<Rightarrow> nat \<Rightarrow> string \<Rightarrow> solana_log_row" where
  "solana_log_row_of T c l t i message =
     \<lparr>row_revision = fc_revision c, row_source_id = li_source_id l, row_observation_id = li_observation_id l,
      row_recorded_at = li_recorded_at l, row_source_session_id = li_source_session_id l,
      row_parser_version = SOLANA_PARSER_VERSION,
      slr_signature = signature_text T (key_signature (sol_key t)), slr_slot = slot_value (fork_slot (sol_fork t)),
      slr_blockhash = key_text T (fork_blockhash (sol_fork t)), slr_log_index = of_nat i, slr_message = message\<rparr>"

definition solana_balance_row_of ::
  "solana_text \<Rightarrow> solana_fact_context \<Rightarrow> fact_lineage \<Rightarrow> solana_transaction \<Rightarrow> nat \<Rightarrow> lamports \<times> lamports \<Rightarrow> solana_balance_row" where
  "solana_balance_row_of T c l t i balances =
     \<lparr>row_revision = fc_revision c, row_source_id = li_source_id l, row_observation_id = li_observation_id l,
      row_recorded_at = li_recorded_at l,
      sbr_signature = signature_text T (key_signature (sol_key t)), sbr_slot = slot_value (fork_slot (sol_fork t)),
      sbr_blockhash = key_text T (fork_blockhash (sol_fork t)), sbr_account_index = of_nat i,
      sbr_pre_lamports = dec_string (unat (lamports_value (fst balances))),
      sbr_post_lamports = dec_string (unat (lamports_value (snd balances)))\<rparr>"

definition solana_token_balance_row_of ::
  "solana_text \<Rightarrow> solana_fact_context \<Rightarrow> fact_lineage \<Rightarrow> solana_transaction \<Rightarrow> token_balance_change \<Rightarrow> solana_token_balance_row" where
  "solana_token_balance_row_of T c l t change =
     \<lparr>row_revision = fc_revision c, row_source_id = li_source_id l, row_observation_id = li_observation_id l,
      row_recorded_at = li_recorded_at l,
      stb_signature = signature_text T (key_signature (sol_key t)), stb_slot = slot_value (fork_slot (sol_fork t)),
      stb_blockhash = key_text T (fork_blockhash (sol_fork t)), stb_account_index = token_account_index change,
      stb_mint = key_text T (token_mint change), stb_pre_amount = pre_amount change, stb_post_amount = post_amount change,
      stb_decimals = token_decimals change\<rparr>"

definition solana_batch_from_transaction ::
  "solana_text \<Rightarrow> solana_transaction \<Rightarrow> solana_fact_context \<Rightarrow> solana_fact_error + solana_fact_batch" where
  "solana_batch_from_transaction T t c =
     (if sfc_coverage_tier c \<noteq> AllTransactions then Inl SolanaWrongCoverageTier
      else and_then (solana_lineage c) (\<lambda>l.
        and_then (numbered (2 ^ 16) SolanaIndexOverflow (\<lambda>i. solana_instruction_row_of T c l t (of_nat i) None) 0
          (msg_instructions (sol_message t))) (\<lambda>outer.
        and_then (numbered (2 ^ 32) SolanaIndexOverflow (solana_log_row_of T c l t) 0 (sol_logs t)) (\<lambda>logs.
        and_then (numbered (2 ^ 16) SolanaIndexOverflow (solana_balance_row_of T c l t) 0
          (zip (sol_pre_balances t) (sol_post_balances t))) (\<lambda>balances.
        Inr \<lparr>sfb_transactions = [solana_transaction_row_of T c l t],
          sfb_instructions = outer @ map (\<lambda>i. solana_instruction_row_of T c l t (outer_index (inner_path i))
            (Some (inner_index (inner_path i))) (inner_compiled i)) (sol_inner_instructions t),
          sfb_logs = logs, sfb_balance_changes = balances,
          sfb_token_balance_changes = map (solana_token_balance_row_of T c l t) (sol_token_balance_changes t),
          sfb_account_writes = []\<rparr>)))))"

definition solana_batch_from_account_write ::
  "solana_text \<Rightarrow> account_write \<Rightarrow> solana_fact_context \<Rightarrow> solana_fact_error + solana_fact_batch" where
  "solana_batch_from_account_write T w c =
     (if sfc_coverage_tier c \<noteq> SelectedAccounts then Inl SolanaWrongCoverageTier
      else and_then (solana_lineage c) (\<lambda>l.
        Inr \<lparr>sfb_transactions = [], sfb_instructions = [], sfb_logs = [], sfb_balance_changes = [], sfb_token_balance_changes = [],
          sfb_account_writes =
            [\<lparr>row_revision = fc_revision c, row_source_id = li_source_id l, row_observation_id = li_observation_id l,
              row_recorded_at = li_recorded_at l, row_source_session_id = li_source_session_id l,
              row_parser_version = SOLANA_PARSER_VERSION, row_canonicality = fc_canonicality c,
              sar_pubkey = key_text T (write_pubkey w), sar_slot = slot_value (fork_slot (write_fork_id w)),
              sar_blockhash = key_text T (fork_blockhash (write_fork_id w)), sar_owner = key_text T (write_owner w),
              sar_lamports = dec_string (unat (lamports_value (write_lamports w))), sar_raw_data_hex = encode_hex (write_data w),
              sar_executable = write_executable w, sar_rent_epoch = write_rent_epoch w, sar_write_version = write_version w,
              sar_commitment = sfc_commitment c, sar_coverage_tier = coverage_tier_str (sfc_coverage_tier c)\<rparr>]\<rparr>))"

section \<open>The rows of a transaction\<close>

text \<open>What a reader gets back from the rows.\<close>

definition read_instruction :: "solana_instruction_row \<Rightarrow> compiled_instruction" where
  "read_instruction r = \<lparr>program_id_index = sir_program_id_index r, account_indexes = sir_account_indexes r,
     instruction_data = hex_pairs (sir_raw_data_hex r)\<rparr>"

definition read_inner_instruction :: "solana_instruction_row \<Rightarrow> inner_instruction" where
  "read_inner_instruction r = \<lparr>inner_path = \<lparr>outer_index = sir_outer_index r, inner_index = the (sir_inner_index r)\<rparr>,
     inner_compiled = read_instruction r\<rparr>"

definition outer_rows :: "solana_fact_batch \<Rightarrow> solana_instruction_row list" where
  "outer_rows b = filter (\<lambda>r. sir_inner_index r = None) (sfb_instructions b)"

definition inner_rows :: "solana_fact_batch \<Rightarrow> solana_instruction_row list" where
  "inner_rows b = filter (\<lambda>r. sir_inner_index r \<noteq> None) (sfb_instructions b)"

lemma read_instruction_row [simp]: "read_instruction (solana_instruction_row_of T c l t outer inner i) = i"
  by (simp add: read_instruction_def solana_instruction_row_of_def hex_pairs_encode_hex)

lemma instruction_row_path [simp]:
  "sir_outer_index (solana_instruction_row_of T c l t outer inner i) = outer"
  "sir_inner_index (solana_instruction_row_of T c l t outer inner i) = inner"
  by (simp_all add: solana_instruction_row_of_def)

lemma read_inner_row [simp]:
  "read_inner_instruction (solana_instruction_row_of T c l t (outer_index (inner_path i)) (Some (inner_index (inner_path i))) (inner_compiled i)) = i"
  by (simp add: read_inner_instruction_def)

lemma lamports_text_roundtrip: "lamports_deserialize (dec_string (unat (lamports_value a))) = Inr a"
  using lamports_json_roundtrip [of a] by (simp add: lamports_serialize_def)

lemma numbered_outer_rows:
  "filter (\<lambda>r. sir_inner_index r = None) (with_index (\<lambda>i. solana_instruction_row_of T c l t (of_nat i) None) xs) =
     with_index (\<lambda>i. solana_instruction_row_of T c l t (of_nat i) None) xs"
  "filter (\<lambda>r. \<exists>y. sir_inner_index r = Some y) (with_index (\<lambda>i. solana_instruction_row_of T c l t (of_nat i) None) xs) = []"
  by (auto simp: filter_id_conv filter_empty_conv with_index_def)

lemma message_instructions_bounded:
  assumes "solana_message_try_new version keys lookups instructions = Inr m"
  shows "msg_instructions m = instructions" "length instructions \<le> 4096"
  using assms by (auto simp: solana_message_try_new_def MAX_INSTRUCTIONS_def split: if_splits)

text \<open>The rows of a validated transaction rebuild it. With lineage and the tier of all transactions, the batch is derived
  exactly when there are at most 65536 balances, and fails with an index overflow otherwise, whatever else the transaction
  holds. The rows without an inner index are the outer instructions in order, numbered from zero; the rows with one are the inner
  instructions with their paths; log messages, pre- and post-balances and the raw bytes are read back exactly; and no account
  write is derived.\<close>

theorem solana_facts_rebuild_transaction:
  assumes "solana_message_try_new version keys lookups instructions = Inr (sol_message t)"
    and "solana_transaction_try_new t = Inr u"
    and "sfc_coverage_tier c = AllTransactions" "solana_lineage c = Inr l"
  shows "if length (sol_pre_balances t) \<le> 65536
    then \<exists>b. solana_batch_from_transaction T t c = Inr b \<and>
      map sir_outer_index (outer_rows b) = map of_nat [0 ..< length instructions] \<and>
      map read_instruction (outer_rows b) = instructions \<and> map read_inner_instruction (inner_rows b) = sol_inner_instructions t \<and>
      map slr_message (sfb_logs b) = sol_logs t \<and>
      map (\<lambda>r. (lamports_deserialize (sbr_pre_lamports r), lamports_deserialize (sbr_post_lamports r))) (sfb_balance_changes b) =
        zip (map Inr (sol_pre_balances t)) (map Inr (sol_post_balances t)) \<and>
      map (\<lambda>r. hex_pairs (str_raw_transaction_hex r)) (sfb_transactions b) = [sol_raw_transaction t] \<and> sfb_account_writes b = []
    else solana_batch_from_transaction T t c = Inl SolanaIndexOverflow"
proof -
  note msg = message_instructions_bounded [OF assms(1)]
  have tx: "length (sol_pre_balances t) = length (sol_post_balances t)" "length (sol_logs t) \<le> 16384"
    using assms(2) by (simp_all add: solana_transaction_accepted_iff_bounded)
  let ?outer = "with_index (\<lambda>i. solana_instruction_row_of T c l t (of_nat i) None) instructions"
  let ?inner = "map (\<lambda>i. solana_instruction_row_of T c l t (outer_index (inner_path i)) (Some (inner_index (inner_path i))) (inner_compiled i))
    (sol_inner_instructions t)"
  let ?logs = "with_index (solana_log_row_of T c l t) (sol_logs t)"
  let ?balances = "with_index (solana_balance_row_of T c l t) (zip (sol_pre_balances t) (sol_post_balances t))"
  have outer: "map sir_outer_index ?outer = map of_nat [0 ..< length instructions]" "map read_instruction ?outer = instructions"
    by (simp_all add: map_with_index with_index_const with_index_index)
  have inner: "filter (\<lambda>r. sir_inner_index r = None) ?inner = []" "filter (\<lambda>r. sir_inner_index r \<noteq> None) ?inner = ?inner"
    "map read_inner_instruction ?inner = sol_inner_instructions t"
    by (simp_all add: filter_empty_conv filter_id_conv comp_def)
  have logs: "map slr_message ?logs = sol_logs t"
    by (simp add: map_with_index solana_log_row_of_def with_index_const)
  have balances: "map (\<lambda>r. (lamports_deserialize (sbr_pre_lamports r), lamports_deserialize (sbr_post_lamports r))) ?balances =
      zip (map Inr (sol_pre_balances t)) (map Inr (sol_post_balances t))"
    by (simp add: map_with_index solana_balance_row_of_def with_index_const lamports_text_roundtrip zip_map_map case_prod_unfold)
  show ?thesis
    using msg tx assms(3,4) outer inner logs balances
    by (simp add: solana_batch_from_transaction_def numbered_eq outer_rows_def inner_rows_def numbered_outer_rows
        solana_transaction_row_of_def hex_pairs_encode_hex)
qed

definition sample_solana_message :: solana_message where
  "sample_solana_message = \<lparr>msg_version = Legacy, static_account_keys = [1], address_table_lookups = [],
     msg_instructions = [\<lparr>program_id_index = 0, account_indexes = [0], instruction_data = [7]\<rparr>]\<rparr>"

definition sample_solana_transaction :: solana_transaction where
  "sample_solana_transaction = \<lparr>sol_key = TransactionKey 1 (ForkId (Slot 2) 3), sol_message = sample_solana_message,
     sol_inner_instructions = [], sol_logs = [''ok''], sol_pre_balances = [Lamports 9], sol_post_balances = [Lamports 4],
     sol_token_balance_changes = [], sol_fee = Lamports 5, sol_compute_units_consumed = None, sol_status = Succeeded,
     sol_raw_transaction = [1, 2]\<rparr>"

definition sample_solana_context :: solana_fact_context where
  "sample_solana_context = \<lparr>fc_source_id = Some ''n'', fc_source_session_id = Some 1, fc_observation_id = Some 2, fc_recorded_at = Some 3,
     fc_canonicality = ''canonical'', fc_revision = 1, sfc_commitment = ''confirmed'', sfc_coverage_tier = AllTransactions\<rparr>"

definition sample_solana_text :: solana_text where
  "sample_solana_text = \<lparr>key_text = (\<lambda>d. dec_string (unat d)), signature_text = (\<lambda>s. dec_string (unat s))\<rparr>"

theorem solana_facts_rebuild_transaction_witness:
  "\<exists>b. solana_batch_from_transaction sample_solana_text sample_solana_transaction sample_solana_context = Inr b \<and>
     map read_instruction (outer_rows b) = msg_instructions sample_solana_message \<and> map slr_message (sfb_logs b) = [''ok'']"
proof -
  have message: "solana_message_try_new Legacy [1] [] (msg_instructions sample_solana_message) = Inr (sol_message sample_solana_transaction)"
    by (simp add: solana_message_try_new_def sample_solana_message_def sample_solana_transaction_def MAX_ACCOUNT_KEYS_def MAX_INSTRUCTIONS_def)
  have transaction: "solana_transaction_try_new sample_solana_transaction = Inr sample_solana_transaction"
    by (simp add: solana_transaction_accepted_iff_bounded sample_solana_transaction_def)
  obtain l where l: "solana_lineage sample_solana_context = Inr l"
    by (simp add: solana_lineage_def context_lineage_def sample_solana_context_def)
  have tier: "sfc_coverage_tier sample_solana_context = AllTransactions" by (simp add: sample_solana_context_def)
  show ?thesis
    using solana_facts_rebuild_transaction [OF message transaction tier l, of sample_solana_text]
    by (auto simp: sample_solana_transaction_def)
qed

end
