(* ===== verification/Solana_Decoder.thy ===== *)
theory Solana_Decoder
  imports Solana_Domain Deployment_Registry
begin

text \<open>
  The Solana decoder registry of \<open>processors/solana-decoder/src/lib.rs\<close>: deployments of decoders over slot
  ranges of a program, the decoding of an instruction by the selected decoder, and the revisions it appends.
  The JSON printer and the base-58 reader of public keys are parameters; \<open>'v\<close> is the type of JSON values.
\<close>

section \<open>Deployments\<close>

definition MAX_INSTRUCTION_IDENTITY_BYTES :: nat where "MAX_INSTRUCTION_IDENTITY_BYTES = 256"
definition MAX_RAW_DATA_BYTES :: nat where "MAX_RAW_DATA_BYTES = 1048576"
definition MAX_DECODED_JSON_BYTES :: nat where "MAX_DECODED_JSON_BYTES = 1048576"
definition MAX_DECODER_ERROR_BYTES :: nat where "MAX_DECODER_ERROR_BYTES = 1024"

datatype solana_decoder_error =
    InvalidDecoderVersion
  | SolanaInvalidDeploymentRange
  | SolanaOverlappingDeployment
  | InvalidBuiltInProgram
  | InvalidInstructionIdentity
  | RawDataTooLarge nat
  | InvalidNativeFactId
  | SolanaInvalidRecordedTime
  | DecodedJsonTooLarge nat
  | DecoderSerialize string
  | DecoderRevisionOverflow

record solana_deployment =
  sd_program_id :: pubkey
  sd_decoder_version :: string
  sd_valid_from_slot :: u64
  sd_valid_to_slot :: "u64 option"

definition solana_deployment_new :: "pubkey \<Rightarrow> string \<Rightarrow> u64 \<Rightarrow> u64 option \<Rightarrow> solana_decoder_error + solana_deployment" where
  "solana_deployment_new program version lo hi =
     (if str_blank version \<or> \<not> str_is_ascii version \<or> 128 < length version then Inl InvalidDecoderVersion
      else if \<not> valid_range lo hi then Inl SolanaInvalidDeploymentRange
      else Inr \<lparr>sd_program_id = program, sd_decoder_version = version, sd_valid_from_slot = lo, sd_valid_to_slot = hi\<rparr>)"

definition solana_deployment_covers :: "solana_deployment \<Rightarrow> u64 \<Rightarrow> bool" where
  "solana_deployment_covers d n = in_range (sd_valid_from_slot d) (sd_valid_to_slot d) n"

definition solana_overlaps :: "solana_deployment \<Rightarrow> solana_deployment \<Rightarrow> bool" where
  "solana_overlaps d d' \<longleftrightarrow> sd_program_id d = sd_program_id d' \<and>
     ranges_meet (sd_valid_from_slot d) (sd_valid_to_slot d) (sd_valid_from_slot d') (sd_valid_to_slot d')"

section \<open>Revisions\<close>

datatype solana_decode_status = SolanaDecoded | SolanaUnknown | SolanaFailed

fun decode_status_str :: "solana_decode_status \<Rightarrow> string" where
  "decode_status_str SolanaDecoded = ''decoded''"
| "decode_status_str SolanaUnknown = ''unknown''"
| "decode_status_str SolanaFailed = ''failed''"

record solana_decode_revision =
  sdr_program_id :: pubkey
  sdr_slot :: u64
  sdr_instruction_identity :: string
  sdr_decoder_version :: "string option"
  sdr_status :: solana_decode_status
  sdr_decoded_json :: "string option"
  sdr_error :: "string option"
  sdr_raw_data :: bytes
  sdr_native_fact_id :: digest
  sdr_revision :: u64
  sdr_recorded_at :: i64

record decode_revision_row =
  drr_program_id :: string
  drr_slot :: u64
  drr_instruction_identity :: string
  drr_decoder_version :: "string option"
  drr_decode_status :: string
  drr_decoded_json :: "string option"
  drr_error :: "string option"
  drr_raw_data_hex :: string
  drr_native_fact_id :: string
  drr_revision :: u64
  drr_recorded_at :: i64

definition decode_fact_row :: "(pubkey \<Rightarrow> string) \<Rightarrow> solana_decode_revision \<Rightarrow> decode_revision_row" where
  "decode_fact_row key_text r =
     \<lparr>drr_program_id = key_text (sdr_program_id r), drr_slot = sdr_slot r, drr_instruction_identity = sdr_instruction_identity r,
      drr_decoder_version = sdr_decoder_version r, drr_decode_status = decode_status_str (sdr_status r),
      drr_decoded_json = sdr_decoded_json r, drr_error = sdr_error r, drr_raw_data_hex = encode_hex (sdr_raw_data r),
      drr_native_fact_id = encode_hex (be_bytes 32 (unat (sdr_native_fact_id r))), drr_revision = sdr_revision r,
      drr_recorded_at = sdr_recorded_at r\<rparr>"

section \<open>The registry\<close>

record solana_registry =
  sg_deployments :: "solana_deployment list"
  sg_revision :: u64

definition solana_registry_new :: solana_registry where
  "solana_registry_new = \<lparr>sg_deployments = [], sg_revision = 0\<rparr>"

definition solana_register :: "solana_deployment \<Rightarrow> solana_registry \<Rightarrow> (solana_decoder_error + unit) \<times> solana_registry" where
  "solana_register d r =
     (if list_ex (\<lambda>c. solana_overlaps c d) (sg_deployments r) then (Inl SolanaOverlappingDeployment, r)
      else (Inr (), r\<lparr>sg_deployments := sort_key (\<lambda>x. (sd_program_id x, sd_valid_from_slot x)) (sg_deployments r @ [d])\<rparr>))"

definition register_built_in :: "pubkey \<Rightarrow> string \<Rightarrow> solana_registry \<Rightarrow> solana_decoder_error + solana_registry" where
  "register_built_in key version r =
     and_then (solana_deployment_new key version 0 None) (\<lambda>d.
     case solana_register d r of (Inl e, _) \<Rightarrow> Inl e | (Inr _, r') \<Rightarrow> Inr r')"

definition standard_v1 :: "(string \<Rightarrow> pubkey option) \<Rightarrow> solana_decoder_error + solana_registry" where
  "standard_v1 key_parse =
     and_then (ok_or (key_parse ''TokenkegQfeZyiNwAJbNbGKPFXCWuBvf9Ss623VQ5DA'') InvalidBuiltInProgram) (\<lambda>token.
     and_then (ok_or (key_parse ''TokenzQdBNbLqP5VEhdkAS6EPFLC1PHnBqCXEpPxuEb'') InvalidBuiltInProgram) (\<lambda>token_2022.
     and_then (register_built_in token ''spl-token/v1'' solana_registry_new) (\<lambda>r.
     register_built_in token_2022 ''spl-token-2022/v1'' r)))"

definition deployment_for :: "solana_registry \<Rightarrow> pubkey \<Rightarrow> u64 \<Rightarrow> solana_deployment option" where
  "deployment_for r program n = find (\<lambda>d. sd_program_id d = program \<and> solana_deployment_covers d n) (sg_deployments r)"

definition run_decoder ::
  "('v \<Rightarrow> string + string) \<Rightarrow> (bytes \<Rightarrow> string + 'v) \<Rightarrow> bytes \<Rightarrow> solana_deployment option \<Rightarrow>
   solana_decoder_error + (string option \<times> solana_decode_status \<times> string option \<times> string option)" where
  "run_decoder json decoder raw selected =
     (case selected of
        None \<Rightarrow> Inr (None, SolanaUnknown, None, None)
      | Some d \<Rightarrow>
          (case decoder raw of
             Inr v \<Rightarrow> and_then (map_sum DecoderSerialize id (json v)) (\<lambda>text.
               if MAX_DECODED_JSON_BYTES < length text then Inl (DecodedJsonTooLarge (length text))
               else Inr (Some (sd_decoder_version d), SolanaDecoded, Some text, None))
           | Inl error \<Rightarrow> Inr (Some (sd_decoder_version d), SolanaFailed, None, Some (truncate_at MAX_DECODER_ERROR_BYTES error))))"

definition solana_decode ::
  "('v \<Rightarrow> string + string) \<Rightarrow> pubkey \<Rightarrow> u64 \<Rightarrow> string \<Rightarrow> bytes \<Rightarrow> digest \<Rightarrow> i64 \<Rightarrow> (bytes \<Rightarrow> string + 'v) \<Rightarrow> solana_registry \<Rightarrow>
   (solana_decoder_error + solana_decode_revision) \<times> solana_registry" where
  "solana_decode json program n identity raw native at decoder r =
     (if str_blank identity \<or> MAX_INSTRUCTION_IDENTITY_BYTES < length identity \<or> \<not> str_is_ascii identity
      then (Inl InvalidInstructionIdentity, r)
      else if MAX_RAW_DATA_BYTES < length raw then (Inl (RawDataTooLarge (length raw)), r)
      else if native = 0 then (Inl InvalidNativeFactId, r)
      else if sint at < 0 then (Inl SolanaInvalidRecordedTime, r)
      else case checked_add (sg_revision r) 1 of
          None \<Rightarrow> (Inl DecoderRevisionOverflow, r)
        | Some revision \<Rightarrow>
            (case run_decoder json decoder raw (deployment_for r program n) of
               Inl e \<Rightarrow> (Inl e, r)
             | Inr (version, status, text, error) \<Rightarrow>
                 (Inr \<lparr>sdr_program_id = program, sdr_slot = n, sdr_instruction_identity = identity, sdr_decoder_version = version,
                    sdr_status = status, sdr_decoded_json = text, sdr_error = error, sdr_raw_data = raw, sdr_native_fact_id = native,
                    sdr_revision = revision, sdr_recorded_at = at\<rparr>, r\<lparr>sg_revision := revision\<rparr>)))"

section \<open>Selection\<close>

definition solana_covers :: "solana_deployment \<Rightarrow> pubkey \<Rightarrow> u64 \<Rightarrow> bool" where
  "solana_covers d program n \<longleftrightarrow> sd_program_id d = program \<and> solana_deployment_covers d n"

definition solana_deployment_valid :: "solana_deployment \<Rightarrow> bool" where
  "solana_deployment_valid d \<longleftrightarrow> valid_range (sd_valid_from_slot d) (sd_valid_to_slot d)"

lemma solana_overlaps_covers:
  assumes "solana_deployment_valid d" "solana_deployment_valid d'"
  shows "solana_overlaps d d' \<longleftrightarrow> (\<exists>k n. solana_covers d k n \<and> solana_covers d' k n)"
  using ranges_meet_iff [OF assms [unfolded solana_deployment_valid_def]]
  by (auto simp: solana_overlaps_def solana_covers_def solana_deployment_covers_def)

lemma solana_not_overlaps_disjoint: "\<not> solana_overlaps d d' \<Longrightarrow> \<not> (solana_covers d k n \<and> solana_covers d' k n)"
  by (auto simp: solana_overlaps_def solana_covers_def solana_deployment_covers_def ranges_meet_def in_range_end intro: order_trans)

interpretation solana_decoders: deployment_registry sg_deployments solana_register deployment_for solana_covers solana_deployment_valid
proof
  fix d d' :: solana_deployment and r r' :: solana_registry and k n
  show "set (sg_deployments r') = insert d (set (sg_deployments r))" if "solana_register d r = (Inr (), r')"
    using that by (auto simp: solana_register_def split: if_splits)
  show "\<not> (solana_covers d k n \<and> solana_covers d' k n)" if "solana_register d r = (Inr (), r')" "d' \<in> set (sg_deployments r)"
  proof -
    have "\<not> solana_overlaps d' d" using that by (auto simp: solana_register_def list_ex_iff split: if_splits)
    then show ?thesis using solana_not_overlaps_disjoint [of d' d k n] by blast
  qed
  show "r' = r \<and> (\<exists>d' \<in> set (sg_deployments r). \<exists>k n. solana_covers d k n \<and> solana_covers d' k n)"
    if refused: "solana_register d r = (Inl e, r')" "solana_deployment_valid d" "\<forall>x \<in> set (sg_deployments r). solana_deployment_valid x" for e
  proof -
    obtain c where "r' = r" "c \<in> set (sg_deployments r)" "solana_overlaps c d"
      using refused(1) by (auto simp: solana_register_def list_ex_iff split: if_splits)
    then show ?thesis using solana_overlaps_covers refused(2,3) by blast
  qed
  show "d \<in> set (sg_deployments r) \<and> solana_covers d k n" if "deployment_for r k n = Some d"
    using that by (auto simp: deployment_for_def solana_covers_def find_Some_iff)
  show "\<not> solana_covers d k n" if "deployment_for r k n = None" "d \<in> set (sg_deployments r)"
    using that by (auto simp: deployment_for_def solana_covers_def find_None_iff)
qed

section \<open>Histories\<close>

text \<open>Any sequence of registrations and decoding attempts, with the revisions that were returned.\<close>

inductive decoder_history :: "('v \<Rightarrow> string + string) \<Rightarrow> solana_decode_revision list \<Rightarrow> solana_registry \<Rightarrow> bool" for json where
  history_start: "decoder_history json [] solana_registry_new"
| history_register: "decoder_history json h r \<Longrightarrow> solana_deployment_new program version lo hi = Inr d \<Longrightarrow>
    decoder_history json h (snd (solana_register d r))"
| history_decoded: "decoder_history json h r \<Longrightarrow> solana_decode json program n identity raw native at decoder r = (Inr rv, r') \<Longrightarrow>
    decoder_history json (h @ [rv]) r'"
| history_failed: "decoder_history json h r \<Longrightarrow> solana_decode json program n identity raw native at decoder r = (Inl e, r') \<Longrightarrow>
    decoder_history json h r'"

lemma solana_decode_failure: "solana_decode json program n identity raw native at decoder r = (Inl e, r') \<Longrightarrow> r' = r"
  by (auto simp: solana_decode_def split: if_splits option.splits sum.splits prod.splits)

lemma solana_decode_success:
  assumes "solana_decode json program n identity raw native at decoder r = (Inr rv, r')"
  shows "sg_deployments r' = sg_deployments r" "sg_revision r' = sdr_revision rv" "unat (sdr_revision rv) = unat (sg_revision r) + 1"
    "sdr_program_id rv = program" "sdr_slot rv = n" "sdr_raw_data rv = raw" "sdr_native_fact_id rv = native"
    "run_decoder json decoder raw (deployment_for r program n) =
       Inr (sdr_decoder_version rv, sdr_status rv, sdr_decoded_json rv, sdr_error rv)"
  using assms by (auto simp: solana_decode_def checked_add_Some_iff unat_word_ariths split: if_splits option.splits sum.splits prod.splits)

lemma run_decoder_cases:
  assumes "run_decoder json decoder raw selected = Inr (version, status, text, error)"
  shows "case selected of
      None \<Rightarrow> status = SolanaUnknown \<and> version = None \<and> text = None \<and> error = None
    | Some d \<Rightarrow> version = Some (sd_decoder_version d) \<and>
        (status = SolanaDecoded \<and> error = None \<and> (\<exists>v t. decoder raw = Inr v \<and> json v = Inr t \<and> text = Some t \<and> length t \<le> 1048576) \<or>
         status = SolanaFailed \<and> text = None \<and> (\<exists>m t. decoder raw = Inl m \<and> error = Some t \<and> length t \<le> 1024))"
  using assms length_truncate_at [of 1024]
  by (auto simp: run_decoder_def rust_result MAX_DECODED_JSON_BYTES_def MAX_DECODER_ERROR_BYTES_def split: option.splits sum.splits if_splits)

lemma decoder_history_inv:
  "decoder_history json h r \<Longrightarrow> solana_decoders.disjoint_deployments r \<and> (\<forall>d \<in> set (sg_deployments r). solana_deployment_valid d) \<and>
     unat (sg_revision r) = length h \<and> map (unat \<circ> sdr_revision) h = [1 ..< length h + 1]"
proof (induction rule: decoder_history.induct)
  case history_start
  show ?case by (simp add: solana_registry_new_def solana_decoders.disjoint_deployments_def)
next
  case (history_register h r program version lo hi d)
  have "solana_deployment_valid d"
    using history_register.hyps(2) by (auto simp: solana_deployment_new_def solana_deployment_valid_def split: if_splits)
  moreover obtain res r1 where r1: "solana_register d r = (res, r1)" by fastforce
  moreover have "sg_revision r1 = sg_revision r" using r1 by (auto simp: solana_register_def split: if_splits)
  ultimately show ?case
    using history_register.IH solana_decoders.register_keeps_disjoint [of r d r1] solana_decoders.register_accepts [of d r r1]
      solana_decoders.register_refuses [of d r _ r1]
    by (cases res) auto
next
  case (history_decoded h r program n identity raw native at decoder rv r')
  note ok = solana_decode_success [OF history_decoded.hyps(2)]
  then show ?case using history_decoded.IH by (simp add: solana_decoders.disjoint_deployments_def)
next
  case (history_failed h r program n identity raw native at decoder e r')
  then show ?case using solana_decode_failure by blast
qed

text \<open>Decoding is total, append-only and attributed. After any sequence of registrations and decoding attempts the returned
  revisions are numbered consecutively from 1; the deployment selected for a program and a slot is the only registered one that
  covers them; and a further attempt either fails and leaves the registry as it is, or returns the next revision with the
  instruction bytes as they were given: unknown, without calling the decoder, exactly when no registered deployment covers the
  slot, and otherwise with the version of the covering deployment and either the bounded JSON of the decoder or its bounded
  error.\<close>

theorem solana_decoding_is_attributed:
  assumes "decoder_history json h r"
  shows "map (unat \<circ> sdr_revision) h = [1 ..< length h + 1] \<and>
    (deployment_for r program n = Some d \<longleftrightarrow> d \<in> set (sg_deployments r) \<and> solana_covers d program n) \<and>
    (case solana_decode json program n identity raw native at decoder r of
       (Inl e, r') \<Rightarrow> r' = r
     | (Inr rv, r') \<Rightarrow> sg_deployments r' = sg_deployments r \<and> unat (sdr_revision rv) = length h + 1 \<and>
         sdr_raw_data rv = raw \<and> sdr_native_fact_id rv = native \<and>
         (sdr_status rv = SolanaUnknown \<longleftrightarrow> (\<forall>d \<in> set (sg_deployments r). \<not> solana_covers d program n)) \<and>
         (sdr_status rv = SolanaUnknown \<longrightarrow> (\<forall>decoder'. solana_decode json program n identity raw native at decoder' r = (Inr rv, r'))) \<and>
         (\<forall>d \<in> set (sg_deployments r). solana_covers d program n \<longrightarrow> sdr_decoder_version rv = Some (sd_decoder_version d) \<and>
           (case decoder raw of
              Inr v \<Rightarrow> sdr_status rv = SolanaDecoded \<and> (\<exists>t. json v = Inr t \<and> sdr_decoded_json rv = Some t \<and> length t \<le> 1048576)
            | Inl m \<Rightarrow> sdr_status rv = SolanaFailed \<and> sdr_decoded_json rv = None \<and> (\<exists>t. sdr_error rv = Some t \<and> length t \<le> 1024))))"
proof -
  note inv = decoder_history_inv [OF assms]
  have unique: "deployment_for r program n = Some d \<longleftrightarrow> d \<in> set (sg_deployments r) \<and> solana_covers d program n" for d
    using inv solana_decoders.resolve_unique by blast
  obtain res r' where res: "solana_decode json program n identity raw native at decoder r = (res, r')" by fastforce
  show ?thesis
  proof (cases res)
    case (Inl e)
    then show ?thesis using inv unique res solana_decode_failure by fastforce
  next
    case (Inr rv)
    note ok = solana_decode_success [OF res [unfolded Inr]]
    note outcome = run_decoder_cases [OF ok(8)]
    have unknown: "sdr_status rv = SolanaUnknown \<longleftrightarrow> deployment_for r program n = None" using outcome by (auto split: option.splits)
    have none: "deployment_for r program n = None \<longleftrightarrow> (\<forall>d \<in> set (sg_deployments r). \<not> solana_covers d program n)"
      using unique by (metis not_Some_eq solana_decoders.resolve_none)
    have same: "solana_decode json program n identity raw native at decoder' r = (Inr rv, r')" if "sdr_status rv = SolanaUnknown" for decoder'
    proof -
      have "run_decoder json decoder' raw (deployment_for r program n) = run_decoder json decoder raw (deployment_for r program n)"
        using that unknown by (simp add: run_decoder_def)
      then have "solana_decode json program n identity raw native at decoder' r = solana_decode json program n identity raw native at decoder r"
        by (simp only: solana_decode_def)
      then show ?thesis by (simp only: res Inr)
    qed
    have covered: "sdr_decoder_version rv = Some (sd_decoder_version d) \<and>
        (case decoder raw of
           Inr v \<Rightarrow> sdr_status rv = SolanaDecoded \<and> (\<exists>t. json v = Inr t \<and> sdr_decoded_json rv = Some t \<and> length t \<le> 1048576)
         | Inl m \<Rightarrow> sdr_status rv = SolanaFailed \<and> sdr_decoded_json rv = None \<and> (\<exists>t. sdr_error rv = Some t \<and> length t \<le> 1024))"
      if "d \<in> set (sg_deployments r)" "solana_covers d program n" for d
    proof -
      have "deployment_for r program n = Some d" using that unique by blast
      then show ?thesis using outcome by (auto split: sum.splits)
    qed
    show ?thesis using inv unique unknown none same covered ok(1,3,6,7) by (simp add: res Inr)
  qed
qed

definition sample_solana_deployment :: solana_deployment where
  "sample_solana_deployment = \<lparr>sd_program_id = 9, sd_decoder_version = ''v1'', sd_valid_from_slot = 5, sd_valid_to_slot = None\<rparr>"

definition sample_solana_registry :: solana_registry where
  "sample_solana_registry = \<lparr>sg_deployments = [sample_solana_deployment], sg_revision = 0\<rparr>"

lemma sample_decoder_history: "decoder_history Inr [] sample_solana_registry"
proof -
  have new: "solana_deployment_new 9 ''v1'' 5 None = Inr sample_solana_deployment"
    by (simp add: solana_deployment_new_def sample_solana_deployment_def str_blank.simps ws_len_def byte_of_def str_is_ascii_def valid_range_def)
  have "snd (solana_register sample_solana_deployment solana_registry_new) = sample_solana_registry"
    by (simp add: solana_register_def solana_registry_new_def sample_solana_registry_def)
  then show ?thesis using history_register [OF history_start new, of Inr] by simp
qed

theorem solana_decoding_is_attributed_witness:
  "case solana_decode Inr 9 7 ''0.1'' [1] 1 0 (\<lambda>_. Inr ''{}'') sample_solana_registry of
     (Inl e, r') \<Rightarrow> False
   | (Inr rv, r') \<Rightarrow> unat (sdr_revision rv) = 1 \<and> sdr_decoder_version rv = Some ''v1'' \<and> sdr_status rv = SolanaDecoded"
proof -
  have cov: "solana_covers sample_solana_deployment 9 7"
    by (simp add: solana_covers_def solana_deployment_covers_def sample_solana_deployment_def in_range_def)
  have "\<exists>rv r'. solana_decode Inr 9 7 ''0.1'' [1] 1 0 (\<lambda>_. Inr ''{}'') sample_solana_registry = (Inr rv, r')"
    by (simp add: solana_decode_def str_blank.simps ws_len_def byte_of_def str_is_ascii_def MAX_INSTRUCTION_IDENTITY_BYTES_def
        MAX_RAW_DATA_BYTES_def sample_solana_registry_def sample_solana_deployment_def run_decoder_def deployment_for_def
        solana_deployment_covers_def in_range_def MAX_DECODED_JSON_BYTES_def checked_add_def)
  then obtain rv r' where run: "solana_decode Inr 9 7 ''0.1'' [1] 1 0 (\<lambda>_. Inr ''{}'') sample_solana_registry = (Inr rv, r')" by blast
  have mem: "sample_solana_deployment \<in> set (sg_deployments sample_solana_registry)" by (simp add: sample_solana_registry_def)
  have "unat (sdr_revision rv) = 1 \<and> sdr_decoder_version rv = Some (sd_decoder_version sample_solana_deployment) \<and> sdr_status rv = SolanaDecoded"
    using solana_decoding_is_attributed [OF sample_decoder_history, where program = 9 and n = 7 and identity = "''0.1''" and raw = "[1]" and
        native = 1 and at = 0 and decoder = "\<lambda>_. Inr ''{}''", unfolded run] cov mem by simp
  then show ?thesis unfolding run by (simp add: sample_solana_deployment_def)
qed

end
