(* ===== verification/Fact_Store.thy ===== *)
theory Fact_Store
  imports Fact_Envelope Io_Calls Bitcoin_Facts Evm_Facts Solana_Facts Solana_Decoder
begin

text \<open>
  The ClickHouse fact store (\<open>processors/native-normalizer/src/lib.rs\<close>) and the consumer loop of the normaliser (\<open>main.rs\<close>).
  A request is one call that may fail with or without effect, and a failed insert has all of its rows stored or none. The tables
  are append-only lists; the table of fixture facts replaces rows with the same sorting key (\<open>schemas/clickhouse/001_core.sql\<close>)
  whenever the server merges.
\<close>

section \<open>Tables\<close>

record stored_fact_row =
  sf_fact_id :: string
  sf_fact_key :: string
  sf_revision :: u64
  sf_fixture_id :: string
  sf_value :: string
  sf_source_sequence :: u64
  sf_chain :: string
  sf_network :: string
  sf_canonicality :: string
  sf_parser_version :: string
  sf_source_id :: string
  sf_source_session_id :: string
  sf_observation_id :: string
  sf_valid_from_unix_ns :: i64
  sf_recorded_at_unix_ns :: i64

definition stored_row_of :: "fixture_fact \<Rightarrow> stored_fact_row" where
  "stored_row_of f =
     \<lparr>sf_fact_id = ff_fact_id_hex f, sf_fact_key = ff_fact_key_hex f, sf_revision = fa_revision (ff_envelope f),
      sf_fixture_id = fp_fixture_id (ff_payload f), sf_value = fp_value (ff_payload f),
      sf_source_sequence = fp_source_sequence (ff_payload f), sf_chain = fa_chain (ff_envelope f), sf_network = fa_network (ff_envelope f),
      sf_canonicality = fa_canonicality (ff_envelope f), sf_parser_version = fa_parser_version (ff_envelope f),
      sf_source_id = ff_source_id f, sf_source_session_id = encode_hex (ff_source_session_id f),
      sf_observation_id = ff_observation_id_hex f, sf_valid_from_unix_ns = fa_valid_from_unix_ns (ff_envelope f),
      sf_recorded_at_unix_ns = fa_recorded_at_unix_ns (ff_envelope f)\<rparr>"

definition view_of_row :: "stored_fact_row \<Rightarrow> fixture_fact_view" where
  "view_of_row r =
     \<lparr>fv_fact_id = sf_fact_id r, fv_fact_key = sf_fact_key r, fv_revision = sf_revision r, fv_fixture_id = sf_fixture_id r,
      fv_value = sf_value r, fv_source_sequence = sf_source_sequence r, fv_chain = sf_chain r, fv_network = sf_network r,
      fv_canonicality = sf_canonicality r, fv_parser_version = sf_parser_version r, fv_source_id = sf_source_id r,
      fv_lineage = \<lparr>fl_observation_id = sf_observation_id r, fl_source_session_id = sf_source_session_id r\<rparr>\<rparr>"

record clickhouse =
  ch_fixture_facts :: "stored_fact_row list"
  ch_bitcoin :: bitcoin_fact_batch
  ch_evm :: evm_fact_batch
  ch_solana :: solana_fact_batch
  ch_decoder_revisions :: "decode_revision_row list"
  ch_io :: "io_answer list"

section \<open>Inserts\<close>

definition request_insert :: "(clickhouse \<Rightarrow> clickhouse) \<Rightarrow> (clickhouse, normalizer_error, unit) io" where
  "request_insert write s =
     (case ch_io s of
        IoFail message applied # as \<Rightarrow> (Inl (ClickHouseFailure message), (if applied then write s else s)\<lparr>ch_io := as\<rparr>)
      | as \<Rightarrow> (Inr (), (write s)\<lparr>ch_io := tl as\<rparr>))"

definition insert_json_rows :: "('r list \<Rightarrow> clickhouse \<Rightarrow> clickhouse) \<Rightarrow> 'r list \<Rightarrow> (clickhouse, normalizer_error, unit) io" where
  "insert_json_rows table rows = (if rows = [] then io_return () else request_insert (table rows))"

definition into_fixture_facts :: "stored_fact_row list \<Rightarrow> clickhouse \<Rightarrow> clickhouse" where
  "into_fixture_facts rows s = s\<lparr>ch_fixture_facts := ch_fixture_facts s @ rows\<rparr>"

definition insert_fact :: "fixture_fact \<Rightarrow> (clickhouse, normalizer_error, unit) io" where
  "insert_fact f = request_insert (into_fixture_facts [stored_row_of f])"

definition into_bitcoin :: "(bitcoin_fact_batch \<Rightarrow> bitcoin_fact_batch) \<Rightarrow> clickhouse \<Rightarrow> clickhouse" where
  "into_bitcoin f s = s\<lparr>ch_bitcoin := f (ch_bitcoin s)\<rparr>"

definition insert_bitcoin_batch :: "bitcoin_fact_batch \<Rightarrow> (clickhouse, normalizer_error, unit) io" where
  "insert_bitcoin_batch batch =
     io_bind (insert_json_rows (\<lambda>rows. into_bitcoin (\<lambda>t. t\<lparr>bfb_blocks := bfb_blocks t @ rows\<rparr>)) (bfb_blocks batch)) (\<lambda>_.
     io_bind (insert_json_rows (\<lambda>rows. into_bitcoin (\<lambda>t. t\<lparr>bfb_transactions := bfb_transactions t @ rows\<rparr>)) (bfb_transactions batch)) (\<lambda>_.
     io_bind (insert_json_rows (\<lambda>rows. into_bitcoin (\<lambda>t. t\<lparr>bfb_inputs := bfb_inputs t @ rows\<rparr>)) (bfb_inputs batch)) (\<lambda>_.
     insert_json_rows (\<lambda>rows. into_bitcoin (\<lambda>t. t\<lparr>bfb_outputs := bfb_outputs t @ rows\<rparr>)) (bfb_outputs batch))))"

definition into_evm :: "(evm_fact_batch \<Rightarrow> evm_fact_batch) \<Rightarrow> clickhouse \<Rightarrow> clickhouse" where
  "into_evm f s = s\<lparr>ch_evm := f (ch_evm s)\<rparr>"

definition insert_evm_batch :: "evm_fact_batch \<Rightarrow> (clickhouse, normalizer_error, unit) io" where
  "insert_evm_batch batch =
     io_bind (insert_json_rows (\<lambda>rows. into_evm (\<lambda>t. t\<lparr>efb_blocks := efb_blocks t @ rows\<rparr>)) (efb_blocks batch)) (\<lambda>_.
     io_bind (insert_json_rows (\<lambda>rows. into_evm (\<lambda>t. t\<lparr>efb_transactions := efb_transactions t @ rows\<rparr>)) (efb_transactions batch)) (\<lambda>_.
     io_bind (insert_json_rows (\<lambda>rows. into_evm (\<lambda>t. t\<lparr>efb_receipts := efb_receipts t @ rows\<rparr>)) (efb_receipts batch)) (\<lambda>_.
     insert_json_rows (\<lambda>rows. into_evm (\<lambda>t. t\<lparr>efb_logs := efb_logs t @ rows\<rparr>)) (efb_logs batch))))"

definition into_solana :: "(solana_fact_batch \<Rightarrow> solana_fact_batch) \<Rightarrow> clickhouse \<Rightarrow> clickhouse" where
  "into_solana f s = s\<lparr>ch_solana := f (ch_solana s)\<rparr>"

definition insert_solana_batch :: "solana_fact_batch \<Rightarrow> (clickhouse, normalizer_error, unit) io" where
  "insert_solana_batch batch =
     io_bind (insert_json_rows (\<lambda>rows. into_solana (\<lambda>t. t\<lparr>sfb_transactions := sfb_transactions t @ rows\<rparr>)) (sfb_transactions batch)) (\<lambda>_.
     io_bind (insert_json_rows (\<lambda>rows. into_solana (\<lambda>t. t\<lparr>sfb_instructions := sfb_instructions t @ rows\<rparr>)) (sfb_instructions batch)) (\<lambda>_.
     io_bind (insert_json_rows (\<lambda>rows. into_solana (\<lambda>t. t\<lparr>sfb_logs := sfb_logs t @ rows\<rparr>)) (sfb_logs batch)) (\<lambda>_.
     io_bind (insert_json_rows (\<lambda>rows. into_solana (\<lambda>t. t\<lparr>sfb_balance_changes := sfb_balance_changes t @ rows\<rparr>)) (sfb_balance_changes batch)) (\<lambda>_.
     io_bind (insert_json_rows (\<lambda>rows. into_solana (\<lambda>t. t\<lparr>sfb_token_balance_changes := sfb_token_balance_changes t @ rows\<rparr>))
       (sfb_token_balance_changes batch)) (\<lambda>_.
     insert_json_rows (\<lambda>rows. into_solana (\<lambda>t. t\<lparr>sfb_account_writes := sfb_account_writes t @ rows\<rparr>)) (sfb_account_writes batch))))))"

definition insert_solana_decoder_revision :: "decode_revision_row \<Rightarrow> (clickhouse, normalizer_error, unit) io" where
  "insert_solana_decoder_revision row =
     insert_json_rows (\<lambda>rows s. s\<lparr>ch_decoder_revisions := ch_decoder_revisions s @ rows\<rparr>) [row]"

definition clear_fixture :: "string \<Rightarrow> (clickhouse, normalizer_error, unit) io" where
  "clear_fixture fixture_id =
     request_insert (\<lambda>s. s\<lparr>ch_fixture_facts := filter (\<lambda>r. sf_fixture_id r \<noteq> fixture_id) (ch_fixture_facts s)\<rparr>)"

section \<open>Queries\<close>

text \<open>A query orders its rows by revision only; \<open>server_order\<close> stands for the order the server gives them otherwise.\<close>

definition request_rows :: "(stored_fact_row list \<Rightarrow> 'a) \<Rightarrow> (clickhouse, normalizer_error, 'a) io" where
  "request_rows select s =
     (case ch_io s of
        IoFail message applied # as \<Rightarrow> (Inl (ClickHouseFailure message), s\<lparr>ch_io := as\<rparr>)
      | as \<Rightarrow> (Inr (select (ch_fixture_facts s)), s\<lparr>ch_io := tl as\<rparr>))"

definition logical_count :: "string \<Rightarrow> (clickhouse, normalizer_error, nat) io" where
  "logical_count fixture_id =
     request_rows (\<lambda>rows. card (set (map sf_fact_id (filter (\<lambda>r. sf_fixture_id r = fixture_id) rows))))"

definition newest_first :: "(stored_fact_row list \<Rightarrow> stored_fact_row list) \<Rightarrow> stored_fact_row list \<Rightarrow> stored_fact_row list" where
  "newest_first server_order rows = rev (sort_key sf_revision (rev (server_order rows)))"

definition query_one ::
  "(stored_fact_row list \<Rightarrow> stored_fact_row list) \<Rightarrow> (stored_fact_row \<Rightarrow> bool) \<Rightarrow> (clickhouse, normalizer_error, fixture_fact_view option) io" where
  "query_one server_order predicate =
     request_rows (\<lambda>rows. case newest_first server_order (filter predicate rows) of [] \<Rightarrow> None | r # _ \<Rightarrow> Some (view_of_row r))"

definition fixture_query ::
  "(stored_fact_row list \<Rightarrow> stored_fact_row list) \<Rightarrow> string \<Rightarrow> (clickhouse, normalizer_error, fixture_fact_view option) io" where
  "fixture_query server_order fixture_id = query_one server_order (\<lambda>r. sf_fixture_id r = fixture_id)"

definition fact_query ::
  "(stored_fact_row list \<Rightarrow> stored_fact_row list) \<Rightarrow> string \<Rightarrow> (clickhouse, normalizer_error, fixture_fact_view option) io" where
  "fact_query server_order fact_id = query_one server_order (\<lambda>r. sf_fact_id r = fact_id)"

text \<open>One row per fixture, \<open>LIMIT 1 BY\<close>, fixtures in the order of their identifiers' bytes.\<close>

definition current_facts ::
  "(stored_fact_row list \<Rightarrow> stored_fact_row list) \<Rightarrow> (clickhouse, normalizer_error, fixture_fact_view list) io" where
  "current_facts server_order =
     request_rows (\<lambda>rows. map (\<lambda>f. view_of_row (hd (newest_first server_order (filter (\<lambda>r. sf_fixture_id r = f) rows))))
       (sort_key (\<lambda>f. map byte_of f) (remdups (map sf_fixture_id rows))))"

section \<open>The consumer loop\<close>

text \<open>What ends the process, and what one received record does; the result tells whether the offset of the record was handed to
  the asynchronous commit.\<close>

datatype normalizer_exit = ExitDecode string | ExitNormalizer normalizer_error | ExitBroker string

definition on_store :: "(clickhouse, normalizer_error, 'a) io \<Rightarrow> (clickhouse, normalizer_exit, 'a) io" where
  "on_store m s = (case m s of (r, s') \<Rightarrow> (map_sum ExitNormalizer id r, s'))"

definition commit_message :: "(clickhouse, normalizer_exit, unit) io" where
  "commit_message s =
     (case ch_io s of
        IoFail message applied # as \<Rightarrow> (Inl (ExitBroker message), s\<lparr>ch_io := as\<rparr>)
      | as \<Rightarrow> (Inr (), s\<lparr>ch_io := tl as\<rparr>))"

definition handle_record :: "fact_lib \<Rightarrow> bytes option \<Rightarrow> (clickhouse, normalizer_exit, bool) io" where
  "handle_record X payload =
     (case payload of
        None \<Rightarrow> io_return False
      | Some p \<Rightarrow>
          io_bind (io_result (map_sum ExitDecode id (lib_committed_decode X p))) (\<lambda>committed.
          io_bind (io_result (map_sum ExitNormalizer id (normalize_fixture X committed))) (\<lambda>f.
          io_bind (on_store (insert_fact f)) (\<lambda>_.
          io_bind commit_message (\<lambda>_. io_return True)))))"

text \<open>The process with its position in one partition of the topic, the offset the broker has for its group and the offsets
  whose commit is under way. A process that ends starts again at the committed offset.\<close>

record normalizer =
  nz_store :: clickhouse
  nz_position :: nat
  nz_committed :: nat
  nz_requested :: "nat set"

definition nz_restart :: "normalizer \<Rightarrow> normalizer" where
  "nz_restart N = N\<lparr>nz_position := nz_committed N, nz_requested := {}\<rparr>"

definition receive_record :: "fact_lib \<Rightarrow> bytes option list \<Rightarrow> io_answer list \<Rightarrow> normalizer \<Rightarrow> normalizer" where
  "receive_record X topic answers N =
     (case handle_record X (topic ! nz_position N) ((nz_store N)\<lparr>ch_io := answers\<rparr>) of
        (Inr handed, s) \<Rightarrow> N\<lparr>nz_store := s, nz_position := nz_position N + 1,
          nz_requested := (if handed then insert (nz_position N + 1) (nz_requested N) else nz_requested N)\<rparr>
      | (Inl e, s) \<Rightarrow> nz_restart (N\<lparr>nz_store := s\<rparr>))"

text \<open>What the server may drop when it merges: a row beside another one of the same key and at least its revision.\<close>

definition same_fact :: "stored_fact_row \<Rightarrow> stored_fact_row \<Rightarrow> bool" where
  "same_fact r r' \<longleftrightarrow> sf_fixture_id r = sf_fixture_id r' \<and> sf_fact_id r = sf_fact_id r'"

inductive normalizer_step :: "fact_lib \<Rightarrow> bytes option list \<Rightarrow> normalizer \<Rightarrow> normalizer \<Rightarrow> bool" for X topic where
  receive: "nz_position N < length topic \<Longrightarrow> normalizer_step X topic N (receive_record X topic answers N)"
| crash: "normalizer_step X topic N (nz_restart N)"
| commit_lands: "k \<in> nz_requested N \<Longrightarrow> normalizer_step X topic N (N\<lparr>nz_committed := k\<rparr>)"
| merge: "ch_fixture_facts (nz_store N) = as @ r # bs \<Longrightarrow> r' \<in> set (as @ bs) \<Longrightarrow> same_fact r r' \<Longrightarrow> sf_revision r \<le> sf_revision r' \<Longrightarrow>
    normalizer_step X topic N (N\<lparr>nz_store := (nz_store N)\<lparr>ch_fixture_facts := as @ bs\<rparr>\<rparr>)"

definition nz_start :: "clickhouse \<Rightarrow> normalizer" where
  "nz_start s = \<lparr>nz_store = s, nz_position = 0, nz_committed = 0, nz_requested = {}\<rparr>"

section \<open>At least once\<close>

text \<open>The fact of a record, when it has a payload that is a committed fixture observation.\<close>

definition fact_of :: "fact_lib \<Rightarrow> bytes option \<Rightarrow> fixture_fact option" where
  "fact_of X payload =
     (case payload of
        None \<Rightarrow> None
      | Some p \<Rightarrow> (case lib_committed_decode X p of Inl _ \<Rightarrow> None | Inr c \<Rightarrow> case normalize_fixture X c of Inl _ \<Rightarrow> None | Inr f \<Rightarrow> Some f))"

definition stored :: "stored_fact_row list \<Rightarrow> fixture_fact \<Rightarrow> bool" where
  "stored rows f \<longleftrightarrow> (\<exists>r \<in> set rows. same_fact (stored_row_of f) r)"

lemma handle_record_store:
  "handle_record X payload s = (r, s') \<Longrightarrow>
     ch_fixture_facts s' = ch_fixture_facts s \<or> (\<exists>f. fact_of X payload = Some f \<and> ch_fixture_facts s' = ch_fixture_facts s @ [stored_row_of f])"
  by (auto simp: handle_record_def fact_of_def io_bind_def on_store_def insert_fact_def request_insert_def into_fixture_facts_def
      commit_message_def split: option.splits sum.splits prod.splits list.splits io_answer.splits if_splits)

lemma handle_record_handled:
  "handle_record X payload s = (Inr handed, s') \<Longrightarrow>
     (payload = None \<or> fact_of X payload \<noteq> None) \<and> (handed \<longleftrightarrow> payload \<noteq> None) \<and>
     (\<forall>f. fact_of X payload = Some f \<longrightarrow> ch_fixture_facts s' = ch_fixture_facts s @ [stored_row_of f])"
  by (auto simp: handle_record_def fact_of_def io_bind_def on_store_def insert_fact_def request_insert_def into_fixture_facts_def
      commit_message_def split: option.splits sum.splits prod.splits list.splits io_answer.splits if_splits)

text \<open>The records before an offset that the loop can pass, with their facts stored.\<close>

definition passable :: "fact_lib \<Rightarrow> bytes option list \<Rightarrow> nat \<Rightarrow> bool" where
  "passable X topic k \<longleftrightarrow> k \<le> length topic \<and> (\<forall>i < k. topic ! i = None \<or> fact_of X (topic ! i) \<noteq> None)"

definition covered :: "fact_lib \<Rightarrow> bytes option list \<Rightarrow> stored_fact_row list \<Rightarrow> nat \<Rightarrow> bool" where
  "covered X topic rows k \<longleftrightarrow> passable X topic k \<and> (\<forall>i < k. \<forall>f. fact_of X (topic ! i) = Some f \<longrightarrow> stored rows f)"

definition derived :: "fact_lib \<Rightarrow> bytes option list \<Rightarrow> stored_fact_row \<Rightarrow> bool" where
  "derived X topic r \<longleftrightarrow> (\<exists>i f. i < length topic \<and> passable X topic i \<and> fact_of X (topic ! i) = Some f \<and> r = stored_row_of f)"

definition nz_inv :: "fact_lib \<Rightarrow> bytes option list \<Rightarrow> normalizer \<Rightarrow> bool" where
  "nz_inv X topic N \<longleftrightarrow>
     (\<forall>k \<in> insert (nz_position N) (insert (nz_committed N) (nz_requested N)). covered X topic (ch_fixture_facts (nz_store N)) k) \<and>
     (\<forall>r \<in> set (ch_fixture_facts (nz_store N)). derived X topic r)"

lemma offset_covered_mono:
  assumes "covered X topic rows k" "\<And>f. stored rows f \<Longrightarrow> stored rows' f"
  shows "covered X topic rows' k"
  using assms by (auto simp: covered_def)

lemma offset_covered_Suc:
  assumes "covered X topic rows k" "k < length topic" "topic ! k = None \<or> fact_of X (topic ! k) \<noteq> None"
    and "\<And>f. fact_of X (topic ! k) = Some f \<Longrightarrow> stored rows f"
  shows "covered X topic rows (Suc k)"
  using assms by (auto simp: covered_def passable_def less_Suc_eq)

lemma stored_append: "stored (rows @ rows') f \<longleftrightarrow> stored rows f \<or> stored rows' f"
  by (auto simp: stored_def)

lemma stored_merge:
  assumes "r' \<in> set (as @ bs)" "same_fact r r'" "stored (as @ r # bs) f"
  shows "stored (as @ bs) f"
  using assms by (auto simp: stored_def same_fact_def)

lemma receive_record_inv:
  assumes inv: "nz_inv X topic N" and pos: "nz_position N < length topic"
  shows "nz_inv X topic (receive_record X topic answers N)"
proof -
  let ?m = "topic ! nz_position N" and ?rows = "ch_fixture_facts (nz_store N)"
  obtain r s where call: "handle_record X ?m ((nz_store N)\<lparr>ch_io := answers\<rparr>) = (r, s)" by fastforce
  let ?new = "ch_fixture_facts s"
  have new: "?new = ?rows \<or> (\<exists>f. fact_of X ?m = Some f \<and> ?new = ?rows @ [stored_row_of f])"
    using handle_record_store [OF call] by simp
  have "covered X topic ?rows (nz_position N)" using inv by (simp add: nz_inv_def)
  then have at: "derived X topic (stored_row_of f)" if "fact_of X ?m = Some f" for f
    using that pos by (auto simp: derived_def covered_def)
  have kept: "covered X topic ?new k" if "covered X topic ?rows k" for k
    using that new by (elim offset_covered_mono) (auto simp: stored_append)
  have derived: "\<forall>r \<in> set ?new. derived X topic r" using inv new at by (auto simp: nz_inv_def)
  show ?thesis
  proof (cases r)
    case (Inl e)
    then show ?thesis using call inv derived kept by (auto simp: receive_record_def nz_inv_def nz_restart_def)
  next
    case (Inr handed)
    note ok = handle_record_handled [OF call [unfolded Inr]]
    have "stored ?new f" if "fact_of X ?m = Some f" for f
      using ok that by (auto simp: stored_def same_fact_def)
    then have "covered X topic ?new (Suc (nz_position N))"
      using ok kept inv pos by (intro offset_covered_Suc) (auto simp: nz_inv_def)
    then show ?thesis using call inv derived kept Inr by (auto simp: receive_record_def nz_inv_def)
  qed
qed

lemma normalizer_step_inv: "normalizer_step X topic N N' \<Longrightarrow> nz_inv X topic N \<Longrightarrow> nz_inv X topic N'"
proof (induction rule: normalizer_step.induct)
  case (merge N as r bs r')
  then have "covered X topic (as @ bs) k" if "covered X topic (as @ r # bs) k" for k
    using that by (elim offset_covered_mono) (rule stored_merge)
  then show ?case using merge by (auto simp: nz_inv_def)
next
  case (receive N answers)
  then show ?case by (intro receive_record_inv)
qed (auto simp: nz_restart_def nz_inv_def)

lemma normalizer_inv:
  assumes "(normalizer_step X topic)\<^sup>*\<^sup>* (nz_start s) N" "ch_fixture_facts s = []"
  shows "nz_inv X topic N"
  using assms(1)
proof (induction rule: rtranclp_induct)
  case base
  then show ?case using assms(2) by (simp add: nz_inv_def nz_start_def covered_def passable_def)
qed (rule normalizer_step_inv)

text \<open>The identities of the facts of a fixture among the records of a topic.\<close>

definition topic_fact_ids :: "fact_lib \<Rightarrow> bytes option list \<Rightarrow> string \<Rightarrow> string list" where
  "topic_fact_ids X topic fixture_id =
     map ff_fact_id_hex (filter (\<lambda>f. fp_fixture_id (ff_payload f) = fixture_id) (List.map_filter (fact_of X) topic))"

lemma topic_fact_ids_iff:
  "x \<in> set (topic_fact_ids X topic fixture_id) \<longleftrightarrow>
     (\<exists>i f. i < length topic \<and> fact_of X (topic ! i) = Some f \<and> fp_fixture_id (ff_payload f) = fixture_id \<and> ff_fact_id_hex f = x)"
proof -
  have "x \<in> set (topic_fact_ids X topic fixture_id) \<longleftrightarrow>
      (\<exists>m \<in> set topic. \<exists>f. fact_of X m = Some f \<and> fp_fixture_id (ff_payload f) = fixture_id \<and> ff_fact_id_hex f = x)"
    by (force simp: topic_fact_ids_def List.map_filter_def)
  also have "\<dots> \<longleftrightarrow> (\<exists>i f. i < length topic \<and> fact_of X (topic ! i) = Some f \<and> fp_fixture_id (ff_payload f) = fixture_id \<and> ff_fact_id_hex f = x)"
    unfolding Bex_def in_set_conv_nth by blast
  finally show ?thesis .
qed

lemma logical_ids:
  assumes "nz_inv X topic N" "nz_position N = length topic"
  shows "sf_fact_id ` {r \<in> set (ch_fixture_facts (nz_store N)). sf_fixture_id r = fixture_id} =
    set (topic_fact_ids X topic fixture_id)" (is "?stored = ?topic")
proof (intro equalityI subsetI)
  fix x assume "x \<in> ?stored"
  then obtain r where r: "r \<in> set (ch_fixture_facts (nz_store N))" "sf_fixture_id r = fixture_id" "x = sf_fact_id r" by blast
  then have "derived X topic r" using assms(1) by (simp add: nz_inv_def)
  then show "x \<in> ?topic" unfolding topic_fact_ids_iff derived_def using r by (auto simp: stored_row_of_def)
next
  fix x assume "x \<in> ?topic"
  then obtain i f where f: "i < length topic" "fact_of X (topic ! i) = Some f" "fp_fixture_id (ff_payload f) = fixture_id" "ff_fact_id_hex f = x"
    unfolding topic_fact_ids_iff by blast
  then have "stored (ch_fixture_facts (nz_store N)) f" using assms by (auto simp: nz_inv_def covered_def)
  then show "x \<in> ?stored" using f by (force simp: stored_def same_fact_def stored_row_of_def)
qed

text \<open>C32: The normaliser stores every fact at least once and counts it once. Whatever inserts fail with or without effect, wherever
  the process ends and restarts, whichever commits land and whenever the server merges rows: every record below the
  committed offset that carries a payload has its fact stored; every stored row is the fact of a record of the topic; and once
  the position reaches the end of the topic, the logical count of a fixture is the number of different facts of that fixture in the
  topic, however often they were inserted.\<close>

theorem normalizer_stores_at_least_once:
  assumes "(normalizer_step X topic)\<^sup>*\<^sup>* (nz_start s) N" "ch_fixture_facts s = []"
  shows "(\<forall>i < nz_committed N. \<forall>p. topic ! i = Some p \<longrightarrow>
      (\<exists>f. fact_of X (topic ! i) = Some f \<and> stored (ch_fixture_facts (nz_store N)) f)) \<and>
    (\<forall>r \<in> set (ch_fixture_facts (nz_store N)). \<exists>i f. i < length topic \<and> fact_of X (topic ! i) = Some f \<and> r = stored_row_of f) \<and>
    (nz_position N = length topic \<longrightarrow>
      fst (logical_count fixture_id ((nz_store N)\<lparr>ch_io := []\<rparr>)) = Inr (card (set (topic_fact_ids X topic fixture_id))))"
proof (intro conjI)
  have inv: "nz_inv X topic N" using assms by (rule normalizer_inv)
  then show "\<forall>i < nz_committed N. \<forall>p. topic ! i = Some p \<longrightarrow>
      (\<exists>f. fact_of X (topic ! i) = Some f \<and> stored (ch_fixture_facts (nz_store N)) f)"
    by (fastforce simp: nz_inv_def covered_def passable_def)
  show "\<forall>r \<in> set (ch_fixture_facts (nz_store N)). \<exists>i f. i < length topic \<and> fact_of X (topic ! i) = Some f \<and> r = stored_row_of f"
    using inv unfolding nz_inv_def derived_def by blast
  show "nz_position N = length topic \<longrightarrow>
      fst (logical_count fixture_id ((nz_store N)\<lparr>ch_io := []\<rparr>)) = Inr (card (set (topic_fact_ids X topic fixture_id)))"
    using logical_ids [OF inv, of fixture_id] by (simp add: logical_count_def request_rows_def)
qed

text \<open>C33: A record that is no fixture stops the normaliser. When a record carries a payload that does not decode to a committed
  fixture observation, no run of the process, with any number of restarts, gets past it: position and committed offset stay
  at or before it, and every stored row is the fact of an earlier record.\<close>

theorem foreign_record_stops_normalizer:
  assumes "(normalizer_step X topic)\<^sup>*\<^sup>* (nz_start s) N" "ch_fixture_facts s = []"
    and "k < length topic" "topic ! k = Some p" "fact_of X (Some p) = None"
  shows "nz_position N \<le> k \<and> nz_committed N \<le> k \<and>
    (\<forall>r \<in> set (ch_fixture_facts (nz_store N)). \<exists>i f. i < k \<and> fact_of X (topic ! i) = Some f \<and> r = stored_row_of f)"
proof -
  have inv: "nz_inv X topic N" using assms(1,2) by (rule normalizer_inv)
  have stuck: "i \<le> k" if "passable X topic i" for i
    using that assms(3-5) by (auto simp: passable_def not_less [symmetric])
  have "nz_position N \<le> k" "nz_committed N \<le> k" using inv stuck by (auto simp: nz_inv_def covered_def)
  moreover have "\<exists>i f. i < k \<and> fact_of X (topic ! i) = Some f \<and> r = stored_row_of f" if r: "r \<in> set (ch_fixture_facts (nz_store N))" for r
  proof -
    obtain i f where i: "passable X topic i" "fact_of X (topic ! i) = Some f" "r = stored_row_of f"
      using inv r unfolding nz_inv_def derived_def by blast
    then have "i \<noteq> k" using assms(4,5) by auto
    then show ?thesis using i stuck [OF i(1)] by (auto simp: order.order_iff_strict)
  qed
  ultimately show ?thesis by blast
qed

section \<open>Examples\<close>

definition sample_committed :: committed_observation where
  "sample_committed = \<lparr>co_observation = Some \<lparr>ob_schema_version = 1, ob_observation_id = replicate 32 1, ob_source_id = ''s'',
     ob_source_session_id = replicate 16 2, ob_collector_sequence = 0, ob_chain = ''c'', ob_network = ''n'', ob_channel = ''h'',
     ob_source_message_type = ''t'', ob_source_sequence = Some 5, ob_source_cursor = None, ob_observed_at_unix_ns = 1,
     ob_observed_at_monotonic_ns = 1, ob_source_time_unix_ns = None, ob_payload_hash = [], ob_payload = [], ob_attributes = fmempty,
     ob_quality_flags = []\<rparr>, co_durable_at_unix_ns = 2, co_wal_commit_hash = []\<rparr>"

definition sample_payload :: fixture_payload where
  "sample_payload = \<lparr>fp_fixture_id = ''f'', fp_value = ''v'', fp_source_sequence = 5\<rparr>"

definition sample_fact_lib :: fact_lib where
  "sample_fact_lib = \<lparr>lib_blake3 = (\<lambda>_. 0), lib_committed_decode = (\<lambda>p. if p = [1] then Inr sample_committed else Inl ''tag''),
     lib_payload_parse = (\<lambda>_. Inr sample_payload), lib_payload_json = (\<lambda>_. Inr [])\<rparr>"

definition sample_clickhouse :: clickhouse where
  "sample_clickhouse = \<lparr>ch_fixture_facts = [],
     ch_bitcoin = \<lparr>bfb_blocks = [], bfb_transactions = [], bfb_inputs = [], bfb_outputs = []\<rparr>,
     ch_evm = \<lparr>efb_blocks = [], efb_transactions = [], efb_receipts = [], efb_logs = []\<rparr>,
     ch_solana = \<lparr>sfb_transactions = [], sfb_instructions = [], sfb_logs = [], sfb_balance_changes = [], sfb_token_balance_changes = [],
       sfb_account_writes = []\<rparr>,
     ch_decoder_revisions = [], ch_io = []\<rparr>"

text \<open>The first insert takes effect and is reported as failed; the process restarts and inserts the same fact again.\<close>

definition sample_run :: "bytes option list \<Rightarrow> normalizer" where
  "sample_run topic = receive_record sample_fact_lib topic []
     (receive_record sample_fact_lib topic [IoFail ''timeout'' True] (nz_start sample_clickhouse))"

lemma sample_normalizes: "\<exists>f. normalize_fixture sample_fact_lib sample_committed = Inr f \<and> fp_fixture_id (ff_payload f) = ''f''"
  by (simp add: normalize_fixture_def build_fact_def identity_bytes_def sample_fact_lib_def sample_committed_def sample_payload_def Let_def)

lemma sample_position:
  assumes "topic ! 0 = Some [1]"
  shows "nz_position (receive_record sample_fact_lib topic [IoFail ''timeout'' True] (nz_start sample_clickhouse)) = 0"
    "nz_position (sample_run topic) = 1" "length (ch_fixture_facts (nz_store (sample_run topic))) = 2"
proof -
  obtain f where "normalize_fixture sample_fact_lib sample_committed = Inr f" using sample_normalizes by blast
  moreover have "lib_committed_decode sample_fact_lib [1] = Inr sample_committed" by (simp add: sample_fact_lib_def)
  ultimately show "nz_position (receive_record sample_fact_lib topic [IoFail ''timeout'' True] (nz_start sample_clickhouse)) = 0"
    "nz_position (sample_run topic) = 1" "length (ch_fixture_facts (nz_store (sample_run topic))) = 2"
    using assms by (simp_all add: sample_run_def receive_record_def handle_record_def nz_start_def nz_restart_def io_bind_def on_store_def
        insert_fact_def request_insert_def into_fixture_facts_def commit_message_def sample_clickhouse_def)
qed

lemma sample_reachable:
  assumes "topic ! 0 = Some [1]" "topic \<noteq> []"
  shows "(normalizer_step sample_fact_lib topic)\<^sup>*\<^sup>* (nz_start sample_clickhouse) (sample_run topic)"
proof -
  let ?N = "receive_record sample_fact_lib topic [IoFail ''timeout'' True] (nz_start sample_clickhouse)"
  have "normalizer_step sample_fact_lib topic (nz_start sample_clickhouse) ?N"
    using assms(2) by (intro normalizer_step.receive) (simp add: nz_start_def)
  moreover have "normalizer_step sample_fact_lib topic ?N (sample_run topic)"
    unfolding sample_run_def using assms(2) sample_position(1) [OF assms(1)] by (intro normalizer_step.receive) simp
  ultimately show ?thesis by (meson rtranclp.rtrancl_into_rtrancl rtranclp.rtrancl_refl)
qed

theorem normalizer_stores_at_least_once_witness:
  "length (ch_fixture_facts (nz_store (sample_run [Some [1]]))) = 2 \<and>
   fst (logical_count ''f'' ((nz_store (sample_run [Some [1]]))\<lparr>ch_io := []\<rparr>)) = Inr 1"
proof -
  obtain f where f: "normalize_fixture sample_fact_lib sample_committed = Inr f" "fp_fixture_id (ff_payload f) = ''f''"
    using sample_normalizes by blast
  have "lib_committed_decode sample_fact_lib [1] = Inr sample_committed" by (simp add: sample_fact_lib_def)
  then have "topic_fact_ids sample_fact_lib [Some [1]] ''f'' = [ff_fact_id_hex f]"
    using f by (simp add: topic_fact_ids_def fact_of_def List.map_filter_def)
  moreover have "nz_position (sample_run [Some [1]]) = length [Some [1 :: u8]]" using sample_position(2) [of "[Some [1]]"] by simp
  moreover have "ch_fixture_facts sample_clickhouse = []" by (simp add: sample_clickhouse_def)
  moreover have "(normalizer_step sample_fact_lib [Some [1]])\<^sup>*\<^sup>* (nz_start sample_clickhouse) (sample_run [Some [1]])"
    by (rule sample_reachable) simp_all
  ultimately show ?thesis
    using normalizer_stores_at_least_once [of sample_fact_lib "[Some [1]]" sample_clickhouse "sample_run [Some [1]]" "''f''"]
      sample_position(3) [of "[Some [1]]"] by simp
qed

theorem foreign_record_stops_normalizer_witness:
  "nz_position (sample_run [Some [1], Some [7], Some [1]]) \<le> 1 \<and> nz_committed (sample_run [Some [1], Some [7], Some [1]]) \<le> 1"
proof -
  have "(normalizer_step sample_fact_lib [Some [1], Some [7], Some [1]])\<^sup>*\<^sup>* (nz_start sample_clickhouse) (sample_run [Some [1], Some [7], Some [1]])"
    by (rule sample_reachable) simp_all
  moreover have "ch_fixture_facts sample_clickhouse = []" by (simp add: sample_clickhouse_def)
  moreover have "fact_of sample_fact_lib (Some [7]) = None" by (simp add: fact_of_def sample_fact_lib_def)
  ultimately show ?thesis
    using foreign_record_stops_normalizer [of sample_fact_lib "[Some [1], Some [7], Some [1]]" sample_clickhouse
        "sample_run [Some [1], Some [7], Some [1]]" 1 "[7]"] by simp
qed

end
