(* ===== verification/Fact_Store_Properties.thy ===== *)
theory Fact_Store_Properties
  imports Fact_Store
begin

text \<open>
  Properties of the fact store: the rows of a block are stored parents first, so that no failure leaves a row without its parent,
  and the answer of the fixture query is not determined.
\<close>

section \<open>Batches are stored parents first\<close>

lemma insert_json_rows_triple:
  assumes "\<And>s as. P (s\<lparr>ch_io := as\<rparr>) \<longleftrightarrow> P s" "\<And>s as. Q (s\<lparr>ch_io := as\<rparr>) \<longleftrightarrow> Q s"
    and "\<And>s. P s \<Longrightarrow> Q (table rows s)" "\<And>s. rows = [] \<Longrightarrow> P s \<Longrightarrow> Q s" "\<And>s. P s \<Longrightarrow> E s" "\<And>s. Q s \<Longrightarrow> E s"
  shows "io_triple P (insert_json_rows table rows) (\<lambda>_. Q) E"
proof (rule io_tripleI)
  fix s s' x assume "P s" "insert_json_rows table rows s = (Inr x, s')"
  then show "Q s'"
    by (auto simp: insert_json_rows_def request_insert_def assms(2,3) split: if_splits list.splits io_answer.splits intro: assms(4))
next
  fix s s' e assume "P s" "insert_json_rows table rows s = (Inl e, s')"
  then have "P s' \<or> Q s'"
    by (auto simp: insert_json_rows_def request_insert_def assms(1,2,3) split: if_splits list.splits io_answer.splits)
  then show "E s'" by (auto intro: assms(5,6))
qed

definition bitcoin_rows_closed :: "bitcoin_fact_batch \<Rightarrow> bool" where
  "bitcoin_rows_closed t \<longleftrightarrow>
     (\<forall>r \<in> set (bfb_transactions t). \<exists>b \<in> set (bfb_blocks t). bbr_block_hash b = btr_block_hash r \<and> row_revision b = row_revision r) \<and>
     (\<forall>r \<in> set (bfb_inputs t). \<exists>x \<in> set (bfb_transactions t).
        btr_txid x = bir_txid r \<and> btr_block_hash x = bir_block_hash r \<and> row_revision x = row_revision r) \<and>
     (\<forall>r \<in> set (bfb_outputs t). \<exists>x \<in> set (bfb_transactions t).
        btr_txid x = bor_txid r \<and> btr_block_hash x = bor_block_hash r \<and> row_revision x = row_revision r)"

definition bitcoin_rows_within :: "bitcoin_fact_batch \<Rightarrow> bitcoin_fact_batch \<Rightarrow> bool" where
  "bitcoin_rows_within batch t \<longleftrightarrow> set (bfb_blocks batch) \<subseteq> set (bfb_blocks t) \<and> set (bfb_transactions batch) \<subseteq> set (bfb_transactions t) \<and>
     set (bfb_inputs batch) \<subseteq> set (bfb_inputs t) \<and> set (bfb_outputs batch) \<subseteq> set (bfb_outputs t)"

lemma bitcoin_rows_closed_add:
  assumes "bitcoin_rows_closed t"
  shows "bitcoin_rows_closed (t\<lparr>bfb_blocks := bfb_blocks t @ rows\<rparr>)"
    "bitcoin_rows_closed batch \<Longrightarrow> set (bfb_blocks batch) \<subseteq> set (bfb_blocks t) \<Longrightarrow>
      bitcoin_rows_closed (t\<lparr>bfb_transactions := bfb_transactions t @ bfb_transactions batch\<rparr>)"
    "bitcoin_rows_closed batch \<Longrightarrow> set (bfb_transactions batch) \<subseteq> set (bfb_transactions t) \<Longrightarrow>
      bitcoin_rows_closed (t\<lparr>bfb_inputs := bfb_inputs t @ bfb_inputs batch\<rparr>)"
    "bitcoin_rows_closed batch \<Longrightarrow> set (bfb_transactions batch) \<subseteq> set (bfb_transactions t) \<Longrightarrow>
      bitcoin_rows_closed (t\<lparr>bfb_outputs := bfb_outputs t @ bfb_outputs batch\<rparr>)"
  using assms unfolding bitcoin_rows_closed_def by (simp_all add: ball_Un) (blast+)?

lemma insert_bitcoin_batch_triple:
  assumes batch: "bitcoin_rows_closed batch"
  shows "io_triple (\<lambda>s. bitcoin_rows_closed (ch_bitcoin s)) (insert_bitcoin_batch batch)
    (\<lambda>_ s. bitcoin_rows_closed (ch_bitcoin s) \<and> bitcoin_rows_within batch (ch_bitcoin s)) (\<lambda>s. bitcoin_rows_closed (ch_bitcoin s))"
proof -
  let ?closed = "\<lambda>s. bitcoin_rows_closed (ch_bitcoin s)"
  let ?P1 = "\<lambda>s. ?closed s \<and> set (bfb_blocks batch) \<subseteq> set (bfb_blocks (ch_bitcoin s))"
  let ?P2 = "\<lambda>s. ?P1 s \<and> set (bfb_transactions batch) \<subseteq> set (bfb_transactions (ch_bitcoin s))"
  let ?P3 = "\<lambda>s. ?P2 s \<and> set (bfb_inputs batch) \<subseteq> set (bfb_inputs (ch_bitcoin s))"
  let ?P4 = "\<lambda>s. ?closed s \<and> bitcoin_rows_within batch (ch_bitcoin s)"
  have 1: "io_triple ?closed (insert_json_rows (\<lambda>rows. into_bitcoin (\<lambda>t. t\<lparr>bfb_blocks := bfb_blocks t @ rows\<rparr>)) (bfb_blocks batch)) (\<lambda>_. ?P1) ?closed"
    by (rule insert_json_rows_triple) (auto simp: into_bitcoin_def bitcoin_rows_closed_add)
  have 2: "io_triple ?P1 (insert_json_rows (\<lambda>rows. into_bitcoin (\<lambda>t. t\<lparr>bfb_transactions := bfb_transactions t @ rows\<rparr>)) (bfb_transactions batch)) (\<lambda>_. ?P2) ?closed"
    by (rule insert_json_rows_triple) (auto simp: into_bitcoin_def bitcoin_rows_closed_add batch)
  have 3: "io_triple ?P2 (insert_json_rows (\<lambda>rows. into_bitcoin (\<lambda>t. t\<lparr>bfb_inputs := bfb_inputs t @ rows\<rparr>)) (bfb_inputs batch)) (\<lambda>_. ?P3) ?closed"
    by (rule insert_json_rows_triple) (auto simp: into_bitcoin_def bitcoin_rows_closed_add batch)
  have 4: "io_triple ?P3 (insert_json_rows (\<lambda>rows. into_bitcoin (\<lambda>t. t\<lparr>bfb_outputs := bfb_outputs t @ rows\<rparr>)) (bfb_outputs batch)) (\<lambda>_. ?P4) ?closed"
    by (rule insert_json_rows_triple) (auto simp: into_bitcoin_def bitcoin_rows_closed_add bitcoin_rows_within_def batch)
  show ?thesis unfolding insert_bitcoin_batch_def by (rule io_triple_bind, rule 1, rule io_triple_bind, rule 2, rule io_triple_bind, rule 3, rule 4)
qed

lemma insert_bitcoin_batch_keeps:
  "io_triple (\<lambda>s. bitcoin_rows_within old (ch_bitcoin s)) (insert_bitcoin_batch batch)
    (\<lambda>_ s. bitcoin_rows_within old (ch_bitcoin s)) (\<lambda>s. bitcoin_rows_within old (ch_bitcoin s))"
  unfolding insert_bitcoin_batch_def
  by (intro io_triple_bind; rule insert_json_rows_triple; auto simp: into_bitcoin_def bitcoin_rows_within_def)

lemma bitcoin_batch_closed:
  assumes "bitcoin_batch_from_block L hash_text b c = Inr batch"
  shows "bitcoin_rows_closed batch"
proof -
  obtain l where "\<forall>r \<in> set (bfb_blocks batch). bbr_block_hash r = hash_text (block_hash L b) \<and> row_revision r = fc_revision c" "bfb_blocks batch \<noteq> []"
    and rows: "bfb_transactions batch = with_index (bitcoin_transaction_row_of L hash_text c l (hash_text (block_hash L b))) (blk_transactions b)"
      "bfb_inputs batch = concat (map (\<lambda>t. with_index (bitcoin_input_row_of hash_text c l (hash_text (block_hash L b)) (hash_text (txid L t))) (tx_inputs t))
         (blk_transactions b))"
      "bfb_outputs batch = concat (map (\<lambda>t. with_index (bitcoin_output_row_of L c l (hash_text (block_hash L b)) (hash_text (txid L t))) (tx_outputs t))
         (blk_transactions b))"
    using assms unfolding bitcoin_batch_eq by auto
  then have block: "\<exists>r \<in> set (bfb_blocks batch). bbr_block_hash r = hash_text (block_hash L b) \<and> row_revision r = fc_revision c"
    by (cases "bfb_blocks batch") auto
  have tx: "\<exists>x \<in> set (bfb_transactions batch). btr_txid x = hash_text (txid L t) \<and> btr_block_hash x = hash_text (block_hash L b) \<and> row_revision x = fc_revision c"
    if "t \<in> set (blk_transactions b)" for t
  proof -
    obtain i where "i < length (blk_transactions b)" "t = blk_transactions b ! i" using \<open>t \<in> _\<close> by (auto simp: in_set_conv_nth)
    then have "bitcoin_transaction_row_of L hash_text c l (hash_text (block_hash L b)) i t \<in> set (bfb_transactions batch)"
      unfolding rows(1) by (metis length_with_index nth_mem with_index_nth)
    then show ?thesis by (rule rev_bexI) (simp add: bitcoin_transaction_row_of_def)
  qed
  have "bbr_block_hash r = btr_block_hash x" if "x \<in> set (bfb_transactions batch)" "bbr_block_hash r = hash_text (block_hash L b)" for x r
    using that unfolding rows(1) by (auto simp: with_index_def bitcoin_transaction_row_of_def)
  moreover have "row_revision x = fc_revision c" if "x \<in> set (bfb_transactions batch)" for x
    using that unfolding rows(1) by (auto simp: with_index_def bitcoin_transaction_row_of_def)
  moreover have "\<exists>t \<in> set (blk_transactions b). bir_txid r = hash_text (txid L t) \<and> bir_block_hash r = hash_text (block_hash L b) \<and> row_revision r = fc_revision c"
    if "r \<in> set (bfb_inputs batch)" for r
    using that unfolding rows(2) by (auto simp: with_index_def bitcoin_input_row_of_def)
  moreover have "\<exists>t \<in> set (blk_transactions b). bor_txid r = hash_text (txid L t) \<and> bor_block_hash r = hash_text (block_hash L b) \<and> row_revision r = fc_revision c"
    if "r \<in> set (bfb_outputs batch)" for r
    using that unfolding rows(3) by (auto simp: with_index_def bitcoin_output_row_of_def)
  ultimately show ?thesis unfolding bitcoin_rows_closed_def using block tx by metis
qed

text \<open>Attempts to store batches of blocks, with the batches whose insert was acknowledged.\<close>

inductive bitcoin_inserts :: "bitcoin_lib \<Rightarrow> (digest \<Rightarrow> string) \<Rightarrow> bitcoin_fact_batch set \<Rightarrow> clickhouse \<Rightarrow> bool" for L hash_text where
  start: "ch_bitcoin s = \<lparr>bfb_blocks = [], bfb_transactions = [], bfb_inputs = [], bfb_outputs = []\<rparr> \<Longrightarrow> bitcoin_inserts L hash_text {} s"
| attempt: "bitcoin_inserts L hash_text acked s \<Longrightarrow> bitcoin_batch_from_block L hash_text b c = Inr batch \<Longrightarrow>
    insert_bitcoin_batch batch (s\<lparr>ch_io := answers\<rparr>) = (r, s') \<Longrightarrow>
    bitcoin_inserts L hash_text (if r = Inr () then insert batch acked else acked) s'"

text \<open>C34: A failed insert never leaves a row without its parent. After any sequence of attempts to store the batches of blocks, with
  failures at any request and with or without effect, every stored transaction row has a stored block row of the same block and
  revision, every stored input and output row has a stored transaction row, and every batch whose insert was acknowledged is
  stored completely.\<close>

theorem stored_rows_have_parents:
  assumes "bitcoin_inserts L hash_text acked s"
  shows "bitcoin_rows_closed (ch_bitcoin s) \<and> (\<forall>batch \<in> acked. bitcoin_rows_within batch (ch_bitcoin s))"
  using assms
proof (induction rule: bitcoin_inserts.induct)
  case (attempt acked s b c batch answers r s')
  note triple = insert_bitcoin_batch_triple [OF bitcoin_batch_closed [OF attempt.hyps(2)]]
  have "case r of Inr x \<Rightarrow> bitcoin_rows_closed (ch_bitcoin s') \<and> bitcoin_rows_within batch (ch_bitcoin s') | Inl e \<Rightarrow> bitcoin_rows_closed (ch_bitcoin s')"
    using io_tripleD [OF triple _ attempt.hyps(3)] attempt.IH by simp
  moreover have "bitcoin_rows_within old (ch_bitcoin s')" if "old \<in> acked" for old
    using io_tripleD [OF insert_bitcoin_batch_keeps _ attempt.hyps(3), of old] attempt.IH that by (simp split: sum.splits)
  ultimately show ?case by (auto split: sum.splits)
qed (simp add: bitcoin_rows_closed_def)

theorem stored_rows_have_parents_witness:
  "\<exists>batch s. bitcoin_batch_from_block sample_lib (\<lambda>d. dec_string (unat d)) sample_child sample_fact_context = Inr batch \<and>
     insert_bitcoin_batch batch (sample_clickhouse\<lparr>ch_io := [IoOk, IoFail ''reset'' True]\<rparr>) = (Inl (ClickHouseFailure ''reset''), s) \<and>
     bitcoin_rows_closed (ch_bitcoin s)"
proof -
  let ?T = "\<lambda>d :: digest. dec_string (unat d)"
  obtain l where l: "bitcoin_lineage sample_fact_context = Inr l"
    by (simp add: bitcoin_lineage_def context_lineage_def sample_fact_context_def)
  then obtain batch where batch: "bitcoin_batch_from_block sample_lib ?T sample_child sample_fact_context = Inr batch"
    by (simp add: bitcoin_batch_from_block_def bitcoin_child_rows_eq Let_def sample_child_def eval_def)
  have filled: "bfb_blocks batch \<noteq> []" "bfb_transactions batch \<noteq> []"
    using batch unfolding bitcoin_batch_eq by (auto simp: with_index_def sample_child_def eval_def)
  obtain r s where s: "insert_bitcoin_batch batch (sample_clickhouse\<lparr>ch_io := [IoOk, IoFail ''reset'' True]\<rparr>) = (r, s)" by fastforce
  then have "r = Inl (ClickHouseFailure ''reset'')"
    using filled by (auto simp: insert_bitcoin_batch_def io_bind_def insert_json_rows_def request_insert_def)
  moreover have "bitcoin_inserts sample_lib ?T {} sample_clickhouse"
    by (rule bitcoin_inserts.start) (simp add: sample_clickhouse_def)
  from bitcoin_inserts.attempt [OF this batch s] have "bitcoin_inserts sample_lib ?T (if r = Inr () then {batch} else {}) s" by simp
  from stored_rows_have_parents [OF this] have "bitcoin_rows_closed (ch_bitcoin s)" by blast
  ultimately show ?thesis using batch s by blast
qed

section \<open>The current fixture projection\<close>

lemma fact_of_revision: "fact_of X m = Some f \<Longrightarrow> sf_revision (stored_row_of f) = 1"
  by (auto simp: fact_of_def normalize_fixture_def build_fact_def stored_row_of_def Let_def rust_result
      split: option.splits sum.splits if_splits)

text \<open>The current projection of a fixture is not determined. All facts have revision one, so when several facts of a fixture are
  stored after some run of the normaliser, each of them is the answer of the fixture query for some order in which the
  server returns rows of equal revision.\<close>

theorem fixture_projection_is_ambiguous:
  assumes "(normalizer_step X topic)\<^sup>*\<^sup>* (nz_start s) N" "ch_fixture_facts s = []"
    and "r \<in> set (ch_fixture_facts (nz_store N))" "sf_fixture_id r = fixture_id"
  shows "\<exists>server_order. (\<forall>xs. mset (server_order xs) = mset xs) \<and>
    fst (fixture_query server_order fixture_id ((nz_store N)\<lparr>ch_io := []\<rparr>)) = Inr (Some (view_of_row r))"
proof -
  let ?rows = "filter (\<lambda>r. sf_fixture_id r = fixture_id) (ch_fixture_facts (nz_store N))"
  define order where "order xs = (if r \<in> set xs then r # remove1 r xs else xs)" for xs
  have "nz_inv X topic N" using assms(1,2) by (rule normalizer_inv)
  then have one: "sf_revision x = 1" if "x \<in> set ?rows" for x
    using that by (auto simp: nz_inv_def derived_def fact_of_revision)
  have perm: "mset (order xs) = mset xs" for xs by (simp add: order_def)
  then have "set (order ?rows) = set ?rows" by (rule mset_eq_setD)
  then have "map sf_revision (rev (order ?rows)) = map (\<lambda>_. 1) (rev (order ?rows))" using one by simp
  then have "sorted (map sf_revision (rev (order ?rows)))" by (simp add: map_replicate_const)
  then have "newest_first order ?rows = order ?rows" by (simp add: newest_first_def sort_key_id_if_sorted)
  moreover have "order ?rows = r # remove1 r ?rows" using assms(3,4) by (simp add: order_def)
  ultimately have "fst (fixture_query order fixture_id ((nz_store N)\<lparr>ch_io := []\<rparr>)) = Inr (Some (view_of_row r))"
    by (simp add: fixture_query_def query_one_def request_rows_def)
  then show ?thesis using perm by blast
qed

text \<open>The fixture of the example run.\<close>

theorem fixture_projection_is_ambiguous_witness:
  "\<exists>r \<in> set (ch_fixture_facts (nz_store (sample_run [Some [1]]))). \<exists>server_order.
     fst (fixture_query server_order ''f'' ((nz_store (sample_run [Some [1]]))\<lparr>ch_io := []\<rparr>)) = Inr (Some (view_of_row r))"
proof -
  let ?N = "sample_run [Some [1]]"
  have run: "(normalizer_step sample_fact_lib [Some [1]])\<^sup>*\<^sup>* (nz_start sample_clickhouse) ?N"
    by (rule sample_reachable) simp_all
  have empty: "ch_fixture_facts sample_clickhouse = []" by (simp add: sample_clickhouse_def)
  obtain r where r: "r \<in> set (ch_fixture_facts (nz_store ?N))"
    using sample_position(3) [of "[Some [1]]"] by (cases "ch_fixture_facts (nz_store ?N)") auto
  have "derived sample_fact_lib [Some [1]] r" using normalizer_inv [OF run empty] r by (simp add: nz_inv_def)
  then have "sf_fixture_id r = ''f''"
    using sample_normalizes by (auto simp: derived_def fact_of_def stored_row_of_def sample_fact_lib_def less_Suc_eq split: sum.splits)
  from fixture_projection_is_ambiguous [OF run empty r this] show ?thesis using r by blast
qed

end
