(* ===== verification/Ip_Address.thy ===== *)
theory Ip_Address
  imports Text_Encoding
begin

text \<open>
  The textual Internet addresses of the Rust standard library, as the endpoint checks of the connectors use them: the readers of
  \<open>IpAddr\<close> and the address classes, and the splitting of endpoint texts.
\<close>

section \<open>Splitting\<close>

text \<open>\<open>split_once\<close> at a text, \<open>rsplit_once\<close> at a character and \<open>trim_matches\<close>.\<close>

fun split_once_text :: "string \<Rightarrow> string \<Rightarrow> (string \<times> string) option" where
  "split_once_text pat s =
     (if take (length pat) s = pat then Some ([], drop (length pat) s)
      else case s of [] \<Rightarrow> None | c # r \<Rightarrow> map_option (\<lambda>(a, b). (c # a, b)) (split_once_text pat r))"

declare split_once_text.simps [simp del]

definition rsplit_once :: "char \<Rightarrow> string \<Rightarrow> (string \<times> string) option" where
  "rsplit_once z s = map_option (\<lambda>(a, b). (rev b, rev a)) (split_once z (rev s))"

definition trim_matches :: "char list \<Rightarrow> string \<Rightarrow> string" where
  "trim_matches cs s = rev (dropWhile (\<lambda>c. c \<in> set cs) (rev (dropWhile (\<lambda>c. c \<in> set cs) s)))"

lemma rsplit_once_append: "z \<notin> set t \<Longrightarrow> rsplit_once z (s @ z # t) = Some (s, t)"
  by (simp add: rsplit_once_def)

section \<open>Addresses\<close>

datatype ip_addr = V4 "u8 list" | V6 "u16 list"

text \<open>A number of at most \<open>digits\<close> digits in front; a longer run of digits is no number.\<close>

definition read_octet :: "string \<Rightarrow> (u8 \<times> string) option" where
  "read_octet s =
     (let ds = takeWhile is_ascii_digit s
      in if ds = [] \<or> 3 < length ds \<or> hd ds = CHR ''0'' \<and> 1 < length ds \<or> 255 < dec_value ds then None
         else Some (of_nat (dec_value ds), drop (length ds) s))"

definition read_group :: "string \<Rightarrow> (u16 \<times> string) option" where
  "read_group s =
     (let ds = takeWhile is_ascii_hexdigit s
      in if ds = [] \<or> 4 < length ds then None else Some (of_nat (hex_value ds), drop (length ds) s))"

text \<open>The separator is read in front of every part but the first.\<close>

definition read_separated :: "char \<Rightarrow> nat \<Rightarrow> (string \<Rightarrow> ('a \<times> string) option) \<Rightarrow> string \<Rightarrow> ('a \<times> string) option" where
  "read_separated z i part s =
     (if i = 0 then part s else case s of c # r \<Rightarrow> if c = z then part r else None | [] \<Rightarrow> None)"

fun read_octets :: "nat \<Rightarrow> nat \<Rightarrow> string \<Rightarrow> (u8 list \<times> string) option" where
  "read_octets i 0 s = Some ([], s)"
| "read_octets i (Suc n) s =
     (case read_separated (CHR ''.'') i read_octet s of
        None \<Rightarrow> None
      | Some (b, r) \<Rightarrow> map_option (\<lambda>(bs, r'). (b # bs, r')) (read_octets (Suc i) n r))"

definition read_ipv4 :: "string \<Rightarrow> (u8 list \<times> string) option" where
  "read_ipv4 = read_octets 0 4"

text \<open>Groups of an IPv6 address, the last two of which may be written as an IPv4 address; \<open>left\<close> are the groups still allowed.\<close>

fun read_groups :: "nat \<Rightarrow> nat \<Rightarrow> string \<Rightarrow> u16 list \<times> bool \<times> string" where
  "read_groups i 0 s = ([], False, s)"
| "read_groups i (Suc left) s =
     (case (if left = 0 then None else read_separated (CHR '':'') i read_ipv4 s) of
        Some ([a, b, c, d], r) \<Rightarrow> ([of_nat (256 * unat a + unat b), of_nat (256 * unat c + unat d)], True, r)
      | _ \<Rightarrow>
          (case read_separated (CHR '':'') i read_group s of
             None \<Rightarrow> ([], False, s)
           | Some (g, r) \<Rightarrow> (case read_groups (Suc i) left r of (gs, v4, r') \<Rightarrow> (g # gs, v4, r'))))"

definition read_ipv6 :: "string \<Rightarrow> (u16 list \<times> string) option" where
  "read_ipv6 s =
     (case read_groups 0 8 s of
        (head, v4, r) \<Rightarrow>
          if length head = 8 then Some (head, r)
          else if v4 \<or> take 2 r \<noteq> ''::'' then None
          else (case read_groups 0 (7 - length head) (drop 2 r) of
                  (tail, _, r') \<Rightarrow> Some (head @ replicate (8 - length head - length tail) 0 @ tail, r')))"

definition parse_ip :: "string \<Rightarrow> ip_addr option" where
  "parse_ip s =
     (case read_ipv4 s of
        Some (bs, []) \<Rightarrow> Some (V4 bs)
      | _ \<Rightarrow> (case read_ipv6 s of Some (gs, []) \<Rightarrow> Some (V6 gs) | _ \<Rightarrow> None))"

definition is_loopback :: "ip_addr \<Rightarrow> bool" where
  "is_loopback ip = (case ip of V4 bs \<Rightarrow> hd bs = 127 | V6 gs \<Rightarrow> gs = [0, 0, 0, 0, 0, 0, 0, 1])"

definition v4_is_private :: "u8 list \<Rightarrow> bool" where
  "v4_is_private bs \<longleftrightarrow> bs ! 0 = 10 \<or> bs ! 0 = 172 \<and> 16 \<le> bs ! 1 \<and> bs ! 1 \<le> 31 \<or> bs ! 0 = 192 \<and> bs ! 1 = 168"

definition v6_is_unique_local :: "u16 list \<Rightarrow> bool" where
  "v6_is_unique_local gs \<longleftrightarrow> unat (hd gs) div 512 = 126"

definition v6_is_unicast_link_local :: "u16 list \<Rightarrow> bool" where
  "v6_is_unicast_link_local gs \<longleftrightarrow> unat (hd gs) div 64 = 1018"

end
