(* ===== verification/Bitcoin_Rpc.thy ===== *)
theory Bitcoin_Rpc
  imports Bitcoin_Connector Bitcoin_Domain
begin

text \<open>
  The JSON-RPC client of the Bitcoin Core connector (\<open>connectors/bitcoin-core/src/rpc.rs\<close>): one call with its bounded retries over the
  answers of the transport, the allow-listed methods, and the walk from the best block to a known ancestor
  (\<open>reconcile.rs\<close>). JSON values, the readers and printers of the \<open>bitcoin\<close> crate and the transport are parameters.
\<close>

section \<open>Calls\<close>

text \<open>\<open>str::trim\<close>: the white space at both ends is dropped.\<close>

function trim_start :: "string \<Rightarrow> string" where
  "trim_start s = (if ws_len s = 0 then s else trim_start (drop (ws_len s) s))"
  by pat_completeness auto
termination
proof (relation "measure length")
  fix s :: string
  assume "ws_len s \<noteq> 0"
  moreover then have "s \<noteq> []" by auto
  ultimately show "(drop (ws_len s) s, s) \<in> measure length" by simp
qed simp

declare trim_start.simps [simp del]

fun trim_end :: "string \<Rightarrow> string" where
  "trim_end [] = []"
| "trim_end (c # cs) = (if str_blank (c # cs) then [] else c # trim_end cs)"

definition str_trim :: "string \<Rightarrow> string" where
  "str_trim s = trim_end (trim_start s)"

text \<open>One request: the credentials of the cookie, the method and its parameters.\<close>

datatype rpc_param = ParamBool bool | ParamNumber nat | ParamText string

record rpc_request =
  rr_username :: string
  rr_password :: string
  rr_method :: string
  rr_params :: "rpc_param list"

text \<open>What one attempt gives: no answer, a server error, a body that is no envelope, an envelope, or cancellation.\<close>

datatype 'v rpc_answer =
    SendFailed string
  | ServerError string
  | BodyInvalid string
  | Envelope "'v option" "(int \<times> string) option"
  | CallCancelled

record 'v rpc_client =
  rc_cookie :: "string + string"
  rc_answer :: "rpc_request \<Rightarrow> nat \<Rightarrow> 'v rpc_answer"
  rc_sleep_cancelled :: "nat \<Rightarrow> bool"

definition MAXIMUM_ATTEMPTS :: nat where "MAXIMUM_ATTEMPTS = 3"

fun rpc_attempts :: "'v rpc_client \<Rightarrow> rpc_request \<Rightarrow> nat \<Rightarrow> nat \<Rightarrow> rpc_error + 'v" where
  "rpc_attempts C q attempt 0 = Inl (RpcTransport [])"
| "rpc_attempts C q attempt (Suc left) =
     (case rc_answer C q attempt of
        CallCancelled \<Rightarrow> Inl RpcCancelled
      | BodyInvalid e \<Rightarrow> Inl (RpcTransport e)
      | Envelope result (Some (code, message)) \<Rightarrow> Inl (RpcRemote (rr_method q) code message)
      | Envelope result None \<Rightarrow> ok_or result (RpcInvalidResult (rr_method q) ''missing result'')
      | SendFailed e \<Rightarrow> if left = 0 then Inl (RpcTransport e)
          else if rc_sleep_cancelled C attempt then Inl RpcCancelled else rpc_attempts C q (Suc attempt) left
      | ServerError e \<Rightarrow> if left = 0 then Inl (RpcTransport e)
          else if rc_sleep_cancelled C attempt then Inl RpcCancelled else rpc_attempts C q (Suc attempt) left)"

definition rpc_call :: "'v rpc_client \<Rightarrow> string \<Rightarrow> rpc_param list \<Rightarrow> rpc_error + 'v" where
  "rpc_call C m params =
     and_then (map_sum RpcSecret id (rc_cookie C)) (\<lambda>cookie.
     and_then (ok_or (split_once_text '':'' (str_trim cookie)) (RpcInvalidResult m ''RPC cookie lacks user:password format''))
       (\<lambda>(username, password).
     rpc_attempts C \<lparr>rr_username = username, rr_password = password, rr_method = m, rr_params = params\<rparr> 0 MAXIMUM_ATTEMPTS))"

section \<open>Methods\<close>

record 'v rpc_lib =
  js_string :: "'v \<Rightarrow> string option"
  js_bytes :: "'v \<Rightarrow> string + bytes"
  js_mempool :: "'v \<Rightarrow> string + string list \<times> u64"
  js_tips :: "'v \<Rightarrow> string + (u64 \<times> string \<times> u64 \<times> string) list"
  lib_hash_parse :: "string \<Rightarrow> string + digest"
  lib_hash_text :: "digest \<Rightarrow> string"
  lib_radix_error :: "string \<Rightarrow> string"

record mempool_snapshot_rpc =
  ms_txids :: "digest list"
  ms_mempool_sequence :: u64
  ms_source_payload :: bytes

record chain_tip =
  ct_hash :: digest
  ct_height :: u64
  ct_branch_length :: u64
  ct_status :: string

definition parse_hash_text :: "'v rpc_lib \<Rightarrow> string \<Rightarrow> string \<Rightarrow> rpc_error + digest" where
  "parse_hash_text J m s = map_sum (RpcInvalidResult m) id (lib_hash_parse J s)"

fun parse_txids :: "'v rpc_lib \<Rightarrow> string \<Rightarrow> string list \<Rightarrow> rpc_error + digest list" where
  "parse_txids J m [] = Inr []"
| "parse_txids J m (s # ss) = and_then (parse_hash_text J m s) (\<lambda>d. and_then (parse_txids J m ss) (\<lambda>ds. Inr (d # ds)))"

definition get_raw_mempool_with_sequence :: "'v rpc_lib \<Rightarrow> 'v rpc_client \<Rightarrow> rpc_error + mempool_snapshot_rpc" where
  "get_raw_mempool_with_sequence J C =
     and_then (rpc_call C ''getrawmempool'' [ParamBool False, ParamBool True]) (\<lambda>v.
     and_then (map_sum (RpcInvalidResult ''getrawmempool'') id (js_bytes J v)) (\<lambda>payload.
     and_then (map_sum (RpcInvalidResult ''getrawmempool'') id (js_mempool J v)) (\<lambda>(texts, seq).
     and_then (parse_txids J ''getrawmempool'' texts) (\<lambda>txids.
     Inr \<lparr>ms_txids = txids, ms_mempool_sequence = seq, ms_source_payload = payload\<rparr>))))"

definition get_raw_transaction :: "'v rpc_lib \<Rightarrow> 'v rpc_client \<Rightarrow> digest \<Rightarrow> (rpc_error + bytes option) option" where
  "get_raw_transaction J C tid =
     (case rpc_call C ''getrawtransaction'' [ParamText (lib_hash_text J tid), ParamBool False] of
        Inr v \<Rightarrow> map_option (map_sum id Some) (decode_hex_value ''getrawtransaction'' (lib_radix_error J) (js_string J v))
      | Inl (RpcRemote m code message) \<Rightarrow> Some (if code = -5 then Inr None else Inl (RpcRemote m code message))
      | Inl e \<Rightarrow> Some (Inl e))"

definition hash_result :: "'v rpc_lib \<Rightarrow> 'v rpc_client \<Rightarrow> string \<Rightarrow> rpc_param list \<Rightarrow> rpc_error + digest" where
  "hash_result J C m params =
     and_then (rpc_call C m params) (\<lambda>v.
     and_then (ok_or (js_string J v) (RpcInvalidResult m ''block hash is not a string'')) (parse_hash_text J m))"

definition get_block_hash :: "'v rpc_lib \<Rightarrow> 'v rpc_client \<Rightarrow> u32 \<Rightarrow> rpc_error + digest" where
  "get_block_hash J C height = hash_result J C ''getblockhash'' [ParamNumber (unat height)]"

definition get_best_block_hash :: "'v rpc_lib \<Rightarrow> 'v rpc_client \<Rightarrow> rpc_error + digest" where
  "get_best_block_hash J C = hash_result J C ''getbestblockhash'' []"

definition get_block :: "'v rpc_lib \<Rightarrow> 'v rpc_client \<Rightarrow> digest \<Rightarrow> (rpc_error + bytes) option" where
  "get_block J C hash =
     (case rpc_call C ''getblock'' [ParamText (lib_hash_text J hash), ParamNumber 0] of
        Inr v \<Rightarrow> decode_hex_value ''getblock'' (lib_radix_error J) (js_string J v)
      | Inl e \<Rightarrow> Some (Inl e))"

fun parse_tips :: "'v rpc_lib \<Rightarrow> (u64 \<times> string \<times> u64 \<times> string) list \<Rightarrow> rpc_error + chain_tip list" where
  "parse_tips J [] = Inr []"
| "parse_tips J ((height, hash, branch_length, status) # ts) =
     and_then (parse_hash_text J ''getchaintips'' hash) (\<lambda>d. and_then (parse_tips J ts) (\<lambda>tips.
     Inr (\<lparr>ct_hash = d, ct_height = height, ct_branch_length = branch_length, ct_status = status\<rparr> # tips)))"

definition get_chain_tips :: "'v rpc_lib \<Rightarrow> 'v rpc_client \<Rightarrow> rpc_error + chain_tip list" where
  "get_chain_tips J C =
     and_then (rpc_call C ''getchaintips'' []) (\<lambda>v.
     and_then (map_sum (RpcInvalidResult ''getchaintips'') id (js_tips J v)) (parse_tips J))"

section \<open>Properties of calls and results\<close>

text \<open>A call gives the first answer that is neither a failed sending nor a server error among the first three, and the failure of
  the third when there is none.\<close>

definition retried :: "'v rpc_answer \<Rightarrow> bool" where
  "retried a \<longleftrightarrow> (case a of SendFailed _ \<Rightarrow> True | ServerError _ \<Rightarrow> True | _ \<Rightarrow> False)"

lemma rpc_attempts_skip:
  assumes "\<And>i. a \<le> i \<Longrightarrow> i < a + k \<Longrightarrow> retried (rc_answer C q i) \<and> \<not> rc_sleep_cancelled C i" "k < n"
  shows "rpc_attempts C q a n = rpc_attempts C q (a + k) (n - k)"
  using assms
proof (induction k arbitrary: a n)
  case (Suc k)
  then obtain n' where n: "n = Suc n'" "n' \<noteq> 0" by (cases n) auto
  have "retried (rc_answer C q a)" "\<not> rc_sleep_cancelled C a" using Suc.prems(1) [of a] by simp_all
  then have "rpc_attempts C q a n = rpc_attempts C q (Suc a) n'"
    using n by (cases "rc_answer C q a") (simp_all add: retried_def)
  also have "\<dots> = rpc_attempts C q (Suc a + k) (n' - k)"
  proof (rule Suc.IH)
    show "retried (rc_answer C q i) \<and> \<not> rc_sleep_cancelled C i" if "Suc a \<le> i" "i < Suc a + k" for i
      using Suc.prems(1) [of i] that by simp
    show "k < n'" using Suc.prems(2) n(1) by simp
  qed
  finally show ?case using n(1) by simp
qed simp

lemma boundary_ascii:
  assumes "str_is_ascii s" "i \<le> length s"
  shows "is_char_boundary s i"
proof (cases "i = length s")
  case False
  then have "byte_of (s ! i) < 128" using assms by (simp add: str_is_ascii_def list_all_length)
  then show ?thesis using False assms(2) by (simp add: is_char_boundary_def)
qed (simp add: is_char_boundary_def)

lemma u8_from_hex_pair:
  assumes "is_ascii_hexdigit a" "is_ascii_hexdigit b"
  shows "u8_from_hex [a, b] = Some (of_nat (16 * hex_digit_value a + hex_digit_value b))"
proof -
  have "hex_digit_value a < 16" "hex_digit_value b < 16" using assms to_lower_hex_digit by blast+
  moreover have "a \<noteq> CHR ''+''"
  proof
    assume "a = CHR ''+''"
    moreover have "\<not> is_ascii_hexdigit (CHR ''+'')" by code_simp
    ultimately show False using assms(1) by simp
  qed
  ultimately show ?thesis using assms by (simp add: u8_from_hex_def hex_value_def mult.commute)
qed

lemma decode_hex_from_digits:
  assumes "list_all is_ascii_hexdigit s" "str_is_ascii s" "i + 2 * n \<le> length s"
  shows "decode_hex_from m radix_error s i n = Some (Inr (hex_pairs (take (2 * n) (drop i s))))"
  using assms(3)
proof (induction n arbitrary: i)
  case (Suc n)
  then obtain a b r where s: "drop i s = a # b # r" by (metis (no_types, lifting) Suc_le_length_iff add_leD1 add_le_imp_le_diff
        add.commute length_drop mult_Suc_right numeral_2_eq_2)
  then have "set (drop i s) \<supseteq> {a, b}" by simp
  then have "is_ascii_hexdigit a" "is_ascii_hexdigit b" using assms(1) by (auto simp: list_all_iff dest: in_set_dropD)
  moreover have "drop (i + 2) s = r" using s by (metis drop_Suc_Cons drop_drop add.commute drop0 numeral_2_eq_2)
  moreover have "is_char_boundary s i" "is_char_boundary s (i + 2)" using Suc.prems assms(2) by (simp_all add: boundary_ascii)
  ultimately show ?case using Suc.IH [of "i + 2"] Suc.prems s by (simp add: u8_from_hex_pair)
qed simp

text \<open>The hexadecimal text of a byte string is read back exactly.\<close>

theorem decode_hex_value_inverts: "decode_hex_value m radix_error (Some (encode_hex bs)) = Some (Inr bs)"
proof -
  have "list_all is_ascii_hexdigit (encode_hex bs)"
    using encode_hex_lower [of bs] by (auto simp: list_all_iff is_ascii_hexdigit_def)
  moreover have "str_is_ascii (encode_hex bs)"
    using encode_hex_lower [of bs] by (auto simp: str_is_ascii_def list_all_iff is_lower_hex_digit_def is_ascii_digit_def)
  ultimately show ?thesis using decode_hex_from_digits [of "encode_hex bs" 0 "length bs"]
    by (simp add: decode_hex_value_def hex_pairs_encode_hex)
qed

section \<open>From the best block to a known ancestor\<close>

partial_function (option) recover_walk ::
  "bitcoin_lib \<Rightarrow> (parse_error \<Rightarrow> string) \<Rightarrow> (digest \<Rightarrow> (rpc_error + bytes) option) \<Rightarrow> digest set \<Rightarrow> digest \<Rightarrow> bytes list \<Rightarrow>
   (rpc_error + bytes list) option" where
  "recover_walk L shown block known cursor recovered =
     (if cursor \<in> known then Some (Inr recovered)
      else case block cursor of
          None \<Rightarrow> None
        | Some (Inl e) \<Rightarrow> Some (Inl e)
        | Some (Inr bs) \<Rightarrow>
            (case parse_block L bs of
               Inl e \<Rightarrow> Some (Inl (RpcInvalidResult ''getblock'' (shown e)))
             | Inr b \<Rightarrow> recover_walk L shown block known (previous_block_hash b) (bs # recovered)))"

definition recover_blocks_to_ancestor ::
  "bitcoin_lib \<Rightarrow> (parse_error \<Rightarrow> string) \<Rightarrow> rpc_error + digest \<Rightarrow> (digest \<Rightarrow> (rpc_error + bytes) option) \<Rightarrow> digest set \<Rightarrow>
   (rpc_error + bytes list) option" where
  "recover_blocks_to_ancestor L shown best block known =
     (case best of Inl e \<Rightarrow> Some (Inl e) | Inr h \<Rightarrow> recover_walk L shown block known h [])"

text \<open>The blocks above a known one, newest first, as the node serves them.\<close>

inductive served_above :: "bitcoin_lib \<Rightarrow> (digest \<Rightarrow> (rpc_error + bytes) option) \<Rightarrow> digest set \<Rightarrow> digest \<Rightarrow> bytes list \<Rightarrow> bool"
  for L block known where
  known: "h \<in> known \<Longrightarrow> served_above L block known h []"
| parent: "h \<notin> known \<Longrightarrow> block h = Some (Inr bs) \<Longrightarrow> parse_block L bs = Inr b \<Longrightarrow>
    served_above L block known (previous_block_hash b) blocks \<Longrightarrow> served_above L block known h (bs # blocks)"

lemma recover_walk_served:
  "served_above L block known h blocks \<Longrightarrow> recover_walk L shown block known h recovered = Some (Inr (rev blocks @ recovered))"
proof (induction arbitrary: recovered rule: served_above.induct)
  case (known h)
  then show ?case by (subst recover_walk.simps) simp
next
  case (parent h bs b blocks)
  then show ?case by (subst recover_walk.simps) simp
qed

lemma recover_walk_result:
  "recover_walk L shown block known h recovered = Some result \<Longrightarrow>
     case result of Inr blocks \<Rightarrow> \<exists>above. blocks = rev above @ recovered \<and> served_above L block known h above | Inl _ \<Rightarrow> True"
proof (rule recover_walk.raw_induct [where P = "\<lambda>L shown block known h recovered result.
    case result of Inr blocks \<Rightarrow> \<exists>above. blocks = rev above @ recovered \<and> served_above L block known h above | Inl _ \<Rightarrow> True"])
  fix walk L shown block known h recovered result
  assume IH: "\<And>L shown block known h recovered result. walk L shown block known h recovered = Some result \<Longrightarrow>
      case result of Inr blocks \<Rightarrow> \<exists>above. blocks = rev above @ recovered \<and> served_above L block known h above | Inl _ \<Rightarrow> True"
    and body: "(if h \<in> known then Some (Inr recovered)
      else case block h of
          None \<Rightarrow> None
        | Some (Inl e) \<Rightarrow> Some (Inl e)
        | Some (Inr bs) \<Rightarrow>
            (case parse_block L bs of
               Inl e \<Rightarrow> Some (Inl (RpcInvalidResult ''getblock'' (shown e)))
             | Inr b \<Rightarrow> walk L shown block known (previous_block_hash b) (bs # recovered))) = Some result"
  show "case result of Inr blocks \<Rightarrow> \<exists>above. blocks = rev above @ recovered \<and> served_above L block known h above | Inl _ \<Rightarrow> True"
  proof (cases "h \<in> known")
    case True
    then show ?thesis using body by (auto intro: served_above.known)
  next
    case False
    show ?thesis
    proof (cases result)
      case (Inr blocks)
      then obtain bs b where b: "block h = Some (Inr bs)" "parse_block L bs = Inr b"
        and walk: "walk L shown block known (previous_block_hash b) (bs # recovered) = Some result"
        using body False by (auto split: option.splits sum.splits)
      obtain above where "blocks = rev above @ bs # recovered" "served_above L block known (previous_block_hash b) above"
        using IH [OF walk] Inr by auto
      then have "blocks = rev (bs # above) @ recovered" "served_above L block known h (bs # above)"
        using False b by (auto intro: served_above.parent)
      then show ?thesis using Inr by (auto simp del: rev.simps)
    qed simp
  qed
qed

text \<open>C36: The recovery of blocks returns exactly the missing ones. It answers with a list of blocks if and only if following parent
  hashes from the best block of the node reaches a known block through blocks the node serves and that parse; then the
  list is that path, oldest first, and the walk ends.\<close>

theorem recover_blocks_returns_missing:
  "recover_blocks_to_ancestor L shown (Inr best) block known = Some (Inr blocks) \<longleftrightarrow> served_above L block known best (rev blocks)"
proof
  assume "recover_blocks_to_ancestor L shown (Inr best) block known = Some (Inr blocks)"
  then show "served_above L block known best (rev blocks)"
    using recover_walk_result [of L shown block known best "[]" "Inr blocks"] by (auto simp: recover_blocks_to_ancestor_def)
next
  assume "served_above L block known best (rev blocks)"
  from recover_walk_served [OF this, of shown "[]"]
  show "recover_blocks_to_ancestor L shown (Inr best) block known = Some (Inr blocks)" by (simp add: recover_blocks_to_ancestor_def)
qed

end
