(* ===== verification/Bitcoin_Observer.thy ===== *)
theory Bitcoin_Observer
  imports Bitcoin_Rpc Wal_Properties
begin

text \<open>
  The Bitcoin Core observer (\<open>connectors/bitcoin-core/src\<close>): the reconciler of mempool sequences (\<open>reconcile.rs\<close>), the capture engine
  over any log that keeps the contract of the trait \<open>ObservationWal\<close> (\<open>capture.rs\<close>), and the body of its loop (\<open>main.rs\<close>). The clock, the
  answers of the node and of the broker are inputs of a step.
\<close>

section \<open>The mempool reconciler\<close>

datatype mempool_recovery_event = GapDetected u64 u64 | StateReconciled u64

record recovered_mempool_snapshot =
  rm_mempool_sequence :: u64
  rm_snapshot_payload :: bytes

datatype reconcile_state = ReconcileHealthy | Gapped | AwaitingAlignment

record mempool_reconciler =
  mx_source_id :: string
  mx_source_session_id :: source_session_id
  mx_last_sequence :: "u64 option"
  mx_state :: reconcile_state
  mx_current :: "digest set"
  mx_open_started_at :: "i64 option"
  mx_intervals :: "coverage_interval list"

definition reconciler_new :: "string \<Rightarrow> source_session_id \<Rightarrow> mempool_reconciler" where
  "reconciler_new source session = \<lparr>mx_source_id = source, mx_source_session_id = session, mx_last_sequence = None,
     mx_state = ReconcileHealthy, mx_current = {}, mx_open_started_at = None, mx_intervals = []\<rparr>"

definition close_interval :: "i64 \<Rightarrow> mempool_reconciler \<Rightarrow> mempool_reconciler" where
  "close_interval ended x =
     (case mx_open_started_at x of
        None \<Rightarrow> x
      | Some started \<Rightarrow> x\<lparr>mx_open_started_at := None,
          mx_intervals := mx_intervals x @ [\<lparr>ci_source_id = mx_source_id x, ci_source_session_id = session_bytes (mx_source_session_id x),
            ci_start_unix_ns = started, ci_end_unix_ns = Some ended, ci_state = ''known_incomplete'',
            ci_cause = ''zmq_or_mempool_sequence_gap'', ci_repair_evidence_observation_ids = []\<rparr>]\<rparr>)"

definition observe_sequence :: "u64 \<Rightarrow> i64 \<Rightarrow> mempool_reconciler \<Rightarrow> mempool_recovery_event option \<times> mempool_reconciler" where
  "observe_sequence actual at x =
     (if mx_state x = AwaitingAlignment
      then (Some (StateReconciled actual), close_interval at (x\<lparr>mx_state := ReconcileHealthy, mx_last_sequence := Some actual\<rparr>))
      else let event = (case mx_last_sequence x of
               None \<Rightarrow> None
             | Some before \<Rightarrow> if actual \<noteq> before + 1 then Some (GapDetected (before + 1) actual) else None);
             x1 = x\<lparr>mx_last_sequence := Some actual\<rparr>
        in (event, if event = None then x1 else x1\<lparr>mx_state := Gapped, mx_open_started_at := Some at\<rparr>))"

definition apply_add :: "digest \<Rightarrow> mempool_reconciler \<Rightarrow> mempool_reconciler" where
  "apply_add t x = x\<lparr>mx_current := insert t (mx_current x)\<rparr>"

definition apply_remove :: "digest \<Rightarrow> mempool_reconciler \<Rightarrow> mempool_reconciler" where
  "apply_remove t x = x\<lparr>mx_current := mx_current x - {t}\<rparr>"

definition reconciler_recover ::
  "rpc_error + mempool_snapshot_rpc \<Rightarrow> mempool_reconciler \<Rightarrow> (rpc_error + recovered_mempool_snapshot) \<times> mempool_reconciler" where
  "reconciler_recover answer x =
     (case answer of
        Inl e \<Rightarrow> (Inl e, x)
      | Inr s \<Rightarrow> (Inr \<lparr>rm_mempool_sequence = ms_mempool_sequence s, rm_snapshot_payload = ms_source_payload s\<rparr>,
          x\<lparr>mx_current := set (ms_txids s), mx_last_sequence := Some (ms_mempool_sequence s), mx_state := AwaitingAlignment\<rparr>))"

section \<open>The capture engine\<close>

datatype core_capture_error =
    CoreObservation observation_error
  | CoreWal wal_error
  | MissingCommittedObservation u64

record 'w capture_engine =
  en_source_id :: string
  en_network :: core_network
  en_session :: source_session
  en_wal :: 'w

definition engine_new :: "string \<Rightarrow> core_network \<Rightarrow> source_session \<Rightarrow> 'w \<Rightarrow> 'w capture_engine" where
  "engine_new source network session w = \<lparr>en_source_id = source, en_network = network, en_session = session, en_wal = w\<rparr>"

text \<open>The hash functions and clock readings of one capture.\<close>

record core_env =
  ce_sha256 :: "bytes \<Rightarrow> digest"
  ce_blake3 :: "bytes \<Rightarrow> digest"
  ce_wall :: i64
  ce_monotonic :: u64
  ce_durable_at :: i64

record 'w wal_ops =
  wo_append :: "observation \<Rightarrow> 'w \<Rightarrow> (wal_error + pending_observation) \<times> 'w"
  wo_commit :: "i64 \<Rightarrow> 'w \<Rightarrow> (wal_error + committed_range) \<times> 'w"
  wo_committed :: "'w \<Rightarrow> wal_error + committed_observation list"

definition core_builder :: "core_env \<Rightarrow> 'w capture_engine \<Rightarrow> string \<Rightarrow> string \<Rightarrow> bytes \<Rightarrow> u64 \<Rightarrow> u64 \<Rightarrow> observation_builder" where
  "core_builder env c channel message_type payload source_sequence seq = builder_new
     \<lparr>bu_source_id := Some (en_source_id c), bu_source_session_id := Some (ss_id (en_session c)),
      bu_collector_sequence := Some seq, bu_chain := Some ''bitcoin'', bu_network := Some (core_network_str (en_network c)),
      bu_channel := Some channel, bu_source_message_type := Some message_type, bu_source_sequence := Some source_sequence,
      bu_observed_at_unix_ns := Some (ce_wall env), bu_observed_at_monotonic_ns := Some (ce_monotonic env), bu_payload := Some payload\<rparr>"

definition mark_observation :: "u32 option \<Rightarrow> bool \<Rightarrow> observation \<Rightarrow> observation" where
  "mark_observation transport recovered x =
     (let x1 = (case transport of None \<Rightarrow> x
                | Some n \<Rightarrow> x\<lparr>ob_attributes := fmupd ''zmq_transport_sequence'' (dec_string (unat n)) (ob_attributes x)\<rparr>)
      in if recovered then x1\<lparr>ob_quality_flags := ob_quality_flags x1 @ [''recovered_by_rpc'']\<rparr> else x1)"

definition has_sequence :: "u64 \<Rightarrow> committed_observation \<Rightarrow> bool" where
  "has_sequence seq co = (case co_observation co of None \<Rightarrow> False | Some x \<Rightarrow> ob_collector_sequence x = seq)"

definition capture_payload ::
  "'w wal_ops \<Rightarrow> core_env \<Rightarrow> string \<Rightarrow> string \<Rightarrow> bytes \<Rightarrow> u64 \<Rightarrow> u32 option \<Rightarrow> bool \<Rightarrow> 'w capture_engine \<Rightarrow>
   (core_capture_error + committed_observation) \<times> 'w capture_engine" where
  "capture_payload W env channel message_type payload source_sequence transport recovered c =
     (case allocate (en_session c) of
        (seq, session) \<Rightarrow>
          (let c1 = c\<lparr>en_session := session\<rparr>
           in case build (ce_sha256 env) (ce_blake3 env) (core_builder env c channel message_type payload source_sequence seq) of
                Inl e \<Rightarrow> (Inl (CoreObservation e), c1)
              | Inr x \<Rightarrow>
                  (case wo_append W (mark_observation transport recovered x) (en_wal c1) of
                     (Inl e, w1) \<Rightarrow> (Inl (CoreWal e), c1\<lparr>en_wal := w1\<rparr>)
                   | (Inr po, w1) \<Rightarrow>
                       (case wo_commit W (ce_durable_at env) w1 of
                          (Inl e, w2) \<Rightarrow> (Inl (CoreWal e), c1\<lparr>en_wal := w2\<rparr>)
                        | (Inr r, w2) \<Rightarrow>
                            (case wo_committed W w2 of
                               Inl e \<Rightarrow> (Inl (CoreWal e), c1\<lparr>en_wal := w2\<rparr>)
                             | Inr records \<Rightarrow>
                                 (ok_or (find (has_sequence seq) records) (MissingCommittedObservation seq), c1\<lparr>en_wal := w2\<rparr>))))))"

definition core_capture ::
  "'w wal_ops \<Rightarrow> core_env \<Rightarrow> zmq_notification \<Rightarrow> 'w capture_engine \<Rightarrow> (core_capture_error + committed_observation) \<times> 'w capture_engine" where
  "core_capture W env n = capture_payload W env (zn_topic n) (zn_topic n) (zn_body n) (ucast (zn_transport_sequence n))
     (Some (zn_transport_sequence n)) False"

definition capture_recovered_mempool_snapshot ::
  "'w wal_ops \<Rightarrow> core_env \<Rightarrow> bytes \<Rightarrow> u64 \<Rightarrow> 'w capture_engine \<Rightarrow> (core_capture_error + committed_observation) \<times> 'w capture_engine" where
  "capture_recovered_mempool_snapshot W env payload sequence =
     capture_payload W env ''rpc'' ''getrawmempool_snapshot'' payload sequence None True"

section \<open>The loop\<close>

record 'w core_observer =
  co_engine :: "'w capture_engine"
  co_reconciler :: mempool_reconciler
  co_topic_sequences :: "(string, u32) fmap"
  co_published :: "committed_observation list"

text \<open>What the loop gets while it handles one notification.\<close>

record notice =
  nt_notification :: zmq_notification
  nt_now :: i64
  nt_rpc :: "rpc_error + mempool_snapshot_rpc"
  nt_snapshot_env :: core_env
  nt_snapshot_broker :: "string + unit"
  nt_env :: core_env
  nt_broker :: "string + unit"

datatype core_exit = ExitCapture core_capture_error | ExitRpc rpc_error | ExitPublish string

definition capture_and_publish ::
  "('w capture_engine \<Rightarrow> (core_capture_error + committed_observation) \<times> 'w capture_engine) \<Rightarrow> string + unit \<Rightarrow> 'w core_observer \<Rightarrow>
   (core_exit + unit) \<times> 'w core_observer" where
  "capture_and_publish cap broker ob =
     (case cap (co_engine ob) of
        (Inl e, c) \<Rightarrow> (Inl (ExitCapture e), ob\<lparr>co_engine := c\<rparr>)
      | (Inr committed, c) \<Rightarrow>
          (case broker of
             Inl e \<Rightarrow> (Inl (ExitPublish e), ob\<lparr>co_engine := c\<rparr>)
           | Inr _ \<Rightarrow> (Inr (), ob\<lparr>co_engine := c, co_published := co_published ob @ [committed]\<rparr>)))"

definition sequence_gap :: "zmq_notification \<Rightarrow> (string, u32) fmap \<Rightarrow> u32 option" where
  "sequence_gap n seqs =
     (case fmlookup seqs (zn_topic n) of
        None \<Rightarrow> None
      | Some previous \<Rightarrow> if zn_transport_sequence n \<noteq> previous + 1 \<and> zn_topic n = ''sequence'' then Some previous else None)"

definition handle_gap :: "'w wal_ops \<Rightarrow> notice \<Rightarrow> u32 \<Rightarrow> 'w core_observer \<Rightarrow> (core_exit + unit) \<times> 'w core_observer" where
  "handle_gap W i previous ob =
     (case observe_sequence (ucast (zn_transport_sequence (nt_notification i))) (nt_now i)
             (snd (observe_sequence (ucast previous) (nt_now i) (co_reconciler ob))) of
        (Some (GapDetected _ _), x) \<Rightarrow>
          (case reconciler_recover (nt_rpc i) x of
             (Inl e, x1) \<Rightarrow> (Inl (ExitRpc e), ob\<lparr>co_reconciler := x1\<rparr>)
           | (Inr recovered, x1) \<Rightarrow>
               capture_and_publish
                 (capture_recovered_mempool_snapshot W (nt_snapshot_env i) (rm_snapshot_payload recovered) (rm_mempool_sequence recovered))
                 (nt_snapshot_broker i) (ob\<lparr>co_reconciler := x1\<rparr>))
      | (_, x) \<Rightarrow> (Inr (), ob\<lparr>co_reconciler := x\<rparr>))"

definition handle_notification :: "'w wal_ops \<Rightarrow> notice \<Rightarrow> 'w core_observer \<Rightarrow> (core_exit + unit) \<times> 'w core_observer" where
  "handle_notification W i ob =
     (let n = nt_notification i;
          ob1 = ob\<lparr>co_topic_sequences := fmupd (zn_topic n) (zn_transport_sequence n) (co_topic_sequences ob)\<rparr>
      in case (case sequence_gap n (co_topic_sequences ob) of None \<Rightarrow> (Inr (), ob1) | Some previous \<Rightarrow> handle_gap W i previous ob1) of
           (Inl e, ob2) \<Rightarrow> (Inl e, ob2)
         | (Inr _, ob2) \<Rightarrow> capture_and_publish (core_capture W (nt_env i) n) (nt_broker i) ob2)"

fun run_observer :: "'w wal_ops \<Rightarrow> notice list \<Rightarrow> 'w core_observer \<Rightarrow> (core_exit + unit) \<times> 'w core_observer" where
  "run_observer W [] ob = (Inr (), ob)"
| "run_observer W (i # is) ob =
     (case handle_notification W i ob of (Inl e, ob1) \<Rightarrow> (Inl e, ob1) | (Inr _, ob1) \<Rightarrow> run_observer W is ob1)"

end
