(* ===== verification/Bitcoin_Observer_Properties.thy ===== *)
theory Bitcoin_Observer_Properties
  imports Bitcoin_Observer
begin

text \<open>
  What the Bitcoin Core observer guarantees over the file-backed log: everything it publishes is durable, in order and complete; and
  when the intervals of its reconciler begin and end.
\<close>

section \<open>The log as the engine uses it\<close>

locale readable_wal = observation_wal append commit log
  for append :: "observation \<Rightarrow> 'w \<Rightarrow> (wal_error + pending_observation) \<times> 'w"
    and commit :: "i64 \<Rightarrow> 'w \<Rightarrow> (wal_error + committed_range) \<times> 'w"
    and log :: "wal_spec \<Rightarrow> 'w \<Rightarrow> bool" +
  fixes committed :: "'w \<Rightarrow> wal_error + committed_observation list"
  assumes committed_reads: "log sp w \<Longrightarrow> committed w = Inr (sp_committed sp)"

text \<open>The committed records carry the sequence numbers from zero.\<close>

definition numbered_log :: "wal_spec \<Rightarrow> bool" where
  "numbered_log sp \<longleftrightarrow> length (sp_committed sp) = unat (sp_next sp) \<and> (\<forall>i < length (sp_committed sp). has_sequence (of_nat i) (sp_committed sp ! i))"

definition engine_ok :: "(wal_spec \<Rightarrow> 'w \<Rightarrow> bool) \<Rightarrow> wal_spec \<Rightarrow> 'w capture_engine \<Rightarrow> bool" where
  "engine_ok log sp c \<longleftrightarrow> log sp (en_wal c) \<and> sp_pending sp = [] \<and> sp_next sp = ss_next_sequence (en_session c) \<and> numbered_log sp"

lemma find_snoc: "(\<And>y. y \<in> set xs \<Longrightarrow> \<not> P y) \<Longrightarrow> P x \<Longrightarrow> find P (xs @ [x]) = Some x"
  by (induction xs) auto

lemma find_last:
  assumes "numbered_log sp" "has_sequence (sp_next sp) co"
  shows "find (has_sequence (sp_next sp)) (sp_committed sp @ [co]) = Some co"
proof -
  have "\<not> has_sequence (sp_next sp) y" if "y \<in> set (sp_committed sp)" for y
  proof -
    obtain i where i: "i < length (sp_committed sp)" "y = sp_committed sp ! i" using \<open>y \<in> _\<close> by (auto simp: in_set_conv_nth)
    then have "has_sequence (of_nat i) y" "i < unat (sp_next sp)" using assms(1) by (auto simp: numbered_log_def)
    moreover have "of_nat i \<noteq> sp_next sp"
    proof
      assume "of_nat i = sp_next sp"
      then have "unat (of_nat i :: u64) = unat (sp_next sp)" by simp
      moreover have "unat (of_nat i :: u64) \<le> i" by (simp add: unat_of_nat)
      ultimately show False using \<open>i < unat (sp_next sp)\<close> by simp
    qed
    ultimately show ?thesis by (auto simp: has_sequence_def split: option.splits)
  qed
  then show ?thesis using assms(2) by (rule find_snoc)
qed

text \<open>The observation of a capture carries its payload, and the mark of recovery exactly when it was recovered.\<close>

definition recovered_mark :: "observation \<Rightarrow> bool" where
  "recovered_mark x \<longleftrightarrow> ''recovered_by_rpc'' \<in> set (ob_quality_flags x)"

lemma build_marked:
  assumes "build sha b3 (core_builder env c channel message_type payload source_sequence seq) = Inr x"
  shows "ob_collector_sequence (mark_observation transport recovered x) = seq" "ob_payload (mark_observation transport recovered x) = payload"
    "recovered_mark (mark_observation transport recovered x) \<longleftrightarrow> recovered"
  using assms
  by (auto simp: build_def core_builder_def builder_new_def rust_result required_Inr_iff required_text_Inr_iff Let_def mark_observation_def
      recovered_mark_def split: option.splits)

definition wal_ops_of ::
  "(observation \<Rightarrow> 'w \<Rightarrow> (wal_error + pending_observation) \<times> 'w) \<Rightarrow> (i64 \<Rightarrow> 'w \<Rightarrow> (wal_error + committed_range) \<times> 'w) \<Rightarrow>
   ('w \<Rightarrow> wal_error + committed_observation list) \<Rightarrow> 'w wal_ops" where
  "wal_ops_of a g rd = \<lparr>wo_append = a, wo_commit = g, wo_committed = rd\<rparr>"

lemma wal_ops_simps [simp]: "wo_append (wal_ops_of a g rd) = a" "wo_commit (wal_ops_of a g rd) = g" "wo_committed (wal_ops_of a g rd) = rd"
  by (simp_all add: wal_ops_of_def)

text \<open>What has been published: the bodies of notifications and the recovered snapshots.\<close>

definition observations :: "committed_observation list \<Rightarrow> observation list" where
  "observations cos = List.map_filter co_observation cos"

definition published_bodies :: "'w core_observer \<Rightarrow> bytes list" where
  "published_bodies ob = map ob_payload (filter (\<lambda>x. \<not> recovered_mark x) (observations (co_published ob)))"

definition published_snapshots :: "'w core_observer \<Rightarrow> bytes list" where
  "published_snapshots ob = map ob_payload (filter recovered_mark (observations (co_published ob)))"

lemma observations_snoc [simp]: "co_observation co = Some x \<Longrightarrow> observations (cos @ [co]) = observations cos @ [x]"
  by (simp add: observations_def List.map_filter_def)

definition observer_ok :: "(wal_spec \<Rightarrow> 'w \<Rightarrow> bool) \<Rightarrow> wal_spec \<Rightarrow> 'w core_observer \<Rightarrow> bool" where
  "observer_ok log sp ob \<longleftrightarrow> engine_ok log sp (co_engine ob) \<and> sp_committed sp = co_published ob"

text \<open>The log after a failure: the last committed observation may be unpublished, and only when the broker failed.\<close>

definition observer_stopped :: "(wal_spec \<Rightarrow> 'w \<Rightarrow> bool) \<Rightarrow> core_exit \<Rightarrow> 'w core_observer \<Rightarrow> bool" where
  "observer_stopped log e ob \<longleftrightarrow> (\<exists>sp. log sp (en_wal (co_engine ob)) \<and>
     (sp_committed sp = co_published ob \<or> (\<exists>m co. e = ExitPublish m \<and> sp_committed sp = co_published ob @ [co])))"

section \<open>The intervals of the reconciler\<close>

definition interval_times :: "mempool_reconciler \<Rightarrow> (i64 \<times> i64 option) list" where
  "interval_times x = map (\<lambda>i. (ci_start_unix_ns i, ci_end_unix_ns i)) (mx_intervals x)"

definition between_times :: "i64 list \<Rightarrow> (i64 \<times> i64 option) list" where
  "between_times ts = map (\<lambda>(a, b). (a, Some b)) (zip ts (tl ts))"

text \<open>The reconciler of the loop after gaps at the given times.\<close>

definition reconciler_at :: "i64 list \<Rightarrow> mempool_reconciler \<Rightarrow> bool" where
  "reconciler_at ts x \<longleftrightarrow> interval_times x = between_times ts \<and>
     (if ts = [] then mx_state x = ReconcileHealthy \<and> mx_last_sequence x = None \<and> mx_open_started_at x = None
      else mx_state x = AwaitingAlignment \<and> mx_open_started_at x = Some (last ts))"

lemma between_times_snoc: "ts \<noteq> [] \<Longrightarrow> between_times (ts @ [t]) = between_times ts @ [(last ts, Some t)]"
proof -
  assume "ts \<noteq> []"
  then have "zip (ts @ [t]) (tl (ts @ [t])) = zip ts (tl ts) @ [(last ts, t)]"
    by (induction ts rule: list_nonempty_induct) (auto simp: neq_Nil_conv)
  then show ?thesis by (simp add: between_times_def)
qed

lemma unat_ucast_u64: "unat (ucast a :: u64) = unat a" for a :: u32
proof -
  have "unat a < 2 ^ LENGTH(32)" by (rule unsigned_less)
  then have "unat a < 2 ^ 64" by simp
  then show ?thesis by (simp add: unsigned_ucast_eq take_bit_nat_eq_self)
qed

lemma ucast_gap:
  fixes a p :: u32
  assumes "a \<noteq> p + 1"
  shows "(ucast a :: u64) \<noteq> ucast p + 1"
proof
  assume "(ucast a :: u64) = ucast p + 1"
  then have "unat (ucast a :: u64) = unat (ucast p + 1 :: u64)" by simp
  moreover have "unat p < 2 ^ LENGTH(32)" by (rule unsigned_less)
  then have "unat p + 1 < 2 ^ 64" by simp
  ultimately have "unat a = unat p + 1" by (simp add: unat_word_ariths unat_ucast_u64)
  then have "(of_nat (unat a) :: u32) = of_nat (unat p + 1)" by simp
  then show False using assms by (simp add: add.commute)
qed

text \<open>Handling a gap closes the interval of the previous one and opens another.\<close>

lemma observe_gap:
  assumes "reconciler_at ts x" "(a :: u32) \<noteq> p + 1"
  shows "\<exists>x'. observe_sequence (ucast a) t (snd (observe_sequence (ucast p) t x)) = (Some (GapDetected (ucast p + 1) (ucast a)), x') \<and>
    interval_times x' = between_times (ts @ [t]) \<and> mx_open_started_at x' = Some t"
proof (cases "ts = []")
  case True
  then show ?thesis using assms ucast_gap [OF assms(2)]
    by (auto simp: reconciler_at_def observe_sequence_def Let_def interval_times_def between_times_def)
next
  case False
  then show ?thesis using assms ucast_gap [OF assms(2)] between_times_snoc [OF False, of t]
    by (auto simp: reconciler_at_def observe_sequence_def close_interval_def Let_def interval_times_def)
qed

text \<open>The times at which the loop finds a gap in the topic \<open>sequence\<close>.\<close>

fun gap_times :: "(string, u32) fmap \<Rightarrow> notice list \<Rightarrow> i64 list" where
  "gap_times seqs [] = []"
| "gap_times seqs (i # is) =
     (if sequence_gap (nt_notification i) seqs = None then [] else [nt_now i]) @
     gap_times (fmupd (zn_topic (nt_notification i)) (zn_transport_sequence (nt_notification i)) seqs) is"

context readable_wal
begin

text \<open>A successful capture appends the observation it returns to the committed ones.\<close>

lemma capture_payload_commits:
  assumes "capture_payload (wal_ops_of append commit committed) env channel message_type payload source_sequence transport recovered c = (Inr co, c')" "engine_ok log sp c"
  shows "\<exists>sp' x. engine_ok log sp' c' \<and> sp_committed sp' = sp_committed sp @ [co] \<and> unat (sp_next sp') = unat (sp_next sp) + 1 \<and>
    co_observation co = Some x \<and> ob_payload x = payload \<and> (recovered_mark x \<longleftrightarrow> recovered)"
proof -
  let ?seq = "sp_next sp"
  have ok: "log sp (en_wal c)" "sp_pending sp = []" "ss_next_sequence (en_session c) = ?seq" "numbered_log sp"
    using assms(2) by (simp_all add: engine_ok_def)
  obtain x po w1 r w2 records where x: "build (ce_sha256 env) (ce_blake3 env) (core_builder env c channel message_type payload source_sequence ?seq) = Inr x"
    and a: "append (mark_observation transport recovered x) (en_wal c) = (Inr po, w1)"
    and g: "commit (ce_durable_at env) w1 = (Inr r, w2)" and rd: "committed w2 = Inr records"
    and found: "ok_or (find (has_sequence ?seq) records) (MissingCommittedObservation ?seq) = Inr co"
    and c': "c' = c\<lparr>en_session := (en_session c)\<lparr>ss_next_sequence := saturating_add ?seq 1\<rparr>, en_wal := w2\<rparr>"
    using assms(1) ok(3) by (auto simp: capture_payload_def allocate_def Let_def split: sum.splits prod.splits)
  let ?x = "mark_observation transport recovered x"
  have app: "log (spec_append ?x sp) w1" "?seq \<noteq> - 1" using append_ok [OF ok(1) a] by auto
  let ?sp = "spec_commit r (spec_append ?x sp)"
  have com: "log ?sp w2" using commit_ok [OF app(1) g] by auto
  let ?co = "\<lparr>co_observation = Some ?x, co_durable_at_unix_ns = cr_durable_at_unix_ns r, co_wal_commit_hash = be_bytes 32 (unat (cr_commit_hash r))\<rparr>"
  have committed_sp: "sp_committed ?sp = sp_committed sp @ [?co]" using ok(2) by (simp add: spec_commit_def spec_append_def)
  have "has_sequence ?seq ?co" using build_marked [OF x] by (simp add: has_sequence_def)
  then have "find (has_sequence ?seq) records = Some ?co"
    using committed_reads [OF com] rd committed_sp find_last [OF ok(4)] by simp
  then have co: "co = ?co" using found by simp
  have next_eq: "sp_next ?sp = ?seq + 1" "saturating_add ?seq 1 = ?seq + 1"
    using app(2) saturating_succ [of ?seq] by (simp_all add: spec_commit_def spec_append_def)
  have unat: "unat (?seq + 1) = unat ?seq + 1" using unat_succ_less [OF app(2)] by (simp add: unat_word_ariths)
  have "numbered_log ?sp"
    unfolding numbered_log_def committed_sp next_eq(1) unat
    using ok(4) \<open>has_sequence ?seq ?co\<close> by (auto simp: numbered_log_def nth_append less_Suc_eq)
  then have "engine_ok log ?sp c'" using com c' next_eq by (simp add: engine_ok_def spec_commit_def spec_append_def)
  then show ?thesis using committed_sp co unat next_eq(1) build_marked [OF x] by auto
qed

text \<open>A failed capture commits nothing.\<close>

lemma capture_payload_error:
  assumes "capture_payload (wal_ops_of append commit committed) env channel message_type payload source_sequence transport recovered c = (Inl e, c')" "engine_ok log sp c"
    and "sp_next sp \<noteq> - 1"
  shows "\<exists>sp'. log sp' (en_wal c') \<and> sp_committed sp' = sp_committed sp"
proof -
  let ?seq = "sp_next sp"
  have ok: "log sp (en_wal c)" "sp_pending sp = []" "ss_next_sequence (en_session c) = ?seq" "numbered_log sp"
    using assms(2) by (simp_all add: engine_ok_def)
  show ?thesis
  proof (cases "build (ce_sha256 env) (ce_blake3 env) (core_builder env c channel message_type payload source_sequence ?seq)")
    case (Inl e)
    then show ?thesis using assms(1) ok by (auto simp: capture_payload_def allocate_def Let_def)
  next
    case x: (Inr x)
    let ?x = "mark_observation transport recovered x"
    obtain ra w1 where a: "append ?x (en_wal c) = (ra, w1)" by fastforce
    show ?thesis
    proof (cases ra)
      case (Inl e)
      then have "log sp w1" using append_error [OF ok(1)] a assms(3) by blast
      moreover have "en_wal c' = w1" using assms(1) x a Inl ok(3) by (auto simp: capture_payload_def allocate_def Let_def)
      ultimately show ?thesis by blast
    next
      case (Inr po)
      then have app: "log (spec_append ?x sp) w1" using append_ok [OF ok(1)] a by auto
      obtain rg w2 where g: "commit (ce_durable_at env) w1 = (rg, w2)" by fastforce
      show ?thesis
      proof (cases rg)
        case (Inl e)
        then have "log (spec_append ?x sp) w2" using commit_error [OF app] g by auto
        moreover have "en_wal c' = w2" using assms(1) x a g Inr Inl ok(3) by (auto simp: capture_payload_def allocate_def Let_def)
        ultimately show ?thesis by (intro exI [of _ "spec_append ?x sp"]) (simp add: spec_append_def)
      next
        case r: (Inr r)
        have com: "log (spec_commit r (spec_append ?x sp)) w2" using commit_ok [OF app] g r by auto
        let ?co = "\<lparr>co_observation = Some ?x, co_durable_at_unix_ns = cr_durable_at_unix_ns r, co_wal_commit_hash = be_bytes 32 (unat (cr_commit_hash r))\<rparr>"
        have "has_sequence ?seq ?co" using build_marked [OF x] by (simp add: has_sequence_def)
        from find_last [OF ok(4) this] have "False"
          using assms(1) x a g Inr r ok(2,3) committed_reads [OF com]
          by (simp add: capture_payload_def allocate_def Let_def spec_commit_def spec_append_def)
        then show ?thesis ..
      qed
    qed
  qed
qed

lemma capture_and_publish_ok:
  assumes "capture_and_publish (capture_payload (wal_ops_of append commit committed) env channel message_type payload source_sequence transport recovered)
      broker ob = (res, ob')" "observer_ok log sp ob" "unat (sp_next sp) + 1 < 2 ^ 64"
  shows "case res of
      Inr _ \<Rightarrow> \<exists>sp'. observer_ok log sp' ob' \<and> unat (sp_next sp') = unat (sp_next sp) + 1 \<and> co_reconciler ob' = co_reconciler ob \<and>
        published_bodies ob' = published_bodies ob @ (if recovered then [] else [payload]) \<and>
        published_snapshots ob' = published_snapshots ob @ (if recovered then [payload] else []) \<and> co_topic_sequences ob' = co_topic_sequences ob
    | Inl e \<Rightarrow> observer_stopped log e ob'"
proof -
  have ok: "engine_ok log sp (co_engine ob)" "sp_committed sp = co_published ob" using assms(2) by (simp_all add: observer_ok_def)
  have next_ne: "sp_next sp \<noteq> - 1"
  proof
    assume "sp_next sp = - 1"
    then have "unat (sp_next sp) = 2 ^ 64 - 1" by (simp add: unsigned_minus_1_eq_mask mask_eq_exp_minus_1)
    then show False using assms(3) by simp
  qed
  obtain r c where cap: "capture_payload (wal_ops_of append commit committed) env channel message_type payload source_sequence transport recovered
      (co_engine ob) = (r, c)" by fastforce
  show ?thesis
  proof (cases r)
    case (Inl e)
    obtain sp' where "log sp' (en_wal c)" "sp_committed sp' = sp_committed sp"
      using capture_payload_error [OF cap [unfolded Inl] ok(1) next_ne] by blast
    then show ?thesis using assms(1) cap Inl ok(2) by (auto simp: capture_and_publish_def observer_stopped_def)
  next
    case (Inr co)
    obtain sp' x where sp': "engine_ok log sp' c" "sp_committed sp' = sp_committed sp @ [co]" "unat (sp_next sp') = unat (sp_next sp) + 1"
        "co_observation co = Some x" "ob_payload x = payload" "recovered_mark x \<longleftrightarrow> recovered"
      using capture_payload_commits [OF cap [unfolded Inr] ok(1)] by blast
    show ?thesis
    proof (cases broker)
      case (Inl m)
      then have "res = Inl (ExitPublish m)" "ob' = ob\<lparr>co_engine := c\<rparr>" using assms(1) cap Inr by (auto simp: capture_and_publish_def)
      moreover have "log sp' (en_wal c)" "sp_committed sp' = co_published ob @ [co]" using sp'(1,2) ok(2) by (simp_all add: engine_ok_def)
      ultimately show ?thesis by (auto simp: observer_stopped_def)
    next
      case (Inr u)
      then have "res = Inr ()" "ob' = ob\<lparr>co_engine := c, co_published := co_published ob @ [co]\<rparr>"
        using assms(1) cap \<open>r = Inr co\<close> by (auto simp: capture_and_publish_def)
      then show ?thesis using sp' ok(2) by (auto simp: observer_ok_def published_bodies_def published_snapshots_def)
    qed
  qed
qed

lemma handle_gap_ok:
  assumes "handle_gap (wal_ops_of append commit committed) i previous ob = (res, ob')" "observer_ok log sp ob" "unat (sp_next sp) + 1 < 2 ^ 64"
    and "reconciler_at ts (co_reconciler ob)" "zn_transport_sequence (nt_notification i) \<noteq> previous + 1"
  shows "case res of
      Inr _ \<Rightarrow> \<exists>sp' s. observer_ok log sp' ob' \<and> unat (sp_next sp') = unat (sp_next sp) + 1 \<and> reconciler_at (ts @ [nt_now i]) (co_reconciler ob') \<and>
        published_bodies ob' = published_bodies ob \<and> nt_rpc i = Inr s \<and>
        published_snapshots ob' = published_snapshots ob @ [ms_source_payload s] \<and> co_topic_sequences ob' = co_topic_sequences ob
    | Inl e \<Rightarrow> observer_stopped log e ob'"
proof -
  obtain x where x: "observe_sequence (ucast (zn_transport_sequence (nt_notification i))) (nt_now i)
        (snd (observe_sequence (ucast previous) (nt_now i) (co_reconciler ob))) = (Some (GapDetected (ucast previous + 1)
          (ucast (zn_transport_sequence (nt_notification i)))), x)"
      "interval_times x = between_times (ts @ [nt_now i])" "mx_open_started_at x = Some (nt_now i)"
    using observe_gap [OF assms(4,5)] by blast
  show ?thesis
  proof (cases "nt_rpc i")
    case (Inl e)
    then show ?thesis using assms(1,2) x(1)
      by (auto simp: handle_gap_def reconciler_recover_def observer_stopped_def observer_ok_def engine_ok_def)
  next
    case (Inr s)
    let ?x = "x\<lparr>mx_current := set (ms_txids s), mx_last_sequence := Some (ms_mempool_sequence s), mx_state := AwaitingAlignment\<rparr>"
    have at: "reconciler_at (ts @ [nt_now i]) ?x" using x by (simp add: reconciler_at_def interval_times_def)
    have call: "capture_and_publish (capture_payload (wal_ops_of append commit committed) (nt_snapshot_env i) ''rpc'' ''getrawmempool_snapshot''
        (ms_source_payload s) (ms_mempool_sequence s) None True) (nt_snapshot_broker i) (ob\<lparr>co_reconciler := ?x\<rparr>) = (res, ob')"
      using assms(1) x(1) Inr by (simp add: handle_gap_def reconciler_recover_def capture_recovered_mempool_snapshot_def)
    have "observer_ok log sp (ob\<lparr>co_reconciler := ?x\<rparr>)" using assms(2) by (simp add: observer_ok_def)
    from capture_and_publish_ok [OF call this assms(3)]
    show ?thesis using at Inr by (auto simp: published_bodies_def published_snapshots_def split: sum.splits)
  qed
qed

lemma handle_notification_ok:
  assumes "handle_notification (wal_ops_of append commit committed) i ob = (res, ob')" "observer_ok log sp ob" "unat (sp_next sp) + 2 < 2 ^ 64"
    and "reconciler_at ts (co_reconciler ob)"
  shows "case res of
      Inr _ \<Rightarrow> \<exists>sp'. observer_ok log sp' ob' \<and> unat (sp_next sp') \<le> unat (sp_next sp) + 2 \<and>
        reconciler_at (ts @ gap_times (co_topic_sequences ob) [i]) (co_reconciler ob') \<and>
        published_bodies ob' = published_bodies ob @ [zn_body (nt_notification i)] \<and>
        length (published_snapshots ob') = length (published_snapshots ob) + length (gap_times (co_topic_sequences ob) [i]) \<and>
        co_topic_sequences ob' = fmupd (zn_topic (nt_notification i)) (zn_transport_sequence (nt_notification i)) (co_topic_sequences ob)
    | Inl e \<Rightarrow> observer_stopped log e ob'"
proof -
  let ?n = "nt_notification i"
  define ob1 where "ob1 = ob\<lparr>co_topic_sequences := fmupd (zn_topic ?n) (zn_transport_sequence ?n) (co_topic_sequences ob)\<rparr>"
  have ok1: "observer_ok log sp ob1" "reconciler_at ts (co_reconciler ob1)" "published_bodies ob1 = published_bodies ob"
    "published_snapshots ob1 = published_snapshots ob"
    using assms(2,4) by (simp_all add: ob1_def observer_ok_def published_bodies_def published_snapshots_def)
  define step where "step = (case sequence_gap ?n (co_topic_sequences ob) of None \<Rightarrow> (Inr (), ob1)
    | Some previous \<Rightarrow> handle_gap (wal_ops_of append commit committed) i previous ob1)"
  obtain r2 ob2 where step2: "step = (r2, ob2)" by fastforce
  have rest: "(res, ob') = (case r2 of Inl e \<Rightarrow> (Inl e, ob2)
      | Inr _ \<Rightarrow> capture_and_publish (core_capture (wal_ops_of append commit committed) (nt_env i) ?n) (nt_broker i) ob2)"
    using assms(1) unfolding handle_notification_def Let_def ob1_def [symmetric] step_def [symmetric] step2 by (simp split: sum.splits)
  have gap: "case r2 of
      Inr _ \<Rightarrow> \<exists>sp'. observer_ok log sp' ob2 \<and> unat (sp_next sp') \<le> unat (sp_next sp) + 1 \<and>
        reconciler_at (ts @ gap_times (co_topic_sequences ob) [i]) (co_reconciler ob2) \<and> published_bodies ob2 = published_bodies ob \<and>
        length (published_snapshots ob2) = length (published_snapshots ob) + length (gap_times (co_topic_sequences ob) [i]) \<and>
        co_topic_sequences ob2 = co_topic_sequences ob1
    | Inl e \<Rightarrow> observer_stopped log e ob2"
  proof (cases "sequence_gap ?n (co_topic_sequences ob)")
    case None
    then have "r2 = Inr ()" "ob2 = ob1" using step2 by (simp_all add: step_def)
    then show ?thesis using ok1 None by (auto intro!: exI [of _ sp])
  next
    case (Some previous)
    then have "zn_transport_sequence ?n \<noteq> previous + 1" by (auto simp: sequence_gap_def split: option.splits if_splits)
    moreover have "handle_gap (wal_ops_of append commit committed) i previous ob1 = (r2, ob2)" using step2 Some by (simp add: step_def)
    ultimately show ?thesis
      using handle_gap_ok [of i previous ob1 r2 ob2 sp ts] ok1 assms(3) Some by (auto split: sum.splits)
  qed
  show ?thesis
  proof (cases r2)
    case (Inl e)
    then show ?thesis using rest gap by simp
  next
    case (Inr u)
    then obtain sp2 where sp2: "observer_ok log sp2 ob2" "unat (sp_next sp2) \<le> unat (sp_next sp) + 1"
        "reconciler_at (ts @ gap_times (co_topic_sequences ob) [i]) (co_reconciler ob2)" "published_bodies ob2 = published_bodies ob"
        "length (published_snapshots ob2) = length (published_snapshots ob) + length (gap_times (co_topic_sequences ob) [i])"
        "co_topic_sequences ob2 = co_topic_sequences ob1"
      using gap by auto
    have call: "capture_and_publish (core_capture (wal_ops_of append commit committed) (nt_env i) ?n) (nt_broker i) ob2 = (res, ob')"
      using rest Inr by simp
    have "unat (sp_next sp2) + 1 < 2 ^ 64" using sp2(2) assms(3) by linarith
    from capture_and_publish_ok [OF call [unfolded core_capture_def] sp2(1) this]
    show ?thesis using sp2 by (fastforce simp: ob1_def split: sum.splits)
  qed
qed

lemma run_observer_ok:
  assumes "run_observer (wal_ops_of append commit committed) is ob = (res, ob')" "observer_ok log sp ob"
    and "unat (sp_next sp) + 2 * length is < 2 ^ 64" "reconciler_at ts (co_reconciler ob)"
  shows "case res of
      Inr _ \<Rightarrow> \<exists>sp'. observer_ok log sp' ob' \<and> reconciler_at (ts @ gap_times (co_topic_sequences ob) is) (co_reconciler ob') \<and>
        published_bodies ob' = published_bodies ob @ map (\<lambda>i. zn_body (nt_notification i)) is \<and>
        length (published_snapshots ob') = length (published_snapshots ob) + length (gap_times (co_topic_sequences ob) is)
    | Inl e \<Rightarrow> observer_stopped log e ob'"
  using assms
proof (induction "is" arbitrary: ob sp ts)
  case (Cons i "is")
  obtain r1 ob1 where h: "handle_notification (wal_ops_of append commit committed) i ob = (r1, ob1)" by fastforce
  have "unat (sp_next sp) + 2 < 2 ^ 64" using Cons.prems(3) by simp
  note one = handle_notification_ok [OF h Cons.prems(2) this Cons.prems(4)]
  show ?case
  proof (cases r1)
    case (Inl e)
    then have "res = Inl e" "ob' = ob1" using Cons.prems(1) h by simp_all
    then show ?thesis using one Inl by simp
  next
    case (Inr u)
    then obtain sp1 where sp1: "observer_ok log sp1 ob1" "unat (sp_next sp1) \<le> unat (sp_next sp) + 2"
        "reconciler_at (ts @ gap_times (co_topic_sequences ob) [i]) (co_reconciler ob1)"
        "published_bodies ob1 = published_bodies ob @ [zn_body (nt_notification i)]"
        "length (published_snapshots ob1) = length (published_snapshots ob) + length (gap_times (co_topic_sequences ob) [i])"
        "co_topic_sequences ob1 = fmupd (zn_topic (nt_notification i)) (zn_transport_sequence (nt_notification i)) (co_topic_sequences ob)"
      using one by auto
    have "run_observer (wal_ops_of append commit committed) is ob1 = (res, ob')" using Cons.prems(1) h Inr by simp
    moreover have "unat (sp_next sp1) + 2 * length is < 2 ^ 64" using sp1(2) Cons.prems(3) by simp
    ultimately show ?thesis using Cons.IH [OF _ sp1(1) _ sp1(3)] sp1(4-6) by (auto split: sum.splits)
  qed
qed (auto simp: observer_ok_def)

end

section \<open>The observer over the file log\<close>

interpretation file_observer: readable_wal "wal_append W" "group_commit W" "\<lambda>sp st. codec_roundtrip W \<and> wal_run W sp st" "wal_committed W" for W
  by unfold_locales (use wal_refines_log_at in blast)

definition file_ops :: "wal_lib \<Rightarrow> file_wal wal_ops" where
  "file_ops W = wal_ops_of (wal_append W) (group_commit W) (wal_committed W)"

definition observer_new :: "string \<Rightarrow> core_network \<Rightarrow> source_session \<Rightarrow> 'w \<Rightarrow> 'w core_observer" where
  "observer_new source network session w = \<lparr>co_engine = engine_new source network session w,
     co_reconciler = reconciler_new source (ss_id session), co_topic_sequences = fmempty, co_published = []\<rparr>"

lemma observer_new_ok:
  assumes "log spec_new w"
  shows "observer_ok log spec_new (observer_new source network (core_session_with_id source i at) w)"
    "reconciler_at [] (co_reconciler (observer_new source network (core_session_with_id source i at) w))"
  using assms
  by (simp_all add: observer_ok_def observer_new_def engine_ok_def engine_new_def spec_new_def core_session_with_id_def numbered_log_def
      reconciler_at_def reconciler_new_def interval_times_def between_times_def)

text \<open>C35: The Bitcoin observer publishes exactly what it has made durable, and all of it. Started on a new session with an empty log, and
  whatever the node, the broker, the clock and the log answer, the published observations are the committed ones in order; only a
  failure of the broker leaves one committed observation unpublished, the last. When no failure ends the loop, the observations
  that are not recovered snapshots carry the bodies of the notifications, each once and in order, and there is one recovered
  snapshot for every gap in the notifications of mempool sequences.\<close>

theorem observer_publishes_durable:
  assumes "codec_roundtrip W" "wal_run W spec_new st" "2 * length is < 2 ^ 64"
    and "run_observer (file_ops W) is (observer_new source network (core_session_with_id source i at) st) = (res, ob)"
  shows "(wal_committed W (en_wal (co_engine ob)) = Inr (co_published ob) \<or>
      (\<exists>m co. res = Inl (ExitPublish m) \<and> wal_committed W (en_wal (co_engine ob)) = Inr (co_published ob @ [co]))) \<and>
    (res = Inr () \<longrightarrow> published_bodies ob = map (\<lambda>i. zn_body (nt_notification i)) is \<and>
      length (published_snapshots ob) = length (gap_times fmempty is))"
proof -
  let ?log = "\<lambda>sp st. codec_roundtrip W \<and> wal_run W sp st" and ?new = "observer_new source network (core_session_with_id source i at) st"
  have start: "observer_ok ?log spec_new ?new" "reconciler_at [] (co_reconciler ?new)"
    using observer_new_ok [of ?log st] assms(1,2) by simp_all
  have "unat (sp_next spec_new) + 2 * length is < 2 ^ 64" using assms(3) by (simp add: spec_new_def)
  note run = file_observer.run_observer_ok [OF assms(4) [unfolded file_ops_def] start(1) this start(2)]
  have reads: "wal_committed W st' = Inr (sp_committed sp)" if "?log sp st'" for sp st' using that wal_refines_log_at by blast
  show ?thesis
  proof (cases res)
    case (Inl e)
    then obtain sp where "?log sp (en_wal (co_engine ob))"
      "sp_committed sp = co_published ob \<or> (\<exists>m co. e = ExitPublish m \<and> sp_committed sp = co_published ob @ [co])"
      using run by (auto simp: observer_stopped_def)
    then show ?thesis using reads [of sp] Inl by auto
  next
    case (Inr u)
    then obtain sp where "observer_ok ?log sp ob" "published_bodies ob = published_bodies ?new @ map (\<lambda>i. zn_body (nt_notification i)) is"
      "length (published_snapshots ob) = length (published_snapshots ?new) + length (gap_times (co_topic_sequences ?new) is)"
      using run by auto
    moreover have "published_bodies ?new = []" "published_snapshots ?new = []" "co_topic_sequences ?new = fmempty"
      by (simp_all add: observer_new_def published_bodies_def published_snapshots_def observations_def List.map_filter_def)
    ultimately show ?thesis using reads [of sp] by (auto simp: observer_ok_def engine_ok_def)
  qed
qed

text \<open>The reconciler does not depend on the log.\<close>

lemma capture_and_publish_reconciler:
  "capture_and_publish cap broker ob = (res, ob') \<Longrightarrow> co_reconciler ob' = co_reconciler ob \<and> co_topic_sequences ob' = co_topic_sequences ob"
  by (auto simp: capture_and_publish_def split: prod.splits sum.splits)

lemma handle_gap_reconciler:
  assumes "handle_gap W i previous ob = (Inr u, ob')" "reconciler_at ts (co_reconciler ob)"
    and "zn_transport_sequence (nt_notification i) \<noteq> previous + 1"
  shows "reconciler_at (ts @ [nt_now i]) (co_reconciler ob') \<and> co_topic_sequences ob' = co_topic_sequences ob"
proof -
  obtain x where x: "observe_sequence (ucast (zn_transport_sequence (nt_notification i))) (nt_now i)
        (snd (observe_sequence (ucast previous) (nt_now i) (co_reconciler ob))) = (Some (GapDetected (ucast previous + 1)
          (ucast (zn_transport_sequence (nt_notification i)))), x)"
      "interval_times x = between_times (ts @ [nt_now i])" "mx_open_started_at x = Some (nt_now i)"
    using observe_gap [OF assms(2,3)] by blast
  then show ?thesis
    using assms(1) by (cases "nt_rpc i")
      (auto simp: handle_gap_def reconciler_recover_def reconciler_at_def interval_times_def dest!: capture_and_publish_reconciler)
qed

lemma handle_notification_reconciler:
  assumes "handle_notification W i ob = (Inr u, ob')" "reconciler_at ts (co_reconciler ob)"
  shows "reconciler_at (ts @ gap_times (co_topic_sequences ob) [i]) (co_reconciler ob') \<and>
    co_topic_sequences ob' = fmupd (zn_topic (nt_notification i)) (zn_transport_sequence (nt_notification i)) (co_topic_sequences ob)"
proof (cases "sequence_gap (nt_notification i) (co_topic_sequences ob)")
  case None
  then show ?thesis using assms by (auto simp: handle_notification_def Let_def dest!: capture_and_publish_reconciler)
next
  case (Some previous)
  then have "zn_transport_sequence (nt_notification i) \<noteq> previous + 1" by (auto simp: sequence_gap_def split: option.splits if_splits)
  then show ?thesis using assms Some
    by (auto simp: handle_notification_def Let_def split: prod.splits sum.splits dest!: capture_and_publish_reconciler handle_gap_reconciler)
qed

lemma run_observer_reconciler:
  "run_observer W is ob = (Inr u, ob') \<Longrightarrow> reconciler_at ts (co_reconciler ob) \<Longrightarrow>
     reconciler_at (ts @ gap_times (co_topic_sequences ob) is) (co_reconciler ob')"
proof (induction "is" arbitrary: ob ts)
  case (Cons i "is")
  then obtain u1 ob1 where one: "handle_notification W i ob = (Inr u1, ob1)" "run_observer W is ob1 = (Inr u, ob')"
    by (auto split: prod.splits sum.splits)
  from handle_notification_reconciler [OF one(1) Cons.prems(2)] Cons.IH [OF one(2)] show ?case by fastforce
qed simp

text \<open>C38: An incomplete interval lasts until the next gap. After any run that no failure has ended, the intervals of the reconciler
  reach from each gap in the notifications of mempool sequences to the gap after it, and the one of the last gap is still
  open: the sequence numbers that follow a recovered snapshot are never shown to the reconciler.\<close>

theorem incomplete_interval_ends_at_next_gap:
  assumes "run_observer W is (observer_new source network (core_session_with_id source i at) w) = (Inr (), ob)"
  shows "interval_times (co_reconciler ob) = between_times (gap_times fmempty is) \<and>
    mx_open_started_at (co_reconciler ob) = (if gap_times fmempty is = [] then None else Some (last (gap_times fmempty is)))"
proof -
  let ?new = "observer_new source network (core_session_with_id source i at) w"
  have "reconciler_at [] (co_reconciler ?new)"
    by (simp add: reconciler_at_def observer_new_def reconciler_new_def interval_times_def between_times_def)
  from run_observer_reconciler [OF assms this] show ?thesis by (auto simp: reconciler_at_def observer_new_def)
qed

section \<open>Examples\<close>

definition sample_core_env :: core_env where
  "sample_core_env = \<lparr>ce_sha256 = (\<lambda>_. 0), ce_blake3 = (\<lambda>_. 0), ce_wall = 0, ce_monotonic = 0, ce_durable_at = 0\<rparr>"

definition sample_notice :: "u32 \<Rightarrow> i64 \<Rightarrow> notice" where
  "sample_notice n now = \<lparr>nt_notification = \<lparr>zn_topic = ''sequence'', zn_body = [], zn_transport_sequence = n\<rparr>, nt_now = now,
     nt_rpc = Inr \<lparr>ms_txids = [], ms_mempool_sequence = 7, ms_source_payload = [1]\<rparr>, nt_snapshot_env = sample_core_env,
     nt_snapshot_broker = Inr (), nt_env = sample_core_env, nt_broker = Inr ()\<rparr>"

theorem observer_publishes_durable_witness:
  "\<exists>res ob. run_observer (file_ops sample_wal_lib) [sample_notice 1 10, sample_notice 5 20]
       (observer_new ''n'' CoreRegtest (core_session_with_id ''n'' 0 0) sample_wal) = (res, ob) \<and>
     (wal_committed sample_wal_lib (en_wal (co_engine ob)) = Inr (co_published ob) \<or>
      (\<exists>m co. res = Inl (ExitPublish m) \<and> wal_committed sample_wal_lib (en_wal (co_engine ob)) = Inr (co_published ob @ [co])))"
proof -
  have run: "wal_run sample_wal_lib spec_new sample_wal" using sample_open by (auto intro: run_open [of fmempty "''w''"])
  obtain res ob where "run_observer (file_ops sample_wal_lib) [sample_notice 1 10, sample_notice 5 20]
      (observer_new ''n'' CoreRegtest (core_session_with_id ''n'' 0 0) sample_wal) = (res, ob)" by fastforce
  with observer_publishes_durable [OF sample_codec_roundtrip run _ this] show ?thesis by auto
qed

text \<open>A log in memory that keeps what it is given.\<close>

definition memory_ops :: "committed_observation list wal_ops" where
  "memory_ops = \<lparr>wo_append = (\<lambda>x w. (Inr \<lparr>po_observation = x, po_wal_offset = 0\<rparr>,
       w @ [\<lparr>co_observation = Some x, co_durable_at_unix_ns = 0, co_wal_commit_hash = []\<rparr>])),
     wo_commit = (\<lambda>at w. (Inr \<lparr>cr_first_sequence = 0, cr_last_sequence = 0, cr_durable_at_unix_ns = at, cr_commit_hash = 0\<rparr>, w)),
     wo_committed = Inr\<rparr>"

definition sample_notices :: "notice list" where
  "sample_notices = [sample_notice 1 10, sample_notice 5 20, sample_notice 6 30, sample_notice 9 40, sample_notice 3 50]"

lemma sample_notices_run:
  "\<exists>ob. run_observer memory_ops sample_notices (observer_new ''n'' CoreRegtest (core_session_with_id ''n'' 0 0) []) = (Inr (), ob)"
  by (simp add: sample_notices_def sample_notice_def memory_ops_def observer_new_def engine_new_def core_session_with_id_def reconciler_new_def
      handle_notification_def handle_gap_def sequence_gap_def observe_sequence_def reconciler_recover_def close_interval_def
      capture_and_publish_def capture_recovered_mempool_snapshot_def core_capture_def capture_payload_def allocate_def core_builder_def
      builder_new_def build_def required_def required_text_def mark_observation_def has_sequence_def sample_core_env_def
      saturating_add_def str_blank.simps ws_len_def byte_of_def Let_def)

theorem incomplete_interval_ends_at_next_gap_witness:
  "\<exists>ob. run_observer memory_ops sample_notices (observer_new ''n'' CoreRegtest (core_session_with_id ''n'' 0 0) []) = (Inr (), ob) \<and>
     interval_times (co_reconciler ob) = [(20, Some 40), (40, Some 50)] \<and> mx_open_started_at (co_reconciler ob) = Some 50"
proof -
  obtain ob where ob: "run_observer memory_ops sample_notices (observer_new ''n'' CoreRegtest (core_session_with_id ''n'' 0 0) []) = (Inr (), ob)"
    using sample_notices_run by blast
  have "gap_times fmempty sample_notices = [20, 40, 50]" by (simp add: sample_notices_def sample_notice_def sequence_gap_def)
  then show ?thesis using ob incomplete_interval_ends_at_next_gap [OF ob] by (simp add: between_times_def)
qed

end
