(* ===== verification/Evm_Connectors.thy ===== *)
theory Evm_Connectors
  imports Ethereum_Canonicality Bsc_Canonicality Source_Runtime
begin

text \<open>
  The adapters of execution and consensus nodes (\<open>connectors/ethereum-reth\<close>, \<open>connectors/bsc\<close>, \<open>connectors/ethereum-consensus\<close>): their
  configuration and endpoint checks, the request plans they hand to the polling transport, and the recorded responses with
  their parsed content. JSON, the hash reader, SHA-256 and the URL parser are parameters.
\<close>

section \<open>Endpoints\<close>

fun contains_whitespace :: "string \<Rightarrow> bool" where
  "contains_whitespace [] = False"
| "contains_whitespace (c # s) = (ws_len (c # s) \<noteq> 0 \<or> contains_whitespace s)"

definition strip_prefix :: "string \<Rightarrow> string \<Rightarrow> string option" where
  "strip_prefix p s = (if take (length p) s = p then Some (drop (length p) s) else None)"

text \<open>The host of an authority: between brackets, or up to the first colon.\<close>

definition authority_host :: "string \<Rightarrow> string" where
  "authority_host authority =
     (case strip_prefix ''['' authority of
        Some ipv6 \<Rightarrow> (case split_once (CHR '']'') ipv6 of Some (host, _) \<Rightarrow> host | None \<Rightarrow> [])
      | None \<Rightarrow> (case split_once (CHR '':'') authority of Some (host, _) \<Rightarrow> host | None \<Rightarrow> authority))"

definition is_loopback_endpoint :: "string \<Rightarrow> string list \<Rightarrow> bool" where
  "is_loopback_endpoint endpoint schemes =
     list_ex (\<lambda>scheme. case strip_prefix scheme endpoint of
         None \<Rightarrow> False
       | Some rest \<Rightarrow> authority_host (takeWhile (\<lambda>c. c \<notin> set ''/?#'') rest) \<in> {''127.0.0.1'', ''localhost'', ''::1''}) schemes"

definition safe_endpoint :: "string list \<Rightarrow> string list \<Rightarrow> string \<Rightarrow> bool" where
  "safe_endpoint secure_schemes loopback_schemes endpoint \<longleftrightarrow>
     CHR ''@'' \<notin> set endpoint \<and> \<not> contains_whitespace endpoint \<and> endpoint \<noteq> [] \<and>
     (list_ex (\<lambda>p. strip_prefix p endpoint \<noteq> None) secure_schemes \<or> is_loopback_endpoint endpoint loopback_schemes)"

section \<open>Blocks of the node\<close>

record connector_lib =
  cl_hash_parse :: "string \<Rightarrow> digest option"
  cl_sha256 :: "bytes \<Rightarrow> digest"
  cl_parse_url :: "string \<Rightarrow> url_parts option"
  cl_request :: "string \<Rightarrow> string option \<Rightarrow> nat \<Rightarrow> bytes option"

record raw_connector_block =
  rb_number :: string
  rb_hash :: string
  rb_parent_hash :: string

definition connector_hash :: "connector_lib \<Rightarrow> (string \<Rightarrow> 'e) \<Rightarrow> string \<Rightarrow> 'e + digest" where
  "connector_hash K err s = ok_or (cl_hash_parse K s) (err s)"

definition connector_block :: "connector_lib \<Rightarrow> (string \<Rightarrow> 'e + u64) \<Rightarrow> (string \<Rightarrow> 'e) \<Rightarrow> raw_connector_block \<Rightarrow> 'e + execution_block" where
  "connector_block K quantity hash_err b =
     and_then (quantity (rb_number b)) (\<lambda>number.
     and_then (connector_hash K hash_err (rb_hash b)) (\<lambda>h.
     and_then (connector_hash K hash_err (rb_parent_hash b)) (\<lambda>p.
     Inr \<lparr>blk_number = number, blk_hash = h, blk_parent_hash = p\<rparr>)))"

text \<open>Requests with a block tag, numbered in the order of the plan.\<close>

definition plan_request :: "connector_lib \<Rightarrow> string \<Rightarrow> string \<times> string \<times> string option \<times> nat \<Rightarrow> source_loop_error + http_request_spec" where
  "plan_request K endpoint r =
     (case r of (message_type, rpc_method, tag, i) \<Rightarrow>
        http_json_rpc (cl_parse_url K) (cl_request K rpc_method tag i) endpoint ''json_rpc'' message_type)"

fun plan_requests :: "connector_lib \<Rightarrow> string \<Rightarrow> (string \<times> string \<times> string option \<times> nat) list \<Rightarrow> source_loop_error + http_request_spec list" where
  "plan_requests K endpoint [] = Inr []"
| "plan_requests K endpoint (r # rs) =
     and_then (plan_request K endpoint r) (\<lambda>q. and_then (plan_requests K endpoint rs) (\<lambda>qs. Inr (q # qs)))"

section \<open>Reth\<close>

datatype reth_error =
    RethEmptySourceId
  | RethWrongChainId u64
  | RethUnsafeEndpoint
  | RethInvalidJson string
  | RethInvalidQuantity string
  | RethInvalidHash string
  | RethEmptyTransition
  | RethHttpPlan source_loop_error

record node_config =
  nc_source_id :: string
  nc_endpoint :: string

definition reth_validate_endpoint :: "string \<Rightarrow> reth_error + unit" where
  "reth_validate_endpoint endpoint =
     (if safe_endpoint [''https://'', ''wss://''] [''http://'', ''ws://''] endpoint then Inr () else Inl RethUnsafeEndpoint)"

definition reth_config_new :: "string \<Rightarrow> string \<Rightarrow> u64 \<Rightarrow> reth_error + node_config" where
  "reth_config_new source endpoint chain =
     (if str_blank source \<or> \<not> str_is_ascii source then Inl RethEmptySourceId
      else if chain \<noteq> 1 then Inl (RethWrongChainId chain)
      else and_then (reth_validate_endpoint endpoint) (\<lambda>_. Inr \<lparr>nc_source_id = source, nc_endpoint = endpoint\<rparr>))"

definition reth_http_poll_plan :: "connector_lib \<Rightarrow> node_config \<Rightarrow> reth_error + http_request_spec list" where
  "reth_http_poll_plan K c = map_sum RethHttpPlan id (plan_requests K (nc_endpoint c)
     [(''eth_chainId'', ''eth_chainId'', None, 1),
      (''eth_getBlockByNumber.latest'', ''eth_getBlockByNumber'', Some ''latest'', 2),
      (''eth_getBlockByNumber.safe'', ''eth_getBlockByNumber'', Some ''safe'', 3),
      (''eth_getBlockByNumber.finalized'', ''eth_getBlockByNumber'', Some ''finalized'', 4)])"

datatype 'b transition_of = Committed "'b list" | Reorged "'b list" "'b list" | Reverted "'b list"

type_synonym reth_transition = "execution_block transition_of"
type_synonym raw_notification = "raw_connector_block transition_of"

record recorded_reth_notification =
  rn_source_id :: string
  rn_raw_json :: bytes
  rn_raw_json_sha256 :: digest
  rn_transition :: reth_transition

definition reth_parse_quantity :: "string \<Rightarrow> reth_error + u64" where
  "reth_parse_quantity = parse_quantity RethInvalidQuantity"

definition reth_parse_block :: "connector_lib \<Rightarrow> raw_connector_block \<Rightarrow> reth_error + execution_block" where
  "reth_parse_block K = connector_block K reth_parse_quantity RethInvalidHash"

fun parse_blocks :: "connector_lib \<Rightarrow> raw_connector_block list \<Rightarrow> reth_error + execution_block list" where
  "parse_blocks K [] = Inr []"
| "parse_blocks K (b # bs) =
     and_then (reth_parse_block K b) (\<lambda>x. and_then (parse_blocks K bs) (\<lambda>xs. Inr (x # xs)))"

fun parse_transition :: "connector_lib \<Rightarrow> raw_notification \<Rightarrow> reth_error + reth_transition" where
  "parse_transition K (Committed new) = and_then (parse_blocks K new) (\<lambda>n. Inr (Committed n))"
| "parse_transition K (Reorged old new) = and_then (parse_blocks K old) (\<lambda>x. and_then (parse_blocks K new) (\<lambda>n. Inr (Reorged x n)))"
| "parse_transition K (Reverted old) = and_then (parse_blocks K old) (\<lambda>x. Inr (Reverted x))"

fun empty_transition :: "'b transition_of \<Rightarrow> bool" where
  "empty_transition (Committed new) \<longleftrightarrow> new = []"
| "empty_transition (Reorged old new) \<longleftrightarrow> old = [] \<or> new = []"
| "empty_transition (Reverted old) \<longleftrightarrow> old = []"

definition reth_notification_from_json ::
  "connector_lib \<Rightarrow> (bytes \<Rightarrow> string + raw_notification) \<Rightarrow> string \<Rightarrow> bytes \<Rightarrow> reth_error + recorded_reth_notification" where
  "reth_notification_from_json K json source raw =
     (if str_blank source \<or> \<not> str_is_ascii source then Inl RethEmptySourceId
      else and_then (map_sum RethInvalidJson id (json raw)) (\<lambda>v.
        and_then (parse_transition K v) (\<lambda>t.
        if empty_transition t then Inl RethEmptyTransition
        else Inr \<lparr>rn_source_id = source, rn_raw_json = raw, rn_raw_json_sha256 = cl_sha256 K raw, rn_transition = t\<rparr>)))"

section \<open>BNB Smart Chain\<close>

datatype bsc_node_kind = OfficialBsc | GenericEthereum

datatype bsc_connector_error =
    BscConnEmptySourceId
  | BscConnWrongChainId u64
  | BscConnWrongClient
  | BscConnUnsafeEndpoint
  | BscConnInvalidJson string
  | BscConnInvalidQuantity string
  | BscConnInvalidHash string
  | BscConnFinalizedAboveHead
  | BscConnInvalidObservationTime
  | BscConnHttpPlan source_loop_error

definition bsc_validate_endpoint :: "string \<Rightarrow> bsc_connector_error + unit" where
  "bsc_validate_endpoint endpoint =
     (if safe_endpoint [''https://'', ''wss://''] [''http://'', ''ws://''] endpoint then Inr () else Inl BscConnUnsafeEndpoint)"

definition bsc_config_new :: "string \<Rightarrow> string \<Rightarrow> u64 \<Rightarrow> bsc_node_kind \<Rightarrow> bsc_connector_error + node_config" where
  "bsc_config_new source endpoint chain kind =
     (if str_blank source \<or> \<not> str_is_ascii source then Inl BscConnEmptySourceId
      else if chain \<noteq> 56 then Inl (BscConnWrongChainId chain)
      else if kind \<noteq> OfficialBsc then Inl BscConnWrongClient
      else and_then (bsc_validate_endpoint endpoint) (\<lambda>_. Inr \<lparr>nc_source_id = source, nc_endpoint = endpoint\<rparr>))"

definition bsc_http_poll_plan :: "connector_lib \<Rightarrow> node_config \<Rightarrow> bsc_connector_error + http_request_spec list" where
  "bsc_http_poll_plan K c = map_sum BscConnHttpPlan id (plan_requests K (nc_endpoint c)
     [(''web3_clientVersion'', ''web3_clientVersion'', None, 1), (''eth_chainId'', ''eth_chainId'', None, 2), (''eth_health'', ''eth_health'', None, 3),
      (''eth_getBlockByNumber.latest'', ''eth_getBlockByNumber'', Some ''latest'', 4),
      (''eth_getBlockByNumber.safe'', ''eth_getBlockByNumber'', Some ''safe'', 5),
      (''eth_getBlockByNumber.finalized'', ''eth_getBlockByNumber'', Some ''finalized'', 6)])"

record raw_heads =
  rh_chain_id :: string
  rh_client :: string
  rh_head :: raw_connector_block
  rh_finalized :: raw_connector_block
  rh_observed_at_unix_ms :: u64

record recorded_bsc_heads =
  bh_source_id :: string
  bh_chain_id :: u64
  bh_head :: execution_block
  bh_finalized :: execution_block
  bh_observed_at_unix_ms :: u64
  bh_raw_json :: bytes
  bh_raw_json_sha256 :: digest

definition bsc_parse_quantity :: "string \<Rightarrow> bsc_connector_error + u64" where
  "bsc_parse_quantity = parse_quantity BscConnInvalidQuantity"

definition bsc_parse_block :: "connector_lib \<Rightarrow> raw_connector_block \<Rightarrow> bsc_connector_error + execution_block" where
  "bsc_parse_block K = connector_block K bsc_parse_quantity BscConnInvalidHash"

definition bsc_heads_from_json ::
  "connector_lib \<Rightarrow> (bytes \<Rightarrow> string + raw_heads) \<Rightarrow> string \<Rightarrow> bytes \<Rightarrow> bsc_connector_error + recorded_bsc_heads" where
  "bsc_heads_from_json K json source raw =
     (if str_blank source \<or> \<not> str_is_ascii source then Inl BscConnEmptySourceId
      else and_then (map_sum BscConnInvalidJson id (json raw)) (\<lambda>v.
        and_then (bsc_parse_quantity (rh_chain_id v)) (\<lambda>chain.
        if chain \<noteq> 56 then Inl (BscConnWrongChainId chain)
        else if rh_client v \<noteq> ''bnb-chain/bsc'' then Inl BscConnWrongClient
        else and_then (bsc_parse_block K (rh_head v)) (\<lambda>h.
          and_then (bsc_parse_block K (rh_finalized v)) (\<lambda>f.
          if blk_number h < blk_number f then Inl BscConnFinalizedAboveHead
          else if rh_observed_at_unix_ms v = 0 then Inl BscConnInvalidObservationTime
          else Inr \<lparr>bh_source_id = source, bh_chain_id = chain, bh_head = h, bh_finalized = f,
            bh_observed_at_unix_ms = rh_observed_at_unix_ms v, bh_raw_json = raw, bh_raw_json_sha256 = cl_sha256 K raw\<rparr>)))))"

section \<open>Consensus checkpoints\<close>

datatype consensus_error =
    ConsEmptySourceId
  | ConsUnsafeEndpoint
  | ConsInvalidJson string
  | ConsInvalidQuantity string
  | ConsInvalidHash string
  | ConsSlotRegression u64 u64
  | ConsHttpPlan source_loop_error

definition consensus_validate_endpoint :: "string \<Rightarrow> consensus_error + unit" where
  "consensus_validate_endpoint endpoint =
     (if safe_endpoint [''https://''] [''http://''] endpoint then Inr () else Inl ConsUnsafeEndpoint)"

definition consensus_config_new :: "string \<Rightarrow> string \<Rightarrow> consensus_error + node_config" where
  "consensus_config_new source endpoint =
     (if str_blank source \<or> \<not> str_is_ascii source then Inl ConsEmptySourceId
      else and_then (consensus_validate_endpoint endpoint) (\<lambda>_. Inr \<lparr>nc_source_id = source, nc_endpoint = endpoint\<rparr>))"

definition consensus_http_poll_plan :: "connector_lib \<Rightarrow> node_config \<Rightarrow> consensus_error + http_request_spec list" where
  "consensus_http_poll_plan K c =
     (let base = rev (dropWhile (\<lambda>x. x = CHR ''/'') (rev (nc_endpoint c)))
      in map_sum ConsHttpPlan id
        (and_then (http_get (cl_parse_url K) (base @ ''/eth/v2/beacon/blocks/head'') ''beacon_api'' ''beacon_block.head'') (\<lambda>a.
         and_then (http_get (cl_parse_url K) (base @ ''/eth/v2/beacon/blocks/finalized'') ''beacon_api'' ''beacon_block.finalized'') (\<lambda>b.
         Inr [a, b]))))"

record raw_checkpoint =
  rk_slot :: string
  rk_head_execution_payload_hash :: string
  rk_safe_execution_payload_hash :: string
  rk_finalized_execution_payload_hash :: string

record recorded_consensus_checkpoint =
  rcc_source_id :: string
  rcc_slot :: u64
  rcc_head :: digest
  rcc_safe :: digest
  rcc_finalized :: digest
  rcc_raw_json :: bytes
  rcc_raw_json_sha256 :: digest

definition consensus_parse_quantity :: "string \<Rightarrow> consensus_error + u64" where
  "consensus_parse_quantity = parse_quantity ConsInvalidQuantity"

definition consensus_parse_hash :: "connector_lib \<Rightarrow> string \<Rightarrow> consensus_error + digest" where
  "consensus_parse_hash K = connector_hash K ConsInvalidHash"

definition consensus_from_json ::
  "connector_lib \<Rightarrow> (bytes \<Rightarrow> string + raw_checkpoint) \<Rightarrow> string \<Rightarrow> bytes \<Rightarrow> consensus_error + recorded_consensus_checkpoint" where
  "consensus_from_json K json source raw =
     (if str_blank source \<or> \<not> str_is_ascii source then Inl ConsEmptySourceId
      else and_then (map_sum ConsInvalidJson id (json raw)) (\<lambda>v.
        and_then (consensus_parse_quantity (rk_slot v)) (\<lambda>slot.
        and_then (consensus_parse_hash K (rk_head_execution_payload_hash v)) (\<lambda>h.
        and_then (consensus_parse_hash K (rk_safe_execution_payload_hash v)) (\<lambda>s.
        and_then (consensus_parse_hash K (rk_finalized_execution_payload_hash v)) (\<lambda>f.
        Inr \<lparr>rcc_source_id = source, rcc_slot = slot, rcc_head = h, rcc_safe = s, rcc_finalized = f, rcc_raw_json = raw,
          rcc_raw_json_sha256 = cl_sha256 K raw\<rparr>))))))"

definition recorded_checkpoint :: "recorded_consensus_checkpoint \<Rightarrow> ethereum_error + ethereum_checkpoint" where
  "recorded_checkpoint r = ethereum_checkpoint_new (rcc_head r) (rcc_safe r) (rcc_finalized r) (rcc_source_id r)"

record consensus_cursor =
  cc_last_slot :: "u64 option"

definition consensus_cursor_new :: consensus_cursor where
  "consensus_cursor_new = \<lparr>cc_last_slot = None\<rparr>"

definition cursor_observe :: "recorded_consensus_checkpoint \<Rightarrow> consensus_cursor \<Rightarrow> (consensus_error + unit) \<times> consensus_cursor" where
  "cursor_observe r c =
     (case cc_last_slot c of
        Some before \<Rightarrow> if rcc_slot r \<le> before then (Inl (ConsSlotRegression before (rcc_slot r)), c) else (Inr (), c\<lparr>cc_last_slot := Some (rcc_slot r)\<rparr>)
      | None \<Rightarrow> (Inr (), c\<lparr>cc_last_slot := Some (rcc_slot r)\<rparr>))"

section \<open>Recorded evidence and the trackers\<close>

text \<open>Evidence that a connector has recorded keeps the exact response with its digest and is accepted by the constructor of
  the tracker that it is meant for; the recorded heads of BNB Smart Chain are ordered and of that chain.\<close>

theorem recorded_checkpoint_is_accepted:
  assumes "consensus_from_json K json source raw = Inr r"
  shows "\<exists>c. recorded_checkpoint r = Inr c \<and> cp_source_id c = source \<and> rcc_raw_json r = raw \<and> rcc_raw_json_sha256 r = cl_sha256 K raw"
  using assms by (auto simp: consensus_from_json_def recorded_checkpoint_def ethereum_checkpoint_new_def rust_result split: if_splits)

theorem recorded_heads_are_accepted:
  assumes "bsc_heads_from_json K json source raw = Inr r"
  shows "(\<exists>ob. bsc_finality_observation_new (blk_hash (bh_finalized r)) (blk_hash (bh_head r)) (bh_source_id r) (bh_observed_at_unix_ms r) = Inr ob) \<and>
    bh_chain_id r = 56 \<and> blk_number (bh_finalized r) \<le> blk_number (bh_head r) \<and> bh_raw_json r = raw"
  using assms by (auto simp: bsc_heads_from_json_def bsc_finality_observation_new_def rust_result split: if_splits)

fun cursor_accepts :: "recorded_consensus_checkpoint list \<Rightarrow> consensus_cursor \<Rightarrow> u64 list" where
  "cursor_accepts [] c = []"
| "cursor_accepts (r # rs) c =
     (case cursor_observe r c of (Inl _, c') \<Rightarrow> cursor_accepts rs c' | (Inr _, c') \<Rightarrow> rcc_slot r # cursor_accepts rs c')"

lemma cursor_accepts_increase:
  "sorted_wrt (<) (case cc_last_slot c of None \<Rightarrow> cursor_accepts rs c | Some n \<Rightarrow> n # cursor_accepts rs c)"
proof (induction rs arbitrary: c)
  case (Cons r rs)
  show ?case
  proof (cases "\<exists>n. cc_last_slot c = Some n \<and> rcc_slot r \<le> n")
    case True
    with Cons.IH [of c] show ?thesis by (auto simp: cursor_observe_def)
  next
    case False
    with Cons.IH [of "c\<lparr>cc_last_slot := Some (rcc_slot r)\<rparr>"] show ?thesis
      by (auto simp: cursor_observe_def not_le split: option.splits dest: less_trans)
  qed
qed (simp split: option.split)

text \<open>The slots that a consensus cursor has accepted strictly increase, whatever it is shown.\<close>

theorem consensus_slots_increase: "sorted_wrt (<) (cursor_accepts rs consensus_cursor_new)"
  using cursor_accepts_increase [where c = consensus_cursor_new and rs = rs] by (simp add: consensus_cursor_new_def)

end
