(* ===== verification/Yellowstone_Connector.thy ===== *)
theory Yellowstone_Connector
  imports Solana_Domain Source_Runtime "HOL-Library.List_Lexorder" "HOL-Library.Char_ord"
begin

text \<open>
  The Yellowstone adapter of \<open>connectors/solana-yellowstone/src/lib.rs\<close>: the checks of a provider configuration and of the
  two-source deployment, the subscription, decoding with the exact bytes kept, the cursor of a session with its gaps, and the
  reconciler of the two providers. URL parsing, base58, protobuf decoding, the environment and the client are parameters.
\<close>

section \<open>Configuration\<close>

definition MAX_SELECTED_ACCOUNTS :: nat where "MAX_SELECTED_ACCOUNTS = 1024"
definition MAX_YELLOWSTONE_MESSAGE_BYTES :: nat where "MAX_YELLOWSTONE_MESSAGE_BYTES = 32 * 1024 * 1024"

datatype yellowstone_error =
    YsInvalidIdentity string
  | YsInvalidEndpoint
  | YsInvalidTokenEnvironment
  | YsMissingTokenEnvironment string
  | YsInvalidAccountSelection nat
  | YsDuplicateSelectedAccount
  | YsSourcesNotIndependent
  | YsClient string
  | YsMessageTooLarge nat
  | YsDecode string
  | YsEmptyUpdate
  | YsInvalidSourceSequence
  | YsSequenceOverflow
  | YsInvalidObservedTime
  | YsReusedSessionId
  | YsUnknownSource
  | YsSlotRegression

definition validated_identity :: "string \<Rightarrow> string \<Rightarrow> yellowstone_error + string" where
  "validated_identity v field = (if str_blank v \<or> \<not> str_is_ascii v then Inl (YsInvalidIdentity field) else Inr v)"

text \<open>The further parts of a parsed URL that the endpoint check reads.\<close>

record endpoint_url = url_parts +
  url_query :: "string option"
  url_fragment :: "string option"
  url_host :: "string option"

definition ys_validate_endpoint :: "(string \<Rightarrow> endpoint_url option) \<Rightarrow> string \<Rightarrow> yellowstone_error + unit" where
  "ys_validate_endpoint parse endpoint =
     and_then (ok_or (parse endpoint) YsInvalidEndpoint) (\<lambda>u.
       if url_scheme u \<noteq> ''https'' \<or> url_username u \<noteq> [] \<or> url_password u \<noteq> None \<or> url_query u \<noteq> None \<or>
         url_fragment u \<noteq> None \<or> url_host u = None
       then Inl YsInvalidEndpoint else Inr ())"

definition is_ascii_uppercase :: "char \<Rightarrow> bool" where
  "is_ascii_uppercase c \<longleftrightarrow> 65 \<le> byte_of c \<and> byte_of c \<le> 90"

fun is_environment_name :: "string \<Rightarrow> bool" where
  "is_environment_name [] = False"
| "is_environment_name (c # s) \<longleftrightarrow> (is_ascii_uppercase c \<or> c = CHR ''_'') \<and>
     list_all (\<lambda>x. is_ascii_uppercase x \<or> is_ascii_digit x \<or> x = CHR ''_'') s"

record yellowstone_config =
  yc_source_id :: string
  yc_provider_id :: string
  yc_endpoint :: string
  yc_token_env :: "string option"
  yc_selected_accounts :: "pubkey list"

definition yellowstone_config_new ::
  "(string \<Rightarrow> endpoint_url option) \<Rightarrow> string \<Rightarrow> string \<Rightarrow> string \<Rightarrow> string option \<Rightarrow> pubkey list \<Rightarrow> yellowstone_error + yellowstone_config" where
  "yellowstone_config_new parse source provider endpoint token_env selected =
     and_then (validated_identity source ''source_id'') (\<lambda>source_id.
     and_then (validated_identity provider ''provider_id'') (\<lambda>provider_id.
     and_then (ys_validate_endpoint parse endpoint) (\<lambda>_.
     if (case token_env of None \<Rightarrow> False | Some name \<Rightarrow> \<not> is_environment_name name) then Inl YsInvalidTokenEnvironment
     else if selected = [] \<or> MAX_SELECTED_ACCOUNTS < length selected then Inl (YsInvalidAccountSelection (length selected))
     else if card (set selected) \<noteq> length selected then Inl YsDuplicateSelectedAccount
     else Inr \<lparr>yc_source_id = source_id, yc_provider_id = provider_id, yc_endpoint = endpoint, yc_token_env = token_env,
       yc_selected_accounts = selected\<rparr>)))"

record slots_filter =
  sf_filter_by_commitment :: "bool option"
  sf_interslot_updates :: "bool option"

record transactions_filter =
  tf_vote :: "bool option"
  tf_failed :: "bool option"
  tf_signature :: "string option"
  tf_account_include :: "string list"
  tf_account_exclude :: "string list"
  tf_account_required :: "string list"
  tf_token_accounts :: "nat option"

record accounts_filter =
  af_account :: "string list"
  af_owner :: "string list"
  af_filters :: "unit list"
  af_nonempty_txn_signature :: "bool option"
  af_cuckoo_accounts_filter :: "unit option"

record subscribe_request =
  sq_accounts :: "(string, accounts_filter) fmap"
  sq_slots :: "(string, slots_filter) fmap"
  sq_transactions :: "(string, transactions_filter) fmap"
  sq_transactions_status :: "(string, transactions_filter) fmap"
  sq_blocks :: "(string, unit) fmap"
  sq_blocks_meta :: "(string, unit) fmap"
  sq_entry :: "(string, unit) fmap"
  sq_commitment :: "nat option"
  sq_accounts_data_slice :: "unit list"
  sq_ping :: "unit option"
  sq_from_slot :: "u64 option"

definition subscribe_request :: "(pubkey \<Rightarrow> string) \<Rightarrow> yellowstone_config \<Rightarrow> subscribe_request" where
  "subscribe_request key_string c = \<lparr>
     sq_accounts = fmupd ''selected-accounts'' \<lparr>af_account = map key_string (yc_selected_accounts c), af_owner = [], af_filters = [],
       af_nonempty_txn_signature = None, af_cuckoo_accounts_filter = None\<rparr> fmempty,
     sq_slots = fmupd ''commitment-transitions'' \<lparr>sf_filter_by_commitment = Some False, sf_interslot_updates = Some True\<rparr> fmempty,
     sq_transactions = fmupd ''all-transactions'' \<lparr>tf_vote = None, tf_failed = None, tf_signature = None, tf_account_include = [],
       tf_account_exclude = [], tf_account_required = [], tf_token_accounts = None\<rparr> fmempty,
     sq_transactions_status = fmempty, sq_blocks = fmempty, sq_blocks_meta = fmupd ''block-metadata'' () fmempty, sq_entry = fmempty,
     sq_commitment = None, sq_accounts_data_slice = [], sq_ping = None, sq_from_slot = None\<rparr>"

text \<open>The settings handed to the client, with durations in milliseconds; \<open>client\<close> builds and connects it.\<close>

record client_settings =
  cs_backoff_initial_ms :: nat
  cs_backoff_multiplier :: nat
  cs_backoff_retries :: nat
  cs_slot_retention :: nat
  cs_connect_timeout_ms :: nat
  cs_keep_alive_interval_ms :: nat
  cs_keep_alive_while_idle :: bool
  cs_max_decoding_message_size :: nat

definition yellowstone_settings :: client_settings where
  "yellowstone_settings = \<lparr>cs_backoff_initial_ms = 250, cs_backoff_multiplier = 2, cs_backoff_retries = 8, cs_slot_retention = 512,
     cs_connect_timeout_ms = 10000, cs_keep_alive_interval_ms = 15000, cs_keep_alive_while_idle = True,
     cs_max_decoding_message_size = MAX_YELLOWSTONE_MESSAGE_BYTES\<rparr>"

definition ys_connect ::
  "(string \<Rightarrow> string option) \<Rightarrow> (string \<Rightarrow> string option \<Rightarrow> client_settings \<Rightarrow> string + 'c) \<Rightarrow> yellowstone_config \<Rightarrow> yellowstone_error + 'c" where
  "ys_connect env client c =
     and_then (case yc_token_env c of
         None \<Rightarrow> Inr None
       | Some name \<Rightarrow> map_sum id Some (ok_or (env name) (YsMissingTokenEnvironment name))) (\<lambda>token.
     map_sum YsClient id (client (yc_endpoint c) token yellowstone_settings))"

record yellowstone_deployment =
  yd_sources :: "yellowstone_config \<times> yellowstone_config"

definition yellowstone_deployment_new :: "yellowstone_config \<Rightarrow> yellowstone_config \<Rightarrow> yellowstone_error + yellowstone_deployment" where
  "yellowstone_deployment_new first second =
     (if yc_source_id first = yc_source_id second \<or> yc_provider_id first = yc_provider_id second \<or> yc_endpoint first = yc_endpoint second
      then Inl YsSourcesNotIndependent
      else Inr \<lparr>yd_sources = (first, second)\<rparr>)"

section \<open>Captured updates\<close>

datatype update_kind_name = KAccount | KSlot | KTransaction | KTransactionStatus | KBlock | KBlockMeta | KEntry | KPing | KPong

text \<open>The variants of a decoded update, with the slot of those that have one.\<close>

datatype update_oneof =
    UAccount u64
  | USlot u64
  | UTransaction u64
  | UTransactionStatus u64
  | UBlock u64
  | UBlockMeta u64
  | UEntry u64
  | UPing
  | UPong

fun update_kind :: "update_oneof option \<Rightarrow> yellowstone_error + update_kind_name" where
  "update_kind (Some (UAccount _)) = Inr KAccount"
| "update_kind (Some (USlot _)) = Inr KSlot"
| "update_kind (Some (UTransaction _)) = Inr KTransaction"
| "update_kind (Some (UTransactionStatus _)) = Inr KTransactionStatus"
| "update_kind (Some (UBlock _)) = Inr KBlock"
| "update_kind (Some (UBlockMeta _)) = Inr KBlockMeta"
| "update_kind (Some (UEntry _)) = Inr KEntry"
| "update_kind (Some UPing) = Inr KPing"
| "update_kind (Some UPong) = Inr KPong"
| "update_kind None = Inl YsEmptyUpdate"

record 'm captured_update =
  cu_source_id :: string
  cu_source_session_id :: source_session_id
  cu_source_sequence :: u64
  cu_observed_at_unix_ns :: i64
  cu_exact_protobuf :: bytes
  cu_decoded :: 'm
  cu_kind :: update_kind_name

text \<open>A decoded message of the library: its decoder and the variant it holds.\<close>

record 'm update_lib =
  ul_decode :: "bytes \<Rightarrow> string + 'm"
  ul_oneof :: "'m \<Rightarrow> update_oneof option"

definition captured_decode ::
  "'m update_lib \<Rightarrow> string \<Rightarrow> source_session_id \<Rightarrow> u64 \<Rightarrow> i64 \<Rightarrow> bytes \<Rightarrow> yellowstone_error + 'm captured_update" where
  "captured_decode U source session seq_no at exact =
     and_then (validated_identity source ''source_id'') (\<lambda>source_id.
     if seq_no = 0 then Inl YsInvalidSourceSequence
     else if sint at < 0 then Inl YsInvalidObservedTime
     else if MAX_YELLOWSTONE_MESSAGE_BYTES < length exact then Inl (YsMessageTooLarge (length exact))
     else and_then (map_sum YsDecode id (ul_decode U exact)) (\<lambda>m.
       and_then (update_kind (ul_oneof U m)) (\<lambda>kind.
       Inr \<lparr>cu_source_id = source_id, cu_source_session_id = session, cu_source_sequence = seq_no, cu_observed_at_unix_ns = at,
         cu_exact_protobuf = exact, cu_decoded = m, cu_kind = kind\<rparr>)))"

fun oneof_slot :: "update_oneof \<Rightarrow> u64 option" where
  "oneof_slot (UAccount s) = Some s"
| "oneof_slot (USlot s) = Some s"
| "oneof_slot (UTransaction s) = Some s"
| "oneof_slot (UTransactionStatus s) = Some s"
| "oneof_slot (UBlock s) = Some s"
| "oneof_slot (UBlockMeta s) = Some s"
| "oneof_slot (UEntry s) = Some s"
| "oneof_slot UPing = None"
| "oneof_slot UPong = None"

definition captured_slot :: "'m update_lib \<Rightarrow> 'm captured_update \<Rightarrow> u64 option" where
  "captured_slot U c = Option.bind (ul_oneof U (cu_decoded c)) oneof_slot"

section \<open>The cursor of a session\<close>

record source_gap =
  sg_expected_sequence :: u64
  sg_observed_sequence :: u64

record session_cursor =
  sc_source_id :: string
  sc_source_session_id :: source_session_id
  sc_last_sequence :: u64

definition session_start :: "string \<Rightarrow> source_session_id \<Rightarrow> yellowstone_error + session_cursor" where
  "session_start source session =
     and_then (validated_identity source ''source_id'') (\<lambda>source_id.
     Inr \<lparr>sc_source_id = source_id, sc_source_session_id = session, sc_last_sequence = 0\<rparr>)"

definition session_observe :: "u64 \<Rightarrow> session_cursor \<Rightarrow> (yellowstone_error + source_gap option) \<times> session_cursor" where
  "session_observe seq_no c =
     (if seq_no = 0 \<or> seq_no \<le> sc_last_sequence c then (Inl YsInvalidSourceSequence, c)
      else case checked_add (sc_last_sequence c) 1 of
        None \<Rightarrow> (Inl YsSequenceOverflow, c)
      | Some expected \<Rightarrow>
          (Inr (if seq_no \<noteq> expected then Some \<lparr>sg_expected_sequence = expected, sg_observed_sequence = seq_no\<rparr> else None),
           c\<lparr>sc_last_sequence := seq_no\<rparr>))"

definition cursor_reconnect :: "source_session_id \<Rightarrow> session_cursor \<Rightarrow> (yellowstone_error + unit) \<times> session_cursor" where
  "cursor_reconnect session c =
     (if session = sc_source_session_id c then (Inl YsReusedSessionId, c)
      else (Inr (), c\<lparr>sc_source_session_id := session, sc_last_sequence := 0\<rparr>))"

section \<open>Two providers\<close>

record source_block_observation =
  so_source_id :: string
  so_slot :: slot
  so_blockhash :: digest
  so_observed_at_unix_ns :: i64

definition source_block_observation_new :: "string \<Rightarrow> slot \<Rightarrow> digest \<Rightarrow> i64 \<Rightarrow> yellowstone_error + source_block_observation" where
  "source_block_observation_new source s h at =
     (if sint at < 0 then Inl YsInvalidObservedTime
      else and_then (validated_identity source ''source_id'') (\<lambda>source_id.
        Inr \<lparr>so_source_id = source_id, so_slot = s, so_blockhash = h, so_observed_at_unix_ns = at\<rparr>))"

record provider_divergence =
  pd_slot :: slot
  pd_observations :: "source_block_observation list"

record provider_reconciler =
  pr_sources :: "string fset"
  pr_last_slot :: "(string, slot) fmap"
  pr_by_slot :: "(slot, (string, source_block_observation) fmap) fmap"

text \<open>\<open>collect::<Result<BTreeSet<_>, _>>()\<close>: the first rejected identity is the error.\<close>

fun collect_identities :: "string list \<Rightarrow> yellowstone_error + string fset" where
  "collect_identities [] = Inr {||}"
| "collect_identities (s # ss) =
     and_then (validated_identity s ''source_id'') (\<lambda>i. and_then (collect_identities ss) (\<lambda>is. Inr (finsert i is)))"

definition provider_reconciler_new :: "string list \<Rightarrow> yellowstone_error + provider_reconciler" where
  "provider_reconciler_new names =
     (if length names \<noteq> 2 then Inl YsSourcesNotIndependent
      else and_then (collect_identities names) (\<lambda>ids.
        if fcard ids \<noteq> 2 then Inl YsSourcesNotIndependent
        else Inr \<lparr>pr_sources = ids, pr_last_slot = fmempty, pr_by_slot = fmempty\<rparr>))"

definition provider_observe ::
  "source_block_observation \<Rightarrow> provider_reconciler \<Rightarrow> (yellowstone_error + provider_divergence option) \<times> provider_reconciler" where
  "provider_observe ob p =
     (if so_source_id ob |\<notin>| pr_sources p then (Inl YsUnknownSource, p)
      else if (case fmlookup (pr_last_slot p) (so_source_id ob) of
          None \<Rightarrow> False | Some before \<Rightarrow> slot_value (so_slot ob) < slot_value before)
        then (Inl YsSlotRegression, p)
      else let
          claims = fmupd (so_source_id ob) ob (case fmlookup (pr_by_slot p) (so_slot ob) of None \<Rightarrow> fmempty | Some m \<Rightarrow> m);
          p' = p\<lparr>pr_last_slot := fmupd (so_source_id ob) (so_slot ob) (pr_last_slot p),
                 pr_by_slot := fmupd (so_slot ob) claims (pr_by_slot p)\<rparr>;
          observations = map snd (sorted_list_of_fmap claims)
        in if fmlen claims \<noteq> 2 then (Inr None, p')
           else if so_blockhash (observations ! 0) = so_blockhash (observations ! 1) then (Inr None, p')
           else (Inr (Some \<lparr>pd_slot = so_slot ob, pd_observations = observations\<rparr>), p'))"

end
