(* ===== verification/Yellowstone_Properties.thy ===== *)
theory Yellowstone_Properties
  imports Yellowstone_Connector
begin

text \<open>
  What the Yellowstone adapter guarantees over whole histories: the gaps that the cursor of a session reports are exactly the
  missing sequence numbers, and the reconciler of two providers answers as a specification over the accepted claims does.
\<close>

section \<open>Gaps of a session\<close>

fun cursor_run :: "u64 list \<Rightarrow> session_cursor \<Rightarrow> (u64 \<times> (yellowstone_error + source_gap option)) list \<times> session_cursor" where
  "cursor_run [] c = ([], c)"
| "cursor_run (n # ns) c =
     (let (r, c1) = session_observe n c; (h, c2) = cursor_run ns c1 in ((n, r) # h, c2))"

definition taken :: "('a \<times> ('e + 'r)) list \<Rightarrow> 'a list" where
  "taken h = map fst (filter (\<lambda>(_, r). \<not> isl r) h)"

fun gaps_of :: "(u64 \<times> (yellowstone_error + source_gap option)) list \<Rightarrow> source_gap list" where
  "gaps_of ((_, Inr (Some g)) # h) = g # gaps_of h"
| "gaps_of (_ # h) = gaps_of h"
| "gaps_of [] = []"

definition gap_numbers :: "source_gap \<Rightarrow> nat set" where
  "gap_numbers g = {unat (sg_expected_sequence g) ..< unat (sg_observed_sequence g)}"

lemma taken_simps [simp]:
  "taken [] = []" "taken ((x, Inl e) # h) = taken h" "taken ((x, Inr v) # h) = x # taken h"
  "taken (h @ k) = taken h @ taken k"
  by (simp_all add: taken_def)

lemma session_observe_rejected: "n \<le> sc_last_sequence c \<Longrightarrow> session_observe n c = (Inl YsInvalidSourceSequence, c)"
  by (simp add: session_observe_def)

lemma session_observe_taken:
  assumes "sc_last_sequence c < n"
  shows "\<exists>e. unat e = unat (sc_last_sequence c) + 1 \<and> session_observe n c =
    (Inr (if n \<noteq> e then Some \<lparr>sg_expected_sequence = e, sg_observed_sequence = n\<rparr> else None), c\<lparr>sc_last_sequence := n\<rparr>)"
proof -
  have "sc_last_sequence c \<noteq> - 1" using assms by (metis leD word_order.extremum)
  then have "checked_add (sc_last_sequence c) 1 = Some (sc_last_sequence c + 1)" by (rule checked_succ)
  with assms unat_checked_add [OF this] show ?thesis
    by (intro exI [of _ "sc_last_sequence c + 1"]) (auto simp: session_observe_def)
qed

lemma cursor_run_gaps:
  "cursor_run ns c = (h, c') \<Longrightarrow>
     sc_last_sequence c \<le> sc_last_sequence c' \<and> sorted_wrt (<) (sc_last_sequence c # taken h) \<and>
     sc_last_sequence c' = last (sc_last_sequence c # taken h) \<and>
     (\<Union>g \<in> set (gaps_of h). gap_numbers g) =
       {unat (sc_last_sequence c) <.. unat (sc_last_sequence c')} - unat ` set (taken h)"
proof (induction ns arbitrary: c h)
  case (Cons n ns)
  show ?case
  proof (cases "n \<le> sc_last_sequence c")
    case True
    with Cons.prems obtain k where "h = (n, Inl YsInvalidSourceSequence) # k" "cursor_run ns c = (k, c')"
      by (auto simp: session_observe_rejected split: prod.splits)
    with Cons.IH [of c k] show ?thesis by auto
  next
    case False
    then have less: "sc_last_sequence c < n" by simp
    then have unless: "unat (sc_last_sequence c) < unat n" by (simp add: word_less_nat_alt)
    from session_observe_taken [OF less] obtain e where e: "unat e = unat (sc_last_sequence c) + 1"
      "session_observe n c = (Inr (if n \<noteq> e then Some \<lparr>sg_expected_sequence = e, sg_observed_sequence = n\<rparr> else None),
         c\<lparr>sc_last_sequence := n\<rparr>)" by blast
    then obtain k where k: "h = (n, fst (session_observe n c)) # k" "cursor_run ns (c\<lparr>sc_last_sequence := n\<rparr>) = (k, c')"
      using Cons.prems by (auto split: prod.splits)
    note ih = Cons.IH [OF k(2), simplified]
    have taken: "taken h = n # taken k" by (simp add: k e)
    have later: "\<forall>m \<in> set (taken k). unat n < unat m" using ih by (auto simp: word_less_nat_alt)
    have "gaps_of h = (if n = e then [] else [\<lparr>sg_expected_sequence = e, sg_observed_sequence = n\<rparr>]) @ gaps_of k"
      by (simp add: k(1) e(2))
    then have "(\<Union>g \<in> set (gaps_of h). gap_numbers g) =
        {unat (sc_last_sequence c) <..< unat n} \<union> (\<Union>g \<in> set (gaps_of k). gap_numbers g)"
      using e(1) unless by (cases "n = e") (auto simp: gap_numbers_def)
    also have "\<dots> = {unat (sc_last_sequence c) <.. unat (sc_last_sequence c')} - unat ` set (taken h)"
      using ih unless later unfolding taken by (auto simp: word_le_nat_alt)
    finally show ?thesis using ih less unfolding taken by (auto dest: less_trans)
  qed
qed simp

text \<open>Within a session of the Yellowstone cursor, started or begun by a reconnection, whatever sequence numbers arrive,
  the numbers accepted strictly increase, and the intervals of the reported gaps together are exactly the numbers from 1 up to
  the last accepted one that have not been accepted.\<close>

theorem session_gaps_are_exact:
  assumes "session_start source i = Inr c \<or> cursor_reconnect i c0 = (Inr (), c)" "cursor_run ns c = (h, c')"
  shows "sorted_wrt (<) (taken h) \<and>
    (\<Union>g \<in> set (gaps_of h). gap_numbers g) = {1 .. unat (sc_last_sequence c')} - unat ` set (taken h)"
proof -
  have "sc_last_sequence c = 0"
    using assms(1) by (auto simp: session_start_def cursor_reconnect_def and_then_Inr_iff split: if_splits)
  with cursor_run_gaps [OF assms(2)] show ?thesis by (simp add: atLeastSucLessThan_greaterThanLessThan set_eq_iff) fastforce
qed

theorem session_gaps_are_exact_witness:
  "\<exists>h c'. cursor_run [2, 3, 3, 7] \<lparr>sc_source_id = ''a'', sc_source_session_id = 1, sc_last_sequence = 0\<rparr> = (h, c') \<and>
     (\<Union>g \<in> set (gaps_of h). gap_numbers g) = {1 .. unat (sc_last_sequence c')} - unat ` set (taken h)"
proof -
  have "session_start ''a'' 1 = Inr \<lparr>sc_source_id = ''a'', sc_source_session_id = 1, sc_last_sequence = 0\<rparr>"
    by code_simp
  with session_gaps_are_exact [of "''a''" 1] show ?thesis by (metis surj_pair)
qed

section \<open>Divergence\<close>

fun provider_run :: "source_block_observation list \<Rightarrow> provider_reconciler \<Rightarrow>
    (source_block_observation \<times> (yellowstone_error + provider_divergence option)) list \<times> provider_reconciler" where
  "provider_run [] p = ([], p)"
| "provider_run (x # xs) p =
     (let (r, p1) = provider_observe x p; (h, p2) = provider_run xs p1 in ((x, r) # h, p2))"

text \<open>The last claim of a source, and its last claim on a slot, among the accepted claims.\<close>

definition last_claim :: "string \<Rightarrow> source_block_observation list \<Rightarrow> source_block_observation option" where
  "last_claim s xs = last_opt (filter (\<lambda>x. so_source_id x = s) xs)"

definition slot_claim :: "slot \<Rightarrow> string \<Rightarrow> source_block_observation list \<Rightarrow> source_block_observation option" where
  "slot_claim sl s xs = last_opt (filter (\<lambda>x. so_source_id x = s \<and> so_slot x = sl) xs)"

definition provider_verdict ::
  "string \<Rightarrow> string \<Rightarrow> source_block_observation list \<Rightarrow> source_block_observation \<Rightarrow> yellowstone_error + provider_divergence option" where
  "provider_verdict a b xs ob =
     (if so_source_id ob \<notin> {a, b} then Inl YsUnknownSource
      else if (case last_claim (so_source_id ob) xs of None \<Rightarrow> False | Some q \<Rightarrow> slot_value (so_slot ob) < slot_value (so_slot q))
        then Inl YsSlotRegression
      else case slot_claim (so_slot ob) (if so_source_id ob = a then b else a) xs of
          None \<Rightarrow> Inr None
        | Some q \<Rightarrow>
            if so_blockhash q = so_blockhash ob then Inr None
            else Inr (Some \<lparr>pd_slot = so_slot ob, pd_observations = (if so_source_id ob < so_source_id q then [ob, q] else [q, ob])\<rparr>))"

definition claims_at :: "provider_reconciler \<Rightarrow> slot \<Rightarrow> (string, source_block_observation) fmap" where
  "claims_at p sl = (case fmlookup (pr_by_slot p) sl of None \<Rightarrow> fmempty | Some m \<Rightarrow> m)"

definition records_claims :: "string \<Rightarrow> string \<Rightarrow> source_block_observation list \<Rightarrow> provider_reconciler \<Rightarrow> bool" where
  "records_claims a b xs p \<longleftrightarrow> pr_sources p = {|a, b|} \<and> a \<noteq> b \<and> (\<forall>x \<in> set xs. so_source_id x \<in> {a, b}) \<and>
     (\<forall>s. fmlookup (pr_last_slot p) s = map_option so_slot (last_claim s xs)) \<and>
     (\<forall>sl s. fmlookup (claims_at p sl) s = slot_claim sl s xs)"

lemma slot_claim_source: "slot_claim sl s xs = Some q \<Longrightarrow> so_source_id q = s \<and> so_slot q = sl \<and> q \<in> set xs"
proof -
  assume "slot_claim sl s xs = Some q"
  then have "q \<in> set (filter (\<lambda>x. so_source_id x = s \<and> so_slot x = sl) xs)"
    unfolding slot_claim_def by (metis last_opt_SomeD in_set_conv_decomp)
  then show ?thesis by simp
qed

lemma claims_snoc:
  "last_claim s (xs @ [x]) = (if so_source_id x = s then Some x else last_claim s xs)"
  "slot_claim sl s (xs @ [x]) = (if so_source_id x = s \<and> so_slot x = sl then Some x else slot_claim sl s xs)"
  by (simp_all add: last_claim_def slot_claim_def)

lemma sorted_two:
  fixes s t :: string
  assumes "fmdom m = {|s, t|}" "s < t"
  shows "sorted_list_of_fmap m = [(s, the (fmlookup m s)), (t, the (fmlookup m t))]"
proof -
  have "sorted_list_of_fset {|s, t|} = [s, t]"
    using assms(2) sorted_list_of_set.idem_if_sorted_distinct [of "[s, t]"] by (simp add: sorted_list_of_fset.rep_eq less_imp_le)
  then show ?thesis by (simp add: sorted_list_of_fmap_def assms(1))
qed

text \<open>The claims on a slot after one more of \<open>s\<close>, with the other source \<open>t\<close>.\<close>

lemma two_claims:
  assumes "fmdom m |\<subseteq>| {|s, t|}" "s \<noteq> t" "so_source_id x = s"
  shows "fmlen (fmupd s x m) = (case fmlookup m t of None \<Rightarrow> 1 | Some _ \<Rightarrow> 2)"
    and "fmlookup m t = Some q \<Longrightarrow> map snd (sorted_list_of_fmap (fmupd s x m)) = (if s < t then [x, q] else [q, x])"
proof -
  have only: "fmlookup m u = Some v \<Longrightarrow> u = s \<or> u = t" for u v
    using fmdomI [of m u v] assms(1) by auto
  have dom: "fmdom (fmupd s x m) = (if fmlookup m t = None then {|s|} else {|s, t|})"
    by (auto simp: fmlookup_dom_iff) (metis only option.distinct(1))+
  then show "fmlen (fmupd s x m) = (case fmlookup m t of None \<Rightarrow> 1 | Some _ \<Rightarrow> 2)"
    using assms(2) by (auto simp: fmlen_def fcard_finsert_if split: option.splits)
  show "map snd (sorted_list_of_fmap (fmupd s x m)) = (if s < t then [x, q] else [q, x])" if q: "fmlookup m t = Some q"
  proof (cases "s < t")
    case True
    with sorted_two [of "fmupd s x m" s t] dom q assms(2) show ?thesis by simp
  next
    case False
    then have "t < s" using assms(2) by simp
    with sorted_two [of "fmupd s x m" t s] dom q assms(2) False show ?thesis by (simp add: finsert_commute)
  qed
qed

lemma records_claims_step:
  assumes inv: "records_claims a b xs p"
  shows "fst (provider_observe x p) = provider_verdict a b xs x"
    and "records_claims a b (if isl (fst (provider_observe x p)) then xs else xs @ [x]) (snd (provider_observe x p))"
proof -
  let ?s = "so_source_id x" and ?m = "claims_at p (so_slot x)"
  let ?t = "if ?s = a then b else a"
  let ?p' = "p\<lparr>pr_last_slot := fmupd ?s (so_slot x) (pr_last_slot p), pr_by_slot := fmupd (so_slot x) (fmupd ?s x ?m) (pr_by_slot p)\<rparr>"
  let ?low = "case last_claim ?s xs of None \<Rightarrow> False | Some q \<Rightarrow> slot_value (so_slot x) < slot_value (so_slot q)"
  have srcs: "pr_sources p = {|a, b|}" "a \<noteq> b" using inv by (simp_all add: records_claims_def)
  have lows: "(case fmlookup (pr_last_slot p) ?s of None \<Rightarrow> False | Some before \<Rightarrow> slot_value (so_slot x) < slot_value before) = ?low"
    using inv by (simp add: records_claims_def split: option.split)
  have look: "fmlookup ?m u = slot_claim (so_slot x) u xs" for u using inv by (simp add: records_claims_def)
  have known: "fmlookup ?m u = Some q \<Longrightarrow> u \<in> {a, b}" for u q
    using inv slot_claim_source [of "so_slot x" u xs q] by (auto simp: look records_claims_def)
  then have sub: "fmdom ?m |\<subseteq>| {|a, b|}" by (fastforce simp: fmlookup_dom_iff)
  show "fst (provider_observe x p) = provider_verdict a b xs x"
  proof (cases "?s \<in> {a, b} \<and> \<not> ?low")
    case False
    then show ?thesis by (auto simp: provider_observe_def provider_verdict_def srcs lows)
  next
    case True
    then have "fmdom ?m |\<subseteq>| {|?s, ?t|}" "?s \<noteq> ?t" using sub srcs(2) by auto
    note two = two_claims [OF this refl]
    let ?os = "map snd (sorted_list_of_fmap (fmupd ?s x ?m))"
    have observed: "fst (provider_observe x p) = (if fmlen (fmupd ?s x ?m) \<noteq> 2 then Inr None
        else if so_blockhash (?os ! 0) = so_blockhash (?os ! 1) then Inr None
        else Inr (Some \<lparr>pd_slot = so_slot x, pd_observations = ?os\<rparr>))"
      using True by (simp add: provider_observe_def srcs lows Let_def flip: claims_at_def)
    have verdict: "provider_verdict a b xs x = (case slot_claim (so_slot x) ?t xs of None \<Rightarrow> Inr None
        | Some q \<Rightarrow> if so_blockhash q = so_blockhash x then Inr None
            else Inr (Some \<lparr>pd_slot = so_slot x, pd_observations = (if ?s < so_source_id q then [x, q] else [q, x])\<rparr>))"
      using True by (simp add: provider_verdict_def)
    show ?thesis
    proof (cases "slot_claim (so_slot x) ?t xs")
      case None
      then have "fmlen (fmupd ?s x ?m) = 1" using two(1) by (simp add: look)
      then show ?thesis unfolding observed verdict None by simp
    next
      case (Some q)
      then have "fmlookup ?m ?t = Some q" by (simp add: look)
      then have len: "fmlen (fmupd ?s x ?m) = 2" and os: "?os = (if ?s < ?t then [x, q] else [q, x])"
        using two(1) two(2) by simp_all
      have q: "so_source_id q = ?t" using Some slot_claim_source by blast
      show ?thesis unfolding observed verdict Some os len by (cases "?s < ?t") (auto simp: q)
    qed
  qed
  show "records_claims a b (if isl (fst (provider_observe x p)) then xs else xs @ [x]) (snd (provider_observe x p))"
  proof (cases "?s \<in> {a, b} \<and> \<not> ?low")
    case False
    then have "isl (fst (provider_observe x p))" "snd (provider_observe x p) = p"
      by (auto simp: provider_observe_def srcs lows)
    then show ?thesis using inv by simp
  next
    case True
    then have "\<not> isl (fst (provider_observe x p))" "snd (provider_observe x p) = ?p'"
      by (auto simp: provider_observe_def srcs lows Let_def claims_at_def)
    moreover have "records_claims a b (xs @ [x]) ?p'"
      using inv True by (auto simp: records_claims_def claims_snoc claims_at_def)
    ultimately show ?thesis by simp
  qed
qed

lemma records_claims_run:
  "provider_run xs p = (h, p') \<Longrightarrow> records_claims a b zs p \<Longrightarrow> records_claims a b (zs @ taken h) p'"
proof (induction xs arbitrary: p h zs)
  case (Cons x xs)
  obtain r p1 where one: "provider_observe x p = (r, p1)" by fastforce
  then obtain k where k: "provider_run xs p1 = (k, p')" "h = (x, r) # k" using Cons.prems(1) by (auto split: prod.splits)
  from records_claims_step(2) [OF Cons.prems(2), of x] Cons.IH [OF k(1)] one show ?case
    by (cases r) (force simp: k)+
qed simp

lemma provider_reconciler_new_claims:
  "provider_reconciler_new [a, b] = Inr p \<Longrightarrow> records_claims a b [] p"
  by (auto simp: provider_reconciler_new_def records_claims_def claims_at_def last_claim_def slot_claim_def validated_identity_def
      and_then_Inr_iff fcard_finsert_if fcard.rep_eq split: if_splits)

text \<open>C37: The reconciler of two Yellowstone providers refines a specification over histories. After any observations, accepted
  or rejected, the next one is answered as the accepted claims prescribe: an unknown source and a slot below the last slot
  claimed by the same source are rejected, and a divergence is reported exactly when the latest claim of the other source on
  the same slot has a different block hash; it holds both claims in the order of their source ids.\<close>

theorem provider_divergence_refines_history:
  assumes "provider_reconciler_new [a, b] = Inr p0" "provider_run xs p0 = (h, p)"
  shows "fst (provider_observe x p) = provider_verdict a b (taken h) x"
  using records_claims_run [OF assms(2) provider_reconciler_new_claims [OF assms(1)]]
  by (simp add: records_claims_step(1))

definition sample_claim :: "string \<Rightarrow> u64 \<Rightarrow> digest \<Rightarrow> source_block_observation" where
  "sample_claim s n h = \<lparr>so_source_id = s, so_slot = Slot n, so_blockhash = h, so_observed_at_unix_ns = 0\<rparr>"

lemma sample_providers: "provider_reconciler_new [''b'', ''a''] = Inr \<lparr>pr_sources = {|''b'', ''a''|}, pr_last_slot = fmempty, pr_by_slot = fmempty\<rparr>"
  by (simp add: provider_reconciler_new_def validated_identity_def str_blank.simps ws_len_def byte_of_def str_is_ascii_def fcard_finsert_if)

theorem provider_divergence_refines_history_witness:
  "\<exists>h p. provider_run [sample_claim ''b'' 4 1, sample_claim ''c'' 4 9, sample_claim ''b'' 3 1]
       \<lparr>pr_sources = {|''b'', ''a''|}, pr_last_slot = fmempty, pr_by_slot = fmempty\<rparr> = (h, p) \<and>
     fst (provider_observe (sample_claim ''a'' 4 2) p) =
       Inr (Some \<lparr>pd_slot = Slot 4, pd_observations = [sample_claim ''a'' 4 2, sample_claim ''b'' 4 1]\<rparr>)"
proof -
  let ?xs = "[sample_claim ''b'' 4 1, sample_claim ''c'' 4 9, sample_claim ''b'' 3 1]"
  let ?p = "\<lparr>pr_sources = {|''b'', ''a''|}, pr_last_slot = fmempty, pr_by_slot = fmempty\<rparr> :: provider_reconciler"
  have "taken (fst (provider_run ?xs ?p)) = [sample_claim ''b'' 4 1]"
    by (simp add: provider_observe_def sample_claim_def Let_def fmlen_def split: prod.splits)
  moreover have "provider_verdict ''b'' ''a'' [sample_claim ''b'' 4 1] (sample_claim ''a'' 4 2) =
      Inr (Some \<lparr>pd_slot = Slot 4, pd_observations = [sample_claim ''a'' 4 2, sample_claim ''b'' 4 1]\<rparr>)"
    by (simp add: provider_verdict_def last_claim_def slot_claim_def sample_claim_def less_char_def last_opt_def)
  moreover obtain h p where "provider_run ?xs ?p = (h, p)" by fastforce
  ultimately show ?thesis using provider_divergence_refines_history [OF sample_providers, of ?xs h p] by auto
qed

end
