(* ===== verification/Api_Contract.thy ===== *)
theory Api_Contract
  imports Mempool_Alert Bitcoin_Facts Evm_Facts Solana_Facts
begin

text \<open>
  The truth contract of the public interfaces (\<open>crates/api-contract/src/lib.rs\<close>): source sets, the qualified truth that accompanies a
  Bitcoin, EVM or Solana response, mempool views, the pagination cursor with its checksum and the resynchronisation frame.
  BLAKE3 and base58 are parameters; JSON serialisation is derived code and not part of the model.
\<close>

section \<open>Errors and sources\<close>

definition API_MAX_SOURCE_COUNT :: nat where "API_MAX_SOURCE_COUNT = 32"
definition MAX_CURSOR_DATASET_BYTES :: nat where "MAX_CURSOR_DATASET_BYTES = 64"
definition MAX_CURSOR_KEY_BYTES :: nat where "MAX_CURSOR_KEY_BYTES = 512"

datatype truth_error =
    TruthEmptyNetwork
  | TruthMissingSources
  | TruthEmptySourceId
  | TruthTooManySources nat
  | TruthZeroRevision
  | InvalidBitcoinStatus string string
  | InvalidEvmCanonicality string
  | InvalidEvmFinality u64 string
  | InconsistentEvmStatus string string
  | InvalidSolanaProviderCount
  | UnsupportedSolanaCoverage
  | InvalidSolanaStatus string string
  | InconsistentSolanaStatus string string
  | UnqualifiedSolanaDivergence
  | InvalidSolanaRecoveryEvidence
  | InconsistentBitcoinStatus string string
  | InvalidQuorum nat nat
  | TruthInvalidTxid
  | TruthInvalidScript
  | InvalidCursor
  | InvalidResyncRange

definition validate_source :: "string \<Rightarrow> truth_error + unit" where
  "validate_source s = (if str_blank s \<or> 128 < length s \<or> \<not> str_is_ascii s then Inl TruthEmptySourceId else Inr ())"

fun validate_each :: "string list \<Rightarrow> truth_error + unit" where
  "validate_each [] = Inr ()"
| "validate_each (s # ss) = and_then (validate_source s) (\<lambda>_. validate_each ss)"

definition validated_sources :: "string list \<Rightarrow> truth_error + string list" where
  "validated_sources ss =
     (if ss = [] then Inl TruthMissingSources
      else if API_MAX_SOURCE_COUNT < length ss then Inl (TruthTooManySources (length ss))
      else and_then (validate_each ss) (\<lambda>_. Inr (remdups_adj (sort ss))))"

section \<open>Bitcoin\<close>

record bitcoin_truth =
  bt_network :: string
  bt_source_ids :: "string list"
  bt_revision :: u64
  bt_canonicality :: string
  bt_finality :: string
  bt_height :: u32
  bt_completeness :: completeness
  bt_as_of_unix_ns :: i64

definition consistent_bitcoin :: "string \<Rightarrow> string \<Rightarrow> bool" where
  "consistent_bitcoin canonicality finality =
     (if canonicality = ''non_canonical'' then finality = ''reorged''
      else if canonicality = ''canonical'' then finality \<in> {''included'', ''confirmed''}
      else if canonicality = ''candidate'' then finality \<in> {''pending'', ''included''}
      else False)"

definition bitcoin_truth_new ::
  "string \<Rightarrow> string list \<Rightarrow> u64 \<Rightarrow> string \<Rightarrow> string \<Rightarrow> u32 \<Rightarrow> completeness \<Rightarrow> i64 \<Rightarrow> truth_error + bitcoin_truth" where
  "bitcoin_truth_new network sources revision canonicality finality height compl as_of =
     (if str_blank network then Inl TruthEmptyNetwork
      else if revision = 0 then Inl TruthZeroRevision
      else and_then (validated_sources sources) (\<lambda>ids.
        if canonicality \<notin> {''candidate'', ''canonical'', ''non_canonical''} \<or> finality \<notin> {''pending'', ''included'', ''confirmed'', ''reorged''}
        then Inl (InvalidBitcoinStatus canonicality finality)
        else if \<not> consistent_bitcoin canonicality finality then Inl (InconsistentBitcoinStatus canonicality finality)
        else Inr \<lparr>bt_network = network, bt_source_ids = ids, bt_revision = revision, bt_canonicality = canonicality,
          bt_finality = finality, bt_height = height, bt_completeness = compl, bt_as_of_unix_ns = as_of\<rparr>))"

record api_bitcoin_output =
  ao_txid :: string
  ao_vout :: u32
  ao_value_sats :: sats
  ao_script_pubkey_hex :: string
  ao_truth :: bitcoin_truth

definition is_lower_hex :: "string \<Rightarrow> nat \<Rightarrow> bool" where
  "is_lower_hex v expected_len \<longleftrightarrow> length v = expected_len \<and> list_all is_lower_hex_digit v"

definition api_bitcoin_output_new :: "string \<Rightarrow> u32 \<Rightarrow> sats \<Rightarrow> string \<Rightarrow> bitcoin_truth \<Rightarrow> truth_error + api_bitcoin_output" where
  "api_bitcoin_output_new txid_hex vout amount script truth =
     (if \<not> is_lower_hex txid_hex 64 then Inl TruthInvalidTxid
      else if length script mod 2 \<noteq> 0 \<or> script \<noteq> [] \<and> \<not> list_all is_lower_hex_digit script then Inl TruthInvalidScript
      else Inr \<lparr>ao_txid = txid_hex, ao_vout = vout, ao_value_sats = amount, ao_script_pubkey_hex = script, ao_truth = truth\<rparr>)"

section \<open>Ethereum and BNB Smart Chain\<close>

record evm_coverage =
  ec_full_history :: bool
  ec_archive_state :: bool
  ec_traces :: bool

definition evm_coverage_new :: "bool \<Rightarrow> bool \<Rightarrow> bool \<Rightarrow> evm_coverage" where
  "evm_coverage_new full_history archive_state traces =
     \<lparr>ec_full_history = full_history, ec_archive_state = archive_state, ec_traces = traces\<rparr>"

record evm_truth =
  et_chain_id :: u64
  et_network :: string
  et_source_ids :: "string list"
  et_revision :: u64
  et_canonicality :: string
  et_finality :: string
  et_completeness :: completeness
  et_coverage :: evm_coverage
  et_as_of_unix_ns :: i64

fun api_valid_finality :: "evm_network \<Rightarrow> string \<Rightarrow> bool" where
  "api_valid_finality EthereumMainnet f \<longleftrightarrow> f \<in> {''pending'', ''included'', ''canonical_head'', ''safe'', ''finalized'', ''reorged''}"
| "api_valid_finality BscMainnet f \<longleftrightarrow> f \<in> {''pending'', ''included'', ''canonical_head'', ''fast_finalized'', ''reorged''}"

definition evm_truth_new ::
  "evm_network \<Rightarrow> string list \<Rightarrow> u64 \<Rightarrow> string \<Rightarrow> string \<Rightarrow> completeness \<Rightarrow> evm_coverage \<Rightarrow> i64 \<Rightarrow> truth_error + evm_truth" where
  "evm_truth_new network sources revision canonicality finality compl coverage as_of =
     and_then (validated_sources sources) (\<lambda>ids.
     if revision = 0 then Inl TruthZeroRevision
     else if canonicality \<notin> {''candidate'', ''canonical'', ''non_canonical''} then Inl (InvalidEvmCanonicality canonicality)
     else if \<not> api_valid_finality network finality then Inl (InvalidEvmFinality (chain_id network) finality)
     else if (canonicality = ''non_canonical'') \<noteq> (finality = ''reorged'') then Inl (InconsistentEvmStatus canonicality finality)
     else Inr \<lparr>et_chain_id = chain_id network, et_network = evm_network_str network, et_source_ids = ids, et_revision = revision,
       et_canonicality = canonicality, et_finality = finality, et_completeness = compl, et_coverage = coverage,
       et_as_of_unix_ns = as_of\<rparr>)"

section \<open>Solana\<close>

record solana_coverage =
  scv_provider_count :: u8
  scv_all_transactions :: bool
  scv_selected_account_filter_count :: u32
  scv_full_account_firehose :: bool
  scv_reconstruction :: bool

definition solana_coverage_new :: "u8 \<Rightarrow> u32 \<Rightarrow> bool \<Rightarrow> bool \<Rightarrow> solana_coverage" where
  "solana_coverage_new provider_count filters firehose reconstruction =
     \<lparr>scv_provider_count = provider_count, scv_all_transactions = True, scv_selected_account_filter_count = filters,
      scv_full_account_firehose = firehose, scv_reconstruction = reconstruction\<rparr>"

record solana_truth =
  st_network :: string
  st_source_ids :: "string list"
  st_revision :: u64
  st_slot :: u64
  st_blockhash :: string
  st_canonicality :: string
  st_commitment :: string
  st_completeness :: completeness
  st_coverage :: solana_coverage
  st_provider_divergent :: bool
  st_recovery_observation_ids :: "string list"
  st_as_of_unix_ns :: i64

definition consistent_solana :: "string \<Rightarrow> string \<Rightarrow> bool" where
  "consistent_solana canonicality commitment =
     (if commitment = ''dead'' then canonicality = ''non_canonical''
      else if commitment = ''received'' then canonicality = ''candidate''
      else if commitment = ''processed'' then canonicality \<in> {''candidate'', ''canonical''}
      else if commitment \<in> {''confirmed'', ''finalized''} then canonicality = ''canonical''
      else False)"

definition solana_truth_new ::
  "solana_text \<Rightarrow> string list \<Rightarrow> u64 \<Rightarrow> fork_id \<Rightarrow> string \<Rightarrow> string \<Rightarrow> completeness \<Rightarrow> solana_coverage \<Rightarrow> bool \<Rightarrow> digest list \<Rightarrow> i64 \<Rightarrow>
   truth_error + solana_truth" where
  "solana_truth_new T sources revision fork canonicality commitment compl coverage divergent recovery as_of =
     and_then (validated_sources sources) (\<lambda>ids.
     if revision = 0 then Inl TruthZeroRevision
     else if scv_provider_count coverage \<noteq> 2 \<or> unat (scv_provider_count coverage) \<noteq> length ids then Inl InvalidSolanaProviderCount
     else if 1024 < scv_selected_account_filter_count coverage \<or> scv_full_account_firehose coverage then Inl UnsupportedSolanaCoverage
     else if canonicality \<notin> {''candidate'', ''canonical'', ''non_canonical''} \<or>
         commitment \<notin> {''received'', ''processed'', ''confirmed'', ''finalized'', ''dead''}
       then Inl (InvalidSolanaStatus canonicality commitment)
     else if \<not> consistent_solana canonicality commitment then Inl (InconsistentSolanaStatus canonicality commitment)
     else if divergent \<and> compl = Complete then Inl UnqualifiedSolanaDivergence
     else let recovery_ids = map (\<lambda>d. encode_hex (be_bytes 32 (unat d))) recovery; has_recovery = (recovery_ids \<noteq> [])
       in if scv_reconstruction coverage \<noteq> has_recovery \<or> (compl = Recovered) \<noteq> has_recovery then Inl InvalidSolanaRecoveryEvidence
       else Inr \<lparr>st_network = ''solana-mainnet-beta'', st_source_ids = ids, st_revision = revision, st_slot = slot_value (fork_slot fork),
         st_blockhash = key_text T (fork_blockhash fork), st_canonicality = canonicality, st_commitment = commitment,
         st_completeness = compl, st_coverage = coverage, st_provider_divergent = divergent, st_recovery_observation_ids = recovery_ids,
         st_as_of_unix_ns = as_of\<rparr>)"

section \<open>Mempool views\<close>

datatype mempool_view =
    SourceView string
  | UnionView "string list"
  | IntersectionView "string list"
  | QuorumView nat "string list"

definition view_source :: "string \<Rightarrow> truth_error + mempool_view" where
  "view_source s = and_then (validate_source s) (\<lambda>_. Inr (SourceView s))"

definition view_union :: "string list \<Rightarrow> truth_error + mempool_view" where
  "view_union ss = and_then (validated_sources ss) (\<lambda>ids. Inr (UnionView ids))"

definition view_intersection :: "string list \<Rightarrow> truth_error + mempool_view" where
  "view_intersection ss = and_then (validated_sources ss) (\<lambda>ids. Inr (IntersectionView ids))"

definition view_quorum :: "nat \<Rightarrow> string list \<Rightarrow> truth_error + mempool_view" where
  "view_quorum threshold ss =
     and_then (validated_sources ss) (\<lambda>ids.
       if threshold = 0 \<or> length ids < threshold then Inl (InvalidQuorum threshold (length ids))
       else Inr (QuorumView threshold ids))"

section \<open>Pagination and streams\<close>

record page_cursor =
  pc_dataset :: string
  pc_last_key :: string
  pc_revision :: u64

abbreviation nul :: char where "nul \<equiv> char_of (0::nat)"

definition page_cursor_new :: "string \<Rightarrow> string \<Rightarrow> u64 \<Rightarrow> truth_error + page_cursor" where
  "page_cursor_new dataset last_key revision =
     (if dataset = [] \<or> MAX_CURSOR_DATASET_BYTES < length dataset then Inl InvalidCursor
      else if last_key = [] \<or> MAX_CURSOR_KEY_BYTES < length last_key then Inl InvalidCursor
      else if nul \<in> set dataset \<or> nul \<in> set last_key \<or> revision = 0 then Inl InvalidCursor
      else Inr \<lparr>pc_dataset = dataset, pc_last_key = last_key, pc_revision = revision\<rparr>)"

definition cursor_payload :: "page_cursor \<Rightarrow> string" where
  "cursor_payload c = pc_dataset c @ nul # pc_last_key c @ nul # dec_string (unat (pc_revision c))"

definition cursor_checksum :: "(bytes \<Rightarrow> digest) \<Rightarrow> bytes \<Rightarrow> bytes" where
  "cursor_checksum blake3 payload = take 16 (be_bytes 32 (unat (blake3 payload)))"

definition page_cursor_encode :: "(bytes \<Rightarrow> digest) \<Rightarrow> page_cursor \<Rightarrow> string" where
  "page_cursor_encode blake3 c =
     (let payload = ascii_bytes (cursor_payload c)
      in encode_hex payload @ CHR ''.'' # encode_hex (cursor_checksum blake3 payload))"

definition api_decode_hex :: "string \<Rightarrow> truth_error + bytes" where
  "api_decode_hex v = (if length v mod 2 \<noteq> 0 \<or> \<not> list_all is_lower_hex_digit v then Inl InvalidCursor else Inr (hex_pairs v))"

fun cursor_of_fields :: "string list \<Rightarrow> truth_error + page_cursor" where
  "cursor_of_fields [dataset, last_key, revision] =
     and_then (ok_or (parse_u64 revision) InvalidCursor) (page_cursor_new dataset last_key)"
| "cursor_of_fields _ = Inl InvalidCursor"

definition page_cursor_decode :: "(bytes \<Rightarrow> digest) \<Rightarrow> string \<Rightarrow> truth_error + page_cursor" where
  "page_cursor_decode blake3 encoded =
     and_then (ok_or (split_once (CHR ''.'') encoded) InvalidCursor) (\<lambda>(payload_hex, checksum_hex).
     if length checksum_hex \<noteq> 32 \<or> count_list encoded (CHR ''.'') \<noteq> 1 then Inl InvalidCursor
     else and_then (api_decode_hex payload_hex) (\<lambda>payload.
       and_then (api_decode_hex checksum_hex) (\<lambda>checksum.
       if checksum \<noteq> cursor_checksum blake3 payload then Inl InvalidCursor
       else if \<not> valid_utf8 payload then Inl InvalidCursor
       else cursor_of_fields (split_on nul (text_of_bytes payload)))))"

datatype resync_reason = SequenceGap | CursorExpired | SchemaChanged

record stream_control =
  sx_frame_type :: string
  sx_channel :: string
  sx_last_delivered_sequence :: u64
  sx_current_sequence :: u64
  sx_reason :: resync_reason

definition resync_required :: "string \<Rightarrow> u64 \<Rightarrow> u64 \<Rightarrow> resync_reason \<Rightarrow> truth_error + stream_control" where
  "resync_required channel last_delivered current reason =
     (if str_blank channel \<or> current \<le> saturating_add last_delivered 1 then Inl InvalidResyncRange
      else Inr \<lparr>sx_frame_type = ''resync_required'', sx_channel = channel, sx_last_delivered_sequence = last_delivered,
        sx_current_sequence = current, sx_reason = reason\<rparr>)"

section \<open>What the contract guarantees\<close>

lemma validate_each_Inr: "validate_each ss = Inr () \<longleftrightarrow> (\<forall>s \<in> set ss. validate_source s = Inr ())"
  by (induction ss) (auto simp: and_then_Inr_iff)

text \<open>An accepted source set is strictly sorted, has the members given and is within its bounds.\<close>

theorem validated_sources_accepted:
  "validated_sources ss = Inr ids \<longleftrightarrow>
     ss \<noteq> [] \<and> length ss \<le> API_MAX_SOURCE_COUNT \<and> (\<forall>s \<in> set ss. \<not> str_blank s \<and> length s \<le> 128 \<and> str_is_ascii s) \<and>
     sorted_wrt (<) ids \<and> set ids = set ss"
proof -
  have "sorted_wrt (<) ids \<and> set ids = set ss \<longleftrightarrow> ids = remdups_adj (sort ss)"
    using strict_sorted_remdups_adj [of ss] strict_sorted_equal [of ids "remdups_adj (sort ss)"] by (metis remdups_adj_set set_sort)
  moreover have "validate_source s = Inr () \<longleftrightarrow> \<not> str_blank s \<and> length s \<le> 128 \<and> str_is_ascii s" for s
    by (auto simp: validate_source_def)
  ultimately show ?thesis by (auto simp: validated_sources_def and_then_Inr_iff validate_each_Inr not_less)
qed

lemma dot_not_hex: "CHR ''.'' \<notin> set (encode_hex bs)"
proof
  assume "CHR ''.'' \<in> set (encode_hex bs)"
  then have "is_lower_hex_digit (CHR ''.'')" using encode_hex_lower [of bs] by (simp add: list_all_iff)
  then show False by (simp add: is_lower_hex_digit_def is_ascii_digit_def byte_of_def)
qed

lemma api_decode_hex_encode: "api_decode_hex (encode_hex bs) = Inr bs"
  by (simp add: api_decode_hex_def encode_hex_lower hex_pairs_encode_hex)

lemma nul_not_digit: "nul \<notin> set (dec_string n)"
proof
  assume "nul \<in> set (dec_string n)"
  then have "is_ascii_digit nul" using dec_string_digits [of n] by (simp add: list_all_iff)
  then show False by (simp add: is_ascii_digit_def byte_of_def)
qed

lemma parse_u64_dec_string: "parse_u64 (dec_string (unat r)) = Some r"
  using dec_string_digits [of "unat r"] unsigned_less [of r] by (simp add: parse_u64_digits dec_value_dec_string)

lemma dec_string_ascii: "str_is_ascii (dec_string n)"
  using dec_string_digits [of n] by (auto simp: str_is_ascii_def is_ascii_digit_def list_all_iff)

lemma cursor_of_fields_Inr: "cursor_of_fields fs = Inr c \<Longrightarrow> \<exists>d k r. page_cursor_new d k r = Inr c"
  by (cases fs rule: cursor_of_fields.cases) (auto simp: and_then_Inr_iff)

text \<open>C40: Pagination cursors survive their text form. Whatever the hash function, a cursor that the constructor accepts from valid
  text is decoded from its own encoding; and whatever text is decoded successfully, the result is a cursor the constructor
  accepts, and the text after the dot is the checksum of the bytes in front of it.\<close>

theorem page_cursor_roundtrip:
  "(page_cursor_new dataset key revision = Inr c \<longrightarrow> valid_utf8 (ascii_bytes dataset) \<longrightarrow> valid_utf8 (ascii_bytes key) \<longrightarrow>
      page_cursor_decode blake3 (page_cursor_encode blake3 c) = Inr c) \<and>
   (page_cursor_decode blake3 e = Inr c \<longrightarrow>
      page_cursor_new (pc_dataset c) (pc_last_key c) (pc_revision c) = Inr c \<and>
      (\<exists>payload sum. e = payload @ CHR ''.'' # sum \<and> hex_pairs sum = cursor_checksum blake3 (hex_pairs payload)))"
proof (intro conjI impI)
  assume new: "page_cursor_new dataset key revision = Inr c"
    and utf8: "valid_utf8 (ascii_bytes dataset)" "valid_utf8 (ascii_bytes key)"
  then have c: "pc_dataset c = dataset" "pc_last_key c = key" "pc_revision c = revision" "nul \<notin> set dataset" "nul \<notin> set key"
    by (auto simp: page_cursor_new_def split: if_splits)
  let ?text = "cursor_payload c" and ?bytes = "ascii_bytes (cursor_payload c)"
  let ?sum = "encode_hex (cursor_checksum blake3 ?bytes)"
  have fields: "split_on nul ?text = [dataset, key, dec_string (unat revision)]"
    using c nul_not_digit [of "unat revision"] by (simp add: cursor_payload_def)
  have "?bytes = ascii_bytes dataset @ ascii_bytes [nul] @ ascii_bytes key @ ascii_bytes [nul] @ ascii_bytes (dec_string (unat revision))"
    by (simp add: cursor_payload_def c flip: ascii_bytes_append)
  moreover have "str_is_ascii [nul]" by (simp add: str_is_ascii_def byte_of_def)
  ultimately have valid: "valid_utf8 ?bytes"
    by (simp only:) (intro valid_utf8_append utf8 valid_utf8_ascii dec_string_ascii)
  have len: "length (cursor_checksum blake3 ?bytes) = 16" by (simp add: cursor_checksum_def)
  have enc: "page_cursor_encode blake3 c = encode_hex ?bytes @ CHR ''.'' # ?sum" by (simp add: page_cursor_encode_def Let_def)
  have dots: "count_list (page_cursor_encode blake3 c) (CHR ''.'') = 1"
    unfolding enc by (simp add: count_list_0_iff dot_not_hex)
  have "page_cursor_decode blake3 (page_cursor_encode blake3 c) = cursor_of_fields (split_on nul ?text)"
    unfolding page_cursor_decode_def dots by (simp add: enc dot_not_hex len api_decode_hex_encode valid)
  also have "\<dots> = Inr c" unfolding fields by (simp add: parse_u64_dec_string new)
  finally show "page_cursor_decode blake3 (page_cursor_encode blake3 c) = Inr c" .
next
  assume dec: "page_cursor_decode blake3 e = Inr c"
  then obtain p s payload where split: "split_once (CHR ''.'') e = Some (p, s)" and p: "api_decode_hex p = Inr payload"
    and s: "api_decode_hex s = Inr (cursor_checksum blake3 payload)" and f: "cursor_of_fields (split_on nul (text_of_bytes payload)) = Inr c"
    unfolding page_cursor_decode_def by (auto simp: and_then_Inr_iff ok_or_Inr_iff split: if_splits)
  from cursor_of_fields_Inr [OF f] obtain d k r where "page_cursor_new d k r = Inr c" by blast
  then show "page_cursor_new (pc_dataset c) (pc_last_key c) (pc_revision c) = Inr c"
    by (auto simp: page_cursor_new_def split: if_splits)
  have "e = p @ CHR ''.'' # s" using split by (rule split_once_SomeD)
  moreover have "hex_pairs s = cursor_checksum blake3 (hex_pairs p)" using p s by (auto simp: api_decode_hex_def split: if_splits)
  ultimately show "\<exists>payload sum. e = payload @ CHR ''.'' # sum \<and> hex_pairs sum = cursor_checksum blake3 (hex_pairs payload)" by blast
qed

theorem page_cursor_roundtrip_witness:
  "page_cursor_decode (\<lambda>_. 7) (page_cursor_encode (\<lambda>_. 7) \<lparr>pc_dataset = ''blocks'', pc_last_key = ''k'', pc_revision = 12\<rparr>) =
     Inr \<lparr>pc_dataset = ''blocks'', pc_last_key = ''k'', pc_revision = 12\<rparr>"
proof -
  have "page_cursor_new ''blocks'' ''k'' 12 = Inr \<lparr>pc_dataset = ''blocks'', pc_last_key = ''k'', pc_revision = 12\<rparr>"
    by code_simp
  moreover have "valid_utf8 (ascii_bytes ''blocks'')" "valid_utf8 (ascii_bytes ''k'')"
    by (rule valid_utf8_ascii, code_simp)+
  ultimately show ?thesis using page_cursor_roundtrip by blast
qed

text \<open>C39: The normaliser and the public contract accept the same statuses. For any accepted source set, an EVM fact can be derived
  with a revision, canonicality and finality exactly when a response can be qualified with them; and a Solana fact can be
  derived with a status exactly when a complete response without recovery or divergence can be qualified with it.\<close>

theorem fact_statuses_are_servable:
  assumes "validated_sources sources = Inr ids"
  shows "((\<exists>c. evm_context_new network canonicality finality revision = Inr c) \<longleftrightarrow>
      (\<exists>t. evm_truth_new network sources revision canonicality finality compl coverage as_of = Inr t)) \<and>
    (length ids = 2 \<longrightarrow>
      (\<exists>c. solana_context_new canonicality commitment revision tier = Inr c) \<longleftrightarrow>
      (\<exists>t. solana_truth_new T sources revision fork canonicality commitment Complete (solana_coverage_new 2 0 False False) False [] as_of = Inr t))"
proof -
  have "api_valid_finality network finality = valid_finality network finality" by (cases network) simp_all
  then have evm: "(\<exists>c. evm_context_new network canonicality finality revision = Inr c) \<longleftrightarrow>
      (\<exists>t. evm_truth_new network sources revision canonicality finality compl coverage as_of = Inr t)"
    by (simp add: assms evm_context_new_def evm_truth_new_def known_canonicality_def)
  have "consistent_solana canonicality commitment \<Longrightarrow> canonicality \<in> {''candidate'', ''canonical'', ''non_canonical''} \<and>
      commitment \<in> {''received'', ''processed'', ''confirmed'', ''finalized'', ''dead''}"
    unfolding consistent_solana_def by (simp only: split: if_split_asm) auto
  then have truth: "length ids = 2 \<Longrightarrow>
      (\<exists>t. solana_truth_new T sources revision fork canonicality commitment Complete (solana_coverage_new 2 0 False False) False [] as_of = Inr t) \<longleftrightarrow>
      revision \<noteq> 0 \<and> consistent_solana canonicality commitment"
    unfolding solana_truth_new_def assms and_then_simps solana_coverage_new_def Let_def
    by (cases "consistent_solana canonicality commitment") simp_all
  have "consistent_status canonicality commitment = consistent_solana canonicality commitment"
    unfolding consistent_status_def consistent_solana_def by simp
  then have "(\<exists>c. solana_context_new canonicality commitment revision tier = Inr c) \<longleftrightarrow> revision \<noteq> 0 \<and> consistent_solana canonicality commitment"
    unfolding solana_context_new_def by simp
  with evm truth show ?thesis by blast
qed

theorem fact_statuses_are_servable_witness:
  "\<exists>t. solana_truth_new \<lparr>key_text = (\<lambda>_. ''k''), signature_text = (\<lambda>_. ''s'')\<rparr> [''b'', ''a''] 1 (ForkId (Slot 1) 0) ''canonical'' ''finalized''
     Complete (solana_coverage_new 2 0 False False) False [] 0 = Inr t"
proof -
  have "validated_sources [''b'', ''a''] = Inr [''a'', ''b'']" by code_simp
  moreover have "\<exists>c. solana_context_new ''canonical'' ''finalized'' 1 AllTransactions = Inr c"
    by (simp add: solana_context_new_def consistent_status_def)
  ultimately show ?thesis using fact_statuses_are_servable [of "[''b'', ''a'']" "[''a'', ''b'']" EthereumMainnet
        "''canonical''" "''safe''" 1 Complete "evm_coverage_new True False False" 0 "''finalized''" AllTransactions
        "\<lparr>key_text = (\<lambda>_. ''k''), signature_text = (\<lambda>_. ''s'')\<rparr>" "ForkId (Slot 1) 0"] by simp
qed

end
