(* ===== verification/Services.thy ===== *)
theory Services
  imports Mempool_Alert Bitcoin_Backfill Bitcoin_Rpc Fact_Store Checkpoint_Stores Wal_Properties
begin

text \<open>
  The request handlers of \<open>services/query-api\<close>, the frame of \<open>services/stream-gateway\<close> and the deterministic source of
  \<open>services/fixture-source\<close>. A response is its status with its body; routing, JSON and sockets are the framework's. The answers of the
  network probes are arguments.
\<close>

section \<open>Responses\<close>

datatype 'b http_response =
    HttpOk 'b
  | HttpBadRequest string
  | HttpNotFound string
  | HttpBadGateway string
  | HttpServiceUnavailable 'b

section \<open>Readiness\<close>

datatype probe_status = ProbeReady | ProbeUnavailable

definition probe_of :: "bool \<Rightarrow> probe_status" where
  "probe_of b = (if b then ProbeReady else ProbeUnavailable)"

record health_response =
  hl_component :: string
  hl_live :: bool

record readiness_response =
  rd_component :: string
  rd_ready :: bool
  rd_broker :: probe_status
  rd_clickhouse :: probe_status
  rd_postgres :: probe_status
  rd_broker_checkpoint :: probe_status
  rd_archive_checkpoint :: probe_status

record dependency_readiness =
  dr_source_id :: string
  dr_source_session_id :: source_session_id

fun loaded :: "'e + 'c option \<Rightarrow> bool" where
  "loaded (Inr (Some _)) = True"
| "loaded _ = False"

definition readiness_check :: "bool \<Rightarrow> bool \<Rightarrow> bool \<Rightarrow> dependency_readiness \<Rightarrow> pg_store \<Rightarrow> readiness_response \<times> pg_store" where
  "readiness_check broker clickhouse postgres d s =
     (let (b, s1) = pg_load Broker (dr_source_id d) (dr_source_session_id d) s;
          (a, s2) = pg_load checkpoint_kind.Archive (dr_source_id d) (dr_source_session_id d) s1
      in (\<lparr>rd_component = ''query-api'', rd_ready = (broker \<and> clickhouse \<and> postgres \<and> loaded b \<and> loaded a),
           rd_broker = probe_of broker, rd_clickhouse = probe_of clickhouse, rd_postgres = probe_of postgres,
           rd_broker_checkpoint = probe_of (loaded b), rd_archive_checkpoint = probe_of (loaded a)\<rparr>, s2))"

definition live :: "health_response http_response" where
  "live = HttpOk \<lparr>hl_component = ''query-api'', hl_live = True\<rparr>"

definition ready :: "bool \<Rightarrow> bool \<Rightarrow> bool \<Rightarrow> dependency_readiness \<Rightarrow> pg_store \<Rightarrow> readiness_response http_response \<times> pg_store" where
  "ready broker clickhouse postgres d s =
     (let (r, s') = readiness_check broker clickhouse postgres d s
      in (if rd_ready r then HttpOk r else HttpServiceUnavailable r, s'))"

definition database_scheme :: "string \<Rightarrow> string" where
  "database_scheme url = (case split_once_text ''://'' url of None \<Rightarrow> ''unknown'' | Some (scheme, _) \<Rightarrow> scheme)"

section \<open>Facts\<close>

definition fixture_route ::
  "(stored_fact_row list \<Rightarrow> stored_fact_row list) \<Rightarrow> string \<Rightarrow> clickhouse \<Rightarrow> fixture_fact_view http_response \<times> clickhouse" where
  "fixture_route server_order fixture_id s =
     (case fixture_query server_order fixture_id s of
        (Inr (Some f), s') \<Rightarrow> (HttpOk f, s')
      | (Inr None, s') \<Rightarrow> (HttpNotFound ''fixture_not_found'', s')
      | (Inl _, s') \<Rightarrow> (HttpBadGateway ''fact_store_unavailable'', s'))"

definition lineage_route ::
  "(stored_fact_row list \<Rightarrow> stored_fact_row list) \<Rightarrow> string \<Rightarrow> clickhouse \<Rightarrow> fixture_lineage http_response \<times> clickhouse" where
  "lineage_route server_order fact_id s =
     (case fact_query server_order fact_id s of
        (Inr (Some f), s') \<Rightarrow> (HttpOk (fv_lineage f), s')
      | (Inr None, s') \<Rightarrow> (HttpNotFound ''fact_not_found'', s')
      | (Inl _, s') \<Rightarrow> (HttpBadGateway ''fact_store_unavailable'', s'))"

record stream_frame =
  sfm_frame_type :: string
  sfm_facts :: "fixture_fact_view list"

definition stream_snapshot :: "fixture_fact_view list \<Rightarrow> stream_frame" where
  "stream_snapshot facts = \<lparr>sfm_frame_type = ''snapshot'', sfm_facts = facts\<rparr>"

text \<open>The frame sent after an upgrade, if any.\<close>

definition stream_upgrade ::
  "(stored_fact_row list \<Rightarrow> stored_fact_row list) \<Rightarrow> (stream_frame \<Rightarrow> string option) \<Rightarrow> clickhouse \<Rightarrow> string option \<times> clickhouse" where
  "stream_upgrade server_order json s =
     (case current_facts server_order s of
        (Inl _, s') \<Rightarrow> (None, s')
      | (Inr facts, s') \<Rightarrow> (json (stream_snapshot facts), s'))"

section \<open>Replay requests\<close>

record replay_request =
  rr_source_id :: string
  rr_start_height :: u32
  rr_end_height_inclusive :: u32
  rr_max_in_flight :: nat

record replay_validation =
  rv_request_hash :: string
  rv_source_id :: string
  rv_start_height :: u32
  rv_end_height_inclusive :: u32
  rv_block_count :: u64
  rv_max_in_flight :: nat

text \<open>The subtraction of the heights panics on overflow, which is \<open>None\<close>.\<close>

definition validated_response :: "bitcoin_lib \<Rightarrow> replay_request \<Rightarrow> (backfill_error + replay_validation) option" where
  "validated_response L q =
     (case backfill_request_new (rr_source_id q) (rr_start_height q) (rr_end_height_inclusive q) (rr_max_in_flight q) of
        Inl e \<Rightarrow> Some (Inl e)
      | Inr r \<Rightarrow>
          if rq_end_height r < rq_start_height r then None
          else Some (Inr \<lparr>rv_request_hash = encode_hex (be_bytes 32 (unat (request_hash L r))), rv_source_id = rq_source_id r,
            rv_start_height = rq_start_height r, rv_end_height_inclusive = rq_end_height r,
            rv_block_count = saturating_add (of_nat (unat (rq_end_height r - rq_start_height r))) 1,
            rv_max_in_flight = rq_max_in_flight r\<rparr>))"

definition validate_route :: "bitcoin_lib \<Rightarrow> replay_request \<Rightarrow> replay_validation http_response option" where
  "validate_route L q = map_option (\<lambda>r. case r of
       Inr v \<Rightarrow> HttpOk v | Inl _ \<Rightarrow> HttpBadRequest ''invalid_bitcoin_replay_request'') (validated_response L q)"

definition source_error :: "(rpc_error \<Rightarrow> string) \<Rightarrow> rpc_error \<Rightarrow> backfill_error" where
  "source_error shown e = SourceFailed (shown e)"

text \<open>The backfill source over any RPC port, with its answers as arguments.\<close>

definition rpc_best_block_hash :: "(rpc_error \<Rightarrow> string) \<Rightarrow> rpc_error + digest \<Rightarrow> backfill_error + digest" where
  "rpc_best_block_hash shown best = map_sum (source_error shown) id best"

definition rpc_backfill_source ::
  "(rpc_error \<Rightarrow> string) \<Rightarrow> (u32 \<Rightarrow> rpc_error + digest) \<Rightarrow> (digest \<Rightarrow> rpc_error + bytes) \<Rightarrow> backfill_source" where
  "rpc_backfill_source shown hash_at block_of = \<lparr>
     src_block_hash = (\<lambda>h. map_sum (source_error shown) id (hash_at h)),
     src_raw_block = (\<lambda>h. map_sum (source_error shown) id (block_of h))\<rparr>"

section \<open>Alert previews\<close>

definition MAX_PREVIEW_REVISIONS :: nat where "MAX_PREVIEW_REVISIONS = 1000"

datatype degraded_policy_request = SuppressRequest | EvaluateHealthyQuorumRequest
datatype completeness_request = CompleteRequest | KnownIncompleteRequest | RecoveredRequest
datatype snapshot_cause_request = ObservedRequest | RecoveredCauseRequest | CorrectionRequest

fun policy_of_request :: "degraded_policy_request \<Rightarrow> degraded_policy" where
  "policy_of_request SuppressRequest = Suppress"
| "policy_of_request EvaluateHealthyQuorumRequest = EvaluateHealthyQuorum"

fun completeness_of_request :: "completeness_request \<Rightarrow> completeness" where
  "completeness_of_request CompleteRequest = completeness.Complete"
| "completeness_of_request KnownIncompleteRequest = completeness.KnownIncomplete"
| "completeness_of_request RecoveredRequest = completeness.Recovered"

fun cause_of_request :: "snapshot_cause_request \<Rightarrow> snapshot_cause" where
  "cause_of_request ObservedRequest = ObservedCause"
| "cause_of_request RecoveredCauseRequest = RecoveredCause"
| "cause_of_request CorrectionRequest = CorrectionCause"

record definition_request =
  dq_alert_id :: string
  dq_min_fee_rate_sat_vb :: u64
  dq_threshold_vbytes :: u64
  dq_quorum_required :: u16
  dq_for_evaluations :: u16
  dq_cooldown_seconds :: u64
  dq_degraded_policy :: degraded_policy_request

record snapshot_request =
  sr_network :: string
  sr_revision :: u64
  sr_observed_at_unix_seconds :: i64
  sr_min_fee_rate_sat_vb :: u64
  sr_vbytes :: u64
  sr_quorum_required :: u16
  sr_eligible_sources :: "string list"
  sr_unavailable_sources :: "string list"
  sr_completeness :: completeness_request
  sr_cause :: snapshot_cause_request

record preview_request =
  pq_definition :: definition_request
  pq_snapshots :: "snapshot_request list"

record preview_response =
  pp_evaluations :: "alert_evaluation list"
  pp_final_active :: bool

definition definition_of_request :: "definition_request \<Rightarrow> mempool_alert_error + alert_definition" where
  "definition_of_request q = alert_definition_new (dq_alert_id q) (dq_min_fee_rate_sat_vb q) (dq_threshold_vbytes q)
     (dq_quorum_required q) (dq_for_evaluations q) (dq_cooldown_seconds q) (policy_of_request (dq_degraded_policy q))"

definition snapshot_of_request :: "snapshot_request \<Rightarrow> mempool_alert_error + fee_band_snapshot" where
  "snapshot_of_request q = fee_band_snapshot_new (sr_network q) (sr_revision q) (sr_observed_at_unix_seconds q)
     (sr_min_fee_rate_sat_vb q) (sr_vbytes q) (sr_quorum_required q) (sr_eligible_sources q) (sr_unavailable_sources q)
     (completeness_of_request (sr_completeness q)) (cause_of_request (sr_cause q))"

text \<open>\<open>None\<close> is a panic of the evaluator, \<open>Some None\<close> the early return of the preview.\<close>

fun preview_loop :: "(bytes \<Rightarrow> digest) \<Rightarrow> snapshot_request list \<Rightarrow> alert_evaluator \<Rightarrow> alert_evaluation list \<Rightarrow> alert_evaluation list option option" where
  "preview_loop b3 [] e vs = Some (Some vs)"
| "preview_loop b3 (q # qs) e vs =
     (case snapshot_of_request q of
        Inl _ \<Rightarrow> Some None
      | Inr s \<Rightarrow>
          (case evaluate b3 s e of
             None \<Rightarrow> None
           | Some (Inl _, _) \<Rightarrow> Some None
           | Some (Inr v, e') \<Rightarrow> preview_loop b3 qs e' (vs @ [v])))"

definition evaluate_preview :: "(bytes \<Rightarrow> digest) \<Rightarrow> preview_request \<Rightarrow> preview_response option option" where
  "evaluate_preview b3 q =
     (if pq_snapshots q = [] \<or> MAX_PREVIEW_REVISIONS < length (pq_snapshots q) then Some None
      else case definition_of_request (pq_definition q) of
          Inl _ \<Rightarrow> Some None
        | Inr d \<Rightarrow> map_option (map_option (\<lambda>vs. \<lparr>pp_evaluations = vs,
            pp_final_active = (case last_opt vs of None \<Rightarrow> False | Some v \<Rightarrow> ae_active v)\<rparr>))
            (preview_loop b3 (pq_snapshots q) (evaluator_new d) []))"

definition preview_route :: "(bytes \<Rightarrow> digest) \<Rightarrow> preview_request option \<Rightarrow> preview_response http_response option" where
  "preview_route b3 body =
     (case body of
        None \<Rightarrow> Some (HttpBadRequest ''invalid_alert_preview'')
      | Some q \<Rightarrow> map_option (\<lambda>r. case r of None \<Rightarrow> HttpBadRequest ''invalid_alert_preview'' | Some p \<Rightarrow> HttpOk p) (evaluate_preview b3 q))"

section \<open>The fixture source\<close>

definition PHASE0_FIXTURE_ID :: string where "PHASE0_FIXTURE_ID = ''phase0-001''"
definition PHASE0_SOURCE_ID :: string where "PHASE0_SOURCE_ID = ''phase0-fixture-source''"
definition PHASE0_SESSION_BYTES :: bytes where "PHASE0_SESSION_BYTES = replicate 16 80"
definition OBSERVED_AT_UNIX_NS :: i64 where "OBSERVED_AT_UNIX_NS = 1784808123000000000"
definition OBSERVED_AT_MONOTONIC_NS :: u64 where "OBSERVED_AT_MONOTONIC_NS = 42"

text \<open>The JSON text of the payload, with its quotation marks.\<close>

definition quoted :: "string \<Rightarrow> string" where "quoted s = char_of (34::nat) # s @ [char_of (34::nat)]"

definition PHASE0_PAYLOAD :: bytes where
  "PHASE0_PAYLOAD = ascii_bytes (''{'' @ quoted ''fixture_id'' @ '':'' @ quoted ''phase0-001'' @ '','' @ quoted ''value'' @ '':'' @
     quoted ''exact-source-observation'' @ '','' @ quoted ''source_sequence'' @ '':42}'')"

datatype fixture_source_error =
    FixtureObservation observation_error
  | FixtureWal wal_error
  | FixtureRecovery nat

definition phase0_observation :: "(bytes \<Rightarrow> digest) \<Rightarrow> (bytes \<Rightarrow> digest) \<Rightarrow> fixture_source_error + observation" where
  "phase0_observation sha b3 =
     and_then (map_sum FixtureObservation id (session_try_from PHASE0_SESSION_BYTES)) (\<lambda>session.
     map_sum FixtureObservation id (build sha b3 (builder_new
       \<lparr>bu_source_id := Some PHASE0_SOURCE_ID, bu_source_session_id := Some session, bu_collector_sequence := Some 0,
        bu_chain := Some ''bitcoin'', bu_network := Some ''mainnet'', bu_channel := Some ''fixture'',
        bu_source_message_type := Some ''phase0_fixture'', bu_source_sequence := Some 42,
        bu_observed_at_unix_ns := Some OBSERVED_AT_UNIX_NS, bu_observed_at_monotonic_ns := Some OBSERVED_AT_MONOTONIC_NS,
        bu_payload := Some PHASE0_PAYLOAD\<rparr>)))"

text \<open>Append, commit and seal; the first failure ends it, and the log stays as it is then.\<close>

definition commit_fixture :: "wal_lib \<Rightarrow> observation \<Rightarrow> file_wal \<Rightarrow> (fixture_source_error + unit) \<times> file_wal" where
  "commit_fixture W ob w =
     (case wal_append W ob w of
        (Inl e, w1) \<Rightarrow> (Inl (FixtureWal e), w1)
      | (Inr _, w1) \<Rightarrow>
          (case group_commit W (OBSERVED_AT_UNIX_NS + 1) w1 of
             (Inl e, w2) \<Rightarrow> (Inl (FixtureWal e), w2)
           | (Inr _, w2) \<Rightarrow> (case seal W w2 of (r, w3) \<Rightarrow> (map_sum FixtureWal (\<lambda>_. ()) r, w3))))"

definition write_fixture_to_wal ::
  "wal_lib \<Rightarrow> string \<Rightarrow> observation \<Rightarrow> file_system \<Rightarrow> (fixture_source_error + file_wal) \<times> file_system" where
  "write_fixture_to_wal W directory ob fs =
     (let path = directory @ ''/phase0-fixture.wal'' in
      case session_try_from PHASE0_SESSION_BYTES of
        Inl e \<Rightarrow> (Inl (FixtureObservation e), fs)
      | Inr session \<Rightarrow>
          (case wal_open W path
              \<lparr>cfg_source_session_id = session, cfg_max_bytes = 64 * 1024, cfg_group_commit_interval_ns = 5 * 1000000\<rparr> fs of
             (Inl e, fs') \<Rightarrow> (Inl (FixtureWal e), fs')
           | (Inr (w, rep), fs') \<Rightarrow>
               if rr_incidents rep \<noteq> [] then (Inl (FixtureRecovery (length (rr_incidents rep))), fs')
               else case commit_fixture W ob w of (r, w') \<Rightarrow> (map_sum id (\<lambda>_. w') r, fmupd path (fw_file w') fs')))"

section \<open>What the handlers guarantee\<close>

text \<open>A ready answer means durable coverage: both checkpoints of the configured session are in the table.\<close>

theorem ready_means_covered:
  assumes "pg_ok s" "readiness_check broker clickhouse postgres d s = (r, s')" "rd_ready r"
  shows "pg_view s (Broker, dr_source_id d, dr_source_session_id d) \<noteq> None \<and>
    pg_view s (checkpoint_kind.Archive, dr_source_id d, dr_source_session_id d) \<noteq> None"
proof -
  obtain b s1 where b: "pg_load Broker (dr_source_id d) (dr_source_session_id d) s = (b, s1)" by fastforce
  obtain a s2 where a: "pg_load checkpoint_kind.Archive (dr_source_id d) (dr_source_session_id d) s1 = (a, s2)" by fastforce
  have "loaded b \<and> loaded a" using assms(2,3) by (auto simp: readiness_check_def a b)
  then obtain x y where "b = Inr (Some x)" "a = Inr (Some y)" by (metis loaded.elims(2))
  moreover note postgres_store.load_result [OF assms(1) b] postgres_store.load_result [of s1, OF _ a]
  ultimately show ?thesis by (auto simp: map_option_case split: option.splits)
qed

text \<open>A validated replay request is exactly as long as the backfill it describes, and the count never overflows.\<close>

theorem replay_count_is_backfill_length:
  "(validated_response L q \<noteq> None) \<and>
   (validated_response L q = Some (Inr v) \<longrightarrow>
      (\<exists>r. backfill_request_new (rr_source_id q) (rr_start_height q) (rr_end_height_inclusive q) (rr_max_in_flight q) = Inr r \<and>
        unat (rv_block_count v) = length (remaining_heights r (initial_checkpoint L r tip))))"
proof (cases "backfill_request_new (rr_source_id q) (rr_start_height q) (rr_end_height_inclusive q) (rr_max_in_flight q)")
  case (Inl e)
  then show ?thesis by (simp add: validated_response_def)
next
  case (Inr r)
  then have le: "rq_start_height r \<le> rq_end_height r" by (auto simp: backfill_request_new_def split: if_splits)
  then have diff: "unat (rq_end_height r - rq_start_height r) = unat (rq_end_height r) - unat (rq_start_height r)"
    by (simp add: unat_sub)
  have "unat (of_nat n :: u64) = n" if "n < 2 ^ 32" for n using that by (simp add: unat_of_nat)
  moreover have "unat (rq_end_height r - rq_start_height r) < 2 ^ 32" using unsigned_less [of "rq_end_height r - rq_start_height r"] by simp
  ultimately have "unat (of_nat (unat (rq_end_height r - rq_start_height r)) :: u64) = unat (rq_end_height r - rq_start_height r)" by blast
  then have "unat (saturating_add (of_nat (unat (rq_end_height r - rq_start_height r))) 1 :: u64) =
      min (unat (rq_end_height r) - unat (rq_start_height r) + 1) (2 ^ 64 - 1)"
    by (simp only: unat_saturating_add diff) simp
  moreover have "unat (rq_end_height r) < 2 ^ 32" using unsigned_less [of "rq_end_height r"] by simp
  ultimately show ?thesis using Inr le
    by (auto simp: validated_response_def remaining_heights_def initial_checkpoint_def word_le_nat_alt word_less_nat_alt min_def Suc_diff_le)
qed

lemma preview_loop_reach:
  assumes "alert_reach b3 d (zip ss vs) e" "length ss = length vs"
    "\<And>h e s. alert_reach b3 d h e \<Longrightarrow> evaluate b3 s e \<noteq> None"
  shows "preview_loop b3 qs e vs \<noteq> None \<and>
    (\<forall>ws. preview_loop b3 qs e vs = Some (Some ws) \<longrightarrow>
      (\<exists>ts e'. list_all2 (\<lambda>q t. snapshot_of_request q = Inr t) qs ts \<and> length ws = length (ss @ ts) \<and>
        alert_reach b3 d (zip (ss @ ts) ws) e'))"
  using assms(1,2)
proof (induction qs arbitrary: e ss vs)
  case (Cons q qs)
  show ?case
  proof (cases "snapshot_of_request q")
    case (Inr s)
    obtain r e1 where step: "evaluate b3 s e = Some (r, e1)" using assms(3) [OF Cons.prems(1)] by fastforce
    show ?thesis
    proof (cases r)
      case (Inl x)
      then show ?thesis using Inr step by simp
    next
      case r: (Inr v)
      have "alert_reach b3 d (zip (ss @ [s]) (vs @ [v])) e1"
        using alert_accept [OF Cons.prems(1), of s v e1] step r Cons.prems(2) by simp
      from Cons.IH [OF this] Cons.prems(2) have ih: "preview_loop b3 qs e1 (vs @ [v]) \<noteq> None \<and>
        (\<forall>ws. preview_loop b3 qs e1 (vs @ [v]) = Some (Some ws) \<longrightarrow>
          (\<exists>ts e'. list_all2 (\<lambda>q t. snapshot_of_request q = Inr t) qs ts \<and> length ws = length ((ss @ [s]) @ ts) \<and>
            alert_reach b3 d (zip ((ss @ [s]) @ ts) ws) e'))" by simp
      have same: "preview_loop b3 (q # qs) e vs = preview_loop b3 qs e1 (vs @ [v])" by (simp add: Inr step r)
      show ?thesis unfolding same
      proof (intro conjI allI impI)
        fix ws
        assume "preview_loop b3 qs e1 (vs @ [v]) = Some (Some ws)"
        then obtain ts e' where "list_all2 (\<lambda>q t. snapshot_of_request q = Inr t) qs ts" "length ws = length ((ss @ [s]) @ ts)"
          "alert_reach b3 d (zip ((ss @ [s]) @ ts) ws) e'" using ih by blast
        then show "\<exists>ts e'. list_all2 (\<lambda>q t. snapshot_of_request q = Inr t) (q # qs) ts \<and> length ws = length (ss @ ts) \<and>
            alert_reach b3 d (zip (ss @ ts) ws) e'" using Inr by (intro exI [of _ "s # ts"] exI [of _ e']) simp
      qed (use ih in blast)
    qed
  qed simp
qed (use assms(2) in auto)

text \<open>The preview of an alert is a run of the real evaluator and returns for every request. The handler never panics; when it
  answers with evaluations, there is one for every snapshot of the request, in order, and they are the evaluations of an
  evaluator that started on the definition of the request and accepted exactly these snapshots.\<close>

theorem preview_is_evaluator_run:
  "evaluate_preview b3 q \<noteq> None \<and>
   (evaluate_preview b3 q = Some (Some p) \<longrightarrow>
      (\<exists>d ss e. definition_of_request (pq_definition q) = Inr d \<and> list_all2 (\<lambda>x s. snapshot_of_request x = Inr s) (pq_snapshots q) ss \<and>
        length (pp_evaluations p) = length ss \<and> alert_reach b3 d (zip ss (pp_evaluations p)) e))"
proof (cases "definition_of_request (pq_definition q)")
  case (Inl e)
  then show ?thesis by (simp add: evaluate_preview_def)
next
  case (Inr d)
  then have cooldown: "unat (ad_cooldown_seconds d) < 2 ^ 63"
    by (auto simp: definition_of_request_def alert_definition_new_def split: if_splits)
  have "alert_reach b3 d h e \<Longrightarrow> evaluate b3 s e \<noteq> None" for h e s
    using evaluate_returns [OF alert_reach_inv] cooldown by blast
  from preview_loop_reach [of b3 d "[]" "[]" "evaluator_new d" "pq_snapshots q", OF _ _ this]
  have loop: "preview_loop b3 (pq_snapshots q) (evaluator_new d) [] \<noteq> None \<and>
    (\<forall>ws. preview_loop b3 (pq_snapshots q) (evaluator_new d) [] = Some (Some ws) \<longrightarrow>
      (\<exists>ts e'. list_all2 (\<lambda>q t. snapshot_of_request q = Inr t) (pq_snapshots q) ts \<and> length ws = length ts \<and>
        alert_reach b3 d (zip ts ws) e'))" by (simp add: alert_start)
  show ?thesis
  proof (intro conjI impI)
    show "evaluate_preview b3 q \<noteq> None" using loop by (simp add: evaluate_preview_def Inr)
    assume "evaluate_preview b3 q = Some (Some p)"
    then have "preview_loop b3 (pq_snapshots q) (evaluator_new d) [] = Some (Some (pp_evaluations p))"
      by (auto simp: evaluate_preview_def Inr split: if_splits)
    with loop Inr show "\<exists>d ss e. definition_of_request (pq_definition q) = Inr d \<and>
        list_all2 (\<lambda>x s. snapshot_of_request x = Inr s) (pq_snapshots q) ss \<and>
        length (pp_evaluations p) = length ss \<and> alert_reach b3 d (zip ss (pp_evaluations p)) e" by blast
  qed
qed

end
