(* ===== verification/Spec2Isabelle.thy ===== *)
theory Spec2Isabelle
  imports Bitcoin_Properties Ethereum_Canonicality Bsc_Canonicality Solana_Properties Lineage Mempool_Aggregate Mempool_Graph
    Wal_Properties Source_Properties Reorg_Alert Bitcoin_Backfill Archive_Properties Alert_Properties
    Evm_Decoder Fact_Store_Properties Bitcoin_Observer_Properties Evm_Connectors Yellowstone_Properties
    Api_Contract Services
begin

text \<open>
  \<^bold>\<open>Verification of multichain-rs.\<close>

  The program observes Bitcoin, Ethereum, BNB Smart Chain and Solana nodes. Connectors poll a node; every message is
  written to a write-ahead log before anything else sees it; committed observations are published to a broker and archived
  as immutable objects; processors derive the canonical state of each chain, mempool views, alerts and the record of
  source coverage. The development follows that path. Each theory is a component, translated from the files it names;
  the properties of the manifest stand in the theory of their component or in a theory of properties beside it.

  \<^bold>\<open>Conventions.\<close>
  \<^item> \<open>Prelude\<close>: machine integers are words, with checked, saturating and wrapping arithmetic written out; \<open>Result\<close> is a sum with
    \<open>Inl\<close> the error, chained by \<open>and_then\<close>; big-endian bytes, decimal and hexadecimal text.
  \<^item> An operation with \<open>&mut self\<close> returns its result and the new state, also when it fails. \<open>None\<close> as the result of such an
    operation is a loop that does not return or a panic; a theorem that an operation returns excludes it.
  \<^item> \<open>HashMap\<close> and \<open>HashSet\<close> are finite maps and sets; where the code depends on an order it sorts, and so does the model.
  \<^item> SHA-256, BLAKE3, CRC-32C, Protobuf, JSON, Zstandard, the calendar and the Bitcoin consensus decoder are fields of library
    records (\<open>bitcoin_lib\<close>, \<open>wal_lib\<close>, \<open>archive_lib\<close>, \<open>store_lib\<close>) that the definitions take as arguments. What a theorem needs of
    them is a hypothesis by name: \<open>codec_roundtrip\<close> and \<open>archive_codec\<close> (decoding inverts encoding), \<open>torn_detected\<close> (the checksum
    tells a cut frame), \<open>authentic U\<close> and \<open>inj_on (manifest_hash K) M\<close> (no collision among the inputs that occur).
  \<^item> A call of Postgres, the object store or the broker consumes an \<open>io_answer\<close>; a failed call may or may not have taken effect.
    Theorems quantify over all answers, and a run supplies new answers for every step.

  \<^item> \<open>Text_Encoding\<close>: hexadecimal and UTF-8 text, splitting and truncation at a character boundary.

  \<^bold>\<open>Bitcoin.\<close>
  \<^item> \<open>Bitcoin_Domain\<close> (\<open>crates/bitcoin-domain\<close>, \<open>crates/chain-domain/src/network.rs\<close>): amounts, outpoints, work, transactions, blocks.
  \<^item> \<open>Bitcoin_Utxo\<close>, \<open>Bitcoin_Dag\<close>, \<open>Bitcoin_State\<close> (\<open>processors/bitcoin-canonicality/src/utxo.rs\<close>, \<open>dag.rs\<close>, \<open>state.rs\<close>): the unspent outputs
    with their undo records, the candidate blocks with cumulative work, and their composition. The interfaces are \<open>Undo_Log\<close> (a
    reversible projection) and \<open>Chain_Projection\<close> (a projection that follows a chain), both interpreted on the model.
  \<^item> \<open>Bitcoin_Properties\<close>: the projection equals a replay of the canonical branch; the tip has the most work; operations are
    atomic; reverting undoes applying; value is conserved; an overflow of the input sum loses the entry being spent.
  \<^item> \<open>Bitcoin_Backfill\<close> (\<open>backfill.rs\<close>): resumable historical replay with its stages and checkpoints, over failing runs
    of which each has its own source; archiving a height comes first, archiving the block only when the sources agree.
  \<^item> \<open>Mempool_State\<close>, \<open>Mempool_Aggregate\<close>, \<open>Mempool_Graph\<close> (\<open>processors/bitcoin-mempool\<close>): observer-local membership with epochs, the
    view over several observers, conflicts and packages. The package search equals the connected component.

  \<^bold>\<open>Ethereum and BSC.\<close>
  \<^item> \<open>Evm_Domain\<close> (\<open>crates/evm-domain\<close>): networks, statuses, amounts, transactions, logs, receipts, blocks, recorded JSON blocks.
  \<^item> \<open>Execution_Chain\<close>, \<open>Ethereum_Canonicality\<close>, \<open>Bsc_Canonicality\<close> (\<open>processors/evm-canonicality/src/lib.rs\<close>): both trackers
    keep the contract \<open>chain_tracker\<close>, so the finalized prefix is permanent and the canonical map is a linked chain; every
    operation returns and fails without effect; the ancestor walk terminates and decides ancestry.

  \<^bold>\<open>Solana.\<close>
  \<^item> \<open>Solana_Domain\<close>, \<open>Solana_Canonicality\<close>, \<open>Parent_Links\<close> (\<open>crates/solana-domain\<close>, \<open>processors/solana-canonicality\<close>): the fork graph, the
    commitment history and the account projection. \<open>Solana_Properties\<close>: the projection replays the active branch and is reversible,
    commitments only advance, dead forks are subtrees, and a late write of an ancestor is not projected.

  \<^bold>\<open>Facts and decoders.\<close>
  \<^item> \<open>Native_Rows\<close>, \<open>Bitcoin_Facts\<close>, \<open>Evm_Facts\<close>, \<open>Solana_Facts\<close> (\<open>processors/native-normalizer/src/bitcoin.rs\<close>, \<open>evm.rs\<close>, \<open>solana.rs\<close>): the rows
    derived from a block or a transaction, with their context and lineage. The rows of a Bitcoin block and of a Solana transaction
    determine it; the rows of an EVM block join as the block does; the status text of an included candidate is not accepted.
  \<^item> \<open>Fact_Envelope\<close>, \<open>Fact_Store\<close>, \<open>Fact_Store_Properties\<close> (\<open>crates/fact-envelope\<close>, \<open>processors/native-normalizer/src/lib.rs\<close>, \<open>main.rs\<close>): fixture
    facts, the gaps of collector sequences (exactly what is missing), the tables with calls that may fail, and the consumer
    loop: facts are stored at least once and counted once, no row lacks its parent, a foreign record stops the loop, and the
    current projection of a fixture with several facts is not determined.
  \<^item> \<open>Deployment_Registry\<close> is the contract of a registry of versioned deployments; \<open>Evm_Decoder\<close> and \<open>Solana_Decoder\<close>
    (\<open>processors/evm-decoder\<close>, \<open>processors/solana-decoder\<close>) interpret it: at most one deployment covers a contract at a block, and every
    decode revision is attributed to it.

  \<^bold>\<open>From a source to the log.\<close>
  \<^item> \<open>Observation_Envelope\<close> (\<open>crates/observation-envelope\<close>, the generated records): identities and validated construction.
  \<^item> \<open>Wal_Format\<close>, \<open>Wal_Recovery\<close>, \<open>Wal_Writer\<close> (\<open>crates/wal\<close>): frames, scan, recovery, quarantine, appends, group commits and seals
    over the bytes of a segment. \<open>Wal_Log\<close> is the contract \<open>observation_wal\<close>, \<open>Wal_Invariant\<close> says what the bytes mean, \<open>Wal_Crash\<close>
    what a crash leaves. \<open>Wal_Properties\<close>: the file refines the abstract log over any run. In a run a crash happens between two
    operations and cuts the pending appends anywhere; a crash inside a group commit, which cuts the commit frame, is a property
    of its own: it quarantines the segment.
  \<^item> \<open>Source_Capture\<close>, \<open>Source_Runtime\<close> (\<open>crates/source-capture\<close>, \<open>crates/source-runtime\<close>): capture sessions, back-off, health, coverage and the
    polling loop. \<open>Source_Properties\<close>: what the loop publishes is durable in the log, in order, and a capture that is not
    poisoned is in step with its log.

  \<^bold>\<open>Connectors.\<close>
  \<^item> \<open>Ip_Address\<close>, \<open>Bitcoin_Connector\<close>, \<open>Bitcoin_Rpc\<close> (\<open>connectors/bitcoin-core\<close>): deployments and their endpoint check (which ignores
    what follows the last colon of the authority), ZMQ frames, sessions, health, the JSON-RPC client with bounded attempts, and the
    recovery of blocks, which returns exactly the path above a known block; that walk is a partial function whose value \<open>None\<close>
    is not returning.
  \<^item> \<open>Bitcoin_Observer\<close>, \<open>Bitcoin_Observer_Properties\<close>: the mempool reconciler, durable capture and the loop of \<open>main.rs\<close>. The locale
    \<open>readable_wal\<close> says what the capture engine needs of a log; it is interpreted on the write-ahead log, so that the observer
    publishes exactly what is durable. An incomplete interval is closed only by the next gap.
  \<^item> \<open>Evm_Connectors\<close> (\<open>connectors/ethereum-reth\<close>, \<open>bsc\<close>, \<open>ethereum-consensus\<close>): configuration, poll plans and recorded responses, which the
    trackers accept; accepted consensus slots increase.
  \<^item> \<open>Yellowstone_Connector\<close>, \<open>Yellowstone_Properties\<close> (\<open>connectors/solana-yellowstone\<close>): two providers, their session cursors with exact
    gaps, and the reconciler, which refines a specification over the accepted claims.

  \<^bold>\<open>From the log to the archive.\<close>
  \<^item> \<open>Archive_Format\<close> (\<open>crates/archive-format\<close>): batches, object keys, framing, manifests.
  \<^item> \<open>Storage_Ports\<close> (\<open>crates/storage-ports\<close>): checkpoints, the reclaim check, errors; \<open>Io_Calls\<close> has the Hoare triples for calls that may fail.
  \<^item> \<open>Checkpoint_Stores\<close>, \<open>Broker_Adapters\<close>, \<open>Raw_Archives\<close> (\<open>crates/storage-adapters/src/postgres.rs\<close>, \<open>redpanda.rs\<close>, \<open>s3.rs\<close>): the adapters
    in memory and over the services. The traits are the locales \<open>checkpoint_store\<close>, \<open>broker_publisher\<close>, \<open>manifest_ledger\<close> and
    \<open>object_archive\<close> (\<open>Archive_Ledger\<close>), interpreted on the adapters (\<open>Raw_Archive_Laws\<close> for the archives).
  \<^item> \<open>Archive_Writer\<close> (\<open>services/archive-writer\<close>): the coordinator, and the locale \<open>archive_pipeline\<close> over the three contracts in which its
    Hoare triple is proved. \<open>Archive_Runs\<close> interprets it on Kafka, S3 and Postgres and defines the runs of the stack,
    with batches in any order.
  \<^item> \<open>Archive_Properties\<close>: a segment that is reclaimable has every record delivered and replayable, provided that each batch was
    submitted in turn (\<open>submitted_in_turn\<close>: it skips no sequence above the archive checkpoint), which the code does not check; without
    that a skipped batch becomes reclaimable; manifests form a hash
    chain over disjoint ranges; objects decode to their batch; a batch older than the broker checkpoint is rejected.

  \<^bold>\<open>Coverage, lineage and alerts.\<close>
  \<^item> \<open>Coverage_Ledger\<close>, \<open>Lineage\<close>, \<open>Keyed_Log\<close> (\<open>processors/reconciler\<close>): coverage revisions refine one gap machine per source; the bounded
    trace is the provenance of a record.
  \<^item> \<open>Mempool_Alert\<close>, \<open>Reorg_Alert\<close> (\<open>processors/alert-engine/src/mempool.rs\<close>, \<open>lib.rs\<close>): deliveries alternate, triggers are justified.
  \<^item> \<open>Alert_Store\<close> (\<open>processors/alert-engine/src/persistence.rs\<close> over \<open>schemas/postgres/002_alerts.sql\<close>): definitions, evaluation evidence,
    current state and the outbox. \<open>Alert_Outbox\<close> has the invariant of the tables and a Hoare triple per operation; \<open>Alert_Delivery\<close>
    the contract \<open>alert_sink\<close> of a sink that deduplicates by key, and all interleavings of writers and drains with failures and
    crashes. \<open>Alert_Properties\<close>: the sink mirrors the outbox, the state row is the newest evaluation, a drain delivers what is
    due, replays are duplicates, evaluations of the evaluator are storable, and a second version of a
    definition cannot store the evaluations of the first.

  \<^bold>\<open>Bounds and fuel.\<close> Loops are structural or have a measure, except the walks along parent links, the package search, the
  segment scan and the polling loop: those are partial functions or recursion on the remaining input, and the properties
  that mention them state that they return.

  \<^bold>\<open>Serving.\<close>
  \<^item> \<open>Api_Contract\<close> (\<open>crates/api-contract\<close>): the truth that qualifies a response, mempool views, pagination cursors (read back from their text)
    and stream control. The normaliser and this contract accept the same EVM and Solana statuses.
  \<^item> \<open>Services\<close> (\<open>services/query-api\<close>, \<open>services/stream-gateway\<close>, \<open>services/fixture-source\<close>): the handlers. A ready answer means durable coverage, a
    replay request counts the blocks of its backfill, and an alert preview is a run of the evaluator that always returns.

  \<^bold>\<open>Not modelled.\<close> Transport and process code: routers, HTTP, gRPC and ZeroMQ sockets, SQL text, telemetry, command lines, schema
  installation; generated Protobuf code beyond the records used; script presentation, which is the \<open>bitcoin\<close> package; the
  chain-neutral enumerations of \<open>chain-domain\<close>; test fixtures. File-system failures of the log are not modelled.
  Concurrency is modelled where the code serialises it: a lock or an advisory lock makes a call one step.
\<close>

end
